(* ===== verification/Prelude.thy ===== *)
theory Prelude
  imports Complex_Main "HOL-Library.Word" "HOL-Library.Product_Lexorder"
begin

text \<open>
  Shared vocabulary of the development: machine integer readings, SQL tables as row lists,
  the guard on revision chains, and the generic lemmas the component theories rest on.

  A SQL table is the list of its rows in rowid order. \<open>INSERT\<close> appends a row whose id is
  one more than the largest id (SQLite's rule for an \<open>INTEGER PRIMARY KEY\<close>),
  \<open>UPDATE ... WHERE\<close> is \<open>update_where\<close>, \<open>SELECT ... WHERE\<close> is a
  \<^const>\<open>filter\<close>, \<open>LIMIT 1\<close> is \<^const>\<open>List.find\<close> and \<open>ORDER BY\<close> is
  the stable \<^const>\<open>sort_key\<close>.
  Floating point values are modelled as \<^typ>\<open>real\<close>: finite, without rounding.
\<close>

named_theorems table_simps "rewrite rules for row lists"
named_theorems range_intros "introduction rules for value ranges"

type_synonym row_id = int
type_synonym millis = int
type_synonym seconds = int

section \<open>Machine integers\<close>

text \<open>Rust's \<open>as u32\<close> on an \<open>i64\<close> keeps the low 32 bits.\<close>

definition as_u32 :: "int \<Rightarrow> nat" where
  "as_u32 i = nat (i mod 2 ^ 32)"

definition i64_max :: int where
  "i64_max = 2 ^ 63 - 1"

text \<open>\<open>i64::saturating_add\<close> for a non-negative second summand.\<close>

definition saturating_add_i64 :: "int \<Rightarrow> int \<Rightarrow> int" where
  "saturating_add_i64 a b = max (- (2 ^ 63)) (min i64_max (a + b))"

lemma as_u32_small [simp]: "0 \<le> i \<Longrightarrow> i < 2 ^ 32 \<Longrightarrow> as_u32 i = nat i"
  by (simp add: as_u32_def)

lemma as_u32_bound [range_intros]: "as_u32 i < 2 ^ 32"
proof -
  have "i mod 2 ^ 32 < 2 ^ 32" by simp
  then show ?thesis unfolding as_u32_def by (simp add: nat_less_iff)
qed

section \<open>Tables as row lists\<close>

definition next_rowid :: "('r \<Rightarrow> row_id) \<Rightarrow> 'r list \<Rightarrow> row_id" where
  "next_rowid rid rows = foldr (\<lambda>r m. max (rid r) m) rows 0 + 1"

definition update_where :: "('r \<Rightarrow> bool) \<Rightarrow> ('r \<Rightarrow> 'r) \<Rightarrow> 'r list \<Rightarrow> 'r list" where
  "update_where p f rows = map (\<lambda>r. if p r then f r else r) rows"

definition count_where :: "('r \<Rightarrow> bool) \<Rightarrow> 'r list \<Rightarrow> nat" where
  "count_where p rows = length (filter p rows)"

text \<open>A well-formed table: the row ids are pairwise distinct and positive.\<close>

definition rows_wf :: "('r \<Rightarrow> row_id) \<Rightarrow> 'r list \<Rightarrow> bool" where
  "rows_wf rid rows \<longleftrightarrow> distinct (map rid rows) \<and> list_all (\<lambda>r. 0 < rid r) rows"

lemma le_foldr_max: "r \<in> set rows \<Longrightarrow> rid r \<le> foldr (\<lambda>r m. max (rid r) m) rows (b::int)"
  by (induction rows) auto

lemma foldr_max_base: "b \<le> foldr (\<lambda>r m. max (rid r) m) rows (b::int)"
  by (induction rows) auto

lemma next_rowid_fresh: "r \<in> set rows \<Longrightarrow> rid r < next_rowid rid rows"
  using le_foldr_max [of r rows rid 0] by (simp add: next_rowid_def)

lemma next_rowid_pos [simp]: "0 < next_rowid rid rows"
  using foldr_max_base [of 0 rid rows] by (simp add: next_rowid_def)

lemma next_rowid_ge_one [simp]: "1 \<le> next_rowid rid rows"
  using next_rowid_pos [of rid rows] by linarith

lemma next_rowid_notin [simp]: "next_rowid rid rows \<notin> rid ` set rows"
  by (auto dest: next_rowid_fresh [where rid = rid])

lemma next_rowid_Nil [table_simps]: "next_rowid rid [] = 1"
  by (simp add: next_rowid_def)

lemma length_update_where [simp]: "length (update_where p f rows) = length rows"
  by (simp add: update_where_def)

lemma update_where_Nil [table_simps]: "update_where p f [] = []"
  by (simp add: update_where_def)

lemma update_where_Cons [table_simps]:
  "update_where p f (r # rows) = (if p r then f r else r) # update_where p f rows"
  by (simp add: update_where_def)

lemma update_where_append [table_simps]:
  "update_where p f (xs @ ys) = update_where p f xs @ update_where p f ys"
  by (simp add: update_where_def)

lemma in_set_update_where:
  "r \<in> set (update_where p f rows) \<longleftrightarrow>
     (\<exists>r'\<in>set rows. r = (if p r' then f r' else r'))"
  by (auto simp: update_where_def)

lemma map_update_where:
  assumes "\<And>r. g (f r) = g r"
  shows "map g (update_where p f rows) = map g rows"
  by (induction rows) (auto simp: assms update_where_def)

lemma update_where_id:
  assumes "\<And>r. r \<in> set rows \<Longrightarrow> \<not> p r"
  shows "update_where p f rows = rows"
  using assms by (induction rows) (auto simp: update_where_def)

lemma next_rowid_update_where:
  assumes "\<And>r. rid (f r) = rid r"
  shows "next_rowid rid (update_where p f rows) = next_rowid rid rows"
  unfolding next_rowid_def
  by (induction rows) (auto simp: assms update_where_def)

lemma count_where_update_where:
  assumes "\<And>r. p r \<Longrightarrow> q (f r) = q r"
  shows "count_where q (update_where p f rows) = count_where q rows"
  by (induction rows) (auto simp: count_where_def update_where_def assms)

lemma rows_wf_Nil [simp]: "rows_wf rid []"
  by (simp add: rows_wf_def)

lemma rows_wf_update_where:
  assumes "\<And>r. rid (f r) = rid r"
  shows "rows_wf rid (update_where p f rows) = rows_wf rid rows"
proof -
  have "list_all (\<lambda>r. 0 < rid r) (update_where p f rows) = list_all (\<lambda>r. 0 < rid r) rows"
    by (induction rows) (auto simp: update_where_def assms)
  then show ?thesis
    by (simp add: rows_wf_def map_update_where [of rid, OF assms])
qed

lemma rows_wf_snoc:
  "rows_wf rid rows \<Longrightarrow> rid r = next_rowid rid rows \<Longrightarrow> rows_wf rid (rows @ [r])"
  by (auto simp: rows_wf_def)

lemma rows_wf_filter: "rows_wf rid rows \<Longrightarrow> rows_wf rid (filter p rows)"
  by (auto simp: rows_wf_def distinct_map_filter list_all_iff)

lemma rows_wf_inj:
  "rows_wf rid rows \<Longrightarrow> r \<in> set rows \<Longrightarrow> r' \<in> set rows \<Longrightarrow> rid r = rid r' \<Longrightarrow> r = r'"
  by (auto simp: rows_wf_def distinct_map dest: inj_onD)

lemma find_SomeD: "List.find p rows = Some r \<Longrightarrow> r \<in> set rows \<and> p r"
  by (induction rows) (auto split: if_splits)

lemma find_NoneD: "List.find p rows = None \<Longrightarrow> r \<in> set rows \<Longrightarrow> \<not> p r"
  by (simp add: find_None_iff)

lemma find_unique:
  assumes "r \<in> set rows" "p r" "\<And>r'. r' \<in> set rows \<Longrightarrow> p r' \<Longrightarrow> r' = r"
  shows "List.find p rows = Some r"
proof (cases "List.find p rows")
  case None
  then show ?thesis using assms(1,2) find_NoneD by fastforce
next
  case (Some r')
  with assms(3) show ?thesis by (auto dest: find_SomeD)
qed

lemma find_by_id:
  "rows_wf rid rows \<Longrightarrow> r \<in> set rows \<Longrightarrow> rid r = i \<Longrightarrow> List.find (\<lambda>r. rid r = i) rows = Some r"
  by (rule find_unique) (auto dest: rows_wf_inj)

lemma find_append:
  "List.find p (xs @ ys) = (case List.find p xs of None \<Rightarrow> List.find p ys | Some r \<Rightarrow> Some r)"
  by (induction xs) auto

lemma sort_key_Nil_iff: "sort_key f xs = [] \<longleftrightarrow> xs = []"
  by (metis length_0_conv length_sort)

lemma in_map_filter: "y \<in> set (List.map_filter f xs) \<longleftrightarrow> (\<exists>x\<in>set xs. f x = Some y)"
  by (induction xs) (auto simp: map_filter_simps split: option.split)

end
