(* ===== verification/Rust_Text.thy ===== *)
theory Rust_Text
  imports Prelude
begin

text \<open>
  The operations of Rust's standard library on text that the components use: decimal
  formatting of integers, joining, splitting on white space and trimming. A \<open>String\<close> is
  the list of its UTF-8 bytes, so \<open>len()\<close> is \<^const>\<open>length\<close>. The white space of the model
  is the ASCII white space of \<open>char::is_whitespace\<close>.
\<close>

section \<open>Decimal formatting\<close>

definition digit_char :: "nat \<Rightarrow> char" where
  "digit_char d = char_of (48 + d)"

fun show_nat :: "nat \<Rightarrow> string" where
  "show_nat n = (if n < 10 then [digit_char n] else show_nat (n div 10) @ [digit_char (n mod 10)])"

declare show_nat.simps [simp del]

definition show_int :: "int \<Rightarrow> string" where
  "show_int i = (if i < 0 then CHR ''-'' # show_nat (nat (- i)) else show_nat (nat i))"

text \<open>Reading a decimal back is the abstraction used to show that formatting is injective.\<close>

definition digit_value :: "char \<Rightarrow> nat" where
  "digit_value c = of_char c - 48"

definition read_nat :: "string \<Rightarrow> nat" where
  "read_nat = foldl (\<lambda>n c. 10 * n + digit_value c) 0"

lemma digit_value_char [simp]: "d < 10 \<Longrightarrow> digit_value (digit_char d) = d"
  by (simp add: digit_value_def digit_char_def of_char_of)

lemma digit_char_range: "d < 10 \<Longrightarrow> of_char (digit_char d) = (48 + d :: nat)"
  by (simp add: digit_char_def of_char_of)

lemma read_show_nat [simp]: "read_nat (show_nat n) = n"
proof (induction n rule: show_nat.induct)
  case (1 n)
  then show ?case
    by (cases "n < 10") (auto simp: show_nat.simps [of n] read_nat_def)
qed

lemma show_nat_inj: "show_nat m = show_nat n \<longleftrightarrow> m = n"
  by (metis read_show_nat)

lemma show_nat_nonempty [simp]: "show_nat n \<noteq> []"
  by (subst show_nat.simps) simp

lemma show_nat_digits: "c \<in> set (show_nat n) \<Longrightarrow> 48 \<le> (of_char c :: nat) \<and> (of_char c :: nat) \<le> 57"
proof (induction n rule: show_nat.induct)
  case (1 n)
  then show ?case
    by (cases "n < 10") (auto simp: show_nat.simps [of n] digit_char_range)
qed

lemma show_nat_no_char:
  assumes "(of_char c :: nat) < 48 \<or> 57 < (of_char c :: nat)"
  shows "c \<notin> set (show_nat n)"
  using show_nat_digits [of c n] assms by auto

lemma show_int_inj: "show_int i = show_int j \<longleftrightarrow> i = j"
proof -
  have dash: "CHR ''-'' \<notin> set (show_nat n)" for n
    by (rule show_nat_no_char) simp
  have "hd (show_nat n) \<noteq> CHR ''-''" for n
    using dash [of n] by (metis list.set_sel(1) show_nat_nonempty)
  then have ne: "show_nat n \<noteq> CHR ''-'' # xs" for n xs
    by (metis list.sel(1))
  have ne': "CHR ''-'' # xs \<noteq> show_nat n" for n xs
    using ne [of n xs] by metis
  show ?thesis
    by (auto simp: show_int_def show_nat_inj ne ne')
qed

lemma show_int_no_colon: "CHR '':'' \<notin> set (show_int i)"
  by (auto simp: show_int_def dest: show_nat_digits)

section \<open>Splitting at a separator\<close>

text \<open>Text before the first occurrence of a separator character determines both halves.\<close>

lemma split_at_first:
  assumes "xs @ c # ys = xs' @ c # ys'" and "c \<notin> set xs" and "c \<notin> set xs'"
  shows "xs = xs' \<and> ys = ys'"
  using assms
proof (induction xs arbitrary: xs')
  case Nil
  then show ?case by (cases xs') auto
next
  case (Cons x xs)
  then show ?case by (cases xs') auto
qed

section \<open>Joining and white space\<close>

fun join :: "string \<Rightarrow> string list \<Rightarrow> string" where
  "join sep [] = []"
| "join sep [w] = w"
| "join sep (w # ws) = w @ sep @ join sep ws"

definition is_ws :: "char \<Rightarrow> bool" where
  "is_ws c \<longleftrightarrow> (let n = (of_char c :: nat) in n = 32 \<or> (9 \<le> n \<and> n \<le> 13))"

text \<open>\<open>str::split_whitespace\<close>, with the word being read as an accumulator.\<close>

fun words_acc :: "string \<Rightarrow> string \<Rightarrow> string list" where
  "words_acc w [] = (if w = [] then [] else [w])"
| "words_acc w (c # cs) =
     (if is_ws c then (if w = [] then words_acc [] cs else w # words_acc [] cs)
      else words_acc (w @ [c]) cs)"

definition split_whitespace :: "string \<Rightarrow> string list" where
  "split_whitespace s = words_acc [] s"

definition trim_start :: "string \<Rightarrow> string" where
  "trim_start s = dropWhile is_ws s"

definition trim :: "string \<Rightarrow> string" where
  "trim s = rev (dropWhile is_ws (rev (dropWhile is_ws s)))"

definition is_word :: "string \<Rightarrow> bool" where
  "is_word w \<longleftrightarrow> w \<noteq> [] \<and> list_all (\<lambda>c. \<not> is_ws c) w"

lemma is_ws_space [simp]: "is_ws CHR '' ''"
  by (simp add: is_ws_def Let_def)

lemma words_acc_words:
  "list_all (\<lambda>c. \<not> is_ws c) w \<Longrightarrow> list_all is_word (words_acc w s)"
  by (induction w s rule: words_acc.induct) (auto simp: is_word_def)

lemma split_whitespace_words: "list_all is_word (split_whitespace s)"
  by (simp add: split_whitespace_def words_acc_words)

lemma words_acc_word:
  "list_all (\<lambda>c. \<not> is_ws c) v \<Longrightarrow> words_acc w (v @ s) = words_acc (w @ v) s"
  by (induction v arbitrary: w) auto

text \<open>Splitting what was joined with single spaces gives the words back.\<close>

lemma words_acc_join:
  assumes "list_all is_word ws"
  shows "words_acc [] (join '' '' ws) = ws"
  using assms
proof (induction "'' ''" ws rule: join.induct)
  case 1
  then show ?case by simp
next
  case (2 w)
  then show ?case using words_acc_word [of w "[]" "[]"] by (auto simp: is_word_def)
next
  case (3 w v vs)
  then show ?case
    using words_acc_word [of w "[]" "'' '' @ join '' '' (v # vs)"]
    by (auto simp: is_word_def)
qed

lemma split_join_words:
  "list_all is_word ws \<Longrightarrow> split_whitespace (join '' '' ws) = ws"
  by (simp add: split_whitespace_def words_acc_join)

lemma length_split_whitespace: "length (split_whitespace s) \<le> length s"
proof -
  have "length (words_acc w s) \<le> length s + (if w = [] then 0 else 1)" for w
    by (induction w s rule: words_acc.induct) auto
  from this [of "[]"] show ?thesis by (simp add: split_whitespace_def)
qed

section \<open>Orders\<close>

text \<open>
  Text columns are ordered by their bytes, SQLite's binary collation; \<open>order_by\<close> is a
  stable sort by any order relation.
\<close>

definition text_key :: "string \<Rightarrow> nat list" where
  "text_key s = map of_char s"

fun lex_le :: "nat list \<Rightarrow> nat list \<Rightarrow> bool" where
  "lex_le [] _ = True"
| "lex_le (_ # _) [] = False"
| "lex_le (x # xs) (y # ys) = (x < y \<or> x = y \<and> lex_le xs ys)"

fun insert_by :: "('a \<Rightarrow> 'a \<Rightarrow> bool) \<Rightarrow> 'a \<Rightarrow> 'a list \<Rightarrow> 'a list" where
  "insert_by le x [] = [x]"
| "insert_by le x (y # ys) = (if le x y then x # y # ys else y # insert_by le x ys)"

definition order_by :: "('a \<Rightarrow> 'a \<Rightarrow> bool) \<Rightarrow> 'a list \<Rightarrow> 'a list" where
  "order_by le xs = foldr (insert_by le) xs []"

lemma lex_le_refl [simp]: "lex_le xs xs"
  by (induction xs) auto

lemma lex_le_total: "lex_le xs ys \<or> lex_le ys xs"
  by (induction xs ys rule: lex_le.induct) auto

lemma lex_le_trans: "lex_le xs ys \<Longrightarrow> lex_le ys zs \<Longrightarrow> lex_le xs zs"
proof (induction xs arbitrary: ys zs)
  case Nil
  then show ?case by simp
next
  case (Cons x xs)
  then show ?case by (cases ys; cases zs) auto
qed

lemma set_insert_by [simp]: "set (insert_by le x xs) = insert x (set xs)"
  by (induction xs) auto

lemma set_order_by [simp]: "set (order_by le xs) = set xs"
  by (induction xs) (auto simp: order_by_def)

lemma length_insert_by [simp]: "length (insert_by le x xs) = Suc (length xs)"
  by (induction xs) auto

lemma length_order_by [simp]: "length (order_by le xs) = length xs"
  by (induction xs) (auto simp: order_by_def)

lemma sorted_insert_by:
  assumes "\<And>x y. le x y \<or> le y x" and "\<And>x y z. le x y \<Longrightarrow> le y z \<Longrightarrow> le x z"
    and "sorted_wrt le xs"
  shows "sorted_wrt le (insert_by le x xs)"
  using assms(3)
proof (induction xs)
  case (Cons y ys)
  have "le y x" if "\<not> le x y" using that assms(1) by blast
  then show ?case using Cons assms(2) by auto
qed simp

lemma sorted_order_by:
  assumes "\<And>x y. le x y \<or> le y x" and "\<And>x y z. le x y \<Longrightarrow> le y z \<Longrightarrow> le x z"
  shows "sorted_wrt le (order_by le xs)"
  by (induction xs) (auto simp: order_by_def intro: sorted_insert_by [OF assms])

lemma distinct_order_by:
  assumes "distinct (map f xs)" shows "distinct (map f (order_by le xs))"
proof -
  have ins: "distinct (map f (insert_by le x ys)) \<longleftrightarrow> distinct (map f (x # ys))" for x ys
    by (induction ys) auto
  show ?thesis using assms by (induction xs) (simp_all add: order_by_def ins, simp flip: order_by_def)
qed

definition text_le :: "string \<Rightarrow> string \<Rightarrow> bool" where
  "text_le a b = lex_le (text_key a) (text_key b)"

definition sort_text :: "string list \<Rightarrow> string list" where
  "sort_text xs = order_by text_le xs"

text \<open>\<open>sort\<close> followed by \<open>dedup\<close>, which drops repeated neighbours.\<close>

definition sorted_dedup :: "string list \<Rightarrow> string list" where
  "sorted_dedup xs = remdups_adj (sort_text xs)"

section \<open>Searching and parsing\<close>

text \<open>\<open>str::find\<close> and \<open>str::split_once\<close> for a pattern that is a string.\<close>

fun find_sub :: "string \<Rightarrow> string \<Rightarrow> nat option" where
  "find_sub pat [] = (if pat = [] then Some 0 else None)"
| "find_sub pat (x # xs) = (if take (length pat) (x # xs) = pat then Some 0 else map_option Suc (find_sub pat xs))"

definition split_once :: "string \<Rightarrow> string \<Rightarrow> (string \<times> string) option" where
  "split_once pat s = map_option (\<lambda>i. (take i s, drop (i + length pat) s)) (find_sub pat s)"

lemma find_sub_Some: "find_sub pat s = Some i \<Longrightarrow> \<exists>b. s = take i s @ pat @ b \<and> i \<le> length s"
proof (induction pat s arbitrary: i rule: find_sub.induct)
  case (2 pat x xs)
  show ?case
  proof (cases "take (length pat) (x # xs) = pat")
    case True
    then have "x # xs = pat @ drop (length pat) (x # xs)" by (metis append_take_drop_id)
    moreover have "i = 0" using 2(2) True by simp
    ultimately show ?thesis by auto
  next
    case False
    then obtain j where "find_sub pat xs = Some j" "i = Suc j" using 2(2) by auto
    then show ?thesis using 2(1) [OF False, of j] by auto
  qed
qed (auto split: if_splits)

lemma split_once_Some: "split_once pat s = Some (a, b) \<Longrightarrow> s = a @ pat @ b"
proof -
  assume "split_once pat s = Some (a, b)"
  then obtain i where i: "find_sub pat s = Some i" "a = take i s" "b = drop (i + length pat) s"
    by (auto simp: split_once_def)
  obtain c where c: "s = take i s @ pat @ c" "i \<le> length s" using find_sub_Some [OF i(1)] by blast
  then have "drop (i + length pat) s = c"
    by (metis add.commute append_eq_conv_conj drop_drop length_take min.absorb2)
  then show ?thesis using c i by simp
qed

text \<open>\<open>parse::<i64>\<close>: an optional sign, then digits only, within the range.\<close>

definition is_digit :: "char \<Rightarrow> bool" where
  "is_digit c \<longleftrightarrow> 48 \<le> (of_char c :: nat) \<and> (of_char c :: nat) \<le> 57"

definition parse_i64 :: "string \<Rightarrow> int option" where
  "parse_i64 s =
     (let (neg, ds) = (case s of c # cs \<Rightarrow> if c = CHR ''-'' then (True, cs) else if c = CHR ''+'' then (False, cs) else (False, s)
                       | [] \<Rightarrow> (False, []));
          v = (if neg then - int (read_nat ds) else int (read_nat ds))
      in if ds = [] \<or> \<not> list_all is_digit ds \<or> v < - (i64_max + 1) \<or> i64_max < v then None else Some v)"

lemma parse_show_i64: "- (i64_max + 1) \<le> i \<Longrightarrow> i \<le> i64_max \<Longrightarrow> parse_i64 (show_int i) = Some i"
proof -
  assume r: "- (i64_max + 1) \<le> i" "i \<le> i64_max"
  have digits: "list_all is_digit (show_nat n)" for n
    using show_nat_digits [of _ n] by (auto simp: list_all_iff is_digit_def)
  have sign: "hd (show_nat n) \<noteq> CHR ''-''" "hd (show_nat n) \<noteq> CHR ''+''" for n
    using digits [of n] by (cases "show_nat n"; auto simp: is_digit_def)+
  show ?thesis
  proof (cases "i < 0")
    case True
    then have "show_int i = CHR ''-'' # show_nat (nat (- i))" by (simp add: show_int_def)
    then show ?thesis using r True digits by (simp add: parse_i64_def Let_def)
  next
    case False
    then have s: "show_int i = show_nat (nat i)" by (simp add: show_int_def)
    obtain c cs where "show_nat (nat i) = c # cs" by (cases "show_nat (nat i)") auto
    then show ?thesis using r False digits [of "nat i"] sign [of "nat i"] read_show_nat [of "nat i"] unfolding s
      by (simp add: parse_i64_def Let_def del: read_show_nat)
  qed
qed

end
