(* ===== verification/Submissions.thy ===== *)
theory Submissions
  imports Prelude
begin

text \<open>
  Candidate submissions and volunteer trust
  (\<^verbatim>\<open>crates/arags-storage/src/sqlite/submissions.rs\<close>, tables of migration 026).
  A volunteer's answer is a \<open>candidate\<close> row; a quorum decision moves it to
  \<open>accepted\<close> or \<open>rejected\<close>. The trust table holds a strike counter and a
  score per volunteer. Lemmas: a decision touches one row only, the lifecycle never goes
  back to \<open>candidate\<close>, and the trust table keeps its ranges under every operation.
\<close>

section \<open>Data\<close>

datatype sub_status = Candidate | Accepted | Rejected

record submission =
  sb_id :: row_id
  sb_project :: string
  sb_type :: string
  sb_key :: string
  sb_text :: string
  sb_by :: string
  sb_similarity :: "real option"
  sb_status :: sub_status
  sb_created_at :: seconds
  sb_decided_at :: "seconds option"
  sb_decided_by :: "string option"

record trust_row =
  vt_username :: string
  vt_strikes :: int
  vt_score :: real

section \<open>Submission lifecycle\<close>

definition insert_submission ::
  "seconds \<Rightarrow> string \<Rightarrow> string \<Rightarrow> string \<Rightarrow> string \<Rightarrow> string \<Rightarrow> submission list
     \<Rightarrow> submission list \<times> row_id" where
  "insert_submission now project subject_type subject_key candidate_text candidate_by rows =
     (let i = next_rowid sb_id rows in
      (rows @ [\<lparr>sb_id = i, sb_project = project, sb_type = subject_type,
                sb_key = subject_key, sb_text = candidate_text, sb_by = candidate_by,
                sb_similarity = None, sb_status = Candidate, sb_created_at = now,
                sb_decided_at = None, sb_decided_by = None\<rparr>], i))"

definition accept_submission ::
  "seconds \<Rightarrow> row_id \<Rightarrow> string \<Rightarrow> real option \<Rightarrow> submission list \<Rightarrow> submission list" where
  "accept_submission now i decided_by similarity rows =
     update_where (\<lambda>r. sb_id r = i)
       (\<lambda>r. r\<lparr>sb_status := Accepted, sb_decided_at := Some now,
              sb_decided_by := Some decided_by, sb_similarity := similarity\<rparr>) rows"

definition reject_submission ::
  "seconds \<Rightarrow> row_id \<Rightarrow> string \<Rightarrow> real option \<Rightarrow> submission list \<Rightarrow> submission list" where
  "reject_submission now i decided_by similarity rows =
     update_where (\<lambda>r. sb_id r = i)
       (\<lambda>r. r\<lparr>sb_status := Rejected, sb_decided_at := Some now,
              sb_decided_by := Some decided_by, sb_similarity := similarity\<rparr>) rows"

definition for_subject :: "string \<Rightarrow> string \<Rightarrow> string \<Rightarrow> submission \<Rightarrow> bool" where
  "for_subject project subject_type subject_key r \<longleftrightarrow>
     sb_project r = project \<and> sb_type r = subject_type \<and> sb_key r = subject_key"

definition list_pending ::
  "string \<Rightarrow> string \<Rightarrow> string \<Rightarrow> submission list \<Rightarrow> submission list" where
  "list_pending project subject_type subject_key rows =
     sort_key sb_created_at
       (filter (\<lambda>r. for_subject project subject_type subject_key r \<and> sb_status r = Candidate)
          rows)"

definition list_accepted ::
  "string \<Rightarrow> string \<Rightarrow> string \<Rightarrow> submission list \<Rightarrow> submission list" where
  "list_accepted project subject_type subject_key rows =
     sort_key sb_created_at
       (filter (\<lambda>r. for_subject project subject_type subject_key r \<and> sb_status r = Accepted)
          rows)"

section \<open>Volunteer trust\<close>

definition trust_of :: "string \<Rightarrow> trust_row list \<Rightarrow> trust_row option" where
  "trust_of volunteer rows = List.find (\<lambda>r. vt_username r = volunteer) rows"

text \<open>\<open>INSERT ... ON CONFLICT(username) DO NOTHING\<close>: first contact seeds a clean row.\<close>

definition seed_trust :: "string \<Rightarrow> trust_row list \<Rightarrow> trust_row list" where
  "seed_trust volunteer rows =
     (if list_ex (\<lambda>r. vt_username r = volunteer) rows then rows
      else rows @ [\<lparr>vt_username = volunteer, vt_strikes = 0, vt_score = 1\<rparr>])"

definition strike_row :: "trust_row \<Rightarrow> trust_row" where
  "strike_row r = r\<lparr>vt_strikes := vt_strikes r + 1, vt_score := max 0 (vt_score r - 1 / 5)\<rparr>"

definition bump_row :: "trust_row \<Rightarrow> trust_row" where
  "bump_row r =
     r\<lparr>vt_score := min 1 (vt_score r + 1 / 10), vt_strikes := max 0 (vt_strikes r - 1)\<rparr>"

definition read_trust :: "string \<Rightarrow> trust_row list \<Rightarrow> nat \<times> real" where
  "read_trust volunteer rows =
     (case trust_of volunteer rows of
        Some r \<Rightarrow> (as_u32 (vt_strikes r), vt_score r)
      | None \<Rightarrow> (0, 1))"

text \<open>
  \<open>record_strike\<close> seeds the row, counts the strike and reads the row back; the read
  cannot miss, since the seed made the row.
\<close>

definition record_strike :: "string \<Rightarrow> trust_row list \<Rightarrow> trust_row list \<times> (nat \<times> real)" where
  "record_strike volunteer rows =
     (let rows' = update_where (\<lambda>r. vt_username r = volunteer) strike_row
                    (seed_trust volunteer rows)
      in (rows', read_trust volunteer rows'))"

definition bump_trust_on_accept :: "string \<Rightarrow> trust_row list \<Rightarrow> trust_row list" where
  "bump_trust_on_accept volunteer rows =
     update_where (\<lambda>r. vt_username r = volunteer) bump_row (seed_trust volunteer rows)"

definition volunteer_strikes :: "string \<Rightarrow> trust_row list \<Rightarrow> nat" where
  "volunteer_strikes volunteer rows =
     as_u32 (case trust_of volunteer rows of Some r \<Rightarrow> vt_strikes r | None \<Rightarrow> 0)"

definition is_banned :: "string \<Rightarrow> nat \<Rightarrow> trust_row list \<Rightarrow> bool" where
  "is_banned volunteer strikes_limit rows \<longleftrightarrow>
     strikes_limit \<le> as_u32 (case trust_of volunteer rows of Some r \<Rightarrow> vt_strikes r | None \<Rightarrow> 0)"

definition list_volunteers_by_trust :: "nat \<Rightarrow> trust_row list \<Rightarrow> (string \<times> real \<times> nat) list" where
  "list_volunteers_by_trust limit rows =
     map (\<lambda>r. (vt_username r, vt_score r, as_u32 (vt_strikes r)))
       (take limit (sort_key (\<lambda>r. (- vt_score r, vt_strikes r)) rows))"

section \<open>Lifecycle lemmas\<close>

lemmas decide_defs = accept_submission_def reject_submission_def

lemma ids_accept_submission [simp]:
  "map sb_id (accept_submission now i d s rows) = map sb_id rows"
  by (simp add: decide_defs map_update_where)

lemma ids_reject_submission [simp]:
  "map sb_id (reject_submission now i d s rows) = map sb_id rows"
  by (simp add: decide_defs map_update_where)

lemma rows_wf_insert_submission:
  "rows_wf sb_id rows \<Longrightarrow> rows_wf sb_id (fst (insert_submission now p t k x v rows))"
  by (simp add: insert_submission_def Let_def rows_wf_snoc)

lemma rows_wf_accept_submission [simp]:
  "rows_wf sb_id (accept_submission now i d s rows) = rows_wf sb_id rows"
  by (simp add: decide_defs rows_wf_update_where)

lemma rows_wf_reject_submission [simp]:
  "rows_wf sb_id (reject_submission now i d s rows) = rows_wf sb_id rows"
  by (simp add: decide_defs rows_wf_update_where)

lemma set_list_pending:
  "r \<in> set (list_pending p t k rows) \<longleftrightarrow>
     r \<in> set rows \<and> for_subject p t k r \<and> sb_status r = Candidate"
  by (auto simp: list_pending_def)

lemma set_list_accepted:
  "r \<in> set (list_accepted p t k rows) \<longleftrightarrow>
     r \<in> set rows \<and> for_subject p t k r \<and> sb_status r = Accepted"
  by (auto simp: list_accepted_def)

lemma distinct_ids_list_pending:
  assumes "rows_wf sb_id rows"
  shows "distinct (map sb_id (list_pending p t k rows))"
proof -
  have "inj_on sb_id (set (list_pending p t k rows))"
    using assms by (auto simp: inj_on_def set_list_pending intro: rows_wf_inj)
  moreover have "distinct (list_pending p t k rows)"
    using assms by (auto simp: list_pending_def rows_wf_def distinct_map)
  ultimately show ?thesis by (simp add: distinct_map)
qed

text \<open>The ids still pending for a subject, as a set: deciding one row removes just that id.\<close>

definition pending_ids :: "string \<Rightarrow> string \<Rightarrow> string \<Rightarrow> submission list \<Rightarrow> row_id set" where
  "pending_ids p t k rows = sb_id ` set (list_pending p t k rows)"

definition decided_ids :: "submission list \<Rightarrow> row_id set" where
  "decided_ids rows = sb_id ` set (filter (\<lambda>r. sb_status r \<noteq> Candidate) rows)"

lemma pending_ids_Nil [simp]: "pending_ids p t k [] = {}"
  by (simp add: pending_ids_def list_pending_def)

lemma pending_ids_Cons [simp]:
  "pending_ids p t k (r # rows) =
     (if for_subject p t k r \<and> sb_status r = Candidate then {sb_id r} else {})
     \<union> pending_ids p t k rows"
  by (auto simp: pending_ids_def list_pending_def)

lemma decided_ids_Nil [simp]: "decided_ids [] = {}"
  by (simp add: decided_ids_def)

lemma decided_ids_Cons [simp]:
  "decided_ids (r # rows) = (if sb_status r \<noteq> Candidate then {sb_id r} else {}) \<union> decided_ids rows"
  by (simp add: decided_ids_def)

lemma pending_ids_accept:
  "pending_ids p t k (accept_submission now i d s rows) = pending_ids p t k rows - {i}"
  by (induction rows) (auto simp: decide_defs table_simps for_subject_def)

lemma pending_ids_reject:
  "pending_ids p t k (reject_submission now i d s rows) = pending_ids p t k rows - {i}"
  by (induction rows) (auto simp: decide_defs table_simps for_subject_def)

text \<open>A submission once decided is never a candidate again, whatever operation runs.\<close>

lemma decided_ids_accept:
  "decided_ids (accept_submission now i d s rows) =
     decided_ids rows \<union> ({i} \<inter> sb_id ` set rows)"
  by (induction rows) (auto simp: decide_defs table_simps)

lemma decided_ids_reject:
  "decided_ids (reject_submission now i d s rows) =
     decided_ids rows \<union> ({i} \<inter> sb_id ` set rows)"
  by (induction rows) (auto simp: decide_defs table_simps)

lemma decided_ids_insert:
  "decided_ids (fst (insert_submission now p t k x v rows)) = decided_ids rows"
  by (simp add: decided_ids_def insert_submission_def Let_def)

section \<open>Trust lemmas\<close>

definition trust_ok :: "trust_row list \<Rightarrow> bool" where
  "trust_ok rows \<longleftrightarrow>
     distinct (map vt_username rows) \<and>
     list_all (\<lambda>r. 0 \<le> vt_strikes r \<and> 0 \<le> vt_score r \<and> vt_score r \<le> 1) rows"

lemma trust_ok_Nil [simp]: "trust_ok []"
  by (simp add: trust_ok_def)

lemma trust_ok_seed [range_intros]: "trust_ok rows \<Longrightarrow> trust_ok (seed_trust v rows)"
  by (auto simp: trust_ok_def seed_trust_def list_ex_iff)

lemma trust_ok_update:
  assumes "\<And>r. vt_username (f r) = vt_username r"
    and "\<And>r. 0 \<le> vt_strikes r \<Longrightarrow> 0 \<le> vt_score r \<Longrightarrow> vt_score r \<le> 1 \<Longrightarrow>
           0 \<le> vt_strikes (f r) \<and> 0 \<le> vt_score (f r) \<and> vt_score (f r) \<le> 1"
    and "trust_ok rows"
  shows "trust_ok (update_where p f rows)"
  using assms by (auto simp: trust_ok_def map_update_where list_all_iff in_set_update_where)

lemma trust_ok_strike [range_intros]:
  "trust_ok rows \<Longrightarrow> trust_ok (fst (record_strike v rows))"
  unfolding record_strike_def Let_def fst_conv
  by (rule trust_ok_update) (auto simp: strike_row_def intro: trust_ok_seed)

lemma trust_ok_bump [range_intros]:
  "trust_ok rows \<Longrightarrow> trust_ok (bump_trust_on_accept v rows)"
  unfolding bump_trust_on_accept_def
  by (rule trust_ok_update) (auto simp: bump_row_def intro: trust_ok_seed)

lemma list_ex_trust_of: "list_ex (\<lambda>r. vt_username r = v) rows \<longleftrightarrow> trust_of v rows \<noteq> None"
  by (auto simp: trust_of_def find_None_iff list_ex_iff)

lemma trust_of_append:
  "trust_of v (xs @ ys) = (case trust_of v xs of None \<Rightarrow> trust_of v ys | Some r \<Rightarrow> Some r)"
  by (auto simp: trust_of_def find_append split: option.splits)

lemma trust_of_seed:
  "trust_of v (seed_trust w rows) =
     (if v = w \<and> trust_of v rows = None
      then Some \<lparr>vt_username = v, vt_strikes = 0, vt_score = 1\<rparr> else trust_of v rows)"
  unfolding seed_trust_def list_ex_trust_of
  by (auto simp: trust_of_append trust_of_def [of _ "[_]"] split: option.splits)

lemma trust_of_update:
  assumes "\<And>r. vt_username (f r) = vt_username r"
  shows "trust_of v (update_where (\<lambda>r. vt_username r = w) f rows) =
           (if v = w then map_option f (trust_of v rows) else trust_of v rows)"
  by (induction rows) (auto simp: trust_of_def update_where_def assms)

text \<open>What a strike and an accept do to the pair read back, for every volunteer.\<close>

lemma trust_of_strike:
  "trust_of v (fst (record_strike w rows)) =
     (if v = w
      then Some (strike_row (case trust_of v rows of
             Some r \<Rightarrow> r | None \<Rightarrow> \<lparr>vt_username = v, vt_strikes = 0, vt_score = 1\<rparr>))
      else trust_of v rows)"
  by (auto simp: record_strike_def Let_def trust_of_update strike_row_def trust_of_seed
      split: option.splits)

lemma trust_of_bump:
  "trust_of v (bump_trust_on_accept w rows) =
     (if v = w
      then Some (bump_row (case trust_of v rows of
             Some r \<Rightarrow> r | None \<Rightarrow> \<lparr>vt_username = v, vt_strikes = 0, vt_score = 1\<rparr>))
      else trust_of v rows)"
  by (auto simp: bump_trust_on_accept_def trust_of_update bump_row_def trust_of_seed
      split: option.splits)

lemma trust_ok_range:
  assumes "trust_ok rows"
  shows "0 \<le> snd (read_trust v rows)" "snd (read_trust v rows) \<le> 1"
  using assms
  by (auto simp: read_trust_def trust_of_def trust_ok_def list_all_iff
      dest: find_SomeD split: option.splits)

end
