(* ===== verification/Rlm_Jobs.thy ===== *)
theory Rlm_Jobs
  imports Rust_Text Submissions
begin

text \<open>
  The volunteer work queue of recursive summaries
  (\<^verbatim>\<open>crates/arags-storage/src/sqlite/rlm/{mod,jobs,complete}.rs\<close>, migrations 018, 027
  and 028). A subject is fanned out to job rows that share a generation group; volunteers
  claim rows with a lease and complete, fail or lose them. Every operation is a function
  of the current time and the tables. An operation that can break the \<open>UNIQUE\<close>
  constraint on \<open>job_key\<close> returns the tables as the statements before the failing one left
  them, together with the error: these calls run without a transaction.

  Lemmas: the queue invariant (claimed rows carry owner and lease, pending rows carry
  neither, a volunteer holds one row per group, a group belongs to one subject) under every
  operation, the behaviour of each operation, and the step relation of the queue.
\<close>

section \<open>Data\<close>

datatype job_status = Pending | Claimed | Done | Failed | Cancelled

datatype db_error = Unique_Violation string | Affected_Rows nat

record rlm_job =
  jb_id :: row_id
  jb_key :: string
  jb_buffer :: "row_id option"
  jb_project :: string
  jb_level :: int
  jb_subject :: string
  jb_payload :: string
  jb_generation :: int
  jb_group :: "int option"
  jb_status :: job_status
  jb_priority :: int
  jb_claimed_by :: "string option"
  jb_claimed_at :: "millis option"
  jb_lease :: "millis option"
  jb_attempts :: int
  jb_last_error :: "string option"
  jb_created :: millis
  jb_updated :: millis

record new_rlm_job =
  nj_buffer :: "row_id option"
  nj_project :: string
  nj_level :: int
  nj_subject :: string
  nj_payload :: string
  nj_priority :: int
  nj_slots :: nat

record claimed_rlm_job =
  cj_id :: row_id
  cj_key :: string
  cj_project :: string
  cj_level :: int
  cj_subject :: string
  cj_payload :: string
  cj_generation :: int
  cj_lease_ms :: millis

record job_db =
  jobs :: "rlm_job list"
  exclusions :: "(int \<times> string) list"

definition default_rlm_lease_ms :: millis where
  "default_rlm_lease_ms = 500000"

definition priority_cancelled :: int where "priority_cancelled = 0"
definition priority_retry :: int where "priority_retry = 1"
definition priority_cascade :: int where "priority_cascade = 3"
definition priority_fresh :: int where "priority_fresh = 5"
definition priority_parked :: int where "priority_parked = 9"

lemmas priority_defs = priority_cancelled_def priority_retry_def priority_cascade_def
  priority_fresh_def priority_parked_def

definition rlm_job_key :: "string \<Rightarrow> int \<Rightarrow> string \<Rightarrow> string" where
  "rlm_job_key project level subject =
     ''L'' @ show_int level @ '':'' @ project @ '':'' @ subject"

section \<open>Enqueue\<close>

definition of_subject :: "string \<Rightarrow> int \<Rightarrow> string \<Rightarrow> rlm_job \<Rightarrow> bool" where
  "of_subject project level subject r \<longleftrightarrow>
     jb_project r = project \<and> jb_level r = level \<and> jb_subject r = subject"

definition live_job :: "rlm_job \<Rightarrow> bool" where
  "live_job r \<longleftrightarrow> jb_status r = Pending \<or> jb_status r = Claimed"

text \<open>\<open>COALESCE(MAX(column), 0)\<close>: \<open>NULL\<close> entries do not count.\<close>

definition max_or_zero :: "int list \<Rightarrow> int" where
  "max_or_zero xs = (case xs of [] \<Rightarrow> 0 | y # ys \<Rightarrow> foldr max ys y)"

definition groups_of :: "rlm_job list \<Rightarrow> int list" where
  "groups_of rows = List.map_filter jb_group rows"

definition next_group :: "rlm_job list \<Rightarrow> int" where
  "next_group rows = max_or_zero (groups_of rows) + 1"

definition slot_key :: "string \<Rightarrow> nat \<Rightarrow> nat \<Rightarrow> string" where
  "slot_key logical slots slot =
     (if slots = 1 then logical else logical @ ''#'' @ show_nat slot)"

definition slot_row ::
  "new_rlm_job \<Rightarrow> string \<Rightarrow> int \<Rightarrow> int \<Rightarrow> millis \<Rightarrow> row_id \<Rightarrow> rlm_job" where
  "slot_row job key group_id generation now i =
     \<lparr>jb_id = i, jb_key = key, jb_buffer = nj_buffer job, jb_project = nj_project job,
      jb_level = nj_level job, jb_subject = nj_subject job, jb_payload = nj_payload job,
      jb_generation = generation, jb_group = Some group_id, jb_status = Pending,
      jb_priority = nj_priority job, jb_claimed_by = None, jb_claimed_at = None,
      jb_lease = None, jb_attempts = 0, jb_last_error = None, jb_created = now,
      jb_updated = now\<rparr>"

text \<open>
  The insert loop over the remaining slot numbers; \<open>first\<close> is the id of the first row
  inserted (0 before it). A duplicate key ends the loop with the rows inserted so far kept.
\<close>

fun insert_slot_rows ::
  "new_rlm_job \<Rightarrow> nat \<Rightarrow> string \<Rightarrow> int \<Rightarrow> int \<Rightarrow> millis \<Rightarrow> nat list \<Rightarrow> row_id \<Rightarrow> rlm_job list
     \<Rightarrow> rlm_job list \<times> (db_error + row_id)" where
  "insert_slot_rows job slots logical group_id generation now [] first rows =
     (rows, Inr first)"
| "insert_slot_rows job slots logical group_id generation now (slot # rest) first rows =
     (let key = slot_key logical slots slot in
      if list_ex (\<lambda>r. jb_key r = key) rows then (rows, Inl (Unique_Violation key))
      else let i = next_rowid jb_id rows in
           insert_slot_rows job slots logical group_id generation now rest
             (if first = 0 then i else first)
             (rows @ [slot_row job key group_id generation now i]))"

definition insert_rlm_slots ::
  "new_rlm_job \<Rightarrow> nat \<Rightarrow> string \<Rightarrow> int \<Rightarrow> int \<Rightarrow> millis \<Rightarrow> rlm_job list
     \<Rightarrow> rlm_job list \<times> (db_error + row_id)" where
  "insert_rlm_slots job slots logical group_id generation now rows =
     insert_slot_rows job slots logical group_id generation now [0..<slots] 0 rows"

text \<open>Exclusions: empty names are skipped, an existing pair is left alone.\<close>

fun insert_rlm_exclusions ::
  "int \<Rightarrow> string list \<Rightarrow> (int \<times> string) list \<Rightarrow> (int \<times> string) list" where
  "insert_rlm_exclusions g [] ex = ex"
| "insert_rlm_exclusions g (v # vs) ex =
     insert_rlm_exclusions g vs
       (if v = [] \<or> (g, v) \<in> set ex then ex else ex @ [(g, v)])"

definition enqueue_rlm_job ::
  "millis \<Rightarrow> new_rlm_job \<Rightarrow> string list \<Rightarrow> job_db
     \<Rightarrow> job_db \<times> (db_error + row_id \<times> int \<times> bool)" where
  "enqueue_rlm_job now job exclude db =
     (let slots = max 1 (nj_slots job);
          logical = rlm_job_key (nj_project job) (nj_level job) (nj_subject job);
          same = of_subject (nj_project job) (nj_level job) (nj_subject job)
      in case filter same (jobs db) of
           e # es \<Rightarrow>
             if list_ex live_job (e # es) then (db, Inr (jb_id e, jb_generation e, False))
             else let group_id =
                        (if exclude = []
                         then (case jb_group e of Some g \<Rightarrow> g | None \<Rightarrow> jb_id e)
                         else next_group (jobs db));
                      new_generation = jb_generation e + 1;
                      ex = insert_rlm_exclusions group_id exclude (exclusions db);
                      (rows, res) = insert_rlm_slots job slots logical group_id new_generation
                                      now (filter (\<lambda>r. \<not> same r) (jobs db))
                  in (\<lparr>jobs = rows, exclusions = ex\<rparr>,
                      map_sum id (\<lambda>first. (first, new_generation, False)) res)
         | [] \<Rightarrow>
             let group_id = next_group (jobs db);
                 prior_gen = max_or_zero (map jb_generation (filter same (jobs db)));
                 generation = (if exclude = [] then 0 else prior_gen + 1);
                 ex = insert_rlm_exclusions group_id exclude (exclusions db);
                 (rows, res) = insert_rlm_slots job slots logical group_id generation now
                                 (jobs db)
             in (\<lparr>jobs = rows, exclusions = ex\<rparr>,
                 map_sum id (\<lambda>first. (first, generation, True)) res))"

section \<open>Claim with a lease\<close>

definition claimable ::
  "string \<Rightarrow> int option \<Rightarrow> nat \<Rightarrow> trust_row list \<Rightarrow> job_db \<Rightarrow> rlm_job \<Rightarrow> bool" where
  "claimable volunteer max_level strikes_limit trust db r \<longleftrightarrow>
     jb_status r = Pending
     \<and> jb_level r \<le> (case max_level of Some l \<Rightarrow> l | None \<Rightarrow> i64_max)
     \<and> \<not> list_ex (\<lambda>s. jb_group s \<noteq> None \<and> jb_group s = jb_group r
                    \<and> jb_claimed_by s = Some volunteer) (jobs db)
     \<and> \<not> list_ex (\<lambda>vt. vt_username vt = volunteer \<and> int strikes_limit \<le> vt_strikes vt) trust
     \<and> \<not> list_ex (\<lambda>(g, v). jb_group r = Some g \<and> v = volunteer) (exclusions db)"

definition claim_row :: "string \<Rightarrow> millis \<Rightarrow> millis \<Rightarrow> rlm_job \<Rightarrow> rlm_job" where
  "claim_row volunteer now expires r =
     r\<lparr>jb_status := Claimed, jb_claimed_by := Some volunteer, jb_claimed_at := Some now,
       jb_lease := Some expires, jb_attempts := jb_attempts r + 1, jb_updated := now\<rparr>"

definition job_ticket :: "millis \<Rightarrow> rlm_job \<Rightarrow> claimed_rlm_job" where
  "job_ticket lease_ms r =
     \<lparr>cj_id = jb_id r, cj_key = jb_key r, cj_project = jb_project r, cj_level = jb_level r,
      cj_subject = jb_subject r, cj_payload = jb_payload r, cj_generation = jb_generation r,
      cj_lease_ms = max 1000 lease_ms\<rparr>"

text \<open>
  The whole claim is one immediate transaction: an update that does not hit exactly one
  row rolls back and is an error. The reload by id cannot miss after such an update.
\<close>

definition claim_rlm_job ::
  "millis \<Rightarrow> string \<Rightarrow> millis \<Rightarrow> int option \<Rightarrow> nat \<Rightarrow> trust_row list \<Rightarrow> job_db
     \<Rightarrow> job_db \<times> (db_error + claimed_rlm_job option)" where
  "claim_rlm_job now volunteer lease_ms max_level strikes_limit trust db =
     (let expires = saturating_add_i64 now (max 1000 lease_ms) in
      case sort_key (\<lambda>r. (jb_priority r, jb_level r, jb_created r))
             (filter (claimable volunteer max_level strikes_limit trust db) (jobs db)) of
        [] \<Rightarrow> (db, Inr None)
      | c # _ \<Rightarrow>
          let hit = (\<lambda>r. jb_id r = jb_id c \<and> jb_status r = Pending);
              n = count_where hit (jobs db);
              rows = update_where hit (claim_row volunteer now expires) (jobs db)
          in if n \<noteq> 1 then (db, Inl (Affected_Rows n))
             else (db\<lparr>jobs := rows\<rparr>,
                   Inr (map_option (job_ticket lease_ms)
                     (List.find (\<lambda>r. jb_id r = jb_id c) rows))))"

section \<open>Complete, fail, cancel, requeue\<close>

definition lease_valid :: "millis \<Rightarrow> string \<Rightarrow> int \<Rightarrow> rlm_job \<Rightarrow> bool" where
  "lease_valid now worker generation r \<longleftrightarrow>
     jb_claimed_by r = Some worker \<and> jb_generation r = generation
     \<and> (case jb_lease r of Some l \<Rightarrow> now \<le> l | None \<Rightarrow> False)"

definition done_row :: "millis \<Rightarrow> rlm_job \<Rightarrow> rlm_job" where
  "done_row now r = r\<lparr>jb_status := Done, jb_updated := now\<rparr>"

definition complete_rlm_job ::
  "millis \<Rightarrow> row_id \<Rightarrow> string \<Rightarrow> int \<Rightarrow> job_db \<Rightarrow> job_db \<times> bool" where
  "complete_rlm_job now job_id worker generation db =
     (case List.find (\<lambda>r. jb_id r = job_id \<and> jb_status r = Claimed) (jobs db) of
        None \<Rightarrow> (db, False)
      | Some r \<Rightarrow>
          if \<not> lease_valid now worker generation r then (db, False)
          else (db\<lparr>jobs := update_where (\<lambda>r. jb_id r = job_id) (done_row now) (jobs db)\<rparr>,
                0 < count_where (\<lambda>r. jb_id r = job_id) (jobs db)))"

definition release_row :: "millis \<Rightarrow> rlm_job \<Rightarrow> rlm_job" where
  "release_row now r =
     r\<lparr>jb_claimed_by := None, jb_claimed_at := None, jb_lease := None, jb_updated := now\<rparr>"

definition fail_rlm_job ::
  "millis \<Rightarrow> row_id \<Rightarrow> string \<Rightarrow> string \<Rightarrow> int \<Rightarrow> job_db \<Rightarrow> job_db" where
  "fail_rlm_job now job_id worker error max_attempts db =
     (let mine = (\<lambda>r. jb_id r = job_id \<and> jb_claimed_by r = Some worker);
          attempts = (case List.find mine (jobs db) of Some r \<Rightarrow> jb_attempts r | None \<Rightarrow> 0);
          (status, prio) = (if max_attempts \<le> attempts then (Failed, priority_parked)
                            else (Pending, priority_retry))
      in db\<lparr>jobs := update_where (\<lambda>r. mine r \<and> jb_status r = Claimed)
              (\<lambda>r. release_row now r\<lparr>jb_status := status, jb_priority := prio,
                     jb_last_error := Some error\<rparr>) (jobs db)\<rparr>)"

definition cancel_row :: "millis \<Rightarrow> rlm_job \<Rightarrow> rlm_job" where
  "cancel_row now r =
     release_row now r\<lparr>jb_status := Pending, jb_priority := priority_cancelled,
       jb_generation := jb_generation r + 1, jb_attempts := 0,
       jb_last_error := Some ''source changed''\<rparr>"

fun cancel_rlm_jobs_for_subjects ::
  "millis \<Rightarrow> string \<Rightarrow> (int \<times> string) list \<Rightarrow> job_db \<Rightarrow> job_db \<times> nat" where
  "cancel_rlm_jobs_for_subjects now project [] db = (db, 0)"
| "cancel_rlm_jobs_for_subjects now project ((level, subject) # rest) db =
     (let hit = (\<lambda>r. of_subject project level subject r \<and> live_job r);
          n = count_where hit (jobs db);
          (db', m) = cancel_rlm_jobs_for_subjects now project rest
                       (db\<lparr>jobs := update_where hit (cancel_row now) (jobs db)\<rparr>)
      in (db', n + m))"

definition lease_expired :: "millis \<Rightarrow> rlm_job \<Rightarrow> bool" where
  "lease_expired now r \<longleftrightarrow>
     jb_status r = Claimed \<and> (case jb_lease r of Some l \<Rightarrow> l < now | None \<Rightarrow> False)"

definition requeue_expired_rlm_leases :: "millis \<Rightarrow> job_db \<Rightarrow> job_db \<times> nat" where
  "requeue_expired_rlm_leases now db =
     (db\<lparr>jobs := update_where (lease_expired now)
            (\<lambda>r. release_row now r\<lparr>jb_status := Pending\<rparr>) (jobs db)\<rparr>,
      count_where (lease_expired now) (jobs db))"

section \<open>Payload refresh and lookups\<close>

definition update_rlm_job_payload ::
  "millis \<Rightarrow> string \<Rightarrow> int \<Rightarrow> string \<Rightarrow> string \<Rightarrow> job_db \<Rightarrow> job_db" where
  "update_rlm_job_payload now project level subject payload db =
     db\<lparr>jobs := update_where
           (\<lambda>r. jb_key r = rlm_job_key project level subject \<and> live_job r)
           (\<lambda>r. r\<lparr>jb_payload := payload, jb_updated := now\<rparr>) (jobs db)\<rparr>"

definition get_live_rlm_job_by_key ::
  "string \<Rightarrow> int \<Rightarrow> string \<Rightarrow> job_db \<Rightarrow> rlm_job option" where
  "get_live_rlm_job_by_key project level subject db =
     List.find (\<lambda>r. of_subject project level subject r \<and> live_job r) (jobs db)"

definition get_rlm_job :: "row_id \<Rightarrow> job_db \<Rightarrow> rlm_job option" where
  "get_rlm_job job_id db = List.find (\<lambda>r. jb_id r = job_id) (jobs db)"

definition count_rlm_jobs :: "string \<Rightarrow> job_status \<Rightarrow> job_db \<Rightarrow> nat" where
  "count_rlm_jobs project status db =
     count_where (\<lambda>r. jb_project r = project \<and> jb_status r = status) (jobs db)"

section \<open>The queue invariant\<close>

definition row_ok :: "rlm_job \<Rightarrow> bool" where
  "row_ok r \<longleftrightarrow>
     (jb_status r = Claimed \<longrightarrow> jb_claimed_by r \<noteq> None \<and> jb_lease r \<noteq> None) \<and>
     (jb_status r = Pending \<longrightarrow> jb_claimed_by r = None \<and> jb_lease r = None) \<and>
     jb_group r \<noteq> None \<and> 0 \<le> jb_generation r \<and> 0 \<le> jb_attempts r"

definition same_subject :: "rlm_job \<Rightarrow> rlm_job \<Rightarrow> bool" where
  "same_subject r s \<longleftrightarrow> of_subject (jb_project r) (jb_level r) (jb_subject r) s"

definition one_slot_per_volunteer :: "rlm_job list \<Rightarrow> bool" where
  "one_slot_per_volunteer rows \<longleftrightarrow>
     (\<forall>r\<in>set rows. \<forall>s\<in>set rows. jb_group r = jb_group s \<longrightarrow> jb_claimed_by r \<noteq> None \<longrightarrow>
        jb_claimed_by r = jb_claimed_by s \<longrightarrow> jb_id r = jb_id s)"

definition group_per_subject :: "rlm_job list \<Rightarrow> bool" where
  "group_per_subject rows \<longleftrightarrow>
     (\<forall>r\<in>set rows. \<forall>s\<in>set rows. jb_group r = jb_group s \<longleftrightarrow> same_subject r s)"

definition jobs_inv :: "rlm_job list \<Rightarrow> bool" where
  "jobs_inv rows \<longleftrightarrow>
     rows_wf jb_id rows \<and> distinct (map jb_key rows) \<and> list_all row_ok rows \<and>
     one_slot_per_volunteer rows \<and> group_per_subject rows"

lemma jobs_inv_Nil [simp]: "jobs_inv []"
  by (simp add: jobs_inv_def one_slot_per_volunteer_def group_per_subject_def)

lemma jobs_invD:
  assumes "jobs_inv rows"
  shows "rows_wf jb_id rows" "distinct (map jb_key rows)" "list_all row_ok rows"
    "one_slot_per_volunteer rows" "group_per_subject rows"
  using assms by (simp_all add: jobs_inv_def)

text \<open>
  Updates that keep a row's identity (id, key, subject, group) and either keep or drop its
  owner preserve the invariant. Completion, failure, cancellation, requeue and the payload
  refresh are all of this kind.
\<close>

definition keeps_identity :: "(rlm_job \<Rightarrow> rlm_job) \<Rightarrow> bool" where
  "keeps_identity f \<longleftrightarrow>
     (\<forall>r. jb_id (f r) = jb_id r \<and> jb_key (f r) = jb_key r \<and> jb_project (f r) = jb_project r \<and>
          jb_level (f r) = jb_level r \<and> jb_subject (f r) = jb_subject r \<and>
          jb_group (f r) = jb_group r)"

lemmas one_slotD = one_slot_per_volunteer_def [THEN iffD1, rule_format]

lemma one_slot_update:
  assumes "\<And>r. r \<in> set rows \<Longrightarrow> jb_id (f r) = jb_id r \<and> jb_group (f r) = jb_group r"
    and "\<And>r. r \<in> set rows \<Longrightarrow> jb_claimed_by (f r) = None \<or> jb_claimed_by (f r) = jb_claimed_by r"
    and "one_slot_per_volunteer rows"
  shows "one_slot_per_volunteer (map f rows)"
  unfolding one_slot_per_volunteer_def
proof (intro ballI impI)
  fix x y
  assume "x \<in> set (map f rows)" and "y \<in> set (map f rows)"
    and g: "jb_group x = jb_group y" and c: "jb_claimed_by x \<noteq> None"
    and e: "jb_claimed_by x = jb_claimed_by y"
  then obtain r s where r: "r \<in> set rows" "x = f r" and s: "s \<in> set rows" "y = f s"
    by auto
  have "jb_claimed_by x = jb_claimed_by r" using assms(2) [of r] r c by auto
  moreover have "jb_claimed_by y = jb_claimed_by s" using assms(2) [of s] s c e by auto
  moreover have "jb_group r = jb_group s" using assms(1) [of r] assms(1) [of s] r s g by simp
  ultimately have "jb_id r = jb_id s"
    using one_slotD [OF assms(3) r(1) s(1)] c e by metis
  then show "jb_id x = jb_id y" using assms(1) r s by simp
qed

lemma group_per_subject_update:
  assumes "keeps_identity f" and "group_per_subject rows"
  shows "group_per_subject (map f rows)"
proof -
  have "jb_group (f r) = jb_group r" "same_subject (f r) (f s) = same_subject r s" for r s
    using assms(1) by (simp_all add: keeps_identity_def same_subject_def of_subject_def)
  then show ?thesis using assms(2) by (simp add: group_per_subject_def)
qed

lemma jobs_inv_mapI:
  assumes f: "keeps_identity f" and slot: "one_slot_per_volunteer (map f rows)"
    and ok: "\<And>r. row_ok r \<Longrightarrow> row_ok (f r)"
    and inv: "jobs_inv rows"
  shows "jobs_inv (map f rows)"
proof -
  from f have "map jb_id (map f rows) = map jb_id rows" "map jb_key (map f rows) = map jb_key rows"
    "list_all (\<lambda>r. 0 < jb_id r) (map f rows) = list_all (\<lambda>r. 0 < jb_id r) rows"
    by (simp_all add: keeps_identity_def list_all_iff)
  moreover have "list_all row_ok (map f rows)"
    using jobs_invD(3) [OF inv] ok by (simp add: list_all_iff)
  moreover have "group_per_subject (map f rows)"
    by (rule group_per_subject_update [OF f jobs_invD(5) [OF inv]])
  ultimately show ?thesis
    using jobs_invD(1,2) [OF inv] slot unfolding jobs_inv_def rows_wf_def by presburger
qed

lemma jobs_inv_map:
  assumes f: "keeps_identity f"
    and own: "\<And>r. jb_claimed_by (f r) = None \<or> jb_claimed_by (f r) = jb_claimed_by r"
    and ok: "\<And>r. row_ok r \<Longrightarrow> row_ok (f r)"
    and inv: "jobs_inv rows"
  shows "jobs_inv (map f rows)"
proof (rule jobs_inv_mapI [OF f _ ok inv])
  show "one_slot_per_volunteer (map f rows)"
    by (rule one_slot_update) (use f own jobs_invD(4) [OF inv] in \<open>auto simp: keeps_identity_def\<close>)
qed

lemma jobs_inv_update_where:
  assumes "keeps_identity f"
    and "\<And>r. p r \<Longrightarrow> jb_claimed_by (f r) = None \<or> jb_claimed_by (f r) = jb_claimed_by r"
    and "\<And>r. p r \<Longrightarrow> row_ok r \<Longrightarrow> row_ok (f r)"
    and "jobs_inv rows"
  shows "jobs_inv (update_where p f rows)"
  unfolding update_where_def
  by (rule jobs_inv_map) (use assms in \<open>auto simp: keeps_identity_def\<close>)

section \<open>The invariant under the operations\<close>

lemma complete_inv:
  assumes "jobs_inv (jobs db)"
  shows "jobs_inv (jobs (fst (complete_rlm_job now i w g db)))"
proof -
  have "jobs_inv (update_where (\<lambda>r. jb_id r = i) (done_row now) (jobs db))"
    by (rule jobs_inv_update_where [OF _ _ _ assms])
      (auto simp: keeps_identity_def done_row_def row_ok_def)
  then show ?thesis
    using assms by (auto simp: complete_rlm_job_def split: option.splits)
qed

lemma fail_inv:
  assumes "jobs_inv (jobs db)"
  shows "jobs_inv (jobs (fail_rlm_job now i w e m db))"
  unfolding fail_rlm_job_def Let_def
  by (auto simp: keeps_identity_def release_row_def row_ok_def
      intro!: jobs_inv_update_where [OF _ _ _ assms])

lemma cancel_inv:
  "jobs_inv (jobs db) \<Longrightarrow> jobs_inv (jobs (fst (cancel_rlm_jobs_for_subjects now p ss db)))"
proof (induction now p ss db rule: cancel_rlm_jobs_for_subjects.induct)
  case (1 now project db)
  then show ?case by simp
next
  case (2 now project level subject rest db)
  let ?db = "db\<lparr>jobs := update_where (\<lambda>r. of_subject project level subject r \<and> live_job r)
                       (cancel_row now) (jobs db)\<rparr>"
  have "jobs_inv (jobs ?db)"
    using "2.prems"
    by (auto simp: keeps_identity_def cancel_row_def release_row_def row_ok_def
        intro!: jobs_inv_update_where)
  then have "jobs_inv (jobs (fst (cancel_rlm_jobs_for_subjects now project rest ?db)))"
    using "2.IH" by simp
  then show ?case by (simp add: Let_def case_prod_beta)
qed

lemma requeue_inv:
  assumes "jobs_inv (jobs db)"
  shows "jobs_inv (jobs (fst (requeue_expired_rlm_leases now db)))"
  unfolding requeue_expired_rlm_leases_def
  by (auto simp: keeps_identity_def release_row_def row_ok_def
      intro!: jobs_inv_update_where [OF _ _ _ assms])

lemma payload_inv:
  assumes "jobs_inv (jobs db)"
  shows "jobs_inv (jobs (update_rlm_job_payload now p l s pl db))"
  unfolding update_rlm_job_payload_def
  by (auto simp: keeps_identity_def row_ok_def intro!: jobs_inv_update_where [OF _ _ _ assms])

lemma max_or_zero_ge: "x \<in> set xs \<Longrightarrow> x \<le> max_or_zero xs"
proof -
  have "\<forall>x\<in>set (y # ys). x \<le> foldr max ys y" for y :: int and ys
    by (induction ys) auto
  then show "x \<in> set xs \<Longrightarrow> x \<le> max_or_zero xs"
    by (cases xs) (auto simp: max_or_zero_def)
qed

lemma next_group_fresh: "r \<in> set rows \<Longrightarrow> jb_group r \<noteq> Some (next_group rows)"
proof
  assume r: "r \<in> set rows" and g: "jb_group r = Some (next_group rows)"
  then have "next_group rows \<in> set (groups_of rows)"
    by (force simp: groups_of_def List.map_filter_def)
  then have "next_group rows \<le> max_or_zero (groups_of rows)"
    by (rule max_or_zero_ge)
  then show False by (simp add: next_group_def)
qed

lemma jobs_inv_filter:
  assumes "jobs_inv rows"
  shows "jobs_inv (filter p rows)"
  using jobs_invD [OF assms]
  by (auto simp: jobs_inv_def one_slot_per_volunteer_def group_per_subject_def list_all_iff
      intro: rows_wf_filter distinct_map_filter)

text \<open>Appending one slot row of a group that holds exactly the rows of its subject.\<close>

definition owns_group :: "new_rlm_job \<Rightarrow> int \<Rightarrow> rlm_job list \<Rightarrow> bool" where
  "owns_group job g rows \<longleftrightarrow>
     (\<forall>r\<in>set rows. jb_group r = Some g \<longleftrightarrow>
        of_subject (nj_project job) (nj_level job) (nj_subject job) r)"

lemma slot_row_simps [simp]:
  "jb_id (slot_row job k g gen now i) = i" "jb_key (slot_row job k g gen now i) = k"
  "jb_group (slot_row job k g gen now i) = Some g"
  "jb_generation (slot_row job k g gen now i) = gen"
  "jb_status (slot_row job k g gen now i) = Pending"
  "jb_claimed_by (slot_row job k g gen now i) = None"
  "jb_priority (slot_row job k g gen now i) = nj_priority job"
  "jb_payload (slot_row job k g gen now i) = nj_payload job"
  "jb_project (slot_row job k g gen now i) = nj_project job"
  "jb_level (slot_row job k g gen now i) = nj_level job"
  "jb_subject (slot_row job k g gen now i) = nj_subject job"
  "of_subject p l s (slot_row job k g gen now i) \<longleftrightarrow>
     nj_project job = p \<and> nj_level job = l \<and> nj_subject job = s"
  by (auto simp: slot_row_def of_subject_def)

lemma jobs_inv_snoc:
  assumes inv: "jobs_inv rows" and own: "owns_group job g rows"
    and key: "\<not> list_ex (\<lambda>r. jb_key r = k) rows" and gen: "0 \<le> gen"
  shows "jobs_inv (rows @ [slot_row job k g gen now (next_rowid jb_id rows)])"
proof -
  let ?n = "slot_row job k g gen now (next_rowid jb_id rows)"
  note inv' = jobs_invD [OF inv]
  have "rows_wf jb_id (rows @ [?n])" by (rule rows_wf_snoc) (use inv' in auto)
  moreover have "distinct (map jb_key (rows @ [?n]))" using inv'(2) key by (auto simp: list_ex_iff)
  moreover have "row_ok ?n" using gen by (simp add: row_ok_def slot_row_def)
  moreover have "one_slot_per_volunteer (rows @ [?n])"
    unfolding one_slot_per_volunteer_def
  proof (intro ballI impI)
    fix x y
    assume "x \<in> set (rows @ [?n])" "y \<in> set (rows @ [?n])" "jb_group x = jb_group y"
      "jb_claimed_by x \<noteq> None" "jb_claimed_by x = jb_claimed_by y"
    moreover from this have "x \<in> set rows" "y \<in> set rows" by fastforce+
    ultimately show "jb_id x = jb_id y" using one_slotD [OF inv'(4)] by metis
  qed
  moreover have "group_per_subject (rows @ [?n])"
    unfolding group_per_subject_def
  proof (intro ballI)
    have new: "same_subject ?n r \<longleftrightarrow> jb_group r = Some g" "same_subject r ?n \<longleftrightarrow> jb_group r = Some g"
      if "r \<in> set rows" for r
    proof -
      have "jb_group r = Some g \<longleftrightarrow> of_subject (nj_project job) (nj_level job) (nj_subject job) r"
        using own that unfolding owns_group_def by (rule bspec)
      then show "same_subject ?n r \<longleftrightarrow> jb_group r = Some g" "same_subject r ?n \<longleftrightarrow> jb_group r = Some g"
        by (auto simp: same_subject_def of_subject_def)
    qed
    fix x y
    assume "x \<in> set (rows @ [?n])" "y \<in> set (rows @ [?n])"
    then consider "x \<in> set rows" "y \<in> set rows" | "x = ?n" "y \<in> set rows"
      | "x \<in> set rows" "y = ?n" | "x = ?n" "y = ?n" by auto
    then show "jb_group x = jb_group y \<longleftrightarrow> same_subject x y"
    proof cases
      case 1
      then show ?thesis using inv'(5) unfolding group_per_subject_def by blast
    qed (use new in \<open>auto simp: same_subject_def\<close>)
  qed
  ultimately show ?thesis using inv'(3) by (simp add: jobs_inv_def)
qed

lemma owns_group_snoc:
  "owns_group job g rows \<Longrightarrow> owns_group job g (rows @ [slot_row job k g gen now i])"
  by (auto simp: owns_group_def)

lemma insert_slot_rows_inv:
  "jobs_inv rows \<Longrightarrow> owns_group job g rows \<Longrightarrow> 0 \<le> gen \<Longrightarrow>
     jobs_inv (fst (insert_slot_rows job n logical g gen now ss first rows))"
proof (induction ss arbitrary: first rows)
  case Nil
  then show ?case by simp
next
  case (Cons s ss)
  then show ?case
    by (auto simp: Let_def intro!: Cons.IH intro: jobs_inv_snoc owns_group_snoc)
qed

lemma insert_rlm_slots_inv:
  "jobs_inv rows \<Longrightarrow> owns_group job g rows \<Longrightarrow> 0 \<le> gen \<Longrightarrow>
     jobs_inv (fst (insert_rlm_slots job n logical g gen now rows))"
  by (simp add: insert_rlm_slots_def insert_slot_rows_inv)

lemma max_or_zero_nonneg: "list_all (\<lambda>x. 0 \<le> x) xs \<Longrightarrow> 0 \<le> max_or_zero xs"
  by (cases xs) (auto intro: order_trans [OF _ max_or_zero_ge] simp: max_or_zero_def [of "[]"])

lemma enqueue_inv:
  assumes inv: "jobs_inv (jobs db)"
  shows "jobs_inv (jobs (fst (enqueue_rlm_job now job exclude db)))"
proof -
  define same where "same = of_subject (nj_project job) (nj_level job) (nj_subject job)"
  let ?base = "filter (\<lambda>r. \<not> same r) (jobs db)"
  have base: "jobs_inv ?base" by (rule jobs_inv_filter [OF inv])
  have fresh: "owns_group job (next_group (jobs db)) ?base"
    by (auto simp: owns_group_def same_def dest: next_group_fresh)
  show ?thesis
  proof (cases "filter same (jobs db)")
    case Nil
    then have "?base = jobs db" by (auto simp: filter_empty_conv filter_id_conv)
    with Nil fresh inv show ?thesis
      by (auto simp: enqueue_rlm_job_def Let_def case_prod_beta same_def max_or_zero_def
          intro!: insert_rlm_slots_inv)
  next
    case (Cons e es)
    then have e: "e \<in> set (jobs db)" "same e"
      by (auto simp: filter_eq_Cons_iff)
    then obtain g where g: "jb_group e = Some g"
      using jobs_invD(3) [OF inv] by (auto simp: list_all_iff row_ok_def)
    have "0 \<le> jb_generation e"
      using jobs_invD(3) [OF inv] e by (auto simp: list_all_iff row_ok_def)
    moreover have "same_subject e r \<longleftrightarrow> same r" for r
      using e(2) by (auto simp: same_subject_def same_def of_subject_def)
    then have "owns_group job g ?base"
      using jobs_invD(5) [OF inv] e(1) g
      by (fastforce simp: owns_group_def group_per_subject_def same_def)
    ultimately show ?thesis
      using Cons inv base fresh g
      by (auto simp: enqueue_rlm_job_def Let_def case_prod_beta same_def
          intro!: insert_rlm_slots_inv)
  qed
qed

section \<open>Claiming\<close>

lemma claim_cases:
  assumes "claim_rlm_job now v lease ml limit trust db = (db', res)"
  obtains (none) "db' = db" "res = Inr None"
      "\<And>r. r \<in> set (jobs db) \<Longrightarrow> \<not> claimable v ml limit trust db r"
    | (error) n where "db' = db" "res = Inl (Affected_Rows n)" "n \<noteq> 1"
    | (claimed) c where "c \<in> set (jobs db)" "claimable v ml limit trust db c"
      "db' = db\<lparr>jobs := update_where (\<lambda>r. jb_id r = jb_id c \<and> jb_status r = Pending)
               (claim_row v now (saturating_add_i64 now (max 1000 lease))) (jobs db)\<rparr>"
      "count_where (\<lambda>r. jb_id r = jb_id c \<and> jb_status r = Pending) (jobs db) = 1"
      "\<And>r. r \<in> set (jobs db) \<Longrightarrow> claimable v ml limit trust db r \<Longrightarrow>
         (jb_priority c, jb_level c, jb_created c) \<le> (jb_priority r, jb_level r, jb_created r)"
proof -
  let ?k = "\<lambda>r. (jb_priority r, jb_level r, jb_created r)"
  let ?cs = "sort_key ?k (filter (claimable v ml limit trust db) (jobs db))"
  have set_cs: "set ?cs = {r \<in> set (jobs db). claimable v ml limit trust db r}" by simp
  show ?thesis
  proof (cases ?cs)
    case Nil
    then have "\<And>r. r \<in> set (jobs db) \<Longrightarrow> \<not> claimable v ml limit trust db r"
      using set_cs by auto
    then show ?thesis using Nil assms by (intro none) (auto simp: claim_rlm_job_def Let_def)
  next
    case (Cons c cs)
    have c: "c \<in> set (jobs db)" "claimable v ml limit trust db c" using set_cs Cons by auto
    have "sorted (map ?k ?cs)" by simp
    then have least: "?k c \<le> ?k r" if "r \<in> set (jobs db)" "claimable v ml limit trust db r" for r
      using set_cs Cons that by (force simp: Cons)
    let ?n = "count_where (\<lambda>r. jb_id r = jb_id c \<and> jb_status r = Pending) (jobs db)"
    show ?thesis
    proof (cases "?n = 1")
      case True
      then show ?thesis
        using assms Cons c least by (intro claimed [of c]) (auto simp: claim_rlm_job_def Let_def)
    next
      case False
      then show ?thesis
        using assms Cons by (intro error [of ?n]) (auto simp: claim_rlm_job_def Let_def)
    qed
  qed
qed

lemma claim_inv:
  assumes inv: "jobs_inv (jobs db)"
  shows "jobs_inv (jobs (fst (claim_rlm_job now v lease ml limit trust db)))"
proof -
  obtain db' res where eq: "claim_rlm_job now v lease ml limit trust db = (db', res)"
    by fastforce
  from eq show ?thesis
  proof (cases rule: claim_cases)
    case (claimed c)
    define f :: "rlm_job \<Rightarrow> rlm_job" where "f = claim_row v now (saturating_add_i64 now (max 1000 lease))"
    define hit :: "rlm_job \<Rightarrow> bool" where "hit = (\<lambda>r. jb_id r = jb_id c \<and> jb_status r = Pending)"
    let ?f = "\<lambda>r. if hit r then f r else r"
    note inv' = jobs_invD [OF inv]
    have keep: "keeps_identity f" by (simp add: f_def keeps_identity_def claim_row_def)
    then have keep': "keeps_identity ?f" by (simp add: keeps_identity_def)
    have hit_c: "r = c" if "r \<in> set (jobs db)" "hit r" for r
      using that claimed(1) inv'(1) rows_wf_inj [of jb_id "jobs db" r c] by (simp add: hit_def)
    have free: "jb_claimed_by s \<noteq> Some v" if "s \<in> set (jobs db)" "jb_group s = jb_group c" for s
      using claimed(1,2) inv'(3) that by (auto simp: claimable_def list_ex_iff list_all_iff row_ok_def)
    have slot: "one_slot_per_volunteer (map ?f (jobs db))"
      unfolding one_slot_per_volunteer_def
    proof (intro ballI impI)
      fix x y
      assume "x \<in> set (map ?f (jobs db))" "y \<in> set (map ?f (jobs db))"
        and g: "jb_group x = jb_group y" and o: "jb_claimed_by x \<noteq> None"
        "jb_claimed_by x = jb_claimed_by y"
      then obtain r s where r: "r \<in> set (jobs db)" "x = ?f r" and s: "s \<in> set (jobs db)" "y = ?f s"
        by auto
      have ids: "jb_id x = jb_id r" "jb_id y = jb_id s" "jb_group x = jb_group r" "jb_group y = jb_group s"
        using keep' r s by (simp_all add: keeps_identity_def)
      have own: "jb_claimed_by (f r) = Some v" for r by (simp add: f_def claim_row_def)
      show "jb_id x = jb_id y"
      proof (cases "hit r"; cases "hit s")
        assume "hit r" "hit s"
        then show ?thesis using hit_c [of r] hit_c [of s] r s ids by simp
      next
        assume "hit r" "\<not> hit s"
        then show ?thesis using hit_c [of r] r s ids g o own free [of s] by simp
      next
        assume "\<not> hit r" "hit s"
        then show ?thesis using hit_c [of s] r s ids g o own free [of r] by simp
      next
        assume "\<not> hit r" "\<not> hit s"
        with r s have "x = r" "y = s" by simp_all
        then show ?thesis using one_slotD [OF inv'(4) r(1) s(1)] g o by metis
      qed
    qed
    have "row_ok (?f r)" if "row_ok r" for r
      using that by (auto simp: f_def hit_def claim_row_def row_ok_def)
    then have "jobs_inv (map ?f (jobs db))"
      by (rule jobs_inv_mapI [OF keep' slot _ inv])
    then show ?thesis using claimed(3) eq unfolding f_def hit_def by (simp add: update_where_def)
  qed (use eq inv in auto)
qed

section \<open>What each operation does to a well-formed queue\<close>

lemma hit_unique:
  assumes "rows_wf jb_id rows" "c \<in> set rows" "jb_status c = Pending"
  shows "count_where (\<lambda>r. jb_id r = jb_id c \<and> jb_status r = Pending) rows = 1"
proof -
  have "distinct rows" using assms(1) by (auto simp: rows_wf_def distinct_map)
  moreover have "set (filter (\<lambda>r. jb_id r = jb_id c \<and> jb_status r = Pending) rows) = {c}"
    using assms by (auto dest: rows_wf_inj)
  ultimately show ?thesis
    using distinct_card [of "filter (\<lambda>r. jb_id r = jb_id c \<and> jb_status r = Pending) rows"]
    by (simp add: count_where_def)
qed

lemma find_updated:
  assumes "rows_wf rid rows" "c \<in> set rows" "p c" "\<And>r. rid (f r) = rid r"
  shows "List.find (\<lambda>r. rid r = rid c) (update_where (\<lambda>r. rid r = rid c \<and> p r) f rows) = Some (f c)"
proof (rule find_unique)
  show "f c \<in> set (update_where (\<lambda>r. rid r = rid c \<and> p r) f rows)"
    using assms(2,3) by (auto simp: in_set_update_where intro!: bexI [of _ c])
  show "r' = f c"
    if "r' \<in> set (update_where (\<lambda>r. rid r = rid c \<and> p r) f rows)" "rid r' = rid c" for r'
    using that assms by (auto simp: in_set_update_where split: if_splits dest: rows_wf_inj)
qed (simp add: assms(4))

text \<open>
  A claim on a well-formed queue never fails: it hands out a least claimable row in the
  order (priority, level, creation time), or nothing when no row is claimable.
\<close>

lemma claim_result:
  assumes inv: "jobs_inv (jobs db)"
    and eq: "claim_rlm_job now v lease ml limit trust db = (db', res)"
  obtains (none) "db' = db" "res = Inr None"
      "\<And>r. r \<in> set (jobs db) \<Longrightarrow> \<not> claimable v ml limit trust db r"
    | (claimed) c where "c \<in> set (jobs db)" "claimable v ml limit trust db c"
      "db' = db\<lparr>jobs := update_where (\<lambda>r. jb_id r = jb_id c \<and> jb_status r = Pending)
               (claim_row v now (saturating_add_i64 now (max 1000 lease))) (jobs db)\<rparr>"
      "res = Inr (Some (job_ticket lease c))"
      "\<And>r. r \<in> set (jobs db) \<Longrightarrow> claimable v ml limit trust db r \<Longrightarrow>
         (jb_priority c, jb_level c, jb_created c) \<le> (jb_priority r, jb_level r, jb_created r)"
proof -
  let ?cs = "sort_key (\<lambda>r. (jb_priority r, jb_level r, jb_created r))
               (filter (claimable v ml limit trust db) (jobs db))"
  from eq show ?thesis
  proof (cases rule: claim_cases)
    case none
    then show ?thesis by (rule that(1))
  next
    case (error n)
    show ?thesis
    proof (cases ?cs)
      case Nil
      with eq error show ?thesis by (simp add: claim_rlm_job_def Let_def)
    next
      case (Cons c cs)
      then have "c \<in> set ?cs" by simp
      then have "c \<in> set (jobs db)" "jb_status c = Pending" by (auto simp: claimable_def)
      then have "count_where (\<lambda>r. jb_id r = jb_id c \<and> jb_status r = Pending) (jobs db) = 1"
        by (rule hit_unique [OF jobs_invD(1) [OF inv]])
      with eq error Cons show ?thesis by (simp add: claim_rlm_job_def Let_def)
    qed
  next
    case (claimed c)
    let ?rows = "update_where (\<lambda>r. jb_id r = jb_id c \<and> jb_status r = Pending)
                   (claim_row v now (saturating_add_i64 now (max 1000 lease))) (jobs db)"
    have "c \<in> set ?cs" using claimed(1,2) by simp
    then obtain d ds where d: "?cs = d # ds" by (cases ?cs) auto
    then have "d \<in> set ?cs" by simp
    then have dd: "d \<in> set (jobs db)" "claimable v ml limit trust db d" by auto
    then have pend: "jb_status d = Pending" by (simp add: claimable_def)
    let ?rows' = "update_where (\<lambda>r. jb_id r = jb_id d \<and> jb_status r = Pending)
                    (claim_row v now (saturating_add_i64 now (max 1000 lease))) (jobs db)"
    have fnd: "List.find (\<lambda>r. jb_id r = jb_id d) ?rows' =
                 Some (claim_row v now (saturating_add_i64 now (max 1000 lease)) d)"
      by (rule find_updated [OF jobs_invD(1) [OF inv]]) (use dd pend in \<open>auto simp: claim_row_def\<close>)
    have tick: "job_ticket lease (claim_row v now e d) = job_ticket lease d" for e
      by (simp add: job_ticket_def claim_row_def)
    have "claim_rlm_job now v lease ml limit trust db =
            (db\<lparr>jobs := ?rows'\<rparr>, Inr (Some (job_ticket lease d)))"
      using d fnd tick hit_unique [OF jobs_invD(1) [OF inv] dd(1) pend]
      by (simp add: claim_rlm_job_def Let_def)
    moreover have "(jb_priority d, jb_level d, jb_created d) \<le> (jb_priority r, jb_level r, jb_created r)"
      if "r \<in> set (jobs db)" "claimable v ml limit trust db r" for r
    proof -
      have "sorted (map (\<lambda>r. (jb_priority r, jb_level r, jb_created r)) ?cs)" by simp
      moreover have "r \<in> set ?cs" using that by simp
      ultimately show ?thesis unfolding d by auto
    qed
    ultimately show ?thesis using dd eq by (intro that(2) [of d]) auto
  qed
qed

lemma complete_cases:
  assumes inv: "jobs_inv (jobs db)" and r: "r \<in> set (jobs db)" "jb_id r = i"
  shows "complete_rlm_job now i w g db =
     (if jb_status r = Claimed \<and> lease_valid now w g r
      then (db\<lparr>jobs := update_where (\<lambda>r. jb_id r = i) (done_row now) (jobs db)\<rparr>, True)
      else (db, False))"
proof -
  note wf = jobs_invD(1) [OF inv]
  have pos: "0 < count_where (\<lambda>r. jb_id r = i) (jobs db)"
    using r by (auto simp: count_where_def filter_empty_conv)
  show ?thesis
  proof (cases "jb_status r = Claimed")
    case True
    then have "List.find (\<lambda>r. jb_id r = i \<and> jb_status r = Claimed) (jobs db) = Some r"
      using r by (intro find_unique) (auto dest: rows_wf_inj [OF wf])
    with True pos show ?thesis by (simp add: complete_rlm_job_def)
  next
    case False
    then have "List.find (\<lambda>r. jb_id r = i \<and> jb_status r = Claimed) (jobs db) = None"
      using r by (auto simp: find_None_iff dest: rows_wf_inj [OF wf])
    with False show ?thesis by (simp add: complete_rlm_job_def)
  qed
qed

lemma complete_True_D:
  assumes inv: "jobs_inv (jobs db)" and "snd (complete_rlm_job now i w g db)"
  obtains r where "r \<in> set (jobs db)" "jb_id r = i" "jb_status r = Claimed" "lease_valid now w g r"
proof -
  from assms(2) obtain r where
    "List.find (\<lambda>r. jb_id r = i \<and> jb_status r = Claimed) (jobs db) = Some r" "lease_valid now w g r"
    by (auto simp: complete_rlm_job_def split: option.splits if_splits)
  then show ?thesis using that by (auto dest!: find_SomeD)
qed

text \<open>The bulk operations, as one map over the table.\<close>

definition cancel_hits :: "string \<Rightarrow> (int \<times> string) list \<Rightarrow> rlm_job \<Rightarrow> bool" where
  "cancel_hits project ss r \<longleftrightarrow>
     live_job r \<and> jb_project r = project \<and> (jb_level r, jb_subject r) \<in> set ss"

lemma cancel_row_live [simp]: "live_job (cancel_row now r)"
  by (simp add: cancel_row_def release_row_def live_job_def)

lemma cancel_row_identity: "keeps_identity (cancel_row now)"
  by (simp add: keeps_identity_def cancel_row_def release_row_def)

text \<open>
  A cancelled subject is bumped once per mention, so a row outside the mention list is
  untouched and a row inside it ends with a larger generation and no owner.
\<close>

lemma cancel_rows:
  "\<forall>r\<in>set (jobs db). \<exists>r'\<in>set (jobs (fst (cancel_rlm_jobs_for_subjects now p ss db))).
     jb_id r' = jb_id r \<and>
     (if cancel_hits p ss r
      then jb_generation r < jb_generation r' \<and> jb_status r' = Pending \<and> jb_claimed_by r' = None
           \<and> jb_priority r' = priority_cancelled
      else r' = r)"
proof (induction now p ss db rule: cancel_rlm_jobs_for_subjects.induct)
  case (1 now p db)
  then show ?case by (auto simp: cancel_hits_def)
next
  case (2 now p l s rest db)
  define hit where "hit r \<longleftrightarrow> of_subject p l s r \<and> live_job r" for r
  define db1 where "db1 = db\<lparr>jobs := update_where hit (cancel_row now) (jobs db)\<rparr>"
  have fst_eq: "fst (cancel_rlm_jobs_for_subjects now p ((l, s) # rest) db) =
      fst (cancel_rlm_jobs_for_subjects now p rest db1)"
    by (simp add: Let_def case_prod_beta db1_def hit_def [abs_def])
  have IH: "\<forall>r\<in>set (jobs db1). \<exists>r'\<in>set (jobs (fst (cancel_rlm_jobs_for_subjects now p rest db1))).
     jb_id r' = jb_id r \<and>
     (if cancel_hits p rest r
      then jb_generation r < jb_generation r' \<and> jb_status r' = Pending \<and> jb_claimed_by r' = None
           \<and> jb_priority r' = priority_cancelled
      else r' = r)"
    using "2.IH" by (simp add: db1_def hit_def [abs_def])
  show ?case
    unfolding fst_eq
  proof
    fix r
    assume r: "r \<in> set (jobs db)"
    let ?r = "if hit r then cancel_row now r else r"
    have "?r \<in> set (jobs db1)" using r by (auto simp: db1_def in_set_update_where)
    then obtain r' where r': "r' \<in> set (jobs (fst (cancel_rlm_jobs_for_subjects now p rest db1)))"
      "jb_id r' = jb_id ?r"
      "if cancel_hits p rest ?r
       then jb_generation ?r < jb_generation r' \<and> jb_status r' = Pending \<and> jb_claimed_by r' = None
            \<and> jb_priority r' = priority_cancelled
       else r' = ?r" using IH by blast
    show "\<exists>r'\<in>set (jobs (fst (cancel_rlm_jobs_for_subjects now p rest db1))). jb_id r' = jb_id r \<and>
     (if cancel_hits p ((l, s) # rest) r
      then jb_generation r < jb_generation r' \<and> jb_status r' = Pending \<and> jb_claimed_by r' = None
           \<and> jb_priority r' = priority_cancelled
      else r' = r)"
    proof (intro bexI conjI)
      show "r' \<in> set (jobs (fst (cancel_rlm_jobs_for_subjects now p rest db1)))" by (rule r'(1))
      show "jb_id r' = jb_id r"
        using r'(2) by (simp add: cancel_row_def release_row_def split: if_splits)
      show "if cancel_hits p ((l, s) # rest) r
      then jb_generation r < jb_generation r' \<and> jb_status r' = Pending \<and> jb_claimed_by r' = None
           \<and> jb_priority r' = priority_cancelled
      else r' = r"
      proof (cases "hit r")
        case True
        then have "cancel_hits p ((l, s) # rest) r"
          by (auto simp: hit_def cancel_hits_def of_subject_def)
        with True r'(3) show ?thesis
          by (cases "cancel_hits p rest (cancel_row now r)")
            (simp_all add: cancel_row_def release_row_def)
      next
        case False
        then have "cancel_hits p ((l, s) # rest) r \<longleftrightarrow> cancel_hits p rest r"
          by (auto simp: hit_def cancel_hits_def of_subject_def)
        with r'(3) [unfolded if_not_P [OF False]] show ?thesis by simp
      qed
    qed
  qed
qed

end
