(* ===== verification/Rlm_Queue.thy ===== *)
theory Rlm_Queue
  imports Rlm_Jobs
begin

text \<open>
  The job queue as a state machine: the runs of its operations, the invariant in every
  reachable state, and the properties a volunteer relies on: exclusive leases, completion
  at most once, rejection of stale work, fan-out to distinct volunteers, and progress. The
  last section follows the generations of a subject along a run.
\<close>

section \<open>The queue as a state machine\<close>

text \<open>
  One constructor per operation of the queue, with the time the server reads. A run is a
  sequence of operations from the empty queue, in any order and by any volunteers.
\<close>

datatype queue_op =
    Op_Enqueue millis new_rlm_job "string list"
  | Op_Claim millis string millis "int option" nat "trust_row list"
  | Op_Complete millis row_id string int
  | Op_Fail millis row_id string string int
  | Op_Cancel millis string "(int \<times> string) list"
  | Op_Requeue millis
  | Op_Payload millis string int string string

fun queue_step :: "queue_op \<Rightarrow> job_db \<Rightarrow> job_db" where
  "queue_step (Op_Enqueue now job ex) db = fst (enqueue_rlm_job now job ex db)"
| "queue_step (Op_Claim now v lease ml limit trust) db =
     fst (claim_rlm_job now v lease ml limit trust db)"
| "queue_step (Op_Complete now i w g) db = fst (complete_rlm_job now i w g db)"
| "queue_step (Op_Fail now i w e m) db = fail_rlm_job now i w e m db"
| "queue_step (Op_Cancel now p ss) db = fst (cancel_rlm_jobs_for_subjects now p ss db)"
| "queue_step (Op_Requeue now) db = fst (requeue_expired_rlm_leases now db)"
| "queue_step (Op_Payload now p l s pl) db = update_rlm_job_payload now p l s pl db"

definition empty_queue :: job_db where
  "empty_queue = \<lparr>jobs = [], exclusions = []\<rparr>"

inductive queue_reachable :: "job_db \<Rightarrow> bool" where
  start: "queue_reachable empty_queue"
| step: "queue_reachable db \<Longrightarrow> queue_reachable (queue_step op db)"

fun queue_run :: "queue_op list \<Rightarrow> job_db \<Rightarrow> job_db" where
  "queue_run [] db = db"
| "queue_run (op # ops) db = queue_run ops (queue_step op db)"

lemma queue_run_reachable: "queue_reachable db \<Longrightarrow> queue_reachable (queue_run ops db)"
  by (induction ops arbitrary: db) (auto intro: queue_reachable.step)

lemma queue_step_inv: "jobs_inv (jobs db) \<Longrightarrow> jobs_inv (jobs (queue_step op db))"
  by (cases op)
    (simp_all add: enqueue_inv claim_inv complete_inv fail_inv cancel_inv requeue_inv payload_inv)

lemma queue_reachable_inv: "queue_reachable db \<Longrightarrow> jobs_inv (jobs db)"
  by (induction rule: queue_reachable.induct) (simp_all add: empty_queue_def queue_step_inv)

section \<open>Keys and fan-out\<close>

lemma rlm_job_key_inj:
  assumes "rlm_job_key p l s = rlm_job_key p' l' s'" and "CHR '':'' \<notin> set p" "CHR '':'' \<notin> set p'"
  shows "p = p' \<and> l = l' \<and> s = s'"
proof -
  have "show_int l @ CHR '':'' # p @ CHR '':'' # s = show_int l' @ CHR '':'' # p' @ CHR '':'' # s'"
    using assms(1) by (simp add: rlm_job_key_def)
  then have l: "show_int l = show_int l'" and "p @ CHR '':'' # s = p' @ CHR '':'' # s'"
    using split_at_first [OF _ show_int_no_colon show_int_no_colon] by blast+
  moreover from this have "p = p' \<and> s = s'"
    by (intro split_at_first [OF _ assms(2,3)])
  ultimately show ?thesis by (simp add: show_int_inj)
qed

lemma slot_key_inj: "n \<noteq> 1 \<Longrightarrow> slot_key k n s = slot_key k n s' \<longleftrightarrow> s = s'"
  by (simp add: slot_key_def show_nat_inj)

lemma slot_keys_distinct: "distinct (map (slot_key k n) [0..<n])"
proof (cases "n = 1")
  case False
  then show ?thesis by (auto simp: distinct_map inj_on_def slot_key_inj)
qed simp

text \<open>The rows of one fan-out: claimable slots of one group and generation.\<close>

definition fresh_slot :: "new_rlm_job \<Rightarrow> int \<Rightarrow> int \<Rightarrow> rlm_job \<Rightarrow> bool" where
  "fresh_slot job g gen r \<longleftrightarrow>
     of_subject (nj_project job) (nj_level job) (nj_subject job) r \<and>
     jb_group r = Some g \<and> jb_generation r = gen \<and> jb_status r = Pending \<and>
     jb_claimed_by r = None \<and> jb_priority r = nj_priority job \<and> jb_payload r = nj_payload job"

lemma insert_slot_rows_ok:
  assumes "distinct (map (slot_key logical n) ss)"
    and "list_all (\<lambda>s. \<not> list_ex (\<lambda>r. jb_key r = slot_key logical n s) rows) ss"
  shows "\<exists>new. insert_slot_rows job n logical g gen now ss first rows =
      (rows @ new, Inr (if first = 0 \<and> ss \<noteq> [] then next_rowid jb_id rows else first)) \<and>
      map jb_key new = map (slot_key logical n) ss \<and> list_all (fresh_slot job g gen) new"
  using assms
proof (induction ss arbitrary: first rows)
  case Nil
  then show ?case by simp
next
  case (Cons s ss)
  let ?i = "next_rowid jb_id rows"
  let ?r = "slot_row job (slot_key logical n s) g gen now ?i"
  let ?first = "if first = 0 then ?i else first"
  have "list_all (\<lambda>t. \<not> list_ex (\<lambda>r. jb_key r = slot_key logical n t) (rows @ [?r])) ss"
    using Cons.prems by (auto simp: list_all_iff list_ex_iff)
  then obtain new where new: "insert_slot_rows job n logical g gen now ss ?first (rows @ [?r]) =
      ((rows @ [?r]) @ new,
       Inr (if ?first = 0 \<and> ss \<noteq> [] then next_rowid jb_id (rows @ [?r]) else ?first))"
      "map jb_key new = map (slot_key logical n) ss" "list_all (fresh_slot job g gen) new"
    using Cons.IH [of "rows @ [?r]" ?first] Cons.prems(1) by auto
  have "?i \<noteq> 0" using next_rowid_pos [of jb_id rows] by linarith
  moreover have "\<not> list_ex (\<lambda>r. jb_key r = slot_key logical n s) rows" using Cons.prems(2) by simp
  moreover have "fresh_slot job g gen ?r" by (simp add: fresh_slot_def)
  ultimately show ?case
    using new by (intro exI [of _ "?r # new"]) (auto simp: Let_def)
qed

text \<open>
  The keys the fan-out needs are free: this is the exact condition under which the insert
  loop meets no \<open>UNIQUE\<close> violation.
\<close>

definition slot_keys_free :: "new_rlm_job \<Rightarrow> rlm_job list \<Rightarrow> bool" where
  "slot_keys_free job rows \<longleftrightarrow>
     (let n = max 1 (nj_slots job);
          logical = rlm_job_key (nj_project job) (nj_level job) (nj_subject job)
      in list_all (\<lambda>s. \<not> list_ex (\<lambda>r. jb_key r = slot_key logical n s) rows) [0..<n])"

lemma insert_rlm_slots_ok:
  assumes "slot_keys_free job rows" and n: "n = max 1 (nj_slots job)"
    and l: "logical = rlm_job_key (nj_project job) (nj_level job) (nj_subject job)"
  obtains new where "insert_rlm_slots job n logical g gen now rows =
      (rows @ new, Inr (next_rowid jb_id rows))"
    "map jb_key new = map (slot_key logical n) [0..<n]" "list_all (fresh_slot job g gen) new"
proof -
  have "0 < n" using n by simp
  then show ?thesis
    using insert_slot_rows_ok [OF slot_keys_distinct, of logical n rows job g gen now 0] assms that
    by (auto simp: insert_rlm_slots_def slot_keys_free_def Let_def)
qed

section \<open>Properties of the queue\<close>

text \<open>
  C1: in every state the queue can reach, every row is well formed: row ids and keys are unique, a
  claimed row has an owner and a lease, a pending one has neither, every row has a group and
  counters that are not negative. The rows of a subject and those of a generation group are
  the same rows, and a volunteer owns at most one of them, claimed or done, so the
  slots of a subject always go to distinct volunteers.\<close>

theorem rlm_one_slot_per_volunteer:
  assumes "queue_reachable db"
  shows "rows_wf jb_id (jobs db) \<and> distinct (map jb_key (jobs db)) \<and> list_all row_ok (jobs db) \<and>
    (\<forall>r\<in>set (jobs db). \<forall>s\<in>set (jobs db).
       (jb_group r = jb_group s \<longleftrightarrow> of_subject (jb_project r) (jb_level r) (jb_subject r) s) \<and>
       (of_subject (jb_project r) (jb_level r) (jb_subject r) s \<and> jb_claimed_by r \<noteq> None \<and>
          jb_claimed_by s = jb_claimed_by r \<longrightarrow> r = s))"
proof -
  note inv = queue_reachable_inv [OF assms]
  have "r = s" if "r \<in> set (jobs db)" "s \<in> set (jobs db)" "jb_group r = jb_group s"
    "jb_claimed_by r \<noteq> None" "jb_claimed_by s = jb_claimed_by r" for r s
  proof -
    have "jb_id r = jb_id s" using one_slotD [OF jobs_invD(4) [OF inv]] that by metis
    then show ?thesis using rows_wf_inj [OF jobs_invD(1) [OF inv]] that by blast
  qed
  then show ?thesis using jobs_invD [OF inv] by (simp add: group_per_subject_def same_subject_def)
qed

definition demo_job :: "nat \<Rightarrow> new_rlm_job" where
  "demo_job n = \<lparr>nj_buffer = Some 7, nj_project = ''p'', nj_level = 1, nj_subject = ''a.rs'',
     nj_payload = ''{}'', nj_priority = priority_fresh, nj_slots = n\<rparr>"

definition demo_queue :: job_db where
  "demo_queue = queue_run [Op_Enqueue 0 (demo_job 2) [], Op_Claim 10 ''ann'' 5000 None 3 []]
     empty_queue"

lemma demo_queue_reachable: "queue_reachable demo_queue"
  unfolding demo_queue_def by (rule queue_run_reachable [OF queue_reachable.start])

definition demo_claimed :: rlm_job where
  "demo_claimed = \<lparr>jb_id = 1, jb_key = ''L1:p:a.rs#0'', jb_buffer = Some 7, jb_project = ''p'',
     jb_level = 1, jb_subject = ''a.rs'', jb_payload = ''{}'', jb_generation = 0,
     jb_group = Some 1, jb_status = Claimed, jb_priority = 5, jb_claimed_by = Some ''ann'',
     jb_claimed_at = Some 10, jb_lease = Some 5010, jb_attempts = 1, jb_last_error = None,
     jb_created = 0, jb_updated = 10\<rparr>"

lemma demo_queue_jobs:
  "jobs demo_queue = [demo_claimed,
     demo_claimed\<lparr>jb_id := 2, jb_key := ''L1:p:a.rs#1'', jb_status := Pending,
       jb_claimed_by := None, jb_claimed_at := None, jb_lease := None, jb_attempts := 0,
       jb_updated := 0\<rparr>]"
  by code_simp

theorem rlm_one_slot_per_volunteer_witness:
  "length (jobs demo_queue) = 2 \<and> list_all row_ok (jobs demo_queue) \<and>
   jb_claimed_by (jobs demo_queue ! 0) = Some ''ann'' \<and> jb_claimed_by (jobs demo_queue ! 1) \<noteq> Some ''ann''"
proof -
  let ?a = "jobs demo_queue ! 0" and ?b = "jobs demo_queue ! 1"
  have j: "length (jobs demo_queue) = 2" "jb_claimed_by ?a = Some ''ann''" "?a \<noteq> ?b"
    "of_subject (jb_project ?a) (jb_level ?a) (jb_subject ?a) ?b"
    by (simp_all add: demo_queue_jobs demo_claimed_def of_subject_def)
  then have "?a \<in> set (jobs demo_queue)" "?b \<in> set (jobs demo_queue)" by simp_all
  then have "list_all row_ok (jobs demo_queue)" "of_subject (jb_project ?a) (jb_level ?a) (jb_subject ?a) ?b \<and>
      jb_claimed_by ?a \<noteq> None \<and> jb_claimed_by ?b = jb_claimed_by ?a \<longrightarrow> ?a = ?b"
    using rlm_one_slot_per_volunteer [OF demo_queue_reachable] by simp_all
  then show ?thesis using j by auto
qed

text \<open>When an operation reads the clock, and whether it takes a given claimed row from its
  owner: the owner completes or fails it, or its subject is cancelled.\<close>

fun op_time :: "queue_op \<Rightarrow> millis" where
  "op_time (Op_Enqueue now _ _) = now"
| "op_time (Op_Claim now _ _ _ _ _) = now"
| "op_time (Op_Complete now _ _ _) = now"
| "op_time (Op_Fail now _ _ _ _) = now"
| "op_time (Op_Cancel now _ _) = now"
| "op_time (Op_Requeue now) = now"
| "op_time (Op_Payload now _ _ _ _) = now"

fun op_releases :: "rlm_job \<Rightarrow> queue_op \<Rightarrow> bool" where
  "op_releases r (Op_Complete _ i w _) \<longleftrightarrow> jb_id r = i \<and> jb_claimed_by r = Some w"
| "op_releases r (Op_Fail _ i w _ _) \<longleftrightarrow> jb_id r = i \<and> jb_claimed_by r = Some w"
| "op_releases r (Op_Cancel _ p ss) \<longleftrightarrow> cancel_hits p ss r"
| "op_releases r _ \<longleftrightarrow> False"

definition same_lease :: "rlm_job \<Rightarrow> rlm_job \<Rightarrow> bool" where
  "same_lease r s \<longleftrightarrow>
     jb_id s = jb_id r \<and> jb_project s = jb_project r \<and> jb_level s = jb_level r \<and>
     jb_subject s = jb_subject r \<and> jb_generation s = jb_generation r \<and>
     jb_status s = jb_status r \<and> jb_claimed_by s = jb_claimed_by r \<and> jb_lease s = jb_lease r"

lemma same_lease_refl [simp]: "same_lease r r"
  by (simp add: same_lease_def)

lemma same_leaseI: "r \<in> S \<Longrightarrow> \<exists>s\<in>S. same_lease r s"
  by (rule bexI [of _ r]) simp_all

lemma same_lease_releases: "same_lease r s \<Longrightarrow> op_releases s op = op_releases r op"
  by (cases op) (simp_all add: same_lease_def cancel_hits_def live_job_def)

lemma in_set_update_other: "r \<in> set rows \<Longrightarrow> \<not> p r \<Longrightarrow> r \<in> set (update_where p f rows)"
  by (auto simp: in_set_update_where)

lemma insert_slot_rows_keeps:
  "set rows \<subseteq> set (fst (insert_slot_rows job n logical g gen now ss first rows))"
proof (induction ss arbitrary: first rows)
  case Nil
  then show ?case by simp
next
  case (Cons s ss)
  let ?key = "slot_key logical n s"
  let ?rows = "rows @ [slot_row job ?key g gen now (next_rowid jb_id rows)]"
  let ?first = "if first = 0 then next_rowid jb_id rows else first"
  have "set ?rows \<subseteq> set (fst (insert_slot_rows job n logical g gen now ss ?first ?rows))"
    by (rule Cons.IH)
  then have "set rows \<subseteq> set (fst (insert_slot_rows job n logical g gen now ss ?first ?rows))"
    by simp
  then show ?case
    by (cases "list_ex (\<lambda>r. jb_key r = ?key) rows") (simp_all add: Let_def)
qed

lemma enqueue_keeps_live:
  assumes "r \<in> set (jobs db)" and "live_job r"
  shows "r \<in> set (jobs (fst (enqueue_rlm_job now job ex db)))"
proof -
  let ?same = "of_subject (nj_project job) (nj_level job) (nj_subject job)"
  show ?thesis
  proof (cases "filter ?same (jobs db)")
    case Nil
    then show ?thesis
      by (simp add: enqueue_rlm_job_def Let_def case_prod_beta insert_rlm_slots_def
          subsetD [OF insert_slot_rows_keeps assms(1)])
  next
    case (Cons e es)
    show ?thesis
    proof (cases "list_ex live_job (e # es)")
      case True
      with Cons assms(1) show ?thesis by (simp add: enqueue_rlm_job_def Let_def)
    next
      case False
      then have "r \<notin> set (filter ?same (jobs db))"
        unfolding Cons using assms(2) by (auto simp: list_ex_iff)
      then have "r \<in> set (filter (\<lambda>r. \<not> ?same r) (jobs db))" using assms(1) by simp
      then have "r \<in> set (fst (insert_slot_rows job n logical g gen now ss first
                   (filter (\<lambda>r. \<not> ?same r) (jobs db))))" for n logical g gen ss first
        using insert_slot_rows_keeps by blast
      with Cons False show ?thesis
        by (simp add: enqueue_rlm_job_def Let_def case_prod_beta insert_rlm_slots_def)
    qed
  qed
qed

lemma lease_kept_step:
  assumes inv: "jobs_inv (jobs db)" and r: "r \<in> set (jobs db)"
    and c: "jb_status r = Claimed" and l: "jb_lease r = Some l" "op_time op \<le> l"
    and nr: "\<not> op_releases r op"
  shows "\<exists>s\<in>set (jobs (queue_step op db)). same_lease r s"
proof (cases op)
  case (Op_Enqueue now job ex)
  have "r \<in> set (jobs (queue_step op db))"
    using enqueue_keeps_live [OF r] c by (simp add: Op_Enqueue live_job_def)
  then show ?thesis by (rule same_leaseI)
next
  case (Op_Claim now v lease ml limit trust)
  obtain db' res where eq: "claim_rlm_job now v lease ml limit trust db = (db', res)" by fastforce
  from eq have "r \<in> set (jobs db')"
    by (cases rule: claim_cases) (use r c in \<open>auto intro!: in_set_update_other\<close>)
  then show ?thesis using eq by (simp add: Op_Claim same_leaseI)
next
  case (Op_Complete now i w g)
  have "r \<in> set (jobs (fst (complete_rlm_job now i w g db)))"
  proof (cases "jb_id r = i")
    case True
    with nr have "\<not> lease_valid now w g r" by (simp add: Op_Complete lease_valid_def)
    then show ?thesis using complete_cases [OF inv r True] r by simp
  next
    case False
    then have "r \<in> set (update_where (\<lambda>r. jb_id r = i) (done_row now) (jobs db))"
      using r by (simp add: in_set_update_other)
    then show ?thesis using r by (simp add: complete_rlm_job_def split: option.splits)
  qed
  then show ?thesis by (simp add: Op_Complete same_leaseI)
next
  case (Op_Fail now i w e m)
  have "\<not> (jb_id r = i \<and> jb_claimed_by r = Some w)" using nr by (simp add: Op_Fail)
  then have "r \<in> set (update_where (\<lambda>r. (jb_id r = i \<and> jb_claimed_by r = Some w) \<and> jb_status r = Claimed)
                       f (jobs db))" for f
    using r by (intro in_set_update_other) auto
  then have "r \<in> set (jobs (queue_step op db))"
    by (simp add: Op_Fail fail_rlm_job_def Let_def case_prod_beta)
  then show ?thesis by (rule same_leaseI)
next
  case (Op_Cancel now p ss)
  then have "\<not> cancel_hits p ss r" using nr by simp
  then have "r \<in> set (jobs (queue_step op db))"
    using cancel_rows [of db now p ss] r by (fastforce simp: Op_Cancel)
  then show ?thesis by (rule same_leaseI)
next
  case (Op_Requeue now)
  then have "\<not> lease_expired now r" using l by (simp add: lease_expired_def)
  then have "r \<in> set (jobs (queue_step op db))"
    using r by (simp add: Op_Requeue requeue_expired_rlm_leases_def in_set_update_other)
  then show ?thesis by (rule same_leaseI)
next
  case (Op_Payload now p l' s pl)
  let ?hit = "\<lambda>r. jb_key r = rlm_job_key p l' s \<and> live_job r"
  let ?s = "if ?hit r then r\<lparr>jb_payload := pl, jb_updated := now\<rparr> else r"
  have "?s \<in> set (jobs (queue_step op db))"
    using r by (auto simp: Op_Payload update_rlm_job_payload_def in_set_update_where)
  moreover have "same_lease r ?s" by (simp add: same_lease_def)
  ultimately show ?thesis by blast
qed

text \<open>
  C2: a lease is exclusive. From a reachable state, along any sequence of operations by
  any volunteers that all run before the lease ends, a claimed row stays claimed by the same
  volunteer with the same generation and lease, unless that volunteer completes or fails it
  or its subject is cancelled.\<close>

theorem rlm_lease_exclusive:
  assumes "queue_reachable db" and "r \<in> set (jobs db)"
    and "jb_status r = Claimed" "jb_lease r = Some l"
    and "list_all (\<lambda>op. op_time op \<le> l \<and> \<not> op_releases r op) ops"
  shows "\<exists>s\<in>set (jobs (queue_run ops db)). same_lease r s"
  using assms
proof (induction ops arbitrary: db r)
  case Nil
  then show ?case by (simp add: same_leaseI)
next
  case (Cons op ops)
  obtain s where s: "s \<in> set (jobs (queue_step op db))" "same_lease r s"
    using lease_kept_step [OF queue_reachable_inv] Cons.prems by fastforce
  have "list_all (\<lambda>op. op_time op \<le> l \<and> \<not> op_releases s op) ops"
    using Cons.prems(5) same_lease_releases [OF s(2)] by simp
  moreover have "jb_status s = Claimed" "jb_lease s = Some l"
    using s(2) Cons.prems(3,4) by (simp_all add: same_lease_def)
  ultimately obtain t where "t \<in> set (jobs (queue_run ops (queue_step op db)))" "same_lease s t"
    using Cons.IH [OF queue_reachable.step [OF Cons.prems(1)] s(1)] by blast
  then show ?case using s(2) by (auto simp: same_lease_def intro!: bexI [of _ t])
qed

theorem rlm_lease_exclusive_witness:
  "\<exists>s\<in>set (jobs (queue_run [Op_Claim 20 ''bob'' 0 None 3 [], Op_Requeue 5010,
        Op_Complete 30 1 ''bob'' 0] demo_queue)). same_lease demo_claimed s"
  by (rule rlm_lease_exclusive [OF demo_queue_reachable, where l = 5010])
    (simp_all add: demo_queue_jobs demo_claimed_def)

text \<open>
  C4: a completion succeeds exactly when the row is claimed by that worker, the generation
  the worker echoes is the current one and the lease has not ended; it then turns exactly that
  row into \<open>done\<close>, and no later completion of the same row succeeds, whoever asks.\<close>

theorem rlm_complete_once:
  assumes "queue_reachable db" and "r \<in> set (jobs db)" "jb_id r = i"
  shows "(snd (complete_rlm_job now i w g db) \<longleftrightarrow>
           jb_status r = Claimed \<and> jb_claimed_by r = Some w \<and> jb_generation r = g \<and>
           (\<exists>l. jb_lease r = Some l \<and> now \<le> l)) \<and>
         (snd (complete_rlm_job now i w g db) \<longrightarrow>
           jobs (fst (complete_rlm_job now i w g db)) =
             map (\<lambda>s. if s = r then done_row now s else s) (jobs db) \<and>
           \<not> snd (complete_rlm_job now' i w' g' (fst (complete_rlm_job now i w g db))))"
proof (intro conjI impI)
  note inv = queue_reachable_inv [OF assms(1)]
  note cc = complete_cases [OF inv assms(2,3), of now w g]
  show "snd (complete_rlm_job now i w g db) \<longleftrightarrow>
           jb_status r = Claimed \<and> jb_claimed_by r = Some w \<and> jb_generation r = g \<and>
           (\<exists>l. jb_lease r = Some l \<and> now \<le> l)"
    unfolding cc by (auto simp: lease_valid_def split: option.splits)
  assume ok: "snd (complete_rlm_job now i w g db)"
  define db' where "db' = fst (complete_rlm_job now i w g db)"
  have "jobs db' = update_where (\<lambda>r. jb_id r = i) (done_row now) (jobs db)"
    using ok cc by (auto simp: db'_def split: if_splits)
  also have "\<dots> = map (\<lambda>s. if s = r then done_row now s else s) (jobs db)"
    unfolding update_where_def
    by (rule map_cong) (use assms rows_wf_inj [OF jobs_invD(1) [OF inv]] in auto)
  finally have rows: "jobs db' = map (\<lambda>s. if s = r then done_row now s else s) (jobs db)" .
  have inv': "jobs_inv (jobs db')" unfolding db'_def by (rule complete_inv [OF inv])
  have "done_row now r \<in> set (jobs db')" using rows assms(2) by auto
  then have "\<not> snd (complete_rlm_job now' i w' g' db')"
    using complete_cases [OF inv', of "done_row now r" i now' w' g'] assms(3)
    by (simp add: done_row_def)
  then show "\<not> snd (complete_rlm_job now' i w' g' (fst (complete_rlm_job now i w g db)))"
    by (simp add: db'_def)
  show "jobs (fst (complete_rlm_job now i w g db)) =
          map (\<lambda>s. if s = r then done_row now s else s) (jobs db)"
    using rows by (simp add: db'_def)
qed

theorem rlm_complete_once_witness:
  "snd (complete_rlm_job 5010 1 ''ann'' 0 demo_queue) \<and>
   \<not> snd (complete_rlm_job 5011 1 ''ann'' 0 demo_queue) \<and>
   \<not> snd (complete_rlm_job 20 1 ''ann'' 0 (fst (complete_rlm_job 5010 1 ''ann'' 0 demo_queue)))"
proof -
  have r: "demo_claimed \<in> set (jobs demo_queue)" "jb_id demo_claimed = 1"
    by (simp_all add: demo_queue_jobs demo_claimed_def)
  note once = rlm_complete_once [OF demo_queue_reachable r]
  have ok: "snd (complete_rlm_job 5010 1 ''ann'' 0 demo_queue)"
    using once [of 5010 "''ann''" 0] by (simp add: demo_claimed_def)
  moreover have "\<not> snd (complete_rlm_job 5011 1 ''ann'' 0 demo_queue)"
    using once [of 5011 "''ann''" 0] by (simp add: demo_claimed_def)
  ultimately show ?thesis using once [of 5010 "''ann''" 0 20 "''ann''" 0] by blast
qed

text \<open>
  cooperative cancellation. Once the source of a subject changed and its live row was
  reset, a completion or a payload-bearing submission that echoes the generation the volunteer
  was given is rejected and changes nothing, at any time and for any worker.\<close>

theorem rlm_cancel_rejects_stale:
  assumes "queue_reachable db" and "r \<in> set (jobs db)" and "cancel_hits p ss r"
  shows "let db' = fst (cancel_rlm_jobs_for_subjects now p ss db) in
         complete_rlm_job now' (jb_id r) w (jb_generation r) db' = (db', False) \<and>
         (\<exists>r'\<in>set (jobs db'). jb_id r' = jb_id r \<and> jb_status r' = Pending \<and>
            jb_claimed_by r' = None \<and> jb_generation r < jb_generation r')"
proof -
  let ?db = "fst (cancel_rlm_jobs_for_subjects now p ss db)"
  note inv = queue_reachable_inv [OF assms(1)]
  obtain r' where r': "r' \<in> set (jobs ?db)" "jb_id r' = jb_id r"
    "jb_generation r < jb_generation r'" "jb_status r' = Pending" "jb_claimed_by r' = None"
    using cancel_rows [of db now p ss] assms(2,3) by auto
  then have "complete_rlm_job now' (jb_id r) w (jb_generation r) ?db = (?db, False)"
    using complete_cases [OF cancel_inv [OF inv] r'(1,2)] by simp
  with r' show ?thesis by (auto simp: Let_def)
qed

theorem rlm_cancel_rejects_stale_witness:
  "let db' = fst (cancel_rlm_jobs_for_subjects 20 ''p'' [(1, ''a.rs'')] demo_queue) in
   complete_rlm_job 30 1 ''ann'' 0 db' = (db', False)"
proof -
  have "demo_claimed \<in> set (jobs demo_queue)" "cancel_hits ''p'' [(1, ''a.rs'')] demo_claimed"
    by (simp_all add: demo_queue_jobs demo_claimed_def cancel_hits_def live_job_def)
  from rlm_cancel_rejects_stale [OF demo_queue_reachable this, of 20 30 "''ann''"]
  show ?thesis by (simp add: Let_def demo_claimed_def)
qed

text \<open>
  fan-out. Enqueueing a subject the queue does not hold, with its slot keys free,
  succeeds and appends one claimable row per requested slot (at least one), all with pairwise
  distinct keys, in one generation group that no other row uses, at generation 0; nothing else
  changes. Enqueueing it again while a slot is live changes nothing and reports the same
  generation as not new.\<close>

theorem rlm_enqueue_fan_out:
  assumes "list_all (\<lambda>r. \<not> of_subject (nj_project job) (nj_level job) (nj_subject job) r) (jobs db)"
    and "slot_keys_free job (jobs db)"
  shows "\<exists>new g. enqueue_rlm_job now job [] db =
           (db\<lparr>jobs := jobs db @ new\<rparr>, Inr (next_rowid jb_id (jobs db), 0, True)) \<and>
         length new = max 1 (nj_slots job) \<and> list_all (fresh_slot job g 0) new \<and>
         distinct (map jb_key new) \<and> list_all (\<lambda>r. jb_group r \<noteq> Some g) (jobs db) \<and>
         (\<forall>now' job'. nj_project job' = nj_project job \<longrightarrow> nj_level job' = nj_level job \<longrightarrow>
            nj_subject job' = nj_subject job \<longrightarrow>
            (\<exists>i. enqueue_rlm_job now' job' [] (db\<lparr>jobs := jobs db @ new\<rparr>) =
               (db\<lparr>jobs := jobs db @ new\<rparr>, Inr (i, 0, False))))"
proof -
  let ?same = "of_subject (nj_project job) (nj_level job) (nj_subject job)"
  let ?g = "next_group (jobs db)"
  let ?n = "max 1 (nj_slots job)"
  have none: "filter ?same (jobs db) = []" using assms(1) by (auto simp: filter_empty_conv list_all_iff)
  obtain new where new: "insert_rlm_slots job ?n
      (rlm_job_key (nj_project job) (nj_level job) (nj_subject job)) ?g 0 now (jobs db) =
      (jobs db @ new, Inr (next_rowid jb_id (jobs db)))"
    "map jb_key new = map (slot_key (rlm_job_key (nj_project job) (nj_level job) (nj_subject job)) ?n)
       [0..<?n]" "list_all (fresh_slot job ?g 0) new"
    using insert_rlm_slots_ok [OF assms(2) refl refl] by metis
  have len: "length new = ?n" using arg_cong [OF new(2), of length] by simp
  have "distinct (map jb_key new)" unfolding new(2) by (rule slot_keys_distinct)
  moreover have "enqueue_rlm_job now job [] db =
           (db\<lparr>jobs := jobs db @ new\<rparr>, Inr (next_rowid jb_id (jobs db), 0, True))"
    using new(1) by (simp add: enqueue_rlm_job_def Let_def none)
  moreover have "list_all (\<lambda>r. jb_group r \<noteq> Some ?g) (jobs db)"
    by (auto simp: list_all_iff dest: next_group_fresh)
  moreover have "\<exists>i. enqueue_rlm_job now' job' [] (db\<lparr>jobs := jobs db @ new\<rparr>) =
               (db\<lparr>jobs := jobs db @ new\<rparr>, Inr (i, 0, False))"
    if "nj_project job' = nj_project job" "nj_level job' = nj_level job"
      "nj_subject job' = nj_subject job" for now' job'
  proof -
    obtain e es where e: "new = e # es" using len by (cases new) auto
    have "filter ?same new = new" using new(3) by (auto simp: filter_id_conv list_all_iff fresh_slot_def)
    moreover have "live_job e" "jb_generation e = 0"
      using new(3) e by (simp_all add: fresh_slot_def live_job_def)
    ultimately show ?thesis
      using that e none by (intro exI [of _ "jb_id e"]) (simp add: enqueue_rlm_job_def Let_def)
  qed
  ultimately show ?thesis using len new(3) by (intro exI [of _ new] exI [of _ ?g]) blast
qed

theorem rlm_enqueue_fan_out_witness:
  "\<exists>new. enqueue_rlm_job 0 (demo_job 3) [] empty_queue =
           (empty_queue\<lparr>jobs := new\<rparr>, Inr (1, 0, True)) \<and> length new = 3"
proof -
  have h: "list_all (\<lambda>r. \<not> of_subject (nj_project (demo_job 3)) (nj_level (demo_job 3))
             (nj_subject (demo_job 3)) r) (jobs empty_queue)"
    "slot_keys_free (demo_job 3) (jobs empty_queue)"
    by (simp_all add: empty_queue_def slot_keys_free_def Let_def list_all_iff)
  show ?thesis using rlm_enqueue_fan_out [OF h, of 0]
    by (auto simp: empty_queue_def table_simps demo_job_def)
qed

text \<open>Who may claim: the gates of the claim statement, for every row of the queue.\<close>

lemma banned_not_claimable:
  assumes "trust_ok trust" and "is_banned v limit trust" and "0 < limit"
  shows "\<not> claimable v ml limit trust db r"
proof -
  obtain vt where vt: "trust_of v trust = Some vt" "limit \<le> as_u32 (vt_strikes vt)"
    using assms(2,3) by (auto simp: is_banned_def as_u32_def split: option.splits)
  then have "vt \<in> set trust" "vt_username vt = v" by (auto simp: trust_of_def dest: find_SomeD)
  moreover from this have "0 \<le> vt_strikes vt" using assms(1) by (auto simp: trust_ok_def list_all_iff)
  then have "int limit \<le> vt_strikes vt"
    using vt(2) zmod_le_nonneg_dividend [of "vt_strikes vt" "2 ^ 32"] by (simp add: as_u32_def)
  ultimately show ?thesis by (auto simp: claimable_def list_ex_iff)
qed

text \<open>
  a volunteer that reached the strike limit is never handed work: the claim returns
  nothing and leaves the queue as it was, whatever the queue holds.\<close>

theorem rlm_banned_never_claims:
  assumes "queue_reachable db" and "trust_ok trust" and "is_banned v limit trust" and "0 < limit"
  shows "claim_rlm_job now v lease ml limit trust db = (db, Inr None)"
proof -
  obtain db' res where eq: "claim_rlm_job now v lease ml limit trust db = (db', res)" by fastforce
  from queue_reachable_inv [OF assms(1)] eq show ?thesis
    by (cases rule: claim_result) (use eq banned_not_claimable [OF assms(2-4)] in auto)
qed

theorem rlm_banned_never_claims_witness:
  "claim_rlm_job 0 ''eve'' 0 None 2
     [\<lparr>vt_username = ''eve'', vt_strikes = 2, vt_score = 3 / 5\<rparr>] demo_queue = (demo_queue, Inr None)"
  by (rule rlm_banned_never_claims [OF demo_queue_reachable])
    (simp_all add: trust_ok_def is_banned_def trust_of_def)

text \<open>
  C14: a claim hands out only what the gates allow, and always the most urgent of it. If
  it returns a ticket, the row was pending, within the volunteer's level cap, in a group of
  which the volunteer holds no slot and from which the volunteer is not excluded; it is least
  in the order (priority, level, creation time) among all such rows; and afterwards exactly
  that row is claimed, by this volunteer, with a lease of at least one second. If it returns
  nothing there was no such row.\<close>

theorem rlm_claim_correct:
  assumes "queue_reachable db"
  shows "case claim_rlm_job now v lease ml limit trust db of
           (db', Inl e) \<Rightarrow> False
         | (db', Inr None) \<Rightarrow>
             db' = db \<and> list_all (\<lambda>r. \<not> claimable v ml limit trust db r) (jobs db)
         | (db', Inr (Some t)) \<Rightarrow>
             (\<exists>c\<in>set (jobs db). claimable v ml limit trust db c \<and> t = job_ticket lease c \<and>
                list_all (\<lambda>r. claimable v ml limit trust db r \<longrightarrow>
                   (jb_priority c, jb_level c, jb_created c) \<le> (jb_priority r, jb_level r, jb_created r))
                  (jobs db) \<and>
                exclusions db' = exclusions db \<and>
                jobs db' = map (\<lambda>r. if r = c
                  then claim_row v now (saturating_add_i64 now (max 1000 lease)) r else r) (jobs db))"
proof -
  note inv = queue_reachable_inv [OF assms]
  obtain db' res where eq: "claim_rlm_job now v lease ml limit trust db = (db', res)" by fastforce
  from inv eq show ?thesis
  proof (cases rule: claim_result)
    case none
    then show ?thesis by (simp add: eq list_all_iff)
  next
    case (claimed c)
    have "jb_status c = Pending" using claimed(2) by (simp add: claimable_def)
    then have "update_where (\<lambda>r. jb_id r = jb_id c \<and> jb_status r = Pending) f (jobs db) =
               map (\<lambda>r. if r = c then f r else r) (jobs db)" for f
      unfolding update_where_def
      by (intro map_cong) (use claimed(1) rows_wf_inj [OF jobs_invD(1) [OF inv]] in auto)
    with claimed show ?thesis by (auto simp: eq list_all_iff intro!: bexI [of _ c])
  qed
qed

theorem rlm_claim_correct_witness:
  "\<exists>t. snd (claim_rlm_job 20 ''bob'' 0 None 3 [] demo_queue) = Inr (Some t) \<and>
       cj_id t = 2 \<and> cj_lease_ms t = 1000"
proof -
  have j: "jobs demo_queue = [demo_claimed, d2]" "claimable ''bob'' None 3 [] demo_queue d2"
    "\<not> claimable ''bob'' None 3 [] demo_queue demo_claimed" "jb_id d2 = 2"
    if "d2 = demo_claimed\<lparr>jb_id := 2, jb_key := ''L1:p:a.rs#1'', jb_status := Pending,
       jb_claimed_by := None, jb_claimed_at := None, jb_lease := None, jb_attempts := 0,
       jb_updated := 0\<rparr>" for d2
  proof -
    have "exclusions demo_queue = []" by code_simp
    then show "claimable ''bob'' None 3 [] demo_queue d2"
      using that by (simp add: claimable_def demo_queue_jobs demo_claimed_def i64_max_def)
  qed (use that in \<open>simp_all add: demo_queue_jobs claimable_def demo_claimed_def\<close>)
  from rlm_claim_correct [OF demo_queue_reachable, where now = 20 and v = "''bob''" and lease = 0
      and ml = None and limit = 3 and trust = "[]"]
  show ?thesis
    by (auto simp: j [OF refl] job_ticket_def split: prod.splits sum.splits option.splits)
qed

section \<open>Re-fan-out with exclusions\<close>

lemma insert_rlm_exclusions_set:
  "set (insert_rlm_exclusions g vs ex) = set ex \<union> {(g, v) |v. v \<in> set vs \<and> v \<noteq> []}"
  by (induction g vs ex rule: insert_rlm_exclusions.induct) auto

lemma exclusions_enqueue: "set (exclusions db) \<subseteq> set (exclusions (fst (enqueue_rlm_job now job ex db)))"
  by (auto simp: enqueue_rlm_job_def Let_def case_prod_beta insert_rlm_exclusions_set
      split: list.splits)

lemma exclusions_claim: "exclusions (fst (claim_rlm_job now v lease ml limit trust db)) = exclusions db"
  by (simp add: claim_rlm_job_def Let_def split: list.splits)

lemma exclusions_cancel:
  "exclusions (fst (cancel_rlm_jobs_for_subjects now p ss db)) = exclusions db"
  by (induction now p ss db rule: cancel_rlm_jobs_for_subjects.induct)
    (simp_all add: Let_def case_prod_beta)

lemma exclusions_step: "set (exclusions db) \<subseteq> set (exclusions (queue_step op db))"
proof (cases op)
  case (Op_Enqueue now job ex)
  then show ?thesis using exclusions_enqueue by simp
next
  case (Op_Fail now i w e m)
  then show ?thesis by (simp add: fail_rlm_job_def Let_def case_prod_beta)
qed (simp_all add: exclusions_claim exclusions_cancel complete_rlm_job_def
  requeue_expired_rlm_leases_def update_rlm_job_payload_def split: option.splits)

lemma exclusions_run: "set (exclusions db) \<subseteq> set (exclusions (queue_run ops db))"
proof (induction ops arbitrary: db)
  case Nil
  then show ?case by simp
next
  case (Cons op ops)
  from exclusions_step [of db op] Cons.IH [of "queue_step op db"]
  show ?case unfolding queue_run.simps by (rule subset_trans)
qed

lemma insert_slot_rows_fresh:
  "list_all (\<lambda>r. P r) rows \<Longrightarrow> (\<And>k i. P (slot_row job k g gen now i)) \<Longrightarrow>
     list_all P (fst (insert_slot_rows job n logical g gen now ss first rows))"
proof (induction ss arbitrary: first rows)
  case Nil
  then show ?case by simp
next
  case (Cons s ss)
  show ?case
  proof (cases "list_ex (\<lambda>r. jb_key r = slot_key logical n s) rows")
    case True
    then show ?thesis using Cons.prems(1) by (simp add: Let_def)
  next
    case False
    then show ?thesis
      using Cons.IH [of "rows @ [slot_row job (slot_key logical n s) g gen now (next_rowid jb_id rows)]"]
        Cons.prems by (simp add: Let_def)
  qed
qed

text \<open>
  re-fan-out after divergence. When a subject's slots are all finished, enqueueing it
  with a list of diverging volunteers advances the generation by one and puts the subject into
  a new group; in every later state of the queue no volunteer of that list can claim any row of
  that group.\<close>

theorem rlm_refanout_excludes:
  assumes "filter (of_subject (nj_project job) (nj_level job) (nj_subject job)) (jobs db) = e # es"
    and "list_all (\<lambda>r. \<not> live_job r) (e # es)" and "exclude \<noteq> []"
    and "enqueue_rlm_job now job exclude db = (db', Inr (i, gen, created))"
  shows "gen = jb_generation e + 1 \<and> \<not> created \<and>
     (\<exists>g. list_all (\<lambda>r. jb_group r \<noteq> Some g) (jobs db) \<and>
        list_all (\<lambda>r. of_subject (nj_project job) (nj_level job) (nj_subject job) r \<longrightarrow>
                        jb_group r = Some g \<and> jb_generation r = gen) (jobs db') \<and>
        (\<forall>v\<in>set exclude. v \<noteq> [] \<longrightarrow> (\<forall>ops r ml limit trust.
           jb_group r = Some g \<longrightarrow> \<not> claimable v ml limit trust (queue_run ops db') r)))"
proof -
  let ?same = "of_subject (nj_project job) (nj_level job) (nj_subject job)"
  let ?g = "next_group (jobs db)"
  let ?ins = "insert_rlm_slots job (max 1 (nj_slots job))
      (rlm_job_key (nj_project job) (nj_level job) (nj_subject job)) ?g (jb_generation e + 1) now
      (filter (\<lambda>r. \<not> ?same r) (jobs db))"
  have nl: "\<not> list_ex live_job (e # es)" using assms(2) by (auto simp: list_all_iff list_ex_iff)
  have eq: "enqueue_rlm_job now job exclude db =
      (\<lparr>jobs = fst ?ins, exclusions = insert_rlm_exclusions ?g exclude (exclusions db)\<rparr>,
       map_sum id (\<lambda>first. (first, jb_generation e + 1, False)) (snd ?ins))"
    using assms(1,3) nl by (simp add: enqueue_rlm_job_def Let_def case_prod_beta)
  obtain first where "snd ?ins = Inr first"
    using eq assms(4) by (cases "snd ?ins") auto
  with eq assms(4) have gen: "gen = jb_generation e + 1" "\<not> created"
    and db': "jobs db' = fst ?ins" "exclusions db' = insert_rlm_exclusions ?g exclude (exclusions db)"
    by auto
  have "list_all (\<lambda>r. ?same r \<longrightarrow> jb_group r = Some ?g \<and> jb_generation r = gen) (jobs db')"
    unfolding db' insert_rlm_slots_def
    by (rule insert_slot_rows_fresh) (auto simp: list_all_iff gen)
  moreover have "\<not> claimable v ml limit trust (queue_run ops db') r"
    if "v \<in> set exclude" "v \<noteq> []" "jb_group r = Some ?g" for v ml limit trust ops r
  proof -
    have "(?g, v) \<in> set (exclusions db')" using that db' by (simp add: insert_rlm_exclusions_set)
    then have "(?g, v) \<in> set (exclusions (queue_run ops db'))" using exclusions_run by blast
    then show ?thesis using that(3) by (auto simp: claimable_def list_ex_iff)
  qed
  moreover have "list_all (\<lambda>r. jb_group r \<noteq> Some ?g) (jobs db)"
    by (auto simp: list_all_iff dest: next_group_fresh)
  ultimately show ?thesis using gen by blast
qed

definition done_queue :: job_db where
  "done_queue = queue_run [Op_Enqueue 0 (demo_job 1) [], Op_Claim 10 ''ann'' 5000 None 3 [],
     Op_Complete 20 1 ''ann'' 0] empty_queue"

theorem rlm_refanout_excludes_witness:
  "let r = enqueue_rlm_job 30 (demo_job 2) [''ann''] done_queue in
   snd r = Inr (1, 1, False) \<and>
   list_all (\<lambda>j. \<not> claimable ''ann'' None 3 [] (fst r) j) (jobs (fst r))"
proof -
  define e where "e = hd (jobs done_queue)"
  have j: "jobs done_queue = [e]" unfolding e_def by code_simp
  have e: "jb_generation e = 0" "jb_status e = Done" "of_subject ''p'' 1 ''a.rs'' e"
    unfolding e_def by code_simp+
  define r where "r = enqueue_rlm_job 30 (demo_job 2) [''ann''] done_queue"
  have s: "snd r = Inr (1, 1, False)" unfolding r_def by code_simp
  have g: "list_all (of_subject ''p'' 1 ''a.rs'') (jobs (fst r))" unfolding r_def by code_simp
  have "filter (of_subject (nj_project (demo_job 2)) (nj_level (demo_job 2)) (nj_subject (demo_job 2)))
          (jobs done_queue) = e # []" "list_all (\<lambda>r. \<not> live_job r) (e # [])"
    using j e by (simp_all add: demo_job_def live_job_def)
  from rlm_refanout_excludes [OF this, of "[''ann'']" 30 "fst r" 1 1 False]
  obtain grp where "list_all (\<lambda>j. jb_group j = Some grp) (jobs (fst r))"
    "\<forall>ops j ml limit trust. jb_group j = Some grp \<longrightarrow>
       \<not> claimable ''ann'' ml limit trust (queue_run ops (fst r)) j"
    using s g by (auto simp: demo_job_def prod_eq_iff r_def list_all_iff)
  moreover from this(2) have "\<not> claimable ''ann'' None 3 [] (queue_run [] (fst r)) j"
    if "jb_group j = Some grp" for j using that by blast
  ultimately have "list_all (\<lambda>j. \<not> claimable ''ann'' None 3 [] (fst r) j) (jobs (fst r))"
    by (auto simp: list_all_iff)
  then show ?thesis using s by (simp add: r_def Let_def)
qed

section \<open>Keys of jobs\<close>

text \<open>
  the deterministic job key identifies its subject as long as project names hold no
  colon: two subjects with the same key are the same subject.\<close>

theorem rlm_job_key_separates:
  assumes "CHR '':'' \<notin> set p" "CHR '':'' \<notin> set p'"
  shows "rlm_job_key p l s = rlm_job_key p' l' s' \<longleftrightarrow> p = p' \<and> l = l' \<and> s = s'"
  using rlm_job_key_inj [OF _ assms] by blast

theorem rlm_job_key_separates_witness:
  "rlm_job_key ''web'' 1 ''a:b'' \<noteq> rlm_job_key ''web'' 11 ''b''"
  using rlm_job_key_separates [of "''web''" "''web''" 1 "''a:b''" 11 "''b''"] by simp

text \<open>
  with a colon in a project name two different subjects share a key, and then the
  second subject can never be enqueued while the first one has a row: the insert violates the
  \<open>UNIQUE\<close> constraint.\<close>

theorem rlm_job_key_collision:
  "\<exists>job db. list_all (\<lambda>r. \<not> of_subject (nj_project job) (nj_level job) (nj_subject job) r) (jobs db) \<and>
     queue_reachable db \<and> snd (enqueue_rlm_job 0 job [] db) = Inl (Unique_Violation ''L1:a:b:c'')"
proof -
  define j1 where "j1 = (demo_job 1)\<lparr>nj_project := ''a'', nj_subject := ''b:c''\<rparr>"
  define j2 where "j2 = (demo_job 1)\<lparr>nj_project := ''a:b'', nj_subject := ''c''\<rparr>"
  let ?db = "queue_run [Op_Enqueue 0 j1 []] empty_queue"
  have "list_all (\<lambda>r. \<not> of_subject (nj_project j2) (nj_level j2) (nj_subject j2) r) (jobs ?db)"
    unfolding j1_def j2_def by code_simp
  moreover have "queue_reachable ?db" by (rule queue_run_reachable [OF queue_reachable.start])
  moreover have "snd (enqueue_rlm_job 0 j2 [] ?db) = Inl (Unique_Violation ''L1:a:b:c'')"
    unfolding j1_def j2_def by code_simp
  ultimately show ?thesis by blast
qed

text \<open>
  the payload refresh addresses rows by the bare logical key. It reaches the single row
  of an unfanned subject, but never a row of a fan-out to two or more slots, whose keys all
  carry a slot suffix.\<close>

theorem rlm_payload_refresh_scope:
  assumes "slot_keys_free job (jobs db)"
  shows "\<exists>new. insert_rlm_slots job (max 1 (nj_slots job))
           (rlm_job_key (nj_project job) (nj_level job) (nj_subject job)) g gen now (jobs db) =
           (jobs db @ new, Inr (next_rowid jb_id (jobs db))) \<and> new \<noteq> [] \<and>
         (let after = jobs (update_rlm_job_payload now' (nj_project job) (nj_level job)
                       (nj_subject job) pl (db\<lparr>jobs := jobs db @ new\<rparr>)) in
          drop (length (jobs db)) after =
            (if nj_slots job \<le> 1 then map (\<lambda>r. r\<lparr>jb_payload := pl, jb_updated := now'\<rparr>) new
             else new))"
proof -
  let ?n = "max 1 (nj_slots job)"
  let ?k = "rlm_job_key (nj_project job) (nj_level job) (nj_subject job)"
  obtain new where new: "insert_rlm_slots job ?n ?k g gen now (jobs db) =
      (jobs db @ new, Inr (next_rowid jb_id (jobs db)))"
    "map jb_key new = map (slot_key ?k ?n) [0..<?n]" "list_all (fresh_slot job g gen) new"
    using insert_rlm_slots_ok [OF assms refl refl] by metis
  let ?hit = "\<lambda>r. jb_key r = ?k \<and> live_job r"
  have keys: "jb_key r = ?k \<longleftrightarrow> nj_slots job \<le> 1" if "r \<in> set new" for r
  proof -
    have "jb_key r \<in> set (map (slot_key ?k ?n) [0..<?n])" using that new(2) by (metis image_eqI set_map)
    then show ?thesis by (auto simp: slot_key_def max_def split: if_splits)
  qed
  have live: "live_job r" if "r \<in> set new" for r
    using that new(3) by (auto simp: list_all_iff fresh_slot_def live_job_def)
  have "update_where ?hit f new = (if nj_slots job \<le> 1 then map f new else new)" for f
    unfolding update_where_def using keys live by (auto simp: map_idI)
  moreover have "new \<noteq> []" using arg_cong [OF new(2), of length] by auto
  ultimately show ?thesis
    using new(1) by (intro exI [of _ new]) (simp add: update_rlm_job_payload_def table_simps Let_def)
qed

theorem rlm_payload_refresh_scope_witness:
  "\<exists>new. snd (insert_rlm_slots (demo_job 2) 2 ''L1:p:a.rs'' 1 0 0 []) = Inr 1 \<and> new \<noteq> [] \<and>
     jobs (update_rlm_job_payload 5 ''p'' 1 ''a.rs'' ''new'' (empty_queue\<lparr>jobs := new\<rparr>)) = new"
proof -
  have "slot_keys_free (demo_job 2) (jobs empty_queue)"
    by (simp add: empty_queue_def slot_keys_free_def Let_def list_all_iff)
  moreover have "rlm_job_key ''p'' 1 ''a.rs'' = ''L1:p:a.rs''" by code_simp
  ultimately show ?thesis
    using rlm_payload_refresh_scope [of "demo_job 2" empty_queue 1 0 0 5 "''new''"]
    by (auto simp: empty_queue_def demo_job_def table_simps Let_def numeral_2_eq_2)
qed

section \<open>Generations along a run\<close>

text \<open>
  Keys are text, so two subjects can only be told apart by their keys when no project name
  holds a colon or a hash sign and no subject holds a hash sign (\<open>rlm_job_key_collision\<close> shows what
  happens otherwise). Under that condition the keys of a fan-out are always free.
\<close>

definition clean_name :: "string \<Rightarrow> string \<Rightarrow> bool" where
  "clean_name project subject \<longleftrightarrow>
     CHR '':'' \<notin> set project \<and> CHR ''#'' \<notin> set project \<and> CHR ''#'' \<notin> set subject"

definition clean_row :: "rlm_job \<Rightarrow> bool" where
  "clean_row r \<longleftrightarrow> clean_name (jb_project r) (jb_subject r) \<and> 0 \<le> jb_generation r \<and>
     (\<exists>n i. jb_key r = slot_key (rlm_job_key (jb_project r) (jb_level r) (jb_subject r)) n i)"

lemma slot_key_suffix:
  obtains suf where "slot_key (rlm_job_key p l s) n i = rlm_job_key p l (s @ suf)" "suf = [] \<or> hd suf = CHR ''#''"
  by (rule that [of "if n = 1 then [] else CHR ''#'' # show_nat i"]) (simp_all add: slot_key_def rlm_job_key_def)

lemma takeWhile_clean: "c \<notin> set s \<Longrightarrow> suf = [] \<or> hd suf = c \<Longrightarrow> takeWhile (\<lambda>x. x \<noteq> c) (s @ suf) = s"
  by (induction s) (cases suf; auto)+

lemma slot_key_subject:
  assumes "slot_key (rlm_job_key p l s) n i = slot_key (rlm_job_key p' l' s') n' i'"
    and "clean_name p s" "clean_name p' s'"
  shows "p = p' \<and> l = l' \<and> s = s'"
proof -
  obtain u where u: "slot_key (rlm_job_key p l s) n i = rlm_job_key p l (s @ u)" "u = [] \<or> hd u = CHR ''#''"
    by (rule slot_key_suffix)
  obtain v where v: "slot_key (rlm_job_key p' l' s') n' i' = rlm_job_key p' l' (s' @ v)" "v = [] \<or> hd v = CHR ''#''"
    by (rule slot_key_suffix)
  have eq: "p = p' \<and> l = l' \<and> s @ u = s' @ v"
    by (rule rlm_job_key_inj) (use assms u(1) v(1) in \<open>simp_all add: clean_name_def\<close>)
  moreover have "s = s'"
    using takeWhile_clean [OF _ u(2), of s] takeWhile_clean [OF _ v(2), of s'] eq assms(2,3)
    by (simp add: clean_name_def)
  ultimately show ?thesis by simp
qed

lemma clean_keys_free:
  assumes "list_all clean_row rows" and "clean_name (nj_project job) (nj_subject job)"
  shows "slot_keys_free job (filter (\<lambda>r. \<not> of_subject (nj_project job) (nj_level job) (nj_subject job) r) rows)"
proof -
  let ?same = "of_subject (nj_project job) (nj_level job) (nj_subject job)"
  have "?same r" if "r \<in> set rows"
    "jb_key r = slot_key (rlm_job_key (nj_project job) (nj_level job) (nj_subject job)) n i" for r n i
  proof -
    have cr: "clean_row r" using assms(1) that(1) by (simp add: list_all_iff)
    obtain n' i' where k: "jb_key r = slot_key (rlm_job_key (jb_project r) (jb_level r) (jb_subject r)) n' i'"
      and c: "clean_name (jb_project r) (jb_subject r)"
      using conjunct2 [OF conjunct2 [OF iffD1 [OF clean_row_def cr]]] conjunct1 [OF iffD1 [OF clean_row_def cr]] by (elim exE)
    from slot_key_subject [OF trans [OF sym [OF k] that(2)] c assms(2)] show ?thesis by (simp add: of_subject_def)
  qed
  then show ?thesis unfolding slot_keys_free_def Let_def list_all_iff list_ex_iff by auto
qed

text \<open>What an enqueue of a clean name does: nothing while a row is live, otherwise the rows of the
  subject are replaced by rows one generation on.\<close>

definition next_generation :: "string list \<Rightarrow> rlm_job list \<Rightarrow> int" where
  "next_generation exclude same =
     (case same of e # es \<Rightarrow> jb_generation e + 1 | [] \<Rightarrow> if exclude = [] then 0 else 1)"

lemma enqueue_outcome:
  assumes own: "list_all clean_row (jobs db)" and clean: "clean_name (nj_project job) (nj_subject job)"
  defines "same \<equiv> of_subject (nj_project job) (nj_level job) (nj_subject job)"
  obtains (live) r where "r \<in> set (jobs db)" "same r" "live_job r" "fst (enqueue_rlm_job now job ex db) = db"
    | (fresh) new where "jobs (fst (enqueue_rlm_job now job ex db)) = filter (\<lambda>r. \<not> same r) (jobs db) @ new"
      "new \<noteq> []" "\<forall>r\<in>set new. clean_row r \<and> same r \<and> jb_generation r = next_generation ex (filter same (jobs db))"
proof (cases "list_ex live_job (filter same (jobs db))")
  case True
  then obtain r where "r \<in> set (jobs db)" "same r" "live_job r" by (auto simp: list_ex_iff)
  moreover have "fst (enqueue_rlm_job now job ex db) = db"
    using True by (cases "filter same (jobs db)") (simp_all add: enqueue_rlm_job_def Let_def same_def)
  ultimately show ?thesis using live by blast
next
  case False
  let ?rest = "filter (\<lambda>r. \<not> same r) (jobs db)"
  let ?n = "max 1 (nj_slots job)" and ?k = "rlm_job_key (nj_project job) (nj_level job) (nj_subject job)"
  let ?gen = "next_generation ex (filter same (jobs db))"
  have "\<exists>g. jobs (fst (enqueue_rlm_job now job ex db)) = fst (insert_rlm_slots job ?n ?k g ?gen now ?rest)"
  proof (cases "filter same (jobs db)")
    case Nil
    then have "?rest = jobs db" by (auto simp: filter_empty_conv filter_id_conv)
    then show ?thesis using Nil
      by (intro exI [of _ "next_group (jobs db)"])
        (simp add: enqueue_rlm_job_def Let_def case_prod_beta same_def next_generation_def max_or_zero_def)
  next
    case (Cons e es)
    then show ?thesis using False
      by (simp add: enqueue_rlm_job_def Let_def case_prod_beta same_def next_generation_def) blast
  qed
  then obtain g where g: "jobs (fst (enqueue_rlm_job now job ex db)) = fst (insert_rlm_slots job ?n ?k g ?gen now ?rest)" by blast
  have nonneg: "0 \<le> ?gen"
  proof (cases "filter same (jobs db)")
    case (Cons e es)
    then have "e \<in> set (jobs db)" by (auto simp: filter_eq_Cons_iff)
    then show ?thesis using own by (auto simp: Cons next_generation_def list_all_iff clean_row_def)
  qed (simp add: next_generation_def)
  have free: "slot_keys_free job ?rest" using clean_keys_free [OF own clean] by (simp add: same_def)
  obtain new where new: "insert_rlm_slots job ?n ?k g ?gen now ?rest = (?rest @ new, Inr (next_rowid jb_id ?rest))"
    "map jb_key new = map (slot_key ?k ?n) [0..<?n]" "list_all (fresh_slot job g ?gen) new"
    by (rule insert_rlm_slots_ok [OF free refl refl])
  have "new \<noteq> []" using arg_cong [OF new(2), of length] by auto
  moreover have "clean_row r \<and> same r \<and> jb_generation r = ?gen" if "r \<in> set new" for r
  proof -
    have "jb_key r \<in> set (map (slot_key ?k ?n) [0..<?n])" using that new(2) by (metis image_eqI set_map)
    moreover have "fresh_slot job g ?gen r" using that new(3) by (simp add: list_all_iff)
    ultimately show ?thesis using clean nonneg by (auto simp: clean_row_def fresh_slot_def same_def of_subject_def)
  qed
  ultimately show ?thesis using fresh [of new] g new(1) by simp
qed

text \<open>No other operation changes a key or a subject or lowers a generation.\<close>

definition later_row :: "rlm_job \<Rightarrow> rlm_job \<Rightarrow> bool" where
  "later_row r r' \<longleftrightarrow> jb_key r' = jb_key r \<and> jb_project r' = jb_project r \<and> jb_level r' = jb_level r \<and>
     jb_subject r' = jb_subject r \<and> jb_generation r \<le> jb_generation r'"

lemma later_rows_refl [simp]: "list_all2 later_row rows rows"
  by (rule list.rel_refl) (simp add: later_row_def)

lemma later_rows_update: "(\<And>r. later_row r (f r)) \<Longrightarrow> list_all2 later_row rows (update_where p f rows)"
  by (auto simp: update_where_def list_all2_map2 later_row_def intro!: list.rel_refl)

lemma later_rows_trans: "list_all2 later_row xs ys \<Longrightarrow> list_all2 later_row ys zs \<Longrightarrow> list_all2 later_row xs zs"
  by (rule list_all2_trans) (auto simp: later_row_def)

lemma later_rows_cancel: "list_all2 later_row (jobs db) (jobs (fst (cancel_rlm_jobs_for_subjects now p ss db)))"
proof (induction now p ss db rule: cancel_rlm_jobs_for_subjects.induct)
  case (2 now project level subject rest db)
  let ?hit = "\<lambda>r. of_subject project level subject r \<and> live_job r"
  have "list_all2 later_row (jobs db) (update_where ?hit (cancel_row now) (jobs db))"
    by (rule later_rows_update) (simp add: later_row_def cancel_row_def release_row_def)
  then show ?case using 2 [OF refl refl] by (auto simp: Let_def case_prod_beta intro: later_rows_trans)
qed simp

lemma later_rows_step:
  assumes "\<And>now job ex. op \<noteq> Op_Enqueue now job ex"
  shows "list_all2 later_row (jobs db) (jobs (queue_step op db))"
proof (cases op)
  case (Op_Claim now v lease ml limit trust)
  then show ?thesis
    by (auto simp: claim_rlm_job_def Let_def later_row_def claim_row_def split: list.split intro!: later_rows_update)
next
  case (Op_Cancel now p ss)
  then show ?thesis by (simp add: later_rows_cancel)
qed (use assms in \<open>auto simp: complete_rlm_job_def fail_rlm_job_def requeue_expired_rlm_leases_def update_rlm_job_payload_def
    Let_def case_prod_beta later_row_def done_row_def release_row_def split: option.split intro!: later_rows_update\<close>)

text \<open>All rows of a subject have reached generation \<open>k\<close>.\<close>

definition generation_reached :: "string \<Rightarrow> int \<Rightarrow> string \<Rightarrow> nat \<Rightarrow> job_db \<Rightarrow> bool" where
  "generation_reached p l s k db \<longleftrightarrow>
     (k = 0 \<or> (\<exists>r\<in>set (jobs db). of_subject p l s r)) \<and> (\<forall>r\<in>set (jobs db). of_subject p l s r \<longrightarrow> int k \<le> jb_generation r)"

lemma later_rows_keep:
  assumes "list_all2 later_row (jobs db) (jobs db')"
  shows "list_all clean_row (jobs db) \<Longrightarrow> list_all clean_row (jobs db')"
    and "generation_reached p l s k db \<Longrightarrow> generation_reached p l s k db'"
proof -
  have fwd: "\<exists>r'\<in>set (jobs db'). later_row r r'" if "r \<in> set (jobs db)" for r
    using assms that by (fastforce simp: list_all2_conv_all_nth in_set_conv_nth)
  have bwd: "\<exists>r\<in>set (jobs db). later_row r r'" if "r' \<in> set (jobs db')" for r'
    using assms that by (fastforce simp: list_all2_conv_all_nth in_set_conv_nth)
  show "list_all clean_row (jobs db) \<Longrightarrow> list_all clean_row (jobs db')"
    using bwd by (fastforce simp: list_all_iff clean_row_def later_row_def)
  show "generation_reached p l s k db \<Longrightarrow> generation_reached p l s k db'"
    using fwd bwd by (fastforce simp: generation_reached_def of_subject_def later_row_def)
qed

lemma next_generation_exceeds:
  assumes "generation_reached p l s k db" and "ex \<noteq> []"
  shows "int (Suc k) \<le> next_generation ex (filter (of_subject p l s) (jobs db))"
proof (cases "filter (of_subject p l s) (jobs db)")
  case Nil
  then show ?thesis using assms by (auto simp: next_generation_def generation_reached_def filter_empty_conv)
next
  case (Cons e es)
  then have "e \<in> set (jobs db)" "of_subject p l s e" by (auto simp: filter_eq_Cons_iff)
  then show ?thesis using assms(1) by (auto simp: Cons next_generation_def generation_reached_def)
qed

lemma next_generation_reached:
  assumes "generation_reached p l s k db"
  shows "int k \<le> next_generation ex (filter (of_subject p l s) (jobs db))"
proof (cases "filter (of_subject p l s) (jobs db)")
  case Nil
  then show ?thesis using assms by (auto simp: next_generation_def generation_reached_def filter_empty_conv)
next
  case (Cons e es)
  then show ?thesis using next_generation_exceeds [OF assms, of "[[]]"] by (simp add: next_generation_def)
qed

lemma enqueue_keeps:
  assumes own: "list_all clean_row (jobs db)" and clean: "clean_name (nj_project job) (nj_subject job)"
  shows "list_all clean_row (jobs (fst (enqueue_rlm_job now job ex db)))"
    and "generation_reached p l s k db \<Longrightarrow> generation_reached p l s k (fst (enqueue_rlm_job now job ex db))"
proof -
  let ?same = "of_subject (nj_project job) (nj_level job) (nj_subject job)"
  have "list_all clean_row (jobs (fst (enqueue_rlm_job now job ex db))) \<and>
    (generation_reached p l s k db \<longrightarrow> generation_reached p l s k (fst (enqueue_rlm_job now job ex db)))"
    using own clean
  proof (cases rule: enqueue_outcome [of db job now ex])
    case (live r)
    then show ?thesis using own by simp
  next
    case (fresh new)
    have "list_all clean_row (jobs (fst (enqueue_rlm_job now job ex db)))"
      using fresh own by (auto simp: list_all_iff)
    moreover have "generation_reached p l s k (fst (enqueue_rlm_job now job ex db))"
      if reached: "generation_reached p l s k db"
    proof (cases "nj_project job = p \<and> nj_level job = l \<and> nj_subject job = s")
      case True
      have "int k \<le> next_generation ex (filter ?same (jobs db))"
        using next_generation_reached [of p l s k db ex] reached True by simp
      then show ?thesis using fresh True by (auto simp: generation_reached_def neq_Nil_conv)
    next
      case False
      then have "\<not> ?same r" if "of_subject p l s r" for r using that by (auto simp: of_subject_def)
      moreover have "\<not> of_subject p l s r" if "r \<in> set new" for r
        using fresh(3) that False by (auto simp: of_subject_def)
      ultimately have "\<forall>r. of_subject p l s r \<longrightarrow> r \<in> set (jobs (fst (enqueue_rlm_job now job ex db))) \<longleftrightarrow> r \<in> set (jobs db)"
        using fresh(1) by auto
      then show ?thesis using reached unfolding generation_reached_def by blast
    qed
    ultimately show ?thesis by blast
  qed
  then show "list_all clean_row (jobs (fst (enqueue_rlm_job now job ex db)))"
    and "generation_reached p l s k db \<Longrightarrow> generation_reached p l s k (fst (enqueue_rlm_job now job ex db))" by auto
qed

text \<open>An enqueue that excludes somebody and changes the queue moves its subject on by a generation.\<close>

lemma enqueue_advances:
  assumes own: "list_all clean_row (jobs db)" and clean: "clean_name (nj_project job) (nj_subject job)"
    and ex: "ex \<noteq> []" and changed: "fst (enqueue_rlm_job now job ex db) \<noteq> db"
    and reached: "generation_reached (nj_project job) (nj_level job) (nj_subject job) k db"
  shows "generation_reached (nj_project job) (nj_level job) (nj_subject job) (Suc k) (fst (enqueue_rlm_job now job ex db))"
  using own clean
proof (cases rule: enqueue_outcome [of db job now ex])
  case (live r)
  then show ?thesis using changed by simp
next
  case (fresh new)
  let ?same = "of_subject (nj_project job) (nj_level job) (nj_subject job)"
  have "int (Suc k) \<le> next_generation ex (filter ?same (jobs db))"
    using next_generation_exceeds [OF reached ex] .
  then show ?thesis using fresh by (auto simp: generation_reached_def neq_Nil_conv)
qed

fun clean_op :: "queue_op \<Rightarrow> bool" where
  "clean_op (Op_Enqueue now job ex) \<longleftrightarrow> clean_name (nj_project job) (nj_subject job)"
| "clean_op _ \<longleftrightarrow> True"

lemma queue_step_keeps:
  assumes "clean_op op" "list_all clean_row (jobs db)"
  shows "list_all clean_row (jobs (queue_step op db))"
    and "generation_reached p l s k db \<Longrightarrow> generation_reached p l s k (queue_step op db)"
proof -
  have "list_all clean_row (jobs (queue_step op db)) \<and>
    (generation_reached p l s k db \<longrightarrow> generation_reached p l s k (queue_step op db))"
  proof (cases "\<exists>now job ex. op = Op_Enqueue now job ex")
    case True
    then show ?thesis using assms enqueue_keeps by auto
  next
    case False
    then show ?thesis using later_rows_keep [OF later_rows_step] assms(2) by blast
  qed
  then show "list_all clean_row (jobs (queue_step op db))"
    and "generation_reached p l s k db \<Longrightarrow> generation_reached p l s k (queue_step op db)" by auto
qed

lemma queue_run_keeps:
  assumes "list_all clean_op ops" "list_all clean_row (jobs db)"
  shows "list_all clean_row (jobs (queue_run ops db))"
    and "generation_reached p l s k db \<Longrightarrow> generation_reached p l s k (queue_run ops db)"
  using assms
proof (induction ops arbitrary: db)
  case (Cons op ops)
  {
    case 1
    then show ?case using Cons.IH(1) [of "queue_step op db"] queue_step_keeps(1) [of op db] by simp
  next
    case 2
    then show ?case using Cons.IH(2) [of "queue_step op db"] queue_step_keeps [of op db] by simp
  }
qed simp_all

end
