(* ===== verification/Supersede.thy ===== *)
theory Supersede
  imports Prelude
begin

text \<open>
  The contract shared by the tables that keep revision history (summary nodes, cached
  answers, exploration maps; migration 024): storing a value for a key retires the live
  revision, inserts a new live one with the next version and links the old row to the new.
  The locale \<open>supersede_store\<close> states what the storing operation does; its lemmas are
  proved once: at most one live revision per key, versions counted without gaps along the
  chain, and a history walk that ends at the live revision.
\<close>

section \<open>Walking a revision chain\<close>

text \<open>
  \<open>get_node_history\<close> and \<open>get_answer_history\<close> follow \<open>superseded_by\<close>
  from a row until a row without successor or a missing row. The loop has no bound of its
  own, so the model is partial: \<^const>\<open>None\<close> is a walk that does not end.
\<close>

partial_function (option) history_walk ::
  "('r \<Rightarrow> row_id) \<Rightarrow> ('r \<Rightarrow> row_id option) \<Rightarrow> 'r list \<Rightarrow> row_id option \<Rightarrow> 'r list \<Rightarrow> 'r list option"
where
  "history_walk rid succ rows current chain =
     (case current of
        None \<Rightarrow> Some chain
      | Some cid \<Rightarrow>
          (case List.find (\<lambda>r. rid r = cid) rows of
             None \<Rightarrow> Some chain
           | Some r \<Rightarrow> history_walk rid succ rows (succ r) (chain @ [r])))"

section \<open>Invariant of a table with history\<close>

text \<open>\<open>live\<close> marks the active revision, \<open>succ\<close> the row that superseded this one.\<close>

definition one_live ::
  "('r \<Rightarrow> 'k) \<Rightarrow> ('r \<Rightarrow> bool) \<Rightarrow> 'r list \<Rightarrow> bool" where
  "one_live key live rows \<longleftrightarrow>
     (\<forall>r\<in>set rows. \<forall>s\<in>set rows. live r \<longrightarrow> live s \<longrightarrow> key r = key s \<longrightarrow> r = s)"

definition linked ::
  "('r \<Rightarrow> row_id) \<Rightarrow> ('r \<Rightarrow> 'k) \<Rightarrow> ('r \<Rightarrow> bool) \<Rightarrow> ('r \<Rightarrow> row_id option) \<Rightarrow> ('r \<Rightarrow> int) \<Rightarrow> 'r list \<Rightarrow> 'r \<Rightarrow> bool"
where
  "linked rid key live succ ver rows r \<longleftrightarrow>
     (case succ r of
        None \<Rightarrow> live r
      | Some j \<Rightarrow> \<not> live r \<and> rid r < j \<and>
          (\<exists>s\<in>set rows. rid s = j \<and> key s = key r \<and> ver s = ver r + 1))"

definition history_inv ::
  "('r \<Rightarrow> row_id) \<Rightarrow> ('r \<Rightarrow> 'k) \<Rightarrow> ('r \<Rightarrow> bool) \<Rightarrow> ('r \<Rightarrow> row_id option) \<Rightarrow> ('r \<Rightarrow> int) \<Rightarrow> 'r list \<Rightarrow> bool"
where
  "history_inv rid key live succ ver rows \<longleftrightarrow>
     rows_wf rid rows \<and> one_live key live rows \<and>
     (\<forall>r\<in>set rows. linked rid key live succ ver rows r)"

lemma history_inv_Nil [simp]: "history_inv rid key live succ ver []"
  by (simp add: history_inv_def one_live_def)

lemmas one_liveD = one_live_def [THEN iffD1, rule_format]

lemma one_live_snoc:
  assumes "one_live key live rows" and "\<And>r. r \<in> set rows \<Longrightarrow> live r \<Longrightarrow> key r \<noteq> key n"
  shows "one_live key live (rows @ [n])"
  unfolding one_live_def
proof (intro ballI impI)
  fix x y
  assume "x \<in> set (rows @ [n])" "y \<in> set (rows @ [n])" and l: "live x" "live y" "key x = key y"
  then consider "x = n" "y = n" | "x = n" "y \<in> set rows" | "x \<in> set rows" "y = n"
    | "x \<in> set rows" "y \<in> set rows" by auto
  then show "x = y"
  proof cases
    case 4
    then show ?thesis using one_liveD [OF assms(1)] l by blast
  qed (use assms(2) l in auto)
qed

lemma one_live_map:
  assumes "\<And>r. key (f r) = key r \<and> live (f r) = live r" and "one_live key live rows"
  shows "one_live key live (map f rows)"
  unfolding one_live_def
proof (intro ballI impI)
  fix x y
  assume "x \<in> set (map f rows)" "y \<in> set (map f rows)" "live x" "live y" "key x = key y"
  moreover from this obtain r s where rs: "r \<in> set rows" "x = f r" "s \<in> set rows" "y = f s" by auto
  ultimately have "r = s"
    using assms by (intro one_liveD [of key live rows r s]) simp_all
  then show "x = y" using rs by simp
qed

text \<open>Updates that touch none of the history columns keep the invariant.\<close>

lemma history_inv_map:
  assumes "\<And>r. rid (f r) = rid r \<and> key (f r) = key r \<and> live (f r) = live r \<and>
                 succ (f r) = succ r \<and> ver (f r) = ver r"
    and inv: "history_inv rid key live succ ver rows"
  shows "history_inv rid key live succ ver (map f rows)"
proof -
  have f: "rid (f r) = rid r" "key (f r) = key r" "live (f r) = live r" "succ (f r) = succ r"
    "ver (f r) = ver r" for r
    using assms(1) by blast+
  have "rows_wf rid (map f rows)"
    using inv f by (simp add: history_inv_def rows_wf_def comp_def list_all_iff)
  moreover have "one_live key live (map f rows)"
    by (rule one_live_map) (use f inv in \<open>auto simp: history_inv_def\<close>)
  moreover have "linked rid key live succ ver (map f rows) (f r)" if "r \<in> set rows" for r
  proof -
    have "linked rid key live succ ver rows r" using inv that by (simp add: history_inv_def)
    then show ?thesis using f by (fastforce simp: linked_def split: option.splits)
  qed
  ultimately show ?thesis by (auto simp: history_inv_def)
qed

lemma history_inv_update_where:
  assumes "\<And>r. rid (f r) = rid r \<and> key (f r) = key r \<and> live (f r) = live r \<and>
                 succ (f r) = succ r \<and> ver (f r) = ver r"
    and "history_inv rid key live succ ver rows"
  shows "history_inv rid key live succ ver (update_where p f rows)"
  unfolding update_where_def by (rule history_inv_map [OF _ assms(2)]) (use assms(1) in auto)

text \<open>A list of rows each of which names the next as its successor.\<close>

definition is_chain ::
  "('r \<Rightarrow> row_id option) \<Rightarrow> ('r \<Rightarrow> row_id) \<Rightarrow> 'r list \<Rightarrow> bool" where
  "is_chain succ rid hs \<longleftrightarrow> (\<forall>i. Suc i < length hs \<longrightarrow> succ (hs ! i) = Some (rid (hs ! Suc i)))"

lemma is_chain_Cons:
  assumes "is_chain succ rid hs" and "hs \<noteq> []" and "succ r = Some (rid (hd hs))"
  shows "is_chain succ rid (r # hs)"
  unfolding is_chain_def
proof (intro allI impI)
  fix i
  assume "Suc i < length (r # hs)"
  then show "succ ((r # hs) ! i) = Some (rid ((r # hs) ! Suc i))"
    using assms by (cases i) (auto simp: is_chain_def hd_conv_nth)
qed

text \<open>
  What deleting rows leaves of the invariant: links still lead to larger ids, but the row
  they name may be gone, or be another one that was given its id.
\<close>

definition upward :: "('r \<Rightarrow> row_id) \<Rightarrow> ('r \<Rightarrow> bool) \<Rightarrow> ('r \<Rightarrow> row_id option) \<Rightarrow> 'r \<Rightarrow> bool" where
  "upward rid live succ r \<longleftrightarrow> (case succ r of None \<Rightarrow> live r | Some j \<Rightarrow> \<not> live r \<and> rid r < j)"

definition chain_inv ::
  "('r \<Rightarrow> row_id) \<Rightarrow> ('r \<Rightarrow> 'k) \<Rightarrow> ('r \<Rightarrow> bool) \<Rightarrow> ('r \<Rightarrow> row_id option) \<Rightarrow> 'r list \<Rightarrow> bool" where
  "chain_inv rid key live succ rows \<longleftrightarrow>
     rows_wf rid rows \<and> one_live key live rows \<and> (\<forall>r\<in>set rows. upward rid live succ r)"

lemma chain_inv_Nil [simp]: "chain_inv rid key live succ []"
  by (simp add: chain_inv_def one_live_def)

lemma history_inv_chain: "history_inv rid key live succ ver rows \<Longrightarrow> chain_inv rid key live succ rows"
  by (auto simp: history_inv_def chain_inv_def linked_def upward_def split: option.splits)

lemma chain_inv_filter: "chain_inv rid key live succ rows \<Longrightarrow> chain_inv rid key live succ (filter p rows)"
  by (auto simp: chain_inv_def one_live_def rows_wf_filter)

lemma chain_inv_update_where:
  assumes f: "\<And>r. rid (f r) = rid r \<and> key (f r) = key r \<and> live (f r) = live r \<and> succ (f r) = succ r"
    and inv: "chain_inv rid key live succ rows"
  shows "chain_inv rid key live succ (update_where p f rows)"
proof -
  have "one_live key live (update_where p f rows)"
    unfolding update_where_def by (rule one_live_map) (use f inv in \<open>auto simp: chain_inv_def\<close>)
  moreover have "rows_wf rid (update_where p f rows)"
    using inv f by (simp add: chain_inv_def rows_wf_update_where)
  moreover have "upward rid live succ (f r) = upward rid live succ r" for r
    using f [of r] by (auto simp: upward_def split: option.splits)
  ultimately show ?thesis
    using inv by (auto simp: chain_inv_def in_set_update_where)
qed

text \<open>Ids grow along the links.\<close>

lemma chain_ids_rise:
  assumes inv: "chain_inv rid key live succ rows"
  shows "is_chain succ rid hs \<Longrightarrow> set hs \<subseteq> set rows \<Longrightarrow> sorted_wrt (<) (map rid hs)"
proof (induction hs)
  case (Cons r hs)
  have tail: "is_chain succ rid hs" using Cons.prems(1) unfolding is_chain_def by fastforce
  then have s: "sorted_wrt (<) (map rid hs)" using Cons by simp
  show ?case
  proof (cases hs)
    case tl: (Cons s hs')
    have "succ r = Some (rid s)" using Cons.prems(1) unfolding is_chain_def tl by force
    moreover have "upward rid live succ r" using inv Cons.prems(2) by (simp add: chain_inv_def)
    ultimately have "rid r < rid s" by (simp add: upward_def)
    then show ?thesis using s tl by auto
  qed simp
qed simp

text \<open>The walk ends on such a table too; it need not stay with the rows of one key.\<close>

lemma chain_walk_ends:
  assumes inv: "chain_inv rid key live succ rows" and r: "r \<in> set rows"
  shows "\<exists>hs. history_walk rid succ rows (Some (rid r)) chain = Some (chain @ r # hs) \<and> set hs \<subseteq> set rows \<and>
     is_chain succ rid (r # hs)"
  using r
proof (induction "nat (next_rowid rid rows - rid r)" arbitrary: r chain rule: less_induct)
  case less
  have find: "List.find (\<lambda>s. rid s = rid r) rows = Some r"
    using inv by (intro find_by_id [OF _ less.prems refl]) (simp add: chain_inv_def)
  show ?case
  proof (cases "succ r")
    case None
    then show ?thesis
      by (simp add: history_walk.simps [of rid succ rows "Some (rid r)"]
          history_walk.simps [of rid succ rows None] find is_chain_def)
  next
    case (Some j)
    then have lt: "rid r < j" using inv less.prems by (auto simp: chain_inv_def upward_def)
    show ?thesis
    proof (cases "List.find (\<lambda>s. rid s = j) rows")
      case None
      then show ?thesis
        by (simp add: history_walk.simps [of rid succ rows "Some (rid r)"]
            history_walk.simps [of rid succ rows "Some j"] find Some is_chain_def)
    next
      case s: (Some s)
      then have "s \<in> set rows" "rid s = j" by (auto dest: find_SomeD)
      moreover from this have "nat (next_rowid rid rows - rid s) < nat (next_rowid rid rows - rid r)"
        using lt next_rowid_fresh [of s rows rid] by simp
      ultimately obtain hs where "history_walk rid succ rows (Some (rid s)) (chain @ [r]) = Some ((chain @ [r]) @ s # hs)"
        "set hs \<subseteq> set rows" "is_chain succ rid (s # hs)"
        using less.hyps [of s "chain @ [r]"] by blast
      then show ?thesis using \<open>rid s = j\<close> \<open>s \<in> set rows\<close>
        by (intro exI [of _ "s # hs"]) (simp add: history_walk.simps [of rid succ rows "Some (rid r)"] find Some is_chain_Cons)
    qed
  qed
qed

text \<open>
  A walk over a linked table ends: ids grow along it. It visits rows of one key, versions
  count up by one, and it ends at the live revision.
\<close>

lemma history_walk_ends:
  assumes inv: "history_inv rid key live succ ver rows" and r: "r \<in> set rows"
  shows "\<exists>hs. history_walk rid succ rows (Some (rid r)) chain = Some (chain @ hs) \<and>
     hs \<noteq> [] \<and> hd hs = r \<and> set hs \<subseteq> set rows \<and> is_chain succ rid hs \<and>
     live (last hs) \<and> key (last hs) = key r \<and> ver (last hs) = ver r + int (length hs) - 1"
  using r
proof (induction "nat (next_rowid rid rows - rid r)" arbitrary: r chain rule: less_induct)
  case less
  have wf: "rows_wf rid rows" using inv by (simp add: history_inv_def)
  have find: "List.find (\<lambda>s. rid s = rid r) rows = Some r" by (rule find_by_id [OF wf less.prems refl])
  have lk: "linked rid key live succ ver rows r" using inv less.prems by (simp add: history_inv_def)
  show ?case
  proof (cases "succ r")
    case None
    with lk have "live r" by (simp add: linked_def)
    moreover have "history_walk rid succ rows (Some (rid r)) chain = Some (chain @ [r])"
      by (simp add: history_walk.simps [of rid succ rows "Some (rid r)"]
          history_walk.simps [of rid succ rows None] find None)
    ultimately show ?thesis using less.prems by (intro exI [of _ "[r]"]) (simp add: is_chain_def)
  next
    case (Some j)
    with lk obtain s where s: "s \<in> set rows" "rid s = j" "key s = key r" "ver s = ver r + 1" "rid r < j"
      by (auto simp: linked_def)
    have "nat (next_rowid rid rows - rid s) < nat (next_rowid rid rows - rid r)"
      using s next_rowid_fresh [OF s(1), of rid] by simp
    from less.hyps [OF this s(1), of "chain @ [r]"] obtain hs where hs:
      "history_walk rid succ rows (Some (rid s)) (chain @ [r]) = Some ((chain @ [r]) @ hs)"
      "hs \<noteq> []" "hd hs = s" "set hs \<subseteq> set rows" "is_chain succ rid hs" "live (last hs)"
      "key (last hs) = key s" "ver (last hs) = ver s + int (length hs) - 1"
      by blast
    have "history_walk rid succ rows (Some (rid r)) chain = Some (chain @ r # hs)"
      using hs(1) s(2) by (simp add: history_walk.simps [of rid succ rows "Some (rid r)"] find Some)
    then show ?thesis
      using hs s less.prems Some
      by (intro exI [of _ "r # hs"]) (auto intro!: is_chain_Cons)
  qed
qed

section \<open>The storing operation\<close>

text \<open>
  The contract without versions: a key without live row gets one, a live row of the key is
  retired and linked to the new one. Ids come from the table, as SQLite gives them.
\<close>

locale revision_store =
  fixes rid :: "'r \<Rightarrow> row_id" and key :: "'r \<Rightarrow> 'k" and live :: "'r \<Rightarrow> bool"
    and succ :: "'r \<Rightarrow> row_id option"
    and ikey :: "'i \<Rightarrow> 'k" and store :: "'i \<Rightarrow> 'r list \<Rightarrow> 'r list \<times> row_id"
  assumes revise_fresh:
      "List.find (\<lambda>r. live r \<and> key r = ikey i) rows = None \<Longrightarrow>
         \<exists>n. store i rows = (rows @ [n], rid n) \<and> rid n = next_rowid rid rows \<and>
             key n = ikey i \<and> live n \<and> succ n = None"
    and revise_supersedes:
      "rows_wf rid rows \<Longrightarrow> List.find (\<lambda>r. live r \<and> key r = ikey i) rows = Some old \<Longrightarrow>
         \<exists>n old'. store i rows = (map (\<lambda>r. if r = old then old' else r) rows @ [n], rid n) \<and>
             rid n = next_rowid rid rows \<and> key n = ikey i \<and> live n \<and> succ n = None \<and>
             rid old' = rid old \<and> key old' = key old \<and> \<not> live old' \<and> succ old' = Some (rid n)"
begin

lemma store_cases:
  assumes "rows_wf rid rows"
  obtains (fresh) n where "store i rows = (rows @ [n], rid n)" "rid n = next_rowid rid rows"
      "key n = ikey i" "live n" "succ n = None"
      "\<And>r. r \<in> set rows \<Longrightarrow> live r \<Longrightarrow> key r \<noteq> ikey i"
  | (superseding) n old old' where
      "store i rows = (map (\<lambda>r. if r = old then old' else r) rows @ [n], rid n)"
      "rid n = next_rowid rid rows" "key n = ikey i" "live n" "succ n = None"
      "rid old' = rid old" "key old' = key old" "\<not> live old'" "succ old' = Some (rid n)"
      "old \<in> set rows" "live old" "key old = ikey i"
proof (cases "List.find (\<lambda>r. live r \<and> key r = ikey i) rows")
  case None
  from revise_fresh [OF None] show ?thesis using find_NoneD [OF None] fresh by blast
next
  case (Some old)
  from revise_supersedes [OF assms Some] show ?thesis using find_SomeD [OF Some] superseding by blast
qed

lemma store_chain:
  assumes inv: "chain_inv rid key live succ rows"
  shows "chain_inv rid key live succ (fst (store i rows))"
proof -
  have wf: "rows_wf rid rows" and ol: "one_live key live rows"
    and up: "\<And>r. r \<in> set rows \<Longrightarrow> upward rid live succ r" using inv by (auto simp: chain_inv_def)
  from wf show ?thesis
  proof (cases rule: store_cases [of rows i])
    case (fresh n)
    have "one_live key live (rows @ [n])" using fresh by (intro one_live_snoc [OF ol]) simp
    then show ?thesis using wf up fresh by (auto simp: chain_inv_def rows_wf_snoc upward_def)
  next
    case (superseding n old old')
    let ?f = "\<lambda>r. if r = old then old' else r"
    have rids: "map rid (map ?f rows) = map rid rows" using superseding(6) by simp
    have "next_rowid rid (map ?f rows) = next_rowid rid rows"
      using superseding(6) unfolding next_rowid_def by (induction rows) auto
    moreover have "list_all (\<lambda>r. 0 < rid r) (map ?f rows)"
      using wf superseding(6,10) by (auto simp: rows_wf_def list_all_iff)
    ultimately have "rows_wf rid (map ?f rows @ [n])"
      using wf rids superseding(2) by (intro rows_wf_snoc) (simp_all add: rows_wf_def del: map_map)
    moreover have "one_live key live (map ?f rows @ [n])"
    proof (rule one_live_snoc)
      have live_f: "r \<in> set rows \<and> r \<noteq> old" if "r \<in> set (map ?f rows)" "live r" for r
        using that superseding(8) by auto
      show "key r \<noteq> key n" if "r \<in> set (map ?f rows)" "live r" for r
        using live_f [OF that] one_liveD [OF ol, of r old] superseding(3,10-12) that(2) by auto
      show "one_live key live (map ?f rows)"
        unfolding one_live_def using live_f one_liveD [OF ol] by blast
    qed
    moreover have "upward rid live succ r" if "r \<in> set (map ?f rows @ [n])" for r
    proof -
      have "r = n \<or> r = old' \<or> r \<in> set rows" using that by auto
      then show ?thesis
        using superseding next_rowid_fresh [of old rows rid] up [of r] by (auto simp: upward_def)
    qed
    ultimately show ?thesis using superseding(1) by (simp add: chain_inv_def)
  qed
qed

text \<open>Rows of other keys are exactly as they were; rows of the key are kept, none is lost.\<close>

lemma store_other_keys:
  assumes "rows_wf rid rows"
  shows "filter (\<lambda>r. key r \<noteq> ikey i) (fst (store i rows)) = filter (\<lambda>r. key r \<noteq> ikey i) rows"
proof (cases "List.find (\<lambda>r. live r \<and> key r = ikey i) rows")
  case None
  from revise_fresh [OF None] show ?thesis by auto
next
  case (Some old)
  have "key old = ikey i" using find_SomeD [OF Some] by simp
  then have "filter (\<lambda>r. key r \<noteq> ikey i) (map (\<lambda>r. if r = old then old' else r) xs) =
      filter (\<lambda>r. key r \<noteq> ikey i) xs" if "key old' = key old" for old' xs
    using that by (induction xs) auto
  then show ?thesis using revise_supersedes [OF assms Some] by auto
qed

lemma store_length:
  assumes "rows_wf rid rows"
  shows "length (fst (store i rows)) = Suc (length rows)"
proof (cases "List.find (\<lambda>r. live r \<and> key r = ikey i) rows")
  case None
  from revise_fresh [OF None] show ?thesis by auto
next
  case (Some old)
  from revise_supersedes [OF assms Some] show ?thesis by auto
qed

end

text \<open>The contract with versions gives the one without.\<close>

locale supersede_store =
  fixes rid :: "'r \<Rightarrow> row_id" and key :: "'r \<Rightarrow> 'k" and live :: "'r \<Rightarrow> bool"
    and succ :: "'r \<Rightarrow> row_id option" and ver :: "'r \<Rightarrow> int"
    and ikey :: "'i \<Rightarrow> 'k" and store :: "'i \<Rightarrow> 'r list \<Rightarrow> 'r list \<times> row_id"
  assumes store_fresh:
      "List.find (\<lambda>r. live r \<and> key r = ikey i) rows = None \<Longrightarrow>
         \<exists>n. store i rows = (rows @ [n], rid n) \<and> rid n = next_rowid rid rows \<and>
             key n = ikey i \<and> live n \<and> succ n = None \<and> ver n = 1"
    and store_supersedes:
      "rows_wf rid rows \<Longrightarrow> List.find (\<lambda>r. live r \<and> key r = ikey i) rows = Some old \<Longrightarrow>
         \<exists>n old'. store i rows = (map (\<lambda>r. if r = old then old' else r) rows @ [n], rid n) \<and>
             rid n = next_rowid rid rows \<and> key n = ikey i \<and> live n \<and> succ n = None \<and>
             ver n = ver old + 1 \<and> rid old' = rid old \<and> key old' = key old \<and>
             \<not> live old' \<and> succ old' = Some (rid n) \<and> ver old' = ver old"

sublocale supersede_store < revision_store rid key live succ ikey store
proof unfold_locales
  fix i rows
  show "\<exists>n. store i rows = (rows @ [n], rid n) \<and> rid n = next_rowid rid rows \<and>
      key n = ikey i \<and> live n \<and> succ n = None"
    if "List.find (\<lambda>r. live r \<and> key r = ikey i) rows = None"
    using store_fresh [OF that] by blast
  fix old
  assume "rows_wf rid rows" "List.find (\<lambda>r. live r \<and> key r = ikey i) rows = Some old"
  from store_supersedes [OF this]
  show "\<exists>n old'. store i rows = (map (\<lambda>r. if r = old then old' else r) rows @ [n], rid n) \<and>
      rid n = next_rowid rid rows \<and> key n = ikey i \<and> live n \<and> succ n = None \<and>
      rid old' = rid old \<and> key old' = key old \<and> \<not> live old' \<and> succ old' = Some (rid n)"
    by blast
qed

context supersede_store
begin

abbreviation hinv :: "'r list \<Rightarrow> bool" where
  "hinv \<equiv> history_inv rid key live succ ver"

lemma linked_mono:
  assumes "linked rid key live succ ver rows r"
    and "\<And>s. s \<in> set rows \<Longrightarrow> \<exists>s'\<in>set rows'. rid s' = rid s \<and> key s' = key s \<and> ver s' = ver s"
  shows "linked rid key live succ ver rows' r"
  using assms by (fastforce simp: linked_def split: option.splits)

lemma store_shape:
  assumes "rows_wf rid rows"
  obtains (fresh) n where "store i rows = (rows @ [n], rid n)" "rid n = next_rowid rid rows"
      "key n = ikey i" "live n" "succ n = None" "ver n = 1"
      "\<And>r. r \<in> set rows \<Longrightarrow> live r \<Longrightarrow> key r \<noteq> ikey i"
  | (superseding) n old old' where
      "store i rows = (map (\<lambda>r. if r = old then old' else r) rows @ [n], rid n)"
      "rid n = next_rowid rid rows" "key n = ikey i" "live n" "succ n = None" "ver n = ver old + 1"
      "rid old' = rid old" "key old' = key old" "\<not> live old'" "succ old' = Some (rid n)" "ver old' = ver old"
      "old \<in> set rows" "live old" "key old = ikey i"
proof (cases "List.find (\<lambda>r. live r \<and> key r = ikey i) rows")
  case None
  from store_fresh [OF None] show ?thesis using find_NoneD [OF None] fresh by blast
next
  case (Some old)
  from store_supersedes [OF assms Some] show ?thesis using find_SomeD [OF Some] superseding by blast
qed

lemma store_inv:
  assumes inv: "hinv rows"
  shows "hinv (fst (store i rows))"
proof -
  have wf: "rows_wf rid rows" and lk: "\<And>r. r \<in> set rows \<Longrightarrow> linked rid key live succ ver rows r"
    using inv by (auto simp: history_inv_def)
  from wf have "\<forall>r\<in>set (fst (store i rows)). linked rid key live succ ver (fst (store i rows)) r"
  proof (cases rule: store_shape [of rows i])
    case (fresh n)
    have "linked rid key live succ ver (rows @ [n]) r" if "r \<in> set rows" for r
      by (rule linked_mono [OF lk [OF that]]) auto
    then show ?thesis using fresh by (auto simp: linked_def)
  next
    case (superseding n old old')
    let ?f = "\<lambda>r. if r = old then old' else r"
    let ?rows = "map ?f rows @ [n]"
    have keep: "\<exists>s'\<in>set ?rows. rid s' = rid s \<and> key s' = key s \<and> ver s' = ver s"
      if "s \<in> set rows" for s
      using that superseding(7,8,11) by (intro bexI [of _ "?f s"]) auto
    have "linked rid key live succ ver ?rows r" if "r \<in> set rows" for r
      by (rule linked_mono [OF lk [OF that]]) (rule keep)
    moreover have "linked rid key live succ ver ?rows n" "linked rid key live succ ver ?rows old'"
      using superseding next_rowid_fresh [of old rows rid] by (auto simp: linked_def)
    moreover have "r = n \<or> r = old' \<or> r \<in> set rows" if "r \<in> set ?rows" for r using that by auto
    ultimately show ?thesis unfolding superseding(1) fst_conv by blast
  qed
  then show ?thesis using store_chain [OF history_inv_chain [OF inv]] by (simp add: history_inv_def chain_inv_def)
qed

lemma store_live:
  assumes inv: "hinv rows" and st: "store i rows = (rows', j)"
  shows "\<exists>n. List.find (\<lambda>r. live r \<and> key r = ikey i) rows' = Some n \<and> rid n = j \<and>
           j = next_rowid rid rows \<and>
           ver n = (case List.find (\<lambda>r. live r \<and> key r = ikey i) rows of
                      None \<Rightarrow> 1 | Some old \<Rightarrow> ver old + 1)"
proof -
  have inv': "hinv rows'" using store_inv [OF inv, of i] st by simp
  have "\<exists>n\<in>set rows'. rid n = j \<and> j = next_rowid rid rows \<and> key n = ikey i \<and> live n \<and>
      ver n = (case List.find (\<lambda>r. live r \<and> key r = ikey i) rows of
                 None \<Rightarrow> 1 | Some old \<Rightarrow> ver old + 1)"
  proof (cases "List.find (\<lambda>r. live r \<and> key r = ikey i) rows")
    case None
    then show ?thesis using store_fresh [OF None] st by auto
  next
    case (Some old)
    have "rows_wf rid rows" using inv by (simp add: history_inv_def)
    from store_supersedes [OF this Some] show ?thesis using st Some by auto
  qed
  then obtain n where n: "n \<in> set rows'" "rid n = j" "j = next_rowid rid rows" "key n = ikey i"
    "live n" "ver n = (case List.find (\<lambda>r. live r \<and> key r = ikey i) rows of
                 None \<Rightarrow> 1 | Some old \<Rightarrow> ver old + 1)" by blast
  have "List.find (\<lambda>r. live r \<and> key r = ikey i) rows' = Some n"
    using n inv' by (intro find_unique) (auto simp: history_inv_def dest: one_liveD)
  with n show ?thesis by blast
qed

end

end
