(* ===== verification/Rlm_Nodes.thy ===== *)
theory Rlm_Nodes
  imports Rlm_Jobs Supersede
begin

text \<open>
  Summary nodes and their provenance graph
  (\<^verbatim>\<open>crates/arags-storage/src/sqlite/rlm/{mod,nodes,graph,complete}.rs\<close>). A node is stored by
  a superseding insert: the live revision of \<open>(project, level, subject)\<close> is retired and
  linked to the new one. New nodes are pending; a review, or the quorum, approves them; only
  approved, live, fresh nodes are found by search. Staleness follows source hashes, and the
  parent chain follows provenance edges upward.

  Stable node ids are UUIDs made by a library: they are arguments here. The FTS5 index is an
  argument too (\<open>fts\<close>, from a query to ranked row ids). Lemmas: the interpretation of the
  revision-history contract, the review gate, search visibility, and the correctness of the
  recursive parent query.
\<close>

section \<open>Data\<close>

datatype review_status = Review_Pending | Review_Approved | Review_Rejected
datatype vector_status = Indexed | Pending_Vector

record rlm_node =
  nd_id :: row_id
  nd_node_id :: string
  nd_buffer :: "row_id option"
  nd_project :: string
  nd_level :: int
  nd_subject :: string
  nd_summary :: string
  nd_hashes :: "string list"
  nd_model :: "string option"
  nd_volunteer :: "string option"
  nd_template :: "string option"
  nd_tokens :: int
  nd_confidence :: real
  nd_review :: review_status
  nd_reviewed_by :: "string option"
  nd_reviewed_at :: "millis option"
  nd_access_count :: int
  nd_created :: millis
  nd_updated :: millis
  nd_accessed :: millis
  nd_stale :: bool
  nd_created_by :: "string option"
  nd_active :: bool
  nd_superseded :: "row_id option"
  nd_epoch :: int
  nd_version :: int
  nd_vector :: vector_status

record new_rlm_node =
  nn_buffer :: "row_id option"
  nn_project :: string
  nn_level :: int
  nn_subject :: string
  nn_summary :: string
  nn_hashes :: "string list"
  nn_model :: "string option"
  nn_volunteer :: "string option"
  nn_created_by :: "string option"
  nn_template :: "string option"
  nn_tokens :: int

type_synonym subject_key = "string \<times> int \<times> string"

definition node_key :: "rlm_node \<Rightarrow> subject_key" where
  "node_key n = (nd_project n, nd_level n, nd_subject n)"

definition input_key :: "new_rlm_node \<Rightarrow> subject_key" where
  "input_key i = (nn_project i, nn_level i, nn_subject i)"

section \<open>Superseding upsert\<close>

definition fresh_node :: "string \<Rightarrow> new_rlm_node \<Rightarrow> millis \<Rightarrow> int \<Rightarrow> row_id \<Rightarrow> rlm_node" where
  "fresh_node node_id input now version i =
     \<lparr>nd_id = i, nd_node_id = node_id, nd_buffer = nn_buffer input,
      nd_project = nn_project input, nd_level = nn_level input, nd_subject = nn_subject input,
      nd_summary = nn_summary input, nd_hashes = nn_hashes input, nd_model = nn_model input,
      nd_volunteer = nn_volunteer input, nd_template = nn_template input,
      nd_tokens = nn_tokens input, nd_confidence = 1, nd_review = Review_Pending,
      nd_reviewed_by = None, nd_reviewed_at = None, nd_access_count = 0, nd_created = now,
      nd_updated = now, nd_accessed = now, nd_stale = False, nd_created_by = nn_created_by input,
      nd_active = True, nd_superseded = None, nd_epoch = 0, nd_version = version,
      nd_vector = Indexed\<rparr>"

text \<open>
  The four statements in order: find the live revision, retire it, insert the new row, link
  the retired row to it.
\<close>

definition upsert_node_stmt ::
  "string \<Rightarrow> new_rlm_node \<Rightarrow> millis \<Rightarrow> rlm_node list \<Rightarrow> rlm_node list \<times> row_id" where
  "upsert_node_stmt node_id input now rows =
     (let existing = List.find (\<lambda>r. nd_active r \<and> node_key r = input_key input) rows;
          rows1 = (case existing of
                     Some old \<Rightarrow> update_where (\<lambda>r. nd_id r = nd_id old \<and> nd_active r)
                                   (\<lambda>r. r\<lparr>nd_active := False\<rparr>) rows
                   | None \<Rightarrow> rows);
          version = (case existing of Some old \<Rightarrow> nd_version old + 1 | None \<Rightarrow> 1);
          new_id = next_rowid nd_id rows1;
          rows2 = rows1 @ [fresh_node node_id input now version new_id];
          rows3 = (case existing of
                     Some old \<Rightarrow> update_where (\<lambda>r. nd_id r = nd_id old)
                                   (\<lambda>r. r\<lparr>nd_superseded := Some new_id\<rparr>) rows2
                   | None \<Rightarrow> rows2)
      in (rows3, new_id))"

definition store_rlm_node ::
  "string \<Rightarrow> millis \<Rightarrow> new_rlm_node \<Rightarrow> rlm_node list \<Rightarrow> rlm_node list \<times> (row_id \<times> string)" where
  "store_rlm_node node_id now input rows =
     (let (rows', i) = upsert_node_stmt node_id input now rows in (rows', (i, node_id)))"

definition publish_rlm_node_for_subject ::
  "string \<Rightarrow> millis \<Rightarrow> string \<Rightarrow> int \<Rightarrow> string \<Rightarrow> string \<Rightarrow> string list \<Rightarrow> string option
     \<Rightarrow> string option \<Rightarrow> string option \<Rightarrow> string \<Rightarrow> rlm_node list
     \<Rightarrow> rlm_node list \<times> (row_id \<times> string)" where
  "publish_rlm_node_for_subject node_id now project level subject summary hashes volunteer
     model template decided_by rows =
     (let input = \<lparr>nn_buffer = None, nn_project = project, nn_level = level,
                   nn_subject = subject, nn_summary = summary, nn_hashes = hashes,
                   nn_model = model, nn_volunteer = volunteer,
                   nn_created_by = Some decided_by, nn_template = template, nn_tokens = 0\<rparr>;
          (rows', i) = upsert_node_stmt node_id input now rows
      in (update_where (\<lambda>r. nd_id r = i)
            (\<lambda>r. r\<lparr>nd_review := Review_Approved, nd_reviewed_by := Some decided_by,
                   nd_reviewed_at := Some now\<rparr>) rows', (i, node_id)))"

section \<open>Lookups\<close>

definition get_rlm_node :: "string \<Rightarrow> rlm_node list \<Rightarrow> rlm_node option" where
  "get_rlm_node node_id rows = List.find (\<lambda>r. nd_node_id r = node_id) rows"

definition get_rlm_node_by_subject ::
  "string \<Rightarrow> int \<Rightarrow> string \<Rightarrow> rlm_node list \<Rightarrow> rlm_node option" where
  "get_rlm_node_by_subject project level subject rows =
     List.find (\<lambda>r. node_key r = (project, level, subject) \<and> nd_active r) rows"

text \<open>\<open>ORDER BY epoch DESC, id DESC LIMIT 1\<close>.\<close>

definition get_rlm_node_as_of ::
  "string \<Rightarrow> int \<Rightarrow> string \<Rightarrow> int \<Rightarrow> rlm_node list \<Rightarrow> rlm_node option" where
  "get_rlm_node_as_of project level subject as_of_epoch rows =
     (case sort_key (\<lambda>r. (- nd_epoch r, - nd_id r))
             (filter (\<lambda>r. node_key r = (project, level, subject) \<and> nd_epoch r \<le> as_of_epoch) rows)
      of [] \<Rightarrow> None | r # _ \<Rightarrow> Some r)"

text \<open>\<open>ORDER BY level, subject\<close>.\<close>

definition level_subject_le :: "rlm_node \<Rightarrow> rlm_node \<Rightarrow> bool" where
  "level_subject_le r s \<longleftrightarrow>
     nd_level r < nd_level s
     \<or> nd_level r = nd_level s \<and> lex_le (text_key (nd_subject r)) (text_key (nd_subject s))"

definition list_rlm_nodes ::
  "string \<Rightarrow> int option \<Rightarrow> bool \<Rightarrow> rlm_node list \<Rightarrow> rlm_node list" where
  "list_rlm_nodes project level include_pending rows =
     order_by level_subject_le
       (filter (\<lambda>r. nd_project r = project \<and> nd_active r \<and> nd_review r \<noteq> Review_Rejected
            \<and> (include_pending \<or> nd_review r = Review_Approved)
            \<and> (case level of Some l \<Rightarrow> nd_level r = l | None \<Rightarrow> True)) rows)"

definition searchable :: "row_id \<Rightarrow> rlm_node \<Rightarrow> bool" where
  "searchable buffer_id r \<longleftrightarrow>
     nd_buffer r = Some buffer_id \<and> nd_active r \<and> \<not> nd_stale r \<and> nd_review r = Review_Approved"

definition search_rlm_fts ::
  "(string \<Rightarrow> row_id list) \<Rightarrow> row_id \<Rightarrow> string \<Rightarrow> nat \<Rightarrow> rlm_node list \<Rightarrow> rlm_node list" where
  "search_rlm_fts fts buffer_id query limit rows =
     filter (\<lambda>r. nd_id r \<in> set (take limit (fts query)) \<and> searchable buffer_id r) rows"

text \<open>\<open>get_approved_rlm_nodes\<close>: ids arrive as \<open>u64\<close>; one above \<open>i64::MAX\<close> is an error.\<close>

definition get_approved_rlm_nodes ::
  "nat list \<Rightarrow> row_id \<Rightarrow> rlm_node list \<Rightarrow> nat + rlm_node list" where
  "get_approved_rlm_nodes ids buffer_id rows =
     (case List.find (\<lambda>i. i64_max < int i) ids of
        Some i \<Rightarrow> Inl i
      | None \<Rightarrow> Inr (filter (\<lambda>r. nd_id r \<in> set (map int ids) \<and> searchable buffer_id r) rows))"

definition rlm_subject_of :: "string \<Rightarrow> rlm_node list \<Rightarrow> subject_key option" where
  "rlm_subject_of node_id rows =
     map_option node_key (List.find (\<lambda>r. nd_node_id r = node_id) rows)"

definition get_node_history :: "row_id \<Rightarrow> rlm_node list \<Rightarrow> rlm_node list option" where
  "get_node_history i rows = history_walk nd_id nd_superseded rows (Some i) []"

section \<open>Review gate, staleness, vector status\<close>

definition review_rlm_node ::
  "millis \<Rightarrow> string \<Rightarrow> bool \<Rightarrow> string \<Rightarrow> rlm_node list \<Rightarrow> rlm_node list \<times> bool" where
  "review_rlm_node now node_id approved reviewer rows =
     (update_where (\<lambda>r. nd_node_id r = node_id)
        (\<lambda>r. r\<lparr>nd_review := (if approved then Review_Approved else Review_Rejected),
               nd_reviewed_by := Some reviewer, nd_reviewed_at := Some now,
               nd_confidence := (if approved then nd_confidence r else 0)\<rparr>) rows,
      0 < count_where (\<lambda>r. nd_node_id r = node_id) rows)"

definition hit_by_hashes :: "row_id \<Rightarrow> string list \<Rightarrow> rlm_node \<Rightarrow> bool" where
  "hit_by_hashes buffer_id changed r \<longleftrightarrow>
     nd_buffer r = Some buffer_id \<and> \<not> nd_stale r \<and> list_ex (\<lambda>h. h \<in> set changed) (nd_hashes r)"

definition stale_row :: "rlm_node \<Rightarrow> rlm_node" where
  "stale_row r = r\<lparr>nd_stale := True, nd_confidence := 0\<rparr>"

definition mark_rlm_stale_by_hashes ::
  "row_id \<Rightarrow> string list \<Rightarrow> rlm_node list \<Rightarrow> rlm_node list \<times> (row_id \<times> subject_key) list" where
  "mark_rlm_stale_by_hashes buffer_id changed rows =
     (if changed = [] then (rows, [])
      else let affected = map (\<lambda>r. (nd_id r, node_key r)) (filter (hit_by_hashes buffer_id changed) rows)
           in (if affected = [] then rows
               else update_where (hit_by_hashes buffer_id changed) stale_row rows, affected))"

definition mark_rlm_stale_by_subject ::
  "row_id \<Rightarrow> int \<Rightarrow> string \<Rightarrow> rlm_node list \<Rightarrow> rlm_node list \<times> bool" where
  "mark_rlm_stale_by_subject buffer_id level subject rows =
     (let hit = (\<lambda>r. nd_buffer r = Some buffer_id \<and> nd_level r = level
                     \<and> nd_subject r = subject \<and> \<not> nd_stale r)
      in (update_where hit stale_row rows, 0 < count_where hit rows))"

definition mark_rlm_nodes_pending_vector ::
  "row_id \<Rightarrow> row_id list \<Rightarrow> rlm_node list \<Rightarrow> rlm_node list" where
  "mark_rlm_nodes_pending_vector buffer_id ids rows =
     (if ids = [] then rows
      else update_where (\<lambda>r. nd_buffer r = Some buffer_id \<and> nd_id r \<in> set ids)
             (\<lambda>r. r\<lparr>nd_vector := Pending_Vector\<rparr>) rows)"

definition rlm_nodes_pending_vector :: "row_id \<Rightarrow> rlm_node list \<Rightarrow> row_id list" where
  "rlm_nodes_pending_vector buffer_id rows =
     map nd_id (filter (\<lambda>r. nd_buffer r = Some buffer_id \<and> nd_vector r = Pending_Vector) rows)"

definition embed_input :: "rlm_node \<Rightarrow> row_id \<times> string" where
  "embed_input r = (nd_id r, nd_subject r @ [CHR 0x0A] @ nd_summary r)"

definition get_rlm_embed_inputs :: "row_id list \<Rightarrow> rlm_node list \<Rightarrow> (row_id \<times> string) list" where
  "get_rlm_embed_inputs ids rows =
     (if ids = [] then [] else map embed_input (filter (\<lambda>r. nd_id r \<in> set ids) rows))"

definition all_rlm_embed_inputs :: "rlm_node list \<Rightarrow> (row_id \<times> string) list" where
  "all_rlm_embed_inputs rows = map embed_input rows"

definition clear_rlm_nodes_pending_vector ::
  "row_id \<Rightarrow> row_id list \<Rightarrow> rlm_node list \<Rightarrow> rlm_node list" where
  "clear_rlm_nodes_pending_vector buffer_id ids rows =
     (if ids = [] then rows
      else update_where (\<lambda>r. nd_buffer r = Some buffer_id \<and> nd_id r \<in> set ids)
             (\<lambda>r. r\<lparr>nd_vector := Indexed\<rparr>) rows)"

section \<open>Atomic completion with a node\<close>

text \<open>
  \<open>complete_rlm_job_with_node\<close>: one transaction over both tables. The clock is read for the
  lease check (\<open>now\<close>) and again for the writes (\<open>now'\<close>).
\<close>

definition complete_rlm_job_with_node ::
  "millis \<Rightarrow> millis \<Rightarrow> string \<Rightarrow> row_id \<Rightarrow> string \<Rightarrow> int \<Rightarrow> new_rlm_node \<Rightarrow> job_db \<times> rlm_node list
     \<Rightarrow> (job_db \<times> rlm_node list) \<times> (row_id \<times> string) option" where
  "complete_rlm_job_with_node now now' node_id job_id worker generation input st =
     (let (db, nodes) = st in
      case List.find (\<lambda>r. jb_id r = job_id \<and> jb_status r = Claimed) (jobs db) of
        None \<Rightarrow> (st, None)
      | Some r \<Rightarrow>
          if \<not> lease_valid now worker generation r then (st, None)
          else let (nodes', i) = upsert_node_stmt node_id input now' nodes in
               ((db\<lparr>jobs := update_where (\<lambda>r. jb_id r = job_id) (done_row now') (jobs db)\<rparr>, nodes'),
                Some (i, node_id)))"

section \<open>Provenance graph\<close>

record rlm_edge =
  ed_parent :: row_id
  ed_child :: "row_id option"
  ed_chunk :: "row_id option"

datatype edge_error = Needs_Exactly_One | Foreign_Key

text \<open>
  \<open>INSERT OR IGNORE\<close> skips a row that repeats the primary key
  \<open>(parent_id, child_node_id, chunk_id)\<close>; a key with a \<open>NULL\<close> part never repeats.
  \<open>OR IGNORE\<close> does not cover foreign keys.
\<close>

definition edge_conflict :: "rlm_edge \<Rightarrow> rlm_edge \<Rightarrow> bool" where
  "edge_conflict e f \<longleftrightarrow> e = f \<and> ed_child e \<noteq> None \<and> ed_chunk e \<noteq> None"

definition add_rlm_edge ::
  "row_id \<Rightarrow> row_id option \<Rightarrow> row_id option \<Rightarrow> rlm_node list \<Rightarrow> row_id list \<Rightarrow> rlm_edge list
     \<Rightarrow> edge_error + rlm_edge list" where
  "add_rlm_edge parent child chunk nodes chunk_ids edges =
     (let e = \<lparr>ed_parent = parent, ed_child = child, ed_chunk = chunk\<rparr> in
      if (child \<noteq> None) = (chunk \<noteq> None) then Inl Needs_Exactly_One
      else if list_ex (edge_conflict e) edges then Inr edges
      else if \<not> (parent \<in> set (map nd_id nodes)
                 \<and> (case child of Some c \<Rightarrow> c \<in> set (map nd_id nodes) | None \<Rightarrow> True)
                 \<and> (case chunk of Some c \<Rightarrow> c \<in> set chunk_ids | None \<Rightarrow> True))
           then Inl Foreign_Key
      else Inr (edges @ [e]))"

text \<open>
  The recursive query of \<open>rlm_parent_chain\<close>: rows of \<open>up\<close> are taken from a queue one by
  one; each adds the parents of its edges that \<open>UNION\<close> has not seen yet.
\<close>

fun new_parents :: "row_id \<Rightarrow> rlm_edge list \<Rightarrow> row_id list \<Rightarrow> row_id list" where
  "new_parents i [] seen = []"
| "new_parents i (e # es) seen =
     (if ed_child e = Some i \<and> ed_parent e \<notin> set seen
      then ed_parent e # new_parents i es (ed_parent e # seen)
      else new_parents i es seen)"

lemma new_parents_set:
  "set (new_parents i es seen) = {p. \<exists>e\<in>set es. ed_child e = Some i \<and> ed_parent e = p} - set seen"
  by (induction i es seen rule: new_parents.induct) auto

lemma new_parents_distinct: "distinct (new_parents i es seen)"
  by (induction i es seen rule: new_parents.induct) (auto simp: new_parents_set)

function up_loop :: "rlm_edge list \<Rightarrow> row_id list \<Rightarrow> row_id list \<Rightarrow> row_id list" where
  "up_loop edges [] seen = seen"
| "up_loop edges (i # queue) seen =
     (let new = new_parents i edges seen in up_loop edges (queue @ new) (seen @ new))"
  by pat_completeness auto
termination
proof (relation "measures [\<lambda>(edges, q, seen). card (ed_parent ` set edges - set seen),
                           \<lambda>(edges, q, seen). length q]")
  fix edges :: "rlm_edge list" and i queue seen new
  assume new: "new = new_parents i edges seen"
  show "((edges, queue @ new, seen @ new), edges, i # queue, seen)
      \<in> measures [\<lambda>(edges, q, seen). card (ed_parent ` set edges - set seen),
                   \<lambda>(edges, q, seen). length q]"
  proof (cases new)
    case Nil
    then show ?thesis by simp
  next
    case (Cons p ps)
    then have p: "p \<in> set new" by simp
    then have "p \<in> ed_parent ` set edges - set seen" unfolding new by (auto simp: new_parents_set)
    moreover note p
    ultimately have "ed_parent ` set edges - set (seen @ new) \<subset> ed_parent ` set edges - set seen"
      by auto
    then have "card (ed_parent ` set edges - set (seen @ new)) < card (ed_parent ` set edges - set seen)"
      by (intro psubset_card_mono) auto
    then show ?thesis by simp
  qed
qed simp

definition rlm_parent_chain :: "row_id list \<Rightarrow> rlm_edge list \<Rightarrow> row_id list" where
  "rlm_parent_chain ids edges =
     (if ids = [] then []
      else filter (\<lambda>i. i \<notin> set ids) (up_loop edges (remdups ids) (remdups ids)))"

text \<open>The chunk snapshot of a file joins chunks with their texts, in id order.\<close>

definition rlm_chunks_snapshot ::
  "row_id \<Rightarrow> string \<Rightarrow> (row_id \<times> row_id \<times> string \<times> string) list \<Rightarrow> (row_id \<times> string) list
     \<Rightarrow> (row_id \<times> string \<times> string option) list" where
  "rlm_chunks_snapshot buffer_id file_path chunks texts =
     map (\<lambda>(i, _, _, h). (i, h, map_of texts i))
       (sort_key fst (filter (\<lambda>(_, b, f, _). b = buffer_id \<and> f = file_path) chunks))"

section \<open>The revision-history contract\<close>

lemma fresh_node_simps [simp]:
  "nd_id (fresh_node n inp now v i) = i" "nd_active (fresh_node n inp now v i)"
  "node_key (fresh_node n inp now v i) = input_key inp"
  "nd_superseded (fresh_node n inp now v i) = None" "nd_version (fresh_node n inp now v i) = v"
  "nd_review (fresh_node n inp now v i) = Review_Pending" "nd_epoch (fresh_node n inp now v i) = 0"
  "nd_summary (fresh_node n inp now v i) = nn_summary inp" "nd_buffer (fresh_node n inp now v i) = nn_buffer inp"
  "nd_node_id (fresh_node n inp now v i) = n" "\<not> nd_stale (fresh_node n inp now v i)"
  by (simp_all add: fresh_node_def node_key_def input_key_def)

abbreviation node_history_inv :: "rlm_node list \<Rightarrow> bool" where
  "node_history_inv \<equiv> history_inv nd_id node_key nd_active nd_superseded nd_version"

text \<open>The shape of the superseding upsert, with the retired row made explicit.\<close>

definition retired_node :: "row_id \<Rightarrow> rlm_node \<Rightarrow> rlm_node" where
  "retired_node j r = r\<lparr>nd_active := False, nd_superseded := Some j\<rparr>"

lemma retired_node_simps [simp]:
  "nd_id (retired_node j r) = nd_id r" "node_key (retired_node j r) = node_key r"
  "\<not> nd_active (retired_node j r)" "nd_superseded (retired_node j r) = Some j"
  "nd_version (retired_node j r) = nd_version r" "nd_epoch (retired_node j r) = nd_epoch r"
  "nd_buffer (retired_node j r) = nd_buffer r"
  by (simp_all add: retired_node_def node_key_def)

lemma upsert_fresh:
  "List.find (\<lambda>r. nd_active r \<and> node_key r = input_key inp) rows = None \<Longrightarrow>
     upsert_node_stmt nid inp now rows =
       (rows @ [fresh_node nid inp now 1 (next_rowid nd_id rows)], next_rowid nd_id rows)"
  by (simp add: upsert_node_stmt_def Let_def)

lemma upsert_supersedes:
  assumes wf: "rows_wf nd_id rows"
    and f: "List.find (\<lambda>r. nd_active r \<and> node_key r = input_key inp) rows = Some old"
  shows "upsert_node_stmt nid inp now rows =
       (map (\<lambda>r. if r = old then retired_node (next_rowid nd_id rows) old else r) rows @
          [fresh_node nid inp now (nd_version old + 1) (next_rowid nd_id rows)],
        next_rowid nd_id rows)"
proof -
  let ?i = "next_rowid nd_id rows"
  have old: "old \<in> set rows" "nd_active old" using find_SomeD [OF f] by auto
  let ?r1 = "update_where (\<lambda>r. nd_id r = nd_id old \<and> nd_active r) (\<lambda>r. r\<lparr>nd_active := False\<rparr>) rows"
  have nxt: "next_rowid nd_id ?r1 = ?i" by (rule next_rowid_update_where) simp
  have "?i \<noteq> nd_id old" using next_rowid_fresh [OF old(1), of nd_id] by simp
  moreover have "update_where (\<lambda>r. nd_id r = nd_id old) (\<lambda>r. r\<lparr>nd_superseded := Some ?i\<rparr>) ?r1 =
      map (\<lambda>r. if r = old then retired_node ?i old else r) rows"
    unfolding update_where_def map_map comp_def
    by (rule map_cong)
      (use old rows_wf_inj [OF wf _ old(1)] in \<open>auto simp: retired_node_def\<close>)
  ultimately show ?thesis
    by (simp add: upsert_node_stmt_def Let_def f nxt table_simps)
qed

text \<open>
  The store of the contract takes its whole input at once: stable id, content and time.
\<close>

definition node_request_key :: "string \<times> new_rlm_node \<times> millis \<Rightarrow> subject_key" where
  "node_request_key = (\<lambda>(node_id, input, now). input_key input)"

definition store_node_request ::
  "string \<times> new_rlm_node \<times> millis \<Rightarrow> rlm_node list \<Rightarrow> rlm_node list \<times> row_id" where
  "store_node_request = (\<lambda>(node_id, input, now). upsert_node_stmt node_id input now)"

interpretation node_history: supersede_store nd_id node_key nd_active nd_superseded nd_version
  node_request_key store_node_request
proof unfold_locales
  fix q :: "string \<times> new_rlm_node \<times> millis" and rows
  obtain nid inp now where q: "q = (nid, inp, now)" by (cases q)
  { assume "List.find (\<lambda>r. nd_active r \<and> node_key r = node_request_key q) rows = None"
    then show "\<exists>n. store_node_request q rows = (rows @ [n], nd_id n) \<and>
        nd_id n = next_rowid nd_id rows \<and> node_key n = node_request_key q \<and> nd_active n \<and>
        nd_superseded n = None \<and> nd_version n = 1"
      by (intro exI [of _ "fresh_node nid inp now 1 (next_rowid nd_id rows)"])
        (simp add: q node_request_key_def store_node_request_def upsert_fresh) }
  fix old
  assume "rows_wf nd_id rows"
    and "List.find (\<lambda>r. nd_active r \<and> node_key r = node_request_key q) rows = Some old"
  then show "\<exists>n old'. store_node_request q rows =
        (map (\<lambda>r. if r = old then old' else r) rows @ [n], nd_id n) \<and>
        nd_id n = next_rowid nd_id rows \<and> node_key n = node_request_key q \<and> nd_active n \<and>
        nd_superseded n = None \<and> nd_version n = nd_version old + 1 \<and> nd_id old' = nd_id old \<and>
        node_key old' = node_key old \<and> \<not> nd_active old' \<and> nd_superseded old' = Some (nd_id n) \<and>
        nd_version old' = nd_version old"
    by (intro exI [of _ "fresh_node nid inp now (nd_version old + 1) (next_rowid nd_id rows)"]
        exI [of _ "retired_node (next_rowid nd_id rows) old"])
      (simp add: q node_request_key_def store_node_request_def upsert_supersedes)
qed

lemma upsert_request: "upsert_node_stmt nid inp now rows = store_node_request (nid, inp, now) rows"
  by (simp add: store_node_request_def)

lemma upsert_inv: "node_history_inv rows \<Longrightarrow> node_history_inv (fst (upsert_node_stmt nid inp now rows))"
  unfolding upsert_request by (rule node_history.store_inv)

end
