(* ===== verification/Rlm_Review.thy ===== *)
theory Rlm_Review
  imports Rlm_Nodes Rlm_Queue
begin

text \<open>
  What the node table guarantees: runs of its operations as lists of requests, the revision
  history and the approval gate as properties of runs, staleness, the parent query as a
  reachability problem, and the atomicity of completion.
\<close>

section \<open>Runs of node operations\<close>

datatype node_op =
    Store string millis new_rlm_node
  | Publish string millis string int string string "string list" "string option"
      "string option" "string option" string
  | Review millis string bool string
  | Stale_Hashes row_id "string list"
  | Stale_Subject row_id int string
  | Mark_Pending row_id "row_id list"
  | Clear_Pending row_id "row_id list"

fun node_step :: "node_op \<Rightarrow> rlm_node list \<Rightarrow> rlm_node list" where
  "node_step (Store nid now inp) rows = fst (store_rlm_node nid now inp rows)"
| "node_step (Publish nid now p l s body hs v m t u) rows =
     fst (publish_rlm_node_for_subject nid now p l s body hs v m t u rows)"
| "node_step (Review now nid ok who) rows = fst (review_rlm_node now nid ok who rows)"
| "node_step (Stale_Hashes b hs) rows = fst (mark_rlm_stale_by_hashes b hs rows)"
| "node_step (Stale_Subject b l s) rows = fst (mark_rlm_stale_by_subject b l s rows)"
| "node_step (Mark_Pending b ids) rows = mark_rlm_nodes_pending_vector b ids rows"
| "node_step (Clear_Pending b ids) rows = clear_rlm_nodes_pending_vector b ids rows"

definition node_run :: "node_op list \<Rightarrow> rlm_node list \<Rightarrow> rlm_node list" where
  "node_run ops rows = fold node_step ops rows"

lemma node_run_Nil [simp]: "node_run [] rows = rows"
  by (simp add: node_run_def)

lemma node_run_snoc: "node_run (ops @ [x]) rows = node_step x (node_run ops rows)"
  by (simp add: node_run_def)

text \<open>An update that leaves the history columns alone.\<close>

definition keeps_history :: "(rlm_node \<Rightarrow> rlm_node) \<Rightarrow> bool" where
  "keeps_history f \<longleftrightarrow> (\<forall>r. nd_id (f r) = nd_id r \<and> node_key (f r) = node_key r \<and>
     nd_active (f r) = nd_active r \<and> nd_superseded (f r) = nd_superseded r \<and>
     nd_version (f r) = nd_version r)"

lemma update_history_inv:
  "keeps_history f \<Longrightarrow> node_history_inv rows \<Longrightarrow> node_history_inv (update_where p f rows)"
  by (rule history_inv_update_where) (simp_all add: keeps_history_def)

lemma keeps_history_simps [simp]:
  "keeps_history stale_row"
  "keeps_history (\<lambda>r. r\<lparr>nd_vector := v\<rparr>)"
  "keeps_history (\<lambda>r. r\<lparr>nd_review := st r, nd_reviewed_by := w r, nd_reviewed_at := t r\<rparr>)"
  "keeps_history (\<lambda>r. r\<lparr>nd_review := st r, nd_reviewed_by := w r, nd_reviewed_at := t r,
     nd_confidence := c r\<rparr>)"
  by (simp_all add: keeps_history_def stale_row_def node_key_def)

lemma node_step_inv:
  assumes inv: "node_history_inv rows"
  shows "node_history_inv (node_step x rows)"
proof (cases x)
  case (Store nid now inp)
  then show ?thesis
    by (simp add: store_rlm_node_def case_prod_beta Let_def upsert_inv [OF inv])
next
  case (Publish nid now p l s body hs v m t u)
  then show ?thesis
    using inv by (simp add: publish_rlm_node_for_subject_def case_prod_beta Let_def update_history_inv upsert_inv)
qed (use inv in \<open>auto simp: review_rlm_node_def mark_rlm_stale_by_hashes_def mark_rlm_stale_by_subject_def
      mark_rlm_nodes_pending_vector_def clear_rlm_nodes_pending_vector_def Let_def
      intro: update_history_inv\<close>)

lemma node_run_inv: "node_history_inv rows \<Longrightarrow> node_history_inv (node_run ops rows)"
  by (induction ops rule: rev_induct) (simp_all add: node_run_snoc node_step_inv)

text \<open>No operation writes an epoch.\<close>

definition epoch_zero :: "rlm_node list \<Rightarrow> bool" where
  "epoch_zero rows \<longleftrightarrow> (\<forall>r\<in>set rows. nd_epoch r = 0)"

lemma epoch_update:
  "epoch_zero rows \<Longrightarrow> (\<And>r. nd_epoch (f r) = nd_epoch r) \<Longrightarrow> epoch_zero (update_where p f rows)"
  by (auto simp: epoch_zero_def in_set_update_where)

lemma epoch_upsert:
  assumes "epoch_zero rows"
  shows "epoch_zero (fst (upsert_node_stmt nid inp now rows))"
proof -
  have one: "epoch_zero (xs @ [fresh_node nid inp now v i])" if "epoch_zero xs" for xs v i
    using that by (auto simp: epoch_zero_def)
  show ?thesis
    using assms by (auto simp: upsert_node_stmt_def Let_def split: option.split intro!: epoch_update one)
qed

lemma node_step_epoch:
  assumes "epoch_zero rows"
  shows "epoch_zero (node_step x rows)"
proof (cases x)
  case (Store nid now inp)
  then show ?thesis using assms by (simp add: store_rlm_node_def case_prod_beta epoch_upsert)
next
  case (Publish nid now p l s body hs v m t u)
  then show ?thesis using assms
    by (simp add: publish_rlm_node_for_subject_def case_prod_beta Let_def epoch_update epoch_upsert)
qed (use assms in \<open>auto simp: review_rlm_node_def mark_rlm_stale_by_hashes_def
      mark_rlm_stale_by_subject_def mark_rlm_nodes_pending_vector_def
      clear_rlm_nodes_pending_vector_def Let_def stale_row_def intro!: epoch_update\<close>)

lemma node_run_epoch: "epoch_zero (node_run ops [])"
  by (induction ops rule: rev_induct) (simp_all add: node_run_snoc node_step_epoch epoch_zero_def [of "[]"])

section \<open>The approval gate\<close>

text \<open>The stable ids a run approves: by a positive review or by publication.\<close>

fun approves :: "string \<Rightarrow> node_op \<Rightarrow> bool" where
  "approves nid (Publish nid' now p l s body hs v m t u) = (nid' = nid)"
| "approves nid (Review now nid' ok who) = (nid' = nid \<and> ok)"
| "approves nid _ = False"

definition unapproved :: "string \<Rightarrow> rlm_node list \<Rightarrow> bool" where
  "unapproved nid rows \<longleftrightarrow>
     (\<forall>r\<in>set rows. nd_node_id r = nid \<longrightarrow> nd_review r \<noteq> Review_Approved)"

lemma unapproved_update:
  assumes "unapproved nid rows"
    and "\<And>r. nd_node_id (f r) = nd_node_id r"
    and "\<And>r. r \<in> set rows \<Longrightarrow> nd_node_id r = nid \<Longrightarrow> p r \<Longrightarrow> nd_review (f r) = Review_Approved \<Longrightarrow>
           nd_review r = Review_Approved"
  shows "unapproved nid (update_where p f rows)"
  unfolding unapproved_def
proof (intro ballI impI)
  fix r
  assume "r \<in> set (update_where p f rows)" and r: "nd_node_id r = nid"
  then obtain r0 where r0: "r0 \<in> set rows" "r = (if p r0 then f r0 else r0)"
    by (auto simp: in_set_update_where)
  have "nd_node_id r0 = nid" using r r0(2) assms(2) by (cases "p r0") auto
  moreover from this have "nd_review r0 \<noteq> Review_Approved" using assms(1) r0(1) by (simp add: unapproved_def)
  ultimately show "nd_review r \<noteq> Review_Approved" using assms(3) [of r0] r0 by (cases "p r0") auto
qed

lemma unapproved_upsert:
  assumes "unapproved nid rows"
  shows "unapproved nid (fst (upsert_node_stmt nid' inp now rows))"
proof -
  have one: "unapproved nid (xs @ [fresh_node nid' inp now v i])" if "unapproved nid xs" for xs v i
    using that by (auto simp: unapproved_def)
  show ?thesis
    using assms by (auto simp: upsert_node_stmt_def Let_def split: option.split
        intro!: unapproved_update one)
qed

lemma upsert_new_row:
  assumes wf: "rows_wf nd_id rows" and up: "upsert_node_stmt nid inp now rows = (rows', j)"
    and r: "r \<in> set rows'" "nd_id r = j"
  shows "\<exists>v. r = fresh_node nid inp now v j"
proof -
  have nf: "nd_id x \<noteq> next_rowid nd_id rows" if "x \<in> set rows" for x
    using next_rowid_fresh [OF that, of nd_id] by simp
  show ?thesis
  proof (cases "List.find (\<lambda>r. nd_active r \<and> node_key r = input_key inp) rows")
    case None
    then have "j = next_rowid nd_id rows" "r \<in> set rows \<or> r = fresh_node nid inp now 1 j"
      using up r by (auto simp: upsert_fresh)
    then show ?thesis using nf r(2) by blast
  next
    case (Some old)
    then have "old \<in> set rows" by (auto dest: find_SomeD)
    moreover have j: "j = next_rowid nd_id rows"
      using up Some by (simp add: upsert_supersedes [OF wf Some])
    moreover have "r \<in> set rows \<or> r = retired_node j old \<or>
        r = fresh_node nid inp now (nd_version old + 1) j"
      using up r(1) j by (auto simp: upsert_supersedes [OF wf Some] split: if_splits)
    ultimately show ?thesis using nf r(2) by fastforce
  qed
qed

lemma unapproved_step:
  assumes "unapproved nid rows" and "\<not> approves nid x" and inv: "node_history_inv rows"
  shows "unapproved nid (node_step x rows)"
proof (cases x)
  case (Store nid' now inp)
  then show ?thesis using assms by (simp add: store_rlm_node_def case_prod_beta unapproved_upsert)
next
  case (Publish nid' now p l s body hs v m t u)
  define inp where "inp = \<lparr>nn_buffer = None, nn_project = p, nn_level = l,
                   nn_subject = s, nn_summary = body, nn_hashes = hs,
                   nn_model = m, nn_volunteer = v,
                   nn_created_by = Some u, nn_template = t, nn_tokens = 0\<rparr>"
  obtain rows' j where up: "upsert_node_stmt nid' inp now rows = (rows', j)" by fastforce
  have u: "unapproved nid rows'" using unapproved_upsert [OF assms(1), of nid' inp now] up by simp
  have "nd_node_id r = nid'" if "r \<in> set rows'" "nd_id r = j" for r
    using upsert_new_row [OF _ up that] inv by (auto simp: history_inv_def)
  then have "unapproved nid (update_where (\<lambda>r. nd_id r = j)
            (\<lambda>r. r\<lparr>nd_review := Review_Approved, nd_reviewed_by := Some u,
                   nd_reviewed_at := Some now\<rparr>) rows')"
    using assms(2) Publish by (intro unapproved_update [OF u]) auto
  then show ?thesis using up Publish
    by (simp add: publish_rlm_node_for_subject_def Let_def inp_def)
qed (use assms in \<open>auto simp: review_rlm_node_def mark_rlm_stale_by_hashes_def
      mark_rlm_stale_by_subject_def mark_rlm_nodes_pending_vector_def
      clear_rlm_nodes_pending_vector_def Let_def stale_row_def
      intro!: unapproved_update split: if_splits\<close>)

lemma unapproved_run:
  "node_history_inv rows \<Longrightarrow> unapproved nid rows \<Longrightarrow> \<not> list_ex (approves nid) ops \<Longrightarrow>
     unapproved nid (node_run ops rows)"
proof (induction ops rule: rev_induct)
  case (snoc x ops)
  then show ?case using node_run_inv [of rows ops] by (simp add: node_run_snoc unapproved_step)
qed simp

lemma searchD:
  assumes "r \<in> set (search_rlm_fts fts b q k rows)"
  shows "r \<in> set rows" "nd_review r = Review_Approved" "nd_active r" "\<not> nd_stale r" "nd_buffer r = Some b"
  using assms by (auto simp: search_rlm_fts_def searchable_def)

lemma get_approvedD:
  assumes "get_approved_rlm_nodes ids b rows = Inr rs" "r \<in> set rs"
  shows "r \<in> set rows" "nd_review r = Review_Approved" "nd_active r" "\<not> nd_stale r" "nd_buffer r = Some b"
  using assms by (auto simp: get_approved_rlm_nodes_def searchable_def split: option.splits)

lemma by_subject_find:
  "get_rlm_node_by_subject p l s rows = List.find (\<lambda>r. nd_active r \<and> node_key r = (p, l, s)) rows"
  by (simp add: get_rlm_node_by_subject_def conj_commute)

lemma live_lookup:
  assumes inv: "node_history_inv rows" and r: "r \<in> set rows" "nd_active r" "node_key r = (p, l, s)"
  shows "get_rlm_node_by_subject p l s rows = Some r"
proof -
  have ol: "one_live node_key nd_active rows" using inv by (simp add: history_inv_def)
  show ?thesis
    unfolding by_subject_find
  proof (rule find_unique [OF r(1)])
    fix r' assume "r' \<in> set rows" "nd_active r' \<and> node_key r' = (p, l, s)"
    then show "r' = r" using one_liveD [OF ol _ r(1)] r(2,3) by presburger
  qed (use r in simp)
qed

section \<open>Concrete requests\<close>

definition demo_node :: "string \<Rightarrow> new_rlm_node" where
  "demo_node summary =
     \<lparr>nn_buffer = Some 1, nn_project = ''proj'', nn_level = 1, nn_subject = ''src/a.rs'',
      nn_summary = summary, nn_hashes = [''h1'', ''h2''], nn_model = None,
      nn_volunteer = Some ''ana'', nn_created_by = Some ''ana'', nn_template = None,
      nn_tokens = 12\<rparr>"

definition demo_rows :: "rlm_node list" where
  "demo_rows = node_run [Store ''n1'' 10 (demo_node ''first''), Review 20 ''n1'' True ''boss'',
                         Store ''n2'' 30 (demo_node ''second'')] []"

lemma demo_rows_inv: "node_history_inv demo_rows"
  unfolding demo_rows_def by (rule node_run_inv) simp

section \<open>Revisions\<close>

lemma store_revision:
  assumes "node_history_inv rows" and "store_rlm_node nid now inp rows = (rows', i, nid')"
  shows "nid' = nid \<and> node_history_inv rows' \<and> length rows' = Suc (length rows) \<and>
    (\<exists>n. get_rlm_node_by_subject (nn_project inp) (nn_level inp) (nn_subject inp) rows' = Some n \<and>
       nd_id n = i \<and> n = fresh_node nid inp now (nd_version n) i \<and> nd_review n = Review_Pending \<and>
       nd_version n = (case get_rlm_node_by_subject (nn_project inp) (nn_level inp) (nn_subject inp) rows of
                         None \<Rightarrow> 1 | Some old \<Rightarrow> nd_version old + 1)) \<and>
    filter (\<lambda>r. node_key r \<noteq> input_key inp) rows' = filter (\<lambda>r. node_key r \<noteq> input_key inp) rows"
proof -
  have up: "upsert_node_stmt nid inp now rows = (rows', i)" and "nid' = nid"
    using assms(2) by (auto simp: store_rlm_node_def split: prod.splits)
  have st: "store_node_request (nid, inp, now) rows = (rows', i)" using up by (simp add: upsert_request)
  have k: "node_request_key (nid, inp, now) = (nn_project inp, nn_level inp, nn_subject inp)"
    by (simp add: node_request_key_def input_key_def)
  have wf: "rows_wf nd_id rows" using assms(1) by (simp add: history_inv_def)
  from node_history.store_live [OF assms(1) st] obtain n where
    n: "List.find (\<lambda>r. nd_active r \<and> node_key r = node_request_key (nid, inp, now)) rows' = Some n"
      "nd_id n = i"
      "nd_version n = (case List.find (\<lambda>r. nd_active r \<and> node_key r = node_request_key (nid, inp, now)) rows of
                         None \<Rightarrow> 1 | Some old \<Rightarrow> nd_version old + 1)" by blast
  from n(1) have "n \<in> set rows'" by (auto dest: find_SomeD)
  from upsert_new_row [OF wf up this n(2)] obtain v where v: "n = fresh_node nid inp now v i" by blast
  then have "nd_version n = v" "nd_review n = Review_Pending" by (simp_all only: fresh_node_simps)
  then have "n = fresh_node nid inp now (nd_version n) i \<and> nd_review n = Review_Pending" by (metis v)
  with n have "\<exists>n. get_rlm_node_by_subject (nn_project inp) (nn_level inp) (nn_subject inp) rows' = Some n \<and>
       nd_id n = i \<and> n = fresh_node nid inp now (nd_version n) i \<and> nd_review n = Review_Pending \<and>
       nd_version n = (case get_rlm_node_by_subject (nn_project inp) (nn_level inp) (nn_subject inp) rows of
                         None \<Rightarrow> 1 | Some old \<Rightarrow> nd_version old + 1)"
    unfolding by_subject_find k by blast
  moreover have "node_history_inv rows'" using upsert_inv [OF assms(1), of nid inp now] up by simp
  moreover have "length rows' = Suc (length rows)"
    using node_history.store_length [OF wf, of "(nid, inp, now)"] st by simp
  moreover have "filter (\<lambda>r. node_key r \<noteq> input_key inp) rows' = filter (\<lambda>r. node_key r \<noteq> input_key inp) rows"
    using node_history.store_other_keys [OF wf, of "(nid, inp, now)"] st
    by (simp add: node_request_key_def)
  ultimately show ?thesis using \<open>nid' = nid\<close> by blast
qed

text \<open>
  Storing a summary creates a pending revision that becomes the one live node of its
  subject, numbered one above the revision it replaces (1 for a new subject). Nodes of other
  subjects are untouched, no row is lost, and the history invariant is kept.
\<close>

theorem rlm_store_new_revision:
  assumes "node_history_inv rows" and "store_rlm_node nid now inp rows = (rows', i, nid')"
  shows "nid' = nid \<and> node_history_inv rows' \<and> length rows' = Suc (length rows) \<and>
    (\<exists>n. get_rlm_node_by_subject (nn_project inp) (nn_level inp) (nn_subject inp) rows' = Some n \<and>
       nd_id n = i \<and> n = fresh_node nid inp now (nd_version n) i \<and> nd_review n = Review_Pending \<and>
       nd_version n = (case get_rlm_node_by_subject (nn_project inp) (nn_level inp) (nn_subject inp) rows of
                         None \<Rightarrow> 1 | Some old \<Rightarrow> nd_version old + 1)) \<and>
    filter (\<lambda>r. node_key r \<noteq> input_key inp) rows' = filter (\<lambda>r. node_key r \<noteq> input_key inp) rows"
  by (rule store_revision [OF assms])

lemma rlm_store_new_revision_witness:
  "\<exists>n. get_rlm_node_by_subject ''proj'' 1 ''src/a.rs'' (fst (store_rlm_node ''n3'' 40 (demo_node ''third'') demo_rows)) = Some n
     \<and> nd_review n = Review_Pending"
  using rlm_store_new_revision [OF demo_rows_inv, of "''n3''" 40 "demo_node ''third''"
      "fst (store_rlm_node ''n3'' 40 (demo_node ''third'') demo_rows)"
      "fst (snd (store_rlm_node ''n3'' 40 (demo_node ''third'') demo_rows))"
      "snd (snd (store_rlm_node ''n3'' 40 (demo_node ''third'') demo_rows))"]
  by (auto simp: demo_node_def)

text \<open>
  C15: Walking the history of any stored revision ends. The walk starts at that revision, steps
  along \<open>superseded_by\<close>, stays on its subject, counts versions up by one per step and ends
  at the revision the subject lookup returns.
\<close>

theorem rlm_history_reaches_live:
  assumes "r \<in> set (node_run ops [])"
  shows "\<exists>hs. get_node_history (nd_id r) (node_run ops []) = Some hs \<and> hs \<noteq> [] \<and> hd hs = r \<and>
    is_chain nd_superseded nd_id hs \<and>
    nd_version (last hs) = nd_version r + int (length hs) - 1 \<and>
    get_rlm_node_by_subject (nd_project r) (nd_level r) (nd_subject r) (node_run ops []) = Some (last hs)"
proof -
  let ?rows = "node_run ops []"
  have inv: "node_history_inv ?rows" by (rule node_run_inv) simp
  from history_walk_ends [OF inv assms, of "[]"] obtain hs where
    hs: "history_walk nd_id nd_superseded ?rows (Some (nd_id r)) [] = Some hs" "hs \<noteq> []" "hd hs = r"
      "set hs \<subseteq> set ?rows" "is_chain nd_superseded nd_id hs" "nd_active (last hs)"
      "node_key (last hs) = node_key r" "nd_version (last hs) = nd_version r + int (length hs) - 1"
    by auto
  have l: "last hs \<in> set ?rows" using hs(2,4) by auto
  have "get_rlm_node_by_subject (nd_project r) (nd_level r) (nd_subject r) ?rows = Some (last hs)"
    by (rule live_lookup [OF inv l hs(6)]) (simp add: hs(7) node_key_def [of r])
  then show ?thesis using hs by (auto simp: get_node_history_def)
qed

lemma rlm_history_reaches_live_witness:
  "\<exists>hs. get_node_history (nd_id (hd demo_rows)) demo_rows = Some hs \<and> hd hs = hd demo_rows"
proof -
  have "hd demo_rows \<in> set demo_rows" by code_simp
  from rlm_history_reaches_live [OF this [unfolded demo_rows_def]] show ?thesis
    unfolding demo_rows_def by blast
qed

section \<open>The approval gate on search\<close>

text \<open>
  C10: Neither lexical search nor vector hydration returns a node whose stable id no operation
  of the run approved: everything they return is approved, live, fresh and of the buffer asked
  for, whatever the text index ranks and whatever ids the vector index names.
\<close>

theorem rlm_search_only_approved:
  assumes "\<not> list_ex (approves nid) ops"
    and "r \<in> set (search_rlm_fts fts b q k (node_run ops [])) \<or>
         (\<exists>rs. get_approved_rlm_nodes ids b (node_run ops []) = Inr rs \<and> r \<in> set rs)"
  shows "nd_node_id r \<noteq> nid \<and> nd_review r = Review_Approved \<and> nd_active r \<and> \<not> nd_stale r \<and>
    nd_buffer r = Some b"
proof -
  have "unapproved nid (node_run ops [])"
    by (rule unapproved_run [OF _ _ assms(1)]) (simp_all add: unapproved_def)
  then have no: "nd_node_id r = nid \<Longrightarrow> nd_review r \<noteq> Review_Approved" if "r \<in> set (node_run ops [])" for r
    using that by (simp add: unapproved_def)
  from assms(2) show ?thesis
  proof
    assume "r \<in> set (search_rlm_fts fts b q k (node_run ops []))"
    from searchD [OF this] show ?thesis using no by blast
  next
    assume "\<exists>rs. get_approved_rlm_nodes ids b (node_run ops []) = Inr rs \<and> r \<in> set rs"
    then obtain rs where "get_approved_rlm_nodes ids b (node_run ops []) = Inr rs" "r \<in> set rs" by blast
    from get_approvedD [OF this] show ?thesis using no by blast
  qed
qed

definition demo_ops :: "node_op list" where
  "demo_ops = [Store ''n1'' 10 (demo_node ''first''), Review 20 ''n1'' True ''boss'']"

lemma rlm_search_only_approved_witness:
  "nd_node_id (hd (search_rlm_fts (\<lambda>q. [1, 2]) 1 ''a'' 5 (node_run demo_ops []))) \<noteq> ''n2''"
proof -
  let ?found = "search_rlm_fts (\<lambda>q. [1, 2]) 1 ''a'' 5 (node_run demo_ops [])"
  have "\<not> list_ex (approves ''n2'') demo_ops" by (simp add: demo_ops_def)
  moreover have "length ?found = 1" by code_simp
  then have "hd ?found \<in> set ?found" by (cases ?found) auto
  ultimately show ?thesis using rlm_search_only_approved [of "''n2''" demo_ops "hd ?found"] by blast
qed

text \<open>What a publication leaves behind: the live, approved node, without a buffer.\<close>

lemma publish_live:
  assumes "node_history_inv rows"
    and "publish_rlm_node_for_subject nid now p l s body hs v m t who rows = (rows', i, nid')"
  shows "node_history_inv rows' \<and>
    (\<exists>n. get_rlm_node_by_subject p l s rows' = Some n \<and> nd_id n = i \<and> nd_summary n = body \<and>
       nd_review n = Review_Approved \<and> nd_reviewed_by n = Some who \<and> nd_buffer n = None \<and> nd_hashes n = hs)"
proof -
  define inp where "inp = \<lparr>nn_buffer = None, nn_project = p, nn_level = l,
                   nn_subject = s, nn_summary = body, nn_hashes = hs,
                   nn_model = m, nn_volunteer = v,
                   nn_created_by = Some who, nn_template = t, nn_tokens = 0\<rparr>"
  define ap where "ap = (\<lambda>r::rlm_node. r\<lparr>nd_review := Review_Approved, nd_reviewed_by := Some who,
                   nd_reviewed_at := Some now\<rparr>)"
  obtain rows1 where up: "store_rlm_node nid now inp rows = (rows1, i, nid')"
    and rows': "rows' = update_where (\<lambda>r. nd_id r = i) ap rows1"
    using assms(2) by (auto simp: publish_rlm_node_for_subject_def store_rlm_node_def inp_def ap_def
        Let_def split: prod.splits)
  from store_revision [OF assms(1) up] obtain n where inv1: "node_history_inv rows1"
    and n: "get_rlm_node_by_subject p l s rows1 = Some n" "nd_id n = i"
      "n = fresh_node nid inp now (nd_version n) i"
    by (auto simp: inp_def)
  have n1: "n \<in> set rows1" "nd_active n" "node_key n = (p, l, s)"
    using n(1) by (auto simp: get_rlm_node_by_subject_def dest: find_SomeD)
  obtain ver where nf: "n = fresh_node nid inp now ver i" using n(3) by blast
  have inv': "node_history_inv rows'" unfolding rows' ap_def by (rule update_history_inv [OF _ inv1]) simp
  have ap_in: "ap n \<in> set rows'" unfolding rows' in_set_update_where by (rule bexI [OF _ n1(1)]) (simp add: n(2))
  have ap: "nd_active (ap n)" "node_key (ap n) = (p, l, s)" "nd_id (ap n) = i"
    "nd_summary (ap n) = body" "nd_review (ap n) = Review_Approved" "nd_reviewed_by (ap n) = Some who"
    "nd_buffer (ap n) = None" "nd_hashes (ap n) = hs"
    using n1(2,3) n(2) by (simp_all add: ap_def node_key_def, simp_all add: nf inp_def fresh_node_def)
  have "get_rlm_node_by_subject p l s rows' = Some (ap n)" by (rule live_lookup [OF inv' ap_in ap(1,2)])
  then show ?thesis using inv' ap by blast
qed

text \<open>
  A summary published by the quorum is live and approved, yet no search can return it or any
  other node of its subject: the publication stores it without a buffer, and both searches ask
  for a buffer.
\<close>

theorem rlm_published_never_found:
  assumes "node_history_inv rows"
    and "publish_rlm_node_for_subject nid now p l s body hs v m t who rows = (rows', i, nid')"
  shows "(\<exists>n. get_rlm_node_by_subject p l s rows' = Some n \<and> nd_id n = i \<and> nd_summary n = body \<and>
            nd_review n = Review_Approved \<and> nd_reviewed_by n = Some who \<and> nd_buffer n = None)
    \<and> (\<forall>r\<in>set (search_rlm_fts fts b q k rows'). node_key r \<noteq> (p, l, s))
    \<and> (\<forall>rs r. get_approved_rlm_nodes ids b rows' = Inr rs \<longrightarrow> r \<in> set rs \<longrightarrow> node_key r \<noteq> (p, l, s))"
proof -
  from publish_live [OF assms] obtain n where inv: "node_history_inv rows'"
    and n: "get_rlm_node_by_subject p l s rows' = Some n" "nd_id n = i" "nd_summary n = body"
      "nd_review n = Review_Approved" "nd_reviewed_by n = Some who" "nd_buffer n = None" by blast
  have other: "node_key r \<noteq> (p, l, s)" if "r \<in> set rows'" "nd_active r" "nd_buffer r = Some b" for r
  proof
    assume "node_key r = (p, l, s)"
    then have "r = n" using live_lookup [OF inv that(1,2)] n(1) by simp
    then show False using that(3) n(6) by simp
  qed
  have "node_key r \<noteq> (p, l, s)" if "r \<in> set (search_rlm_fts fts b q k rows')" for r
    by (rule other) (use searchD [OF that] in auto)
  moreover have "node_key r \<noteq> (p, l, s)"
    if "get_approved_rlm_nodes ids b rows' = Inr rs" "r \<in> set rs" for rs r
    by (rule other) (use get_approvedD [OF that] in auto)
  ultimately show ?thesis using n by blast
qed

definition published_rows :: "rlm_node list" where
  "published_rows = fst (publish_rlm_node_for_subject ''n3'' 50 ''proj'' 1 ''src/a.rs'' ''fused'' [] None
     None None ''quorum'' demo_rows)"

lemma rlm_published_never_found_witness:
  "\<exists>n. get_rlm_node_by_subject ''proj'' 1 ''src/a.rs'' published_rows = Some n \<and>
     nd_review n = Review_Approved \<and> nd_buffer n = None"
  using rlm_published_never_found [OF demo_rows_inv, of "''n3''" 50 "''proj''" 1 "''src/a.rs''" "''fused''" "[]" None None None "''quorum''"]
  unfolding published_rows_def by (metis prod.collapse)

section \<open>Staleness\<close>

text \<open>
  Marking by changed hashes returns exactly the fresh nodes of the buffer that recorded one of
  them, makes each stale with confidence 0, changes nothing else, and leaves no fresh node of
  that buffer resting on a changed hash; a second marking finds nothing.
\<close>

theorem rlm_stale_by_hashes_exact:
  assumes "mark_rlm_stale_by_hashes b changed rows = (rows', affected)"
  shows "affected = map (\<lambda>r. (nd_id r, node_key r)) (filter (hit_by_hashes b changed) rows) \<and>
    rows' = map (\<lambda>r. if hit_by_hashes b changed r then r\<lparr>nd_stale := True, nd_confidence := 0\<rparr> else r) rows \<and>
    (\<forall>r\<in>set rows'. nd_buffer r = Some b \<longrightarrow> \<not> nd_stale r \<longrightarrow> set (nd_hashes r) \<inter> set changed = {}) \<and>
    mark_rlm_stale_by_hashes b changed rows' = (rows', [])"
proof (intro conjI ballI impI)
  have nil: "\<not> hit_by_hashes b [] r" for r by (simp add: hit_by_hashes_def list_ex_iff)
  have none: "update_where (hit_by_hashes b changed) stale_row rows = rows"
    if "filter (hit_by_hashes b changed) rows = []"
    using that by (intro update_where_id) (simp add: filter_empty_conv)
  show aff: "affected = map (\<lambda>r. (nd_id r, node_key r)) (filter (hit_by_hashes b changed) rows)"
    using assms nil by (auto simp: mark_rlm_stale_by_hashes_def Let_def split: if_splits)
  have rows': "rows' = update_where (hit_by_hashes b changed) stale_row rows"
    using assms nil none by (auto simp: mark_rlm_stale_by_hashes_def Let_def update_where_def split: if_splits)
  then show "rows' = map (\<lambda>r. if hit_by_hashes b changed r then r\<lparr>nd_stale := True, nd_confidence := 0\<rparr> else r) rows"
    by (simp add: update_where_def stale_row_def)
  have clean: "\<not> hit_by_hashes b changed r" if "r \<in> set rows'" for r
  proof -
    from that obtain r' where "r = (if hit_by_hashes b changed r' then stale_row r' else r')"
      unfolding rows' by (auto simp: in_set_update_where)
    then show ?thesis
      by (cases "hit_by_hashes b changed r'") (simp_all add: hit_by_hashes_def stale_row_def)
  qed
  then show "mark_rlm_stale_by_hashes b changed rows' = (rows', [])"
    by (simp add: mark_rlm_stale_by_hashes_def Let_def)
  show "set (nd_hashes r) \<inter> set changed = {}" if "r \<in> set rows'" "nd_buffer r = Some b" "\<not> nd_stale r" for r
    using clean [OF that(1)] that(2,3) by (auto simp: hit_by_hashes_def list_ex_iff)
qed

lemma rlm_stale_by_hashes_exact_witness:
  "mark_rlm_stale_by_hashes 1 [''h2''] (fst (mark_rlm_stale_by_hashes 1 [''h2''] demo_rows)) =
     (fst (mark_rlm_stale_by_hashes 1 [''h2''] demo_rows), []) \<and>
   length (snd (mark_rlm_stale_by_hashes 1 [''h2''] demo_rows)) = 2"
  using rlm_stale_by_hashes_exact [of 1 "[''h2'']" demo_rows "fst (mark_rlm_stale_by_hashes 1 [''h2''] demo_rows)"
      "snd (mark_rlm_stale_by_hashes 1 [''h2''] demo_rows)"]
  by (intro conjI) (blast intro: prod.collapse [symmetric], code_simp)

section \<open>The parent chain\<close>

definition depends_on :: "rlm_edge list \<Rightarrow> (row_id \<times> row_id) set" where
  "depends_on edges = {(c, p). \<exists>e\<in>set edges. ed_child e = Some c \<and> ed_parent e = p}"

text \<open>
  The queue holds exactly the seen ids whose parents are still to be added: closed behind it,
  reachable before it.
\<close>

lemma up_loop_sound:
  assumes "set queue \<subseteq> set seen" and "set seen \<subseteq> R" 
    and step: "\<And>c p. c \<in> R \<Longrightarrow> (c, p) \<in> depends_on edges \<Longrightarrow> p \<in> R"
  shows "set (up_loop edges queue seen) \<subseteq> R"
  using assms
proof (induction edges queue seen rule: up_loop.induct)
  case (2 edges i queue seen)
  note step = 2(4)
  have "p \<in> R" if "p \<in> set (new_parents i edges seen)" for p
  proof -
    have "i \<in> R" using 2(2,3) by auto
    moreover have "(i, p) \<in> depends_on edges" using that by (auto simp: new_parents_set depends_on_def)
    ultimately show ?thesis by (rule step)
  qed
  then have "set (up_loop edges (queue @ new_parents i edges seen) (seen @ new_parents i edges seen)) \<subseteq> R"
    using 2(2,3) by (intro 2(1) [OF refl]) (auto intro: step)
  then show ?case by (simp add: Let_def)
qed simp

lemma up_loop_closed:
  assumes "set queue \<subseteq> set seen"
    and "\<And>c p. c \<in> set seen - set queue \<Longrightarrow> (c, p) \<in> depends_on edges \<Longrightarrow> p \<in> set seen"
  shows "set seen \<subseteq> set (up_loop edges queue seen) \<and>
    (\<forall>c\<in>set (up_loop edges queue seen). \<forall>p. (c, p) \<in> depends_on edges \<longrightarrow> p \<in> set (up_loop edges queue seen))"
  using assms
proof (induction edges queue seen rule: up_loop.induct)
  case (1 edges seen)
  then show ?case by simp
next
  case (2 edges i queue seen)
  let ?new = "new_parents i edges seen"
  have new: "p \<in> set seen \<union> set ?new" if "(i, p) \<in> depends_on edges" for p
    using that by (auto simp: new_parents_set depends_on_def)
  have "set (queue @ ?new) \<subseteq> set (seen @ ?new)" using 2(2) by auto
  moreover have "p \<in> set (seen @ ?new)"
    if "c \<in> set (seen @ ?new) - set (queue @ ?new)" "(c, p) \<in> depends_on edges" for c p
    using that new 2(3) [of c p] by (cases "c = i") auto
  ultimately show ?case using 2(1) [OF refl] by (simp add: Let_def)
qed

lemma up_loop_distinct: "distinct seen \<Longrightarrow> distinct (up_loop edges queue seen)"
proof (induction edges queue seen rule: up_loop.induct)
  case (2 edges i queue seen)
  then show ?case by (simp add: Let_def new_parents_distinct new_parents_set)
qed simp

lemma up_loop_reach: "set (up_loop edges ids ids) = (depends_on edges)\<^sup>* `` set ids"
proof (intro equalityI)
  show "set (up_loop edges ids ids) \<subseteq> (depends_on edges)\<^sup>* `` set ids"
    by (rule up_loop_sound) (auto intro: rtrancl_into_rtrancl)
  have cl: "set ids \<subseteq> set (up_loop edges ids ids) \<and>
      (\<forall>c\<in>set (up_loop edges ids ids). \<forall>p. (c, p) \<in> depends_on edges \<longrightarrow> p \<in> set (up_loop edges ids ids))"
    by (rule up_loop_closed) auto
  have "p \<in> set (up_loop edges ids ids)" if "(c, p) \<in> (depends_on edges)\<^sup>*" "c \<in> set ids" for c p
    using that by (induction rule: rtrancl_induct) (use cl in blast)+
  then show "(depends_on edges)\<^sup>* `` set ids \<subseteq> set (up_loop edges ids ids)" by blast
qed

lemma rlm_parent_chain_reach:
  "distinct (rlm_parent_chain ids edges) \<and>
   set (rlm_parent_chain ids edges) = (depends_on edges)\<^sup>+ `` set ids - set ids"
proof -
  have "(depends_on edges)\<^sup>* `` set ids - set ids = (depends_on edges)\<^sup>+ `` set ids - set ids"
    by (auto simp: rtrancl_eq_or_trancl)
  then show ?thesis
    using up_loop_reach [of edges "remdups ids"] up_loop_distinct [of "remdups ids" edges "remdups ids"]
    by (auto simp: rlm_parent_chain_def)
qed

text \<open>
  The recursive query terminates, cycles in the graph included, and returns without
  repetition exactly the nodes that depend on the given ones through one or more provenance
  edges, the given ones left out.
\<close>

theorem rlm_parent_chain_reachability:
  "distinct (rlm_parent_chain ids edges) \<and>
   set (rlm_parent_chain ids edges) = (depends_on edges)\<^sup>+ `` set ids - set ids"
  by (rule rlm_parent_chain_reach)

text \<open>
  A provenance edge is recorded only with exactly one source that exists, and a repeated
  request records it again: \<open>INSERT OR IGNORE\<close> never ignores, because every key holds a
  \<open>NULL\<close>. The parent query is unaffected by the repetition.
\<close>

theorem rlm_edge_repeats:
  assumes "add_rlm_edge parent child chunk nodes chunk_ids edges = Inr edges'"
  shows "edges' = edges @ [\<lparr>ed_parent = parent, ed_child = child, ed_chunk = chunk\<rparr>] \<and>
    (child = None) \<noteq> (chunk = None) \<and>
    (\<exists>n\<in>set nodes. nd_id n = parent) \<and> (\<forall>c. child = Some c \<longrightarrow> (\<exists>n\<in>set nodes. nd_id n = c)) \<and>
    (\<forall>c. chunk = Some c \<longrightarrow> c \<in> set chunk_ids) \<and>
    (\<exists>edges2. add_rlm_edge parent child chunk nodes chunk_ids edges' = Inr edges2 \<and>
       length edges2 = length edges + 2 \<and>
       set (rlm_parent_chain ids edges2) = set (rlm_parent_chain ids edges'))"
proof -
  let ?e = "\<lparr>ed_parent = parent, ed_child = child, ed_chunk = chunk\<rparr>"
  have one: "(child \<noteq> None) \<noteq> (chunk \<noteq> None)" using assms by (auto simp: add_rlm_edge_def Let_def split: if_splits)
  then have nc: "\<not> list_ex (edge_conflict ?e) es" for es by (auto simp: list_ex_iff edge_conflict_def)
  have ex: "parent \<in> set (map nd_id nodes)"
    "case child of Some c \<Rightarrow> c \<in> set (map nd_id nodes) | None \<Rightarrow> True"
    "case chunk of Some c \<Rightarrow> c \<in> set chunk_ids | None \<Rightarrow> True"
    using assms one nc by (auto simp: add_rlm_edge_def Let_def split: if_splits)
  then have go: "add_rlm_edge parent child chunk nodes chunk_ids es = Inr (es @ [?e])" for es
    using one nc by (simp add: add_rlm_edge_def Let_def)
  have "depends_on (edges @ [?e] @ [?e]) = depends_on (edges @ [?e])"
    by (auto simp: depends_on_def)
  then have "set (rlm_parent_chain ids (edges @ [?e] @ [?e])) = set (rlm_parent_chain ids (edges @ [?e]))"
    using rlm_parent_chain_reach by presburger
  moreover have "edges' = edges @ [?e]" using assms go by simp
  moreover have "add_rlm_edge parent child chunk nodes chunk_ids (edges @ [?e]) = Inr (edges @ [?e] @ [?e])"
    using go by simp
  ultimately show ?thesis using one ex by (auto split: option.splits)
qed

lemma rlm_edge_repeats_witness:
  "\<exists>edges2. add_rlm_edge 2 (Some 1) None demo_rows [] [\<lparr>ed_parent = 2, ed_child = Some 1, ed_chunk = None\<rparr>] = Inr edges2
     \<and> length edges2 = 2"
proof -
  have "add_rlm_edge 2 (Some 1) None demo_rows [] [] = Inr [\<lparr>ed_parent = 2, ed_child = Some 1, ed_chunk = None\<rparr>]"
    by code_simp
  from rlm_edge_repeats [OF this] show ?thesis by (auto simp: numeral_2_eq_2)
qed

section \<open>Completion and time travel\<close>

text \<open>
  C9: Completing a job with its summary is all or nothing. When the caller still owns the lease
  of a claimed job, the job is done, no other job changes, and the summary is the live pending
  node of its subject; otherwise neither table changes.
\<close>

theorem rlm_complete_with_node_atomic:
  assumes "jobs_inv (jobs db)" and "node_history_inv nodes" and "r \<in> set (jobs db)" and "jb_id r = job"
    and "complete_rlm_job_with_node now now' nid job w g inp (db, nodes) = ((db', nodes'), res)"
  shows "if jb_status r = Claimed \<and> jb_claimed_by r = Some w \<and> jb_generation r = g \<and>
            (\<exists>l. jb_lease r = Some l \<and> now \<le> l)
    then jobs db' = map (\<lambda>s. if s = r then s\<lparr>jb_status := Done, jb_updated := now'\<rparr> else s) (jobs db) \<and>
      exclusions db' = exclusions db \<and> node_history_inv nodes' \<and>
      (\<exists>i n. res = Some (i, nid) \<and> nd_id n = i \<and> nd_node_id n = nid \<and> nd_summary n = nn_summary inp \<and>
         nd_review n = Review_Pending \<and>
         get_rlm_node_by_subject (nn_project inp) (nn_level inp) (nn_subject inp) nodes' = Some n)
    else db' = db \<and> nodes' = nodes \<and> res = None"
proof -
  have wf: "rows_wf jb_id (jobs db)" by (rule jobs_invD(1) [OF assms(1)])
  have same: "s = r" if "s \<in> set (jobs db)" "jb_id s = job" for s
    using rows_wf_inj [OF wf that(1) assms(3)] that(2) assms(4) by simp
  show ?thesis
  proof (cases "jb_status r = Claimed \<and> lease_valid now w g r")
    case True
    then have f: "List.find (\<lambda>r. jb_id r = job \<and> jb_status r = Claimed) (jobs db) = Some r"
      using assms(4) same by (intro find_unique [OF assms(3)]) simp_all
    obtain rows i where up: "upsert_node_stmt nid inp now' nodes = (rows, i)" by fastforce
    have st: "store_rlm_node nid now' inp nodes = (rows, i, nid)" using up by (simp add: store_rlm_node_def)
    from assms(5) have res: "db' = db\<lparr>jobs := update_where (\<lambda>r. jb_id r = job) (done_row now') (jobs db)\<rparr>"
      "nodes' = rows" "res = Some (i, nid)"
      using True by (auto simp: complete_rlm_job_with_node_def f up Let_def)
    have "map (\<lambda>s. if jb_id s = job then done_row now' s else s) (jobs db) =
        map (\<lambda>s. if s = r then s\<lparr>jb_status := Done, jb_updated := now'\<rparr> else s) (jobs db)"
    proof (rule map_cong [OF refl])
      fix s assume "s \<in> set (jobs db)"
      then have "(jb_id s = job) = (s = r)" using same assms(4) by blast
      then show "(if jb_id s = job then done_row now' s else s) =
          (if s = r then s\<lparr>jb_status := Done, jb_updated := now'\<rparr> else s)"
        by (simp only: done_row_def)
    qed
    moreover from store_revision [OF assms(2) st] obtain n where
      "node_history_inv rows" "nd_id n = i" "n = fresh_node nid inp now' (nd_version n) i"
      "get_rlm_node_by_subject (nn_project inp) (nn_level inp) (nn_subject inp) rows = Some n" by blast
    moreover from this(3) have "nd_node_id n = nid" "nd_summary n = nn_summary inp" "nd_review n = Review_Pending"
      by (metis fresh_node_simps)+
    ultimately show ?thesis
      using True res by (auto simp: lease_valid_def update_where_def split: option.splits)
  next
    case False
    then have "db' = db \<and> nodes' = nodes \<and> res = None"
      using assms(5) same by (auto simp: complete_rlm_job_with_node_def Let_def dest!: find_SomeD
          split: option.splits if_splits prod.splits)
    then show ?thesis using False by (auto simp: lease_valid_def)
  qed
qed

text \<open>
  Reading a subject as of an epoch always yields its newest revision: no operation writes the
  epoch column, so every row carries epoch 0 and the bound excludes nothing.
\<close>

theorem rlm_as_of_is_newest:
  assumes "0 \<le> epoch"
  shows "get_rlm_node_as_of p l s epoch (node_run ops []) = get_rlm_node_by_subject p l s (node_run ops [])"
proof -
  let ?rows = "node_run ops []"
  let ?mine = "filter (\<lambda>r. node_key r = (p, l, s) \<and> nd_epoch r \<le> epoch) ?rows"
  let ?sorted = "sort_key (\<lambda>r. (- nd_epoch r, - nd_id r)) ?mine"
  have inv: "node_history_inv ?rows" by (rule node_run_inv) simp
  have e0: "nd_epoch r = 0" if "r \<in> set ?rows" for r using node_run_epoch that by (auto simp: epoch_zero_def)
  show ?thesis
  proof (cases ?sorted)
    case Nil
    have "set ?mine = set ?sorted" by (simp only: set_sort)
    then have "?mine = []" by (simp only: Nil list.set set_empty)
    then have "\<not> (nd_active r \<and> node_key r = (p, l, s))" if "r \<in> set ?rows" for r
      using that e0 [OF that] assms by (auto simp: filter_empty_conv)
    then have "List.find (\<lambda>r. nd_active r \<and> node_key r = (p, l, s)) ?rows = None"
      unfolding find_None_iff by blast
    then show ?thesis using Nil by (simp add: get_rlm_node_as_of_def by_subject_find)
  next
    case (Cons r rs)
    have "set ?sorted = set ?mine" by simp
    then have r: "r \<in> set ?rows" "node_key r = (p, l, s)" unfolding Cons by auto
    have newest: "nd_id x \<le> nd_id r" if "x \<in> set ?rows" "node_key x = (p, l, s)" for x
    proof -
      have "x \<in> set ?mine" using that e0 assms by auto
      then have "x \<in> set (r # rs)" using \<open>set ?sorted = set ?mine\<close> Cons by metis
      moreover have "sorted (map (\<lambda>r. (- nd_epoch r, - nd_id r)) (r # rs))"
        using sorted_sort_key [of "\<lambda>r. (- nd_epoch r, - nd_id r)" ?mine] Cons by metis
      ultimately show ?thesis using e0 [OF that(1)] e0 [OF r(1)] by auto
    qed
    have lk: "linked nd_id node_key nd_active nd_superseded nd_version ?rows r"
      using inv r(1) by (simp add: history_inv_def)
    have "nd_active r"
      using lk newest r(2) unfolding linked_def by (cases "nd_superseded r") fastforce+
    from live_lookup [OF inv r(1) this r(2)] show ?thesis using Cons by (simp add: get_rlm_node_as_of_def)
  qed
qed

lemma rlm_as_of_is_newest_witness:
  "get_rlm_node_as_of ''proj'' 1 ''src/a.rs'' 0 demo_rows = get_rlm_node_by_subject ''proj'' 1 ''src/a.rs'' demo_rows"
  unfolding demo_rows_def using rlm_as_of_is_newest [of 0] by simp

lemma rlm_complete_with_node_atomic_witness:
  "snd (complete_rlm_job_with_node 20 21 ''n9'' 1 ''ann'' 0 (demo_node ''done'') (demo_queue, demo_rows)) \<noteq> None \<and>
   fst (complete_rlm_job_with_node 20 21 ''n9'' 1 ''bob'' 0 (demo_node ''done'') (demo_queue, demo_rows)) = (demo_queue, demo_rows)"
proof -
  have r: "demo_claimed \<in> set (jobs demo_queue)" "jb_id demo_claimed = 1"
    by (simp_all add: demo_queue_jobs demo_claimed_def)
  note at = rlm_complete_with_node_atomic [OF queue_reachable_inv [OF demo_queue_reachable] demo_rows_inv r]
  have c: "jb_status demo_claimed = Claimed" "jb_claimed_by demo_claimed = Some ''ann''"
    "jb_generation demo_claimed = 0" "\<exists>l. jb_lease demo_claimed = Some l \<and> 20 \<le> l"
    by (simp_all add: demo_claimed_def)
  have "res \<noteq> None"
    if "complete_rlm_job_with_node 20 21 ''n9'' 1 ''ann'' 0 (demo_node ''done'') (demo_queue, demo_rows) = ((d, n), res)"
    for d n res
    using at [OF that] c by auto
  moreover have "d = demo_queue \<and> n = demo_rows"
    if "complete_rlm_job_with_node 20 21 ''n9'' 1 ''bob'' 0 (demo_node ''done'') (demo_queue, demo_rows) = ((d, n), res)"
    for d n res
    using at [OF that] c by simp
  ultimately show ?thesis by (metis prod.collapse)
qed

end
