(* ===== verification/Similarity.thy ===== *)
theory Similarity
  imports Prelude
begin

text \<open>
  Similarity of embeddings and of id sets
  (\<^verbatim>\<open>crates/arags-search/src/qa_cache.rs\<close>). An embedding is a list of reals. Lemmas: the
  Cauchy-Schwarz bound, so the final clamp of the cosine never acts on exact values; symmetry;
  range; the values 0 and 1.
\<close>

type_synonym embedding = "real list"

definition dot :: "embedding \<Rightarrow> embedding \<Rightarrow> real" where
  "dot a b = sum_list (map (\<lambda>(x, y). x * y) (zip a b))"

definition norm_of :: "embedding \<Rightarrow> real" where
  "norm_of a = sqrt (sum_list (map (\<lambda>x. x * x) a))"

definition clamp :: "real \<Rightarrow> real \<Rightarrow> real \<Rightarrow> real" where
  "clamp lo hi x = (if x < lo then lo else if hi < x then hi else x)"

definition cosine_similarity :: "embedding \<Rightarrow> embedding \<Rightarrow> real" where
  "cosine_similarity a b =
     (if length a \<noteq> length b \<or> a = [] then 0
      else let na = norm_of a; nb = norm_of b in
           if na = 0 \<or> nb = 0 then 0 else clamp (- 1) 1 (dot a b / (na * nb)))"

definition jaccard_similarity :: "string list \<Rightarrow> string list \<Rightarrow> real" where
  "jaccard_similarity a b =
     (if a = [] \<and> b = [] then 0
      else let inter = card (set a \<inter> set b); union = card (set a \<union> set b) in
           if union = 0 then 0 else real inter / real union)"

section \<open>Inner products\<close>

lemma dot_Nil [simp]: "dot [] b = 0" "dot a [] = 0"
  by (simp_all add: dot_def)

lemma dot_Cons [simp]: "dot (x # a) (y # b) = x * y + dot a b"
  by (simp add: dot_def)

lemma dot_sym: "dot a b = dot b a"
proof (induction a arbitrary: b)
  case (Cons x a)
  then show ?case by (cases b) (simp_all add: mult.commute)
qed simp

lemma dot_self_nonneg: "0 \<le> dot a a"
  by (induction a) simp_all

lemma norm_of_dot: "norm_of a = sqrt (dot a a)"
proof -
  have "sum_list (map (\<lambda>x. x * x) a) = dot a a" by (induction a) simp_all
  then show ?thesis by (simp add: norm_of_def)
qed

lemma norm_of_nonneg [simp]: "0 \<le> norm_of a"
  by (simp add: norm_of_dot dot_self_nonneg)

lemma norm_sq: "norm_of a * norm_of a = dot a a"
  by (simp add: norm_of_dot dot_self_nonneg)

lemma cauchy_schwarz:
  "length a = length b \<Longrightarrow> (dot a b)\<^sup>2 \<le> dot a a * dot b b"
proof (induction a b rule: list_induct2)
  case (Cons x a y b)
  define A B d where "A = dot a a" and "B = dot b b" and "d = dot a b"
  have AB: "0 \<le> A" "0 \<le> B" by (simp_all add: A_def B_def dot_self_nonneg)
  have ih: "d\<^sup>2 \<le> A * B" using Cons.IH by (simp add: A_def B_def d_def)
  have "2 * (x * y * d) \<le> x\<^sup>2 * B + y\<^sup>2 * A"
  proof (rule power2_le_imp_le)
    have "(2 * (x * y * d))\<^sup>2 = 4 * (x\<^sup>2 * y\<^sup>2) * d\<^sup>2" by (simp add: power2_eq_square)
    also have "\<dots> \<le> 4 * (x\<^sup>2 * y\<^sup>2) * (A * B)" by (rule mult_left_mono [OF ih]) simp
    also have "\<dots> \<le> 4 * (x\<^sup>2 * y\<^sup>2) * (A * B) + (x\<^sup>2 * B - y\<^sup>2 * A)\<^sup>2" by simp
    also have "\<dots> = (x\<^sup>2 * B + y\<^sup>2 * A)\<^sup>2" by (simp add: power2_eq_square algebra_simps)
    finally show "(2 * (x * y * d))\<^sup>2 \<le> (x\<^sup>2 * B + y\<^sup>2 * A)\<^sup>2" .
  qed (simp add: AB)
  then show ?case using ih
    by (simp add: A_def [symmetric] B_def [symmetric] d_def [symmetric] power2_eq_square algebra_simps)
qed simp

lemma dot_le_norms: "length a = length b \<Longrightarrow> \<bar>dot a b\<bar> \<le> norm_of a * norm_of b"
proof -
  assume l: "length a = length b"
  have "(dot a b)\<^sup>2 \<le> (norm_of a * norm_of b)\<^sup>2"
    using cauchy_schwarz [OF l] by (simp add: power_mult_distrib norm_of_dot dot_self_nonneg)
  then show ?thesis by (metis abs_le_square_iff abs_of_nonneg mult_nonneg_nonneg norm_of_nonneg)
qed

section \<open>Cosine similarity\<close>

lemma clamp_range [range_intros]: "lo \<le> hi \<Longrightarrow> lo \<le> clamp lo hi x \<and> clamp lo hi x \<le> hi"
  by (simp add: clamp_def)

lemma clamp_id: "\<bar>x\<bar> \<le> 1 \<Longrightarrow> clamp (- 1) 1 x = x"
  by (simp add: clamp_def abs_le_iff)

lemma cosine_sym: "cosine_similarity a b = cosine_similarity b a"
  by (auto simp: cosine_similarity_def Let_def dot_sym [of a b] mult.commute)

lemma cosine_range: "- 1 \<le> cosine_similarity a b \<and> cosine_similarity a b \<le> 1"
  using clamp_range [of "- 1" 1] by (simp add: cosine_similarity_def Let_def)

lemma cosine_unclamped:
  assumes "length a = length b" and "norm_of a \<noteq> 0" "norm_of b \<noteq> 0"
  shows "cosine_similarity a b = dot a b / (norm_of a * norm_of b)"
proof -
  have pos: "0 < norm_of a * norm_of b"
    using assms(2,3) norm_of_nonneg [of a] norm_of_nonneg [of b] by (simp add: less_le)
  have "\<bar>dot a b / (norm_of a * norm_of b)\<bar> \<le> 1"
    using dot_le_norms [OF assms(1)] pos by (simp add: abs_mult)
  moreover have "a \<noteq> []" using assms(2) by (auto simp: norm_of_def)
  ultimately show ?thesis
    using assms clamp_id [of "dot a b / (norm_of a * norm_of b)"]
    by (simp add: cosine_similarity_def Let_def)
qed

lemma cosine_self: "norm_of a \<noteq> 0 \<Longrightarrow> cosine_similarity a a = 1"
  by (simp add: cosine_unclamped norm_sq) (metis norm_sq mult_eq_0_iff)

section \<open>Jaccard similarity\<close>

lemma jaccard_sym: "jaccard_similarity a b = jaccard_similarity b a"
  by (auto simp: jaccard_similarity_def Let_def Int_commute Un_commute)

lemma jaccard_range: "0 \<le> jaccard_similarity a b \<and> jaccard_similarity a b \<le> 1"
proof -
  have "card (set a \<inter> set b) \<le> card (set a \<union> set b)" by (rule card_mono) auto
  then show ?thesis by (auto simp: jaccard_similarity_def Let_def divide_le_eq_1)
qed

lemma jaccard_one_iff: "jaccard_similarity a b = 1 \<longleftrightarrow> a \<noteq> [] \<and> set a = set b"
proof -
  have "card (set a \<inter> set b) = card (set a \<union> set b) \<longleftrightarrow> set a = set b"
  proof
    assume "card (set a \<inter> set b) = card (set a \<union> set b)"
    then have "set a \<inter> set b = set a \<union> set b" by (intro card_subset_eq) auto
    then show "set a = set b" by blast
  qed simp
  then show ?thesis by (auto simp: jaccard_similarity_def Let_def card_eq_0_iff)
qed

lemma jaccard_zero_iff: "jaccard_similarity a b = 0 \<longleftrightarrow> set a \<inter> set b = {}"
  by (auto simp: jaccard_similarity_def Let_def card_eq_0_iff)

end
