(* ===== verification/Clique.thy ===== *)
theory Clique
  imports Similarity Submissions
begin

text \<open>
  The numerical core of the quorum
  (\<^verbatim>\<open>crates/arags-server/src/quorum.rs\<close>): the largest agreeing set of candidates, the
  consensus vector and the choice of the published candidate. The search runs over bit masks
  in a 32-bit word; in the release profile a shift by 32 or more uses the amount modulo 32,
  and the model writes that out. Lemmas: the search returns a largest agreeing set, of
  greatest least similarity among those, for up to 31 candidates.
\<close>

section \<open>The clique search\<close>

definition mask_members :: "nat \<Rightarrow> nat \<Rightarrow> nat list" where
  "mask_members n bm = filter (\<lambda>i. odd (bm div 2 ^ (i mod 32))) [0..<n]"

text \<open>The pairs \<open>a < b\<close> of the two inner loops, in their order.\<close>

fun member_pairs :: "nat list \<Rightarrow> (nat \<times> nat) list" where
  "member_pairs [] = []"
| "member_pairs (x # xs) = map (Pair x) xs @ member_pairs xs"

text \<open>The running minimum; \<^const>\<open>None\<close> is positive infinity.\<close>

fun min_sim :: "real list \<Rightarrow> real option" where
  "min_sim [] = None"
| "min_sim (x # xs) = Some (case min_sim xs of None \<Rightarrow> x | Some m \<Rightarrow> min x m)"

definition pair_sims :: "real list list \<Rightarrow> nat list \<Rightarrow> real list" where
  "pair_sims sims members = map (\<lambda>(i, j). sims ! i ! j) (member_pairs members)"

text \<open>\<open>min_sim > best_min\<close>, with \<open>best_min\<close> negative infinity at first.\<close>

definition denser :: "real option \<Rightarrow> real option \<Rightarrow> bool" where
  "denser m best \<longleftrightarrow>
     (case best of None \<Rightarrow> True | Some b \<Rightarrow> (case m of None \<Rightarrow> True | Some x \<Rightarrow> b < x))"

definition consider_mask ::
  "real list list \<Rightarrow> real \<Rightarrow> nat \<Rightarrow> nat \<Rightarrow> nat list \<times> nat \<times> real option
     \<Rightarrow> nat list \<times> nat \<times> real option" where
  "consider_mask sims threshold n bm st =
     (let (best, best_size, best_min) = st; members = mask_members n bm in
      if length members < 2 then st
      else let ss = pair_sims sims members;
               ok = \<not> list_ex (\<lambda>s. s < threshold) ss;
               m = min_sim ss
           in if ok \<and> (best_size < length members
                        \<or> length members = best_size \<and> denser m best_min)
              then (members, length members, m) else st)"

definition best_agreeing_clique :: "real list list \<Rightarrow> real \<Rightarrow> nat list" where
  "best_agreeing_clique sims threshold =
     (let n = length sims in
      if n < 2 then []
      else fst (fold (consider_mask sims threshold n) [1..<2 ^ (n mod 32)] ([], 0, None)))"

section \<open>Consensus vector and published candidate\<close>

text \<open>
  \<open>centroid\<close> adds the agreeing vectors in place. All vectors come from one embedder and
  have its dimension, so the indexing stays in range.
\<close>

definition add_into :: "embedding \<Rightarrow> embedding \<Rightarrow> embedding" where
  "add_into acc v = map (\<lambda>d. acc ! d + v ! d) [0..<length acc]"

definition centroid :: "nat list \<Rightarrow> embedding list \<Rightarrow> embedding" where
  "centroid agreeing vectors =
     (let dims = (case vectors of [] \<Rightarrow> 0 | v # _ \<Rightarrow> length v);
          acc = fold (\<lambda>i acc. add_into acc (vectors ! i)) agreeing (replicate dims 0)
      in map (\<lambda>x. x / real (max 1 (length agreeing))) acc)"

datatype fusion_strategy = Consensus | Average | Longest

text \<open>\<open>trust\<close> maps volunteers to scores; a missing one counts as 1.\<close>

definition published_score ::
  "fusion_strategy \<Rightarrow> embedding \<Rightarrow> submission list \<Rightarrow> embedding list \<Rightarrow> (string \<Rightarrow> real option)
     \<Rightarrow> nat \<Rightarrow> real" where
  "published_score strategy center pending vectors trust i =
     (let base = (case strategy of
                    Longest \<Rightarrow> real (length (sb_text (pending ! i)))
                  | _ \<Rightarrow> cosine_similarity center (vectors ! i));
          t = (case trust (sb_by (pending ! i)) of Some t \<Rightarrow> t | None \<Rightarrow> 1)
      in base * (1 / 2 + 1 / 2 * max t 0))"

definition choose_published ::
  "fusion_strategy \<Rightarrow> nat list \<Rightarrow> submission list \<Rightarrow> embedding list \<Rightarrow> (string \<Rightarrow> real option) \<Rightarrow> nat"
where
  "choose_published strategy agreeing pending vectors trust =
     (case agreeing of
        [] \<Rightarrow> 0
      | a # _ \<Rightarrow>
          let score = published_score strategy (centroid agreeing vectors) pending vectors trust
          in fst (fold (\<lambda>i (best, bs). if (case bs of None \<Rightarrow> True | Some b \<Rightarrow> b < score i)
                                       then (i, Some (score i)) else (best, bs))
                    agreeing (a, None)))"

section \<open>Lemmas on pairs and minima\<close>

lemma set_member_pairs:
  "sorted_wrt (<) xs \<Longrightarrow> set (member_pairs xs) = {(i, j). i \<in> set xs \<and> j \<in> set xs \<and> i < j}"
  by (induction xs) auto

lemma mask_members_sorted: "sorted_wrt (<) (mask_members n bm)"
  by (simp add: mask_members_def sorted_wrt_filter)

lemma mask_members_bound: "set (mask_members n bm) \<subseteq> {..<n}"
  by (auto simp: mask_members_def)

lemma min_sim_le: "x \<in> set xs \<Longrightarrow> \<exists>m. min_sim xs = Some m \<and> m \<le> x"
  by (induction xs) (auto split: option.splits)

lemma min_sim_in: "min_sim xs = Some m \<Longrightarrow> m \<in> set xs"
  by (induction xs arbitrary: m) (auto split: option.splits if_splits simp: min_def)

lemma sorted_members_unique:
  fixes xs ys :: "nat list"
  assumes "sorted_wrt (<) xs" "sorted_wrt (<) ys" "set xs = set ys"
  shows "xs = ys"
  using assms strict_sorted_equal by blast

text \<open>Every set of candidates are the members of some mask in the range of the loop.\<close>

lemma mask_of_set:
  assumes "S \<subseteq> {..<n}" and "n < 32" and "S \<noteq> {}"
  shows "\<exists>bm. 1 \<le> bm \<and> bm < 2 ^ n \<and> set (mask_members n bm) = S"
proof -
  define bs where "bs = map (\<lambda>i. i \<in> S) [0..<n]"
  define bm :: nat where "bm = horner_sum of_bool 2 bs"
  have lt: "bm < 2 ^ n"
    using horner_sum_of_bool_2_less [of bs] by (simp add: bm_def bs_def)
  have bit: "odd (bm div 2 ^ i) \<longleftrightarrow> i \<in> S" if "i < n" for i
    using that bit_horner_sum_bit_iff [of bs i, where ?'a = nat]
    by (simp add: bm_def bs_def bit_iff_odd)
  have mem: "set (mask_members n bm) = S"
  proof -
    have "i \<in> set (mask_members n bm) \<longleftrightarrow> i < n \<and> i \<in> S" for i
      using bit [of i] assms(2) by (cases "i < n") (simp_all add: mask_members_def)
    then show ?thesis using assms(1) by auto
  qed
  moreover have "bm \<noteq> 0" using mem assms(3) by (auto simp: mask_members_def)
  ultimately show ?thesis using lt by (intro exI [of _ bm]) simp
qed

section \<open>Correctness of the search\<close>

definition agrees :: "real list list \<Rightarrow> real \<Rightarrow> nat set \<Rightarrow> bool" where
  "agrees sims threshold S \<longleftrightarrow> (\<forall>i\<in>S. \<forall>j\<in>S. i < j \<longrightarrow> threshold \<le> sims ! i ! j)"

definition good_mask :: "real list list \<Rightarrow> real \<Rightarrow> nat \<Rightarrow> nat \<Rightarrow> bool" where
  "good_mask sims threshold n bm \<longleftrightarrow>
     2 \<le> length (mask_members n bm) \<and> agrees sims threshold (set (mask_members n bm))"

definition least_sim :: "real list list \<Rightarrow> nat list \<Rightarrow> real option" where
  "least_sim sims xs = min_sim (pair_sims sims xs)"

lemma mask_ok_iff:
  "\<not> list_ex (\<lambda>s. s < threshold) (pair_sims sims (mask_members n bm)) \<longleftrightarrow>
     agrees sims threshold (set (mask_members n bm))"
proof -
  have "set (pair_sims sims (mask_members n bm)) =
      (\<lambda>(i, j). sims ! i ! j) ` {(i, j). i \<in> set (mask_members n bm) \<and> j \<in> set (mask_members n bm) \<and> i < j}"
    by (simp add: pair_sims_def set_member_pairs [OF mask_members_sorted])
  then show ?thesis by (fastforce simp: list_ex_iff agrees_def not_less)
qed

text \<open>What the loop knows after the masks seen so far.\<close>

definition search_inv ::
  "real list list \<Rightarrow> real \<Rightarrow> nat \<Rightarrow> nat set \<Rightarrow> nat list \<times> nat \<times> real option \<Rightarrow> bool" where
  "search_inv sims threshold n seen st \<longleftrightarrow>
     (case st of (best, sz, bmin) \<Rightarrow>
        (if best = [] then sz = 0 \<and> bmin = None \<and> (\<forall>m\<in>seen. \<not> good_mask sims threshold n m)
         else (\<exists>m\<in>seen. good_mask sims threshold n m \<and> best = mask_members n m) \<and>
           sz = length best \<and> bmin = least_sim sims best \<and>
           (\<forall>m\<in>seen. good_mask sims threshold n m \<longrightarrow> length (mask_members n m) \<le> sz \<and>
              (length (mask_members n m) = sz \<longrightarrow>
                 \<not> denser (least_sim sims (mask_members n m)) bmin))))"

lemma least_sim_Some:
  assumes "2 \<le> length (mask_members n m)"
  shows "\<exists>x. least_sim sims (mask_members n m) = Some x"
proof (cases "mask_members n m")
  case (Cons x xs)
  then obtain y ys where "mask_members n m = x # y # ys" using assms by (cases xs) auto
  then show ?thesis by (simp add: least_sim_def pair_sims_def)
qed (use assms in simp)

lemma denser_trans: "denser (Some x) b \<Longrightarrow> \<not> denser y b \<Longrightarrow> \<not> denser y (Some x)"
  by (auto simp: denser_def split: option.splits)

lemma consider_mask_inv:
  assumes inv: "search_inv sims t n seen st"
  shows "search_inv sims t n (insert bm seen) (consider_mask sims t n bm st)"
proof -
  obtain best sz bmin where st: "st = (best, sz, bmin)" by (cases st)
  let ?ms = "mask_members n bm"
  let ?win = "sz < length ?ms \<or> length ?ms = sz \<and> denser (least_sim sims ?ms) bmin"
  have step: "consider_mask sims t n bm st =
      (if good_mask sims t n bm \<and> ?win then (?ms, length ?ms, least_sim sims ?ms) else st)"
    using mask_ok_iff [of t sims n bm]
    by (auto simp: consider_mask_def st Let_def good_mask_def least_sim_def)
  show ?thesis
  proof (cases "good_mask sims t n bm")
    case False
    then show ?thesis using inv step by (auto simp: search_inv_def st)
  next
    case good: True
    then have ms: "?ms \<noteq> []" "2 \<le> length ?ms" by (auto simp: good_mask_def)
    obtain x where x: "least_sim sims ?ms = Some x" using least_sim_Some [OF ms(2)] by blast
    show ?thesis
    proof (cases ?win)
      case True
      then have "consider_mask sims t n bm st = (?ms, length ?ms, least_sim sims ?ms)"
        using good step by simp
      moreover have "length (mask_members n m) \<le> length ?ms \<and>
          (length (mask_members n m) = length ?ms \<longrightarrow>
             \<not> denser (least_sim sims (mask_members n m)) (least_sim sims ?ms))"
        if "m \<in> insert bm seen" "good_mask sims t n m" for m
      proof (cases "m = bm")
        case True
        then show ?thesis by (simp add: x denser_def)
      next
        case False
        then have m: "m \<in> seen" using that by simp
        then have "best \<noteq> []" using inv that(2) by (auto simp: search_inv_def st)
        then show ?thesis
          using inv m that(2) True denser_trans [of x bmin "least_sim sims (mask_members n m)"] x
          by (fastforce simp: search_inv_def st)
      qed
      ultimately show ?thesis using ms good by (auto simp: search_inv_def)
    next
      case False
      have "consider_mask sims t n bm st = st"
        unfolding step by (rule if_not_P) (use False in blast)
      moreover have "best \<noteq> []" using False ms inv by (auto simp: search_inv_def st)
      ultimately show ?thesis using inv False by (auto simp: search_inv_def st)
    qed
  qed
qed

lemma fold_consider_inv:
  "search_inv sims t n seen st \<Longrightarrow>
     search_inv sims t n (seen \<union> set ms) (fold (consider_mask sims t n) ms st)"
proof (induction ms arbitrary: seen st)
  case (Cons m ms)
  from Cons.IH [OF consider_mask_inv [OF Cons.prems, of m]] show ?case by simp
qed simp

lemma search_inv_start: "search_inv sims t n {} ([], 0, None)"
  by (simp add: search_inv_def)

lemma clique_search:
  assumes n: "n = length sims" "2 \<le> n" "n < 32"
  shows "\<exists>sz bmin. search_inv sims t n {1..<2 ^ n} (best_agreeing_clique sims t, sz, bmin)"
proof -
  have "search_inv sims t n {1..<2 ^ n} (fold (consider_mask sims t n) [1..<2 ^ n] ([], 0, None))"
    using fold_consider_inv [OF search_inv_start, of sims t n "[1..<2 ^ n]"] by simp
  moreover have "best_agreeing_clique sims t = fst (fold (consider_mask sims t n) [1..<2 ^ n] ([], 0, None))"
    using n by (simp add: best_agreeing_clique_def Let_def)
  ultimately show ?thesis by (metis prod.collapse)
qed

lemma clique_agrees:
  assumes "length sims < 32"
  shows "best_agreeing_clique sims t = [] \<or>
    2 \<le> length (best_agreeing_clique sims t) \<and> sorted_wrt (<) (best_agreeing_clique sims t) \<and>
    set (best_agreeing_clique sims t) \<subseteq> {..<length sims} \<and>
    agrees sims t (set (best_agreeing_clique sims t))"
proof (cases "2 \<le> length sims")
  case True
  obtain sz bmin where "search_inv sims t (length sims) {1..<2 ^ length sims} (best_agreeing_clique sims t, sz, bmin)"
    using clique_search [OF refl True assms] by blast
  then have "best_agreeing_clique sims t = [] \<or>
      (\<exists>m. good_mask sims t (length sims) m \<and> best_agreeing_clique sims t = mask_members (length sims) m)"
    by (auto simp: search_inv_def split: if_splits)
  then show ?thesis
    using mask_members_sorted mask_members_bound unfolding good_mask_def by metis
next
  case False
  then show ?thesis by (simp add: best_agreeing_clique_def)
qed

lemma clique_optimal:
  assumes "length sims < 32" and S: "S \<subseteq> {..<length sims}" "2 \<le> card S" "agrees sims t S"
  shows "card S \<le> length (best_agreeing_clique sims t) \<and>
    (card S = length (best_agreeing_clique sims t) \<longrightarrow>
       \<not> denser (least_sim sims (sorted_list_of_set S)) (least_sim sims (best_agreeing_clique sims t)))"
proof -
  let ?n = "length sims" and ?best = "best_agreeing_clique sims t"
  have fin: "finite S" using S(1) by (rule finite_subset) simp
  have "card S \<le> ?n" using S(1) by (metis card_lessThan card_mono finite_lessThan)
  then have n: "2 \<le> ?n" using S(2) by simp
  have "S \<noteq> {}" using S(2) by auto
  from mask_of_set [OF S(1) assms(1) this] obtain m where
    m: "1 \<le> m" "m < 2 ^ ?n" "set (mask_members ?n m) = S" by blast
  have d: "distinct (mask_members ?n m)" using mask_members_sorted by (simp add: mask_members_def)
  then have len: "length (mask_members ?n m) = card S" using m(3) distinct_card by metis
  have srt: "mask_members ?n m = sorted_list_of_set S"
    using sorted_members_unique [OF mask_members_sorted [of ?n m], of "sorted_list_of_set S"] m(3) fin by simp
  have good: "good_mask sims t ?n m" using S(2,3) m(3) len by (simp add: good_mask_def)
  obtain sz bmin where inv: "search_inv sims t ?n {1..<2 ^ ?n} (?best, sz, bmin)"
    using clique_search [OF refl n assms(1)] by blast
  have "m \<in> {1..<2 ^ ?n}" using m by simp
  then show ?thesis using inv good len srt by (auto simp: search_inv_def split: if_splits)
qed

lemma choose_published_fold:
  fixes score :: "nat \<Rightarrow> real"
  assumes "fold (\<lambda>i (best, bs). if (case bs of None \<Rightarrow> True | Some b \<Rightarrow> b < score i)
                            then (i, Some (score i)) else (best, bs)) xs (b0, s0) = (b, bs)"
    and "xs \<noteq> [] \<or> s0 \<noteq> None" and "\<And>s. s0 = Some s \<Longrightarrow> s = score b0"
  shows "bs = Some (score b) \<and> (b \<in> set xs \<or> b = b0 \<and> s0 \<noteq> None) \<and>
    (\<forall>i\<in>set xs. score i \<le> score b) \<and> (\<forall>s. s0 = Some s \<longrightarrow> s \<le> score b)"
  using assms
proof (induction xs arbitrary: b0 s0)
  case Nil
  then show ?case by auto
next
  case (Cons x xs)
  let ?up = "case s0 of None \<Rightarrow> True | Some b \<Rightarrow> b < score x"
  show ?case
  proof (cases ?up)
    case True
    with Cons.prems(1) have "fold (\<lambda>i (best, bs). if (case bs of None \<Rightarrow> True | Some b \<Rightarrow> b < score i)
        then (i, Some (score i)) else (best, bs)) xs (x, Some (score x)) = (b, bs)" by simp
    from Cons.IH [OF this] True show ?thesis by (auto split: option.splits)
  next
    case False
    then obtain s where s: "s0 = Some s" "score x \<le> s" by (auto split: option.splits)
    with False Cons.prems(1) have "fold (\<lambda>i (best, bs). if (case bs of None \<Rightarrow> True | Some b \<Rightarrow> b < score i)
        then (i, Some (score i)) else (best, bs)) xs (b0, s0) = (b, bs)" by simp
    from Cons.IH [OF this] Cons.prems(3) s show ?thesis by auto
  qed
qed

lemma choose_published_max:
  assumes "agreeing \<noteq> []"
  shows "choose_published st agreeing pending vectors trust \<in> set agreeing \<and>
    (\<forall>i\<in>set agreeing. published_score st (centroid agreeing vectors) pending vectors trust i \<le>
       published_score st (centroid agreeing vectors) pending vectors trust
         (choose_published st agreeing pending vectors trust))"
proof (cases agreeing)
  case (Cons a as)
  define score where "score = published_score st (centroid agreeing vectors) pending vectors trust"
  obtain b bs where f: "fold (\<lambda>i (best, bs). if (case bs of None \<Rightarrow> True | Some b \<Rightarrow> b < score i)
      then (i, Some (score i)) else (best, bs)) agreeing (a, None) = (b, bs)" by fastforce
  have "choose_published st agreeing pending vectors trust = b"
    using arg_cong [OF f, of fst]
    by (simp only: choose_published_def score_def Cons list.case Let_def fst_conv)
  then show ?thesis
    using choose_published_fold [OF f] assms by (simp add: score_def)
qed (use assms in simp)

lemma length_centroid: "length (centroid agreeing vectors) = (case vectors of [] \<Rightarrow> 0 | v # _ \<Rightarrow> length v)"
proof -
  have "length (fold (\<lambda>i acc. add_into acc (vectors ! i)) xs acc) = length acc" for xs acc
    by (induction xs arbitrary: acc) (simp_all add: add_into_def)
  then show ?thesis by (simp add: centroid_def Let_def split: list.split)
qed

section \<open>Properties\<close>

text \<open>
  C11: For up to 31 candidates the search returns a largest set of at least two candidates whose
  pairwise similarities all reach the threshold, and among the sets of that size one with the
  greatest least similarity; it returns nothing exactly when no two candidates agree.
\<close>

theorem clique_search_optimal:
  assumes "length sims < 32"
  shows "(best_agreeing_clique sims t = [] \<longleftrightarrow> \<not> (\<exists>i j. i < j \<and> j < length sims \<and> t \<le> sims ! i ! j)) \<and>
    (best_agreeing_clique sims t \<noteq> [] \<longrightarrow>
       2 \<le> length (best_agreeing_clique sims t) \<and> distinct (best_agreeing_clique sims t) \<and>
       set (best_agreeing_clique sims t) \<subseteq> {..<length sims} \<and>
       agrees sims t (set (best_agreeing_clique sims t))) \<and>
    (\<forall>S. S \<subseteq> {..<length sims} \<longrightarrow> 2 \<le> card S \<longrightarrow> agrees sims t S \<longrightarrow>
       card S \<le> length (best_agreeing_clique sims t) \<and>
       (card S = length (best_agreeing_clique sims t) \<longrightarrow>
          \<not> denser (least_sim sims (sorted_list_of_set S)) (least_sim sims (best_agreeing_clique sims t))))"
proof (intro conjI)
  let ?best = "best_agreeing_clique sims t"
  have c: "?best = [] \<or> 2 \<le> length ?best \<and> sorted_wrt (<) ?best \<and> set ?best \<subseteq> {..<length sims} \<and>
      agrees sims t (set ?best)" by (rule clique_agrees [OF assms])
  then show "?best \<noteq> [] \<longrightarrow> 2 \<le> length ?best \<and> distinct ?best \<and> set ?best \<subseteq> {..<length sims} \<and>
      agrees sims t (set ?best)"
    using strict_sorted_iff by blast
  show "\<forall>S. S \<subseteq> {..<length sims} \<longrightarrow> 2 \<le> card S \<longrightarrow> agrees sims t S \<longrightarrow>
      card S \<le> length ?best \<and> (card S = length ?best \<longrightarrow>
        \<not> denser (least_sim sims (sorted_list_of_set S)) (least_sim sims ?best))"
    using clique_optimal [OF assms] by blast
  show "?best = [] \<longleftrightarrow> \<not> (\<exists>i j. i < j \<and> j < length sims \<and> t \<le> sims ! i ! j)"
  proof
    assume nil: "?best = []"
    show "\<not> (\<exists>i j. i < j \<and> j < length sims \<and> t \<le> sims ! i ! j)"
    proof
      assume "\<exists>i j. i < j \<and> j < length sims \<and> t \<le> sims ! i ! j"
      then obtain i j where ij: "i < j" "j < length sims" "t \<le> sims ! i ! j" by blast
      have "card {i, j} \<le> length ?best"
        by (rule conjunct1 [OF clique_optimal [OF assms]]) (use ij in \<open>auto simp: agrees_def\<close>)
      then show False using nil ij(1) by simp
    qed
  next
    assume no: "\<not> (\<exists>i j. i < j \<and> j < length sims \<and> t \<le> sims ! i ! j)"
    show "?best = []"
    proof (rule ccontr)
      assume "?best \<noteq> []"
      with c have b: "2 \<le> length ?best" "sorted_wrt (<) ?best" "set ?best \<subseteq> {..<length sims}"
        "agrees sims t (set ?best)" by auto
      then obtain i j rest where r: "?best = i # j # rest" by (metis One_nat_def Suc_1 Suc_le_length_iff)
      then have "i < j" "j < length sims" "t \<le> sims ! i ! j"
        using b(2-4) by (auto simp: agrees_def)
      then show False using no by blast
    qed
  qed
qed

definition demo_sims :: "real list list" where
  "demo_sims = [[1, 9/10, 1/2], [9/10, 1, 95/100], [1/2, 95/100, 1]]"

lemma clique_search_optimal_witness:
  "best_agreeing_clique demo_sims (85 / 100) = [1, 2] \<and> agrees demo_sims (85 / 100) {1, 2}"
proof -
  have b: "best_agreeing_clique demo_sims (85 / 100) = [1, 2]" by code_simp
  have "length demo_sims < 32" by (simp add: demo_sims_def)
  from clique_search_optimal [OF this, of "85 / 100"] show ?thesis unfolding b by simp
qed

text \<open>
  With 32 candidates the search finds nothing, however well they agree: the mask bound
  \<open>1 << 32\<close> is \<open>1 << 0\<close> in the release profile and the loop is empty.
\<close>

theorem clique_search_misses_32:
  "length sims = 32 \<Longrightarrow> best_agreeing_clique sims t = []"
  by (simp add: best_agreeing_clique_def)

lemma clique_search_misses_32_witness:
  "best_agreeing_clique (replicate 32 (replicate 32 1)) (85 / 100) = []"
  by (rule clique_search_misses_32) simp

end
