(* ===== verification/Rlm_Motor.thy ===== *)
theory Rlm_Motor
  imports Rlm_Queue Rlm_Nodes
begin

text \<open>
  The summary pipeline's motor (\<^verbatim>\<open>crates/arags-server/src/store/rlm.rs\<close>): after indexing it
  enqueues a file summary for every file whose chunk hashes changed; after a node completes it
  decides under a tolerance whether the parent level is rebuilt.

  Job payloads are JSON text written and read by a library: \<open>ser\<close> and \<open>de\<close> are its two
  directions, arguments here. The chunk tables are lists as in \<open>rlm_chunks_snapshot\<close>.
  A storage error ends the operation at once and keeps what was written before it.
\<close>

section \<open>Payloads and hash sets\<close>

record rlm_payload =
  pl_chunk_ids :: "row_id list"
  pl_node_ids :: "row_id list"
  pl_hashes :: "string list"
  pl_texts :: "string list"
  pl_template :: string
  pl_kind :: string

definition template_version :: string where
  "template_version = ''arlm-v1''"

definition theme_of :: "string \<Rightarrow> string" where
  "theme_of file_path =
     (if CHR ''/'' \<in> set file_path then takeWhile (\<lambda>c. c \<noteq> CHR ''/'') file_path else ''(root)'')"

definition same_hashes :: "string list \<Rightarrow> string list \<Rightarrow> bool" where
  "same_hashes a b \<longleftrightarrow> sort_text a = sort_text b"

definition payload_covers :: "(string \<Rightarrow> rlm_payload option) \<Rightarrow> string \<Rightarrow> string list \<Rightarrow> bool" where
  "payload_covers de job_payload inputs =
     (case de job_payload of Some p \<Rightarrow> same_hashes (pl_hashes p) inputs | None \<Rightarrow> False)"

section \<open>File summaries after indexing\<close>

type_synonym rlm_store = "rlm_node list \<times> job_db"
type_synonym chunk_tables = "(row_id \<times> row_id \<times> string \<times> string) list \<times> (row_id \<times> string) list"

definition l1_job :: "(rlm_payload \<Rightarrow> string) \<Rightarrow> row_id \<Rightarrow> string \<Rightarrow> string
    \<Rightarrow> (row_id \<times> string \<times> string option) list \<Rightarrow> new_rlm_job" where
  "l1_job ser buffer_id project file snapshot =
     \<lparr>nj_buffer = Some buffer_id, nj_project = project, nj_level = 1, nj_subject = file,
      nj_payload = ser \<lparr>pl_chunk_ids = map fst snapshot, pl_node_ids = [],
                        pl_hashes = sorted_dedup (map (\<lambda>(_, h, _). h) snapshot),
                        pl_texts = map (\<lambda>(_, _, t). case t of Some x \<Rightarrow> x | None \<Rightarrow> []) snapshot,
                        pl_template = template_version, pl_kind = ''file''\<rparr>,
      nj_priority = priority_fresh, nj_slots = 1\<rparr>"

text \<open>One turn of the loop: the new store and the numbers of new and reset jobs, or an error.\<close>

definition enqueue_l1_file ::
  "millis \<Rightarrow> (rlm_payload \<Rightarrow> string) \<Rightarrow> chunk_tables \<Rightarrow> row_id \<Rightarrow> string \<Rightarrow> string \<Rightarrow> rlm_store
     \<Rightarrow> rlm_store \<times> (db_error + nat \<times> nat)" where
  "enqueue_l1_file now ser tabs buffer_id project file st =
     (let (nodes, db) = st;
          snapshot = rlm_chunks_snapshot buffer_id file (fst tabs) (snd tabs);
          stale = fst (mark_rlm_stale_by_subject buffer_id 1 file nodes)
      in if snapshot = [] then ((stale, db), Inr (0, 0))
         else let hashes = sorted_dedup (map (\<lambda>(_, h, _). h) snapshot);
                  existing = get_rlm_node_by_subject project 1 file nodes;
                  unchanged = (case existing of
                                 Some node \<Rightarrow> \<not> nd_stale node \<and> same_hashes (nd_hashes node) hashes
                               | None \<Rightarrow> False)
              in if unchanged then (st, Inr (0, 0))
                 else let nodes' = (if existing = None then nodes else stale);
                          (db', res) = enqueue_rlm_job now (l1_job ser buffer_id project file snapshot) [] db
                      in ((nodes', db'),
                          map_sum id (\<lambda>(_, generation, created).
                            if created then (1, 0) else if 0 < generation then (0, 1) else (0, 0)) res))"

fun enqueue_rlm_l1_work ::
  "millis \<Rightarrow> (rlm_payload \<Rightarrow> string) \<Rightarrow> chunk_tables \<Rightarrow> row_id \<Rightarrow> string \<Rightarrow> string list \<Rightarrow> rlm_store
     \<Rightarrow> rlm_store \<times> (db_error + nat \<times> nat)" where
  "enqueue_rlm_l1_work now ser tabs buffer_id project [] st = (st, Inr (0, 0))"
| "enqueue_rlm_l1_work now ser tabs buffer_id project (file # files) st =
     (case enqueue_l1_file now ser tabs buffer_id project file st of
        (st', Inl e) \<Rightarrow> (st', Inl e)
      | (st', Inr (n, r)) \<Rightarrow>
          (case enqueue_rlm_l1_work now ser tabs buffer_id project files st' of
             (st'', Inl e) \<Rightarrow> (st'', Inl e)
           | (st'', Inr (n', r')) \<Rightarrow> (st'', Inr (n + n', r + r'))))"

section \<open>Cascade to the parent level\<close>

definition parent_of :: "string \<Rightarrow> int \<Rightarrow> string \<Rightarrow> (int \<times> string) option" where
  "parent_of project child_level child_subject =
     (if child_level = 1 then Some (2, theme_of child_subject)
      else if child_level = 2 then Some (3, project) else None)"

definition children_of :: "string \<Rightarrow> int \<Rightarrow> string \<Rightarrow> rlm_node list \<Rightarrow> rlm_node list" where
  "children_of project child_level parent_subject nodes =
     filter (\<lambda>n. nd_review n \<noteq> Review_Rejected
               \<and> (child_level = 1 \<longrightarrow> theme_of (nd_subject n) = parent_subject))
       (list_rlm_nodes project (Some child_level) True nodes)"

definition change_fraction :: "string list \<Rightarrow> string list \<Rightarrow> real" where
  "change_fraction recorded inputs =
     1 - real (length (filter (\<lambda>h. h \<in> set inputs) recorded)) / real (max 1 (length inputs))"

definition cascade_payload :: "int \<Rightarrow> rlm_node list \<Rightarrow> string list \<Rightarrow> rlm_payload" where
  "cascade_payload parent_level children inputs =
     \<lparr>pl_chunk_ids = [], pl_node_ids = map nd_id children, pl_hashes = inputs,
      pl_texts = map nd_summary children, pl_template = template_version,
      pl_kind = (if parent_level = 2 then ''theme'' else ''project'')\<rparr>"

definition cascade_rlm ::
  "millis \<Rightarrow> (rlm_payload \<Rightarrow> string) \<Rightarrow> (string \<Rightarrow> rlm_payload option) \<Rightarrow> row_id \<Rightarrow> string \<Rightarrow> int
     \<Rightarrow> string \<Rightarrow> real \<Rightarrow> nat \<Rightarrow> rlm_store \<Rightarrow> rlm_store \<times> (db_error + bool)" where
  "cascade_rlm now ser de buffer_id project child_level child_subject tolerance quorum_n st =
     (let (nodes, db) = st in
      case parent_of project child_level child_subject of
        None \<Rightarrow> (st, Inr False)
      | Some (parent_level, parent_subject) \<Rightarrow>
          let children = children_of project child_level parent_subject nodes in
          if children = [] then (st, Inr False)
          else let inputs = sorted_dedup (concat (map nd_hashes children));
                   (nodes', need) =
                     (case get_rlm_node_by_subject project parent_level parent_subject nodes of
                        None \<Rightarrow> (nodes, True)
                      | Some node \<Rightarrow>
                          if nd_stale node then (nodes, True)
                          else if tolerance < change_fraction (nd_hashes node) inputs
                          then (fst (mark_rlm_stale_by_subject buffer_id parent_level parent_subject nodes), True)
                          else (nodes, False))
               in if \<not> need then ((nodes', db), Inr False)
                  else let payload = ser (cascade_payload parent_level children inputs) in
                    case get_live_rlm_job_by_key project parent_level parent_subject db of
                      Some live \<Rightarrow>
                        if payload_covers de (jb_payload live) inputs then ((nodes', db), Inr False)
                        else let db1 = fst (cancel_rlm_jobs_for_subjects now project
                                         [(parent_level, parent_subject)] db);
                                 db2 = update_rlm_job_payload now project parent_level parent_subject
                                         payload db1
                             in ((nodes', db2), Inr True)
                    | None \<Rightarrow>
                        let (db', res) = enqueue_rlm_job now
                              \<lparr>nj_buffer = Some buffer_id, nj_project = project,
                               nj_level = parent_level, nj_subject = parent_subject,
                               nj_payload = payload, nj_priority = priority_cascade,
                               nj_slots = quorum_n\<rparr> [] db
                        in ((nodes', db'), map_sum id (\<lambda>_. True) res))"

section \<open>Hash sets\<close>

lemma text_key_inj: "text_key a = text_key b \<Longrightarrow> a = b"
  unfolding text_key_def by (rule map_injective) (auto simp: inj_def)

lemma lex_le_Nil [simp]: "lex_le xs [] = (xs = [])"
  by (cases xs) auto

lemma lex_le_antisym: "lex_le xs ys \<Longrightarrow> lex_le ys xs \<Longrightarrow> xs = ys"
  by (induction xs ys rule: lex_le.induct) auto

lemma text_le_total: "text_le a b \<or> text_le b a"
  using lex_le_total by (simp add: text_le_def)

lemma text_le_trans: "text_le a b \<Longrightarrow> text_le b c \<Longrightarrow> text_le a c"
  using lex_le_trans by (auto simp: text_le_def)

lemma text_le_antisym: "text_le a b \<Longrightarrow> text_le b a \<Longrightarrow> a = b"
  by (auto simp: text_le_def dest: lex_le_antisym text_key_inj)

lemma set_sort_text [simp]: "set (sort_text xs) = set xs"
  by (simp add: sort_text_def)

lemma sorted_sort_text: "sorted_wrt text_le (sort_text xs)"
  unfolding sort_text_def by (rule sorted_order_by) (use text_le_total text_le_trans in blast)+

lemma set_sorted_dedup [simp]: "set (sorted_dedup xs) = set xs"
  by (simp add: sorted_dedup_def)

lemma distinct_remdups_adj_sorted: "sorted_wrt text_le xs \<Longrightarrow> distinct (remdups_adj xs)"
proof (induction xs rule: remdups_adj.induct)
  case (3 x y xs)
  show ?case
  proof (cases "x = y")
    case False
    then have "x \<notin> set (y # xs)" using "3.prems" text_le_antisym by auto
    then show ?thesis using 3 False by simp
  qed (use 3 in simp)
qed simp_all

lemma distinct_sorted_dedup: "distinct (sorted_dedup xs)"
  unfolding sorted_dedup_def by (rule distinct_remdups_adj_sorted [OF sorted_sort_text])

section \<open>What the motor enqueues\<close>

lemma enqueue_live:
  assumes "list_ex live_job (filter (of_subject (nj_project job) (nj_level job) (nj_subject job)) (jobs db))"
  shows "\<exists>e. enqueue_rlm_job now job ex db = (db, Inr (jb_id e, jb_generation e, False)) \<and>
    e = hd (filter (of_subject (nj_project job) (nj_level job) (nj_subject job)) (jobs db))"
  using assms by (cases "filter (of_subject (nj_project job) (nj_level job) (nj_subject job)) (jobs db)")
    (simp_all add: enqueue_rlm_job_def Let_def)

lemma enqueue_single_slot:
  assumes "nj_slots job = 1"
    and "\<not> list_ex live_job (filter (of_subject (nj_project job) (nj_level job) (nj_subject job)) (jobs db))"
    and "enqueue_rlm_job now job ex db = (db', Inr (i, g, c))"
  shows "\<exists>r\<in>set (jobs db'). jb_id r = i \<and> jb_generation r = g \<and> jb_status r = Pending \<and>
    of_subject (nj_project job) (nj_level job) (nj_subject job) r \<and> jb_payload r = nj_payload job \<and>
    (\<forall>s\<in>set (jobs db'). of_subject (nj_project job) (nj_level job) (nj_subject job) s \<longrightarrow> s = r)"
proof -
  let ?same = "of_subject (nj_project job) (nj_level job) (nj_subject job)"
  have one: "\<exists>r\<in>set rows'. jb_id r = i \<and> jb_generation r = g \<and> jb_status r = Pending \<and> ?same r \<and>
      jb_payload r = nj_payload job \<and> (\<forall>s\<in>set rows'. ?same s \<longrightarrow> s = r)"
    if ins: "insert_rlm_slots job (Suc 0) key gr g now rows = (rows', Inr i)"
      and none: "\<And>s. s \<in> set rows \<Longrightarrow> \<not> ?same s" for rows rows' key gr
  proof -
    let ?r = "slot_row job (slot_key key (Suc 0) 0) gr g now (next_rowid jb_id rows)"
    have "rows' = rows @ [?r]" "i = next_rowid jb_id rows"
      using ins by (auto simp: insert_rlm_slots_def Let_def split: if_splits)
    then show ?thesis
      using none by (intro bexI [of _ ?r]) (auto simp: slot_row_def of_subject_def)
  qed
  have s1: "max (Suc 0) (nj_slots job) = Suc 0" using assms(1) by simp
  show ?thesis
  proof (cases "filter ?same (jobs db)")
    case Nil
    then have none: "\<And>s. s \<in> set (jobs db) \<Longrightarrow> \<not> ?same s" by (auto simp: filter_empty_conv)
    obtain key gr where "insert_rlm_slots job (Suc 0) key gr g now (jobs db) = (jobs db', Inr i)"
      using assms(1,3) Nil by (auto simp: enqueue_rlm_job_def Let_def map_sum_def split: prod.splits sum.splits)
    from one [OF this none] show ?thesis .
  next
    case (Cons e es)
    obtain key gr where "insert_rlm_slots job (Suc 0) key gr g now (filter (\<lambda>r. \<not> ?same r) (jobs db)) = (jobs db', Inr i)"
      using assms Cons by (auto simp: enqueue_rlm_job_def Let_def map_sum_def split: prod.splits sum.splits if_splits)
    from one [OF this] show ?thesis by simp
  qed
qed

text \<open>The current hashes of a file, as the motor compares and stores them.\<close>

definition file_hashes :: "chunk_tables \<Rightarrow> row_id \<Rightarrow> string \<Rightarrow> string list" where
  "file_hashes tabs buffer_id file =
     sorted_dedup (map (\<lambda>(_, h, _). h) (rlm_chunks_snapshot buffer_id file (fst tabs) (snd tabs)))"

text \<open>
  What indexing does for one file. Without chunks, or with a live job queued for it, the job
  table stays as it was. A file whose live fresh summary has the current hashes is skipped.
  Otherwise, on success, the file has exactly one job, pending, and its payload carries the
  current hashes.
\<close>

theorem rlm_l1_file_work:
  assumes "enqueue_l1_file now ser tabs b project file (nodes, db) = ((nodes', db'), Inr counts)"
  shows "(rlm_chunks_snapshot b file (fst tabs) (snd tabs) = [] \<longrightarrow> db' = db \<and> counts = (0, 0)) \<and>
    (list_ex live_job (filter (of_subject project 1 file) (jobs db)) \<longrightarrow> db' = db) \<and>
    ((\<exists>n. get_rlm_node_by_subject project 1 file nodes = Some n \<and> \<not> nd_stale n \<and>
          same_hashes (nd_hashes n) (file_hashes tabs b file)) \<longrightarrow>
       rlm_chunks_snapshot b file (fst tabs) (snd tabs) \<noteq> [] \<longrightarrow> nodes' = nodes \<and> db' = db) \<and>
    (db' \<noteq> db \<longrightarrow>
       (\<exists>r p. r \<in> set (jobs db') \<and> jb_status r = Pending \<and> jb_payload r = ser p \<and>
          pl_hashes p = file_hashes tabs b file \<and>
          (\<forall>s\<in>set (jobs db'). of_subject project 1 file s \<longleftrightarrow> s = r)))"
proof -
  let ?snap = "rlm_chunks_snapshot b file (fst tabs) (snd tabs)"
  let ?job = "l1_job ser b project file ?snap"
  let ?same = "of_subject project 1 file"
  have job: "nj_project ?job = project" "nj_level ?job = 1" "nj_subject ?job = file" "nj_slots ?job = 1"
    by (simp_all add: l1_job_def)
  have cases: "db' = db \<or> (\<exists>i g c. enqueue_rlm_job now ?job [] db = (db', Inr (i, g, c)))"
    using assms by (auto simp: enqueue_l1_file_def Let_def map_sum_def split: if_splits prod.splits sum.splits option.splits)
  have "db' = db" if "list_ex live_job (filter ?same (jobs db))"
    using cases enqueue_live [of ?job db now "[]"] that job by auto
  moreover have "\<exists>r p. r \<in> set (jobs db') \<and> jb_status r = Pending \<and> jb_payload r = ser p \<and>
      pl_hashes p = file_hashes tabs b file \<and> (\<forall>s\<in>set (jobs db'). ?same s \<longleftrightarrow> s = r)" if "db' \<noteq> db"
  proof -
    from that cases obtain i g c where enq: "enqueue_rlm_job now ?job [] db = (db', Inr (i, g, c))" by blast
    have "\<not> list_ex live_job (filter ?same (jobs db))"
      using enqueue_live [of ?job db now "[]"] enq that job by auto
    then have "\<exists>r\<in>set (jobs db'). jb_id r = i \<and> jb_generation r = g \<and> jb_status r = Pending \<and>
        ?same r \<and> jb_payload r = nj_payload ?job \<and> (\<forall>s\<in>set (jobs db'). ?same s \<longrightarrow> s = r)"
      using enqueue_single_slot [OF job(4) _ enq] job by simp
    then obtain r where r: "r \<in> set (jobs db')" "jb_status r = Pending" "?same r"
      "jb_payload r = nj_payload ?job" "\<forall>s\<in>set (jobs db'). ?same s \<longrightarrow> s = r" by blast
    have "\<exists>p. nj_payload ?job = ser p \<and> pl_hashes p = file_hashes tabs b file"
      by (simp add: l1_job_def file_hashes_def) (metis rlm_payload.select_convs(3))
    with r show ?thesis by metis
  qed
  moreover have "?snap = [] \<longrightarrow> db' = db \<and> counts = (0, 0)"
    using assms by (auto simp: enqueue_l1_file_def Let_def)
  moreover have "nodes' = nodes \<and> db' = db"
    if "\<exists>n. get_rlm_node_by_subject project 1 file nodes = Some n \<and> \<not> nd_stale n \<and>
          same_hashes (nd_hashes n) (file_hashes tabs b file)" "?snap \<noteq> []"
    using assms that by (auto simp: enqueue_l1_file_def Let_def file_hashes_def)
  ultimately show ?thesis by blast
qed

definition demo_tabs :: chunk_tables where
  "demo_tabs = ([(11, 1, ''src/a.rs'', ''h2''), (12, 1, ''src/a.rs'', ''h1'')], [(11, ''fn a''), (12, ''fn b'')])"

lemma rlm_l1_file_work_witness:
  "\<exists>st' counts. enqueue_l1_file 5 pl_kind demo_tabs 1 ''proj'' ''src/a.rs'' ([], empty_queue) = (st', Inr counts) \<and>
     snd st' \<noteq> empty_queue \<and>
     (\<exists>r. r \<in> set (jobs (snd st')) \<and> jb_status r = Pending)"
proof -
  let ?res = "enqueue_l1_file 5 pl_kind demo_tabs 1 ''proj'' ''src/a.rs'' ([], empty_queue)"
  have ok: "snd ?res = Inr (1, 0)" "length (jobs (snd (fst ?res))) = 1" by code_simp+
  then have ne: "snd (fst ?res) \<noteq> empty_queue" by (auto simp: empty_queue_def)
  have "?res = ((fst (fst ?res), snd (fst ?res)), Inr (1, 0))" using ok(1) by (metis prod.collapse)
  from rlm_l1_file_work [OF this] ne
  have "\<exists>r. r \<in> set (jobs (snd (fst ?res))) \<and> jb_status r = Pending" by blast
  then show ?thesis using ok(1) ne by (metis prod.collapse)
qed

section \<open>The cascade\<close>

definition cascade_inputs :: "string \<Rightarrow> int \<Rightarrow> string \<Rightarrow> rlm_node list \<Rightarrow> string list" where
  "cascade_inputs project level parent_subject nodes =
     sorted_dedup (concat (map nd_hashes (children_of project level parent_subject nodes)))"

lemma change_fraction_covered:
  assumes "distinct inputs" and "inputs \<noteq> []" and "set inputs \<subseteq> set recorded"
  shows "change_fraction recorded inputs \<le> 0"
proof -
  have "length inputs = card (set inputs)" using assms(1) by (simp add: distinct_card)
  also have "\<dots> \<le> card (set (filter (\<lambda>h. h \<in> set inputs) recorded))"
    by (rule card_mono) (use assms(3) in auto)
  also have "\<dots> \<le> length (filter (\<lambda>h. h \<in> set inputs) recorded)" by (rule card_length)
  finally have le: "length inputs \<le> length (filter (\<lambda>h. h \<in> set inputs) recorded)" .
  have "max 1 (length inputs) = length inputs" using assms(2) by (cases inputs) auto
  then show ?thesis using le assms(2) by (simp add: change_fraction_def le_divide_eq)
qed

lemma cascade_within:
  assumes "parent_of project l s = Some (pl, ps)"
    and "get_rlm_node_by_subject project pl ps nodes = Some node" "\<not> nd_stale node"
    and "change_fraction (nd_hashes node) (cascade_inputs project l ps nodes) \<le> tol"
  shows "cascade_rlm now ser de b project l s tol qn (nodes, db) = ((nodes, db), Inr False)"
  using assms by (simp add: cascade_rlm_def cascade_inputs_def Let_def)

text \<open>
  The cascade leaves both tables alone when the parent summary is fresh and the share of the
  children's current hashes it does not know stays within the tolerance. In particular it does
  so, for any tolerance from 0 up, when the children only lost hashes.
\<close>

theorem rlm_cascade_tolerance:
  assumes "parent_of project l s = Some (pl, ps)"
    and "get_rlm_node_by_subject project pl ps nodes = Some node" "\<not> nd_stale node"
    and "change_fraction (nd_hashes node) (cascade_inputs project l ps nodes) \<le> tol \<or>
      0 \<le> tol \<and> cascade_inputs project l ps nodes \<noteq> [] \<and>
        set (cascade_inputs project l ps nodes) \<subseteq> set (nd_hashes node)"
  shows "cascade_rlm now ser de b project l s tol qn (nodes, db) = ((nodes, db), Inr False)"
proof (rule cascade_within [OF assms(1-3)])
  have d: "distinct (cascade_inputs project l ps nodes)"
    unfolding cascade_inputs_def by (rule distinct_sorted_dedup)
  show "change_fraction (nd_hashes node) (cascade_inputs project l ps nodes) \<le> tol"
    using assms(4)
  proof
    assume "0 \<le> tol \<and> cascade_inputs project l ps nodes \<noteq> [] \<and>
        set (cascade_inputs project l ps nodes) \<subseteq> set (nd_hashes node)"
    then show ?thesis using change_fraction_covered [OF d, of "nd_hashes node"] by linarith
  qed
qed

definition theme_rows :: "rlm_node list" where
  "theme_rows =
     [fresh_node ''t'' \<lparr>nn_buffer = Some 1, nn_project = ''proj'', nn_level = 2, nn_subject = ''src'',
        nn_summary = ''theme'', nn_hashes = [''h1'', ''h2'', ''h3''], nn_model = None, nn_volunteer = None,
        nn_created_by = None, nn_template = None, nn_tokens = 0\<rparr> 1 1 1,
      fresh_node ''f'' \<lparr>nn_buffer = Some 1, nn_project = ''proj'', nn_level = 1, nn_subject = ''src/a.rs'',
        nn_summary = ''file'', nn_hashes = [''h2'', ''h1''], nn_model = None, nn_volunteer = None,
        nn_created_by = None, nn_template = None, nn_tokens = 0\<rparr> 1 1 2]"

lemma rlm_cascade_tolerance_witness:
  "cascade_rlm 9 pl_kind (\<lambda>_. None) 1 ''proj'' 1 ''src/a.rs'' 0 3 (theme_rows, empty_queue) =
     ((theme_rows, empty_queue), Inr False)"
proof (rule rlm_cascade_tolerance [where pl = 2 and ps = "''src''" and node = "hd theme_rows"])
  show "parent_of ''proj'' 1 ''src/a.rs'' = Some (2, ''src'')" by code_simp
  show "get_rlm_node_by_subject ''proj'' 2 ''src'' theme_rows = Some (hd theme_rows)"
    by (simp add: get_rlm_node_by_subject_def theme_rows_def node_key_def fresh_node_def)
  show "\<not> nd_stale (hd theme_rows)" by (simp add: theme_rows_def)
  have "cascade_inputs ''proj'' 1 ''src'' theme_rows = [''h1'', ''h2'']" by code_simp
  then show "change_fraction (nd_hashes (hd theme_rows)) (cascade_inputs ''proj'' 1 ''src'' theme_rows) \<le> 0 \<or>
      0 \<le> (0::real) \<and> cascade_inputs ''proj'' 1 ''src'' theme_rows \<noteq> [] \<and>
        set (cascade_inputs ''proj'' 1 ''src'' theme_rows) \<subseteq> set (nd_hashes (hd theme_rows))"
    by (simp add: theme_rows_def fresh_node_def)
qed

text \<open>
  The first summary of a child builds the parent: with children, no parent node and no job of
  the parent, the cascade appends the requested number of pending slots at cascade priority,
  each carrying the children's node ids, summaries and the sorted set of their hashes.
\<close>

theorem rlm_cascade_first_build:
  assumes "parent_of project l s = Some (pl, ps)" and "children_of project l ps nodes \<noteq> []"
    and "get_rlm_node_by_subject project pl ps nodes = None"
    and "list_all (\<lambda>r. \<not> of_subject project pl ps r) (jobs db)"
    and "slot_keys_free \<lparr>nj_buffer = Some b, nj_project = project, nj_level = pl, nj_subject = ps,
           nj_payload = ser (cascade_payload pl (children_of project l ps nodes) (cascade_inputs project l ps nodes)),
           nj_priority = priority_cascade, nj_slots = qn\<rparr> (jobs db)"
  shows "\<exists>new. cascade_rlm now ser de b project l s tol qn (nodes, db) =
      ((nodes, db\<lparr>jobs := jobs db @ new\<rparr>), Inr True) \<and> length new = max 1 qn \<and>
      (\<forall>r\<in>set new. of_subject project pl ps r \<and> jb_status r = Pending \<and> jb_priority r = priority_cascade \<and>
         jb_payload r = ser (cascade_payload pl (children_of project l ps nodes) (cascade_inputs project l ps nodes)))"
proof -
  let ?job = "\<lparr>nj_buffer = Some b, nj_project = project, nj_level = pl, nj_subject = ps,
           nj_payload = ser (cascade_payload pl (children_of project l ps nodes) (cascade_inputs project l ps nodes)),
           nj_priority = priority_cascade, nj_slots = qn\<rparr>"
  have job: "nj_project ?job = project" "nj_level ?job = pl" "nj_subject ?job = ps" "nj_slots ?job = qn"
    by simp_all
  obtain new where new: "insert_rlm_slots ?job (max 1 qn) (rlm_job_key project pl ps) (next_group (jobs db)) 0 now (jobs db) =
      (jobs db @ new, Inr (next_rowid jb_id (jobs db)))"
    "map jb_key new = map (slot_key (rlm_job_key project pl ps) (max 1 qn)) [0..<max 1 qn]"
    "list_all (fresh_slot ?job (next_group (jobs db)) 0) new"
    using insert_rlm_slots_ok [OF assms(5) refl refl, of "next_group (jobs db)" 0 now] unfolding job by metis
  have none: "filter (of_subject project pl ps) (jobs db) = []"
    using assms(4) by (auto simp: filter_empty_conv list_all_iff)
  then have nolive: "get_live_rlm_job_by_key project pl ps db = None"
    by (auto simp: get_live_rlm_job_by_key_def find_None_iff filter_empty_conv)
  have enq: "enqueue_rlm_job now ?job [] db = (db\<lparr>jobs := jobs db @ new\<rparr>, Inr (next_rowid jb_id (jobs db), 0, True))"
    using new(1) none by (simp add: enqueue_rlm_job_def Let_def)
  have "cascade_rlm now ser de b project l s tol qn (nodes, db) = ((nodes, db\<lparr>jobs := jobs db @ new\<rparr>), Inr True)"
    using assms(1-3) nolive enq by (simp add: cascade_rlm_def Let_def cascade_inputs_def)
  moreover have "length new = max 1 qn" using arg_cong [OF new(2), of length] by simp
  ultimately show ?thesis
    using new(3) by (intro exI [of _ new]) (auto simp: list_all_iff fresh_slot_def of_subject_def slot_row_def)
qed

lemma rlm_cascade_first_build_witness:
  "\<exists>new. cascade_rlm 9 pl_kind (\<lambda>_. None) 1 ''proj'' 1 ''src/a.rs'' 0 3 (tl theme_rows, empty_queue) =
     ((tl theme_rows, empty_queue\<lparr>jobs := new\<rparr>), Inr True) \<and> length new = 3"
proof -
  have p: "parent_of ''proj'' 1 ''src/a.rs'' = Some (2, ''src'')"
    "length (children_of ''proj'' 1 ''src'' (tl theme_rows)) = 1" by code_simp+
  have c: "children_of ''proj'' 1 ''src'' (tl theme_rows) \<noteq> []" using p(2) by auto
  have g: "get_rlm_node_by_subject ''proj'' 2 ''src'' (tl theme_rows) = None"
    by (simp add: get_rlm_node_by_subject_def theme_rows_def node_key_def fresh_node_def)
  have q: "list_all (\<lambda>r. \<not> of_subject ''proj'' 2 ''src'' r) (jobs empty_queue)"
    by (simp add: empty_queue_def)
  have f: "slot_keys_free job (jobs empty_queue)" for job
    by (simp add: slot_keys_free_def empty_queue_def list_all_iff Let_def)
  from rlm_cascade_first_build [OF p(1) c g q f, where now = 9 and qn = 3 and ser = pl_kind and b = 1 and tol = 0 and de = "\<lambda>_. None"] show ?thesis by (auto simp: empty_queue_def)
qed

text \<open>
  A refresh of a fanned-out parent is lost. When the parent has a live job whose payload does
  not cover the current hashes and none of its rows carries the bare job key, the cascade
  reports success and cancels the running work, but every job keeps its old payload.
\<close>

theorem rlm_cascade_refresh_lost:
  assumes "parent_of project l s = Some (pl, ps)" and "children_of project l ps nodes \<noteq> []"
    and "get_rlm_node_by_subject project pl ps nodes = None"
    and "get_live_rlm_job_by_key project pl ps db = Some live"
    and "\<not> payload_covers de (jb_payload live) (cascade_inputs project l ps nodes)"
    and "list_all (\<lambda>r. jb_key r \<noteq> rlm_job_key project pl ps) (jobs db)"
  shows "\<exists>db'. cascade_rlm now ser de b project l s tol qn (nodes, db) = ((nodes, db'), Inr True) \<and>
    map jb_payload (jobs db') = map jb_payload (jobs db) \<and>
    (\<exists>r\<in>set (jobs db'). jb_id r = jb_id live \<and> jb_generation r = jb_generation live + 1 \<and>
       jb_payload r = jb_payload live)"
proof -
  let ?hit = "\<lambda>r. of_subject project pl ps r \<and> live_job r"
  let ?db1 = "db\<lparr>jobs := update_where ?hit (cancel_row now) (jobs db)\<rparr>"
  have keys: "list_all (\<lambda>r. jb_key r \<noteq> rlm_job_key project pl ps) (jobs ?db1)"
  proof -
    have "jb_key (cancel_row now r) = jb_key r" for r by (simp add: cancel_row_def release_row_def)
    then have "map jb_key (jobs ?db1) = map jb_key (jobs db)" by (simp add: map_update_where)
    then have "set (map jb_key (jobs ?db1)) = set (map jb_key (jobs db))" by (simp only:)
    then show ?thesis using assms(6) by (force simp: list_all_iff)
  qed
  have upd: "update_rlm_job_payload now project pl ps pay ?db1 = ?db1" for pay
    using keys by (simp add: update_rlm_job_payload_def update_where_id list_all_iff)
  have cas: "cascade_rlm now ser de b project l s tol qn (nodes, db) = ((nodes, ?db1), Inr True)"
    using assms(1-5) upd by (simp add: cascade_rlm_def Let_def cascade_inputs_def)
  have "map jb_payload (jobs ?db1) = map jb_payload (jobs db)"
    by (simp add: map_update_where cancel_row_def release_row_def)
  moreover have live: "live \<in> set (jobs db)" "?hit live"
    using assms(4) by (auto simp: get_live_rlm_job_by_key_def dest: find_SomeD)
  then have "cancel_row now live \<in> set (jobs ?db1)" by (auto simp: in_set_update_where intro!: bexI [of _ live])
  then have "\<exists>r\<in>set (jobs ?db1). jb_id r = jb_id live \<and> jb_generation r = jb_generation live + 1 \<and>
       jb_payload r = jb_payload live"
    by (rule rev_bexI) (simp add: cancel_row_def release_row_def)
  ultimately show ?thesis using cas by blast
qed

lemma rlm_cascade_refresh_lost_witness:
  "\<exists>db db'. length (jobs db) = 3 \<and>
     cascade_rlm 9 pl_kind (\<lambda>_. None) 1 ''proj'' 1 ''src/a.rs'' 0 3 (tl theme_rows, db) = ((tl theme_rows, db'), Inr True) \<and>
     map jb_payload (jobs db') = map jb_payload (jobs db)"
proof -
  define db where "db = snd (fst (cascade_rlm 9 pl_kind (\<lambda>_. None) 1 ''proj'' 1 ''src/a.rs'' 0 3 (tl theme_rows, empty_queue)))"
  have p: "parent_of ''proj'' 1 ''src/a.rs'' = Some (2, ''src'')"
    "length (children_of ''proj'' 1 ''src'' (tl theme_rows)) = 1" by code_simp+
  have c: "children_of ''proj'' 1 ''src'' (tl theme_rows) \<noteq> []" using p(2) by auto
  have g: "get_rlm_node_by_subject ''proj'' 2 ''src'' (tl theme_rows) = None"
    by (simp add: get_rlm_node_by_subject_def theme_rows_def node_key_def fresh_node_def)
  have n: "length (jobs db) = 3" unfolding db_def by code_simp
  have "map_option jb_id (get_live_rlm_job_by_key ''proj'' 2 ''src'' db) = Some 1" unfolding db_def by code_simp
  then obtain live where live: "get_live_rlm_job_by_key ''proj'' 2 ''src'' db = Some live" by auto
  have k: "list_all (\<lambda>r. jb_key r \<noteq> rlm_job_key ''proj'' 2 ''src'') (jobs db)" unfolding db_def by code_simp
  have "\<not> payload_covers (\<lambda>_. None) x y" for x y by (simp add: payload_covers_def)
  from rlm_cascade_refresh_lost [OF p(1) c g live this k, where now = 9 and qn = 3 and ser = pl_kind and b = 1 and tol = 0] n
  show ?thesis by blast
qed

end
