(* ===== verification/Quorum.thy ===== *)
theory Quorum
  imports Clique Rlm_Motor Rlm_Review
begin

text \<open>
  The quorum decision (\<^verbatim>\<open>crates/arags-server/src/quorum.rs\<close>) and the submission handler that
  calls it (\<^verbatim>\<open>crates/arags-server/src/grpc/rlm/quorum.rs\<close>). The state is what the decision
  reads and writes: submissions, volunteer trust, the job queue, the nodes, the audit log and
  the vector index. The embedder, the vector index, the JSON codec, the message authentication
  code and the stable id generator are arguments, gathered in \<open>quorum_env\<close>; the clock is read
  once per request. An embedding failure makes the decision wait, as in the code; a vector
  index failure is a \<open>qe_vec_insert\<close> that returns the index as it was.

  Lemmas: what a decision accepts and rejects, the Byzantine bound, idempotency, strikes, one
  round of re-fan-out, and how many rounds a whole run can hold.
\<close>

section \<open>Configuration, environment, state\<close>

record quorum_config =
  qc_n :: nat
  qc_threshold :: real
  qc_fusion :: fusion_strategy
  qc_strikes_limit :: nat
  qc_rlm_enabled :: bool
  qc_l2_tolerance :: real
  qc_l3_tolerance :: real

record 'v quorum_env =
  qe_now_s :: seconds
  qe_now_ms :: millis
  qe_node_id :: string
  qe_embed_batch :: "string list \<Rightarrow> embedding list option"
  qe_embed :: "string \<Rightarrow> embedding option"
  qe_vec_insert :: "nat \<Rightarrow> embedding \<Rightarrow> 'v \<Rightarrow> 'v"
  qe_ser :: "rlm_payload \<Rightarrow> string"
  qe_de :: "string \<Rightarrow> rlm_payload option"
  qe_sign :: "string \<Rightarrow> row_id \<Rightarrow> int \<Rightarrow> string \<Rightarrow> string"

record 'v quorum_state =
  qs_subs :: "submission list"
  qs_trust :: "trust_row list"
  qs_db :: job_db
  qs_nodes :: "rlm_node list"
  qs_vectors :: "'v option"
  qs_audit :: "(string \<times> string \<times> string \<times> string option \<times> string option) list"

datatype quorum_decision =
    Quorum_Pending
  | Quorum_Accepted string "row_id list" "row_id list"
  | Quorum_Rejected "row_id list"

definition default_quorum_n :: nat where "default_quorum_n = 3"

definition quorum_size :: "quorum_config \<Rightarrow> nat" where
  "quorum_size cfg = max 1 (qc_n cfg)"

section \<open>Re-fan-out after total divergence\<close>

text \<open>
  \<open>reassign_rlm_on_divergence\<close>: capped by the generation and by the volunteers still
  available; otherwise the last payload of the subject goes to a new group that excludes the
  divergers. An error of the enqueue is logged and dropped.
\<close>

definition current_generation :: "string \<Rightarrow> int \<Rightarrow> string \<Rightarrow> job_db \<Rightarrow> int" where
  "current_generation project level subject db =
     max_or_zero (map jb_generation (filter (of_subject project level subject) (jobs db)))"

definition last_job :: "string \<Rightarrow> int \<Rightarrow> string \<Rightarrow> job_db \<Rightarrow> rlm_job option" where
  "last_job project level subject db =
     (case sort_key (\<lambda>r. - jb_id r) (filter (of_subject project level subject) (jobs db)) of
        [] \<Rightarrow> None | r # _ \<Rightarrow> Some r)"

definition reassign_rlm_on_divergence ::
  "quorum_config \<Rightarrow> 'v quorum_env \<Rightarrow> string \<Rightarrow> int \<Rightarrow> string \<Rightarrow> string list \<Rightarrow> nat
     \<Rightarrow> 'v quorum_state \<Rightarrow> 'v quorum_state" where
  "reassign_rlm_on_divergence cfg env project level subject divergers n st =
     (let strikes_limit = qc_strikes_limit cfg;
          known = map vt_username (qs_trust st);
          banned = map vt_username (filter (\<lambda>r. strikes_limit \<le> as_u32 (vt_strikes r)) (qs_trust st))
      in if strikes_limit \<le> as_u32 (current_generation project level subject (qs_db st)) then st
         else let available = length (filter (\<lambda>v. v \<notin> set banned \<and> v \<notin> set divergers) known) in
           if divergers \<noteq> [] \<and> n \<le> length known \<and> available = 0 then st
           else let (buffer_id, payload) =
                      (case last_job project level subject (qs_db st) of
                         Some r \<Rightarrow> (jb_buffer r, jb_payload r) | None \<Rightarrow> (None, ''{}''));
                    job = \<lparr>nj_buffer = buffer_id, nj_project = project, nj_level = level,
                           nj_subject = subject, nj_payload = payload, nj_priority = priority_retry,
                           nj_slots = n\<rparr>
                in st\<lparr>qs_db := fst (enqueue_rlm_job (qe_now_ms env) job divergers (qs_db st))\<rparr>)"

section \<open>The decision\<close>

definition min_clique :: "nat \<Rightarrow> nat" where
  "min_clique n = 2 * ((n - 1) div 3) + 1"

definition reject_and_strike ::
  "'v quorum_env \<Rightarrow> real option \<Rightarrow> submission \<Rightarrow> 'v quorum_state \<Rightarrow> 'v quorum_state" where
  "reject_and_strike env sim sub st =
     st\<lparr>qs_subs := reject_submission (qe_now_s env) (sb_id sub) ''quorum'' sim (qs_subs st),
        qs_trust := fst (record_strike (sb_by sub) (qs_trust st))\<rparr>"

definition accept_and_bump ::
  "'v quorum_env \<Rightarrow> real \<Rightarrow> submission \<Rightarrow> 'v quorum_state \<Rightarrow> 'v quorum_state" where
  "accept_and_bump env sim sub st =
     st\<lparr>qs_subs := accept_submission (qe_now_s env) (sb_id sub) ''quorum'' (Some sim) (qs_subs st),
        qs_trust := bump_trust_on_accept (sb_by sub) (qs_trust st)\<rparr>"

text \<open>Authors in order of first appearance.\<close>

definition first_authors :: "submission list \<Rightarrow> string list" where
  "first_authors subs =
     fold (\<lambda>s acc. if sb_by s \<in> set acc then acc else acc @ [sb_by s]) subs []"

definition settle ::
  "'v quorum_env \<Rightarrow> nat list \<Rightarrow> embedding \<Rightarrow> embedding list \<Rightarrow> (nat \<times> submission) list
     \<Rightarrow> 'v quorum_state \<Rightarrow> 'v quorum_state" where
  "settle env agreeing fused_vec vectors subs st =
     fold (\<lambda>(i, sub) st. let sim = cosine_similarity fused_vec (vectors ! i) in
             if i \<in> set agreeing then accept_and_bump env sim sub st
             else reject_and_strike env (Some sim) sub st) subs st"

definition hydrate_node ::
  "'v quorum_env \<Rightarrow> string \<Rightarrow> string \<Rightarrow> row_id \<Rightarrow> 'v quorum_state \<Rightarrow> 'v quorum_state" where
  "hydrate_node env subject fused rowid st =
     (case (qs_vectors st, qe_embed env (subject @ [CHR 0x0A] @ fused)) of
        (Some vs, Some v) \<Rightarrow>
          st\<lparr>qs_vectors := Some (qe_vec_insert env (if rowid < 0 then 2 ^ 64 - 1 else nat rowid) v vs)\<rparr>
      | _ \<Rightarrow> st)"

definition quorum_cascade ::
  "quorum_config \<Rightarrow> 'v quorum_env \<Rightarrow> string \<Rightarrow> int \<Rightarrow> string \<Rightarrow> 'v quorum_state \<Rightarrow> 'v quorum_state" where
  "quorum_cascade cfg env project level subject st =
     (if qc_rlm_enabled cfg \<and> level < 3 then
        let tolerance = (if level = 1 then qc_l2_tolerance cfg else qc_l3_tolerance cfg) in
        case Option.bind (get_rlm_node_by_subject project level subject (qs_nodes st)) nd_buffer of
          Some buf \<Rightarrow>
            let (nodes, db) = fst (cascade_rlm (qe_now_ms env) (qe_ser env) (qe_de env) buf project
                                     level subject tolerance (quorum_size cfg) (qs_nodes st, qs_db st))
            in st\<lparr>qs_nodes := nodes, qs_db := db\<rparr>
        | None \<Rightarrow> st
      else st)"

text \<open>The agreeing candidates: a single candidate is a quorum only when one is asked for.\<close>

definition agreeing_set :: "quorum_config \<Rightarrow> embedding list \<Rightarrow> nat list" where
  "agreeing_set cfg vectors =
     (if quorum_size cfg = 1 then [0]
      else best_agreeing_clique (map (\<lambda>a. map (cosine_similarity a) vectors) vectors) (qc_threshold cfg))"

text \<open>No consensus: every candidate is rejected, its author struck, the subject fanned out again.\<close>

definition reject_all ::
  "quorum_config \<Rightarrow> 'v quorum_env \<Rightarrow> string \<Rightarrow> int \<Rightarrow> string \<Rightarrow> submission list \<Rightarrow> 'v quorum_state
     \<Rightarrow> 'v quorum_state \<times> quorum_decision" where
  "reject_all cfg env project level subject pending st =
     (reassign_rlm_on_divergence cfg env project level subject (first_authors pending) (quorum_size cfg)
        (fold (reject_and_strike env None) pending st),
      Quorum_Rejected (map sb_id pending))"

text \<open>Consensus: publish the chosen candidate, settle all of them, hydrate, cascade.\<close>

definition publish_consensus ::
  "quorum_config \<Rightarrow> 'v quorum_env \<Rightarrow> string \<Rightarrow> int \<Rightarrow> string \<Rightarrow> nat list \<Rightarrow> embedding list
     \<Rightarrow> submission list \<Rightarrow> 'v quorum_state \<Rightarrow> 'v quorum_state \<times> quorum_decision" where
  "publish_consensus cfg env project level subject agreeing vectors pending st =
     (let trust = (\<lambda>v. if v \<in> set (map sb_by pending)
                       then Some (snd (read_trust v (qs_trust st))) else None);
          published = pending ! choose_published (qc_fusion cfg) agreeing pending vectors trust;
          fused = sb_text published;
          (nodes, rowid, node_id) =
            publish_rlm_node_for_subject (qe_node_id env) (qe_now_ms env) project level subject
              fused [] (Some (sb_by published)) None None ''quorum'' (qs_nodes st);
          indexed = enumerate 0 pending;
          st1 = settle env agreeing (centroid agreeing vectors) vectors indexed (st\<lparr>qs_nodes := nodes\<rparr>);
          st2 = quorum_cascade cfg env project level subject (hydrate_node env subject fused rowid st1)
      in (st2, Quorum_Accepted fused
                 (map (sb_id \<circ> snd) (filter (\<lambda>x. fst x \<in> set agreeing) indexed))
                 (map (sb_id \<circ> snd) (filter (\<lambda>x. fst x \<notin> set agreeing) indexed))))"

definition decide_rlm_quorum ::
  "quorum_config \<Rightarrow> 'v quorum_env \<Rightarrow> string \<Rightarrow> int \<Rightarrow> string \<Rightarrow> 'v quorum_state
     \<Rightarrow> 'v quorum_state \<times> quorum_decision" where
  "decide_rlm_quorum cfg env project level subject st =
     (let key = rlm_job_key project level subject;
          pending = list_pending project ''rlm_node'' key (qs_subs st)
      in if pending = [] then
           (st, case list_accepted project ''rlm_node'' key (qs_subs st) of
                  win # _ \<Rightarrow> Quorum_Accepted (sb_text win) [sb_id win] []
                | [] \<Rightarrow> Quorum_Rejected [])
         else if length pending < quorum_size cfg then (st, Quorum_Pending)
         else case qe_embed_batch env (map sb_text pending) of
           None \<Rightarrow> (st, Quorum_Pending)
         | Some vectors \<Rightarrow>
             let agreeing = agreeing_set cfg vectors in
             if agreeing = [] \<or> length agreeing < min_clique (quorum_size cfg)
             then reject_all cfg env project level subject pending st
             else publish_consensus cfg env project level subject agreeing vectors pending st)"

section \<open>The submission handler\<close>

datatype submit_reply =
    Submit_Unauthenticated
  | Submit_Reply bool string string

text \<open>\<open>accepted\<close>, \<open>reason\<close>, \<open>node_id\<close>; \<open>auto_approved\<close> is always false here.\<close>

definition decide_quorum_submission ::
  "quorum_config \<Rightarrow> 'v quorum_env \<Rightarrow> rlm_job \<Rightarrow> string \<Rightarrow> string \<Rightarrow> int \<Rightarrow> string \<Rightarrow> row_id \<Rightarrow> string
     \<Rightarrow> 'v quorum_state \<Rightarrow> 'v quorum_state \<times> submit_reply" where
  "decide_quorum_submission cfg env job username raw_token generation summary_text job_id provided st =
     (if qe_sign env raw_token job_id generation summary_text \<noteq> provided then (st, Submit_Unauthenticated)
      else let key = rlm_job_key (jb_project job) (jb_level job) (jb_subject job);
               (db, completed) = complete_rlm_job (qe_now_ms env) job_id username generation (qs_db st);
               st1 = st\<lparr>qs_db := db\<rparr>
           in if \<not> completed
              then (st1, Submit_Reply False ''stale lease, wrong worker or cancelled generation'' [])
              else let st2 = st1\<lparr>qs_subs := fst (insert_submission (qe_now_s env) (jb_project job)
                                   ''rlm_node'' key summary_text username (qs_subs st1)),
                                 qs_audit := qs_audit st1 @
                                   [(jb_project job, username, ''submit_rlm_candidate'', Some key, None)]\<rparr>;
                       (st3, decision) = decide_rlm_quorum cfg env (jb_project job) (jb_level job)
                                           (jb_subject job) st2
                   in (st3, case decision of
                          Quorum_Accepted _ _ _ \<Rightarrow>
                            Submit_Reply True [] (case get_rlm_node_by_subject (jb_project job)
                                (jb_level job) (jb_subject job) (qs_nodes st3) of
                              Some nd \<Rightarrow> nd_node_id nd | None \<Rightarrow> [])
                        | Quorum_Rejected _ \<Rightarrow>
                            Submit_Reply False ''quorum rejected: no consensus among volunteers'' []
                        | Quorum_Pending \<Rightarrow>
                            Submit_Reply False ''quorum pending: awaiting more volunteers'' []))"

section \<open>Verdicts and their effect on the submissions\<close>

definition subject_ids :: "string \<Rightarrow> string \<Rightarrow> string \<Rightarrow> submission list \<Rightarrow> row_id set" where
  "subject_ids p t k rows = sb_id ` set (filter (for_subject p t k) rows)"

definition accepted_ids :: "string \<Rightarrow> string \<Rightarrow> string \<Rightarrow> submission list \<Rightarrow> row_id set" where
  "accepted_ids p t k rows = sb_id ` set (list_accepted p t k rows)"

lemma subject_ids_Cons [simp]:
  "subject_ids p t k (r # rows) = (if for_subject p t k r then {sb_id r} else {}) \<union> subject_ids p t k rows"
  "subject_ids p t k [] = {}"
  by (auto simp: subject_ids_def)

lemma accepted_ids_Cons [simp]:
  "accepted_ids p t k (r # rows) =
     (if for_subject p t k r \<and> sb_status r = Accepted then {sb_id r} else {}) \<union> accepted_ids p t k rows"
  "accepted_ids p t k [] = {}"
  by (auto simp: accepted_ids_def list_accepted_def)

lemma subject_ids_decide [simp]:
  "subject_ids p t k (accept_submission now i d s rows) = subject_ids p t k rows"
  "subject_ids p t k (reject_submission now i d s rows) = subject_ids p t k rows"
  by (induction rows) (auto simp: decide_defs table_simps for_subject_def)

lemma accepted_ids_accept:
  "accepted_ids p t k (accept_submission now i d s rows) = accepted_ids p t k rows \<union> ({i} \<inter> subject_ids p t k rows)"
  by (induction rows) (auto simp: decide_defs table_simps for_subject_def)

lemma accepted_ids_reject:
  "accepted_ids p t k (reject_submission now i d s rows) = accepted_ids p t k rows - {i}"
  by (induction rows) (auto simp: decide_defs table_simps for_subject_def)

lemma pending_subject: "pending_ids p t k rows \<subseteq> subject_ids p t k rows"
  by (auto simp: pending_ids_def subject_ids_def set_list_pending)

lemma pending_not_accepted:
  assumes "rows_wf sb_id rows"
  shows "pending_ids p t k rows \<inter> accepted_ids p t k rows = {}"
proof (rule ccontr)
  assume "pending_ids p t k rows \<inter> accepted_ids p t k rows \<noteq> {}"
  then obtain r r' where "r \<in> set rows" "r' \<in> set rows" "sb_id r = sb_id r'" "sb_status r = Candidate" "sb_status r' = Accepted"
    by (auto simp: pending_ids_def accepted_ids_def set_list_pending set_list_accepted)
  then show False using rows_wf_inj [OF assms, of r r'] by simp
qed

lemma fold_reject_fields [simp]:
  "qs_nodes (fold (reject_and_strike env sim) subs st) = qs_nodes st"
  "qs_db (fold (reject_and_strike env sim) subs st) = qs_db st"
  "qs_vectors (fold (reject_and_strike env sim) subs st) = qs_vectors st"
  "qs_audit (fold (reject_and_strike env sim) subs st) = qs_audit st"
  by (induction subs arbitrary: st) (simp_all add: reject_and_strike_def)

lemma fold_reject_pending:
  "pending_ids p t k (qs_subs (fold (reject_and_strike env sim) subs st)) =
     pending_ids p t k (qs_subs st) - sb_id ` set subs"
  by (induction subs arbitrary: st) (auto simp: reject_and_strike_def pending_ids_reject)

lemma settle_Nil [simp]: "settle env ag f vs [] st = st"
  by (simp add: settle_def)

lemma settle_Cons [simp]:
  "settle env ag f vs (x # xs) st =
     settle env ag f vs xs
       (if fst x \<in> set ag then accept_and_bump env (cosine_similarity f (vs ! fst x)) (snd x) st
        else reject_and_strike env (Some (cosine_similarity f (vs ! fst x))) (snd x) st)"
  by (simp add: settle_def case_prod_beta Let_def)

lemma settle_fields [simp]:
  "qs_nodes (settle env ag f vs subs st) = qs_nodes st"
  "qs_db (settle env ag f vs subs st) = qs_db st"
  "qs_vectors (settle env ag f vs subs st) = qs_vectors st"
  by (induction subs arbitrary: st) (simp_all add: reject_and_strike_def accept_and_bump_def)

lemma settle_pending:
  "pending_ids p t k (qs_subs (settle env ag f vs subs st)) =
     pending_ids p t k (qs_subs st) - sb_id ` snd ` set subs"
  by (induction subs arbitrary: st)
    (auto simp: reject_and_strike_def accept_and_bump_def pending_ids_reject pending_ids_accept)

lemma settle_subject [simp]:
  "subject_ids p t k (qs_subs (settle env ag f vs subs st)) = subject_ids p t k (qs_subs st)"
  by (induction subs arbitrary: st) (simp_all add: reject_and_strike_def accept_and_bump_def)

lemma settle_accepted:
  assumes "distinct (map (sb_id \<circ> snd) subs)" and "sb_id ` snd ` set subs \<subseteq> subject_ids p t k (qs_subs st)"
  shows "accepted_ids p t k (qs_subs (settle env ag f vs subs st)) =
    accepted_ids p t k (qs_subs st) - sb_id ` snd ` {x \<in> set subs. fst x \<notin> set ag}
      \<union> sb_id ` snd ` {x \<in> set subs. fst x \<in> set ag}"
  using assms
proof (induction subs arbitrary: st)
  case (Cons x xs)
  let ?st = "if fst x \<in> set ag then accept_and_bump env (cosine_similarity f (vs ! fst x)) (snd x) st
        else reject_and_strike env (Some (cosine_similarity f (vs ! fst x))) (snd x) st"
  let ?acc = "\<lambda>ys. sb_id ` snd ` {y \<in> set ys. fst y \<in> set ag}"
  let ?rej = "\<lambda>ys. sb_id ` snd ` {y \<in> set ys. fst y \<notin> set ag}"
  have sub: "subject_ids p t k (qs_subs ?st) = subject_ids p t k (qs_subs st)"
    by (simp add: reject_and_strike_def accept_and_bump_def)
  have ih: "accepted_ids p t k (qs_subs (settle env ag f vs xs ?st)) =
      accepted_ids p t k (qs_subs ?st) - ?rej xs \<union> ?acc xs"
    by (rule Cons.IH) (use Cons.prems in \<open>auto simp: sub\<close>)
  have x: "sb_id (snd x) \<in> subject_ids p t k (qs_subs st)" "sb_id (snd x) \<notin> sb_id ` snd ` set xs"
    using Cons.prems by (auto simp: image_image)
  have step: "accepted_ids p t k (qs_subs ?st) =
      (if fst x \<in> set ag then insert (sb_id (snd x)) (accepted_ids p t k (qs_subs st))
       else accepted_ids p t k (qs_subs st) - {sb_id (snd x)})"
    using x(1) by (simp add: reject_and_strike_def accept_and_bump_def accepted_ids_accept accepted_ids_reject)
  have "?acc (x # xs) = (if fst x \<in> set ag then insert (sb_id (snd x)) (?acc xs) else ?acc xs)"
    "?rej (x # xs) = (if fst x \<in> set ag then ?rej xs else insert (sb_id (snd x)) (?rej xs))"
    by (auto simp: image_image)
  moreover have "sb_id (snd x) \<notin> ?rej xs" using x(2) by (auto simp: image_image)
  ultimately show ?case unfolding settle_Cons ih step by (cases "fst x \<in> set ag") auto
qed simp

lemma hydrate_fields [simp]:
  "qs_nodes (hydrate_node env s f i st) = qs_nodes st" "qs_db (hydrate_node env s f i st) = qs_db st"
  "qs_subs (hydrate_node env s f i st) = qs_subs st" "qs_trust (hydrate_node env s f i st) = qs_trust st"
  by (simp_all add: hydrate_node_def split: option.split)

lemma reassign_fields [simp]:
  "qs_nodes (reassign_rlm_on_divergence cfg env p l s ds n st) = qs_nodes st"
  "qs_subs (reassign_rlm_on_divergence cfg env p l s ds n st) = qs_subs st"
  "qs_trust (reassign_rlm_on_divergence cfg env p l s ds n st) = qs_trust st"
  by (simp_all add: reassign_rlm_on_divergence_def Let_def split: option.split)

lemma cascade_none:
  "get_rlm_node_by_subject p l s (qs_nodes st) = Some nd \<Longrightarrow> nd_buffer nd = None \<Longrightarrow>
     quorum_cascade cfg env p l s st = st"
  by (simp add: quorum_cascade_def)

lemma no_pending: "pending_ids p t k rows = {} \<longleftrightarrow> list_pending p t k rows = []"
  by (simp add: pending_ids_def)

section \<open>The ways a decision ends\<close>

text \<open>Publication in full: the cascade never runs, because the published node has no buffer.\<close>

lemma publish_consensus_result:
  assumes ag: "agreeing \<noteq> []" and inv: "node_history_inv (qs_nodes st)"
  shows "\<exists>j nodes i nid. j \<in> set agreeing \<and>
    publish_rlm_node_for_subject (qe_node_id env) (qe_now_ms env) p l s (sb_text (pending ! j)) []
      (Some (sb_by (pending ! j))) None None ''quorum'' (qs_nodes st) = (nodes, i, nid) \<and>
    publish_consensus cfg env p l s agreeing vectors pending st =
      (hydrate_node env s (sb_text (pending ! j)) i
         (settle env agreeing (centroid agreeing vectors) vectors (enumerate 0 pending) (st\<lparr>qs_nodes := nodes\<rparr>)),
       Quorum_Accepted (sb_text (pending ! j))
         (map (sb_id \<circ> snd) (filter (\<lambda>x. fst x \<in> set agreeing) (enumerate 0 pending)))
         (map (sb_id \<circ> snd) (filter (\<lambda>x. fst x \<notin> set agreeing) (enumerate 0 pending))))"
proof -
  define trust where "trust = (\<lambda>v. if v \<in> set (map sb_by pending)
                                 then Some (snd (read_trust v (qs_trust st))) else None)"
  define j where "j = choose_published (qc_fusion cfg) agreeing pending vectors trust"
  obtain nodes i nid where pub: "publish_rlm_node_for_subject (qe_node_id env) (qe_now_ms env) p l s
      (sb_text (pending ! j)) [] (Some (sb_by (pending ! j))) None None ''quorum'' (qs_nodes st) = (nodes, i, nid)"
    by (metis prod.collapse)
  from publish_live [OF inv pub] obtain nd where
    nd: "get_rlm_node_by_subject p l s nodes = Some nd" "nd_buffer nd = None" by blast
  have j: "j \<in> set agreeing" unfolding j_def using choose_published_max [OF ag] by blast
  have cas: "quorum_cascade cfg env p l s (hydrate_node env s f i st1) = hydrate_node env s f i st1"
    if "qs_nodes st1 = nodes" for f st1
    by (rule cascade_none [OF _ nd(2)]) (simp add: that nd(1))
  show ?thesis
    by (intro exI [of _ j] exI [of _ nodes] exI [of _ i] exI [of _ nid] conjI j pub)
      (simp only: publish_consensus_def Let_def trust_def [symmetric] j_def [symmetric] pub prod.case, simp add: cas)
qed

lemma decide_cases:
  assumes "pending = list_pending p ''rlm_node'' (rlm_job_key p l s) (qs_subs st)"
    and "decide_rlm_quorum cfg env p l s st = (st', d)"
  obtains
    (decided) "pending = []" "st' = st"
      "d = (case list_accepted p ''rlm_node'' (rlm_job_key p l s) (qs_subs st) of
                  win # _ \<Rightarrow> Quorum_Accepted (sb_text win) [sb_id win] [] | [] \<Rightarrow> Quorum_Rejected [])"
  | (waits) "pending \<noteq> []" "st' = st" "d = Quorum_Pending"
      "length pending < quorum_size cfg \<or> qe_embed_batch env (map sb_text pending) = None"
  | (rejects) vectors where "pending \<noteq> []" "quorum_size cfg \<le> length pending"
      "qe_embed_batch env (map sb_text pending) = Some vectors"
      "agreeing_set cfg vectors = [] \<or> length (agreeing_set cfg vectors) < min_clique (quorum_size cfg)"
      "(st', d) = reject_all cfg env p l s pending st"
  | (accepts) vectors where "pending \<noteq> []" "quorum_size cfg \<le> length pending"
      "qe_embed_batch env (map sb_text pending) = Some vectors"
      "agreeing_set cfg vectors \<noteq> []" "min_clique (quorum_size cfg) \<le> length (agreeing_set cfg vectors)"
      "(st', d) = publish_consensus cfg env p l s (agreeing_set cfg vectors) vectors pending st"
  using assms(2) unfolding decide_rlm_quorum_def Let_def assms(1) [symmetric]
  by (cases "pending = []"; cases "length pending < quorum_size cfg"; cases "qe_embed_batch env (map sb_text pending)")
    (fastforce simp: not_less split: if_splits)+

lemma ids_enumerate: "map (sb_id \<circ> snd) (enumerate n subs) = map sb_id subs"
  by (induction subs arbitrary: n) simp_all

lemma set_filter_enumerate:
  "set (map (sb_id \<circ> snd) (filter (\<lambda>x. P (fst x)) (enumerate 0 subs))) =
     (\<lambda>i. sb_id (subs ! i)) ` {i. i < length subs \<and> P i}"
  by (force simp: in_set_enumerate_eq image_iff)

section \<open>Properties of the decision\<close>

text \<open>The similarities of the candidates with indices in a set all reach the threshold.\<close>

definition mutually_agree :: "real \<Rightarrow> embedding list \<Rightarrow> nat set \<Rightarrow> bool" where
  "mutually_agree threshold vectors A \<longleftrightarrow>
     (\<forall>i\<in>A. \<forall>j\<in>A. i < j \<longrightarrow> threshold \<le> cosine_similarity (vectors ! i) (vectors ! j))"

lemma agrees_cosine:
  assumes "A \<subseteq> {..<length vectors}"
  shows "agrees (map (\<lambda>a. map (cosine_similarity a) vectors) vectors) t A \<longleftrightarrow> mutually_agree t vectors A"
  using assms by (auto simp: agrees_def mutually_agree_def subset_iff)

lemma agreeing_set_sound:
  assumes "length vectors < 32" and "vectors \<noteq> []"
  shows "distinct (agreeing_set cfg vectors) \<and> set (agreeing_set cfg vectors) \<subseteq> {..<length vectors} \<and>
    mutually_agree (qc_threshold cfg) vectors (set (agreeing_set cfg vectors))"
proof (cases "quorum_size cfg = 1")
  case True
  then show ?thesis using assms(2) by (simp add: agreeing_set_def mutually_agree_def)
next
  case False
  let ?sims = "map (\<lambda>a. map (cosine_similarity a) vectors) vectors"
  have "length ?sims < 32" using assms(1) by simp
  from clique_agrees [OF this, of "qc_threshold cfg"] False show ?thesis
    using agrees_cosine [of "set (agreeing_set cfg vectors)" vectors] strict_sorted_iff
    by (auto simp: agreeing_set_def mutually_agree_def)
qed

lemma minus_disjoint: "R \<inter> X = {} \<Longrightarrow> X - R \<union> Y = X \<union> Y"
  by blast

lemma disjoint_subset: "X \<subseteq> Y \<Longrightarrow> Y \<inter> Z = {} \<Longrightarrow> X \<inter> Z = {}"
  by blast

lemma accept_facts:
  assumes dec: "decide_rlm_quorum cfg env p l s st = (st', Quorum_Accepted text acc rej)"
    and pending: "pending = list_pending p ''rlm_node'' (rlm_job_key p l s) (qs_subs st)" "pending \<noteq> []"
    and wf: "rows_wf sb_id (qs_subs st)" and inv: "node_history_inv (qs_nodes st)"
    and emb: "qe_embed_batch env (map sb_text pending) = Some vectors" "length vectors = length pending"
    and small: "length pending < 32"
  shows "\<exists>A j. A \<subseteq> {..<length pending} \<and> j \<in> A \<and> min_clique (quorum_size cfg) \<le> card A \<and>
    mutually_agree (qc_threshold cfg) vectors A \<and> text = sb_text (pending ! j) \<and>
    A = set (agreeing_set cfg vectors) \<and>
    set acc = (\<lambda>i. sb_id (pending ! i)) ` A \<and> set rej = (\<lambda>i. sb_id (pending ! i)) ` ({..<length pending} - A) \<and>
    pending_ids p ''rlm_node'' (rlm_job_key p l s) (qs_subs st') = {} \<and>
    accepted_ids p ''rlm_node'' (rlm_job_key p l s) (qs_subs st') =
      accepted_ids p ''rlm_node'' (rlm_job_key p l s) (qs_subs st) \<union> set acc \<and>
    node_history_inv (qs_nodes st') \<and>
    (\<exists>nd. get_rlm_node_by_subject p l s (qs_nodes st') = Some nd \<and> nd_summary nd = text \<and>
       nd_review nd = Review_Approved \<and> nd_reviewed_by nd = Some ''quorum'')"
  using pending(1) dec
proof (cases rule: decide_cases)
  case (accepts vectors')
  have [simp]: "vectors' = vectors" using accepts(3) emb(1) by simp
  let ?ag = "agreeing_set cfg vectors" and ?key = "rlm_job_key p l s"
  have ag: "distinct ?ag" "set ?ag \<subseteq> {..<length pending}" "mutually_agree (qc_threshold cfg) vectors (set ?ag)"
  proof -
    have "vectors \<noteq> []" using emb(2) pending(2) by auto
    then show "distinct ?ag" "set ?ag \<subseteq> {..<length pending}" "mutually_agree (qc_threshold cfg) vectors (set ?ag)"
      using agreeing_set_sound [of vectors cfg] emb(2) small by simp_all
  qed
  from accepts publish_consensus_result [OF accepts(4) inv, of env p l s pending cfg vectors] obtain j nodes i nid where
    j: "j \<in> set ?ag" and pub: "publish_rlm_node_for_subject (qe_node_id env) (qe_now_ms env) p l s (sb_text (pending ! j)) []
      (Some (sb_by (pending ! j))) None None ''quorum'' (qs_nodes st) = (nodes, i, nid)"
    and res: "(st', Quorum_Accepted text acc rej) =
      (hydrate_node env s (sb_text (pending ! j)) i
         (settle env ?ag (centroid ?ag vectors) vectors (enumerate 0 pending) (st\<lparr>qs_nodes := nodes\<rparr>)),
       Quorum_Accepted (sb_text (pending ! j))
         (map (sb_id \<circ> snd) (filter (\<lambda>x. fst x \<in> set ?ag) (enumerate 0 pending)))
         (map (sb_id \<circ> snd) (filter (\<lambda>x. fst x \<notin> set ?ag) (enumerate 0 pending))))"
    by auto
  have acc: "set acc = (\<lambda>i. sb_id (pending ! i)) ` set ?ag"
    using res set_filter_enumerate [of "\<lambda>i. i \<in> set ?ag" pending] ag(2) by (auto simp: subset_iff)
  have rej: "set rej = (\<lambda>i. sb_id (pending ! i)) ` ({..<length pending} - set ?ag)"
  proof -
    have "{i. i < length pending \<and> i \<notin> set ?ag} = {..<length pending} - set ?ag" by auto
    then show ?thesis using res set_filter_enumerate [of "\<lambda>i. i \<notin> set ?ag" pending] by simp
  qed
  let ?st1 = "settle env ?ag (centroid ?ag vectors) vectors (enumerate 0 pending) (st\<lparr>qs_nodes := nodes\<rparr>)"
  have subs: "qs_subs st' = qs_subs ?st1" and nodes: "qs_nodes st' = nodes" using res by simp_all
  have ids: "sb_id ` snd ` set (enumerate 0 pending) = sb_id ` set pending"
    using arg_cong [OF ids_enumerate [of 0 pending], of set] by (simp only: set_map image_comp)
  have pend: "sb_id ` set pending = pending_ids p ''rlm_node'' ?key (qs_subs st)"
    by (simp add: pending_ids_def pending(1))
  have none: "pending_ids p ''rlm_node'' ?key (qs_subs st') = {}"
    by (simp add: subs settle_pending ids pend)
  have dist: "distinct (map (sb_id \<circ> snd) (enumerate 0 pending))"
    unfolding ids_enumerate pending(1) by (rule distinct_ids_list_pending [OF wf])
  have "accepted_ids p ''rlm_node'' ?key (qs_subs st') =
      accepted_ids p ''rlm_node'' ?key (qs_subs st) - sb_id ` snd ` {x \<in> set (enumerate 0 pending). fst x \<notin> set ?ag}
      \<union> sb_id ` snd ` {x \<in> set (enumerate 0 pending). fst x \<in> set ?ag}"
    unfolding subs using settle_accepted [OF dist, of p "''rlm_node''" ?key "st\<lparr>qs_nodes := nodes\<rparr>"]
      pending_subject [of p "''rlm_node''" ?key "qs_subs st"] ids pend by simp
  moreover have "sb_id ` snd ` {x \<in> set (enumerate 0 pending). fst x \<in> set ?ag} = set acc"
    using res by (simp add: image_comp)
  moreover have "sb_id ` snd ` {x \<in> set (enumerate 0 pending). fst x \<notin> set ?ag} \<inter>
      accepted_ids p ''rlm_node'' ?key (qs_subs st) = {}"
  proof -
    have "sb_id ` snd ` {x \<in> set (enumerate 0 pending). fst x \<notin> set ?ag} \<subseteq> pending_ids p ''rlm_node'' ?key (qs_subs st)"
      unfolding pend [symmetric] ids [symmetric] by (intro image_mono) auto
    then show ?thesis by (rule disjoint_subset [OF _ pending_not_accepted [OF wf]])
  qed
  ultimately have ok: "accepted_ids p ''rlm_node'' ?key (qs_subs st') =
      accepted_ids p ''rlm_node'' ?key (qs_subs st) \<union> set acc"
    by (simp only: minus_disjoint)
  from publish_live [OF inv pub] obtain nd where nd: "node_history_inv nodes"
    "get_rlm_node_by_subject p l s nodes = Some nd"
    "nd_summary nd = sb_text (pending ! j)" "nd_review nd = Review_Approved" "nd_reviewed_by nd = Some ''quorum''" by blast
  have body: "text = sb_text (pending ! j)" using res by simp
  have "card (set ?ag) = length ?ag" using ag(1) by (rule distinct_card)
  then show ?thesis
    using ag j accepts(5) body acc rej none ok nd by (intro exI [of _ "set ?ag"] exI [of _ j]) (simp add: nodes)
qed (use pending(2) in \<open>auto simp: reject_all_def\<close>)

text \<open>
  C5: An accepted decision is backed by a quorum. At least \<open>2f + 1\<close> of the pending candidates,
  every two of them at the threshold or above, are accepted and all others rejected; the
  published text is one of theirs and becomes the live approved node; and no candidate is left
  pending.
\<close>

theorem quorum_accept_sound:
  assumes "decide_rlm_quorum cfg env p l s st = (st', Quorum_Accepted text acc rej)"
    and "pending = list_pending p ''rlm_node'' (rlm_job_key p l s) (qs_subs st)" "pending \<noteq> []"
    and "rows_wf sb_id (qs_subs st)" and "node_history_inv (qs_nodes st)"
    and "qe_embed_batch env (map sb_text pending) = Some vectors" "length vectors = length pending"
    and "length pending < 32"
  shows "\<exists>A j. A \<subseteq> {..<length pending} \<and> j \<in> A \<and> min_clique (quorum_size cfg) \<le> card A \<and>
    mutually_agree (qc_threshold cfg) vectors A \<and> text = sb_text (pending ! j) \<and>
    set acc = (\<lambda>i. sb_id (pending ! i)) ` A \<and> set rej = (\<lambda>i. sb_id (pending ! i)) ` ({..<length pending} - A) \<and>
    pending_ids p ''rlm_node'' (rlm_job_key p l s) (qs_subs st') = {} \<and>
    accepted_ids p ''rlm_node'' (rlm_job_key p l s) (qs_subs st') =
      accepted_ids p ''rlm_node'' (rlm_job_key p l s) (qs_subs st) \<union> set acc \<and>
    (\<exists>nd. get_rlm_node_by_subject p l s (qs_nodes st') = Some nd \<and> nd_summary nd = text \<and>
       nd_review nd = Review_Approved \<and> nd_reviewed_by nd = Some ''quorum'')"
  using accept_facts [OF assms] by (elim exE conjE) (intro exI conjI; assumption)

text \<open>Strikes of a volunteer as stored; no row means none.\<close>

definition strikes_of :: "string \<Rightarrow> trust_row list \<Rightarrow> int" where
  "strikes_of v rows = (case trust_of v rows of Some r \<Rightarrow> vt_strikes r | None \<Rightarrow> 0)"

lemma strikes_record: "strikes_of v (fst (record_strike w rows)) = strikes_of v rows + (if v = w then 1 else 0)"
  by (auto simp: strikes_of_def trust_of_strike strike_row_def split: option.split)

lemma fold_reject_strikes:
  "strikes_of v (qs_trust (fold (reject_and_strike env sim) subs st)) =
     strikes_of v (qs_trust st) + int (length (filter (\<lambda>s. sb_by s = v) subs))"
  by (induction subs arbitrary: st) (auto simp: reject_and_strike_def strikes_record)

lemma mutually_agree_card:
  assumes "quorum_size cfg \<noteq> 1" and "length vectors < 32"
    and "A \<subseteq> {..<length vectors}" "2 \<le> card A" "mutually_agree (qc_threshold cfg) vectors A"
  shows "card A \<le> length (agreeing_set cfg vectors)"
proof -
  let ?sims = "map (\<lambda>a. map (cosine_similarity a) vectors) vectors"
  have "card A \<le> length (best_agreeing_clique ?sims (qc_threshold cfg))"
    by (rule conjunct1 [OF clique_optimal])
      (use assms agrees_cosine [OF assms(3)] in simp_all)
  then show ?thesis using assms(1) by (simp add: agreeing_set_def)
qed

text \<open>
  A rejected decision rejects every pending candidate, because no \<open>2f + 1\<close> of them (nor any
  two) agree; each author gets one strike per candidate, no node changes, and none is pending
  any more.
\<close>

theorem quorum_reject_sound:
  assumes "decide_rlm_quorum cfg env p l s st = (st', Quorum_Rejected rej)"
    and "pending = list_pending p ''rlm_node'' (rlm_job_key p l s) (qs_subs st)" "pending \<noteq> []"
    and "qe_embed_batch env (map sb_text pending) = Some vectors" "length vectors = length pending"
    and "length pending < 32" and "2 \<le> qc_n cfg"
  shows "rej = map sb_id pending \<and> qs_nodes st' = qs_nodes st \<and>
    pending_ids p ''rlm_node'' (rlm_job_key p l s) (qs_subs st') = {} \<and>
    strikes_of v (qs_trust st') = strikes_of v (qs_trust st) + int (length (filter (\<lambda>x. sb_by x = v) pending)) \<and>
    (\<forall>A. A \<subseteq> {..<length pending} \<longrightarrow> max 2 (min_clique (quorum_size cfg)) \<le> card A \<longrightarrow>
       \<not> mutually_agree (qc_threshold cfg) vectors A)"
  using assms(2,1)
proof (cases rule: decide_cases)
  case (rejects vectors')
  have [simp]: "vectors' = vectors" using rejects(3) assms(4) by simp
  have st': "st' = reassign_rlm_on_divergence cfg env p l s (first_authors pending) (quorum_size cfg)
        (fold (reject_and_strike env None) pending st)" and rej: "rej = map sb_id pending"
    using rejects(5) by (simp_all add: reject_all_def)
  have "pending_ids p ''rlm_node'' (rlm_job_key p l s) (qs_subs st') = {}"
    unfolding st' reassign_fields fold_reject_pending unfolding pending_ids_def assms(2) by simp
  moreover have "\<not> mutually_agree (qc_threshold cfg) vectors A"
    if A: "A \<subseteq> {..<length pending}" "max 2 (min_clique (quorum_size cfg)) \<le> card A" for A
  proof
    assume "mutually_agree (qc_threshold cfg) vectors A"
    then have "card A \<le> length (agreeing_set cfg vectors)"
      using A assms(5-7) by (intro mutually_agree_card) (auto simp: quorum_size_def)
    then show False using rejects(4) A(2) by auto
  qed
  ultimately show ?thesis using rej by (simp add: st' fold_reject_strikes)
qed (use assms(3) in \<open>auto simp: publish_consensus_def Let_def split: prod.splits\<close>)

section \<open>A concrete round\<close>

definition demo_vec :: "string \<Rightarrow> embedding" where
  "demo_vec t = (if hd t = CHR ''a'' then [1, 0] else [0, 1])"

definition demo_env :: "unit quorum_env" where
  "demo_env = \<lparr>qe_now_s = 7, qe_now_ms = 7000, qe_node_id = ''node'',
     qe_embed_batch = (\<lambda>ts. Some (map demo_vec ts)), qe_embed = (\<lambda>t. Some (demo_vec t)),
     qe_vec_insert = (\<lambda>k v s. s), qe_ser = pl_kind, qe_de = (\<lambda>_. None),
     qe_sign = (\<lambda>token job gen text. token @ text)\<rparr>"

definition demo_cfg :: quorum_config where
  "demo_cfg = \<lparr>qc_n = 3, qc_threshold = 85 / 100, qc_fusion = Consensus, qc_strikes_limit = 3,
     qc_rlm_enabled = True, qc_l2_tolerance = 3 / 10, qc_l3_tolerance = 1 / 2\<rparr>"

definition demo_sub :: "row_id \<Rightarrow> string \<Rightarrow> string \<Rightarrow> submission" where
  "demo_sub i body who = \<lparr>sb_id = i, sb_project = ''p'', sb_type = ''rlm_node'',
     sb_key = rlm_job_key ''p'' 1 ''a.rs'', sb_text = body, sb_by = who,
     sb_similarity = None, sb_status = Candidate, sb_created_at = i,
     sb_decided_at = None, sb_decided_by = None\<rparr>"

definition demo_round :: "submission list \<Rightarrow> unit quorum_state" where
  "demo_round subs = \<lparr>qs_subs = subs, qs_trust = [\<lparr>vt_username = ''ann'', vt_strikes = 0, vt_score = 1 / 2\<rparr>],
     qs_db = empty_queue, qs_nodes = [], qs_vectors = None, qs_audit = []\<rparr>"

definition agreed_subs :: "submission list" where
  "agreed_subs = [demo_sub 1 ''alpha'' ''ann'', demo_sub 2 ''apple'' ''bob'', demo_sub 3 ''beta'' ''eve'']"

definition diverged_subs :: "submission list" where
  "diverged_subs = [demo_sub 1 ''alpha'' ''ann'', demo_sub 2 ''beta'' ''bob'']"

lemma demo_pending:
  "sorted (map sb_created_at subs) \<Longrightarrow> list_all (\<lambda>r. \<exists>i b w. r = demo_sub i b w) subs \<Longrightarrow>
     list_pending ''p'' ''rlm_node'' (rlm_job_key ''p'' 1 ''a.rs'') subs = subs"
proof -
  assume srt: "sorted (map sb_created_at subs)" and all: "list_all (\<lambda>r. \<exists>i b w. r = demo_sub i b w) subs"
  have "filter (\<lambda>r. for_subject ''p'' ''rlm_node'' (rlm_job_key ''p'' 1 ''a.rs'') r \<and> sb_status r = Candidate) subs = subs"
    by (rule filter_True) (use all in \<open>auto simp: list_all_iff for_subject_def demo_sub_def dest!: bspec\<close>)
  then show ?thesis using srt by (simp add: list_pending_def sort_key_id_if_sorted)
qed

lemma agreed_pending:
  "list_pending ''p'' ''rlm_node'' (rlm_job_key ''p'' 1 ''a.rs'') agreed_subs = agreed_subs"
  by (rule demo_pending) (auto simp: agreed_subs_def demo_sub_def)

lemma diverged_pending:
  "list_pending ''p'' ''rlm_node'' (rlm_job_key ''p'' 1 ''a.rs'') diverged_subs = diverged_subs"
  by (rule demo_pending) (auto simp: diverged_subs_def demo_sub_def)

lemma demo_cosine [simp]:
  "cosine_similarity [1, 0] [1, 0] = 1" "cosine_similarity [0, 1] [0, 1] = 1"
  "cosine_similarity [1, 0] [0, 1] = 0" "cosine_similarity [0, 1] [1, 0] = 0"
  by (simp_all add: cosine_similarity_def norm_of_def dot_def clamp_def)

lemma agreed_vectors: "map demo_vec (map sb_text agreed_subs) = [[1, 0], [1, 0], [0, 1]]"
  by (simp add: agreed_subs_def demo_sub_def demo_vec_def)

lemma agreed_set: "agreeing_set demo_cfg [[1, 0], [1, 0], [0, 1]] = [0, 1]"
proof -
  have "best_agreeing_clique [[1, 1, 0], [1, 1, 0], [0, 0, 1]] (85 / 100) = [0, 1]" by code_simp
  then show ?thesis by (simp add: agreeing_set_def demo_cfg_def quorum_size_def)
qed

lemma demo_round_wf:
  "rows_wf sb_id agreed_subs" "rows_wf sb_id diverged_subs"
  by (simp_all add: rows_wf_def agreed_subs_def diverged_subs_def demo_sub_def)

lemma agreed_decision:
  "\<exists>st'. decide_rlm_quorum demo_cfg demo_env ''p'' 1 ''a.rs'' (demo_round agreed_subs) =
     (st', Quorum_Accepted ''apple'' [1, 2] [3])"
proof -
  let ?st = "demo_round agreed_subs"
  have pend: "list_pending ''p'' ''rlm_node'' (rlm_job_key ''p'' 1 ''a.rs'') (qs_subs ?st) = agreed_subs"
    by (simp add: demo_round_def agreed_pending)
  have emb: "qe_embed_batch demo_env (map sb_text agreed_subs) = Some [[1, 0], [1, 0], [0, 1]]"
    using agreed_vectors by (simp add: demo_env_def)
  have len: "length agreed_subs = 3" "agreed_subs \<noteq> []" by (simp_all add: agreed_subs_def)
  have sz: "quorum_size demo_cfg = 3" by (simp add: quorum_size_def demo_cfg_def)
  let ?trust = "\<lambda>v. if v \<in> set (map sb_by agreed_subs) then Some (snd (read_trust v (qs_trust ?st))) else None"
  have cen: "centroid [0, Suc 0] [[1, 0], [1, 0], [0, 1]] = [1, 0]"
    by code_simp
  have pub: "choose_published (qc_fusion demo_cfg) [0, 1] agreed_subs [[1, 0], [1, 0], [0, 1]] ?trust = 1"
    by (simp add: choose_published_def published_score_def cen Let_def demo_cfg_def,
        simp add: agreed_subs_def demo_sub_def read_trust_def trust_of_def demo_round_def)
  have "decide_rlm_quorum demo_cfg demo_env ''p'' 1 ''a.rs'' ?st =
      publish_consensus demo_cfg demo_env ''p'' 1 ''a.rs'' [0, 1] [[1, 0], [1, 0], [0, 1]] agreed_subs ?st"
    using len by (simp add: decide_rlm_quorum_def pend emb agreed_set sz min_clique_def Let_def)
  moreover have "snd (publish_consensus demo_cfg demo_env ''p'' 1 ''a.rs'' [0, 1] [[1, 0], [1, 0], [0, 1]] agreed_subs ?st) =
      Quorum_Accepted ''apple'' [1, 2] [3]"
    unfolding publish_consensus_def Let_def pub
    by (simp add: case_prod_beta, simp add: agreed_subs_def demo_sub_def)
  ultimately show ?thesis by (metis prod.collapse)
qed

lemma quorum_accept_sound_witness:
  "\<exists>st' nd. decide_rlm_quorum demo_cfg demo_env ''p'' 1 ''a.rs'' (demo_round agreed_subs) =
      (st', Quorum_Accepted ''apple'' [1, 2] [3]) \<and>
     get_rlm_node_by_subject ''p'' 1 ''a.rs'' (qs_nodes st') = Some nd \<and> nd_summary nd = ''apple''"
proof -
  obtain st' where dec: "decide_rlm_quorum demo_cfg demo_env ''p'' 1 ''a.rs'' (demo_round agreed_subs) =
      (st', Quorum_Accepted ''apple'' [1, 2] [3])" using agreed_decision by blast
  have "agreed_subs = list_pending ''p'' ''rlm_node'' (rlm_job_key ''p'' 1 ''a.rs'') (qs_subs (demo_round agreed_subs))"
    by (simp add: demo_round_def agreed_pending)
  moreover have "agreed_subs \<noteq> []" "length agreed_subs < 32" by (simp_all add: agreed_subs_def)
  moreover have "rows_wf sb_id (qs_subs (demo_round agreed_subs))" "node_history_inv (qs_nodes (demo_round agreed_subs))"
    by (simp_all add: demo_round_def demo_round_wf)
  moreover have "qe_embed_batch demo_env (map sb_text agreed_subs) = Some (map demo_vec (map sb_text agreed_subs))"
    by (simp add: demo_env_def)
  ultimately show ?thesis
    using quorum_accept_sound [OF dec, of agreed_subs "map demo_vec (map sb_text agreed_subs)"] dec by auto
qed

lemma diverged_decision:
  "decide_rlm_quorum (demo_cfg\<lparr>qc_n := 2\<rparr>) demo_env ''p'' 1 ''a.rs'' (demo_round diverged_subs) =
     reject_all (demo_cfg\<lparr>qc_n := 2\<rparr>) demo_env ''p'' 1 ''a.rs'' diverged_subs (demo_round diverged_subs)"
proof -
  have v: "map demo_vec (map sb_text diverged_subs) = [[1, 0], [0, 1]]"
    by (simp add: diverged_subs_def demo_sub_def demo_vec_def)
  have "best_agreeing_clique [[1, 0], [0, 1]] (85 / 100) = []" by code_simp
  then have "agreeing_set (demo_cfg\<lparr>qc_n := 2\<rparr>) [[1, 0], [0, 1]] = []"
    by (simp add: agreeing_set_def demo_cfg_def quorum_size_def)
  moreover have "qe_embed_batch demo_env (map sb_text diverged_subs) = Some [[1, 0], [0, 1]]"
    using v by (simp add: demo_env_def)
  moreover have "length diverged_subs = 2" "diverged_subs \<noteq> []" by (simp_all add: diverged_subs_def)
  moreover have "qs_subs (demo_round diverged_subs) = diverged_subs" by (simp add: demo_round_def)
  ultimately show ?thesis
    by (simp add: decide_rlm_quorum_def diverged_pending Let_def quorum_size_def demo_cfg_def)
qed

lemma quorum_reject_sound_witness:
  "strikes_of ''bob'' (qs_trust (fst (decide_rlm_quorum (demo_cfg\<lparr>qc_n := 2\<rparr>) demo_env ''p'' 1 ''a.rs''
     (demo_round diverged_subs)))) = 1"
proof -
  let ?cfg = "demo_cfg\<lparr>qc_n := 2\<rparr>"
  obtain st' where dec: "decide_rlm_quorum ?cfg demo_env ''p'' 1 ''a.rs'' (demo_round diverged_subs) =
      (st', Quorum_Rejected (map sb_id diverged_subs))"
    by (simp add: diverged_decision reject_all_def)
  have "diverged_subs = list_pending ''p'' ''rlm_node'' (rlm_job_key ''p'' 1 ''a.rs'') (qs_subs (demo_round diverged_subs))"
    by (simp add: demo_round_def diverged_pending)
  moreover have "diverged_subs \<noteq> []" "length diverged_subs < 32" by (simp_all add: diverged_subs_def)
  moreover have "qe_embed_batch demo_env (map sb_text diverged_subs) = Some (map demo_vec (map sb_text diverged_subs))"
    "length (map demo_vec (map sb_text diverged_subs)) = length diverged_subs" "2 \<le> qc_n ?cfg"
    by (simp_all add: demo_env_def)
  ultimately have "strikes_of ''bob'' (qs_trust st') = strikes_of ''bob'' (qs_trust (demo_round diverged_subs)) +
      int (length (filter (\<lambda>x. sb_by x = ''bob'') diverged_subs))"
    using quorum_reject_sound [OF dec, of diverged_subs] by blast
  then show ?thesis
    unfolding dec fst_conv
    by (simp add: strikes_of_def demo_round_def trust_of_def diverged_subs_def demo_sub_def)
qed

section \<open>Repeating a decision\<close>

lemma decide_empties:
  assumes "decide_rlm_quorum cfg env p l s st = (st', d)" and "d \<noteq> Quorum_Pending"
    and inv: "node_history_inv (qs_nodes st)"
  shows "list_pending p ''rlm_node'' (rlm_job_key p l s) (qs_subs st') = []"
  using refl assms(1)
proof (cases rule: decide_cases)
  case (rejects vectors)
  then have "pending_ids p ''rlm_node'' (rlm_job_key p l s) (qs_subs st') = {}"
    unfolding reject_all_def by (simp only: prod.inject reassign_fields fold_reject_pending)
      (simp only: pending_ids_def Diff_cancel)
  then show ?thesis by (simp add: no_pending)
next
  case (accepts vectors)
  let ?pend = "list_pending p ''rlm_node'' (rlm_job_key p l s) (qs_subs st)"
  from publish_consensus_result [OF accepts(4) inv, of env p l s ?pend cfg vectors] accepts(6)
  obtain j i nodes where "st' = hydrate_node env s (sb_text (?pend ! j)) i
      (settle env (agreeing_set cfg vectors) (centroid (agreeing_set cfg vectors) vectors) vectors
         (enumerate 0 ?pend) (st\<lparr>qs_nodes := nodes\<rparr>))" by auto
  moreover have "sb_id ` snd ` set (enumerate 0 ?pend) = sb_id ` set ?pend"
    using arg_cong [OF ids_enumerate [of 0 ?pend], of set] by (simp only: set_map image_comp)
  ultimately have "pending_ids p ''rlm_node'' (rlm_job_key p l s) (qs_subs st') = {}"
    by (simp add: settle_pending) (simp add: pending_ids_def)
  then show ?thesis by (simp add: no_pending)
qed (use assms(2) in simp_all)

text \<open>
  A decision is made once: after an accepted or rejected decision, deciding the subject again,
  under any configuration and environment, changes nothing, publishes nothing and strikes
  nobody, as long as no new candidate arrives.
\<close>

theorem quorum_decides_once:
  assumes "decide_rlm_quorum cfg env p l s st = (st', d)" and "d \<noteq> Quorum_Pending"
    and "node_history_inv (qs_nodes st)"
  shows "fst (decide_rlm_quorum cfg' env' p l s st') = st'"
  using decide_empties [OF assms] by (simp add: decide_rlm_quorum_def Let_def)

lemma quorum_decides_once_witness:
  "fst (decide_rlm_quorum demo_cfg demo_env ''p'' 1 ''a.rs''
     (fst (decide_rlm_quorum demo_cfg demo_env ''p'' 1 ''a.rs'' (demo_round agreed_subs)))) =
   fst (decide_rlm_quorum demo_cfg demo_env ''p'' 1 ''a.rs'' (demo_round agreed_subs))"
proof -
  obtain st' where dec: "decide_rlm_quorum demo_cfg demo_env ''p'' 1 ''a.rs'' (demo_round agreed_subs) =
      (st', Quorum_Accepted ''apple'' [1, 2] [3])" using agreed_decision by blast
  have "node_history_inv (qs_nodes (demo_round agreed_subs))" by (simp add: demo_round_def)
  from quorum_decides_once [OF dec _ this, of demo_cfg demo_env] show ?thesis by (simp add: dec)
qed

text \<open>
  An accepted submission does not stop a subject from being decided again: when as many new
  candidates as a quorum needs are pending, the decision and the state it leaves are computed
  from them, and the subject's earlier acceptance plays no part in the verdict.
\<close>

theorem quorum_decides_again:
  assumes "pending = list_pending p ''rlm_node'' (rlm_job_key p l s) (qs_subs st)"
    and "pending \<noteq> []" "quorum_size cfg \<le> length pending"
    and "qe_embed_batch env (map sb_text pending) = Some vectors"
    and "list_accepted p ''rlm_node'' (rlm_job_key p l s) (qs_subs st) = win # rest"
  shows "snd (decide_rlm_quorum cfg env p l s st) =
    snd (decide_rlm_quorum cfg env p l s (st\<lparr>qs_subs := pending\<rparr>)) \<and>
    snd (decide_rlm_quorum cfg env p l s st) \<noteq> Quorum_Pending"
proof -
  have same: "list_pending p ''rlm_node'' (rlm_job_key p l s) pending = pending"
  proof -
    have "filter (\<lambda>r. for_subject p ''rlm_node'' (rlm_job_key p l s) r \<and> sb_status r = Candidate) pending = pending"
      by (rule filter_True) (simp add: assms(1) set_list_pending)
    moreover have "sorted (map sb_created_at pending)" by (simp add: assms(1) list_pending_def)
    ultimately show ?thesis by (simp add: list_pending_def sort_key_id_if_sorted)
  qed
  have pub: "snd (publish_consensus cfg env p l s ag vectors pending st) =
      snd (publish_consensus cfg env p l s ag vectors pending (st\<lparr>qs_subs := pending\<rparr>))" for ag
    by (simp add: publish_consensus_def Let_def case_prod_beta cong: if_cong)
  have np: "snd (publish_consensus cfg env p l s ag vectors pending st) \<noteq> Quorum_Pending" for ag
    by (simp add: publish_consensus_def Let_def case_prod_beta)
  show ?thesis
    using assms(2-4) pub np
    by (simp add: decide_rlm_quorum_def Let_def same assms(1) [symmetric] reject_all_def)
qed

definition settled_subs :: "submission list" where
  "settled_subs = (demo_sub 9 ''old'' ''zed'')\<lparr>sb_status := Accepted\<rparr> # agreed_subs"

lemma quorum_decides_again_witness:
  "list_accepted ''p'' ''rlm_node'' (rlm_job_key ''p'' 1 ''a.rs'') settled_subs \<noteq> [] \<and>
   snd (decide_rlm_quorum demo_cfg demo_env ''p'' 1 ''a.rs'' (demo_round settled_subs)) =
     Quorum_Accepted ''apple'' [1, 2] [3]"
proof -
  let ?key = "rlm_job_key ''p'' 1 ''a.rs''"
  have acc: "list_accepted ''p'' ''rlm_node'' ?key settled_subs = [(demo_sub 9 ''old'' ''zed'')\<lparr>sb_status := Accepted\<rparr>]"
    by (simp add: list_accepted_def settled_subs_def agreed_subs_def for_subject_def demo_sub_def)
  have pend: "agreed_subs = list_pending ''p'' ''rlm_node'' ?key (qs_subs (demo_round settled_subs))"
    using agreed_pending by (simp add: list_pending_def settled_subs_def for_subject_def demo_sub_def demo_round_def)
  have emb: "qe_embed_batch demo_env (map sb_text agreed_subs) = Some (map demo_vec (map sb_text agreed_subs))"
    by (simp add: demo_env_def)
  have len: "agreed_subs \<noteq> []" "quorum_size demo_cfg \<le> length agreed_subs"
    by (simp_all add: agreed_subs_def quorum_size_def demo_cfg_def)
  have acc': "list_accepted ''p'' ''rlm_node'' ?key (qs_subs (demo_round settled_subs)) =
      (demo_sub 9 ''old'' ''zed'')\<lparr>sb_status := Accepted\<rparr> # []"
    using acc by (simp add: demo_round_def)
  have "demo_round settled_subs\<lparr>qs_subs := agreed_subs\<rparr> = demo_round agreed_subs" by (simp add: demo_round_def)
  then show ?thesis
    using quorum_decides_again [OF pend len emb acc'] agreed_decision acc by auto
qed

section \<open>The Byzantine bound\<close>

text \<open>
  C16: Take a round of a well-formed state with \<open>n\<close> candidates (fewer than 32) of \<open>n\<close> different volunteers and
  a quorum of \<open>n\<close>, \<open>f = (n - 1) div 3\<close> and \<open>d = (n - 1) mod 3\<close>, so
  \<open>n = 3f + 1 + d\<close>. The accepted set of a decision and any set of candidates large enough to
  be accepted share at least \<open>f + 1 - d\<close> candidates; so when at most \<open>f - d\<close> volunteers are
  faulty, whoever they are, an honest volunteer stands in both. For \<open>n = 3f + 1\<close> these are
  \<open>f\<close> faulty volunteers, for \<open>n = 3f + 2\<close> one less.
\<close>

theorem quorum_overlap:
  fixes F :: "string set"
  assumes "decide_rlm_quorum cfg env p l s st = (st', Quorum_Accepted text acc rej)"
    and "pending = list_pending p ''rlm_node'' (rlm_job_key p l s) (qs_subs st)" "pending \<noteq> []"
    and "rows_wf sb_id (qs_subs st)" and "node_history_inv (qs_nodes st)"
    and "qe_embed_batch env (map sb_text pending) = Some vectors" "length vectors = length pending"
    and "length pending < 32"
    and n: "length pending = n" "quorum_size cfg = n" and f: "f = (n - 1) div 3" "d = (n - 1) mod 3"
    and S: "S \<subseteq> {..<n}" "min_clique n \<le> card S"
    and F: "distinct (map sb_by pending)" "finite F" "card F + d \<le> f"
  shows "f + 1 - d \<le> card {i \<in> S. sb_id (pending ! i) \<in> set acc} \<and>
    (\<exists>i\<in>S. sb_id (pending ! i) \<in> set acc \<and> sb_by (pending ! i) \<notin> F)"
proof -
  from accept_facts [OF assms(1-8)] obtain A where
    A: "A \<subseteq> {..<n}" "min_clique n \<le> card A" "set acc = (\<lambda>i. sb_id (pending ! i)) ` A"
    unfolding n by blast
  let ?shared = "{i \<in> S. sb_id (pending ! i) \<in> set acc}"
  have "0 < n" using assms(3) n(1) by auto
  then have nf: "n = 3 * f + 1 + d" using f div_mult_mod_eq [of "n - 1" 3] by linarith
  have mc: "min_clique n = 2 * f + 1" by (simp add: min_clique_def f)
  have fin: "finite A" "finite S" using A(1) S(1) by (auto intro: finite_subset)
  have "card (A \<union> S) \<le> n" using card_mono [of "{..<n}" "A \<union> S"] A(1) S(1) by simp
  moreover have "card A + card S = card (A \<union> S) + card (A \<inter> S)" by (rule card_Un_Int [OF fin])
  ultimately have "f + 1 - d \<le> card (A \<inter> S)" using A(2) S(2) mc nf by simp
  also have "\<dots> \<le> card ?shared" by (rule card_mono) (use fin A(3) in auto)
  finally have shared: "f + 1 - d \<le> card ?shared" .
  have "inj_on (\<lambda>i. sb_by (pending ! i)) {..<n}"
    using F(1) n(1) by (auto simp: inj_on_def distinct_conv_nth)
  then have "card ((\<lambda>i. sb_by (pending ! i)) ` ?shared) = card ?shared"
    by (intro card_image) (rule inj_on_subset, use S(1) in auto)
  then have "card F < card ((\<lambda>i. sb_by (pending ! i)) ` ?shared)" using shared F(3) by linarith
  then have "\<not> (\<lambda>i. sb_by (pending ! i)) ` ?shared \<subseteq> F" using card_mono [OF F(2)] by (meson not_le)
  then show ?thesis using shared by blast
qed

definition four_subs :: "submission list" where
  "four_subs = [demo_sub 1 ''alpha'' ''ann'', demo_sub 2 ''apple'' ''bob'', demo_sub 3 ''acorn'' ''eve'', demo_sub 4 ''beta'' ''joe'']"

lemma quorum_overlap_witness:
  "2 \<le> card {i \<in> {1::nat, 2, 3}. sb_id (four_subs ! i) \<in> {1, 2, 3}} \<and>
   (\<exists>i\<in>{1::nat, 2, 3}. sb_id (four_subs ! i) \<in> {1, 2, 3} \<and> sb_by (four_subs ! i) \<noteq> ''bob'')"
proof -
  let ?cfg = "demo_cfg\<lparr>qc_n := 4\<rparr>" and ?vs = "[[1, 0], [1, 0], [1, 0], [0, 1]] :: embedding list"
  have pend: "four_subs = list_pending ''p'' ''rlm_node'' (rlm_job_key ''p'' 1 ''a.rs'') (qs_subs (demo_round four_subs))"
    by (simp add: demo_round_def, rule demo_pending [symmetric]) (auto simp: four_subs_def demo_sub_def)
  have emb: "qe_embed_batch demo_env (map sb_text four_subs) = Some ?vs"
    by (simp add: demo_env_def four_subs_def demo_sub_def demo_vec_def)
  have "best_agreeing_clique [[1, 1, 1, 0], [1, 1, 1, 0], [1, 1, 1, 0], [0, 0, 0, 1]] (85 / 100) = [0, 1, 2]" by code_simp
  then have ag: "agreeing_set ?cfg ?vs = [0, 1, 2]" by (simp add: agreeing_set_def demo_cfg_def quorum_size_def)
  have len: "length four_subs = 4" "four_subs \<noteq> []" by (simp_all add: four_subs_def)
  have "\<exists>st' body rej. decide_rlm_quorum ?cfg demo_env ''p'' 1 ''a.rs'' (demo_round four_subs) = (st', Quorum_Accepted body [1, 2, 3] rej)"
    by (simp add: decide_rlm_quorum_def Let_def pend [symmetric] emb ag len quorum_size_def min_clique_def
        publish_consensus_def case_prod_beta) (simp add: four_subs_def demo_sub_def)
  then obtain st' body rej where dec:
    "decide_rlm_quorum ?cfg demo_env ''p'' 1 ''a.rs'' (demo_round four_subs) = (st', Quorum_Accepted body [1, 2, 3] rej)" by blast
  have wf: "rows_wf sb_id (qs_subs (demo_round four_subs))" "node_history_inv (qs_nodes (demo_round four_subs))"
    by (simp_all add: demo_round_def rows_wf_def four_subs_def demo_sub_def)
  have au: "distinct (map sb_by four_subs)" by (simp add: four_subs_def demo_sub_def)
  have "1 + 1 - 0 \<le> card {i \<in> {1::nat, 2, 3}. sb_id (four_subs ! i) \<in> set [1, 2, 3]} \<and>
      (\<exists>i\<in>{1::nat, 2, 3}. sb_id (four_subs ! i) \<in> set [1, 2, 3] \<and> sb_by (four_subs ! i) \<notin> {''bob''})"
    by (rule quorum_overlap [OF dec pend len(2) wf emb _ _ len(1), where f = 1 and d = 0])
      (simp_all add: len quorum_size_def min_clique_def au)
  then show ?thesis by simp
qed

text \<open>
  For \<open>n = 3f + 3\<close> the bound does not make the result unique: among six candidates with
  orthogonal embeddings in two camps of three, both camps agree and reach \<open>2f + 1\<close>.
\<close>

theorem quorum_bound_gap:
  "min_clique 6 = 3 \<and>
   mutually_agree (85 / 100) (map demo_vec [''a1'', ''a2'', ''a3'', ''b1'', ''b2'', ''b3'']) {0, 1, 2} \<and>
   mutually_agree (85 / 100) (map demo_vec [''a1'', ''a2'', ''a3'', ''b1'', ''b2'', ''b3'']) {3, 4, 5} \<and>
   card {0::nat, 1, 2} = 3 \<and> card {3::nat, 4, 5} = 3 \<and> {0::nat, 1, 2} \<inter> {3, 4, 5} = {}"
proof -
  have v: "map demo_vec [''a1'', ''a2'', ''a3'', ''b1'', ''b2'', ''b3''] =
      [[1, 0], [1, 0], [1, 0], [0, 1], [0, 1], [0, 1]]" by (simp add: demo_vec_def)
  show ?thesis unfolding v by (simp add: min_clique_def mutually_agree_def)
qed

text \<open>
  Asking again returns another text than the one published: the replay answers with the
  oldest accepted submission, while the decision published the most trusted one.
\<close>

theorem quorum_replay_differs:
  "\<exists>st' nd. decide_rlm_quorum demo_cfg demo_env ''p'' 1 ''a.rs'' (demo_round agreed_subs) =
      (st', Quorum_Accepted ''apple'' [1, 2] [3]) \<and>
     get_rlm_node_by_subject ''p'' 1 ''a.rs'' (qs_nodes st') = Some nd \<and> nd_summary nd = ''apple'' \<and>
     decide_rlm_quorum demo_cfg demo_env ''p'' 1 ''a.rs'' st' = (st', Quorum_Accepted ''alpha'' [1] [])"
proof -
  let ?st = "demo_round agreed_subs" and ?key = "rlm_job_key ''p'' 1 ''a.rs''"
  obtain st' where dec: "decide_rlm_quorum demo_cfg demo_env ''p'' 1 ''a.rs'' ?st =
      (st', Quorum_Accepted ''apple'' [1, 2] [3])" using agreed_decision by blast
  have pend: "agreed_subs = list_pending ''p'' ''rlm_node'' ?key (qs_subs ?st)"
    by (simp add: demo_round_def agreed_pending)
  have inv: "node_history_inv (qs_nodes ?st)" by (simp add: demo_round_def)
  have ne: "agreed_subs \<noteq> []" "length agreed_subs < 32" by (simp_all add: agreed_subs_def)
  have emb: "qe_embed_batch demo_env (map sb_text agreed_subs) = Some (map demo_vec (map sb_text agreed_subs))"
    by (simp add: demo_env_def)
  have wf: "rows_wf sb_id (qs_subs ?st)" by (simp add: demo_round_def demo_round_wf)
  from accept_facts [OF dec pend ne(1) wf inv emb _ ne(2)] obtain nd where
    nd: "get_rlm_node_by_subject ''p'' 1 ''a.rs'' (qs_nodes st') = Some nd" "nd_summary nd = ''apple''" by auto
  have none: "list_pending ''p'' ''rlm_node'' ?key (qs_subs st') = []"
    by (rule decide_empties [OF dec _ inv]) simp
  obtain f i nodes where st': "st' = hydrate_node demo_env ''a.rs'' f i
      (settle demo_env [0, 1] (centroid [0, 1] [[1, 0], [1, 0], [0, 1]]) [[1, 0], [1, 0], [0, 1]]
         (enumerate 0 agreed_subs) (?st\<lparr>qs_nodes := nodes\<rparr>))"
    using refl dec
  proof (cases rule: decide_cases)
    case (accepts vectors)
    have "vectors = [[1, 0], [1, 0], [0, 1]]" using accepts(3) emb agreed_vectors pend by simp
    note ag = this
    show ?thesis
      using publish_consensus_result [OF accepts(4) inv, of demo_env "''p''" 1 "''a.rs''" agreed_subs demo_cfg vectors]
        accepts(6) that unfolding ag agreed_set pend [symmetric] by auto
  qed (use ne pend in simp_all, simp add: reject_all_def)
  have "list_accepted ''p'' ''rlm_node'' ?key (qs_subs st') \<noteq> [] \<and>
      sb_id (hd (list_accepted ''p'' ''rlm_node'' ?key (qs_subs st'))) = 1 \<and>
      sb_text (hd (list_accepted ''p'' ''rlm_node'' ?key (qs_subs st'))) = ''alpha''"
    by (simp add: st' agreed_subs_def demo_round_def accept_and_bump_def reject_and_strike_def decide_defs
        update_where_def list_accepted_def for_subject_def demo_sub_def)
  then have "decide_rlm_quorum demo_cfg demo_env ''p'' 1 ''a.rs'' st' = (st', Quorum_Accepted ''alpha'' [1] [])"
    using none by (auto simp: decide_rlm_quorum_def Let_def split: list.split)
  then show ?thesis using dec nd by blast
qed

section \<open>Re-fan-out\<close>

text \<open>
  The re-fan-out after a divergence is bounded: at the generation cap, or when every known
  volunteer is banned or diverged and the roster is large enough, it changes nothing. When it
  does act on a subject whose jobs are finished, the generation grows by one, the new slots
  carry the last job's payload at retry priority, and none of the divergers is allowed on them.
\<close>

theorem refanout_exact:
  assumes "last_job p l s (qs_db st) = Some lj" and "filter (of_subject p l s) (jobs (qs_db st)) = e # es"
    and "\<not> list_ex live_job (e # es)" and "divergers \<noteq> []"
    and "slot_keys_free \<lparr>nj_buffer = jb_buffer lj, nj_project = p, nj_level = l, nj_subject = s,
           nj_payload = jb_payload lj, nj_priority = priority_retry, nj_slots = n\<rparr>
           (filter (\<lambda>r. \<not> of_subject p l s r) (jobs (qs_db st)))"
  shows "if qc_strikes_limit cfg \<le> as_u32 (current_generation p l s (qs_db st)) \<or>
        n \<le> length (qs_trust st) \<and>
        (\<forall>r\<in>set (qs_trust st). vt_username r \<in> set divergers \<or>
           (\<exists>r'\<in>set (qs_trust st). vt_username r' = vt_username r \<and> qc_strikes_limit cfg \<le> as_u32 (vt_strikes r')))
    then reassign_rlm_on_divergence cfg env p l s divergers n st = st
    else \<exists>new g. jobs (qs_db (reassign_rlm_on_divergence cfg env p l s divergers n st)) =
            filter (\<lambda>r. \<not> of_subject p l s r) (jobs (qs_db st)) @ new \<and>
         length new = max 1 n \<and>
         (\<forall>r\<in>set new. of_subject p l s r \<and> jb_status r = Pending \<and> jb_generation r = jb_generation e + 1 \<and>
            jb_group r = Some g \<and> jb_payload r = jb_payload lj \<and> jb_priority r = priority_retry) \<and>
         (\<forall>v\<in>set divergers. v \<noteq> [] \<longrightarrow>
            (g, v) \<in> set (exclusions (qs_db (reassign_rlm_on_divergence cfg env p l s divergers n st))))"
proof -
  let ?job = "\<lparr>nj_buffer = jb_buffer lj, nj_project = p, nj_level = l, nj_subject = s,
           nj_payload = jb_payload lj, nj_priority = priority_retry, nj_slots = n\<rparr>"
  let ?limit = "qc_strikes_limit cfg"
  let ?cap = "?limit \<le> as_u32 (current_generation p l s (qs_db st))"
  let ?rest = "filter (\<lambda>r. \<not> of_subject p l s r) (jobs (qs_db st))"
  let ?g = "next_group (jobs (qs_db st))"
  let ?banned = "map vt_username (filter (\<lambda>r. ?limit \<le> as_u32 (vt_strikes r)) (qs_trust st))"
  let ?spent = "n \<le> length (qs_trust st) \<and> length (filter (\<lambda>v. v \<notin> set ?banned \<and> v \<notin> set divergers)
      (map vt_username (qs_trust st))) = 0"
  have spent: "?spent \<longleftrightarrow> n \<le> length (qs_trust st) \<and>
        (\<forall>r\<in>set (qs_trust st). vt_username r \<in> set divergers \<or>
           (\<exists>r'\<in>set (qs_trust st). vt_username r' = vt_username r \<and> ?limit \<le> as_u32 (vt_strikes r')))"
  proof -
    have "v \<in> set ?banned \<longleftrightarrow> (\<exists>r'\<in>set (qs_trust st). vt_username r' = v \<and> ?limit \<le> as_u32 (vt_strikes r'))" for v
      by auto
    then show ?thesis by (simp add: filter_empty_conv) blast
  qed
  show ?thesis
  proof (cases "?cap \<or> ?spent")
    case True
    then have "reassign_rlm_on_divergence cfg env p l s divergers n st = st"
      using assms(4) by (auto simp: reassign_rlm_on_divergence_def Let_def)
    then show ?thesis using True spent by (simp only: if_True)
  next
    case False
    have sel: "nj_project ?job = p" "nj_level ?job = l" "nj_subject ?job = s" "nj_slots ?job = n" by simp_all
    obtain new where new: "insert_rlm_slots ?job (max 1 n) (rlm_job_key p l s) ?g (jb_generation e + 1) (qe_now_ms env) ?rest =
        (?rest @ new, Inr (next_rowid jb_id ?rest))"
      "map jb_key new = map (slot_key (rlm_job_key p l s) (max 1 n)) [0..<max 1 n]"
      "list_all (fresh_slot ?job ?g (jb_generation e + 1)) new"
      using insert_rlm_slots_ok [OF assms(5) refl refl, of ?g "jb_generation e + 1" "qe_now_ms env"]
      unfolding sel by metis
    let ?db' = "\<lparr>jobs = ?rest @ new, exclusions = insert_rlm_exclusions ?g divergers (exclusions (qs_db st))\<rparr>"
    have "fst (enqueue_rlm_job (qe_now_ms env) ?job divergers (qs_db st)) = ?db'"
      using assms(2-4) new(1) by (simp add: enqueue_rlm_job_def Let_def)
    then have re: "reassign_rlm_on_divergence cfg env p l s divergers n st = st\<lparr>qs_db := ?db'\<rparr>"
      using False assms(1,4) by (auto simp: reassign_rlm_on_divergence_def Let_def)
    have "length new = max 1 n" using arg_cong [OF new(2), of length] by simp
    moreover have "\<forall>r\<in>set new. of_subject p l s r \<and> jb_status r = Pending \<and> jb_generation r = jb_generation e + 1 \<and>
            jb_group r = Some ?g \<and> jb_payload r = jb_payload lj \<and> jb_priority r = priority_retry"
      using new(3) by (auto simp: list_all_iff fresh_slot_def of_subject_def)
    moreover have "(?g, v) \<in> set (insert_rlm_exclusions ?g divergers ex)" if "v \<in> set divergers" "v \<noteq> []" for v ex
      using that by (auto simp: insert_rlm_exclusions_set)
    ultimately show ?thesis using False spent re by auto
  qed
qed

lemma refanout_exact_witness:
  "\<exists>new g. jobs (qs_db (reassign_rlm_on_divergence demo_cfg demo_env ''p'' 1 ''a.rs'' [''ann''] 2
        (demo_round []\<lparr>qs_db := done_queue\<rparr>))) = new \<and> length new = 2 \<and>
     (g, ''ann'') \<in> set (exclusions (qs_db (reassign_rlm_on_divergence demo_cfg demo_env ''p'' 1 ''a.rs'' [''ann''] 2
        (demo_round []\<lparr>qs_db := done_queue\<rparr>))))"
proof -
  let ?st = "demo_round []\<lparr>qs_db := done_queue\<rparr>"
  define e where "e = hd (jobs done_queue)"
  have j: "jobs done_queue = [e]" unfolding e_def by code_simp
  have e: "jb_generation e = 0" "jb_status e = Done" "of_subject ''p'' 1 ''a.rs'' e"
    unfolding e_def by code_simp+
  have last: "last_job ''p'' 1 ''a.rs'' (qs_db ?st) = Some e" using j e(3) by (simp add: last_job_def)
  have f: "filter (of_subject ''p'' 1 ''a.rs'') (jobs (qs_db ?st)) = e # []" using j e(3) by simp
  have nolive: "\<not> list_ex live_job (e # [])" using e(2) by (simp add: live_job_def)
  have free: "slot_keys_free job (filter (\<lambda>r. \<not> of_subject ''p'' 1 ''a.rs'' r) (jobs (qs_db ?st)))" for job
    using j e(3) by (simp add: slot_keys_free_def Let_def list_all_iff)
  have rest: "filter (\<lambda>r. \<not> of_subject ''p'' 1 ''a.rs'' r) (jobs (qs_db ?st)) = []" using j e(3) by simp
  have gen: "current_generation ''p'' 1 ''a.rs'' (qs_db ?st) = 0"
    using j e by (simp add: current_generation_def max_or_zero_def)
  have tr: "length (qs_trust ?st) = 1" "qc_strikes_limit demo_cfg = 3" by (simp_all add: demo_round_def demo_cfg_def)
  from refanout_exact [OF last f nolive _ free, where divergers = "[''ann'']" and n = 2 and cfg = demo_cfg and env = demo_env] gen tr rest
  show ?thesis by auto
qed

section \<open>How often a subject is fanned out again\<close>

text \<open>
  A publication changes the queue only through its cascade, which is a few operations of the queue on
  the parent's subject.
\<close>

lemma theme_of_clean: "CHR ''#'' \<notin> set s \<Longrightarrow> CHR ''#'' \<notin> set (theme_of s)"
  by (auto simp: theme_of_def dest: set_takeWhileD)

lemma cascade_queue_ops:
  assumes "clean_name p s"
  shows "\<exists>ops. list_all clean_op ops \<and>
    snd (fst (cascade_rlm now ser de b p l s tol n (nodes, db))) = queue_run ops db"
proof -
  have none: "\<exists>ops. list_all clean_op ops \<and> db = queue_run ops db"
    by (rule exI [of _ "[]"]) simp
  have reset: "\<exists>ops. list_all clean_op ops \<and>
      update_rlm_job_payload now p pl ps body (fst (cancel_rlm_jobs_for_subjects now p [(pl, ps)] db)) = queue_run ops db"
    for pl ps body
    by (rule exI [of _ "[Op_Cancel now p [(pl, ps)], Op_Payload now p pl ps body]"]) simp
  have enq: "\<exists>ops. list_all clean_op ops \<and> fst (enqueue_rlm_job now job [] db) = queue_run ops db"
    if "clean_name (nj_project job) (nj_subject job)" for job
    by (rule exI [of _ "[Op_Enqueue now job []]"]) (simp add: that)
  have par: "clean_name p ps" if "parent_of p l s = Some (pl, ps)" for pl ps
    using that assms theme_of_clean [of s] by (auto simp: parent_of_def clean_name_def split: if_splits)
  show ?thesis
    unfolding cascade_rlm_def Let_def
    by (auto simp: case_prod_beta none reset intro!: enq dest: par split: option.split simp del: cancel_rlm_jobs_for_subjects.simps)
qed

lemma publish_queue_ops:
  assumes "clean_name p s"
  shows "\<exists>ops. list_all clean_op ops \<and>
    qs_db (fst (publish_consensus cfg env p l s ag vectors pending st)) = queue_run ops (qs_db st)"
proof -
  have casc: "\<exists>ops. list_all clean_op ops \<and> qs_db (quorum_cascade cfg env p l s st') = queue_run ops (qs_db st')" for st'
  proof (cases "quorum_cascade cfg env p l s st' = st'")
    case True
    then show ?thesis by (intro exI [of _ "[]"]) simp
  next
    case False
    then show ?thesis
      using cascade_queue_ops [OF assms, of "qe_now_ms env" "qe_ser env" "qe_de env"]
      by (auto simp: quorum_cascade_def Let_def case_prod_beta split: option.splits if_splits)
  qed
  show ?thesis
    unfolding publish_consensus_def Let_def case_prod_beta fst_conv
    using casc [of "hydrate_node env s _ _ (settle env ag _ vectors _ (st\<lparr>qs_nodes := _\<rparr>))"] by simp
qed

text \<open>
  A run of the whole: operations of the queue, decisions about any subject, and anything that changes
  the other tables (submissions, trust, nodes). A round of re-fan-out of a subject is a decision
  that rejects its candidates and changes the queue.
\<close>

datatype 'v refan_op =
    Queue_Op queue_op
  | Other_Tables "'v quorum_state"
  | Decide "'v quorum_env" string int string

fun refan_step :: "quorum_config \<Rightarrow> 'v refan_op \<Rightarrow> 'v quorum_state \<Rightarrow> 'v quorum_state" where
  "refan_step cfg (Queue_Op op) st = st\<lparr>qs_db := queue_step op (qs_db st)\<rparr>"
| "refan_step cfg (Other_Tables st') st = st'\<lparr>qs_db := qs_db st\<rparr>"
| "refan_step cfg (Decide env p l s) st = fst (decide_rlm_quorum cfg env p l s st)"

fun refan_run :: "quorum_config \<Rightarrow> 'v refan_op list \<Rightarrow> 'v quorum_state \<Rightarrow> 'v quorum_state" where
  "refan_run cfg [] st = st"
| "refan_run cfg (op # ops) st = refan_run cfg ops (refan_step cfg op st)"

fun refan_clean :: "'v refan_op \<Rightarrow> bool" where
  "refan_clean (Queue_Op op) \<longleftrightarrow> clean_op op"
| "refan_clean (Other_Tables _) \<longleftrightarrow> True"
| "refan_clean (Decide env p l s) \<longleftrightarrow> clean_name p s"

fun refans :: "quorum_config \<Rightarrow> string \<Rightarrow> int \<Rightarrow> string \<Rightarrow> 'v refan_op \<Rightarrow> 'v quorum_state \<Rightarrow> bool" where
  "refans cfg p l s (Decide env p' l' s') st \<longleftrightarrow>
     p' = p \<and> l' = l \<and> s' = s \<and>
     (case decide_rlm_quorum cfg env p l s st of
        (st', Quorum_Rejected _) \<Rightarrow> qs_db st' \<noteq> qs_db st | _ \<Rightarrow> False)"
| "refans cfg p l s _ st \<longleftrightarrow> False"

fun count_refans :: "quorum_config \<Rightarrow> string \<Rightarrow> int \<Rightarrow> string \<Rightarrow> 'v refan_op list \<Rightarrow> 'v quorum_state \<Rightarrow> nat" where
  "count_refans cfg p l s [] st = 0"
| "count_refans cfg p l s (op # ops) st =
     (if refans cfg p l s op st then 1 else 0) + count_refans cfg p l s ops (refan_step cfg op st)"

lemma first_authors_nonempty: "subs \<noteq> [] \<Longrightarrow> first_authors subs \<noteq> []"
proof -
  have ne: "acc \<noteq> [] \<Longrightarrow> fold (\<lambda>s acc. if sb_by s \<in> set acc then acc else acc @ [sb_by s]) xs acc \<noteq> []" for acc xs
    by (induction xs arbitrary: acc) simp_all
  show "subs \<noteq> [] \<Longrightarrow> first_authors subs \<noteq> []" by (cases subs) (simp_all add: first_authors_def ne)
qed

text \<open>A rejection leaves the queue alone or enqueues the subject below the cap, with exclusions.\<close>

lemma reject_all_queue:
  assumes "pending \<noteq> []"
  obtains (kept) "qs_db (fst (reject_all cfg env p l s pending st)) = qs_db st"
    | (enqueued) job ex where "ex \<noteq> []" "nj_project job = p" "nj_level job = l" "nj_subject job = s"
      "as_u32 (current_generation p l s (qs_db st)) < qc_strikes_limit cfg"
      "qs_db (fst (reject_all cfg env p l s pending st)) = fst (enqueue_rlm_job (qe_now_ms env) job ex (qs_db st))"
proof -
  let ?st = "fold (reject_and_strike env None) pending st" and ?ex = "first_authors pending"
  have db: "qs_db ?st = qs_db st" by simp
  have "qs_db (fst (reject_all cfg env p l s pending st)) = qs_db st \<or>
    (\<exists>job. nj_project job = p \<and> nj_level job = l \<and> nj_subject job = s \<and>
      as_u32 (current_generation p l s (qs_db st)) < qc_strikes_limit cfg \<and>
      qs_db (fst (reject_all cfg env p l s pending st)) = fst (enqueue_rlm_job (qe_now_ms env) job ?ex (qs_db st)))"
  proof (cases "qs_db (fst (reject_all cfg env p l s pending st)) = qs_db st")
    case False
    obtain buf pl where bp: "(case last_job p l s (qs_db st) of Some r \<Rightarrow> (jb_buffer r, jb_payload r) | None \<Rightarrow> (None, ''{}'')) = (buf, pl)"
      by fastforce
    let ?job = "\<lparr>nj_buffer = buf, nj_project = p, nj_level = l, nj_subject = s, nj_payload = pl,
      nj_priority = priority_retry, nj_slots = quorum_size cfg\<rparr>"
    have "as_u32 (current_generation p l s (qs_db st)) < qc_strikes_limit cfg \<and>
        qs_db (fst (reject_all cfg env p l s pending st)) = fst (enqueue_rlm_job (qe_now_ms env) ?job ?ex (qs_db st))"
      using False by (simp add: reject_all_def reassign_rlm_on_divergence_def Let_def bp split: if_splits)
    then show ?thesis by (intro disjI2 exI [of _ ?job]) simp
  qed simp
  then show ?thesis using first_authors_nonempty [OF assms] kept enqueued by blast
qed

lemma current_generation_ge:
  assumes "generation_reached p l s k db"
  shows "int k \<le> current_generation p l s db"
proof (cases "filter (of_subject p l s) (jobs db)")
  case Nil
  then show ?thesis using assms by (auto simp: generation_reached_def filter_empty_conv current_generation_def max_or_zero_def)
next
  case (Cons r rs)
  then have "r \<in> set (jobs db)" "of_subject p l s r" by (auto simp: filter_eq_Cons_iff)
  then have "int k \<le> jb_generation r" using assms by (simp add: generation_reached_def)
  moreover have "jb_generation r \<le> current_generation p l s db"
    unfolding current_generation_def Cons by (rule max_or_zero_ge) simp
  ultimately show ?thesis by simp
qed

lemma refan_step_keeps:
  assumes "refan_clean op" "list_all clean_row (jobs (qs_db st))"
  shows "list_all clean_row (jobs (qs_db (refan_step cfg op st)))"
    and "generation_reached p l s k (qs_db st) \<Longrightarrow> generation_reached p l s k (qs_db (refan_step cfg op st))"
    and "refans cfg p l s op st \<Longrightarrow> generation_reached p l s k (qs_db st) \<Longrightarrow>
      as_u32 (current_generation p l s (qs_db st)) < qc_strikes_limit cfg \<and>
      generation_reached p l s (Suc k) (qs_db (refan_step cfg op st))"
proof -
  let ?db = "qs_db st" and ?db' = "qs_db (refan_step cfg op st)"
  have "list_all clean_row (jobs ?db') \<and> (generation_reached p l s k ?db \<longrightarrow> generation_reached p l s k ?db') \<and>
    (refans cfg p l s op st \<longrightarrow> generation_reached p l s k ?db \<longrightarrow>
      as_u32 (current_generation p l s ?db) < qc_strikes_limit cfg \<and> generation_reached p l s (Suc k) ?db')"
  proof (cases op)
    case (Queue_Op qop)
    then show ?thesis using queue_step_keeps [of qop ?db] assms by simp
  next
    case (Other_Tables st')
    then show ?thesis using assms by simp
  next
    case (Decide env p' l' s')
    obtain st' d where dec: "decide_rlm_quorum cfg env p' l' s' st = (st', d)" by fastforce
    have clean: "clean_name p' s'" using assms(1) Decide by simp
    have db': "?db' = qs_db st'" using Decide dec by simp
    have ref: "p' = p \<and> l' = l \<and> s' = s \<and> (\<exists>x. d = Quorum_Rejected x) \<and> qs_db st' \<noteq> ?db"
      if "refans cfg p l s op st"
      using that dec unfolding Decide by (auto split: quorum_decision.splits)
    let ?pending = "list_pending p' ''rlm_node'' (rlm_job_key p' l' s') (qs_subs st)"
    from refl dec show ?thesis
    proof (cases rule: decide_cases)
      case decided
      then show ?thesis using assms(2) db' ref by auto
    next
      case waits
      then show ?thesis using assms(2) db' ref by auto
    next
      case (rejects vectors)
      then have st': "st' = fst (reject_all cfg env p' l' s' ?pending st)" "d = snd (reject_all cfg env p' l' s' ?pending st)"
        by (metis fst_conv, metis snd_conv)
      from rejects(1) show ?thesis
      proof (cases rule: reject_all_queue [of ?pending cfg env p' l' s' st])
        case kept
        then show ?thesis using assms(2) db' ref st'(1) by auto
      next
        case (enqueued job ex)
        have e: "?db' = fst (enqueue_rlm_job (qe_now_ms env) job ex ?db)" using enqueued(6) st'(1) db' by simp
        have cj: "clean_name (nj_project job) (nj_subject job)" using clean enqueued by simp
        have "as_u32 (current_generation p l s ?db) < qc_strikes_limit cfg \<and> generation_reached p l s (Suc k) ?db'"
          if r: "refans cfg p l s op st" and g: "generation_reached p l s k ?db"
        proof -
          have same: "p' = p" "l' = l" "s' = s" and ch: "qs_db st' \<noteq> ?db"
            using ref [OF r] by auto
          have "generation_reached p l s (Suc k) (fst (enqueue_rlm_job (qe_now_ms env) job ex ?db))"
            using enqueue_advances [OF assms(2) cj enqueued(1), of "qe_now_ms env" k] ch g e db' enqueued(2-4) same by simp
          then show ?thesis using enqueued(5) same e by simp
        qed
        then show ?thesis using enqueue_keeps [OF assms(2) cj] e by simp
      qed
    next
      case (accepts vectors)
      then have st': "st' = fst (publish_consensus cfg env p' l' s' (agreeing_set cfg vectors) vectors ?pending st)"
        and d: "\<exists>t a r. d = Quorum_Accepted t a r"
        by (metis fst_conv, simp add: publish_consensus_def Let_def case_prod_beta)
      have nr: "\<not> refans cfg p l s op st" using d ref by auto
      obtain ops where "list_all clean_op ops" "?db' = queue_run ops ?db"
        using publish_queue_ops [OF clean, of cfg env l' "agreeing_set cfg vectors" vectors ?pending st] st' db' by auto
      then show ?thesis using queue_run_keeps [OF _ assms(2)] nr by simp
    qed
  qed
  then show "list_all clean_row (jobs ?db')"
    and "generation_reached p l s k ?db \<Longrightarrow> generation_reached p l s k ?db'"
    and "refans cfg p l s op st \<Longrightarrow> generation_reached p l s k ?db \<Longrightarrow>
      as_u32 (current_generation p l s ?db) < qc_strikes_limit cfg \<and> generation_reached p l s (Suc k) ?db'" by auto
qed

lemma count_refans_bound:
  assumes "list_all refan_clean ops" "list_all clean_row (jobs (qs_db st))" "generation_reached p l s k (qs_db st)"
    and "\<And>m. current_generation p l s (qs_db (refan_run cfg (take m ops) st)) < 2 ^ 32"
  shows "count_refans cfg p l s ops st \<le> qc_strikes_limit cfg - k"
  using assms
proof (induction ops arbitrary: st k)
  case (Cons op ops)
  note keep = refan_step_keeps [of op st, OF _ Cons.prems(2)]
  let ?st = "refan_step cfg op st"
  have fits: "current_generation p l s (qs_db (refan_run cfg (take m ops) ?st)) < 2 ^ 32" for m
    using Cons.prems(4) [of "Suc m"] by simp
  have clean: "refan_clean op" "list_all refan_clean ops" "list_all clean_row (jobs (qs_db ?st))"
    using Cons.prems(1) keep(1) by simp_all
  show ?case
  proof (cases "refans cfg p l s op st")
    case True
    note step = keep(3) [OF clean(1) True Cons.prems(3)]
    have "as_u32 (current_generation p l s (qs_db st)) = nat (current_generation p l s (qs_db st))"
      using current_generation_ge [OF Cons.prems(3)] Cons.prems(4) [of 0] by simp
    then have "k < qc_strikes_limit cfg" using step current_generation_ge [OF Cons.prems(3)] by linarith
    moreover have "count_refans cfg p l s ops ?st \<le> qc_strikes_limit cfg - Suc k"
      using Cons.IH [OF clean(2,3) conjunct2 [OF step] fits] .
    ultimately show ?thesis using True by simp
  next
    case False
    then show ?thesis using Cons.IH [OF clean(2,3) keep(2) [OF clean(1) Cons.prems(3)] fits] by simp
  qed
qed simp

text \<open>
  C17: However queue operations, decisions and changes of the other tables follow each other, a subject
  is fanned out again after a rejection at most as often as the strikes limit says. Names are
  clean and the rows at the start have the keys of their subjects, so that keys tell subjects
  apart, and the generation of the subject stays in the 32 bits it is read with.
\<close>

theorem quorum_refanout_bounded:
  assumes "list_all refan_clean ops" and "list_all clean_row (jobs (qs_db st))"
    and "\<And>m. current_generation p l s (qs_db (refan_run cfg (take m ops) st)) < 2 ^ 32"
  shows "count_refans cfg p l s ops st \<le> qc_strikes_limit cfg"
proof -
  have "generation_reached p l s 0 (qs_db st)"
    using assms(2) by (auto simp: generation_reached_def list_all_iff clean_row_def)
  from count_refans_bound [OF assms(1,2) this assms(3)] show ?thesis by simp
qed

text \<open>A round in which two candidates differ and a third volunteer is known: it counts as one.\<close>

definition refan_state :: "unit quorum_state" where
  "refan_state = (demo_round diverged_subs)\<lparr>qs_trust := [\<lparr>vt_username = ''eve'', vt_strikes = 0, vt_score = 1\<rparr>]\<rparr>"

lemma refan_decision:
  "decide_rlm_quorum (demo_cfg\<lparr>qc_n := 2\<rparr>) demo_env ''p'' 1 ''a.rs'' refan_state =
     reject_all (demo_cfg\<lparr>qc_n := 2\<rparr>) demo_env ''p'' 1 ''a.rs'' diverged_subs refan_state"
proof -
  have "best_agreeing_clique [[1, 0], [0, 1]] (85 / 100) = []" by code_simp
  then have "agreeing_set (demo_cfg\<lparr>qc_n := 2\<rparr>) [[1, 0], [0, 1]] = []"
    by (simp add: agreeing_set_def demo_cfg_def quorum_size_def)
  moreover have "qe_embed_batch demo_env (map sb_text diverged_subs) = Some [[1, 0], [0, 1]]"
    by (simp add: demo_env_def diverged_subs_def demo_sub_def demo_vec_def)
  moreover have "length diverged_subs = 2" "diverged_subs \<noteq> []" by (simp_all add: diverged_subs_def)
  moreover have "qs_subs refan_state = diverged_subs" by (simp add: refan_state_def demo_round_def)
  ultimately show ?thesis
    by (simp add: decide_rlm_quorum_def diverged_pending Let_def quorum_size_def demo_cfg_def)
qed

lemma quorum_refanout_bounded_witness:
  "count_refans (demo_cfg\<lparr>qc_n := 2\<rparr>) ''p'' 1 ''a.rs'' [Decide demo_env ''p'' 1 ''a.rs''] refan_state = 1 \<and>
   count_refans (demo_cfg\<lparr>qc_n := 2\<rparr>) ''p'' 1 ''a.rs'' [Decide demo_env ''p'' 1 ''a.rs''] refan_state \<le> 3"
proof -
  let ?cfg = "demo_cfg\<lparr>qc_n := 2\<rparr>" and ?ops = "[Decide demo_env ''p'' 1 ''a.rs'']"
  let ?st = "fst (reject_all ?cfg demo_env ''p'' 1 ''a.rs'' diverged_subs refan_state)"
  have gen: "current_generation ''p'' 1 ''a.rs'' (qs_db ?st) = 1" by code_simp
  have gen0: "current_generation ''p'' 1 ''a.rs'' (qs_db refan_state) = 0" by code_simp
  have "list_all clean_row (jobs (qs_db refan_state))"
    by (simp add: refan_state_def demo_round_def empty_queue_def)
  moreover have "list_all refan_clean ?ops" by (simp add: clean_name_def)
  moreover have "current_generation ''p'' 1 ''a.rs'' (qs_db (refan_run ?cfg (take m ?ops) refan_state)) < 2 ^ 32" for m
    by (cases m) (simp_all add: refan_decision gen gen0)
  ultimately have "count_refans ?cfg ''p'' 1 ''a.rs'' ?ops refan_state \<le> qc_strikes_limit ?cfg"
    by (intro quorum_refanout_bounded)
  moreover have "refans ?cfg ''p'' 1 ''a.rs'' (Decide demo_env ''p'' 1 ''a.rs'') refan_state"
    using gen gen0 by (auto simp: refan_decision reject_all_def)
  ultimately show ?thesis by (simp add: demo_cfg_def)
qed

section \<open>File summaries under a quorum\<close>

lemma map_unique_subject:
  assumes "rows_wf jb_id rows" "r \<in> set rows"
  shows "update_where (\<lambda>s. jb_id s = jb_id r) f rows = map (\<lambda>s. if s = r then f s else s) rows"
  unfolding update_where_def
proof (rule map_cong [OF refl])
  fix s assume "s \<in> set rows"
  then have "(jb_id s = jb_id r) = (s = r)" using rows_wf_inj [OF assms(1) _ assms(2)] by blast
  then show "(if jb_id s = jb_id r then f s else s) = (if s = r then f s else s)" by simp
qed

text \<open>
  A subject with a single slot, as indexing enqueues every file, is never decided when the
  quorum asks for two or more: its only candidate is staged, the job is done, the answer is
  "awaiting more volunteers", no node changes, and no volunteer can claim a job of the subject.
\<close>

theorem rlm_single_slot_starves:
  assumes "jobs_inv (jobs (qs_db st))" and "r \<in> set (jobs (qs_db st))"
    and "jb_status r = Claimed" "jb_claimed_by r = Some w" "jb_lease r = Some lease" "qe_now_ms env \<le> lease"
    and only: "\<forall>s\<in>set (jobs (qs_db st)). of_subject (jb_project r) (jb_level r) (jb_subject r) s \<longrightarrow> s = r"
    and none: "list_pending (jb_project r) ''rlm_node'' (rlm_job_key (jb_project r) (jb_level r) (jb_subject r)) (qs_subs st) = []"
    and "2 \<le> qc_n cfg" and "qe_sign env token (jb_id r) (jb_generation r) body = mac"
  shows "\<exists>st'. decide_quorum_submission cfg env r w token (jb_generation r) body (jb_id r) mac st =
      (st', Submit_Reply False ''quorum pending: awaiting more volunteers'' []) \<and>
    qs_nodes st' = qs_nodes st \<and>
    (\<exists>c. list_pending (jb_project r) ''rlm_node'' (rlm_job_key (jb_project r) (jb_level r) (jb_subject r)) (qs_subs st') = [c] \<and>
       sb_text c = body \<and> sb_by c = w) \<and>
    (\<forall>s\<in>set (jobs (qs_db st')). of_subject (jb_project r) (jb_level r) (jb_subject r) s \<longrightarrow>
       \<not> (\<exists>v ml limit trust. claimable v ml limit trust (qs_db st') s))"
proof -
  let ?p = "jb_project r" and ?l = "jb_level r" and ?s = "jb_subject r"
  let ?key = "rlm_job_key ?p ?l ?s" and ?db = "qs_db st" and ?now = "qe_now_ms env"
  let ?db' = "?db\<lparr>jobs := update_where (\<lambda>s. jb_id s = jb_id r) (done_row ?now) (jobs ?db)\<rparr>"
  have lv: "lease_valid ?now w (jb_generation r) r" using assms(4-6) by (simp add: lease_valid_def)
  have compl: "complete_rlm_job ?now (jb_id r) w (jb_generation r) ?db = (?db', True)"
    using complete_cases [OF assms(1,2) refl, of ?now w "jb_generation r"] assms(3) lv by simp
  let ?subs = "fst (insert_submission (qe_now_s env) ?p ''rlm_node'' ?key body w (qs_subs st))"
  have pend: "\<exists>c. list_pending ?p ''rlm_node'' ?key ?subs = [c] \<and> sb_text c = body \<and> sb_by c = w"
    using none by (simp add: insert_submission_def Let_def list_pending_def for_subject_def sort_key_Nil_iff)
  have small: "length (list_pending ?p ''rlm_node'' ?key ?subs) < quorum_size cfg"
    using pend assms(9) by (auto simp: quorum_size_def)
  let ?st' = "st\<lparr>qs_db := ?db', qs_subs := ?subs,
      qs_audit := qs_audit st @ [(?p, w, ''submit_rlm_candidate'', Some ?key, None)]\<rparr>"
  have "decide_rlm_quorum cfg env ?p ?l ?s ?st' = (?st', Quorum_Pending)"
    using pend small by (auto simp: decide_rlm_quorum_def Let_def)
  then have res: "decide_quorum_submission cfg env r w token (jb_generation r) body (jb_id r) mac st =
      (?st', Submit_Reply False ''quorum pending: awaiting more volunteers'' [])"
    using assms(10) compl by (simp add: decide_quorum_submission_def Let_def)
  have "\<not> claimable v ml limit trust ?db' s"
    if "s \<in> set (jobs ?db')" "of_subject ?p ?l ?s s" for s v ml limit trust
  proof -
    from that(1) obtain s0 where s0: "s0 \<in> set (jobs ?db)" "s = (if s0 = r then done_row ?now s0 else s0)"
      using map_unique_subject [OF jobs_invD(1) [OF assms(1)] assms(2)] by auto
    then have "of_subject ?p ?l ?s s0" using that(2) by (auto simp: of_subject_def done_row_def split: if_splits)
    then have "s0 = r" using only s0(1) by blast
    then show ?thesis using s0(2) by (simp add: claimable_def done_row_def)
  qed
  then show ?thesis using res pend by (intro exI [of _ ?st']) auto
qed

lemma rlm_single_slot_starves_witness:
  "\<exists>st' r. decide_quorum_submission demo_cfg demo_env r ''ann'' ''t'' 0 ''alpha'' 1 ''talpha''
      (demo_round []\<lparr>qs_db := queue_run [Op_Enqueue 0 (demo_job 1) [], Op_Claim 10 ''ann'' 500000 None 3 []] empty_queue\<rparr>) =
      (st', Submit_Reply False ''quorum pending: awaiting more volunteers'' [])"
proof -
  define db where "db = queue_run [Op_Enqueue 0 (demo_job 1) [], Op_Claim 10 ''ann'' 500000 None 3 []] empty_queue"
  define r where "r = hd (jobs db)"
  have j: "jobs db = [r]" unfolding r_def db_def by code_simp
  have f: "jb_status r = Claimed" "jb_claimed_by r = Some ''ann''" "jb_lease r = Some 500010"
    "jb_generation r = 0" "jb_id r = 1"
    unfolding r_def db_def by code_simp+
  have "queue_reachable db" unfolding db_def by (rule queue_run_reachable [OF queue_reachable.start])
  then have inv: "jobs_inv (jobs (qs_db (demo_round []\<lparr>qs_db := db\<rparr>)))"
    using queue_reachable_inv by simp
  have m: "r \<in> set (jobs (qs_db (demo_round []\<lparr>qs_db := db\<rparr>)))"
    "\<forall>s\<in>set (jobs (qs_db (demo_round []\<lparr>qs_db := db\<rparr>))). of_subject (jb_project r) (jb_level r) (jb_subject r) s \<longrightarrow> s = r"
    using j by simp_all
  have c: "qe_now_ms demo_env \<le> 500010" "2 \<le> qc_n demo_cfg"
    "qe_sign demo_env ''t'' (jb_id r) (jb_generation r) ''alpha'' = ''talpha''"
    by (simp_all add: demo_env_def demo_cfg_def)
  have p: "list_pending (jb_project r) ''rlm_node'' (rlm_job_key (jb_project r) (jb_level r) (jb_subject r))
      (qs_subs (demo_round []\<lparr>qs_db := db\<rparr>)) = []"
    by (simp add: demo_round_def list_pending_def)
  from rlm_single_slot_starves [OF inv m(1) f(1-3) c(1) m(2) p c(2,3)] show ?thesis
    unfolding f db_def by blast
qed

end
