(* ===== verification/Access.thy ===== *)
theory Access
  imports Prelude
begin

text \<open>
  Who may call the server: refresh tokens and sessions
  (\<^verbatim>\<open>crates/arags-storage/src/sqlite/tokens/{mod,session}.rs\<close>), the bearer check
  (\<^verbatim>\<open>crates/arags-server/src/auth/mod.rs\<close>) and the rate limiter
  (\<^verbatim>\<open>crates/arags-server/src/ratelimit/mod.rs\<close>). The hash of a refresh token (SHA-256 with
  a pepper), the random tokens and the ids are arguments. Lemmas: a revoked token never opens
  or carries a session again; every accepted session goes back to a refresh with the token's
  hash within its lifetime; the limiter's bounds.
\<close>

section \<open>Roles and tokens\<close>

datatype role = Admin | Non_Admin

definition role_as_str :: "role \<Rightarrow> string" where
  "role_as_str r = (case r of Admin \<Rightarrow> ''admin'' | Non_Admin \<Rightarrow> ''non_admin'')"

definition role_from_str :: "string \<Rightarrow> role option" where
  "role_from_str s = (if s = ''admin'' then Some Admin else if s = ''non_admin'' then Some Non_Admin else None)"

lemma role_roundtrip [simp]: "role_from_str (role_as_str r) = Some r"
  by (cases r) (simp_all add: role_from_str_def role_as_str_def)

definition refresh_token_ttl_ms :: millis where
  "refresh_token_ttl_ms = 365 * 24 * 60 * 60 * 1000"

definition session_token_ttl_ms :: millis where
  "session_token_ttl_ms = 5 * 60 * 1000"

record auth_token =
  tk_id :: string
  tk_username :: string
  tk_role :: string
  tk_hash :: string
  tk_created :: millis
  tk_expires :: millis
  tk_created_by :: string
  tk_revoked :: bool
  tk_revoked_at :: "millis option"
  tk_revoked_by :: "string option"

record auth_session =
  se_id :: string
  se_token_id :: string
  se_created :: millis
  se_expires :: millis

record auth_db =
  au_tokens :: "auth_token list"
  au_sessions :: "auth_session list"

record new_token =
  nt_username :: string
  nt_role :: role
  nt_created_by :: string

text \<open>A stored role that does not parse counts as \<open>non_admin\<close>.\<close>

definition token_role :: "auth_token \<Rightarrow> role" where
  "token_role t = (case role_from_str (tk_role t) of Some r \<Rightarrow> r | None \<Rightarrow> Non_Admin)"

text \<open>A repeated primary key is an error: \<^const>\<open>None\<close>.\<close>

definition create_token ::
  "(string \<Rightarrow> string) \<Rightarrow> millis \<Rightarrow> string \<Rightarrow> string \<Rightarrow> new_token \<Rightarrow> auth_db
     \<Rightarrow> auth_db \<times> (string \<times> string) option" where
  "create_token hash now i refresh new db =
     (if list_ex (\<lambda>t. tk_id t = i) (au_tokens db) then (db, None)
      else (db\<lparr>au_tokens := au_tokens db @
              [\<lparr>tk_id = i, tk_username = nt_username new, tk_role = role_as_str (nt_role new),
                tk_hash = hash refresh, tk_created = now, tk_expires = now + refresh_token_ttl_ms,
                tk_created_by = nt_created_by new, tk_revoked = False, tk_revoked_at = None,
                tk_revoked_by = None\<rparr>]\<rparr>, Some (i, refresh)))"

datatype revoke_by = By_Id string | By_Username string

fun revoke_matches :: "revoke_by \<Rightarrow> auth_token \<Rightarrow> bool" where
  "revoke_matches (By_Id v) t = (tk_id t = v)"
| "revoke_matches (By_Username v) t = (tk_username t = v)"

definition revoke_row :: "millis \<Rightarrow> string \<Rightarrow> auth_token \<Rightarrow> auth_token" where
  "revoke_row now who t = t\<lparr>tk_revoked := True, tk_revoked_at := Some now, tk_revoked_by := Some who\<rparr>"

definition revoke_tokens :: "millis \<Rightarrow> revoke_by \<Rightarrow> string \<Rightarrow> auth_db \<Rightarrow> auth_db \<times> bool" where
  "revoke_tokens now by_what who db =
     (let hit = (\<lambda>t. revoke_matches by_what t \<and> \<not> tk_revoked t);
          changed = count_where hit (au_tokens db);
          toks = update_where hit (revoke_row now who) (au_tokens db);
          gone = map tk_id (filter tk_revoked toks)
      in (\<lparr>au_tokens = toks,
           au_sessions = (if 0 < changed then filter (\<lambda>s. se_token_id s \<notin> set gone) (au_sessions db)
                          else au_sessions db)\<rparr>, 0 < changed))"

definition revoke_token_by_id :: "millis \<Rightarrow> string \<Rightarrow> string \<Rightarrow> auth_db \<Rightarrow> auth_db \<times> bool" where
  "revoke_token_by_id now i who db = revoke_tokens now (By_Id i) who db"

definition revoke_token_by_username :: "millis \<Rightarrow> string \<Rightarrow> string \<Rightarrow> auth_db \<Rightarrow> auth_db \<times> bool" where
  "revoke_token_by_username now u who db = revoke_tokens now (By_Username u) who db"

definition revoke_all_tokens :: "millis \<Rightarrow> string \<Rightarrow> auth_db \<Rightarrow> auth_db \<times> nat" where
  "revoke_all_tokens now who db =
     (\<lparr>au_tokens = update_where (\<lambda>t. \<not> tk_revoked t) (revoke_row now who) (au_tokens db), au_sessions = []\<rparr>,
      count_where (\<lambda>t. \<not> tk_revoked t) (au_tokens db))"

definition list_tokens :: "auth_db \<Rightarrow> (auth_token \<times> role) list" where
  "list_tokens db = map (\<lambda>t. (t, token_role t)) (sort_key (\<lambda>t. - tk_created t) (au_tokens db))"

section \<open>Sessions\<close>

definition usable_token :: "millis \<Rightarrow> auth_token \<Rightarrow> bool" where
  "usable_token now t \<longleftrightarrow> \<not> tk_revoked t \<and> now < tk_expires t"

definition create_session ::
  "(string \<Rightarrow> string) \<Rightarrow> millis \<Rightarrow> string \<Rightarrow> string \<Rightarrow> auth_db
     \<Rightarrow> auth_db \<times> (string \<times> string \<times> role \<times> millis) option" where
  "create_session hash now session_id refresh db =
     (case List.find (\<lambda>t. tk_hash t = hash refresh \<and> usable_token now t) (au_tokens db) of
        None \<Rightarrow> (db, None)
      | Some t \<Rightarrow>
          if list_ex (\<lambda>s. se_id s = session_id) (au_sessions db) then (db, None)
          else (db\<lparr>au_sessions := au_sessions db @
                  [\<lparr>se_id = session_id, se_token_id = tk_id t, se_created = now,
                    se_expires = now + session_token_ttl_ms\<rparr>]\<rparr>,
                Some (session_id, tk_username t, token_role t, now + session_token_ttl_ms)))"

text \<open>The join of \<open>validate_session\<close>: session rows in order, then their tokens in order.\<close>

definition validate_session :: "millis \<Rightarrow> string \<Rightarrow> auth_db \<Rightarrow> (string \<times> role) option" where
  "validate_session now session_id db =
     (case filter (\<lambda>(s, t). tk_id t = se_token_id s \<and> se_id s = session_id \<and> now < se_expires s \<and> usable_token now t)
             (List.product (au_sessions db) (au_tokens db)) of
        [] \<Rightarrow> None
      | (s, t) # _ \<Rightarrow> Some (tk_username t, token_role t))"

section \<open>Bearer tokens\<close>

datatype header_value = No_Header | Opaque_Header | Text_Header string

datatype rpc_status = Unauthenticated string | Permission_Denied string | Resource_Exhausted | Invalid_Argument string | Not_Found string
  | Internal string | Unavailable string

definition strip_prefix :: "string \<Rightarrow> string \<Rightarrow> string option" where
  "strip_prefix p s = (if take (length p) s = p then Some (drop (length p) s) else None)"

definition bearer :: "header_value \<Rightarrow> rpc_status + string" where
  "bearer h =
     (case h of
        No_Header \<Rightarrow> Inl (Unauthenticated ''missing authorization header'')
      | Opaque_Header \<Rightarrow> Inl (Unauthenticated ''authorization header is not valid UTF-8'')
      | Text_Header v \<Rightarrow>
          (case (case strip_prefix ''Bearer '' v of Some t \<Rightarrow> Some t | None \<Rightarrow> strip_prefix ''bearer '' v) of
             None \<Rightarrow> Inl (Unauthenticated ''authorization must be a Bearer token'')
           | Some t \<Rightarrow> if t = [] then Inl (Unauthenticated ''empty bearer token'') else Inr t))"

record auth_context =
  ac_username :: string
  ac_role :: role

definition is_admin :: "auth_context \<Rightarrow> bool" where
  "is_admin ctx \<longleftrightarrow> ac_role ctx = Admin"

definition authenticate :: "millis \<Rightarrow> header_value \<Rightarrow> auth_db \<Rightarrow> rpc_status + auth_context" where
  "authenticate now h db =
     (case bearer h of
        Inl e \<Rightarrow> Inl e
      | Inr token \<Rightarrow>
          (case validate_session now token db of
             None \<Rightarrow> Inl (Unauthenticated ''invalid or expired session'')
           | Some (u, r) \<Rightarrow> Inr \<lparr>ac_username = u, ac_role = r\<rparr>))"

definition require_admin :: "auth_context \<Rightarrow> rpc_status + unit" where
  "require_admin ctx =
     (if is_admin ctx then Inr () else Inl (Permission_Denied ''admin role required for this operation''))"

section \<open>Rate limiter\<close>

record rate_limit_config =
  rl_enabled :: bool
  rl_max :: nat
  rl_window :: nat

record bucket =
  bk_count :: nat
  bk_start :: nat

type_synonym buckets = "string \<rightharpoonup> bucket"

text \<open>\<open>saturating_sub\<close> on \<open>u64\<close> is the truncated difference of naturals.\<close>

definition rate_check :: "rate_limit_config \<Rightarrow> string \<Rightarrow> nat \<Rightarrow> buckets \<Rightarrow> buckets \<times> bool" where
  "rate_check cfg username now m =
     (if \<not> rl_enabled cfg then (m, True)
      else let b = (case m username of Some b \<Rightarrow> b | None \<Rightarrow> \<lparr>bk_count = 0, bk_start = now\<rparr>);
               b1 = (if rl_window cfg \<le> now - bk_start b then \<lparr>bk_count = 0, bk_start = now\<rparr> else b)
           in if rl_max cfg \<le> bk_count b1 then (m(username \<mapsto> b1), False)
              else (m(username \<mapsto> b1\<lparr>bk_count := bk_count b1 + 1\<rparr>), True))"

section \<open>Runs of the token store\<close>

datatype auth_op =
    Create_Token millis string string new_token
  | Revoke millis revoke_by string
  | Revoke_All millis string
  | Refresh millis string string

fun auth_step :: "(string \<Rightarrow> string) \<Rightarrow> auth_op \<Rightarrow> auth_db \<Rightarrow> auth_db" where
  "auth_step hash (Create_Token now i refresh new) db = fst (create_token hash now i refresh new db)"
| "auth_step hash (Revoke now by_what who) db = fst (revoke_tokens now by_what who db)"
| "auth_step hash (Revoke_All now who) db = fst (revoke_all_tokens now who db)"
| "auth_step hash (Refresh now sid refresh) db = fst (create_session hash now sid refresh db)"

definition auth_run :: "(string \<Rightarrow> string) \<Rightarrow> auth_op list \<Rightarrow> auth_db \<Rightarrow> auth_db" where
  "auth_run hash ops db = fold (auth_step hash) ops db"

definition empty_auth :: auth_db where
  "empty_auth = \<lparr>au_tokens = [], au_sessions = []\<rparr>"

lemma auth_run_snoc: "auth_run hash (ops @ [x]) db = auth_step hash x (auth_run hash ops db)"
  by (simp add: auth_run_def)

lemma auth_run_Nil [simp]: "auth_run hash [] db = db"
  by (simp add: auth_run_def)

text \<open>Token ids are distinct, session ids are distinct.\<close>

definition auth_inv :: "auth_db \<Rightarrow> bool" where
  "auth_inv db \<longleftrightarrow> distinct (map tk_id (au_tokens db)) \<and> distinct (map se_id (au_sessions db))"

definition token_dead :: "string \<Rightarrow> auth_db \<Rightarrow> bool" where
  "token_dead i db \<longleftrightarrow> (\<exists>t\<in>set (au_tokens db). tk_id t = i) \<and> (\<forall>t\<in>set (au_tokens db). tk_id t = i \<longrightarrow> tk_revoked t)"

lemma revoke_row_simps [simp]:
  "tk_id (revoke_row now who t) = tk_id t" "tk_revoked (revoke_row now who t)"
  "tk_hash (revoke_row now who t) = tk_hash t" "tk_expires (revoke_row now who t) = tk_expires t"
  "tk_username (revoke_row now who t) = tk_username t" "tk_role (revoke_row now who t) = tk_role t"
  by (simp_all add: revoke_row_def)

lemma token_dead_update:
  assumes "token_dead i db" and "\<And>t. tk_id (f t) = tk_id t" and "\<And>t. tk_revoked t \<Longrightarrow> tk_revoked (f t)"
  shows "token_dead i \<lparr>au_tokens = update_where p f (au_tokens db), au_sessions = ss\<rparr>"
proof -
  from assms(1) obtain t where t: "t \<in> set (au_tokens db)" "tk_id t = i" by (auto simp: token_dead_def)
  then have "(if p t then f t else t) \<in> set (update_where p f (au_tokens db))" "tk_id (if p t then f t else t) = i"
    using assms(2) by (auto simp: in_set_update_where)
  moreover have "tk_revoked u" if "u \<in> set (update_where p f (au_tokens db))" "tk_id u = i" for u
  proof -
    from that(1) obtain u0 where "u0 \<in> set (au_tokens db)" "u = (if p u0 then f u0 else u0)"
      by (auto simp: in_set_update_where)
    then show ?thesis using assms that(2) by (auto simp: token_dead_def split: if_splits)
  qed
  ultimately show ?thesis unfolding token_dead_def by auto
qed

lemma token_dead_step:
  assumes "token_dead i db"
  shows "token_dead i (auth_step hash x db)"
proof (cases x)
  case (Create_Token now j refresh new)
  then show ?thesis using assms by (auto simp: create_token_def token_dead_def list_ex_iff)
next
  case (Revoke now w who)
  then show ?thesis using assms
    by (simp add: revoke_tokens_def Let_def token_dead_update)
next
  case (Revoke_All now who)
  then show ?thesis using assms by (simp add: revoke_all_tokens_def token_dead_update)
next
  case (Refresh now sid refresh)
  then show ?thesis using assms
    by (auto simp: create_session_def token_dead_def split: option.split)
qed

lemma token_dead_run: "token_dead i db \<Longrightarrow> token_dead i (auth_run hash ops db)"
  by (induction ops rule: rev_induct) (simp_all add: auth_run_snoc token_dead_step)

lemma validate_SomeD:
  assumes "validate_session now sid db = Some (u, r)"
  shows "\<exists>s\<in>set (au_sessions db). \<exists>t\<in>set (au_tokens db). se_id s = sid \<and> se_token_id s = tk_id t \<and>
    now < se_expires s \<and> usable_token now t \<and> u = tk_username t \<and> r = token_role t"
proof -
  let ?p = "\<lambda>(s, t). tk_id t = se_token_id s \<and> se_id s = sid \<and> now < se_expires s \<and> usable_token now t"
  from assms obtain s t xs where f: "filter ?p (List.product (au_sessions db) (au_tokens db)) = (s, t) # xs"
    and ur: "u = tk_username t" "r = token_role t"
    by (auto simp: validate_session_def split: list.splits)
  have "(s, t) \<in> set (filter ?p (List.product (au_sessions db) (au_tokens db)))" by (simp add: f)
  then have "(s, t) \<in> set (List.product (au_sessions db) (au_tokens db)) \<and> ?p (s, t)" by simp
  then show ?thesis using ur by (intro bexI [of _ s] bexI [of _ t]) auto
qed

lemma auth_inv_step: "auth_inv db \<Longrightarrow> auth_inv (auth_step hash x db)"
  by (cases x) (auto simp: auth_inv_def create_token_def revoke_tokens_def revoke_all_tokens_def
      create_session_def Let_def map_update_where list_ex_iff distinct_map_filter split: option.split)

lemma auth_inv_run: "auth_inv (auth_run hash ops empty_auth)"
  by (induction ops rule: rev_induct) (simp_all add: auth_run_snoc auth_inv_step, simp add: auth_inv_def empty_auth_def)

lemma same_by_key:
  assumes "distinct (map f xs)" "x \<in> set xs" "y \<in> set xs" "f x = f y"
  shows "x = y"
  using assms by (auto simp: distinct_map dest: inj_onD)

lemma dead_session:
  assumes "auth_inv db" and "token_dead i db" and "s \<in> set (au_sessions db)" "se_token_id s = i"
  shows "validate_session now (se_id s) db = None"
proof (rule ccontr)
  assume "validate_session now (se_id s) db \<noteq> None"
  then obtain u r where v: "validate_session now (se_id s) db = Some (u, r)" by auto
  from validate_SomeD [OF v] obtain s' t where
    s': "s' \<in> set (au_sessions db)" "se_id s' = se_id s" and t: "t \<in> set (au_tokens db)"
    "se_token_id s' = tk_id t" "usable_token now t" by blast
  have "distinct (map se_id (au_sessions db))" using assms(1) by (simp add: auth_inv_def)
  then have "s' = s" by (rule same_by_key [OF _ s'(1) assms(3) s'(2)])
  then show False using assms(2,4) t by (auto simp: token_dead_def usable_token_def)
qed

lemma revoke_kills:
  assumes "auth_inv db" and "t \<in> set (au_tokens db)" "revoke_matches w t"
  shows "token_dead (tk_id t) (fst (revoke_tokens now w who db))"
proof -
  let ?f = "\<lambda>t. if revoke_matches w t \<and> \<not> tk_revoked t then revoke_row now who t else t"
  have toks: "au_tokens (fst (revoke_tokens now w who db)) = map ?f (au_tokens db)"
    by (simp add: revoke_tokens_def Let_def update_where_def)
  have d: "distinct (map tk_id (au_tokens db))" using assms(1) by (simp add: auth_inv_def)
  have "tk_revoked (?f u)" if "u \<in> set (au_tokens db)" "tk_id (?f u) = tk_id t" for u
  proof -
    have "tk_id u = tk_id t" using that(2) by (auto split: if_splits)
    then have "u = t" by (rule same_by_key [OF d that(1) assms(2)])
    then show ?thesis using assms(3) by simp
  qed
  moreover have ft: "?f t \<in> set (map ?f (au_tokens db))" "tk_id (?f t) = tk_id t" using assms(2) by auto
  ultimately show ?thesis
    unfolding token_dead_def toks by (intro conjI bexI [where x = "?f t"] ballI impI) (auto simp only: set_map)
qed

section \<open>Properties of authentication\<close>

text \<open>
  C6: Revocation is final. Once a token is revoked by id or by user name, no later sequence of
  operations brings it back: no session of it validates at any time, and none is opened for it.
\<close>

theorem auth_revocation_final:
  assumes "db = auth_run hash before empty_auth" and "t \<in> set (au_tokens db)" and "revoke_matches w t"
    and "db' = auth_run hash after (fst (revoke_tokens now w who db))"
  shows "token_dead (tk_id t) db' \<and>
    (\<forall>s\<in>set (au_sessions db'). se_token_id s = tk_id t \<longrightarrow> validate_session now' (se_id s) db' = None) \<and>
    (\<forall>s\<in>set (au_sessions (fst (create_session hash now' sid refresh db'))).
       se_token_id s = tk_id t \<longrightarrow> s \<in> set (au_sessions db'))"
proof -
  have inv0: "auth_inv db" unfolding assms(1) by (rule auth_inv_run)
  have "fst (revoke_tokens now w who db) = auth_run hash (before @ [Revoke now w who]) empty_auth"
    by (simp add: auth_run_snoc assms(1))
  then have "db' = auth_run hash (before @ [Revoke now w who] @ after) empty_auth"
    by (simp add: assms(4) auth_run_def)
  then have inv: "auth_inv db'" using auth_inv_run by simp
  have dead: "token_dead (tk_id t) db'"
    unfolding assms(4) by (rule token_dead_run [OF revoke_kills [OF inv0 assms(2,3)]])
  have "s \<in> set (au_sessions db')"
    if "s \<in> set (au_sessions (fst (create_session hash now' sid refresh db')))" "se_token_id s = tk_id t" for s
  proof (cases "List.find (\<lambda>t. tk_hash t = hash refresh \<and> usable_token now' t) (au_tokens db')")
    case (Some t')
    have t': "t' \<in> set (au_tokens db')" "usable_token now' t'" using find_SomeD [OF Some] by auto
    then have "tk_id t' \<noteq> tk_id t" using dead by (auto simp: token_dead_def usable_token_def)
    then show ?thesis using that Some by (auto simp: create_session_def split: if_splits)
  qed (use that in \<open>simp add: create_session_def\<close>)
  then show ?thesis using dead dead_session [OF inv dead] by blast
qed

definition demo_auth_ops :: "auth_op list" where
  "demo_auth_ops = [Create_Token 0 ''t1'' ''secret'' \<lparr>nt_username = ''ann'', nt_role = Admin, nt_created_by = ''cli''\<rparr>,
                    Refresh 1000 ''s1'' ''secret'']"

lemma auth_revocation_final_witness:
  "validate_session 2000 ''s1'' (auth_run rev demo_auth_ops empty_auth) = Some (''ann'', Admin) \<and>
   token_dead ''t1'' (auth_run rev [Refresh 3000 ''s2'' ''secret'']
     (fst (revoke_tokens 2500 (By_Username ''ann'') ''boss'' (auth_run rev demo_auth_ops empty_auth))))"
proof -
  define db where "db = auth_run rev demo_auth_ops empty_auth"
  define t where "t = hd (au_tokens db)"
  have t: "tk_id t = ''t1''" "tk_username t = ''ann''" "length (au_tokens db) = 1"
    unfolding t_def db_def by code_simp+
  have "t \<in> set (au_tokens db)" using t(3) unfolding t_def by (cases "au_tokens db") auto
  moreover have "revoke_matches (By_Username ''ann'') t" by (simp add: t(2))
  moreover have "validate_session 2000 ''s1'' (auth_run rev demo_auth_ops empty_auth) = Some (''ann'', Admin)" by code_simp
  ultimately show ?thesis
    using auth_revocation_final [OF db_def _ _ refl, of t "By_Username ''ann''" "[Refresh 3000 ''s2'' ''secret'']" 2500 "''boss''"]
    unfolding t(1) db_def by blast
qed

lemma strip_prefix_iff: "strip_prefix p s = Some t \<longleftrightarrow> s = p @ t"
  by (auto simp: strip_prefix_def) (metis append_take_drop_id)

text \<open>Where tokens and sessions come from.\<close>

definition from_ops :: "(string \<Rightarrow> string) \<Rightarrow> auth_op list \<Rightarrow> auth_db \<Rightarrow> bool" where
  "from_ops hash ops db \<longleftrightarrow>
     (\<forall>t\<in>set (au_tokens db). \<exists>t0 secret new. Create_Token t0 (tk_id t) secret new \<in> set ops \<and>
        tk_hash t = hash secret \<and> tk_username t = nt_username new \<and> tk_role t = role_as_str (nt_role new) \<and>
        tk_expires t = t0 + refresh_token_ttl_ms) \<and>
     (\<forall>s\<in>set (au_sessions db). \<exists>t0 secret. Refresh t0 (se_id s) secret \<in> set ops \<and>
        se_expires s = t0 + session_token_ttl_ms \<and>
        (\<exists>t\<in>set (au_tokens db). tk_id t = se_token_id s \<and> tk_hash t = hash secret))"

lemma from_ops_mono: "from_ops hash ops db \<Longrightarrow> from_ops hash (ops @ [x]) db"
  unfolding from_ops_def by fastforce

lemma from_ops_revoke:
  assumes "from_ops hash ops db" and "set ss \<subseteq> set (au_sessions db)"
  shows "from_ops hash ops \<lparr>au_tokens = update_where p (revoke_row now who) (au_tokens db), au_sessions = ss\<rparr>"
proof -
  let ?f = "\<lambda>t. if p t then revoke_row now who t else t"
  have f: "tk_id (?f t) = tk_id t" "tk_hash (?f t) = tk_hash t" "tk_username (?f t) = tk_username t"
    "tk_role (?f t) = tk_role t" "tk_expires (?f t) = tk_expires t" for t by simp_all
  show ?thesis
    using assms unfolding from_ops_def update_where_def auth_db.simps set_map ball_simps bex_simps f
    by blast
qed

lemma from_ops_step:
  assumes "from_ops hash ops db"
  shows "from_ops hash (ops @ [x]) (auth_step hash x db)"
proof (cases x)
  case (Create_Token now i refresh new)
  have "from_ops hash (ops @ [x]) db" by (rule from_ops_mono [OF assms])
  then show ?thesis unfolding Create_Token
    by (auto simp: create_token_def from_ops_def) blast+
next
  case (Revoke now w who)
  have "from_ops hash (ops @ [x]) db" by (rule from_ops_mono [OF assms])
  then show ?thesis unfolding Revoke
    by (auto simp: revoke_tokens_def Let_def intro!: from_ops_revoke)
next
  case (Revoke_All now who)
  have "from_ops hash (ops @ [x]) db" by (rule from_ops_mono [OF assms])
  then show ?thesis unfolding Revoke_All
    by (auto simp: revoke_all_tokens_def intro!: from_ops_revoke)
next
  case (Refresh now sid refresh)
  have "from_ops hash (ops @ [x]) db" by (rule from_ops_mono [OF assms])
  then show ?thesis unfolding Refresh
    by (auto simp: create_session_def from_ops_def split: option.split dest!: find_SomeD)
qed

lemma from_ops_run: "from_ops hash ops (auth_run hash ops empty_auth)"
proof (induction ops rule: rev_induct)
  case Nil
  show ?case by (simp add: from_ops_def empty_auth_def)
next
  case (snoc x ops)
  from from_ops_step [OF this] show ?case by (simp add: auth_run_snoc)
qed

text \<open>
  A request is let in only on a session that was opened less than five minutes before, by
  presenting a secret with the hash of a token that was created less than a year before for
  the same user and role.
\<close>

theorem auth_session_origin:
  assumes "authenticate now h (auth_run hash ops empty_auth) = Inr ctx"
  shows "\<exists>sid t0 secret tid c0 secret' new.
    (h = Text_Header (''Bearer '' @ sid) \<or> h = Text_Header (''bearer '' @ sid)) \<and>
    Refresh t0 sid secret \<in> set ops \<and> now < t0 + session_token_ttl_ms \<and>
    Create_Token c0 tid secret' new \<in> set ops \<and> hash secret' = hash secret \<and>
    now < c0 + refresh_token_ttl_ms \<and>
    ac_username ctx = nt_username new \<and> ac_role ctx = nt_role new"
proof -
  let ?db = "auth_run hash ops empty_auth"
  obtain sid where b: "bearer h = Inr sid" and v: "validate_session now sid ?db = Some (ac_username ctx, ac_role ctx)"
    using assms by (auto simp: authenticate_def split: sum.splits option.splits)
  have h: "h = Text_Header (''Bearer '' @ sid) \<or> h = Text_Header (''bearer '' @ sid)"
    using b by (auto simp: bearer_def strip_prefix_iff split: header_value.splits option.splits if_splits)
  from validate_SomeD [OF v] obtain s t where
    s: "s \<in> set (au_sessions ?db)" "se_id s = sid" "now < se_expires s" and
    t: "t \<in> set (au_tokens ?db)" "se_token_id s = tk_id t" "usable_token now t"
      "ac_username ctx = tk_username t" "ac_role ctx = token_role t" by blast
  have fo: "from_ops hash ops ?db" by (rule from_ops_run)
  from fo s obtain t0 secret t' where
    r: "Refresh t0 sid secret \<in> set ops" "now < t0 + session_token_ttl_ms"
      "t' \<in> set (au_tokens ?db)" "tk_id t' = se_token_id s" "tk_hash t' = hash secret"
    unfolding from_ops_def by metis
  have "distinct (map tk_id (au_tokens ?db))" using auth_inv_run by (simp add: auth_inv_def)
  then have [simp]: "t' = t" by (rule same_by_key) (use r(3,4) t(1,2) in auto)
  from fo t(1) obtain c0 secret' new where
    c: "Create_Token c0 (tk_id t) secret' new \<in> set ops" "tk_hash t = hash secret'"
      "tk_username t = nt_username new" "tk_role t = role_as_str (nt_role new)"
      "tk_expires t = c0 + refresh_token_ttl_ms"
    unfolding from_ops_def by metis
  show ?thesis
    using h r c t(3-5)
    by (intro exI [of _ sid] exI [of _ t0] exI [of _ secret] exI [of _ "tk_id t"] exI [of _ c0]
        exI [of _ secret'] exI [of _ new]) (simp add: usable_token_def token_role_def)
qed

lemma auth_session_origin_witness:
  "\<exists>ctx t0 secret. authenticate 2000 (Text_Header ''Bearer s1'') (auth_run rev demo_auth_ops empty_auth) = Inr ctx \<and>
     Refresh t0 ''s1'' secret \<in> set demo_auth_ops"
proof -
  have a: "authenticate 2000 (Text_Header ''Bearer s1'') (auth_run rev demo_auth_ops empty_auth) =
      Inr \<lparr>ac_username = ''ann'', ac_role = Admin\<rparr>" by code_simp
  from auth_session_origin [OF a] a show ?thesis by auto
qed

section \<open>Properties of the rate limiter\<close>

text \<open>How many of a sequence of calls, by several users, are allowed for one user.\<close>

fun allowed_calls :: "rate_limit_config \<Rightarrow> string \<Rightarrow> (string \<times> nat) list \<Rightarrow> buckets \<Rightarrow> nat" where
  "allowed_calls cfg u [] m = 0"
| "allowed_calls cfg u ((v, t) # calls) m =
     (let (m', ok) = rate_check cfg v t m
      in (if v = u \<and> ok then 1 else 0) + allowed_calls cfg u calls m')"

lemma rate_check_other: "v \<noteq> u \<Longrightarrow> fst (rate_check cfg v t m) u = m u"
  by (simp add: rate_check_def Let_def)

lemma rate_check_live:
  assumes "rl_enabled cfg" "m u = Some b" "t - bk_start b < rl_window cfg"
  shows "rate_check cfg u t m =
    (if rl_max cfg \<le> bk_count b then (m(u \<mapsto> b), False) else (m(u \<mapsto> b\<lparr>bk_count := bk_count b + 1\<rparr>), True))"
  using assms by (simp add: rate_check_def Let_def)

lemma rate_check_reset:
  assumes "rl_enabled cfg" "m u = Some b" "rl_window cfg \<le> t - bk_start b"
  shows "rate_check cfg u t m =
    (if rl_max cfg = 0 then (m(u \<mapsto> \<lparr>bk_count = 0, bk_start = t\<rparr>), False)
     else (m(u \<mapsto> \<lparr>bk_count = 1, bk_start = t\<rparr>), True))"
  using assms by (simp add: rate_check_def Let_def)

lemma allowed_in_window:
  assumes "rl_enabled cfg" "m u = Some b" "bk_count b \<le> rl_max cfg"
    and "\<And>v t. (v, t) \<in> set calls \<Longrightarrow> t - bk_start b < rl_window cfg"
  shows "allowed_calls cfg u calls m \<le> rl_max cfg - bk_count b"
  using assms
proof (induction calls arbitrary: m b)
  case (Cons c calls)
  obtain v t where c: "c = (v, t)" by (cases c)
  show ?case
  proof (cases "v = u")
    case False
    have "allowed_calls cfg u calls (fst (rate_check cfg v t m)) \<le> rl_max cfg - bk_count b"
      by (rule Cons.IH) (use Cons.prems False in \<open>auto simp: rate_check_other\<close>)
    then show ?thesis using False by (simp add: c case_prod_beta)
  next
    case True
    have t: "t - bk_start b < rl_window cfg" by (rule Cons.prems(4) [of v t]) (simp add: c)
    note rc = rate_check_live [where cfg = cfg and m = m and u = u and b = b, OF Cons.prems(1,2) t]
    show ?thesis
    proof (cases "rl_max cfg \<le> bk_count b")
      case full: True
      have "allowed_calls cfg u calls (m(u \<mapsto> b)) \<le> rl_max cfg - bk_count b"
        by (rule Cons.IH) (use Cons.prems in auto)
      then show ?thesis using True full by (simp add: c rc)
    next
      case room: False
      let ?b = "b\<lparr>bk_count := bk_count b + 1\<rparr>"
      have "allowed_calls cfg u calls (m(u \<mapsto> ?b)) \<le> rl_max cfg - bk_count ?b"
        by (rule Cons.IH) (use Cons.prems room in auto)
      then show ?thesis using True room by (simp add: c rc)
    qed
  qed
qed simp

lemma allowed_in_span:
  assumes "rl_enabled cfg" "m u = Some b" "bk_count b \<le> rl_max cfg"
    and "sorted (map snd calls)" "\<And>v t. (v, t) \<in> set calls \<Longrightarrow> a \<le> t \<and> t < a + rl_window cfg"
  shows "allowed_calls cfg u calls m \<le> (rl_max cfg - bk_count b) + rl_max cfg"
  using assms
proof (induction calls arbitrary: m b)
  case (Cons c calls)
  obtain v t where c: "c = (v, t)" by (cases c)
  show ?case
  proof (cases "v = u")
    case False
    have "allowed_calls cfg u calls (fst (rate_check cfg v t m)) \<le> (rl_max cfg - bk_count b) + rl_max cfg"
      by (rule Cons.IH) (use Cons.prems False in \<open>auto simp: rate_check_other\<close>)
    then show ?thesis using False by (simp add: c case_prod_beta)
  next
    case True
    show ?thesis
    proof (cases "t - bk_start b < rl_window cfg")
      case live: True
      note rc = rate_check_live [where cfg = cfg and m = m and u = u and b = b, OF Cons.prems(1,2) live]
      show ?thesis
      proof (cases "rl_max cfg \<le> bk_count b")
        case full: True
        have "allowed_calls cfg u calls (m(u \<mapsto> b)) \<le> (rl_max cfg - bk_count b) + rl_max cfg"
          by (rule Cons.IH) (use Cons.prems in auto)
        then show ?thesis using True full by (simp add: c rc)
      next
        case room: False
        let ?b = "b\<lparr>bk_count := bk_count b + 1\<rparr>"
        have "allowed_calls cfg u calls (m(u \<mapsto> ?b)) \<le> (rl_max cfg - bk_count ?b) + rl_max cfg"
          by (rule Cons.IH) (use Cons.prems room in auto)
        then show ?thesis using True room by (simp add: c rc)
      qed
    next
      case False
      then have w: "rl_window cfg \<le> t - bk_start b" by simp
      note rc = rate_check_reset [where cfg = cfg and m = m and u = u and b = b, OF Cons.prems(1,2) w]
      have near: "t' - t < rl_window cfg" if "(v', t') \<in> set calls" for v' t'
      proof -
        have "a \<le> t" "t' < a + rl_window cfg" using Cons.prems(5) [of v t] Cons.prems(5) [of v' t'] that c by auto
        then show ?thesis using Cons.prems(5) [of v t] c by auto
      qed
      show ?thesis
      proof (cases "rl_max cfg = 0")
        case zero: True
        have "allowed_calls cfg u calls (m(u \<mapsto> \<lparr>bk_count = 0, bk_start = t\<rparr>)) \<le> rl_max cfg - 0"
          using allowed_in_window [of cfg "m(u \<mapsto> \<lparr>bk_count = 0, bk_start = t\<rparr>)" u "\<lparr>bk_count = 0, bk_start = t\<rparr>" calls]
            Cons.prems(1) near by simp
        then show ?thesis using True zero by (simp add: c rc)
      next
        case pos: False
        have "allowed_calls cfg u calls (m(u \<mapsto> \<lparr>bk_count = 1, bk_start = t\<rparr>)) \<le> rl_max cfg - 1"
          using allowed_in_window [of cfg "m(u \<mapsto> \<lparr>bk_count = 1, bk_start = t\<rparr>)" u "\<lparr>bk_count = 1, bk_start = t\<rparr>" calls]
            Cons.prems(1) near pos by simp
        then show ?thesis using True pos by (simp add: c rc)
      qed
    qed
  qed
qed simp

text \<open>
  C21: With the limiter on, whatever other users do, the calls of a user inside any span shorter
  than the window are allowed at most twice the limit, wherever the user's bucket stands; and
  at most the limit while the bucket's own window runs.
\<close>

theorem rate_limit_bound:
  assumes "rl_enabled cfg" and "m u = Some b" and "bk_count b \<le> rl_max cfg"
    and "sorted (map snd calls)" and "\<forall>c\<in>set calls. a \<le> snd c \<and> snd c < a + rl_window cfg"
  shows "allowed_calls cfg u calls m \<le> 2 * rl_max cfg - bk_count b \<and>
    ((\<forall>c\<in>set calls. snd c < bk_start b + rl_window cfg) \<longrightarrow> allowed_calls cfg u calls m \<le> rl_max cfg - bk_count b)"
proof
  have "allowed_calls cfg u calls m \<le> (rl_max cfg - bk_count b) + rl_max cfg"
    by (rule allowed_in_span [where cfg = cfg and m = m and u = u and b = b and a = a, OF assms(1-4)]) (use assms(5) in auto)
  then show "allowed_calls cfg u calls m \<le> 2 * rl_max cfg - bk_count b" using assms(3) by simp
  show "(\<forall>c\<in>set calls. snd c < bk_start b + rl_window cfg) \<longrightarrow>
      allowed_calls cfg u calls m \<le> rl_max cfg - bk_count b"
  proof
    assume w: "\<forall>c\<in>set calls. snd c < bk_start b + rl_window cfg"
    show "allowed_calls cfg u calls m \<le> rl_max cfg - bk_count b"
    proof (cases "rl_window cfg = 0")
      case True
      then have "calls = []" using assms(5) by (cases calls) auto
      then show ?thesis by simp
    next
      case False
      show ?thesis
        by (rule allowed_in_window [where cfg = cfg and m = m and u = u and b = b, OF assms(1-3)]) (use w False in fastforce)
    qed
  qed
qed

definition demo_limit :: rate_limit_config where
  "demo_limit = \<lparr>rl_enabled = True, rl_max = 2, rl_window = 60\<rparr>"

lemma rate_limit_bound_witness:
  "allowed_calls demo_limit ''ann'' [(''ann'', 159), (''ann'', 159), (''bob'', 159), (''ann'', 160), (''ann'', 160), (''ann'', 161)]
     [''ann'' \<mapsto> \<lparr>bk_count = 0, bk_start = 100\<rparr>] \<le> 4"
proof -
  have "rl_enabled demo_limit" "[''ann'' \<mapsto> \<lparr>bk_count = 0, bk_start = 100\<rparr>] ''ann'' = Some \<lparr>bk_count = 0, bk_start = 100\<rparr>"
    "bk_count \<lparr>bk_count = 0, bk_start = 100\<rparr> \<le> rl_max demo_limit"
    by (simp_all add: demo_limit_def)
  from rate_limit_bound [where cfg = demo_limit and m = "[''ann'' \<mapsto> \<lparr>bk_count = 0, bk_start = 100\<rparr>]" and u = "''ann''"
      and b = "\<lparr>bk_count = 0, bk_start = 100\<rparr>", OF this, where calls = "[(''ann'', 159), (''ann'', 159), (''bob'', 159), (''ann'', 160), (''ann'', 160), (''ann'', 161)]" and a = 150]
  show ?thesis by (simp add: demo_limit_def)
qed

end
