(* ===== verification/Rust_Bytes.thy ===== *)
theory Rust_Bytes
  imports Rust_Text
begin

text \<open>
  Byte strings read as text: the UTF-8 check and the lossy decoding of Rust's standard
  library, hexadecimal encoding (lower case in the \<open>hex\<close> crate, upper case in SQLite's
  \<open>HEX\<close>) and comparison up to ASCII case. Lemmas: hexadecimal round trips, and a
  byte string whose lossy decoding is ASCII is that text itself.
\<close>

section \<open>UTF-8\<close>

definition byte :: "char \<Rightarrow> nat" where
  "byte c = of_char c"

definition is_cont :: "char \<Rightarrow> bool" where
  "is_cont c \<longleftrightarrow> 128 \<le> byte c \<and> byte c < 192"

text \<open>
  The ranges of the second byte after each lead byte of three and of four.
\<close>

definition second_of_three :: "nat \<Rightarrow> char \<Rightarrow> bool" where
  "second_of_three n c \<longleftrightarrow>
     (if n = 0xE0 then 0xA0 \<le> byte c \<and> byte c < 0xC0
      else if n = 0xED then 0x80 \<le> byte c \<and> byte c < 0xA0
      else is_cont c)"

definition second_of_four :: "nat \<Rightarrow> char \<Rightarrow> bool" where
  "second_of_four n c \<longleftrightarrow>
     (if n = 0xF0 then 0x90 \<le> byte c \<and> byte c < 0xC0
      else if n = 0xF4 then 0x80 \<le> byte c \<and> byte c < 0x90
      else is_cont c)"

text \<open>
  One step of the decoder: how many bytes after the lead byte belong to this piece, and
  whether the piece is a valid encoding. An invalid piece is the longest prefix that could
  still have been completed.
\<close>

definition utf8_step :: "char \<Rightarrow> string \<Rightarrow> nat \<times> bool" where
  "utf8_step a rest =
     (let n = byte a in
      if n < 0x80 then (0, True)
      else if 0xC2 \<le> n \<and> n < 0xE0 then
        (case rest of x # _ \<Rightarrow> if is_cont x then (1, True) else (0, False) | [] \<Rightarrow> (0, False))
      else if 0xE0 \<le> n \<and> n < 0xF0 then
        (case rest of
           x # y # _ \<Rightarrow> if \<not> second_of_three n x then (0, False) else if is_cont y then (2, True) else (1, False)
         | [x] \<Rightarrow> if second_of_three n x then (1, False) else (0, False)
         | [] \<Rightarrow> (0, False))
      else if 0xF0 \<le> n \<and> n < 0xF5 then
        (case rest of
           x # y # z # _ \<Rightarrow>
             if \<not> second_of_four n x then (0, False) else if \<not> is_cont y then (1, False)
             else if is_cont z then (3, True) else (2, False)
         | [x, y] \<Rightarrow> if \<not> second_of_four n x then (0, False) else if is_cont y then (2, False) else (1, False)
         | [x] \<Rightarrow> if second_of_four n x then (1, False) else (0, False)
         | [] \<Rightarrow> (0, False))
      else (0, False))"

text \<open>The replacement character U+FFFD.\<close>

definition replacement :: string where
  "replacement = [char_of (0xEF::nat), char_of (0xBF::nat), char_of (0xBD::nat)]"

function from_utf8_lossy :: "string \<Rightarrow> string" where
  "from_utf8_lossy [] = []"
| "from_utf8_lossy (a # rest) =
     (let (k, ok) = utf8_step a rest
      in (if ok then a # take k rest else replacement) @ from_utf8_lossy (drop k rest))"
  by pat_completeness auto
termination by (relation "measure length") auto

function valid_utf8 :: "string \<Rightarrow> bool" where
  "valid_utf8 [] = True"
| "valid_utf8 (a # rest) = (let (k, ok) = utf8_step a rest in ok \<and> valid_utf8 (drop k rest))"
  by pat_completeness auto
termination by (relation "measure length") auto

definition is_ascii :: "string \<Rightarrow> bool" where
  "is_ascii s \<longleftrightarrow> list_all (\<lambda>c. byte c < 128) s"

lemma utf8_step_ascii: "byte a < 128 \<Longrightarrow> utf8_step a rest = (0, True)"
  by (simp add: utf8_step_def Let_def)

lemma replacement_not_ascii: "\<not> is_ascii (replacement @ s)"
  by (simp add: replacement_def is_ascii_def byte_def)

lemma lossy_ascii_id:
  "is_ascii (from_utf8_lossy bs) \<Longrightarrow> from_utf8_lossy bs = bs"
proof (induction bs rule: from_utf8_lossy.induct)
  case (2 a rest)
  obtain k ok where s: "utf8_step a rest = (k, ok)" by (cases "utf8_step a rest")
  have ok: "ok" using "2.prems" replacement_not_ascii by (cases ok) (simp_all add: s)
  then have a: "byte a < 128" using "2.prems" by (simp add: s is_ascii_def)
  then have k: "k = 0" using s by (simp add: utf8_step_ascii)
  then show ?case using "2.IH" [OF s [symmetric] refl] "2.prems" ok by (simp add: s is_ascii_def)
qed simp

lemma lossy_valid: "valid_utf8 bs \<Longrightarrow> from_utf8_lossy bs = bs"
proof (induction bs rule: from_utf8_lossy.induct)
  case (2 a rest)
  obtain k ok where s: "utf8_step a rest = (k, ok)" by (cases "utf8_step a rest")
  then show ?case using "2.IH" [OF s [symmetric] refl] "2.prems" by simp
qed simp

section \<open>Hexadecimal\<close>

definition hex_digit :: "nat \<Rightarrow> char" where
  "hex_digit d = char_of (if d < 10 then 48 + d else 87 + d)"

definition hex_digit_upper :: "nat \<Rightarrow> char" where
  "hex_digit_upper d = char_of (if d < 10 then 48 + d else 55 + d)"

definition hex_encode :: "string \<Rightarrow> string" where
  "hex_encode bs = concat (map (\<lambda>c. [hex_digit (byte c div 16), hex_digit (byte c mod 16)]) bs)"

definition sql_hex :: "string \<Rightarrow> string" where
  "sql_hex bs = concat (map (\<lambda>c. [hex_digit_upper (byte c div 16), hex_digit_upper (byte c mod 16)]) bs)"

definition nibble :: "char \<Rightarrow> nat option" where
  "nibble c =
     (let n = byte c in
      if 48 \<le> n \<and> n < 58 then Some (n - 48)
      else if 97 \<le> n \<and> n < 103 then Some (n - 87)
      else if 65 \<le> n \<and> n < 71 then Some (n - 55)
      else None)"

fun hex_decode :: "string \<Rightarrow> string option" where
  "hex_decode [] = Some []"
| "hex_decode [_] = None"
| "hex_decode (x # y # rest) =
     (case (nibble x, nibble y, hex_decode rest) of
        (Some a, Some b, Some bs) \<Rightarrow> Some (char_of (16 * a + b) # bs)
      | _ \<Rightarrow> None)"

definition ascii_lower :: "string \<Rightarrow> string" where
  "ascii_lower s = map (\<lambda>c. if 65 \<le> byte c \<and> byte c < 91 then char_of (byte c + 32) else c) s"

definition eq_ignore_ascii_case :: "string \<Rightarrow> string \<Rightarrow> bool" where
  "eq_ignore_ascii_case a b \<longleftrightarrow> ascii_lower a = ascii_lower b"

lemma byte_bound: "byte c < 256"
  by (simp add: byte_def)

lemma byte_hex_digit: "d < 16 \<Longrightarrow> byte (hex_digit d) = (if d < 10 then 48 + d else 87 + d)"
  by (simp add: hex_digit_def byte_def of_char_of)

lemma byte_hex_digit_upper: "d < 16 \<Longrightarrow> byte (hex_digit_upper d) = (if d < 10 then 48 + d else 55 + d)"
  by (simp add: hex_digit_upper_def byte_def of_char_of)

lemma nibble_hex_digit: "d < 16 \<Longrightarrow> nibble (hex_digit d) = Some d"
  by (simp add: nibble_def byte_hex_digit Let_def)

lemma byte_halves: "byte c div 16 < 16" "byte c mod 16 < 16"
  using byte_bound [of c] by auto

lemma char_of_byte [simp]: "char_of (byte c) = c"
  by (simp add: byte_def)

lemma hex_roundtrip [simp]: "hex_decode (hex_encode bs) = Some bs"
  by (induction bs) (simp_all add: hex_encode_def nibble_hex_digit byte_halves)

lemma length_hex_encode [simp]: "length (hex_encode bs) = 2 * length bs"
  by (induction bs) (simp_all add: hex_encode_def)

lemma hex_encode_inject [simp]: "hex_encode a = hex_encode b \<longleftrightarrow> a = b"
  by (metis hex_roundtrip option.inject)

lemma hex_encode_ascii: "is_ascii (hex_encode bs)"
proof -
  have "byte (hex_digit d) < 128" if "d < 16" for d using that by (simp add: byte_hex_digit)
  then show ?thesis using byte_halves by (auto simp: hex_encode_def is_ascii_def list_all_iff)
qed

lemma lower_hex_digit: "d < 16 \<Longrightarrow> ascii_lower [hex_digit_upper d] = [hex_digit d]"
  "d < 16 \<Longrightarrow> ascii_lower [hex_digit d] = [hex_digit d]"
  by (auto simp: ascii_lower_def byte_hex_digit byte_hex_digit_upper) (simp add: hex_digit_def hex_digit_upper_def)+

lemma ascii_lower_append: "ascii_lower (a @ b) = ascii_lower a @ ascii_lower b"
  by (simp add: ascii_lower_def)

lemma lower_sql_hex: "ascii_lower (sql_hex bs) = hex_encode bs"
proof (induction bs)
  case (Cons c bs)
  have "ascii_lower (sql_hex (c # bs)) =
      ascii_lower [hex_digit_upper (byte c div 16)] @ ascii_lower [hex_digit_upper (byte c mod 16)] @ ascii_lower (sql_hex bs)"
    by (simp add: sql_hex_def ascii_lower_def)
  then show ?case using Cons.IH by (simp add: lower_hex_digit byte_halves hex_encode_def)
qed (simp add: sql_hex_def hex_encode_def ascii_lower_def)

lemma lower_hex_encode: "ascii_lower (hex_encode bs) = hex_encode bs"
proof (induction bs)
  case (Cons c bs)
  have "ascii_lower (hex_encode (c # bs)) =
      ascii_lower [hex_digit (byte c div 16)] @ ascii_lower [hex_digit (byte c mod 16)] @ ascii_lower (hex_encode bs)"
    by (simp add: hex_encode_def ascii_lower_def)
  then show ?case using Cons.IH by (simp add: lower_hex_digit byte_halves hex_encode_def)
qed (simp add: hex_encode_def ascii_lower_def)

text \<open>A raw digest is never the lossy decoding of its own hexadecimal form.\<close>

lemma lossy_ne_hex:
  assumes "bs \<noteq> []" and "length bs = length b"
  shows "from_utf8_lossy bs \<noteq> hex_encode b"
proof
  assume eq: "from_utf8_lossy bs = hex_encode b"
  then have "is_ascii (from_utf8_lossy bs)" by (simp add: hex_encode_ascii)
  then have "from_utf8_lossy bs = bs" by (rule lossy_ascii_id)
  then have "length bs = length (hex_encode b)" using eq by simp
  then have "length bs = 2 * length b" by simp
  then show False using assms by simp
qed

end
