(* ===== verification/Chunk_Store.thy ===== *)
theory Chunk_Store
  imports Rust_Bytes "HOL-Library.AList"
begin

text \<open>
  The chunk tables (\<^verbatim>\<open>crates/arags-storage/src/sqlite/chunks*\<close>) and their versioned
  writes (\<^verbatim>\<open>crates/arags-server/src/store/chunks.rs\<close>): \<open>chunks\<close>, \<open>chunk_texts\<close>,
  \<open>chunks_fts\<close>, \<open>chunk_entities\<close> and \<open>entities_fts\<close>. Ids come from SQLite's
  \<open>AUTOINCREMENT\<close> sequence. The entity extractor (regular expressions) is the argument
  \<open>extract\<close>. Lemmas: a changed chunk supersedes the active row of its place, an unchanged
  one writes nothing, every place keeps at most one active row, and the walk back through the
  revisions ends.
\<close>

section \<open>Rows\<close>

record chunk =
  ck_id :: row_id
  ck_buffer :: row_id
  ck_file :: string
  ck_offset_start :: int
  ck_offset_end :: int
  ck_line_start :: int
  ck_line_end :: int
  ck_hash :: string
  ck_language :: "string option"
  ck_type :: "string option"
  ck_tokens :: "int option"
  ck_status :: string
  ck_created :: seconds
  ck_accessed :: seconds
  ck_epoch :: int
  ck_created_by :: "string option"
  ck_model :: "string option"
  ck_version :: int
  ck_active :: bool
  ck_superseded :: "row_id option"
  ck_retired :: "seconds option"

text \<open>\<open>cd_seq\<close> is the last id the sequence gave out; a virtual table row is an id with a text.\<close>

record chunk_db =
  cd_rows :: "chunk list"
  cd_seq :: row_id
  cd_texts :: "(row_id \<times> string) list"
  cd_fts :: "(row_id \<times> string) list"
  cd_entities :: "(row_id \<times> string) list"
  cd_entity_fts :: "string list"

record indexed_chunk =
  ix_file :: string
  ix_line_start :: int
  ix_line_end :: int
  ix_content :: string
  ix_hash :: string
  ix_language :: "string option"
  ix_type :: string

section \<open>Reads\<close>

definition get_chunk :: "row_id \<Rightarrow> chunk list \<Rightarrow> chunk option" where
  "get_chunk i rows = List.find (\<lambda>c. ck_id c = i) rows"

definition get_chunk_content :: "row_id \<Rightarrow> (row_id \<times> string) list \<Rightarrow> string option" where
  "get_chunk_content i texts = map_of texts i"

definition list_chunks :: "row_id \<Rightarrow> chunk list \<Rightarrow> chunk list" where
  "list_chunks buffer_id rows = sort_key ck_id (filter (\<lambda>c. ck_buffer c = buffer_id) rows)"

definition count_chunks :: "row_id \<Rightarrow> chunk list \<Rightarrow> nat" where
  "count_chunks buffer_id rows = count_where (\<lambda>c. ck_buffer c = buffer_id) rows"

definition get_chunks_with_content :: "row_id list \<Rightarrow> chunk_db \<Rightarrow> (chunk \<times> string option) list" where
  "get_chunks_with_content ids db =
     List.map_filter (\<lambda>i. map_option (\<lambda>c. (c, get_chunk_content (ck_id c) (cd_texts db))) (get_chunk i (cd_rows db))) ids"

text \<open>
  \<open>chunk_hashes_for_buffer\<close> reads the stored bytes as text; \<open>chunk_hashes_match\<close> and
  the summary snapshot read them in hexadecimal.
\<close>

definition chunk_hashes_for_buffer :: "row_id \<Rightarrow> chunk list \<Rightarrow> string set" where
  "chunk_hashes_for_buffer buffer_id rows =
     set (map (from_utf8_lossy \<circ> ck_hash) (filter (\<lambda>c. ck_buffer c = buffer_id) rows))"

definition chunk_hashes_match :: "(row_id \<times> string) list \<Rightarrow> chunk list \<Rightarrow> bool" where
  "chunk_hashes_match pairs rows =
     list_all (\<lambda>(i, expected). case get_chunk i rows of
         Some c \<Rightarrow> eq_ignore_ascii_case (ascii_lower (sql_hex (ck_hash c))) expected
       | None \<Rightarrow> False) pairs"

definition chunk_exists_by_hash :: "string \<Rightarrow> string \<Rightarrow> chunk list \<Rightarrow> bool" where
  "chunk_exists_by_hash file_path h rows = list_ex (\<lambda>c. ck_file c = file_path \<and> ck_hash c = h) rows"

text \<open>A \<open>HashMap\<close> built from a query is the association list of its rows.\<close>

definition chunk_ages_hours :: "seconds \<Rightarrow> row_id list \<Rightarrow> chunk list \<Rightarrow> (row_id \<times> real) list" where
  "chunk_ages_hours now ids rows =
     map (\<lambda>c. (ck_id c, real_of_int (now - ck_accessed c) / 3600)) (filter (\<lambda>c. ck_id c \<in> set ids \<and> ck_active c) rows)"

definition get_chunks_last_accessed :: "row_id list \<Rightarrow> chunk list \<Rightarrow> row_id \<Rightarrow> seconds option" where
  "get_chunks_last_accessed ids rows i =
     (if i \<in> set ids then map_option ck_accessed (get_chunk i rows) else None)"

definition chunk_file_paths :: "row_id list \<Rightarrow> chunk list \<Rightarrow> string list" where
  "chunk_file_paths ids rows =
     remdups (map ck_file (filter (\<lambda>c. ck_id c \<in> set ids \<and> ck_active c) rows))"

section \<open>Bookkeeping writes\<close>

definition refresh_last_accessed :: "seconds \<Rightarrow> row_id list \<Rightarrow> chunk list \<Rightarrow> chunk list" where
  "refresh_last_accessed now ids rows =
     update_where (\<lambda>c. ck_id c \<in> set ids) (\<lambda>c. c\<lparr>ck_accessed := now\<rparr>) rows"

definition mark_chunks_pending_vector :: "row_id \<Rightarrow> row_id list \<Rightarrow> chunk list \<Rightarrow> chunk list" where
  "mark_chunks_pending_vector buffer_id ids rows =
     update_where (\<lambda>c. ck_buffer c = buffer_id \<and> ck_id c \<in> set ids) (\<lambda>c. c\<lparr>ck_status := ''pending_vector''\<rparr>) rows"

definition chunks_pending_vector :: "row_id \<Rightarrow> chunk list \<Rightarrow> row_id list" where
  "chunks_pending_vector buffer_id rows =
     map ck_id (filter (\<lambda>c. ck_buffer c = buffer_id \<and> ck_status c = ''pending_vector'') rows)"

definition clear_chunks_pending_vector :: "row_id \<Rightarrow> row_id list \<Rightarrow> chunk list \<Rightarrow> chunk list" where
  "clear_chunks_pending_vector buffer_id ids rows =
     update_where (\<lambda>c. ck_buffer c = buffer_id \<and> ck_id c \<in> set ids) (\<lambda>c. c\<lparr>ck_status := ''active''\<rparr>) rows"

text \<open>The join starts from the text rows.\<close>

definition get_chunk_embed_inputs :: "row_id list \<Rightarrow> chunk_db \<Rightarrow> (row_id \<times> row_id \<times> string) list" where
  "get_chunk_embed_inputs ids db =
     List.map_filter (\<lambda>(i, text). map_option (\<lambda>c. (i, ck_buffer c, text)) (get_chunk i (cd_rows db)))
       (filter (\<lambda>(i, _). i \<in> set ids) (cd_texts db))"

section \<open>Versioned writes\<close>

type_synonym chunk_key = "string \<times> int \<times> int"

definition chunk_key_of :: "chunk \<Rightarrow> chunk_key" where
  "chunk_key_of c = (ck_file c, ck_line_start c, ck_line_end c)"

definition retire_row :: "seconds \<Rightarrow> row_id \<Rightarrow> row_id option \<Rightarrow> chunk_db \<Rightarrow> chunk_db" where
  "retire_row now i succ db =
     db\<lparr>cd_rows := update_where (\<lambda>c. ck_id c = i \<and> ck_active c)
                     (\<lambda>c. c\<lparr>ck_active := False, ck_superseded := succ, ck_retired := Some now\<rparr>) (cd_rows db),
        cd_fts := filter (\<lambda>(j, _). j \<noteq> i) (cd_fts db)\<rparr>"

definition fresh_chunk ::
  "seconds \<Rightarrow> row_id \<Rightarrow> row_id \<Rightarrow> string \<Rightarrow> indexed_chunk \<Rightarrow> string \<Rightarrow> int \<Rightarrow> string option \<Rightarrow> string option \<Rightarrow> chunk" where
  "fresh_chunk now i buffer_id file_path c h version created_by model =
     \<lparr>ck_id = i, ck_buffer = buffer_id, ck_file = file_path, ck_offset_start = 0, ck_offset_end = 0,
      ck_line_start = ix_line_start c, ck_line_end = ix_line_end c, ck_hash = h,
      ck_language = ix_language c, ck_type = Some (ix_type c), ck_tokens = Some 0,
      ck_status = ''active'', ck_created = now, ck_accessed = now, ck_epoch = 0,
      ck_created_by = created_by, ck_model = model, ck_version = version, ck_active = True,
      ck_superseded = None, ck_retired = None\<rparr>"

definition add_entity :: "row_id \<Rightarrow> string \<Rightarrow> chunk_db \<Rightarrow> chunk_db" where
  "add_entity i e db =
     db\<lparr>cd_entities := (if (i, e) \<in> set (cd_entities db) then cd_entities db else cd_entities db @ [(i, e)]),
        cd_entity_fts := cd_entity_fts db @ [e]\<rparr>"

definition insert_active_chunk ::
  "(string \<Rightarrow> string \<Rightarrow> string list) \<Rightarrow> seconds \<Rightarrow> row_id \<Rightarrow> string \<Rightarrow> indexed_chunk \<Rightarrow> string \<Rightarrow> int
     \<Rightarrow> string option \<Rightarrow> string option \<Rightarrow> chunk_db \<Rightarrow> chunk_db \<times> row_id" where
  "insert_active_chunk extract now buffer_id file_path c h version created_by model db =
     (let i = cd_seq db + 1;
          db1 = db\<lparr>cd_rows := cd_rows db @ [fresh_chunk now i buffer_id file_path c h version created_by model],
                   cd_seq := i,
                   cd_texts := cd_texts db @ [(i, ix_content c)],
                   cd_fts := cd_fts db @ [(i, ix_content c)]\<rparr>
      in (fold (add_entity i) (extract (ix_content c) file_path) db1, i))"

definition existing_active_row :: "row_id \<Rightarrow> string \<Rightarrow> int \<Rightarrow> int \<Rightarrow> chunk list \<Rightarrow> (row_id \<times> string \<times> int) option" where
  "existing_active_row buffer_id file_path line_start line_end rows =
     map_option (\<lambda>c. (ck_id c, ck_hash c, ck_version c))
       (List.find (\<lambda>c. ck_buffer c = buffer_id \<and> ck_file c = file_path \<and> ck_line_start c = line_start
                     \<and> ck_line_end c = line_end \<and> ck_active c) rows)"

text \<open>A \<open>HashMap\<close> filled row by row: a later row of the same place replaces the id.\<close>

definition snapshot_active_chunks :: "row_id \<Rightarrow> chunk list \<Rightarrow> (chunk_key \<times> row_id) list" where
  "snapshot_active_chunks buffer_id rows =
     fold (\<lambda>c m. AList.update (chunk_key_of c) (ck_id c) m)
       (filter (\<lambda>c. ck_buffer c = buffer_id \<and> ck_active c) rows) []"

record batched_insert =
  bi_persisted :: "(row_id \<times> string) list"
  bi_handled :: "chunk_key list"
  bi_retired :: "row_id list"
  bi_inserted :: nat

text \<open>What one chunk of a batch does; \<open>active\<close> are the keys of the snapshot.\<close>

definition insert_chunk_step ::
  "(string \<Rightarrow> string \<Rightarrow> string list) \<Rightarrow> seconds \<Rightarrow> row_id \<Rightarrow> chunk_key set \<Rightarrow> string option \<Rightarrow> string option
     \<Rightarrow> string \<times> indexed_chunk \<Rightarrow> chunk_db \<times> batched_insert \<Rightarrow> chunk_db \<times> batched_insert" where
  "insert_chunk_step extract now buffer_id active created_by model =
     (\<lambda>(file_path, c) (db, res).
        let key = (file_path, ix_line_start c, ix_line_end c);
            h = (case hex_decode (ix_hash c) of Some bs \<Rightarrow> bs | None \<Rightarrow> []);
            existing = (if key \<in> active
                        then existing_active_row buffer_id file_path (ix_line_start c) (ix_line_end c) (cd_rows db)
                        else None)
        in case existing of
             Some (old_id, old_hash, old_version) \<Rightarrow>
               if old_hash = h
               then (db, res\<lparr>bi_persisted := bi_persisted res @ [(old_id, ix_content c)],
                             bi_handled := bi_handled res @ [key]\<rparr>)
               else let (db1, new_id) = insert_active_chunk extract now buffer_id file_path c h (old_version + 1)
                                          created_by model db
                    in (retire_row now old_id (Some new_id) db1,
                        res\<lparr>bi_persisted := bi_persisted res @ [(new_id, ix_content c)],
                            bi_handled := bi_handled res @ [key],
                            bi_retired := bi_retired res @ [old_id],
                            bi_inserted := bi_inserted res + 1\<rparr>)
           | None \<Rightarrow>
               let (db1, new_id) = insert_active_chunk extract now buffer_id file_path c h 1 created_by model db
               in (db1, res\<lparr>bi_persisted := bi_persisted res @ [(new_id, ix_content c)],
                            bi_handled := (if key \<in> active then bi_handled res @ [key] else bi_handled res),
                            bi_inserted := bi_inserted res + 1\<rparr>))"

text \<open>\<open>slice::chunks\<close>.\<close>

function rust_chunks :: "nat \<Rightarrow> 'a list \<Rightarrow> 'a list list" where
  "rust_chunks n xs = (if xs = [] \<or> n = 0 then [] else take n xs # rust_chunks n (drop n xs))"
  by pat_completeness auto
termination by (relation "measure (length \<circ> snd)") auto

declare rust_chunks.simps [simp del]

definition insert_chunks_batched ::
  "(string \<Rightarrow> string \<Rightarrow> string list) \<Rightarrow> seconds \<Rightarrow> row_id \<Rightarrow> (string \<times> indexed_chunk) list \<Rightarrow> nat \<Rightarrow> chunk_key set
     \<Rightarrow> string option \<Rightarrow> string option \<Rightarrow> chunk_db \<Rightarrow> chunk_db \<times> batched_insert" where
  "insert_chunks_batched extract now buffer_id items max_batch active created_by model db =
     fold (fold (insert_chunk_step extract now buffer_id active created_by model))
       (rust_chunks (max 1 max_batch) items)
       (db, \<lparr>bi_persisted = [], bi_handled = [], bi_retired = [], bi_inserted = 0\<rparr>)"

text \<open>
  Purging: rows whose foreign keys (tasks, findings) point at a chunk would stop it; nothing
  in the server writes those. Edges of summaries cascade and are not part of this state.
\<close>

definition drop_chunks :: "row_id set \<Rightarrow> chunk_db \<Rightarrow> chunk_db" where
  "drop_chunks ids db =
     db\<lparr>cd_rows := filter (\<lambda>c. ck_id c \<notin> ids) (cd_rows db),
        cd_texts := filter (\<lambda>(i, _). i \<notin> ids) (cd_texts db),
        cd_fts := filter (\<lambda>(i, _). i \<notin> ids) (cd_fts db),
        cd_entities := filter (\<lambda>(i, _). i \<notin> ids) (cd_entities db)\<rparr>"

definition purge_inactive_chunks :: "seconds \<Rightarrow> nat \<Rightarrow> chunk_db \<Rightarrow> chunk_db \<times> nat" where
  "purge_inactive_chunks now retention_days db =
     (let cutoff = int retention_days * 86400;
          ids = map ck_id (filter (\<lambda>c. \<not> ck_active c \<and>
                  (case ck_retired c of Some t \<Rightarrow> t \<le> now - cutoff | None \<Rightarrow> False)) (cd_rows db))
      in (drop_chunks (set ids) db, length ids))"

definition delete_chunks_for_buffer :: "row_id \<Rightarrow> chunk_db \<Rightarrow> chunk_db \<times> row_id list \<times> nat" where
  "delete_chunks_for_buffer buffer_id db =
     (let rows = filter (\<lambda>c. ck_buffer c = buffer_id) (cd_rows db)
      in (drop_chunks (set (map ck_id rows)) db, map ck_id rows, card (set (map ck_file rows))))"

section \<open>Time travel\<close>

text \<open>
  The revisions before a chunk, newest first. The loop has no bound of its own:
  \<^const>\<open>None\<close> is a walk that does not end.
\<close>

partial_function (option) chunk_family :: "chunk list \<Rightarrow> row_id \<Rightarrow> chunk list \<Rightarrow> chunk list option" where
  "chunk_family rows current family =
     (case get_chunk current rows of
        None \<Rightarrow> Some family
      | Some c \<Rightarrow>
          (case List.find (\<lambda>p. ck_superseded p = Some current) rows of
             None \<Rightarrow> Some (family @ [c])
           | Some p \<Rightarrow> if ck_id p = current then Some (family @ [c])
                       else chunk_family rows (ck_id p) (family @ [c])))"

text \<open>\<open>max_by\<close> keeps the last of several greatest elements.\<close>

definition newest :: "chunk list \<Rightarrow> chunk option" where
  "newest cs = fold (\<lambda>c best. case best of
       None \<Rightarrow> Some c
     | Some b \<Rightarrow> if (ck_epoch b, ck_id b) \<le> (ck_epoch c, ck_id c) then Some c else Some b) cs None"

definition get_chunk_as_of :: "row_id \<Rightarrow> int \<Rightarrow> chunk list \<Rightarrow> chunk option option" where
  "get_chunk_as_of chunk_id as_of_epoch rows =
     map_option (\<lambda>family. newest (filter (\<lambda>c. ck_epoch c \<le> as_of_epoch) family)) (chunk_family rows chunk_id [])"

section \<open>Invariant\<close>

text \<open>
  Ids are distinct, positive and at most the sequence; a place of a buffer has at most one
  active row; an active row has no successor and a retired one points to a later row; the
  search table holds exactly the active rows.
\<close>

definition place :: "chunk \<Rightarrow> row_id \<times> chunk_key" where
  "place c = (ck_buffer c, chunk_key_of c)"

definition one_active :: "chunk list \<Rightarrow> bool" where
  "one_active rows \<longleftrightarrow>
     (\<forall>c\<in>set rows. \<forall>d\<in>set rows. ck_active c \<longrightarrow> ck_active d \<longrightarrow> place c = place d \<longrightarrow> c = d)"

definition succ_later :: "chunk \<Rightarrow> bool" where
  "succ_later c \<longleftrightarrow> (case ck_superseded c of Some j \<Rightarrow> \<not> ck_active c \<and> ck_id c < j | None \<Rightarrow> True)"

definition active_ids :: "chunk list \<Rightarrow> row_id set" where
  "active_ids rows = ck_id ` {c \<in> set rows. ck_active c}"

definition chunk_inv :: "chunk_db \<Rightarrow> bool" where
  "chunk_inv db \<longleftrightarrow>
     rows_wf ck_id (cd_rows db) \<and> (\<forall>c\<in>set (cd_rows db). ck_id c \<le> cd_seq db) \<and> 0 \<le> cd_seq db \<and>
     one_active (cd_rows db) \<and> (\<forall>c\<in>set (cd_rows db). succ_later c) \<and>
     fst ` set (cd_fts db) = active_ids (cd_rows db)"

definition empty_chunks :: chunk_db where
  "empty_chunks = \<lparr>cd_rows = [], cd_seq = 0, cd_texts = [], cd_fts = [], cd_entities = [], cd_entity_fts = []\<rparr>"

lemma chunk_inv_empty [simp]: "chunk_inv empty_chunks"
  by (simp add: chunk_inv_def empty_chunks_def one_active_def active_ids_def)

lemma one_activeD:
  "one_active rows \<Longrightarrow> c \<in> set rows \<Longrightarrow> d \<in> set rows \<Longrightarrow> ck_active c \<Longrightarrow> ck_active d \<Longrightarrow>
     place c = place d \<Longrightarrow> c = d"
  unfolding one_active_def by blast

text \<open>What is active in a buffer: the places and their content hashes.\<close>

definition live_view :: "row_id \<Rightarrow> chunk list \<Rightarrow> (chunk_key \<times> string) set" where
  "live_view b rows = (\<lambda>c. (chunk_key_of c, ck_hash c)) ` {c \<in> set rows. ck_buffer c = b \<and> ck_active c}"

section \<open>Retiring\<close>

definition retired :: "seconds \<Rightarrow> row_id option \<Rightarrow> chunk \<Rightarrow> chunk" where
  "retired now succ c = c\<lparr>ck_active := False, ck_superseded := succ, ck_retired := Some now\<rparr>"

lemma retired_simps [simp]:
  "ck_id (retired now s c) = ck_id c" "\<not> ck_active (retired now s c)" "ck_superseded (retired now s c) = s"
  "place (retired now s c) = place c" "ck_hash (retired now s c) = ck_hash c" "ck_buffer (retired now s c) = ck_buffer c"
  "chunk_key_of (retired now s c) = chunk_key_of c"
  by (simp_all add: retired_def place_def chunk_key_of_def)

lemma retire_row_rows:
  "cd_rows (retire_row now i s db) =
     map (\<lambda>c. if ck_id c = i \<and> ck_active c then retired now s c else c) (cd_rows db)"
  by (simp add: retire_row_def update_where_def retired_def)

lemma retire_row_other [simp]:
  "cd_seq (retire_row now i s db) = cd_seq db" "cd_texts (retire_row now i s db) = cd_texts db"
  by (simp_all add: retire_row_def)

lemma in_retired_rows:
  "c \<in> set (cd_rows (retire_row now i s db)) \<longleftrightarrow>
     (\<exists>d\<in>set (cd_rows db). c = (if ck_id d = i \<and> ck_active d then retired now s d else d))"
  unfolding retire_row_rows set_map image_def by blast

lemma retired_ne: "ck_active c \<Longrightarrow> c \<noteq> retired now s d"
  by (metis retired_simps(2))

text \<open>The active rows after retiring are the ones before without that row.\<close>

lemma retire_active:
  "ck_active c \<and> c \<in> set (cd_rows (retire_row now i s db)) \<longleftrightarrow>
     ck_active c \<and> c \<in> set (cd_rows db) \<and> ck_id c \<noteq> i"
proof
  assume a: "ck_active c \<and> c \<in> set (cd_rows (retire_row now i s db))"
  then obtain d where d: "d \<in> set (cd_rows db)" "c = (if ck_id d = i \<and> ck_active d then retired now s d else d)"
    by (auto simp: in_retired_rows)
  then have "c = d" "\<not> (ck_id d = i \<and> ck_active d)" using a retired_ne by (auto split: if_splits)
  then show "ck_active c \<and> c \<in> set (cd_rows db) \<and> ck_id c \<noteq> i" using a d(1) by simp
next
  assume a: "ck_active c \<and> c \<in> set (cd_rows db) \<and> ck_id c \<noteq> i"
  then have "c = (if ck_id c = i \<and> ck_active c then retired now s c else c)" by simp
  then show "ck_active c \<and> c \<in> set (cd_rows (retire_row now i s db))" using a unfolding in_retired_rows by blast
qed

lemma active_ids_retire: "active_ids (cd_rows (retire_row now i s db)) = active_ids (cd_rows db) - {i}"
proof -
  have "{c \<in> set (cd_rows (retire_row now i s db)). ck_active c} = {c \<in> set (cd_rows db). ck_active c \<and> ck_id c \<noteq> i}"
    using retire_active [of _ now i s db] by blast
  then show ?thesis unfolding active_ids_def by auto
qed

lemma retire_inv:
  assumes inv: "chunk_inv db" and "\<And>j. s = Some j \<Longrightarrow> i < j"
  shows "chunk_inv (retire_row now i s db)"
proof -
  let ?db = "retire_row now i s db"
  have ids: "map ck_id (cd_rows ?db) = map ck_id (cd_rows db)" by (simp add: retire_row_rows)
  have "rows_wf ck_id (cd_rows ?db)"
  proof -
    have "list_all (\<lambda>c. 0 < ck_id c) (cd_rows ?db)"
      using inv by (auto simp: chunk_inv_def rows_wf_def list_all_iff retire_row_rows)
    then show ?thesis unfolding rows_wf_def ids using inv by (simp add: chunk_inv_def rows_wf_def)
  qed
  moreover have "ck_id c \<le> cd_seq ?db" if "c \<in> set (cd_rows ?db)" for c
    using that inv by (auto simp: in_retired_rows chunk_inv_def)
  moreover have "one_active (cd_rows ?db)"
    unfolding one_active_def using inv retire_active [of _ now i s db]
    by (auto simp: chunk_inv_def intro: one_activeD)
  moreover have "succ_later c" if c: "c \<in> set (cd_rows ?db)" for c
  proof -
    obtain d where d: "d \<in> set (cd_rows db)" "c = (if ck_id d = i \<and> ck_active d then retired now s d else d)"
      using c by (auto simp: in_retired_rows)
    moreover have "succ_later d" using inv d(1) by (simp add: chunk_inv_def)
    ultimately show ?thesis using assms(2) by (auto simp: succ_later_def split: option.splits)
  qed
  moreover have "fst ` set (cd_fts ?db) = active_ids (cd_rows ?db)"
  proof -
    have "fst ` set (cd_fts ?db) = fst ` set (cd_fts db) - {i}" by (force simp: retire_row_def)
    then show ?thesis using inv by (simp add: chunk_inv_def active_ids_retire)
  qed
  ultimately show ?thesis using inv by (simp add: chunk_inv_def)
qed

lemma live_view_retire:
  assumes "chunk_inv db" and "d \<in> set (cd_rows db)" "ck_active d"
  shows "live_view b (cd_rows (retire_row now (ck_id d) s db)) =
    (if ck_buffer d = b then {x \<in> live_view b (cd_rows db). fst x \<noteq> chunk_key_of d} else live_view b (cd_rows db))"
proof -
  have eq: "{c \<in> set (cd_rows (retire_row now (ck_id d) s db)). ck_buffer c = b \<and> ck_active c} =
      {c \<in> set (cd_rows db). ck_buffer c = b \<and> ck_active c \<and> ck_id c \<noteq> ck_id d}"
    using retire_active [of _ now "ck_id d" s db] by blast
  have key: "ck_id c = ck_id d \<longleftrightarrow> place c = place d" if "c \<in> set (cd_rows db)" "ck_active c" for c
  proof
    assume "ck_id c = ck_id d"
    then have "c = d" using assms that by (auto simp: chunk_inv_def intro: rows_wf_inj)
    then show "place c = place d" by simp
  next
    assume "place c = place d"
    then have "c = d" using assms that by (auto simp: chunk_inv_def intro: one_activeD)
    then show "ck_id c = ck_id d" by simp
  qed
  have img: "(\<lambda>c. (chunk_key_of c, ck_hash c)) ` {c \<in> A. P c \<and> chunk_key_of c \<noteq> k} =
      {x \<in> (\<lambda>c. (chunk_key_of c, ck_hash c)) ` {c \<in> A. P c}. fst x \<noteq> k}" for A P k by auto
  show ?thesis
  proof (cases "ck_buffer d = b")
    case True
    then have "{c \<in> set (cd_rows db). ck_buffer c = b \<and> ck_active c \<and> ck_id c \<noteq> ck_id d} =
        {c \<in> set (cd_rows db). (ck_buffer c = b \<and> ck_active c) \<and> chunk_key_of c \<noteq> chunk_key_of d}"
      using key by (auto simp: place_def)
    then show ?thesis unfolding live_view_def eq 
      using True img [of "set (cd_rows db)" "\<lambda>c. ck_buffer c = b \<and> ck_active c" "chunk_key_of d"] by simp
  next
    case False
    then have "{c \<in> set (cd_rows db). ck_buffer c = b \<and> ck_active c \<and> ck_id c \<noteq> ck_id d} =
        {c \<in> set (cd_rows db). ck_buffer c = b \<and> ck_active c}"
      using key by (auto simp: place_def)
    then show ?thesis unfolding live_view_def eq using False by simp
  qed
qed

section \<open>Inserting\<close>

lemma add_entities_simps [simp]:
  "cd_rows (fold (add_entity i) es db) = cd_rows db" "cd_seq (fold (add_entity i) es db) = cd_seq db"
  "cd_texts (fold (add_entity i) es db) = cd_texts db" "cd_fts (fold (add_entity i) es db) = cd_fts db"
  by (induction es arbitrary: db) (simp_all add: add_entity_def)

lemma fresh_chunk_simps [simp]:
  "ck_id (fresh_chunk now i b f c h v u m) = i" "ck_active (fresh_chunk now i b f c h v u m)"
  "ck_buffer (fresh_chunk now i b f c h v u m) = b" "ck_hash (fresh_chunk now i b f c h v u m) = h"
  "ck_superseded (fresh_chunk now i b f c h v u m) = None" "ck_version (fresh_chunk now i b f c h v u m) = v"
  "chunk_key_of (fresh_chunk now i b f c h v u m) = (f, ix_line_start c, ix_line_end c)"
  "ck_epoch (fresh_chunk now i b f c h v u m) = 0"
  by (simp_all add: fresh_chunk_def chunk_key_of_def)

lemma insert_active_chunk_simps:
  assumes "insert_active_chunk extract now b f c h v u m db = (db', i)"
  shows "i = cd_seq db + 1" "cd_rows db' = cd_rows db @ [fresh_chunk now i b f c h v u m]"
    "cd_seq db' = i" "cd_texts db' = cd_texts db @ [(i, ix_content c)]" "cd_fts db' = cd_fts db @ [(i, ix_content c)]"
  using assms by (auto simp: insert_active_chunk_def Let_def)

text \<open>
  A new active row breaks the invariant only where its place already has an active row.
\<close>

lemma insert_inv:
  assumes inv: "chunk_inv db" and ins: "insert_active_chunk extract now b f c h v u m db = (db', i)"
    and free: "\<And>d. d \<in> set (cd_rows db) \<Longrightarrow> ck_active d \<Longrightarrow> place d \<noteq> (b, f, ix_line_start c, ix_line_end c)"
  shows "chunk_inv db'"
proof -
  note ic = insert_active_chunk_simps [OF ins]
  let ?n = "fresh_chunk now i b f c h v u m"
  have le: "ck_id d \<le> cd_seq db" if "d \<in> set (cd_rows db)" for d using inv that by (simp add: chunk_inv_def)
  then have notin: "i \<notin> ck_id ` set (cd_rows db)" using ic(1) by fastforce
  have "rows_wf ck_id (cd_rows db')"
    using inv notin ic(1) by (auto simp: ic(2) rows_wf_def chunk_inv_def)
  moreover have "one_active (cd_rows db')"
  proof -
    have pn: "place ?n = (b, f, ix_line_start c, ix_line_end c)" by (simp add: place_def)
    show ?thesis unfolding one_active_def
    proof (intro ballI impI)
      fix x y assume "x \<in> set (cd_rows db')" "y \<in> set (cd_rows db')" "ck_active x" "ck_active y" "place x = place y"
      then show "x = y"
        using free [of x] free [of y] pn inv by (auto simp: ic(2) chunk_inv_def intro: one_activeD)
    qed
  qed
  moreover have "fst ` set (cd_fts db') = active_ids (cd_rows db')"
  proof -
    have "{d \<in> set (cd_rows db'). ck_active d} = insert ?n {d \<in> set (cd_rows db). ck_active d}" by (auto simp: ic(2))
    then show ?thesis using inv by (simp add: ic(5) active_ids_def chunk_inv_def)
  qed
  moreover have "\<forall>d\<in>set (cd_rows db'). ck_id d \<le> cd_seq db'" using le ic(1) by (fastforce simp: ic(2,3))
  moreover have "\<forall>d\<in>set (cd_rows db'). succ_later d" using inv by (simp add: ic(2) chunk_inv_def succ_later_def)
  ultimately show ?thesis using inv ic(1) by (simp add: chunk_inv_def ic(3))
qed

lemma live_view_insert:
  assumes "insert_active_chunk extract now b f c h v u m db = (db', i)"
  shows "live_view b' (cd_rows db') =
    (if b' = b then insert ((f, ix_line_start c, ix_line_end c), h) (live_view b (cd_rows db)) else live_view b' (cd_rows db))"
proof -
  let ?n = "fresh_chunk now i b f c h v u m"
  have "{d \<in> set (cd_rows db'). ck_buffer d = b' \<and> ck_active d} =
      (if b' = b then insert ?n {d \<in> set (cd_rows db). ck_buffer d = b' \<and> ck_active d}
       else {d \<in> set (cd_rows db). ck_buffer d = b' \<and> ck_active d})"
    by (auto simp: insert_active_chunk_simps [OF assms])
  then show ?thesis by (simp add: live_view_def)
qed

text \<open>Inserting first and retiring afterwards is what the code does; the order does not matter.\<close>

lemma retire_after_insert:
  assumes inv: "chunk_inv db" and old: "d \<in> set (cd_rows db)" "ck_active d"
    and pl: "place d = (b, f, ix_line_start c, ix_line_end c)"
    and ins: "insert_active_chunk extract now b f c h v u m db = (db1, i)"
  shows "chunk_inv (retire_row now (ck_id d) (Some i) db1)"
    and "live_view b' (cd_rows (retire_row now (ck_id d) (Some i) db1)) =
      (if b' = b then insert ((f, ix_line_start c, ix_line_end c), h)
                        {x \<in> live_view b (cd_rows db). fst x \<noteq> (f, ix_line_start c, ix_line_end c)}
       else live_view b' (cd_rows db))"
proof -
  note ic = insert_active_chunk_simps [OF ins]
  let ?n = "fresh_chunk now i b f c h v u m" and ?k = "(f, ix_line_start c, ix_line_end c)"
  let ?db0 = "retire_row now (ck_id d) (Some i) db"
  have le: "ck_id d \<le> cd_seq db" using inv old(1) by (simp add: chunk_inv_def)
  then have lt: "ck_id d < i" using ic(1) by simp
  have inv0: "chunk_inv ?db0" by (rule retire_inv [OF inv]) (use lt in simp)
  have free: "place x \<noteq> (b, ?k)" if "x \<in> set (cd_rows ?db0)" "ck_active x" for x
  proof
    assume "place x = (b, ?k)"
    moreover have "x \<in> set (cd_rows db)" "ck_id x \<noteq> ck_id d"
      using that retire_active [of x now "ck_id d" "Some i" db] by blast+
    ultimately show False using inv old pl that(2) by (auto simp: chunk_inv_def dest: one_activeD)
  qed
  obtain db2 j where ins2: "insert_active_chunk extract now b f c h v u m ?db0 = (db2, j)"
    by (cases "insert_active_chunk extract now b f c h v u m ?db0") auto
  note ic2 = insert_active_chunk_simps [OF ins2]
  have j: "j = i" using ic(1) ic2(1) by simp
  have rows: "cd_rows (retire_row now (ck_id d) (Some i) db1) = cd_rows db2"
    using lt by (simp add: retire_row_rows ic(2) ic2(2) j)
  have fts: "cd_fts (retire_row now (ck_id d) (Some i) db1) = cd_fts db2"
    using lt by (simp add: retire_row_def ic(5) ic2(5) j)
  have seq: "cd_seq db1 = cd_seq db2"
    by (simp add: ic(3) ic2(3) j)
  have "chunk_inv db2" by (rule insert_inv [OF inv0 ins2 free])
  then show "chunk_inv (retire_row now (ck_id d) (Some i) db1)"
    by (simp add: chunk_inv_def rows fts seq)
  have k: "chunk_key_of d = ?k" "ck_buffer d = b" using pl by (simp_all add: place_def)
  show "live_view b' (cd_rows (retire_row now (ck_id d) (Some i) db1)) =
      (if b' = b then insert (?k, h) {x \<in> live_view b (cd_rows db). fst x \<noteq> ?k} else live_view b' (cd_rows db))"
    unfolding rows live_view_insert [OF ins2]
    using live_view_retire [OF inv old, where now = now and s = "Some i"] k by simp
qed

section \<open>One chunk, one batch\<close>

definition item_key :: "string \<times> indexed_chunk \<Rightarrow> chunk_key" where
  "item_key it = (fst it, ix_line_start (snd it), ix_line_end (snd it))"

definition item_hash :: "string \<times> indexed_chunk \<Rightarrow> string" where
  "item_hash it = (case hex_decode (ix_hash (snd it)) of Some bs \<Rightarrow> bs | None \<Rightarrow> [])"

lemma find_place:
  assumes "chunk_inv db"
  shows "existing_active_row b f ls le (cd_rows db) =
    (case List.find (\<lambda>c. ck_active c \<and> place c = (b, f, ls, le)) (cd_rows db) of
       Some c \<Rightarrow> Some (ck_id c, ck_hash c, ck_version c) | None \<Rightarrow> None)"
proof -
  have "(\<lambda>c. ck_buffer c = b \<and> ck_file c = f \<and> ck_line_start c = ls \<and> ck_line_end c = le \<and> ck_active c) =
      (\<lambda>c. ck_active c \<and> place c = (b, f, ls, le))"
    by (auto simp: place_def chunk_key_of_def)
  then show ?thesis by (simp add: existing_active_row_def split: option.split)
qed

lemma insert_chunk_step_correct:
  assumes inv: "chunk_inv db" and step: "insert_chunk_step extract now b active u m it (db, res) = (db', res')"
    and known: "item_key it \<in> active \<or> item_key it \<notin> fst ` live_view b (cd_rows db)"
  shows "chunk_inv db' \<and>
    live_view b (cd_rows db') = insert (item_key it, item_hash it) {x \<in> live_view b (cd_rows db). fst x \<noteq> item_key it} \<and>
    (\<forall>b'. b' \<noteq> b \<longrightarrow> live_view b' (cd_rows db') = live_view b' (cd_rows db)) \<and>
    set (bi_handled res') = set (bi_handled res) \<union> ({item_key it} \<inter> active)"
proof -
  obtain f c where it: "it = (f, c)" by (cases it)
  let ?k = "(f, ix_line_start c, ix_line_end c)"
  have k: "item_key it = ?k" by (simp add: item_key_def it)
  have h: "item_hash it = (case hex_decode (ix_hash c) of Some bs \<Rightarrow> bs | None \<Rightarrow> [])" by (simp add: item_hash_def it)
  let ?find = "List.find (\<lambda>c. ck_active c \<and> place c = (b, ?k)) (cd_rows db)"
  show ?thesis
  proof (cases "if ?k \<in> active then ?find else None")
    case None
    have free: "place d \<noteq> (b, ?k)" if "d \<in> set (cd_rows db)" "ck_active d" for d
    proof (cases "?k \<in> active")
      case True
      then have "?find = None" using None by simp
      then show ?thesis using find_NoneD that by fastforce
    next
      case False
      then have "?k \<notin> fst ` live_view b (cd_rows db)" using known k by simp
      then show ?thesis using that by (force simp: live_view_def place_def)
    qed
    obtain db1 i where ins: "insert_active_chunk extract now b f c (item_hash it) 1 u m db = (db1, i)"
      by (cases "insert_active_chunk extract now b f c (item_hash it) 1 u m db") auto
    have "db' = db1" "set (bi_handled res') = set (bi_handled res) \<union> ({?k} \<inter> active)"
      using step None ins
      by (auto simp: insert_chunk_step_def it find_place [OF inv] h [symmetric] Let_def split: if_splits)
    moreover have "{x \<in> live_view b (cd_rows db). fst x \<noteq> ?k} = live_view b (cd_rows db)"
      using free by (force simp: live_view_def place_def)
    ultimately show ?thesis
      using insert_inv [OF inv ins free] live_view_insert [OF ins] by (simp add: k)
  next
    case (Some d)
    then have act: "?k \<in> active" and fd: "?find = Some d" by (auto split: if_splits)
    then have d: "d \<in> set (cd_rows db)" "ck_active d" "place d = (b, ?k)" by (auto dest: find_SomeD)
    have ex: "existing_active_row b f (ix_line_start c) (ix_line_end c) (cd_rows db) =
        Some (ck_id d, ck_hash d, ck_version d)" by (simp add: find_place [OF inv] fd)
    show ?thesis
    proof (cases "ck_hash d = item_hash it")
      case True
      then have "db' = db" "set (bi_handled res') = set (bi_handled res) \<union> ({?k} \<inter> active)"
        using step act by (auto simp: insert_chunk_step_def it ex h [symmetric])
      moreover have "live_view b (cd_rows db) = insert (?k, item_hash it) {x \<in> live_view b (cd_rows db). fst x \<noteq> ?k}"
      proof (intro equalityI subsetI)
        fix x assume x: "x \<in> live_view b (cd_rows db)"
        show "x \<in> insert (?k, item_hash it) {x \<in> live_view b (cd_rows db). fst x \<noteq> ?k}"
        proof (cases "fst x = ?k")
          case True
          then obtain e where e: "e \<in> set (cd_rows db)" "ck_active e" "place e = (b, ?k)" "x = (?k, ck_hash e)"
            using x by (auto simp: live_view_def place_def)
          then have "e = d" using inv d by (auto simp: chunk_inv_def intro: one_activeD)
          then show ?thesis using e \<open>ck_hash d = item_hash it\<close> by simp
        qed (use x in simp)
      next
        fix x assume x: "x \<in> insert (?k, item_hash it) {x \<in> live_view b (cd_rows db). fst x \<noteq> ?k}"
        have "(?k, item_hash it) \<in> live_view b (cd_rows db)"
          using d \<open>ck_hash d = item_hash it\<close> by (force simp: live_view_def place_def)
        then show "x \<in> live_view b (cd_rows db)" using x by auto
      qed
      ultimately show ?thesis using inv by (simp add: k)
    next
      case False
      obtain db1 i where ins: "insert_active_chunk extract now b f c (item_hash it) (ck_version d + 1) u m db = (db1, i)"
        by (cases "insert_active_chunk extract now b f c (item_hash it) (ck_version d + 1) u m db") auto
      have "db' = retire_row now (ck_id d) (Some i) db1" "set (bi_handled res') = set (bi_handled res) \<union> ({?k} \<inter> active)"
        using step act False ins by (auto simp: insert_chunk_step_def it ex h [symmetric])
      then show ?thesis using retire_after_insert [OF inv d ins] by (simp add: k)
    qed
  qed
qed

lemma concat_rust_chunks: "0 < n \<Longrightarrow> concat (rust_chunks n xs) = xs"
proof (induction n xs rule: rust_chunks.induct)
  case (1 n xs)
  then show ?case by (cases "xs = []") (simp_all add: rust_chunks.simps [of n xs] rust_chunks.simps [of n "[]"])
qed

lemma fold_groups: "fold (fold f) gs = fold f (concat gs)"
  by (induction gs) (simp_all add: fun_eq_iff)

lemma insert_chunks_batched_fold:
  "insert_chunks_batched extract now b items max_batch active u m db =
     fold (insert_chunk_step extract now b active u m) items
       (db, \<lparr>bi_persisted = [], bi_handled = [], bi_retired = [], bi_inserted = 0\<rparr>)"
  by (simp add: insert_chunks_batched_def fold_groups concat_rust_chunks)

lemma drop_keys_insert:
  "k \<notin> K \<Longrightarrow> {x \<in> insert (k, h) {x \<in> L. fst x \<noteq> k}. fst x \<notin> K} = insert (k, h) {x \<in> L. fst x \<notin> insert k K}"
  by auto

lemma insert_items_correct:
  assumes "chunk_inv db" and "distinct (map item_key items)"
    and "\<forall>it\<in>set items. item_key it \<in> active \<or> item_key it \<notin> fst ` live_view b (cd_rows db)"
    and "fold (insert_chunk_step extract now b active u m) items (db, res) = (db', res')"
  shows "chunk_inv db' \<and>
    live_view b (cd_rows db') = {x \<in> live_view b (cd_rows db). fst x \<notin> item_key ` set items} \<union>
      (\<lambda>it. (item_key it, item_hash it)) ` set items \<and>
    (\<forall>b'. b' \<noteq> b \<longrightarrow> live_view b' (cd_rows db') = live_view b' (cd_rows db)) \<and>
    set (bi_handled res') = set (bi_handled res) \<union> (item_key ` set items \<inter> active)"
  using assms
proof (induction items arbitrary: db res)
  case (Cons it items)
  obtain db1 res1 where s: "insert_chunk_step extract now b active u m it (db, res) = (db1, res1)"
    by (cases "insert_chunk_step extract now b active u m it (db, res)") auto
  have known: "item_key it \<in> active \<or> item_key it \<notin> fst ` live_view b (cd_rows db)" using Cons.prems(3) by simp
  note st = insert_chunk_step_correct [OF Cons.prems(1) s known]
  have fresh: "item_key j \<noteq> item_key it" if "j \<in> set items" for j
    using Cons.prems(2) imageI [OF that, of item_key] by auto
  have known': "\<forall>j\<in>set items. item_key j \<in> active \<or> item_key j \<notin> fst ` live_view b (cd_rows db1)"
  proof
    fix j assume j: "j \<in> set items"
    have "item_key j \<in> active \<or> item_key j \<notin> fst ` live_view b (cd_rows db)" using Cons.prems(3) j by simp
    then show "item_key j \<in> active \<or> item_key j \<notin> fst ` live_view b (cd_rows db1)"
      using st fresh [OF j] by auto
  qed
  have "distinct (map item_key items)" using Cons.prems(2) by simp
  moreover have "fold (insert_chunk_step extract now b active u m) items (db1, res1) = (db', res')"
    using Cons.prems(4) by (simp add: s)
  ultimately have ih: "chunk_inv db' \<and>
    live_view b (cd_rows db') = {x \<in> live_view b (cd_rows db1). fst x \<notin> item_key ` set items} \<union>
      (\<lambda>it. (item_key it, item_hash it)) ` set items \<and>
    (\<forall>b'. b' \<noteq> b \<longrightarrow> live_view b' (cd_rows db') = live_view b' (cd_rows db1)) \<and>
    set (bi_handled res') = set (bi_handled res1) \<union> (item_key ` set items \<inter> active)"
    using st known' by (intro Cons.IH) auto
  have "{x \<in> live_view b (cd_rows db1). fst x \<notin> item_key ` set items} =
      insert (item_key it, item_hash it) {x \<in> live_view b (cd_rows db). fst x \<notin> item_key ` set (it # items)}"
  proof -
    have nin: "item_key it \<notin> item_key ` set items" using Cons.prems(2) by simp
    have "live_view b (cd_rows db1) = insert (item_key it, item_hash it) {x \<in> live_view b (cd_rows db). fst x \<noteq> item_key it}"
      using st by simp
    then show ?thesis using drop_keys_insert [OF nin] by simp
  qed
  then show ?case using ih st by auto
qed simp

lemma insert_chunks_batched_correct:
  assumes "chunk_inv db" and "distinct (map item_key items)"
    and "\<forall>it\<in>set items. item_key it \<in> active \<or> item_key it \<notin> fst ` live_view b (cd_rows db)"
  shows "chunk_inv (fst (insert_chunks_batched extract now b items max_batch active u m db)) \<and>
    live_view b (cd_rows (fst (insert_chunks_batched extract now b items max_batch active u m db))) =
      {x \<in> live_view b (cd_rows db). fst x \<notin> item_key ` set items} \<union> (\<lambda>it. (item_key it, item_hash it)) ` set items \<and>
    (\<forall>b'. b' \<noteq> b \<longrightarrow> live_view b' (cd_rows (fst (insert_chunks_batched extract now b items max_batch active u m db))) =
       live_view b' (cd_rows db)) \<and>
    set (bi_handled (snd (insert_chunks_batched extract now b items max_batch active u m db))) = item_key ` set items \<inter> active"
proof -
  obtain db' res' where r: "insert_chunks_batched extract now b items max_batch active u m db = (db', res')"
    by (cases "insert_chunks_batched extract now b items max_batch active u m db") auto
  show ?thesis
    using insert_items_correct [OF assms r [unfolded insert_chunks_batched_fold]] by (simp add: r)
qed

lemma snapshot_keys:
  "fst ` set (snapshot_active_chunks b rows) = fst ` live_view b rows"
proof -
  have "fst ` set (fold (\<lambda>c m. AList.update (chunk_key_of c) (ck_id c) m) cs m) =
      fst ` set m \<union> chunk_key_of ` set cs" for cs :: "chunk list" and m
    by (induction cs arbitrary: m) (auto simp: dom_update)
  then show ?thesis by (force simp: snapshot_active_chunks_def live_view_def)
qed

section \<open>Time travel\<close>

lemma find_pred:
  assumes "chunk_inv db" and "List.find (\<lambda>p. ck_superseded p = Some i) (cd_rows db) = Some p"
  shows "p \<in> set (cd_rows db)" "ck_id p < i" "0 < ck_id p"
proof -
  from find_SomeD [OF assms(2)] have p: "p \<in> set (cd_rows db)" "ck_superseded p = Some i" by auto
  then show "p \<in> set (cd_rows db)" by simp
  have "succ_later p" using assms(1) p(1) by (simp add: chunk_inv_def)
  then show "ck_id p < i" using p(2) by (simp add: succ_later_def)
  show "0 < ck_id p" using assms(1) p(1) by (auto simp: chunk_inv_def rows_wf_def list_all_iff)
qed

text \<open>The walk back ends: ids fall along it. It starts at the chunk and only meets older rows.\<close>

lemma chunk_family_ends:
  assumes inv: "chunk_inv db" and c: "c \<in> set (cd_rows db)"
  shows "\<exists>ps. chunk_family (cd_rows db) (ck_id c) acc = Some (acc @ c # ps) \<and>
    set ps \<subseteq> set (cd_rows db) \<and> (\<forall>p\<in>set ps. ck_id p < ck_id c)"
  using c
proof (induction "nat (ck_id c)" arbitrary: c acc rule: less_induct)
  case less
  have gc: "get_chunk (ck_id c) (cd_rows db) = Some c"
    using inv less.prems by (simp add: get_chunk_def chunk_inv_def find_by_id)
  show ?case
  proof (cases "List.find (\<lambda>p. ck_superseded p = Some (ck_id c)) (cd_rows db)")
    case None
    then have "chunk_family (cd_rows db) (ck_id c) acc = Some (acc @ [c])"
      by (simp add: chunk_family.simps [of "cd_rows db" "ck_id c"] gc)
    then show ?thesis by (intro exI [of _ "[]"]) simp
  next
    case (Some p)
    note fp = find_pred [OF inv Some]
    have "nat (ck_id p) < nat (ck_id c)" using fp by simp
    from less.hyps [OF this fp(1), of "acc @ [c]"] obtain ps where
      ps: "chunk_family (cd_rows db) (ck_id p) (acc @ [c]) = Some ((acc @ [c]) @ p # ps)"
        "set ps \<subseteq> set (cd_rows db)" "\<forall>q\<in>set ps. ck_id q < ck_id p" by blast
    have "chunk_family (cd_rows db) (ck_id c) acc = Some (acc @ c # p # ps)"
      using ps(1) fp(2) by (simp add: chunk_family.simps [of "cd_rows db" "ck_id c"] gc Some)
    then show ?thesis using ps fp by (intro exI [of _ "p # ps"]) fastforce
  qed
qed

lemma newest_dominant:
  assumes "\<And>p. p \<in> set ps \<Longrightarrow> (ck_epoch p, ck_id p) < (ck_epoch c, ck_id c)"
  shows "newest (c # ps) = Some c"
proof -
  have "fold (\<lambda>c best. case best of None \<Rightarrow> Some c
       | Some b \<Rightarrow> if (ck_epoch b, ck_id b) \<le> (ck_epoch c, ck_id c) then Some c else Some b) ps (Some c) = Some c"
    using assms
  proof (induction ps)
    case (Cons p ps)
    have "\<not> (ck_epoch c, ck_id c) \<le> (ck_epoch p, ck_id p)" using Cons.prems [of p] by (simp only: not_le list.set_intros)
    then show ?case using Cons by (simp del: less_eq_prod_simp less_prod_simp)
  qed simp
  then show ?thesis by (simp add: newest_def)
qed

text \<open>
  Reading a chunk as of a moment always ends, and returns the row asked for or nothing: no
  write gives a row an epoch, so with all epochs zero every moment from 0 up finds the newest
  row of the family, which is the one the search returned, whatever it said at that moment.
\<close>

theorem chunk_as_of_is_current:
  assumes "chunk_inv db" and "c \<in> set (cd_rows db)" and "\<forall>d\<in>set (cd_rows db). ck_epoch d = 0"
  shows "get_chunk_as_of (ck_id c) t (cd_rows db) = Some (if 0 \<le> t then Some c else None)"
proof -
  from chunk_family_ends [OF assms(1,2), of "[]"] obtain ps where
    ps: "chunk_family (cd_rows db) (ck_id c) [] = Some (c # ps)" "set ps \<subseteq> set (cd_rows db)"
      "\<forall>p\<in>set ps. ck_id p < ck_id c" by auto
  have e: "ck_epoch d = 0" if "d \<in> set (c # ps)" for d using assms(2,3) ps(2) that by auto
  show ?thesis
  proof (cases "0 \<le> t")
    case True
    then have "filter (\<lambda>d. ck_epoch d \<le> t) (c # ps) = c # ps" using e by (intro filter_True) simp
    moreover have "newest (c # ps) = Some c" by (rule newest_dominant) (use e ps(3) in auto)
    ultimately show ?thesis using True by (simp add: get_chunk_as_of_def ps(1) del: filter.simps)
  next
    case False
    then have "filter (\<lambda>d. ck_epoch d \<le> t) (c # ps) = []" using e by (intro filter_False) simp
    then show ?thesis using False by (simp add: get_chunk_as_of_def ps(1) newest_def del: filter.simps)
  qed
qed

definition demo_chunk :: "string \<Rightarrow> string \<Rightarrow> indexed_chunk" where
  "demo_chunk content h =
     \<lparr>ix_file = ''a.rs'', ix_line_start = 1, ix_line_end = 2, ix_content = content, ix_hash = h,
      ix_language = Some ''rust'', ix_type = ''code''\<rparr>"

definition two_revisions :: chunk_db where
  "two_revisions =
     fst (insert_chunks_batched (\<lambda>_ _. []) 9 1 [(''a.rs'', demo_chunk ''new'' ''bb'')] 10 {(''a.rs'', 1, 2)} None None
       (fst (insert_chunks_batched (\<lambda>_ _. []) 5 1 [(''a.rs'', demo_chunk ''old'' ''aa'')] 10 {} None None empty_chunks)))"

lemma two_revisions_rows:
  "map (\<lambda>c. (ck_id c, ck_active c, ck_superseded c, ck_version c, ck_epoch c)) (cd_rows two_revisions) =
     [(1, False, Some 2, 1, 0), (2, True, None, 2, 0)]"
  by code_simp

lemma two_revisions_inv: "chunk_inv two_revisions"
proof -
  let ?db1 = "fst (insert_chunks_batched (\<lambda>_ _. []) 5 1 [(''a.rs'', demo_chunk ''old'' ''aa'')] 10 {} None None empty_chunks)"
  have "chunk_inv ?db1"
    by (rule insert_chunks_batched_correct [THEN conjunct1]) (simp, simp, simp add: empty_chunks_def live_view_def)
  then show ?thesis
    unfolding two_revisions_def
    by (rule insert_chunks_batched_correct [THEN conjunct1]) (simp_all add: item_key_def demo_chunk_def)
qed

lemma chunk_as_of_is_current_witness:
  "\<exists>c\<in>set (cd_rows two_revisions). ck_id c = 2 \<and> get_chunk_as_of 2 7 (cd_rows two_revisions) = Some (Some c)"
proof -
  obtain a c where rows: "cd_rows two_revisions = [a, c]" "ck_id c = 2" "ck_epoch a = 0" "ck_epoch c = 0"
    using two_revisions_rows by (auto simp: map_eq_Cons_conv)
  have "get_chunk_as_of (ck_id c) 7 (cd_rows two_revisions) = Some (if 0 \<le> (7::int) then Some c else None)"
    by (rule chunk_as_of_is_current [OF two_revisions_inv]) (simp_all add: rows)
  then show ?thesis using rows by auto
qed

end
