(* ===== verification/Pending_Qa.thy ===== *)
theory Pending_Qa
  imports Prelude
begin

text \<open>
  The queue of cached answers to digest again
  (\<^verbatim>\<open>crates/arags-storage/src/sqlite/pending_qa.rs\<close>): enqueue, claim with a lease that prefers
  the original author, revert of expired leases, completion. Lemmas: one open job per answer
  in every reachable queue, and what a completion checks.
\<close>

section \<open>Rows\<close>

datatype qa_job_status = Qa_Pending | Qa_Leased | Qa_Completed

record pending_qa_job =
  pq_id :: row_id
  pq_cache_id :: string
  pq_project :: string
  pq_preferred :: "string option"
  pq_status :: qa_job_status
  pq_leased_by :: "string option"
  pq_leased_until :: "seconds option"
  pq_created :: seconds
  pq_completed :: "seconds option"

definition default_pending_qa_lease_secs :: seconds where
  "default_pending_qa_lease_secs = 300"

definition open_qa_job :: "pending_qa_job \<Rightarrow> bool" where
  "open_qa_job r \<longleftrightarrow> pq_status r = Qa_Pending \<or> pq_status r = Qa_Leased"

section \<open>Operations\<close>

definition enqueue_pending_qa ::
  "seconds \<Rightarrow> string \<Rightarrow> string \<Rightarrow> string option \<Rightarrow> pending_qa_job list \<Rightarrow> pending_qa_job list \<times> row_id" where
  "enqueue_pending_qa now cache_id project preferred rows =
     (case List.find (\<lambda>r. pq_cache_id r = cache_id \<and> open_qa_job r) rows of
        Some r \<Rightarrow> (rows, pq_id r)
      | None \<Rightarrow>
          let i = next_rowid pq_id rows in
          (rows @ [\<lparr>pq_id = i, pq_cache_id = cache_id, pq_project = project, pq_preferred = preferred,
                    pq_status = Qa_Pending, pq_leased_by = None, pq_leased_until = None,
                    pq_created = now, pq_completed = None\<rparr>], i))"

text \<open>\<open>ORDER BY created_at ASC LIMIT 1\<close>.\<close>

definition oldest_pending :: "(pending_qa_job \<Rightarrow> bool) \<Rightarrow> pending_qa_job list \<Rightarrow> row_id option" where
  "oldest_pending p rows =
     (case sort_key pq_created (filter (\<lambda>r. pq_status r = Qa_Pending \<and> p r) rows) of
        [] \<Rightarrow> None | r # _ \<Rightarrow> Some (pq_id r))"

definition lease_qa_row :: "string \<Rightarrow> seconds \<Rightarrow> pending_qa_job \<Rightarrow> pending_qa_job" where
  "lease_qa_row worker expires r =
     r\<lparr>pq_status := Qa_Leased, pq_leased_by := Some worker, pq_leased_until := Some expires\<rparr>"

definition claim_pending_qa ::
  "seconds \<Rightarrow> string \<Rightarrow> seconds \<Rightarrow> pending_qa_job list \<Rightarrow> pending_qa_job list \<times> pending_qa_job option" where
  "claim_pending_qa now worker lease_secs rows =
     (let expires = saturating_add_i64 now (max 1 lease_secs);
          job = (case oldest_pending (\<lambda>r. pq_preferred r = Some worker) rows of
                   Some i \<Rightarrow> Some i | None \<Rightarrow> oldest_pending (\<lambda>_. True) rows)
      in case job of
           None \<Rightarrow> (rows, None)
         | Some i \<Rightarrow>
             let rows' = update_where (\<lambda>r. pq_id r = i \<and> pq_status r = Qa_Pending) (lease_qa_row worker expires) rows
             in (rows', List.find (\<lambda>r. pq_id r = i) rows'))"

definition reopen_qa_row :: "pending_qa_job \<Rightarrow> pending_qa_job" where
  "reopen_qa_row r = r\<lparr>pq_status := Qa_Pending, pq_leased_by := None, pq_leased_until := None\<rparr>"

definition qa_lease_expired :: "seconds \<Rightarrow> pending_qa_job \<Rightarrow> bool" where
  "qa_lease_expired now r \<longleftrightarrow>
     pq_status r = Qa_Leased \<and> (case pq_leased_until r of Some t \<Rightarrow> t < now | None \<Rightarrow> False)"

definition revert_expired_leases :: "seconds \<Rightarrow> pending_qa_job list \<Rightarrow> pending_qa_job list \<times> nat" where
  "revert_expired_leases now rows =
     (update_where (qa_lease_expired now) reopen_qa_row rows, count_where (qa_lease_expired now) rows)"

definition count_pending_qa_by_status :: "pending_qa_job list \<Rightarrow> nat \<times> nat \<times> nat" where
  "count_pending_qa_by_status rows =
     (count_where (\<lambda>r. pq_status r = Qa_Pending) rows, count_where (\<lambda>r. pq_status r = Qa_Leased) rows,
      count_where (\<lambda>r. pq_status r = Qa_Completed) rows)"

definition revert_expired_pending_qa ::
  "seconds \<Rightarrow> pending_qa_job list \<Rightarrow> pending_qa_job list \<times> nat \<times> nat \<times> nat \<times> nat" where
  "revert_expired_pending_qa now rows =
     (let (rows', expired) = revert_expired_leases now rows;
          (pending, leased, completed) = count_pending_qa_by_status rows'
      in (rows', pending, leased, completed, expired))"

definition complete_pending_qa :: "seconds \<Rightarrow> row_id \<Rightarrow> pending_qa_job list \<Rightarrow> pending_qa_job list \<times> bool" where
  "complete_pending_qa now i rows =
     (let hit = (\<lambda>r. pq_id r = i \<and> pq_status r = Qa_Leased)
      in (update_where hit (\<lambda>r. r\<lparr>pq_status := Qa_Completed, pq_completed := Some now\<rparr>) rows,
          0 < count_where hit rows))"

section \<open>Reachable queues\<close>

inductive qa_queue_step :: "pending_qa_job list \<Rightarrow> pending_qa_job list \<Rightarrow> bool" where
  enqueued: "qa_queue_step rows (fst (enqueue_pending_qa now cache_id project preferred rows))"
| claimed: "qa_queue_step rows (fst (claim_pending_qa now worker lease_secs rows))"
| reverted: "qa_queue_step rows (fst (revert_expired_leases now rows))"
| completed: "qa_queue_step rows (fst (complete_pending_qa now i rows))"

inductive qa_queue_reachable :: "pending_qa_job list \<Rightarrow> bool" where
  start: "qa_queue_reachable []"
| move: "qa_queue_reachable rows \<Longrightarrow> qa_queue_step rows rows' \<Longrightarrow> qa_queue_reachable rows'"

inductive_cases qa_queue_stepE: "qa_queue_step rows rows'"

definition qa_queue_inv :: "pending_qa_job list \<Rightarrow> bool" where
  "qa_queue_inv rows \<longleftrightarrow>
     rows_wf pq_id rows \<and>
     (\<forall>r\<in>set rows. \<forall>s\<in>set rows. open_qa_job r \<longrightarrow> open_qa_job s \<longrightarrow> pq_cache_id r = pq_cache_id s \<longrightarrow> r = s)"

lemma qa_queue_invD:
  "qa_queue_inv rows \<Longrightarrow> r \<in> set rows \<Longrightarrow> s \<in> set rows \<Longrightarrow> open_qa_job r \<Longrightarrow> open_qa_job s \<Longrightarrow>
     pq_cache_id r = pq_cache_id s \<Longrightarrow> r = s"
  unfolding qa_queue_inv_def by blast

text \<open>An update that opens no closed job and keeps ids and answers keeps the invariant.\<close>

lemma qa_queue_inv_update:
  assumes inv: "qa_queue_inv rows"
    and f: "\<And>r. pq_id (f r) = pq_id r \<and> pq_cache_id (f r) = pq_cache_id r"
    and opens: "\<And>r. p r \<Longrightarrow> open_qa_job (f r) \<Longrightarrow> open_qa_job r"
  shows "qa_queue_inv (update_where p f rows)"
proof -
  have "rows_wf pq_id (update_where p f rows)"
    using inv f by (simp add: rows_wf_update_where qa_queue_inv_def)
  moreover have "r = s"
    if r: "r \<in> set (update_where p f rows)" "open_qa_job r" and s: "s \<in> set (update_where p f rows)" "open_qa_job s"
      and eq: "pq_cache_id r = pq_cache_id s" for r s
  proof -
    obtain r0 s0 where 0: "r0 \<in> set rows" "r = (if p r0 then f r0 else r0)"
      "s0 \<in> set rows" "s = (if p s0 then f s0 else s0)"
      using r(1) s(1) by (auto simp: in_set_update_where)
    have "open_qa_job r0" "open_qa_job s0" using 0 r(2) s(2) opens by (auto split: if_splits)
    moreover have "pq_cache_id r0 = pq_cache_id s0" using 0 eq f by (auto split: if_splits)
    ultimately have "r0 = s0" using 0 inv by (intro qa_queue_invD)
    then show ?thesis using 0 by simp
  qed
  ultimately show ?thesis unfolding qa_queue_inv_def by blast
qed

lemma enqueue_qa_inv:
  assumes inv: "qa_queue_inv rows"
  shows "qa_queue_inv (fst (enqueue_pending_qa now cache_id project preferred rows))"
proof (cases "List.find (\<lambda>r. pq_cache_id r = cache_id \<and> open_qa_job r) rows")
  case None
  have free: "pq_cache_id r \<noteq> cache_id" if "r \<in> set rows" "open_qa_job r" for r
    using find_NoneD [OF None] that by blast
  let ?n = "\<lparr>pq_id = next_rowid pq_id rows, pq_cache_id = cache_id, pq_project = project, pq_preferred = preferred,
      pq_status = Qa_Pending, pq_leased_by = None, pq_leased_until = None, pq_created = now, pq_completed = None\<rparr>"
  have "rows_wf pq_id (rows @ [?n])" using inv by (intro rows_wf_snoc) (simp_all add: qa_queue_inv_def)
  moreover have "r = s" if "r \<in> set (rows @ [?n])" "s \<in> set (rows @ [?n])" "open_qa_job r" "open_qa_job s"
      "pq_cache_id r = pq_cache_id s" for r s
    using that free [of r] free [of s] qa_queue_invD [OF inv, of r s] by auto
  ultimately show ?thesis by (simp add: enqueue_pending_qa_def None Let_def qa_queue_inv_def)
next
  case (Some r)
  then show ?thesis using inv by (simp add: enqueue_pending_qa_def)
qed

lemma qa_queue_step_inv: "qa_queue_step rows rows' \<Longrightarrow> qa_queue_inv rows \<Longrightarrow> qa_queue_inv rows'"
proof (erule qa_queue_stepE)
  fix now worker lease_secs
  assume "qa_queue_inv rows" "rows' = fst (claim_pending_qa now worker lease_secs rows)"
  then show "qa_queue_inv rows'"
    by (auto simp: claim_pending_qa_def Let_def lease_qa_row_def open_qa_job_def
        intro!: qa_queue_inv_update split: option.split)
next
  fix now assume "qa_queue_inv rows" "rows' = fst (revert_expired_leases now rows)"
  then show "qa_queue_inv rows'"
    by (auto simp: revert_expired_leases_def reopen_qa_row_def qa_lease_expired_def open_qa_job_def
        intro!: qa_queue_inv_update)
next
  fix now i assume "qa_queue_inv rows" "rows' = fst (complete_pending_qa now i rows)"
  then show "qa_queue_inv rows'"
    by (auto simp: complete_pending_qa_def Let_def open_qa_job_def intro!: qa_queue_inv_update)
qed (simp add: enqueue_qa_inv)

lemma qa_queue_reachable_inv: "qa_queue_reachable rows \<Longrightarrow> qa_queue_inv rows"
proof (induction rule: qa_queue_reachable.induct)
  case start
  show ?case by (simp add: qa_queue_inv_def)
next
  case (move rows rows')
  show ?case by (rule qa_queue_step_inv [OF move.hyps(2) move.IH])
qed

text \<open>After an enqueue the answer has exactly one open job.\<close>

lemma open_job_once:
  assumes inv: "qa_queue_inv rows"
  shows "length (filter (\<lambda>j. pq_cache_id j = c \<and> open_qa_job j) (fst (enqueue_pending_qa now c project preferred rows))) = 1"
proof -
  let ?rows = "fst (enqueue_pending_qa now c project preferred rows)"
  let ?hits = "filter (\<lambda>j. pq_cache_id j = c \<and> open_qa_job j) ?rows"
  have inv': "qa_queue_inv ?rows" by (rule enqueue_qa_inv [OF inv])
  have "\<exists>j. j \<in> set ?rows \<and> pq_cache_id j = c \<and> open_qa_job j"
  proof (cases "List.find (\<lambda>r. pq_cache_id r = c \<and> open_qa_job r) rows")
    case None
    then show ?thesis
      by (simp add: enqueue_pending_qa_def Let_def conj_disj_distribR ex_disj_distrib open_qa_job_def)
  next
    case (Some r)
    then show ?thesis using find_SomeD [OF Some] by (auto simp: enqueue_pending_qa_def)
  qed
  then obtain j where "j \<in> set ?hits" by auto
  moreover have "x = y" if "x \<in> set ?hits" "y \<in> set ?hits" for x y
    using that qa_queue_invD [OF inv', of x y] by auto
  moreover have "distinct ?hits" using inv' by (auto simp: qa_queue_inv_def rows_wf_def distinct_map)
  ultimately have "set ?hits = {j}" "distinct ?hits" by blast+
  then have "card (set ?hits) = 1" by simp
  then show ?thesis using \<open>distinct ?hits\<close> by (simp only: distinct_card)
qed

lemma oldest_pendingD:
  assumes "oldest_pending p rows = Some i"
  shows "\<exists>r\<in>set rows. pq_id r = i \<and> pq_status r = Qa_Pending \<and> p r \<and>
    (\<forall>s\<in>set rows. pq_status s = Qa_Pending \<longrightarrow> p s \<longrightarrow> pq_created r \<le> pq_created s)"
proof -
  let ?xs = "sort_key pq_created (filter (\<lambda>r. pq_status r = Qa_Pending \<and> p r) rows)"
  from assms obtain r rs where xs: "?xs = r # rs" "pq_id r = i"
    by (auto simp: oldest_pending_def split: list.splits)
  have st: "set ?xs = {r \<in> set rows. pq_status r = Qa_Pending \<and> p r}" by simp
  have r: "r \<in> set ?xs" by (simp only: xs) simp
  have "sorted (map pq_created ?xs)" by simp
  then have "\<forall>s\<in>set ?xs. pq_created r \<le> pq_created s" unfolding xs by auto
  then show ?thesis using r xs(2) unfolding st by blast
qed

lemma oldest_pending_None:
  "oldest_pending p rows = None \<longleftrightarrow> (\<forall>r\<in>set rows. pq_status r = Qa_Pending \<longrightarrow> \<not> p r)"
proof -
  have "oldest_pending p rows = None \<longleftrightarrow> sort_key pq_created (filter (\<lambda>r. pq_status r = Qa_Pending \<and> p r) rows) = []"
    by (auto simp: oldest_pending_def split: list.split)
  also have "\<dots> \<longleftrightarrow> filter (\<lambda>r. pq_status r = Qa_Pending \<and> p r) rows = []"
    by (simp add: sort_key_Nil_iff)
  finally show ?thesis by (auto simp: filter_empty_conv)
qed

section \<open>Properties\<close>

text \<open>
  In every reachable queue a claim fails only when nothing is pending. Otherwise it leases
  one pending job to the caller until the lease ends: one whose author the caller is when
  there is any, the oldest of those it may choose from, and the only open job of its answer.
\<close>

theorem pending_qa_claim:
  assumes "qa_queue_reachable rows" and "claim_pending_qa now worker lease_secs rows = (rows', claimed)"
  shows "case claimed of
      None \<Rightarrow> rows' = rows \<and> (\<forall>r\<in>set rows. pq_status r \<noteq> Qa_Pending)
    | Some j \<Rightarrow> \<exists>r\<in>set rows. pq_status r = Qa_Pending \<and>
        j = lease_qa_row worker (saturating_add_i64 now (max 1 lease_secs)) r \<and> j \<in> set rows' \<and>
        (\<forall>s\<in>set rows. open_qa_job s \<longrightarrow> pq_cache_id s = pq_cache_id r \<longrightarrow> s = r) \<and>
        (if \<exists>s\<in>set rows. pq_status s = Qa_Pending \<and> pq_preferred s = Some worker
         then pq_preferred r = Some worker \<and>
           (\<forall>s\<in>set rows. pq_status s = Qa_Pending \<longrightarrow> pq_preferred s = Some worker \<longrightarrow> pq_created r \<le> pq_created s)
         else \<forall>s\<in>set rows. pq_status s = Qa_Pending \<longrightarrow> pq_created r \<le> pq_created s)"
proof -
  have inv: "qa_queue_inv rows" by (rule qa_queue_reachable_inv [OF assms(1)])
  then have wf: "rows_wf pq_id rows" by (simp add: qa_queue_inv_def)
  let ?exp = "saturating_add_i64 now (max 1 lease_secs)"
  let ?pref = "oldest_pending (\<lambda>r. pq_preferred r = Some worker) rows" and ?any = "oldest_pending (\<lambda>_. True) rows"
  let ?job = "case ?pref of Some i \<Rightarrow> Some i | None \<Rightarrow> ?any"
  show ?thesis
  proof (cases ?job)
    case None
    then have "claimed = None" "rows' = rows" "?any = None" using assms(2)
      by (auto simp: claim_pending_qa_def Let_def split: option.splits)
    then show ?thesis by (simp add: oldest_pending_None)
  next
    case (Some i)
    let ?choice = "\<lambda>r. pq_id r = i \<and> pq_status r = Qa_Pending \<and>
      (if \<exists>s\<in>set rows. pq_status s = Qa_Pending \<and> pq_preferred s = Some worker
         then pq_preferred r = Some worker \<and>
           (\<forall>s\<in>set rows. pq_status s = Qa_Pending \<longrightarrow> pq_preferred s = Some worker \<longrightarrow> pq_created r \<le> pq_created s)
         else \<forall>s\<in>set rows. pq_status s = Qa_Pending \<longrightarrow> pq_created r \<le> pq_created s)"
    obtain r where r: "r \<in> set rows" "?choice r"
    proof (cases ?pref)
      case None
      then have "?any = Some i" using Some by simp
      from oldest_pendingD [OF this] None that show ?thesis by (auto simp: oldest_pending_None)
    next
      case (Some k)
      then have "?pref = Some i" using \<open>?job = Some i\<close> by simp
      from oldest_pendingD [OF this] obtain r where
        r: "r \<in> set rows" "pq_id r = i" "pq_status r = Qa_Pending" "pq_preferred r = Some worker"
          "\<forall>s\<in>set rows. pq_status s = Qa_Pending \<longrightarrow> pq_preferred s = Some worker \<longrightarrow> pq_created r \<le> pq_created s"
        by blast
      then have "?choice r" by auto
      then show ?thesis using that r(1) by blast
    qed
    let ?rows = "update_where (\<lambda>r. pq_id r = i \<and> pq_status r = Qa_Pending) (lease_qa_row worker ?exp) rows"
    have wf': "rows_wf pq_id ?rows" using wf by (simp add: rows_wf_update_where lease_qa_row_def)
    have j: "lease_qa_row worker ?exp r \<in> set ?rows"
      using r by (auto simp: in_set_update_where intro!: bexI [of _ r])
    have "List.find (\<lambda>r. pq_id r = i) ?rows = Some (lease_qa_row worker ?exp r)"
      by (rule find_by_id [OF wf' j]) (use r in \<open>simp add: lease_qa_row_def\<close>)
    then have c: "rows' = ?rows" "claimed = Some (lease_qa_row worker ?exp r)"
      using assms(2) Some by (simp_all add: claim_pending_qa_def Let_def)
    have "\<forall>s\<in>set rows. open_qa_job s \<longrightarrow> pq_cache_id s = pq_cache_id r \<longrightarrow> s = r"
      using r by (auto intro: qa_queue_invD [OF inv] simp: open_qa_job_def)
    then show ?thesis unfolding c option.case using r j by (intro bexI [of _ r]) simp_all
  qed
qed

definition demo_qa_queue :: "pending_qa_job list" where
  "demo_qa_queue = fst (enqueue_pending_qa 5 ''c2'' ''p'' (Some ''bob'')
     (fst (enqueue_pending_qa 4 ''c1'' ''p'' (Some ''ann'') [])))"

lemma demo_qa_queue_reachable: "qa_queue_reachable demo_qa_queue"
  unfolding demo_qa_queue_def
  by (rule qa_queue_reachable.move [OF qa_queue_reachable.move [OF qa_queue_reachable.start qa_queue_step.enqueued]
        qa_queue_step.enqueued])

lemma pending_qa_claim_witness:
  "\<exists>r\<in>set demo_qa_queue. pq_cache_id r = ''c2'' \<and>
     snd (claim_pending_qa 10 ''bob'' 300 demo_qa_queue) = Some (lease_qa_row ''bob'' 310 r)"
proof -
  obtain rows' claimed where c0: "claim_pending_qa 10 ''bob'' 300 demo_qa_queue = (rows', claimed)" by fastforce
  have "snd (claim_pending_qa 10 ''bob'' 300 demo_qa_queue) \<noteq> None" by code_simp
  then obtain j where c: "claim_pending_qa 10 ''bob'' 300 demo_qa_queue = (rows', Some j)" using c0 by auto
  have "list_ex (\<lambda>s. pq_status s = Qa_Pending \<and> pq_preferred s = Some ''bob'') demo_qa_queue" by code_simp
  then have p: "\<exists>s\<in>set demo_qa_queue. pq_status s = Qa_Pending \<and> pq_preferred s = Some ''bob''" by (auto simp: list_ex_iff)
  have "list_all (\<lambda>s. pq_preferred s = Some ''bob'' \<longrightarrow> pq_cache_id s = ''c2'') demo_qa_queue" by code_simp
  then have u: "s \<in> set demo_qa_queue \<Longrightarrow> pq_preferred s = Some ''bob'' \<Longrightarrow> pq_cache_id s = ''c2''" for s
    by (auto simp: list_all_iff)
  have e: "saturating_add_i64 10 (max 1 300) = 310" by (simp add: saturating_add_i64_def i64_max_def)
  from pending_qa_claim [OF demo_qa_queue_reachable c]
  obtain r where r: "r \<in> set demo_qa_queue" "j = lease_qa_row ''bob'' 310 r" "pq_preferred r = Some ''bob''"
    unfolding e option.case if_P [OF p] by blast
  then have "pq_cache_id r = ''c2''" using u by blast
  then show ?thesis using r(1,2) c by (intro bexI [of _ r]) simp_all
qed

text \<open>
  A completion checks neither who holds the lease nor whether it has ended: in every
  reachable queue any leased job, expired or not, is completed by whoever names its id.
\<close>

theorem pending_qa_complete_unchecked:
  assumes "qa_queue_reachable rows" and "r \<in> set rows" and "pq_status r = Qa_Leased"
  shows "snd (complete_pending_qa now (pq_id r) rows) \<and>
    (\<exists>s\<in>set (fst (complete_pending_qa now (pq_id r) rows)).
       pq_id s = pq_id r \<and> pq_status s = Qa_Completed \<and> pq_leased_by s = pq_leased_by r)"
proof -
  have "0 < count_where (\<lambda>s. pq_id s = pq_id r \<and> pq_status s = Qa_Leased) rows"
    using assms(2,3) by (auto simp: count_where_def filter_empty_conv)
  then have "snd (complete_pending_qa now (pq_id r) rows)" by (simp add: complete_pending_qa_def)
  moreover have "r\<lparr>pq_status := Qa_Completed, pq_completed := Some now\<rparr> \<in> set (fst (complete_pending_qa now (pq_id r) rows))"
    unfolding complete_pending_qa_def Let_def fst_conv in_set_update_where
    using assms(2,3) by (intro bexI [of _ r]) simp_all
  ultimately show ?thesis by (intro conjI bexI) simp_all
qed

lemma pending_qa_complete_unchecked_witness:
  "snd (complete_pending_qa 9999 1 (fst (claim_pending_qa 10 ''ann'' 300 demo_qa_queue)))"
proof -
  let ?rows = "fst (claim_pending_qa 10 ''ann'' 300 demo_qa_queue)"
  have reach: "qa_queue_reachable ?rows"
    by (rule qa_queue_reachable.move [OF demo_qa_queue_reachable qa_queue_step.claimed])
  have "list_ex (\<lambda>r. pq_status r = Qa_Leased \<and> pq_id r = 1) ?rows" by code_simp
  then obtain r where "r \<in> set ?rows" "pq_status r = Qa_Leased" "pq_id r = 1" by (auto simp: list_ex_iff)
  then show ?thesis using pending_qa_complete_unchecked [OF reach, of r 9999] by simp
qed

end
