(* ===== verification/Qa_Cache.thy ===== *)
theory Qa_Cache
  imports Supersede Pending_Qa Chunk_Store Rust_Text
begin

text \<open>
  The cache of answered questions (\<^verbatim>\<open>crates/arags-storage/src/sqlite/qa_cache/*\<close>): storing
  with history, the lookups, staleness with the re-digest job it enqueues, weighted eviction,
  and the hook that runs after an index pass. JSON list columns are lists. The SHA-256 digest
  and the lower-casing are arguments; a question is a byte list whose white space is ASCII.
  Lemmas: the table keeps one live answer per (project, buffer, question), the history walk
  ends even after deletions, and what each operation does to the rows it does not name.
\<close>

section \<open>Rows\<close>

record qa_row =
  qa_id :: row_id
  qa_cache_id :: string
  qa_buffer :: "row_id option"
  qa_project :: string
  qa_question :: string
  qa_hash :: string
  qa_answer :: string
  qa_chunk_ids :: "string list"
  qa_hashes :: "string list"
  qa_model :: "string option"
  qa_confidence :: real
  qa_snapshot :: "string option"
  qa_tokens :: int
  qa_access :: int
  qa_created :: millis
  qa_accessed :: millis
  qa_stale :: bool
  qa_invalidated :: "(millis \<times> string \<times> string) option"
  qa_active :: bool
  qa_superseded :: "row_id option"
  qa_epoch :: int
  qa_created_by :: "string option"
  qa_version :: int
  qa_vector_status :: string

text \<open>\<open>qa_invalidated\<close> joins the three audit columns, which are always written together.\<close>

record store_answer_input =
  ai_buffer :: "row_id option"
  ai_project :: string
  ai_question :: string
  ai_hash :: string
  ai_answer :: string
  ai_chunk_ids :: "string list"
  ai_hashes :: "string list"
  ai_model :: "string option"
  ai_snapshot :: "string option"
  ai_tokens :: int
  ai_created_by :: "string option"

record stored_answer =
  sa_cache_id :: string
  sa_id :: row_id
  sa_created :: bool

text \<open>The two tables a staleness mark writes.\<close>

record qa_db =
  qd_rows :: "qa_row list"
  qd_jobs :: "pending_qa_job list"

definition question_hash :: "(string \<Rightarrow> string) \<Rightarrow> (string \<Rightarrow> string) \<Rightarrow> string \<Rightarrow> string" where
  "question_hash sha256 to_lowercase question =
     hex_encode (sha256 (to_lowercase (filter (\<lambda>c. \<not> is_ws c) question)))"

definition chunk_content_hash :: "(string \<Rightarrow> string) \<Rightarrow> string \<Rightarrow> string" where
  "chunk_content_hash sha256 content = hex_encode (sha256 content)"

section \<open>Storing\<close>

type_synonym qa_key = "string \<times> row_id option \<times> string"

definition qa_key_of :: "qa_row \<Rightarrow> qa_key" where
  "qa_key_of r = (qa_project r, qa_buffer r, qa_hash r)"

definition input_qa_key :: "store_answer_input \<Rightarrow> qa_key" where
  "input_qa_key inp = (ai_project inp, ai_buffer inp, ai_hash inp)"

definition fresh_answer :: "string \<Rightarrow> store_answer_input \<Rightarrow> millis \<Rightarrow> int \<Rightarrow> row_id \<Rightarrow> qa_row" where
  "fresh_answer cache_id inp now v i =
     \<lparr>qa_id = i, qa_cache_id = cache_id, qa_buffer = ai_buffer inp, qa_project = ai_project inp,
      qa_question = ai_question inp, qa_hash = ai_hash inp, qa_answer = ai_answer inp,
      qa_chunk_ids = ai_chunk_ids inp, qa_hashes = ai_hashes inp, qa_model = ai_model inp,
      qa_confidence = 1,
      qa_snapshot = Some (case ai_snapshot inp of None \<Rightarrow> ''{}'' | Some s \<Rightarrow> s),
      qa_tokens = ai_tokens inp, qa_access = 0, qa_created = now, qa_accessed = now,
      qa_stale = False, qa_invalidated = None, qa_active = True, qa_superseded = None,
      qa_epoch = 0, qa_created_by = ai_created_by inp, qa_version = v,
      qa_vector_status = ''indexed''\<rparr>"

definition store_answer_inner ::
  "string \<Rightarrow> store_answer_input \<Rightarrow> millis \<Rightarrow> qa_row list \<Rightarrow> qa_row list \<times> row_id" where
  "store_answer_inner cache_id inp now rows =
     (case List.find (\<lambda>r. qa_active r \<and> qa_key_of r = input_qa_key inp) rows of
        Some old \<Rightarrow>
          let rows1 = update_where (\<lambda>r. qa_id r = qa_id old \<and> qa_active r) (\<lambda>r. r\<lparr>qa_active := False\<rparr>) rows;
              i = next_rowid qa_id rows1;
              rows2 = rows1 @ [fresh_answer cache_id inp now (qa_version old + 1) i]
          in (update_where (\<lambda>r. qa_id r = qa_id old) (\<lambda>r. r\<lparr>qa_superseded := Some i\<rparr>) rows2, i)
      | None \<Rightarrow>
          let i = next_rowid qa_id rows
          in (rows @ [fresh_answer cache_id inp now 1 i], i))"

definition store_answer ::
  "string \<Rightarrow> store_answer_input \<Rightarrow> millis \<Rightarrow> qa_db \<Rightarrow> qa_db \<times> stored_answer" where
  "store_answer cache_id inp now db =
     (let (rows, i) = store_answer_inner cache_id inp now (qd_rows db)
      in (db\<lparr>qd_rows := rows\<rparr>, \<lparr>sa_cache_id = cache_id, sa_id = i, sa_created = True\<rparr>))"

section \<open>Lookups\<close>

definition get_cached_answer :: "string \<Rightarrow> string \<Rightarrow> qa_row list \<Rightarrow> qa_row option" where
  "get_cached_answer project h rows =
     List.find (\<lambda>r. qa_project r = project \<and> qa_hash r = h \<and> qa_active r \<and> \<not> qa_stale r) rows"

text \<open>\<open>ORDER BY epoch DESC, id DESC LIMIT 1\<close>.\<close>

definition get_cached_answer_as_of ::
  "string \<Rightarrow> string \<Rightarrow> row_id option \<Rightarrow> int \<Rightarrow> qa_row list \<Rightarrow> qa_row option" where
  "get_cached_answer_as_of project h buffer_id as_of_epoch rows =
     (case sort_key (\<lambda>r. (- qa_epoch r, - qa_id r))
        (filter (\<lambda>r. qa_key_of r = (project, buffer_id, h) \<and> qa_epoch r \<le> as_of_epoch) rows) of
        [] \<Rightarrow> None | r # _ \<Rightarrow> Some r)"

definition get_qa_by_id :: "string \<Rightarrow> string \<Rightarrow> qa_row list \<Rightarrow> qa_row option" where
  "get_qa_by_id cache_id project rows =
     List.find (\<lambda>r. qa_cache_id r = cache_id \<and> qa_project r = project) rows"

definition get_qa_by_cache_id :: "string \<Rightarrow> qa_row list \<Rightarrow> qa_row option" where
  "get_qa_by_cache_id cache_id rows = List.find (\<lambda>r. qa_cache_id r = cache_id) rows"

definition get_qa_by_rowid :: "row_id \<Rightarrow> qa_row list \<Rightarrow> qa_row option" where
  "get_qa_by_rowid i rows = List.find (\<lambda>r. qa_id r = i) rows"

definition get_answer_history :: "row_id \<Rightarrow> qa_row list \<Rightarrow> qa_row list option" where
  "get_answer_history i rows = history_walk qa_id qa_superseded rows (Some i) []"

section \<open>Staleness, deletion, touch\<close>

definition enqueue_pending_qa_for_stale :: "seconds \<Rightarrow> row_id \<Rightarrow> qa_db \<Rightarrow> qa_db" where
  "enqueue_pending_qa_for_stale now i db =
     (case get_qa_by_rowid i (qd_rows db) of
        None \<Rightarrow> db
      | Some r \<Rightarrow>
          db\<lparr>qd_jobs := fst (enqueue_pending_qa now (qa_cache_id r) (qa_project r) (qa_created_by r) (qd_jobs db))\<rparr>)"

definition stale_answer :: "(millis \<times> string \<times> string) option \<Rightarrow> qa_row \<Rightarrow> qa_row" where
  "stale_answer audit r =
     r\<lparr>qa_stale := True, qa_confidence := 0,
       qa_invalidated := (case audit of None \<Rightarrow> qa_invalidated r | Some a \<Rightarrow> Some a)\<rparr>"

text \<open>\<open>now_ms\<close> stamps the row and \<open>now_s\<close> the job; the result is always true.\<close>

definition mark_qa_stale ::
  "millis \<Rightarrow> seconds \<Rightarrow> row_id \<Rightarrow> string \<Rightarrow> string \<Rightarrow> qa_db \<Rightarrow> qa_db \<times> bool" where
  "mark_qa_stale now_ms now_s i invalidated_by reason db =
     (let hit = (\<lambda>r. qa_id r = i \<and> \<not> qa_stale r);
          n = count_where hit (qd_rows db);
          db' = db\<lparr>qd_rows := update_where hit (stale_answer (Some (now_ms, invalidated_by, reason))) (qd_rows db)\<rparr>
      in (if 0 < n then enqueue_pending_qa_for_stale now_s i db' else db', True))"

definition delete_qa :: "row_id \<Rightarrow> qa_db \<Rightarrow> qa_db \<times> nat" where
  "delete_qa i db =
     (db\<lparr>qd_rows := filter (\<lambda>r. qa_id r \<noteq> i) (qd_rows db)\<rparr>, count_where (\<lambda>r. qa_id r = i) (qd_rows db))"

definition touch_qa :: "millis \<Rightarrow> row_id \<Rightarrow> qa_db \<Rightarrow> qa_db" where
  "touch_qa now i db =
     db\<lparr>qd_rows := update_where (\<lambda>r. qa_id r = i)
          (\<lambda>r. r\<lparr>qa_access := qa_access r + 1, qa_accessed := now\<rparr>) (qd_rows db)\<rparr>"

definition mark_stale_by_hashes :: "row_id \<Rightarrow> string list \<Rightarrow> qa_db \<Rightarrow> qa_db \<times> nat" where
  "mark_stale_by_hashes buffer_id changed db =
     (if changed = [] then (db, 0)
      else let hit = (\<lambda>r. qa_buffer r = Some buffer_id \<and> \<not> qa_stale r \<and> list_ex (\<lambda>h. h \<in> set changed) (qa_hashes r))
           in (db\<lparr>qd_rows := update_where hit (stale_answer None) (qd_rows db)\<rparr>, count_where hit (qd_rows db)))"

section \<open>Vector status\<close>

definition mark_qa_cache_pending_vector :: "row_id list \<Rightarrow> qa_db \<Rightarrow> qa_db" where
  "mark_qa_cache_pending_vector ids db =
     db\<lparr>qd_rows := update_where (\<lambda>r. qa_id r \<in> set ids) (\<lambda>r. r\<lparr>qa_vector_status := ''pending_vector''\<rparr>) (qd_rows db)\<rparr>"

definition qa_cache_pending_vector :: "string \<Rightarrow> qa_row list \<Rightarrow> row_id list" where
  "qa_cache_pending_vector project rows =
     map qa_id (filter (\<lambda>r. qa_project r = project \<and> qa_vector_status r = ''pending_vector'') rows)"

definition clear_qa_cache_pending_vector :: "row_id list \<Rightarrow> qa_db \<Rightarrow> qa_db" where
  "clear_qa_cache_pending_vector ids db =
     db\<lparr>qd_rows := update_where (\<lambda>r. qa_id r \<in> set ids) (\<lambda>r. r\<lparr>qa_vector_status := ''indexed''\<rparr>) (qd_rows db)\<rparr>"

definition get_qa_embed_inputs :: "row_id list \<Rightarrow> qa_row list \<Rightarrow> (row_id \<times> string) list" where
  "get_qa_embed_inputs ids rows =
     map (\<lambda>r. (qa_id r, qa_question r)) (filter (\<lambda>r. qa_id r \<in> set ids) rows)"

definition all_qa_embed_inputs :: "qa_row list \<Rightarrow> (row_id \<times> string) list" where
  "all_qa_embed_inputs rows = map (\<lambda>r. (qa_id r, qa_question r)) rows"

section \<open>Eviction and the index hook\<close>

text \<open>
  The score as SQLite orders it: a division by zero is \<open>NULL\<close>, which comes first.
  Rows of equal score keep rowid order.
\<close>

definition eviction_score :: "millis \<Rightarrow> int \<Rightarrow> qa_row \<Rightarrow> bool \<times> real" where
  "eviction_score now lambda r =
     (let d = 1 + real_of_int (now - qa_accessed r) / real_of_int lambda
      in (d \<noteq> 0, real_of_int (qa_access r) / d))"

definition live_of_project :: "string \<Rightarrow> qa_row \<Rightarrow> bool" where
  "live_of_project project r \<longleftrightarrow> qa_project r = project \<and> qa_active r"

definition evict_ids :: "millis \<Rightarrow> string \<Rightarrow> nat \<Rightarrow> int \<Rightarrow> qa_row list \<Rightarrow> row_id list" where
  "evict_ids now project max_entries lambda_ms rows =
     (let lambda = (if lambda_ms \<le> 0 then 1 else lambda_ms);
          live = filter (live_of_project project) rows;
          limit = min (int max_entries) i64_max
      in if max_entries = 0 \<or> int (length live) \<le> limit then []
         else map qa_id (take (nat (int (length live) - limit)) (sort_key (eviction_score now lambda) live)))"

definition evict_qa :: "millis \<Rightarrow> string \<Rightarrow> nat \<Rightarrow> int \<Rightarrow> qa_db \<Rightarrow> qa_db \<times> nat" where
  "evict_qa now project max_entries lambda_ms db =
     (let ids = evict_ids now project max_entries lambda_ms (qd_rows db)
      in (fold (\<lambda>i db. fst (delete_qa i db)) ids db, length ids))"

definition count_qa :: "string \<Rightarrow> qa_row list \<Rightarrow> nat" where
  "count_qa project rows = count_where (\<lambda>r. qa_project r = project) rows"

definition all_qa_ids :: "qa_row list \<Rightarrow> row_id list" where
  "all_qa_ids rows = map qa_id rows"

text \<open>The projects come in some order without repetition; \<open>now\<close> is the clock at each one.\<close>

definition evict_all_qa :: "(string \<Rightarrow> millis) \<Rightarrow> nat \<Rightarrow> int \<Rightarrow> qa_db \<Rightarrow> qa_db \<times> nat" where
  "evict_all_qa now max_entries lambda_ms db =
     fold (\<lambda>p (db, total). let (db', n) = evict_qa (now p) p max_entries lambda_ms db in (db', total + n))
       (remdups (map qa_project (qd_rows db))) (db, 0)"

definition list_qa_hashes_for_buffer :: "row_id \<Rightarrow> qa_row list \<Rightarrow> (row_id \<times> string list) list" where
  "list_qa_hashes_for_buffer buffer_id rows =
     map (\<lambda>r. (qa_id r, qa_hashes r)) (filter (\<lambda>r. qa_buffer r = Some buffer_id) rows)"

text \<open>\<open>ms\<close> and \<open>secs\<close> are the clock readings when a row is marked.\<close>

fun invalidate_missing ::
  "(row_id \<Rightarrow> millis) \<Rightarrow> (row_id \<Rightarrow> seconds) \<Rightarrow> string set \<Rightarrow> (row_id \<times> string list) list \<Rightarrow> qa_db \<Rightarrow> qa_db \<times> nat" where
  "invalidate_missing ms secs current [] db = (db, 0)"
| "invalidate_missing ms secs current ((i, hashes) # rest) db =
     (if list_ex (\<lambda>h. h \<notin> current) hashes then
        let (db', ok) = mark_qa_stale (ms i) (secs i) i ''system'' ''chunk changed'' db;
            (db'', n) = invalidate_missing ms secs current rest db'
        in (db'', if ok then n + 1 else n)
      else invalidate_missing ms secs current rest db)"

definition invalidate_stale_cache_for_buffer ::
  "(row_id \<Rightarrow> millis) \<Rightarrow> (row_id \<Rightarrow> seconds) \<Rightarrow> row_id \<Rightarrow> chunk list \<Rightarrow> qa_db \<Rightarrow> qa_db \<times> nat" where
  "invalidate_stale_cache_for_buffer ms secs buffer_id chunks db =
     (let current = chunk_hashes_for_buffer buffer_id chunks
      in if current = {} then (db, 0)
         else invalidate_missing ms secs current (list_qa_hashes_for_buffer buffer_id (qd_rows db)) db)"

section \<open>The contract of a table with history\<close>

definition retired_answer :: "row_id \<Rightarrow> qa_row \<Rightarrow> qa_row" where
  "retired_answer j r = r\<lparr>qa_active := False, qa_superseded := Some j\<rparr>"

lemma fresh_answer_simps [simp]:
  "qa_id (fresh_answer c inp now v i) = i" "qa_key_of (fresh_answer c inp now v i) = input_qa_key inp"
  "qa_active (fresh_answer c inp now v i)" "qa_superseded (fresh_answer c inp now v i) = None"
  "qa_version (fresh_answer c inp now v i) = v" "qa_epoch (fresh_answer c inp now v i) = 0"
  "\<not> qa_stale (fresh_answer c inp now v i)" "qa_confidence (fresh_answer c inp now v i) = 1"
  "qa_answer (fresh_answer c inp now v i) = ai_answer inp" "qa_project (fresh_answer c inp now v i) = ai_project inp"
  "qa_hash (fresh_answer c inp now v i) = ai_hash inp" "qa_buffer (fresh_answer c inp now v i) = ai_buffer inp"
  "qa_cache_id (fresh_answer c inp now v i) = c"
  by (simp_all add: fresh_answer_def qa_key_of_def input_qa_key_def)

lemma retired_answer_simps [simp]:
  "qa_id (retired_answer j r) = qa_id r" "qa_key_of (retired_answer j r) = qa_key_of r"
  "\<not> qa_active (retired_answer j r)" "qa_superseded (retired_answer j r) = Some j"
  "qa_version (retired_answer j r) = qa_version r" "qa_epoch (retired_answer j r) = qa_epoch r"
  "qa_stale (retired_answer j r) = qa_stale r" "qa_confidence (retired_answer j r) = qa_confidence r"
  by (simp_all add: retired_answer_def qa_key_of_def)

lemma store_answer_fresh:
  "List.find (\<lambda>r. qa_active r \<and> qa_key_of r = input_qa_key inp) rows = None \<Longrightarrow>
     store_answer_inner c inp now rows =
       (rows @ [fresh_answer c inp now 1 (next_rowid qa_id rows)], next_rowid qa_id rows)"
  by (simp add: store_answer_inner_def Let_def)

lemma store_answer_supersedes:
  assumes wf: "rows_wf qa_id rows"
    and f: "List.find (\<lambda>r. qa_active r \<and> qa_key_of r = input_qa_key inp) rows = Some old"
  shows "store_answer_inner c inp now rows =
       (map (\<lambda>r. if r = old then retired_answer (next_rowid qa_id rows) old else r) rows @
          [fresh_answer c inp now (qa_version old + 1) (next_rowid qa_id rows)],
        next_rowid qa_id rows)"
proof -
  let ?i = "next_rowid qa_id rows"
  have old: "old \<in> set rows" "qa_active old" using find_SomeD [OF f] by auto
  let ?r1 = "update_where (\<lambda>r. qa_id r = qa_id old \<and> qa_active r) (\<lambda>r. r\<lparr>qa_active := False\<rparr>) rows"
  have nxt: "next_rowid qa_id ?r1 = ?i" by (rule next_rowid_update_where) simp
  have "?i \<noteq> qa_id old" using next_rowid_fresh [OF old(1), of qa_id] by simp
  moreover have "update_where (\<lambda>r. qa_id r = qa_id old) (\<lambda>r. r\<lparr>qa_superseded := Some ?i\<rparr>) ?r1 =
      map (\<lambda>r. if r = old then retired_answer ?i old else r) rows"
    unfolding update_where_def map_map comp_def
    by (rule map_cong)
      (use old rows_wf_inj [OF wf _ old(1)] in \<open>auto simp: retired_answer_def\<close>)
  ultimately show ?thesis
    by (simp add: store_answer_inner_def Let_def f nxt table_simps)
qed

definition answer_request_key :: "string \<times> store_answer_input \<times> millis \<Rightarrow> qa_key" where
  "answer_request_key = (\<lambda>(c, inp, now). input_qa_key inp)"

definition store_answer_request ::
  "string \<times> store_answer_input \<times> millis \<Rightarrow> qa_row list \<Rightarrow> qa_row list \<times> row_id" where
  "store_answer_request = (\<lambda>(c, inp, now). store_answer_inner c inp now)"

interpretation answer_history: supersede_store qa_id qa_key_of qa_active qa_superseded qa_version
  answer_request_key store_answer_request
proof unfold_locales
  fix q :: "string \<times> store_answer_input \<times> millis" and rows
  obtain c inp now where q: "q = (c, inp, now)" by (cases q)
  { assume "List.find (\<lambda>r. qa_active r \<and> qa_key_of r = answer_request_key q) rows = None"
    then show "\<exists>n. store_answer_request q rows = (rows @ [n], qa_id n) \<and>
        qa_id n = next_rowid qa_id rows \<and> qa_key_of n = answer_request_key q \<and> qa_active n \<and>
        qa_superseded n = None \<and> qa_version n = 1"
      by (intro exI [of _ "fresh_answer c inp now 1 (next_rowid qa_id rows)"])
        (simp add: q answer_request_key_def store_answer_request_def store_answer_fresh) }
  fix old
  assume "rows_wf qa_id rows"
    and "List.find (\<lambda>r. qa_active r \<and> qa_key_of r = answer_request_key q) rows = Some old"
  then show "\<exists>n old'. store_answer_request q rows =
        (map (\<lambda>r. if r = old then old' else r) rows @ [n], qa_id n) \<and>
        qa_id n = next_rowid qa_id rows \<and> qa_key_of n = answer_request_key q \<and> qa_active n \<and>
        qa_superseded n = None \<and> qa_version n = qa_version old + 1 \<and> qa_id old' = qa_id old \<and>
        qa_key_of old' = qa_key_of old \<and> \<not> qa_active old' \<and> qa_superseded old' = Some (qa_id n) \<and>
        qa_version old' = qa_version old"
    by (intro exI [of _ "fresh_answer c inp now (qa_version old + 1) (next_rowid qa_id rows)"]
        exI [of _ "retired_answer (next_rowid qa_id rows) old"])
      (simp add: q answer_request_key_def store_answer_request_def store_answer_supersedes)
qed

lemma answer_request: "store_answer_inner c inp now rows = store_answer_request (c, inp, now) rows"
  by (simp add: store_answer_request_def)

section \<open>Invariant and reachable databases\<close>

text \<open>A row is as its writes leave it: no write sets the epoch, and only a stale row lost its confidence.\<close>

definition answer_ok :: "qa_row \<Rightarrow> bool" where
  "answer_ok r \<longleftrightarrow> qa_epoch r = 0 \<and> 1 \<le> qa_version r \<and> qa_confidence r = (if qa_stale r then 0 else 1)"

abbreviation qa_chain :: "qa_row list \<Rightarrow> bool" where
  "qa_chain \<equiv> chain_inv qa_id qa_key_of qa_active qa_superseded"

definition qa_inv :: "qa_db \<Rightarrow> bool" where
  "qa_inv db \<longleftrightarrow> qa_chain (qd_rows db) \<and> (\<forall>r\<in>set (qd_rows db). answer_ok r) \<and> qa_queue_reachable (qd_jobs db)"

inductive qa_step :: "qa_db \<Rightarrow> qa_db \<Rightarrow> bool" where
  stored: "qa_step db (fst (store_answer c inp now db))"
| marked: "qa_step db (fst (mark_qa_stale now_ms now_s i u reason db))"
| changed: "qa_step db (fst (mark_stale_by_hashes b hs db))"
| deleted: "qa_step db (fst (delete_qa i db))"
| touched: "qa_step db (touch_qa now i db)"
| vector_pending: "qa_step db (mark_qa_cache_pending_vector ids db)"
| vector_clear: "qa_step db (clear_qa_cache_pending_vector ids db)"
| queue: "qa_queue_step (qd_jobs db) jobs \<Longrightarrow> qa_step db (db\<lparr>qd_jobs := jobs\<rparr>)"

inductive qa_reachable :: "qa_db \<Rightarrow> bool" where
  start: "qa_reachable \<lparr>qd_rows = [], qd_jobs = []\<rparr>"
| move: "qa_reachable db \<Longrightarrow> qa_step db db' \<Longrightarrow> qa_reachable db'"

inductive_cases qa_stepE: "qa_step db db'"

lemma answer_ok_stored:
  assumes "rows_wf qa_id rows" and "\<forall>r\<in>set rows. answer_ok r"
  shows "\<forall>r\<in>set (fst (store_answer_inner c inp now rows)). answer_ok r"
proof (cases "List.find (\<lambda>r. qa_active r \<and> qa_key_of r = input_qa_key inp) rows")
  case None
  then show ?thesis using assms(2) by (auto simp: store_answer_fresh answer_ok_def)
next
  case (Some old)
  then have "answer_ok old" using assms(2) by (auto dest: find_SomeD)
  then have "answer_ok (retired_answer j old)" "answer_ok (fresh_answer c inp now (qa_version old + 1) i)" for i j
    by (simp_all add: answer_ok_def)
  then show ?thesis using assms(2) by (auto simp: store_answer_supersedes [OF assms(1) Some])
qed

lemma qa_inv_update:
  assumes inv: "qa_inv db"
    and f: "\<And>r. qa_id (f r) = qa_id r \<and> qa_key_of (f r) = qa_key_of r \<and> qa_active (f r) = qa_active r \<and>
              qa_superseded (f r) = qa_superseded r" "\<And>r. answer_ok r \<Longrightarrow> answer_ok (f r)"
  shows "qa_inv (db\<lparr>qd_rows := update_where p f (qd_rows db)\<rparr>)"
proof -
  have "qa_chain (update_where p f (qd_rows db))"
    by (rule chain_inv_update_where) (use inv f(1) in \<open>auto simp: qa_inv_def\<close>)
  then show ?thesis using inv f(2) by (auto simp: qa_inv_def in_set_update_where)
qed

lemma stale_row_simps [simp]:
  "qa_id (stale_answer a r) = qa_id r" "qa_key_of (stale_answer a r) = qa_key_of r" "qa_active (stale_answer a r) = qa_active r"
  "qa_superseded (stale_answer a r) = qa_superseded r" "qa_stale (stale_answer a r)" "qa_confidence (stale_answer a r) = 0"
  "qa_cache_id (stale_answer a r) = qa_cache_id r" "qa_project (stale_answer a r) = qa_project r"
  "qa_created_by (stale_answer a r) = qa_created_by r" "qa_hashes (stale_answer a r) = qa_hashes r"
  "qa_buffer (stale_answer a r) = qa_buffer r" "qa_hash (stale_answer a r) = qa_hash r"
  by (simp_all add: stale_answer_def qa_key_of_def)

lemma answer_ok_stale: "answer_ok r \<Longrightarrow> answer_ok (stale_answer a r)"
  by (simp add: answer_ok_def) (simp add: stale_answer_def)

lemma enqueue_stale_inv: "qa_inv db \<Longrightarrow> qa_inv (enqueue_pending_qa_for_stale now i db)"
  by (auto simp: enqueue_pending_qa_for_stale_def qa_inv_def split: option.splits
      intro: qa_queue_reachable.move qa_queue_step.enqueued)

lemma qa_step_inv:
  assumes inv: "qa_inv db" and step: "qa_step db db'"
  shows "qa_inv db'"
  using step
proof cases
  case (stored c inp now)
  have wf: "rows_wf qa_id (qd_rows db)" using inv by (simp add: qa_inv_def chain_inv_def)
  from inv have "qa_chain (fst (store_answer_inner c inp now (qd_rows db)))"
    unfolding answer_request by (intro answer_history.store_chain) (simp add: qa_inv_def)
  then show ?thesis
    using inv answer_ok_stored [OF wf] by (auto simp: stored store_answer_def qa_inv_def case_prod_beta)
next
  case (marked now_ms now_s i u reason)
  then show ?thesis
    using inv by (auto simp: mark_qa_stale_def Let_def intro!: enqueue_stale_inv qa_inv_update answer_ok_stale)
next
  case (changed b hs)
  then show ?thesis
    using inv by (auto simp: mark_stale_by_hashes_def Let_def intro!: qa_inv_update answer_ok_stale)
next
  case (deleted i)
  then show ?thesis using inv by (auto simp: delete_qa_def qa_inv_def chain_inv_filter)
next
  case (touched now i)
  then show ?thesis
    unfolding touched touch_qa_def by (auto intro!: qa_inv_update [OF inv] simp: qa_key_of_def answer_ok_def)
next
  case (vector_pending ids)
  then show ?thesis
    unfolding vector_pending mark_qa_cache_pending_vector_def
    by (auto intro!: qa_inv_update [OF inv] simp: qa_key_of_def answer_ok_def)
next
  case (vector_clear ids)
  then show ?thesis
    unfolding vector_clear clear_qa_cache_pending_vector_def
    by (auto intro!: qa_inv_update [OF inv] simp: qa_key_of_def answer_ok_def)
next
  case (queue jobs)
  then show ?thesis using inv qa_queue_reachable.move by (auto simp: qa_inv_def)
qed

lemma qa_reachable_inv: "qa_reachable db \<Longrightarrow> qa_inv db"
proof (induction rule: qa_reachable.induct)
  case start
  show ?case by (simp add: qa_inv_def qa_queue_reachable.start)
qed (rule qa_step_inv)

lemma qa_reachableD:
  assumes "qa_reachable db"
  shows "qa_chain (qd_rows db)" "rows_wf qa_id (qd_rows db)" "one_live qa_key_of qa_active (qd_rows db)"
    "r \<in> set (qd_rows db) \<Longrightarrow> answer_ok r" "qa_queue_reachable (qd_jobs db)"
  using qa_reachable_inv [OF assms] by (simp_all add: qa_inv_def chain_inv_def)

section \<open>What the operations do\<close>

lemma store_answer_shape:
  assumes wf: "rows_wf qa_id rows"
  shows "\<exists>rs v. store_answer_inner c inp now rows = (rs @ [fresh_answer c inp now v (next_rowid qa_id rows)], next_rowid qa_id rows) \<and>
    v = (case List.find (\<lambda>r. qa_active r \<and> qa_key_of r = input_qa_key inp) rows of None \<Rightarrow> 1 | Some old \<Rightarrow> qa_version old + 1)"
  by (cases "List.find (\<lambda>r. qa_active r \<and> qa_key_of r = input_qa_key inp) rows")
    (simp_all add: store_answer_fresh store_answer_supersedes [OF wf])

lemma delete_fold:
  "fold (\<lambda>i db. fst (delete_qa i db)) ids db = db\<lparr>qd_rows := filter (\<lambda>r. qa_id r \<notin> set ids) (qd_rows db)\<rparr>"
proof (induction ids arbitrary: db)
  case (Cons i ids)
  have "(\<lambda>r. qa_id r \<notin> set ids \<and> qa_id r \<noteq> i) = (\<lambda>r. qa_id r \<noteq> i \<and> qa_id r \<notin> set ids)" by auto
  then show ?case unfolding fold_Cons comp_def Cons.IH by (simp add: delete_qa_def conj_commute)
qed simp

text \<open>A mark never unmarks a row and never removes one.\<close>

definition stays :: "qa_row list \<Rightarrow> qa_row list \<Rightarrow> bool" where
  "stays rows rows' \<longleftrightarrow> (\<forall>r\<in>set rows. \<exists>s\<in>set rows'. qa_id s = qa_id r \<and> (qa_stale r \<longrightarrow> qa_stale s))"

lemma enqueue_stale_rows [simp]: "qd_rows (enqueue_pending_qa_for_stale now i db) = qd_rows db"
  by (simp add: enqueue_pending_qa_for_stale_def split: option.split)

lemma mark_qa_stale_rows:
  "qd_rows (fst (mark_qa_stale ms s i u why db)) =
     update_where (\<lambda>r. qa_id r = i \<and> \<not> qa_stale r) (stale_answer (Some (ms, u, why))) (qd_rows db)"
  by (simp add: mark_qa_stale_def Let_def)

lemma mark_stays: "stays (qd_rows db) (qd_rows (fst (mark_qa_stale ms s i u why db)))"
  unfolding stays_def
proof
  fix r
  assume r: "r \<in> set (qd_rows db)"
  let ?s = "if qa_id r = i \<and> \<not> qa_stale r then stale_answer (Some (ms, u, why)) r else r"
  have "?s \<in> set (qd_rows (fst (mark_qa_stale ms s i u why db)))"
    unfolding mark_qa_stale_rows in_set_update_where using r by (intro bexI [of _ r]) simp_all
  then show "\<exists>s\<in>set (qd_rows (fst (mark_qa_stale ms s i u why db))). qa_id s = qa_id r \<and> (qa_stale r \<longrightarrow> qa_stale s)"
    by (intro bexI [of _ ?s]) auto
qed

lemma stays_trans: "stays a b \<Longrightarrow> stays b c \<Longrightarrow> stays a c"
proof -
  assume ab: "stays a b" and bc: "stays b c"
  show "stays a c"
    unfolding stays_def
  proof
    fix r assume "r \<in> set a"
    then obtain s where s: "s \<in> set b" "qa_id s = qa_id r" "qa_stale r \<longrightarrow> qa_stale s" using ab by (auto simp: stays_def)
    then obtain t where "t \<in> set c" "qa_id t = qa_id s" "qa_stale s \<longrightarrow> qa_stale t" using bc by (auto simp: stays_def)
    then show "\<exists>t\<in>set c. qa_id t = qa_id r \<and> (qa_stale r \<longrightarrow> qa_stale t)" using s by auto
  qed
qed

lemma invalidate_stays: "stays (qd_rows db) (qd_rows (fst (invalidate_missing ms secs cur todo db)))"
proof (induction ms secs cur todo db rule: invalidate_missing.induct)
  case (1 ms secs cur db)
  show ?case by (auto simp: stays_def)
next
  case (2 ms secs cur i hs rest db)
  let ?m = "mark_qa_stale (ms i) (secs i) i ''system'' ''chunk changed'' db"
  show ?case
  proof (cases "list_ex (\<lambda>h. h \<notin> cur) hs")
    case True
    obtain db' ok where m: "?m = (db', ok)" by (cases ?m)
    have "stays (qd_rows db) (qd_rows db')" using mark_stays [of db "ms i" "secs i" i "''system''" "''chunk changed''"] m by simp
    moreover have "stays (qd_rows db') (qd_rows (fst (invalidate_missing ms secs cur rest db')))"
      by (rule "2.IH"(1) [OF True m [symmetric] refl])
    ultimately show ?thesis using True m stays_trans by (fastforce simp: case_prod_beta)
  next
    case False
    then show ?thesis using "2.IH"(2) by simp
  qed
qed

lemma invalidate_marks:
  assumes "(i, hs) \<in> set todo" and "list_ex (\<lambda>h. h \<notin> cur) hs" and "\<exists>r\<in>set (qd_rows db). qa_id r = i"
  shows "\<exists>s\<in>set (qd_rows (fst (invalidate_missing ms secs cur todo db))). qa_id s = i \<and> qa_stale s"
  using assms
proof (induction ms secs cur todo db rule: invalidate_missing.induct)
  case (2 ms secs cur j ks rest db)
  let ?m = "mark_qa_stale (ms j) (secs j) j ''system'' ''chunk changed'' db"
  obtain db' ok where m: "?m = (db', ok)" by (cases ?m)
  show ?case
  proof (cases "list_ex (\<lambda>h. h \<notin> cur) ks")
    case True
    have st: "stays (qd_rows db') (qd_rows (fst (invalidate_missing ms secs cur rest db')))" by (rule invalidate_stays)
    have keep: "stays (qd_rows db) (qd_rows db')" using mark_stays [of db "ms j" "secs j" j "''system''" "''chunk changed''"] m by simp
    have "\<exists>s\<in>set (qd_rows (fst (invalidate_missing ms secs cur rest db'))). qa_id s = i \<and> qa_stale s"
    proof (cases "i = j")
      case eq: True
      obtain r where r: "r \<in> set (qd_rows db)" "qa_id r = i" using "2.prems"(3) by blast
      let ?s = "if \<not> qa_stale r then stale_answer (Some (ms j, ''system'', ''chunk changed'')) r else r"
      have "?s \<in> set (qd_rows db')"
        using r eq mark_qa_stale_rows [of "ms j" "secs j" j "''system''" "''chunk changed''" db] m
        by (simp add: in_set_update_where) (intro conjI impI bexI [of _ r]; simp)
      moreover have "qa_id ?s = i \<and> qa_stale ?s" using r by simp
      ultimately obtain s where "s \<in> set (qd_rows db')" "qa_id s = i" "qa_stale s" by blast
      then show ?thesis using st by (auto simp: stays_def)
    next
      case False
      then have "(i, hs) \<in> set rest" using "2.prems"(1) by auto
      moreover have "\<exists>r\<in>set (qd_rows db'). qa_id r = i" using keep "2.prems"(3) unfolding stays_def by fastforce
      ultimately show ?thesis using "2.IH"(1) [OF True m [symmetric] refl] "2.prems"(2) by blast
    qed
    then show ?thesis using True m by (simp add: case_prod_beta)
  next
    case False
    then have "(i, hs) \<in> set rest" using "2.prems"(1,2) by auto
    then show ?thesis using "2.IH"(2) [OF False] "2.prems"(2,3) False by simp
  qed
qed simp

text \<open>The rows an eviction keeps, by the ranking of the rows it chooses from.\<close>

lemma filter_notin_take:
  assumes "distinct (map f xs)" and "set xs = set ys" and "distinct ys" and "distinct xs"
  shows "set (filter (\<lambda>r. f r \<notin> set (map f (take k ys))) xs) = set (drop k ys)"
    "length (filter (\<lambda>r. f r \<notin> set (map f (take k ys))) xs) = length xs - min k (length xs)"
proof -
  have same: "length ys = length xs" using assms(2,3,4) by (metis distinct_card)
  have inj: "inj_on f (set ys)" using assms(1,2) by (simp add: distinct_map)
  have split: "set ys = set (take k ys) \<union> set (drop k ys)" by (metis append_take_drop_id set_append)
  have disj: "set (take k ys) \<inter> set (drop k ys) = {}" using assms(3) by (metis append_take_drop_id distinct_append)
  have "f r \<in> f ` set (take k ys) \<longleftrightarrow> r \<in> set (take k ys)" if "r \<in> set ys" for r
    using inj that by (auto simp: inj_on_def dest: in_set_takeD)
  then show eq: "set (filter (\<lambda>r. f r \<notin> set (map f (take k ys))) xs) = set (drop k ys)"
    using split disj assms(2) by auto
  have "length (filter (\<lambda>r. f r \<notin> set (map f (take k ys))) xs) = card (set (filter (\<lambda>r. f r \<notin> set (map f (take k ys))) xs))"
    using assms(4) by (simp only: distinct_card distinct_filter)
  also have "\<dots> = card (set (drop k ys))" by (simp only: eq)
  also have "\<dots> = length ys - k" using assms(3) by (simp add: distinct_card)
  also have "\<dots> = length xs - min k (length xs)" using same by simp
  finally show "length (filter (\<lambda>r. f r \<notin> set (map f (take k ys))) xs) = length xs - min k (length xs)" .
qed

lemma sorted_take_drop:
  assumes "x \<in> set (take k (sort_key f xs))" and "y \<in> set (drop k (sort_key f xs))"
  shows "f x \<le> f y"
proof -
  have "sorted (map f (take k (sort_key f xs) @ drop k (sort_key f xs)))" by (simp only: append_take_drop_id) simp
  then show ?thesis using assms unfolding map_append sorted_append by simp
qed

lemma store_answer_facts:
  assumes "qa_reachable db" and "store_answer c inp now db = (db', st)"
  shows "\<exists>n. n = fresh_answer c inp now
        (case List.find (\<lambda>r. qa_active r \<and> qa_key_of r = input_qa_key inp) (qd_rows db) of
           None \<Rightarrow> 1 | Some old \<Rightarrow> qa_version old + 1) (sa_id st) \<and>
      List.find (\<lambda>r. qa_active r \<and> qa_key_of r = input_qa_key inp) (qd_rows db') = Some n \<and>
      get_qa_by_rowid (sa_id st) (qd_rows db') = Some n \<and>
      filter (\<lambda>r. qa_key_of r \<noteq> input_qa_key inp) (qd_rows db') =
        filter (\<lambda>r. qa_key_of r \<noteq> input_qa_key inp) (qd_rows db) \<and>
      (\<exists>r. get_cached_answer (ai_project inp) (ai_hash inp) (qd_rows db') = Some r \<and>
         (r = n \<or> r \<in> set (qd_rows db) \<and> qa_active r \<and> qa_buffer r \<noteq> ai_buffer inp))"
proof -
  let ?key = "\<lambda>r. qa_active r \<and> qa_key_of r = input_qa_key inp"
  have wf: "rows_wf qa_id (qd_rows db)" by (rule qa_reachableD [OF assms(1)])
  obtain rows' j where s: "store_answer_inner c inp now (qd_rows db) = (rows', j)" by fastforce
  have db': "qd_rows db' = rows'" "sa_id st = j" using assms(2) s by (auto simp: store_answer_def)
  have "qa_reachable db'"
    using assms(2) qa_reachable.move [OF assms(1) qa_step.stored [of db c inp now]] by simp
  note wf' = qa_reachableD(2) [OF this] and one = qa_reachableD(3) [OF this]
  define v where "v = (case List.find ?key (qd_rows db) of None \<Rightarrow> 1 | Some old \<Rightarrow> qa_version old + 1)"
  define n where "n = fresh_answer c inp now v j"
  have n: "n \<in> set rows'" using store_answer_shape [OF wf, of c inp now] s by (auto simp: n_def v_def)
  have found: "List.find ?key rows' = Some n"
    using n one by (intro find_unique) (auto simp: n_def db' dest: one_liveD)
  have others: "filter (\<lambda>r. qa_key_of r \<noteq> input_qa_key inp) rows' = filter (\<lambda>r. qa_key_of r \<noteq> input_qa_key inp) (qd_rows db)"
    using answer_history.store_other_keys [OF wf, of "(c, inp, now)"] s
    by (simp add: answer_request_key_def store_answer_request_def)
  have "get_cached_answer (ai_project inp) (ai_hash inp) rows' \<noteq> None"
    unfolding get_cached_answer_def using n find_NoneD [of _ rows' n] by (fastforce simp: n_def)
  then obtain r where r: "get_cached_answer (ai_project inp) (ai_hash inp) rows' = Some r" by blast
  then have r': "r \<in> set rows'" "qa_project r = ai_project inp" "qa_hash r = ai_hash inp" "qa_active r"
    unfolding get_cached_answer_def by (auto dest: find_SomeD)
  have "r = n \<or> r \<in> set (qd_rows db) \<and> qa_active r \<and> qa_buffer r \<noteq> ai_buffer inp"
  proof (cases "qa_key_of r = input_qa_key inp")
    case True
    then show ?thesis using one_liveD [OF one, of r n] r' n by (simp add: db' n_def)
  next
    case False
    then have "r \<in> set (filter (\<lambda>r. qa_key_of r \<noteq> input_qa_key inp) rows')" using r' by simp
    then have "r \<in> set (qd_rows db)" unfolding others by simp
    then show ?thesis using False r' by (auto simp: qa_key_of_def input_qa_key_def)
  qed
  moreover have "get_qa_by_rowid j rows' = Some n"
    unfolding get_qa_by_rowid_def using n wf' by (intro find_by_id) (simp_all add: db' n_def)
  ultimately show ?thesis unfolding db' using found others r n_def v_def by blast
qed

section \<open>Properties\<close>

text \<open>
  C18: In every reachable database storing an answer makes it the one live, fresh answer of its
  project, buffer and question, numbered one above the revision it retires; answers of other
  keys are untouched. A lookup by project and question then succeeds; it ignores the buffer, so
  it returns either the new answer or a live one that another buffer holds for the question.
\<close>

theorem qa_store_lookup:
  assumes "qa_reachable db" and "store_answer c inp now db = (db', st)"
  shows "\<exists>n. n = fresh_answer c inp now
        (case List.find (\<lambda>r. qa_active r \<and> qa_key_of r = input_qa_key inp) (qd_rows db) of
           None \<Rightarrow> 1 | Some old \<Rightarrow> qa_version old + 1) (sa_id st) \<and>
      List.find (\<lambda>r. qa_active r \<and> qa_key_of r = input_qa_key inp) (qd_rows db') = Some n \<and>
      get_qa_by_rowid (sa_id st) (qd_rows db') = Some n \<and>
      filter (\<lambda>r. qa_key_of r \<noteq> input_qa_key inp) (qd_rows db') =
        filter (\<lambda>r. qa_key_of r \<noteq> input_qa_key inp) (qd_rows db) \<and>
      (\<exists>r. get_cached_answer (ai_project inp) (ai_hash inp) (qd_rows db') = Some r \<and>
         (r = n \<or> r \<in> set (qd_rows db) \<and> qa_active r \<and> qa_buffer r \<noteq> ai_buffer inp))"
  using assms by (rule store_answer_facts)

definition demo_answer :: "row_id \<Rightarrow> string \<Rightarrow> string \<Rightarrow> store_answer_input" where
  "demo_answer b h a =
     \<lparr>ai_buffer = Some b, ai_project = ''p'', ai_question = h, ai_hash = h, ai_answer = a,
      ai_chunk_ids = [], ai_hashes = [], ai_model = None, ai_snapshot = None, ai_tokens = 0,
      ai_created_by = Some ''ann''\<rparr>"

definition demo_cache :: qa_db where
  "demo_cache = fst (store_answer ''c2'' (demo_answer 1 ''q'' ''new'') 20
     (fst (store_answer ''c1'' (demo_answer 1 ''q'' ''old'') 10 \<lparr>qd_rows = [], qd_jobs = []\<rparr>)))"

lemma demo_cache_reachable: "qa_reachable demo_cache"
  unfolding demo_cache_def
  by (rule qa_reachable.move [OF qa_reachable.move [OF qa_reachable.start qa_step.stored] qa_step.stored])

lemma qa_store_lookup_witness:
  "\<exists>r. get_cached_answer ''p'' ''q'' (qd_rows (fst (store_answer ''c3'' (demo_answer 1 ''q'' ''third'') 30 demo_cache))) = Some r \<and>
     qa_answer r = ''third''"
proof -
  obtain db' st where s: "store_answer ''c3'' (demo_answer 1 ''q'' ''third'') 30 demo_cache = (db', st)" by fastforce
  have "list_all (\<lambda>r. qa_buffer r = Some 1) (qd_rows demo_cache)" by code_simp
  then have b: "\<And>r. r \<in> set (qd_rows demo_cache) \<Longrightarrow> qa_buffer r = Some 1" by (auto simp: list_all_iff)
  from qa_store_lookup [OF demo_cache_reachable s]
  obtain r where r: "get_cached_answer (ai_project (demo_answer 1 ''q'' ''third'')) (ai_hash (demo_answer 1 ''q'' ''third'')) (qd_rows db') = Some r"
    "qa_answer r = ''third''"
    using b by (fastforce simp: demo_answer_def)
  then show ?thesis using s by (simp add: demo_answer_def)
qed

text \<open>
  Walking the history of a stored answer ends in every reachable database, deletions
  included: it starts at the row asked for, follows the links and visits rows of growing id.
\<close>

theorem qa_history_ends:
  assumes "qa_reachable db" and "r \<in> set (qd_rows db)"
  shows "\<exists>hs. get_answer_history (qa_id r) (qd_rows db) = Some (r # hs) \<and> set hs \<subseteq> set (qd_rows db) \<and>
     is_chain qa_superseded qa_id (r # hs) \<and> sorted_wrt (<) (map qa_id (r # hs))"
proof -
  have chain: "qa_chain (qd_rows db)" by (rule qa_reachableD [OF assms(1)])
  from chain_walk_ends [OF this assms(2), of "[]"] obtain hs where hs:
    "get_answer_history (qa_id r) (qd_rows db) = Some (r # hs)" "set hs \<subseteq> set (qd_rows db)"
    "is_chain qa_superseded qa_id (r # hs)"
    unfolding get_answer_history_def by auto
  have "sorted_wrt (<) (map qa_id (r # hs))"
    by (rule chain_ids_rise [OF chain hs(3)]) (use hs(2) assms(2) in auto)
  then show ?thesis using hs by blast
qed

lemma qa_history_ends_witness:
  "\<exists>r hs. qa_answer r = ''old'' \<and> get_answer_history 1 (qd_rows demo_cache) = Some (r # hs) \<and>
     sorted_wrt (<) (map qa_id (r # hs))"
proof -
  have "list_ex (\<lambda>r. qa_answer r = ''old'' \<and> qa_id r = 1) (qd_rows demo_cache)" by code_simp
  then obtain r where r: "r \<in> set (qd_rows demo_cache)" "qa_answer r = ''old''" "qa_id r = 1" by (auto simp: list_ex_iff)
  from qa_history_ends [OF demo_cache_reachable r(1)] obtain hs where
    "get_answer_history 1 (qd_rows demo_cache) = Some (r # hs)" "sorted_wrt (<) (map qa_id (r # hs))"
    unfolding r(3) by blast
  then show ?thesis using r(2) by blast
qed

text \<open>
  The ids of deleted rows are given out again, and the links of retired rows are not cleared:
  after the live revision of a question is deleted and another question is answered, the
  history of the first question ends in the answer of the second.
\<close>

definition reused_cache :: qa_db where
  "reused_cache = fst (store_answer ''c3'' (demo_answer 1 ''other'' ''unrelated'') 30 (fst (delete_qa 2 demo_cache)))"

theorem qa_reused_rowid:
  "qa_reachable reused_cache \<and>
   map_option (map (\<lambda>r. (qa_question r, qa_answer r))) (get_answer_history 1 (qd_rows reused_cache)) =
     Some [(''q'', ''old''), (''other'', ''unrelated'')]"
proof
  show "qa_reachable reused_cache"
    unfolding reused_cache_def
    by (rule qa_reachable.move [OF qa_reachable.move [OF demo_cache_reachable qa_step.deleted] qa_step.stored])
  show "map_option (map (\<lambda>r. (qa_question r, qa_answer r))) (get_answer_history 1 (qd_rows reused_cache)) =
     Some [(''q'', ''old''), (''other'', ''unrelated'')]"
    by code_simp (simp add: history_walk.simps)
qed

text \<open>
  An eviction with a positive bound leaves the project exactly the bound of live answers, or
  all of them when there were fewer; every live answer it removes scores at most as much as
  every one it keeps; retired answers and other projects are left alone.
\<close>

theorem qa_evict_bound:
  assumes "qa_reachable db" and "0 < max_entries" and "int max_entries \<le> i64_max"
    and "evict_qa now p max_entries lambda_ms db = (db', n)"
  defines "live \<equiv> filter (live_of_project p) (qd_rows db)" and "live' \<equiv> filter (live_of_project p) (qd_rows db')"
    and "score \<equiv> eviction_score now (if lambda_ms \<le> 0 then 1 else lambda_ms)"
  shows "length live' = min (length live) max_entries \<and> n = length live - length live' \<and>
     set live' \<subseteq> set live \<and> (\<forall>r\<in>set live - set live'. \<forall>s\<in>set live'. score r \<le> score s) \<and>
     filter (\<lambda>r. \<not> live_of_project p r) (qd_rows db') = filter (\<lambda>r. \<not> live_of_project p r) (qd_rows db) \<and>
     qd_jobs db' = qd_jobs db"
proof -
  let ?ids = "evict_ids now p max_entries lambda_ms (qd_rows db)"
  let ?k = "length live - max_entries"
  have wf: "rows_wf qa_id (qd_rows db)" by (rule qa_reachableD [OF assms(1)])
  then have inj: "distinct (map qa_id (qd_rows db))" by (simp add: rows_wf_def)
  then have dl: "distinct (map qa_id live)" unfolding live_def by (rule distinct_map_filter)
  then have dl': "distinct live" by (simp add: distinct_map)
  have ids: "?ids = map qa_id (take ?k (sort_key score live))"
  proof (cases "length live \<le> max_entries")
    case True
    then show ?thesis using assms(3) by (simp add: evict_ids_def Let_def live_def)
  next
    case False
    then have "nat (int (length live) - min (int max_entries) i64_max) = ?k" using assms(3) by simp
    then show ?thesis using False assms(2,3) by (simp add: evict_ids_def Let_def live_def score_def)
  qed
  have sorted: "set live = set (sort_key score live)" "distinct (sort_key score live)" using dl' by simp_all
  have db': "qd_rows db' = filter (\<lambda>r. qa_id r \<notin> set ?ids) (qd_rows db)" "qd_jobs db' = qd_jobs db" "n = length ?ids"
    using assms(4) by (auto simp: evict_qa_def Let_def delete_fold)
  have live': "live' = filter (\<lambda>r. qa_id r \<notin> set ?ids) live"
    by (simp add: live'_def live_def db'(1) conj_commute)
  note keep = filter_notin_take [OF dl sorted dl', of ?k, folded ids, folded live']
  have len: "length live' = min (length live) max_entries" using keep(2) by simp
  have n: "n = length live - length live'" unfolding db'(3) ids using len by simp
  have gone: "r \<in> set (take ?k (sort_key score live))" if "r \<in> set live - set live'" for r
  proof -
    have "set (sort_key score live) = set (take ?k (sort_key score live)) \<union> set (drop ?k (sort_key score live))"
      by (metis append_take_drop_id set_append)
    then show ?thesis using that unfolding keep(1) sorted(1) by blast
  qed
  have ranked: "\<forall>r\<in>set live - set live'. \<forall>s\<in>set live'. score r \<le> score s"
    using gone keep(1) sorted_take_drop [of _ ?k score live] by blast
  have id_live: "live_of_project p r" if r: "r \<in> set (qd_rows db)" "qa_id r \<in> set ?ids" for r
  proof -
    obtain s where s: "s \<in> set live" "qa_id s = qa_id r" using r(2) unfolding ids by (auto dest: in_set_takeD)
    then have "s = r" using rows_wf_inj [OF wf, of s r] r(1) by (simp add: live_def)
    then show ?thesis using s(1) by (simp add: live_def)
  qed
  have "filter (\<lambda>r. \<not> live_of_project p r) (qd_rows db') = filter (\<lambda>r. \<not> live_of_project p r) (qd_rows db)"
    unfolding db'(1) filter_filter by (rule filter_cong) (use id_live in auto)
  moreover have "set live' \<subseteq> set live" unfolding live' by auto
  ultimately show ?thesis using len n ranked db'(2) by blast
qed

definition two_questions :: qa_db where
  "two_questions = fst (store_answer ''c3'' (demo_answer 2 ''q2'' ''other'') 30 demo_cache)"

lemma two_questions_reachable: "qa_reachable two_questions"
  unfolding two_questions_def by (rule qa_reachable.move [OF demo_cache_reachable qa_step.stored])

lemma qa_evict_bound_witness:
  "length (filter (live_of_project ''p'') (qd_rows (fst (evict_qa 1000 ''p'' 1 100 two_questions)))) = 1 \<and>
   snd (evict_qa 1000 ''p'' 1 100 two_questions) = 1"
proof -
  obtain db' n where e: "evict_qa 1000 ''p'' 1 100 two_questions = (db', n)" by fastforce
  have two: "length (filter (live_of_project ''p'') (qd_rows two_questions)) = 2" by code_simp
  have "int 1 \<le> i64_max" by (simp add: i64_max_def)
  from qa_evict_bound [OF two_questions_reachable zero_less_one this e]
  show ?thesis unfolding e fst_conv snd_conv two by simp
qed

text \<open>
  The hook that runs after an index pass marks every answer of the buffer that has sources
  as stale, also one whose source is stored unchanged: sources are recorded as hexadecimal
  digests and the hook compares them with the raw digest bytes read as text.
\<close>

theorem qa_reindex_invalidates_all:
  assumes "\<And>c. c \<in> set chunks \<Longrightarrow> ck_buffer c = b \<Longrightarrow> length (ck_hash c) = 32"
    and "c \<in> set chunks" and "ck_buffer c = b"
    and "r \<in> set (qd_rows db)" and "qa_buffer r = Some b" and "hex_encode (ck_hash c) \<in> set (qa_hashes r)"
  shows "\<exists>s\<in>set (qd_rows (fst (invalidate_stale_cache_for_buffer ms secs b chunks db))).
     qa_id s = qa_id r \<and> qa_stale s"
proof -
  let ?cur = "chunk_hashes_for_buffer b chunks"
  have cur: "?cur \<noteq> {}" using assms(2,3) by (auto simp: chunk_hashes_for_buffer_def filter_empty_conv)
  have "from_utf8_lossy (ck_hash d) \<noteq> hex_encode (ck_hash c)" if "d \<in> set chunks" "ck_buffer d = b" for d
    using assms(1) [OF that] assms(1) [OF assms(2,3)] by (intro lossy_ne_hex) auto
  then have "hex_encode (ck_hash c) \<notin> ?cur" by (auto simp: chunk_hashes_for_buffer_def dest: sym)
  then have missing: "list_ex (\<lambda>h. h \<notin> ?cur) (qa_hashes r)" using assms(6) by (auto simp: list_ex_iff)
  have "(qa_id r, qa_hashes r) \<in> set (list_qa_hashes_for_buffer b (qd_rows db))"
    using assms(4,5) by (auto simp: list_qa_hashes_for_buffer_def)
  from invalidate_marks [OF this missing] assms(4) show ?thesis
    using cur by (auto simp: invalidate_stale_cache_for_buffer_def Let_def)
qed

definition indexed_chunk_row :: chunk where
  "indexed_chunk_row =
     \<lparr>ck_id = 1, ck_buffer = 1, ck_file = ''a.rs'', ck_offset_start = 0, ck_offset_end = 0, ck_line_start = 1,
      ck_line_end = 2, ck_hash = replicate 32 CHR ''x'', ck_language = None, ck_type = None, ck_tokens = Some 0,
      ck_status = ''active'', ck_created = 0, ck_accessed = 0, ck_epoch = 0, ck_created_by = None, ck_model = None,
      ck_version = 1, ck_active = True, ck_superseded = None, ck_retired = None\<rparr>"

definition sourced_cache :: qa_db where
  "sourced_cache = fst (store_answer ''c1''
     ((demo_answer 1 ''q'' ''a'')\<lparr>ai_hashes := [hex_encode (ck_hash indexed_chunk_row)]\<rparr>) 10 \<lparr>qd_rows = [], qd_jobs = []\<rparr>)"

lemma qa_reindex_invalidates_all_witness:
  "\<exists>s\<in>set (qd_rows (fst (invalidate_stale_cache_for_buffer (\<lambda>_. 50) (\<lambda>_. 0) 1 [indexed_chunk_row] sourced_cache))).
     qa_id s = 1 \<and> qa_stale s"
proof -
  define i where "i = (demo_answer 1 ''q'' ''a'')\<lparr>ai_hashes := [hex_encode (ck_hash indexed_chunk_row)]\<rparr>"
  define r where "r = fresh_answer ''c1'' i 10 1 1"
  have "qd_rows sourced_cache = [r]"
    by (simp add: sourced_cache_def store_answer_def store_answer_inner_def Let_def r_def i_def table_simps)
  then have r: "r \<in> set (qd_rows sourced_cache)" "qa_id r = 1" "qa_buffer r = Some 1"
    "hex_encode (ck_hash indexed_chunk_row) \<in> set (qa_hashes r)"
    by (simp_all add: r_def i_def fresh_answer_def demo_answer_def)
  have "length (ck_hash indexed_chunk_row) = 32" "ck_buffer indexed_chunk_row = 1"
    by (simp_all add: indexed_chunk_row_def)
  then show ?thesis
    using qa_reindex_invalidates_all [OF _ _ _ r(1,3,4), of "[indexed_chunk_row]" "\<lambda>_. 50" "\<lambda>_. 0"] r(2) by simp
qed

text \<open>
  Marking an answer stale in a reachable database takes its confidence and its place in
  lookups; a fresh answer then has exactly one open re-digest job, a stale one changes
  nothing. The operation reports success in both cases, and for an answer that does not exist.
\<close>

theorem qa_stale_redigest:
  assumes "qa_reachable db" and "r \<in> set (qd_rows db)"
    and "mark_qa_stale now_ms now_s (qa_id r) u why db = (db', ok)"
  shows "ok \<and> (\<exists>s\<in>set (qd_rows db'). qa_id s = qa_id r \<and> qa_stale s \<and> qa_confidence s = 0) \<and>
     (\<forall>s. get_cached_answer (qa_project r) (qa_hash r) (qd_rows db') = Some s \<longrightarrow> qa_id s \<noteq> qa_id r) \<and>
     (if qa_stale r then db' = db
      else length (filter (\<lambda>j. pq_cache_id j = qa_cache_id r \<and> open_qa_job j) (qd_jobs db')) = 1)"
proof -
  have wf: "rows_wf qa_id (qd_rows db)" and okr: "answer_ok r"
    using qa_reachableD [OF assms(1)] assms(2) by auto
  have reach: "qa_reachable db'"
    using qa_reachable.move [OF assms(1) qa_step.marked [of db now_ms now_s "qa_id r" u why]] assms(3) by simp
  let ?hit = "\<lambda>s. qa_id s = qa_id r \<and> \<not> qa_stale s" and ?f = "stale_answer (Some (now_ms, u, why))"
  let ?s = "if qa_stale r then r else ?f r"
  have rows': "qd_rows db' = update_where ?hit ?f (qd_rows db)"
    using mark_qa_stale_rows [of now_ms now_s "qa_id r" u why db] assms(3) by simp
  have s: "?s \<in> set (qd_rows db')"
    unfolding rows' in_set_update_where using assms(2) by (intro bexI [of _ r]) simp_all
  have "qa_confidence ?s = 0" using okr by (simp add: answer_ok_def)
  then have 1: "\<exists>s\<in>set (qd_rows db'). qa_id s = qa_id r \<and> qa_stale s \<and> qa_confidence s = 0"
    using s by (intro bexI [of _ ?s]) auto
  have 2: "qa_id t \<noteq> qa_id r" if "get_cached_answer (qa_project r) (qa_hash r) (qd_rows db') = Some t" for t
  proof
    assume eq: "qa_id t = qa_id r"
    have t: "t \<in> set (qd_rows db')" "\<not> qa_stale t" using that by (auto simp: get_cached_answer_def dest: find_SomeD)
    have "t = ?s" using qa_reachableD(2) [OF reach] t(1) s eq by (intro rows_wf_inj [of qa_id]) auto
    then show False using t(2) by (auto split: if_splits)
  qed
  have 3: "db' = db" if "qa_stale r"
  proof -
    have none: "\<not> ?hit x" if "x \<in> set (qd_rows db)" for x
      using rows_wf_inj [OF wf that assms(2)] \<open>qa_stale r\<close> by auto
    then have "count_where ?hit (qd_rows db) = 0" "update_where ?hit ?f (qd_rows db) = qd_rows db"
      by (auto simp: count_where_def filter_empty_conv intro!: update_where_id)
    then show ?thesis using assms(3) by (simp add: mark_qa_stale_def Let_def)
  qed
  have 4: "length (filter (\<lambda>j. pq_cache_id j = qa_cache_id r \<and> open_qa_job j) (qd_jobs db')) = 1" if fresh: "\<not> qa_stale r"
  proof -
    have pos: "0 < count_where ?hit (qd_rows db)" using assms(2) fresh by (auto simp: count_where_def filter_empty_conv)
    have "get_qa_by_rowid (qa_id r) (qd_rows db') = Some (?f r)"
      unfolding get_qa_by_rowid_def using s fresh qa_reachableD(2) [OF reach] by (intro find_by_id) simp_all
    then have "qd_jobs db' = fst (enqueue_pending_qa now_s (qa_cache_id r) (qa_project r) (qa_created_by r) (qd_jobs db))"
      using assms(3) pos rows' by (auto simp: mark_qa_stale_def Let_def enqueue_pending_qa_for_stale_def)
    then show ?thesis using open_job_once [OF qa_queue_reachable_inv [OF qa_reachableD(5) [OF assms(1)]]] by simp
  qed
  have ok using assms(3) by (simp add: mark_qa_stale_def Let_def)
  then show ?thesis using 1 2 3 4 by auto
qed

lemma qa_stale_redigest_witness:
  "length (filter (\<lambda>j. pq_cache_id j = ''c2'' \<and> open_qa_job j)
     (qd_jobs (fst (mark_qa_stale 50 5 2 ''root'' ''admin'' demo_cache)))) = 1"
proof -
  have "list_ex (\<lambda>r. qa_id r = 2 \<and> \<not> qa_stale r \<and> qa_cache_id r = ''c2'') (qd_rows demo_cache)" by code_simp
  then obtain r where r: "r \<in> set (qd_rows demo_cache)" "qa_id r = 2" "\<not> qa_stale r" "qa_cache_id r = ''c2''"
    by (auto simp: list_ex_iff)
  obtain db' ok where m: "mark_qa_stale 50 5 2 ''root'' ''admin'' demo_cache = (db', ok)" by fastforce
  from qa_stale_redigest [OF demo_cache_reachable r(1), unfolded r(2), OF m] r(3,4) show ?thesis by (simp add: m)
qed

end
