(* ===== verification/Qa_Plan.thy ===== *)
theory Qa_Plan
  imports Prelude
begin

text \<open>
  The decision how much of a question to digest again
  (\<^verbatim>\<open>crates/arags-core/src/qa_cache/mod.rs\<close>, \<^verbatim>\<open>crates/arags-server/src/config/qa_cache.rs\<close>).
  Lemmas: for a configuration with \<open>provenance_k \<le> novel_k\<close> and at least one chunk the
  plan keeps \<open>provenance_k \<le> digest_k \<le> novel_k\<close>; a less similar question never digests less.
\<close>

record qa_thresholds =
  th_novel_k :: nat
  th_provenance_k :: nat
  th_sim_high :: real
  th_sim_floor :: real
  th_tier_steps :: "real list"
  th_jaccard_min :: real

record qa_plan =
  pl_digest_k :: nat
  pl_provenance_k :: nat
  pl_is_miss :: bool
  pl_tier :: int

definition default_thresholds :: qa_thresholds where
  "default_thresholds =
     \<lparr>th_novel_k = 20, th_provenance_k = 5, th_sim_high = 9/10, th_sim_floor = 2/5,
      th_tier_steps = [9/10, 8/10, 7/10, 6/10, 5/10], th_jaccard_min = 1/2\<rparr>"

definition is_top_tier :: "qa_plan \<Rightarrow> bool" where
  "is_top_tier p \<longleftrightarrow> pl_tier p = 0"

definition digest_schedule :: "nat list" where
  "digest_schedule = [10, 12, 13, 15, 18]"

definition prov_schedule :: "nat list" where
  "prov_schedule = [5, 6, 7, 8, 10]"

text \<open>\<open>Iterator::position\<close> and \<open>slice::get\<close>.\<close>

fun position :: "('a \<Rightarrow> bool) \<Rightarrow> 'a list \<Rightarrow> nat option" where
  "position p [] = None"
| "position p (x # xs) = (if p x then Some 0 else map_option Suc (position p xs))"

definition get_or :: "'a list \<Rightarrow> nat \<Rightarrow> 'a \<Rightarrow> 'a" where
  "get_or xs i d = (if i < length xs then xs ! i else d)"

definition miss_plan :: "qa_thresholds \<Rightarrow> qa_plan" where
  "miss_plan t = \<lparr>pl_digest_k = th_novel_k t, pl_provenance_k = th_provenance_k t, pl_is_miss = True, pl_tier = - 1\<rparr>"

definition resolve_plan :: "real \<Rightarrow> real \<Rightarrow> qa_thresholds \<Rightarrow> qa_plan" where
  "resolve_plan similarity jaccard t =
     (if similarity < th_sim_floor t then miss_plan t
      else case position (\<lambda>step. step \<le> similarity) (th_tier_steps t) of
        None \<Rightarrow> miss_plan t
      | Some tier_idx \<Rightarrow>
          if jaccard < th_jaccard_min t then miss_plan t
          else let digest_k = min (get_or digest_schedule tier_idx (th_novel_k t)) (th_novel_k t)
               in \<lparr>pl_digest_k = digest_k,
                   pl_provenance_k = max (min (get_or prov_schedule tier_idx (th_provenance_k t)) digest_k) 1,
                   pl_is_miss = False,
                   pl_tier = (if tier_idx < 2 ^ 31 then int tier_idx else - 1)\<rparr>)"

section \<open>Positions\<close>

lemma position_SomeD: "position p xs = Some i \<Longrightarrow> i < length xs \<and> p (xs ! i) \<and> (\<forall>j<i. \<not> p (xs ! j))"
proof (induction xs arbitrary: i)
  case (Cons x xs)
  show ?case
  proof (cases "p x")
    case False
    then obtain j where "position p xs = Some j" "i = Suc j" using Cons.prems by auto
    then show ?thesis using Cons.IH False by (auto simp: less_Suc_eq_0_disj)
  qed (use Cons.prems in auto)
qed simp

lemma position_None: "position p xs = None \<longleftrightarrow> (\<forall>x\<in>set xs. \<not> p x)"
  by (induction xs) auto

text \<open>A weaker condition is met no later.\<close>

lemma position_mono:
  assumes "\<And>x. p x \<Longrightarrow> q x" and "position p xs = Some i"
  obtains j where "position q xs = Some j" "j \<le> i"
proof (cases "position q xs")
  case None
  then show ?thesis using position_SomeD [OF assms(2)] assms(1) nth_mem unfolding position_None by blast
next
  case (Some j)
  have "\<not> i < j" using position_SomeD [OF Some] position_SomeD [OF assms(2)] assms(1) by blast
  then show ?thesis using that Some by simp
qed

section \<open>The plan\<close>

lemma digest_schedule_mono: "i \<le> j \<Longrightarrow> min (get_or digest_schedule i n) n \<le> min (get_or digest_schedule j n) n"
  by (auto simp: get_or_def digest_schedule_def less_Suc_eq nth_Cons' numeral_eq_Suc)

lemma digest_k_le: "pl_digest_k (resolve_plan s j t) \<le> th_novel_k t"
  by (auto simp: resolve_plan_def miss_plan_def Let_def split: option.split)

lemma resolve_plan_hit:
  assumes "\<not> pl_is_miss (resolve_plan s j t)"
  obtains i where "position (\<lambda>step. step \<le> s) (th_tier_steps t) = Some i"
    "th_sim_floor t \<le> s" "th_jaccard_min t \<le> j"
    "pl_digest_k (resolve_plan s j t) = min (get_or digest_schedule i (th_novel_k t)) (th_novel_k t)"
    "pl_provenance_k (resolve_plan s j t) =
       max (min (get_or prov_schedule i (th_provenance_k t)) (pl_digest_k (resolve_plan s j t))) 1"
  using assms by (auto simp: resolve_plan_def miss_plan_def Let_def split: option.splits if_splits)

lemma resolve_plan_miss: "pl_is_miss (resolve_plan s j t) \<Longrightarrow> resolve_plan s j t = miss_plan t"
  by (auto simp: resolve_plan_def Let_def split: option.splits if_splits)

lemma digest_antimono:
  assumes "s' \<le> s"
  shows "pl_digest_k (resolve_plan s j t) \<le> pl_digest_k (resolve_plan s' j t)"
proof (cases "pl_is_miss (resolve_plan s' j t)")
  case True
  then show ?thesis using digest_k_le by (simp add: resolve_plan_miss miss_plan_def)
next
  case hit: False
  then obtain i' where i': "position (\<lambda>step. step \<le> s') (th_tier_steps t) = Some i'" "th_sim_floor t \<le> s'"
    "th_jaccard_min t \<le> j"
    "pl_digest_k (resolve_plan s' j t) = min (get_or digest_schedule i' (th_novel_k t)) (th_novel_k t)"
    by (rule resolve_plan_hit)
  obtain i where i: "position (\<lambda>step. step \<le> s) (th_tier_steps t) = Some i" "i \<le> i'"
    by (rule position_mono [OF _ i'(1), of "\<lambda>step. step \<le> s"]) (use assms in auto)
  then have "pl_digest_k (resolve_plan s j t) = min (get_or digest_schedule i (th_novel_k t)) (th_novel_k t)"
    using i'(2,3) assms by (simp add: resolve_plan_def Let_def)
  then show ?thesis using digest_schedule_mono [OF i(2)] i'(4) by simp
qed

section \<open>Properties\<close>

text \<open>
  When at least one chunk is digested for a new question and no more are returned as
  provenance, every plan keeps provenance within the digest and the digest within the upper
  bound, a hit returns some provenance, and a less similar question is digested at least as widely.
\<close>

theorem qa_plan_bounds:
  fixes s s' j :: real
  assumes "th_provenance_k t \<le> th_novel_k t" and "1 \<le> th_novel_k t"
  defines "p \<equiv> resolve_plan s j t"
  shows "pl_provenance_k p \<le> pl_digest_k p \<and> pl_digest_k p \<le> th_novel_k t \<and>
     (pl_is_miss p \<or> 1 \<le> pl_provenance_k p) \<and>
     (s' \<le> s \<longrightarrow> pl_digest_k p \<le> pl_digest_k (resolve_plan s' j t))"
proof -
  have "pl_provenance_k p \<le> pl_digest_k p \<and> (pl_is_miss p \<or> 1 \<le> pl_provenance_k p)"
  proof (cases "pl_is_miss p")
    case True
    then show ?thesis using assms(1) resolve_plan_miss [of s j t] by (simp add: p_def miss_plan_def)
  next
    case False
    then obtain i where i: "pl_digest_k p = min (get_or digest_schedule i (th_novel_k t)) (th_novel_k t)"
      "pl_provenance_k p = max (min (get_or prov_schedule i (th_provenance_k t)) (pl_digest_k p)) 1"
      unfolding p_def by (rule resolve_plan_hit)
    have "1 \<le> pl_digest_k p"
      unfolding i(1) using assms(2) by (auto simp: get_or_def digest_schedule_def less_Suc_eq nth_Cons' numeral_eq_Suc)
    then show ?thesis unfolding i(2) by simp
  qed
  then show ?thesis using digest_k_le digest_antimono unfolding p_def by blast
qed

lemma qa_plan_bounds_witness:
  "pl_provenance_k (resolve_plan (75/100) (3/5) default_thresholds) \<le> 13 \<and>
   pl_digest_k (resolve_plan (75/100) (3/5) default_thresholds) \<le> pl_digest_k (resolve_plan (65/100) (3/5) default_thresholds)"
proof -
  have "pl_digest_k (resolve_plan (75/100) (3/5) default_thresholds) = 13"
    by (simp add: resolve_plan_def default_thresholds_def get_or_def digest_schedule_def)
  moreover have "th_provenance_k default_thresholds \<le> th_novel_k default_thresholds" "1 \<le> th_novel_k default_thresholds"
    by (simp_all add: default_thresholds_def)
  ultimately show ?thesis using qa_plan_bounds [of default_thresholds "75/100" "3/5" "65/100"] by simp
qed

text \<open>Without these two conditions the bounds do not hold: for a miss, and for a hit.\<close>

theorem qa_plan_bounds_need_config:
  "pl_digest_k (resolve_plan 0 0 (default_thresholds\<lparr>th_provenance_k := 30\<rparr>)) <
     pl_provenance_k (resolve_plan 0 0 (default_thresholds\<lparr>th_provenance_k := 30\<rparr>)) \<and>
   pl_digest_k (resolve_plan 1 1 (default_thresholds\<lparr>th_novel_k := 0\<rparr>)) <
     pl_provenance_k (resolve_plan 1 1 (default_thresholds\<lparr>th_novel_k := 0\<rparr>))"
  by (simp add: resolve_plan_def miss_plan_def default_thresholds_def get_or_def digest_schedule_def)

end
