(* ===== verification/Search_Tiers.thy ===== *)
theory Search_Tiers
  imports Chunk_Store Similarity Rust_Text
begin

text \<open>
  The three tiers a search draws from: the BM25 index
  (\<^verbatim>\<open>crates/arags-search/src/bm25.rs\<close>), the entity index
  (\<^verbatim>\<open>crates/arags-search/src/entity.rs\<close>, \<^verbatim>\<open>crates/arags-storage/src/sqlite/entities.rs\<close>) and
  the vector store (\<^verbatim>\<open>crates/arags-storage/src/lance/vectors.rs\<close>,
  \<^verbatim>\<open>crates/arags-search/src/semantic.rs\<close>). Arguments stand for what the sources only call:
  \<open>fts\<close> is the FTS5 match with its BM25 score over the rows of an index (\<^const>\<open>None\<close> is a
  parse error), \<open>ann\<close> the nearest neighbour search of usearch over the entries the filter
  admits. Text is ASCII. Lemmas: what each tier can return.
\<close>

section \<open>Query text\<close>

definition is_alphanumeric :: "char \<Rightarrow> bool" where
  "is_alphanumeric c \<longleftrightarrow>
     (let n = (of_char c :: nat) in 48 \<le> n \<and> n \<le> 57 \<or> 65 \<le> n \<and> n \<le> 90 \<or> 97 \<le> n \<and> n \<le> 122)"

definition sanitize_query :: "string \<Rightarrow> string" where
  "sanitize_query query = map (\<lambda>c. if is_alphanumeric c \<or> is_ws c then c else CHR '' '') query"

definition sanitize_fts :: "string \<Rightarrow> string" where
  "sanitize_fts query = map (\<lambda>c. if is_alphanumeric c \<or> is_ws c then c else CHR '' '') query"

definition or_query :: "string \<Rightarrow> string" where
  "or_query query = join '' OR '' (split_whitespace query)"

section \<open>Lexical tier\<close>

type_synonym fts_match = "string \<Rightarrow> (row_id \<times> string) list \<Rightarrow> (row_id \<times> real) list option"

definition in_buffer :: "row_id \<Rightarrow> chunk list \<Rightarrow> row_id \<Rightarrow> bool" where
  "in_buffer buffer_id rows i \<longleftrightarrow> list_ex (\<lambda>c. ck_id c = i \<and> ck_buffer c = buffer_id) rows"

definition bm25_search ::
  "fts_match \<Rightarrow> string \<Rightarrow> row_id \<Rightarrow> nat \<Rightarrow> chunk_db \<Rightarrow> (row_id \<times> real) list option" where
  "bm25_search fts query buffer_id top_k db =
     (let safe_query = sanitize_query query
      in if split_whitespace safe_query = [] then Some []
         else map_option
           (\<lambda>hits. take top_k (sort_key snd (filter (in_buffer buffer_id (cd_rows db) \<circ> fst) hits)))
           (fts safe_query (cd_fts db)))"

section \<open>Entity tier\<close>

text \<open>\<open>efts\<close> lists the matching rows of \<open>entities_fts\<close>, one for every row stored.\<close>

type_synonym entity_match = "string \<Rightarrow> string list \<Rightarrow> (string \<times> real) list"

definition safe_entity :: "string \<Rightarrow> string" where
  "safe_entity entity = filter (\<lambda>c. is_alphanumeric c \<or> c = CHR ''_'') entity"

text \<open>The join of the matching rows with \<open>chunk_entities\<close> and \<open>chunks\<close>.\<close>

definition entity_join :: "(string \<times> real) list \<Rightarrow> row_id \<Rightarrow> chunk_db \<Rightarrow> (row_id \<times> real) list" where
  "entity_join matches buffer_id db =
     concat (map (\<lambda>(e, score). map (\<lambda>(i, _). (i, score))
       (filter (\<lambda>(i, e'). e' = e \<and> in_buffer buffer_id (cd_rows db) i) (cd_entities db))) matches)"

definition search_entities ::
  "entity_match \<Rightarrow> string list \<Rightarrow> row_id \<Rightarrow> nat \<Rightarrow> chunk_db \<Rightarrow> (row_id \<times> real) list" where
  "search_entities efts query_entities buffer_id top_k db =
     concat (map (\<lambda>entity.
       let safe = safe_entity entity
       in if safe = [] then []
          else take top_k (sort_key snd (entity_join (efts (safe @ ''*'') (cd_entity_fts db)) buffer_id db)))
       query_entities)"

section \<open>Vector tier\<close>

record vector_entry =
  ve_chunk :: row_id
  ve_buffer :: row_id
  ve_vector :: embedding

text \<open>
  The index with its buffer map: both are keyed by chunk id, and \<open>insert_vectors\<close>
  removes an earlier entry first. A wrong dimensionality stops it; what came before stays.
\<close>

record vector_store =
  vs_dims :: nat
  vs_entries :: "vector_entry list"

definition put_vector :: "vector_entry \<Rightarrow> vector_entry list \<Rightarrow> vector_entry list" where
  "put_vector e entries = filter (\<lambda>x. ve_chunk x \<noteq> ve_chunk e) entries @ [e]"

fun insert_vectors :: "vector_entry list \<Rightarrow> vector_store \<Rightarrow> vector_store \<times> bool" where
  "insert_vectors [] vs = (vs, True)"
| "insert_vectors (e # es) vs =
     (if length (ve_vector e) \<noteq> vs_dims vs then (vs, False)
      else insert_vectors es (vs\<lparr>vs_entries := put_vector e (vs_entries vs)\<rparr>))"

definition delete_chunk_ids :: "row_id list \<Rightarrow> vector_store \<Rightarrow> vector_store" where
  "delete_chunk_ids ids vs = vs\<lparr>vs_entries := filter (\<lambda>e. ve_chunk e \<notin> set ids) (vs_entries vs)\<rparr>"

definition clear_vectors :: "vector_store \<Rightarrow> vector_store" where
  "clear_vectors vs = vs\<lparr>vs_entries := []\<rparr>"

type_synonym neighbour_search = "embedding \<Rightarrow> vector_entry list \<Rightarrow> nat \<Rightarrow> (row_id \<times> real) list"

definition search_similar ::
  "neighbour_search \<Rightarrow> embedding \<Rightarrow> row_id option \<Rightarrow> nat \<Rightarrow> vector_store \<Rightarrow> (row_id \<times> real) list" where
  "search_similar ann query buffer_id limit vs =
     (case buffer_id of
        Some b \<Rightarrow> ann query (filter (\<lambda>e. ve_buffer e = b) (vs_entries vs)) limit
      | None \<Rightarrow> ann query (vs_entries vs) limit)"

text \<open>A negative buffer id is an error of the conversion to \<open>u64\<close>.\<close>

definition semantic_search ::
  "neighbour_search \<Rightarrow> embedding \<Rightarrow> row_id \<Rightarrow> nat \<Rightarrow> vector_store \<Rightarrow> (row_id \<times> real) list option" where
  "semantic_search ann query buffer_id top_k vs =
     (if buffer_id < 0 then None
      else Some (map (\<lambda>(i, distance). (i, 1 / (1 + distance))) (search_similar ann query (Some buffer_id) (top_k * 2) vs)))"

text \<open>What is relied on of the neighbour search: it returns distinct entries it was given, at most the limit.\<close>

definition ann_ok :: "neighbour_search \<Rightarrow> bool" where
  "ann_ok ann \<longleftrightarrow> (\<forall>q es n. set (map fst (ann q es n)) \<subseteq> ve_chunk ` set es \<and>
     distinct (map fst (ann q es n)) \<and> length (ann q es n) \<le> n)"

section \<open>What the tiers return\<close>

lemma in_buffer_iff: "in_buffer b rows i \<longleftrightarrow> (\<exists>c\<in>set rows. ck_id c = i \<and> ck_buffer c = b)"
  by (auto simp: in_buffer_def list_ex_iff)

lemma sanitize_idem [simp]: "sanitize_query (sanitize_query q) = sanitize_query q"
  by (induction q) (auto simp: sanitize_query_def)

lemma bm25_search_in_buffer:
  "bm25_search fts q b k db = Some hits \<Longrightarrow> (i, s) \<in> set hits \<Longrightarrow> in_buffer b (cd_rows db) i"
  by (auto simp: bm25_search_def Let_def split: if_splits dest!: in_set_takeD)

lemma search_entities_in_buffer:
  "(i, s) \<in> set (search_entities efts es b k db) \<Longrightarrow> in_buffer b (cd_rows db) i"
  by (auto simp: search_entities_def Let_def entity_join_def split: if_splits dest!: in_set_takeD)

lemma semantic_search_in_buffer:
  assumes "ann_ok ann" and "semantic_search ann v b k vs = Some hits" and "(i, s) \<in> set hits"
  shows "\<exists>e\<in>set (vs_entries vs). ve_chunk e = i \<and> ve_buffer e = b"
proof -
  let ?es = "filter (\<lambda>e. ve_buffer e = b) (vs_entries vs)"
  have "i \<in> set (map fst (ann v ?es (k * 2)))"
    using assms(2,3) by (force simp: semantic_search_def search_similar_def split: if_splits)
  then have "i \<in> ve_chunk ` set ?es" using assms(1) unfolding ann_ok_def by blast
  then show ?thesis by auto
qed

text \<open>
  An entity that was stored for several chunks has as many rows in the entity index, and the
  join meets every chunk of the entity once per row.
\<close>

lemma entity_join_count:
  "count_list (map fst (entity_join matches b db)) i =
     sum_list (map (\<lambda>(e, _). length (filter (\<lambda>(j, e'). j = i \<and> e' = e \<and> in_buffer b (cd_rows db) j) (cd_entities db))) matches)"
proof (induction matches)
  case (Cons m ms)
  obtain e s where m: "m = (e, s)" by (cases m)
  have "count_list (map fst (map (\<lambda>(j, _). (j, s)) (filter (\<lambda>(j, e'). e' = e \<and> in_buffer b (cd_rows db) j) xs))) i =
      length (filter (\<lambda>(j, e'). j = i \<and> e' = e \<and> in_buffer b (cd_rows db) j) xs)" for xs :: "(row_id \<times> string) list"
    by (induction xs) auto
  then show ?case using Cons by (simp add: m entity_join_def count_list_append)
qed (simp add: entity_join_def)

section \<open>The vector store\<close>

definition vectors_wf :: "vector_store \<Rightarrow> bool" where
  "vectors_wf vs \<longleftrightarrow> distinct (map ve_chunk (vs_entries vs)) \<and> list_all (\<lambda>e. length (ve_vector e) = vs_dims vs) (vs_entries vs)"

lemma put_vector_wf:
  "vectors_wf vs \<Longrightarrow> length (ve_vector e) = vs_dims vs \<Longrightarrow> vectors_wf (vs\<lparr>vs_entries := put_vector e (vs_entries vs)\<rparr>)"
  by (auto simp: vectors_wf_def put_vector_def distinct_map_filter list_all_iff)

lemma insert_vectors_wf: "vectors_wf vs \<Longrightarrow> vectors_wf (fst (insert_vectors es vs))"
  by (induction es vs rule: insert_vectors.induct) (auto simp: put_vector_wf)

lemma delete_chunk_ids_wf: "vectors_wf vs \<Longrightarrow> vectors_wf (delete_chunk_ids ids vs)"
  by (auto simp: vectors_wf_def delete_chunk_ids_def distinct_map_filter list_all_iff)

end
