(* ===== verification/Rank_Fusion.thy ===== *)
theory Rank_Fusion
  imports Search_Tiers "HOL-Library.Multiset"
begin

text \<open>
  Fusion of rankings (\<^verbatim>\<open>crates/arags-search/src/hybrid/*\<close>, \<^verbatim>\<open>crates/arags-search/src/decay.rs\<close>)
  and the search the server runs on it
  (\<^verbatim>\<open>crates/arags-server/src/grpc/search/hybrid.rs\<close>, \<^verbatim>\<open>crates/arags-search/src/context.rs\<close>).
  A score table is an association list; \<open>shuffle\<close> is the order in which a
  \<open>HashMap\<close> gives it back. Lemmas: \<open>rrf_fuse\<close> equals a reference definition whatever
  that order is; what \<open>hybrid_search\<close> may return.
\<close>

type_synonym ranked = "row_id \<times> real"
type_synonym hash_order = "ranked list \<Rightarrow> ranked list"

definition hash_order_ok :: "hash_order \<Rightarrow> bool" where
  "hash_order_ok shuffle \<longleftrightarrow> (\<forall>xs. mset (shuffle xs) = mset xs)"

section \<open>Reciprocal rank fusion\<close>

definition rrf_score :: "nat \<Rightarrow> real \<Rightarrow> real" where
  "rrf_score rank k = 1 / (k + real rank + 1)"

text \<open>\<open>*scores.entry(id).or_insert(0.0) += x\<close>.\<close>

definition bump :: "row_id \<Rightarrow> real \<Rightarrow> ranked list \<Rightarrow> ranked list" where
  "bump i x scores = AList.map_default i (0 + x) (\<lambda>s. s + x) scores"

definition add_ranking :: "real \<Rightarrow> row_id list \<Rightarrow> ranked list \<Rightarrow> ranked list" where
  "add_ranking k ids scores = fold (\<lambda>(rank, i). bump i (rrf_score rank k)) (enumerate 0 ids) scores"

definition rrf_fuse :: "hash_order \<Rightarrow> ranked list list \<Rightarrow> nat \<Rightarrow> real \<Rightarrow> ranked list" where
  "rrf_fuse shuffle results_list top_k k =
     take top_k (sort_key (\<lambda>(i, s). (- s, i))
       (shuffle (fold (\<lambda>results. add_ranking k (map fst results)) results_list [])))"

section \<open>Salience decay\<close>

record decay_config =
  dc_lambda :: real
  dc_enabled :: bool

definition default_decay :: decay_config where
  "default_decay = \<lparr>dc_lambda = 1/100, dc_enabled = True\<rparr>"

definition disabled_decay :: decay_config where
  "disabled_decay = \<lparr>dc_lambda = 1/100, dc_enabled = False\<rparr>"

definition decay_score :: "decay_config \<Rightarrow> real \<Rightarrow> real \<Rightarrow> real" where
  "decay_score dc base_score age_hours =
     (if \<not> dc_enabled dc \<or> age_hours \<le> 0 then base_score
      else base_score * exp (- dc_lambda dc * age_hours))"

definition apply_decay :: "decay_config \<Rightarrow> ranked list \<Rightarrow> (row_id \<times> real) list \<Rightarrow> ranked list" where
  "apply_decay dc results ages =
     (if \<not> dc_enabled dc \<or> ages = [] then results
      else sort_key (\<lambda>(_, s). - s)
        (map (\<lambda>(i, s). (i, case map_of ages i of Some age \<Rightarrow> decay_score dc s age | None \<Rightarrow> s)) results))"

section \<open>Hybrid search\<close>

datatype search_tier = Tier_Fts | Tier_Entity | Tier_Vector

text \<open>The parts a search instance is built from.\<close>

record hybrid =
  hy_fts :: fts_match
  hy_extract :: "string \<Rightarrow> string list"
  hy_efts :: "entity_match option"
  hy_ann :: "(neighbour_search \<times> vector_store) option"
  hy_rrf_k :: real
  hy_decay :: decay_config

definition lexical_tier :: "hybrid \<Rightarrow> string \<Rightarrow> row_id \<Rightarrow> nat \<Rightarrow> chunk_db \<Rightarrow> ranked list" where
  "lexical_tier h query buffer_id limit db =
     (case bm25_search (hy_fts h) query buffer_id limit db of
        None \<Rightarrow> []
      | Some [] \<Rightarrow>
          let oq = or_query (sanitize_query query)
          in if 1 < length (split_whitespace oq)
             then (case bm25_search (hy_fts h) oq buffer_id limit db of None \<Rightarrow> [] | Some r \<Rightarrow> r)
             else []
      | Some results \<Rightarrow> results)"

definition entity_tier :: "hybrid \<Rightarrow> search_tier \<Rightarrow> string \<Rightarrow> row_id \<Rightarrow> nat \<Rightarrow> chunk_db \<Rightarrow> ranked list" where
  "entity_tier h tier query buffer_id limit db =
     (if tier = Tier_Fts then []
      else case hy_efts h of
        None \<Rightarrow> []
      | Some efts \<Rightarrow>
          let entities = hy_extract h query
          in if entities = [] then [] else search_entities efts entities buffer_id limit db)"

definition vector_tier ::
  "hybrid \<Rightarrow> search_tier \<Rightarrow> embedding option \<Rightarrow> row_id \<Rightarrow> nat \<Rightarrow> ranked list" where
  "vector_tier h tier query_vector buffer_id limit =
     (if tier \<noteq> Tier_Vector then []
      else case (hy_ann h, query_vector) of
        (Some (ann, vs), Some v) \<Rightarrow>
          (case semantic_search ann v buffer_id limit vs of None \<Rightarrow> [] | Some r \<Rightarrow> r)
      | _ \<Rightarrow> [])"

text \<open>\<open>HybridSearch::search\<close>: the order among equal scores is the one of the hash table.\<close>

definition hybrid_core ::
  "hash_order \<Rightarrow> hybrid \<Rightarrow> string \<Rightarrow> embedding option \<Rightarrow> row_id \<Rightarrow> search_tier \<Rightarrow> nat \<Rightarrow>
   (row_id \<times> real) list option \<Rightarrow> chunk_db \<Rightarrow> ranked list" where
  "hybrid_core shuffle h query query_vector buffer_id tier k chunk_ages db =
     (let tiers = [lexical_tier h query buffer_id (k * 3) db, entity_tier h tier query buffer_id (k * 3) db,
                   vector_tier h tier query_vector buffer_id (k * 3)];
          scores = fold (\<lambda>results. add_ranking (hy_rrf_k h) (map fst results)) tiers [];
          results = take k (sort_key (\<lambda>(_, s). - s) (shuffle scores))
      in case chunk_ages of
           None \<Rightarrow> results
         | Some ages \<Rightarrow> take k (apply_decay (hy_decay h) results ages))"

text \<open>\<open>search_all\<close> fuses the BM25 rankings of the buffers and sorts once more.\<close>

definition search_all :: "hash_order \<Rightarrow> hybrid \<Rightarrow> string \<Rightarrow> nat \<Rightarrow> row_id list \<Rightarrow> chunk_db \<Rightarrow> ranked list" where
  "search_all shuffle h query top_k buffers db =
     (if buffers = [] then []
      else take top_k (sort_key (\<lambda>(_, s). - s)
        (rrf_fuse shuffle
          (List.map_filter (\<lambda>b. bm25_search (hy_fts h) query b (top_k * 2) db) buffers) top_k (hy_rrf_k h))))"

definition search_fts ::
  "hybrid \<Rightarrow> string \<Rightarrow> row_id \<Rightarrow> nat \<Rightarrow> (row_id \<times> real) list option \<Rightarrow> chunk_db \<Rightarrow> ranked list option" where
  "search_fts h query buffer_id top_k chunk_ages db =
     map_option (\<lambda>results. case chunk_ages of None \<Rightarrow> results | Some ages \<Rightarrow> apply_decay (hy_decay h) results ages)
       (bm25_search (hy_fts h) query buffer_id top_k db)"

section \<open>Hydration and the server search\<close>

record search_result =
  sr_chunk :: row_id
  sr_score :: real
  sr_file :: string
  sr_line_start :: int
  sr_line_end :: int
  sr_content :: string
  sr_language :: "string option"
  sr_epoch :: int
  sr_created_by :: "string option"
  sr_model :: "string option"
  sr_version :: int

record chunk_with_text =
  cw_chunk :: chunk
  cw_content :: string

definition load_chunks :: "ranked list \<Rightarrow> chunk_db \<Rightarrow> chunk_with_text list" where
  "load_chunks results db =
     List.map_filter (\<lambda>(i, _). case get_chunk i (cd_rows db) of
         None \<Rightarrow> None
       | Some c \<Rightarrow> Some \<lparr>cw_chunk = c, cw_content = (case get_chunk_content i (cd_texts db) of None \<Rightarrow> [] | Some t \<Rightarrow> t)\<rparr>)
       results"

definition result_of :: "ranked \<Rightarrow> chunk_with_text \<Rightarrow> search_result" where
  "result_of hr c =
     \<lparr>sr_chunk = fst hr, sr_score = snd hr, sr_file = ck_file (cw_chunk c), sr_line_start = ck_line_start (cw_chunk c),
      sr_line_end = ck_line_end (cw_chunk c), sr_content = cw_content c, sr_language = ck_language (cw_chunk c),
      sr_epoch = ck_epoch (cw_chunk c), sr_created_by = ck_created_by (cw_chunk c), sr_model = ck_model (cw_chunk c),
      sr_version = ck_version (cw_chunk c)\<rparr>"

definition hydrate :: "ranked list \<Rightarrow> chunk_with_text list \<Rightarrow> search_result list" where
  "hydrate results chunks =
     List.map_filter (\<lambda>hr. map_option (result_of hr) (List.find (\<lambda>c. ck_id (cw_chunk c) = fst hr) chunks)) results"

text \<open>Min-max normalisation; \<open>f32::EPSILON\<close> is \<open>2 ^ -23\<close>.\<close>

definition normalize_scores :: "search_result list \<Rightarrow> search_result list" where
  "normalize_scores results =
     (if results = [] then []
      else let mn = Min (set (map sr_score results)); mx = Max (set (map sr_score results))
           in if \<bar>mx - mn\<bar> < 1 / 2 ^ 23 then map (\<lambda>r. r\<lparr>sr_score := 1\<rparr>) results
              else map (\<lambda>r. r\<lparr>sr_score := (sr_score r - mn) / (mx - mn)\<rparr>) results)"

text \<open>The server: \<open>embedder\<close> is the model, \<open>lambda\<close> its \<open>decay_lambda\<close>, \<open>now\<close> the clock of the age query.\<close>

definition serving_decay :: "real \<Rightarrow> decay_config" where
  "serving_decay lambda = (if 0 < lambda then \<lparr>dc_lambda = lambda, dc_enabled = True\<rparr> else disabled_decay)"

definition hybrid_search ::
  "hash_order \<Rightarrow> hybrid \<Rightarrow> (string \<Rightarrow> embedding option) \<Rightarrow> real \<Rightarrow> seconds \<Rightarrow>
   row_id \<Rightarrow> string \<Rightarrow> search_tier \<Rightarrow> nat \<Rightarrow> chunk_db \<Rightarrow> search_result list" where
  "hybrid_search shuffle h embedder lambda now buffer_id fts_query tier top_k db =
     (let h' = h\<lparr>hy_rrf_k := 60, hy_decay := serving_decay lambda\<rparr>;
          run = (\<lambda>q. hybrid_core shuffle h' q (embedder fts_query) buffer_id tier (top_k * 3) None db);
          fused = run fts_query;
          fused = (if fused = [] \<and> 1 < length (split_whitespace fts_query) then run (or_query fts_query) else fused);
          fused = (if 0 < lambda \<and> fused \<noteq> []
                   then apply_decay (hy_decay h') fused (chunk_ages_hours now (map fst fused) (cd_rows db)) else fused)
      in normalize_scores (hydrate fused (load_chunks fused db)))"

section \<open>The fused scores\<close>

text \<open>The reference: what a list contributes to an id, and the total over the rankings.\<close>

definition rank_sum :: "real \<Rightarrow> (nat \<times> row_id) list \<Rightarrow> row_id \<Rightarrow> real" where
  "rank_sum k ranks i = sum_list (map (\<lambda>(rank, j). if j = i then rrf_score rank k else 0) ranks)"

definition rrf_total :: "real \<Rightarrow> row_id list list \<Rightarrow> row_id \<Rightarrow> real" where
  "rrf_total k rankings i = sum_list (map (\<lambda>ids. rank_sum k (enumerate 0 ids) i) rankings)"

definition score_in :: "ranked list \<Rightarrow> row_id \<Rightarrow> real" where
  "score_in scores i = (case map_of scores i of None \<Rightarrow> 0 | Some s \<Rightarrow> s)"

lemma bump_keys: "fst ` set (bump i x scores) = insert i (fst ` set scores)"
  by (simp add: bump_def AList.dom_map_default)

lemma bump_distinct: "distinct (map fst scores) \<Longrightarrow> distinct (map fst (bump i x scores))"
  unfolding bump_def by (rule AList.distinct_map_default)

lemma bump_score: "score_in (bump i x scores) j = score_in scores j + (if i = j then x else 0)"
  by (auto simp: score_in_def bump_def AList.map_of_map_default split: option.split)

lemma fold_bump:
  fixes ranks :: "(nat \<times> row_id) list"
  shows "fst ` set (fold (\<lambda>(rank, i). bump i (rrf_score rank k)) ranks scores) = snd ` set ranks \<union> fst ` set scores"
    "distinct (map fst scores) \<Longrightarrow> distinct (map fst (fold (\<lambda>(rank, i). bump i (rrf_score rank k)) ranks scores))"
    "score_in (fold (\<lambda>(rank, i). bump i (rrf_score rank k)) ranks scores) j = score_in scores j + rank_sum k ranks j"
proof (induction ranks arbitrary: scores)
  case (Cons r ranks)
  obtain rank i where r: "r = (rank, i)" by (cases r)
  { case 1
    show ?case unfolding r fold_Cons comp_def case_prod_conv Cons(1) bump_keys by auto }
  { case 2
    then show ?case unfolding r by (simp add: Cons(2) bump_distinct) }
  { case 3
    show ?case unfolding r by (simp add: Cons(3) bump_score rank_sum_def) }
qed (simp_all add: rank_sum_def)

lemma snd_enumerate [simp]: "snd ` set (enumerate n xs) = set xs"
  by (metis list.set_map map_snd_enumerate)

lemma add_ranking_simps:
  "fst ` set (add_ranking k ids scores) = set ids \<union> fst ` set scores"
  "distinct (map fst scores) \<Longrightarrow> distinct (map fst (add_ranking k ids scores))"
  "score_in (add_ranking k ids scores) j = score_in scores j + rank_sum k (enumerate 0 ids) j"
  by (simp_all add: add_ranking_def fold_bump)

definition fused_scores :: "real \<Rightarrow> ranked list list \<Rightarrow> ranked list" where
  "fused_scores k rankings = fold (\<lambda>results. add_ranking k (map fst results)) rankings []"

lemma fold_add_ranking:
  "fst ` set (fold (\<lambda>results. add_ranking k (map fst results)) rankings scores) =
     (\<Union>l\<in>set rankings. fst ` set l) \<union> fst ` set scores"
  "distinct (map fst scores) \<Longrightarrow> distinct (map fst (fold (\<lambda>results. add_ranking k (map fst results)) rankings scores))"
  "score_in (fold (\<lambda>results. add_ranking k (map fst results)) rankings scores) j =
     score_in scores j + rrf_total k (map (map fst) rankings) j"
  by (induction rankings arbitrary: scores) (auto simp: add_ranking_simps rrf_total_def)

lemma fused_scores_simps:
  "fst ` set (fused_scores k rankings) = (\<Union>l\<in>set rankings. fst ` set l)"
  "distinct (map fst (fused_scores k rankings))"
  "score_in (fused_scores k rankings) j = rrf_total k (map (map fst) rankings) j"
  by (simp_all add: fused_scores_def fold_add_ranking score_in_def [of "[]"])

lemma score_in_member: "distinct (map fst scores) \<Longrightarrow> (i, s) \<in> set scores \<Longrightarrow> score_in scores i = s"
  by (simp add: score_in_def)

text \<open>The table is the function of its keys.\<close>

lemma fused_scores_set:
  "set (fused_scores k rankings) = (\<lambda>i. (i, rrf_total k (map (map fst) rankings) i)) ` (\<Union>l\<in>set rankings. fst ` set l)"
proof -
  have "s = rrf_total k (map (map fst) rankings) i" if "(i, s) \<in> set (fused_scores k rankings)" for i s
    using score_in_member [OF fused_scores_simps(2) that] by (simp add: fused_scores_simps(3))
  then have "set (fused_scores k rankings) = (\<lambda>i. (i, rrf_total k (map (map fst) rankings) i)) ` fst ` set (fused_scores k rankings)"
    by force
  then show ?thesis by (simp add: fused_scores_simps(1))
qed

lemma hash_orderD:
  assumes "hash_order_ok shuffle"
  shows "mset (shuffle xs) = mset xs" "set (shuffle xs) = set xs" "length (shuffle xs) = length xs"
proof -
  show m: "mset (shuffle xs) = mset xs" using assms by (simp add: hash_order_ok_def)
  show "set (shuffle xs) = set xs" by (rule mset_eq_setD [OF m])
  show "length (shuffle xs) = length xs" by (rule mset_eq_length [OF m])
qed

definition ranking_spec :: "real \<Rightarrow> row_id list list \<Rightarrow> row_id list" where
  "ranking_spec k rankings =
     sort_key (\<lambda>i. (- rrf_total k rankings i, i)) (sorted_list_of_set (\<Union>l\<in>set rankings. set l))"

lemma fuse_sorts:
  assumes "hash_order_ok shuffle"
  shows "sort_key (\<lambda>(i, s). (- s, i)) (shuffle (fused_scores k rankings)) =
     map (\<lambda>i. (i, rrf_total k (map (map fst) rankings) i)) (ranking_spec k (map (map fst) rankings))"
proof (rule sort_key_inj_key_eq)
  let ?tot = "rrf_total k (map (map fst) rankings)" and ?ids = "\<Union>l\<in>set rankings. fst ` set l"
  have keys: "(\<Union>l\<in>set (map (map fst) rankings). set l) = ?ids" by auto
  have "distinct (map (\<lambda>i. (i, ?tot i)) (ranking_spec k (map (map fst) rankings)))"
    by (simp add: ranking_spec_def distinct_map inj_on_def)
  moreover have "distinct (fused_scores k rankings)" using fused_scores_simps(2) distinct_map by blast
  moreover have "set (map (\<lambda>i. (i, ?tot i)) (ranking_spec k (map (map fst) rankings))) = set (fused_scores k rankings)"
    unfolding fused_scores_set ranking_spec_def keys by simp
  ultimately show "mset (shuffle (fused_scores k rankings)) =
      mset (map (\<lambda>i. (i, ?tot i)) (ranking_spec k (map (map fst) rankings)))"
    unfolding hash_orderD(1) [OF assms] by (metis set_eq_iff_mset_eq_distinct)
  show "inj_on (\<lambda>(i, s). (- s, i)) (set (shuffle (fused_scores k rankings)))"
    by (auto simp: inj_on_def)
  show "sorted (map (\<lambda>(i, s). (- s, i)) (map (\<lambda>i. (i, ?tot i)) (ranking_spec k (map (map fst) rankings))))"
    unfolding map_map comp_def case_prod_conv ranking_spec_def by (rule sorted_sort_key)
qed

section \<open>What a search returns\<close>

text \<open>A list of distinct ids of one kind, at most so many, with scores that never rise.\<close>

definition ranked_list :: "(row_id \<Rightarrow> bool) \<Rightarrow> nat \<Rightarrow> ranked list \<Rightarrow> bool" where
  "ranked_list p n xs \<longleftrightarrow> distinct (map fst xs) \<and> length xs \<le> n \<and> (\<forall>x\<in>set xs. p (fst x)) \<and>
     sorted_wrt (\<lambda>a b. snd b \<le> snd a) xs"

lemma ranked_listD:
  "ranked_list p n xs \<Longrightarrow> distinct (map fst xs)" "ranked_list p n xs \<Longrightarrow> length xs \<le> n"
  "ranked_list p n xs \<Longrightarrow> x \<in> set xs \<Longrightarrow> p (fst x)" "ranked_list p n xs \<Longrightarrow> sorted_wrt (\<lambda>a b. snd b \<le> snd a) xs"
  by (simp_all add: ranked_list_def)

lemma sorted_by_score:
  fixes xs :: "ranked list"
  shows "sorted_wrt (\<lambda>a b. snd b \<le> snd a) (sort_key (\<lambda>(_, s). - s) xs)"
proof -
  have "sorted (map (\<lambda>(_, s). - s) (sort_key (\<lambda>(_, s). - (s::real)) xs))" by (rule sorted_sort_key)
  then show ?thesis unfolding sorted_map by (rule sorted_wrt_mono_rel [rotated]) auto
qed

lemma ranked_list_take:
  assumes "distinct (map fst xs)" and "\<forall>x\<in>set xs. p (fst x)"
  shows "ranked_list p n (take n (sort_key (\<lambda>(_, s). - s) xs))"
proof -
  have "distinct (map fst (sort_key (\<lambda>(_, s). - s) xs))"
    using assms(1) by (metis distinct_map distinct_sort set_sort)
  then have "distinct (map fst (take n (sort_key (\<lambda>(_, s). - s) xs)))"
    unfolding take_map [symmetric] by (rule distinct_take)
  then show ?thesis
    using assms(2) sorted_by_score by (auto simp: ranked_list_def sorted_wrt_take dest!: in_set_takeD)
qed

lemma ranked_list_filter: "ranked_list p n xs \<Longrightarrow> ranked_list p n (filter q xs)"
  unfolding ranked_list_def using order_trans [OF length_filter_le [of q xs]]
  by (simp add: distinct_map_filter sorted_wrt_filter)

lemma ranked_list_weaken: "ranked_list p n xs \<Longrightarrow> (\<And>x. x \<in> set xs \<Longrightarrow> p (fst x) \<Longrightarrow> q (fst x)) \<Longrightarrow> ranked_list q n xs"
  by (auto simp: ranked_list_def)

lemma apply_decay_ranked:
  assumes "ranked_list p n xs"
  shows "ranked_list p n (apply_decay dc xs ages)"
proof (cases "\<not> dc_enabled dc \<or> ages = []")
  case False
  define f where "f = (\<lambda>(i, s). (i::row_id, case map_of ages i of Some age \<Rightarrow> decay_score dc s age | None \<Rightarrow> s))"
  have ids: "map fst (map f xs) = map fst xs" by (simp add: f_def case_prod_beta)
  have "ranked_list p (length xs) (take (length xs) (sort_key (\<lambda>(_, s). - s) (map f xs)))"
    by (rule ranked_list_take) (use assms ids in \<open>auto simp: ranked_list_def f_def simp del: map_map\<close>)
  moreover have "apply_decay dc xs ages = take (length xs) (sort_key (\<lambda>(_, s). - s) (map f xs))"
    using False by (simp add: apply_decay_def f_def)
  ultimately show ?thesis using assms by (auto simp: ranked_list_def)
qed (use assms in \<open>auto simp: apply_decay_def\<close>)

definition tier_ids :: "hybrid \<Rightarrow> string \<Rightarrow> embedding option \<Rightarrow> row_id \<Rightarrow> search_tier \<Rightarrow> nat \<Rightarrow> chunk_db \<Rightarrow> row_id set" where
  "tier_ids h query v b tier k db =
     fst ` set (lexical_tier h query b k db) \<union> fst ` set (entity_tier h tier query b k db) \<union>
     fst ` set (vector_tier h tier v b k)"

lemma hybrid_core_ranked:
  assumes "hash_order_ok shuffle"
  shows "ranked_list (\<lambda>i. i \<in> tier_ids h query v b tier (k * 3) db) k (hybrid_core shuffle h query v b tier k None db)"
proof -
  let ?tiers = "[lexical_tier h query b (k * 3) db, entity_tier h tier query b (k * 3) db, vector_tier h tier v b (k * 3)]"
  let ?sc = "fused_scores (hy_rrf_k h) ?tiers"
  have dist: "distinct (map fst (shuffle ?sc))"
    using fused_scores_simps(2) [of "hy_rrf_k h" ?tiers] mset_map [of fst "shuffle ?sc"] mset_map [of fst ?sc]
    unfolding hash_orderD(1) [OF assms] by (metis mset_eq_imp_distinct_iff)
  have "fst x \<in> tier_ids h query v b tier (k * 3) db" if "x \<in> set (shuffle ?sc)" for x
  proof -
    have "fst x \<in> fst ` set ?sc" using that unfolding hash_orderD(2) [OF assms] by (rule imageI)
    then show ?thesis unfolding fused_scores_simps(1) tier_ids_def by auto
  qed
  then show ?thesis
    unfolding hybrid_core_def Let_def fused_scores_def [symmetric] option.case
    by (intro ranked_list_take dist) blast
qed

text \<open>Vectors are of chunks of the buffer they are filed under.\<close>

definition vectors_match :: "hybrid \<Rightarrow> chunk_db \<Rightarrow> bool" where
  "vectors_match h db \<longleftrightarrow> (case hy_ann h of None \<Rightarrow> True | Some (ann, vs) \<Rightarrow> ann_ok ann \<and>
     (\<forall>e\<in>set (vs_entries vs). \<forall>c\<in>set (cd_rows db). ck_id c = ve_chunk e \<longrightarrow> ck_buffer c = ve_buffer e))"

lemma lexical_tier_source:
  "lexical_tier h q b k db = [] \<or> (\<exists>query. bm25_search (hy_fts h) query b k db = Some (lexical_tier h q b k db))"
proof (cases "bm25_search (hy_fts h) q b k db")
  case (Some hits)
  show ?thesis
  proof (cases hits)
    case Nil
    then show ?thesis using Some by (auto simp: lexical_tier_def Let_def split: option.split)
  qed (use Some in \<open>auto simp: lexical_tier_def\<close>)
qed (simp add: lexical_tier_def)

lemma lexical_tier_in_buffer:
  assumes "i \<in> fst ` set (lexical_tier h q b k db)"
  shows "in_buffer b (cd_rows db) i"
  using lexical_tier_source [of h q b k db] assms by (auto dest: bm25_search_in_buffer)

lemma entity_tier_in_buffer: "i \<in> fst ` set (entity_tier h tier q b k db) \<Longrightarrow> in_buffer b (cd_rows db) i"
  by (auto simp: entity_tier_def Let_def dest: search_entities_in_buffer split: option.splits if_splits)

lemma vector_tier_in_buffer:
  assumes "vectors_match h db" and "i \<in> fst ` set (vector_tier h tier v b k)" and "c \<in> set (cd_rows db)" "ck_id c = i"
  shows "ck_buffer c = b"
proof -
  obtain ann vs w hits where h: "hy_ann h = Some (ann, vs)" "semantic_search ann w b k vs = Some hits" "i \<in> fst ` set hits"
    using assms(2) by (auto simp: vector_tier_def split: option.splits if_splits prod.splits)
      (metis fst_conv image_eqI)
  then obtain s where "(i, s) \<in> set hits" by auto
  then obtain e where "e \<in> set (vs_entries vs)" "ve_chunk e = i" "ve_buffer e = b"
    using semantic_search_in_buffer [OF _ h(2)] assms(1) h(1) by (auto simp: vectors_match_def)
  then show ?thesis using assms h(1) by (auto simp: vectors_match_def)
qed

lemma get_chunk_id: "get_chunk i rows = Some c \<Longrightarrow> c \<in> set rows \<and> ck_id c = i"
  by (auto simp: get_chunk_def dest: find_SomeD)

lemma tier_ids_in_buffer:
  assumes "vectors_match h db" and "i \<in> tier_ids h q v b tier k db" and "get_chunk i (cd_rows db) = Some c"
  shows "in_buffer b (cd_rows db) i"
  using assms(2) unfolding tier_ids_def
proof (elim UnE)
  assume "i \<in> fst ` set (vector_tier h tier v b k)"
  from vector_tier_in_buffer [OF assms(1) this] show ?thesis
    using get_chunk_id [OF assms(3)] by (auto simp: in_buffer_iff)
qed (simp_all add: lexical_tier_in_buffer entity_tier_in_buffer)

section \<open>Hydration and normalisation\<close>

lemma load_chunks_find:
  "List.find (\<lambda>c. ck_id (cw_chunk c) = i) (load_chunks results db) \<noteq> None \<longleftrightarrow>
     i \<in> fst ` set results \<and> get_chunk i (cd_rows db) \<noteq> None"
proof -
  have "(\<exists>c\<in>set (load_chunks results db). ck_id (cw_chunk c) = i) \<longleftrightarrow> i \<in> fst ` set results \<and> get_chunk i (cd_rows db) \<noteq> None"
  proof
    assume "\<exists>c\<in>set (load_chunks results db). ck_id (cw_chunk c) = i"
    then obtain j s c where j: "(j, s) \<in> set results" "get_chunk j (cd_rows db) = Some c" "ck_id c = i"
      by (auto simp: load_chunks_def List.map_filter_def split: option.splits if_splits)
    then have "j = i" using get_chunk_id by blast
    then show "i \<in> fst ` set results \<and> get_chunk i (cd_rows db) \<noteq> None" using j by force
  next
    assume "i \<in> fst ` set results \<and> get_chunk i (cd_rows db) \<noteq> None"
    then obtain s c where j: "(i, s) \<in> set results" "get_chunk i (cd_rows db) = Some c" by auto
    then have "\<lparr>cw_chunk = c, cw_content = (case get_chunk_content i (cd_texts db) of None \<Rightarrow> [] | Some t \<Rightarrow> t)\<rparr>
        \<in> set (load_chunks results db)"
      by (force simp: load_chunks_def List.map_filter_def)
    then show "\<exists>c\<in>set (load_chunks results db). ck_id (cw_chunk c) = i" using get_chunk_id [OF j(2)] by force
  qed
  then show ?thesis by (auto simp: find_None_iff)
qed

lemma hydrate_pairs:
  "map (\<lambda>r. (sr_chunk r, sr_score r)) (hydrate results (load_chunks results db)) =
     filter (\<lambda>hr. get_chunk (fst hr) (cd_rows db) \<noteq> None) results"
proof -
  have "map (\<lambda>r. (sr_chunk r, sr_score r)) (hydrate xs chunks) =
      filter (\<lambda>hr. List.find (\<lambda>c. ck_id (cw_chunk c) = fst hr) chunks \<noteq> None) xs" for xs chunks
    by (induction xs) (auto simp: hydrate_def map_filter_simps result_of_def split: option.splits)
  also have "filter (\<lambda>hr. List.find (\<lambda>c. ck_id (cw_chunk c) = fst hr) (load_chunks results db) \<noteq> None) results =
      filter (\<lambda>hr. get_chunk (fst hr) (cd_rows db) \<noteq> None) results"
    unfolding load_chunks_find by (rule filter_cong) auto
  finally show ?thesis .
qed

lemma normalize_ids [simp]: "map sr_chunk (normalize_scores rs) = map sr_chunk rs"
  by (simp add: normalize_scores_def Let_def)

lemma normalize_range:
  assumes "r \<in> set (normalize_scores rs)"
  shows "0 \<le> sr_score r \<and> sr_score r \<le> 1"
proof -
  let ?mn = "Min (set (map sr_score rs))" and ?mx = "Max (set (map sr_score rs))"
  have "?mn \<le> sr_score x \<and> sr_score x \<le> ?mx" if "x \<in> set rs" for x using that by simp
  then show ?thesis using assms
    by (fastforce simp: normalize_scores_def Let_def divide_le_eq zero_le_divide_iff split: if_splits)
qed

lemma normalize_top:
  assumes "rs \<noteq> []"
  shows "\<exists>r\<in>set (normalize_scores rs). sr_score r = 1"
proof -
  let ?mn = "Min (set (map sr_score rs))" and ?mx = "Max (set (map sr_score rs))"
  have "?mx \<in> set (map sr_score rs)" using assms by (intro Max_in) auto
  then obtain x where x: "x \<in> set rs" "sr_score x = ?mx" by auto
  show ?thesis
  proof (cases "\<bar>?mx - ?mn\<bar> < 1 / 2 ^ 23")
    case True
    then show ?thesis using x assms by (auto simp: normalize_scores_def Let_def)
  next
    case False
    then have "?mx - ?mn \<noteq> 0" by auto
    then show ?thesis using False x assms by (auto simp: normalize_scores_def Let_def intro!: bexI [of _ x])
  qed
qed

lemma normalize_sorted:
  assumes "sorted_wrt (\<lambda>a b. sr_score b \<le> sr_score a) rs"
  shows "sorted_wrt (\<lambda>a b. sr_score b \<le> sr_score a) (normalize_scores rs)"
proof (cases "rs = []")
  case False
  let ?mn = "Min (set (map sr_score rs))" and ?mx = "Max (set (map sr_score rs))"
  have "?mn \<in> set (map sr_score rs)" using False by (intro Min_in) auto
  then have "?mn \<le> ?mx" by (intro Max_ge) auto
  then have "sr_score b \<le> sr_score a \<Longrightarrow> (sr_score b - ?mn) / (?mx - ?mn) \<le> (sr_score a - ?mn) / (?mx - ?mn)" for a b
    by (intro divide_right_mono) auto
  then show ?thesis using assms False
    by (auto simp: normalize_scores_def Let_def sorted_wrt_map intro: sorted_wrt_mono_rel [rotated] elim: sorted_wrt_mono_rel [rotated])
qed (simp add: normalize_scores_def)

lemma hybrid_search_fused:
  assumes "hash_order_ok shuffle"
  obtains fused q where
    "hybrid_search shuffle h embedder lambda now b fts_query tier k db = normalize_scores (hydrate fused (load_chunks fused db))"
    "ranked_list (\<lambda>i. i \<in> tier_ids (h\<lparr>hy_rrf_k := 60, hy_decay := serving_decay lambda\<rparr>) q (embedder fts_query) b tier (k * 3 * 3) db)
       (k * 3) fused"
proof -
  let ?h = "h\<lparr>hy_rrf_k := 60, hy_decay := serving_decay lambda\<rparr>"
  let ?run = "\<lambda>q. hybrid_core shuffle ?h q (embedder fts_query) b tier (k * 3) None db"
  let ?p = "\<lambda>q i. i \<in> tier_ids ?h q (embedder fts_query) b tier (k * 3 * 3) db"
  define q where "q = (if ?run fts_query = [] \<and> 1 < length (split_whitespace fts_query) then or_query fts_query else fts_query)"
  have run_q: "(if ?run fts_query = [] \<and> 1 < length (split_whitespace fts_query) then ?run (or_query fts_query)
      else ?run fts_query) = ?run q" by (simp add: q_def)
  have r: "ranked_list (?p q) (k * 3) (?run q)" by (rule hybrid_core_ranked [OF assms])
  define fused where "fused = (if 0 < lambda \<and> ?run q \<noteq> []
      then apply_decay (hy_decay ?h) (?run q) (chunk_ages_hours now (map fst (?run q)) (cd_rows db)) else ?run q)"
  have "ranked_list (?p q) (k * 3) fused"
    unfolding fused_def using r apply_decay_ranked [OF r] by (simp del: hybrid.simps)
  moreover have "hybrid_search shuffle h embedder lambda now b fts_query tier k db = normalize_scores (hydrate fused (load_chunks fused db))"
    by (simp only: hybrid_search_def Let_def run_q fused_def)
  ultimately show ?thesis using that by blast
qed

lemma hydrated_ranked:
  assumes r: "ranked_list p n fused" and "rs = hydrate fused (load_chunks fused db)"
  shows "distinct (map sr_chunk rs) \<and> length rs \<le> n \<and>
     (\<forall>r\<in>set rs. p (sr_chunk r) \<and> get_chunk (sr_chunk r) (cd_rows db) \<noteq> None) \<and>
     sorted_wrt (\<lambda>a b. sr_score b \<le> sr_score a) rs"
proof -
  let ?pair = "\<lambda>r. (sr_chunk r, sr_score r)"
  have eq: "map ?pair rs = filter (\<lambda>hr. get_chunk (fst hr) (cd_rows db) \<noteq> None) fused"
    unfolding assms(2) by (rule hydrate_pairs)
  have f: "ranked_list p n (map ?pair rs)" unfolding eq by (rule ranked_list_filter [OF r])
  have "p (sr_chunk x) \<and> get_chunk (sr_chunk x) (cd_rows db) \<noteq> None" if "x \<in> set rs" for x
  proof -
    have m: "?pair x \<in> set (map ?pair rs)" using that by simp
    from ranked_listD(3) [OF f m] have "p (sr_chunk x)" by simp
    moreover from m have "get_chunk (sr_chunk x) (cd_rows db) \<noteq> None" unfolding eq by simp
    ultimately show ?thesis by blast
  qed
  then show ?thesis using f by (simp add: ranked_list_def comp_def sorted_wrt_map)
qed

lemma hybrid_search_in_buffer:
  assumes "hash_order_ok shuffle" and "vectors_match h db"
    and r: "r \<in> set (hybrid_search shuffle h embedder lambda now b fts_query tier top_k db)"
  shows "in_buffer b (cd_rows db) (sr_chunk r)"
proof -
  let ?h = "h\<lparr>hy_rrf_k := 60, hy_decay := serving_decay lambda\<rparr>"
  have vm: "vectors_match ?h db" using assms(2) by (simp add: vectors_match_def)
  obtain fused q where rs: "hybrid_search shuffle h embedder lambda now b fts_query tier top_k db =
      normalize_scores (hydrate fused (load_chunks fused db))"
    and f: "ranked_list (\<lambda>i. i \<in> tier_ids ?h q (embedder fts_query) b tier (top_k * 3 * 3) db) (top_k * 3) fused"
    by (rule hybrid_search_fused [OF assms(1)])
  let ?hy = "hydrate fused (load_chunks fused db)"
  note hy = hydrated_ranked [OF f refl, of db]
  have "map sr_chunk (normalize_scores ?hy) = map sr_chunk ?hy" by simp
  then have "sr_chunk r \<in> set (map sr_chunk ?hy)" using r unfolding rs by (metis image_eqI set_map)
  then obtain x where x: "x \<in> set ?hy" "sr_chunk x = sr_chunk r" by auto
  then obtain c where "get_chunk (sr_chunk r) (cd_rows db) = Some c" using hy by fastforce
  moreover have "sr_chunk r \<in> tier_ids ?h q (embedder fts_query) b tier (top_k * 3 * 3) db" using hy x by fastforce
  ultimately show ?thesis by (intro tier_ids_in_buffer [OF vm])
qed

section \<open>Properties\<close>

text \<open>
  C12: Reciprocal rank fusion equals its reference definition whatever order the hash table
  gives the scores back in: every id of the rankings once, ordered by its total over all
  rankings, equal totals by id, cut to \<open>top_k\<close>.
\<close>

theorem rrf_fuse_correct:
  assumes "hash_order_ok shuffle"
  shows "rrf_fuse shuffle rankings top_k k =
     map (\<lambda>i. (i, rrf_total k (map (map fst) rankings) i)) (take top_k (ranking_spec k (map (map fst) rankings)))"
  unfolding rrf_fuse_def fused_scores_def [symmetric] fuse_sorts [OF assms] by (simp add: take_map)

lemma rrf_fuse_correct_witness:
  "map fst (rrf_fuse rev [[(7, 1), (3, 1)], [(3, 5), (9, 2)]] 2 60) = [3, 7]"
proof -
  have "hash_order_ok rev" by (simp add: hash_order_ok_def)
  moreover have "(\<Union>l\<in>set [[7, 3], [3, 9]]. set l) = set [3, 7, 9::int]" by auto
  then have "ranking_spec 60 [[7, 3], [3, 9]] = [3, 7, 9]"
    unfolding ranking_spec_def by (simp only: sorted_list_of_set_sort_remdups)
      (simp add: rrf_total_def rank_sum_def rrf_score_def)
  ultimately show ?thesis
    using rrf_fuse_correct [of rev "[[(7, 1), (3, 1)], [(3, 5), (9, 2)]]" 2 60] by (simp add: comp_def)
qed

text \<open>
  C13: The chunks a hybrid search returns are distinct, stored, of the buffer searched, and at most
  three times \<open>top_k\<close>; their scores lie between 0 and 1, never rise down the list, and the
  best is 1.
\<close>

theorem hybrid_search_results:
  assumes "hash_order_ok shuffle" and "vectors_match h db"
    and rs_def: "rs = hybrid_search shuffle h embedder lambda now b fts_query tier top_k db"
  shows "distinct (map sr_chunk rs) \<and> length rs \<le> 3 * top_k \<and>
     (\<forall>r\<in>set rs. in_buffer b (cd_rows db) (sr_chunk r) \<and> 0 \<le> sr_score r \<and> sr_score r \<le> 1) \<and>
     sorted_wrt (\<lambda>a b. sr_score b \<le> sr_score a) rs \<and> (rs = [] \<or> (\<exists>r\<in>set rs. sr_score r = 1))"
proof -
  let ?h = "h\<lparr>hy_rrf_k := 60, hy_decay := serving_decay lambda\<rparr>"
  obtain fused q where rs: "rs = normalize_scores (hydrate fused (load_chunks fused db))"
    and f: "ranked_list (\<lambda>i. i \<in> tier_ids ?h q (embedder fts_query) b tier (top_k * 3 * 3) db) (top_k * 3) fused"
    unfolding rs_def by (rule hybrid_search_fused [OF assms(1)])
  let ?hy = "hydrate fused (load_chunks fused db)"
  note hy = hydrated_ranked [OF f refl, of db]
  have ids: "map sr_chunk rs = map sr_chunk ?hy" unfolding rs by simp
  have "in_buffer b (cd_rows db) (sr_chunk r)" if "r \<in> set rs" for r
    using hybrid_search_in_buffer [OF assms(1,2)] that unfolding rs_def by blast
  moreover have "distinct (map sr_chunk rs)" unfolding ids using hy by blast
  moreover have "length rs \<le> 3 * top_k"
    using hy arg_cong [OF ids, of length] by (simp add: mult.commute)
  moreover have "sorted_wrt (\<lambda>a b. sr_score b \<le> sr_score a) rs" unfolding rs using hy by (intro normalize_sorted) blast
  moreover have "rs = [] \<or> (\<exists>r\<in>set rs. sr_score r = 1)"
    using normalize_top [of ?hy] by (cases "?hy = []") (auto simp: rs normalize_scores_def)
  ultimately show ?thesis using normalize_range [of _ ?hy, folded rs] by blast
qed

text \<open>
  A small index: two files with one chunk each. The text match ranks the first chunk first,
  the entities of the query rank the second one first, so both have the same total.
\<close>

definition demo_index :: chunk_db where
  "demo_index = fst (insert_chunks_batched (\<lambda>content _. [content]) 0 1
     [(''a.rs'', demo_chunk ''a'' ''61''), (''b.rs'', demo_chunk ''b'' ''62'')] 10 {} None None empty_chunks)"

definition demo_hybrid :: hybrid where
  "demo_hybrid =
     \<lparr>hy_fts = (\<lambda>_ rows. Some (map (\<lambda>(i, _). (i, - 1)) rows)), hy_extract = (\<lambda>_. [''b'', ''a'']),
      hy_efts = Some (\<lambda>q rows. map (\<lambda>e. (e, - 1)) (filter (\<lambda>e. q = e @ ''*'') rows)),
      hy_ann = None, hy_rrf_k = 60, hy_decay = default_decay\<rparr>"

lemma demo_tiers:
  "lexical_tier (demo_hybrid\<lparr>hy_rrf_k := 60, hy_decay := disabled_decay\<rparr>) ''q'' 1 45 demo_index = [(1, - 1), (2, - 1)]"
  "entity_tier (demo_hybrid\<lparr>hy_rrf_k := 60, hy_decay := disabled_decay\<rparr>) Tier_Entity ''q'' 1 45 demo_index = [(2, - 1), (1, - 1)]"
  by code_simp+

lemma demo_search:
  assumes "shuffle [(1, 123 / 3782), (2, 123 / 3782)] = [(i, 123 / 3782), (j, 123 / 3782)]" and "{i, j} = {1, 2}"
  shows "map sr_chunk (hybrid_search shuffle demo_hybrid (\<lambda>_. None) 0 0 1 ''q'' Tier_Entity 5 demo_index) = [i, j]"
proof -
  let ?h = "demo_hybrid\<lparr>hy_rrf_k := 60, hy_decay := disabled_decay\<rparr>"
  have core: "hybrid_core shuffle ?h ''q'' None 1 Tier_Entity 15 None demo_index = [(i, 123 / 3782), (j, 123 / 3782)]"
    using assms(1)
    by (simp add: hybrid_core_def Let_def demo_tiers vector_tier_def add_ranking_def bump_def rrf_score_def)
  have "get_chunk 1 (cd_rows demo_index) \<noteq> None" "get_chunk 2 (cd_rows demo_index) \<noteq> None" by code_simp+
  then have stored: "get_chunk i (cd_rows demo_index) \<noteq> None" "get_chunk j (cd_rows demo_index) \<noteq> None"
    using assms(2) by (auto simp: doubleton_eq_iff)
  have "map fst (map (\<lambda>r. (sr_chunk r, sr_score r)) (hydrate fused (load_chunks fused demo_index))) = map fst fused"
    if "fused = [(i, 123 / 3782), (j, 123 / 3782)]" for fused
    unfolding hydrate_pairs using stored that by simp
  then show ?thesis
    by (simp add: hybrid_search_def Let_def serving_decay_def core comp_def)
qed

text \<open>
  Only \<open>rrf_fuse\<close> breaks ties by id. The search the server runs leaves chunks of equal total
  in the order of the hash table, so the same query can list them either way.
\<close>

theorem hybrid_search_tie_order:
  "hash_order_ok (\<lambda>xs. xs) \<and> hash_order_ok rev \<and>
   map sr_chunk (hybrid_search (\<lambda>xs. xs) demo_hybrid (\<lambda>_. None) 0 0 1 ''q'' Tier_Entity 5 demo_index) = [1, 2] \<and>
   map sr_chunk (hybrid_search rev demo_hybrid (\<lambda>_. None) 0 0 1 ''q'' Tier_Entity 5 demo_index) = [2, 1]"
proof (intro conjI)
  show "hash_order_ok (\<lambda>xs. xs)" "hash_order_ok rev" by (simp_all add: hash_order_ok_def)
  show "map sr_chunk (hybrid_search (\<lambda>xs. xs) demo_hybrid (\<lambda>_. None) 0 0 1 ''q'' Tier_Entity 5 demo_index) = [1, 2]"
    by (rule demo_search) auto
  show "map sr_chunk (hybrid_search rev demo_hybrid (\<lambda>_. None) 0 0 1 ''q'' Tier_Entity 5 demo_index) = [2, 1]"
    by (rule demo_search) auto
qed

lemma hybrid_search_results_witness:
  "distinct (map sr_chunk (hybrid_search rev demo_hybrid (\<lambda>_. None) 0 0 1 ''q'' Tier_Entity 5 demo_index)) \<and>
   length (hybrid_search rev demo_hybrid (\<lambda>_. None) 0 0 1 ''q'' Tier_Entity 5 demo_index) \<le> 15"
proof -
  have "hash_order_ok rev" "vectors_match demo_hybrid demo_index"
    by (simp_all add: hash_order_ok_def vectors_match_def demo_hybrid_def)
  from hybrid_search_results [OF this refl, of "\<lambda>_. None" 0 0 1 "''q''" Tier_Entity 5] show ?thesis by simp
qed

end
