(* ===== verification/Context_Budget.thy ===== *)
theory Context_Budget
  imports Rank_Fusion "HOL-Library.Sublist"
begin

text \<open>
  Budgets of a served answer: the token budget of \<open>build_context\<close>
  (\<^verbatim>\<open>crates/arags-search/src/context.rs\<close>), the one of the \<open>BuildContext\<close> call with its
  32-bit counters (\<^verbatim>\<open>crates/arags-server/src/grpc/search/context.rs\<close>), and the split of the
  result slots between summaries and chunks (\<^verbatim>\<open>crates/arags-server/src/grpc/search/query.rs\<close>).
  Number formatting is the argument \<open>show_score\<close>. Lemmas: no budget is exceeded.
\<close>

type_synonym u32 = "32 word"

section \<open>Token budget of a rendered context\<close>

text \<open>\<open>(words as f64 * 1.3).ceil() as u32\<close>; the cast saturates.\<close>

definition estimate_tokens :: "string \<Rightarrow> u32" where
  "estimate_tokens txt =
     (if txt = [] then 0
      else word_of_nat (min (2 ^ 32 - 1) (nat \<lceil>real (length (split_whitespace txt)) * (13/10)\<rceil>)))"

definition truncate_to_tokens :: "string \<Rightarrow> u32 \<Rightarrow> string" where
  "truncate_to_tokens txt max_tokens =
     (let max_words = nat \<lfloor>real (unat max_tokens) / (13/10)\<rfloor>; ws = split_whitespace txt
      in if length ws \<le> max_words then txt else join '' '' (take max_words ws))"

definition saturating_sub_u32 :: "u32 \<Rightarrow> u32 \<Rightarrow> u32" where
  "saturating_sub_u32 a b = (if b \<le> a then a - b else 0)"

fun apply_token_budget :: "chunk_with_text list \<Rightarrow> u32 \<Rightarrow> u32 \<Rightarrow> ranked list \<Rightarrow> chunk_with_text list" where
  "apply_token_budget chunks max_tokens used [] = []"
| "apply_token_budget chunks max_tokens used (hr # results) =
     (case List.find (\<lambda>c. ck_id (cw_chunk c) = fst hr) chunks of
        None \<Rightarrow> apply_token_budget chunks max_tokens used results
      | Some chunk \<Rightarrow>
          let chunk_tokens = estimate_tokens (cw_content chunk)
          in if used + chunk_tokens \<le> max_tokens
             then chunk # apply_token_budget chunks max_tokens (used + chunk_tokens) results
             else let remaining = saturating_sub_u32 max_tokens used
                  in if 100 < remaining
                     then [chunk\<lparr>cw_content := truncate_to_tokens (cw_content chunk) remaining\<rparr>] else [])"

text \<open>\<open>build_search_results\<close> with its optional budget.\<close>

definition build_search_results :: "ranked list \<Rightarrow> u32 option \<Rightarrow> chunk_db \<Rightarrow> search_result list" where
  "build_search_results results max_tokens db =
     (let chunks = load_chunks results db;
          chunks = (case max_tokens of Some budget \<Rightarrow> apply_token_budget chunks budget 0 results | None \<Rightarrow> chunks)
      in hydrate results chunks)"

section \<open>Context of the server\<close>

definition newline :: string where
  "newline = [CHR 0x0A]"

definition context_header :: string where
  "context_header = ''# Project Context'' @ newline @ newline"

definition context_section :: "(real \<Rightarrow> string) \<Rightarrow> search_result \<Rightarrow> string" where
  "context_section show_score r =
     ''## '' @ sr_file r @ '' (score '' @ show_score (sr_score r) @ '')'' @ newline @ ''```'' @ newline @
     sr_content r @ newline @ ''```'' @ newline @ newline"

definition text_tokens :: "string \<Rightarrow> u32" where
  "text_tokens txt = word_of_nat (length txt) div 4"

fun render_sections :: "(real \<Rightarrow> string) \<Rightarrow> u32 \<Rightarrow> search_result list \<Rightarrow> string \<times> u32 \<Rightarrow> string \<times> u32" where
  "render_sections show_score max_tokens [] acc = acc"
| "render_sections show_score max_tokens (r # rs) (body, budget) =
     (let tokens = text_tokens (sr_content r)
      in if 0 < tokens \<and> max_tokens < budget + tokens then render_sections show_score max_tokens rs (body, budget)
         else render_sections show_score max_tokens rs (body @ context_section show_score r, budget + tokens))"

definition render_context :: "(real \<Rightarrow> string) \<Rightarrow> search_result list \<Rightarrow> u32 \<Rightarrow> string \<times> u32" where
  "render_context show_score candidates max_tokens =
     render_sections show_score max_tokens candidates (context_header, 0)"

section \<open>Result slots\<close>

definition split_summary_budget :: "nat \<Rightarrow> real \<Rightarrow> nat \<Rightarrow> nat \<times> nat" where
  "split_summary_budget max_results ratio qualifying =
     (if max_results \<le> 1 \<or> ratio \<le> 0 then (0, max_results)
      else let want = nat \<lfloor>real max_results * ratio\<rfloor>;
               taken = min want qualifying;
               taken = (if max_results \<le> taken then max_results - 1 else taken)
           in if taken = 0 then (0, max_results) else (taken, max_results - taken))"

text \<open>
  The chunk and summary part of \<open>unify_query\<close>. \<open>summaries\<close> is what the summary search
  returned (\<^const>\<open>None\<close> when it failed), with the score each has.
\<close>

definition unify_results ::
  "real \<Rightarrow> real \<Rightarrow> nat \<Rightarrow> ('s \<times> real) list option \<Rightarrow> 'c list \<Rightarrow> 'c list \<times> 's list" where
  "unify_results summary_ratio summary_min_score max_results summaries candidates =
     (let ratio = clamp 0 1 summary_ratio
      in if 0 < ratio \<and> 1 < max_results
         then case summaries of
                None \<Rightarrow> (candidates, [])
              | Some all \<Rightarrow>
                  let qualifying = filter (\<lambda>(_, score). summary_min_score \<le> score) all;
                      (taken, chunk_budget) = split_summary_budget max_results ratio (length qualifying)
                  in if 0 < taken then (take chunk_budget candidates, map fst (take taken qualifying))
                     else (candidates, [])
         else (candidates, []))"

section \<open>Time travel of candidates\<close>

definition apply_chunk_as_of :: "int \<Rightarrow> search_result list \<Rightarrow> chunk_db \<Rightarrow> search_result list option" where
  "apply_chunk_as_of as_of candidates db =
     (if as_of \<le> 0 then Some candidates
      else if list_all (\<lambda>r. get_chunk_as_of (sr_chunk r) as_of (cd_rows db) \<noteq> None) candidates
      then Some (List.map_filter (\<lambda>r.
        case get_chunk_as_of (sr_chunk r) as_of (cd_rows db) of
          Some (Some c) \<Rightarrow>
            Some (result_of (ck_id c, case map_of (rev (map (\<lambda>x. (sr_chunk x, sr_score x)) candidates)) (sr_chunk r) of
                     Some s \<Rightarrow> s | None \<Rightarrow> 0)
              \<lparr>cw_chunk = c, cw_content = (case get_chunk_content (ck_id c) (cd_texts db) of None \<Rightarrow> [] | Some t \<Rightarrow> t)\<rparr>)
        | _ \<Rightarrow> None) candidates)
      else None)"

section \<open>Estimates\<close>

lemma unat_word_of_nat_small: "n < 2 ^ 32 \<Longrightarrow> unat (word_of_nat n :: u32) = n"
  by (simp add: unat_of_nat)

lemma unat_estimate:
  "unat (estimate_tokens txt) = min (2 ^ 32 - 1) (nat \<lceil>real (length (split_whitespace txt)) * (13/10)\<rceil>)"
proof (cases "txt = []")
  case True
  then show ?thesis by (simp add: estimate_tokens_def split_whitespace_def)
next
  case False
  then show ?thesis unfolding estimate_tokens_def by (simp only: if_False) (rule unat_word_of_nat_small, simp)
qed

text \<open>A truncated text is estimated within what it was cut to.\<close>

lemma truncate_fits: "unat (estimate_tokens (truncate_to_tokens txt m)) \<le> unat m"
proof -
  let ?w = "nat \<lfloor>real (unat m) / (13/10)\<rfloor>"
  have "list_all is_word (take ?w (split_whitespace txt))"
    using split_whitespace_words [of "txt"] by (auto simp: list_all_iff dest: in_set_takeD)
  then have "length (split_whitespace (truncate_to_tokens txt m)) \<le> ?w"
    by (simp add: truncate_to_tokens_def Let_def split_join_words)
  then have "real (length (split_whitespace (truncate_to_tokens txt m))) \<le> real (unat m) / (13/10)"
    by (meson le_nat_floor le_nat_iff of_nat_floor order_trans of_nat_mono divide_nonneg_nonneg of_nat_0_le_iff zero_le_numeral)
  then have "real (length (split_whitespace (truncate_to_tokens txt m))) * (13/10) \<le> real (unat m)"
    by (simp add: field_simps)
  then have "\<lceil>real (length (split_whitespace (truncate_to_tokens txt m))) * (13/10)\<rceil> \<le> int (unat m)"
    by (metis ceiling_le_iff of_int_of_nat_eq)
  then have "nat \<lceil>real (length (split_whitespace (truncate_to_tokens txt m))) * (13/10)\<rceil> \<le> unat m"
    by (simp only: nat_le_iff)
  then show ?thesis unfolding unat_estimate by (rule min.coboundedI2)
qed

lemma unat_saturating_sub: "unat (saturating_sub_u32 a b) = unat a - unat b"
  by (auto simp: saturating_sub_u32_def unat_sub word_le_nat_alt)

definition tokens_sum :: "chunk_with_text list \<Rightarrow> nat" where
  "tokens_sum cs = sum_list (map (\<lambda>c. unat (estimate_tokens (cw_content c))) cs)"

lemma apply_token_budget_sum:
  assumes "\<And>c. c \<in> set chunks \<Longrightarrow> unat (estimate_tokens (cw_content c)) + unat max_tokens < 2 ^ 32"
    and "unat used \<le> unat max_tokens"
  shows "unat used + tokens_sum (apply_token_budget chunks max_tokens used results) \<le> unat max_tokens"
  using assms
proof (induction chunks max_tokens used results rule: apply_token_budget.induct)
  case (2 chunks max_tokens used hr results)
  show ?case
  proof (cases "List.find (\<lambda>c. ck_id (cw_chunk c) = fst hr) chunks")
    case None
    then show ?thesis using 2 by simp
  next
    case (Some chunk)
    let ?t = "estimate_tokens (cw_content chunk)"
    have "chunk \<in> set chunks" using find_SomeD [OF Some] by simp
    then have "unat used + unat ?t < 2 ^ 32" using 2(3,4) by fastforce
    then have add: "unat (used + ?t) = unat used + unat ?t" by (simp add: unat_word_ariths(1))
    show ?thesis
    proof (cases "used + ?t \<le> max_tokens")
      case True
      then have "unat (used + ?t) \<le> unat max_tokens" by (simp add: word_le_nat_alt)
      from 2(2) [OF Some refl True 2(3) this] show ?thesis using Some True add by (simp add: tokens_sum_def)
    next
      case False
      then show ?thesis
        using Some truncate_fits [of "cw_content chunk" "saturating_sub_u32 max_tokens used"] 2(4)
        by (auto simp: tokens_sum_def Let_def unat_saturating_sub)
    qed
  qed
qed (simp add: tokens_sum_def)

lemma text_tokens_bound: "unat (text_tokens t) < 2 ^ 30"
proof -
  have "unat (word_of_nat (length t) :: u32) < 2 ^ 32" by (simp add: unat_of_nat)
  then show ?thesis unfolding text_tokens_def unat_div by (simp add: unat_of_nat)
qed

lemma render_sections_spec:
  assumes m: "unat m \<le> 2 ^ 32 - 2 ^ 30" and b: "unat budget \<le> unat m"
  shows "\<exists>incl. subseq incl rs \<and>
     render_sections show_score m rs (body, budget) =
       (body @ concat (map (context_section show_score) incl), budget + sum_list (map (text_tokens \<circ> sr_content) incl)) \<and>
     unat (snd (render_sections show_score m rs (body, budget))) =
       unat budget + sum_list (map (\<lambda>r. unat (text_tokens (sr_content r))) incl) \<and>
     unat (snd (render_sections show_score m rs (body, budget))) \<le> unat m \<and>
     (\<forall>r\<in>set rs. r \<in> set incl \<or>
        unat m < unat (snd (render_sections show_score m rs (body, budget))) + unat (text_tokens (sr_content r)))"
  using b
proof (induction rs arbitrary: body budget)
  case Nil
  then show ?case by (intro exI [of _ "[]"]) simp
next
  case (Cons r rs)
  let ?t = "text_tokens (sr_content r)"
  have add: "unat (budget + ?t) = unat budget + unat ?t"
    using Cons.prems m text_tokens_bound [of "sr_content r"] by (simp add: unat_word_ariths(1))
  show ?case
  proof (cases "0 < ?t \<and> m < budget + ?t")
    case True
    from Cons.IH [OF Cons.prems, of body] obtain incl where incl:
      "subseq incl rs"
      "render_sections show_score m rs (body, budget) =
         (body @ concat (map (context_section show_score) incl), budget + sum_list (map (text_tokens \<circ> sr_content) incl))"
      "unat (snd (render_sections show_score m rs (body, budget))) =
         unat budget + sum_list (map (\<lambda>r. unat (text_tokens (sr_content r))) incl)"
      "unat (snd (render_sections show_score m rs (body, budget))) \<le> unat m"
      "\<forall>r\<in>set rs. r \<in> set incl \<or>
         unat m < unat (snd (render_sections show_score m rs (body, budget))) + unat (text_tokens (sr_content r))"
      by blast
    have "unat m < unat budget + unat ?t" using True add by (simp add: word_less_nat_alt)
    then have "unat m < unat (snd (render_sections show_score m rs (body, budget))) + unat ?t" unfolding incl(3) by simp
    then show ?thesis using True incl by (intro exI [of _ incl]) (auto simp: comp_def)
  next
    case False
    have "unat (budget + ?t) \<le> unat m"
    proof (cases "?t = 0")
      case False
      then have "\<not> m < budget + ?t" using \<open>\<not> (0 < ?t \<and> m < budget + ?t)\<close> by (simp add: word_neq_0_conv)
      then show ?thesis by (simp add: word_less_nat_alt)
    qed (use Cons.prems in simp)
    from Cons.IH [OF this, of "body @ context_section show_score r"] obtain incl where incl:
      "subseq incl rs"
      "render_sections show_score m rs (body @ context_section show_score r, budget + ?t) =
         ((body @ context_section show_score r) @ concat (map (context_section show_score) incl),
          budget + ?t + sum_list (map (text_tokens \<circ> sr_content) incl))"
      "unat (snd (render_sections show_score m rs (body @ context_section show_score r, budget + ?t))) =
         unat (budget + ?t) + sum_list (map (\<lambda>r. unat (text_tokens (sr_content r))) incl)"
      "unat (snd (render_sections show_score m rs (body @ context_section show_score r, budget + ?t))) \<le> unat m"
      "\<forall>r'\<in>set rs. r' \<in> set incl \<or>
         unat m < unat (snd (render_sections show_score m rs (body @ context_section show_score r, budget + ?t))) +
           unat (text_tokens (sr_content r'))"
      by blast
    have eq: "render_sections show_score m (r # rs) (body, budget) =
        render_sections show_score m rs (body @ context_section show_score r, budget + ?t)"
      using False by (auto simp: Let_def)
    show ?thesis
      unfolding eq using incl add by (intro exI [of _ "r # incl"]) (auto simp: add.assoc comp_def)
  qed
qed

lemma split_summary_budget_spec:
  assumes "split_summary_budget m ratio q = (t, c)"
  shows "t + c = m \<and> t \<le> q \<and> (1 < m \<longrightarrow> 1 \<le> c) \<and> (0 \<le> ratio \<longrightarrow> real t \<le> real m * ratio)"
proof -
  have floor: "real (nat \<lfloor>real m * ratio\<rfloor>) \<le> real m * ratio" if "0 \<le> ratio" for ratio
    using that by (simp add: of_nat_nat)
  show ?thesis
  proof (cases "m \<le> 1 \<or> ratio \<le> 0")
    case True
    then have "t = 0" "c = m" using assms by (auto simp: split_summary_budget_def)
    then show ?thesis by auto
  next
    case False
    let ?want = "nat \<lfloor>real m * ratio\<rfloor>"
    let ?t = "if m \<le> min ?want q then m - 1 else min ?want q"
    have t: "t = ?t" "c = m - t"
      using assms False by (auto simp: split_summary_budget_def Let_def split: if_splits)
    have "t \<le> ?want" "t \<le> q" "t < m" unfolding t(1) using False by auto
    moreover have "real ?want \<le> real m * ratio" using floor [of ratio] False by simp
    ultimately have "real t \<le> real m * ratio" by linarith
    then show ?thesis using t(2) False \<open>t \<le> q\<close> \<open>t < m\<close> by simp
  qed
qed

section \<open>Properties\<close>

text \<open>
  A context assembled under a token budget is estimated within it, the truncated last chunk
  included, as long as no single estimate can overflow the 32-bit counter.
\<close>

theorem token_budget_kept:
  assumes "\<And>c. c \<in> set chunks \<Longrightarrow> unat (estimate_tokens (cw_content c)) + unat max_tokens < 2 ^ 32"
  shows "tokens_sum (apply_token_budget chunks max_tokens 0 results) \<le> unat max_tokens"
  using apply_token_budget_sum [OF assms, where used = 0 and results = results] by simp

lemma token_budget_kept_witness:
  "tokens_sum (apply_token_budget (load_chunks [(1, 1), (2, 1)] demo_index) 1 0 [(1, 1), (2, 1)]) \<le> 1"
proof -
  have "list_all (\<lambda>c. length (cw_content c) = 1) (load_chunks [(1, 1), (2, 1)] demo_index)" by code_simp
  then have one: "length (cw_content c) = 1" if "c \<in> set (load_chunks [(1, 1), (2, 1)] demo_index)" for c
    using that by (auto simp: list_all_iff)
  have small: "unat (estimate_tokens (cw_content c)) + unat (1 :: u32) < 2 ^ 32"
    if "c \<in> set (load_chunks [(1, 1), (2, 1)] demo_index)" for c
  proof -
    have "length (split_whitespace (cw_content c)) \<le> 1"
      using length_split_whitespace [of "cw_content c"] one [OF that] by simp
    then have "nat \<lceil>real (length (split_whitespace (cw_content c))) * (13/10)\<rceil> \<le> 2" by (simp add: nat_le_iff ceiling_le_iff)
    then have "unat (estimate_tokens (cw_content c)) \<le> 2" unfolding unat_estimate by (rule min.coboundedI2)
    then show ?thesis by simp
  qed
  from token_budget_kept [OF small, of _ "[(1, 1), (2, 1)]"] show ?thesis by (simp del: apply_token_budget.simps)
qed

text \<open>
  The context of a task holds the header and the sections of some of the candidates in
  order. The reported total is the sum of their token counts and within the budget, and a
  candidate that was left out would not fit in what remains.
\<close>

theorem render_context_budget:
  assumes "unat max_tokens \<le> 2 ^ 32 - 2 ^ 30" and "render_context show_score candidates max_tokens = (body, tokens)"
  shows "\<exists>incl. subseq incl candidates \<and>
     body = context_header @ concat (map (context_section show_score) incl) \<and>
     unat tokens = sum_list (map (\<lambda>r. unat (text_tokens (sr_content r))) incl) \<and> unat tokens \<le> unat max_tokens \<and>
     (\<forall>r\<in>set candidates. r \<in> set incl \<or> unat max_tokens < unat tokens + unat (text_tokens (sr_content r)))"
proof -
  from render_sections_spec [OF assms(1), of 0 candidates show_score context_header] obtain incl where
    "subseq incl candidates"
    "render_sections show_score max_tokens candidates (context_header, 0) =
       (context_header @ concat (map (context_section show_score) incl), sum_list (map (text_tokens \<circ> sr_content) incl))"
    "unat (snd (render_sections show_score max_tokens candidates (context_header, 0))) =
       sum_list (map (\<lambda>r. unat (text_tokens (sr_content r))) incl)"
    "unat (snd (render_sections show_score max_tokens candidates (context_header, 0))) \<le> unat max_tokens"
    "\<forall>r\<in>set candidates. r \<in> set incl \<or>
       unat max_tokens < unat (snd (render_sections show_score max_tokens candidates (context_header, 0))) +
         unat (text_tokens (sr_content r))"
    by auto
  then show ?thesis using assms(2) unfolding render_context_def by (intro exI [of _ incl]) simp
qed

definition demo_result :: "string \<Rightarrow> search_result" where
  "demo_result t = \<lparr>sr_chunk = 1, sr_score = 1, sr_file = ''a'', sr_line_start = 1, sr_line_end = 1, sr_content = t,
     sr_language = None, sr_epoch = 0, sr_created_by = None, sr_model = None, sr_version = 1\<rparr>"

lemma render_context_budget_witness:
  "unat (snd (render_context (\<lambda>_. ''1'') [demo_result ''12345678'', demo_result ''1234''] 2)) \<le> 2"
proof -
  obtain body tokens where r: "render_context (\<lambda>_. ''1'') [demo_result ''12345678'', demo_result ''1234''] 2 = (body, tokens)"
    by fastforce
  have "unat (2 :: u32) \<le> 2 ^ 32 - 2 ^ 30" by simp
  from render_context_budget [OF this r] show ?thesis unfolding r by auto
qed

text \<open>
  The slots of an answer: summaries and chunks share \<open>max_results\<close> exactly, summaries take
  at most their ratio and never the last slot, and only as many as qualify. Without a
  qualifying summary the chunk candidates are passed on uncut, whatever their number.
\<close>

theorem result_slots:
  fixes summaries :: "('s \<times> real) list" and candidates :: "'c list"
  assumes "1 < max_results"
    and "unify_results summary_ratio min_score max_results (Some summaries) candidates = (cs, ss)"
  shows "if ss = [] then cs = candidates
    else length cs \<le> max_results - length ss \<and> cs = take (max_results - length ss) candidates \<and>
      1 \<le> max_results - length ss \<and> real (length ss) \<le> real max_results * clamp 0 1 summary_ratio \<and>
      ss = take (length ss) (map fst (filter (\<lambda>(_, score). min_score \<le> score) summaries))"
proof -
  let ?ratio = "clamp 0 1 summary_ratio" and ?q = "filter (\<lambda>(_, score). min_score \<le> score) summaries"
  obtain t c where tc: "split_summary_budget max_results ?ratio (length ?q) = (t, c)" by fastforce
  note spec = split_summary_budget_spec [OF tc]
  show ?thesis
  proof (cases "0 < ?ratio \<and> 0 < t")
    case True
    then have "cs = take c candidates" "ss = map fst (take t ?q)"
      using assms tc by (auto simp: unify_results_def Let_def)
    moreover have "length (map fst (take t ?q)) = t" using spec by simp
    moreover have "max_results - t = c" using spec by linarith
    ultimately show ?thesis using True spec assms(1) by (auto simp: take_map)
  next
    case False
    then have "ss = [] \<and> cs = candidates"
      using assms tc by (auto simp: unify_results_def Let_def split: if_splits)
    then show ?thesis by simp
  qed
qed

lemma result_slots_witness:
  "unify_results (1/2) (1/2) 4 (Some [(''s'', 1)]) [1::nat, 2, 3, 4, 5] = ([1, 2, 3], [''s''])"
proof -
  obtain cs ss where u: "unify_results (1/2) (1/2) 4 (Some [(''s'', 1::real)]) [1::nat, 2, 3, 4, 5] = (cs, ss)" by fastforce
  have ss: "ss = [''s'']"
    using u by (simp add: unify_results_def split_summary_budget_def clamp_def Let_def)
  with result_slots [OF _ u] have "cs = [1, 2, 3]" by simp
  then show ?thesis using u ss by simp
qed

end
