(* ===== verification/Vector_Space.thy ===== *)
theory Vector_Space
  imports Search_Tiers Qa_Cache Rlm_Nodes
begin

text \<open>
  The single-file vector spaces of questions, summaries and explorations with their debounced
  persistence (\<^verbatim>\<open>crates/arags-storage/src/vector_space.rs\<close>), and the rebuild of the spaces at
  start-up (\<^verbatim>\<open>crates/arags-server/src/bootstrap.rs\<close>). The nearest neighbour search of
  usearch is an argument; \<open>ok\<close> says whether a write of the index file succeeds and \<open>now\<close> is
  the monotonic clock in milliseconds. Lemmas: a clean space is the one on disk; a rebuild
  gives exactly the vectors of the table; what the start-up does to retired chunks.
\<close>

section \<open>A space and its file\<close>

record space_store =
  sp_dims :: nat
  sp_entries :: "(row_id \<times> embedding) list"
  sp_disk :: "(nat \<times> (row_id \<times> embedding) list) option"
  sp_auto :: bool
  sp_dirty :: bool
  sp_last_save :: "nat option"

definition save_debounce_ms :: nat where
  "save_debounce_ms = 2000"

definition open_space :: "nat \<Rightarrow> bool \<Rightarrow> (nat \<times> (row_id \<times> embedding) list) option \<Rightarrow> space_store" where
  "open_space dims auto_persist disk =
     (case disk of
        Some (d, es) \<Rightarrow> \<lparr>sp_dims = d, sp_entries = es, sp_disk = disk, sp_auto = auto_persist, sp_dirty = False, sp_last_save = None\<rparr>
      | None \<Rightarrow> \<lparr>sp_dims = dims, sp_entries = [], sp_disk = None, sp_auto = auto_persist, sp_dirty = False, sp_last_save = None\<rparr>)"

definition do_save :: "bool \<Rightarrow> space_store \<Rightarrow> space_store option" where
  "do_save ok s = (if ok then Some (s\<lparr>sp_disk := Some (sp_dims s, sp_entries s)\<rparr>) else None)"

definition persist_space :: "nat \<Rightarrow> bool \<Rightarrow> space_store \<Rightarrow> space_store \<times> bool" where
  "persist_space now ok s =
     (if \<not> sp_dirty s then (s, True)
      else case do_save ok s of
        None \<Rightarrow> (s, False)
      | Some s' \<Rightarrow> (s'\<lparr>sp_dirty := False, sp_last_save := Some now\<rparr>, True))"

definition mark_dirty :: "nat \<Rightarrow> bool \<Rightarrow> space_store \<Rightarrow> space_store" where
  "mark_dirty now ok s =
     (let s = s\<lparr>sp_dirty := True\<rparr>
      in if \<not> sp_auto s then s
         else let due = (case sp_last_save s of Some saved \<Rightarrow> save_debounce_ms \<le> now - saved | None \<Rightarrow> True)
              in if due then fst (persist_space now ok s) else s)"

definition insert_space :: "nat \<Rightarrow> bool \<Rightarrow> row_id \<Rightarrow> embedding \<Rightarrow> space_store \<Rightarrow> space_store \<times> bool" where
  "insert_space now ok i v s =
     (if length v \<noteq> sp_dims s then (s, False)
      else (mark_dirty now ok (s\<lparr>sp_entries := filter (\<lambda>e. fst e \<noteq> i) (sp_entries s) @ [(i, v)]\<rparr>), True))"

definition delete_space :: "nat \<Rightarrow> bool \<Rightarrow> row_id \<Rightarrow> space_store \<Rightarrow> space_store" where
  "delete_space now ok i s = mark_dirty now ok (s\<lparr>sp_entries := filter (\<lambda>e. fst e \<noteq> i) (sp_entries s)\<rparr>)"

definition clear_space :: "nat \<Rightarrow> bool \<Rightarrow> space_store \<Rightarrow> space_store \<times> bool" where
  "clear_space now ok s = persist_space now ok (s\<lparr>sp_entries := [], sp_dirty := True\<rparr>)"

definition space_len :: "space_store \<Rightarrow> nat" where
  "space_len s = length (sp_entries s)"

text \<open>\<open>ann\<close> gives keys and cosine distances, nearest first, or fails.\<close>

type_synonym space_ann = "embedding \<Rightarrow> (row_id \<times> embedding) list \<Rightarrow> nat \<Rightarrow> (row_id \<times> real) list option"

definition search_space :: "space_ann \<Rightarrow> embedding \<Rightarrow> nat \<Rightarrow> space_store \<Rightarrow> (row_id \<times> real) list option" where
  "search_space ann query limit s =
     (if space_len s = 0 then Some []
      else map_option (map (\<lambda>(i, dist). (i, clamp 0 1 (1 - dist)))) (ann query (sp_entries s) limit))"

definition flush_space :: "nat \<Rightarrow> bool \<Rightarrow> space_store \<Rightarrow> space_store" where
  "flush_space now ok s = (if sp_dirty s then fst (persist_space now ok s) else s)"

section \<open>Rebuilding at start-up\<close>

record space_report =
  rp_rebuilt :: bool
  rp_sqlite :: nat
  rp_vectors :: nat
  rp_skipped :: bool

definition bootstrap_batch :: nat where
  "bootstrap_batch = 512"

text \<open>The clock and the outcome of a write, at the insertion of a row.\<close>

type_synonym space_io = "row_id \<Rightarrow> nat \<times> bool"

definition insert_pairs :: "space_io \<Rightarrow> ((row_id \<times> string) \<times> embedding) list \<Rightarrow> space_store \<Rightarrow> space_store" where
  "insert_pairs io pairs s =
     fold (\<lambda>((i, _), v) s. fst (insert_space (fst (io i)) (snd (io i)) i v s)) pairs s"

fun rebuild_batches ::
  "(string list \<Rightarrow> embedding list option) \<Rightarrow> space_io \<Rightarrow> (row_id \<times> string) list list \<Rightarrow> space_store \<Rightarrow> space_store" where
  "rebuild_batches embed_batch io [] s = s"
| "rebuild_batches embed_batch io (batch # rest) s =
     (case embed_batch (map snd batch) of
        None \<Rightarrow> s
      | Some vectors \<Rightarrow> rebuild_batches embed_batch io rest (insert_pairs io (zip batch vectors) s))"

definition rebuild_simple_space ::
  "(string list \<Rightarrow> embedding list option) \<Rightarrow> space_io \<Rightarrow> nat \<times> bool \<Rightarrow> nat \<times> bool \<Rightarrow> (row_id \<times> string) list \<Rightarrow>
   space_store \<Rightarrow> space_store" where
  "rebuild_simple_space embed_batch io io_clear io_end inputs s =
     fst (persist_space (fst io_end) (snd io_end)
       (rebuild_batches embed_batch io (rust_chunks bootstrap_batch inputs)
         (fst (clear_space (fst io_clear) (snd io_clear) s))))"

definition bootstrap_space ::
  "(string list \<Rightarrow> embedding list option) \<Rightarrow> space_io \<Rightarrow> nat \<times> bool \<Rightarrow> nat \<times> bool \<Rightarrow> (row_id \<times> string) list \<Rightarrow>
   space_store option \<Rightarrow> space_store option \<times> space_report" where
  "bootstrap_space embed_batch io io_clear io_end inputs store =
     (case store of
        None \<Rightarrow> (None, \<lparr>rp_rebuilt = False, rp_sqlite = 0, rp_vectors = 0, rp_skipped = True\<rparr>)
      | Some vs \<Rightarrow>
          if length inputs = space_len vs
          then (Some vs, \<lparr>rp_rebuilt = False, rp_sqlite = length inputs, rp_vectors = space_len vs, rp_skipped = False\<rparr>)
          else let vs' = rebuild_simple_space embed_batch io io_clear io_end inputs vs
               in (Some vs', \<lparr>rp_rebuilt = True, rp_sqlite = length inputs, rp_vectors = space_len vs', rp_skipped = False\<rparr>))"

definition bootstrap_qa ::
  "(string list \<Rightarrow> embedding list option) \<Rightarrow> space_io \<Rightarrow> nat \<times> bool \<Rightarrow> nat \<times> bool \<Rightarrow> qa_db \<Rightarrow>
   space_store option \<Rightarrow> space_store option \<times> space_report" where
  "bootstrap_qa embed_batch io io_clear io_end db store =
     bootstrap_space embed_batch io io_clear io_end (all_qa_embed_inputs (qd_rows db)) store"

definition bootstrap_rlm ::
  "(string list \<Rightarrow> embedding list option) \<Rightarrow> space_io \<Rightarrow> nat \<times> bool \<Rightarrow> nat \<times> bool \<Rightarrow> rlm_node list \<Rightarrow>
   space_store option \<Rightarrow> space_store option \<times> space_report" where
  "bootstrap_rlm embed_batch io io_clear io_end rows store =
     bootstrap_space embed_batch io io_clear io_end (all_rlm_embed_inputs rows) store"

text \<open>The chunk space; the join reads every chunk that has a text, active or not.\<close>

definition all_chunk_embed_inputs :: "chunk_db \<Rightarrow> (row_id \<times> row_id \<times> string) list" where
  "all_chunk_embed_inputs db =
     List.map_filter (\<lambda>(i, txt). map_option (\<lambda>c. (i, ck_buffer c, txt)) (get_chunk i (cd_rows db))) (cd_texts db)"

fun chunk_entries ::
  "(string list \<Rightarrow> embedding list option) \<Rightarrow> (row_id \<times> row_id \<times> string) list list \<Rightarrow> vector_entry list" where
  "chunk_entries embed_batch [] = []"
| "chunk_entries embed_batch (batch # rest) =
     (case embed_batch (map (snd \<circ> snd) batch) of
        None \<Rightarrow> []
      | Some vectors \<Rightarrow>
          map (\<lambda>((i, b, _), v). \<lparr>ve_chunk = i, ve_buffer = b, ve_vector = v\<rparr>) (zip batch vectors) @
          chunk_entries embed_batch rest)"

text \<open>\<open>ok\<close>: whether the cleared index could be saved.\<close>

definition bootstrap_chunks ::
  "(string list \<Rightarrow> embedding list option) \<Rightarrow> bool \<Rightarrow> chunk_db \<Rightarrow> vector_store option \<Rightarrow>
   vector_store option \<times> space_report" where
  "bootstrap_chunks embed_batch ok db store =
     (case store of
        None \<Rightarrow> (None, \<lparr>rp_rebuilt = False, rp_sqlite = 0, rp_vectors = 0, rp_skipped = True\<rparr>)
      | Some vs \<Rightarrow>
          let inputs = all_chunk_embed_inputs db
          in if length inputs = length (vs_entries vs)
             then (Some vs, \<lparr>rp_rebuilt = False, rp_sqlite = length inputs, rp_vectors = length (vs_entries vs),
                             rp_skipped = False\<rparr>)
             else if \<not> ok
             then (Some (clear_vectors vs), \<lparr>rp_rebuilt = False, rp_sqlite = 0, rp_vectors = 0, rp_skipped = True\<rparr>)
             else let vs' = fst (insert_vectors (chunk_entries embed_batch (rust_chunks bootstrap_batch inputs))
                                  (clear_vectors vs))
                  in (Some vs', \<lparr>rp_rebuilt = True, rp_sqlite = length inputs, rp_vectors = length (vs_entries vs'),
                                 rp_skipped = False\<rparr>))"

section \<open>The file and the memory\<close>

definition entries_wf :: "nat \<Rightarrow> (row_id \<times> embedding) list \<Rightarrow> bool" where
  "entries_wf d es \<longleftrightarrow> distinct (map fst es) \<and> list_all (\<lambda>e. length (snd e) = d) es"

lemma entries_wf_simps [simp]:
  "entries_wf d []"
  "entries_wf d es \<Longrightarrow> entries_wf d (filter p es)"
  "entries_wf d es \<Longrightarrow> length v = d \<Longrightarrow> entries_wf d (filter (\<lambda>e. fst e \<noteq> i) es @ [(i, v)])"
  by (auto simp: entries_wf_def distinct_map_filter list_all_iff)

definition space_inv :: "space_store \<Rightarrow> bool" where
  "space_inv s \<longleftrightarrow>
     entries_wf (sp_dims s) (sp_entries s) \<and>
     (\<forall>d es. sp_disk s = Some (d, es) \<longrightarrow> d = sp_dims s) \<and>
     (\<not> sp_dirty s \<longrightarrow> sp_entries s = (case sp_disk s of Some (d, es) \<Rightarrow> es | None \<Rightarrow> []))"

lemma persist_space_eq:
  "persist_space now ok s =
     (if sp_dirty s \<and> ok then s\<lparr>sp_disk := Some (sp_dims s, sp_entries s), sp_dirty := False, sp_last_save := Some now\<rparr> else s,
      sp_dirty s \<longrightarrow> ok)"
  by (simp add: persist_space_def do_save_def)

lemma persist_space_entries [simp]:
  "sp_entries (fst (persist_space now ok s)) = sp_entries s" "sp_dims (fst (persist_space now ok s)) = sp_dims s"
  "sp_auto (fst (persist_space now ok s)) = sp_auto s"
  by (simp_all add: persist_space_eq)

lemma mark_dirty_entries [simp]:
  "sp_entries (mark_dirty now ok s) = sp_entries s" "sp_dims (mark_dirty now ok s) = sp_dims s"
  by (simp_all add: mark_dirty_def Let_def)

lemma persist_space_inv: "space_inv s \<Longrightarrow> space_inv (fst (persist_space now ok s))"
  by (auto simp: space_inv_def persist_space_eq)

text \<open>Any change of the vectors that keeps them well-formed may be marked dirty.\<close>

lemma mark_dirty_inv:
  assumes "space_inv s" and "entries_wf (sp_dims s) es"
  shows "space_inv (mark_dirty now ok (s\<lparr>sp_entries := es\<rparr>))"
proof -
  have "space_inv (s\<lparr>sp_entries := es, sp_dirty := True\<rparr>)" using assms by (auto simp: space_inv_def split: option.splits)
  then show ?thesis by (auto simp: mark_dirty_def Let_def intro: persist_space_inv)
qed

lemma insert_space_inv: "space_inv s \<Longrightarrow> space_inv (fst (insert_space now ok i v s))"
  by (auto simp: insert_space_def space_inv_def [of s] intro!: mark_dirty_inv)

lemma delete_space_inv: "space_inv s \<Longrightarrow> space_inv (delete_space now ok i s)"
  by (auto simp: delete_space_def space_inv_def [of s] intro!: mark_dirty_inv)

lemma clear_space_inv: "space_inv s \<Longrightarrow> space_inv (fst (clear_space now ok s))"
  unfolding clear_space_def by (rule persist_space_inv) (auto simp: space_inv_def)

text \<open>The states a space may be in after it was opened on a new file.\<close>

inductive space_reachable :: "space_store \<Rightarrow> bool" where
  sr_open: "space_reachable (open_space dims auto_persist None)"
| sr_insert: "space_reachable s \<Longrightarrow> space_reachable (fst (insert_space now ok i v s))"
| sr_delete: "space_reachable s \<Longrightarrow> space_reachable (delete_space now ok i s)"
| sr_clear: "space_reachable s \<Longrightarrow> space_reachable (fst (clear_space now ok s))"
| sr_persist: "space_reachable s \<Longrightarrow> space_reachable (fst (persist_space now ok s))"
| sr_restart: "space_reachable s \<Longrightarrow> space_reachable (open_space dims auto_persist (sp_disk s))"

text \<open>A restart may lose unsaved vectors, so the file's own vectors are kept well-formed as well.\<close>

definition disk_inv :: "space_store \<Rightarrow> bool" where
  "disk_inv s \<longleftrightarrow> (\<forall>d es. sp_disk s = Some (d, es) \<longrightarrow>
     entries_wf d es)"

lemma persist_disk_inv: "space_inv s \<Longrightarrow> disk_inv s \<Longrightarrow> disk_inv (fst (persist_space now ok s))"
  by (auto simp: persist_space_eq disk_inv_def space_inv_def)

lemma mark_dirty_disk_inv:
  assumes "space_inv s" "disk_inv s" and "entries_wf (sp_dims s) es"
  shows "disk_inv (mark_dirty now ok (s\<lparr>sp_entries := es\<rparr>))"
proof -
  have "space_inv (s\<lparr>sp_entries := es, sp_dirty := True\<rparr>)" "disk_inv (s\<lparr>sp_entries := es, sp_dirty := True\<rparr>)"
    using assms by (auto simp: space_inv_def disk_inv_def split: option.splits)
  then show ?thesis by (auto simp: mark_dirty_def Let_def intro: persist_disk_inv)
qed

lemma space_reachable_inv: "space_reachable s \<Longrightarrow> space_inv s \<and> disk_inv s"
proof (induction rule: space_reachable.induct)
  case (sr_insert s now ok i v)
  then show ?case
    by (auto simp: insert_space_inv) (auto simp: insert_space_def space_inv_def [of s] intro!: mark_dirty_disk_inv)
next
  case (sr_delete s now ok i)
  then show ?case
    by (auto simp: delete_space_inv) (auto simp: delete_space_def space_inv_def [of s] intro!: mark_dirty_disk_inv)
next
  case (sr_clear s now ok)
  have "disk_inv (fst (clear_space now ok s))" unfolding clear_space_def
    by (rule persist_disk_inv) (use sr_clear in \<open>auto simp: space_inv_def disk_inv_def\<close>)
  then show ?case using sr_clear clear_space_inv by blast
next
  case (sr_persist s now ok)
  then show ?case using persist_space_inv persist_disk_inv by blast
next
  case (sr_restart s dims auto_persist)
  then show ?case by (auto simp: open_space_def space_inv_def disk_inv_def split: option.splits)
qed (simp add: open_space_def space_inv_def disk_inv_def)

section \<open>Rebuilding\<close>

lemma insert_pairs_entries:
  assumes "distinct (map fst (sp_entries s) @ map (fst \<circ> fst) pairs)" and "\<forall>p\<in>set pairs. length (snd p) = sp_dims s"
  shows "sp_entries (insert_pairs io pairs s) = sp_entries s @ map (\<lambda>((i, _), v). (i, v)) pairs \<and>
    sp_dims (insert_pairs io pairs s) = sp_dims s"
  using assms
proof (induction pairs arbitrary: s)
  case (Cons p pairs)
  obtain i x v where p: "p = ((i, x), v)" by (metis prod.exhaust)
  let ?s = "fst (insert_space (fst (io i)) (snd (io i)) i v s)"
  have "filter (\<lambda>e. fst e \<noteq> i) (sp_entries s) = sp_entries s" using Cons.prems p by (intro filter_True) force
  then have s: "sp_entries ?s = sp_entries s @ [(i, v)]" "sp_dims ?s = sp_dims s"
    using Cons.prems p by (simp_all add: insert_space_def)
  from Cons.IH [of ?s] Cons.prems show ?case unfolding p insert_pairs_def fold_Cons comp_def case_prod_conv
    by (simp add: s insert_pairs_def)
qed (simp add: insert_pairs_def)

definition embeds_by :: "(string \<Rightarrow> embedding) \<Rightarrow> nat \<Rightarrow> (string list \<Rightarrow> embedding list option) \<Rightarrow> bool" where
  "embeds_by e dims embed_batch \<longleftrightarrow> (\<forall>ts. embed_batch ts = Some (map e ts)) \<and> (\<forall>t. length (e t) = dims)"

lemma rebuild_batches_entries:
  assumes "embeds_by e (sp_dims s) embed_batch" and "distinct (map fst (sp_entries s) @ map fst (concat batches))"
  shows "sp_entries (rebuild_batches embed_batch io batches s) = sp_entries s @ map (\<lambda>(i, t). (i, e t)) (concat batches)"
  using assms
proof (induction batches arbitrary: s)
  case (Cons batch batches)
  let ?pairs = "zip batch (map e (map snd batch))"
  have zip: "?pairs = map (\<lambda>b. (b, e (snd b))) batch" by (simp add: zip_map2 zip_same_conv_map comp_def)
  have in_zip: "length (snd p) = sp_dims s" if "p \<in> set ?pairs" for p
    using that Cons.prems(1) unfolding zip by (auto simp: embeds_by_def)
  have fst_zip: "map (fst \<circ> fst) ?pairs = map fst batch" unfolding zip by (simp add: comp_def)
  have "sp_entries (insert_pairs io ?pairs s) = sp_entries s @ map (\<lambda>((i, _), v). (i, v)) ?pairs \<and>
      sp_dims (insert_pairs io ?pairs s) = sp_dims s"
    by (rule insert_pairs_entries) (use Cons.prems(2) in_zip in \<open>auto simp: fst_zip simp del: map_map\<close>)
  then have s: "sp_entries (insert_pairs io ?pairs s) = sp_entries s @ map (\<lambda>(i, t). (i, e t)) batch"
      "sp_dims (insert_pairs io ?pairs s) = sp_dims s"
    unfolding zip by (auto simp: comp_def case_prod_beta)
  have "sp_entries (rebuild_batches embed_batch io batches (insert_pairs io ?pairs s)) =
      sp_entries (insert_pairs io ?pairs s) @ map (\<lambda>(i, t). (i, e t)) (concat batches)"
    by (rule Cons.IH) (use Cons.prems s in \<open>auto simp: comp_def case_prod_beta\<close>)
  moreover have "embed_batch (map snd batch) = Some (map e (map snd batch))"
    using Cons.prems(1) unfolding embeds_by_def by blast
  ultimately show ?case using s(1) by simp
qed simp

lemma chunk_entries_all:
  assumes "embeds_by e dims embed_batch"
  shows "chunk_entries embed_batch batches =
    map (\<lambda>(i, b, t). \<lparr>ve_chunk = i, ve_buffer = b, ve_vector = e t\<rparr>) (concat batches)"
  using assms by (induction batches) (auto simp: embeds_by_def zip_map2 zip_same_conv_map comp_def case_prod_beta)

lemma insert_vectors_ids:
  assumes "\<forall>x\<in>set es. length (ve_vector x) = vs_dims vs"
  shows "ve_chunk ` set (vs_entries (fst (insert_vectors es vs))) = ve_chunk ` set (vs_entries vs) \<union> ve_chunk ` set es"
  using assms
proof (induction es vs rule: insert_vectors.induct)
  case (2 e es vs)
  have "ve_chunk ` set (put_vector e (vs_entries vs)) = insert (ve_chunk e) (ve_chunk ` set (vs_entries vs))"
    by (auto simp: put_vector_def)
  then show ?case using 2 by auto
qed simp

lemma chunk_inputs_ids:
  assumes "fst ` set texts \<subseteq> ck_id ` set rows"
  shows "map fst (List.map_filter (\<lambda>(i, txt). map_option (\<lambda>c. (i, ck_buffer c, txt)) (get_chunk i rows)) texts) = map fst texts"
  using assms
proof (induction texts)
  case (Cons t texts)
  obtain i x where t: "t = (i, x)" by (cases t)
  have "get_chunk i rows \<noteq> None" using Cons.prems t by (auto simp: get_chunk_def find_None_iff)
  then show ?case using Cons t by (auto simp: map_filter_simps)
qed (simp add: map_filter_simps)

lemma bootstrap_Some:
  "\<exists>vs' report. bootstrap_qa embed_batch io io_clear io_end db (Some vs) = (Some vs', report)"
  "\<exists>cs' report. bootstrap_chunks embed_batch ok cdb (Some cs) = (Some cs', report)"
  by (simp_all add: bootstrap_qa_def bootstrap_space_def bootstrap_chunks_def Let_def)

section \<open>Properties\<close>

text \<open>
  C19: Whatever was written to a space, a save that succeeds followed by a restart gives back the
  same vectors under the same ids, with the dimensionality of the file.
\<close>

theorem space_reopen:
  assumes "space_reachable s" and "persist_space now ok s = (s', True)"
  shows "sp_entries (open_space dims auto_persist (sp_disk s')) = sp_entries s \<and>
    (sp_entries s \<noteq> [] \<longrightarrow> sp_dims (open_space dims auto_persist (sp_disk s')) = sp_dims s)"
proof -
  have "space_inv s" using space_reachable_inv [OF assms(1)] by simp
  then show ?thesis using assms(2)
    by (auto simp: persist_space_eq open_space_def space_inv_def split: if_splits option.splits)
qed

lemma space_reopen_witness:
  "sp_entries (open_space 3 True (sp_disk (fst (persist_space 5 True (fst (insert_space 0 True 7 [1, 0] (open_space 2 True None))))))) = [(7, [1, 0])]"
proof -
  have "space_reachable (fst (insert_space 0 True 7 [1, 0] (open_space 2 True None)))"
    by (intro space_reachable.intros)
  moreover obtain s' where "persist_space 5 True (fst (insert_space 0 True 7 [1, 0] (open_space 2 True None))) = (s', True)"
    by (simp add: persist_space_eq)
  ultimately show ?thesis
    using space_reopen [of "fst (insert_space 0 True 7 [1, 0] (open_space 2 True None))" 5 True s' 3 True]
    by (simp add: insert_space_def open_space_def)
qed

text \<open>
  A question space whose size differs from the cache is rebuilt at start-up into exactly one
  vector for every cached question, under its row id; one of equal size is left as it is,
  whatever it holds.
\<close>

theorem bootstrap_qa_exact:
  assumes "embeds_by e (sp_dims vs) embed_batch" and "distinct (map qa_id (qd_rows db))"
    and "bootstrap_qa embed_batch io io_clear io_end db (Some vs) = (Some vs', report)"
  shows "if length (qd_rows db) = space_len vs then vs' = vs \<and> \<not> rp_rebuilt report
    else sp_entries vs' = map (\<lambda>r. (qa_id r, e (qa_question r))) (qd_rows db) \<and> rp_rebuilt report \<and>
      rp_vectors report = rp_sqlite report"
proof -
  let ?in = "all_qa_embed_inputs (qd_rows db)" and ?s = "fst (clear_space (fst io_clear) (snd io_clear) vs)"
  have s: "sp_entries ?s = []" "sp_dims ?s = sp_dims vs" by (simp_all add: clear_space_def)
  have cat: "concat (rust_chunks bootstrap_batch ?in) = ?in" by (rule concat_rust_chunks) (simp add: bootstrap_batch_def)
  have "sp_entries (rebuild_batches embed_batch io (rust_chunks bootstrap_batch ?in) ?s) =
      sp_entries ?s @ map (\<lambda>(i, t). (i, e t)) (concat (rust_chunks bootstrap_batch ?in))"
    by (rule rebuild_batches_entries)
      (use assms(1,2) in \<open>simp_all only: s cat, simp_all add: all_qa_embed_inputs_def comp_def\<close>)
  then have "sp_entries (rebuild_simple_space embed_batch io io_clear io_end ?in vs) =
      map (\<lambda>r. (qa_id r, e (qa_question r))) (qd_rows db)"
    unfolding s(1) cat by (simp add: rebuild_simple_space_def all_qa_embed_inputs_def comp_def)
  then show ?thesis using assms(3)
    by (auto simp: bootstrap_qa_def bootstrap_space_def Let_def all_qa_embed_inputs_def space_len_def split: if_splits)
qed

text \<open>
  The start-up puts retired revisions back into the chunk space. An index pass keeps the
  vectors of the active chunks only, the count it is compared with includes every chunk that
  still has its text, so once a chunk was retired the space is rebuilt with the vectors of all
  of them, the retired ones too.
\<close>

theorem bootstrap_revives_retired:
  assumes "embeds_by e (vs_dims vs) embed_batch"
    and rows: "rows_wf ck_id (cd_rows db)" "map fst (cd_texts db) = map ck_id (cd_rows db)"
    and "ve_chunk ` set (vs_entries vs) = active_ids (cd_rows db)" "vectors_wf vs"
    and c: "c \<in> set (cd_rows db)" "\<not> ck_active c"
    and boot: "bootstrap_chunks embed_batch True db (Some vs) = (Some vs', report)"
  shows "rp_rebuilt report \<and> (\<exists>v\<in>set (vs_entries vs'). ve_chunk v = ck_id c)"
proof -
  let ?in = "all_chunk_embed_inputs db"
  have ids: "map fst ?in = map ck_id (cd_rows db)"
  proof -
    have "fst ` set (cd_texts db) \<subseteq> ck_id ` set (cd_rows db)" using arg_cong [OF rows(2), of set] by simp
    from chunk_inputs_ids [OF this] show ?thesis unfolding all_chunk_embed_inputs_def rows(2) .
  qed
  have d: "distinct (map ck_id (cd_rows db))" using rows(1) by (simp add: rows_wf_def)
  have "length (vs_entries vs) = card (active_ids (cd_rows db))"
    using assms(4,5) by (metis distinct_card length_map list.set_map vectors_wf_def)
  moreover have "active_ids (cd_rows db) \<subset> ck_id ` set (cd_rows db)"
    using c rows_wf_inj [OF rows(1)] by (fastforce simp: active_ids_def)
  then have "card (active_ids (cd_rows db)) < card (ck_id ` set (cd_rows db))" by (intro psubset_card_mono) auto
  moreover have "card (ck_id ` set (cd_rows db)) = length ?in"
    using distinct_card [OF d] arg_cong [OF ids, of length] by simp
  ultimately have ne: "length ?in \<noteq> length (vs_entries vs)" by linarith
  have cat: "concat (rust_chunks bootstrap_batch ?in) = ?in" by (rule concat_rust_chunks) (simp add: bootstrap_batch_def)
  let ?es = "chunk_entries embed_batch (rust_chunks bootstrap_batch ?in)"
  have vs': "vs' = fst (insert_vectors ?es (clear_vectors vs))" "rp_rebuilt report"
    using boot ne by (auto simp: bootstrap_chunks_def Let_def)
  have es: "?es = map (\<lambda>(i, b, t). \<lparr>ve_chunk = i, ve_buffer = b, ve_vector = e t\<rparr>) ?in"
    unfolding chunk_entries_all [OF assms(1)] cat ..
  have "ve_chunk ` set (vs_entries vs') = ve_chunk ` set ?es"
    unfolding vs'(1) by (subst insert_vectors_ids)
      (use assms(1) in \<open>auto simp: es embeds_by_def clear_vectors_def\<close>)
  also have "\<dots> = set (map fst ?in)" unfolding es by force
  finally have "ck_id c \<in> ve_chunk ` set (vs_entries vs')" using c(1) by (simp add: ids)
  then show ?thesis using vs'(2) by force
qed

lemma bootstrap_qa_exact_witness:
  "sp_entries (the (fst (bootstrap_qa (\<lambda>ts. Some (map (\<lambda>_. [1, 0]) ts)) (\<lambda>_. (0, True)) (0, True) (0, True)
     (fst (store_answer ''c'' (demo_answer 1 ''q'' ''a'') 0 \<lparr>qd_rows = [], qd_jobs = []\<rparr>)) (Some (open_space 2 True None))))) = [(1, [1, 0])]"
proof -
  let ?em = "\<lambda>ts. Some (map (\<lambda>_. [1, 0::real]) ts)" and ?vs = "open_space 2 True None"
    and ?db = "fst (store_answer ''c'' (demo_answer 1 ''q'' ''a'') 0 \<lparr>qd_rows = [], qd_jobs = []\<rparr>)"
  obtain vs' report where b: "bootstrap_qa ?em (\<lambda>_. (0, True)) (0, True) (0, True) ?db (Some ?vs) = (Some vs', report)"
    using bootstrap_Some(1) by blast
  have rows: "map qa_id (qd_rows ?db) = [1]"
    by (simp add: store_answer_def store_answer_inner_def next_rowid_Nil)
  have "embeds_by (\<lambda>_. [1, 0]) (sp_dims ?vs) ?em" by (simp add: embeds_by_def open_space_def)
  from bootstrap_qa_exact [OF this _ b] rows
  have "sp_entries vs' = map (\<lambda>r. (qa_id r, [1, 0])) (qd_rows ?db)"
    by (auto simp: open_space_def space_len_def dest: arg_cong [of _ _ length] split: if_splits)
  also have "\<dots> = map (\<lambda>i. (i, [1, 0])) (map qa_id (qd_rows ?db))" by (simp add: comp_def)
  finally show ?thesis unfolding b rows by simp
qed

lemma bootstrap_revives_retired_witness:
  "\<exists>vs' report. bootstrap_chunks (\<lambda>ts. Some (map (\<lambda>_. [1, 0]) ts)) True
       (fst (insert_chunks_batched (\<lambda>_ _. []) 2 1 [(''a.rs'', demo_chunk ''n'' ''62'')] 10 {(''a.rs'', 1, 2)} None None
          (fst (insert_chunks_batched (\<lambda>_ _. []) 1 1 [(''a.rs'', demo_chunk ''o'' ''61'')] 10 {} None None empty_chunks))))
       (Some \<lparr>vs_dims = 2, vs_entries = [\<lparr>ve_chunk = 2, ve_buffer = 1, ve_vector = [0, 1]\<rparr>]\<rparr>) = (Some vs', report) \<and>
     rp_rebuilt report \<and> (\<exists>v\<in>set (vs_entries vs'). ve_chunk v = 1)"
proof -
  let ?em = "\<lambda>ts. Some (map (\<lambda>_. [1, 0::real]) ts)"
    and ?vs = "\<lparr>vs_dims = 2, vs_entries = [\<lparr>ve_chunk = 2, ve_buffer = 1, ve_vector = [0, 1]\<rparr>]\<rparr>"
    and ?db = "fst (insert_chunks_batched (\<lambda>_ _. []) 2 1 [(''a.rs'', demo_chunk ''n'' ''62'')] 10 {(''a.rs'', 1, 2)} None None
          (fst (insert_chunks_batched (\<lambda>_ _. []) 1 1 [(''a.rs'', demo_chunk ''o'' ''61'')] 10 {} None None empty_chunks)))"
  have rows: "map (\<lambda>c. (ck_id c, ck_active c)) (cd_rows ?db) = [(1, False), (2, True)]" "map fst (cd_texts ?db) = [1, 2]"
    by code_simp+
  then obtain c d where cd: "cd_rows ?db = [c, d]" "ck_id c = 1" "\<not> ck_active c" "ck_id d = 2" "ck_active d"
    by (auto simp: map_eq_Cons_conv)
  obtain vs' report where b: "bootstrap_chunks ?em True ?db (Some ?vs) = (Some vs', report)"
    using bootstrap_Some(2) by blast
  have "{x. (x = c \<or> x = d) \<and> ck_active x} = {d}" using cd by auto
  then have active: "active_ids (cd_rows ?db) = {2}" unfolding active_ids_def cd(1) using cd(4) by simp
  have "embeds_by (\<lambda>_. [1, 0]) (vs_dims ?vs) ?em" by (simp add: embeds_by_def)
  from bootstrap_revives_retired [OF this _ _ _ _ _ _ b, of c]
  have "rp_rebuilt report \<and> (\<exists>v\<in>set (vs_entries vs'). ve_chunk v = 1)"
    using cd rows(2) active [unfolded cd(1)] by (simp add: rows_wf_def vectors_wf_def)
  then show ?thesis using b by blast
qed

end
