(* ===== verification/Confidence.thy ===== *)
theory Confidence
  imports Rust_Text Complex_Main
begin

text \<open>
  The trust model of exploration maps (\<^verbatim>\<open>crates/arags-core/src/exploration.rs\<close>): the surfacing
  classes and the composite confidence. \<open>f32\<close> values are reals, so the guard against values
  that are not finite has no part in it. Lemmas: the score lies in the unit interval and grows
  with the evidence.
\<close>

definition template_version_v1 :: string where
  "template_version_v1 = ''v1''"

definition role_cited :: string where
  "role_cited = ''cited''"

record confidence_config =
  cf_hit_high :: real
  cf_hit_low :: real
  cf_drift_weight :: real
  cf_drift_floor :: real
  cf_age_weight :: real
  cf_age_floor :: real
  cf_feedback_weight :: real
  cf_max_age_days :: real

definition default_confidence :: confidence_config where
  "default_confidence =
     \<lparr>cf_hit_high = 72/100, cf_hit_low = 55/100, cf_drift_weight = 1/10, cf_drift_floor = 1/4,
      cf_age_weight = 3/10, cf_age_floor = 4/10, cf_feedback_weight = 1/10, cf_max_age_days = 90\<rparr>"

datatype hit_class = Hit_None | Hit_Related | Hit_Strong

definition classify_hit :: "confidence_config \<Rightarrow> real \<Rightarrow> hit_class" where
  "classify_hit cfg similarity =
     (if cf_hit_high cfg \<le> similarity then Hit_Strong
      else if cf_hit_low cfg \<le> similarity then Hit_Related else Hit_None)"

definition exact_count :: "nat \<Rightarrow> real" where
  "exact_count value = real (min value (2 ^ 24))"

definition clamp01 :: "real \<Rightarrow> real" where
  "clamp01 v = max 0 (min 1 v)"

definition confidence_score :: "real \<Rightarrow> nat \<Rightarrow> nat \<Rightarrow> nat \<Rightarrow> nat \<Rightarrow> confidence_config \<Rightarrow> real" where
  "confidence_score similarity epoch_drift age_days confirmed contradicted cfg =
     (let sim = clamp01 similarity;
          drift_factor = max (1 - cf_drift_weight cfg * exact_count epoch_drift) (cf_drift_floor cfg);
          age_ratio = (if cf_max_age_days cfg \<le> 0 then 1 else exact_count age_days / cf_max_age_days cfg);
          age_factor = max (1 - cf_age_weight cfg * age_ratio) (cf_age_floor cfg);
          total = exact_count confirmed + exact_count contradicted;
          feedback = (if total = 0 then 0 else (exact_count confirmed - exact_count contradicted) / total)
      in clamp01 (sim * drift_factor * age_factor + cf_feedback_weight cfg * feedback))"

text \<open>The headings are UTF-8 bytes.\<close>

definition claim_sections :: "string list" where
  "claim_sections = [''## Conex'' @ [CHR 0xC3, CHR 0xB5] @ ''es'', ''## Mapa'']"

fun first_section :: "string \<Rightarrow> string list \<Rightarrow> string" where
  "first_section body [] = body"
| "first_section body (section # rest) =
     (case split_once section body of
        None \<Rightarrow> first_section body rest
      | Some (_, tail) \<Rightarrow>
          let stop = (case find_sub (CHR 0x0A # ''## '') tail of Some e \<Rightarrow> e | None \<Rightarrow> length tail);
              txt = trim (take stop tail)
          in if txt \<noteq> [] then txt else first_section body rest)"

definition claim_text :: "string \<Rightarrow> string" where
  "claim_text body_markdown =
     (let body = trim body_markdown in if body = [] then [] else first_section body claim_sections)"

section \<open>Evidence\<close>

lemma exact_count_mono: "m \<le> n \<Longrightarrow> exact_count m \<le> exact_count n"
  unfolding exact_count_def by (intro of_nat_mono) simp

lemma exact_count_nonneg [simp]: "0 \<le> exact_count n"
  by (simp add: exact_count_def)

lemma clamp01_range: "0 \<le> clamp01 v" "clamp01 v \<le> 1"
  by (simp_all add: clamp01_def)

lemma clamp01_mono: "u \<le> v \<Longrightarrow> clamp01 u \<le> clamp01 v"
  by (simp add: clamp01_def)

definition feedback_term :: "real \<Rightarrow> real \<Rightarrow> real" where
  "feedback_term c d = (if c + d = 0 then 0 else (c - d) / (c + d))"

lemma feedback_range: "0 \<le> c \<Longrightarrow> 0 \<le> d \<Longrightarrow> - 1 \<le> feedback_term c d \<and> feedback_term c d \<le> 1"
  by (auto simp: feedback_term_def field_simps)

lemma feedback_mono:
  assumes "0 \<le> c" "c \<le> c'" "0 \<le> d'" "d' \<le> d"
  shows "feedback_term c d \<le> feedback_term c' d'"
proof -
  consider "c + d = 0" | "c' + d' = 0" | "0 < c + d" "0 < c' + d'" using assms by fastforce
  then show ?thesis
  proof cases
    case 3
    have "c * d' \<le> c' * d" using assms by (intro mult_mono) auto
    then show ?thesis using 3 by (simp add: feedback_term_def divide_le_eq le_divide_eq field_simps)
  qed (use assms in \<open>auto simp: feedback_term_def field_simps\<close>)
qed

definition weights_ok :: "confidence_config \<Rightarrow> bool" where
  "weights_ok cfg \<longleftrightarrow> 0 \<le> cf_drift_weight cfg \<and> 0 \<le> cf_drift_floor cfg \<and> 0 \<le> cf_age_weight cfg \<and>
     0 \<le> cf_age_floor cfg \<and> 0 \<le> cf_feedback_weight cfg"

lemma confidence_score_unfold:
  "confidence_score s e a c d cfg =
     clamp01 (clamp01 s * max (1 - cf_drift_weight cfg * exact_count e) (cf_drift_floor cfg) *
       max (1 - cf_age_weight cfg * (if cf_max_age_days cfg \<le> 0 then 1 else exact_count a / cf_max_age_days cfg)) (cf_age_floor cfg) +
       cf_feedback_weight cfg * feedback_term (exact_count c) (exact_count d))"
  by (simp add: confidence_score_def feedback_term_def Let_def)

section \<open>Properties\<close>

text \<open>
  A map with no worse evidence is trusted no less: more similar, made fewer epochs ago, younger,
  confirmed at least as often and contradicted at most as often. The score is a fraction of one.
\<close>

theorem confidence_monotone:
  assumes "weights_ok cfg" and "s \<le> s'" "e' \<le> e" "a' \<le> a" "c \<le> c'" "d' \<le> d"
  shows "0 \<le> confidence_score s e a c d cfg \<and>
    confidence_score s e a c d cfg \<le> confidence_score s' e' a' c' d' cfg \<and> confidence_score s' e' a' c' d' cfg \<le> 1"
proof -
  let ?drift = "\<lambda>e. max (1 - cf_drift_weight cfg * exact_count e) (cf_drift_floor cfg)"
  let ?ratio = "\<lambda>a. if cf_max_age_days cfg \<le> 0 then 1 else exact_count a / cf_max_age_days cfg"
  let ?age = "\<lambda>a. max (1 - cf_age_weight cfg * ?ratio a) (cf_age_floor cfg)"
  have w: "0 \<le> cf_drift_weight cfg" "0 \<le> cf_drift_floor cfg" "0 \<le> cf_age_weight cfg" "0 \<le> cf_age_floor cfg"
    "0 \<le> cf_feedback_weight cfg" using assms(1) by (simp_all add: weights_ok_def)
  have "cf_drift_weight cfg * exact_count e' \<le> cf_drift_weight cfg * exact_count e"
    using w(1) exact_count_mono [OF assms(3)] by (intro mult_left_mono)
  then have drift: "?drift e \<le> ?drift e'" by simp
  have "?ratio a' \<le> ?ratio a" using exact_count_mono [OF assms(4)] by (simp add: divide_right_mono)
  then have "cf_age_weight cfg * ?ratio a' \<le> cf_age_weight cfg * ?ratio a" using w(3) by (rule mult_left_mono)
  then have age: "?age a \<le> ?age a'" by simp
  have "clamp01 s * ?drift e * ?age a \<le> clamp01 s' * ?drift e' * ?age a'"
    using clamp01_mono [OF assms(2)] drift age clamp01_range(1) w by (intro mult_mono mult_nonneg_nonneg) auto
  moreover have "cf_feedback_weight cfg * feedback_term (exact_count c) (exact_count d) \<le>
      cf_feedback_weight cfg * feedback_term (exact_count c') (exact_count d')"
    using w(5) exact_count_mono [OF assms(5)] exact_count_mono [OF assms(6)] by (intro mult_left_mono feedback_mono) auto
  ultimately show ?thesis
    unfolding confidence_score_unfold by (intro conjI clamp01_range clamp01_mono) auto
qed

lemma confidence_monotone_witness:
  "confidence_score (1/2) 3 10 1 2 default_confidence \<le> confidence_score (3/4) 1 5 2 1 default_confidence"
proof -
  have "weights_ok default_confidence" by (simp add: weights_ok_def default_confidence_def)
  from confidence_monotone [OF this, of "1/2" "3/4" 1 3 5 10 1 2 1 2] show ?thesis by simp
qed

end
