(* ===== verification/Explorations.thy ===== *)
theory Explorations
  imports Supersede Chunk_Store Confidence
begin

text \<open>
  Exploration maps (\<^verbatim>\<open>crates/arags-storage/src/sqlite/explorations/{mod,store,staleness,feedback}.rs\<close>):
  persisting with history and anchors, lookups, project epochs, the anchors that should tell
  when the code moved on, feedback and review. A body is kept as its text (zstd and its UTF-8
  check are a codec of the library); \<open>stale_reason\<close> is its list. Lemmas: one live map per
  goal and a history that ends; what keeps an anchor.
\<close>

section \<open>Rows\<close>

datatype map_status = Map_Fresh | Map_Stale | Map_Retired | Map_Pending

record exploration =
  ex_id :: row_id
  ex_uuid :: string
  ex_project :: string
  ex_buffer :: "row_id option"
  ex_goal :: string
  ex_body :: string
  ex_summary :: string
  ex_created_by :: string
  ex_model :: "string option"
  ex_template :: string
  ex_epoch :: int
  ex_status :: map_status
  ex_reason :: "string list option"
  ex_confirmed :: int
  ex_contradicted :: int
  ex_access :: int
  ex_tokens :: int
  ex_created :: millis
  ex_updated :: millis
  ex_accessed :: millis
  ex_retired :: "(millis \<times> string) option"
  ex_active :: bool
  ex_superseded :: "row_id option"
  ex_version :: int
  ex_vector_status :: string

record map_anchor =
  an_map :: row_id
  an_buffer :: row_id
  an_path :: string
  an_hash :: string
  an_role :: string

record exploration_db =
  xd_rows :: "exploration list"
  xd_anchors :: "map_anchor list"
  xd_epochs :: "(string \<times> int) list"

text \<open>An anchor of a map that is not stored yet carries row id 0.\<close>

record new_exploration =
  nx_project :: string
  nx_buffer :: "row_id option"
  nx_goal :: string
  nx_body :: string
  nx_summary :: string
  nx_anchors :: "map_anchor list"
  nx_created_by :: string
  nx_model :: "string option"
  nx_template :: string
  nx_tokens :: int

section \<open>Persisting\<close>

type_synonym map_key = "string \<times> string"

definition map_key_of :: "exploration \<Rightarrow> map_key" where
  "map_key_of r = (ex_project r, ex_goal r)"

definition current_project_epoch :: "string \<Rightarrow> (string \<times> int) list \<Rightarrow> int" where
  "current_project_epoch project epochs = (case map_of epochs project of Some e \<Rightarrow> e | None \<Rightarrow> 0)"

text \<open>The insert names no version: the column keeps its default 1.\<close>

definition fresh_map :: "string \<Rightarrow> millis \<Rightarrow> int \<Rightarrow> new_exploration \<Rightarrow> row_id \<Rightarrow> exploration" where
  "fresh_map uuid now epoch inp i =
     \<lparr>ex_id = i, ex_uuid = uuid, ex_project = nx_project inp, ex_buffer = nx_buffer inp, ex_goal = nx_goal inp,
      ex_body = nx_body inp, ex_summary = nx_summary inp, ex_created_by = nx_created_by inp, ex_model = nx_model inp,
      ex_template = (if nx_template inp = [] then template_version_v1 else nx_template inp), ex_epoch = epoch,
      ex_status = Map_Fresh, ex_reason = None, ex_confirmed = 0, ex_contradicted = 0, ex_access = 0,
      ex_tokens = nx_tokens inp, ex_created = now, ex_updated = now, ex_accessed = now, ex_retired = None,
      ex_active = True, ex_superseded = None, ex_version = 1, ex_vector_status = ''indexed''\<rparr>"

definition persist_rows ::
  "string \<Rightarrow> millis \<Rightarrow> int \<Rightarrow> new_exploration \<Rightarrow> exploration list \<Rightarrow> exploration list \<times> row_id" where
  "persist_rows uuid now epoch inp rows =
     (case List.find (\<lambda>r. ex_active r \<and> map_key_of r = (nx_project inp, nx_goal inp)) rows of
        Some old \<Rightarrow>
          let rows1 = update_where (\<lambda>r. ex_id r = ex_id old \<and> ex_active r) (\<lambda>r. r\<lparr>ex_active := False\<rparr>) rows;
              i = next_rowid ex_id rows1
          in (update_where (\<lambda>r. ex_id r = ex_id old) (\<lambda>r. r\<lparr>ex_superseded := Some i\<rparr>)
                (rows1 @ [fresh_map uuid now epoch inp i]), i)
      | None \<Rightarrow>
          let i = next_rowid ex_id rows in (rows @ [fresh_map uuid now epoch inp i], i))"

text \<open>A path given twice, or a role of its own, breaks a constraint and undoes the whole transaction.\<close>

definition anchors_valid :: "map_anchor list \<Rightarrow> bool" where
  "anchors_valid anchors \<longleftrightarrow>
     distinct (map an_path anchors) \<and> list_all (\<lambda>a. an_role a \<in> {''cited'', ''context''}) anchors"

definition persist_exploration ::
  "string \<Rightarrow> millis \<Rightarrow> new_exploration \<Rightarrow> exploration_db \<Rightarrow> exploration_db \<times> (string \<times> row_id) option" where
  "persist_exploration uuid now inp db =
     (let (rows, i) = persist_rows uuid now (current_project_epoch (nx_project inp) (xd_epochs db)) inp (xd_rows db)
      in if anchors_valid (nx_anchors inp)
         then (db\<lparr>xd_rows := rows, xd_anchors := xd_anchors db @ map (\<lambda>a. a\<lparr>an_map := i\<rparr>) (nx_anchors inp)\<rparr>, Some (uuid, i))
         else (db, None))"

section \<open>Lookups\<close>

definition get_exploration_by_uuid :: "string \<Rightarrow> exploration list \<Rightarrow> exploration option" where
  "get_exploration_by_uuid uuid rows = List.find (\<lambda>r. ex_uuid r = uuid) rows"

definition get_exploration_by_rowid :: "row_id \<Rightarrow> exploration list \<Rightarrow> exploration option" where
  "get_exploration_by_rowid i rows = List.find (\<lambda>r. ex_id r = i) rows"

text \<open>\<open>ORDER BY epoch_created DESC, id DESC LIMIT 1\<close>.\<close>

definition get_exploration_as_of :: "string \<Rightarrow> string \<Rightarrow> int \<Rightarrow> exploration list \<Rightarrow> exploration option" where
  "get_exploration_as_of project goal as_of_epoch rows =
     (case sort_key (\<lambda>r. (- ex_epoch r, - ex_id r))
        (filter (\<lambda>r. map_key_of r = (project, goal) \<and> ex_epoch r \<le> as_of_epoch) rows) of
        [] \<Rightarrow> None | r # _ \<Rightarrow> Some r)"

definition get_exploration_as_of_by_id :: "string \<Rightarrow> int \<Rightarrow> exploration list \<Rightarrow> exploration option" where
  "get_exploration_as_of_by_id uuid as_of_epoch rows =
     (case get_exploration_by_uuid uuid rows of
        None \<Rightarrow> None
      | Some r \<Rightarrow> get_exploration_as_of (ex_project r) (ex_goal r) as_of_epoch rows)"

text \<open>\<open>fts\<close> ranks the rows of the text index, best first.\<close>

definition search_explorations_fts ::
  "(string \<Rightarrow> (row_id \<times> string \<times> string) list \<Rightarrow> row_id list) \<Rightarrow> string \<Rightarrow> string \<Rightarrow> nat \<Rightarrow> exploration list \<Rightarrow> exploration list" where
  "search_explorations_fts fts project fts_query limit rows =
     (if trim fts_query = [] then []
      else filter (\<lambda>r. ex_id r \<in> set (take limit (fts fts_query (map (\<lambda>r. (ex_id r, ex_goal r, ex_summary r)) rows)))
                 \<and> ex_project r = project \<and> ex_active r \<and> ex_status r \<noteq> Map_Retired) rows)"

definition touch_exploration :: "millis \<Rightarrow> row_id \<Rightarrow> exploration_db \<Rightarrow> exploration_db" where
  "touch_exploration now i db =
     db\<lparr>xd_rows := update_where (\<lambda>r. ex_id r = i) (\<lambda>r. r\<lparr>ex_access := ex_access r + 1, ex_accessed := now\<rparr>) (xd_rows db)\<rparr>"

definition count_explorations :: "string \<Rightarrow> map_status option \<Rightarrow> exploration list \<Rightarrow> nat" where
  "count_explorations project status rows =
     count_where (\<lambda>r. ex_project r = project \<and> (case status of Some s \<Rightarrow> ex_status r = s | None \<Rightarrow> True)) rows"

definition get_exploration_history :: "row_id \<Rightarrow> exploration list \<Rightarrow> exploration list option" where
  "get_exploration_history i rows = history_walk ex_id ex_superseded rows (Some i) []"

definition delete_exploration :: "row_id \<Rightarrow> exploration_db \<Rightarrow> exploration_db \<times> nat" where
  "delete_exploration i db =
     (db\<lparr>xd_rows := filter (\<lambda>r. ex_id r \<noteq> i) (xd_rows db),
         xd_anchors := (if list_ex (\<lambda>r. ex_id r = i) (xd_rows db)
                        then filter (\<lambda>a. an_map a \<noteq> i) (xd_anchors db) else xd_anchors db)\<rparr>,
      count_where (\<lambda>r. ex_id r = i) (xd_rows db))"

section \<open>Vector status\<close>

definition set_map_vectors :: "string \<Rightarrow> row_id \<Rightarrow> row_id list \<Rightarrow> exploration_db \<Rightarrow> exploration_db" where
  "set_map_vectors status buffer_id ids db =
     db\<lparr>xd_rows := update_where (\<lambda>r. ex_buffer r = Some buffer_id \<and> ex_id r \<in> set ids)
          (\<lambda>r. r\<lparr>ex_vector_status := status\<rparr>) (xd_rows db)\<rparr>"

definition mark_explorations_pending_vector :: "row_id \<Rightarrow> row_id list \<Rightarrow> exploration_db \<Rightarrow> exploration_db" where
  "mark_explorations_pending_vector buffer_id ids db = set_map_vectors ''pending_vector'' buffer_id ids db"

definition clear_explorations_pending_vector :: "row_id \<Rightarrow> row_id list \<Rightarrow> exploration_db \<Rightarrow> exploration_db" where
  "clear_explorations_pending_vector buffer_id ids db = set_map_vectors ''indexed'' buffer_id ids db"

definition explorations_pending_vector :: "row_id \<Rightarrow> exploration list \<Rightarrow> row_id list" where
  "explorations_pending_vector buffer_id rows =
     map ex_id (filter (\<lambda>r. ex_buffer r = Some buffer_id \<and> ex_vector_status r = ''pending_vector'') rows)"

definition map_embed_text :: "exploration \<Rightarrow> row_id \<times> string" where
  "map_embed_text r = (ex_id r, ex_goal r @ CHR 0x0A # ex_summary r)"

definition get_exploration_embed_inputs :: "row_id list \<Rightarrow> exploration list \<Rightarrow> (row_id \<times> string) list" where
  "get_exploration_embed_inputs ids rows = map map_embed_text (filter (\<lambda>r. ex_id r \<in> set ids) rows)"

definition all_exploration_embed_inputs :: "exploration list \<Rightarrow> (row_id \<times> string) list" where
  "all_exploration_embed_inputs rows = map map_embed_text rows"

section \<open>Epochs and anchors\<close>

definition bump_project_epoch :: "string \<Rightarrow> exploration_db \<Rightarrow> exploration_db \<times> int" where
  "bump_project_epoch project db =
     (let e = current_project_epoch project (xd_epochs db) + 1
      in (db\<lparr>xd_epochs := AList.update project e (xd_epochs db)\<rparr>, e))"

text \<open>
  The query asks for any chunk row of the file with the hash, active or not.
\<close>

definition anchor_holds :: "chunk list \<Rightarrow> map_anchor \<Rightarrow> bool" where
  "anchor_holds chunks f \<longleftrightarrow>
     list_ex (\<lambda>c. ck_buffer c = an_buffer f \<and> ck_file c = an_path f \<and>
                  ascii_lower (sql_hex (ck_hash c)) = ascii_lower (an_hash f)) chunks"

definition broken_anchors :: "string \<Rightarrow> chunk list \<Rightarrow> exploration_db \<Rightarrow> (row_id \<times> string \<times> string) list" where
  "broken_anchors project chunks db =
     concat (map (\<lambda>e. map (\<lambda>f. (ex_id e, ex_uuid e, an_path f))
         (filter (\<lambda>f. an_map f = ex_id e \<and> an_role f = role_cited \<and> \<not> anchor_holds chunks f) (xd_anchors db)))
       (filter (\<lambda>e. ex_project e = project \<and> ex_status e \<noteq> Map_Retired) (xd_rows db)))"

definition mark_map_stale :: "millis \<Rightarrow> row_id \<Rightarrow> string list \<Rightarrow> exploration list \<Rightarrow> exploration list \<times> nat" where
  "mark_map_stale now i paths rows =
     (let hit = (\<lambda>r. ex_id r = i \<and> ex_status r = Map_Fresh)
      in (update_where hit (\<lambda>r. r\<lparr>ex_status := Map_Stale, ex_reason := Some (sorted_dedup paths), ex_updated := now\<rparr>) rows,
          count_where hit rows))"

text \<open>The \<open>BTreeMap\<close> gives the maps by rising row id, each with its broken paths.\<close>

definition mark_stale_if_anchors_changed ::
  "millis \<Rightarrow> string \<Rightarrow> chunk list \<Rightarrow> exploration_db \<Rightarrow> exploration_db \<times> nat" where
  "mark_stale_if_anchors_changed now project chunks db =
     (let broken = broken_anchors project chunks db;
          (rows, n) = fold (\<lambda>i (rows, n).
            let paths = map (snd \<circ> snd) (filter (\<lambda>b. fst b = i) broken);
                (rows', k) = mark_map_stale now i paths rows
            in (rows', n + k)) (sorted_list_of_set (set (map fst broken))) (xd_rows db, 0)
      in (db\<lparr>xd_rows := rows\<rparr>, n))"

definition recheck_anchors_for_rowid :: "row_id \<Rightarrow> chunk list \<Rightarrow> exploration_db \<Rightarrow> string list" where
  "recheck_anchors_for_rowid i chunks db =
     map an_path (filter (\<lambda>f. an_map f = i \<and> an_role f = role_cited \<and> \<not> anchor_holds chunks f) (xd_anchors db))"

text \<open>\<open>SELECT DISTINCT hash ... LIMIT 1\<close>: the first row of the file.\<close>

definition current_hashes_for_paths :: "row_id \<Rightarrow> string list \<Rightarrow> chunk list \<Rightarrow> (string \<times> string option) list" where
  "current_hashes_for_paths buffer_id paths chunks =
     map (\<lambda>path. (path, map_option (\<lambda>c. hex_encode (ck_hash c))
       (List.find (\<lambda>c. ck_buffer c = buffer_id \<and> ck_file c = path) chunks))) paths"

definition list_exploration_anchors :: "row_id \<Rightarrow> exploration_db \<Rightarrow> (row_id \<times> string \<times> string) list" where
  "list_exploration_anchors i db =
     map (\<lambda>f. (an_buffer f, an_path f, an_hash f))
       (order_by (\<lambda>f g. if an_role f = an_role g then lex_le (text_key (an_path f)) (text_key (an_path g))
                        else lex_le (text_key (an_role g)) (text_key (an_role f)))
         (filter (\<lambda>f. an_map f = i) (xd_anchors db)))"

section \<open>Feedback and review\<close>

datatype feedback_kind = Confirm | Contradict
datatype feedback_outcome = Was_Confirmed int | Was_Contradicted int bool

definition retire_map :: "millis \<Rightarrow> string \<Rightarrow> exploration \<Rightarrow> exploration" where
  "retire_map now who r = r\<lparr>ex_status := Map_Retired, ex_retired := Some (now, who), ex_updated := now\<rparr>"

definition read_map :: "row_id \<Rightarrow> (exploration \<Rightarrow> int) \<Rightarrow> exploration list \<Rightarrow> int" where
  "read_map i f rows = (case get_exploration_by_rowid i rows of Some r \<Rightarrow> f r | None \<Rightarrow> 0)"

definition record_feedback ::
  "millis \<Rightarrow> string \<Rightarrow> feedback_kind \<Rightarrow> int \<Rightarrow> exploration_db \<Rightarrow> exploration_db \<times> feedback_outcome option" where
  "record_feedback now uuid kind contradiction_limit db =
     (case get_exploration_by_uuid uuid (xd_rows db) of
        None \<Rightarrow> (db, None)
      | Some m \<Rightarrow>
          (case kind of
             Confirm \<Rightarrow>
               let rows = update_where (\<lambda>r. ex_id r = ex_id m)
                            (\<lambda>r. r\<lparr>ex_confirmed := ex_confirmed r + 1, ex_updated := now\<rparr>) (xd_rows db)
               in (db\<lparr>xd_rows := rows\<rparr>, Some (Was_Confirmed (read_map (ex_id m) ex_confirmed rows)))
           | Contradict \<Rightarrow>
               let rows = update_where (\<lambda>r. ex_id r = ex_id m \<and> ex_status r \<noteq> Map_Retired)
                            (\<lambda>r. r\<lparr>ex_contradicted := ex_contradicted r + 1, ex_updated := now\<rparr>) (xd_rows db);
                   contradicted = read_map (ex_id m) ex_contradicted rows;
                   hit = (\<lambda>r. ex_id r = ex_id m \<and> ex_status r \<noteq> Map_Retired)
               in if 0 < contradiction_limit \<and> contradiction_limit \<le> contradicted
                  then (db\<lparr>xd_rows := update_where hit (retire_map now ''system'') rows\<rparr>,
                        Some (Was_Contradicted contradicted (0 < count_where hit rows)))
                  else (db\<lparr>xd_rows := rows\<rparr>, Some (Was_Contradicted contradicted False))))"

definition invalidate_exploration_stale :: "millis \<Rightarrow> string \<Rightarrow> string \<Rightarrow> exploration_db \<Rightarrow> exploration_db \<times> bool" where
  "invalidate_exploration_stale now uuid reason db =
     (let hit = (\<lambda>r. ex_uuid r = uuid \<and> ex_status r = Map_Fresh)
      in (db\<lparr>xd_rows := update_where hit (\<lambda>r. r\<lparr>ex_status := Map_Stale,
               ex_reason := (case ex_reason r of None \<Rightarrow> Some [reason] | Some x \<Rightarrow> Some x), ex_updated := now\<rparr>) (xd_rows db)\<rparr>,
          0 < count_where hit (xd_rows db)))"

definition review_exploration :: "millis \<Rightarrow> string \<Rightarrow> bool \<Rightarrow> string \<Rightarrow> exploration_db \<Rightarrow> exploration_db \<times> bool" where
  "review_exploration now uuid approved reviewer db =
     (let hit = (\<lambda>r. ex_uuid r = uuid \<and> ex_status r \<noteq> Map_Retired)
      in (db\<lparr>xd_rows := update_where hit
               (if approved then (\<lambda>r. r\<lparr>ex_status := Map_Fresh, ex_updated := now\<rparr>) else retire_map now reviewer) (xd_rows db)\<rparr>,
          0 < count_where hit (xd_rows db)))"

definition mark_exploration_pending :: "row_id \<Rightarrow> exploration_db \<Rightarrow> exploration_db \<times> bool" where
  "mark_exploration_pending i db =
     (let hit = (\<lambda>r. ex_id r = i \<and> ex_status r = Map_Fresh)
      in (db\<lparr>xd_rows := update_where hit (\<lambda>r. r\<lparr>ex_status := Map_Pending\<rparr>) (xd_rows db)\<rparr>, 0 < count_where hit (xd_rows db)))"

section \<open>The contract of a table with history\<close>

type_synonym persist_request = "string \<times> millis \<times> int \<times> new_exploration"

definition persist_key :: "persist_request \<Rightarrow> map_key" where
  "persist_key = (\<lambda>(u, now, e, inp). (nx_project inp, nx_goal inp))"

definition persist_request_rows :: "persist_request \<Rightarrow> exploration list \<Rightarrow> exploration list \<times> row_id" where
  "persist_request_rows = (\<lambda>(u, now, e, inp). persist_rows u now e inp)"

lemma fresh_map_simps [simp]:
  "ex_id (fresh_map u now e inp i) = i" "map_key_of (fresh_map u now e inp i) = (nx_project inp, nx_goal inp)"
  "ex_active (fresh_map u now e inp i)" "ex_superseded (fresh_map u now e inp i) = None"
  "ex_version (fresh_map u now e inp i) = 1" "ex_epoch (fresh_map u now e inp i) = e"
  "ex_status (fresh_map u now e inp i) = Map_Fresh" "ex_uuid (fresh_map u now e inp i) = u"
  by (simp_all add: fresh_map_def map_key_of_def)

lemma persist_supersedes:
  assumes "rows_wf ex_id rows" and "List.find (\<lambda>r. ex_active r \<and> map_key_of r = (nx_project inp, nx_goal inp)) rows = Some old"
  shows "persist_rows u now e inp rows =
    (map (\<lambda>r. if r = old then old\<lparr>ex_active := False, ex_superseded := Some (next_rowid ex_id rows)\<rparr> else r) rows @
       [fresh_map u now e inp (next_rowid ex_id rows)], next_rowid ex_id rows)"
proof -
  from find_SomeD [OF assms(2)] have old: "old \<in> set rows" "ex_active old" by auto
  have same: "ex_id r = ex_id old \<longleftrightarrow> r = old" if "r \<in> set rows" for r
    using rows_wf_inj [OF assms(1) that old(1)] by blast
  let ?rows1 = "update_where (\<lambda>r. ex_id r = ex_id old \<and> ex_active r) (\<lambda>r. r\<lparr>ex_active := False\<rparr>) rows"
  have i: "next_rowid ex_id ?rows1 = next_rowid ex_id rows" by (rule next_rowid_update_where) simp
  have "next_rowid ex_id rows \<noteq> ex_id old" using next_rowid_fresh [OF old(1), of ex_id] by simp
  moreover have "update_where (\<lambda>r. ex_id r = ex_id old) (\<lambda>r. r\<lparr>ex_superseded := Some (next_rowid ex_id rows)\<rparr>) ?rows1 =
      map (\<lambda>r. if r = old then old\<lparr>ex_active := False, ex_superseded := Some (next_rowid ex_id rows)\<rparr> else r) rows"
    unfolding update_where_def map_map comp_def by (rule map_cong) (use same old(2) in auto)
  ultimately show ?thesis
    by (simp add: persist_rows_def assms(2) Let_def i update_where_append) (simp add: update_where_def)
qed

lemma map_key_retired: "map_key_of (r\<lparr>ex_active := False, ex_superseded := s\<rparr>) = map_key_of r"
  by (simp add: map_key_of_def)

interpretation map_history: revision_store ex_id map_key_of ex_active ex_superseded persist_key persist_request_rows
proof unfold_locales
  fix q :: persist_request and rows
  obtain u now e inp where q: "q = (u, now, e, inp)" by (metis prod.exhaust)
  { assume "List.find (\<lambda>r. ex_active r \<and> map_key_of r = persist_key q) rows = None"
    then show "\<exists>n. persist_request_rows q rows = (rows @ [n], ex_id n) \<and> ex_id n = next_rowid ex_id rows \<and>
        map_key_of n = persist_key q \<and> ex_active n \<and> ex_superseded n = None"
      by (simp add: q persist_key_def persist_request_rows_def persist_rows_def Let_def) }
  fix old
  assume "rows_wf ex_id rows" "List.find (\<lambda>r. ex_active r \<and> map_key_of r = persist_key q) rows = Some old"
  then have p: "persist_request_rows q rows =
      (map (\<lambda>r. if r = old then old\<lparr>ex_active := False, ex_superseded := Some (next_rowid ex_id rows)\<rparr> else r) rows @
         [fresh_map u now e inp (next_rowid ex_id rows)], next_rowid ex_id rows)"
    using persist_supersedes [of rows inp old u now e] by (simp add: q persist_key_def persist_request_rows_def)
  show "\<exists>n old'. persist_request_rows q rows = (map (\<lambda>r. if r = old then old' else r) rows @ [n], ex_id n) \<and>
      ex_id n = next_rowid ex_id rows \<and> map_key_of n = persist_key q \<and> ex_active n \<and> ex_superseded n = None \<and>
      ex_id old' = ex_id old \<and> map_key_of old' = map_key_of old \<and> \<not> ex_active old' \<and> ex_superseded old' = Some (ex_id n)"
    by (rule exI [of _ "fresh_map u now e inp (next_rowid ex_id rows)"],
        rule exI [of _ "old\<lparr>ex_active := False, ex_superseded := Some (next_rowid ex_id rows)\<rparr>"])
      (simp add: p persist_key_def q [symmetric], simp add: q persist_key_def map_key_retired)
qed

section \<open>Reachable tables\<close>

inductive map_step :: "exploration_db \<Rightarrow> exploration_db \<Rightarrow> bool" where
  ms_persist: "map_step db (fst (persist_exploration uuid now inp db))"
| ms_touch: "map_step db (touch_exploration now i db)"
| ms_delete: "map_step db (fst (delete_exploration i db))"
| ms_vectors: "map_step db (set_map_vectors status b ids db)"
| ms_epoch: "map_step db (fst (bump_project_epoch project db))"
| ms_anchors: "map_step db (fst (mark_stale_if_anchors_changed now project chunks db))"
| ms_feedback: "map_step db (fst (record_feedback now uuid kind limit db))"
| ms_stale: "map_step db (fst (invalidate_exploration_stale now uuid reason db))"
| ms_review: "map_step db (fst (review_exploration now uuid approved reviewer db))"
| ms_pending: "map_step db (fst (mark_exploration_pending i db))"

definition map_reachable :: "exploration_db \<Rightarrow> bool" where
  "map_reachable db \<longleftrightarrow> map_step\<^sup>*\<^sup>* \<lparr>xd_rows = [], xd_anchors = [], xd_epochs = []\<rparr> db"

definition map_inv :: "exploration_db \<Rightarrow> bool" where
  "map_inv db \<longleftrightarrow> chain_inv ex_id map_key_of ex_active ex_superseded (xd_rows db) \<and> list_all (\<lambda>r. ex_version r = 1) (xd_rows db)"

text \<open>The columns the history rests on, and the version.\<close>

definition keeps_map_history :: "(exploration \<Rightarrow> exploration) \<Rightarrow> bool" where
  "keeps_map_history f \<longleftrightarrow> (\<forall>r. ex_id (f r) = ex_id r \<and> map_key_of (f r) = map_key_of r \<and> ex_active (f r) = ex_active r \<and>
     ex_superseded (f r) = ex_superseded r \<and> ex_version (f r) = ex_version r)"

lemma map_inv_update:
  assumes "map_inv db" and "keeps_map_history f"
  shows "map_inv (db\<lparr>xd_rows := update_where p f (xd_rows db)\<rparr>)"
  using assms chain_inv_update_where [of ex_id f map_key_of ex_active ex_superseded "xd_rows db" p]
  by (auto simp: map_inv_def keeps_map_history_def list_all_iff in_set_update_where)

lemma map_inv_other [simp]:
  "map_inv (db\<lparr>xd_epochs := e\<rparr>) = map_inv db" "map_inv (db\<lparr>xd_rows := rows, xd_anchors := a\<rparr>) = map_inv (db\<lparr>xd_rows := rows\<rparr>)"
  by (simp_all add: map_inv_def)

lemma persist_inv:
  assumes "map_inv db"
  shows "map_inv (fst (persist_exploration uuid now inp db))"
proof -
  let ?e = "current_project_epoch (nx_project inp) (xd_epochs db)"
  obtain rows i where p: "persist_rows uuid now ?e inp (xd_rows db) = (rows, i)" by fastforce
  have inv: "chain_inv ex_id map_key_of ex_active ex_superseded (xd_rows db)" using assms by (simp add: map_inv_def)
  have "chain_inv ex_id map_key_of ex_active ex_superseded rows"
    using map_history.store_chain [OF inv, of "(uuid, now, ?e, inp)"] p by (simp add: persist_request_rows_def)
  moreover have "list_all (\<lambda>r. ex_version r = 1) rows"
  proof (cases "List.find (\<lambda>r. ex_active r \<and> map_key_of r = (nx_project inp, nx_goal inp)) (xd_rows db)")
    case None
    then show ?thesis using p assms by (auto simp: persist_rows_def Let_def map_inv_def)
  next
    case (Some old)
    have "rows_wf ex_id (xd_rows db)" using inv by (simp add: chain_inv_def)
    from persist_supersedes [OF this Some, of uuid now ?e] show ?thesis
      using p assms find_SomeD [OF Some] by (auto simp: map_inv_def list_all_iff)
  qed
  ultimately show ?thesis using p assms by (auto simp: persist_exploration_def map_inv_def)
qed

lemma mark_map_stale_fold:
  assumes "map_inv (db\<lparr>xd_rows := rows\<rparr>)"
  shows "map_inv (db\<lparr>xd_rows := fst (fold (\<lambda>i (rows, n).
      let (rows', k) = mark_map_stale now i (paths i) rows in (rows', n + k)) ids (rows, n))\<rparr>)"
  using assms
proof (induction ids arbitrary: rows n)
  case (Cons i ids)
  have "map_inv ((db\<lparr>xd_rows := rows\<rparr>)\<lparr>xd_rows := fst (mark_map_stale now i (paths i) rows)\<rparr>)"
    using map_inv_update [OF Cons.prems] by (simp add: mark_map_stale_def Let_def keeps_map_history_def map_key_of_def)
  then show ?case using Cons.IH by (simp add: Let_def case_prod_beta)
qed simp

lemma map_step_inv: "map_step db db' \<Longrightarrow> map_inv db \<Longrightarrow> map_inv db'"
proof (induction rule: map_step.induct)
  case (ms_persist db uuid now inp)
  then show ?case by (rule persist_inv)
next
  case (ms_delete db i)
  then show ?case
    by (auto simp: delete_exploration_def map_inv_def list_all_iff intro: chain_inv_filter)
next
  case (ms_anchors db now project chunks)
  let ?b = "broken_anchors project chunks db"
  have "map_inv (db\<lparr>xd_rows := fst (fold (\<lambda>i (rows, n).
      let (rows', k) = mark_map_stale now i (map (snd \<circ> snd) (filter (\<lambda>b. fst b = i) ?b)) rows in (rows', n + k))
      (sorted_list_of_set (set (map fst ?b))) (xd_rows db, 0))\<rparr>)"
    by (rule mark_map_stale_fold) (use ms_anchors in simp_all)
  then show ?case by (simp add: mark_stale_if_anchors_changed_def Let_def case_prod_beta)
next
  case (ms_feedback db now uuid kind limit)
  have "map_inv (db\<lparr>xd_rows := update_where p f (update_where q g (xd_rows db))\<rparr>)"
    if "keeps_map_history f" "keeps_map_history g" for p f q g
    using map_inv_update [OF map_inv_update [OF ms_feedback that(2), of q] that(1), of p] by simp
  then show ?case using map_inv_update [OF ms_feedback] ms_feedback
    by (auto simp: record_feedback_def Let_def keeps_map_history_def map_key_of_def retire_map_def
        split: option.split feedback_kind.split)
qed (auto simp: touch_exploration_def set_map_vectors_def bump_project_epoch_def invalidate_exploration_stale_def
    review_exploration_def mark_exploration_pending_def retire_map_def keeps_map_history_def map_key_of_def Let_def
    intro!: map_inv_update)

lemma map_reachable_inv: "map_reachable db \<Longrightarrow> map_inv db"
  unfolding map_reachable_def
proof (induction rule: rtranclp_induct)
  case base
  show ?case by (simp add: map_inv_def)
next
  case (step y z)
  then show ?case by (blast intro: map_step_inv)
qed

lemma map_reachable_step: "map_reachable db \<Longrightarrow> map_step db db' \<Longrightarrow> map_reachable db'"
  unfolding map_reachable_def by (rule rtranclp.rtrancl_into_rtrancl)

section \<open>What keeps an anchor\<close>

text \<open>An anchor asks for a row of the file with the hash; rows are retired, not deleted, when a file changes.\<close>

definition hashes_of :: "chunk list \<Rightarrow> (row_id \<times> string \<times> string) set" where
  "hashes_of chunks = (\<lambda>c. (ck_buffer c, ck_file c, ck_hash c)) ` set chunks"

lemma anchor_holds_iff:
  "anchor_holds chunks f \<longleftrightarrow>
     (\<exists>h. (an_buffer f, an_path f, h) \<in> hashes_of chunks \<and> ascii_lower (sql_hex h) = ascii_lower (an_hash f))"
  unfolding anchor_holds_def list_ex_iff hashes_of_def by force

lemma anchor_holds_mono: "hashes_of chunks \<subseteq> hashes_of chunks' \<Longrightarrow> anchor_holds chunks f \<Longrightarrow> anchor_holds chunks' f"
  unfolding anchor_holds_iff by blast

lemma broken_anchors_antimono:
  assumes "hashes_of chunks \<subseteq> hashes_of chunks'" and "broken_anchors project chunks db = []"
  shows "broken_anchors project chunks' db = []"
  using assms anchor_holds_mono [OF assms(1)] unfolding broken_anchors_def by (fastforce simp: concat_eq_Nil_conv filter_empty_conv)

lemma resolved_anchor_holds:
  assumes "(path, Some h) \<in> set (current_hashes_for_paths b paths chunks)"
  shows "anchor_holds chunks \<lparr>an_map = i, an_buffer = b, an_path = path, an_hash = h, an_role = r\<rparr>"
proof -
  obtain c where "List.find (\<lambda>c. ck_buffer c = b \<and> ck_file c = path) chunks = Some c" "h = hex_encode (ck_hash c)"
    using assms by (cases "List.find (\<lambda>c. ck_buffer c = b \<and> ck_file c = path) chunks") (auto simp: current_hashes_for_paths_def)
  then show ?thesis
    using find_SomeD [of "\<lambda>c. ck_buffer c = b \<and> ck_file c = path" chunks c]
    by (auto simp: anchor_holds_def list_ex_iff lower_sql_hex lower_hex_encode intro!: bexI [of _ c])
qed

lemma hashes_of_retire: "hashes_of (cd_rows (retire_row now i s db)) = hashes_of (cd_rows db)"
  unfolding hashes_of_def retire_row_rows set_map image_image by (rule image_cong) (auto simp: retired_def)

lemma hashes_of_insert:
  assumes "insert_active_chunk extract now b f c h v u m db = (db', i)"
  shows "hashes_of (cd_rows db) \<subseteq> hashes_of (cd_rows db')"
  using insert_active_chunk_simps [OF assms] by (auto simp: hashes_of_def)

section \<open>Epochs and revisions\<close>

text \<open>Revisions of a project are stored under rising epochs, none beyond the current one.\<close>

definition epochs_ok :: "exploration_db \<Rightarrow> bool" where
  "epochs_ok db \<longleftrightarrow>
     (\<forall>r\<in>set (xd_rows db). ex_epoch r \<le> current_project_epoch (ex_project r) (xd_epochs db)) \<and>
     (\<forall>r\<in>set (xd_rows db). \<forall>r'\<in>set (xd_rows db). ex_project r = ex_project r' \<longrightarrow> ex_id r \<le> ex_id r' \<longrightarrow> ex_epoch r \<le> ex_epoch r')"

definition row_stamp :: "exploration \<Rightarrow> row_id \<times> string \<times> int" where
  "row_stamp r = (ex_id r, ex_project r, ex_epoch r)"

definition stamps_ok :: "(row_id \<times> string \<times> int) set \<Rightarrow> (string \<times> int) list \<Rightarrow> bool" where
  "stamps_ok S epochs \<longleftrightarrow>
     (\<forall>i p e. (i, p, e) \<in> S \<longrightarrow> e \<le> current_project_epoch p epochs) \<and>
     (\<forall>i p e i' e'. (i, p, e) \<in> S \<longrightarrow> (i', p, e') \<in> S \<longrightarrow> i \<le> i' \<longrightarrow> e \<le> e')"

lemma epochs_ok_stamps: "epochs_ok db = stamps_ok (row_stamp ` set (xd_rows db)) (xd_epochs db)"
proof -
  have mem: "(i, p, e) \<in> row_stamp ` set (xd_rows db) \<longleftrightarrow> (\<exists>r\<in>set (xd_rows db). ex_id r = i \<and> ex_project r = p \<and> ex_epoch r = e)"
    for i p e by (force simp: row_stamp_def)
  show ?thesis unfolding epochs_ok_def stamps_ok_def mem by blast
qed

lemma stamps_ok_subset: "stamps_ok S epochs \<Longrightarrow> T \<subseteq> S \<Longrightarrow> stamps_ok T epochs"
  unfolding stamps_ok_def by blast

lemma stamps_ok_insert:
  assumes "stamps_ok S epochs" and "\<And>j q e. (j, q, e) \<in> S \<Longrightarrow> j < i"
  shows "stamps_ok (insert (i, p, current_project_epoch p epochs) S) epochs"
  using assms unfolding stamps_ok_def by (simp (no_asm_use)) (meson not_less)

lemma epochs_ok_subset:
  "epochs_ok db \<Longrightarrow> row_stamp ` set rows \<subseteq> row_stamp ` set (xd_rows db) \<Longrightarrow> epochs_ok (db\<lparr>xd_rows := rows\<rparr>)"
  by (simp add: epochs_ok_stamps stamps_ok_subset)

lemma epochs_ok_anchors [simp]: "epochs_ok (db\<lparr>xd_rows := rows, xd_anchors := a\<rparr>) = epochs_ok (db\<lparr>xd_rows := rows\<rparr>)"
  by (simp add: epochs_ok_def)

definition keeps_stamp :: "(exploration \<Rightarrow> exploration) \<Rightarrow> bool" where
  "keeps_stamp f \<longleftrightarrow> (\<forall>r. row_stamp (f r) = row_stamp r)"

lemma stamps_update_where: "keeps_stamp f \<Longrightarrow> row_stamp ` set (update_where p f rows) = row_stamp ` set rows"
  by (induction rows) (simp_all add: keeps_stamp_def update_where_Nil update_where_Cons)

lemma epochs_ok_update: "epochs_ok db \<Longrightarrow> keeps_stamp f \<Longrightarrow> epochs_ok (db\<lparr>xd_rows := update_where p f (xd_rows db)\<rparr>)"
  by (rule epochs_ok_subset) (simp_all add: stamps_update_where)

lemma current_epoch_bump:
  "current_project_epoch p (xd_epochs (fst (bump_project_epoch q db))) =
     current_project_epoch p (xd_epochs db) + (if p = q then 1 else 0)"
  by (auto simp: bump_project_epoch_def Let_def current_project_epoch_def update_conv)

lemma persist_stamps:
  assumes "rows_wf ex_id rows" and "persist_rows uuid now e inp rows = (rows', i)"
  shows "row_stamp ` set rows' = insert (i, nx_project inp, e) (row_stamp ` set rows)" "i = next_rowid ex_id rows"
proof -
  have n: "row_stamp (fresh_map uuid now e inp j) = (j, nx_project inp, e)" for j
    by (simp add: row_stamp_def fresh_map_def)
  have "row_stamp ` set rows' = insert (i, nx_project inp, e) (row_stamp ` set rows) \<and> i = next_rowid ex_id rows"
  proof (cases "List.find (\<lambda>r. ex_active r \<and> map_key_of r = (nx_project inp, nx_goal inp)) rows")
    case None
    then show ?thesis using assms(2) n by (auto simp: persist_rows_def Let_def)
  next
    case (Some old)
    let ?f = "\<lambda>r. if r = old then old\<lparr>ex_active := False, ex_superseded := Some (next_rowid ex_id rows)\<rparr> else r"
    have "row_stamp (?f r) = row_stamp r" for r by (simp add: row_stamp_def)
    then have "row_stamp ` set (map ?f rows) = row_stamp ` set rows" unfolding set_map image_image by simp
    then show ?thesis
      using persist_supersedes [OF assms(1) Some, of uuid now e] assms(2) n by (auto simp: image_Un)
  qed
  then show "row_stamp ` set rows' = insert (i, nx_project inp, e) (row_stamp ` set rows)" "i = next_rowid ex_id rows" by auto
qed

lemma persist_epochs_ok:
  assumes "rows_wf ex_id (xd_rows db)" and "epochs_ok db"
  shows "epochs_ok (fst (persist_exploration uuid now inp db))"
proof -
  let ?e = "current_project_epoch (nx_project inp) (xd_epochs db)"
  obtain rows i where p: "persist_rows uuid now ?e inp (xd_rows db) = (rows, i)" by fastforce
  note st = persist_stamps [OF assms(1) p]
  have "i' < i" if "(i', q, e) \<in> row_stamp ` set (xd_rows db)" for i' q e
    using that next_rowid_fresh [of _ "xd_rows db" ex_id] st(2) by (auto simp: row_stamp_def)
  then have "epochs_ok (db\<lparr>xd_rows := rows\<rparr>)"
    using assms(2) unfolding epochs_ok_stamps by (simp add: st(1) stamps_ok_insert)
  then show ?thesis using p assms(2) by (simp add: persist_exploration_def)
qed

lemma mark_stale_epochs_ok:
  assumes "epochs_ok (db\<lparr>xd_rows := rows\<rparr>)"
  shows "epochs_ok (db\<lparr>xd_rows := fst (fold (\<lambda>i (rows, n).
      let (rows', k) = mark_map_stale now i (paths i) rows in (rows', n + k)) ids (rows, n))\<rparr>)"
  using assms
proof (induction ids arbitrary: rows n)
  case (Cons i ids)
  have "epochs_ok ((db\<lparr>xd_rows := rows\<rparr>)\<lparr>xd_rows := fst (mark_map_stale now i (paths i) rows)\<rparr>)"
    using epochs_ok_update [OF Cons.prems] by (simp add: mark_map_stale_def Let_def keeps_stamp_def row_stamp_def)
  then show ?case using Cons.IH by (simp add: Let_def case_prod_beta)
qed simp

lemma map_step_epochs: "map_step db db' \<Longrightarrow> map_inv db \<Longrightarrow> epochs_ok db \<Longrightarrow> epochs_ok db'"
proof (induction rule: map_step.induct)
  case (ms_persist db uuid now inp)
  then show ?case by (intro persist_epochs_ok) (auto simp: map_inv_def chain_inv_def)
next
  case (ms_delete db i)
  have "epochs_ok (db\<lparr>xd_rows := filter (\<lambda>r. ex_id r \<noteq> i) (xd_rows db)\<rparr>)" by (rule epochs_ok_subset) (use ms_delete in auto)
  then show ?case by (simp add: delete_exploration_def epochs_ok_def)
next
  case (ms_epoch db project)
  have "xd_rows (fst (bump_project_epoch project db)) = xd_rows db" by (simp add: bump_project_epoch_def Let_def)
  then show ?case using ms_epoch by (fastforce simp: epochs_ok_def current_epoch_bump)
next
  case (ms_anchors db now project chunks)
  let ?b = "broken_anchors project chunks db"
  have "epochs_ok (db\<lparr>xd_rows := fst (fold (\<lambda>i (rows, n).
      let (rows', k) = mark_map_stale now i (map (snd \<circ> snd) (filter (\<lambda>b. fst b = i) ?b)) rows in (rows', n + k))
      (sorted_list_of_set (set (map fst ?b))) (xd_rows db, 0))\<rparr>)"
    by (rule mark_stale_epochs_ok) (use ms_anchors in simp_all)
  then show ?case by (simp add: mark_stale_if_anchors_changed_def Let_def case_prod_beta)
next
  case (ms_feedback db now uuid kind limit)
  have "epochs_ok (db\<lparr>xd_rows := update_where p f (update_where q g (xd_rows db))\<rparr>)"
    if "keeps_stamp f" "keeps_stamp g" for p f q g
    using epochs_ok_update [OF epochs_ok_update [OF ms_feedback(2) that(2), of q] that(1), of p] by simp
  then show ?case using epochs_ok_update [OF ms_feedback(2)] ms_feedback(2)
    by (auto simp: record_feedback_def Let_def keeps_stamp_def row_stamp_def retire_map_def
        split: option.split feedback_kind.split)
qed (auto simp: touch_exploration_def set_map_vectors_def invalidate_exploration_stale_def
    review_exploration_def mark_exploration_pending_def retire_map_def keeps_stamp_def row_stamp_def Let_def
    intro!: epochs_ok_update)

lemma map_reachable_epochs: "map_reachable db \<Longrightarrow> epochs_ok db"
proof -
  assume "map_reachable db"
  then have "map_step\<^sup>*\<^sup>* \<lparr>xd_rows = [], xd_anchors = [], xd_epochs = []\<rparr> db" by (simp add: map_reachable_def)
  then have "epochs_ok db \<and> map_reachable db"
  proof (induction rule: rtranclp_induct)
    case base
    show ?case by (simp add: epochs_ok_def map_reachable_def)
  next
    case (step y z)
    then show ?case using map_step_epochs [OF step(2)] map_reachable_inv map_reachable_step by blast
  qed
  then show ?thesis by simp
qed

section \<open>Properties\<close>

text \<open>
  Reading a goal as of an epoch gives the last revision of it that was stored by then: every
  later revision was stored in a later epoch. Nothing is given only where the goal had no
  revision yet.
\<close>

theorem map_as_of:
  assumes "map_reachable db"
  shows "case get_exploration_as_of project goal t (xd_rows db) of
      Some r \<Rightarrow> r \<in> set (xd_rows db) \<and> map_key_of r = (project, goal) \<and> ex_epoch r \<le> t \<and>
        (\<forall>r'\<in>set (xd_rows db). map_key_of r' = (project, goal) \<longrightarrow> ex_id r < ex_id r' \<longrightarrow> t < ex_epoch r')
    | None \<Rightarrow> \<forall>r\<in>set (xd_rows db). map_key_of r = (project, goal) \<longrightarrow> t < ex_epoch r"
proof -
  let ?hits = "filter (\<lambda>r. map_key_of r = (project, goal) \<and> ex_epoch r \<le> t) (xd_rows db)"
  let ?key = "\<lambda>r. (- ex_epoch r, - ex_id r)"
  note inv = map_reachable_epochs [OF assms]
  show ?thesis
  proof (cases "sort_key ?key ?hits")
    case Nil
    then have "?hits = []" by (simp add: sort_key_Nil_iff)
    then show ?thesis by (auto simp: get_exploration_as_of_def Nil filter_empty_conv not_le)
  next
    case (Cons r rs)
    have sorted: "sorted (map ?key (r # rs))" using sorted_sort_key [of ?key ?hits] unfolding Cons .
    have r: "r \<in> set ?hits" using set_sort [of ?key ?hits] unfolding Cons by auto
    have "t < ex_epoch r'" if r': "r' \<in> set (xd_rows db)" "map_key_of r' = (project, goal)" "ex_id r < ex_id r'" for r'
    proof (rule ccontr)
      assume "\<not> t < ex_epoch r'"
      then have "r' \<in> set ?hits" using r' by simp
      then have "r' \<in> set (r # rs)" using set_sort [of ?key ?hits] unfolding Cons by simp
      moreover have "r' \<noteq> r" using r'(3) by auto
      ultimately have "?key r \<le> ?key r'" using sorted by auto
      moreover have "ex_epoch r \<le> ex_epoch r'"
        using inv r r' by (auto simp: epochs_ok_def map_key_of_def)
      ultimately show False using r'(3) by auto
    qed
    then show ?thesis using r by (simp add: get_exploration_as_of_def Cons)
  qed
qed

text \<open>
  A map persisted for a goal that has a live one supersedes it: the history of the old map is
  the old one, no longer live, and then the new one. Its version is that of the old map, not
  the next, and it carries the current epoch of the project.
\<close>

theorem map_supersede:
  assumes "map_reachable db" and "old \<in> set (xd_rows db)" "ex_active old" "map_key_of old = (nx_project inp, nx_goal inp)"
    and "persist_exploration uuid now inp db = (db', Some (uuid, i))"
  shows "\<exists>old' new. get_exploration_history (ex_id old) (xd_rows db') = Some [old', new] \<and>
     ex_id old' = ex_id old \<and> \<not> ex_active old' \<and> ex_id new = i \<and> ex_active new \<and> ex_uuid new = uuid \<and>
     ex_version new = ex_version old \<and> ex_epoch new = current_project_epoch (nx_project inp) (xd_epochs db)"
proof -
  let ?e = "current_project_epoch (nx_project inp) (xd_epochs db)" and ?i = "next_rowid ex_id (xd_rows db)"
  have inv: "chain_inv ex_id map_key_of ex_active ex_superseded (xd_rows db)" "ex_version old = 1"
    using map_reachable_inv [OF assms(1)] assms(2) by (simp_all add: map_inv_def list_all_iff)
  then have wf: "rows_wf ex_id (xd_rows db)" "one_live map_key_of ex_active (xd_rows db)" by (simp_all add: chain_inv_def)
  have f: "List.find (\<lambda>r. ex_active r \<and> map_key_of r = (nx_project inp, nx_goal inp)) (xd_rows db) = Some old"
    by (rule find_unique) (use assms(2-4) one_liveD [OF wf(2)] in auto)
  let ?old = "old\<lparr>ex_active := False, ex_superseded := Some ?i\<rparr>" and ?new = "fresh_map uuid now ?e inp ?i"
  have rows: "xd_rows db' = map (\<lambda>r. if r = old then ?old else r) (xd_rows db) @ [?new]" "i = ?i"
    using assms(5) persist_supersedes [OF wf(1) f, of uuid now ?e] by (auto simp: persist_exploration_def split: if_splits)
  have "map_inv db'" using persist_inv [OF map_reachable_inv [OF assms(1)], of uuid now inp] assms(5) by simp
  then have wf': "rows_wf ex_id (xd_rows db')" by (simp add: map_inv_def chain_inv_def)
  have "List.find (\<lambda>r. ex_id r = ex_id old) (xd_rows db') = Some ?old"
    by (rule find_by_id [OF wf']) (use rows assms(2) in auto)
  moreover have "List.find (\<lambda>r. ex_id r = ?i) (xd_rows db') = Some ?new"
    by (rule find_by_id [OF wf']) (use rows in auto)
  ultimately have "get_exploration_history (ex_id old) (xd_rows db') = Some [?old, ?new]"
    by (simp add: get_exploration_history_def history_walk.simps)
  then show ?thesis using rows(2) inv(2) by (intro exI [of _ ?old] exI [of _ ?new]) simp
qed

definition demo_map :: "string \<Rightarrow> new_exploration" where
  "demo_map body =
     \<lparr>nx_project = ''p'', nx_buffer = Some 1, nx_goal = ''g'', nx_body = body, nx_summary = ''s'', nx_anchors = [],
      nx_created_by = ''ann'', nx_model = None, nx_template = [], nx_tokens = 0\<rparr>"

definition demo_maps :: exploration_db where
  "demo_maps = fst (bump_project_epoch ''p''
     (fst (persist_exploration ''u1'' 10 (demo_map ''old'') \<lparr>xd_rows = [], xd_anchors = [], xd_epochs = []\<rparr>)))"

lemma demo_maps_reachable: "map_reachable demo_maps"
proof -
  have "map_reachable \<lparr>xd_rows = [], xd_anchors = [], xd_epochs = []\<rparr>" by (simp add: map_reachable_def)
  from map_reachable_step [OF map_reachable_step [OF this ms_persist] ms_epoch] show ?thesis by (simp add: demo_maps_def)
qed

lemma map_as_of_witness:
  "\<exists>r. get_exploration_as_of ''p'' ''g'' 0 (xd_rows (fst (persist_exploration ''u2'' 20 (demo_map ''new'') demo_maps))) = Some r \<and>
     ex_body r = ''old''"
proof -
  let ?db = "fst (persist_exploration ''u2'' 20 (demo_map ''new'') demo_maps)"
  have reach: "map_reachable ?db" by (rule map_reachable_step [OF demo_maps_reachable ms_persist])
  have rows: "map (\<lambda>r. (map_key_of r, ex_epoch r, ex_body r)) (xd_rows ?db) =
      [((''p'', ''g''), 0, ''old''), ((''p'', ''g''), 1, ''new'')]" by code_simp
  then obtain a b where ab: "xd_rows ?db = [a, b]" "map_key_of a = (''p'', ''g'')" "ex_epoch a = 0" "ex_body a = ''old''"
    "ex_epoch b = 1" by (auto simp: map_eq_Cons_conv)
  from map_as_of [OF reach, of "''p''" "''g''" 0] ab show ?thesis
    by (cases "get_exploration_as_of ''p'' ''g'' 0 (xd_rows ?db)") auto
qed

lemma map_supersede_witness:
  "\<exists>a b. get_exploration_history 1 (xd_rows (fst (persist_exploration ''u2'' 20 (demo_map ''new'') demo_maps))) = Some [a, b] \<and>
     ex_version b = 1 \<and> ex_epoch b = 1"
proof -
  have "map (\<lambda>r. (ex_id r, ex_active r, map_key_of r, ex_version r)) (xd_rows demo_maps) = [(1, True, (''p'', ''g''), 1)]" by code_simp
  then obtain old where old: "old \<in> set (xd_rows demo_maps)" "ex_active old" "ex_id old = 1" "map_key_of old = (''p'', ''g'')"
    "ex_version old = 1" by (auto simp: map_eq_Cons_conv)
  have e: "current_project_epoch ''p'' (xd_epochs demo_maps) = 1" by code_simp
  have "snd (persist_exploration ''u2'' 20 (demo_map ''new'') demo_maps) = Some (''u2'', 2)" by code_simp
  then obtain db' where p: "persist_exploration ''u2'' 20 (demo_map ''new'') demo_maps = (db', Some (''u2'', 2))"
    by (metis prod.collapse)
  have "map_key_of old = (nx_project (demo_map ''new''), nx_goal (demo_map ''new''))" using old(4) by (simp add: demo_map_def)
  from map_supersede [OF demo_maps_reachable old(1,2) this p] old(3,5) e show ?thesis
    unfolding p by (auto simp: demo_map_def)
qed

end
