(* ===== verification/Chunk_Index.thy ===== *)
theory Chunk_Index
  imports Chunk_Store Rust_Text
begin

text \<open>
  Cutting a file into chunks (\<^verbatim>\<open>crates/arags-server/src/indexing.rs\<close>) and reading it off the
  stream (\<^verbatim>\<open>crates/arags-server/src/grpc/index.rs\<close>). SHA-256 and the zstd decoder are
  arguments. A path is relative and ASCII. Lemmas: the chunks cover the file without a gap,
  within the line budget and with the overlap asked for.
\<close>

section \<open>Lines\<close>

text \<open>\<open>str::lines\<close>: the last line may lack its newline; \<open>\r\<close> is cut off only before \<open>\n\<close>.\<close>

definition strip_cr :: "string \<Rightarrow> string" where
  "strip_cr l = (if l \<noteq> [] \<and> last l = CHR 0x0D then butlast l else l)"

fun lines_acc :: "string \<Rightarrow> string \<Rightarrow> string list" where
  "lines_acc cur [] = (if cur = [] then [] else [rev cur])"
| "lines_acc cur (c # cs) = (if c = CHR 0x0A then strip_cr (rev cur) # lines_acc [] cs else lines_acc (c # cur) cs)"

definition lines :: "string \<Rightarrow> string list" where
  "lines content = lines_acc [] content"

section \<open>Languages\<close>

fun split_slash :: "string \<Rightarrow> string \<Rightarrow> string list" where
  "split_slash cur [] = [rev cur]"
| "split_slash cur (c # cs) = (if c = CHR ''/'' then rev cur # split_slash [] cs else split_slash (c # cur) cs)"

text \<open>\<open>Path::file_name\<close> and \<open>Path::extension\<close>.\<close>

definition path_file_name :: "string \<Rightarrow> string option" where
  "path_file_name path =
     (let parts = filter (\<lambda>p. p \<noteq> [] \<and> p \<noteq> ''.'') (split_slash [] path)
      in if parts = [] \<or> last parts = ''..'' then None else Some (last parts))"

definition path_extension :: "string \<Rightarrow> string option" where
  "path_extension path =
     (case path_file_name path of
        None \<Rightarrow> None
      | Some name \<Rightarrow>
          let tail = takeWhile (\<lambda>c. c \<noteq> CHR ''.'') (rev name)
          in if length tail + 1 < length name then Some (rev tail) else None)"

definition infer_language :: "string \<Rightarrow> string option" where
  "infer_language path =
     (case path_extension path of
        None \<Rightarrow> None
      | Some e \<Rightarrow>
          let ext = ascii_lower e
          in if ext = ''rs'' then Some ''rust''
             else if ext = ''py'' then Some ''python''
             else if ext \<in> {''js'', ''jsx'', ''ts'', ''tsx''} then Some ''javascript''
             else if ext = ''go'' then Some ''go''
             else if ext = ''java'' then Some ''java''
             else if ext \<in> {''c'', ''h''} then Some ''c''
             else if ext \<in> {''cpp'', ''cc'', ''cxx'', ''hpp''} then Some ''cpp''
             else if ext = ''rb'' then Some ''ruby''
             else if ext = ''php'' then Some ''php''
             else if ext \<in> {''md'', ''markdown''} then Some ''markdown''
             else None)"

definition classify :: "string \<Rightarrow> string" where
  "classify path =
     (case map_option ascii_lower (infer_language path) of
        Some lang \<Rightarrow> if lang = ''markdown'' then ''markdown'' else ''code''
      | None \<Rightarrow> ''text'')"

section \<open>Chunking\<close>

definition as_i32 :: "nat \<Rightarrow> int" where
  "as_i32 n = (int n + 2 ^ 31) mod 2 ^ 32 - 2 ^ 31"

text \<open>The loop of \<open>chunk_lines\<close>; its clamped bounds are computed where they are used.\<close>

definition line_budget :: "nat \<Rightarrow> nat" where
  "line_budget max_lines = max 1 max_lines"

definition line_overlap :: "nat \<Rightarrow> nat \<Rightarrow> nat" where
  "line_overlap max_lines overlap = min overlap (line_budget max_lines - 1)"

function chunk_from :: "nat \<Rightarrow> nat \<Rightarrow> string list \<Rightarrow> nat \<Rightarrow> (int \<times> int \<times> string) list" where
  "chunk_from max_lines overlap ls start =
     (if length ls \<le> start then []
      else let stop = min (start + line_budget max_lines) (length ls);
               txt = join [CHR 0x0A] (take (stop - start) (drop start ls))
           in (as_i32 (start + 1), as_i32 stop, txt) #
              (if length ls \<le> stop then [] else chunk_from max_lines overlap ls (stop - line_overlap max_lines overlap)))"
  by pat_completeness auto
termination
  by (relation "measure (\<lambda>(m, overlap, ls, start). length ls - start)")
    (auto simp: line_overlap_def line_budget_def min_def max_def split: if_splits)

declare chunk_from.simps [simp del]

definition chunk_lines :: "string \<Rightarrow> nat \<Rightarrow> nat \<Rightarrow> (int \<times> int \<times> string) list" where
  "chunk_lines content max_lines overlap =
     (if content = [] then [] else chunk_from max_lines overlap (lines content) 0)"

definition hash_text :: "(string \<Rightarrow> string) \<Rightarrow> string \<Rightarrow> string" where
  "hash_text sha256 txt = hex_encode (sha256 txt)"

definition index_file_with :: "(string \<Rightarrow> string) \<Rightarrow> string \<Rightarrow> string \<Rightarrow> nat \<Rightarrow> nat \<Rightarrow> indexed_chunk list" where
  "index_file_with sha256 path content max_lines overlap =
     map (\<lambda>(line_start, line_end, txt).
            \<lparr>ix_file = path, ix_line_start = line_start, ix_line_end = line_end, ix_content = txt,
             ix_hash = hash_text sha256 txt, ix_language = infer_language path, ix_type = classify path\<rparr>)
       (chunk_lines content max_lines overlap)"

definition default_max_lines :: nat where
  "default_max_lines = 80"

definition default_overlap_lines :: nat where
  "default_overlap_lines = 8"

definition index_file :: "(string \<Rightarrow> string) \<Rightarrow> string \<Rightarrow> string \<Rightarrow> indexed_chunk list" where
  "index_file sha256 path content = index_file_with sha256 path content default_max_lines default_overlap_lines"

definition tokens_to_lines :: "nat \<Rightarrow> nat" where
  "tokens_to_lines tokens = (if tokens = 0 then default_max_lines else max (tokens div 10) 1)"

text \<open>\<open>zstd\<close> decodes, or fails.\<close>

record index_file_msg =
  if_path :: string
  if_content :: string
  if_compressed :: bool

definition decode_content :: "(string \<Rightarrow> string option) \<Rightarrow> index_file_msg \<Rightarrow> string option" where
  "decode_content zstd f =
     (case (if if_compressed f then zstd (if_content f) else Some (if_content f)) of
        None \<Rightarrow> None
      | Some bytes \<Rightarrow> if valid_utf8 bytes then Some bytes else None)"

section \<open>The chunks of a file\<close>

lemma as_i32_small [simp]: "n < 2 ^ 31 \<Longrightarrow> as_i32 n = int n"
  by (simp add: as_i32_def)

text \<open>What one chunk must be: some lines in the budget, with their text.\<close>

definition chunk_of_lines :: "nat \<Rightarrow> string list \<Rightarrow> int \<times> int \<times> string \<Rightarrow> bool" where
  "chunk_of_lines budget ls = (\<lambda>(a, b, txt).
     1 \<le> a \<and> a \<le> b \<and> b \<le> int (length ls) \<and> b - a < int budget \<and>
     txt = join [CHR 0x0A] (take (nat (b - a + 1)) (drop (nat (a - 1)) ls)))"

definition overlapping :: "nat \<Rightarrow> (int \<times> int \<times> string) list \<Rightarrow> bool" where
  "overlapping ov cs \<longleftrightarrow> (\<forall>i. Suc i < length cs \<longrightarrow> fst (cs ! Suc i) = fst (snd (cs ! i)) + 1 - int ov)"

lemma overlapping_Cons:
  "overlapping ov (c # cs) \<longleftrightarrow> (cs \<noteq> [] \<longrightarrow> fst (hd cs) = fst (snd c) + 1 - int ov) \<and> overlapping ov cs"
proof
  assume o: "overlapping ov (c # cs)"
  have "fst (cs ! Suc i) = fst (snd (cs ! i)) + 1 - int ov" if "Suc i < length cs" for i
    using o [unfolded overlapping_def, rule_format, of "Suc i"] that by simp
  then show "(cs \<noteq> [] \<longrightarrow> fst (hd cs) = fst (snd c) + 1 - int ov) \<and> overlapping ov cs"
    using o [unfolded overlapping_def, rule_format, of 0] by (auto simp: overlapping_def hd_conv_nth)
next
  assume "(cs \<noteq> [] \<longrightarrow> fst (hd cs) = fst (snd c) + 1 - int ov) \<and> overlapping ov cs"
  then show "overlapping ov (c # cs)"
    unfolding overlapping_def by (auto simp: hd_conv_nth nth_Cons split: nat.split)
qed

lemma line_overlap_less: "line_overlap m ov < line_budget m"
  by (auto simp: line_overlap_def line_budget_def)

lemma chunk_from_spec:
  assumes "start < length ls" and "length ls < 2 ^ 31"
  shows "chunk_from m ov ls start \<noteq> [] \<and> fst (hd (chunk_from m ov ls start)) = int start + 1 \<and>
    fst (snd (last (chunk_from m ov ls start))) = int (length ls) \<and>
    list_all (chunk_of_lines (line_budget m) ls) (chunk_from m ov ls start) \<and>
    overlapping (line_overlap m ov) (chunk_from m ov ls start) \<and> sorted_wrt (<) (map fst (chunk_from m ov ls start))"
  using assms
proof (induction m ov ls start rule: chunk_from.induct)
  case (1 m ov ls start)
  let ?stop = "min (start + line_budget m) (length ls)" and ?next = "min (start + line_budget m) (length ls) - line_overlap m ov"
  let ?c = "(as_i32 (start + 1), as_i32 ?stop, join [CHR 0x0A] (take (?stop - start) (drop start ls)))"
  have pos: "0 < line_budget m" by (simp add: line_budget_def)
  have c: "fst ?c = int start + 1" "fst (snd ?c) = int ?stop" using 1(2,3) by simp_all
  have ok: "chunk_of_lines (line_budget m) ls ?c"
    using 1(2,3) pos by (auto simp: chunk_of_lines_def nat_diff_distrib min_def nat_add_distrib)
  show ?case
  proof (cases "length ls \<le> ?stop")
    case True
    have "chunk_from m ov ls start = [?c]" using 1(2) True by (subst chunk_from.simps) (simp add: Let_def)
    then show ?thesis using c ok True by (simp add: overlapping_def)
  next
    case False
    have eq: "chunk_from m ov ls start = ?c # chunk_from m ov ls ?next"
      using 1(2) False by (subst chunk_from.simps) (simp add: Let_def)
    have lt: "?next < length ls" "start < ?next" using False line_overlap_less [of m ov] by auto
    note ih = 1(1) [OF _ refl refl False lt(1) 1(3)]
    have ih: "chunk_from m ov ls ?next \<noteq> []" "fst (hd (chunk_from m ov ls ?next)) = int ?next + 1"
      "fst (snd (last (chunk_from m ov ls ?next))) = int (length ls)"
      "list_all (chunk_of_lines (line_budget m) ls) (chunk_from m ov ls ?next)"
      "overlapping (line_overlap m ov) (chunk_from m ov ls ?next)"
      "sorted_wrt (<) (map fst (chunk_from m ov ls ?next))" using ih 1(2) by auto
    have "int ?next + 1 = int ?stop + 1 - int (line_overlap m ov)" using lt(2) by linarith
    then have "overlapping (line_overlap m ov) (?c # chunk_from m ov ls ?next)"
      unfolding overlapping_Cons using ih(2,5) c(2) by simp
    moreover have "fst ?c < x" if "x \<in> set (map fst (chunk_from m ov ls ?next))" for x
    proof -
      obtain y ys where ys: "chunk_from m ov ls ?next = y # ys" using ih(1) by (cases "chunk_from m ov ls ?next") auto
      have "fst y = int ?next + 1" using ih(2) ys by simp
      moreover have "fst y \<le> x" using ih(6) that ys by fastforce
      ultimately show ?thesis using lt(2) c(1) by linarith
    qed
    ultimately show ?thesis unfolding eq using c(1) ok ih by simp
  qed
qed

lemma lines_acc_nonempty: "cur \<noteq> [] \<or> s \<noteq> [] \<Longrightarrow> lines_acc cur s \<noteq> []"
  by (induction cur s rule: lines_acc.induct) auto

section \<open>Properties\<close>

text \<open>
  C22: The chunks of a file that is not empty start at its first line and end at its last, each is
  the text of at most \<open>max_lines\<close> lines of it, each begins \<open>overlap\<close> lines before the end of
  the one before (an overlap of the whole budget is cut so that the next chunk still moves
  on), and no two begin at the same line.
\<close>

theorem chunk_lines_cover:
  assumes "content \<noteq> []" and "length (lines content) < 2 ^ 31" and "cs = chunk_lines content max_lines overlap"
  shows "cs \<noteq> [] \<and> fst (hd cs) = 1 \<and> fst (snd (last cs)) = int (length (lines content)) \<and>
    list_all (chunk_of_lines (line_budget max_lines) (lines content)) cs \<and>
    overlapping (line_overlap max_lines overlap) cs \<and> distinct (map fst cs)"
proof -
  have "lines content \<noteq> []" using assms(1) lines_acc_nonempty [of "[]" content] by (simp add: lines_def)
  from chunk_from_spec [of 0 "lines content" max_lines overlap] this assms(2) show ?thesis
    unfolding assms(3) chunk_lines_def using assms(1) by (simp add: strict_sorted_iff)
qed

definition demo_file :: string where
  "demo_file = [CHR ''a'', CHR 0x0A, CHR ''b'', CHR 0x0A, CHR ''c'']"

lemma demo_file_lines: "lines demo_file = [''a'', ''b'', ''c'']" "demo_file \<noteq> []"
  by code_simp (simp add: demo_file_def)

lemma chunk_lines_cover_witness:
  "chunk_lines demo_file 2 1 = [(1, 2, [CHR ''a'', CHR 0x0A, CHR ''b'']), (2, 3, [CHR ''b'', CHR 0x0A, CHR ''c''])] \<and>
   fst (snd (last (chunk_lines demo_file 2 1))) = 3"
proof -
  have "length (lines demo_file) < 2 ^ 31" by (simp add: demo_file_lines)
  from chunk_lines_cover [OF demo_file_lines(2) this refl, of 2 1]
  have "fst (snd (last (chunk_lines demo_file 2 1))) = 3" by (simp add: demo_file_lines)
  moreover have "chunk_lines demo_file 2 1 = [(1, 2, [CHR ''a'', CHR 0x0A, CHR ''b'']), (2, 3, [CHR ''b'', CHR 0x0A, CHR ''c''])]"
    by (simp add: chunk_lines_def demo_file_lines chunk_from.simps line_budget_def line_overlap_def)
  ultimately show ?thesis by blast
qed

text \<open>The keys of the chunks of one file are distinct.\<close>

lemma index_file_keys:
  assumes "length (lines content) < 2 ^ 31"
  shows "distinct (map (\<lambda>c. (ix_line_start c, ix_line_end c)) (index_file_with sha256 path content m ov))"
proof (cases "content = []")
  case True
  then show ?thesis by (simp add: index_file_with_def chunk_lines_def)
next
  case False
  have "lines content \<noteq> []" using False lines_acc_nonempty [of "[]" content] by (simp add: lines_def)
  from chunk_from_spec [of 0 "lines content" m ov] this assms
  have "distinct (map fst (chunk_lines content m ov))" using False
    by (auto simp: chunk_lines_def simp: strict_sorted_iff)
  moreover have "map fst (map (\<lambda>c. (ix_line_start c, ix_line_end c)) (index_file_with sha256 path content m ov)) =
      map fst (chunk_lines content m ov)"
    by (simp add: index_file_with_def comp_def case_prod_beta)
  ultimately show ?thesis by (metis distinct_map)
qed

lemma index_file_path: "c \<in> set (index_file_with sha256 path content m ov) \<Longrightarrow> ix_file c = path"
  by (auto simp: index_file_with_def)

end
