(* ===== verification/Projects.thy ===== *)
theory Projects
  imports Chunk_Store Access Rust_Text
begin

text \<open>
  Projects, stored as buffers (\<^verbatim>\<open>crates/arags-storage/src/sqlite/buffers.rs\<close>,
  \<^verbatim>\<open>crates/arags-server/src/store/projects.rs\<close>, \<^verbatim>\<open>crates/arags-server/src/grpc/project.rs\<close>).
  New UUIDs are arguments. Names and UUIDs are unique columns; a conflict is an error of the
  insert, or makes \<open>INSERT OR IGNORE\<close> do nothing. Lemmas: the table stays well-formed, and
  ensuring a project twice gives the same buffer.
\<close>

record buffer =
  bf_id :: row_id
  bf_uuid :: "string option"
  bf_name :: string
  bf_path :: string
  bf_chunks :: int
  bf_files :: int
  bf_model :: "string option"
  bf_dims :: "int option"
  bf_indexed :: "seconds option"
  bf_created :: seconds

record buffer_db =
  bd_rows :: "buffer list"
  bd_seq :: row_id

definition new_buffer :: "seconds \<Rightarrow> string \<Rightarrow> string \<Rightarrow> string \<Rightarrow> row_id \<Rightarrow> buffer" where
  "new_buffer now uuid name path i =
     \<lparr>bf_id = i, bf_uuid = Some uuid, bf_name = name, bf_path = path, bf_chunks = 0, bf_files = 0, bf_model = None,
      bf_dims = None, bf_indexed = None, bf_created = now\<rparr>"

definition buffer_conflict :: "string \<Rightarrow> string \<Rightarrow> buffer list \<Rightarrow> bool" where
  "buffer_conflict uuid name rows = list_ex (\<lambda>b. bf_name b = name \<or> bf_uuid b = Some uuid) rows"

definition insert_buffer :: "seconds \<Rightarrow> string \<Rightarrow> string \<Rightarrow> string \<Rightarrow> buffer_db \<Rightarrow> buffer_db \<times> row_id option" where
  "insert_buffer now uuid name path db =
     (if buffer_conflict uuid name (bd_rows db) then (db, None)
      else let i = bd_seq db + 1
           in (\<lparr>bd_rows = bd_rows db @ [new_buffer now uuid name path i], bd_seq = i\<rparr>, Some i))"

definition insert_project :: "seconds \<Rightarrow> string \<Rightarrow> string \<Rightarrow> string \<Rightarrow> buffer_db \<Rightarrow> buffer_db \<times> row_id option" where
  "insert_project now uuid name path db = insert_buffer now uuid name path db"

definition get_buffer :: "row_id \<Rightarrow> buffer list \<Rightarrow> buffer option" where
  "get_buffer i rows = List.find (\<lambda>b. bf_id b = i) rows"

definition get_buffer_by_name :: "string \<Rightarrow> buffer list \<Rightarrow> buffer option" where
  "get_buffer_by_name name rows = List.find (\<lambda>b. bf_name b = name) rows"

definition get_buffer_by_uuid :: "string \<Rightarrow> buffer list \<Rightarrow> buffer option" where
  "get_buffer_by_uuid uuid rows = List.find (\<lambda>b. bf_uuid b = Some uuid) rows"

definition list_buffers :: "buffer list \<Rightarrow> buffer list" where
  "list_buffers rows = order_by (\<lambda>a b. lex_le (text_key (bf_name a)) (text_key (bf_name b))) rows"

text \<open>\<open>INSERT OR IGNORE\<close>, then the id is read back by name.\<close>

definition ensure_project :: "seconds \<Rightarrow> string \<Rightarrow> string \<Rightarrow> string \<Rightarrow> buffer_db \<Rightarrow> buffer_db \<times> row_id option" where
  "ensure_project now uuid name path db =
     (let db' = fst (insert_buffer now uuid name path db)
      in (db', map_option bf_id (get_buffer_by_name name (bd_rows db'))))"

text \<open>Both columns have an index; the one of the first condition is searched first.\<close>

definition buffer_id_for_project :: "string \<Rightarrow> buffer list \<Rightarrow> row_id option" where
  "buffer_id_for_project project rows =
     map_option bf_id (case get_buffer_by_name project rows of Some b \<Rightarrow> Some b | None \<Rightarrow> get_buffer_by_uuid project rows)"

definition ensure_uuids :: "(row_id \<Rightarrow> string) \<Rightarrow> buffer_db \<Rightarrow> buffer_db \<times> nat" where
  "ensure_uuids uuid db =
     (db\<lparr>bd_rows := update_where (\<lambda>b. bf_uuid b = None) (\<lambda>b. b\<lparr>bf_uuid := Some (uuid (bf_id b))\<rparr>) (bd_rows db)\<rparr>,
      count_where (\<lambda>b. bf_uuid b = None) (bd_rows db))"

definition update_buffer_counts ::
  "seconds \<Rightarrow> row_id \<Rightarrow> int \<Rightarrow> int \<Rightarrow> (string \<times> int) option \<Rightarrow> buffer_db \<Rightarrow> buffer_db" where
  "update_buffer_counts now i total_chunks total_files embedding db =
     db\<lparr>bd_rows := update_where (\<lambda>b. bf_id b = i)
          (\<lambda>b. (case embedding of None \<Rightarrow> b | Some (m, d) \<Rightarrow> b\<lparr>bf_model := Some m, bf_dims := Some d\<rparr>)
               \<lparr>bf_chunks := total_chunks, bf_files := total_files, bf_indexed := Some now\<rparr>) (bd_rows db)\<rparr>"

definition increment_buffer_counts ::
  "seconds \<Rightarrow> row_id \<Rightarrow> int \<Rightarrow> int \<Rightarrow> string \<Rightarrow> int \<Rightarrow> buffer_db \<Rightarrow> buffer_db" where
  "increment_buffer_counts now i delta_chunks delta_files embedding_model embedding_dims db =
     db\<lparr>bd_rows := update_where (\<lambda>b. bf_id b = i)
          (\<lambda>b. b\<lparr>bf_chunks := bf_chunks b + delta_chunks, bf_files := bf_files b + delta_files,
                 bf_model := Some embedding_model, bf_dims := Some embedding_dims, bf_indexed := Some now\<rparr>) (bd_rows db)\<rparr>"

definition delete_buffer :: "row_id \<Rightarrow> buffer_db \<times> chunk_db \<Rightarrow> buffer_db \<times> chunk_db" where
  "delete_buffer i = (\<lambda>(bufs, chunks).
     (bufs\<lparr>bd_rows := filter (\<lambda>b. bf_id b \<noteq> i) (bd_rows bufs)\<rparr>,
      drop_chunks (set (map ck_id (filter (\<lambda>c. ck_buffer c = i) (cd_rows chunks)))) chunks))"

section \<open>Project RPCs\<close>

record project_info =
  pi_id :: string
  pi_name :: string
  pi_root :: string
  pi_chunks :: int
  pi_files :: int
  pi_created :: seconds

definition project_to_info :: "buffer \<Rightarrow> project_info" where
  "project_to_info b =
     \<lparr>pi_id = (case bf_uuid b of Some u \<Rightarrow> u | None \<Rightarrow> show_int (bf_id b)), pi_name = bf_name b, pi_root = bf_path b,
      pi_chunks = bf_chunks b, pi_files = bf_files b, pi_created = bf_created b\<rparr>"

definition handle_create_project ::
  "seconds \<Rightarrow> string \<Rightarrow> string \<Rightarrow> string \<Rightarrow> buffer_db \<Rightarrow> buffer_db \<times> (rpc_status + project_info)" where
  "handle_create_project now uuid name root_path db =
     (if trim name = [] then (db, Inl (Invalid_Argument ''project name is required''))
      else if trim root_path = [] then (db, Inl (Invalid_Argument ''project root_path is required''))
      else case insert_project now uuid name root_path db of
        (db', None) \<Rightarrow> (db', Inl (Internal ''failed to insert project''))
      | (db', Some i) \<Rightarrow>
          (case get_buffer i (bd_rows db') of
             None \<Rightarrow> (db', Inl (Not_Found ''project just created is missing''))
           | Some b \<Rightarrow> (db', Inr (project_to_info b))))"

definition handle_list_projects :: "buffer_db \<Rightarrow> project_info list" where
  "handle_list_projects db = map project_to_info (list_buffers (bd_rows db))"

definition handle_get_project :: "string \<Rightarrow> buffer_db \<Rightarrow> rpc_status + project_info" where
  "handle_get_project project db =
     (case (case get_buffer_by_uuid project (bd_rows db) of Some b \<Rightarrow> Some b | None \<Rightarrow> get_buffer_by_name project (bd_rows db)) of
        None \<Rightarrow> Inl (Not_Found ''project not found'')
      | Some b \<Rightarrow> Inr (project_to_info b))"

section \<open>Invariant\<close>

definition buffers_inv :: "buffer_db \<Rightarrow> bool" where
  "buffers_inv db \<longleftrightarrow> rows_wf bf_id (bd_rows db) \<and> (\<forall>b\<in>set (bd_rows db). bf_id b \<le> bd_seq db) \<and> 0 \<le> bd_seq db \<and>
     distinct (map bf_name (bd_rows db)) \<and> distinct (map bf_uuid (filter (\<lambda>b. bf_uuid b \<noteq> None) (bd_rows db)))"

lemma buffers_inv_insert:
  assumes "buffers_inv db"
  shows "buffers_inv (fst (insert_buffer now uuid name path db))"
proof (cases "buffer_conflict uuid name (bd_rows db)")
  case False
  then have "name \<notin> bf_name ` set (bd_rows db)" "Some uuid \<notin> bf_uuid ` set (bd_rows db)"
    by (auto simp: buffer_conflict_def list_ex_iff)
  moreover have "bd_seq db + 1 \<notin> bf_id ` set (bd_rows db)" using assms by (force simp: buffers_inv_def)
  ultimately show ?thesis using assms False
    by (auto simp: buffers_inv_def insert_buffer_def Let_def new_buffer_def rows_wf_def)
qed (simp add: insert_buffer_def assms)

lemma ensure_project_inv: "buffers_inv db \<Longrightarrow> buffers_inv (fst (ensure_project now uuid name path db))"
  by (simp add: ensure_project_def Let_def buffers_inv_insert)

lemma buffers_inv_counts:
  assumes "buffers_inv db"
  shows "buffers_inv (increment_buffer_counts now i dc df m d db)"
proof -
  let ?f = "\<lambda>b. b\<lparr>bf_chunks := bf_chunks b + dc, bf_files := bf_files b + df, bf_model := Some m, bf_dims := Some d, bf_indexed := Some now\<rparr>"
  have col: "map g (update_where p ?f rows) = map g rows" if "\<And>b. g (?f b) = g b" for p rows and g :: "buffer \<Rightarrow> 'a"
    using that by (auto simp: update_where_def)
  have uuids: "map bf_uuid (filter (\<lambda>b. bf_uuid b \<noteq> None) (update_where p ?f rows)) = map bf_uuid (filter (\<lambda>b. bf_uuid b \<noteq> None) rows)" for p rows
    by (induction rows) (auto simp: update_where_Nil update_where_Cons)
  define rows where "rows = update_where (\<lambda>b. bf_id b = i) ?f (bd_rows db)"
  have "rows_wf bf_id rows" "\<forall>b\<in>set rows. bf_id b \<le> bd_seq db"
    using assms by (auto simp: rows_def buffers_inv_def rows_wf_update_where in_set_update_where)
  moreover have "map bf_name rows = map bf_name (bd_rows db)" unfolding rows_def by (rule col) simp
  moreover have "map bf_uuid (filter (\<lambda>b. bf_uuid b \<noteq> None) rows) = map bf_uuid (filter (\<lambda>b. bf_uuid b \<noteq> None) (bd_rows db))"
    unfolding rows_def by (rule uuids)
  ultimately have "buffers_inv (db\<lparr>bd_rows := rows\<rparr>)" using assms by (simp add: buffers_inv_def)
  then show ?thesis by (simp add: increment_buffer_counts_def rows_def)
qed

text \<open>A project that exists is found again, whatever path or UUID comes with the request.\<close>

lemma ensure_project_known:
  "buffers_inv db \<Longrightarrow> b \<in> set (bd_rows db) \<Longrightarrow> bf_name b = name \<Longrightarrow> ensure_project now uuid name path db = (db, Some (bf_id b))"
proof -
  assume a: "buffers_inv db" "b \<in> set (bd_rows db)" "bf_name b = name"
  have "distinct (map bf_name (bd_rows db))" using a(1) by (simp add: buffers_inv_def)
  then have "get_buffer_by_name name (bd_rows db) = Some b"
    unfolding get_buffer_by_name_def using a(2,3) by (intro find_unique) (auto simp: distinct_map inj_on_def)
  moreover have "buffer_conflict uuid name (bd_rows db)" using a(2,3) by (auto simp: buffer_conflict_def list_ex_iff)
  ultimately show ?thesis by (simp add: ensure_project_def insert_buffer_def)
qed

end
