(* ===== verification/Index_Stream.thy ===== *)
theory Index_Stream
  imports Chunk_Index Projects Search_Tiers Explorations Qa_Cache Rlm_Motor
begin

text \<open>
  One \<open>IndexProject\<close> stream (\<^verbatim>\<open>crates/arags-server/src/grpc/index.rs\<close>) over the tables it
  writes, and the groups a client sends (\<^verbatim>\<open>crates/arags-cli/src/dispatch/index.rs\<close>). The
  embedding tasks run in the background, but what they computed is committed only where they
  are drained, last started first: here a started task is its batch of texts. A stream that
  fails keeps what it wrote, and its pending tasks are dropped. Hash sets of keys are lists
  without repetition; the order in which orphans are retired does not matter to the result.
  Lemmas: what is live in the buffer after a stream, and what that means for several groups.
\<close>

section \<open>State\<close>

record index_state =
  is_buffers :: buffer_db
  is_chunks :: chunk_db
  is_vectors :: "vector_store option"
  is_qa :: qa_db
  is_maps :: exploration_db
  is_rlm :: rlm_store
  is_audit :: "(string \<times> string \<times> string) list"

text \<open>Configuration, and the library functions and clocks of one call.\<close>

record index_env =
  ie_max_tokens :: nat
  ie_overlap_tokens :: nat
  ie_batch_size :: nat
  ie_max_batch :: nat
  ie_pool_threads :: nat
  ie_explorations :: bool
  ie_rlm :: bool
  ie_model :: string
  ie_dims :: int
  ie_sha256 :: "string \<Rightarrow> string"
  ie_zstd :: "string \<Rightarrow> string option"
  ie_extract :: "string \<Rightarrow> string \<Rightarrow> string list"
  ie_embed :: "string list \<Rightarrow> embedding list option"
  ie_uuid :: string
  ie_secs :: seconds
  ie_millis :: millis
  ie_payload :: "rlm_payload \<Rightarrow> string"

datatype index_msg = Msg_Init string string | Msg_File index_file_msg | Msg_Empty | Msg_Error rpc_status

type_synonym embed_task = "row_id \<times> (row_id \<times> string) list"

text \<open>A task is the buffer of its entries and its batch. The locals of the loop; the stack of tasks is newest first.\<close>

record stream_state =
  ss_state :: index_state
  ss_project :: "string option"
  ss_buffer :: "row_id option"
  ss_total_chunks :: nat
  ss_files :: nat
  ss_persisted :: "(row_id \<times> string) list"
  ss_snapshot :: "(chunk_key \<times> row_id) list option"
  ss_remaining :: "chunk_key list"
  ss_inserted :: nat
  ss_retired :: nat
  ss_tasks :: "embed_task list"

definition start_stream :: "index_state \<Rightarrow> stream_state" where
  "start_stream st =
     \<lparr>ss_state = st, ss_project = None, ss_buffer = None, ss_total_chunks = 0, ss_files = 0, ss_persisted = [],
      ss_snapshot = None, ss_remaining = [], ss_inserted = 0, ss_retired = 0, ss_tasks = []\<rparr>"

section \<open>Embedding tasks\<close>

definition mark_chunks_pending :: "row_id \<Rightarrow> row_id list \<Rightarrow> index_state \<Rightarrow> index_state" where
  "mark_chunks_pending buffer_id ids st =
     st\<lparr>is_chunks := (is_chunks st)\<lparr>cd_rows := mark_chunks_pending_vector buffer_id ids (cd_rows (is_chunks st))\<rparr>\<rparr>"

definition drain_embed_handle :: "index_env \<Rightarrow> row_id \<Rightarrow> embed_task \<Rightarrow> index_state \<Rightarrow> index_state" where
  "drain_embed_handle env buffer_id task st =
     (case ie_embed env (map snd (snd task)) of
        None \<Rightarrow> mark_chunks_pending buffer_id (map fst (snd task)) st
      | Some vectors \<Rightarrow>
          (case is_vectors st of
             None \<Rightarrow> st
           | Some vs \<Rightarrow>
               let entries = map (\<lambda>((i, _), v). \<lparr>ve_chunk = i, ve_buffer = fst task, ve_vector = v\<rparr>) (zip (snd task) vectors);
                   (vs', ok) = insert_vectors entries vs;
                   st' = st\<lparr>is_vectors := Some vs'\<rparr>
               in if ok then st' else mark_chunks_pending buffer_id (map fst (snd task)) st'))"

fun drain_while :: "index_env \<Rightarrow> row_id \<Rightarrow> nat \<Rightarrow> embed_task list \<Rightarrow> index_state \<Rightarrow> embed_task list \<times> index_state" where
  "drain_while env b cap [] st = ([], st)"
| "drain_while env b cap (t # ts) st =
     (if cap \<le> length (t # ts) then drain_while env b cap ts (drain_embed_handle env b t st) else (t # ts, st))"

definition purge_vectors :: "row_id list \<Rightarrow> index_state \<Rightarrow> index_state" where
  "purge_vectors ids st = (if ids = [] then st else st\<lparr>is_vectors := map_option (delete_chunk_ids ids) (is_vectors st)\<rparr>)"

section \<open>One message\<close>

definition on_init :: "index_env \<Rightarrow> string \<Rightarrow> string \<Rightarrow> stream_state \<Rightarrow> stream_state \<times> rpc_status option" where
  "on_init env project root_path ss =
     (let (bufs, pid) = ensure_project (ie_secs env) (ie_uuid env) project root_path (is_buffers (ss_state ss));
          ss' = ss\<lparr>ss_state := (ss_state ss)\<lparr>is_buffers := bufs\<rparr>\<rparr>
      in case pid of
           None \<Rightarrow> (ss', Some (Internal ''failed to ensure project''))
         | Some i \<Rightarrow> (ss'\<lparr>ss_project := Some project, ss_buffer := Some i\<rparr>, None))"

text \<open>Phase 0, deferred to the first file.\<close>

definition take_snapshot :: "row_id \<Rightarrow> stream_state \<Rightarrow> stream_state" where
  "take_snapshot b ss =
     (case ss_snapshot ss of
        Some _ \<Rightarrow> ss
      | None \<Rightarrow>
          let snap = snapshot_active_chunks b (cd_rows (is_chunks (ss_state ss)))
          in ss\<lparr>ss_snapshot := Some snap, ss_remaining := map fst snap\<rparr>)"

definition snapshot_keys_of :: "stream_state \<Rightarrow> chunk_key set" where
  "snapshot_keys_of ss = (case ss_snapshot ss of Some snap \<Rightarrow> set (map fst snap) | None \<Rightarrow> {})"

definition store_file ::
  "index_env \<Rightarrow> string option \<Rightarrow> row_id \<Rightarrow> string \<Rightarrow> indexed_chunk list \<Rightarrow> stream_state \<Rightarrow> stream_state" where
  "store_file env created_by b rel_path chunk_list ss =
     (let (chunks, res) = insert_chunks_batched (ie_extract env) (ie_secs env) b (map (\<lambda>c. (rel_path, c)) chunk_list)
                            (max 1 (ie_max_batch env)) (snapshot_keys_of ss) created_by (Some (ie_model env))
                            (is_chunks (ss_state ss));
          st = purge_vectors (bi_retired res) ((ss_state ss)\<lparr>is_chunks := chunks\<rparr>);
          ss1 = ss\<lparr>ss_state := st, ss_files := ss_files ss + 1, ss_total_chunks := ss_total_chunks ss + length chunk_list,
                   ss_persisted := ss_persisted ss @ bi_persisted res,
                   ss_remaining := filter (\<lambda>k. k \<notin> set (bi_handled res)) (ss_remaining ss),
                   ss_inserted := ss_inserted ss + bi_inserted res, ss_retired := ss_retired ss + length (bi_retired res)\<rparr>
      in if is_vectors st = None then ss1
         else let tasks = rev (map (Pair b) (rust_chunks (max 1 (ie_batch_size env)) (bi_persisted res))) @ ss_tasks ss1;
                  (left, st') = drain_while env b (max (ie_pool_threads env * 2) 4) tasks st
              in ss1\<lparr>ss_state := st', ss_tasks := left\<rparr>)"

definition on_file :: "index_env \<Rightarrow> string option \<Rightarrow> index_file_msg \<Rightarrow> stream_state \<Rightarrow> stream_state \<times> rpc_status option" where
  "on_file env created_by f ss =
     (case ss_buffer ss of
        None \<Rightarrow> (ss, Some (Invalid_Argument ''file message before init''))
      | Some b \<Rightarrow>
          let ss = take_snapshot b ss
          in case decode_content (ie_zstd env) f of
               None \<Rightarrow> (ss, Some (Internal ''content''))
             | Some content \<Rightarrow>
                 let chunk_list = index_file_with (ie_sha256 env) (if_path f) content
                                    (tokens_to_lines (ie_max_tokens env)) (tokens_to_lines (ie_overlap_tokens env))
                 in if chunk_list = [] then (ss, None)
                    else (store_file env created_by b (if_path f) chunk_list ss, None))"

fun stream_loop :: "index_env \<Rightarrow> string option \<Rightarrow> index_msg list \<Rightarrow> stream_state \<Rightarrow> stream_state \<times> rpc_status option" where
  "stream_loop env cb [] ss = (ss, None)"
| "stream_loop env cb (m # ms) ss =
     (let (ss', err) = (case m of
          Msg_Error e \<Rightarrow> (ss\<lparr>ss_tasks := []\<rparr>, Some e)
        | Msg_Init project root_path \<Rightarrow> on_init env project root_path ss
        | Msg_File f \<Rightarrow> on_file env cb f ss
        | Msg_Empty \<Rightarrow> (ss, None))
      in case err of Some e \<Rightarrow> (ss', Some e) | None \<Rightarrow> stream_loop env cb ms ss')"

section \<open>The end of a stream\<close>

definition retire_orphans :: "index_env \<Rightarrow> stream_state \<Rightarrow> index_state \<Rightarrow> index_state" where
  "retire_orphans env ss st =
     (case ss_snapshot ss of
        None \<Rightarrow> st
      | Some snap \<Rightarrow>
          let ids = map (\<lambda>k. the (map_of snap k)) (ss_remaining ss)
          in purge_vectors ids
               (st\<lparr>is_chunks := fold (\<lambda>i db. retire_row (ie_secs env) i None db) ids (is_chunks st)\<rparr>))"

definition chunk_tables_of :: "chunk_db \<Rightarrow> chunk_tables" where
  "chunk_tables_of db = (map (\<lambda>c. (ck_id c, ck_buffer c, ck_file c, sql_hex (ck_hash c))) (cd_rows db), cd_texts db)"

text \<open>The hooks: cached answers, exploration maps, stale summaries, summary work. Failures are only logged.\<close>

definition explorations_hook :: "index_env \<Rightarrow> string \<Rightarrow> index_state \<Rightarrow> index_state" where
  "explorations_hook env project st =
     (if ie_explorations env
      then st\<lparr>is_maps := fst (mark_stale_if_anchors_changed (ie_millis env) project (cd_rows (is_chunks st))
                          (fst (bump_project_epoch project (is_maps st))))\<rparr>
      else st)"

definition rlm_hooks :: "index_env \<Rightarrow> string \<Rightarrow> row_id \<Rightarrow> (row_id \<times> string) list \<Rightarrow> index_state \<Rightarrow> index_state" where
  "rlm_hooks env project b persisted st =
     (if ie_rlm env
      then let nodes = fst (mark_rlm_stale_by_hashes b (map snd persisted) (fst (is_rlm st)));
               files = sorted_dedup (chunk_file_paths (map fst persisted) (cd_rows (is_chunks st)));
               rlm = (nodes, snd (is_rlm st))
           in st\<lparr>is_rlm := (if files = [] then rlm
                    else fst (enqueue_rlm_l1_work (ie_millis env) (ie_payload env) (chunk_tables_of (is_chunks st)) b project files rlm))\<rparr>
      else st)"

record index_response =
  ir_files :: nat
  ir_chunks :: nat

definition finish_stream ::
  "index_env \<Rightarrow> string option \<Rightarrow> stream_state \<Rightarrow> index_state \<times> (rpc_status + index_response)" where
  "finish_stream env created_by ss =
     (let b0 = (case ss_buffer ss of Some b \<Rightarrow> b | None \<Rightarrow> 0);
          st = snd (drain_while env b0 0 (ss_tasks ss) (ss_state ss));
          st = retire_orphans env ss st
      in case (ss_project ss, ss_buffer ss) of
           (Some project, Some b) \<Rightarrow>
             let orphans = ss_remaining ss;
                 net_chunks = int (ss_inserted ss) - int (ss_retired ss) - int (length orphans);
                 net_files = int (ss_files ss) - int (card (fst ` set orphans));
                 st = st\<lparr>is_buffers := increment_buffer_counts (ie_secs env) b net_chunks net_files (ie_model env) (ie_dims env) (is_buffers st)\<rparr>;
                 st = st\<lparr>is_qa := fst (invalidate_stale_cache_for_buffer (\<lambda>_. ie_millis env) (\<lambda>_. ie_secs env) b
                                    (cd_rows (is_chunks st)) (is_qa st))\<rparr>;
                 st = rlm_hooks env project b (ss_persisted ss) (explorations_hook env project st);
                 st = (case created_by of Some who \<Rightarrow> st\<lparr>is_audit := is_audit st @ [(project, who, ''index'')]\<rparr> | None \<Rightarrow> st)
             in (st, Inr \<lparr>ir_files = ss_files ss, ir_chunks = ss_total_chunks ss\<rparr>)
         | (None, _) \<Rightarrow> (st, Inl (Invalid_Argument ''index stream did not send an init message''))
         | (_, None) \<Rightarrow> (st, Inl (Invalid_Argument ''index stream missing init'')))"

definition index_stream_loop ::
  "index_env \<Rightarrow> index_msg list \<Rightarrow> string option \<Rightarrow> index_state \<Rightarrow> index_state \<times> (rpc_status + index_response)" where
  "index_stream_loop env msgs created_by st =
     (case stream_loop env created_by msgs (start_stream st) of
        (ss, Some e) \<Rightarrow> (ss_state ss, Inl e)
      | (ss, None) \<Rightarrow> finish_stream env created_by ss)"

section \<open>What a client sends\<close>

text \<open>\<open>partition_files\<close>: file \<open>i\<close> goes to group \<open>i mod n\<close>.\<close>

definition partition_files :: "'f list \<Rightarrow> nat \<Rightarrow> 'f list list" where
  "partition_files files n =
     (let n = min (max n 1) (max (length files) 1)
      in filter (\<lambda>g. g \<noteq> []) (map (\<lambda>j. map snd (filter (\<lambda>(i, _). i mod n = j) (enumerate 0 files))) [0..<n]))"

definition group_messages :: "string \<Rightarrow> string \<Rightarrow> index_file_msg list \<Rightarrow> index_msg list" where
  "group_messages project root_path files = Msg_Init project root_path # map Msg_File files"

text \<open>
  The client reads a file (a file that cannot be read is skipped), strips the root from its
  path and compresses it where \<open>zstd\<close> encodes.
\<close>

record 'f client_env =
  ce_read :: "'f \<Rightarrow> string option"
  ce_rel :: "'f \<Rightarrow> string"
  ce_encode :: "string \<Rightarrow> string option"

definition upload_file :: "'f client_env \<Rightarrow> 'f \<Rightarrow> index_file_msg option" where
  "upload_file ce file =
     map_option (\<lambda>content. \<lparr>if_path = ce_rel ce file,
         if_content = (case ce_encode ce content of Some c \<Rightarrow> c | None \<Rightarrow> content), if_compressed = (ce_encode ce content \<noteq> None)\<rparr>)
       (ce_read ce file)"

definition stream_index_group ::
  "index_env \<Rightarrow> 'f client_env \<Rightarrow> string \<Rightarrow> string \<Rightarrow> string option \<Rightarrow> 'f list \<Rightarrow> index_state \<Rightarrow> index_state \<times> (rpc_status + nat \<times> nat)" where
  "stream_index_group env ce project root_path created_by files st =
     (let (st', reply) = index_stream_loop env (group_messages project root_path (List.map_filter (upload_file ce) files)) created_by st
      in (st', map_sum id (\<lambda>r. (ir_files r, ir_chunks r)) reply))"

text \<open>The groups run at the same time; this is the schedule that runs them one after the other.\<close>

definition run_group ::
  "index_env \<Rightarrow> 'f client_env \<Rightarrow> string \<Rightarrow> string \<Rightarrow> string option \<Rightarrow> 'f list
     \<Rightarrow> index_state \<times> (rpc_status + nat \<times> nat) \<Rightarrow> index_state \<times> (rpc_status + nat \<times> nat)" where
  "run_group env ce project root_path created_by g = (\<lambda>(st, totals).
     let (st', reply) = stream_index_group env ce project root_path created_by g st
     in (st', case (totals, reply) of
           (Inr (f, c), Inr (f', c')) \<Rightarrow> Inr (f + f', c + c')
         | (Inr _, Inl e) \<Rightarrow> Inl e
         | (Inl e, _) \<Rightarrow> Inl e))"

definition run_index ::
  "index_env \<Rightarrow> 'f client_env \<Rightarrow> string \<Rightarrow> string \<Rightarrow> string option \<Rightarrow> 'f list \<Rightarrow> nat \<Rightarrow> index_state
     \<Rightarrow> index_state \<times> (rpc_status + nat \<times> nat)" where
  "run_index env ce project root_path created_by files parallelism st =
     fold (run_group env ce project root_path created_by) (partition_files files parallelism) (st, Inr (0, 0))"

section \<open>What leaves the index as it is\<close>

text \<open>Marking chunks for a new embedding changes their status and nothing else.\<close>

definition status_only :: "chunk_db \<Rightarrow> chunk_db \<Rightarrow> bool" where
  "status_only db db' \<longleftrightarrow> (\<exists>f. (\<forall>c. \<exists>s. f c = c\<lparr>ck_status := s\<rparr>) \<and> db' = db\<lparr>cd_rows := map f (cd_rows db)\<rparr>)"

lemma same_status: "\<exists>s. c = c\<lparr>ck_status := s\<rparr>"
  by (rule exI [of _ "ck_status c"]) simp

lemma status_only_refl: "status_only db db"
  unfolding status_only_def by (rule exI [of _ id]) (simp add: same_status)

lemma status_only_trans:
  assumes "status_only db db'" "status_only db' db''"
  shows "status_only db db''"
proof -
  obtain f g where f: "\<forall>c. \<exists>s. f c = c\<lparr>ck_status := s\<rparr>" "db' = db\<lparr>cd_rows := map f (cd_rows db)\<rparr>"
    and g: "\<forall>c. \<exists>s. g c = c\<lparr>ck_status := s\<rparr>" "db'' = db'\<lparr>cd_rows := map g (cd_rows db')\<rparr>"
    using assms unfolding status_only_def by blast
  have "\<exists>s. (g \<circ> f) c = c\<lparr>ck_status := s\<rparr>" for c
  proof -
    obtain s t where "f c = c\<lparr>ck_status := s\<rparr>" "g (f c) = (f c)\<lparr>ck_status := t\<rparr>" using f(1) g(1) by blast
    then show ?thesis by auto
  qed
  then show ?thesis unfolding status_only_def using f(2) g(2) by (intro exI [of _ "g \<circ> f"]) simp
qed

lemma status_only_mark:
  "status_only db (db\<lparr>cd_rows := mark_chunks_pending_vector b ids (cd_rows db)\<rparr>)"
  unfolding status_only_def mark_chunks_pending_vector_def update_where_def
  by (intro exI [of _ "\<lambda>c. if ck_buffer c = b \<and> ck_id c \<in> set ids then c\<lparr>ck_status := ''pending_vector''\<rparr> else c"])
    (auto simp: same_status)

lemma status_only_keeps:
  assumes "status_only db db'"
  shows "chunk_inv db' = chunk_inv db" "live_view b (cd_rows db') = live_view b (cd_rows db)"
    "hashes_of (cd_rows db') = hashes_of (cd_rows db)"
    "d \<in> set (cd_rows db) \<Longrightarrow> \<exists>d'\<in>set (cd_rows db'). ck_id d' = ck_id d \<and> place d' = place d \<and> ck_active d' = ck_active d"
proof -
  obtain f where f: "\<forall>c. \<exists>s. f c = c\<lparr>ck_status := s\<rparr>" and db': "db' = db\<lparr>cd_rows := map f (cd_rows db)\<rparr>"
    using assms unfolding status_only_def by blast
  have cols: "ck_id (f c) = ck_id c \<and> place (f c) = place c \<and> ck_active (f c) = ck_active c \<and> ck_superseded (f c) = ck_superseded c \<and>
      ck_buffer (f c) = ck_buffer c \<and> ck_hash (f c) = ck_hash c \<and> chunk_key_of (f c) = chunk_key_of c \<and> ck_file (f c) = ck_file c" for c
  proof -
    obtain s where "f c = c\<lparr>ck_status := s\<rparr>" using f by blast
    then show ?thesis by (simp add: place_def chunk_key_of_def)
  qed
  have wf: "rows_wf ck_id (map f (cd_rows db)) = rows_wf ck_id (cd_rows db)"
    using cols by (simp add: rows_wf_def comp_def list_all_iff)
  have act: "active_ids (map f (cd_rows db)) = active_ids (cd_rows db)"
  proof -
    have "{c \<in> set (map f (cd_rows db)). ck_active c} = f ` {c \<in> set (cd_rows db). ck_active c}" using cols by auto
    then show ?thesis unfolding active_ids_def using cols by (simp add: image_image)
  qed
  have succ: "succ_later (f c) = succ_later c" for c using cols [of c] by (simp add: succ_later_def split: option.split)
  have one: "one_active (map f rows) = one_active rows" if "distinct (map ck_id rows)" for rows
  proof
    assume o: "one_active (map f rows)"
    show "one_active rows" unfolding one_active_def
    proof (intro ballI impI)
      fix c d assume cd: "c \<in> set rows" "d \<in> set rows" "ck_active c" "ck_active d" "place c = place d"
      moreover have "f c \<in> set (map f rows)" "f d \<in> set (map f rows)" using cd by simp_all
      moreover have "ck_active (f c)" "ck_active (f d)" "place (f c) = place (f d)" using cd cols by simp_all
      ultimately have "f c = f d" using o [unfolded one_active_def] by blast
      then have "ck_id c = ck_id d" using cols [of c] cols [of d] by simp
      then show "c = d" using that cd by (auto simp: distinct_map inj_on_def)
    qed
  next
    assume o: "one_active rows"
    show "one_active (map f rows)" unfolding one_active_def
    proof (intro ballI impI)
      fix x y assume "x \<in> set (map f rows)" "y \<in> set (map f rows)" "ck_active x" "ck_active y" "place x = place y"
      then obtain c d where cd: "c \<in> set rows" "d \<in> set rows" "x = f c" "y = f d" by auto
      have "ck_active c" "ck_active d" "place c = place d"
        using cols [of c] cols [of d] cd(3,4) \<open>ck_active x\<close> \<open>ck_active y\<close> \<open>place x = place y\<close> by simp_all
      then have "c = d" using o [unfolded one_active_def] cd by blast
      then show "x = y" using cd by simp
    qed
  qed
  have "rows_wf ck_id (cd_rows db) \<Longrightarrow> one_active (map f (cd_rows db)) = one_active (cd_rows db)"
    by (rule one) (simp add: rows_wf_def)
  then show "chunk_inv db' = chunk_inv db"
    using cols succ unfolding db' chunk_inv_def by (simp add: wf act) blast
  have "{c \<in> set (map f (cd_rows db)). ck_buffer c = b \<and> ck_active c} = f ` {c \<in> set (cd_rows db). ck_buffer c = b \<and> ck_active c}"
    using cols by auto
  then show "live_view b (cd_rows db') = live_view b (cd_rows db)"
    unfolding db' live_view_def using cols by (simp add: image_image)
  show "hashes_of (cd_rows db') = hashes_of (cd_rows db)"
    unfolding db' hashes_of_def using cols by (simp add: image_image)
  show "d \<in> set (cd_rows db) \<Longrightarrow> \<exists>d'\<in>set (cd_rows db'). ck_id d' = ck_id d \<and> place d' = place d \<and> ck_active d' = ck_active d"
    unfolding db' using cols by auto
qed

text \<open>Draining touches the vectors and the status of chunks.\<close>

definition same_tables :: "index_state \<Rightarrow> index_state \<Rightarrow> bool" where
  "same_tables st st' \<longleftrightarrow> status_only (is_chunks st) (is_chunks st') \<and> is_buffers st' = is_buffers st \<and>
     is_maps st' = is_maps st \<and> (is_vectors st' = None \<longleftrightarrow> is_vectors st = None)"

lemma same_tables_refl: "same_tables st st"
  by (simp add: same_tables_def status_only_refl)

lemma same_tables_trans: "same_tables a b \<Longrightarrow> same_tables b c \<Longrightarrow> same_tables a c"
  by (auto simp: same_tables_def intro: status_only_trans)

lemma drain_embed_same: "same_tables st (drain_embed_handle env b t st)"
  by (auto simp: drain_embed_handle_def same_tables_def mark_chunks_pending_def Let_def status_only_refl status_only_mark
      split: option.split prod.split)

lemma drain_while_same: "same_tables st (snd (drain_while env b cap ts st))"
  by (induction env b cap ts st rule: drain_while.induct)
    (auto simp: same_tables_refl intro: same_tables_trans [OF drain_embed_same])

lemma purge_vectors_simps [simp]:
  "is_chunks (purge_vectors ids st) = is_chunks st" "is_buffers (purge_vectors ids st) = is_buffers st"
  "is_maps (purge_vectors ids st) = is_maps st" "(is_vectors (purge_vectors ids st) = None) = (is_vectors st = None)"
  by (simp_all add: purge_vectors_def)

section \<open>Anchors hold across any stream\<close>

lemma hashes_of_insert_step:
  "hashes_of (cd_rows (fst acc)) \<subseteq> hashes_of (cd_rows (fst (insert_chunk_step extract now b active u m it acc)))"
proof -
  obtain db res f c where a: "acc = (db, res)" "it = (f, c)" by (metis prod.exhaust)
  have ins: "hashes_of (cd_rows db) \<subseteq> hashes_of (cd_rows (fst (insert_active_chunk extract now b f c h v u m db)))" for h v
    using hashes_of_insert [of "extract" now b f c h v u m db] by (metis prod.collapse)
  show ?thesis using ins
    by (auto simp: a insert_chunk_step_def Let_def hashes_of_retire case_prod_beta split: option.split)
qed

lemma hashes_of_batched:
  "hashes_of (cd_rows db) \<subseteq> hashes_of (cd_rows (fst (insert_chunks_batched extract now b items mb active u m db)))"
proof -
  have "hashes_of (cd_rows (fst acc)) \<subseteq> hashes_of (cd_rows (fst (fold (insert_chunk_step extract now b active u m) items acc)))" for acc
    by (induction items arbitrary: acc) (use hashes_of_insert_step in \<open>fastforce+\<close>)
  then show ?thesis unfolding insert_chunks_batched_fold by (metis fst_conv)
qed

definition chunk_hashes :: "index_state \<Rightarrow> (row_id \<times> string \<times> string) set" where
  "chunk_hashes st = hashes_of (cd_rows (is_chunks st))"

lemma same_tables_hashes: "same_tables st st' \<Longrightarrow> chunk_hashes st' = chunk_hashes st"
  by (simp add: same_tables_def chunk_hashes_def status_only_keeps(3))

lemma store_file_hashes: "chunk_hashes (ss_state ss) \<subseteq> chunk_hashes (ss_state (store_file env cb b p cs ss))"
proof -
  let ?ins = "insert_chunks_batched (ie_extract env) (ie_secs env) b (map (\<lambda>c. (p, c)) cs) (max 1 (ie_max_batch env))
      (snapshot_keys_of ss) cb (Some (ie_model env)) (is_chunks (ss_state ss))"
  let ?st = "purge_vectors (bi_retired (snd ?ins)) ((ss_state ss)\<lparr>is_chunks := fst ?ins\<rparr>)"
  have "chunk_hashes (ss_state ss) \<subseteq> chunk_hashes ?st" unfolding chunk_hashes_def by (simp add: hashes_of_batched)
  moreover have "chunk_hashes (snd (drain_while env b cap ts ?st)) = chunk_hashes ?st" for cap ts
    by (rule same_tables_hashes) (rule drain_while_same)
  ultimately show ?thesis by (simp add: store_file_def Let_def case_prod_beta)
qed

lemma stream_loop_hashes: "chunk_hashes (ss_state ss) \<subseteq> chunk_hashes (ss_state (fst (stream_loop env cb ms ss)))"
proof (induction env cb ms ss rule: stream_loop.induct)
  case (2 env cb m ms ss)
  have snap: "ss_state (take_snapshot b ss) = ss_state ss" for b by (simp add: take_snapshot_def Let_def split: option.split)
  let ?r = "case m of Msg_Error e \<Rightarrow> (ss\<lparr>ss_tasks := []\<rparr>, Some e) | Msg_Init p r \<Rightarrow> on_init env p r ss
      | Msg_File f \<Rightarrow> on_file env cb f ss | Msg_Empty \<Rightarrow> (ss, None)"
  have "chunk_hashes (ss_state ss) \<subseteq> chunk_hashes (ss_state (fst ?r))"
  proof (cases m)
    case (Msg_File f)
    have "chunk_hashes (ss_state ss) \<subseteq> chunk_hashes (ss_state (store_file env cb b p cs (take_snapshot b ss)))" for b p cs
      using store_file_hashes [of "take_snapshot b ss" env cb b p cs] by (simp add: snap)
    then show ?thesis using Msg_File by (auto simp: on_file_def Let_def snap split: option.split)
  qed (auto simp: on_init_def Let_def chunk_hashes_def split: option.split prod.split)
  moreover obtain ss' err where r: "?r = (ss', err)" by fastforce
  ultimately have "chunk_hashes (ss_state ss) \<subseteq> chunk_hashes (ss_state ss')" by simp
  moreover have "chunk_hashes (ss_state ss') \<subseteq> chunk_hashes (ss_state (fst (stream_loop env cb ms ss')))" if "err = None"
    using "2.IH" [OF r [symmetric] refl that] .
  ultimately show ?case by (cases err) (auto simp: r)
qed simp

lemma retire_orphans_hashes: "chunk_hashes (retire_orphans env ss st) = chunk_hashes st"
proof -
  have "hashes_of (cd_rows (fold (\<lambda>i db. retire_row now i None db) ids db)) = hashes_of (cd_rows db)" for now ids db
    by (induction ids arbitrary: db) (simp_all add: hashes_of_retire)
  then show ?thesis by (simp add: retire_orphans_def chunk_hashes_def Let_def split: option.split)
qed

lemma hooks_chunks [simp]:
  "is_chunks (explorations_hook env p st) = is_chunks st" "is_chunks (rlm_hooks env p b per st) = is_chunks st"
  "is_buffers (explorations_hook env p st) = is_buffers st" "is_buffers (rlm_hooks env p b per st) = is_buffers st"
  by (simp_all add: explorations_hook_def rlm_hooks_def Let_def)

lemma index_stream_hashes: "chunk_hashes st \<subseteq> chunk_hashes (fst (index_stream_loop env msgs cb st))"
proof -
  obtain ss e where l: "stream_loop env cb msgs (start_stream st) = (ss, e)" by fastforce
  have "chunk_hashes st \<subseteq> chunk_hashes (ss_state ss)"
    using stream_loop_hashes [of "start_stream st" env cb msgs] l by (simp add: start_stream_def)
  also have "\<dots> \<subseteq> chunk_hashes (fst (finish_stream env cb ss))"
  proof -
    let ?b = "case ss_buffer ss of Some b \<Rightarrow> b | None \<Rightarrow> 0"
    let ?st = "snd (drain_while env ?b 0 (ss_tasks ss) (ss_state ss))"
    have "chunk_hashes (retire_orphans env ss ?st) = chunk_hashes (ss_state ss)"
      unfolding retire_orphans_hashes by (rule same_tables_hashes) (rule drain_while_same)
    moreover have "chunk_hashes (fst (finish_stream env cb ss)) = chunk_hashes (retire_orphans env ss ?st)"
      by (simp add: finish_stream_def Let_def chunk_hashes_def split: option.split)
    ultimately show ?thesis by simp
  qed
  finally show ?thesis using \<open>chunk_hashes st \<subseteq> chunk_hashes (ss_state ss)\<close>
    by (cases e) (simp_all add: index_stream_loop_def l)
qed

section \<open>What is live after a stream\<close>

text \<open>The places and hashes of the chunks of a file as the stream sends it.\<close>

definition file_view :: "index_env \<Rightarrow> index_file_msg \<Rightarrow> (chunk_key \<times> string) set" where
  "file_view env f =
     (case decode_content (ie_zstd env) f of
        None \<Rightarrow> {}
      | Some content \<Rightarrow>
          (\<lambda>(line_start, line_end, txt). ((if_path f, line_start, line_end), ie_sha256 env txt)) `
            set (chunk_lines content (tokens_to_lines (ie_max_tokens env)) (tokens_to_lines (ie_overlap_tokens env))))"

definition sendable :: "index_env \<Rightarrow> index_file_msg \<Rightarrow> bool" where
  "sendable env f \<longleftrightarrow> (case decode_content (ie_zstd env) f of Some content \<Rightarrow> length (lines content) < 2 ^ 31 | None \<Rightarrow> False)"

definition sent_items :: "index_env \<Rightarrow> index_file_msg \<Rightarrow> string \<Rightarrow> (string \<times> indexed_chunk) list" where
  "sent_items env f content =
     map (\<lambda>c. (if_path f, c)) (index_file_with (ie_sha256 env) (if_path f) content
       (tokens_to_lines (ie_max_tokens env)) (tokens_to_lines (ie_overlap_tokens env)))"

lemma item_key_hash:
  assumes "decode_content (ie_zstd env) f = Some content"
  shows "(\<lambda>it. (item_key it, item_hash it)) ` set (sent_items env f content) = file_view env f"
    "item_key ` set (sent_items env f content) = fst ` file_view env f"
  by (force simp: sent_items_def index_file_with_def item_key_def item_hash_def hash_text_def file_view_def assms)+

lemma sent_items_distinct:
  assumes "sendable env f" and "decode_content (ie_zstd env) f = Some content"
  shows "distinct (map item_key (sent_items env f content))"
proof (cases "content = []")
  case False
  let ?cs = "chunk_lines content (tokens_to_lines (ie_max_tokens env)) (tokens_to_lines (ie_overlap_tokens env))"
  have "lines content \<noteq> []" using False lines_acc_nonempty [of "[]" content] by (simp add: lines_def)
  then have "sorted_wrt (<) (map fst ?cs)"
    using chunk_from_spec [of 0 "lines content"] assms False by (simp add: chunk_lines_def sendable_def)
  then have "distinct (map fst ?cs)" by (simp add: strict_sorted_iff)
  then show ?thesis
    by (force simp: sent_items_def index_file_with_def item_key_def distinct_map comp_def inj_on_def)
qed (simp add: sent_items_def index_file_with_def chunk_lines_def)

lemma file_view_path: "x \<in> file_view env f \<Longrightarrow> fst (fst x) = if_path f"
  by (auto simp: file_view_def split: option.splits)

text \<open>An insert leaves the active rows of other places alone.\<close>

definition holds_row :: "chunk_db \<Rightarrow> row_id \<Rightarrow> chunk_key \<Rightarrow> row_id \<Rightarrow> bool" where
  "holds_row db b k i \<longleftrightarrow> (\<exists>d\<in>set (cd_rows db). ck_id d = i \<and> ck_active d \<and> place d = (b, k))"

lemma holds_row_retire:
  assumes "holds_row db b k i" and "i \<noteq> j"
  shows "holds_row (retire_row now j s db) b k i"
  using assms retire_active [of _ now j s db] unfolding holds_row_def by blast

lemma holds_row_insert:
  assumes "holds_row db b k i" and "insert_active_chunk extr now b' f c h v u m db = (db', j)"
  shows "holds_row db' b k i"
  using assms(1) insert_active_chunk_simps(2) [OF assms(2)] unfolding holds_row_def by auto

definition ids_ok :: "chunk_db \<Rightarrow> bool" where
  "ids_ok db \<longleftrightarrow> distinct (map ck_id (cd_rows db)) \<and> (\<forall>c\<in>set (cd_rows db). ck_id c \<le> cd_seq db)"

lemma ids_ok_inv: "chunk_inv db \<Longrightarrow> ids_ok db"
  by (simp add: chunk_inv_def ids_ok_def rows_wf_def)

lemma ids_ok_retire: "ids_ok db \<Longrightarrow> ids_ok (retire_row now j s db)"
proof -
  have "map ck_id (cd_rows (retire_row now j s db)) = map ck_id (cd_rows db)" by (simp add: retire_row_rows)
  then show "ids_ok db \<Longrightarrow> ids_ok (retire_row now j s db)" by (fastforce simp: ids_ok_def in_retired_rows)
qed

lemma ids_ok_insert:
  assumes "ids_ok db" and "insert_active_chunk extr now b f c h v u m db = (db', i)"
  shows "ids_ok db'"
proof -
  have "\<forall>d\<in>set (cd_rows db). ck_id d < i"
    using assms(1) insert_active_chunk_simps(1) [OF assms(2)] by (auto simp: ids_ok_def)
  then show ?thesis using assms(1) by (fastforce simp: ids_ok_def insert_active_chunk_simps [OF assms(2)])
qed

lemma holds_row_step:
  assumes ok: "ids_ok db" and holds: "holds_row db b k i" and ne: "item_key it \<noteq> k"
    and step: "insert_chunk_step extr now b active u m it (db, res) = (db', res')"
  shows "ids_ok db' \<and> holds_row db' b k i"
proof -
  obtain f c where it: "it = (f, c)" by (cases it)
  have ins: "ids_ok db1 \<and> holds_row db1 b k i" if "insert_active_chunk extr now b f c h v u m db = (db1, j)" for h v db1 j
    using holds_row_insert [OF holds that] ids_ok_insert [OF ok that] by simp
  have "i \<noteq> e" if ex: "existing_active_row b f (ix_line_start c) (ix_line_end c) (cd_rows db) = Some (e, h0, v0)" for e h0 v0
  proof
    assume "i = e"
    obtain d where fd: "List.find (\<lambda>x. ck_buffer x = b \<and> ck_file x = f \<and> ck_line_start x = ix_line_start c \<and>
        ck_line_end x = ix_line_end c \<and> ck_active x) (cd_rows db) = Some d" "ck_id d = e"
      using ex by (auto simp: existing_active_row_def)
    have d: "d \<in> set (cd_rows db)" "place d = (b, f, ix_line_start c, ix_line_end c)"
      using find_SomeD [OF fd(1)] by (auto simp: place_def chunk_key_of_def)
    obtain r where r: "r \<in> set (cd_rows db)" "place r = (b, k)" "ck_id r = i" using holds by (auto simp: holds_row_def)
    have "r = d" using d(1) r fd(2) ok \<open>i = e\<close> by (auto simp: ids_ok_def distinct_map inj_on_def)
    then show False using d(2) r(2) ne by (simp add: it item_key_def)
  qed
  then show ?thesis using step ins ok holds
    by (auto simp: it insert_chunk_step_def Let_def intro: holds_row_retire ids_ok_retire
        split: option.splits prod.splits if_splits)
qed

lemma holds_row_batched:
  assumes "ids_ok db" and "holds_row db b k i" and "k \<notin> item_key ` set items"
  shows "holds_row (fst (insert_chunks_batched extr now b items mb active u m db)) b k i"
proof -
  have "holds_row (fst (fold (insert_chunk_step extr now b active u m) items (db, res))) b k i" for res
    using assms
  proof (induction items arbitrary: db res)
    case (Cons it items)
    obtain db' res' where s: "insert_chunk_step extr now b active u m it (db, res) = (db', res')" by fastforce
    have "ids_ok db' \<and> holds_row db' b k i" by (rule holds_row_step [OF Cons.prems(1,2) _ s]) (use Cons.prems(3) in auto)
    then show ?case using Cons by (simp add: s)
  qed simp
  then show ?thesis unfolding insert_chunks_batched_fold .
qed

lemma snapshot_map_of:
  "distinct (map fst (snapshot_active_chunks b rows))"
  "(k, i) \<in> set (snapshot_active_chunks b rows) \<Longrightarrow> \<exists>d\<in>set rows. ck_id d = i \<and> ck_active d \<and> place d = (b, k)"
proof -
  have d: "distinct (map fst (fold (\<lambda>c m. AList.update (chunk_key_of c) (ck_id c) m) cs m))"
    if "distinct (map fst m)" for cs :: "chunk list" and m
    using that by (induction cs arbitrary: m) (simp_all add: distinct_update)
  then show "distinct (map fst (snapshot_active_chunks b rows))" by (simp add: snapshot_active_chunks_def)
  have upd: "x \<in> set (AList.update k' v m) \<Longrightarrow> x = (k', v) \<or> x \<in> set m" for x :: "chunk_key \<times> row_id" and k' v m
    by (induction m) (auto split: if_splits)
  have "x \<in> set m \<or> (\<exists>c\<in>set cs. x = (chunk_key_of c, ck_id c))"
    if "x \<in> set (fold (\<lambda>c m. AList.update (chunk_key_of c) (ck_id c) m) cs m)" for x cs m
    using that
  proof (induction cs arbitrary: m)
    case (Cons c cs)
    have "x \<in> set (AList.update (chunk_key_of c) (ck_id c) m) \<or> (\<exists>c\<in>set cs. x = (chunk_key_of c, ck_id c))"
      by (rule Cons.IH) (use Cons.prems in simp)
    then show ?case using upd [of x "chunk_key_of c" "ck_id c" m] by auto
  qed simp
  from this [of "(k, i)" "filter (\<lambda>c. ck_buffer c = b \<and> ck_active c) rows" "[]"]
  show "(k, i) \<in> set (snapshot_active_chunks b rows) \<Longrightarrow> \<exists>d\<in>set rows. ck_id d = i \<and> ck_active d \<and> place d = (b, k)"
    by (force simp: snapshot_active_chunks_def place_def)
qed

text \<open>Once the snapshot is taken: \<open>sent\<close> is what the files brought so far, on top of the view \<open>old\<close>.\<close>

definition stream_inv ::
  "row_id \<Rightarrow> chunk_db \<Rightarrow> (chunk_key \<times> string) set \<Rightarrow> stream_state \<Rightarrow> bool" where
  "stream_inv b old sent ss \<longleftrightarrow>
     (let db = is_chunks (ss_state ss); keys = fst ` sent; L0 = live_view b (cd_rows old) in
      \<exists>snap. ss_snapshot ss = Some snap \<and> chunk_inv db \<and>
        fst ` set snap = fst ` L0 \<and> distinct (map fst snap) \<and>
        ss_remaining ss = filter (\<lambda>k. k \<notin> keys) (map fst snap) \<and>
        live_view b (cd_rows db) = {x \<in> L0. fst x \<notin> keys} \<union> sent \<and>
        (\<forall>c. c \<noteq> b \<longrightarrow> live_view c (cd_rows db) = live_view c (cd_rows old)) \<and>
        (\<forall>(k, i)\<in>set snap. k \<notin> keys \<longrightarrow> holds_row db b k i))"

lemma stream_inv_start:
  assumes "chunk_inv (is_chunks (ss_state ss))" and "ss_snapshot ss = None"
  shows "stream_inv b (is_chunks (ss_state ss)) {} (take_snapshot b ss)"
proof -
  let ?db = "is_chunks (ss_state ss)" and ?snap = "snapshot_active_chunks b (cd_rows (is_chunks (ss_state ss)))"
  have t: "take_snapshot b ss = ss\<lparr>ss_snapshot := Some ?snap, ss_remaining := map fst ?snap\<rparr>"
    using assms(2) by (simp add: take_snapshot_def Let_def)
  have "\<forall>(k, i)\<in>set ?snap. holds_row ?db b k i"
    using snapshot_map_of(2) [where b = b and rows = "cd_rows ?db"] unfolding holds_row_def by fast
  then show ?thesis
    unfolding stream_inv_def t using assms(1) snapshot_keys [of b "cd_rows ?db"] snapshot_map_of(1) [of b "cd_rows ?db"]
    by (simp add: Let_def)
qed

lemma stream_inv_snapshot: "stream_inv b old sent ss \<Longrightarrow> take_snapshot c ss = ss"
  by (auto simp: stream_inv_def take_snapshot_def Let_def)

lemma status_only_holds: "status_only db db' \<Longrightarrow> holds_row db b k i \<Longrightarrow> holds_row db' b k i"
  using status_only_keeps(4) [of db db'] unfolding holds_row_def by metis

lemma stream_inv_same:
  assumes "stream_inv b old sent ss" and "status_only (is_chunks (ss_state ss)) (is_chunks (ss_state ss'))"
    and "ss_snapshot ss' = ss_snapshot ss" "ss_remaining ss' = ss_remaining ss"
  shows "stream_inv b old sent ss'"
  using assms status_only_holds [OF assms(2)]
  by (fastforce simp: stream_inv_def Let_def status_only_keeps [OF assms(2)])

text \<open>What storing a file does to the tables: its insert, then marks.\<close>

abbreviation file_insert ::
  "index_env \<Rightarrow> string option \<Rightarrow> row_id \<Rightarrow> string \<Rightarrow> indexed_chunk list \<Rightarrow> stream_state \<Rightarrow> chunk_db \<times> batched_insert" where
  "file_insert env cb b p cs ss \<equiv> insert_chunks_batched (ie_extract env) (ie_secs env) b (map (\<lambda>c. (p, c)) cs)
     (max 1 (ie_max_batch env)) (snapshot_keys_of ss) cb (Some (ie_model env)) (is_chunks (ss_state ss))"

lemma store_file_effect:
  "status_only (fst (file_insert env cb b p cs ss)) (is_chunks (ss_state (store_file env cb b p cs ss)))"
  "is_buffers (ss_state (store_file env cb b p cs ss)) = is_buffers (ss_state ss)"
  "ss_snapshot (store_file env cb b p cs ss) = ss_snapshot ss"
  "ss_remaining (store_file env cb b p cs ss) =
     filter (\<lambda>k. k \<notin> set (bi_handled (snd (file_insert env cb b p cs ss)))) (ss_remaining ss)"
  "ss_buffer (store_file env cb b p cs ss) = ss_buffer ss" "ss_project (store_file env cb b p cs ss) = ss_project ss"
proof -
  let ?st = "purge_vectors (bi_retired (snd (file_insert env cb b p cs ss)))
      ((ss_state ss)\<lparr>is_chunks := fst (file_insert env cb b p cs ss)\<rparr>)"
  have drain: "status_only (is_chunks ?st) (is_chunks (snd (drain_while env b cap ts ?st)))"
    "is_buffers (snd (drain_while env b cap ts ?st)) = is_buffers ?st" for cap ts
    using drain_while_same [of ?st env b cap ts] by (simp_all add: same_tables_def)
  show "status_only (fst (file_insert env cb b p cs ss)) (is_chunks (ss_state (store_file env cb b p cs ss)))"
    using drain(1) status_only_refl by (simp add: store_file_def Let_def case_prod_beta)
  show "is_buffers (ss_state (store_file env cb b p cs ss)) = is_buffers (ss_state ss)"
    using drain(2) by (simp add: store_file_def Let_def case_prod_beta)
qed (simp_all add: store_file_def Let_def case_prod_beta)

lemma filter_keys:
  "H = V \<inter> set ks \<Longrightarrow> filter (\<lambda>k. k \<notin> H) (filter (\<lambda>k. k \<notin> S) ks) = filter (\<lambda>k. k \<notin> S \<union> V) ks"
  by (auto intro: filter_cong)

lemma stream_inv_store:
  assumes inv: "stream_inv b old sent ss" and dec: "decode_content (ie_zstd env) f = Some content"
    and ok: "sendable env f" and fresh: "\<forall>x\<in>sent. fst (fst x) \<noteq> if_path f"
    and items: "map (\<lambda>c. (if_path f, c)) cs = sent_items env f content"
  shows "stream_inv b old (sent \<union> file_view env f) (store_file env cb b (if_path f) cs ss)"
proof -
  let ?db = "is_chunks (ss_state ss)" and ?r = "file_insert env cb b (if_path f) cs ss" and ?L0 = "live_view b (cd_rows old)"
  obtain snap where s: "ss_snapshot ss = Some snap" "chunk_inv ?db" "fst ` set snap = fst ` ?L0" "distinct (map fst snap)"
      "ss_remaining ss = filter (\<lambda>k. k \<notin> fst ` sent) (map fst snap)"
      "live_view b (cd_rows ?db) = {x \<in> ?L0. fst x \<notin> fst ` sent} \<union> sent"
      "\<forall>c. c \<noteq> b \<longrightarrow> live_view c (cd_rows ?db) = live_view c (cd_rows old)"
      "\<forall>(k, i)\<in>set snap. k \<notin> fst ` sent \<longrightarrow> holds_row ?db b k i"
    using inv by (auto simp: stream_inv_def Let_def)
  note key = item_key_hash [OF dec]
  have snapk: "snapshot_keys_of ss = fst ` ?L0" using s(1,3) by (simp add: snapshot_keys_of_def)
  have notsent: "k \<notin> fst ` sent" if "k \<in> fst ` file_view env f" for k
    using that fresh file_view_path [of _ env f] by force
  have known: "\<forall>it\<in>set (sent_items env f content). item_key it \<in> fst ` ?L0 \<or> item_key it \<notin> fst ` live_view b (cd_rows ?db)"
  proof
    fix it assume "it \<in> set (sent_items env f content)"
    then have "item_key it \<in> fst ` file_view env f" using key(2) by blast
    then show "item_key it \<in> fst ` ?L0 \<or> item_key it \<notin> fst ` live_view b (cd_rows ?db)" using notsent unfolding s(6) by blast
  qed
  note ins = insert_chunks_batched_correct [OF s(2) sent_items_distinct [OF ok dec] known,
      of "ie_extract env" "ie_secs env" "max 1 (ie_max_batch env)" cb "Some (ie_model env)", folded snapk items, unfolded items key]
  have view: "chunk_inv (fst ?r)"
      "live_view b (cd_rows (fst ?r)) = {x \<in> ?L0. fst x \<notin> fst ` (sent \<union> file_view env f)} \<union> (sent \<union> file_view env f)"
      "\<forall>c. c \<noteq> b \<longrightarrow> live_view c (cd_rows (fst ?r)) = live_view c (cd_rows old)"
      "set (bi_handled (snd ?r)) = fst ` file_view env f \<inter> snapshot_keys_of ss"
  proof -
    have "{x \<in> {x \<in> ?L0. fst x \<notin> fst ` sent} \<union> sent. fst x \<notin> fst ` file_view env f} =
        {x \<in> ?L0. fst x \<notin> fst ` (sent \<union> file_view env f)} \<union> sent"
      unfolding image_Un using notsent by blast
    then show "live_view b (cd_rows (fst ?r)) = {x \<in> ?L0. fst x \<notin> fst ` (sent \<union> file_view env f)} \<union> (sent \<union> file_view env f)"
      using ins unfolding s(6) items by (simp only: Un_assoc)
    show "chunk_inv (fst ?r)" "set (bi_handled (snd ?r)) = fst ` file_view env f \<inter> snapshot_keys_of ss"
      "\<forall>c. c \<noteq> b \<longrightarrow> live_view c (cd_rows (fst ?r)) = live_view c (cd_rows old)"
      using ins s(7) unfolding items by simp_all
  qed
  have rows: "holds_row (fst ?r) b k i" if "(k, i) \<in> set snap" "k \<notin> fst ` (sent \<union> file_view env f)" for k i
  proof (rule holds_row_batched [OF ids_ok_inv [OF s(2)]])
    have "k \<notin> fst ` sent" "k \<notin> fst ` file_view env f" using that(2) by (simp_all add: image_Un)
    then show "holds_row ?db b k i" "k \<notin> item_key ` set (map (\<lambda>c. (if_path f, c)) cs)"
      using s(8) that(1) key(2) unfolding items by blast+
  qed
  let ?ss = "store_file env cb b (if_path f) cs ss"
  note eff = store_file_effect [where env = env and cb = cb and b = b and p = "if_path f" and cs = cs and ss = ss]
  note keep = status_only_keeps [OF eff(1)]
  have "filter (\<lambda>k. k \<notin> set (bi_handled (snd ?r))) (ss_remaining ss) =
      filter (\<lambda>k. k \<notin> fst ` (sent \<union> file_view env f)) (map fst snap)"
    unfolding s(5) image_Un by (rule filter_keys) (use view(4) snapk s(3) in simp)
  moreover have "\<forall>(k, i)\<in>set snap. k \<notin> fst ` (sent \<union> file_view env f) \<longrightarrow> holds_row (is_chunks (ss_state ?ss)) b k i"
    using rows status_only_holds [OF eff(1)] by blast
  ultimately show ?thesis
    unfolding stream_inv_def Let_def eff(3,4) using s(1,3,4) view by (intro exI [of _ snap]) (simp add: keep)
qed

lemma on_file_step:
  assumes "ss_buffer ss = Some b" and "stream_inv b old sent (take_snapshot b ss)" and ok: "sendable env f"
    and fresh: "\<forall>x\<in>sent. fst (fst x) \<noteq> if_path f"
  shows "\<exists>ss'. on_file env cb f ss = (ss', None) \<and> stream_inv b old (sent \<union> file_view env f) ss' \<and>
    ss_buffer ss' = Some b \<and> ss_project ss' = ss_project ss \<and> is_buffers (ss_state ss') = is_buffers (ss_state ss)"
proof -
  obtain content where dec: "decode_content (ie_zstd env) f = Some content"
    using ok by (auto simp: sendable_def split: option.splits)
  let ?cs = "index_file_with (ie_sha256 env) (if_path f) content (tokens_to_lines (ie_max_tokens env))
      (tokens_to_lines (ie_overlap_tokens env))"
  have t: "ss_buffer (take_snapshot b ss) = ss_buffer ss" "ss_project (take_snapshot b ss) = ss_project ss"
    "ss_state (take_snapshot b ss) = ss_state ss"
    by (simp_all add: take_snapshot_def Let_def split: option.split)
  show ?thesis
  proof (cases "?cs = []")
    case True
    then have "file_view env f = {}" by (simp add: file_view_def dec index_file_with_def)
    then show ?thesis using assms(1,2) t True by (simp add: on_file_def Let_def dec)
  next
    case False
    have "map (\<lambda>c. (if_path f, c)) ?cs = sent_items env f content" by (simp add: sent_items_def)
    from stream_inv_store [OF assms(2) dec ok fresh this] show ?thesis
      using assms(1) t False by (simp add: on_file_def Let_def dec store_file_effect)
  qed
qed

lemma stream_loop_files:
  assumes "ss_buffer ss = Some b" and "stream_inv b old sent ss"
    and "distinct (map if_path files)" and "\<forall>f\<in>set files. sendable env f"
    and "\<forall>f\<in>set files. \<forall>x\<in>sent. fst (fst x) \<noteq> if_path f"
  shows "\<exists>ss'. stream_loop env cb (map Msg_File files) ss = (ss', None) \<and>
    stream_inv b old (sent \<union> (\<Union>f\<in>set files. file_view env f)) ss' \<and> ss_buffer ss' = Some b \<and>
    ss_project ss' = ss_project ss \<and> is_buffers (ss_state ss') = is_buffers (ss_state ss)"
  using assms
proof (induction files arbitrary: ss sent)
  case (Cons f files)
  have "stream_inv b old sent (take_snapshot b ss)" using Cons.prems(2) by (simp add: stream_inv_snapshot)
  from on_file_step [OF Cons.prems(1) this] Cons.prems(4,5) obtain ss1 where
    s1: "on_file env cb f ss = (ss1, None)" "stream_inv b old (sent \<union> file_view env f) ss1" "ss_buffer ss1 = Some b"
      "ss_project ss1 = ss_project ss" "is_buffers (ss_state ss1) = is_buffers (ss_state ss)"
    by (metis list.set_intros(1))
  have "\<forall>g\<in>set files. \<forall>x\<in>sent \<union> file_view env f. fst (fst x) \<noteq> if_path g"
    using Cons.prems(3,5) file_view_path [of _ env f] by auto
  from Cons.IH [OF s1(3,2) _ _ this] Cons.prems(3,4) obtain ss' where
    "stream_loop env cb (map Msg_File files) ss1 = (ss', None)"
    "stream_inv b old (sent \<union> file_view env f \<union> (\<Union>f\<in>set files. file_view env f)) ss'" "ss_buffer ss' = Some b"
    "ss_project ss' = ss_project ss1" "is_buffers (ss_state ss') = is_buffers (ss_state ss1)" by auto
  then show ?case using s1 by (simp add: Un_assoc)
qed simp

lemma retire_keys:
  assumes "chunk_inv db" and "distinct ks" and "\<forall>k\<in>set ks. holds_row db b k (f k)"
  shows "chunk_inv (fold (\<lambda>i db. retire_row now i None db) (map f ks) db) \<and>
    live_view b (cd_rows (fold (\<lambda>i db. retire_row now i None db) (map f ks) db)) =
      {x \<in> live_view b (cd_rows db). fst x \<notin> set ks} \<and>
    (\<forall>c. c \<noteq> b \<longrightarrow> live_view c (cd_rows (fold (\<lambda>i db. retire_row now i None db) (map f ks) db)) = live_view c (cd_rows db))"
  using assms
proof (induction ks arbitrary: db)
  case (Cons k ks)
  obtain d where d: "d \<in> set (cd_rows db)" "ck_id d = f k" "ck_active d" "ck_buffer d = b" "chunk_key_of d = k"
    using Cons.prems(3) by (auto simp: holds_row_def place_def)
  let ?db = "retire_row now (f k) None db"
  have inv: "chunk_inv ?db" by (rule retire_inv [OF Cons.prems(1)]) simp
  note lv = live_view_retire [OF Cons.prems(1) d(1,3), where now = now and s = None, unfolded d(2,4,5)]
  have rest: "holds_row ?db b j (f j)" if j: "j \<in> set ks" for j
  proof (rule holds_row_retire)
    show h: "holds_row db b j (f j)" using Cons.prems(3) j by simp
    obtain e where e: "e \<in> set (cd_rows db)" "ck_id e = f j" "place e = (b, j)" using h by (auto simp: holds_row_def)
    show "f j \<noteq> f k"
    proof
      assume "f j = f k"
      then have "e = d" using e d Cons.prems(1) by (auto simp: chunk_inv_def intro: rows_wf_inj)
      then show False using e d j Cons.prems(2) by (auto simp: place_def)
    qed
  qed
  show ?case using Cons.IH [OF inv] Cons.prems(2) rest by (auto simp: lv)
qed simp

lemma status_only_live:
  "status_only db db' \<Longrightarrow> chunk_inv db \<Longrightarrow> chunk_inv db'"
  by (simp add: status_only_keeps)

lemma finish_replaces:
  assumes buf: "ss_buffer ss = Some b" and proj: "ss_project ss = Some project" and inv: "stream_inv b old sent ss"
  shows "\<exists>st r. finish_stream env cb ss = (st, Inr r) \<and> chunk_inv (is_chunks st) \<and>
    live_view b (cd_rows (is_chunks st)) = sent \<and>
    (\<forall>c. c \<noteq> b \<longrightarrow> live_view c (cd_rows (is_chunks st)) = live_view c (cd_rows old)) \<and>
    (\<exists>dc df. is_buffers st = increment_buffer_counts (ie_secs env) b dc df (ie_model env) (ie_dims env) (is_buffers (ss_state ss)))"
proof -
  let ?st = "snd (drain_while env b 0 (ss_tasks ss) (ss_state ss))" and ?L0 = "live_view b (cd_rows old)"
  have dr: "status_only (is_chunks (ss_state ss)) (is_chunks ?st)"
    using drain_while_same [of "ss_state ss" env b 0 "ss_tasks ss"] by (simp add: same_tables_def)
  have "stream_inv b old sent (ss\<lparr>ss_state := ?st\<rparr>)" by (rule stream_inv_same [OF inv]) (use dr in simp_all)
  then obtain snap where s: "ss_snapshot ss = Some snap" "chunk_inv (is_chunks ?st)" "fst ` set snap = fst ` ?L0" "distinct (map fst snap)"
      "ss_remaining ss = filter (\<lambda>k. k \<notin> fst ` sent) (map fst snap)"
      "live_view b (cd_rows (is_chunks ?st)) = {x \<in> ?L0. fst x \<notin> fst ` sent} \<union> sent"
      "\<forall>c. c \<noteq> b \<longrightarrow> live_view c (cd_rows (is_chunks ?st)) = live_view c (cd_rows old)"
      "\<forall>(k, i)\<in>set snap. k \<notin> fst ` sent \<longrightarrow> holds_row (is_chunks ?st) b k i"
    by (auto simp: stream_inv_def Let_def)
  let ?f = "\<lambda>k. the (map_of snap k)"
  have held: "\<forall>k\<in>set (ss_remaining ss). holds_row (is_chunks ?st) b k (?f k)"
  proof
    fix k assume "k \<in> set (ss_remaining ss)"
    then obtain i where i: "(k, i) \<in> set snap" "k \<notin> fst ` sent" unfolding s(5) by auto
    then show "holds_row (is_chunks ?st) b k (?f k)" using s(4,8) map_of_is_SomeI [OF s(4) i(1)] by auto
  qed
  have dist: "distinct (ss_remaining ss)" using s(4,5) by simp
  note ret = retire_keys [OF s(2) dist held, where now = "ie_secs env"]
  let ?db = "is_chunks (retire_orphans env ss ?st)"
  have db: "?db = fold (\<lambda>i db. retire_row (ie_secs env) i None db) (map ?f (ss_remaining ss)) (is_chunks ?st)"
    by (simp add: retire_orphans_def s(1) Let_def)
  have "set (ss_remaining ss) = fst ` ?L0 - fst ` sent" unfolding s(5) using s(3) by auto
  then have "live_view b (cd_rows ?db) = sent" using ret s(6) unfolding db by force
  moreover have "chunk_inv ?db" "\<forall>c. c \<noteq> b \<longrightarrow> live_view c (cd_rows ?db) = live_view c (cd_rows old)"
    using ret s(7) unfolding db by simp_all
  moreover have "is_buffers ?st = is_buffers (ss_state ss)"
    using drain_while_same [of "ss_state ss" env b 0 "ss_tasks ss"] by (simp add: same_tables_def)
  then have "is_buffers (retire_orphans env ss ?st) = is_buffers (ss_state ss)"
    by (simp add: retire_orphans_def Let_def split: option.split)
  then have "\<exists>st r dc df. finish_stream env cb ss = (st, Inr r) \<and> is_chunks st = ?db \<and>
      is_buffers st = increment_buffer_counts (ie_secs env) b dc df (ie_model env) (ie_dims env) (is_buffers (ss_state ss))"
    by (simp add: finish_stream_def buf proj Let_def split: option.split) blast
  ultimately show ?thesis by metis
qed

lemma stream_replaces:
  assumes "chunk_inv (is_chunks st)"
    and "ensure_project (ie_secs env) (ie_uuid env) project root_path (is_buffers st) = (bufs, Some b)"
    and "files \<noteq> []" and "distinct (map if_path files)" and "\<forall>f\<in>set files. sendable env f"
  shows "\<exists>st' r. index_stream_loop env (group_messages project root_path files) cb st = (st', Inr r) \<and> chunk_inv (is_chunks st') \<and>
    live_view b (cd_rows (is_chunks st')) = (\<Union>f\<in>set files. file_view env f) \<and>
    (\<forall>c. c \<noteq> b \<longrightarrow> live_view c (cd_rows (is_chunks st')) = live_view c (cd_rows (is_chunks st))) \<and>
    (\<exists>dc df. is_buffers st' = increment_buffer_counts (ie_secs env) b dc df (ie_model env) (ie_dims env) bufs)"
proof -
  obtain f fs where files: "files = f # fs" using assms(3) by (cases files) auto
  let ?ss = "(start_stream st)\<lparr>ss_state := st\<lparr>is_buffers := bufs\<rparr>, ss_project := Some project, ss_buffer := Some b\<rparr>"
  have init: "on_init env project root_path (start_stream st) = (?ss, None)"
    using assms(2) by (simp add: on_init_def start_stream_def Let_def)
  have "stream_inv b (is_chunks st) {} (take_snapshot b ?ss)"
    using stream_inv_start [of ?ss b] assms(1) by (simp add: start_stream_def)
  from on_file_step [OF _ this, of env f cb] assms(5) files obtain ss1 where
    s1: "on_file env cb f ?ss = (ss1, None)" "stream_inv b (is_chunks st) (file_view env f) ss1" "ss_buffer ss1 = Some b"
      "ss_project ss1 = Some project" "is_buffers (ss_state ss1) = bufs" by auto
  have fresh: "\<forall>g\<in>set fs. \<forall>x\<in>file_view env f. fst (fst x) \<noteq> if_path g"
    using assms(4) files file_view_path [of _ env f] by auto
  have "distinct (map if_path fs)" "\<forall>g\<in>set fs. sendable env g" using assms(4,5) files by simp_all
  from stream_loop_files [OF s1(3,2) this fresh, of cb] obtain ss' where
    s2: "stream_loop env cb (map Msg_File fs) ss1 = (ss', None)"
      "stream_inv b (is_chunks st) (file_view env f \<union> (\<Union>f\<in>set fs. file_view env f)) ss'" "ss_buffer ss' = Some b"
      "ss_project ss' = Some project" "is_buffers (ss_state ss') = bufs" using s1(4,5) by auto
  have "stream_loop env cb (group_messages project root_path files) (start_stream st) = (ss', None)"
    by (simp add: group_messages_def files init s1(1) s2(1))
  then show ?thesis using finish_replaces [OF s2(3,4,2), of env cb] by (simp add: index_stream_loop_def files s2(5))
qed

section \<open>Properties\<close>

text \<open>
  C24: Whatever a stream sends, an exploration map whose anchors hold keeps them: rows that are
  retired stay in the table the check reads, so no re-indexing ever makes a map stale.
\<close>

theorem stream_keeps_anchors:
  assumes "broken_anchors project (cd_rows (is_chunks st)) maps = []"
  shows "broken_anchors project (cd_rows (is_chunks (fst (index_stream_loop env msgs created_by st)))) maps = []"
  by (rule broken_anchors_antimono [OF index_stream_hashes [unfolded chunk_hashes_def] assms])

text \<open>
  C3: A stream that opens a project and sends at least one file leaves, live in the project, the
  chunks of the files it sent and nothing else; other projects keep theirs. The rows stay well formed.
\<close>

theorem index_stream_replaces:
  assumes "chunk_inv (is_chunks st)"
    and "ensure_project (ie_secs env) (ie_uuid env) project root_path (is_buffers st) = (bufs, Some b)"
    and "files \<noteq> []" and "distinct (map if_path files)" and "list_all (sendable env) files"
    and "st' = fst (index_stream_loop env (group_messages project root_path files) created_by st)"
  shows "chunk_inv (is_chunks st') \<and> live_view b (cd_rows (is_chunks st')) = (\<Union>f\<in>set files. file_view env f) \<and>
    (c = b \<or> live_view c (cd_rows (is_chunks st')) = live_view c (cd_rows (is_chunks st)))"
  using stream_replaces [OF assms(1,2,3,4), of created_by] assms(5) unfolding assms(6) by (auto simp: list_all_iff)

text \<open>Groups of one client, one after the other.\<close>

definition project_row :: "string \<Rightarrow> row_id \<Rightarrow> buffer_db \<Rightarrow> bool" where
  "project_row project b db \<longleftrightarrow> buffers_inv db \<and> (\<exists>r\<in>set (bd_rows db). bf_name r = project \<and> bf_id r = b)"

lemma project_row_counts:
  assumes "project_row project b db"
  shows "project_row project b (increment_buffer_counts now i dc df m d db)"
proof -
  let ?f = "\<lambda>b. b\<lparr>bf_chunks := bf_chunks b + dc, bf_files := bf_files b + df, bf_model := Some m, bf_dims := Some d, bf_indexed := Some now\<rparr>"
  obtain r where r: "r \<in> set (bd_rows db)" "bf_name r = project" "bf_id r = b" using assms by (auto simp: project_row_def)
  have "(if bf_id r = i then ?f r else r) \<in> set (bd_rows (increment_buffer_counts now i dc df m d db))"
    using imageI [OF r(1), of "\<lambda>r. if bf_id r = i then ?f r else r"]
    by (simp add: increment_buffer_counts_def update_where_def del: if_image_distrib)
  moreover have "bf_name (if bf_id r = i then ?f r else r) = project" "bf_id (if bf_id r = i then ?f r else r) = b"
    using r by simp_all
  ultimately show ?thesis using buffers_inv_counts assms unfolding project_row_def by blast
qed

definition group_ready :: "index_env \<Rightarrow> 'f client_env \<Rightarrow> 'f list \<Rightarrow> bool" where
  "group_ready env ce g \<longleftrightarrow> g \<noteq> [] \<and> distinct (map (ce_rel ce) g) \<and>
     list_all (\<lambda>f. case upload_file ce f of Some m \<Rightarrow> sendable env m | None \<Rightarrow> False) g"

lemma upload_path: "upload_file ce f = Some m \<Longrightarrow> if_path m = ce_rel ce f"
  by (auto simp: upload_file_def)

lemma group_uploads:
  assumes "list_all (\<lambda>f. case upload_file ce f of Some m \<Rightarrow> sendable env m | None \<Rightarrow> False) g"
  shows "map if_path (List.map_filter (upload_file ce) g) = map (ce_rel ce) g"
    "\<forall>m\<in>set (List.map_filter (upload_file ce) g). sendable env m"
    "set (List.map_filter (upload_file ce) g) = (\<lambda>f. the (upload_file ce f)) ` set g"
  using assms
  by (induction g) (auto simp: List.map_filter_simps upload_path split: option.splits)

lemma group_step:
  assumes "chunk_inv (is_chunks st)" and "project_row project b (is_buffers st)" and "group_ready env ce g"
  shows "\<exists>st' r. stream_index_group env ce project root_path cb g st = (st', Inr r) \<and> chunk_inv (is_chunks st') \<and>
    project_row project b (is_buffers st') \<and>
    live_view b (cd_rows (is_chunks st')) = (\<Union>f\<in>set g. file_view env (the (upload_file ce f)))"
proof -
  let ?ms = "List.map_filter (upload_file ce) g"
  have ready: "list_all (\<lambda>f. case upload_file ce f of Some m \<Rightarrow> sendable env m | None \<Rightarrow> False) g" "distinct (map (ce_rel ce) g)" "g \<noteq> []"
    using assms(3) by (auto simp: group_ready_def)
  note up = group_uploads [OF ready(1)]
  have "?ms \<noteq> []" "distinct (map if_path ?ms)" using up(1) ready(2,3) by (auto simp del: map_is_Nil_conv simp: map_is_Nil_conv [symmetric])
  moreover have "ensure_project (ie_secs env) (ie_uuid env) project root_path (is_buffers st) = (is_buffers st, Some b)"
    using assms(2) by (auto simp: project_row_def ensure_project_known)
  ultimately obtain st' r dc df where
    "index_stream_loop env (group_messages project root_path ?ms) cb st = (st', Inr r)" "chunk_inv (is_chunks st')"
    "live_view b (cd_rows (is_chunks st')) = (\<Union>f\<in>set ?ms. file_view env f)"
    "is_buffers st' = increment_buffer_counts (ie_secs env) b dc df (ie_model env) (ie_dims env) (is_buffers st)"
    using stream_replaces [OF assms(1) _ _ _ up(2), of project root_path "is_buffers st" b cb] by metis
  then show ?thesis using project_row_counts [OF assms(2)] by (simp add: stream_index_group_def up(3))
qed

lemma partition_ready:
  assumes "files \<noteq> []" and "distinct (map (ce_rel ce) files)"
    and "list_all (\<lambda>f. case upload_file ce f of Some m \<Rightarrow> sendable env m | None \<Rightarrow> False) files"
  shows "\<forall>g\<in>set (partition_files files n). group_ready env ce g" "partition_files files n \<noteq> []"
proof -
  define k where "k = min (max n 1) (max (length files) 1)"
  have k: "0 < k" unfolding k_def by linarith
  let ?g = "\<lambda>j. map snd (filter (\<lambda>(i, _). i mod k = j) (enumerate 0 files))"
  have part: "partition_files files n = filter (\<lambda>g. g \<noteq> []) (map ?g [0..<k])"
    unfolding partition_files_def k_def Let_def by (rule refl)
  have "group_ready env ce (?g j)" if "?g j \<noteq> []" for j
  proof -
    have "distinct (map (ce_rel ce \<circ> snd) (enumerate 0 files))"
      using assms(2) by (simp add: map_map [symmetric] del: map_map)
    then have "distinct (map (ce_rel ce) (?g j))" by (simp add: distinct_map_filter)
    moreover have "set (?g j) \<subseteq> set files" by (auto simp: in_set_enumerate_eq)
    ultimately show ?thesis using that assms(3) unfolding group_ready_def list_all_iff by blast
  qed
  then show "\<forall>g\<in>set (partition_files files n). group_ready env ce g" by (auto simp: part)
  have "(0, files ! 0) \<in> set (enumerate 0 files)" using assms(1) by (simp add: in_set_enumerate_eq)
  then have "?g 0 \<noteq> []" using k by (force simp: filter_empty_conv)
  then have "?g 0 \<in> set (partition_files files n)" using k unfolding part by (auto intro: image_eqI [of _ _ 0])
  then show "partition_files files n \<noteq> []" by (metis list.set(1) empty_iff)
qed

lemma groups_last:
  assumes "chunk_inv (is_chunks st)" and "project_row project b (is_buffers st)" and "\<forall>g\<in>set gs. group_ready env ce g"
  shows "chunk_inv (is_chunks (fst (fold (run_group env ce project root_path cb) gs (st, tot)))) \<and> project_row project b (is_buffers (fst (fold (run_group env ce project root_path cb) gs (st, tot)))) \<and>
    (gs \<noteq> [] \<longrightarrow> live_view b (cd_rows (is_chunks (fst (fold (run_group env ce project root_path cb) gs (st, tot))))) =
       (\<Union>f\<in>set (last gs). file_view env (the (upload_file ce f))))"
  using assms(3)
proof (induction gs rule: rev_induct)
  case (snoc g gs)
  let ?st = "fold (run_group env ce project root_path cb) gs (st, tot)"
  have ih: "chunk_inv (is_chunks (fst ?st))" "project_row project b (is_buffers (fst ?st))" using snoc by auto
  have ready: "group_ready env ce g" using snoc.prems by simp
  have eq: "fst (fold (run_group env ce project root_path cb) (gs @ [g]) (st, tot)) = fst (stream_index_group env ce project root_path cb g (fst ?st))"
    by (simp add: run_group_def case_prod_beta Let_def)
  from group_step [OF ih ready, of root_path cb] show ?case unfolding eq by auto
qed (use assms(1,2) in simp)

text \<open>
  A client splits its files over parallel streams of one project. Whatever the number of
  groups, when they run one after the other only the chunks of the last group are live at the
  end: each stream retires what the ones before it inserted.
\<close>

theorem index_groups_last:
  assumes "chunk_inv (is_chunks st)" and "project_row project b (is_buffers st)"
    and "files \<noteq> []" and "distinct (map (ce_rel ce) files)"
    and "list_all (\<lambda>f. case upload_file ce f of Some m \<Rightarrow> sendable env m | None \<Rightarrow> False) files"
    and "run_index env ce project root_path created_by files parallelism st = (st', reply)"
  shows "live_view b (cd_rows (is_chunks st')) =
    (\<Union>f\<in>set (last (partition_files files parallelism)). file_view env (the (upload_file ce f)))"
proof -
  note part = partition_ready [OF assms(3,4,5), of parallelism]
  show ?thesis
    using groups_last [OF assms(1,2) part(1), where root_path = root_path and cb = created_by and tot = "Inr (0, 0)"] part(2)
    by (simp add: assms(6) [unfolded run_index_def])
qed

section \<open>Examples\<close>

definition demo_env :: index_env where
  "demo_env =
     \<lparr>ie_max_tokens = 0, ie_overlap_tokens = 0, ie_batch_size = 2, ie_max_batch = 2, ie_pool_threads = 1, ie_explorations = True,
      ie_rlm = True, ie_model = ''m'', ie_dims = 3, ie_sha256 = (\<lambda>t. t), ie_zstd = (\<lambda>_. None), ie_extract = (\<lambda>_ _. []),
      ie_embed = (\<lambda>_. None), ie_uuid = ''u'', ie_secs = 7, ie_millis = 7000, ie_payload = pl_kind\<rparr>"

definition demo_anchored :: exploration_db where
  "demo_anchored = fst (persist_exploration ''u1'' 10
     ((demo_map ''body'')\<lparr>nx_anchors := [\<lparr>an_map = 0, an_buffer = 1, an_path = ''a'', an_hash = ''78'', an_role = role_cited\<rparr>]\<rparr>)
     \<lparr>xd_rows = [], xd_anchors = [], xd_epochs = []\<rparr>)"

definition demo_chunks :: chunk_db where
  "demo_chunks = fst (insert_chunks_batched (\<lambda>_ _. []) 5 1
     [(''a'', \<lparr>ix_file = ''a'', ix_line_start = 1, ix_line_end = 1, ix_content = ''x'', ix_hash = ''78'', ix_language = None, ix_type = ''text''\<rparr>)]
     10 {} None None empty_chunks)"

definition demo_project :: buffer_db where
  "demo_project = fst (insert_project 1 ''u'' ''p'' ''/r'' \<lparr>bd_rows = [], bd_seq = 0\<rparr>)"

definition demo_indexed :: index_state where
  "demo_indexed =
     \<lparr>is_buffers = demo_project, is_chunks = demo_chunks, is_vectors = None, is_qa = \<lparr>qd_rows = [], qd_jobs = []\<rparr>,
      is_maps = demo_anchored, is_rlm = ([], empty_queue), is_audit = []\<rparr>"

definition demo_files :: "index_file_msg list" where
  "demo_files = [\<lparr>if_path = ''a'', if_content = ''y'', if_compressed = False\<rparr>, \<lparr>if_path = ''b'', if_content = ''z'', if_compressed = False\<rparr>]"

lemma demo_chunks_inv: "chunk_inv demo_chunks"
  unfolding demo_chunks_def
  by (rule insert_chunks_batched_correct [THEN conjunct1]) (simp, simp, simp add: empty_chunks_def live_view_def)

lemma demo_project_row: "project_row ''p'' 1 demo_project"
proof -
  have "buffers_inv \<lparr>bd_rows = [], bd_seq = 0\<rparr>" by (simp add: buffers_inv_def rows_wf_def)
  from buffers_inv_insert [OF this] have "buffers_inv demo_project" by (simp add: demo_project_def insert_project_def)
  moreover have "map (\<lambda>r. (bf_name r, bf_id r)) (bd_rows demo_project) = [(''p'', 1)]" by code_simp
  ultimately show ?thesis by (auto simp: project_row_def map_eq_Cons_conv)
qed

lemma demo_files_view:
  "decode_content (ie_zstd demo_env) \<lparr>if_path = p, if_content = ''y'', if_compressed = False\<rparr> = Some ''y''"
  "decode_content (ie_zstd demo_env) \<lparr>if_path = p, if_content = ''z'', if_compressed = False\<rparr> = Some ''z''"
  "chunk_lines ''y'' 80 80 = [(1, 1, ''y'')]" "chunk_lines ''z'' 80 80 = [(1, 1, ''z'')]"
  "lines ''y'' = [''y'']" "lines ''z'' = [''z'']"
proof -
  have "valid_utf8 ''y''" "valid_utf8 ''z''" by code_simp+
  then show "decode_content (ie_zstd demo_env) \<lparr>if_path = p, if_content = ''y'', if_compressed = False\<rparr> = Some ''y''"
    "decode_content (ie_zstd demo_env) \<lparr>if_path = p, if_content = ''z'', if_compressed = False\<rparr> = Some ''z''"
    by (simp_all add: decode_content_def)
  show l: "lines ''y'' = [''y'']" "lines ''z'' = [''z'']" by code_simp+
  show "chunk_lines ''y'' 80 80 = [(1, 1, ''y'')]" "chunk_lines ''z'' 80 80 = [(1, 1, ''z'')]"
    by (simp_all add: chunk_lines_def l chunk_from.simps line_budget_def line_overlap_def)
qed

lemma demo_env_lines: "tokens_to_lines (ie_max_tokens demo_env) = 80" "tokens_to_lines (ie_overlap_tokens demo_env) = 80"
    "ie_sha256 demo_env = (\<lambda>t. t)"
  by (simp_all add: demo_env_def tokens_to_lines_def default_max_lines_def)

lemma demo_view: "(\<Union>f\<in>set demo_files. file_view demo_env f) = {((''a'', 1, 1), ''y''), ((''b'', 1, 1), ''z'')}"
  by (simp add: demo_files_def file_view_def demo_files_view demo_env_lines insert_commute)

lemma stream_keeps_anchors_witness:
  "broken_anchors ''p'' (cd_rows (is_chunks (fst (index_stream_loop demo_env (group_messages ''p'' ''/r'' demo_files) None demo_indexed))))
     demo_anchored = []"
proof -
  have "broken_anchors ''p'' (cd_rows (is_chunks demo_indexed)) demo_anchored = []" by code_simp
  then show ?thesis by (rule stream_keeps_anchors)
qed

lemma index_stream_replaces_witness:
  "live_view 1 (cd_rows (is_chunks (fst (index_stream_loop demo_env (group_messages ''p'' ''/r'' demo_files) None demo_indexed)))) =
     {((''a'', 1, 1), ''y''), ((''b'', 1, 1), ''z'')}"
proof -
  have "ensure_project (ie_secs demo_env) (ie_uuid demo_env) ''p'' ''/r'' (is_buffers demo_indexed) = (demo_project, Some 1)"
    using demo_project_row by (auto simp: project_row_def ensure_project_known demo_indexed_def)
  moreover have "demo_files \<noteq> []" "distinct (map if_path demo_files)" by (simp_all add: demo_files_def)
  moreover have "list_all (sendable demo_env) demo_files" by (simp add: demo_files_def sendable_def demo_files_view)
  moreover have "chunk_inv (is_chunks demo_indexed)" by (simp add: demo_indexed_def demo_chunks_inv)
  ultimately show ?thesis using index_stream_replaces [OF _ _ _ _ _ refl] demo_view by metis
qed

definition demo_client :: "string client_env" where
  "demo_client = \<lparr>ce_read = (\<lambda>f. Some (if f = ''a'' then ''y'' else ''z'')), ce_rel = (\<lambda>f. f), ce_encode = (\<lambda>_. None)\<rparr>"

lemma index_groups_last_witness:
  "live_view 1 (cd_rows (is_chunks (fst (run_index demo_env demo_client ''p'' ''/r'' None [''a'', ''b''] 2 demo_indexed)))) =
     {((''b'', 1, 1), ''z'')}"
proof -
  let ?r = "run_index demo_env demo_client ''p'' ''/r'' None [''a'', ''b''] 2 demo_indexed"
  have "list_all (\<lambda>f. case upload_file demo_client f of Some m \<Rightarrow> sendable demo_env m | None \<Rightarrow> False) [''a'', ''b'']"
    by (simp add: upload_file_def demo_client_def sendable_def demo_files_view)
  moreover have "distinct (map (ce_rel demo_client) [''a'', ''b''])" by (simp add: demo_client_def)
  moreover have "partition_files [''a'', ''b''] 2 = [[''a''], [''b'']]" by code_simp
  moreover have "file_view demo_env (the (upload_file demo_client ''b'')) = {((''b'', 1, 1), ''z'')}"
    by (simp add: upload_file_def demo_client_def file_view_def demo_files_view demo_env_lines)
  moreover have "chunk_inv (is_chunks demo_indexed)" by (simp add: demo_indexed_def demo_chunks_inv)
  moreover have "project_row ''p'' 1 (is_buffers demo_indexed)" by (simp add: demo_indexed_def demo_project_row)
  ultimately show ?thesis
    using index_groups_last [of demo_indexed "''p''" 1 "[''a'', ''b'']" demo_client demo_env "''/r''" None 2 "fst ?r" "snd ?r"] by simp
qed

end
