(* ===== verification/Qa_Service.thy ===== *)
theory Qa_Service
  imports Qa_Cache Qa_Plan Context_Budget Vector_Space Projects Chunk_Index Access
begin

text \<open>
  The answer cache as the calls of the server use it
  (\<^verbatim>\<open>crates/arags-server/src/grpc/query_cache/\<close>): deciding between an exact hit, a near hit and
  a miss, storing an answer, reading one by id, invalidating answers, and the two calls of the
  re-digest queue. The search libraries, the embedder and the digest are arguments, as are the
  clocks (one instant per call). A lookup in time that walks a cycle of revisions does not end:
  these calls return \<open>None\<close> then. The query history a call also records is not modelled.
  Lemmas: what an answer that is served is.
\<close>

section \<open>State and arguments\<close>

record qa_server =
  sv_auth :: auth_db
  sv_qa :: qa_db
  sv_chunks :: chunk_db
  sv_buffers :: buffer_db
  sv_questions :: "space_store option"

record qa_server_env =
  sn_thresholds :: qa_thresholds
  sn_config_json :: string
  sn_embed :: "string \<Rightarrow> embedding option"
  sn_ann :: space_ann
  sn_shuffle :: hash_order
  sn_hybrid :: hybrid
  sn_decay_lambda :: real
  sn_sha256 :: "string \<Rightarrow> string"
  sn_lowercase :: "string \<Rightarrow> string"
  sn_millis :: millis
  sn_secs :: seconds
  sn_save :: "nat \<times> bool"
  sn_cache_id :: string

definition question_prefix :: string where
  "question_prefix = ''search_query: ''"

definition near_hit_candidates :: nat where
  "near_hit_candidates = 10"

definition embed_query :: "qa_server_env \<Rightarrow> string \<Rightarrow> embedding option" where
  "embed_query env question = sn_embed env (question_prefix @ question)"

definition resolve_buffer :: "string \<Rightarrow> int \<Rightarrow> qa_server \<Rightarrow> row_id option" where
  "resolve_buffer project explicit st =
     (if 0 < explicit then Some explicit else buffer_id_for_project project (bd_rows (sv_buffers st)))"

section \<open>Results on the wire\<close>

record proto_result =
  pr_chunk :: row_id
  pr_text :: string
  pr_score :: real
  pr_file :: string
  pr_start :: int
  pr_end :: int
  pr_epoch :: int
  pr_created_by :: string
  pr_model :: string
  pr_version :: int

definition unwrap_or_default :: "string option \<Rightarrow> string" where
  "unwrap_or_default s = (case s of Some t \<Rightarrow> t | None \<Rightarrow> [])"

text \<open>\<open>i32::try_from\<close>, or the largest value.\<close>

definition line_i32 :: "int \<Rightarrow> int" where
  "line_i32 v = (if - (2 ^ 31) \<le> v \<and> v < 2 ^ 31 then v else 2 ^ 31 - 1)"

definition to_proto_results :: "search_result list \<Rightarrow> proto_result list" where
  "to_proto_results results =
     map (\<lambda>r. \<lparr>pr_chunk = sr_chunk r, pr_text = sr_content r, pr_score = sr_score r, pr_file = sr_file r,
               pr_start = line_i32 (sr_line_start r), pr_end = line_i32 (sr_line_end r), pr_epoch = sr_epoch r,
               pr_created_by = unwrap_or_default (sr_created_by r), pr_model = unwrap_or_default (sr_model r),
               pr_version = sr_version r\<rparr>) results"

section \<open>Provenance\<close>

definition provenance_pairs :: "string list \<Rightarrow> string list \<Rightarrow> (row_id \<times> string) list" where
  "provenance_pairs ids hashes =
     List.map_filter (\<lambda>(i, h). map_option (\<lambda>i. (i, h)) (parse_i64 i)) (zip ids hashes)"

definition provenance_intact :: "qa_server_env \<Rightarrow> qa_row \<Rightarrow> qa_server \<Rightarrow> qa_server \<times> bool" where
  "provenance_intact env row st =
     (let pairs = provenance_pairs (qa_chunk_ids row) (qa_hashes row)
      in if qa_chunk_ids row = [] \<or> qa_hashes row = [] \<or> pairs = [] then (st, True)
      else if chunk_hashes_match pairs (cd_rows (sv_chunks st)) then (st, True)
      else (st\<lparr>sv_qa := fst (mark_qa_stale (sn_millis env) (sn_secs env) (qa_id row) ''system'' ''provenance drift'' (sv_qa st))\<rparr>,
            False))"

definition wrap_i32 :: "int \<Rightarrow> int" where
  "wrap_i32 n = (n + 2 ^ 31) mod 2 ^ 32 - 2 ^ 31"

definition provenance_result :: "chunk \<times> string option \<Rightarrow> proto_result" where
  "provenance_result = (\<lambda>(c, content).
     \<lparr>pr_chunk = ck_id c, pr_text = unwrap_or_default content, pr_score = 1, pr_file = ck_file c,
      pr_start = wrap_i32 (ck_line_start c), pr_end = wrap_i32 (ck_line_end c), pr_epoch = ck_epoch c,
      pr_created_by = unwrap_or_default (ck_created_by c), pr_model = unwrap_or_default (ck_model c),
      pr_version = ck_version c\<rparr>)"

fun provenance_revisions :: "int \<Rightarrow> row_id list \<Rightarrow> chunk_db \<Rightarrow> (chunk \<times> string option) list option" where
  "provenance_revisions as_of [] db = Some []"
| "provenance_revisions as_of (i # ids) db =
     (case (if 0 < as_of
            then map_option (\<lambda>found. case found of
                   Some c \<Rightarrow> [(c, Some (unwrap_or_default (get_chunk_content (ck_id c) (cd_texts db))))]
                 | None \<Rightarrow> []) (get_chunk_as_of i as_of (cd_rows db))
            else Some (take 1 (get_chunks_with_content [i] db))) of
        None \<Rightarrow> None
      | Some now \<Rightarrow> map_option ((@) now) (provenance_revisions as_of ids db))"

definition provenance_chunks :: "string list \<Rightarrow> nat \<Rightarrow> int \<Rightarrow> chunk_db \<Rightarrow> proto_result list option" where
  "provenance_chunks ids k as_of db =
     (let ids = List.map_filter parse_i64 ids
      in if ids = [] then Some []
         else map_option (map provenance_result) (provenance_revisions as_of (take (max 1 k) ids) db))"

text \<open>The search for the second check passes buffer 0.\<close>

definition serve_search :: "qa_server_env \<Rightarrow> row_id \<Rightarrow> string \<Rightarrow> nat \<Rightarrow> qa_server \<Rightarrow> search_result list" where
  "serve_search env buffer_id question k st =
     hybrid_search (sn_shuffle env) (sn_hybrid env) (sn_embed env) (sn_decay_lambda env) (sn_secs env) buffer_id
       (sanitize_fts question) Tier_Vector k (sv_chunks st)"

definition top_chunk_ids :: "qa_server_env \<Rightarrow> string \<Rightarrow> nat \<Rightarrow> qa_server \<Rightarrow> string list" where
  "top_chunk_ids env question k st = map (\<lambda>r. show_int (sr_chunk r)) (serve_search env 0 question k st)"

section \<open>Querying\<close>

record query_request =
  rq_project :: string
  rq_question :: string
  rq_buffer :: int
  rq_as_of :: int

record query_reply =
  qr_cache_id :: string
  qr_hit :: bool
  qr_tier :: int
  qr_similarity :: real
  qr_answer :: string
  qr_provenance :: "proto_result list"
  qr_candidates :: "proto_result list"
  qr_digest_k :: int
  qr_provenance_k :: int
  qr_epoch :: int
  qr_created_by :: string
  qr_model :: string
  qr_version :: int

definition hit_reply :: "qa_row \<Rightarrow> int \<Rightarrow> real \<Rightarrow> proto_result list \<Rightarrow> int \<Rightarrow> int \<Rightarrow> query_reply" where
  "hit_reply row tier similarity provenance digest_k provenance_k =
     \<lparr>qr_cache_id = qa_cache_id row, qr_hit = True, qr_tier = tier, qr_similarity = similarity, qr_answer = qa_answer row,
      qr_provenance = provenance, qr_candidates = [], qr_digest_k = digest_k, qr_provenance_k = provenance_k,
      qr_epoch = qa_epoch row, qr_created_by = unwrap_or_default (qa_created_by row),
      qr_model = unwrap_or_default (qa_model row), qr_version = qa_version row\<rparr>"

definition miss_response ::
  "qa_server_env \<Rightarrow> row_id option \<Rightarrow> string \<Rightarrow> real \<Rightarrow> int \<Rightarrow> qa_server \<Rightarrow> query_reply option" where
  "miss_response env buffer_id question best_sim as_of st =
     (let th = sn_thresholds env;
          found = serve_search env (case buffer_id of Some b \<Rightarrow> b | None \<Rightarrow> 0) question (th_novel_k th) st
      in map_option (\<lambda>candidates.
           \<lparr>qr_cache_id = [], qr_hit = False, qr_tier = - 1, qr_similarity = best_sim, qr_answer = [], qr_provenance = [],
            qr_candidates = to_proto_results candidates, qr_digest_k = as_i32 (th_novel_k th),
            qr_provenance_k = as_i32 (th_provenance_k th), qr_epoch = 0, qr_created_by = [], qr_model = [], qr_version = 0\<rparr>)
           (if 0 < as_of then apply_chunk_as_of as_of found (sv_chunks st) else Some found))"

text \<open>The nearest stored question, when the space answers at all.\<close>

definition best_neighbour :: "qa_server_env \<Rightarrow> string \<Rightarrow> qa_server \<Rightarrow> (row_id \<times> real) option" where
  "best_neighbour env question st =
     (case (embed_query env question, sv_questions st) of
        (Some v, Some space) \<Rightarrow>
          (case search_space (sn_ann env) v near_hit_candidates space of
             Some (n # _) \<Rightarrow> Some n
           | _ \<Rightarrow> None)
      | _ \<Rightarrow> None)"

text \<open>What is left of a near hit once its row is found: \<open>None\<close> is a miss.\<close>

definition near_hit ::
  "qa_server_env \<Rightarrow> query_request \<Rightarrow> real \<Rightarrow> qa_row \<Rightarrow> qa_server \<Rightarrow> (qa_server \<times> query_reply option) option" where
  "near_hit env req similarity cand st =
     (let th = sn_thresholds env; as_of = rq_as_of req; (st, intact) = provenance_intact env cand st
      in if \<not> intact then Some (st, None)
         else case (if 0 < as_of
                    then get_cached_answer_as_of (qa_project cand) (qa_hash cand) (qa_buffer cand) as_of (qd_rows (sv_qa st))
                    else Some cand) of
           None \<Rightarrow> Some (st, None)
         | Some row \<Rightarrow>
             let plan = resolve_plan similarity
                          (jaccard_similarity (top_chunk_ids env (rq_question req) (th_novel_k th) st) (qa_chunk_ids row)) th
             in if pl_is_miss plan then Some (st, None)
                else let st = st\<lparr>sv_qa := touch_qa (sn_millis env) (qa_id row) (sv_qa st)\<rparr>
                     in map_option (\<lambda>prov. (st, Some (hit_reply row (pl_tier plan) similarity prov (as_i32 (pl_digest_k plan))
                                             (as_i32 (pl_provenance_k plan)))))
                          (provenance_chunks (qa_chunk_ids row) (th_provenance_k th) as_of (sv_chunks st)))"

text \<open>The part after the exact lookup: near hit, else miss.\<close>

definition query_near :: "qa_server_env \<Rightarrow> query_request \<Rightarrow> row_id option \<Rightarrow> qa_server \<Rightarrow> (qa_server \<times> query_reply) option" where
  "query_near env req buffer_id st =
     (let th = sn_thresholds env;
          best = best_neighbour env (rq_question req) st;
          best_sim = (case best of Some (_, s) \<Rightarrow> s | None \<Rightarrow> 0);
          row = (case best of
                   Some (i, s) \<Rightarrow> if th_sim_floor th \<le> s then get_qa_by_rowid i (qd_rows (sv_qa st)) else None
                 | None \<Rightarrow> None);
          near = (case row of
                    Some cand \<Rightarrow> if qa_project cand = rq_project req \<and> \<not> qa_stale cand
                                 then near_hit env req best_sim cand st else Some (st, None)
                  | None \<Rightarrow> Some (st, None))
      in case near of
           None \<Rightarrow> None
         | Some (st, Some reply) \<Rightarrow> Some (st, reply)
         | Some (st, None) \<Rightarrow> map_option (Pair st) (miss_response env buffer_id (rq_question req) best_sim (rq_as_of req) st))"

definition handle_query_with_cache ::
  "qa_server_env \<Rightarrow> header_value \<Rightarrow> query_request \<Rightarrow> qa_server \<Rightarrow> (qa_server \<times> (rpc_status + query_reply)) option" where
  "handle_query_with_cache env header req st =
     (case authenticate (sn_millis env) header (sv_auth st) of
        Inl e \<Rightarrow> Some (st, Inl e)
      | Inr ctx \<Rightarrow>
          if trim (rq_project req) = [] then Some (st, Inl (Invalid_Argument ''project is required''))
          else if trim (rq_question req) = [] then Some (st, Inl (Invalid_Argument ''question is required''))
          else
            let buffer_id = resolve_buffer (rq_project req) (rq_buffer req) st;
                h = question_hash (sn_sha256 env) (sn_lowercase env) (rq_question req);
                th = sn_thresholds env; as_of = rq_as_of req;
                exact = (if 0 < as_of then get_cached_answer_as_of (rq_project req) h buffer_id as_of (qd_rows (sv_qa st))
                         else get_cached_answer (rq_project req) h (qd_rows (sv_qa st)));
                (st1, intact) = (case exact of Some row \<Rightarrow> provenance_intact env row st | None \<Rightarrow> (st, False))
            in case (exact, intact) of
                 (Some row, True) \<Rightarrow>
                   let st2 = st1\<lparr>sv_qa := touch_qa (sn_millis env) (qa_id row) (sv_qa st1)\<rparr>
                   in map_option (\<lambda>prov. (st2, Inr (hit_reply row 0 1 prov 0 (as_i32 (th_provenance_k th)))))
                        (provenance_chunks (qa_chunk_ids row) (th_provenance_k th) as_of (sv_chunks st2))
               | _ \<Rightarrow> map_option (apsnd Inr) (query_near env req buffer_id st1))"

section \<open>Storing and reading by id\<close>

record store_request =
  rs_project :: string
  rs_question :: string
  rs_answer :: string
  rs_buffer :: int
  rs_chunk_ids :: "string list"
  rs_hashes :: "string list"
  rs_model :: string
  rs_tokens :: int

definition answer_input :: "qa_server_env \<Rightarrow> auth_context \<Rightarrow> store_request \<Rightarrow> qa_server \<Rightarrow> store_answer_input" where
  "answer_input env ctx req st =
     \<lparr>ai_buffer = resolve_buffer (rs_project req) (rs_buffer req) st, ai_project = rs_project req, ai_question = rs_question req,
      ai_hash = question_hash (sn_sha256 env) (sn_lowercase env) (rs_question req), ai_answer = rs_answer req,
      ai_chunk_ids = rs_chunk_ids req, ai_hashes = rs_hashes req,
      ai_model = (if rs_model req = [] then None else Some (rs_model req)), ai_snapshot = Some (sn_config_json env),
      ai_tokens = rs_tokens req, ai_created_by = Some (ac_username ctx)\<rparr>"

text \<open>The vector of the question: a failing insert marks the row; without an embedding nothing is noted.\<close>

definition index_question :: "qa_server_env \<Rightarrow> string \<Rightarrow> row_id \<Rightarrow> qa_server \<Rightarrow> qa_server" where
  "index_question env question i st =
     (case (embed_query env question, sv_questions st) of
        (Some v, Some space) \<Rightarrow>
          let (space', ok) = insert_space (fst (sn_save env)) (snd (sn_save env)) i v space;
              st' = st\<lparr>sv_questions := Some space'\<rparr>
          in if ok then st' else st'\<lparr>sv_qa := mark_qa_cache_pending_vector [i] (sv_qa st')\<rparr>
      | _ \<Rightarrow> st)"

definition handle_store_answer ::
  "qa_server_env \<Rightarrow> header_value \<Rightarrow> store_request \<Rightarrow> qa_server \<Rightarrow> qa_server \<times> (rpc_status + string)" where
  "handle_store_answer env header req st =
     (case authenticate (sn_millis env) header (sv_auth st) of
        Inl e \<Rightarrow> (st, Inl e)
      | Inr ctx \<Rightarrow>
          if trim (rs_project req) = [] then (st, Inl (Invalid_Argument ''project is required''))
          else if trim (rs_question req) = [] then (st, Inl (Invalid_Argument ''question is required''))
          else if trim (rs_answer req) = [] then (st, Inl (Invalid_Argument ''answer is required''))
          else let (qa, stored) = store_answer (sn_cache_id env) (answer_input env ctx req st) (sn_millis env) (sv_qa st)
               in (index_question env (rs_question req) (sa_id stored) (st\<lparr>sv_qa := qa\<rparr>), Inr (sa_cache_id stored)))"

record answer_reply =
  ar_found :: bool
  ar_cache_id :: string
  ar_project :: string
  ar_answer :: string
  ar_chunk_ids :: "string list"
  ar_hashes :: "string list"

definition handle_get_answer_by_id ::
  "qa_server_env \<Rightarrow> header_value \<Rightarrow> string \<Rightarrow> string \<Rightarrow> qa_server \<Rightarrow> rpc_status + answer_reply" where
  "handle_get_answer_by_id env header cache_id project st =
     (case authenticate (sn_millis env) header (sv_auth st) of
        Inl e \<Rightarrow> Inl e
      | Inr _ \<Rightarrow>
          if trim cache_id = [] then Inl (Invalid_Argument ''cache_id is required'')
          else Inr (case get_qa_by_id cache_id project (qd_rows (sv_qa st)) of
              Some r \<Rightarrow> \<lparr>ar_found = True, ar_cache_id = qa_cache_id r, ar_project = qa_project r, ar_answer = qa_answer r,
                         ar_chunk_ids = qa_chunk_ids r, ar_hashes = qa_hashes r\<rparr>
            | None \<Rightarrow> \<lparr>ar_found = False, ar_cache_id = cache_id, ar_project = project, ar_answer = [],
                       ar_chunk_ids = [], ar_hashes = []\<rparr>))"

section \<open>Invalidating\<close>

text \<open>\<open>radius\<close> is the similarity from which neighbours of the question are invalidated too.\<close>

record invalidate_request =
  ri_cache_id :: string
  ri_delete :: bool
  ri_radius :: real

definition drop_answer :: "qa_server_env \<Rightarrow> row_id \<Rightarrow> qa_server \<Rightarrow> qa_server \<times> bool" where
  "drop_answer env i st =
     (let (qa, n) = delete_qa i (sv_qa st); st' = st\<lparr>sv_qa := qa\<rparr>
      in if 0 < n
         then (st'\<lparr>sv_questions := map_option (delete_space (fst (sn_save env)) (snd (sn_save env)) i) (sv_questions st')\<rparr>, True)
         else (st', False))"

definition invalidate_answer :: "qa_server_env \<Rightarrow> bool \<Rightarrow> string \<Rightarrow> string \<Rightarrow> row_id \<Rightarrow> qa_server \<Rightarrow> qa_server \<times> bool" where
  "invalidate_answer env del username reason i st =
     (if del then drop_answer env i st
      else let (qa, ok) = mark_qa_stale (sn_millis env) (sn_secs env) i username reason (sv_qa st) in (st\<lparr>sv_qa := qa\<rparr>, ok))"

definition radius_neighbours :: "qa_server_env \<Rightarrow> real \<Rightarrow> qa_row \<Rightarrow> qa_server \<Rightarrow> row_id list" where
  "radius_neighbours env radius row st =
     (if radius \<le> 0 then []
      else case (embed_query env (qa_question row), sv_questions st) of
        (Some v, Some space) \<Rightarrow>
          (case search_space (sn_ann env) v 1000 space of
             Some ns \<Rightarrow> map fst (filter (\<lambda>(i, s). i \<noteq> qa_id row \<and> radius \<le> s) ns)
           | None \<Rightarrow> [])
      | _ \<Rightarrow> [])"

definition invalidate_qa_entry :: "qa_server_env \<Rightarrow> invalidate_request \<Rightarrow> string \<Rightarrow> qa_server \<Rightarrow> qa_server \<times> nat" where
  "invalidate_qa_entry env req username st =
     (case get_qa_by_cache_id (ri_cache_id req) (qd_rows (sv_qa st)) of
        None \<Rightarrow> (st, 0)
      | Some row \<Rightarrow>
          let step = (\<lambda>reason i (st, n). let (st', hit) = invalidate_answer env (ri_delete req) username reason i st
                                        in (st', if hit then Suc n else n))
          in step ''admin'' (qa_id row) (fold (step ''radius'') (radius_neighbours env (ri_radius req) row st) (st, 0)))"

text \<open>Without an entry the call purges an older result cache, which is not modelled: \<open>purge\<close> is its count.\<close>

definition handle_invalidate_cache ::
  "qa_server_env \<Rightarrow> (unit \<Rightarrow> nat) \<Rightarrow> header_value \<Rightarrow> invalidate_request \<Rightarrow> qa_server \<Rightarrow> qa_server \<times> (rpc_status + nat \<times> string)" where
  "handle_invalidate_cache env purge header req st =
     (case authenticate (sn_millis env) header (sv_auth st) of
        Inl e \<Rightarrow> (st, Inl e)
      | Inr ctx \<Rightarrow>
          (case require_admin ctx of
             Inl e \<Rightarrow> (st, Inl e)
           | Inr _ \<Rightarrow>
               if ri_cache_id req \<noteq> [] then
                 let (st', n) = invalidate_qa_entry env req (ac_username ctx) st in (st', Inr (n, ac_username ctx))
               else (st, Inr (purge (), ac_username ctx))))"

section \<open>The re-digest queue\<close>

definition handle_claim_pending_qa ::
  "qa_server_env \<Rightarrow> header_value \<Rightarrow> string \<Rightarrow> seconds \<Rightarrow> qa_server \<Rightarrow> qa_server \<times> (rpc_status + pending_qa_job option)" where
  "handle_claim_pending_qa env header worker_user lease_secs st =
     (case authenticate (sn_millis env) header (sv_auth st) of
        Inl e \<Rightarrow> (st, Inl e)
      | Inr ctx \<Rightarrow>
          let worker = (if trim worker_user = [] then ac_username ctx else worker_user);
              (jobs, claimed) = claim_pending_qa (sn_secs env) worker
                (if 0 < lease_secs then lease_secs else default_pending_qa_lease_secs) (qd_jobs (sv_qa st))
          in (st\<lparr>sv_qa := (sv_qa st)\<lparr>qd_jobs := jobs\<rparr>\<rparr>, Inr claimed))"

definition handle_complete_pending_qa ::
  "qa_server_env \<Rightarrow> header_value \<Rightarrow> row_id \<Rightarrow> qa_server \<Rightarrow> qa_server \<times> (rpc_status + bool)" where
  "handle_complete_pending_qa env header job_id st =
     (case authenticate (sn_millis env) header (sv_auth st) of
        Inl e \<Rightarrow> (st, Inl e)
      | Inr _ \<Rightarrow> let (jobs, ok) = complete_pending_qa (sn_secs env) job_id (qd_jobs (sv_qa st))
                 in (st\<lparr>sv_qa := (sv_qa st)\<lparr>qd_jobs := jobs\<rparr>\<rparr>, Inr ok))"

section \<open>What is served\<close>

lemma provenance_intact_cases:
  assumes "provenance_intact env row st = (st', ok)"
  shows "sv_chunks st' = sv_chunks st \<and> sv_auth st' = sv_auth st \<and> sv_buffers st' = sv_buffers st \<and>
    (ok \<longrightarrow> st' = st \<and> (provenance_pairs (qa_chunk_ids row) (qa_hashes row) = [] \<or> chunk_hashes_match (provenance_pairs (qa_chunk_ids row) (qa_hashes row)) (cd_rows (sv_chunks st))))"
  using assms by (auto simp: provenance_intact_def provenance_pairs_def List.map_filter_simps Let_def split: if_splits)

lemma no_pairs_match [simp]: "chunk_hashes_match [] rows"
  by (simp add: chunk_hashes_match_def)

lemma provenance_intact_match:
  "provenance_intact env row st = (st', True) \<Longrightarrow> chunk_hashes_match (provenance_pairs (qa_chunk_ids row) (qa_hashes row)) (cd_rows (sv_chunks st))"
  using provenance_intact_cases [of env row st st' True] by auto

text \<open>No chunk belongs to buffer 0, so the second check compares with nothing and fails.\<close>

definition searches_ok :: "qa_server_env \<Rightarrow> chunk_db \<Rightarrow> bool" where
  "searches_ok env db \<longleftrightarrow> hash_order_ok (sn_shuffle env) \<and> vectors_match (sn_hybrid env) db \<and>
     0 < th_jaccard_min (sn_thresholds env) \<and> list_all (\<lambda>c. 0 < ck_buffer c) (cd_rows db)"

lemma no_top_chunks:
  assumes "searches_ok env (sv_chunks st)"
  shows "top_chunk_ids env question k st = []"
proof -
  have "\<not> in_buffer 0 (cd_rows (sv_chunks st)) i" for i
    using assms by (auto simp: searches_ok_def in_buffer_iff list_all_iff)
  then have "serve_search env 0 question k st = []"
    using hybrid_search_in_buffer assms unfolding serve_search_def searches_ok_def by (metis list.set_sel(1))
  then show ?thesis by (simp add: top_chunk_ids_def)
qed

lemma plan_miss_zero: "0 < th_jaccard_min t \<Longrightarrow> pl_is_miss (resolve_plan s 0 t)"
  by (auto simp: resolve_plan_def miss_plan_def split: option.split)

lemma near_hit_misses:
  assumes "searches_ok env (sv_chunks st)" and "near_hit env req s cand st = Some (st', r)"
  shows "r = None"
proof -
  obtain st1 ok where p: "provenance_intact env cand st = (st1, ok)" by fastforce
  then have "searches_ok env (sv_chunks st1)" using provenance_intact_cases [OF p] assms(1) by simp
  then have "pl_is_miss (resolve_plan s (jaccard_similarity (top_chunk_ids env q k st1) ids) (sn_thresholds env))" for q k ids
    using plan_miss_zero by (simp add: no_top_chunks jaccard_similarity_def searches_ok_def)
  then show ?thesis using assms(2) p by (auto simp: near_hit_def Let_def split: if_splits option.splits)
qed

lemma miss_no_hit: "miss_response env b q s t st = Some r \<Longrightarrow> \<not> qr_hit r"
  by (auto simp: miss_response_def Let_def)

lemma query_near_misses:
  assumes "searches_ok env (sv_chunks st)" and "query_near env req b st = Some (st', r)"
  shows "\<not> qr_hit r"
  using assms(2) near_hit_misses [OF assms(1)] miss_no_hit
  by (fastforce simp: query_near_def Let_def split: option.splits if_splits prod.splits)

lemma hit_reply_simps [simp]:
  "qr_hit (hit_reply row t s p d k)" "qr_cache_id (hit_reply row t s p d k) = qa_cache_id row"
  "qr_answer (hit_reply row t s p d k) = qa_answer row" "qr_tier (hit_reply row t s p d k) = t"
  "qr_similarity (hit_reply row t s p d k) = s" "qr_provenance (hit_reply row t s p d k) = p"
  by (simp_all add: hit_reply_def)

lemma cached_as_of_row:
  assumes "get_cached_answer_as_of p h b t rows = Some r"
  shows "r \<in> set rows \<and> qa_project r = p \<and> qa_hash r = h \<and> qa_epoch r \<le> t"
proof -
  let ?rs = "sort_key (\<lambda>r. (- qa_epoch r, - qa_id r)) (filter (\<lambda>r. qa_key_of r = (p, b, h) \<and> qa_epoch r \<le> t) rows)"
  obtain rest where "?rs = r # rest" using assms unfolding get_cached_answer_as_of_def by (cases ?rs) auto
  then have "r \<in> set ?rs" by (metis list.set_intros(1))
  then show ?thesis by (simp add: qa_key_of_def)
qed

lemma cached_row:
  "get_cached_answer p h rows = Some r \<Longrightarrow> r \<in> set rows \<and> qa_project r = p \<and> qa_hash r = h \<and> qa_active r \<and> \<not> qa_stale r"
  unfolding get_cached_answer_def by (auto dest: find_SomeD)

section \<open>Properties\<close>

text \<open>
  C7: A query that reports a hit answers exactly the question asked: the answer comes from a stored
  row of the project with the same normalised question, whose recorded sources all still have
  their recorded hashes, and outside time travel the row is live and fresh. It is always an
  exact hit of tier 0: a merely similar question is never served, because the second check
  searches the chunks of buffer 0, which has none.
\<close>

theorem query_hit_sound:
  assumes "searches_ok env (sv_chunks st)"
    and "handle_query_with_cache env header req st = Some (st', Inr r)" and "qr_hit r"
  shows "\<exists>row\<in>set (qd_rows (sv_qa st)). qa_project row = rq_project req \<and>
     qa_hash row = question_hash (sn_sha256 env) (sn_lowercase env) (rq_question req) \<and>
     qr_answer r = qa_answer row \<and> qr_cache_id r = qa_cache_id row \<and>
     chunk_hashes_match (provenance_pairs (qa_chunk_ids row) (qa_hashes row)) (cd_rows (sv_chunks st)) \<and>
     (if 0 < rq_as_of req then qa_epoch row \<le> rq_as_of req else qa_active row \<and> \<not> qa_stale row) \<and>
     qr_tier r = 0 \<and> qr_similarity r = 1"
proof -
  let ?h = "question_hash (sn_sha256 env) (sn_lowercase env) (rq_question req)"
  let ?b = "resolve_buffer (rq_project req) (rq_buffer req) st"
  let ?exact = "if 0 < rq_as_of req then get_cached_answer_as_of (rq_project req) ?h ?b (rq_as_of req) (qd_rows (sv_qa st))
      else get_cached_answer (rq_project req) ?h (qd_rows (sv_qa st))"
  obtain ctx where auth: "authenticate (sn_millis env) header (sv_auth st) = Inr ctx"
    using assms(2) by (auto simp: handle_query_with_cache_def split: sum.splits)
  have ne: "trim (rq_project req) \<noteq> []" "trim (rq_question req) \<noteq> []"
    using assms(2) auth by (auto simp: handle_query_with_cache_def split: if_splits)
  have near: False if "query_near env req b st1 = Some (st', r)" "sv_chunks st1 = sv_chunks st" for b st1
    using query_near_misses [OF _ that(1)] assms(1,3) that(2) by simp
  show ?thesis
  proof (cases ?exact)
    case None
    then have "query_near env req ?b st = Some (st', r)"
      using assms(2) ne by (simp add: handle_query_with_cache_def auth Let_def)
    then show ?thesis using near by blast
  next
    case (Some row)
    obtain st1 ok where p: "provenance_intact env row st = (st1, ok)" by fastforce
    note pc = provenance_intact_cases [OF p]
    show ?thesis
    proof (cases ok)
      case True
      then have "\<exists>prov. r = hit_reply row 0 1 prov 0 (as_i32 (th_provenance_k (sn_thresholds env)))"
        using assms(2) ne Some p by (auto simp: handle_query_with_cache_def auth Let_def)
      moreover have "chunk_hashes_match (provenance_pairs (qa_chunk_ids row) (qa_hashes row)) (cd_rows (sv_chunks st))"
        using provenance_intact_match [of env row st st1] p True by simp
      moreover have "row \<in> set (qd_rows (sv_qa st)) \<and> qa_project row = rq_project req \<and> qa_hash row = ?h \<and>
          (if 0 < rq_as_of req then qa_epoch row \<le> rq_as_of req else qa_active row \<and> \<not> qa_stale row)"
        using Some cached_as_of_row cached_row by (auto split: if_splits)
      ultimately show ?thesis by auto
    next
      case False
      then have "query_near env req ?b st1 = Some (st', r)"
        using assms(2) ne Some p by (simp add: handle_query_with_cache_def auth Let_def)
      then show ?thesis using near pc by blast
    qed
  qed
qed

lemma find_map_eq: "List.find P (map f xs) = map_option f (List.find (\<lambda>x. P (f x)) xs)"
  by (induction xs) auto

lemma pending_cached:
  "get_cached_answer p h (qd_rows (mark_qa_cache_pending_vector ids db)) =
     map_option (\<lambda>r. if qa_id r \<in> set ids then r\<lparr>qa_vector_status := ''pending_vector''\<rparr> else r)
       (get_cached_answer p h (qd_rows db))"
proof -
  let ?f = "\<lambda>r. if qa_id r \<in> set ids then r\<lparr>qa_vector_status := ''pending_vector''\<rparr> else r"
  have "(\<lambda>r. qa_project (?f r) = p \<and> qa_hash (?f r) = h \<and> qa_active (?f r) \<and> \<not> qa_stale (?f r)) =
      (\<lambda>r. qa_project r = p \<and> qa_hash r = h \<and> qa_active r \<and> \<not> qa_stale r)" by auto
  then show ?thesis
    unfolding get_cached_answer_def mark_qa_cache_pending_vector_def update_where_def by (simp add: find_map_eq)
qed

text \<open>Indexing the question of an answer changes its vector status at most.\<close>

definition same_answer :: "qa_row \<Rightarrow> qa_row \<Rightarrow> bool" where
  "same_answer r r' \<longleftrightarrow> qa_chunk_ids r' = qa_chunk_ids r \<and> qa_hashes r' = qa_hashes r \<and> qa_answer r' = qa_answer r \<and>
     qa_cache_id r' = qa_cache_id r"

lemma index_question_other:
  "sv_chunks (index_question env q i st) = sv_chunks st" "sv_auth (index_question env q i st) = sv_auth st"
  by (auto simp: index_question_def Let_def split: option.split prod.split)

lemma index_question_cached:
  assumes "get_cached_answer p h (qd_rows (sv_qa st)) = Some r"
  shows "\<exists>r'. get_cached_answer p h (qd_rows (sv_qa (index_question env q i st))) = Some r' \<and> same_answer r r'"
proof -
  have "sv_qa (index_question env q i st) = sv_qa st \<or>
      sv_qa (index_question env q i st) = mark_qa_cache_pending_vector [i] (sv_qa st)"
    by (auto simp: index_question_def Let_def split: option.split prod.split)
  then show ?thesis
  proof
    assume "sv_qa (index_question env q i st) = sv_qa st"
    then show ?thesis using assms by (simp add: same_answer_def)
  next
    assume "sv_qa (index_question env q i st) = mark_qa_cache_pending_vector [i] (sv_qa st)"
    then show ?thesis using assms by (simp add: pending_cached same_answer_def)
  qed
qed

lemma provenance_now: "as_of \<le> 0 \<Longrightarrow> \<exists>prov. provenance_chunks ids k as_of db = Some prov"
proof -
  assume t: "as_of \<le> 0"
  have "\<exists>cs. provenance_revisions as_of xs db = Some cs" for xs using t by (induction xs) auto
  from this [of "take (max 1 k) (List.map_filter parse_i64 ids)"] show ?thesis by (auto simp: provenance_chunks_def Let_def)
qed

lemma exact_hit:
  assumes "authenticate (sn_millis env) header (sv_auth st) = Inr ctx"
    and "trim (rq_project q) \<noteq> []" "trim (rq_question q) \<noteq> []" and t: "rq_as_of q \<le> 0"
    and "get_cached_answer (rq_project q) (question_hash (sn_sha256 env) (sn_lowercase env) (rq_question q)) (qd_rows (sv_qa st)) = Some row"
    and "chunk_hashes_match (provenance_pairs (qa_chunk_ids row) (qa_hashes row)) (cd_rows (sv_chunks st))"
  shows "\<exists>st2 r. handle_query_with_cache env header q st = Some (st2, Inr r) \<and> qr_hit r \<and>
    qr_answer r = qa_answer row \<and> qr_cache_id r = qa_cache_id row"
proof -
  have "provenance_intact env row st = (st, True)" using assms(6) by (simp add: provenance_intact_def Let_def)
  moreover obtain prov where
    "provenance_chunks (qa_chunk_ids row) (th_provenance_k (sn_thresholds env)) (rq_as_of q) (sv_chunks st) = Some prov"
    using provenance_now [OF t] by blast
  ultimately show ?thesis using assms(1-5) by (simp add: handle_query_with_cache_def Let_def)
qed

text \<open>
  C8: Storing an answer in a reachable cache and asking the same question again, outside time travel, is a
  hit with that answer, when its sources carry the hashes it was stored with and no other buffer of the
  project holds a live answer to the same question (to its hash). Answers to other questions may
  lie in any buffer.
\<close>

theorem store_then_query:
  assumes "qa_reachable (sv_qa st)"
    and store: "handle_store_answer env header s st = (st1, Inr cid)"
    and q: "rq_project q = rs_project s" "rq_question q = rs_question s" "rq_as_of q \<le> 0"
    and only: "\<And>r. r \<in> set (qd_rows (sv_qa st)) \<Longrightarrow> qa_active r \<Longrightarrow> \<not> qa_stale r \<Longrightarrow> qa_project r = rs_project s \<Longrightarrow>
      qa_hash r = question_hash (sn_sha256 env) (sn_lowercase env) (rs_question s) \<Longrightarrow>
      qa_buffer r = resolve_buffer (rs_project s) (rs_buffer s) st"
    and sources: "chunk_hashes_match (provenance_pairs (rs_chunk_ids s) (rs_hashes s)) (cd_rows (sv_chunks st))"
  shows "\<exists>st2 r. handle_query_with_cache env header q st1 = Some (st2, Inr r) \<and> qr_hit r \<and>
    qr_answer r = rs_answer s \<and> qr_cache_id r = cid"
proof -
  obtain ctx where auth: "authenticate (sn_millis env) header (sv_auth st) = Inr ctx"
    using store by (auto simp: handle_store_answer_def split: sum.splits)
  have ne: "trim (rs_project s) \<noteq> []" "trim (rs_question s) \<noteq> []"
    using store auth by (auto simp: handle_store_answer_def split: if_splits)
  let ?inp = "answer_input env ctx s st" and ?h = "question_hash (sn_sha256 env) (sn_lowercase env) (rs_question s)"
  obtain qa sa where sa: "store_answer (sn_cache_id env) ?inp (sn_millis env) (sv_qa st) = (qa, sa)" by fastforce
  have st1: "st1 = index_question env (rs_question s) (sa_id sa) (st\<lparr>sv_qa := qa\<rparr>)" "cid = sa_cache_id sa"
    using store auth ne sa by (auto simp: handle_store_answer_def split: if_splits)
  have cid: "sa_cache_id sa = sn_cache_id env" using sa by (auto simp: store_answer_def split: prod.splits)
  obtain n v where n: "n = fresh_answer (sn_cache_id env) ?inp (sn_millis env) v (sa_id sa)"
    and got: "get_cached_answer (rs_project s) ?h (qd_rows qa) = Some n"
  proof -
    from store_answer_facts [OF assms(1) sa] obtain n r where
      nr: "n = fresh_answer (sn_cache_id env) ?inp (sn_millis env)
        (case List.find (\<lambda>r. qa_active r \<and> qa_key_of r = input_qa_key ?inp) (qd_rows (sv_qa st)) of
           None \<Rightarrow> 1 | Some old \<Rightarrow> qa_version old + 1) (sa_id sa)"
      "get_cached_answer (ai_project ?inp) (ai_hash ?inp) (qd_rows qa) = Some r"
      "r = n \<or> r \<in> set (qd_rows (sv_qa st)) \<and> qa_active r \<and> qa_buffer r \<noteq> ai_buffer ?inp" by blast
    have "r = n" using nr(3) only [of r] cached_row [OF nr(2)] by (auto simp: answer_input_def)
    then show ?thesis using that nr(1,2) by (simp add: answer_input_def)
  qed
  obtain row where row: "get_cached_answer (rs_project s) ?h (qd_rows (sv_qa st1)) = Some row" "same_answer n row"
    using index_question_cached [of "rs_project s" ?h "st\<lparr>sv_qa := qa\<rparr>" n env "rs_question s" "sa_id sa"] got st1(1) by auto
  have cols: "qa_chunk_ids row = rs_chunk_ids s" "qa_hashes row = rs_hashes s" "qa_answer row = rs_answer s" "qa_cache_id row = cid"
    using row(2) by (simp_all add: same_answer_def n fresh_answer_def answer_input_def st1(2) cid)
  have "authenticate (sn_millis env) header (sv_auth st1) = Inr ctx" by (simp add: st1(1) index_question_other auth)
  moreover have "chunk_hashes_match (provenance_pairs (qa_chunk_ids row) (qa_hashes row)) (cd_rows (sv_chunks st1))"
    using sources by (simp add: cols st1(1) index_question_other)
  ultimately show ?thesis using exact_hit [of env header st1 ctx q row] ne q row(1) cols by simp
qed

section \<open>Examples\<close>

definition demo_qa_env :: qa_server_env where
  "demo_qa_env =
     \<lparr>sn_thresholds = default_thresholds, sn_config_json = ''{}'', sn_embed = (\<lambda>_. None), sn_ann = (\<lambda>_ _ _. None), sn_shuffle = rev,
      sn_hybrid = demo_hybrid, sn_decay_lambda = 0, sn_sha256 = (\<lambda>t. t), sn_lowercase = (\<lambda>t. t), sn_millis = 2000, sn_secs = 2,
      sn_save = (2000, True), sn_cache_id = ''c1''\<rparr>"

definition demo_server :: qa_server where
  "demo_server =
     \<lparr>sv_auth = auth_run rev demo_auth_ops empty_auth, sv_qa = \<lparr>qd_rows = [], qd_jobs = []\<rparr>, sv_chunks = demo_index,
      sv_buffers = \<lparr>bd_rows = [], bd_seq = 0\<rparr>, sv_questions = None\<rparr>"

definition demo_store :: store_request where
  "demo_store =
     \<lparr>rs_project = ''p'', rs_question = ''why?'', rs_answer = ''because'', rs_buffer = 1, rs_chunk_ids = [''1''], rs_hashes = [''61''],
      rs_model = [], rs_tokens = 0\<rparr>"

definition demo_query :: query_request where
  "demo_query = \<lparr>rq_project = ''p'', rq_question = ''why?'', rq_buffer = 1, rq_as_of = 0\<rparr>"

definition demo_header :: header_value where
  "demo_header = Text_Header ''Bearer s1''"

definition demo_answered :: qa_server where
  "demo_answered = fst (handle_store_answer demo_qa_env demo_header demo_store demo_server)"

lemma demo_searches_ok: "searches_ok demo_qa_env demo_index"
proof -
  have "list_all (\<lambda>c. 0 < ck_buffer c) (cd_rows demo_index)" by code_simp
  then show ?thesis
    by (simp add: searches_ok_def demo_qa_env_def hash_order_ok_def vectors_match_def demo_hybrid_def default_thresholds_def)
qed

lemma demo_asked:
  "\<exists>st2 r. handle_query_with_cache demo_qa_env demo_header demo_query demo_answered = Some (st2, Inr r) \<and> qr_hit r \<and>
     qr_answer r = ''because''"
proof -
  have "map_option (\<lambda>r. (qa_answer r, qa_chunk_ids r, qa_hashes r))
      (get_cached_answer (rq_project demo_query) (question_hash (sn_sha256 demo_qa_env) (sn_lowercase demo_qa_env) (rq_question demo_query))
        (qd_rows (sv_qa demo_answered))) = Some (''because'', [''1''], [''61''])" by code_simp
  then obtain row where row: "get_cached_answer (rq_project demo_query)
      (question_hash (sn_sha256 demo_qa_env) (sn_lowercase demo_qa_env) (rq_question demo_query)) (qd_rows (sv_qa demo_answered)) = Some row"
    "qa_answer row = ''because''" "qa_chunk_ids row = [''1'']" "qa_hashes row = [''61'']" by auto
  have "chunk_hashes_match (provenance_pairs [''1''] [''61'']) (cd_rows (sv_chunks demo_answered))" by code_simp
  moreover have "authenticate (sn_millis demo_qa_env) demo_header (sv_auth demo_answered) = Inr \<lparr>ac_username = ''ann'', ac_role = Admin\<rparr>"
    by code_simp
  moreover have "trim (rq_project demo_query) \<noteq> []" "trim (rq_question demo_query) \<noteq> []" by code_simp+
  moreover have "rq_as_of demo_query \<le> 0" by (simp add: demo_query_def)
  ultimately show ?thesis using exact_hit [of demo_qa_env demo_header demo_answered _ demo_query row] row by auto
qed

lemma demo_answered_chunks: "sv_chunks demo_answered = demo_index"
  by code_simp

lemma query_hit_sound_witness:
  "\<exists>row\<in>set (qd_rows (sv_qa demo_answered)). qa_answer row = ''because'' \<and> qa_active row \<and>
     chunk_hashes_match (provenance_pairs (qa_chunk_ids row) (qa_hashes row)) (cd_rows demo_index)"
proof -
  obtain st' r where r: "handle_query_with_cache demo_qa_env demo_header demo_query demo_answered = Some (st', Inr r)" "qr_hit r"
    "qr_answer r = ''because''" using demo_asked by blast
  have "searches_ok demo_qa_env (sv_chunks demo_answered)" by (simp only: demo_answered_chunks demo_searches_ok)
  from query_hit_sound [OF this r(1,2)] show ?thesis
    using r(3) by (auto simp: demo_query_def demo_answered_chunks)
qed

lemma store_then_query_witness:
  "\<exists>st2 r. handle_query_with_cache demo_qa_env demo_header demo_query demo_answered = Some (st2, Inr r) \<and> qr_answer r = ''because''"
proof -
  have "(case handle_store_answer demo_qa_env demo_header demo_store demo_server of (_, Inr c) \<Rightarrow> c | (_, Inl _) \<Rightarrow> []) = ''c1''" by code_simp
  then have s: "handle_store_answer demo_qa_env demo_header demo_store demo_server = (demo_answered, Inr ''c1'')"
    unfolding demo_answered_def by (cases "handle_store_answer demo_qa_env demo_header demo_store demo_server") (auto split: sum.splits)
  have "chunk_hashes_match (provenance_pairs (rs_chunk_ids demo_store) (rs_hashes demo_store)) (cd_rows (sv_chunks demo_server))" by code_simp
  moreover have "qa_reachable (sv_qa demo_server)" by (simp add: demo_server_def qa_reachable.start)
  moreover have "rq_project demo_query = rs_project demo_store" "rq_question demo_query = rs_question demo_store" "rq_as_of demo_query \<le> 0"
    by (simp_all add: demo_query_def demo_store_def)
  moreover have "qd_rows (sv_qa demo_server) = []" by (simp add: demo_server_def)
  ultimately have "\<exists>st2 r. handle_query_with_cache demo_qa_env demo_header demo_query demo_answered = Some (st2, Inr r) \<and> qr_hit r \<and>
      qr_answer r = rs_answer demo_store \<and> qr_cache_id r = ''c1''"
    by (intro store_then_query [OF _ s]) simp_all
  then show ?thesis by (auto simp: demo_store_def)
qed

end
