(* ===== verification/Reconcile.thy ===== *)
theory Reconcile
  imports Vector_Space Explorations Pending_Qa Projects
begin

text \<open>
  The maintenance pass that gives rows their missing vectors
  (\<^verbatim>\<open>crates/arags-server/src/reconcile.rs\<close>), and the rest of the start-up rebuild
  (\<^verbatim>\<open>crates/arags-server/src/bootstrap.rs\<close>). The code repeats one loop for its four vector
  spaces; here the loop is one definition over the calls of the store it uses. The embedder is
  an argument that may fail on any batch; a vector of the wrong length is refused by the space.
  The counters are natural numbers. The locales \<open>keyed_store\<close> and \<open>pending_table\<close> are the
  interfaces of a vector space and of a table with markers, interpreted on the two kinds of
  space and on the four tables. Lemmas: what a pass counts, stores and leaves pending.
\<close>

section \<open>One space\<close>

definition reconcile_batch :: nat where
  "reconcile_batch = 512"

record space_reconcile =
  sr_before :: nat
  sr_processed :: nat
  sr_remaining :: nat

definition no_reconcile :: space_reconcile where
  "no_reconcile = \<lparr>sr_before = 0, sr_processed = 0, sr_remaining = 0\<rparr>"

definition merge_reconcile :: "space_reconcile \<Rightarrow> space_reconcile \<Rightarrow> space_reconcile" where
  "merge_reconcile a b =
     \<lparr>sr_before = sr_before a + sr_before b, sr_processed = sr_processed a + sr_processed b,
      sr_remaining = sr_remaining a + sr_remaining b\<rparr>"

type_synonym embedder = "string list \<Rightarrow> embedding list option"

text \<open>Inserting the vectors one after the other: the ids that went in, and those refused.\<close>

fun insert_each ::
  "('i \<Rightarrow> row_id) \<Rightarrow> ('i \<Rightarrow> embedding \<Rightarrow> 'v \<Rightarrow> 'v \<times> bool) \<Rightarrow> ('i \<times> embedding) list \<Rightarrow> 'v \<Rightarrow>
   'v \<times> row_id list \<times> row_id list" where
  "insert_each key insert_one [] vs = (vs, [], [])"
| "insert_each key insert_one ((i, v) # rest) vs =
     (case insert_one i v vs of (vs1, ok) \<Rightarrow>
        (case insert_each key insert_one rest vs1 of (vs2, cleared, failed) \<Rightarrow>
           if ok then (vs2, key i # cleared, failed) else (vs2, cleared, key i # failed)))"

definition embed_and_insert ::
  "embedder \<Rightarrow> ('i \<Rightarrow> row_id) \<Rightarrow> ('i \<Rightarrow> string) \<Rightarrow> ('i \<Rightarrow> embedding \<Rightarrow> 'v \<Rightarrow> 'v \<times> bool) \<Rightarrow> 'i list \<Rightarrow> 'v \<Rightarrow>
   'v \<times> row_id list \<times> row_id list" where
  "embed_and_insert embed_batch key txt insert_one inputs vs =
     (if inputs = [] then (vs, [], [])
      else case embed_batch (map txt inputs) of
        None \<Rightarrow> (vs, [], map key inputs)
      | Some vectors \<Rightarrow> insert_each key insert_one (zip inputs vectors) vs)"

fun reconcile_batches ::
  "(row_id list \<Rightarrow> 'd \<Rightarrow> 'i list) \<Rightarrow> ('i \<Rightarrow> row_id) \<Rightarrow> ('i list \<Rightarrow> 'v \<Rightarrow> 'v \<times> row_id list \<times> row_id list) \<Rightarrow>
   (row_id list \<Rightarrow> 'd \<Rightarrow> 'd) \<Rightarrow> row_id list list \<Rightarrow> 'd \<times> 'v \<Rightarrow> space_reconcile \<Rightarrow> ('d \<times> 'v) \<times> space_reconcile" where
  "reconcile_batches get key put clear [] st acc = (st, acc)"
| "reconcile_batches get key put clear (batch # rest) (db, vs) acc =
     (let inputs = get batch db;
          (vs', cleared, failed) = put inputs vs;
          missing = filter (\<lambda>i. i \<notin> set (map key inputs)) batch;
          db' = (if cleared = [] then db else clear cleared db)
      in reconcile_batches get key put clear rest (db', vs')
           (acc\<lparr>sr_processed := sr_processed acc + length cleared,
                sr_remaining := sr_remaining acc + (length failed + length missing)\<rparr>))"

definition reconcile_space ::
  "('d \<Rightarrow> row_id list) \<Rightarrow> (row_id list \<Rightarrow> 'd \<Rightarrow> 'i list) \<Rightarrow> ('i \<Rightarrow> row_id) \<Rightarrow>
   ('i list \<Rightarrow> 'v \<Rightarrow> 'v \<times> row_id list \<times> row_id list) \<Rightarrow> (row_id list \<Rightarrow> 'd \<Rightarrow> 'd) \<Rightarrow> 'd \<times> 'v \<Rightarrow>
   ('d \<times> 'v) \<times> space_reconcile" where
  "reconcile_space pending get key put clear st =
     (let ids = pending (fst st)
      in reconcile_batches get key put clear (rust_chunks reconcile_batch ids) st (no_reconcile\<lparr>sr_before := length ids\<rparr>))"

section \<open>The four spaces\<close>

definition chunk_vector :: "row_id \<times> row_id \<times> string \<Rightarrow> embedding \<Rightarrow> vector_store \<Rightarrow> vector_store \<times> bool" where
  "chunk_vector = (\<lambda>(i, b, _) v vs. insert_vectors [\<lparr>ve_chunk = i, ve_buffer = b, ve_vector = v\<rparr>] vs)"

definition row_vector :: "space_io \<Rightarrow> row_id \<times> string \<Rightarrow> embedding \<Rightarrow> space_store \<Rightarrow> space_store \<times> bool" where
  "row_vector io = (\<lambda>(i, _) v vs. insert_space (fst (io i)) (snd (io i)) i v vs)"

definition embed_and_insert_chunks ::
  "embedder \<Rightarrow> (row_id \<times> row_id \<times> string) list \<Rightarrow> vector_store \<Rightarrow> vector_store \<times> row_id list \<times> row_id list" where
  "embed_and_insert_chunks embed_batch = embed_and_insert embed_batch fst (snd \<circ> snd) chunk_vector"

definition reconcile_chunks ::
  "embedder \<Rightarrow> row_id \<Rightarrow> chunk_db \<times> vector_store \<Rightarrow> (chunk_db \<times> vector_store) \<times> space_reconcile" where
  "reconcile_chunks embed_batch buffer_id =
     reconcile_space (\<lambda>db. chunks_pending_vector buffer_id (cd_rows db)) get_chunk_embed_inputs fst
       (embed_and_insert_chunks embed_batch)
       (\<lambda>ids db. db\<lparr>cd_rows := clear_chunks_pending_vector buffer_id ids (cd_rows db)\<rparr>)"

definition reconcile_qa ::
  "embedder \<Rightarrow> space_io \<Rightarrow> string \<Rightarrow> qa_db \<times> space_store \<Rightarrow> (qa_db \<times> space_store) \<times> space_reconcile" where
  "reconcile_qa embed_batch io project =
     reconcile_space (\<lambda>db. qa_cache_pending_vector project (qd_rows db)) (\<lambda>ids db. get_qa_embed_inputs ids (qd_rows db)) fst
       (embed_and_insert embed_batch fst snd (row_vector io)) clear_qa_cache_pending_vector"

definition reconcile_rlm ::
  "embedder \<Rightarrow> space_io \<Rightarrow> row_id \<Rightarrow> rlm_node list \<times> space_store \<Rightarrow> (rlm_node list \<times> space_store) \<times> space_reconcile" where
  "reconcile_rlm embed_batch io buffer_id =
     reconcile_space (rlm_nodes_pending_vector buffer_id) get_rlm_embed_inputs fst
       (embed_and_insert embed_batch fst snd (row_vector io)) (clear_rlm_nodes_pending_vector buffer_id)"

definition reconcile_explorations ::
  "embedder \<Rightarrow> space_io \<Rightarrow> row_id \<Rightarrow> exploration_db \<times> space_store \<Rightarrow> (exploration_db \<times> space_store) \<times> space_reconcile" where
  "reconcile_explorations embed_batch io buffer_id =
     reconcile_space (\<lambda>db. explorations_pending_vector buffer_id (xd_rows db))
       (\<lambda>ids db. get_exploration_embed_inputs ids (xd_rows db)) fst
       (embed_and_insert embed_batch fst snd (row_vector io)) (clear_explorations_pending_vector buffer_id)"

section \<open>The pass over all projects\<close>

record space_state =
  vp_buffers :: buffer_db
  vp_chunks :: chunk_db
  vp_qa :: qa_db
  vp_nodes :: "rlm_node list"
  vp_maps :: exploration_db
  vp_chunk_space :: "vector_store option"
  vp_qa_space :: "space_store option"
  vp_rlm_space :: "space_store option"
  vp_map_space :: "space_store option"

record reconcile_report =
  rr_chunks :: space_reconcile
  rr_qa :: space_reconcile
  rr_rlm :: space_reconcile
  rr_maps :: space_reconcile

text \<open>A space that is not open is skipped.\<close>

definition with_space ::
  "('d \<times> 'v \<Rightarrow> ('d \<times> 'v) \<times> space_reconcile) \<Rightarrow> 'd \<Rightarrow> 'v option \<Rightarrow> space_reconcile \<Rightarrow> 'd \<times> 'v option \<times> space_reconcile" where
  "with_space pass db store acc =
     (case store of None \<Rightarrow> (db, None, acc)
      | Some vs \<Rightarrow> (case pass (db, vs) of ((db', vs'), r) \<Rightarrow> (db', Some vs', merge_reconcile acc r)))"

definition reconcile_buffer ::
  "embedder \<Rightarrow> space_io \<Rightarrow> buffer \<Rightarrow> space_state \<times> reconcile_report \<Rightarrow> space_state \<times> reconcile_report" where
  "reconcile_buffer embed_batch io b = (\<lambda>(st, rep).
     (let (cdb, cvs, rc) = with_space (reconcile_chunks embed_batch (bf_id b)) (vp_chunks st) (vp_chunk_space st) (rr_chunks rep);
          (nodes, rvs, rr) = with_space (reconcile_rlm embed_batch io (bf_id b)) (vp_nodes st) (vp_rlm_space st) (rr_rlm rep);
          (maps, xvs, rx) = with_space (reconcile_explorations embed_batch io (bf_id b)) (vp_maps st) (vp_map_space st) (rr_maps rep);
          (qa, qvs, rq) = with_space (reconcile_qa embed_batch io (bf_name b)) (vp_qa st) (vp_qa_space st) (rr_qa rep)
      in (st\<lparr>vp_chunks := cdb, vp_chunk_space := cvs, vp_nodes := nodes, vp_rlm_space := rvs,
             vp_maps := maps, vp_map_space := xvs, vp_qa := qa, vp_qa_space := qvs\<rparr>,
          \<lparr>rr_chunks = rc, rr_qa = rq, rr_rlm = rr, rr_maps = rx\<rparr>)))"

definition reconcile_pending_vectors :: "embedder \<Rightarrow> space_io \<Rightarrow> space_state \<Rightarrow> space_state \<times> reconcile_report" where
  "reconcile_pending_vectors embed_batch io st =
     fold (reconcile_buffer embed_batch io) (list_buffers (bd_rows (vp_buffers st)))
       (st, \<lparr>rr_chunks = no_reconcile, rr_qa = no_reconcile, rr_rlm = no_reconcile, rr_maps = no_reconcile\<rparr>)"

section \<open>The start-up rebuild of all spaces\<close>

definition bootstrap_explorations ::
  "embedder \<Rightarrow> space_io \<Rightarrow> nat \<times> bool \<Rightarrow> nat \<times> bool \<Rightarrow> exploration_db \<Rightarrow> space_store option \<Rightarrow>
   space_store option \<times> space_report" where
  "bootstrap_explorations embed_batch io io_clear io_end db store =
     bootstrap_space embed_batch io io_clear io_end (all_exploration_embed_inputs (xd_rows db)) store"

definition bootstrap_vector_spaces ::
  "embedder \<Rightarrow> space_io \<Rightarrow> nat \<times> bool \<Rightarrow> nat \<times> bool \<Rightarrow> bool \<Rightarrow> space_state \<Rightarrow>
   space_state \<times> space_report \<times> space_report \<times> space_report \<times> space_report" where
  "bootstrap_vector_spaces embed_batch io io_clear io_end ok st =
     (let (cvs, rc) = bootstrap_chunks embed_batch ok (vp_chunks st) (vp_chunk_space st);
          (qvs, rq) = bootstrap_qa embed_batch io io_clear io_end (vp_qa st) (vp_qa_space st);
          (rvs, rr) = bootstrap_rlm embed_batch io io_clear io_end (vp_nodes st) (vp_rlm_space st);
          (xvs, rx) = bootstrap_explorations embed_batch io io_clear io_end (vp_maps st) (vp_map_space st)
      in (st\<lparr>vp_chunk_space := cvs, vp_qa_space := qvs, vp_rlm_space := rvs, vp_map_space := xvs\<rparr>, rc, rq, rr, rx))"

section \<open>What a pass promises\<close>

definition group_pass ::
  "('g \<Rightarrow> 's \<Rightarrow> 's \<times> space_reconcile) \<Rightarrow> 'g \<Rightarrow> 's \<times> space_reconcile \<Rightarrow> 's \<times> space_reconcile" where
  "group_pass pass g = (\<lambda>(st, acc). case pass g st of (st', r) \<Rightarrow> (st', merge_reconcile acc r))"

text \<open>
  The contract of a pass over the groups \<open>gs\<close>: it counts the markers before and after it, what
  it no longer has as pending is stored as the vector of its text, and nothing else changes in
  the space.
\<close>

definition reconciled ::
  "(string \<Rightarrow> embedding) \<Rightarrow> ('g \<Rightarrow> 'd \<Rightarrow> row_id list) \<Rightarrow> (row_id list \<Rightarrow> 'd \<Rightarrow> 'i list) \<Rightarrow> ('i \<Rightarrow> string) \<Rightarrow>
   ('v \<Rightarrow> row_id \<Rightarrow> embedding option) \<Rightarrow> 'g list \<Rightarrow> 'd \<times> 'v \<Rightarrow> 'd \<times> 'v \<Rightarrow> space_reconcile \<Rightarrow> bool" where
  "reconciled e pending get content stored gs = (\<lambda>(d, vs) (d', vs') r.
     sr_before r = sum_list (map (\<lambda>g. length (pending g d)) gs) \<and>
     sr_remaining r = sum_list (map (\<lambda>g. length (pending g d')) gs) \<and>
     sr_processed r + sr_remaining r = sr_before r \<and>
     (\<forall>g\<in>set gs. \<forall>i\<in>set (pending g d).
        i \<in> set (pending g d') \<or> (\<exists>x\<in>set (get [i] d). stored vs' i = Some (e (content x)))) \<and>
     (\<forall>i. i \<notin> (\<Union>g\<in>set gs. set (pending g d)) \<longrightarrow> stored vs' i = stored vs i))"

section \<open>The interfaces\<close>

text \<open>A space keeps one vector per id and refuses a vector of another length.\<close>

locale keyed_store =
  fixes key :: "'i \<Rightarrow> row_id" and insert_one :: "'i \<Rightarrow> embedding \<Rightarrow> 'v \<Rightarrow> 'v \<times> bool"
    and stored :: "'v \<Rightarrow> row_id \<Rightarrow> embedding option" and dims :: "'v \<Rightarrow> nat"
  assumes insert_fits: "length v = dims vs \<Longrightarrow>
      \<exists>vs'. insert_one x v vs = (vs', True) \<and> stored vs' = (stored vs)(key x \<mapsto> v) \<and> dims vs' = dims vs"
    and insert_refused: "length v \<noteq> dims vs \<Longrightarrow> insert_one x v vs = (vs, False)"
begin

lemma insert_each_spec:
  assumes "insert_each key insert_one pairs vs = (vs', cleared, failed)"
  shows "dims vs' = dims vs \<and>
    cleared = map (key \<circ> fst) (filter (\<lambda>p. length (snd p) = dims vs) pairs) \<and>
    failed = map (key \<circ> fst) (filter (\<lambda>p. length (snd p) \<noteq> dims vs) pairs) \<and>
    stored vs' = stored vs ++ map_of (rev (map (\<lambda>p. (key (fst p), snd p)) (filter (\<lambda>p. length (snd p) = dims vs) pairs)))"
  using assms
proof (induction pairs arbitrary: vs vs' cleared failed)
  case (Cons p pairs)
  obtain x v where p: "p = (x, v)" by (cases p)
  show ?case
  proof (cases "length v = dims vs")
    case True
    from insert_fits [OF True, of x] obtain vs1 where
      vs1: "insert_one x v vs = (vs1, True)" "stored vs1 = (stored vs)(key x \<mapsto> v)" "dims vs1 = dims vs" by blast
    obtain vs2 c f where r: "insert_each key insert_one pairs vs1 = (vs2, c, f)" by (metis prod_cases3)
    from Cons.IH [OF r] Cons.prems show ?thesis by (auto simp: p vs1 r True map_add_def fun_eq_iff split: option.splits)
  next
    case False
    obtain vs2 c f where r: "insert_each key insert_one pairs vs = (vs2, c, f)" by (metis prod_cases3)
    from Cons.IH [OF r] Cons.prems show ?thesis by (auto simp: p insert_refused [OF False] r False)
  qed
qed simp

end

definition embeds_sound :: "(string \<Rightarrow> embedding) \<Rightarrow> embedder \<Rightarrow> bool" where
  "embeds_sound e embed_batch \<longleftrightarrow> (\<forall>ts vectors. embed_batch ts = Some vectors \<longrightarrow> vectors = map e ts)"

lemma embeds_by_sound: "embeds_by e n embed_batch \<Longrightarrow> embeds_sound e embed_batch"
  by (simp add: embeds_by_def embeds_sound_def)

text \<open>
  A table with markers, per project: which ids are pending, the inputs of some ids, and clearing
  the markers of some ids.
\<close>

locale pending_table =
  fixes ok :: "'d \<Rightarrow> bool" and pending :: "'g \<Rightarrow> 'd \<Rightarrow> row_id list" and get :: "row_id list \<Rightarrow> 'd \<Rightarrow> 'i list"
    and key :: "'i \<Rightarrow> row_id" and clear :: "'g \<Rightarrow> row_id list \<Rightarrow> 'd \<Rightarrow> 'd"
  assumes pending_distinct: "ok d \<Longrightarrow> distinct (pending g d)"
    and pending_disjoint: "ok d \<Longrightarrow> g \<noteq> h \<Longrightarrow> set (pending g d) \<inter> set (pending h d) = {}"
    and get_distinct: "ok d \<Longrightarrow> distinct (map key (get ids d))"
    and get_iff: "x \<in> set (get ids d) \<longleftrightarrow> key x \<in> set ids \<and> x \<in> set (get [key x] d)"
    and clear_ok: "ok d \<Longrightarrow> ok (clear g ids d)"
    and clear_get: "get ids' (clear g ids d) = get ids' d"
    and clear_pending: "ok d \<Longrightarrow> set ids \<subseteq> set (pending g d) \<Longrightarrow>
      pending h (clear g ids d) = filter (\<lambda>i. i \<notin> set ids) (pending h d)"

locale reconcilable = keyed_store key insert_one stored dims + pending_table ok pending get key clear
  for key :: "'i \<Rightarrow> row_id" and insert_one :: "'i \<Rightarrow> embedding \<Rightarrow> 'v \<Rightarrow> 'v \<times> bool"
    and stored :: "'v \<Rightarrow> row_id \<Rightarrow> embedding option" and dims :: "'v \<Rightarrow> nat"
    and ok :: "'d \<Rightarrow> bool" and pending :: "'g \<Rightarrow> 'd \<Rightarrow> row_id list" and get :: "row_id list \<Rightarrow> 'd \<Rightarrow> 'i list"
    and clear :: "'g \<Rightarrow> row_id list \<Rightarrow> 'd \<Rightarrow> 'd" +
  fixes content :: "'i \<Rightarrow> string"
begin

lemma embed_and_insert_spec:
  assumes put: "embed_and_insert embed_batch key content insert_one inputs vs = (vs', cleared, failed)"
    and sound: "embeds_sound e embed_batch" and distinct: "distinct (map key inputs)"
  shows "dims vs' = dims vs" "length cleared + length failed = length inputs" "set cleared \<subseteq> key ` set inputs" "distinct cleared"
    "\<forall>x. x \<in> set inputs \<and> key x \<in> set cleared \<longrightarrow> stored vs' (key x) = Some (e (content x))"
    "\<forall>i. i \<notin> set cleared \<longrightarrow> stored vs' i = stored vs i"
    "embeds_by e (dims vs) embed_batch \<Longrightarrow> cleared = map key inputs"
proof -
  consider (none) "inputs = [] \<or> embed_batch (map content inputs) = None"
    | (some) "inputs \<noteq> []" "embed_batch (map content inputs) = Some (map e (map content inputs))"
    using sound unfolding embeds_sound_def by (cases "embed_batch (map content inputs)") (blast, metis)
  then have "dims vs' = dims vs \<and> length cleared + length failed = length inputs \<and> set cleared \<subseteq> key ` set inputs \<and> distinct cleared \<and>
    (\<forall>x. x \<in> set inputs \<and> key x \<in> set cleared \<longrightarrow> stored vs' (key x) = Some (e (content x))) \<and>
    (\<forall>i. i \<notin> set cleared \<longrightarrow> stored vs' i = stored vs i) \<and> (embeds_by e (dims vs) embed_batch \<longrightarrow> cleared = map key inputs)"
  proof cases
    case none
    then show ?thesis using put by (auto simp: embed_and_insert_def embeds_by_def split: if_splits option.splits)
  next
    case some
    let ?pairs = "map (\<lambda>x. (x, e (content x))) inputs" and ?fits = "\<lambda>x. length (e (content x)) = dims vs"
    have "insert_each key insert_one ?pairs vs = (vs', cleared, failed)"
      using put some by (simp add: embed_and_insert_def zip_map2 zip_same_conv_map comp_def)
    from insert_each_spec [OF this]
    have r: "dims vs' = dims vs" "cleared = map key (filter ?fits inputs)" "failed = map key (filter (\<lambda>x. \<not> ?fits x) inputs)"
      "stored vs' = stored vs ++ map_of (rev (map (\<lambda>x. (key x, e (content x))) (filter ?fits inputs)))"
      by (simp_all add: filter_map comp_def)
    have d: "distinct (map fst (rev (map (\<lambda>x. (key x, e (content x))) (filter ?fits inputs))))"
      using distinct by (simp add: rev_map [symmetric] comp_def distinct_map_filter)
    have "stored vs' (key x) = Some (e (content x))" if "x \<in> set inputs" "key x \<in> set cleared" for x
    proof -
      from that(2) obtain y where y: "y \<in> set inputs" "?fits y" "key y = key x" by (auto simp: r(2))
      have "y = x" using distinct y(1,3) that(1) by (auto simp: distinct_map dest: inj_onD)
      then have "(key x, e (content x)) \<in> set (rev (map (\<lambda>x. (key x, e (content x))) (filter ?fits inputs)))"
        using y by auto
      from map_of_is_SomeI [OF d this] show ?thesis by (simp add: r(4) map_add_def)
    qed
    moreover have "stored vs' i = stored vs i" if "i \<notin> set cleared" for i
    proof -
      have "map_of (rev (map (\<lambda>x. (key x, e (content x))) (filter ?fits inputs))) i = None"
        using that by (auto simp: map_of_eq_None_iff r(2))
      then show ?thesis by (simp add: r(4) map_add_def)
    qed
    ultimately show ?thesis using r(1-3) distinct
      by (auto simp: sum_length_filter_compl distinct_map_filter embeds_by_def)
  qed
  then show "dims vs' = dims vs" "length cleared + length failed = length inputs" "set cleared \<subseteq> key ` set inputs" "distinct cleared"
    "\<forall>x. x \<in> set inputs \<and> key x \<in> set cleared \<longrightarrow> stored vs' (key x) = Some (e (content x))"
    "\<forall>i. i \<notin> set cleared \<longrightarrow> stored vs' i = stored vs i"
    "embeds_by e (dims vs) embed_batch \<Longrightarrow> cleared = map key inputs" by simp_all
qed

lemma get_key: "x \<in> set (get ids d) \<Longrightarrow> key x \<in> set ids"
  using get_iff [of x ids d] by blast

text \<open>What a run over some batches did: \<open>C\<close> are the ids that were cleared.\<close>

lemma reconcile_batches_spec:
  assumes "reconcile_batches get key (embed_and_insert embed_batch key content insert_one) (clear g) batches (d, vs) acc = ((d', vs'), acc')"
    and "embeds_sound e embed_batch" and "ok d" and "distinct (concat batches)" and "set (concat batches) \<subseteq> set (pending g d)"
  shows "\<exists>C. set C \<subseteq> set (concat batches) \<and> distinct C \<and> ok d' \<and> dims vs' = dims vs \<and>
    (\<forall>h. pending h d' = filter (\<lambda>i. i \<notin> set C) (pending h d)) \<and> (\<forall>ids. get ids d' = get ids d) \<and>
    sr_before acc' = sr_before acc \<and> sr_processed acc' = sr_processed acc + length C \<and>
    sr_processed acc' + sr_remaining acc' = sr_processed acc + sr_remaining acc + length (concat batches) \<and>
    (\<forall>i. i \<in> set C \<longrightarrow> (\<exists>x\<in>set (get [i] d). stored vs' i = Some (e (content x)))) \<and>
    (\<forall>i. i \<notin> set C \<longrightarrow> stored vs' i = stored vs i) \<and>
    (embeds_by e (dims vs) embed_batch \<longrightarrow> (\<forall>i. i \<in> set (concat batches) \<and> get [i] d \<noteq> [] \<longrightarrow> i \<in> set C))"
  using assms
proof (induction batches arbitrary: d vs acc)
  case Nil
  then show ?case by (intro exI [of _ "[]"]) simp
next
  case (Cons batch batches)
  let ?in = "get batch d"
  obtain vs1 cleared failed where put: "embed_and_insert embed_batch key content insert_one ?in vs = (vs1, cleared, failed)"
    by (metis prod_cases3)
  note p = embed_and_insert_spec [OF put Cons.prems(2) get_distinct [OF Cons.prems(3)]]
  let ?missing = "filter (\<lambda>i. i \<notin> set (map key ?in)) batch"
  let ?d = "if cleared = [] then d else clear g cleared d"
  let ?acc = "acc\<lparr>sr_processed := sr_processed acc + length cleared, sr_remaining := sr_remaining acc + (length failed + length ?missing)\<rparr>"
  have sub: "key ` set ?in \<subseteq> set batch" using get_key by blast
  have cb1: "set cleared \<subseteq> set batch" using p(3) sub by (rule subset_trans)
  then have cb: "set cleared \<subseteq> set batch" "set cleared \<subseteq> set (pending g d)" using Cons.prems(5) by auto
  have pend: "pending h ?d = filter (\<lambda>i. i \<notin> set cleared) (pending h d)" for h
    using clear_pending [OF Cons.prems(3) cb(2)] by auto
  have got: "get ids ?d = get ids d" for ids by (simp add: clear_get)
  have run: "reconcile_batches get key (embed_and_insert embed_batch key content insert_one) (clear g) batches (?d, vs1) ?acc = ((d', vs'), acc')"
    using Cons.prems(1) put by (simp add: Let_def)
  have "set (concat batches) \<subseteq> set (pending g ?d)" using Cons.prems(4,5) cb(1) unfolding pend by auto
  have okd: "ok ?d" using clear_ok Cons.prems(3) by simp
  have "distinct (concat batches)" using Cons.prems(4) by simp
  from Cons.IH [OF run Cons.prems(2) okd this \<open>set (concat batches) \<subseteq> set (pending g ?d)\<close>] obtain C where
    C: "set C \<subseteq> set (concat batches)" "distinct C" "ok d'" "dims vs' = dims vs1"
      "\<forall>h. pending h d' = filter (\<lambda>i. i \<notin> set C) (pending h ?d)" "\<forall>ids. get ids d' = get ids ?d"
      "sr_before acc' = sr_before ?acc" "sr_processed acc' = sr_processed ?acc + length C"
      "sr_processed acc' + sr_remaining acc' = sr_processed ?acc + sr_remaining ?acc + length (concat batches)"
      "\<forall>i. i \<in> set C \<longrightarrow> (\<exists>x\<in>set (get [i] ?d). stored vs' i = Some (e (content x)))"
      "\<forall>i. i \<notin> set C \<longrightarrow> stored vs' i = stored vs1 i"
      "embeds_by e (dims vs1) embed_batch \<longrightarrow> (\<forall>i. i \<in> set (concat batches) \<and> get [i] ?d \<noteq> [] \<longrightarrow> i \<in> set C)"
    by (elim exE conjE) (rule that; assumption)
  have dj: "set batch \<inter> set C = {}" using C(1) Cons.prems(4) by auto
  have "length ?in = length (filter (\<lambda>i. i \<in> set (map key ?in)) batch)"
  proof -
    have "set (filter (\<lambda>i. i \<in> set (map key ?in)) batch) = set (map key ?in)" using sub by auto
    then show ?thesis using distinct_card [OF get_distinct [OF Cons.prems(3), of batch]]
        distinct_card [of "filter (\<lambda>i. i \<in> set (map key ?in)) batch"] Cons.prems(4) by simp
  qed
  then have count: "length cleared + (length failed + length ?missing) = length batch"
    using p(2) sum_length_filter_compl [of "\<lambda>i. i \<in> set (map key ?in)" batch] by simp
  have stores: "\<exists>x\<in>set (get [i] d). stored vs' i = Some (e (content x))" if "i \<in> set (cleared @ C)" for i
  proof (cases "i \<in> set C")
    case True
    then show ?thesis using C(10) got by auto
  next
    case False
    then have "i \<in> set cleared" using that by simp
    then obtain x where x: "x \<in> set ?in" "key x = i" using p(3) by auto
    then have "x \<in> set (get [i] d)" using get_iff [of x batch d] by simp
    moreover have "stored vs' i = Some (e (content x))" using C(11) False p(5) x \<open>i \<in> set cleared\<close> by auto
    ultimately show ?thesis by blast
  qed
  have complete: "i \<in> set (cleared @ C)" if "embeds_by e (dims vs) embed_batch" "i \<in> set (concat (batch # batches))" "get [i] d \<noteq> []" for i
  proof (cases "i \<in> set batch")
    case True
    have x: "hd (get [i] d) \<in> set (get [i] d)" using that(3) by simp
    then have k: "key (hd (get [i] d)) = i" using get_key by fastforce
    then have "hd (get [i] d) \<in> set ?in" using x True get_iff [of "hd (get [i] d)" batch d] by simp
    then show ?thesis using p(7) [OF that(1)] k by force
  next
    case False
    then show ?thesis using that C(12) p(1) got by auto
  qed
  show ?case
  proof (intro exI [of _ "cleared @ C"] conjI)
    show "distinct (cleared @ C)" using p(4) C(2) cb(1) dj by auto
    show "\<forall>h. pending h d' = filter (\<lambda>i. i \<notin> set (cleared @ C)) (pending h d)" using C(5) pend by (auto intro: filter_cong)
    show "sr_processed acc' + sr_remaining acc' = sr_processed acc + sr_remaining acc + length (concat (batch # batches))"
      using C(9) count by simp
    show "\<forall>i. i \<notin> set (cleared @ C) \<longrightarrow> stored vs' i = stored vs i" using C(11) p(6) by simp
    show "\<forall>i. i \<in> set (cleared @ C) \<longrightarrow> (\<exists>x\<in>set (get [i] d). stored vs' i = Some (e (content x)))" using stores by blast
    show "embeds_by e (dims vs) embed_batch \<longrightarrow>
        (\<forall>i. i \<in> set (concat (batch # batches)) \<and> get [i] d \<noteq> [] \<longrightarrow> i \<in> set (cleared @ C))" using complete by blast
    show "set (cleared @ C) \<subseteq> set (concat (batch # batches))" using cb(1) C(1) by auto
    show "\<forall>ids. get ids d' = get ids d" using C(6) got by simp
  qed (simp_all only: C(3) C(4) p(1), simp_all add: C(7,8))
qed

abbreviation pass_of where
  "pass_of embed_batch g \<equiv> reconcile_space (pending g) get key (embed_and_insert embed_batch key content insert_one) (clear g)"

lemma reconcile_space_spec:
  assumes run: "pass_of embed_batch g (d, vs) = ((d', vs'), r)" and sound: "embeds_sound e embed_batch" and ok: "ok d"
  shows "\<exists>C. set C \<subseteq> set (pending g d) \<and> ok d' \<and> dims vs' = dims vs \<and>
    (\<forall>h. pending h d' = filter (\<lambda>i. i \<notin> set C) (pending h d)) \<and> (\<forall>ids. get ids d' = get ids d) \<and>
    sr_before r = length (pending g d) \<and> sr_remaining r = length (pending g d') \<and>
    sr_processed r + sr_remaining r = length (pending g d) \<and>
    (\<forall>i. i \<in> set C \<longrightarrow> (\<exists>x\<in>set (get [i] d). stored vs' i = Some (e (content x)))) \<and>
    (\<forall>i. i \<notin> set C \<longrightarrow> stored vs' i = stored vs i) \<and>
    (embeds_by e (dims vs) embed_batch \<longrightarrow> (\<forall>i. i \<in> set (pending g d) \<and> get [i] d \<noteq> [] \<longrightarrow> i \<in> set C))"
proof -
  have cat: "concat (rust_chunks reconcile_batch (pending g d)) = pending g d"
    by (simp add: concat_rust_chunks reconcile_batch_def)
  have run': "reconcile_batches get key (embed_and_insert embed_batch key content insert_one) (clear g)
      (rust_chunks reconcile_batch (pending g d)) (d, vs) (no_reconcile\<lparr>sr_before := length (pending g d)\<rparr>) = ((d', vs'), r)"
    using run by (simp add: reconcile_space_def Let_def)
  have "distinct (concat (rust_chunks reconcile_batch (pending g d)))"
    "set (concat (rust_chunks reconcile_batch (pending g d))) \<subseteq> set (pending g d)"
    unfolding cat by (simp_all add: pending_distinct [OF ok])
  from reconcile_batches_spec [OF run' sound ok this] obtain C where C: "set C \<subseteq> set (pending g d)" "distinct C" "ok d'"
      "dims vs' = dims vs" "\<forall>h. pending h d' = filter (\<lambda>i. i \<notin> set C) (pending h d)" "\<forall>ids. get ids d' = get ids d"
      "sr_before r = length (pending g d)" "sr_processed r = length C"
      "sr_processed r + sr_remaining r = length (pending g d)"
      "\<forall>i. i \<in> set C \<longrightarrow> (\<exists>x\<in>set (get [i] d). stored vs' i = Some (e (content x)))"
      "\<forall>i. i \<notin> set C \<longrightarrow> stored vs' i = stored vs i"
      "embeds_by e (dims vs) embed_batch \<longrightarrow> (\<forall>i. i \<in> set (pending g d) \<and> get [i] d \<noteq> [] \<longrightarrow> i \<in> set C)"
    unfolding cat no_reconcile_def by (elim exE conjE) (rule that; simp)
  have "set (filter (\<lambda>i. i \<in> set C) (pending g d)) = set C" using C(1) by auto
  then have "length (filter (\<lambda>i. i \<in> set C) (pending g d)) = length C"
    using distinct_card [OF C(2)] distinct_card [OF distinct_filter [OF pending_distinct [OF ok], of "\<lambda>i. i \<in> set C"]] by metis
  then have "sr_remaining r = length (pending g d')"
    using C(5,8,9) sum_length_filter_compl [of "\<lambda>i. i \<in> set C" "pending g d"] by simp
  then show ?thesis using C by (intro exI [of _ C] conjI) assumption+
qed

lemma groups_spec:
  assumes "fold (group_pass (pass_of embed_batch)) gs ((d, vs), acc) = ((d', vs'), acc')"
    and "embeds_sound e embed_batch" and "ok d" and "distinct gs"
  shows "\<exists>C. C \<subseteq> (\<Union>g\<in>set gs. set (pending g d)) \<and> ok d' \<and> dims vs' = dims vs \<and>
    (\<forall>h. pending h d' = filter (\<lambda>i. i \<notin> C) (pending h d)) \<and> (\<forall>ids. get ids d' = get ids d) \<and>
    sr_before acc' = sr_before acc + sum_list (map (\<lambda>g. length (pending g d)) gs) \<and>
    sr_remaining acc' = sr_remaining acc + sum_list (map (\<lambda>g. length (pending g d')) gs) \<and>
    sr_processed acc' + sr_remaining acc' + sr_before acc = sr_processed acc + sr_remaining acc + sr_before acc' \<and>
    (\<forall>i. i \<in> C \<longrightarrow> (\<exists>x\<in>set (get [i] d). stored vs' i = Some (e (content x)))) \<and>
    (\<forall>i. i \<notin> C \<longrightarrow> stored vs' i = stored vs i) \<and>
    (embeds_by e (dims vs) embed_batch \<longrightarrow>
       (\<forall>g i. g \<in> set gs \<and> i \<in> set (pending g d) \<and> get [i] d \<noteq> [] \<longrightarrow> i \<in> C))"
  using assms
proof (induction gs arbitrary: d vs acc)
  case Nil
  then show ?case by (intro exI [of _ "{}"]) simp
next
  case (Cons g gs)
  obtain d1 vs1 r where pass: "pass_of embed_batch g (d, vs) = ((d1, vs1), r)" by (metis prod.exhaust)
  from reconcile_space_spec [OF this Cons.prems(2,3)] obtain C where C: "set C \<subseteq> set (pending g d)" "ok d1"
      "dims vs1 = dims vs" "\<forall>h. pending h d1 = filter (\<lambda>i. i \<notin> set C) (pending h d)" "\<forall>ids. get ids d1 = get ids d"
      "sr_before r = length (pending g d)" "sr_remaining r = length (pending g d1)"
      "sr_processed r + sr_remaining r = length (pending g d)"
      "\<forall>i. i \<in> set C \<longrightarrow> (\<exists>x\<in>set (get [i] d). stored vs1 i = Some (e (content x)))"
      "\<forall>i. i \<notin> set C \<longrightarrow> stored vs1 i = stored vs i"
      "embeds_by e (dims vs) embed_batch \<longrightarrow> (\<forall>i. i \<in> set (pending g d) \<and> get [i] d \<noteq> [] \<longrightarrow> i \<in> set C)"
    by (elim exE conjE) (rule that; assumption)
  have run: "fold (group_pass (pass_of embed_batch)) gs ((d1, vs1), merge_reconcile acc r) = ((d', vs'), acc')"
    using Cons.prems(1) by (simp add: group_pass_def [of _ g] pass)
  have "distinct gs" using Cons.prems(4) by simp
  from Cons.IH [OF run Cons.prems(2) C(2) this] obtain D where D: "D \<subseteq> (\<Union>g\<in>set gs. set (pending g d1))" "ok d'" "dims vs' = dims vs1"
      "\<forall>h. pending h d' = filter (\<lambda>i. i \<notin> D) (pending h d1)" "\<forall>ids. get ids d' = get ids d1"
      "sr_before acc' = sr_before (merge_reconcile acc r) + sum_list (map (\<lambda>g. length (pending g d1)) gs)"
      "sr_remaining acc' = sr_remaining (merge_reconcile acc r) + sum_list (map (\<lambda>g. length (pending g d')) gs)"
      "sr_processed acc' + sr_remaining acc' + sr_before (merge_reconcile acc r) =
         sr_processed (merge_reconcile acc r) + sr_remaining (merge_reconcile acc r) + sr_before acc'"
      "\<forall>i. i \<in> D \<longrightarrow> (\<exists>x\<in>set (get [i] d1). stored vs' i = Some (e (content x)))"
      "\<forall>i. i \<notin> D \<longrightarrow> stored vs' i = stored vs1 i"
      "embeds_by e (dims vs1) embed_batch \<longrightarrow>
         (\<forall>g i. g \<in> set gs \<and> i \<in> set (pending g d1) \<and> get [i] d1 \<noteq> [] \<longrightarrow> i \<in> D)"
    by (elim exE conjE) (rule that; assumption)
  have dg: "D \<inter> set (pending g d) = {}"
  proof -
    have "D \<subseteq> (\<Union>h\<in>set gs. set (pending h d))" using D(1) C(4) by auto
    moreover have "set (pending h d) \<inter> set (pending g d) = {}" if "h \<in> set gs" for h
      by (rule pending_disjoint [OF Cons.prems(3)]) (use that Cons.prems(4) in auto)
    ultimately show ?thesis by blast
  qed
  have same: "pending h d1 = pending h d" if "h \<in> set gs" for h
  proof -
    have "h \<noteq> g" using that Cons.prems(4) by auto
    from pending_disjoint [OF Cons.prems(3) this] have "filter (\<lambda>i. i \<notin> set C) (pending h d) = pending h d"
      using C(1) by (intro filter_True) blast
    then show ?thesis using C(4) by simp
  qed
  have kept: "pending g d' = pending g d1"
  proof -
    have "filter (\<lambda>i. i \<notin> D) (pending g d1) = pending g d1"
      by (rule filter_True) (use dg C(4) in auto)
    then show ?thesis using D(4) by simp
  qed
  have sums: "sum_list (map (\<lambda>h. length (pending h d1)) gs) = sum_list (map (\<lambda>h. length (pending h d)) gs)"
    using same by (simp cong: map_cong)
  show ?case
  proof (intro exI [of _ "set C \<union> D"] conjI)
    show "set C \<union> D \<subseteq> (\<Union>g\<in>set (g # gs). set (pending g d))" using C(1) D(1) same by auto
    show "ok d'" by (fact D(2))
    show "dims vs' = dims vs" using C(3) D(3) by simp
    show "\<forall>h. pending h d' = filter (\<lambda>i. i \<notin> set C \<union> D) (pending h d)" using C(4) D(4) by (auto intro: filter_cong)
    show "\<forall>ids. get ids d' = get ids d" using C(5) D(5) by simp
    show "sr_before acc' = sr_before acc + sum_list (map (\<lambda>g. length (pending g d)) (g # gs))"
      using D(6) C(6) sums by (simp add: merge_reconcile_def)
    show "sr_remaining acc' = sr_remaining acc + sum_list (map (\<lambda>g. length (pending g d')) (g # gs))"
      using D(7) C(7) kept by (simp add: merge_reconcile_def)
    show "sr_processed acc' + sr_remaining acc' + sr_before acc = sr_processed acc + sr_remaining acc + sr_before acc'"
      using D(8) C(6,8) by (simp add: merge_reconcile_def)
    show "\<forall>i. i \<in> set C \<union> D \<longrightarrow> (\<exists>x\<in>set (get [i] d). stored vs' i = Some (e (content x)))"
    proof (intro allI impI)
      fix i assume i: "i \<in> set C \<union> D"
      show "\<exists>x\<in>set (get [i] d). stored vs' i = Some (e (content x))"
      proof (cases "i \<in> D")
        case True
        then show ?thesis using D(9) C(5) by simp
      next
        case False
        then show ?thesis using i D(10) C(9) by simp
      qed
    qed
    show "\<forall>i. i \<notin> set C \<union> D \<longrightarrow> stored vs' i = stored vs i" using C(10) D(10) by simp
    show "embeds_by e (dims vs) embed_batch \<longrightarrow>
        (\<forall>h i. h \<in> set (g # gs) \<and> i \<in> set (pending h d) \<and> get [i] d \<noteq> [] \<longrightarrow> i \<in> set C \<union> D)"
    proof (intro impI allI)
      fix h i assume em: "embeds_by e (dims vs) embed_batch" and i: "h \<in> set (g # gs) \<and> i \<in> set (pending h d) \<and> get [i] d \<noteq> []"
      show "i \<in> set C \<union> D"
      proof (cases "h = g")
        case True
        then show ?thesis using C(11) em i by blast
      next
        case False
        then have h: "h \<in> set gs" using i by simp
        moreover have "i \<in> set (pending h d1)" "get [i] d1 \<noteq> []" "embeds_by e (dims vs1) embed_batch"
          using i em C(3,5) same [OF h] by simp_all
        ultimately show ?thesis using D(11) by blast
      qed
    qed
  qed
qed

text \<open>The contract, and what is left when the embedder always works.\<close>

lemma groups_reconciled:
  assumes run: "fold (group_pass (pass_of embed_batch)) gs ((d, vs), no_reconcile) = ((d', vs'), r)"
    and sound: "embeds_sound e embed_batch" and ok: "ok d" and "distinct gs"
  shows "reconciled e pending get content stored gs (d, vs) (d', vs') r"
proof -
  from groups_spec [OF assms] obtain C where C: "C \<subseteq> (\<Union>g\<in>set gs. set (pending g d))"
      "\<forall>h. pending h d' = filter (\<lambda>i. i \<notin> C) (pending h d)"
      "sr_before r = sr_before no_reconcile + sum_list (map (\<lambda>g. length (pending g d)) gs)"
      "sr_remaining r = sr_remaining no_reconcile + sum_list (map (\<lambda>g. length (pending g d')) gs)"
      "sr_processed r + sr_remaining r + sr_before no_reconcile = sr_processed no_reconcile + sr_remaining no_reconcile + sr_before r"
      "\<forall>i. i \<in> C \<longrightarrow> (\<exists>x\<in>set (get [i] d). stored vs' i = Some (e (content x)))"
      "\<forall>i. i \<notin> C \<longrightarrow> stored vs' i = stored vs i"
    by (elim exE conjE) (rule that; assumption)
  have "i \<in> set (pending g d') \<or> (\<exists>x\<in>set (get [i] d). stored vs' i = Some (e (content x)))" if "i \<in> set (pending g d)" for g i
    using that C(2,6) by (cases "i \<in> C") simp_all
  moreover have "stored vs' i = stored vs i" if "i \<notin> (\<Union>g\<in>set gs. set (pending g d))" for i
    using that C(1,7) by blast
  ultimately show ?thesis using C(3-5) by (simp add: reconciled_def no_reconcile_def)
qed

lemma groups_complete:
  assumes run: "fold (group_pass (pass_of embed_batch)) gs ((d, vs), acc) = ((d', vs'), r)"
    and em: "embeds_by e (dims vs) embed_batch" and ok: "ok d" and "distinct gs" and g: "g \<in> set gs"
  shows "pending g d' = filter (\<lambda>i. get [i] d = []) (pending g d)"
proof -
  from groups_spec [OF run embeds_by_sound [OF em] ok assms(4)] obtain C where
      C: "\<forall>h. pending h d' = filter (\<lambda>i. i \<notin> C) (pending h d)"
      "\<forall>i. i \<in> C \<longrightarrow> (\<exists>x\<in>set (get [i] d). stored vs' i = Some (e (content x)))"
      "embeds_by e (dims vs) embed_batch \<longrightarrow>
         (\<forall>g i. g \<in> set gs \<and> i \<in> set (pending g d) \<and> get [i] d \<noteq> [] \<longrightarrow> i \<in> C)"
    by (elim exE conjE) (rule that; assumption)
  have "i \<notin> C \<longleftrightarrow> get [i] d = []" if "i \<in> set (pending g d)" for i
    using that C(2,3) em g by fastforce
  then show ?thesis using C(1) by (auto intro: filter_cong)
qed

end

section \<open>The two kinds of space\<close>

definition stored_vector :: "vector_store \<Rightarrow> row_id \<Rightarrow> embedding option" where
  "stored_vector vs = map_of (map (\<lambda>e. (ve_chunk e, ve_vector e)) (vs_entries vs))"

definition stored_row :: "space_store \<Rightarrow> row_id \<Rightarrow> embedding option" where
  "stored_row vs = map_of (sp_entries vs)"

lemma map_of_replace: "map_of (filter (\<lambda>e. fst e \<noteq> i) es @ [(i, v)]) = (map_of es)(i \<mapsto> v)"
  by (induction es) (auto simp: fun_eq_iff map_add_def split: option.splits)

lemmas map_of_replace_add = map_of_replace [simplified]

lemma map_of_put_vector:
  "map_of (map (\<lambda>e. (ve_chunk e, ve_vector e)) (put_vector x es)) =
     (map_of (map (\<lambda>e. (ve_chunk e, ve_vector e)) es))(ve_chunk x \<mapsto> ve_vector x)"
  using map_of_replace [of "ve_chunk x" "map (\<lambda>e. (ve_chunk e, ve_vector e)) es" "ve_vector x"]
  by (simp add: put_vector_def filter_map comp_def)

interpretation chunk_space: keyed_store "fst :: row_id \<times> row_id \<times> string \<Rightarrow> row_id" chunk_vector stored_vector vs_dims
proof
  show "\<exists>vs'. chunk_vector x v vs = (vs', True) \<and> stored_vector vs' = (stored_vector vs)(fst x \<mapsto> v) \<and> vs_dims vs' = vs_dims vs"
    if "length v = vs_dims vs" for v vs and x :: "row_id \<times> row_id \<times> string"
    using that by (cases x) (simp add: chunk_vector_def stored_vector_def map_of_put_vector)
  show "chunk_vector x v vs = (vs, False)" if "length v \<noteq> vs_dims vs" for v vs x
    using that by (cases x) (simp add: chunk_vector_def)
qed

interpretation row_space: keyed_store "fst :: row_id \<times> string \<Rightarrow> row_id" "row_vector io" stored_row sp_dims for io
proof
  show "\<exists>vs'. row_vector io x v vs = (vs', True) \<and> stored_row vs' = (stored_row vs)(fst x \<mapsto> v) \<and> sp_dims vs' = sp_dims vs"
    if "length v = sp_dims vs" for v vs and x :: "row_id \<times> string"
    using that by (cases x) (simp add: row_vector_def stored_row_def insert_space_def map_of_replace_add)
  show "row_vector io x v vs = (vs, False)" if "length v \<noteq> sp_dims vs" for v vs x
    using that by (cases x) (simp add: row_vector_def insert_space_def)
qed

section \<open>The four tables\<close>

definition chunk_ids_ok :: "chunk_db \<Rightarrow> bool" where
  "chunk_ids_ok db \<longleftrightarrow> distinct (map ck_id (cd_rows db)) \<and> distinct (map fst (cd_texts db))"

lemma update_where_keep: "(\<And>r. k (f r) = k r) \<Longrightarrow> map k (update_where p f rows) = map k rows"
  by (auto simp: update_where_def)

text \<open>
  Pending ids of tables with distinct ids: the group of a row and its marker decide, and clearing
  the markers of some of them only removes these.
\<close>

lemma pending_ids:
  assumes "distinct (map rid rows)"
  shows "distinct (map rid (filter p rows))"
    and "(\<And>r. \<not> (p r \<and> q r)) \<Longrightarrow> set (map rid (filter p rows)) \<inter> set (map rid (filter q rows)) = {}"
proof -
  show "distinct (map rid (filter p rows))" using assms by (rule distinct_map_filter)
  show "set (map rid (filter p rows)) \<inter> set (map rid (filter q rows)) = {}" if no: "\<And>r. \<not> (p r \<and> q r)"
  proof -
    have False if "r \<in> set rows" "p r" "r' \<in> set rows" "q r'" "rid r = rid r'" for r r'
      using assms that no [of r] by (auto simp: distinct_map dest: inj_onD)
    then show ?thesis by fastforce
  qed
qed

lemma pending_cleared:
  assumes "distinct (map rid rows)" and "set ids \<subseteq> set (map rid (filter p rows))"
    and "\<And>r. rid (f r) = rid r" and "\<And>r. \<not> q (f r)" and "\<And>r. p r \<Longrightarrow> h r"
  shows "map rid (filter q (update_where (\<lambda>r. h r \<and> rid r \<in> set ids) f rows)) =
    filter (\<lambda>i. i \<notin> set ids) (map rid (filter q rows))"
proof -
  have "h r" if "r \<in> set rows" "rid r \<in> set ids" for r
  proof -
    from assms(2) that(2) obtain r' where "r' \<in> set rows" "p r'" "rid r' = rid r" by force
    then have "r' = r" using assms(1) that(1) by (auto simp: distinct_map dest: inj_onD)
    then show ?thesis using \<open>p r'\<close> assms(5) by simp
  qed
  then have "update_where (\<lambda>r. h r \<and> rid r \<in> set ids) f rows = map (\<lambda>r. if rid r \<in> set ids then f r else r) rows"
    by (auto simp: update_where_def)
  moreover have "map rid (filter q (map (\<lambda>r. if rid r \<in> set ids then f r else r) xs)) =
      filter (\<lambda>i. i \<notin> set ids) (map rid (filter q xs))" for xs
    using assms(3,4) by (induction xs) auto
  ultimately show ?thesis by simp
qed

lemma get_chunk_clear:
  "map_option ck_buffer (get_chunk i (clear_chunks_pending_vector b ids rows)) = map_option ck_buffer (get_chunk i rows)"
  by (induction rows) (auto simp: get_chunk_def clear_chunks_pending_vector_def update_where_def)

lemma chunk_input_iff:
  "x \<in> set (get_chunk_embed_inputs ids d) \<longleftrightarrow> fst x \<in> set ids \<and> (fst x, snd (snd x)) \<in> set (cd_texts d) \<and>
     map_option ck_buffer (get_chunk (fst x) (cd_rows d)) = Some (fst (snd x))"
  by (cases x) (auto simp: get_chunk_embed_inputs_def in_map_filter)

interpretation chunk_table: pending_table chunk_ids_ok "\<lambda>b db. chunks_pending_vector b (cd_rows db)" get_chunk_embed_inputs
  fst "\<lambda>b ids db. db\<lparr>cd_rows := clear_chunks_pending_vector b ids (cd_rows db)\<rparr>"
proof
  show "distinct (chunks_pending_vector g (cd_rows d))" if "chunk_ids_ok d" for g d
    using that by (simp add: chunk_ids_ok_def chunks_pending_vector_def pending_ids)
  show "set (chunks_pending_vector g (cd_rows d)) \<inter> set (chunks_pending_vector h (cd_rows d)) = {}"
    if "chunk_ids_ok d" "g \<noteq> h" for g h d
    unfolding chunks_pending_vector_def by (rule pending_ids(2)) (use that in \<open>auto simp: chunk_ids_ok_def\<close>)
  show "distinct (map fst (get_chunk_embed_inputs ids d))" if "chunk_ids_ok d" for ids d
  proof -
    have "distinct (map fst (List.map_filter (\<lambda>(i, text). map_option (\<lambda>c. (i, ck_buffer c, text)) (get_chunk i rows)) ts)) \<and>
        fst ` set (List.map_filter (\<lambda>(i, text). map_option (\<lambda>c. (i, ck_buffer c, text)) (get_chunk i rows)) ts) \<subseteq> fst ` set ts"
      if "distinct (map fst ts)" for rows and ts :: "(row_id \<times> string) list"
      using that by (induction ts) (auto simp: map_filter_simps split: option.splits, force)
    moreover have "distinct (map fst (filter (\<lambda>(i, _). i \<in> set ids) (cd_texts d)))"
      using that by (simp add: chunk_ids_ok_def distinct_map_filter)
    ultimately show ?thesis by (simp add: get_chunk_embed_inputs_def)
  qed
  show "x \<in> set (get_chunk_embed_inputs ids d) \<longleftrightarrow> fst x \<in> set ids \<and> x \<in> set (get_chunk_embed_inputs [fst x] d)" for x ids d
    by (simp add: chunk_input_iff)
  show "chunk_ids_ok (d\<lparr>cd_rows := clear_chunks_pending_vector g ids (cd_rows d)\<rparr>)" if "chunk_ids_ok d" for g ids d
    using that by (simp add: chunk_ids_ok_def clear_chunks_pending_vector_def update_where_keep)
  show "get_chunk_embed_inputs ids' (d\<lparr>cd_rows := clear_chunks_pending_vector g ids (cd_rows d)\<rparr>) = get_chunk_embed_inputs ids' d"
    for g ids ids' d
  proof -
    have "map_option (\<lambda>c. (i, ck_buffer c, t)) (get_chunk i (clear_chunks_pending_vector g ids (cd_rows d))) =
        map_option (\<lambda>c. (i, ck_buffer c, t)) (get_chunk i (cd_rows d))" for i and t :: string
      using get_chunk_clear [of i g ids "cd_rows d"]
      by (cases "get_chunk i (cd_rows d)"; cases "get_chunk i (clear_chunks_pending_vector g ids (cd_rows d))") auto
    then show ?thesis by (simp add: get_chunk_embed_inputs_def)
  qed
  show "chunks_pending_vector h (cd_rows (d\<lparr>cd_rows := clear_chunks_pending_vector g ids (cd_rows d)\<rparr>)) =
      filter (\<lambda>i. i \<notin> set ids) (chunks_pending_vector h (cd_rows d))"
    if "chunk_ids_ok d" "set ids \<subseteq> set (chunks_pending_vector g (cd_rows d))" for g h ids d
    using that by (simp add: chunks_pending_vector_def clear_chunks_pending_vector_def chunk_ids_ok_def
        pending_cleared [where p = "\<lambda>c. ck_buffer c = g \<and> ck_status c = ''pending_vector''"])
qed

lemma embed_rows_iff:
  "x \<in> set (map (\<lambda>r. (rid r, t r)) (filter (\<lambda>r. rid r \<in> set ids) rows)) \<longleftrightarrow>
     fst x \<in> set ids \<and> x \<in> set (map (\<lambda>r. (rid r, t r)) (filter (\<lambda>r. rid r \<in> set [fst x]) rows))"
  by (cases x) auto

lemma embed_rows_update:
  assumes "\<And>r. rid (f r) = rid r" and "\<And>r. t (f r) = t r"
  shows "map (\<lambda>r. (rid r, t r)) (filter (\<lambda>r. rid r \<in> set ids) (update_where p f rows)) =
    map (\<lambda>r. (rid r, t r)) (filter (\<lambda>r. rid r \<in> set ids) rows)"
  by (induction rows) (simp_all add: update_where_def assms)

interpretation qa_table: pending_table "\<lambda>db. distinct (map qa_id (qd_rows db))"
  "\<lambda>project db. qa_cache_pending_vector project (qd_rows db)" "\<lambda>ids db. get_qa_embed_inputs ids (qd_rows db)"
  fst "\<lambda>_. clear_qa_cache_pending_vector"
proof
  show "set (qa_cache_pending_vector g (qd_rows d)) \<inter> set (qa_cache_pending_vector h (qd_rows d)) = {}"
    if "distinct (map qa_id (qd_rows d))" "g \<noteq> h" for g h d
    unfolding qa_cache_pending_vector_def by (rule pending_ids(2)) (use that in auto)
  show "x \<in> set (get_qa_embed_inputs ids (qd_rows d)) \<longleftrightarrow>
      fst x \<in> set ids \<and> x \<in> set (get_qa_embed_inputs [fst x] (qd_rows d))" for x ids d
    unfolding get_qa_embed_inputs_def by (rule embed_rows_iff)
  show "get_qa_embed_inputs ids' (qd_rows (clear_qa_cache_pending_vector ids d)) = get_qa_embed_inputs ids' (qd_rows d)" for ids ids' d
    by (simp add: get_qa_embed_inputs_def clear_qa_cache_pending_vector_def embed_rows_update)
  show "qa_cache_pending_vector h (qd_rows (clear_qa_cache_pending_vector ids d)) =
      filter (\<lambda>i. i \<notin> set ids) (qa_cache_pending_vector h (qd_rows d))"
    if "distinct (map qa_id (qd_rows d))" "set ids \<subseteq> set (qa_cache_pending_vector g (qd_rows d))" for g h ids d
    using pending_cleared [where h = "\<lambda>_. True" and f = "\<lambda>r. r\<lparr>qa_vector_status := ''indexed''\<rparr>" and rid = qa_id
        and p = "\<lambda>r. qa_project r = g \<and> qa_vector_status r = ''pending_vector''"
        and q = "\<lambda>r. qa_project r = h \<and> qa_vector_status r = ''pending_vector''" and ids = ids and rows = "qd_rows d"] that
    by (simp add: qa_cache_pending_vector_def clear_qa_cache_pending_vector_def)
qed (simp_all add: qa_cache_pending_vector_def get_qa_embed_inputs_def clear_qa_cache_pending_vector_def update_where_keep
    distinct_map_filter comp_def)

interpretation node_table: pending_table "\<lambda>rows. distinct (map nd_id rows)" rlm_nodes_pending_vector get_rlm_embed_inputs
  fst clear_rlm_nodes_pending_vector
proof
  show "set (rlm_nodes_pending_vector g d) \<inter> set (rlm_nodes_pending_vector h d) = {}"
    if "distinct (map nd_id d)" "g \<noteq> h" for g h d
    unfolding rlm_nodes_pending_vector_def by (rule pending_ids(2)) (use that in auto)
  have get: "get_rlm_embed_inputs ids d =
      map (\<lambda>r. (nd_id r, nd_subject r @ [CHR 0x0A] @ nd_summary r)) (filter (\<lambda>r. nd_id r \<in> set ids) d)" for ids d
    by (simp add: get_rlm_embed_inputs_def embed_input_def)
  show "x \<in> set (get_rlm_embed_inputs ids d) \<longleftrightarrow> fst x \<in> set ids \<and> x \<in> set (get_rlm_embed_inputs [fst x] d)" for x ids d
    unfolding get by (rule embed_rows_iff)
  have clear: "clear_rlm_nodes_pending_vector g ids d =
      update_where (\<lambda>r. nd_buffer r = Some g \<and> nd_id r \<in> set ids) (\<lambda>r. r\<lparr>nd_vector := Indexed\<rparr>) d" for g ids d
    by (simp add: clear_rlm_nodes_pending_vector_def update_where_def)
  show "get_rlm_embed_inputs ids' (clear_rlm_nodes_pending_vector g ids d) = get_rlm_embed_inputs ids' d" for g ids ids' d
    unfolding get clear by (rule embed_rows_update) simp_all
  show "rlm_nodes_pending_vector h (clear_rlm_nodes_pending_vector g ids d) =
      filter (\<lambda>i. i \<notin> set ids) (rlm_nodes_pending_vector h d)"
    if "distinct (map nd_id d)" "set ids \<subseteq> set (rlm_nodes_pending_vector g d)" for g h ids d
    unfolding rlm_nodes_pending_vector_def clear
    by (rule pending_cleared [where p = "\<lambda>r. nd_buffer r = Some g \<and> nd_vector r = Pending_Vector"])
      (use that in \<open>auto simp: rlm_nodes_pending_vector_def\<close>)
  show "distinct (map fst (get_rlm_embed_inputs ids d))" if "distinct (map nd_id d)" for ids d
    using that by (simp add: get distinct_map_filter comp_def)
  show "distinct (map nd_id (clear_rlm_nodes_pending_vector g ids d))" if "distinct (map nd_id d)" for g ids d
    using that by (simp add: clear update_where_keep)
qed (simp add: rlm_nodes_pending_vector_def distinct_map_filter)

interpretation map_table: pending_table "\<lambda>db. distinct (map ex_id (xd_rows db))"
  "\<lambda>b db. explorations_pending_vector b (xd_rows db)" "\<lambda>ids db. get_exploration_embed_inputs ids (xd_rows db)"
  fst clear_explorations_pending_vector
proof
  show "set (explorations_pending_vector g (xd_rows d)) \<inter> set (explorations_pending_vector h (xd_rows d)) = {}"
    if "distinct (map ex_id (xd_rows d))" "g \<noteq> h" for g h d
    unfolding explorations_pending_vector_def by (rule pending_ids(2)) (use that in auto)
  have get: "get_exploration_embed_inputs ids rows =
      map (\<lambda>r. (ex_id r, ex_goal r @ CHR 0x0A # ex_summary r)) (filter (\<lambda>r. ex_id r \<in> set ids) rows)" for ids rows
    by (simp add: get_exploration_embed_inputs_def map_embed_text_def)
  show "x \<in> set (get_exploration_embed_inputs ids (xd_rows d)) \<longleftrightarrow>
      fst x \<in> set ids \<and> x \<in> set (get_exploration_embed_inputs [fst x] (xd_rows d))" for x ids d
    unfolding get by (rule embed_rows_iff)
  show "get_exploration_embed_inputs ids' (xd_rows (clear_explorations_pending_vector g ids d)) =
      get_exploration_embed_inputs ids' (xd_rows d)" for g ids ids' d
    by (simp add: get clear_explorations_pending_vector_def set_map_vectors_def embed_rows_update)
  have cleared: "xd_rows (clear_explorations_pending_vector g ids d) =
      update_where (\<lambda>r. ex_buffer r = Some g \<and> ex_id r \<in> set ids) (\<lambda>r. r\<lparr>ex_vector_status := ''indexed''\<rparr>) (xd_rows d)" for g ids d
    by (simp add: clear_explorations_pending_vector_def set_map_vectors_def)
  show "explorations_pending_vector h (xd_rows (clear_explorations_pending_vector g ids d)) =
      filter (\<lambda>i. i \<notin> set ids) (explorations_pending_vector h (xd_rows d))"
    if "distinct (map ex_id (xd_rows d))" "set ids \<subseteq> set (explorations_pending_vector g (xd_rows d))" for g h ids d
    unfolding explorations_pending_vector_def cleared
    by (rule pending_cleared [where p = "\<lambda>r. ex_buffer r = Some g \<and> ex_vector_status r = ''pending_vector''"])
      (use that in \<open>auto simp: explorations_pending_vector_def\<close>)
  show "distinct (map fst (get_exploration_embed_inputs ids (xd_rows d)))" if "distinct (map ex_id (xd_rows d))" for ids d
    using that by (simp add: get distinct_map_filter comp_def)
qed (simp_all add: explorations_pending_vector_def clear_explorations_pending_vector_def set_map_vectors_def update_where_keep
    distinct_map_filter)

section \<open>The four passes\<close>

interpretation chunk_pass: reconcilable fst chunk_vector stored_vector vs_dims chunk_ids_ok
  "\<lambda>b db. chunks_pending_vector b (cd_rows db)" get_chunk_embed_inputs
  "\<lambda>b ids db. db\<lparr>cd_rows := clear_chunks_pending_vector b ids (cd_rows db)\<rparr>" "snd \<circ> snd" ..

interpretation qa_pass: reconcilable fst "row_vector io" stored_row sp_dims "\<lambda>db. distinct (map qa_id (qd_rows db))"
  "\<lambda>project db. qa_cache_pending_vector project (qd_rows db)" "\<lambda>ids db. get_qa_embed_inputs ids (qd_rows db)"
  "\<lambda>_. clear_qa_cache_pending_vector" snd for io ..

interpretation node_pass: reconcilable fst "row_vector io" stored_row sp_dims "\<lambda>rows. distinct (map nd_id rows)"
  rlm_nodes_pending_vector get_rlm_embed_inputs clear_rlm_nodes_pending_vector snd for io ..

interpretation map_pass: reconcilable fst "row_vector io" stored_row sp_dims "\<lambda>db. distinct (map ex_id (xd_rows db))"
  "\<lambda>b db. explorations_pending_vector b (xd_rows db)" "\<lambda>ids db. get_exploration_embed_inputs ids (xd_rows db)"
  clear_explorations_pending_vector snd for io ..

text \<open>The four spaces do not meet: the pass over all projects is a pass over each space.\<close>

lemma fold_buffers:
  assumes "fold (reconcile_buffer embed_batch io) bs (st, rep) = (st', rep')"
    and "vp_chunk_space st = Some cvs" and "vp_qa_space st = Some qvs" and "vp_rlm_space st = Some rvs" and "vp_map_space st = Some xvs"
  shows "\<exists>cvs' qvs' rvs' xvs'. vp_chunk_space st' = Some cvs' \<and> vp_qa_space st' = Some qvs' \<and> vp_rlm_space st' = Some rvs' \<and>
    vp_map_space st' = Some xvs' \<and>
    fold (group_pass (reconcile_chunks embed_batch)) (map bf_id bs) ((vp_chunks st, cvs), rr_chunks rep) =
      ((vp_chunks st', cvs'), rr_chunks rep') \<and>
    fold (group_pass (reconcile_qa embed_batch io)) (map bf_name bs) ((vp_qa st, qvs), rr_qa rep) =
      ((vp_qa st', qvs'), rr_qa rep') \<and>
    fold (group_pass (reconcile_rlm embed_batch io)) (map bf_id bs) ((vp_nodes st, rvs), rr_rlm rep) =
      ((vp_nodes st', rvs'), rr_rlm rep') \<and>
    fold (group_pass (reconcile_explorations embed_batch io)) (map bf_id bs) ((vp_maps st, xvs), rr_maps rep) =
      ((vp_maps st', xvs'), rr_maps rep')"
  using assms
proof (induction bs arbitrary: st rep cvs qvs rvs xvs)
  case (Cons b bs)
  obtain cdb1 cvs1 rc where c: "reconcile_chunks embed_batch (bf_id b) (vp_chunks st, cvs) = ((cdb1, cvs1), rc)" by (metis prod.exhaust)
  obtain qdb1 qvs1 rq where q: "reconcile_qa embed_batch io (bf_name b) (vp_qa st, qvs) = ((qdb1, qvs1), rq)" by (metis prod.exhaust)
  obtain ns1 rvs1 rr where r: "reconcile_rlm embed_batch io (bf_id b) (vp_nodes st, rvs) = ((ns1, rvs1), rr)" by (metis prod.exhaust)
  obtain xdb1 xvs1 rx where x: "reconcile_explorations embed_batch io (bf_id b) (vp_maps st, xvs) = ((xdb1, xvs1), rx)" by (metis prod.exhaust)
  let ?st = "st\<lparr>vp_chunks := cdb1, vp_chunk_space := Some cvs1, vp_nodes := ns1, vp_rlm_space := Some rvs1,
      vp_maps := xdb1, vp_map_space := Some xvs1, vp_qa := qdb1, vp_qa_space := Some qvs1\<rparr>"
    and ?rep = "\<lparr>rr_chunks = merge_reconcile (rr_chunks rep) rc, rr_qa = merge_reconcile (rr_qa rep) rq,
      rr_rlm = merge_reconcile (rr_rlm rep) rr, rr_maps = merge_reconcile (rr_maps rep) rx\<rparr>"
  have "reconcile_buffer embed_batch io b (st, rep) = (?st, ?rep)"
    by (simp add: reconcile_buffer_def with_space_def Cons.prems(2-5) c q r x Let_def)
  then have "fold (reconcile_buffer embed_batch io) bs (?st, ?rep) = (st', rep')" using Cons.prems(1) by simp
  from Cons.IH [OF this, of cvs1 qvs1 rvs1 xvs1] show ?case
    by (simp add: group_pass_def [of _ "bf_id b"] group_pass_def [of _ "bf_name b"] c q r x)
qed simp

definition spaces_ok :: "space_state \<Rightarrow> bool" where
  "spaces_ok st \<longleftrightarrow> distinct (map bf_id (bd_rows (vp_buffers st))) \<and> distinct (map bf_name (bd_rows (vp_buffers st))) \<and>
     chunk_ids_ok (vp_chunks st) \<and> distinct (map qa_id (qd_rows (vp_qa st))) \<and> distinct (map nd_id (vp_nodes st)) \<and>
     distinct (map ex_id (xd_rows (vp_maps st)))"

section \<open>Properties\<close>

lemma buffers_distinct:
  assumes "spaces_ok st"
  shows "distinct (map bf_id (list_buffers (bd_rows (vp_buffers st))))" "distinct (map bf_name (list_buffers (bd_rows (vp_buffers st))))"
  using assms by (simp_all add: spaces_ok_def list_buffers_def distinct_order_by)

lemma reconcile_runs:
  assumes run: "reconcile_pending_vectors embed_batch io st = (st', rep)"
    and sp: "vp_chunk_space st = Some cvs" "vp_qa_space st = Some qvs" "vp_rlm_space st = Some rvs" "vp_map_space st = Some xvs"
    and bs: "list_buffers (bd_rows (vp_buffers st)) = bs"
  obtains cvs' qvs' rvs' xvs' where "vp_chunk_space st' = Some cvs'" "vp_qa_space st' = Some qvs'"
    "vp_rlm_space st' = Some rvs'" "vp_map_space st' = Some xvs'"
    "fold (group_pass (reconcile_chunks embed_batch)) (map bf_id bs) ((vp_chunks st, cvs), no_reconcile) =
      ((vp_chunks st', cvs'), rr_chunks rep)"
    "fold (group_pass (reconcile_qa embed_batch io)) (map bf_name bs) ((vp_qa st, qvs), no_reconcile) =
      ((vp_qa st', qvs'), rr_qa rep)"
    "fold (group_pass (reconcile_rlm embed_batch io)) (map bf_id bs) ((vp_nodes st, rvs), no_reconcile) =
      ((vp_nodes st', rvs'), rr_rlm rep)"
    "fold (group_pass (reconcile_explorations embed_batch io)) (map bf_id bs) ((vp_maps st, xvs), no_reconcile) =
      ((vp_maps st', xvs'), rr_maps rep)"
proof -
  let ?z = "\<lparr>rr_chunks = no_reconcile, rr_qa = no_reconcile, rr_rlm = no_reconcile, rr_maps = no_reconcile\<rparr>"
  from run have "fold (reconcile_buffer embed_batch io) bs (st, ?z) = (st', rep)"
    by (simp add: reconcile_pending_vectors_def bs)
  from fold_buffers [OF this sp] that show ?thesis by auto
qed

text \<open>
  C25: The pass keeps its contract on each of the four spaces, whatever batches the embedder fails on:
  its counters add up and count the markers before and after it, a marker is only cleared when
  the space holds the vector of the row's current text, and the vectors of all other rows stay
  as they were.
\<close>

theorem reconcile_contract:
  assumes ok: "spaces_ok st" and sound: "embeds_sound e embed_batch"
    and run: "reconcile_pending_vectors embed_batch io st = (st', rep)"
    and sp: "vp_chunk_space st = Some cvs" "vp_qa_space st = Some qvs" "vp_rlm_space st = Some rvs" "vp_map_space st = Some xvs"
    and bs: "list_buffers (bd_rows (vp_buffers st)) = bs"
  shows "\<exists>cvs' qvs' rvs' xvs'. vp_chunk_space st' = Some cvs' \<and> vp_qa_space st' = Some qvs' \<and>
    vp_rlm_space st' = Some rvs' \<and> vp_map_space st' = Some xvs' \<and>
    reconciled e (\<lambda>b db. chunks_pending_vector b (cd_rows db)) get_chunk_embed_inputs (snd \<circ> snd) stored_vector
      (map bf_id bs) (vp_chunks st, cvs) (vp_chunks st', cvs') (rr_chunks rep) \<and>
    reconciled e (\<lambda>p db. qa_cache_pending_vector p (qd_rows db)) (\<lambda>ids db. get_qa_embed_inputs ids (qd_rows db)) snd stored_row
      (map bf_name bs) (vp_qa st, qvs) (vp_qa st', qvs') (rr_qa rep) \<and>
    reconciled e rlm_nodes_pending_vector get_rlm_embed_inputs snd stored_row
      (map bf_id bs) (vp_nodes st, rvs) (vp_nodes st', rvs') (rr_rlm rep) \<and>
    reconciled e (\<lambda>b db. explorations_pending_vector b (xd_rows db)) (\<lambda>ids db. get_exploration_embed_inputs ids (xd_rows db))
      snd stored_row (map bf_id bs) (vp_maps st, xvs) (vp_maps st', xvs') (rr_maps rep)"
proof -
  from reconcile_runs [OF run sp bs] obtain cvs' qvs' rvs' xvs' where s: "vp_chunk_space st' = Some cvs'" "vp_qa_space st' = Some qvs'"
      "vp_rlm_space st' = Some rvs'" "vp_map_space st' = Some xvs'"
    and f: "fold (group_pass (reconcile_chunks embed_batch)) (map bf_id bs) ((vp_chunks st, cvs), no_reconcile) =
        ((vp_chunks st', cvs'), rr_chunks rep)"
      "fold (group_pass (reconcile_qa embed_batch io)) (map bf_name bs) ((vp_qa st, qvs), no_reconcile) =
        ((vp_qa st', qvs'), rr_qa rep)"
      "fold (group_pass (reconcile_rlm embed_batch io)) (map bf_id bs) ((vp_nodes st, rvs), no_reconcile) =
        ((vp_nodes st', rvs'), rr_rlm rep)"
      "fold (group_pass (reconcile_explorations embed_batch io)) (map bf_id bs) ((vp_maps st, xvs), no_reconcile) =
        ((vp_maps st', xvs'), rr_maps rep)" .
  note d = buffers_distinct [OF ok, unfolded bs]
  have "reconciled e (\<lambda>b db. chunks_pending_vector b (cd_rows db)) get_chunk_embed_inputs (snd \<circ> snd) stored_vector
      (map bf_id bs) (vp_chunks st, cvs) (vp_chunks st', cvs') (rr_chunks rep)"
    by (rule chunk_pass.groups_reconciled [OF f(1) [unfolded reconcile_chunks_def embed_and_insert_chunks_def] sound _ d(1)])
      (use ok in \<open>simp add: spaces_ok_def\<close>)
  moreover have "reconciled e (\<lambda>p db. qa_cache_pending_vector p (qd_rows db)) (\<lambda>ids db. get_qa_embed_inputs ids (qd_rows db)) snd
      stored_row (map bf_name bs) (vp_qa st, qvs) (vp_qa st', qvs') (rr_qa rep)"
    by (rule qa_pass.groups_reconciled [OF f(2) [unfolded reconcile_qa_def] sound _ d(2)]) (use ok in \<open>simp add: spaces_ok_def\<close>)
  moreover have "reconciled e rlm_nodes_pending_vector get_rlm_embed_inputs snd stored_row
      (map bf_id bs) (vp_nodes st, rvs) (vp_nodes st', rvs') (rr_rlm rep)"
    by (rule node_pass.groups_reconciled [OF f(3) [unfolded reconcile_rlm_def] sound _ d(1)]) (use ok in \<open>simp add: spaces_ok_def\<close>)
  moreover have "reconciled e (\<lambda>b db. explorations_pending_vector b (xd_rows db))
      (\<lambda>ids db. get_exploration_embed_inputs ids (xd_rows db)) snd stored_row
      (map bf_id bs) (vp_maps st, xvs) (vp_maps st', xvs') (rr_maps rep)"
    by (rule map_pass.groups_reconciled [OF f(4) [unfolded reconcile_explorations_def] sound _ d(1)])
      (use ok in \<open>simp add: spaces_ok_def\<close>)
  ultimately show ?thesis using s by blast
qed

text \<open>Rows of the three tables that hold their text always have an input; a chunk may lack its text.\<close>

lemma pending_has_input:
  "i \<in> set (qa_cache_pending_vector p rows) \<Longrightarrow> get_qa_embed_inputs [i] rows \<noteq> []"
  "j \<in> set (rlm_nodes_pending_vector b nodes) \<Longrightarrow> get_rlm_embed_inputs [j] nodes \<noteq> []"
  "k \<in> set (explorations_pending_vector b maps) \<Longrightarrow> get_exploration_embed_inputs [k] maps \<noteq> []"
  by (auto simp: qa_cache_pending_vector_def get_qa_embed_inputs_def rlm_nodes_pending_vector_def get_rlm_embed_inputs_def
      explorations_pending_vector_def get_exploration_embed_inputs_def filter_empty_conv)

lemma pending_chunk_input:
  assumes "i \<in> set (chunks_pending_vector b (cd_rows db))"
  shows "get_chunk_embed_inputs [i] db = [] \<longleftrightarrow> i \<notin> fst ` set (cd_texts db)"
proof -
  from assms have "get_chunk i (cd_rows db) \<noteq> None" by (auto simp: chunks_pending_vector_def get_chunk_def find_None_iff)
  then obtain c where "get_chunk i (cd_rows db) = Some c" by blast
  then have "x \<in> set (get_chunk_embed_inputs [i] db) \<longleftrightarrow> fst x = i \<and> (i, snd (snd x)) \<in> set (cd_texts db) \<and> fst (snd x) = ck_buffer c" for x
    by (auto simp: chunk_input_iff)
  then have "set (get_chunk_embed_inputs [i] db) = {} \<longleftrightarrow> (\<forall>t. (i, t) \<notin> set (cd_texts db))"
    by (metis all_not_in_conv fst_conv snd_conv)
  then show ?thesis by force
qed

text \<open>
  C26: Convergence: when the embedder works and the spaces have its length, one pass leaves no answer,
  node or map of a listed project pending, and of the chunks exactly those that have no stored
  text. Rows of a project that is not listed are not reached.
\<close>

theorem reconcile_converges:
  assumes ok: "spaces_ok st" and em: "embeds_by e n embed_batch"
    and run: "reconcile_pending_vectors embed_batch io st = (st', rep)"
    and sp: "vp_chunk_space st = Some cvs" "vp_qa_space st = Some qvs" "vp_rlm_space st = Some rvs" "vp_map_space st = Some xvs"
    and dims: "vs_dims cvs = n" "sp_dims qvs = n" "sp_dims rvs = n" "sp_dims xvs = n"
    and b: "b \<in> set (bd_rows (vp_buffers st))"
  shows "chunks_pending_vector (bf_id b) (cd_rows (vp_chunks st')) =
      filter (\<lambda>i. i \<notin> fst ` set (cd_texts (vp_chunks st))) (chunks_pending_vector (bf_id b) (cd_rows (vp_chunks st))) \<and>
    qa_cache_pending_vector (bf_name b) (qd_rows (vp_qa st')) = [] \<and>
    rlm_nodes_pending_vector (bf_id b) (vp_nodes st') = [] \<and>
    explorations_pending_vector (bf_id b) (xd_rows (vp_maps st')) = []"
proof -
  let ?bs = "list_buffers (bd_rows (vp_buffers st))"
  from reconcile_runs [OF run sp refl] obtain cvs' qvs' rvs' xvs' where
    f: "fold (group_pass (reconcile_chunks embed_batch)) (map bf_id ?bs) ((vp_chunks st, cvs), no_reconcile) =
        ((vp_chunks st', cvs'), rr_chunks rep)"
      "fold (group_pass (reconcile_qa embed_batch io)) (map bf_name ?bs) ((vp_qa st, qvs), no_reconcile) =
        ((vp_qa st', qvs'), rr_qa rep)"
      "fold (group_pass (reconcile_rlm embed_batch io)) (map bf_id ?bs) ((vp_nodes st, rvs), no_reconcile) =
        ((vp_nodes st', rvs'), rr_rlm rep)"
      "fold (group_pass (reconcile_explorations embed_batch io)) (map bf_id ?bs) ((vp_maps st, xvs), no_reconcile) =
        ((vp_maps st', xvs'), rr_maps rep)" .
  note d = buffers_distinct [OF ok]
  have b': "bf_id b \<in> set (map bf_id ?bs)" "bf_name b \<in> set (map bf_name ?bs)" using b by (simp_all add: list_buffers_def)
  note em' = em [folded dims(1)] em [folded dims(2)] em [folded dims(3)] em [folded dims(4)]
  have "chunks_pending_vector (bf_id b) (cd_rows (vp_chunks st')) =
      filter (\<lambda>i. get_chunk_embed_inputs [i] (vp_chunks st) = []) (chunks_pending_vector (bf_id b) (cd_rows (vp_chunks st)))"
    by (rule chunk_pass.groups_complete [OF f(1) [unfolded reconcile_chunks_def embed_and_insert_chunks_def] em'(1) _ d(1) b'(1)])
      (use ok in \<open>simp add: spaces_ok_def\<close>)
  then have c1: "chunks_pending_vector (bf_id b) (cd_rows (vp_chunks st')) =
      filter (\<lambda>i. i \<notin> fst ` set (cd_texts (vp_chunks st))) (chunks_pending_vector (bf_id b) (cd_rows (vp_chunks st)))"
    by (simp only:) (rule filter_cong [OF refl pending_chunk_input])
  have "qa_cache_pending_vector (bf_name b) (qd_rows (vp_qa st')) =
      filter (\<lambda>i. get_qa_embed_inputs [i] (qd_rows (vp_qa st)) = []) (qa_cache_pending_vector (bf_name b) (qd_rows (vp_qa st)))"
    by (rule qa_pass.groups_complete [OF f(2) [unfolded reconcile_qa_def] em'(2) _ d(2) b'(2)]) (use ok in \<open>simp add: spaces_ok_def\<close>)
  then have c2: "qa_cache_pending_vector (bf_name b) (qd_rows (vp_qa st')) = []"
    using pending_has_input(1) by (auto simp: filter_empty_conv)
  have "rlm_nodes_pending_vector (bf_id b) (vp_nodes st') =
      filter (\<lambda>i. get_rlm_embed_inputs [i] (vp_nodes st) = []) (rlm_nodes_pending_vector (bf_id b) (vp_nodes st))"
    by (rule node_pass.groups_complete [OF f(3) [unfolded reconcile_rlm_def] em'(3) _ d(1) b'(1)]) (use ok in \<open>simp add: spaces_ok_def\<close>)
  then have c3: "rlm_nodes_pending_vector (bf_id b) (vp_nodes st') = []"
    using pending_has_input(2) by (auto simp: filter_empty_conv)
  have "explorations_pending_vector (bf_id b) (xd_rows (vp_maps st')) =
      filter (\<lambda>i. get_exploration_embed_inputs [i] (xd_rows (vp_maps st)) = [])
        (explorations_pending_vector (bf_id b) (xd_rows (vp_maps st)))"
    by (rule map_pass.groups_complete [OF f(4) [unfolded reconcile_explorations_def] em'(4) _ d(1) b'(1)])
      (use ok in \<open>simp add: spaces_ok_def\<close>)
  then have c4: "explorations_pending_vector (bf_id b) (xd_rows (vp_maps st')) = []"
    using pending_has_input(3) by (auto simp: filter_empty_conv)
  show ?thesis using c1 c2 c3 c4 by (intro conjI)
qed

section \<open>Witnesses\<close>

definition demo_spaces :: space_state where
  "demo_spaces =
     \<lparr>vp_buffers = \<lparr>bd_rows = [new_buffer 0 ''u'' ''p'' ''/p'' 1], bd_seq = 1\<rparr>,
      vp_chunks = \<lparr>cd_rows = mark_chunks_pending_vector 1 [1, 2]
          [fresh_chunk 0 1 1 ''a.rs'' (demo_chunk ''n'' ''61'') ''61'' 1 None None,
           fresh_chunk 0 2 1 ''b.rs'' (demo_chunk ''m'' ''62'') ''62'' 1 None None],
        cd_seq = 2, cd_texts = [(1, ''n'')], cd_fts = [], cd_entities = [], cd_entity_fts = []\<rparr>,
      vp_qa = mark_qa_cache_pending_vector [1] (fst (store_answer ''c'' (demo_answer 1 ''q'' ''a'') 0 \<lparr>qd_rows = [], qd_jobs = []\<rparr>)),
      vp_nodes = [], vp_maps = \<lparr>xd_rows = [], xd_anchors = [], xd_epochs = []\<rparr>,
      vp_chunk_space = Some \<lparr>vs_dims = 2, vs_entries = []\<rparr>, vp_qa_space = Some (open_space 2 True None),
      vp_rlm_space = Some (open_space 2 True None), vp_map_space = Some (open_space 2 True None)\<rparr>"

definition demo_embed :: embedder where
  "demo_embed ts = Some (map (\<lambda>_. [1, 0]) ts)"

lemma demo_spaces_facts:
  "spaces_ok demo_spaces" "embeds_by (\<lambda>_. [1, 0]) 2 demo_embed"
  "vp_chunk_space demo_spaces = Some \<lparr>vs_dims = 2, vs_entries = []\<rparr>" "vp_qa_space demo_spaces = Some (open_space 2 True None)"
  "vp_rlm_space demo_spaces = Some (open_space 2 True None)" "vp_map_space demo_spaces = Some (open_space 2 True None)"
  "new_buffer 0 ''u'' ''p'' ''/p'' 1 \<in> set (bd_rows (vp_buffers demo_spaces))"
  "fst ` set (cd_texts (vp_chunks demo_spaces)) = {1}" "chunks_pending_vector 1 (cd_rows (vp_chunks demo_spaces)) = [1, 2]"
  "qa_cache_pending_vector ''p'' (qd_rows (vp_qa demo_spaces)) = [1]"
proof -
  have "map qa_id (qd_rows (vp_qa demo_spaces)) = [1] \<and>
      map bf_id (bd_rows (vp_buffers demo_spaces)) = [1] \<and> map ck_id (cd_rows (vp_chunks demo_spaces)) = [1, 2]" by code_simp
  then show "spaces_ok demo_spaces" by (auto simp: spaces_ok_def chunk_ids_ok_def demo_spaces_def)
  show "chunks_pending_vector 1 (cd_rows (vp_chunks demo_spaces)) = [1, 2]"
    "qa_cache_pending_vector ''p'' (qd_rows (vp_qa demo_spaces)) = [1]" by code_simp+
qed (simp_all add: embeds_by_def demo_embed_def demo_spaces_def)

lemma reconcile_contract_witness:
  "\<exists>st' rep. reconcile_pending_vectors demo_embed (\<lambda>_. (0, True)) demo_spaces = (st', rep) \<and>
     sr_before (rr_chunks rep) = 2 \<and> sr_processed (rr_chunks rep) + sr_remaining (rr_chunks rep) = 2 \<and> sr_before (rr_qa rep) = 1"
proof -
  obtain st' rep where r: "reconcile_pending_vectors demo_embed (\<lambda>_. (0, True)) demo_spaces = (st', rep)" by (metis prod.exhaust)
  have b: "list_buffers (bd_rows (vp_buffers demo_spaces)) = [new_buffer 0 ''u'' ''p'' ''/p'' 1]"
    by (simp add: demo_spaces_def list_buffers_def order_by_def)
  from reconcile_contract [OF demo_spaces_facts(1) embeds_by_sound [OF demo_spaces_facts(2)] r demo_spaces_facts(3-6) b]
  show ?thesis using r demo_spaces_facts(9,10) by (auto simp: reconciled_def new_buffer_def)
qed

lemma reconcile_converges_witness:
  "chunks_pending_vector 1 (cd_rows (vp_chunks (fst (reconcile_pending_vectors demo_embed (\<lambda>_. (0, True)) demo_spaces)))) = [2] \<and>
   qa_cache_pending_vector ''p'' (qd_rows (vp_qa (fst (reconcile_pending_vectors demo_embed (\<lambda>_. (0, True)) demo_spaces)))) = []"
proof -
  obtain st' rep where r: "reconcile_pending_vectors demo_embed (\<lambda>_. (0, True)) demo_spaces = (st', rep)" by (metis prod.exhaust)
  from reconcile_converges [OF demo_spaces_facts(1,2) r demo_spaces_facts(3-6) _ _ _ _ demo_spaces_facts(7)]
  show ?thesis using r by (simp add: open_space_def new_buffer_def demo_spaces_facts(8,9))
qed

end
