(* ===== verification/Exploration_Service.thy ===== *)
theory Exploration_Service
  imports Explorations Vector_Space Projects Access Submissions
begin

text \<open>
  The exploration calls of the server (\<^verbatim>\<open>crates/arags-server/src/grpc/exploration/\<close>): persisting
  a map with its anchors and its gate, searching maps, fetching one, and the two calls of an
  administrator. The embedder and the two nearest neighbour searches are arguments, as are the
  clocks (one instant per call). Lemmas: what a search may show, and who decides about a map.
\<close>

section \<open>The state and the environment of a call\<close>

datatype validation_mode = Quorum_Mode | Review_Mode

record exploration_config =
  xc_enabled :: bool
  xc_hit_high :: real
  xc_hit_low :: real
  xc_verify :: bool
  xc_grounding_min :: real
  xc_require_review :: bool
  xc_mode :: validation_mode

record map_server =
  xs_auth :: auth_db
  xs_buckets :: buckets
  xs_buffers :: buffer_db
  xs_chunks :: "chunk list"
  xs_maps :: exploration_db
  xs_submissions :: "submission list"
  xs_map_space :: "space_store option"
  xs_chunk_space :: "vector_store option"
  xs_audit :: "(string \<times> string \<times> string) list"

record map_env =
  xe_config :: exploration_config
  xe_rate :: rate_limit_config
  xe_embed :: "string \<Rightarrow> embedding option"
  xe_ann :: space_ann
  xe_chunk_ann :: neighbour_search
  xe_millis :: millis
  xe_secs :: nat
  xe_save :: "nat \<times> bool"
  xe_uuid :: string

definition max_body_bytes :: int where "max_body_bytes = 512 * 1024"
definition max_goal_chars :: int where "max_goal_chars = 2000"
definition max_summary_chars :: int where "max_summary_chars = 4000"
definition max_files :: int where "max_files = 128"
definition default_limit :: int where "default_limit = 5"
definition max_limit :: int where "max_limit = 25"
definition search_margin :: nat where "search_margin = 3"
definition grounding_top_k :: nat where "grounding_top_k = 5"

definition exploration_confidence :: "exploration_config \<Rightarrow> confidence_config" where
  "exploration_confidence cfg = default_confidence\<lparr>cf_hit_high := xc_hit_high cfg, cf_hit_low := xc_hit_low cfg\<rparr>"

definition u32_max :: int where "u32_max = 4294967295"

definition age_days_since :: "millis \<Rightarrow> millis \<Rightarrow> nat" where
  "age_days_since now epoch_ms = nat (min (max 0 (now - epoch_ms) div 86400000) u32_max)"

definition embed_lenient :: "map_env \<Rightarrow> string \<Rightarrow> embedding option" where
  "embed_lenient env text = (case xe_embed env text of Some v \<Rightarrow> if v = [] then None else Some v | None \<Rightarrow> None)"

text \<open>\<open>chars().count()\<close>: the bytes that do not continue a character.\<close>

definition char_count :: "string \<Rightarrow> nat" where
  "char_count s = length (filter (\<lambda>c. \<not> (128 \<le> (of_char c :: nat) \<and> (of_char c :: nat) < 192)) s)"

section \<open>Persisting a map\<close>

record persist_map_request =
  xr_project :: string
  xr_goal :: string
  xr_body :: string
  xr_summary :: string
  xr_files :: "string list"
  xr_model :: string

definition validate_persist :: "persist_map_request \<Rightarrow> rpc_status option" where
  "validate_persist req =
     (if trim (xr_project req) = [] then Some (Invalid_Argument ''project is required'')
      else if trim (xr_goal req) = [] then Some (Invalid_Argument ''goal is required'')
      else if trim (xr_summary req) = [] then Some (Invalid_Argument ''summary is required'')
      else if trim (xr_body req) = [] then Some (Invalid_Argument ''body_markdown is required'')
      else if max_goal_chars < int (char_count (xr_goal req)) then Some (Invalid_Argument ''goal too long'')
      else if max_summary_chars < int (char_count (xr_summary req)) then Some (Invalid_Argument ''summary too long'')
      else if max_body_bytes < int (length (xr_body req)) then Some (Invalid_Argument ''body_markdown too large'')
      else if max_files < int (length (xr_files req)) then Some (Invalid_Argument ''too many files'')
      else None)"

definition resolve_anchors :: "row_id \<Rightarrow> string list \<Rightarrow> chunk list \<Rightarrow> map_anchor list \<times> string list" where
  "resolve_anchors buffer_id files chunks =
     (let resolved = current_hashes_for_paths buffer_id files chunks
      in (List.map_filter (\<lambda>(path, h). map_option
            (\<lambda>h. \<lparr>an_map = 0, an_buffer = buffer_id, an_path = path, an_hash = h, an_role = role_cited\<rparr>) h) resolved,
          map fst (filter (\<lambda>(_, h). h = None) resolved)))"

definition persist_input :: "auth_context \<Rightarrow> persist_map_request \<Rightarrow> row_id \<Rightarrow> map_anchor list \<Rightarrow> new_exploration" where
  "persist_input ctx req buffer_id anchors =
     \<lparr>nx_project = xr_project req, nx_buffer = Some buffer_id, nx_goal = trim (xr_goal req), nx_body = xr_body req,
      nx_summary = trim (xr_summary req), nx_anchors = anchors, nx_created_by = ac_username ctx,
      nx_model = (if xr_model req = [] then None else Some (xr_model req)), nx_template = template_version_v1, nx_tokens = 0\<rparr>"

text \<open>The gate for a stored map: the reason that is reported to the caller.\<close>

definition gate_map ::
  "map_env \<Rightarrow> auth_context \<Rightarrow> persist_map_request \<Rightarrow> string \<times> row_id \<Rightarrow> map_server \<Rightarrow> map_server \<times> string" where
  "gate_map env ctx req = (\<lambda>(uuid, i) st.
     (if is_admin ctx then (st, [])
      else if xc_mode (xe_config env) = Review_Mode \<and> xc_require_review (xe_config env) then
        let (maps, ok) = mark_exploration_pending i (xs_maps st)
        in (st\<lparr>xs_maps := maps\<rparr>, if ok then ''pending admin review'' else [])
      else if xc_mode (xe_config env) = Quorum_Mode then
        let maps = fst (mark_exploration_pending i (xs_maps st));
            subs = fst (insert_submission (int (xe_secs env)) (xr_project req) ''exploration'' uuid (xr_summary req) (ac_username ctx) (xs_submissions st))
        in (st\<lparr>xs_maps := maps, xs_submissions := subs\<rparr>, ''pending quorum validation'')
      else (st, [])))"

definition index_map :: "map_env \<Rightarrow> persist_map_request \<Rightarrow> row_id \<Rightarrow> row_id \<Rightarrow> map_server \<Rightarrow> map_server" where
  "index_map env req buffer_id i st =
     (case (xs_map_space st, embed_lenient env (xr_goal req @ CHR 0x0A # xr_summary req)) of
        (Some space, Some v) \<Rightarrow>
          let (space', ok) = insert_space (fst (xe_save env)) (snd (xe_save env)) i v space;
              st' = st\<lparr>xs_map_space := Some space'\<rparr>
          in if ok then st' else st'\<lparr>xs_maps := mark_explorations_pending_vector buffer_id [i] (xs_maps st')\<rparr>
      | _ \<Rightarrow> st)"

record persist_reply =
  pr_uuid :: string
  pr_reason :: string
  pr_unresolved :: "string list"

definition handle_persist_exploration ::
  "map_env \<Rightarrow> header_value \<Rightarrow> persist_map_request \<Rightarrow> map_server \<Rightarrow> map_server \<times> (rpc_status + persist_reply)" where
  "handle_persist_exploration env header req st =
     (case authenticate (xe_millis env) header (xs_auth st) of
        Inl e \<Rightarrow> (st, Inl e)
      | Inr ctx \<Rightarrow>
          (case rate_check (xe_rate env) (ac_username ctx) (xe_secs env) (xs_buckets st) of
             (buckets, allowed) \<Rightarrow>
               let st = st\<lparr>xs_buckets := buckets\<rparr>
               in if \<not> allowed then (st, Inl Resource_Exhausted)
                  else if \<not> xc_enabled (xe_config env) then (st, Inl (Unavailable ''explorations disabled by configuration''))
                  else case validate_persist req of
                    Some e \<Rightarrow> (st, Inl e)
                  | None \<Rightarrow>
                      (case buffer_id_for_project (xr_project req) (bd_rows (xs_buffers st)) of
                         None \<Rightarrow> (st, Inl (Not_Found (''unknown project '' @ xr_project req)))
                       | Some buffer_id \<Rightarrow>
                           (case resolve_anchors buffer_id (xr_files req) (xs_chunks st) of
                              (anchors, unresolved) \<Rightarrow>
                                (case persist_exploration (xe_uuid env) (xe_millis env) (persist_input ctx req buffer_id anchors) (xs_maps st) of
                                   (_, None) \<Rightarrow> (st, Inl (Internal ''failed to persist exploration''))
                                 | (maps, Some (uuid, i)) \<Rightarrow>
                                     (case gate_map env ctx req (uuid, i) (st\<lparr>xs_maps := maps\<rparr>) of
                                        (st2, note) \<Rightarrow>
                                          let st3 = index_map env req buffer_id i st2
                                          in (st3\<lparr>xs_audit := xs_audit st3 @ [(xr_project req, ac_username ctx, ''persist_exploration'')]\<rparr>,
                                              Inr \<lparr>pr_uuid = uuid, pr_reason = note, pr_unresolved = unresolved\<rparr>)))))))"

section \<open>Searching maps\<close>

record map_candidate =
  mc_row :: exploration
  mc_broken :: "string list"
  mc_similarity :: real

definition is_stale :: "map_candidate \<Rightarrow> bool" where
  "is_stale c \<longleftrightarrow> mc_broken c \<noteq> [] \<or> ex_status (mc_row c) \<noteq> Map_Fresh"

definition saturate_u32 :: "int \<Rightarrow> nat" where
  "saturate_u32 v = nat (max 0 (min v u32_max))"

definition candidate_confidence :: "confidence_config \<Rightarrow> millis \<Rightarrow> int \<Rightarrow> map_candidate \<Rightarrow> real" where
  "candidate_confidence cfg now epoch c =
     confidence_score (mc_similarity c) (saturate_u32 (epoch - ex_epoch (mc_row c))) (age_days_since now (ex_created (mc_row c)))
       (saturate_u32 (ex_confirmed (mc_row c))) (saturate_u32 (ex_contradicted (mc_row c))) cfg"

definition i32_max :: int where "i32_max = 2147483647"

definition epoch_drift :: "int \<Rightarrow> exploration \<Rightarrow> int" where
  "epoch_drift epoch r = min (max 0 (epoch - ex_epoch r)) i32_max"

record exploration_hit =
  xh_uuid :: string
  xh_goal :: string
  xh_summary :: string
  xh_confidence :: real
  xh_similarity :: real
  xh_status :: map_status
  xh_reason :: "string list"
  xh_drift :: int
  xh_confirmed :: int
  xh_contradicted :: int
  xh_created_by :: string
  xh_model :: string
  xh_epoch :: int
  xh_version :: int

definition stale_reason :: "exploration \<Rightarrow> string list" where
  "stale_reason r = (case ex_reason r of Some x \<Rightarrow> x | None \<Rightarrow> [])"

definition hit_from :: "map_candidate \<Rightarrow> real \<Rightarrow> int \<Rightarrow> exploration_hit" where
  "hit_from c confidence epoch =
     (let r = mc_row c
      in \<lparr>xh_uuid = ex_uuid r, xh_goal = ex_goal r, xh_summary = ex_summary r, xh_confidence = confidence,
          xh_similarity = mc_similarity c, xh_status = (if mc_broken c = [] then ex_status r else Map_Stale),
          xh_reason = (if mc_broken c = [] then stale_reason r else mc_broken c), xh_drift = epoch_drift epoch r,
          xh_confirmed = ex_confirmed r, xh_contradicted = ex_contradicted r, xh_created_by = ex_created_by r,
          xh_model = (case ex_model r of Some m \<Rightarrow> m | None \<Rightarrow> []), xh_epoch = ex_epoch r, xh_version = ex_version r\<rparr>)"

text \<open>Grounding: \<open>Some True\<close> is supported, \<open>Some False\<close> unsupported, \<open>None\<close> no answer.\<close>

definition ground_candidate :: "map_env \<Rightarrow> map_candidate \<Rightarrow> map_server \<Rightarrow> bool option" where
  "ground_candidate env c st =
     (case xs_chunk_space st of
        None \<Rightarrow> None
      | Some vectors \<Rightarrow>
          if \<not> xc_verify (xe_config env) then None
          else let claim = claim_text (ex_body (mc_row c))
               in if claim = [] then Some False
                  else case embed_lenient env claim of
                    None \<Rightarrow> None
                  | Some v \<Rightarrow>
                      let b = (case ex_buffer (mc_row c) of Some b \<Rightarrow> if b < 0 then 0 else b | None \<Rightarrow> 0);
                          best = (case search_similar (xe_chunk_ann env) v (Some b) grounding_top_k vectors of
                                    [] \<Rightarrow> 0 | (_, d) # _ \<Rightarrow> clamp 0 1 (1 - d / 2))
                      in Some (xc_grounding_min (xe_config env) \<le> best))"

text \<open>
  A neighbour becomes a candidate. In time travel its row is another revision, but the anchors
  that are checked are those of the neighbour.
\<close>

definition candidate_of :: "string \<Rightarrow> int \<Rightarrow> map_server \<Rightarrow> row_id \<times> real \<Rightarrow> map_candidate option" where
  "candidate_of project as_of_epoch st = (\<lambda>(i, similarity).
     (case get_exploration_by_rowid i (xd_rows (xs_maps st)) of
        None \<Rightarrow> None
      | Some row \<Rightarrow>
          (case (if 0 < as_of_epoch then get_exploration_as_of (ex_project row) (ex_goal row) as_of_epoch (xd_rows (xs_maps st))
                 else Some row) of
             None \<Rightarrow> None
           | Some r \<Rightarrow>
               if ex_project r \<noteq> project then None
               else Some \<lparr>mc_row = r, mc_broken = recheck_anchors_for_rowid i (xs_chunks st) (xs_maps st), mc_similarity = similarity\<rparr>)))"

definition score_candidate ::
  "map_env \<Rightarrow> bool \<Rightarrow> int \<Rightarrow> map_server \<Rightarrow> map_candidate \<Rightarrow> (real \<times> exploration_hit) option" where
  "score_candidate env include_stale epoch st c =
     (let cfg = exploration_confidence (xe_config env)
      in if ex_status (mc_row c) = Map_Retired \<or> ex_status (mc_row c) = Map_Pending then None
         else if \<not> include_stale \<and> is_stale c then None
         else if classify_hit cfg (mc_similarity c) = Hit_None then None
         else let grounding = (if xc_verify (xe_config env) \<and> xs_chunk_space st \<noteq> None then ground_candidate env c st else None)
              in if grounding = Some False then
                   (if \<not> include_stale then None
                    else Some (0, (hit_from c 0 epoch)\<lparr>xh_status := Map_Stale,
                                    xh_reason := [''grounding weak: no supporting chunks found'']\<rparr>))
                 else let score = candidate_confidence cfg (xe_millis env) epoch c
                      in Some (score, hit_from c score epoch))"

definition touch_logged :: "millis \<Rightarrow> string \<Rightarrow> exploration_db \<Rightarrow> exploration_db" where
  "touch_logged now uuid db =
     (case get_exploration_by_uuid uuid (xd_rows db) of None \<Rightarrow> db | Some r \<Rightarrow> touch_exploration now (ex_id r) db)"

definition search_explorations_core ::
  "map_env \<Rightarrow> string \<Rightarrow> string \<Rightarrow> nat \<Rightarrow> bool \<Rightarrow> int \<Rightarrow> map_server \<Rightarrow> map_server \<times> (rpc_status + exploration_hit list)" where
  "search_explorations_core env project query limit include_stale as_of_epoch st =
     (if limit = 0 then (st, Inr [])
      else case xs_map_space st of
        None \<Rightarrow> (st, Inr [])
      | Some vectors \<Rightarrow>
          (case embed_lenient env query of
             None \<Rightarrow> (st, Inl (Internal ''embedding unavailable''))
           | Some v \<Rightarrow>
               (case search_space (xe_ann env) v (limit + search_margin) vectors of
                  None \<Rightarrow> (st, Inl (Internal ''vector search failed''))
                | Some found \<Rightarrow>
                    let cands = List.map_filter (candidate_of project as_of_epoch st) found;
                        epoch = current_project_epoch project (xd_epochs (xs_maps st));
                        hits = List.map_filter (score_candidate env include_stale epoch st) cands;
                        shown = take limit (sort_key (\<lambda>h. - fst h) hits)
                    in (st\<lparr>xs_maps := fold (\<lambda>h. touch_logged (xe_millis env) (xh_uuid (snd h))) shown (xs_maps st)\<rparr>,
                        Inr (map snd shown)))))"

record search_maps_request =
  xq_project :: string
  xq_query :: string
  xq_limit :: int
  xq_stale :: bool
  xq_as_of :: int

definition handle_search_explorations ::
  "map_env \<Rightarrow> header_value \<Rightarrow> search_maps_request \<Rightarrow> map_server \<Rightarrow> map_server \<times> (rpc_status + exploration_hit list)" where
  "handle_search_explorations env header req st =
     (case authenticate (xe_millis env) header (xs_auth st) of
        Inl e \<Rightarrow> (st, Inl e)
      | Inr _ \<Rightarrow>
          if trim (xq_project req) = [] \<or> trim (xq_query req) = [] then (st, Inl (Invalid_Argument ''project and query are required''))
          else search_explorations_core env (xq_project req) (xq_query req)
                 (nat (if xq_limit req \<le> 0 then default_limit else min (xq_limit req) max_limit)) (xq_stale req) (xq_as_of req) st)"

section \<open>One map by its id\<close>

record map_reply =
  xm_row :: exploration
  xm_confidence :: real
  xm_status :: map_status
  xm_reason :: "string list"
  xm_drift :: int
  xm_anchors :: "(row_id \<times> string \<times> string) list"

definition handle_get_exploration_by_id ::
  "map_env \<Rightarrow> header_value \<Rightarrow> string \<Rightarrow> int \<Rightarrow> map_server \<Rightarrow> rpc_status + map_reply" where
  "handle_get_exploration_by_id env header uuid as_of_epoch st =
     (case authenticate (xe_millis env) header (xs_auth st) of
        Inl e \<Rightarrow> Inl e
      | Inr _ \<Rightarrow>
          if trim uuid = [] then Inl (Invalid_Argument ''exploration_id is required'')
          else case (case get_exploration_by_uuid uuid (xd_rows (xs_maps st)) of
                 None \<Rightarrow> None
               | Some r \<Rightarrow> if 0 < as_of_epoch then get_exploration_as_of_by_id uuid as_of_epoch (xd_rows (xs_maps st)) else Some r) of
            None \<Rightarrow> Inl (Not_Found ''unknown exploration_id'')
          | Some r \<Rightarrow>
              let broken = recheck_anchors_for_rowid (ex_id r) (xs_chunks st) (xs_maps st);
                  epoch = current_project_epoch (ex_project r) (xd_epochs (xs_maps st));
                  c = \<lparr>mc_row = r, mc_broken = [], mc_similarity = 0\<rparr>
              in Inr \<lparr>xm_row = r, xm_confidence = candidate_confidence (exploration_confidence (xe_config env)) (xe_millis env) epoch c,
                      xm_status = (if broken = [] then ex_status r else Map_Stale),
                      xm_reason = (if broken = [] then stale_reason r else broken), xm_drift = epoch_drift epoch r,
                      xm_anchors = list_exploration_anchors (ex_id r) (xs_maps st)\<rparr>)"

section \<open>The calls of an administrator\<close>

datatype map_invalidation = Mark_Stale | Delete_Map | Unknown_Mode

definition handle_invalidate_exploration ::
  "map_env \<Rightarrow> header_value \<Rightarrow> string \<Rightarrow> map_invalidation \<Rightarrow> string \<Rightarrow> map_server \<Rightarrow> map_server \<times> (rpc_status + bool)" where
  "handle_invalidate_exploration env header uuid mode reason st =
     (case authenticate (xe_millis env) header (xs_auth st) of
        Inl e \<Rightarrow> (st, Inl e)
      | Inr ctx \<Rightarrow>
          (case require_admin ctx of
             Inl e \<Rightarrow> (st, Inl e)
           | Inr _ \<Rightarrow>
               if trim uuid = [] then (st, Inl (Invalid_Argument ''exploration_id is required''))
               else case get_exploration_by_uuid uuid (xd_rows (xs_maps st)) of
                 None \<Rightarrow> (st, Inl (Not_Found ''unknown exploration_id''))
               | Some row \<Rightarrow>
                   (case mode of
                      Unknown_Mode \<Rightarrow> (st, Inl (Invalid_Argument ''unknown invalidate mode''))
                    | Mark_Stale \<Rightarrow>
                        let (maps, applied) = invalidate_exploration_stale (xe_millis env) uuid (if reason = [] then ''admin'' else reason) (xs_maps st)
                        in (st\<lparr>xs_maps := maps\<rparr>, Inr applied)
                    | Delete_Map \<Rightarrow>
                        let (maps, n) = delete_exploration (ex_id row) (xs_maps st); st' = st\<lparr>xs_maps := maps\<rparr>
                        in if 0 < n
                           then (st'\<lparr>xs_map_space := map_option (delete_space (fst (xe_save env)) (snd (xe_save env)) (ex_id row)) (xs_map_space st')\<rparr>,
                                 Inr True)
                           else (st', Inr False))))"

definition handle_review_exploration ::
  "map_env \<Rightarrow> header_value \<Rightarrow> string \<Rightarrow> bool \<Rightarrow> map_server \<Rightarrow> map_server \<times> (rpc_status + bool)" where
  "handle_review_exploration env header uuid approved st =
     (case authenticate (xe_millis env) header (xs_auth st) of
        Inl e \<Rightarrow> (st, Inl e)
      | Inr ctx \<Rightarrow>
          if \<not> is_admin ctx then (st, Inl (Permission_Denied ''admin role required''))
          else if trim uuid = [] then (st, Inl (Invalid_Argument ''exploration_id is required''))
          else let (maps, applied) = review_exploration (xe_millis env) uuid approved (ac_username ctx) (xs_maps st)
               in (st\<lparr>xs_maps := maps\<rparr>, Inr applied))"

section \<open>Sequences of calls\<close>

datatype map_action =
    Persist_Map persist_map_request
  | Search_Maps search_maps_request
  | Invalidate_Map string map_invalidation string
  | Review_Map string bool

fun call_step :: "map_env \<times> header_value \<times> map_action \<Rightarrow> map_server \<Rightarrow> map_server" where
  "call_step (env, h, Persist_Map req) st = fst (handle_persist_exploration env h req st)"
| "call_step (env, h, Search_Maps req) st = fst (handle_search_explorations env h req st)"
| "call_step (env, h, Invalidate_Map uuid mode reason) st = fst (handle_invalidate_exploration env h uuid mode reason st)"
| "call_step (env, h, Review_Map uuid approved) st = fst (handle_review_exploration env h uuid approved st)"

text \<open>A map is held back while every row with its id waits for a review, or was rejected.\<close>

definition held_back :: "string \<Rightarrow> exploration_db \<Rightarrow> bool" where
  "held_back uuid db \<longleftrightarrow> (\<forall>r\<in>set (xd_rows db). ex_uuid r = uuid \<longrightarrow> ex_status r \<in> {Map_Pending, Map_Retired})"

lemma held_back_update:
  assumes "held_back uuid db" and "\<And>r. ex_uuid (f r) = ex_uuid r"
    and "\<And>r. p r \<Longrightarrow> ex_uuid r = uuid \<Longrightarrow> ex_status r \<in> {Map_Pending, Map_Retired} \<Longrightarrow> ex_status (f r) \<in> {Map_Pending, Map_Retired}"
  shows "held_back uuid (db\<lparr>xd_rows := update_where p f (xd_rows db)\<rparr>)"
  using assms by (auto simp: held_back_def update_where_def split: if_splits) blast+

lemma held_back_rows: "xd_rows db' = xd_rows db \<Longrightarrow> held_back uuid db' = held_back uuid db"
  by (simp add: held_back_def)

lemma held_back_pending [simp]: "held_back uuid db \<Longrightarrow> held_back uuid (fst (mark_exploration_pending i db))"
  by (simp add: mark_exploration_pending_def Let_def) (rule held_back_update; simp)

lemma held_back_vectors [simp]: "held_back uuid db \<Longrightarrow> held_back uuid (mark_explorations_pending_vector b ids db)"
  by (simp add: mark_explorations_pending_vector_def set_map_vectors_def) (rule held_back_update; simp)

lemma held_back_touch: "held_back uuid db \<Longrightarrow> held_back uuid (touch_logged now u db)"
  by (auto simp: touch_logged_def touch_exploration_def split: option.split intro!: held_back_update)

lemma held_back_touches: "held_back uuid db \<Longrightarrow> held_back uuid (fold (\<lambda>h. touch_logged now (xh_uuid (snd h))) hs db)"
  by (induction hs arbitrary: db) (simp_all add: held_back_touch)

lemma held_back_invalidate: "held_back uuid db \<Longrightarrow> held_back uuid (fst (invalidate_exploration_stale now u reason db))"
  by (simp add: invalidate_exploration_stale_def Let_def) (rule held_back_update; auto)

lemma held_back_delete: "held_back uuid db \<Longrightarrow> held_back uuid (fst (delete_exploration i db))"
  by (simp add: delete_exploration_def held_back_def)

lemma held_back_review:
  "held_back uuid db \<Longrightarrow> u \<noteq> uuid \<or> \<not> approved \<Longrightarrow> held_back uuid (fst (review_exploration now u approved who db))"
  by (cases approved) (auto simp: review_exploration_def Let_def retire_map_def intro!: held_back_update)

text \<open>Persisting adds one row and otherwise only retires a live one.\<close>

lemma persist_rows_cases:
  assumes "persist_rows u now e inp rows = (rows', i)"
  shows "\<exists>f. rows' = map f rows @ [fresh_map u now e inp i] \<and> (\<forall>r. ex_uuid (f r) = ex_uuid r \<and> ex_status (f r) = ex_status r)"
proof (cases "List.find (\<lambda>r. ex_active r \<and> map_key_of r = (nx_project inp, nx_goal inp)) rows")
  case None
  then show ?thesis using assms by (intro exI [of _ "\<lambda>r. r"]) (auto simp: persist_rows_def Let_def)
next
  case (Some old)
  let ?f = "\<lambda>r. if ex_id r = ex_id old \<and> ex_active r then r\<lparr>ex_active := False\<rparr> else r"
  define j where "j = next_rowid ex_id (map ?f rows)"
  define rows2 where "rows2 = update_where (\<lambda>r. ex_id r = ex_id old) (\<lambda>r. r\<lparr>ex_superseded := Some j\<rparr>) (map ?f rows @ [fresh_map u now e inp j])"
  have "persist_rows u now e inp rows = (rows2, j)"
    by (simp only: persist_rows_def Some option.case Let_def update_where_def rows2_def j_def)
  then have "i = j" "rows' = rows2" using assms by simp_all
  then have i: "i = next_rowid ex_id (map ?f rows)"
    and rows: "rows' = update_where (\<lambda>r. ex_id r = ex_id old) (\<lambda>r. r\<lparr>ex_superseded := Some i\<rparr>) (map ?f rows @ [fresh_map u now e inp i])"
    by (simp_all only: j_def rows2_def)
  have "old \<in> set rows" using find_SomeD [OF Some] by simp
  then have "?f old \<in> set (map ?f rows)" unfolding set_map by (rule imageI [of old "set rows" ?f])
  from next_rowid_fresh [OF this, of ex_id] have "ex_id old < i" unfolding i by (simp split: if_splits)
  then show ?thesis
    by (intro exI [of _ "\<lambda>r. let r = ?f r in if ex_id r = ex_id old then r\<lparr>ex_superseded := Some i\<rparr> else r"])
      (auto simp: rows update_where_def Let_def)
qed

lemma held_back_persist:
  assumes "held_back uuid db" and "u \<noteq> uuid"
  shows "held_back uuid (fst (persist_exploration u now inp db))"
proof -
  obtain rows i where p: "persist_rows u now (current_project_epoch (nx_project inp) (xd_epochs db)) inp (xd_rows db) = (rows, i)"
    by (metis prod.exhaust)
  from persist_rows_cases [OF p] obtain f where
    f: "rows = map f (xd_rows db) @ [fresh_map u now (current_project_epoch (nx_project inp) (xd_epochs db)) inp i]"
      "\<forall>r. ex_uuid (f r) = ex_uuid r \<and> ex_status (f r) = ex_status r" by blast
  show ?thesis using assms f(2) by (auto simp: persist_exploration_def p held_back_def f(1))
qed

lemma held_back_gate:
  "held_back uuid (xs_maps st) \<Longrightarrow> held_back uuid (xs_maps (fst (gate_map env ctx req ui st)))"
  by (simp add: gate_map_def Let_def case_prod_beta)

lemma held_back_index: "held_back uuid (xs_maps st) \<Longrightarrow> held_back uuid (xs_maps (index_map env req b i st))"
  by (auto simp: index_map_def Let_def split: option.split prod.split)

definition may_review :: "string \<Rightarrow> auth_db \<Rightarrow> map_env \<times> header_value \<times> map_action \<Rightarrow> bool" where
  "may_review uuid auth = (\<lambda>(env, h, a).
     a = Review_Map uuid True \<and> (\<exists>ctx. authenticate (xe_millis env) h auth = Inr ctx \<and> is_admin ctx))"

definition call_uuid :: "map_env \<times> header_value \<times> map_action \<Rightarrow> string" where
  "call_uuid c = xe_uuid (fst c)"

lemma persist_call_cases:
  "\<exists>buckets. handle_persist_exploration env h req st = (st\<lparr>xs_buckets := buckets\<rparr>, snd (handle_persist_exploration env h req st)) \<and>
      isl (snd (handle_persist_exploration env h req st)) \<or>
   (\<exists>ctx b i anchors. authenticate (xe_millis env) h (xs_auth st) = Inr ctx \<and>
      buffer_id_for_project (xr_project req) (bd_rows (xs_buffers st)) = Some b \<and>
      fst (resolve_anchors b (xr_files req) (xs_chunks st)) = anchors \<and>
      snd (persist_exploration (xe_uuid env) (xe_millis env) (persist_input ctx req b anchors) (xs_maps st)) = Some (xe_uuid env, i) \<and>
      handle_persist_exploration env h req st =
        (let st2 = fst (gate_map env ctx req (xe_uuid env, i) (st\<lparr>xs_buckets := buckets,
                 xs_maps := fst (persist_exploration (xe_uuid env) (xe_millis env) (persist_input ctx req b anchors) (xs_maps st))\<rparr>));
             st3 = index_map env req b i st2
         in (st3\<lparr>xs_audit := xs_audit st3 @ [(xr_project req, ac_username ctx, ''persist_exploration'')]\<rparr>,
             Inr \<lparr>pr_uuid = xe_uuid env,
               pr_reason = snd (gate_map env ctx req (xe_uuid env, i) (st\<lparr>xs_buckets := buckets,
                 xs_maps := fst (persist_exploration (xe_uuid env) (xe_millis env) (persist_input ctx req b anchors) (xs_maps st))\<rparr>)),
               pr_unresolved = snd (resolve_anchors b (xr_files req) (xs_chunks st))\<rparr>)))"
proof -
  have same: "st = st\<lparr>xs_buckets := xs_buckets st\<rparr>" by simp
  have uuid: "u = xe_uuid env" if "persist_exploration (xe_uuid env) now inp db = (db', Some (u, i))" for u i now inp db db'
    using that by (auto simp: persist_exploration_def split: prod.splits if_splits)
  show ?thesis
    apply (cases "authenticate (xe_millis env) h (xs_auth st)")
    subgoal by (intro exI [of _ "xs_buckets st"] disjI1) (simp add: handle_persist_exploration_def)
    subgoal for ctx
      apply (cases "rate_check (xe_rate env) (ac_username ctx) (xe_secs env) (xs_buckets st)")
      subgoal for buckets allowed
        apply (intro exI [of _ buckets])
        apply (auto simp: handle_persist_exploration_def Let_def split: option.split prod.split dest: uuid)
        done
      done
    done
qed

lemma gate_auth [simp]:
  "xs_auth (fst (gate_map env ctx req ui st)) = xs_auth st" "xs_auth (index_map env req b i st) = xs_auth st"
  by (simp_all add: gate_map_def index_map_def Let_def case_prod_beta split: option.split)

lemma search_keeps:
  "held_back uuid (xs_maps st) \<Longrightarrow> held_back uuid (xs_maps (fst (search_explorations_core env p q n s e st)))"
  "xs_auth (fst (search_explorations_core env p q n s e st)) = xs_auth st"
  by (simp_all add: search_explorations_core_def Let_def held_back_touches split: option.split)

lemma call_step_keeps:
  assumes "held_back uuid (xs_maps st)" and "call_uuid c \<noteq> uuid" and "\<not> may_review uuid (xs_auth st) c"
  shows "held_back uuid (xs_maps (call_step c st)) \<and> xs_auth (call_step c st) = xs_auth st"
proof -
  obtain env h a where c: "c = (env, h, a)" by (metis prod_cases3)
  have u: "xe_uuid env \<noteq> uuid" using assms(2) by (simp add: c call_uuid_def)
  show ?thesis
  proof (cases a)
    case (Persist_Map req)
    have "held_back uuid (xs_maps (fst (handle_persist_exploration env h req st))) \<and>
        xs_auth (fst (handle_persist_exploration env h req st)) = xs_auth st"
      using persist_call_cases [of env h req st]
    proof (elim exE disjE conjE)
      fix buckets
      assume "handle_persist_exploration env h req st = (st\<lparr>xs_buckets := buckets\<rparr>, snd (handle_persist_exploration env h req st))"
      from arg_cong [OF this, of fst] show ?thesis using assms(1) by simp
    next
      fix buckets ctx b i anchors
      let ?maps = "fst (persist_exploration (xe_uuid env) (xe_millis env) (persist_input ctx req b anchors) (xs_maps st))"
      have maps: "held_back uuid ?maps" using assms(1) u by (rule held_back_persist)
      assume "handle_persist_exploration env h req st =
        (let st2 = fst (gate_map env ctx req (xe_uuid env, i) (st\<lparr>xs_buckets := buckets, xs_maps := ?maps\<rparr>));
             st3 = index_map env req b i st2
         in (st3\<lparr>xs_audit := xs_audit st3 @ [(xr_project req, ac_username ctx, ''persist_exploration'')]\<rparr>,
             Inr \<lparr>pr_uuid = xe_uuid env,
               pr_reason = snd (gate_map env ctx req (xe_uuid env, i) (st\<lparr>xs_buckets := buckets, xs_maps := ?maps\<rparr>)),
               pr_unresolved = snd (resolve_anchors b (xr_files req) (xs_chunks st))\<rparr>))"
      from arg_cong [OF this, of fst] show ?thesis
        using held_back_index [OF held_back_gate [of uuid "st\<lparr>xs_buckets := buckets, xs_maps := ?maps\<rparr>"]] maps by (simp add: Let_def)
    qed
    then show ?thesis by (simp add: c Persist_Map)
  next
    case (Search_Maps req)
    then show ?thesis using assms(1)
      by (auto simp: c handle_search_explorations_def search_keeps split: sum.split)
  next
    case (Invalidate_Map v mode reason)
    then show ?thesis using assms(1) held_back_invalidate held_back_delete
      by (auto simp: c handle_invalidate_exploration_def Let_def case_prod_beta split: sum.split option.split map_invalidation.split)
  next
    case (Review_Map v approved)
    then show ?thesis using assms(1,3)
      by (auto simp: c handle_review_exploration_def Let_def case_prod_beta may_review_def split: sum.split intro!: held_back_review)
  qed
qed

lemma calls_keep:
  assumes "held_back uuid (xs_maps st)" and "\<forall>c\<in>set calls. call_uuid c \<noteq> uuid \<and> \<not> may_review uuid (xs_auth st) c"
  shows "held_back uuid (xs_maps (fold call_step calls st))"
  using assms
proof (induction calls arbitrary: st)
  case (Cons c calls)
  then have "held_back uuid (xs_maps (call_step c st)) \<and> xs_auth (call_step c st) = xs_auth st" by (intro call_step_keeps) auto
  then show ?case using Cons by simp
qed simp

section \<open>What a search shows\<close>

lemma candidate_of_Some:
  assumes "candidate_of project as_of st (i, s) = Some c"
  shows "mc_row c \<in> set (xd_rows (xs_maps st))" "ex_project (mc_row c) = project" "mc_similarity c = s"
    "mc_broken c = recheck_anchors_for_rowid i (xs_chunks st) (xs_maps st)"
    "as_of \<le> 0 \<Longrightarrow> ex_id (mc_row c) = i"
proof -
  from assms obtain row r where row: "get_exploration_by_rowid i (xd_rows (xs_maps st)) = Some row"
    and r: "(if 0 < as_of then get_exploration_as_of (ex_project row) (ex_goal row) as_of (xd_rows (xs_maps st)) else Some row) = Some r"
      "ex_project r = project"
      "c = \<lparr>mc_row = r, mc_broken = recheck_anchors_for_rowid i (xs_chunks st) (xs_maps st), mc_similarity = s\<rparr>"
    by (auto simp: candidate_of_def split: option.splits if_splits)
  have "row \<in> set (xd_rows (xs_maps st))" "ex_id row = i"
    using find_SomeD [OF row [unfolded get_exploration_by_rowid_def]] by simp_all
  moreover have "r \<in> set (xd_rows (xs_maps st))"
    if "get_exploration_as_of p g as_of (xd_rows (xs_maps st)) = Some r" for p g
  proof -
    let ?sorted = "sort_key (\<lambda>r. (- ex_epoch r, - ex_id r)) (filter (\<lambda>r. map_key_of r = (p, g) \<and> ex_epoch r \<le> as_of) (xd_rows (xs_maps st)))"
    from that have "\<exists>xs. ?sorted = r # xs" unfolding get_exploration_as_of_def by (cases ?sorted) simp_all
    then have "r \<in> set ?sorted" by (metis list.set_intros(1))
    then show ?thesis by simp
  qed
  ultimately show "mc_row c \<in> set (xd_rows (xs_maps st))" "ex_project (mc_row c) = project" "mc_similarity c = s"
    "mc_broken c = recheck_anchors_for_rowid i (xs_chunks st) (xs_maps st)" "as_of \<le> 0 \<Longrightarrow> ex_id (mc_row c) = i"
    using r by (auto split: if_splits)
qed

lemma score_candidate_Some:
  assumes "score_candidate env include_stale epoch st c = Some (s, h)"
  shows "xh_uuid h = ex_uuid (mc_row c)" "ex_status (mc_row c) \<in> {Map_Fresh, Map_Stale}"
    "classify_hit (exploration_confidence (xe_config env)) (mc_similarity c) \<noteq> Hit_None"
    "\<not> include_stale \<Longrightarrow> \<not> is_stale c \<and> xh_status h = Map_Fresh" "xh_confidence h = s" "xh_similarity h = mc_similarity c"
    "0 \<le> s \<and> s \<le> 1"
proof -
  have conf: "0 \<le> candidate_confidence cfg now epoch c \<and> candidate_confidence cfg now epoch c \<le> 1" for cfg now
    by (simp add: candidate_confidence_def confidence_score_unfold clamp01_def)
  show "xh_uuid h = ex_uuid (mc_row c)" "xh_confidence h = s" "xh_similarity h = mc_similarity c"
    "classify_hit (exploration_confidence (xe_config env)) (mc_similarity c) \<noteq> Hit_None"
    "ex_status (mc_row c) \<in> {Map_Fresh, Map_Stale}"
    using assms by (cases "ex_status (mc_row c)"; auto simp: score_candidate_def hit_from_def Let_def split: if_splits)+
  show "\<not> include_stale \<Longrightarrow> \<not> is_stale c \<and> xh_status h = Map_Fresh"
    using assms by (auto simp: score_candidate_def hit_from_def is_stale_def Let_def split: if_splits)
  show "0 \<le> s \<and> s \<le> 1"
    using assms conf by (auto simp: score_candidate_def Let_def split: if_splits)
qed

lemma search_shown:
  assumes "search_explorations_core env project query limit include_stale as_of st = (st', Inr hits)"
  shows "\<exists>shown. hits = map snd shown \<and> length shown \<le> limit \<and> sorted_wrt (\<lambda>a b. fst b \<le> fst a) shown \<and>
    (\<forall>x\<in>set shown. \<exists>i c. candidate_of project as_of st (i, mc_similarity c) = Some c \<and>
        score_candidate env include_stale (current_project_epoch project (xd_epochs (xs_maps st))) st c = Some x)"
proof -
  let ?epoch = "current_project_epoch project (xd_epochs (xs_maps st))"
  consider "hits = []" | found where "hits = map snd (take limit (sort_key (\<lambda>h. - fst h)
      (List.map_filter (score_candidate env include_stale ?epoch st) (List.map_filter (candidate_of project as_of st) found))))"
    using assms unfolding search_explorations_core_def
    by (cases "limit = 0"; cases "xs_map_space st"; cases "embed_lenient env query") (auto simp: Let_def split: option.splits)
  then show ?thesis
  proof cases
    case 1
    then show ?thesis by simp
  next
    case 2
    let ?hs = "List.map_filter (score_candidate env include_stale ?epoch st) (List.map_filter (candidate_of project as_of st) found)"
    let ?shown = "take limit (sort_key (\<lambda>h. - fst h) ?hs)"
    have "sorted_wrt (\<lambda>a b. fst b \<le> fst a) (sort_key (\<lambda>h. - fst h) ?hs)"
      using sorted_sort_key [of "\<lambda>h. - fst h" ?hs] by (simp add: sorted_map)
    then have "sorted_wrt (\<lambda>a b. fst b \<le> fst a) ?shown" by (rule sorted_wrt_take)
    moreover have "\<exists>i c. candidate_of project as_of st (i, mc_similarity c) = Some c \<and> score_candidate env include_stale ?epoch st c = Some x"
      if "x \<in> set ?shown" for x
    proof -
      from that have x: "x \<in> set ?hs" by (auto dest: in_set_takeD)
      from x [unfolded in_map_filter [of x]] obtain c where c: "c \<in> set (List.map_filter (candidate_of project as_of st) found)"
          "score_candidate env include_stale ?epoch st c = Some x" by blast
      from c(1) [unfolded in_map_filter] obtain y where "candidate_of project as_of st y = Some c" by blast
      moreover from this have "mc_similarity c = snd y" using candidate_of_Some(3) by (metis prod.collapse)
      ultimately show ?thesis using c(2) by (metis prod.collapse)
    qed
    ultimately show ?thesis using 2 by (intro exI [of _ ?shown]) auto
  qed
qed

text \<open>
  C28: A search shows at most \<open>limit\<close> maps, the most trusted first, with a confidence in \<open>[0, 1]\<close>.
  Every hit is a stored map of the project that was approved (fresh or stale, never pending or
  retired) and similar enough; unless stale maps are asked for it is fresh, and the anchors of
  the map found hold against the chunk table.
\<close>

theorem map_search_sound:
  assumes "search_explorations_core env project query limit include_stale as_of st = (st', Inr hits)"
  shows "length hits \<le> limit \<and> sorted_wrt (\<lambda>a b. xh_confidence b \<le> xh_confidence a) hits \<and>
    (\<forall>h\<in>set hits. 0 \<le> xh_confidence h \<and> xh_confidence h \<le> 1 \<and>
       (\<exists>r\<in>set (xd_rows (xs_maps st)). xh_uuid h = ex_uuid r \<and> ex_project r = project \<and> ex_status r \<in> {Map_Fresh, Map_Stale} \<and>
          classify_hit (exploration_confidence (xe_config env)) (xh_similarity h) \<noteq> Hit_None \<and>
          (\<not> include_stale \<longrightarrow> ex_status r = Map_Fresh \<and> xh_status h = Map_Fresh) \<and>
          (\<not> include_stale \<and> as_of \<le> 0 \<longrightarrow> recheck_anchors_for_rowid (ex_id r) (xs_chunks st) (xs_maps st) = [])))"
proof -
  let ?epoch = "current_project_epoch project (xd_epochs (xs_maps st))"
  from search_shown [OF assms] obtain shown where shown: "hits = map snd shown" "length shown \<le> limit"
      "sorted_wrt (\<lambda>a b. fst b \<le> fst a) shown"
      "\<And>x. x \<in> set shown \<Longrightarrow> \<exists>i c. candidate_of project as_of st (i, mc_similarity c) = Some c \<and>
         score_candidate env include_stale ?epoch st c = Some x" by blast
  have score: "xh_confidence (snd x) = fst x" if "x \<in> set shown" for x
    using shown(4) [OF that] score_candidate_Some(5) by (metis prod.collapse)
  have "sorted_wrt (\<lambda>a b. xh_confidence (snd b) \<le> xh_confidence (snd a)) shown"
    using shown(3) by (rule sorted_wrt_mono_rel [rotated]) (simp add: score)
  then have sorted: "sorted_wrt (\<lambda>a b. xh_confidence b \<le> xh_confidence a) hits" by (simp add: shown(1) sorted_wrt_map)
  have "0 \<le> xh_confidence h \<and> xh_confidence h \<le> 1 \<and>
      (\<exists>r\<in>set (xd_rows (xs_maps st)). xh_uuid h = ex_uuid r \<and> ex_project r = project \<and> ex_status r \<in> {Map_Fresh, Map_Stale} \<and>
          classify_hit (exploration_confidence (xe_config env)) (xh_similarity h) \<noteq> Hit_None \<and>
          (\<not> include_stale \<longrightarrow> ex_status r = Map_Fresh \<and> xh_status h = Map_Fresh) \<and>
          (\<not> include_stale \<and> as_of \<le> 0 \<longrightarrow> recheck_anchors_for_rowid (ex_id r) (xs_chunks st) (xs_maps st) = []))"
    if "h \<in> set hits" for h
  proof -
    from that obtain s where "(s, h) \<in> set shown" by (auto simp: shown(1))
    from shown(4) [OF this] obtain i c where c: "candidate_of project as_of st (i, mc_similarity c) = Some c"
        "score_candidate env include_stale ?epoch st c = Some (s, h)" by blast
    note r = candidate_of_Some [OF c(1)] and sc = score_candidate_Some [OF c(2)]
    show ?thesis using r sc by (intro conjI bexI [of _ "mc_row c"]) (auto simp: is_stale_def)
  qed
  then show ?thesis using shown(1,2) sorted by simp
qed

section \<open>Who decides about a map\<close>

lemma persisted_gated:
  assumes run: "handle_persist_exploration env h req st = (st1, Inr reply)"
    and auth: "authenticate (xe_millis env) h (xs_auth st) = Inr ctx" "\<not> is_admin ctx"
    and gate: "xc_mode (xe_config env) = Quorum_Mode \<or> xc_require_review (xe_config env)"
    and new: "xe_uuid env \<notin> ex_uuid ` set (xd_rows (xs_maps st))"
  shows "pr_uuid reply = xe_uuid env \<and> held_back (xe_uuid env) (xs_maps st1) \<and> xs_auth st1 = xs_auth st"
  using persist_call_cases [of env h req st]
proof (elim exE disjE conjE)
  assume "isl (snd (handle_persist_exploration env h req st))"
  then show ?thesis using run by simp
next
  fix buckets ctx' b i anchors
  let ?inp = "persist_input ctx' req b anchors"
  let ?p = "persist_exploration (xe_uuid env) (xe_millis env) ?inp (xs_maps st)"
  let ?st = "st\<lparr>xs_buckets := buckets, xs_maps := fst ?p\<rparr>"
  assume "authenticate (xe_millis env) h (xs_auth st) = Inr ctx'" and i: "snd ?p = Some (xe_uuid env, i)"
    and eq: "handle_persist_exploration env h req st =
        (let st2 = fst (gate_map env ctx' req (xe_uuid env, i) ?st); st3 = index_map env req b i st2
         in (st3\<lparr>xs_audit := xs_audit st3 @ [(xr_project req, ac_username ctx', ''persist_exploration'')]\<rparr>,
             Inr \<lparr>pr_uuid = xe_uuid env, pr_reason = snd (gate_map env ctx' req (xe_uuid env, i) ?st),
               pr_unresolved = snd (resolve_anchors b (xr_files req) (xs_chunks st))\<rparr>))"
  then have ctx: "ctx' = ctx" using auth(1) by simp
  obtain rows j where p: "persist_rows (xe_uuid env) (xe_millis env) (current_project_epoch (nx_project ?inp) (xd_epochs (xs_maps st))) ?inp
      (xd_rows (xs_maps st)) = (rows, j)" by (metis prod.exhaust)
  from persist_rows_cases [OF p] obtain f where
    f: "rows = map f (xd_rows (xs_maps st)) @
        [fresh_map (xe_uuid env) (xe_millis env) (current_project_epoch (nx_project ?inp) (xd_epochs (xs_maps st))) ?inp j]"
      "\<forall>r. ex_uuid (f r) = ex_uuid r \<and> ex_status (f r) = ex_status r" by blast
  have maps: "xd_rows (fst ?p) = rows" "j = i" using i by (auto simp: persist_exploration_def p split: if_splits)
  have "held_back (xe_uuid env) (fst (mark_exploration_pending i (fst ?p)))"
  proof -
    have "ex_id r = i \<and> ex_status r = Map_Fresh" if "r \<in> set rows" "ex_uuid r = xe_uuid env" for r
      using that f(2) new maps(2) unfolding f(1) by (auto simp: image_iff)
    then have fresh: "ex_id r = i" "ex_status r = Map_Fresh" if "r \<in> set rows" "ex_uuid r = xe_uuid env" for r
      using that by blast+
    have rows: "xd_rows (fst (mark_exploration_pending i (fst ?p))) =
        map (\<lambda>r. if ex_id r = i \<and> ex_status r = Map_Fresh then r\<lparr>ex_status := Map_Pending\<rparr> else r) rows"
      by (simp add: mark_exploration_pending_def Let_def maps(1) update_where_def)
    show ?thesis unfolding held_back_def rows
    proof (intro ballI impI)
      fix r
      assume "r \<in> set (map (\<lambda>r. if ex_id r = i \<and> ex_status r = Map_Fresh then r\<lparr>ex_status := Map_Pending\<rparr> else r) rows)"
        and u: "ex_uuid r = xe_uuid env"
      then obtain r0 where r0: "r0 \<in> set rows" "r = (if ex_id r0 = i \<and> ex_status r0 = Map_Fresh then r0\<lparr>ex_status := Map_Pending\<rparr> else r0)"
        unfolding set_map by blast
      then have "ex_uuid r0 = xe_uuid env" using u by (simp split: if_splits)
      from fresh [OF r0(1) this] r0(2) show "ex_status r \<in> {Map_Pending, Map_Retired}" by simp
    qed
  qed
  then have "held_back (xe_uuid env) (xs_maps (fst (gate_map env ctx req (xe_uuid env, i) ?st)))"
    using gate auth(2) by (cases "xc_mode (xe_config env)") (auto simp: gate_map_def Let_def case_prod_beta)
  from held_back_index [OF this, of env req b i] show ?thesis using run eq by (auto simp: ctx Let_def)
qed

text \<open>
  C27: A map of a caller without the administrator role is never shown by any search, whatever calls
  follow, until an administrator approves it - unless the server is set to review mode without
  the review gate. The ids of later maps are new.
\<close>

theorem map_moderation:
  assumes "handle_persist_exploration env h req st = (st1, Inr reply)"
    and "authenticate (xe_millis env) h (xs_auth st) = Inr ctx" and "\<not> is_admin ctx"
    and "xc_mode (xe_config env) = Quorum_Mode \<or> xc_require_review (xe_config env)"
    and "xe_uuid env \<notin> ex_uuid ` set (xd_rows (xs_maps st))"
    and "\<forall>c\<in>set calls. call_uuid c \<noteq> xe_uuid env \<and> \<not> may_review (xe_uuid env) (xs_auth st) c"
    and "search_explorations_core env' project query limit include_stale as_of (fold call_step calls st1) = (st2, Inr hits)"
  shows "pr_uuid reply = xe_uuid env \<and> pr_uuid reply \<notin> xh_uuid ` set hits"
proof -
  note p = persisted_gated [OF assms(1-5)]
  then have held: "held_back (xe_uuid env) (xs_maps (fold call_step calls st1))"
    by (intro calls_keep) (use assms(6) in auto)
  from search_shown [OF assms(7)] obtain shown where shown: "hits = map snd shown"
      "\<forall>x\<in>set shown. \<exists>i c. candidate_of project as_of (fold call_step calls st1) (i, mc_similarity c) = Some c \<and>
         score_candidate env' include_stale (current_project_epoch project (xd_epochs (xs_maps (fold call_step calls st1))))
           (fold call_step calls st1) c = Some x" by blast
  have "xh_uuid (snd x) \<noteq> xe_uuid env" if "x \<in> set shown" for x
  proof -
    obtain s hit where x: "x = (s, hit)" by (cases x)
    from shown(2) that x obtain i c where
      c: "candidate_of project as_of (fold call_step calls st1) (i, mc_similarity c) = Some c"
         "score_candidate env' include_stale (current_project_epoch project (xd_epochs (xs_maps (fold call_step calls st1))))
           (fold call_step calls st1) c = Some (s, hit)" by blast
    from candidate_of_Some(1) [OF c(1)] score_candidate_Some(1,2) [OF c(2)] held
    show ?thesis unfolding held_back_def x by auto
  qed
  then have "xe_uuid env \<notin> xh_uuid ` set hits" unfolding shown(1) by fastforce
  then show ?thesis using p by simp
qed

lemma resolved_paths:
  "map an_path (fst (resolve_anchors b files chunks)) =
     filter (\<lambda>p. list_ex (\<lambda>c. ck_buffer c = b \<and> ck_file c = p) chunks) files"
  "list_all (\<lambda>a. an_role a = role_cited) (fst (resolve_anchors b files chunks))"
proof -
  have find: "List.find (\<lambda>c. ck_buffer c = b \<and> ck_file c = p) chunks = None \<longleftrightarrow>
      \<not> list_ex (\<lambda>c. ck_buffer c = b \<and> ck_file c = p) chunks" for p
    by (auto simp: find_None_iff list_ex_iff)
  show "map an_path (fst (resolve_anchors b files chunks)) =
     filter (\<lambda>p. list_ex (\<lambda>c. ck_buffer c = b \<and> ck_file c = p) chunks) files"
    by (induction files) (auto simp: resolve_anchors_def current_hashes_for_paths_def Let_def map_filter_simps find [symmetric] split: option.split)
  show "list_all (\<lambda>a. an_role a = role_cited) (fst (resolve_anchors b files chunks))"
    by (induction files) (auto simp: resolve_anchors_def current_hashes_for_paths_def Let_def map_filter_simps split: option.split)
qed

text \<open>
  A valid persist on a known project succeeds, except that a file of the index that is named
  twice makes it fail; and a persist that fails, for whatever reason, changes nothing but the
  caller's rate window.
\<close>

theorem persist_map_result:
  assumes "authenticate (xe_millis env) h (xs_auth st) = Inr ctx"
    and "rate_check (xe_rate env) (ac_username ctx) (xe_secs env) (xs_buckets st) = (buckets, True)"
    and "xc_enabled (xe_config env)" and "validate_persist req = None"
    and "buffer_id_for_project (xr_project req) (bd_rows (xs_buffers st)) = Some b"
    and "handle_persist_exploration env h req st = (st', res)"
  shows "(\<forall>e. res = Inl e \<longrightarrow> st' = st\<lparr>xs_buckets := buckets\<rparr>) \<and>
    (isl res \<longleftrightarrow> \<not> distinct (filter (\<lambda>p. list_ex (\<lambda>c. ck_buffer c = b \<and> ck_file c = p) (xs_chunks st)) (xr_files req)))"
proof -
  obtain anchors unresolved where a: "resolve_anchors b (xr_files req) (xs_chunks st) = (anchors, unresolved)" by (metis prod.exhaust)
  let ?inp = "persist_input ctx req b anchors"
  have "anchors_valid (nx_anchors ?inp) \<longleftrightarrow>
      distinct (filter (\<lambda>p. list_ex (\<lambda>c. ck_buffer c = b \<and> ck_file c = p) (xs_chunks st)) (xr_files req))"
    using resolved_paths [of b "xr_files req" "xs_chunks st"]
    by (auto simp: anchors_valid_def persist_input_def a list_all_iff role_cited_def)
  moreover have "snd (persist_exploration (xe_uuid env) (xe_millis env) ?inp (xs_maps st)) = None \<longleftrightarrow> \<not> anchors_valid (nx_anchors ?inp)"
    by (simp add: persist_exploration_def case_prod_beta)
  ultimately show ?thesis using assms
    by (auto simp: handle_persist_exploration_def a Let_def split: prod.splits option.splits)
qed

text \<open>A fresh map with sound anchors that is similar enough is shown, live or not.\<close>

lemma map_filter_all: "(\<And>x. x \<in> set xs \<Longrightarrow> f x = Some (g x)) \<Longrightarrow> List.map_filter f xs = map g xs"
  by (induction xs) (simp_all add: map_filter_simps)

lemma fresh_maps_shown:
  assumes "0 < limit" and "xs_map_space st = Some vs" and "embed_lenient env query = Some v"
    and "search_space (xe_ann env) v (limit + search_margin) vs = Some found" and "length found \<le> limit"
    and cand: "\<And>x. x \<in> set found \<Longrightarrow> candidate_of project as_of st x = Some (c x) \<and> ex_status (mc_row (c x)) = Map_Fresh \<and>
      mc_broken (c x) = [] \<and> classify_hit (exploration_confidence (xe_config env)) (mc_similarity (c x)) \<noteq> Hit_None"
    and "\<not> xc_verify (xe_config env)"
  shows "\<exists>st' hits. search_explorations_core env project query limit include_stale as_of st = (st', Inr hits) \<and>
    xh_uuid ` set hits = (\<lambda>x. ex_uuid (mc_row (c x))) ` set found \<and> length hits = length found"
proof -
  let ?epoch = "current_project_epoch project (xd_epochs (xs_maps st))"
  let ?score = "\<lambda>x. candidate_confidence (exploration_confidence (xe_config env)) (xe_millis env) ?epoch (c x)"
  let ?hit = "\<lambda>x. (?score x, hit_from (c x) (?score x) ?epoch)"
  have cs: "List.map_filter (candidate_of project as_of st) found = map c found"
    by (rule map_filter_all) (use cand in blast)
  have "score_candidate env include_stale ?epoch st (c x) = Some (?hit x)" if "x \<in> set found" for x
    using cand [OF that] assms(7) by (simp add: score_candidate_def is_stale_def Let_def)
  then have "List.map_filter (score_candidate env include_stale ?epoch st) (map c found) = map ?hit found"
    by (induction found) (simp_all add: map_filter_simps)
  then have "search_explorations_core env project query limit include_stale as_of st =
      (fst (search_explorations_core env project query limit include_stale as_of st), Inr (map snd (sort_key (\<lambda>h. - fst h) (map ?hit found))))"
    using assms(1-5) by (simp add: search_explorations_core_def cs Let_def)
  then show ?thesis
    by (intro exI [of _ "fst (search_explorations_core env project query limit include_stale as_of st)"]
        exI [of _ "map snd (sort_key (\<lambda>h. - fst h) (map ?hit found))"] conjI) (assumption, simp_all add: image_image hit_from_def Let_def)
qed

section \<open>Examples\<close>

definition demo_map_config :: exploration_config where
  "demo_map_config =
     \<lparr>xc_enabled = True, xc_hit_high = 72/100, xc_hit_low = 55/100, xc_verify = False, xc_grounding_min = 1/4,
      xc_require_review = False, xc_mode = Quorum_Mode\<rparr>"

definition demo_map_env :: "string \<Rightarrow> map_env" where
  "demo_map_env uuid =
     \<lparr>xe_config = demo_map_config, xe_rate = demo_limit, xe_embed = (\<lambda>_. Some [1, 0]),
      xe_ann = (\<lambda>_ es _. Some (map (\<lambda>e. (fst e, 0)) es)), xe_chunk_ann = (\<lambda>_ _ _. []), xe_millis = 2000, xe_secs = 2,
      xe_save = (2000, True), xe_uuid = uuid\<rparr>"

definition demo_map_ops :: "role \<Rightarrow> auth_op list" where
  "demo_map_ops r = [Create_Token 0 ''t1'' ''secret'' \<lparr>nt_username = ''ann'', nt_role = r, nt_created_by = ''cli''\<rparr>,
                     Refresh 1000 ''s1'' ''secret'']"

definition demo_map_server :: "role \<Rightarrow> map_server" where
  "demo_map_server r =
     \<lparr>xs_auth = auth_run rev (demo_map_ops r) empty_auth, xs_buckets = (\<lambda>_. None),
      xs_buffers = \<lparr>bd_rows = [new_buffer 0 ''b'' ''p'' ''/p'' 1], bd_seq = 1\<rparr>, xs_chunks = [],
      xs_maps = \<lparr>xd_rows = [], xd_anchors = [], xd_epochs = []\<rparr>, xs_submissions = [],
      xs_map_space = Some (open_space 2 True None), xs_chunk_space = None, xs_audit = []\<rparr>"

definition demo_persist :: persist_map_request where
  "demo_persist = \<lparr>xr_project = ''p'', xr_goal = ''g'', xr_body = ''body'', xr_summary = ''s'', xr_files = [], xr_model = []\<rparr>"

definition demo_map_header :: header_value where
  "demo_map_header = Text_Header ''Bearer s1''"

definition demo_stored :: "role \<Rightarrow> map_server" where
  "demo_stored r = fst (handle_persist_exploration (demo_map_env ''m1'') demo_map_header demo_persist (demo_map_server r))"

definition hit_uuids :: "map_server \<times> (rpc_status + exploration_hit list) \<Rightarrow> string list option" where
  "hit_uuids r = (case snd r of Inl _ \<Rightarrow> None | Inr hits \<Rightarrow> Some (map xh_uuid hits))"

lemma hit_uuids_Some: "hit_uuids r = Some us \<Longrightarrow> \<exists>hits. r = (fst r, Inr hits) \<and> map xh_uuid hits = us"
  by (cases r) (auto simp: hit_uuids_def split: sum.splits)

definition demo_stored_twice :: map_server where
  "demo_stored_twice = fst (handle_persist_exploration (demo_map_env ''m2'') demo_map_header demo_persist (demo_stored Admin))"

definition demo_candidate :: "map_server \<Rightarrow> row_id \<times> real \<Rightarrow> map_candidate" where
  "demo_candidate st x = the (candidate_of ''p'' 0 st x)"

definition demo_sound :: "map_server \<Rightarrow> (row_id \<times> real) list \<Rightarrow> bool" where
  "demo_sound st found \<longleftrightarrow> map_option sp_entries (xs_map_space st) = Some (map (\<lambda>x. (fst x, [1, 0])) found) \<and>
     list_all (\<lambda>x. snd x = 1) found \<and> length found \<le> 5 \<and> found \<noteq> [] \<and> list_all (\<lambda>x. case candidate_of ''p'' 0 st x of None \<Rightarrow> False | Some c \<Rightarrow>
     ex_status (mc_row c) = Map_Fresh \<and> mc_broken c = [] \<and> mc_similarity c = 1) found"

lemma demo_map_search:
  assumes sound: "demo_sound st found"
  shows "\<exists>st' hits. search_explorations_core (demo_map_env u) ''p'' ''q'' 5 False 0 st = (st', Inr hits) \<and>
    xh_uuid ` set hits = (\<lambda>x. ex_uuid (mc_row (demo_candidate st x))) ` set found \<and> length hits = length found"
proof -
  from sound have assms: "demo_sound st found" "map_option sp_entries (xs_map_space st) = Some (map (\<lambda>x. (fst x, [1, 0])) found)"
    "list_all (\<lambda>x. snd x = 1) found" "length found \<le> 5" "found \<noteq> []" unfolding demo_sound_def by blast+
  from assms(2) obtain vs where vs: "xs_map_space st = Some vs" "sp_entries vs = map (\<lambda>x. (fst x, [1, 0])) found" by auto
  have "embed_lenient (demo_map_env u) ''q'' = Some [1, 0]" by (simp add: embed_lenient_def demo_map_env_def)
  moreover have "map (\<lambda>e. (fst e, 1)) (sp_entries vs) = found"
    unfolding vs(2) using assms(3) by (induction found) auto
  then have "search_space (xe_ann (demo_map_env u)) [1, 0] (5 + search_margin) vs = Some found"
    using assms(5) vs(2) by (auto simp: search_space_def demo_map_env_def space_len_def clamp_def comp_def)
  moreover have "candidate_of ''p'' 0 st x = Some (demo_candidate st x) \<and> ex_status (mc_row (demo_candidate st x)) = Map_Fresh \<and>
      mc_broken (demo_candidate st x) = [] \<and>
      classify_hit (exploration_confidence (xe_config (demo_map_env u))) (mc_similarity (demo_candidate st x)) \<noteq> Hit_None"
    if "x \<in> set found" for x
    using assms(1) that
    by (auto simp: demo_sound_def list_all_iff demo_candidate_def classify_hit_def exploration_confidence_def demo_map_env_def
        demo_map_config_def split: option.splits)
  ultimately show ?thesis
    by (intro fresh_maps_shown [where vs = vs and v = "[1, 0]"]) (use vs(1) assms(4) in \<open>auto simp: demo_map_env_def demo_map_config_def\<close>)
qed

lemma demo_stored_facts:
  "demo_sound (demo_stored Admin) [(1, 1)]" "demo_sound demo_stored_twice [(1, 1), (2, 1)]"
  "ex_uuid (mc_row (demo_candidate (demo_stored Admin) (1, 1))) = ''m1''"
  "ex_uuid (mc_row (demo_candidate demo_stored_twice (1, 1))) = ''m1''" "ex_uuid (mc_row (demo_candidate demo_stored_twice (2, 1))) = ''m2''"
  by code_simp+

lemma map_search_sound_witness:
  "\<exists>hits. snd (search_explorations_core (demo_map_env ''m2'') ''p'' ''q'' 5 False 0 (demo_stored Admin)) = Inr hits \<and>
     xh_uuid ` set hits = {''m1''} \<and> (\<exists>r\<in>set (xd_rows (xs_maps (demo_stored Admin))). ex_uuid r = ''m1'' \<and> ex_status r = Map_Fresh)"
proof -
  let ?r = "search_explorations_core (demo_map_env ''m2'') ''p'' ''q'' 5 False 0 (demo_stored Admin)"
  have img: "(\<lambda>x. ex_uuid (mc_row (demo_candidate (demo_stored Admin) x))) ` set [(1, 1)] = {''m1''}"
    by (simp only: list.set image_insert image_empty demo_stored_facts(3))
  from demo_map_search [OF demo_stored_facts(1), unfolded img, of "''m2''"] obtain st' hits where hits: "?r = (st', Inr hits)" "xh_uuid ` set hits = {''m1''}"
    by (elim exE conjE) (rule that)
  have "''m1'' \<in> xh_uuid ` set hits" unfolding hits(2) by (rule insertI1)
  then obtain h where h: "h \<in> set hits" "xh_uuid h = ''m1''" by (elim imageE) (rule that; simp)
  from map_search_sound [OF hits(1)] h(1) obtain r where "r \<in> set (xd_rows (xs_maps (demo_stored Admin)))"
    "xh_uuid h = ex_uuid r" "ex_status r = Map_Fresh" by blast
  then have "\<exists>r\<in>set (xd_rows (xs_maps (demo_stored Admin))). ex_uuid r = ''m1'' \<and> ex_status r = Map_Fresh"
    using h(2) by metis
  then show ?thesis using hits by simp
qed

text \<open>A revision that was superseded is still shown beside its successor: no gate asks for the live one.\<close>

lemma superseded_map_shown:
  "\<exists>hits. snd (search_explorations_core (demo_map_env ''m3'') ''p'' ''q'' 5 False 0 demo_stored_twice) = Inr hits \<and>
     xh_uuid ` set hits = {''m1'', ''m2''} \<and> map ex_active (xd_rows (xs_maps demo_stored_twice)) = [False, True]"
proof -
  have "map ex_active (xd_rows (xs_maps demo_stored_twice)) = [False, True]" by code_simp
  moreover have img: "(\<lambda>x. ex_uuid (mc_row (demo_candidate demo_stored_twice x))) ` set [(1, 1), (2, 1)] = {''m1'', ''m2''}"
    by (simp only: list.set image_insert image_empty demo_stored_facts(4,5))
  from demo_map_search [OF demo_stored_facts(2), unfolded img, of "''m3''"] obtain st' hits where
    "search_explorations_core (demo_map_env ''m3'') ''p'' ''q'' 5 False 0 demo_stored_twice = (st', Inr hits)"
    "xh_uuid ` set hits = {''m1'', ''m2''}"
    by (elim exE conjE) (rule that)
  ultimately show ?thesis by simp
qed

lemma map_moderation_witness:
  "hit_uuids (search_explorations_core (demo_map_env ''m2'') ''p'' ''q'' 5 False 0 (demo_stored Non_Admin)) = Some [] \<and>
   (\<exists>reply. snd (handle_persist_exploration (demo_map_env ''m1'') demo_map_header demo_persist (demo_map_server Non_Admin)) = Inr reply \<and>
      pr_uuid reply = ''m1'')"
proof -
  let ?h = "handle_persist_exploration (demo_map_env ''m1'') demo_map_header demo_persist (demo_map_server Non_Admin)"
  let ?r = "search_explorations_core (demo_map_env ''m2'') ''p'' ''q'' 5 False 0 (demo_stored Non_Admin)"
  have e: "hit_uuids ?r = Some []" by code_simp
  have "\<not> isl (snd ?h)" by code_simp
  then obtain reply where h: "?h = (demo_stored Non_Admin, Inr reply)" unfolding demo_stored_def by (metis sum.collapse(2) prod.collapse)
  have a: "authenticate (xe_millis (demo_map_env ''m1'')) demo_map_header (xs_auth (demo_map_server Non_Admin)) =
      Inr \<lparr>ac_username = ''ann'', ac_role = Non_Admin\<rparr>" by code_simp
  from hit_uuids_Some [OF e] obtain hits where hits: "?r = (fst ?r, Inr hits)" by blast
  have "pr_uuid reply = ''m1''"
    using map_moderation [OF h a _ _ _ _ , of "[]", unfolded fold_Nil id_apply, OF _ _ _ _ hits]
    by (simp add: is_admin_def demo_map_env_def demo_map_config_def demo_map_server_def)
  then show ?thesis using e h by simp
qed

lemma persist_map_result_witness:
  "isl (snd (handle_persist_exploration (demo_map_env ''m1'') demo_map_header demo_persist (demo_map_server Admin))) = False"
proof -
  let ?h = "handle_persist_exploration (demo_map_env ''m1'') demo_map_header demo_persist (demo_map_server Admin)"
  have a: "authenticate (xe_millis (demo_map_env ''m1'')) demo_map_header (xs_auth (demo_map_server Admin)) =
      Inr \<lparr>ac_username = ''ann'', ac_role = Admin\<rparr>" by code_simp
  have r: "rate_check (xe_rate (demo_map_env ''m1'')) (ac_username \<lparr>ac_username = ''ann'', ac_role = Admin\<rparr>) (xe_secs (demo_map_env ''m1''))
      (xs_buckets (demo_map_server Admin)) = ((\<lambda>_. None)(''ann'' \<mapsto> \<lparr>bk_count = 1, bk_start = 2\<rparr>), True)"
    by (simp add: rate_check_def demo_map_env_def demo_limit_def demo_map_server_def Let_def)
  have v: "validate_persist demo_persist = None" by code_simp
  have b: "buffer_id_for_project (xr_project demo_persist) (bd_rows (xs_buffers (demo_map_server Admin))) = Some 1" by code_simp
  have e: "xc_enabled (xe_config (demo_map_env ''m1''))" by (simp add: demo_map_env_def demo_map_config_def)
  from persist_map_result [OF a r e v b prod.collapse [symmetric]] show ?thesis by (simp add: demo_persist_def)
qed

end
