(* ===== verification/Rlm_Service.thy ===== *)
theory Rlm_Service
  imports Quorum Access Vector_Space
begin

text \<open>
  The calls of the summary motor (\<^verbatim>\<open>crates/arags-server/src/grpc/rlm/{mod,complete}.rs\<close>): claiming
  a job, polling it, submitting a summary, the review of an administrator and the list of
  summaries. The state is that of the quorum decision with the sessions, the rate windows and
  the provenance graph; its vector index is the space of the summaries. A failing statement
  ends a call and keeps what was written before it. Lemmas: a volunteer alone never makes a
  summary findable, what a completion needs, and what a rejection starts.
\<close>

section \<open>The state of the calls\<close>

record rlm_server =
  rv_auth :: auth_db
  rv_buckets :: buckets
  rv_quorum :: "space_store quorum_state"
  rv_edges :: "rlm_edge list"
  rv_chunk_ids :: "row_id list"

record rlm_server_env =
  re_config :: quorum_config
  re_quorum :: "space_store quorum_env"
  re_rate :: rate_limit_config
  re_secs :: nat
  re_save :: "nat \<times> bool"

definition re_now :: "rlm_server_env \<Rightarrow> millis" where
  "re_now env = qe_now_ms (re_quorum env)"

section \<open>Claiming and polling\<close>

definition handle_claim_rlm_job ::
  "rlm_server_env \<Rightarrow> header_value \<Rightarrow> millis \<Rightarrow> int \<Rightarrow> rlm_server \<Rightarrow> rlm_server \<times> (rpc_status + claimed_rlm_job option)" where
  "handle_claim_rlm_job env header lease max_level st =
     (case authenticate (re_now env) header (rv_auth st) of
        Inl e \<Rightarrow> (st, Inl e)
      | Inr ctx \<Rightarrow>
          let lease_ms = (if 0 < lease then lease else default_rlm_lease_ms)
          in if lease_ms < 1000 \<or> 3600000 < lease_ms
             then (st, Inl (Invalid_Argument ''lease_ms must be between 1000 and 3600000''))
             else if max_level < 0 \<or> 3 < max_level then (st, Inl (Invalid_Argument ''max_level must be 0..=3''))
             else let (db, res) = claim_rlm_job (re_now env) (ac_username ctx) lease_ms (if max_level = 0 then None else Some max_level)
                                    (qc_strikes_limit (re_config env)) (qs_trust (rv_quorum st)) (qs_db (rv_quorum st))
                  in (st\<lparr>rv_quorum := (rv_quorum st)\<lparr>qs_db := db\<rparr>\<rparr>,
                      case res of Inl _ \<Rightarrow> Inl (Internal ''claim_rlm_job failed'') | Inr job \<Rightarrow> Inr job))"

definition handle_get_rlm_job_status ::
  "rlm_server_env \<Rightarrow> header_value \<Rightarrow> row_id \<Rightarrow> rlm_server \<Rightarrow> rpc_status + (job_status option \<times> int)" where
  "handle_get_rlm_job_status env header job_id st =
     (case authenticate (re_now env) header (rv_auth st) of
        Inl e \<Rightarrow> Inl e
      | Inr _ \<Rightarrow> Inr (case get_rlm_job job_id (qs_db (rv_quorum st)) of
                       Some j \<Rightarrow> (Some (jb_status j), jb_generation j) | None \<Rightarrow> (None, - 1)))"

section \<open>Submitting a summary\<close>

record complete_request =
  cq_job :: row_id
  cq_generation :: int
  cq_summary :: string
  cq_model :: string
  cq_template :: string
  cq_tokens :: int
  cq_hmac :: string

record complete_reply =
  cr_accepted :: bool
  cr_reason :: string
  cr_node_id :: string
  cr_auto :: bool

definition payload_hashes :: "rlm_server_env \<Rightarrow> string \<Rightarrow> string list" where
  "payload_hashes env payload = (case qe_de (re_quorum env) payload of Some p \<Rightarrow> pl_hashes p | None \<Rightarrow> [])"

definition submitted_node :: "rlm_server_env \<Rightarrow> auth_context \<Rightarrow> complete_request \<Rightarrow> rlm_job \<Rightarrow> new_rlm_node" where
  "submitted_node env ctx req job =
     \<lparr>nn_buffer = jb_buffer job, nn_project = jb_project job, nn_level = jb_level job, nn_subject = jb_subject job,
      nn_summary = trim (cq_summary req), nn_hashes = payload_hashes env (jb_payload job),
      nn_model = (if cq_model req = [] then None else Some (cq_model req)), nn_volunteer = Some (ac_username ctx),
      nn_created_by = Some (ac_username ctx),
      nn_template = (if cq_template req = [] then None else Some (cq_template req)), nn_tokens = max 0 (cq_tokens req)\<rparr>"

text \<open>The edges one by one; the first that fails ends the loop.\<close>

fun add_edges ::
  "row_id \<Rightarrow> (row_id option \<times> row_id option) list \<Rightarrow> rlm_node list \<Rightarrow> row_id list \<Rightarrow> rlm_edge list \<Rightarrow> rlm_edge list \<times> bool" where
  "add_edges parent [] nodes chunk_ids edges = (edges, True)"
| "add_edges parent ((child, chunk) # rest) nodes chunk_ids edges =
     (case add_rlm_edge parent child chunk nodes chunk_ids edges of
        Inl _ \<Rightarrow> (edges, False)
      | Inr edges' \<Rightarrow> add_edges parent rest nodes chunk_ids edges')"

definition payload_edges :: "rlm_payload \<Rightarrow> (row_id option \<times> row_id option) list" where
  "payload_edges p = map (\<lambda>c. (None, Some c)) (pl_chunk_ids p) @ map (\<lambda>n. (Some n, None)) (pl_node_ids p)"

definition index_summary :: "rlm_server_env \<Rightarrow> rlm_job \<Rightarrow> string \<Rightarrow> row_id \<Rightarrow> space_store quorum_state \<Rightarrow> space_store quorum_state" where
  "index_summary env job summary i q =
     (case qs_vectors q of
        None \<Rightarrow> q
      | Some space \<Rightarrow>
          let buffer = (case jb_buffer job of Some b \<Rightarrow> b | None \<Rightarrow> 0);
              marked = (\<lambda>q. q\<lparr>qs_nodes := mark_rlm_nodes_pending_vector buffer [i] (qs_nodes q)\<rparr>)
          in (case qe_embed (re_quorum env) (jb_subject job @ CHR 0x0A # summary) of
                None \<Rightarrow> marked q
              | Some v \<Rightarrow>
                  let (space', ok) = insert_space (fst (re_save env)) (snd (re_save env)) i v space; q' = q\<lparr>qs_vectors := Some space'\<rparr>
                  in if ok then q' else marked q'))"

definition cascade_parent :: "rlm_server_env \<Rightarrow> rlm_job \<Rightarrow> space_store quorum_state \<Rightarrow> space_store quorum_state" where
  "cascade_parent env job q =
     (if qc_rlm_enabled (re_config env) \<and> jb_level job < 3 then
        let tolerance = (if jb_level job = 1 then qc_l2_tolerance (re_config env) else qc_l3_tolerance (re_config env));
            (nodes, db) = fst (cascade_rlm (re_now env) (qe_ser (re_quorum env)) (qe_de (re_quorum env))
                                (case jb_buffer job of Some b \<Rightarrow> b | None \<Rightarrow> 0) (jb_project job) (jb_level job) (jb_subject job)
                                tolerance (quorum_size (re_config env)) (qs_nodes q, qs_db q))
        in q\<lparr>qs_nodes := nodes, qs_db := db\<rparr>
      else q)"

text \<open>The path of an administrator, and of every volunteer where the quorum has one member.\<close>

definition complete_directly ::
  "rlm_server_env \<Rightarrow> auth_context \<Rightarrow> complete_request \<Rightarrow> rlm_job \<Rightarrow> rlm_server \<Rightarrow> rlm_server \<times> (rpc_status + complete_reply)" where
  "complete_directly env ctx req job st =
     (let q = rv_quorum st;
          ((db, nodes), accepted) = complete_rlm_job_with_node (re_now env) (re_now env) (qe_node_id (re_quorum env)) (cq_job req)
                                      (ac_username ctx) (cq_generation req) (submitted_node env ctx req job) (qs_db q, qs_nodes q);
          q1 = q\<lparr>qs_db := db, qs_nodes := nodes\<rparr>
      in case accepted of
           None \<Rightarrow> (st\<lparr>rv_quorum := q1\<rparr>,
             Inr \<lparr>cr_accepted = False, cr_reason = ''stale lease, wrong worker or cancelled generation'', cr_node_id = [], cr_auto = False\<rparr>)
         | Some (i, node_id) \<Rightarrow>
             let q2 = (if is_admin ctx
                       then q1\<lparr>qs_nodes := fst (review_rlm_node (re_now env) node_id True (ac_username ctx) (qs_nodes q1))\<rparr> else q1);
                 (edges, ok) = (case qe_de (re_quorum env) (jb_payload job) of
                                  None \<Rightarrow> (rv_edges st, True)
                                | Some p \<Rightarrow> add_edges i (payload_edges p) (qs_nodes q2) (rv_chunk_ids st) (rv_edges st));
                 st2 = st\<lparr>rv_quorum := q2, rv_edges := edges\<rparr>
             in if \<not> ok then (st2, Inl (Internal ''failed to add rlm edge''))
                else let q3 = cascade_parent env job (index_summary env job (trim (cq_summary req)) i q2);
                         q4 = q3\<lparr>qs_audit := qs_audit q3 @ [(jb_project job, ac_username ctx, ''complete_rlm_job'', Some node_id, None)]\<rparr>
                     in (st2\<lparr>rv_quorum := q4\<rparr>, Inr \<lparr>cr_accepted = True, cr_reason = [], cr_node_id = node_id, cr_auto = is_admin ctx\<rparr>))"

definition handle_complete_rlm_job ::
  "rlm_server_env \<Rightarrow> header_value \<Rightarrow> complete_request \<Rightarrow> rlm_server \<Rightarrow> rlm_server \<times> (rpc_status + complete_reply)" where
  "handle_complete_rlm_job env header req st =
     (case authenticate (re_now env) header (rv_auth st) of
        Inl e \<Rightarrow> (st, Inl e)
      | Inr ctx \<Rightarrow>
          (case rate_check (re_rate env) (ac_username ctx) (re_secs env) (rv_buckets st) of
             (buckets, allowed) \<Rightarrow>
               let st = st\<lparr>rv_buckets := buckets\<rparr>
               in if \<not> allowed then (st, Inl Resource_Exhausted)
                  else (case bearer header of
                    Inl e \<Rightarrow> (st, Inl e)
                  | Inr raw_token \<Rightarrow>
                      if trim (cq_summary req) = [] then (st, Inl (Invalid_Argument ''summary_text is required''))
                      else (case get_rlm_job (cq_job req) (qs_db (rv_quorum st)) of
                        None \<Rightarrow> (st, Inl (Not_Found ''unknown job_id''))
                      | Some job \<Rightarrow>
                          if 1 < quorum_size (re_config env) \<and> \<not> is_admin ctx then
                            (case decide_quorum_submission (re_config env) (re_quorum env) job (ac_username ctx) raw_token (cq_generation req)
                                    (trim (cq_summary req)) (cq_job req) (cq_hmac req) (rv_quorum st) of
                               (q, Submit_Unauthenticated) \<Rightarrow>
                                 (st\<lparr>rv_quorum := q\<rparr>, Inl (Unauthenticated ''submission attestation failed: invalid or missing HMAC''))
                             | (q, Submit_Reply accepted reason node_id) \<Rightarrow>
                                 (st\<lparr>rv_quorum := q\<rparr>,
                                  Inr \<lparr>cr_accepted = accepted, cr_reason = reason, cr_node_id = node_id, cr_auto = False\<rparr>))
                          else complete_directly env ctx req job st))))"

section \<open>Review and list\<close>

definition handle_review_rlm_node ::
  "rlm_server_env \<Rightarrow> header_value \<Rightarrow> string \<Rightarrow> bool \<Rightarrow> rlm_server \<Rightarrow> rlm_server \<times> (rpc_status + bool)" where
  "handle_review_rlm_node env header node_id approved st =
     (case authenticate (re_now env) header (rv_auth st) of
        Inl e \<Rightarrow> (st, Inl e)
      | Inr ctx \<Rightarrow>
          if \<not> is_admin ctx then (st, Inl (Permission_Denied ''admin role required''))
          else let q = rv_quorum st;
                   (nodes, applied) = review_rlm_node (re_now env) node_id approved (ac_username ctx) (qs_nodes q);
                   q1 = q\<lparr>qs_nodes := nodes\<rparr>;
                   q2 = (if applied \<and> \<not> approved
                         then (case rlm_subject_of node_id nodes of
                                 Some (project, level, subject) \<Rightarrow>
                                   q1\<lparr>qs_db := fst (cancel_rlm_jobs_for_subjects (re_now env) project [(level, subject)] (qs_db q1))\<rparr>
                               | None \<Rightarrow> q1)
                         else q1)
               in (st\<lparr>rv_quorum := q2\<rparr>, Inr applied))"

definition handle_list_rlm_nodes ::
  "rlm_server_env \<Rightarrow> header_value \<Rightarrow> string \<Rightarrow> int \<Rightarrow> bool \<Rightarrow> rlm_server \<Rightarrow> rpc_status + rlm_node list" where
  "handle_list_rlm_nodes env header project level pending st =
     (case authenticate (re_now env) header (rv_auth st) of
        Inl e \<Rightarrow> Inl e
      | Inr ctx \<Rightarrow>
          if trim project = [] then Inl (Invalid_Argument ''project is required'')
          else Inr (list_rlm_nodes project (if 0 < level then Some level else None) (pending \<and> is_admin ctx) (qs_nodes (rv_quorum st))))"

section \<open>Nobody but an administrator makes a summary findable\<close>

text \<open>The summaries a search may return: approved, of a buffer. Searches never ask for those without one.\<close>

definition findable :: "rlm_node list \<Rightarrow> (row_id \<times> string) set" where
  "findable rows = (\<lambda>r. (nd_id r, nd_summary r)) ` {r \<in> set rows. nd_review r = Review_Approved \<and> nd_buffer r \<noteq> None}"

lemma searchable_findable: "r \<in> set rows \<Longrightarrow> searchable b r \<Longrightarrow> (nd_id r, nd_summary r) \<in> findable rows"
  by (auto simp: searchable_def findable_def)

lemma findable_update:
  assumes "\<And>r. r \<in> set rows \<Longrightarrow> p r \<Longrightarrow> nd_review (f r) = Review_Approved \<and> nd_buffer (f r) \<noteq> None \<Longrightarrow>
      nd_review r = Review_Approved \<and> nd_buffer r \<noteq> None"
    and "\<And>r. nd_id (f r) = nd_id r \<and> nd_summary (f r) = nd_summary r"
  shows "findable (update_where p f rows) \<subseteq> findable rows"
proof
  fix x assume "x \<in> findable (update_where p f rows)"
  then obtain r where r: "r \<in> set (update_where p f rows)" "nd_review r = Review_Approved \<and> nd_buffer r \<noteq> None"
    "x = (nd_id r, nd_summary r)" by (auto simp: findable_def)
  then obtain r0 where r0: "r0 \<in> set rows" "r = (if p r0 then f r0 else r0)" by (auto simp: in_set_update_where)
  have "nd_review r0 = Review_Approved \<and> nd_buffer r0 \<noteq> None" using assms(1) [OF r0(1)] r(2) r0(2) by (cases "p r0") auto
  then show "x \<in> findable rows" using r0 r(3) assms(2) [of r0] by (cases "p r0") (auto simp: findable_def)
qed

lemma findable_trans: "findable b \<subseteq> findable c \<Longrightarrow> findable a \<subseteq> findable b \<Longrightarrow> findable a \<subseteq> findable c"
  by (rule subset_trans)

lemma findable_upsert: "findable (fst (upsert_node_stmt nid inp now rows)) \<subseteq> findable rows"
proof -
  have one: "findable (xs @ [fresh_node nid inp now v i]) = findable xs" for xs v i
    by (auto simp: findable_def fresh_node_def)
  show ?thesis
  proof (cases "List.find (\<lambda>r. nd_active r \<and> node_key r = input_key inp) rows")
    case None
    then show ?thesis by (simp add: upsert_node_stmt_def Let_def one)
  next
    case (Some old)
    let ?rows1 = "update_where (\<lambda>r. nd_id r = nd_id old \<and> nd_active r) (\<lambda>r. r\<lparr>nd_active := False\<rparr>) rows"
    have 1: "findable ?rows1 \<subseteq> findable rows" by (rule findable_update) auto
    have "findable (update_where (\<lambda>r. nd_id r = nd_id old) (\<lambda>r. r\<lparr>nd_superseded := s\<rparr>) (?rows1 @ [fresh_node nid inp now v i]))
        \<subseteq> findable (?rows1 @ [fresh_node nid inp now v i])" for s v i
      by (rule findable_update) auto
    note up = this [unfolded one]
    show ?thesis by (simp add: upsert_node_stmt_def Some Let_def subset_trans [OF up 1])
  qed
qed

lemma findable_publish:
  assumes "node_history_inv rows"
  shows "findable (fst (publish_rlm_node_for_subject nid now p l s body hs v m t u rows)) \<subseteq> findable rows"
proof -
  define inp where "inp = \<lparr>nn_buffer = None, nn_project = p, nn_level = l, nn_subject = s, nn_summary = body, nn_hashes = hs,
      nn_model = m, nn_volunteer = v, nn_created_by = Some u, nn_template = t, nn_tokens = 0\<rparr>"
  obtain rows' j where up: "upsert_node_stmt nid inp now rows = (rows', j)" by fastforce
  have new: "nd_buffer r = None" if "r \<in> set rows'" "nd_id r = j" for r
    using upsert_new_row [OF _ up that] assms by (auto simp: history_inv_def fresh_node_def inp_def)
  have "findable (update_where (\<lambda>r. nd_id r = j) (\<lambda>r. r\<lparr>nd_review := Review_Approved, nd_reviewed_by := Some u,
      nd_reviewed_at := Some now\<rparr>) rows') \<subseteq> findable rows'"
    by (rule findable_update) (use new in auto)
  moreover have "findable rows' \<subseteq> findable rows" using findable_upsert [of nid inp now rows] up by simp
  ultimately show ?thesis using up by (auto simp: publish_rlm_node_for_subject_def Let_def inp_def)
qed

lemma findable_stale: "findable (fst (mark_rlm_stale_by_subject b l s rows)) \<subseteq> findable rows"
  by (simp add: mark_rlm_stale_by_subject_def Let_def) (rule findable_update; simp add: stale_row_def)

lemma findable_mark: "findable (mark_rlm_nodes_pending_vector b ids rows) \<subseteq> findable rows"
  by (simp add: mark_rlm_nodes_pending_vector_def) (intro impI findable_update; simp)

lemma findable_cascade: "findable (fst (fst (cascade_rlm now ser de b p l s tol n (nodes, db)))) \<subseteq> findable nodes"
  using findable_stale by (auto simp: cascade_rlm_def Let_def case_prod_beta split: option.split)

lemma findable_decide:
  assumes inv: "node_history_inv (qs_nodes q)" and d: "decide_rlm_quorum cfg env p l s q = (q', d)"
  shows "findable (qs_nodes q') \<subseteq> findable (qs_nodes q)"
  using refl d
proof (cases rule: decide_cases)
  case (rejects vectors)
  then have "qs_nodes q' = qs_nodes q" by (simp add: reject_all_def)
  then show ?thesis by simp
next
  case (accepts vectors)
  from publish_consensus_result [where cfg = cfg and env = env and p = p and l = l and s = s and vectors = vectors and
      pending = "list_pending p ''rlm_node'' (rlm_job_key p l s) (qs_subs q)", OF accepts(4) inv]
  obtain j nodes i nid where pub: "publish_rlm_node_for_subject (qe_node_id env) (qe_now_ms env) p l s
        (sb_text (list_pending p ''rlm_node'' (rlm_job_key p l s) (qs_subs q) ! j)) []
        (Some (sb_by (list_pending p ''rlm_node'' (rlm_job_key p l s) (qs_subs q) ! j))) None None ''quorum'' (qs_nodes q) = (nodes, i, nid)"
    and nodes: "qs_nodes (fst (publish_consensus cfg env p l s (agreeing_set cfg vectors) vectors
        (list_pending p ''rlm_node'' (rlm_job_key p l s) (qs_subs q)) q)) = nodes"
    by force
  have "qs_nodes q' = nodes" using nodes accepts(6) by (metis fst_conv)
  then show ?thesis using findable_publish [OF inv, of "qe_node_id env" "qe_now_ms env" p l s] pub by (metis fst_conv)
qed simp_all

lemma findable_submission:
  assumes "node_history_inv (qs_nodes q)"
  shows "findable (qs_nodes (fst (decide_quorum_submission cfg env job u tok g txt i h q))) \<subseteq> findable (qs_nodes q)"
proof -
  have dec: "findable (qs_nodes (fst (decide_rlm_quorum cfg env p l s (q\<lparr>qs_db := db, qs_subs := subs, qs_audit := a\<rparr>)))) \<subseteq> findable (qs_nodes q)"
    for p l s db subs a
    using findable_decide [of "q\<lparr>qs_db := db, qs_subs := subs, qs_audit := a\<rparr>" cfg env p l s] assms
    by (cases "decide_rlm_quorum cfg env p l s (q\<lparr>qs_db := db, qs_subs := subs, qs_audit := a\<rparr>)") simp
  show ?thesis
    by (auto simp: decide_quorum_submission_def Let_def case_prod_beta dest: subsetD [OF dec])
qed

lemma findable_index: "findable (qs_nodes (index_summary env job txt i q)) \<subseteq> findable (qs_nodes q)"
  using findable_mark by (auto simp: index_summary_def Let_def case_prod_beta split: option.split)

lemma findable_parent: "findable (qs_nodes (cascade_parent env job q)) \<subseteq> findable (qs_nodes q)"
  using findable_cascade by (auto simp: cascade_parent_def Let_def case_prod_beta)

lemma findable_complete:
  "findable (snd (fst (complete_rlm_job_with_node now now' nid i u g inp (db, nodes)))) \<subseteq> findable nodes"
  using findable_upsert [of nid inp now' nodes]
  by (auto simp: complete_rlm_job_with_node_def Let_def case_prod_beta split: option.split)

lemma findable_directly:
  assumes "\<not> is_admin ctx"
  shows "findable (qs_nodes (rv_quorum (fst (complete_directly env ctx req job st)))) \<subseteq> findable (qs_nodes (rv_quorum st))"
proof -
  let ?c = "complete_rlm_job_with_node (re_now env) (re_now env) (qe_node_id (re_quorum env)) (cq_job req) (ac_username ctx)
      (cq_generation req) (submitted_node env ctx req job) (qs_db (rv_quorum st), qs_nodes (rv_quorum st))"
  have c: "findable (snd (fst ?c)) \<subseteq> findable (qs_nodes (rv_quorum st))" by (rule findable_complete)
  have "findable (qs_nodes (cascade_parent env job (index_summary env job t i (rv_quorum st\<lparr>qs_db := fst (fst ?c), qs_nodes := snd (fst ?c)\<rparr>))))
      \<subseteq> findable (qs_nodes (rv_quorum st))" for t i
    using findable_parent [of env job] findable_index [of env job t i "rv_quorum st\<lparr>qs_db := fst (fst ?c), qs_nodes := snd (fst ?c)\<rparr>"] c
    by (auto dest!: subsetD)
  with c show ?thesis using assms
    by (auto simp: complete_directly_def Let_def case_prod_beta split: option.split dest: subsetD)
qed

text \<open>
  C29: What a volunteer submits is never findable by that call alone, on any path: with the quorum it
  is published without a buffer, and without it it waits for a review. Whatever is findable
  after the call, with its text, was so before.
\<close>

theorem rlm_volunteer_never_publishes:
  assumes "authenticate (re_now env) header (rv_auth st) = Inr ctx" and "\<not> is_admin ctx"
    and "node_history_inv (qs_nodes (rv_quorum st))"
    and "handle_complete_rlm_job env header req st = (st', res)"
  shows "findable (qs_nodes (rv_quorum st')) \<subseteq> findable (qs_nodes (rv_quorum st))"
proof -
  let ?st = "\<lambda>b. st\<lparr>rv_buckets := b\<rparr>"
  have direct: "findable (qs_nodes (rv_quorum (fst (complete_directly env ctx req job (?st b))))) \<subseteq> findable (qs_nodes (rv_quorum st))" for job b
    using findable_directly [OF assms(2), of env req job "?st b"] by simp
  have quorum: "findable (qs_nodes (fst (decide_quorum_submission (re_config env) (re_quorum env) job u tok g t i h (rv_quorum st))))
      \<subseteq> findable (qs_nodes (rv_quorum st))" for job u tok g t i h
    by (rule findable_submission [OF assms(3)])
  obtain buckets allowed where rate: "rate_check (re_rate env) (ac_username ctx) (re_secs env) (rv_buckets st) = (buckets, allowed)"
    by (metis prod.exhaust)
  have "st' = fst (handle_complete_rlm_job env header req st)" using assms(4) by simp
  also have "findable (qs_nodes (rv_quorum \<dots>)) \<subseteq> findable (qs_nodes (rv_quorum st))"
    using direct quorum
    by (simp add: handle_complete_rlm_job_def assms(1,2) rate Let_def case_prod_beta split: sum.split option.split submit_reply.split)
  finally show ?thesis .
qed

section \<open>What a rejection and a broken payload do\<close>

text \<open>
  Rejecting a summary whose work is done starts nothing: the job table stays as it is. Only a job
  of the subject that is still pending or claimed would be reset.
\<close>

theorem rlm_reject_not_redone:
  assumes "handle_review_rlm_node env header node_id False st = (st', Inr applied)"
    and "rlm_subject_of node_id (qs_nodes (rv_quorum st)) = Some (project, level, subject)"
    and "\<not> list_ex (\<lambda>r. of_subject project level subject r \<and> live_job r) (jobs (qs_db (rv_quorum st)))"
  shows "applied \<and> qs_db (rv_quorum st') = qs_db (rv_quorum st) \<and>
    (\<forall>r\<in>set (qs_nodes (rv_quorum st')). nd_node_id r = node_id \<longrightarrow> nd_review r = Review_Rejected)"
proof -
  let ?nodes = "qs_nodes (rv_quorum st)"
  let ?new = "\<lambda>who. fst (review_rlm_node (re_now env) node_id False who ?nodes)"
  have key: "rlm_subject_of node_id (fst (review_rlm_node now node_id False who rows)) = rlm_subject_of node_id rows" for now who rows
    by (induction rows) (auto simp: rlm_subject_of_def review_rlm_node_def update_where_def node_key_def)
  have hit: "0 < count_where (\<lambda>r. nd_node_id r = node_id) ?nodes"
  proof -
    from assms(2) obtain r where "List.find (\<lambda>r. nd_node_id r = node_id) ?nodes = Some r" by (auto simp: rlm_subject_of_def)
    from find_SomeD [OF this] have "r \<in> set (filter (\<lambda>r. nd_node_id r = node_id) ?nodes)" by simp
    then show ?thesis unfolding count_where_def by (rule length_pos_if_in_set)
  qed
  have none: "update_where (\<lambda>r. of_subject project level subject r \<and> live_job r) f (jobs (qs_db (rv_quorum st))) = jobs (qs_db (rv_quorum st))" for f
    unfolding update_where_def by (rule map_idI) (use assms(3) in \<open>auto simp: list_ex_iff\<close>)
  have rej: "\<forall>r\<in>set (?new who). nd_node_id r = node_id \<longrightarrow> nd_review r = Review_Rejected" for who
  proof -
    have "list_all (\<lambda>r. nd_node_id r = node_id \<longrightarrow> nd_review r = Review_Rejected) (fst (review_rlm_node (re_now env) node_id False who rows))" for rows
      by (induction rows) (simp_all add: review_rlm_node_def update_where_def)
    then show ?thesis by (simp add: list_all_iff)
  qed
  from assms(1) obtain ctx where ctx: "authenticate (re_now env) header (rv_auth st) = Inr ctx" "is_admin ctx"
    by (cases "authenticate (re_now env) header (rv_auth st)") (auto simp: handle_review_rlm_node_def split: if_splits)
  have snd: "snd (review_rlm_node (re_now env) node_id False (ac_username ctx) ?nodes)" using hit by (simp add: review_rlm_node_def)
  have "st' = st\<lparr>rv_quorum := (rv_quorum st)\<lparr>qs_nodes := ?new (ac_username ctx), qs_db := qs_db (rv_quorum st)\<rparr>\<rparr> \<and> applied"
    using assms(1) ctx snd by (simp add: handle_review_rlm_node_def Let_def case_prod_beta key assms(2) none eq_commute [of _ st'])
  then show ?thesis using rej by simp
qed

lemma add_edges_missing_chunk:
  "(None, Some c) \<in> set es \<Longrightarrow> c \<notin> set chunk_ids \<Longrightarrow> \<not> snd (add_edges parent es nodes chunk_ids edges)"
proof (induction es arbitrary: edges)
  case (Cons x es)
  obtain child chunk where x: "x = (child, chunk)" by (cases x)
  show ?case
  proof (cases "x = (None, Some c)")
    case True
    then show ?thesis using Cons.prems(2) by (simp add: add_rlm_edge_def Let_def edge_conflict_def list_ex_iff)
  next
    case False
    then have es: "(None, Some c) \<in> set es" using Cons.prems(1) by auto
    show ?thesis using Cons.IH [OF es Cons.prems(2)] by (simp add: x split: sum.split)
  qed
qed simp

text \<open>
  A payload that names a chunk which is gone makes the completion fail after its transaction: the
  job is done and the summary stored, but it gets no vector and its parent level no work, and no
  retry of the same lease can succeed.
\<close>

theorem rlm_edge_failure_strands:
  assumes "authenticate (re_now env) header (rv_auth st) = Inr ctx"
    and "rate_check (re_rate env) (ac_username ctx) (re_secs env) (rv_buckets st) = (buckets, True)"
    and "bearer header = Inr token" and "trim (cq_summary req) \<noteq> []"
    and "quorum_size (re_config env) = 1 \<or> is_admin ctx"
    and "rows_wf jb_id (jobs (qs_db (rv_quorum st)))" and "job \<in> set (jobs (qs_db (rv_quorum st)))" and "jb_id job = cq_job req"
    and "jb_status job = Claimed" and "lease_valid (re_now env) (ac_username ctx) (cq_generation req) job"
    and "qe_de (re_quorum env) (jb_payload job) = Some p" and "c \<in> set (pl_chunk_ids p)" and "c \<notin> set (rv_chunk_ids st)"
    and "handle_complete_rlm_job env header req st = (st', res)"
  shows "isl res \<and> qs_vectors (rv_quorum st') = qs_vectors (rv_quorum st) \<and>
    done_row (re_now env) job \<in> set (jobs (qs_db (rv_quorum st'))) \<and>
    length (qs_nodes (rv_quorum st')) = Suc (length (qs_nodes (rv_quorum st))) \<and>
    \<not> snd (complete_rlm_job now (cq_job req) (ac_username ctx) (cq_generation req) (qs_db (rv_quorum st')))"
proof -
  let ?q = "rv_quorum st"
  have job: "get_rlm_job (cq_job req) (qs_db ?q) = Some job"
    unfolding get_rlm_job_def by (rule find_by_id) (use assms(6-8) in auto)
  have claimed: "List.find (\<lambda>r. jb_id r = cq_job req \<and> jb_status r = Claimed) (jobs (qs_db ?q)) = Some job"
    by (rule find_unique) (use assms(6-9) rows_wf_inj [OF assms(6)] in auto)
  let ?inp = "submitted_node env ctx req job"
  obtain nodes i where up: "upsert_node_stmt (qe_node_id (re_quorum env)) ?inp (re_now env) (qs_nodes ?q) = (nodes, i)" by fastforce
  have len: "length nodes = Suc (length (qs_nodes ?q))"
    using up by (auto simp: upsert_node_stmt_def Let_def update_where_def split: option.splits)
  let ?db = "(qs_db ?q)\<lparr>jobs := update_where (\<lambda>r. jb_id r = cq_job req) (done_row (re_now env)) (jobs (qs_db ?q))\<rparr>"
  have c: "complete_rlm_job_with_node (re_now env) (re_now env) (qe_node_id (re_quorum env)) (cq_job req) (ac_username ctx)
      (cq_generation req) ?inp (qs_db ?q, qs_nodes ?q) = ((?db, nodes), Some (i, qe_node_id (re_quorum env)))"
    by (simp add: complete_rlm_job_with_node_def claimed assms(10) up)
  have edges: "\<not> snd (add_edges i (payload_edges p) ns (rv_chunk_ids st) es)" for ns es
    by (rule add_edges_missing_chunk) (use assms(12,13) in \<open>auto simp: payload_edges_def\<close>)
  define nodes2 where "nodes2 = (if is_admin ctx
    then fst (review_rlm_node (re_now env) (qe_node_id (re_quorum env)) True (ac_username ctx) nodes) else nodes)"
  have len2: "length nodes2 = length nodes" by (simp add: nodes2_def review_rlm_node_def update_where_def)
  have "(st', res) = complete_directly env ctx req job (st\<lparr>rv_buckets := buckets\<rparr>)"
    using assms(1-5,14) job by (auto simp: handle_complete_rlm_job_def)
  also have "\<dots> = (st\<lparr>rv_buckets := buckets, rv_quorum := ?q\<lparr>qs_db := ?db, qs_nodes := nodes2\<rparr>,
      rv_edges := fst (add_edges i (payload_edges p) nodes2 (rv_chunk_ids st) (rv_edges st))\<rparr>, Inl (Internal ''failed to add rlm edge''))"
    using edges by (simp add: complete_directly_def c assms(11) Let_def case_prod_beta nodes2_def)
  finally have res: "st' = st\<lparr>rv_buckets := buckets, rv_quorum := ?q\<lparr>qs_db := ?db, qs_nodes := nodes2\<rparr>,
      rv_edges := fst (add_edges i (payload_edges p) nodes2 (rv_chunk_ids st) (rv_edges st))\<rparr>"
    "res = Inl (Internal ''failed to add rlm edge'')" by simp_all
  have "done_row (re_now env) job \<in> set (jobs ?db)"
    using assms(7,8) by (force simp: update_where_def)
  moreover have "List.find (\<lambda>r. jb_id r = cq_job req \<and> jb_status r = Claimed) (jobs ?db) = None"
    by (auto simp: find_None_iff update_where_def done_row_def)
  ultimately show ?thesis by (simp add: res len len2 complete_rlm_job_def)
qed

text \<open>Only an administrator sees summaries that were not approved; nobody sees rejected or retired ones.\<close>

theorem rlm_list_visible:
  assumes "authenticate (re_now env) header (rv_auth st) = Inr ctx"
    and "handle_list_rlm_nodes env header project level pending st = Inr shown"
  shows "\<forall>r\<in>set shown. r \<in> set (qs_nodes (rv_quorum st)) \<and> nd_project r = project \<and> nd_active r \<and>
    nd_review r \<noteq> Review_Rejected \<and> (nd_review r \<noteq> Review_Approved \<longrightarrow> pending \<and> is_admin ctx) \<and>
    (0 < level \<longrightarrow> nd_level r = level)"
  using assms by (auto simp: handle_list_rlm_nodes_def list_rlm_nodes_def split: if_splits)

section \<open>Examples\<close>

definition demo_rlm_ops :: "role \<Rightarrow> auth_op list" where
  "demo_rlm_ops r = [Create_Token 0 ''t1'' ''secret'' \<lparr>nt_username = ''ann'', nt_role = r, nt_created_by = ''cli''\<rparr>,
                     Refresh 1000 ''s1'' ''secret'']"

definition demo_rlm_env :: rlm_server_env where
  "demo_rlm_env =
     \<lparr>re_config = demo_cfg\<lparr>qc_n := 1\<rparr>,
      re_quorum = \<lparr>qe_now_s = 2, qe_now_ms = 2000, qe_node_id = ''n1'', qe_embed_batch = (\<lambda>ts. Some (map demo_vec ts)),
        qe_embed = (\<lambda>t. Some (demo_vec t)), qe_vec_insert = (\<lambda>k v s. s), qe_ser = pl_kind,
        qe_de = (\<lambda>t. if t = ''gone'' then Some \<lparr>pl_chunk_ids = [9], pl_node_ids = [], pl_hashes = [], pl_texts = [],
                       pl_template = template_version, pl_kind = ''file''\<rparr> else None), qe_sign = (\<lambda>token job gen text. token @ text)\<rparr>,
      re_rate = demo_limit, re_secs = 2, re_save = (2000, True)\<rparr>"

definition demo_rlm_header :: header_value where
  "demo_rlm_header = Text_Header ''Bearer s1''"

definition demo_rlm_server :: "role \<Rightarrow> string \<Rightarrow> rlm_server" where
  "demo_rlm_server r payload =
     fst (handle_claim_rlm_job demo_rlm_env demo_rlm_header 0 0
       \<lparr>rv_auth = auth_run rev (demo_rlm_ops r) empty_auth, rv_buckets = (\<lambda>_. None),
        rv_quorum = \<lparr>qs_subs = [], qs_trust = [], qs_db = fst (enqueue_rlm_job 1 \<lparr>nj_buffer = Some 1, nj_project = ''p'', nj_level = 1,
            nj_subject = ''a.rs'', nj_payload = payload, nj_priority = 0, nj_slots = 1\<rparr> [] empty_queue), qs_nodes = [],
          qs_vectors = Some (open_space 2 True None), qs_audit = []\<rparr>,
        rv_edges = [], rv_chunk_ids = []\<rparr>)"

definition demo_complete :: complete_request where
  "demo_complete = \<lparr>cq_job = 1, cq_generation = 0, cq_summary = ''about a'', cq_model = [], cq_template = [], cq_tokens = 0, cq_hmac = []\<rparr>"

definition reply_accepted :: "rlm_server \<times> (rpc_status + complete_reply) \<Rightarrow> bool option" where
  "reply_accepted r = (case snd r of Inl _ \<Rightarrow> None | Inr c \<Rightarrow> Some (cr_accepted c))"

lemma demo_rlm_auth:
  "authenticate (re_now demo_rlm_env) demo_rlm_header (rv_auth (demo_rlm_server Non_Admin [])) = Inr \<lparr>ac_username = ''ann'', ac_role = Non_Admin\<rparr>"
  "authenticate (re_now demo_rlm_env) demo_rlm_header (rv_auth (demo_rlm_server Admin ''gone'')) = Inr \<lparr>ac_username = ''ann'', ac_role = Admin\<rparr>"
  by code_simp+

definition demo_direct :: "role \<Rightarrow> string \<Rightarrow> rlm_server \<times> (rpc_status + complete_reply)" where
  "demo_direct r payload = complete_directly demo_rlm_env \<lparr>ac_username = ''ann'', ac_role = r\<rparr> demo_complete
     (the (get_rlm_job 1 (qs_db (rv_quorum (demo_rlm_server r payload)))))
     (demo_rlm_server r payload\<lparr>rv_buckets := (\<lambda>_. None)(''ann'' \<mapsto> \<lparr>bk_count = 1, bk_start = 2\<rparr>)\<rparr>)"

lemma demo_rate:
  "rate_check (re_rate demo_rlm_env) ''ann'' (re_secs demo_rlm_env) (rv_buckets (demo_rlm_server r payload)) =
     ((\<lambda>_. None)(''ann'' \<mapsto> \<lparr>bk_count = 1, bk_start = 2\<rparr>), True)"
proof -
  have "rv_buckets (demo_rlm_server r payload) = (\<lambda>_. None)"
    by (simp add: demo_rlm_server_def handle_claim_rlm_job_def Let_def case_prod_beta split: sum.split)
  then show ?thesis by (simp add: rate_check_def demo_rlm_env_def demo_limit_def Let_def)
qed

lemma demo_bearer: "bearer demo_rlm_header = Inr ''s1''" "trim (cq_summary demo_complete) \<noteq> []" "quorum_size (re_config demo_rlm_env) = 1"
proof -
  show "bearer demo_rlm_header = Inr ''s1''" "trim (cq_summary demo_complete) \<noteq> []" by code_simp+
  show "quorum_size (re_config demo_rlm_env) = 1" by (simp add: quorum_size_def demo_rlm_env_def)
qed

lemma demo_handle:
  assumes "authenticate (re_now demo_rlm_env) demo_rlm_header (rv_auth (demo_rlm_server r payload)) = Inr \<lparr>ac_username = ''ann'', ac_role = r\<rparr>"
    and "get_rlm_job 1 (qs_db (rv_quorum (demo_rlm_server r payload))) \<noteq> None"
  shows "handle_complete_rlm_job demo_rlm_env demo_rlm_header demo_complete (demo_rlm_server r payload) = demo_direct r payload"
proof -
  have "cq_job demo_complete = 1" by (simp add: demo_complete_def)
  then show ?thesis using assms demo_rate [of r payload] demo_bearer
    by (auto simp: handle_complete_rlm_job_def demo_direct_def split: option.split)
qed

lemma rlm_volunteer_never_publishes_witness:
  "reply_accepted (handle_complete_rlm_job demo_rlm_env demo_rlm_header demo_complete (demo_rlm_server Non_Admin [])) = Some True \<and>
   findable (qs_nodes (rv_quorum (fst (handle_complete_rlm_job demo_rlm_env demo_rlm_header demo_complete (demo_rlm_server Non_Admin []))))) = {}"
proof -
  let ?st = "demo_rlm_server Non_Admin []"
  have nodes: "qs_nodes (rv_quorum ?st) = []" by code_simp
  have "node_history_inv (qs_nodes (rv_quorum ?st))" unfolding nodes by (simp add: history_inv_def rows_wf_def one_live_def)
  from rlm_volunteer_never_publishes [OF demo_rlm_auth(1) _ this prod.collapse [symmetric], of demo_complete]
  have "findable (qs_nodes (rv_quorum (fst (handle_complete_rlm_job demo_rlm_env demo_rlm_header demo_complete ?st)))) \<subseteq> findable []"
    by (simp add: is_admin_def nodes)
  moreover have "reply_accepted (handle_complete_rlm_job demo_rlm_env demo_rlm_header demo_complete ?st) = Some True"
  proof -
    have "get_rlm_job 1 (qs_db (rv_quorum ?st)) \<noteq> None" "reply_accepted (demo_direct Non_Admin []) = Some True" by code_simp+
    then show ?thesis using demo_handle [OF demo_rlm_auth(1)] by simp
  qed
  ultimately show ?thesis by (simp add: findable_def)
qed

text \<open>The work of the first completion is done; its rejection leaves the jobs alone.\<close>

definition demo_completed :: rlm_server where
  "demo_completed = fst (demo_direct Admin [])"

lemma rlm_reject_not_redone_witness:
  "map jb_status (jobs (qs_db (rv_quorum (fst (handle_review_rlm_node demo_rlm_env demo_rlm_header ''n1'' False demo_completed))))) = [Done, Pending] \<and>
   qs_db (rv_quorum (fst (handle_review_rlm_node demo_rlm_env demo_rlm_header ''n1'' False demo_completed))) = qs_db (rv_quorum demo_completed)"
proof -
  let ?r = "handle_review_rlm_node demo_rlm_env demo_rlm_header ''n1'' False demo_completed"
  have "snd ?r = Inr True" by code_simp
  then have r: "?r = (fst ?r, Inr True)" by (metis prod.collapse)
  have s: "rlm_subject_of ''n1'' (qs_nodes (rv_quorum demo_completed)) = Some (''p'', 1, ''a.rs'')" by code_simp
  have "\<not> list_ex (\<lambda>r. of_subject ''p'' 1 ''a.rs'' r \<and> live_job r) (jobs (qs_db (rv_quorum demo_completed)))" by code_simp
  from rlm_reject_not_redone [OF r s this]
  have "qs_db (rv_quorum (fst ?r)) = qs_db (rv_quorum demo_completed)" by blast
  moreover have "map jb_status (jobs (qs_db (rv_quorum demo_completed))) = [Done, Pending]" by code_simp
  ultimately show ?thesis by simp
qed

lemma rlm_edge_failure_strands_witness:
  "isl (snd (handle_complete_rlm_job demo_rlm_env demo_rlm_header demo_complete (demo_rlm_server Admin ''gone''))) \<and>
   length (qs_nodes (rv_quorum (fst (handle_complete_rlm_job demo_rlm_env demo_rlm_header demo_complete (demo_rlm_server Admin ''gone''))))) = 1"
proof -
  let ?st = "demo_rlm_server Admin ''gone''"
  have j: "map (\<lambda>j. (jb_id j, jb_status j, jb_payload j, lease_valid (re_now demo_rlm_env) ''ann'' 0 j)) (jobs (qs_db (rv_quorum ?st))) =
      [(1, Claimed, ''gone'', True)]" by code_simp
  then obtain job where job: "jobs (qs_db (rv_quorum ?st)) = [job]" "jb_id job = 1" "jb_status job = Claimed" "jb_payload job = ''gone''"
    "lease_valid (re_now demo_rlm_env) ''ann'' 0 job" by (auto simp: map_eq_Cons_conv)
  have n: "qs_nodes (rv_quorum ?st) = []" "rv_chunk_ids ?st = []" by code_simp+
  have qe: "qe_de (re_quorum demo_rlm_env) ''gone'' = Some \<lparr>pl_chunk_ids = [9], pl_node_ids = [], pl_hashes = [], pl_texts = [],
                       pl_template = template_version, pl_kind = ''file''\<rparr>" by (simp add: demo_rlm_env_def)
  from rlm_edge_failure_strands [OF demo_rlm_auth(2) _ demo_bearer(1,2) _ _ _ _ _ _ _ _ _ prod.collapse [symmetric], of _ job _ 9]
  show ?thesis using job n demo_rate [of Admin "''gone''"] qe demo_bearer(3) by (simp add: rows_wf_def demo_complete_def)
qed

lemma rlm_list_visible_witness:
  "\<exists>shown. handle_list_rlm_nodes demo_rlm_env demo_rlm_header ''p'' 0 True demo_completed = Inr shown \<and> map nd_node_id shown = [''n1''] \<and>
     list_all (\<lambda>r. nd_project r = ''p'' \<and> nd_active r) shown"
proof -
  have a: "authenticate (re_now demo_rlm_env) demo_rlm_header (rv_auth demo_completed) = Inr \<lparr>ac_username = ''ann'', ac_role = Admin\<rparr>" by code_simp
  have "(case handle_list_rlm_nodes demo_rlm_env demo_rlm_header ''p'' 0 True demo_completed of Inl _ \<Rightarrow> None | Inr s \<Rightarrow> Some (map nd_node_id s)) =
      Some [''n1'']" by code_simp
  then obtain shown where s: "handle_list_rlm_nodes demo_rlm_env demo_rlm_header ''p'' 0 True demo_completed = Inr shown"
    "map nd_node_id shown = [''n1'']" by (auto split: sum.splits)
  from rlm_list_visible [OF a s(1)] show ?thesis using s by (auto simp: list_all_iff)
qed

end
