(* ===== verification/Work_Tables.thy ===== *)
theory Work_Tables
  imports Projects
begin

text \<open>
  The small tables beside the chunks: tasks and findings of sub-agents, patterns, the query
  history, the audit log and the older result cache
  (\<^verbatim>\<open>crates/arags-storage/src/sqlite/\<close> \<open>tasks.rs\<close>, \<open>findings.rs\<close>, \<open>patterns.rs\<close>, \<open>history.rs\<close>,
  \<open>audit.rs\<close>, \<open>cache.rs\<close>; \<^verbatim>\<open>crates/arags-memory/src/history.rs\<close>), and the call that reads the
  history (\<^verbatim>\<open>crates/arags-server/src/grpc/history.rs\<close>). Ids come from \<open>AUTOINCREMENT\<close>; a broken
  foreign key is the only failure of an insert. The locale \<open>time_log\<close> is the contract of a
  listing that shows the newest rows first.
\<close>

section \<open>Tables with a sequence\<close>

record 'r seq_table =
  st_rows :: "'r list"
  st_seq :: row_id

definition empty_table :: "'r seq_table" where
  "empty_table = \<lparr>st_rows = [], st_seq = 0\<rparr>"

definition append_row :: "(row_id \<Rightarrow> 'r) \<Rightarrow> 'r seq_table \<Rightarrow> 'r seq_table" where
  "append_row mk t = \<lparr>st_rows = st_rows t @ [mk (st_seq t + 1)], st_seq = st_seq t + 1\<rparr>"

text \<open>
  \<open>execute\<close> gives the number of rows it changed, which is 1 for an insert; most of the
  inserting functions return that number under the name of an id.
\<close>

definition execute_insert :: "(row_id \<Rightarrow> 'r) \<Rightarrow> 'r seq_table \<Rightarrow> 'r seq_table \<times> row_id" where
  "execute_insert mk t = (append_row mk t, 1)"

definition delete_rows :: "('r \<Rightarrow> bool) \<Rightarrow> 'r seq_table \<Rightarrow> 'r seq_table \<times> nat" where
  "delete_rows p t = (t\<lparr>st_rows := filter (\<lambda>r. \<not> p r) (st_rows t)\<rparr>, count_where p (st_rows t))"

definition update_rows :: "('r \<Rightarrow> bool) \<Rightarrow> ('r \<Rightarrow> 'r) \<Rightarrow> 'r seq_table \<Rightarrow> 'r seq_table" where
  "update_rows p f t = t\<lparr>st_rows := update_where p f (st_rows t)\<rparr>"

text \<open>\<open>LIMIT\<close> with a negative number is no limit.\<close>

definition sql_limit :: "int \<Rightarrow> 'r list \<Rightarrow> 'r list" where
  "sql_limit n rows = (if n < 0 then rows else take (nat n) rows)"

definition known_chunk :: "row_id option \<Rightarrow> chunk list \<Rightarrow> bool" where
  "known_chunk i chunks = (case i of None \<Rightarrow> True | Some i \<Rightarrow> list_ex (\<lambda>c. ck_id c = i) chunks)"

definition known_buffer :: "row_id option \<Rightarrow> buffer list \<Rightarrow> bool" where
  "known_buffer i bufs = (case i of None \<Rightarrow> True | Some i \<Rightarrow> list_ex (\<lambda>b. bf_id b = i) bufs)"

section \<open>Tasks and findings\<close>

record task_row =
  tsk_id :: row_id
  tsk_buffer :: row_id
  tsk_chunk :: "row_id option"
  tsk_status :: string
  tsk_assigned :: "string option"
  tsk_payload :: "string option"
  tsk_result :: "string option"
  tsk_created :: seconds
  tsk_started :: "seconds option"
  tsk_finished :: "seconds option"

definition insert_task ::
  "seconds \<Rightarrow> row_id \<Rightarrow> row_id option \<Rightarrow> string option \<Rightarrow> chunk list \<Rightarrow> task_row seq_table \<Rightarrow> task_row seq_table \<times> row_id option" where
  "insert_task now buffer_id chunk_id payload chunks t =
     (if \<not> known_chunk chunk_id chunks then (t, None)
      else let (t', n) = execute_insert (\<lambda>i. \<lparr>tsk_id = i, tsk_buffer = buffer_id, tsk_chunk = chunk_id, tsk_status = ''pending'',
                 tsk_assigned = None, tsk_payload = payload, tsk_result = None, tsk_created = now, tsk_started = None,
                 tsk_finished = None\<rparr>) t
           in (t', Some n))"

definition get_pending_tasks :: "row_id \<Rightarrow> int \<Rightarrow> task_row list \<Rightarrow> task_row list" where
  "get_pending_tasks buffer_id limit rows =
     sql_limit limit (sort_key tsk_id (filter (\<lambda>r. tsk_buffer r = buffer_id \<and> tsk_status r = ''pending'') rows))"

definition update_task_status ::
  "seconds \<Rightarrow> row_id \<Rightarrow> string \<Rightarrow> string option \<Rightarrow> task_row seq_table \<Rightarrow> task_row seq_table" where
  "update_task_status now task_id status assigned_to =
     update_rows (\<lambda>r. tsk_id r = task_id)
       (\<lambda>r. r\<lparr>tsk_status := status, tsk_assigned := assigned_to,
              tsk_started := (if status = ''running'' then Some now else tsk_started r)\<rparr>)"

definition complete_task :: "seconds \<Rightarrow> row_id \<Rightarrow> string \<Rightarrow> task_row seq_table \<Rightarrow> task_row seq_table" where
  "complete_task now task_id res =
     update_rows (\<lambda>r. tsk_id r = task_id)
       (\<lambda>r. r\<lparr>tsk_status := ''done'', tsk_result := Some res, tsk_finished := Some now\<rparr>)"

record finding_row =
  fnd_id :: row_id
  fnd_task :: row_id
  fnd_chunk :: "row_id option"
  fnd_type :: "string option"
  fnd_content :: string
  fnd_confidence :: "real option"
  fnd_created :: seconds

definition insert_finding ::
  "seconds \<Rightarrow> row_id \<Rightarrow> row_id option \<Rightarrow> string option \<Rightarrow> string \<Rightarrow> real option \<Rightarrow> chunk list \<Rightarrow> task_row list \<Rightarrow>
   finding_row seq_table \<Rightarrow> finding_row seq_table \<times> row_id option" where
  "insert_finding now task_id chunk_id finding_type content confidence chunks tasks t =
     (if \<not> known_chunk chunk_id chunks \<or> \<not> list_ex (\<lambda>r. tsk_id r = task_id) tasks then (t, None)
      else let (t', n) = execute_insert (\<lambda>i. \<lparr>fnd_id = i, fnd_task = task_id, fnd_chunk = chunk_id, fnd_type = finding_type,
                 fnd_content = content, fnd_confidence = confidence, fnd_created = now\<rparr>) t
           in (t', Some n))"

definition get_findings_for_task :: "row_id \<Rightarrow> finding_row list \<Rightarrow> finding_row list" where
  "get_findings_for_task task_id rows = sort_key fnd_id (filter (\<lambda>r. fnd_task r = task_id) rows)"

section \<open>Patterns\<close>

record pattern_row =
  pat_id :: row_id
  pat_buffer :: "row_id option"
  pat_type :: "string option"
  pat_name :: string
  pat_description :: "string option"
  pat_examples :: "string option"
  pat_confidence :: "real option"
  pat_created :: seconds

definition insert_pattern ::
  "seconds \<Rightarrow> row_id option \<Rightarrow> string option \<Rightarrow> string \<Rightarrow> string option \<Rightarrow> string option \<Rightarrow> real option \<Rightarrow> buffer list \<Rightarrow>
   pattern_row seq_table \<Rightarrow> pattern_row seq_table \<times> row_id option" where
  "insert_pattern now buffer_id pattern_type name description examples confidence bufs t =
     (if \<not> known_buffer buffer_id bufs then (t, None)
      else let (t', n) = execute_insert (\<lambda>i. \<lparr>pat_id = i, pat_buffer = buffer_id, pat_type = pattern_type, pat_name = name,
                 pat_description = description, pat_examples = examples, pat_confidence = confidence, pat_created = now\<rparr>) t
           in (t', Some n))"

definition get_patterns :: "row_id option \<Rightarrow> pattern_row list \<Rightarrow> pattern_row list" where
  "get_patterns buffer_id rows =
     order_by (\<lambda>a b. text_le (pat_name a) (pat_name b))
       (case buffer_id of Some b \<Rightarrow> filter (\<lambda>r. pat_buffer r = Some b) rows | None \<Rightarrow> rows)"

section \<open>Query history\<close>

record history_row =
  hst_id :: row_id
  hst_buffer :: "row_id option"
  hst_query :: string
  hst_type :: "string option"
  hst_results :: "int option"
  hst_duration :: "int option"
  hst_used_by :: "string option"
  hst_user :: "string option"
  hst_created :: seconds

definition record_with_user ::
  "seconds \<Rightarrow> row_id option \<Rightarrow> string \<Rightarrow> string option \<Rightarrow> int option \<Rightarrow> int option \<Rightarrow> string option \<Rightarrow> string \<Rightarrow> buffer list \<Rightarrow>
   history_row seq_table \<Rightarrow> history_row seq_table \<times> row_id option" where
  "record_with_user now buffer_id query query_type results_count duration_ms used_by user bufs t =
     (if \<not> known_buffer buffer_id bufs then (t, None)
      else let (t', n) = execute_insert (\<lambda>i. \<lparr>hst_id = i, hst_buffer = buffer_id, hst_query = query, hst_type = query_type,
                 hst_results = results_count, hst_duration = duration_ms, hst_used_by = used_by,
                 hst_user = (if user = [] then None else Some user), hst_created = now\<rparr>) t
           in (t', Some n))"

definition record_plain ::
  "seconds \<Rightarrow> row_id option \<Rightarrow> string \<Rightarrow> string option \<Rightarrow> int option \<Rightarrow> int option \<Rightarrow> string option \<Rightarrow> buffer list \<Rightarrow>
   history_row seq_table \<Rightarrow> history_row seq_table \<times> row_id option" where
  "record_plain now buffer_id query query_type results_count duration_ms used_by =
     record_with_user now buffer_id query query_type results_count duration_ms used_by []"

text \<open>The insert of the storage layer leaves the user out, which is the same row.\<close>

definition insert_history ::
  "seconds \<Rightarrow> row_id option \<Rightarrow> string \<Rightarrow> string option \<Rightarrow> int option \<Rightarrow> int option \<Rightarrow> string option \<Rightarrow> buffer list \<Rightarrow>
   history_row seq_table \<Rightarrow> history_row seq_table \<times> row_id option" where
  "insert_history now buffer_id query query_type results_count duration_ms used_by bufs t =
     (if \<not> known_buffer buffer_id bufs then (t, None)
      else let (t', n) = execute_insert (\<lambda>i. \<lparr>hst_id = i, hst_buffer = buffer_id, hst_query = query, hst_type = query_type,
                 hst_results = results_count, hst_duration = duration_ms, hst_used_by = used_by, hst_user = None, hst_created = now\<rparr>) t
           in (t', Some n))"

datatype user_scope = Scope_Buffer row_id | Scope_Name string

definition in_scope :: "user_scope option \<Rightarrow> history_row \<Rightarrow> bool" where
  "in_scope scope r =
     (case scope of
        Some (Scope_Buffer b) \<Rightarrow> hst_buffer r = Some b
      | Some (Scope_Name u) \<Rightarrow> hst_user r = Some u
      | None \<Rightarrow> True)"

text \<open>\<open>ORDER BY created_at DESC LIMIT\<close>.\<close>

definition recent_opt_user_internal :: "user_scope option \<Rightarrow> int \<Rightarrow> history_row list \<Rightarrow> history_row list" where
  "recent_opt_user_internal scope limit rows = sql_limit limit (sort_key (\<lambda>r. - hst_created r) (filter (in_scope scope) rows))"

definition recent_queries :: "row_id option \<Rightarrow> int \<Rightarrow> history_row list \<Rightarrow> history_row list" where
  "recent_queries buffer_id = recent_opt_user_internal (map_option Scope_Buffer buffer_id)"

definition recent_opt_user :: "string option \<Rightarrow> int \<Rightarrow> history_row list \<Rightarrow> history_row list" where
  "recent_opt_user user =
     recent_opt_user_internal (case user of Some u \<Rightarrow> if u = [] then None else Some (Scope_Name u) | None \<Rightarrow> None)"

definition get_history :: "row_id option \<Rightarrow> int \<Rightarrow> history_row list \<Rightarrow> history_row list" where
  "get_history buffer_id limit rows =
     sql_limit limit (sort_key (\<lambda>r. - hst_created r)
       (case buffer_id of Some b \<Rightarrow> filter (\<lambda>r. hst_buffer r = Some b) rows | None \<Rightarrow> rows))"

definition count_history :: "row_id option \<Rightarrow> history_row list \<Rightarrow> nat" where
  "count_history buffer_id rows =
     (case buffer_id of Some b \<Rightarrow> count_where (\<lambda>r. hst_buffer r = Some b) rows | None \<Rightarrow> length rows)"

definition purge_history_before :: "seconds \<Rightarrow> history_row seq_table \<Rightarrow> history_row seq_table \<times> nat" where
  "purge_history_before cutoff = delete_rows (\<lambda>r. hst_created r < cutoff)"

text \<open>The server records a query under the caller; a project it does not know gives no buffer.\<close>

definition record_query_history ::
  "seconds \<Rightarrow> auth_context \<Rightarrow> string \<Rightarrow> string \<Rightarrow> string \<Rightarrow> buffer list \<Rightarrow> history_row seq_table \<Rightarrow> history_row seq_table" where
  "record_query_history now ctx project query_type query bufs t =
     fst (record_with_user now (buffer_id_for_project project bufs) query (Some query_type) None None None (ac_username ctx) bufs t)"

record history_entry =
  he_id :: row_id
  he_user :: string
  he_question :: string
  he_created :: string
  he_cache :: string

definition history_entry_of :: "history_row \<Rightarrow> history_entry" where
  "history_entry_of r =
     \<lparr>he_id = hst_id r, he_user = (case hst_user r of Some u \<Rightarrow> u | None \<Rightarrow> []), he_question = hst_query r,
      he_created = show_int (hst_created r), he_cache = []\<rparr>"

definition handle_get_history ::
  "millis \<Rightarrow> header_value \<Rightarrow> string \<Rightarrow> int \<Rightarrow> auth_db \<Rightarrow> history_row list \<Rightarrow> rpc_status + history_entry list" where
  "handle_get_history now header user limit auth rows =
     (case authenticate now header auth of
        Inl e \<Rightarrow> Inl e
      | Inr ctx \<Rightarrow>
          let user_filter = (if is_admin ctx then (if trim user = [] then None else Some (trim user)) else Some (ac_username ctx));
              limit = (if 0 < limit then limit else 50)
          in Inr (map history_entry_of (recent_opt_user user_filter limit rows)))"

section \<open>Audit log\<close>

record audit_row =
  aud_id :: row_id
  aud_project :: string
  aud_username :: string
  aud_action :: string
  aud_target :: "string option"
  aud_detail :: "string option"
  aud_created :: seconds

text \<open>This insert does return \<open>last_insert_rowid\<close>.\<close>

definition write_audit_log ::
  "seconds \<Rightarrow> string \<Rightarrow> string \<Rightarrow> string \<Rightarrow> string option \<Rightarrow> string option \<Rightarrow> audit_row seq_table \<Rightarrow> audit_row seq_table \<times> row_id" where
  "write_audit_log now project username action target detail t =
     (let t' = append_row (\<lambda>i. \<lparr>aud_id = i, aud_project = project, aud_username = username, aud_action = action,
                aud_target = target, aud_detail = detail, aud_created = now\<rparr>) t
      in (t', st_seq t'))"

definition audit_matches :: "string \<times> string \<Rightarrow> audit_row \<Rightarrow> bool" where
  "audit_matches = (\<lambda>(project, username) r.
     (project = [] \<or> aud_project r = project) \<and> (username = [] \<or> aud_username r = username))"

definition list_audit_log :: "string \<Rightarrow> string \<Rightarrow> nat \<Rightarrow> audit_row list \<Rightarrow> audit_row list" where
  "list_audit_log project username limit rows =
     sql_limit (max 1 (min (int limit) i64_max))
       (sort_key (\<lambda>r. (- aud_created r, - aud_id r)) (filter (audit_matches (project, username)) rows))"

section \<open>Result cache\<close>

record cached_result =
  cr_hash :: string
  cr_project :: string
  cr_result :: string
  cr_created :: seconds
  cr_hits :: int

definition get_cached_result :: "string \<Rightarrow> string \<Rightarrow> cached_result list \<Rightarrow> string option" where
  "get_cached_result task_hash project rows =
     map_option cr_result (List.find (\<lambda>r. cr_hash r = task_hash \<and> cr_project r = project) rows)"

definition put_cached_result :: "seconds \<Rightarrow> string \<Rightarrow> string \<Rightarrow> string \<Rightarrow> cached_result list \<Rightarrow> cached_result list" where
  "put_cached_result now task_hash project res rows =
     (if list_ex (\<lambda>r. cr_hash r = task_hash \<and> cr_project r = project) rows
      then update_where (\<lambda>r. cr_hash r = task_hash \<and> cr_project r = project)
             (\<lambda>r. r\<lparr>cr_result := res, cr_hits := cr_hits r + 1\<rparr>) rows
      else rows @ [\<lparr>cr_hash = task_hash, cr_project = project, cr_result = res, cr_created = now, cr_hits = 1\<rparr>])"

definition invalidate_project_cache :: "string \<Rightarrow> cached_result list \<Rightarrow> cached_result list \<times> nat" where
  "invalidate_project_cache project rows =
     (filter (\<lambda>r. cr_project r \<noteq> project) rows, count_where (\<lambda>r. cr_project r = project) rows)"

definition invalidate_cache :: "string option \<Rightarrow> cached_result list \<Rightarrow> cached_result list \<times> nat" where
  "invalidate_cache project rows =
     (case project of Some p \<Rightarrow> invalidate_project_cache p rows | None \<Rightarrow> ([], length rows))"

section \<open>The tables stay well-formed\<close>

definition table_ok :: "('r \<Rightarrow> row_id) \<Rightarrow> 'r seq_table \<Rightarrow> bool" where
  "table_ok rid t \<longleftrightarrow> rows_wf rid (st_rows t) \<and> (\<forall>r\<in>set (st_rows t). rid r \<le> st_seq t) \<and> 0 \<le> st_seq t"

lemma table_ok_empty [simp]: "table_ok rid empty_table"
  by (simp add: table_ok_def empty_table_def)

lemma table_ok_append:
  assumes "table_ok rid t" and "\<And>i. rid (mk i) = i"
  shows "table_ok rid (append_row mk t)"
  using assms by (force simp: table_ok_def append_row_def rows_wf_def)

lemma table_ok_delete [simp]: "table_ok rid t \<Longrightarrow> table_ok rid (fst (delete_rows p t))"
  by (auto simp: table_ok_def delete_rows_def rows_wf_filter)

lemma table_ok_update:
  assumes "table_ok rid t" and "\<And>r. rid (f r) = rid r"
  shows "table_ok rid (update_rows p f t)"
  using assms by (auto simp: table_ok_def update_rows_def rows_wf_update_where in_set_update_where)

lemma inserts_ok:
  "table_ok tsk_id tasks \<Longrightarrow> table_ok tsk_id (fst (insert_task now b c payload chunks tasks))"
  "table_ok fnd_id findings \<Longrightarrow> table_ok fnd_id (fst (insert_finding now i c ft txt conf chunks rows findings))"
  "table_ok pat_id patterns \<Longrightarrow> table_ok pat_id (fst (insert_pattern now ob pt name d ex conf bufs patterns))"
  "table_ok hst_id history \<Longrightarrow> table_ok hst_id (fst (record_with_user now ob q qt rc ms ub u bufs history))"
  "table_ok aud_id audit \<Longrightarrow> table_ok aud_id (fst (write_audit_log now p u a tg d audit))"
  by (simp_all add: insert_task_def insert_finding_def insert_pattern_def record_with_user_def write_audit_log_def
      execute_insert_def table_ok_append Let_def)

lemma updates_ok:
  "table_ok tsk_id tasks \<Longrightarrow> table_ok tsk_id (update_task_status now i s a tasks)"
  "table_ok tsk_id tasks \<Longrightarrow> table_ok tsk_id (complete_task now i r tasks)"
  "table_ok hst_id history \<Longrightarrow> table_ok hst_id (fst (purge_history_before cutoff history))"
  by (simp_all add: update_task_status_def complete_task_def purge_history_before_def table_ok_update)

section \<open>A log read newest first\<close>

text \<open>
  The contract of a listing with a query \<open>q\<close> and a positive limit: the first rows of all that
  match, ordered by falling time.
\<close>

locale time_log =
  fixes created :: "'r \<Rightarrow> seconds" and matches :: "'q \<Rightarrow> 'r \<Rightarrow> bool" and recent :: "'q \<Rightarrow> nat \<Rightarrow> 'r list \<Rightarrow> 'r list"
  assumes shown: "0 < n \<Longrightarrow> int n \<le> i64_max \<Longrightarrow> \<exists>listing. recent q n rows = take n listing \<and>
    set listing = {r \<in> set rows. matches q r} \<and> sorted_wrt (\<lambda>a b. created b \<le> created a) listing"
begin

lemma recent_matches:
  assumes "0 < n" "int n \<le> i64_max" and "r \<in> set (recent q n rows)"
  shows "r \<in> set rows \<and> matches q r"
proof -
  obtain listing where "recent q n rows = take n listing" "set listing = {r \<in> set rows. matches q r}"
    using shown [OF assms(1,2)] by blast
  then have "set (recent q n rows) \<subseteq> {r \<in> set rows. matches q r}" by (metis set_take_subset)
  then show ?thesis using assms(3) by blast
qed

lemma recent_bound: "0 < n \<Longrightarrow> int n \<le> i64_max \<Longrightarrow> length (recent q n rows) \<le> n"
  using shown [of n q rows] by auto

lemma recent_newest:
  assumes n: "0 < n" "int n \<le> i64_max" and r: "r \<in> set rows" "matches q r" "r \<notin> set (recent q n rows)"
  shows "length (recent q n rows) = n \<and> (\<forall>s\<in>set (recent q n rows). created r \<le> created s)"
proof -
  obtain listing where all: "recent q n rows = take n listing" "set listing = {r \<in> set rows. matches q r}"
    "sorted_wrt (\<lambda>a b. created b \<le> created a) listing"
    using shown [OF n, of q rows] by blast
  have "r \<in> set (drop n listing)"
    using r all by (metis (mono_tags, lifting) Un_iff append_take_drop_id mem_Collect_eq set_append)
  moreover have "\<forall>s\<in>set (take n listing). \<forall>t\<in>set (drop n listing). created t \<le> created s"
    using all(3) by (metis append_take_drop_id sorted_wrt_append)
  moreover have "n < length listing" using \<open>r \<in> set (drop n listing)\<close> by (metis drop_all empty_iff list.set(1) not_le)
  ultimately show ?thesis using all(1) by auto
qed

end

lemma sorted_newest: "sorted_wrt (\<lambda>a b. f b \<le> f a) (sort_key (\<lambda>r. - f r :: int) rows)"
proof -
  have "sorted (map (\<lambda>r. - f r) (sort_key (\<lambda>r. - f r) rows))" by (rule sorted_sort_key)
  then show ?thesis unfolding sorted_map by (rule sorted_wrt_mono_rel [rotated]) auto
qed

lemma sorted_newest_id: "sorted_wrt (\<lambda>a b. f b \<le> f a) (sort_key (\<lambda>r. (- f r :: int, - g r :: int)) rows)"
proof -
  have "sorted (map (\<lambda>r. (- f r, - g r)) (sort_key (\<lambda>r. (- f r, - g r)) rows))" by (rule sorted_sort_key)
  then show ?thesis unfolding sorted_map by (rule sorted_wrt_mono_rel [rotated]) (auto simp: less_eq_prod_def)
qed

interpretation history_log: time_log hst_created in_scope "\<lambda>scope n. recent_opt_user_internal scope (int n)"
proof
  fix n :: nat and q rows
  let ?all = "sort_key (\<lambda>r. - hst_created r) (filter (in_scope q) rows)"
  have "recent_opt_user_internal q (int n) rows = take n ?all" by (simp add: recent_opt_user_internal_def sql_limit_def)
  then show "\<exists>listing. recent_opt_user_internal q (int n) rows = take n listing \<and>
      set listing = {r \<in> set rows. in_scope q r} \<and> sorted_wrt (\<lambda>a b. hst_created b \<le> hst_created a) listing"
    by (intro exI [of _ ?all]) (simp add: sorted_newest)
qed

interpretation audit_log: time_log aud_created audit_matches "\<lambda>q. list_audit_log (fst q) (snd q)"
proof
  fix n :: nat and q rows
  assume n: "0 < n" "int n \<le> i64_max"
  let ?all = "sort_key (\<lambda>r. (- aud_created r, - aud_id r)) (filter (audit_matches (fst q, snd q)) rows)"
  have "max 1 (min (int n) i64_max) = int n" using n by simp
  then have "list_audit_log (fst q) (snd q) n rows = take n ?all" by (simp add: list_audit_log_def sql_limit_def)
  then show "\<exists>listing. list_audit_log (fst q) (snd q) n rows = take n listing \<and>
      set listing = {r \<in> set rows. audit_matches q r} \<and> sorted_wrt (\<lambda>a b. aud_created b \<le> aud_created a) listing"
    by (intro exI [of _ ?all]) (simp add: sorted_newest_id)
qed

section \<open>Properties\<close>

text \<open>
  A caller without the administrator role is shown only queries recorded under that name,
  at most as many as asked for (50 when no number is given), and none that is left out is
  newer than one that is shown.
\<close>

theorem history_private:
  assumes "authenticate now header auth = Inr ctx" and "\<not> is_admin ctx" and "ac_username ctx \<noteq> []"
    and "limit \<le> i64_max"
  shows "\<exists>found. handle_get_history now header user limit auth rows = Inr (map history_entry_of found) \<and>
    (\<forall>r\<in>set found. r \<in> set rows \<and> hst_user r = Some (ac_username ctx)) \<and>
    length found \<le> (if 0 < limit then nat limit else 50) \<and>
    (\<forall>r\<in>set rows. hst_user r = Some (ac_username ctx) \<longrightarrow> r \<notin> set found \<longrightarrow> (\<forall>s\<in>set found. hst_created r \<le> hst_created s))"
proof -
  let ?n = "if 0 < limit then nat limit else 50" and ?q = "Some (Scope_Name (ac_username ctx))"
  let ?found = "recent_opt_user_internal ?q (int ?n) rows"
  have n: "0 < ?n" "int ?n \<le> i64_max" using assms(4) by (auto simp: i64_max_def)
  have eq: "handle_get_history now header user limit auth rows = Inr (map history_entry_of ?found)"
    using assms by (auto simp: handle_get_history_def recent_opt_user_def Let_def)
  have in_q: "in_scope ?q r \<longleftrightarrow> hst_user r = Some (ac_username ctx)" for r by (simp add: in_scope_def)
  note facts = history_log.recent_matches [OF n, of _ ?q rows, unfolded in_q] history_log.recent_bound [OF n, of ?q rows]
    history_log.recent_newest [OF n, of _ rows ?q, unfolded in_q]
  show ?thesis
    by (rule exI [of _ ?found]) (intro conjI ballI impI eq; use facts in blast)
qed

text \<open>An account with an empty name passes as an administrator here: no filter is applied.\<close>

lemma history_empty_name:
  assumes "authenticate now header auth = Inr ctx" and "\<not> is_admin ctx" and "ac_username ctx = []" and "0 < limit"
  shows "handle_get_history now header user limit auth rows = Inr (map history_entry_of (recent_opt_user_internal None limit rows))"
  using assms by (simp add: handle_get_history_def recent_opt_user_def)

text \<open>
  Whatever the table holds, the number returned for a new task is 1. Completing the second
  task by that number completes the first one, and leaves the second pending for ever.
\<close>

theorem task_id_is_row_count:
  assumes "insert_task t1 b None p1 chunks empty_table = (tab1, Some i1)"
    and "insert_task t2 b None p2 chunks tab1 = (tab2, Some i2)"
  shows "i1 = i2 \<and> map tsk_id (st_rows tab2) = [1, 2] \<and>
    map tsk_id (get_pending_tasks b (- 1) (st_rows (complete_task t3 i2 r tab2))) = [2]"
  using assms
  by (auto simp: insert_task_def known_chunk_def execute_insert_def append_row_def empty_table_def complete_task_def
      update_rows_def update_where_def get_pending_tasks_def sql_limit_def)

lemma task_id_is_row_count_witness:
  "map tsk_id (get_pending_tasks 1 (- 1) (st_rows (complete_task 3 1 ''r''
     (fst (insert_task 2 1 None None [] (fst (insert_task 1 1 None None [] empty_table))))))) = [2]"
  using task_id_is_row_count [of 1 1 None "[]" "fst (insert_task 1 1 None None [] empty_table)" 1 2 None
      "fst (insert_task 2 1 None None [] (fst (insert_task 1 1 None None [] empty_table)))" 1 3 "''r''"]
  by (simp add: insert_task_def known_chunk_def execute_insert_def)

text \<open>A cached result is found again until its project is invalidated, and other keys keep theirs.\<close>

theorem result_cache_lookup:
  "get_cached_result h p (put_cached_result now h p res rows) = Some res"
  "(h', p') \<noteq> (h, p) \<Longrightarrow> get_cached_result h' p' (put_cached_result now h p res rows) = get_cached_result h' p' rows"
  "get_cached_result h p (fst (invalidate_cache (Some p) rows)) = None"
  "p' \<noteq> p \<Longrightarrow> get_cached_result h p' (fst (invalidate_cache (Some p) rows)) = get_cached_result h p' rows"
proof -
  let ?p = "\<lambda>h p r. cr_hash r = h \<and> cr_project r = p" and ?f = "\<lambda>r. r\<lparr>cr_result := res, cr_hits := cr_hits r + 1\<rparr>"
  have upd: "List.find (?p h' p') (update_where (?p h p) ?f rows) =
      map_option (\<lambda>r. if (h', p') = (h, p) then ?f r else r) (List.find (?p h' p') rows)" for h' p'
    by (induction rows) (auto simp: update_where_def)
  show "get_cached_result h p (put_cached_result now h p res rows) = Some res"
  proof (cases "list_ex (?p h p) rows")
    case True
    then have "List.find (?p h p) rows \<noteq> None" by (auto simp: list_ex_iff find_None_iff)
    then show ?thesis using True upd [of h p] by (auto simp: get_cached_result_def put_cached_result_def)
  next
    case False
    then have "List.find (?p h p) rows = None" by (auto simp: list_ex_iff find_None_iff)
    then show ?thesis using False by (simp add: get_cached_result_def put_cached_result_def find_append)
  qed
  show "(h', p') \<noteq> (h, p) \<Longrightarrow> get_cached_result h' p' (put_cached_result now h p res rows) = get_cached_result h' p' rows"
    by (auto simp: get_cached_result_def put_cached_result_def upd find_append split: option.split)
  show "get_cached_result h p (fst (invalidate_cache (Some p) rows)) = None"
    by (auto simp: get_cached_result_def invalidate_cache_def invalidate_project_cache_def find_None_iff)
  show "p' \<noteq> p \<Longrightarrow> get_cached_result h p' (fst (invalidate_cache (Some p) rows)) = get_cached_result h p' rows"
    unfolding get_cached_result_def invalidate_cache_def invalidate_project_cache_def
    by (simp, induction rows) auto
qed

end
