(* ===== verification/Maintenance.thy ===== *)
theory Maintenance
  imports Work_Tables Rank_Fusion
begin

text \<open>
  Memory maintenance (\<^verbatim>\<open>crates/arags-server/src/maintenance.rs\<close>) on the engine of
  \<^verbatim>\<open>crates/arags-memory/src/consolidation.rs\<close>: removing chunks with equal hashes and patterns
  of low confidence, then removing chunks whose salience fell below a floor. A deletion that a
  foreign key of the tasks or findings forbids is the failure of the pass; what was deleted
  before it stays deleted. Lemmas: what exactly survives a pass, that a dry run reports it, and
  that every operation keeps the tables well typed.
\<close>

section \<open>State\<close>

record memory_db =
  my_buffers :: buffer_db
  my_chunks :: chunk_db
  my_tasks :: "task_row seq_table"
  my_findings :: "finding_row seq_table"
  my_patterns :: "pattern_row seq_table"
  my_vectors :: "vector_store option"

record maintenance_report =
  mr_duplicates :: nat
  mr_patterns :: nat
  mr_decayed :: nat
  mr_kept :: nat

definition empty_report :: maintenance_report where
  "empty_report = \<lparr>mr_duplicates = 0, mr_patterns = 0, mr_decayed = 0, mr_kept = 0\<rparr>"

definition merge_report :: "maintenance_report \<Rightarrow> maintenance_report \<Rightarrow> maintenance_report" where
  "merge_report a b =
     \<lparr>mr_duplicates = mr_duplicates a + mr_duplicates b, mr_patterns = mr_patterns a + mr_patterns b,
      mr_decayed = mr_decayed a + mr_decayed b, mr_kept = mr_kept a + mr_kept b\<rparr>"

section \<open>Consolidation\<close>

record consolidate_options =
  op_deduplicate :: bool
  op_min_confidence :: real
  op_dry_run :: bool

definition default_consolidate :: consolidate_options where
  "default_consolidate = \<lparr>op_deduplicate = True, op_min_confidence = 3/10, op_dry_run = False\<rparr>"

text \<open>The hashes a buffer has more than once, retired revisions counted. Their order has no effect.\<close>

definition hash_count :: "row_id \<Rightarrow> string \<Rightarrow> chunk list \<Rightarrow> nat" where
  "hash_count b h rows = count_where (\<lambda>c. ck_buffer c = b \<and> ck_hash c = h) rows"

definition duplicate_hashes :: "row_id \<Rightarrow> chunk list \<Rightarrow> string list" where
  "duplicate_hashes b rows =
     filter (\<lambda>h. 1 < hash_count b h rows) (remdups (map ck_hash (filter (\<lambda>c. ck_buffer c = b) rows)))"

text \<open>\<open>ORDER BY id DESC LIMIT -1 OFFSET 1\<close>: all but the row with the greatest id.\<close>

definition dup_ids :: "row_id \<Rightarrow> string \<Rightarrow> chunk list \<Rightarrow> row_id list" where
  "dup_ids b h rows =
     drop 1 (sort_key (\<lambda>i. - i) (map ck_id (filter (\<lambda>c. ck_buffer c = b \<and> ck_hash c = h) rows)))"

text \<open>
  The four deletions for one hash: findings, tasks, texts, chunks. Entities cascade with the
  chunk; the search index is not touched.
\<close>

definition points_into :: "row_id set \<Rightarrow> row_id option \<Rightarrow> bool" where
  "points_into ids i = (case i of None \<Rightarrow> False | Some i \<Rightarrow> i \<in> ids)"

definition delete_with_dependents :: "row_id set \<Rightarrow> memory_db \<Rightarrow> memory_db" where
  "delete_with_dependents ids db =
     (let task_ids = set (map tsk_id (filter (\<lambda>t. points_into ids (tsk_chunk t)) (st_rows (my_tasks db))));
          chunks = my_chunks db
      in db\<lparr>my_findings := fst (delete_rows (\<lambda>f. points_into ids (fnd_chunk f) \<or> fnd_task f \<in> task_ids) (my_findings db)),
            my_tasks := fst (delete_rows (\<lambda>t. points_into ids (tsk_chunk t)) (my_tasks db)),
            my_chunks := chunks\<lparr>cd_texts := filter (\<lambda>(i, _). i \<notin> ids) (cd_texts chunks),
              cd_rows := filter (\<lambda>c. ck_id c \<notin> ids) (cd_rows chunks),
              cd_entities := filter (\<lambda>(i, _). i \<notin> ids) (cd_entities chunks)\<rparr>\<rparr>)"

definition purge_duplicates :: "row_id \<Rightarrow> string \<Rightarrow> memory_db \<times> nat \<times> row_id list \<Rightarrow> memory_db \<times> nat \<times> row_id list" where
  "purge_duplicates b h = (\<lambda>(db, removed, purged).
     let ids = dup_ids b h (cd_rows (my_chunks db))
     in (delete_with_dependents (set ids) db,
         removed + count_where (\<lambda>c. ck_id c \<in> set ids) (cd_rows (my_chunks db)), purged @ ids))"

definition drop_orphan_vectors :: "row_id list \<Rightarrow> memory_db \<Rightarrow> memory_db" where
  "drop_orphan_vectors ids db =
     (if ids = [] then db else db\<lparr>my_vectors := map_option (delete_chunk_ids ids) (my_vectors db)\<rparr>)"

definition remove_duplicate_chunks :: "row_id \<Rightarrow> bool \<Rightarrow> memory_db \<Rightarrow> memory_db \<times> nat" where
  "remove_duplicate_chunks b dry_run db =
     (let rows = cd_rows (my_chunks db); hashes = duplicate_hashes b rows
      in if dry_run then (db, sum_list (map (\<lambda>h. hash_count b h rows - 1) hashes))
         else case fold (purge_duplicates b) hashes (db, 0, []) of
           (db', removed, purged) \<Rightarrow> (drop_orphan_vectors purged db', removed))"

definition weak_pattern :: "row_id \<Rightarrow> real \<Rightarrow> pattern_row \<Rightarrow> bool" where
  "weak_pattern b min_confidence p \<longleftrightarrow>
     pat_buffer p = Some b \<and> (case pat_confidence p of Some c \<Rightarrow> c < min_confidence | None \<Rightarrow> False)"

definition remove_low_confidence_patterns :: "row_id \<Rightarrow> real \<Rightarrow> bool \<Rightarrow> memory_db \<Rightarrow> memory_db \<times> nat" where
  "remove_low_confidence_patterns b min_confidence dry_run db =
     (if dry_run then (db, count_where (weak_pattern b min_confidence) (st_rows (my_patterns db)))
      else let (patterns, n) = delete_rows (weak_pattern b min_confidence) (my_patterns db)
           in (db\<lparr>my_patterns := patterns\<rparr>, n))"

definition consolidate_buffer :: "row_id \<Rightarrow> consolidate_options \<Rightarrow> memory_db \<Rightarrow> memory_db \<times> nat \<times> nat" where
  "consolidate_buffer b options db =
     (let (db1, duplicates) = (if op_deduplicate options then remove_duplicate_chunks b (op_dry_run options) db else (db, 0));
          (db2, patterns) = remove_low_confidence_patterns b (op_min_confidence options) (op_dry_run options) db1
      in (db2, duplicates, patterns))"

definition resolve_buffer_ids :: "string \<Rightarrow> buffer list \<Rightarrow> row_id list" where
  "resolve_buffer_ids project bufs =
     (if project = [] then map bf_id (list_buffers bufs)
      else case buffer_id_for_project project bufs of Some b \<Rightarrow> [b] | None \<Rightarrow> [])"

definition consolidate :: "string \<Rightarrow> bool \<Rightarrow> memory_db \<Rightarrow> memory_db \<times> maintenance_report" where
  "consolidate project dry_run db =
     fold (\<lambda>b (db, report). case consolidate_buffer b (default_consolidate\<lparr>op_dry_run := dry_run\<rparr>) db of
         (db', duplicates, patterns) \<Rightarrow>
           (db', report\<lparr>mr_duplicates := mr_duplicates report + duplicates, mr_patterns := mr_patterns report + patterns\<rparr>))
       (resolve_buffer_ids project (bd_rows (my_buffers db))) (db, empty_report)"

section \<open>Decay\<close>

definition age_hours :: "seconds \<Rightarrow> seconds \<Rightarrow> real" where
  "age_hours now last_accessed = real_of_int (now - last_accessed) / 3600"

definition chunk_referenced :: "row_id \<Rightarrow> memory_db \<Rightarrow> bool" where
  "chunk_referenced i db \<longleftrightarrow>
     list_ex (\<lambda>t. tsk_chunk t = Some i) (st_rows (my_tasks db)) \<or> list_ex (\<lambda>f. fnd_chunk f = Some i) (st_rows (my_findings db))"

text \<open>The rows that go before the chunk itself.\<close>

definition strip_chunk :: "row_id \<Rightarrow> memory_db \<Rightarrow> memory_db" where
  "strip_chunk i db =
     db\<lparr>my_chunks := (my_chunks db)\<lparr>cd_fts := filter (\<lambda>(j, _). j \<noteq> i) (cd_fts (my_chunks db)),
          cd_texts := filter (\<lambda>(j, _). j \<noteq> i) (cd_texts (my_chunks db)),
          cd_entities := filter (\<lambda>(j, _). j \<noteq> i) (cd_entities (my_chunks db))\<rparr>\<rparr>"

definition delete_chunk_row :: "row_id \<Rightarrow> memory_db \<Rightarrow> memory_db" where
  "delete_chunk_row i db =
     db\<lparr>my_chunks := (my_chunks db)\<lparr>cd_rows := filter (\<lambda>c. ck_id c \<noteq> i) (cd_rows (my_chunks db))\<rparr>\<rparr>"

fun decay_rows ::
  "decay_config \<Rightarrow> real \<Rightarrow> seconds \<Rightarrow> bool \<Rightarrow> (row_id \<times> seconds) list \<Rightarrow> memory_db \<Rightarrow> nat \<times> nat \<times> row_id list \<Rightarrow>
   memory_db \<times> (nat \<times> nat \<times> row_id list) option" where
  "decay_rows cfg score_floor now dry_run [] db acc = (db, Some acc)"
| "decay_rows cfg score_floor now dry_run ((i, last_accessed) # rest) db (decayed, kept, removed) =
     (if decay_score cfg 1 (age_hours now last_accessed) < score_floor then
        if dry_run then decay_rows cfg score_floor now dry_run rest db (decayed + 1, kept, removed)
        else let db1 = strip_chunk i db
             in if chunk_referenced i db1 then (db1, None)
                else decay_rows cfg score_floor now dry_run rest (delete_chunk_row i db1) (decayed + 1, kept, removed @ [i])
      else decay_rows cfg score_floor now dry_run rest db (decayed, kept + 1, removed))"

definition run_decay_for_buffer ::
  "row_id \<Rightarrow> decay_config \<Rightarrow> real \<Rightarrow> seconds \<Rightarrow> bool \<Rightarrow> memory_db \<Rightarrow> memory_db \<times> (nat \<times> nat) option" where
  "run_decay_for_buffer b cfg score_floor now dry_run db =
     (case decay_rows cfg score_floor now dry_run
             (map (\<lambda>c. (ck_id c, ck_accessed c)) (filter (\<lambda>c. ck_buffer c = b) (cd_rows (my_chunks db)))) db (0, 0, []) of
        (db', None) \<Rightarrow> (db', None)
      | (db', Some (decayed, kept, removed)) \<Rightarrow> (drop_orphan_vectors removed db', Some (decayed, kept)))"

fun decay_buffers ::
  "real \<Rightarrow> seconds \<Rightarrow> bool \<Rightarrow> row_id list \<Rightarrow> memory_db \<Rightarrow> maintenance_report \<Rightarrow> memory_db \<times> maintenance_report option" where
  "decay_buffers score_floor now dry_run [] db report = (db, Some report)"
| "decay_buffers score_floor now dry_run (b # rest) db report =
     (case run_decay_for_buffer b default_decay score_floor now dry_run db of
        (db', None) \<Rightarrow> (db', None)
      | (db', Some (decayed, kept)) \<Rightarrow>
          decay_buffers score_floor now dry_run rest db'
            (report\<lparr>mr_decayed := mr_decayed report + decayed, mr_kept := mr_kept report + kept\<rparr>))"

definition decay_memory :: "string \<Rightarrow> real \<Rightarrow> seconds \<Rightarrow> bool \<Rightarrow> memory_db \<Rightarrow> memory_db \<times> maintenance_report option" where
  "decay_memory project score_floor now dry_run db =
     decay_buffers score_floor now dry_run (resolve_buffer_ids project (bd_rows (my_buffers db))) db empty_report"

definition run_maintenance :: "string \<Rightarrow> real \<Rightarrow> seconds \<Rightarrow> bool \<Rightarrow> memory_db \<Rightarrow> memory_db \<times> maintenance_report option" where
  "run_maintenance project score_floor now dry_run db =
     (case consolidate project dry_run db of
        (db1, report) \<Rightarrow>
          (case decay_memory project score_floor now dry_run db1 of
             (db2, None) \<Rightarrow> (db2, None)
           | (db2, Some decay_report) \<Rightarrow> (db2, Some (merge_report report decay_report))))"

definition default_decay_floor :: real where
  "default_decay_floor = 1 / 10"

text \<open>The call of an administrator.\<close>

definition handle_trigger_maintenance ::
  "millis \<Rightarrow> header_value \<Rightarrow> auth_db \<Rightarrow> string \<Rightarrow> real \<Rightarrow> seconds \<Rightarrow> bool \<Rightarrow> memory_db \<Rightarrow> memory_db \<times> (rpc_status + maintenance_report)" where
  "handle_trigger_maintenance now_ms header auth project score_floor now dry_run db =
     (case authenticate now_ms header auth of
        Inl e \<Rightarrow> (db, Inl e)
      | Inr ctx \<Rightarrow>
          (case require_admin ctx of
             Inl e \<Rightarrow> (db, Inl e)
           | Inr _ \<Rightarrow>
               (case run_maintenance project score_floor now dry_run db of
                  (db', None) \<Rightarrow> (db', Inl (Internal ''failed to delete chunk''))
                | (db', Some report) \<Rightarrow> (db', Inr report))))"

section \<open>What consolidation keeps\<close>

definition newest_copy :: "chunk list \<Rightarrow> chunk \<Rightarrow> bool" where
  "newest_copy rows c \<longleftrightarrow>
     list_all (\<lambda>d. ck_buffer d = ck_buffer c \<longrightarrow> ck_hash d = ck_hash c \<longrightarrow> ck_id d \<le> ck_id c) rows"

definition old_copies :: "row_id \<Rightarrow> chunk list \<Rightarrow> row_id set" where
  "old_copies b rows = ck_id ` {c \<in> set rows. ck_buffer c = b \<and> \<not> newest_copy rows c}"

lemma newest_copy_iff:
  "newest_copy rows c \<longleftrightarrow> (\<forall>d\<in>set rows. ck_buffer d = ck_buffer c \<longrightarrow> ck_hash d = ck_hash c \<longrightarrow> ck_id d \<le> ck_id c)"
  by (simp add: newest_copy_def list_all_iff)

lemma drop_greatest:
  fixes xs :: "int list"
  assumes "distinct xs"
  shows "i \<in> set (drop 1 (sort_key (\<lambda>i. - i) xs)) \<longleftrightarrow> i \<in> set xs \<and> (\<exists>j\<in>set xs. i < j)"
proof (cases "sort_key (\<lambda>i. - i) xs")
  case Nil
  then have "xs = []" by (simp add: sort_key_Nil_iff)
  then show ?thesis by simp
next
  case (Cons m zs)
  have s: "set xs = insert m (set zs)" using Cons by (metis list.set(2) set_sort)
  have "distinct (m # zs)" using assms Cons by (metis distinct_sort)
  moreover have "sorted (map (\<lambda>i. - i) (m # zs))" unfolding Cons [symmetric] by (rule sorted_sort_key)
  ultimately have "\<forall>j\<in>set zs. j \<le> m \<and> j \<noteq> m" by auto
  then have "\<forall>j\<in>set zs. j < m" by force
  then show ?thesis unfolding Cons s by auto
qed

lemma dup_ids_iff:
  assumes "distinct (map ck_id rows)"
  shows "i \<in> set (dup_ids b h rows) \<longleftrightarrow> (\<exists>c\<in>set rows. ck_id c = i \<and> ck_buffer c = b \<and> ck_hash c = h \<and> \<not> newest_copy rows c)"
proof -
  have "distinct (map ck_id (filter (\<lambda>c. ck_buffer c = b \<and> ck_hash c = h) rows))" using assms by (rule distinct_map_filter)
  from drop_greatest [OF this, of i] show ?thesis unfolding dup_ids_def newest_copy_iff by (auto simp: not_le)
qed

lemma dup_ids_facts:
  assumes "distinct (map ck_id rows)"
  shows "distinct (dup_ids b h rows)" "length (dup_ids b h rows) = hash_count b h rows - 1"
proof -
  have "distinct (map ck_id (filter (\<lambda>c. ck_buffer c = b \<and> ck_hash c = h) rows))" using assms by (rule distinct_map_filter)
  then show "distinct (dup_ids b h rows)" by (simp add: dup_ids_def)
qed (simp add: dup_ids_def hash_count_def count_where_def)

lemma count_ids:
  assumes "distinct (map rid rows)" and "distinct ids" and "set ids \<subseteq> rid ` set rows"
  shows "count_where (\<lambda>c. rid c \<in> set ids) rows = length ids"
proof -
  have "distinct (map rid (filter (\<lambda>c. rid c \<in> set ids) rows))" using assms(1) by (rule distinct_map_filter)
  moreover have "set (map rid (filter (\<lambda>c. rid c \<in> set ids) rows)) = set ids" using assms(3) by auto
  ultimately have "length (map rid (filter (\<lambda>c. rid c \<in> set ids) rows)) = length ids"
    using assms(2) by (metis distinct_card)
  then show ?thesis by (simp add: count_where_def)
qed

text \<open>Deleting in two steps is deleting at once.\<close>

lemma points_into_simps [simp]:
  "points_into {} i \<longleftrightarrow> False" "points_into (A \<union> B) i \<longleftrightarrow> points_into A i \<or> points_into B i"
  "points_into ids None \<longleftrightarrow> False" "points_into ids (Some j) \<longleftrightarrow> j \<in> ids"
  by (simp_all add: points_into_def split: option.split)

definition doomed_tasks :: "row_id set \<Rightarrow> task_row list \<Rightarrow> row_id set" where
  "doomed_tasks ids tasks = tsk_id ` {t \<in> set tasks. points_into ids (tsk_chunk t)}"

lemma delete_with_dependents_rows [simp]:
  "cd_rows (my_chunks (delete_with_dependents ids db)) = filter (\<lambda>c. ck_id c \<notin> ids) (cd_rows (my_chunks db))"
  "cd_texts (my_chunks (delete_with_dependents ids db)) = filter (\<lambda>x. fst x \<notin> ids) (cd_texts (my_chunks db))"
  "cd_entities (my_chunks (delete_with_dependents ids db)) = filter (\<lambda>x. fst x \<notin> ids) (cd_entities (my_chunks db))"
  "cd_fts (my_chunks (delete_with_dependents ids db)) = cd_fts (my_chunks db)"
  "cd_seq (my_chunks (delete_with_dependents ids db)) = cd_seq (my_chunks db)"
  "cd_entity_fts (my_chunks (delete_with_dependents ids db)) = cd_entity_fts (my_chunks db)"
  "my_vectors (delete_with_dependents ids db) = my_vectors db" "my_buffers (delete_with_dependents ids db) = my_buffers db"
  "my_patterns (delete_with_dependents ids db) = my_patterns db"
  "st_seq (my_tasks (delete_with_dependents ids db)) = st_seq (my_tasks db)"
  "st_seq (my_findings (delete_with_dependents ids db)) = st_seq (my_findings db)"
  "st_rows (my_tasks (delete_with_dependents ids db)) = filter (\<lambda>t. \<not> points_into ids (tsk_chunk t)) (st_rows (my_tasks db))"
  "st_rows (my_findings (delete_with_dependents ids db)) =
     filter (\<lambda>f. \<not> points_into ids (fnd_chunk f) \<and> fnd_task f \<notin> doomed_tasks ids (st_rows (my_tasks db))) (st_rows (my_findings db))"
  by (simp_all add: delete_with_dependents_def delete_rows_def doomed_tasks_def Let_def case_prod_unfold)

lemma doomed_twice:
  "i \<notin> doomed_tasks A ts \<and> i \<notin> doomed_tasks B (filter (\<lambda>t. \<not> points_into A (tsk_chunk t)) ts) \<longleftrightarrow> i \<notin> doomed_tasks (A \<union> B) ts"
  by (auto simp: doomed_tasks_def)

lemma delete_nothing: "delete_with_dependents {} db = db"
  by (intro memory_db.equality seq_table.equality chunk_db.equality) (simp_all add: doomed_tasks_def)

lemma delete_twice: "delete_with_dependents B (delete_with_dependents A db) = delete_with_dependents (A \<union> B) db"
proof -
  have f: "filter (\<lambda>f. \<not> points_into B (fnd_chunk f) \<and> fnd_task f \<notin> doomed_tasks B (filter (\<lambda>t. \<not> points_into A (tsk_chunk t)) ts))
      (filter (\<lambda>f. \<not> points_into A (fnd_chunk f) \<and> fnd_task f \<notin> doomed_tasks A ts) fs) =
      filter (\<lambda>f. \<not> points_into (A \<union> B) (fnd_chunk f) \<and> fnd_task f \<notin> doomed_tasks (A \<union> B) ts) fs" for ts fs
    unfolding filter_filter by (rule filter_cong [OF refl]) (use doomed_twice [of _ A ts B] in auto)
  have fs: "st_rows (my_findings (delete_with_dependents B (delete_with_dependents A db))) =
      st_rows (my_findings (delete_with_dependents (A \<union> B) db))"
    by (simp only: delete_with_dependents_rows f)
  show ?thesis by (intro memory_db.equality seq_table.equality chunk_db.equality; (rule fs | simp))
qed

lemma dup_ids_other:
  assumes "distinct (map ck_id rows)" and "h' \<noteq> h"
  shows "dup_ids b h' (filter (\<lambda>c. ck_id c \<notin> set (dup_ids b h rows)) rows) = dup_ids b h' rows"
proof -
  have "ck_id c \<notin> set (dup_ids b h rows)" if "c \<in> set rows" "ck_hash c = h'" for c
    using that assms by (auto simp: dup_ids_iff [OF assms(1)] distinct_map inj_on_def)
  then have "filter (\<lambda>c. ck_buffer c = b \<and> ck_hash c = h') (filter (\<lambda>c. ck_id c \<notin> set (dup_ids b h rows)) rows) =
      filter (\<lambda>c. ck_buffer c = b \<and> ck_hash c = h') rows"
    unfolding filter_filter by (intro filter_cong) auto
  then show ?thesis by (simp add: dup_ids_def)
qed

lemma purge_duplicates_fold:
  assumes "distinct hs" and "distinct (map ck_id (cd_rows (my_chunks db)))"
  shows "fold (purge_duplicates b) hs (db, n, p) =
    (let purged = concat (map (\<lambda>h. dup_ids b h (cd_rows (my_chunks db))) hs)
     in (delete_with_dependents (set purged) db, n + length purged, p @ purged))"
  using assms
proof (induction hs arbitrary: db n p)
  case Nil
  then show ?case by (simp add: delete_nothing)
next
  case (Cons h hs)
  let ?rows = "cd_rows (my_chunks db)"
  let ?ids = "dup_ids b h ?rows" and ?db = "delete_with_dependents (set (dup_ids b h (cd_rows (my_chunks db)))) db"
  have cnt: "count_where (\<lambda>c. ck_id c \<in> set ?ids) ?rows = length ?ids"
    by (rule count_ids [OF Cons.prems(2) dup_ids_facts(1) [OF Cons.prems(2)]]) (auto simp: dup_ids_iff [OF Cons.prems(2)])
  have d: "distinct hs" "distinct (map ck_id (cd_rows (my_chunks ?db)))" using Cons.prems by (auto intro: distinct_map_filter)
  have same: "dup_ids b h' (cd_rows (my_chunks ?db)) = dup_ids b h' ?rows" if "h' \<in> set hs" for h'
  proof -
    have "h' \<noteq> h" using Cons.prems(1) that by auto
    from dup_ids_other [OF Cons.prems(2) this] show ?thesis by simp
  qed
  have lists: "map (\<lambda>h'. dup_ids b h' (cd_rows (my_chunks ?db))) hs = map (\<lambda>h'. dup_ids b h' ?rows) hs"
    by (rule map_cong [OF refl]) (rule same)
  have step: "purge_duplicates b h (db, n, p) = (?db, n + length ?ids, p @ ?ids)"
    by (simp only: purge_duplicates_def Let_def case_prod_conv cnt)
  show ?case unfolding fold_Cons comp_def step Cons.IH [OF d] Let_def lists delete_twice by simp
qed

lemma old_copies_dup:
  assumes "distinct (map ck_id rows)"
  shows "(\<Union>h\<in>set (duplicate_hashes b rows). set (dup_ids b h rows)) = old_copies b rows"
proof (intro set_eqI iffI)
  fix i assume "i \<in> (\<Union>h\<in>set (duplicate_hashes b rows). set (dup_ids b h rows))"
  then show "i \<in> old_copies b rows" by (auto simp: dup_ids_iff [OF assms] old_copies_def)
next
  fix i assume "i \<in> old_copies b rows"
  then obtain c where c: "c \<in> set rows" "ck_buffer c = b" "ck_id c = i" "\<not> newest_copy rows c" by (auto simp: old_copies_def)
  then have i: "i \<in> set (dup_ids b (ck_hash c) rows)" by (auto simp: dup_ids_iff [OF assms])
  then have "0 < length (dup_ids b (ck_hash c) rows)" by (rule length_pos_if_in_set)
  then have "1 < hash_count b (ck_hash c) rows" by (simp add: dup_ids_facts(2) [OF assms])
  then have "ck_hash c \<in> set (duplicate_hashes b rows)" using c by (auto simp: duplicate_hashes_def)
  then show "i \<in> (\<Union>h\<in>set (duplicate_hashes b rows). set (dup_ids b h rows))" using i by blast
qed

lemma distinct_dup_lists:
  assumes "distinct (map ck_id rows)" and "distinct hs"
  shows "distinct (concat (map (\<lambda>h. dup_ids b h rows) hs))"
  using assms(2)
proof (induction hs)
  case (Cons h hs)
  have "set (dup_ids b h rows) \<inter> set (dup_ids b h' rows) = {}" if "h' \<in> set hs" for h'
  proof -
    have "h' \<noteq> h" using Cons.prems that by auto
    moreover have "c = d" if "c \<in> set rows" "d \<in> set rows" "ck_id c = ck_id d" for c d
      using that assms(1) by (auto simp: distinct_map inj_on_def)
    ultimately show ?thesis by (metis (no_types, lifting) disjoint_iff dup_ids_iff [OF assms(1)])
  qed
  then show ?case using Cons by (auto simp: dup_ids_facts(1) [OF assms(1)])
qed simp

lemma drop_orphan_vectors_simps [simp]:
  "my_chunks (drop_orphan_vectors ids db) = my_chunks db" "my_buffers (drop_orphan_vectors ids db) = my_buffers db"
  "my_patterns (drop_orphan_vectors ids db) = my_patterns db" "my_tasks (drop_orphan_vectors ids db) = my_tasks db"
  "my_findings (drop_orphan_vectors ids db) = my_findings db"
  "my_vectors (drop_orphan_vectors ids db) =
     map_option (\<lambda>vs. vs\<lparr>vs_entries := filter (\<lambda>e. ve_chunk e \<notin> set ids) (vs_entries vs)\<rparr>) (my_vectors db)"
proof -
  show "my_vectors (drop_orphan_vectors ids db) =
      map_option (\<lambda>vs. vs\<lparr>vs_entries := filter (\<lambda>e. ve_chunk e \<notin> set ids) (vs_entries vs)\<rparr>) (my_vectors db)"
    by (cases ids; cases "my_vectors db") (simp_all add: drop_orphan_vectors_def delete_chunk_ids_def)
qed (simp_all add: drop_orphan_vectors_def)

lemma remove_duplicates_result:
  assumes "distinct (map ck_id (cd_rows (my_chunks db)))"
  obtains purged where "set purged = old_copies b (cd_rows (my_chunks db))" "distinct purged"
    "remove_duplicate_chunks b False db = (drop_orphan_vectors purged (delete_with_dependents (set purged) db), length purged)"
    "remove_duplicate_chunks b True db = (db, length purged)"
proof -
  let ?rows = "cd_rows (my_chunks db)"
  let ?hs = "duplicate_hashes b ?rows"
  let ?p = "concat (map (\<lambda>h. dup_ids b h (cd_rows (my_chunks db))) (duplicate_hashes b (cd_rows (my_chunks db))))"
  have hs: "distinct ?hs" by (simp add: duplicate_hashes_def)
  have "sum_list (map (\<lambda>h. hash_count b h ?rows - 1) ?hs) = length ?p"
    by (simp add: length_concat comp_def dup_ids_facts(2) [OF assms])
  then have dry: "remove_duplicate_chunks b True db = (db, length ?p)" by (simp add: remove_duplicate_chunks_def Let_def)
  have real: "remove_duplicate_chunks b False db = (drop_orphan_vectors ?p (delete_with_dependents (set ?p) db), length ?p)"
    by (simp add: remove_duplicate_chunks_def purge_duplicates_fold [OF hs assms] Let_def)
  have "set ?p = old_copies b ?rows" using old_copies_dup [OF assms, of b] by simp
  then show ?thesis using distinct_dup_lists [OF assms hs, of b] real dry by (rule that)
qed

section \<open>Consolidating projects\<close>

lemma newest_exists:
  assumes "c \<in> set rows"
  shows "\<exists>e\<in>set rows. ck_buffer e = ck_buffer c \<and> ck_hash e = ck_hash c \<and> newest_copy rows e \<and> ck_id c \<le> ck_id e"
proof -
  let ?S = "{d \<in> set rows. ck_buffer d = ck_buffer c \<and> ck_hash d = ck_hash c}"
  have "finite (ck_id ` ?S)" "ck_id ` ?S \<noteq> {}" using assms by auto
  then have m: "Max (ck_id ` ?S) \<in> ck_id ` ?S" "\<forall>d\<in>?S. ck_id d \<le> Max (ck_id ` ?S)" using Max_in by auto
  then obtain e where e: "e \<in> ?S" "ck_id e = Max (ck_id ` ?S)" by (metis (no_types, lifting) imageE)
  then have "newest_copy rows e" using m(2) by (auto simp: newest_copy_iff)
  moreover have "ck_id c \<le> ck_id e" using m(2) e assms by simp
  ultimately show ?thesis using e(1) by blast
qed

lemma newest_filter:
  assumes "\<forall>c\<in>set rows. newest_copy rows c \<longrightarrow> keep c" and "c \<in> set rows"
  shows "newest_copy (filter keep rows) c \<longleftrightarrow> newest_copy rows c"
proof
  assume new: "newest_copy (filter keep rows) c"
  obtain e where e: "e \<in> set rows" "ck_buffer e = ck_buffer c" "ck_hash e = ck_hash c" "newest_copy rows e" "ck_id c \<le> ck_id e"
    using newest_exists [OF assms(2)] by blast
  then have "ck_id e \<le> ck_id c" using new assms(1) by (auto simp: newest_copy_iff)
  moreover have "ck_id d \<le> ck_id e" if "d \<in> set rows" "ck_buffer d = ck_buffer c" "ck_hash d = ck_hash c" for d
    using e that by (simp add: newest_copy_iff)
  ultimately show "newest_copy rows c" unfolding newest_copy_iff using order_trans by blast
qed (auto simp: newest_copy_iff)

definition consolidated :: "row_id list \<Rightarrow> chunk list \<Rightarrow> chunk list" where
  "consolidated bs rows = filter (\<lambda>c. ck_buffer c \<in> set bs \<longrightarrow> newest_copy rows c) rows"

lemma consolidated_Nil: "consolidated [] rows = rows"
  by (simp add: consolidated_def)

lemma consolidated_Cons: "consolidated bs (consolidated [b] rows) = consolidated (b # bs) rows"
proof -
  have "newest_copy (consolidated [b] rows) c \<longleftrightarrow> newest_copy rows c" if "c \<in> set rows" for c
    unfolding consolidated_def by (rule newest_filter [OF _ that]) simp
  then have "filter (\<lambda>c. ck_buffer c \<in> set bs \<longrightarrow> newest_copy (consolidated [b] rows) c) (consolidated [b] rows) =
      filter (\<lambda>c. ck_buffer c \<in> set bs \<longrightarrow> newest_copy rows c) (consolidated [b] rows)"
    by (intro filter_cong) (auto simp: consolidated_def)
  then show ?thesis unfolding consolidated_def [of bs] unfolding consolidated_def by (auto intro: filter_cong)
qed

lemma consolidated_old:
  assumes "distinct (map ck_id rows)"
  shows "filter (\<lambda>c. ck_id c \<notin> old_copies b rows) rows = consolidated [b] rows"
proof -
  have "ck_id c \<in> old_copies b rows \<longleftrightarrow> ck_buffer c = b \<and> \<not> newest_copy rows c" if "c \<in> set rows" for c
  proof
    assume "ck_id c \<in> old_copies b rows"
    then obtain d where "d \<in> set rows" "ck_id d = ck_id c" "ck_buffer d = b" "\<not> newest_copy rows d" by (auto simp: old_copies_def)
    moreover from this have "d = c" using that assms by (auto simp: distinct_map inj_on_def)
    ultimately show "ck_buffer c = b \<and> \<not> newest_copy rows c" by simp
  qed (use that in \<open>auto simp: old_copies_def\<close>)
  then show ?thesis unfolding consolidated_def by (intro filter_cong) auto
qed

lemma old_copies_other:
  assumes "b' \<noteq> b"
  shows "old_copies b' (consolidated [b] rows) = old_copies b' rows"
proof -
  have "newest_copy (consolidated [b] rows) c \<longleftrightarrow> newest_copy rows c" if "c \<in> set rows" for c
    unfolding consolidated_def by (rule newest_filter [OF _ that]) simp
  then have "{c \<in> set (consolidated [b] rows). ck_buffer c = b' \<and> \<not> newest_copy (consolidated [b] rows) c} =
      {c \<in> set rows. ck_buffer c = b' \<and> \<not> newest_copy rows c}"
    using assms by (auto simp: consolidated_def)
  then show ?thesis by (simp add: old_copies_def)
qed

lemma consolidated_ids: "distinct (map ck_id rows) \<Longrightarrow> distinct (map ck_id (consolidated bs rows))"
  unfolding consolidated_def by (rule distinct_map_filter)

lemma consolidated_count:
  assumes "distinct bs" and "distinct (map ck_id rows)"
  shows "length (consolidated bs rows) + sum_list (map (\<lambda>b. card (old_copies b rows)) bs) = length rows"
  using assms
proof (induction bs arbitrary: rows)
  case (Cons b bs)
  let ?rows = "consolidated [b] rows"
  have "map (\<lambda>b. card (old_copies b ?rows)) bs = map (\<lambda>b. card (old_copies b rows)) bs"
    using Cons.prems(1) by (intro map_cong refl arg_cong [where f = card] old_copies_other) auto
  then have "sum_list (map (\<lambda>b. card (old_copies b ?rows)) bs) = sum_list (map (\<lambda>b. card (old_copies b rows)) bs)"
    by (rule arg_cong)
  moreover have "length ?rows + card (old_copies b rows) = length rows"
  proof -
    have "card (old_copies b rows) = length (filter (\<lambda>c. ck_id c \<in> old_copies b rows) rows)"
    proof -
      have "set (map ck_id (filter (\<lambda>c. ck_id c \<in> old_copies b rows) rows)) = old_copies b rows" by (auto simp: old_copies_def)
      then show ?thesis using distinct_card [OF distinct_map_filter [OF Cons.prems(2)], of "\<lambda>c. ck_id c \<in> old_copies b rows"] by simp
    qed
    moreover have "length (filter (\<lambda>c. ck_id c \<in> old_copies b rows) rows) + length (filter (\<lambda>c. ck_id c \<notin> old_copies b rows) rows) = length rows"
      by (rule sum_length_filter_compl)
    ultimately show ?thesis unfolding consolidated_old [OF Cons.prems(2)] by simp
  qed
  ultimately show ?case
    using Cons.IH [OF _ consolidated_ids [OF Cons.prems(2)], of "[b]"] Cons.prems(1) unfolding consolidated_Cons by simp
qed (simp add: consolidated_Nil)

definition consolidate_step :: "bool \<Rightarrow> row_id \<Rightarrow> memory_db \<times> maintenance_report \<Rightarrow> memory_db \<times> maintenance_report" where
  "consolidate_step dry_run b = (\<lambda>(db, report). case consolidate_buffer b (default_consolidate\<lparr>op_dry_run := dry_run\<rparr>) db of
         (db', duplicates, patterns) \<Rightarrow>
           (db', report\<lparr>mr_duplicates := mr_duplicates report + duplicates, mr_patterns := mr_patterns report + patterns\<rparr>))"

lemma consolidate_fold:
  "consolidate project dry_run db = fold (consolidate_step dry_run) (resolve_buffer_ids project (bd_rows (my_buffers db))) (db, empty_report)"
  unfolding consolidate_def consolidate_step_def [abs_def] ..

definition count_up :: "row_id list \<Rightarrow> memory_db \<Rightarrow> maintenance_report \<Rightarrow> maintenance_report" where
  "count_up bs db report =
     report\<lparr>mr_duplicates := mr_duplicates report + sum_list (map (\<lambda>b. card (old_copies b (cd_rows (my_chunks db)))) bs),
            mr_patterns := mr_patterns report + sum_list (map (\<lambda>b. count_where (weak_pattern b (3/10)) (st_rows (my_patterns db))) bs)\<rparr>"

lemma consolidate_step_dry:
  assumes "distinct (map ck_id (cd_rows (my_chunks db)))"
  shows "consolidate_step True b (db, report) = (db, count_up [b] db report)"
proof -
  obtain purged where "set purged = old_copies b (cd_rows (my_chunks db))" "distinct purged"
    "remove_duplicate_chunks b True db = (db, length purged)" by (rule remove_duplicates_result [OF assms])
  then show ?thesis
    by (simp add: consolidate_step_def consolidate_buffer_def default_consolidate_def remove_low_confidence_patterns_def count_up_def
        distinct_card [symmetric])
qed

lemma consolidate_step_real:
  assumes "distinct (map ck_id (cd_rows (my_chunks db)))"
  obtains db' where "consolidate_step False b (db, report) = (db', count_up [b] db report)"
    "cd_rows (my_chunks db') = consolidated [b] (cd_rows (my_chunks db))"
    "cd_texts (my_chunks db') = filter (\<lambda>x. fst x \<notin> old_copies b (cd_rows (my_chunks db))) (cd_texts (my_chunks db))"
    "cd_fts (my_chunks db') = cd_fts (my_chunks db)"
    "my_vectors db' = map_option (\<lambda>vs. vs\<lparr>vs_entries := filter (\<lambda>e. ve_chunk e \<notin> old_copies b (cd_rows (my_chunks db))) (vs_entries vs)\<rparr>) (my_vectors db)"
    "st_rows (my_patterns db') = filter (\<lambda>p. \<not> weak_pattern b (3/10) p) (st_rows (my_patterns db))"
    "my_buffers db' = my_buffers db"
proof -
  obtain purged where p: "set purged = old_copies b (cd_rows (my_chunks db))" "distinct purged"
    "remove_duplicate_chunks b False db = (drop_orphan_vectors purged (delete_with_dependents (set purged) db), length purged)"
    by (rule remove_duplicates_result [OF assms])
  let ?db = "(drop_orphan_vectors purged (delete_with_dependents (set purged) db))
      \<lparr>my_patterns := fst (delete_rows (weak_pattern b (3/10)) (my_patterns db))\<rparr>"
  have "consolidate_step False b (db, report) = (?db, count_up [b] db report)"
    using p by (simp add: consolidate_step_def consolidate_buffer_def default_consolidate_def remove_low_confidence_patterns_def
        count_up_def delete_rows_def distinct_card [symmetric] Let_def)
  moreover have "cd_rows (my_chunks ?db) = consolidated [b] (cd_rows (my_chunks db))"
    using consolidated_old [OF assms, of b] by (simp add: p(1))
  ultimately show ?thesis by (rule that) (simp_all add: p(1) delete_rows_def)
qed

definition removed_copies :: "row_id list \<Rightarrow> chunk list \<Rightarrow> row_id set" where
  "removed_copies bs rows = (\<Union>b\<in>set bs. old_copies b rows)"

lemma consolidate_dry:
  assumes "distinct (map ck_id (cd_rows (my_chunks db)))"
  shows "fold (consolidate_step True) bs (db, report) = (db, count_up bs db report)"
proof (induction bs arbitrary: report)
  case (Cons b bs)
  show ?case by (simp add: consolidate_step_dry [OF assms] Cons.IH) (simp add: count_up_def)
qed (simp add: count_up_def)

lemma consolidate_real:
  assumes "distinct bs" and "distinct (map ck_id (cd_rows (my_chunks db)))"
  shows "\<exists>db'. fold (consolidate_step False) bs (db, report) = (db', count_up bs db report) \<and>
    cd_rows (my_chunks db') = consolidated bs (cd_rows (my_chunks db)) \<and>
    cd_texts (my_chunks db') = filter (\<lambda>x. fst x \<notin> removed_copies bs (cd_rows (my_chunks db))) (cd_texts (my_chunks db)) \<and>
    cd_fts (my_chunks db') = cd_fts (my_chunks db) \<and> my_buffers db' = my_buffers db \<and>
    my_vectors db' = map_option (\<lambda>vs. vs\<lparr>vs_entries := filter (\<lambda>e. ve_chunk e \<notin> removed_copies bs (cd_rows (my_chunks db))) (vs_entries vs)\<rparr>) (my_vectors db)"
  using assms
proof (induction bs arbitrary: db report)
  case Nil
  show ?case by (rule exI [of _ db]) (simp add: count_up_def consolidated_Nil removed_copies_def option.map_ident)
next
  case (Cons b bs)
  let ?rows = "cd_rows (my_chunks db)"
  obtain db1 where s: "consolidate_step False b (db, report) = (db1, count_up [b] db report)"
    "cd_rows (my_chunks db1) = consolidated [b] ?rows"
    "cd_texts (my_chunks db1) = filter (\<lambda>x. fst x \<notin> old_copies b ?rows) (cd_texts (my_chunks db))"
    "cd_fts (my_chunks db1) = cd_fts (my_chunks db)"
    "my_vectors db1 = map_option (\<lambda>vs. vs\<lparr>vs_entries := filter (\<lambda>e. ve_chunk e \<notin> old_copies b ?rows) (vs_entries vs)\<rparr>) (my_vectors db)"
    "st_rows (my_patterns db1) = filter (\<lambda>p. \<not> weak_pattern b (3/10) p) (st_rows (my_patterns db))"
    "my_buffers db1 = my_buffers db" by (rule consolidate_step_real [OF Cons.prems(2)])
  have d: "distinct bs" "distinct (map ck_id (cd_rows (my_chunks db1)))"
    using Cons.prems consolidated_ids by (auto simp: s(2))
  have other: "old_copies b' (consolidated [b] ?rows) = old_copies b' ?rows" if "b' \<in> set bs" for b'
    using Cons.prems(1) that by (intro old_copies_other) auto
  then have rem: "old_copies b ?rows \<union> removed_copies bs (consolidated [b] ?rows) = removed_copies (b # bs) ?rows"
    by (simp add: removed_copies_def)
  have "map (\<lambda>b. card (old_copies b (consolidated [b'] ?rows))) bs = map (\<lambda>b. card (old_copies b ?rows)) bs" if "b' = b" for b'
    unfolding that by (intro map_cong refl arg_cong [where f = card] other)
  then have "map (\<lambda>b. card (old_copies b (cd_rows (my_chunks db1)))) bs = map (\<lambda>b. card (old_copies b ?rows)) bs" by (simp add: s(2))
  moreover have "count_where (weak_pattern b' (3/10)) (st_rows (my_patterns db1)) = count_where (weak_pattern b' (3/10)) (st_rows (my_patterns db))"
    if "b' \<in> set bs" for b'
    unfolding s(6) count_where_def filter_filter using Cons.prems(1) that
    by (intro arg_cong [where f = length] filter_cong) (auto simp: weak_pattern_def)
  then have "map (\<lambda>b. count_where (weak_pattern b (3/10)) (st_rows (my_patterns db1))) bs =
      map (\<lambda>b. count_where (weak_pattern b (3/10)) (st_rows (my_patterns db))) bs"
    by (rule map_cong [OF refl])
  ultimately have cnt: "count_up bs db1 (count_up [b] db report) = count_up (b # bs) db report" by (simp only: count_up_def) simp
  from Cons.IH [OF d, of "count_up [b] db report", unfolded cnt s(2) consolidated_Cons s(3-5,7)] obtain db' where
    f: "fold (consolidate_step False) bs (db1, count_up [b] db report) = (db', count_up (b # bs) db report)"
      "cd_rows (my_chunks db') = consolidated (b # bs) ?rows"
      "cd_texts (my_chunks db') = filter (\<lambda>x. fst x \<notin> removed_copies bs (consolidated [b] ?rows)) (filter (\<lambda>x. fst x \<notin> old_copies b ?rows) (cd_texts (my_chunks db)))"
      "cd_fts (my_chunks db') = cd_fts (my_chunks db)" "my_buffers db' = my_buffers db"
      "my_vectors db' = map_option (\<lambda>vs. vs\<lparr>vs_entries := filter (\<lambda>e. ve_chunk e \<notin> removed_copies bs (consolidated [b] ?rows)) (vs_entries vs)\<rparr>)
         (map_option (\<lambda>vs. vs\<lparr>vs_entries := filter (\<lambda>e. ve_chunk e \<notin> old_copies b ?rows) (vs_entries vs)\<rparr>) (my_vectors db))"
    by (elim exE conjE) (rule that)
  show ?case
  proof (intro exI [of _ db'] conjI)
    show "fold (consolidate_step False) (b # bs) (db, report) = (db', count_up (b # bs) db report)" by (simp add: s(1) f(1))
    show "cd_texts (my_chunks db') = filter (\<lambda>x. fst x \<notin> removed_copies (b # bs) ?rows) (cd_texts (my_chunks db))"
      unfolding f(3) rem [symmetric] by simp
    show "my_vectors db' = map_option (\<lambda>vs. vs\<lparr>vs_entries := filter (\<lambda>e. ve_chunk e \<notin> removed_copies (b # bs) ?rows) (vs_entries vs)\<rparr>) (my_vectors db)"
      unfolding f(6) rem [symmetric] option.map_comp by (rule option.map_cong [OF refl]) simp
  qed (fact f(2,4,5))+
qed

section \<open>Expiry\<close>

definition expired :: "real \<Rightarrow> seconds \<Rightarrow> chunk \<Rightarrow> bool" where
  "expired score_floor now c \<longleftrightarrow> decay_score default_decay 1 (age_hours now (ck_accessed c)) < score_floor"

lemma drop_chunks_twice: "drop_chunks A (drop_chunks B db) = drop_chunks (B \<union> A) db"
  by (auto simp: drop_chunks_def case_prod_unfold intro!: chunk_db.equality filter_cong)

lemma drop_no_chunks: "drop_chunks {} db = db"
  by (simp add: drop_chunks_def case_prod_unfold)

lemma delete_strip: "delete_chunk_row i (strip_chunk i db) = db\<lparr>my_chunks := drop_chunks {i} (my_chunks db)\<rparr>"
  by (simp add: delete_chunk_row_def strip_chunk_def drop_chunks_def)

lemma decay_rows_result:
  "decay_rows cfg fl now False xs db (d, k, rm) = (db', Some acc) \<Longrightarrow>
     let gone = map fst (filter (\<lambda>x. decay_score cfg 1 (age_hours now (snd x)) < fl) xs)
     in db' = db\<lparr>my_chunks := drop_chunks (set gone) (my_chunks db)\<rparr> \<and>
        acc = (d + length gone, k + (length xs - length gone), rm @ gone)"
proof (induction xs arbitrary: db d k rm)
  case (Cons x xs)
  obtain i t where x: "x = (i, t)" by (cases x)
  have le: "length (filter p xs) \<le> length xs" for p by (rule length_filter_le)
  show ?case
  proof (cases "decay_score cfg 1 (age_hours now t) < fl")
    case True
    then have "\<not> chunk_referenced i (strip_chunk i db)" using Cons.prems by (auto simp: x Let_def split: if_splits)
    then have "decay_rows cfg fl now False xs (delete_chunk_row i (strip_chunk i db)) (d + 1, k, rm @ [i]) = (db', Some acc)"
      using Cons.prems True by (simp add: x Let_def)
    from Cons.IH [OF this] show ?thesis using True le by (simp add: x Let_def delete_strip drop_chunks_twice)
  next
    case False
    then have "decay_rows cfg fl now False xs db (d, k + 1, rm) = (db', Some acc)" using Cons.prems by (simp add: x)
    from Cons.IH [OF this] show ?thesis using False le by (simp add: x Let_def Suc_diff_le)
  qed
qed (simp add: drop_no_chunks)

lemma decay_rows_dry:
  "decay_rows cfg fl now True xs db (d, k, rm) =
     (let n = length (filter (\<lambda>x. decay_score cfg 1 (age_hours now (snd x)) < fl) xs)
      in (db, Some (d + n, k + (length xs - n), rm)))"
proof (induction xs arbitrary: d k)
  case (Cons x xs)
  obtain i t where x: "x = (i, t)" by (cases x)
  have "length (filter p xs) \<le> k + length xs" for p k by (rule trans_le_add2) (rule length_filter_le)
  then show ?case using Cons by (simp add: x Let_def Suc_diff_le)
qed simp

definition expired_ids :: "real \<Rightarrow> seconds \<Rightarrow> row_id list \<Rightarrow> chunk list \<Rightarrow> row_id set" where
  "expired_ids fl now bs rows = ck_id ` {c \<in> set rows. ck_buffer c \<in> set bs \<and> expired fl now c}"

definition expiry_counts :: "real \<Rightarrow> seconds \<Rightarrow> row_id list \<Rightarrow> chunk list \<Rightarrow> maintenance_report \<Rightarrow> maintenance_report" where
  "expiry_counts fl now bs rows report =
     report\<lparr>mr_decayed := mr_decayed report + sum_list (map (\<lambda>b. count_where (\<lambda>c. ck_buffer c = b \<and> expired fl now c) rows) bs),
            mr_kept := mr_kept report + sum_list (map (\<lambda>b. count_where (\<lambda>c. ck_buffer c = b \<and> \<not> expired fl now c) rows) bs)\<rparr>"

lemma expired_pairs:
  "map fst (filter (\<lambda>x. decay_score default_decay 1 (age_hours now (snd x)) < fl)
     (map (\<lambda>c. (ck_id c, ck_accessed c)) (filter (\<lambda>c. ck_buffer c = b) rows))) =
   map ck_id (filter (\<lambda>c. ck_buffer c = b \<and> expired fl now c) rows)"
  by (induction rows) (auto simp: expired_def)

lemma count_split: "count_where (\<lambda>c. p c \<and> q c) rows + count_where (\<lambda>c. p c \<and> \<not> q c) rows = count_where p rows"
  by (induction rows) (auto simp: count_where_def)

lemma filter_ids:
  assumes "distinct (map rid rows)"
  shows "filter (\<lambda>c. rid c \<notin> rid ` {c \<in> set rows. p c}) rows = filter (\<lambda>c. \<not> p c) rows"
proof (rule filter_cong [OF refl])
  fix c assume c: "c \<in> set rows"
  have "d = c" if "d \<in> set rows" "rid d = rid c" for d using that c assms by (auto simp: distinct_map inj_on_def)
  then show "rid c \<notin> rid ` {c \<in> set rows. p c} \<longleftrightarrow> \<not> p c" using c by (auto simp: image_iff)
qed

lemma run_decay_result:
  assumes "run_decay_for_buffer b default_decay fl now False db = (db', Some (d, k))"
  shows "my_chunks db' = drop_chunks (expired_ids fl now [b] (cd_rows (my_chunks db))) (my_chunks db)"
    "d = count_where (\<lambda>c. ck_buffer c = b \<and> expired fl now c) (cd_rows (my_chunks db))"
    "k = count_where (\<lambda>c. ck_buffer c = b \<and> \<not> expired fl now c) (cd_rows (my_chunks db))"
proof -
  let ?rows = "cd_rows (my_chunks db)"
  let ?xs = "map (\<lambda>c. (ck_id c, ck_accessed c)) (filter (\<lambda>c. ck_buffer c = b) ?rows)"
  obtain db1 rm where run: "decay_rows default_decay fl now False ?xs db (0, 0, []) = (db1, Some (d, k, rm))"
    and db': "db' = drop_orphan_vectors rm db1"
    using assms by (auto simp: run_decay_for_buffer_def split: prod.splits option.splits)
  note r = decay_rows_result [OF run, unfolded expired_pairs Let_def]
  have "set (map ck_id (filter (\<lambda>c. ck_buffer c = b \<and> expired fl now c) ?rows)) = expired_ids fl now [b] ?rows"
    by (auto simp: expired_ids_def)
  then show "my_chunks db' = drop_chunks (expired_ids fl now [b] ?rows) (my_chunks db)" using r by (simp add: db')
  show d: "d = count_where (\<lambda>c. ck_buffer c = b \<and> expired fl now c) ?rows" using r by (simp add: count_where_def)
  have "k = length (filter (\<lambda>c. ck_buffer c = b) ?rows) - d" using r d by (simp add: count_where_def)
  then show "k = count_where (\<lambda>c. ck_buffer c = b \<and> \<not> expired fl now c) ?rows"
    using count_split [of "\<lambda>c. ck_buffer c = b" "expired fl now" ?rows] d by (simp add: count_where_def)
qed

lemma run_decay_dry:
  "run_decay_for_buffer b default_decay fl now True db =
     (db, Some (count_where (\<lambda>c. ck_buffer c = b \<and> expired fl now c) (cd_rows (my_chunks db)),
                count_where (\<lambda>c. ck_buffer c = b \<and> \<not> expired fl now c) (cd_rows (my_chunks db))))"
proof -
  let ?rows = "cd_rows (my_chunks db)"
  let ?xs = "map (\<lambda>c. (ck_id c, ck_accessed c)) (filter (\<lambda>c. ck_buffer c = b) ?rows)"
  have n: "length (filter (\<lambda>x. decay_score default_decay 1 (age_hours now (snd x)) < fl) ?xs) =
      count_where (\<lambda>c. ck_buffer c = b \<and> expired fl now c) ?rows"
    using arg_cong [OF expired_pairs [of now fl b ?rows], of length] by (simp add: count_where_def)
  have k: "length ?xs - count_where (\<lambda>c. ck_buffer c = b \<and> expired fl now c) ?rows =
      count_where (\<lambda>c. ck_buffer c = b \<and> \<not> expired fl now c) ?rows"
    using count_split [of "\<lambda>c. ck_buffer c = b" "expired fl now" ?rows] by (simp add: count_where_def)
  have "decay_rows default_decay fl now True ?xs db (0, 0, []) =
      (db, Some (count_where (\<lambda>c. ck_buffer c = b \<and> expired fl now c) ?rows,
                 count_where (\<lambda>c. ck_buffer c = b \<and> \<not> expired fl now c) ?rows, []))"
    unfolding decay_rows_dry n Let_def k by simp
  then show ?thesis by (simp add: run_decay_for_buffer_def drop_orphan_vectors_def)
qed

definition unexpired :: "real \<Rightarrow> seconds \<Rightarrow> row_id list \<Rightarrow> chunk list \<Rightarrow> chunk list" where
  "unexpired fl now bs rows = filter (\<lambda>c. ck_buffer c \<in> set bs \<longrightarrow> \<not> expired fl now c) rows"

lemma decay_buffers_dry:
  "decay_buffers fl now True bs db report = (db, Some (expiry_counts fl now bs (cd_rows (my_chunks db)) report))"
  by (induction bs arbitrary: report) (simp_all add: run_decay_dry, simp_all add: expiry_counts_def)

lemma decay_buffers_result:
  assumes "decay_buffers fl now False bs db report = (db', Some report')" and "distinct bs"
    and "distinct (map ck_id (cd_rows (my_chunks db)))"
  shows "cd_rows (my_chunks db') = unexpired fl now bs (cd_rows (my_chunks db)) \<and>
    report' = expiry_counts fl now bs (cd_rows (my_chunks db)) report"
  using assms
proof (induction bs arbitrary: db report)
  case Nil
  then show ?case by (simp add: expiry_counts_def unexpired_def)
next
  case (Cons b bs)
  let ?rows = "cd_rows (my_chunks db)"
  obtain db1 d k where r: "run_decay_for_buffer b default_decay fl now False db = (db1, Some (d, k))"
    and rest: "decay_buffers fl now False bs db1 (report\<lparr>mr_decayed := mr_decayed report + d, mr_kept := mr_kept report + k\<rparr>) = (db', Some report')"
    using Cons.prems(1) by (auto split: prod.splits option.splits)
  note step = run_decay_result [OF r]
  have rows: "cd_rows (my_chunks db1) = unexpired fl now [b] ?rows"
    using filter_ids [OF Cons.prems(3), of "\<lambda>c. ck_buffer c = b \<and> expired fl now c"]
    by (simp add: step(1) drop_chunks_def expired_ids_def unexpired_def)
  have ids: "distinct (map ck_id (cd_rows (my_chunks db1)))" unfolding rows unexpired_def by (rule distinct_map_filter [OF Cons.prems(3)])
  have "count_where (\<lambda>c. ck_buffer c = b' \<and> p c) (unexpired fl now [b] ?rows) = count_where (\<lambda>c. ck_buffer c = b' \<and> p c) ?rows"
    if "b' \<in> set bs" for b' p
    unfolding count_where_def unexpired_def filter_filter using that Cons.prems(2)
    by (intro arg_cong [where f = length] filter_cong) auto
  then have "map (\<lambda>b'. count_where (\<lambda>c. ck_buffer c = b' \<and> p c) (unexpired fl now [b] ?rows)) bs =
      map (\<lambda>b'. count_where (\<lambda>c. ck_buffer c = b' \<and> p c) ?rows) bs" for p
    by (intro map_cong) auto
  then have "expiry_counts fl now bs (unexpired fl now [b] ?rows) (report\<lparr>mr_decayed := mr_decayed report + d, mr_kept := mr_kept report + k\<rparr>) =
      expiry_counts fl now (b # bs) ?rows report"
    by (simp only: expiry_counts_def step(2,3)) simp
  moreover have "unexpired fl now bs (unexpired fl now [b] ?rows) = unexpired fl now (b # bs) ?rows"
    by (auto simp: unexpired_def intro: filter_cong)
  ultimately show ?case using Cons.IH [OF rest _ ids] Cons.prems(2) by (simp add: rows)
qed

lemma resolved_distinct:
  assumes "buffers_inv bufs"
  shows "distinct (resolve_buffer_ids project (bd_rows bufs))"
  using assms by (auto simp: resolve_buffer_ids_def buffers_inv_def rows_wf_def list_buffers_def distinct_order_by split: option.split)

lemma sum_counts:
  assumes "distinct bs"
  shows "sum_list (map (\<lambda>b. count_where (\<lambda>c. key c = b \<and> p c) rows) bs) = count_where (\<lambda>c. key c \<in> set bs \<and> p c) rows"
  using assms
proof (induction bs)
  case (Cons b bs)
  have "count_where (\<lambda>c. key c \<in> set (b # bs) \<and> p c) rows =
      count_where (\<lambda>c. key c = b \<and> p c) rows + count_where (\<lambda>c. key c \<in> set bs \<and> p c) rows"
    using Cons.prems by (induction rows) (auto simp: count_where_def)
  then show ?case using Cons by simp
qed (simp add: count_where_def)

section \<open>A whole pass\<close>

lemma consolidate_result:
  assumes "buffers_inv (my_buffers db)" and "distinct (map ck_id (cd_rows (my_chunks db)))"
    and "bs = resolve_buffer_ids project (bd_rows (my_buffers db))"
  obtains db1 where "consolidate project False db = (db1, count_up bs db empty_report)"
    "consolidate project True db = (db, count_up bs db empty_report)"
    "cd_rows (my_chunks db1) = consolidated bs (cd_rows (my_chunks db))"
    "cd_texts (my_chunks db1) = filter (\<lambda>x. fst x \<notin> removed_copies bs (cd_rows (my_chunks db))) (cd_texts (my_chunks db))"
    "cd_fts (my_chunks db1) = cd_fts (my_chunks db)" "my_buffers db1 = my_buffers db"
proof -
  have d: "distinct bs" unfolding assms(3) by (rule resolved_distinct [OF assms(1)])
  from consolidate_real [OF d assms(2), of empty_report] obtain db1 where
    r: "fold (consolidate_step False) bs (db, empty_report) = (db1, count_up bs db empty_report)"
      "cd_rows (my_chunks db1) = consolidated bs (cd_rows (my_chunks db))"
      "cd_texts (my_chunks db1) = filter (\<lambda>x. fst x \<notin> removed_copies bs (cd_rows (my_chunks db))) (cd_texts (my_chunks db))"
      "cd_fts (my_chunks db1) = cd_fts (my_chunks db)" "my_buffers db1 = my_buffers db"
    by (elim exE conjE) (rule that; assumption)
  show ?thesis
    by (rule that [OF _ _ r(2-5)]) (simp_all only: consolidate_fold assms(3) [symmetric] consolidate_dry [OF assms(2)] r(1))
qed

text \<open>
  C31: The pass as a whole: a chunk of a project it covers survives when it is the newest copy of its
  text in the project, retired revisions counted, and has not expired; every other chunk
  survives. The report adds up: duplicates, decayed and remaining chunks are all chunks, and
  \<open>kept\<close> is what remains of the projects covered.
\<close>

theorem maintenance_exact:
  assumes "buffers_inv (my_buffers db)" and "distinct (map ck_id (cd_rows (my_chunks db)))"
    and "run_maintenance project fl now False db = (db', Some report)"
    and bs: "bs = resolve_buffer_ids project (bd_rows (my_buffers db))"
  shows "cd_rows (my_chunks db') =
      filter (\<lambda>c. ck_buffer c \<in> set bs \<longrightarrow> newest_copy (cd_rows (my_chunks db)) c \<and> \<not> expired fl now c) (cd_rows (my_chunks db)) \<and>
    mr_duplicates report + mr_decayed report + length (cd_rows (my_chunks db')) = length (cd_rows (my_chunks db)) \<and>
    mr_kept report = count_where (\<lambda>c. ck_buffer c \<in> set bs) (cd_rows (my_chunks db'))"
proof -
  let ?rows = "cd_rows (my_chunks db)"
  let ?rows1 = "consolidated bs ?rows"
  have d: "distinct bs" unfolding bs by (rule resolved_distinct [OF assms(1)])
  obtain db1 where c: "consolidate project False db = (db1, count_up bs db empty_report)"
    "cd_rows (my_chunks db1) = ?rows1" "my_buffers db1 = my_buffers db" by (rule consolidate_result [OF assms(1,2) bs])
  obtain rep where r: "decay_buffers fl now False bs db1 empty_report = (db', Some rep)"
    and report: "report = merge_report (count_up bs db empty_report) rep"
    using assms(3) by (auto simp: run_maintenance_def c decay_memory_def bs split: prod.splits option.splits)
  note dec = decay_buffers_result [OF r d, unfolded c(2), OF consolidated_ids [OF assms(2)]]
  have rows: "cd_rows (my_chunks db') = unexpired fl now bs ?rows1" using dec by blast
  have "mr_decayed report = count_where (\<lambda>c. ck_buffer c \<in> set bs \<and> expired fl now c) ?rows1"
    using dec sum_counts [OF d, of ck_buffer "expired fl now" ?rows1]
    by (simp add: report merge_report_def count_up_def empty_report_def expiry_counts_def)
  moreover have "length (unexpired fl now bs ?rows1) + count_where (\<lambda>c. ck_buffer c \<in> set bs \<and> expired fl now c) ?rows1 = length ?rows1"
    using sum_length_filter_compl [of "\<lambda>c. ck_buffer c \<in> set bs \<and> expired fl now c" ?rows1]
    by (simp add: unexpired_def count_where_def add.commute)
  moreover have "mr_duplicates report = sum_list (map (\<lambda>b. card (old_copies b ?rows)) bs)"
    using dec by (simp add: report merge_report_def count_up_def empty_report_def expiry_counts_def)
  ultimately have sum: "mr_duplicates report + mr_decayed report + length (cd_rows (my_chunks db')) = length ?rows"
    using consolidated_count [OF d assms(2)] rows by simp
  have "mr_kept report = count_where (\<lambda>c. ck_buffer c \<in> set bs \<and> \<not> expired fl now c) ?rows1"
    using dec sum_counts [OF d, of ck_buffer "\<lambda>c. \<not> expired fl now c" ?rows1]
    by (simp add: report merge_report_def count_up_def empty_report_def expiry_counts_def)
  moreover have "count_where (\<lambda>c. ck_buffer c \<in> set bs) (unexpired fl now bs ?rows1) =
      count_where (\<lambda>c. ck_buffer c \<in> set bs \<and> \<not> expired fl now c) ?rows1"
    unfolding count_where_def unexpired_def filter_filter by (intro arg_cong [where f = length] filter_cong) auto
  moreover have "unexpired fl now bs ?rows1 = filter (\<lambda>c. ck_buffer c \<in> set bs \<longrightarrow> newest_copy ?rows c \<and> \<not> expired fl now c) ?rows"
    unfolding unexpired_def consolidated_def filter_filter by (rule filter_cong) auto
  ultimately show ?thesis using sum rows by simp
qed

text \<open>
  A dry run changes nothing and cannot fail. It reports the duplicates and patterns of the real
  pass; its decayed and kept chunks count the duplicates again.
\<close>

theorem maintenance_dry_run:
  assumes "buffers_inv (my_buffers db)" and "distinct (map ck_id (cd_rows (my_chunks db)))"
    and "run_maintenance project fl now False db = (db', Some report)"
  shows "\<exists>dry. run_maintenance project fl now True db = (db, Some dry) \<and>
    mr_duplicates dry = mr_duplicates report \<and> mr_patterns dry = mr_patterns report \<and>
    mr_decayed report \<le> mr_decayed dry \<and> mr_kept report \<le> mr_kept dry \<and>
    mr_decayed dry + mr_kept dry = mr_decayed report + mr_kept report + mr_duplicates report"
proof -
  define bs where bs: "bs = resolve_buffer_ids project (bd_rows (my_buffers db))"
  let ?rows = "cd_rows (my_chunks db)"
  let ?rows1 = "consolidated bs ?rows"
  have d: "distinct bs" unfolding bs by (rule resolved_distinct [OF assms(1)])
  obtain db1 where c: "consolidate project False db = (db1, count_up bs db empty_report)"
    "consolidate project True db = (db, count_up bs db empty_report)"
    "cd_rows (my_chunks db1) = ?rows1" "my_buffers db1 = my_buffers db" by (rule consolidate_result [OF assms(1,2) bs])
  obtain rep where r: "decay_buffers fl now False bs db1 empty_report = (db', Some rep)"
    and report: "report = merge_report (count_up bs db empty_report) rep"
    using assms(3) by (auto simp: run_maintenance_def c decay_memory_def bs split: prod.splits option.splits)
  note dec = decay_buffers_result [OF r d, unfolded c(3), OF consolidated_ids [OF assms(2)]]
  let ?dry = "merge_report (count_up bs db empty_report) (expiry_counts fl now bs ?rows empty_report)"
  have run: "run_maintenance project fl now True db = (db, Some ?dry)"
    by (simp add: run_maintenance_def c(2) decay_memory_def decay_buffers_dry bs [symmetric])
  have counts: "mr_decayed report = count_where (\<lambda>c. ck_buffer c \<in> set bs \<and> expired fl now c) ?rows1"
    "mr_kept report = count_where (\<lambda>c. ck_buffer c \<in> set bs \<and> \<not> expired fl now c) ?rows1"
    "mr_decayed ?dry = count_where (\<lambda>c. ck_buffer c \<in> set bs \<and> expired fl now c) ?rows"
    "mr_kept ?dry = count_where (\<lambda>c. ck_buffer c \<in> set bs \<and> \<not> expired fl now c) ?rows"
    using dec by (simp_all add: report merge_report_def count_up_def empty_report_def expiry_counts_def sum_counts [OF d])
  have sub: "count_where p ?rows1 \<le> count_where p ?rows" for p
  proof -
    have "filter p (filter q xs) = filter q (filter p xs)" for q and xs :: "chunk list" by (auto intro: filter_cong)
    then show ?thesis unfolding count_where_def consolidated_def by (metis length_filter_le)
  qed
  have "count_where (\<lambda>c. ck_buffer c \<in> set bs) ?rows1 + (length ?rows - length ?rows1) = count_where (\<lambda>c. ck_buffer c \<in> set bs) ?rows"
  proof -
    have out: "count_where (\<lambda>c. ck_buffer c \<notin> set bs) ?rows1 = count_where (\<lambda>c. ck_buffer c \<notin> set bs) ?rows"
      unfolding count_where_def consolidated_def filter_filter by (intro arg_cong [where f = length] filter_cong) auto
    have "count_where (\<lambda>c. ck_buffer c \<in> set bs) xs + count_where (\<lambda>c. ck_buffer c \<notin> set bs) xs = length xs" for xs
      unfolding count_where_def by (rule sum_length_filter_compl)
    from this [of ?rows1] this [of ?rows] show ?thesis using out sub [of "\<lambda>c. ck_buffer c \<in> set bs"] by linarith
  qed
  moreover have "mr_duplicates report = length ?rows - length ?rows1"
    using dec consolidated_count [OF d assms(2)] by (simp add: report merge_report_def count_up_def empty_report_def expiry_counts_def)
  ultimately have "mr_decayed ?dry + mr_kept ?dry = mr_decayed report + mr_kept report + mr_duplicates report"
    unfolding counts count_split by simp
  moreover have "mr_duplicates ?dry = mr_duplicates report" "mr_patterns ?dry = mr_patterns report"
    using dec by (simp_all add: report merge_report_def expiry_counts_def)
  ultimately show ?thesis using run counts sub by (intro exI [of _ ?dry]) simp
qed

section \<open>How long a chunk lives\<close>

lemma not_expired_iff:
  assumes "0 < fl" and "fl \<le> 1"
  shows "\<not> expired fl now c \<longleftrightarrow> age_hours now (ck_accessed c) \<le> 100 * ln (1 / fl)"
proof (cases "age_hours now (ck_accessed c) \<le> 0")
  case True
  have "0 \<le> 100 * ln (1 / fl)" using assms by simp
  then have "age_hours now (ck_accessed c) \<le> 100 * ln (1 / fl)" using True by linarith
  then show ?thesis using True assms by (simp add: expired_def decay_score_def)
next
  case False
  let ?a = "age_hours now (ck_accessed c)"
  have "\<not> expired fl now c \<longleftrightarrow> fl \<le> exp (- (1/100) * ?a)" using False by (simp add: expired_def decay_score_def default_decay_def not_less)
  also have "\<dots> \<longleftrightarrow> ln fl \<le> - (1/100) * ?a" using assms(1) by (metis exp_ln exp_le_cancel_iff)
  also have "\<dots> \<longleftrightarrow> ?a \<le> 100 * ln (1 / fl)" using assms by (simp add: ln_div) linarith
  finally show ?thesis .
qed

lemma ten_days: "100 * ln (10::real) \<le> 240"
proof -
  have "(1 + 2/25 + (2/25)\<^sup>2 / 2) ^ 30 \<le> (exp (2/25 :: real)) ^ 30"
    by (rule power_mono) (use exp_lower_Taylor_quadratic [of "2/25"] in simp_all)
  moreover have "(10::real) \<le> (1 + 2/25 + (2/25)\<^sup>2 / 2) ^ 30" by (simp add: power2_eq_square field_simps)
  moreover have "(exp (2/25 :: real)) ^ 30 = exp (12/5)" by (simp flip: exp_of_nat_mult)
  ultimately have "(10::real) \<le> exp (12/5)" by linarith
  then have "ln 10 \<le> (12/5 :: real)" by (metis exp_le_cancel_iff exp_ln zero_less_numeral)
  then show ?thesis by simp
qed

text \<open>
  No search and no other reading call refreshes the time of the last access: with a floor
  between 0 and 1, no chunk of a project covered is left whose row was written longer ago than
  \<open>100 ln (1 / floor)\<close> hours, live or retired. With the default floor that is less than ten days.
\<close>

theorem maintenance_expiry:
  assumes "buffers_inv (my_buffers db)" and "distinct (map ck_id (cd_rows (my_chunks db)))"
    and "run_maintenance project fl now False db = (db', Some report)"
    and "bs = resolve_buffer_ids project (bd_rows (my_buffers db))" and "0 < fl" and "fl \<le> 1"
  shows "(\<forall>c\<in>set (cd_rows (my_chunks db')). ck_buffer c \<in> set bs \<longrightarrow> age_hours now (ck_accessed c) \<le> 100 * ln (1 / fl)) \<and>
    (fl = default_decay_floor \<longrightarrow>
      (\<forall>c\<in>set (cd_rows (my_chunks db')). ck_buffer c \<in> set bs \<longrightarrow> now - 10 * 86400 \<le> ck_accessed c))"
proof -
  let ?rows = "cd_rows (my_chunks db)"
  obtain db1 where c: "consolidate project False db = (db1, count_up bs db empty_report)"
    "cd_rows (my_chunks db1) = consolidated bs ?rows" "my_buffers db1 = my_buffers db" by (rule consolidate_result [OF assms(1,2,4)])
  obtain rep where r: "decay_buffers fl now False bs db1 empty_report = (db', Some rep)"
    using assms(3,4) by (auto simp: run_maintenance_def c decay_memory_def split: prod.splits option.splits)
  have d: "distinct bs" unfolding assms(4) by (rule resolved_distinct [OF assms(1)])
  have "cd_rows (my_chunks db') = unexpired fl now bs (consolidated bs ?rows)"
    using decay_buffers_result [OF r d, unfolded c(2), OF consolidated_ids [OF assms(2)]] by blast
  then have age: "age_hours now (ck_accessed x) \<le> 100 * ln (1 / fl)" if "x \<in> set (cd_rows (my_chunks db'))" "ck_buffer x \<in> set bs" for x
    using that by (auto simp: unexpired_def not_expired_iff [OF assms(5,6)])
  moreover have "now - 10 * 86400 \<le> ck_accessed x"
    if "fl = default_decay_floor" "x \<in> set (cd_rows (my_chunks db'))" "ck_buffer x \<in> set bs" for x
  proof -
    have "age_hours now (ck_accessed x) \<le> 240" using age [OF that(2,3)] that(1) ten_days by (simp add: default_decay_floor_def)
    then have "real_of_int (now - ck_accessed x) \<le> real_of_int 864000" by (simp add: age_hours_def)
    then show ?thesis unfolding of_int_le_iff by simp
  qed
  ultimately show ?thesis by blast
qed

section \<open>What a pass can lose\<close>

text \<open>
  Copies are compared across files and across revisions. A live chunk with a later row of the
  same text in its project, live in another file or retired, is deleted: its place has no live
  chunk any more, while the search index still lists the deleted row. When no other live chunk
  has the text, the text is gone from what can be found.
\<close>

theorem consolidation_loses_live:
  assumes "buffers_inv (my_buffers db)" and inv: "chunk_inv (my_chunks db)"
    and "consolidate project False db = (db', report)"
    and c: "c \<in> set (cd_rows (my_chunks db))" "ck_active c" "ck_buffer c \<in> set (resolve_buffer_ids project (bd_rows (my_buffers db)))"
    and d: "d \<in> set (cd_rows (my_chunks db))" "ck_buffer d = ck_buffer c" "ck_hash d = ck_hash c" "ck_id c < ck_id d"
  shows "(\<forall>x\<in>set (cd_rows (my_chunks db')). ck_active x \<longrightarrow> place x \<noteq> place c) \<and>
    ck_id c \<in> fst ` set (cd_fts (my_chunks db')) \<and> ck_id c \<notin> fst ` set (cd_texts (my_chunks db')) \<and>
    ((\<forall>x\<in>set (cd_rows (my_chunks db)). ck_active x \<longrightarrow> ck_buffer x = ck_buffer c \<longrightarrow> ck_hash x = ck_hash c \<longrightarrow> x = c) \<longrightarrow>
      (\<forall>x\<in>set (cd_rows (my_chunks db')). ck_active x \<longrightarrow> ck_buffer x = ck_buffer c \<longrightarrow> ck_hash x \<noteq> ck_hash c))"
proof -
  let ?bs = "resolve_buffer_ids project (bd_rows (my_buffers db))" and ?rows = "cd_rows (my_chunks db)"
  have ids: "distinct (map ck_id ?rows)" using inv by (simp add: chunk_inv_def rows_wf_def)
  obtain db1 where r: "consolidate project False db = (db1, count_up ?bs db empty_report)"
    "cd_rows (my_chunks db1) = consolidated ?bs ?rows"
    "cd_texts (my_chunks db1) = filter (\<lambda>x. fst x \<notin> removed_copies ?bs ?rows) (cd_texts (my_chunks db))"
    "cd_fts (my_chunks db1) = cd_fts (my_chunks db)"
    by (rule consolidate_result [OF assms(1) ids refl])
  have db': "db' = db1" using assms(3) r(1) by simp
  have old: "\<not> newest_copy ?rows c" using d by (auto simp: newest_copy_iff not_le)
  then have gone: "c \<notin> set (cd_rows (my_chunks db'))" using c by (simp add: db' r(2) consolidated_def)
  have sub: "set (cd_rows (my_chunks db')) \<subseteq> set ?rows" by (auto simp: db' r(2) consolidated_def)
  have "x = c" if "x \<in> set ?rows" "ck_active x" "place x = place c" for x
    using inv that c by (auto simp: chunk_inv_def intro: one_activeD)
  then have "\<forall>x\<in>set (cd_rows (my_chunks db')). ck_active x \<longrightarrow> place x \<noteq> place c" using gone sub by blast
  moreover have "ck_id c \<in> fst ` set (cd_fts (my_chunks db'))"
    using inv c by (auto simp: db' r(4) chunk_inv_def active_ids_def)
  moreover have "ck_id c \<in> removed_copies ?bs ?rows" using c old by (auto simp: removed_copies_def old_copies_def)
  then have "ck_id c \<notin> fst ` set (cd_texts (my_chunks db'))" by (auto simp: db' r(3))
  ultimately show ?thesis using gone sub by blast
qed

section \<open>A failing pass\<close>

lemma referenced_strip [simp]:
  "chunk_referenced i (strip_chunk j db) = chunk_referenced i db" "chunk_referenced i (delete_chunk_row j db) = chunk_referenced i db"
  by (simp_all add: chunk_referenced_def strip_chunk_def delete_chunk_row_def)

lemma decay_rows_blocked:
  assumes "(i, t) \<in> set xs" and "decay_score cfg 1 (age_hours now t) < fl" and "chunk_referenced i db"
    and "fst ` set xs \<subseteq> ck_id ` set (cd_rows (my_chunks db))" and "distinct (map fst xs)"
  shows "\<exists>db'. decay_rows cfg fl now False xs db acc = (db', None) \<and>
    (\<exists>c\<in>set (cd_rows (my_chunks db')). chunk_referenced (ck_id c) db' \<and> ck_id c \<notin> fst ` set (cd_texts (my_chunks db')))"
  using assms
proof (induction xs arbitrary: db acc)
  case (Cons x xs)
  obtain j s where x: "x = (j, s)" by (cases x)
  obtain d k rm where acc: "acc = (d, k, rm)" by (cases acc)
  show ?case
  proof (cases "decay_score cfg 1 (age_hours now s) < fl")
    case True
    show ?thesis
    proof (cases "chunk_referenced j db")
      case ref: True
      let ?db = "strip_chunk j db"
      have "decay_rows cfg fl now False (x # xs) db acc = (?db, None)" using True ref by (simp add: x acc)
      moreover obtain c where "c \<in> set (cd_rows (my_chunks db))" "ck_id c = j" using Cons.prems(4) by (auto simp: x)
      then have "c \<in> set (cd_rows (my_chunks ?db)) \<and> chunk_referenced (ck_id c) ?db \<and> ck_id c \<notin> fst ` set (cd_texts (my_chunks ?db))"
        using ref by (auto simp: strip_chunk_def chunk_referenced_def)
      ultimately show ?thesis by blast
    next
      case False
      then have i: "i \<noteq> j" using Cons.prems(3) by auto
      let ?db = "delete_chunk_row j (strip_chunk j db)"
      have "ck_id ` set (cd_rows (my_chunks ?db)) = ck_id ` set (cd_rows (my_chunks db)) - {j}"
        by (auto simp: delete_chunk_row_def strip_chunk_def)
      moreover have "fst ` set xs \<subseteq> ck_id ` set (cd_rows (my_chunks db)) - {j}"
        using Cons.prems(4,5) unfolding x by (simp, blast)
      ultimately have "fst ` set xs \<subseteq> ck_id ` set (cd_rows (my_chunks ?db))" by simp
      moreover have "(i, t) \<in> set xs" using Cons.prems(1) i by (simp add: x)
      ultimately show ?thesis using Cons.IH [of ?db "(d + 1, k, rm @ [j])"] Cons.prems True False by (simp add: x acc)
    qed
  next
    case False
    then have "(i, t) \<in> set xs" using Cons.prems(1,2) by (auto simp: x)
    then show ?thesis using Cons.IH [of db "(d, k + 1, rm)"] Cons.prems False by (simp add: x acc)
  qed
qed simp

text \<open>
  An expired chunk that a task or a finding points to stops the pass at a foreign key, after the
  chunk lost its text: the row stays without it.
\<close>

theorem decay_task_blocks:
  assumes "c \<in> set (cd_rows (my_chunks db))" and "ck_buffer c = b" and "expired fl now c" and "chunk_referenced (ck_id c) db"
    and "distinct (map ck_id (cd_rows (my_chunks db)))"
  shows "\<exists>db'. run_decay_for_buffer b default_decay fl now False db = (db', None) \<and>
    (\<exists>x\<in>set (cd_rows (my_chunks db')). chunk_referenced (ck_id x) db' \<and> ck_id x \<notin> fst ` set (cd_texts (my_chunks db')))"
proof -
  let ?xs = "map (\<lambda>c. (ck_id c, ck_accessed c)) (filter (\<lambda>c. ck_buffer c = b) (cd_rows (my_chunks db)))"
  have m: "(ck_id c, ck_accessed c) \<in> set ?xs" using assms(1,2) by auto
  have e: "decay_score default_decay 1 (age_hours now (ck_accessed c)) < fl" using assms(3) by (simp add: expired_def)
  have s: "fst ` set ?xs \<subseteq> ck_id ` set (cd_rows (my_chunks db))" by auto
  have d: "distinct (map fst ?xs)" using distinct_map_filter [OF assms(5), of "\<lambda>c. ck_buffer c = b"] by (simp add: comp_def)
  from decay_rows_blocked [OF m e assms(4) s d, of "(0, 0, [])"] obtain db' where db':
    "decay_rows default_decay fl now False ?xs db (0, 0, []) = (db', None)"
    "\<exists>x\<in>set (cd_rows (my_chunks db')). chunk_referenced (ck_id x) db' \<and> ck_id x \<notin> fst ` set (cd_texts (my_chunks db'))"
    by (elim exE conjE) (rule that; assumption)
  have "run_decay_for_buffer b default_decay fl now False db = (db', None)" by (simp add: run_decay_for_buffer_def db'(1))
  then show ?thesis using db'(2) by blast
qed

section \<open>Typing of the tables\<close>

text \<open>
  Every stored reference has its target: ids are distinct and below the sequence, a chunk has
  its project, a text and an entity their chunk, a task its chunk, a finding its task and chunk,
  a pattern its project. \<open>B\<close> and \<open>C\<close> are the ids of the projects and chunks.
\<close>

definition chunk_typed :: "row_id set \<Rightarrow> chunk_db \<Rightarrow> bool" where
  "chunk_typed B d \<longleftrightarrow> rows_wf ck_id (cd_rows d) \<and> (\<forall>c\<in>set (cd_rows d). ck_id c \<le> cd_seq d \<and> ck_buffer c \<in> B) \<and> 0 \<le> cd_seq d \<and>
     fst ` set (cd_texts d) \<subseteq> ck_id ` set (cd_rows d) \<and> fst ` set (cd_entities d) \<subseteq> ck_id ` set (cd_rows d)"

definition work_typed ::
  "row_id set \<Rightarrow> row_id set \<Rightarrow> task_row seq_table \<Rightarrow> finding_row seq_table \<Rightarrow> pattern_row seq_table \<Rightarrow> bool" where
  "work_typed B C tasks findings patterns \<longleftrightarrow>
     table_ok tsk_id tasks \<and> table_ok fnd_id findings \<and> table_ok pat_id patterns \<and>
     (\<forall>t\<in>set (st_rows tasks). set_option (tsk_chunk t) \<subseteq> C) \<and>
     (\<forall>f\<in>set (st_rows findings). set_option (fnd_chunk f) \<subseteq> C \<and> fnd_task f \<in> tsk_id ` set (st_rows tasks)) \<and>
     (\<forall>p\<in>set (st_rows patterns). set_option (pat_buffer p) \<subseteq> B)"

definition chunk_ids :: "memory_db \<Rightarrow> row_id set" where
  "chunk_ids db = ck_id ` set (cd_rows (my_chunks db))"

definition buffer_ids :: "memory_db \<Rightarrow> row_id set" where
  "buffer_ids db = bf_id ` set (bd_rows (my_buffers db))"

definition memory_typed :: "memory_db \<Rightarrow> bool" where
  "memory_typed db \<longleftrightarrow> buffers_inv (my_buffers db) \<and> chunk_typed (buffer_ids db) (my_chunks db) \<and>
     work_typed (buffer_ids db) (chunk_ids db) (my_tasks db) (my_findings db) (my_patterns db)"

lemma known_iff:
  "known_chunk i chunks \<longleftrightarrow> set_option i \<subseteq> ck_id ` set chunks" "known_buffer i bufs \<longleftrightarrow> set_option i \<subseteq> bf_id ` set bufs"
  by (auto simp: known_chunk_def known_buffer_def list_ex_iff split: option.split)

lemma work_typed_mono: "work_typed B C tasks findings patterns \<Longrightarrow> B \<subseteq> B' \<Longrightarrow> C \<subseteq> C' \<Longrightarrow> work_typed B' C' tasks findings patterns"
  by (fastforce simp: work_typed_def)

lemma chunk_typed_mono: "chunk_typed B d \<Longrightarrow> B \<subseteq> B' \<Longrightarrow> chunk_typed B' d"
  by (auto simp: chunk_typed_def)

lemma entities_added: "set (cd_entities (fold (add_entity i) es db)) = set (cd_entities db) \<union> (\<lambda>e. (i, e)) ` set es"
  by (induction es arbitrary: db) (auto simp: add_entity_def)

lemma insert_chunk_typed:
  assumes "chunk_typed B d" and "b \<in> B" and "insert_active_chunk extract now b f c h v u m d = (d', i)"
  shows "chunk_typed B d' \<and> ck_id ` set (cd_rows d) \<subseteq> ck_id ` set (cd_rows d')"
proof -
  note s = insert_active_chunk_simps [OF assms(3)]
  have "set (cd_entities d') = set (cd_entities d) \<union> (\<lambda>e. (i, e)) ` set (extract (ix_content c) f)"
    using assms(3) by (auto simp: insert_active_chunk_def Let_def entities_added)
  moreover have "rows_wf ck_id (cd_rows d')" using assms(1) by (force simp: s(1,2) chunk_typed_def rows_wf_def)
  ultimately show ?thesis using assms(1,2) by (force simp: chunk_typed_def s)
qed

lemma retire_typed:
  assumes "chunk_typed B d"
  shows "chunk_typed B (retire_row now i s d) \<and> ck_id ` set (cd_rows (retire_row now i s d)) = ck_id ` set (cd_rows d)"
proof -
  let ?d = "retire_row now i s d"
  have ids: "map ck_id (cd_rows ?d) = map ck_id (cd_rows d)" "map ck_buffer (cd_rows ?d) = map ck_buffer (cd_rows d)"
    by (simp_all add: retire_row_rows)
  have img: "ck_id ` set (cd_rows ?d) = ck_id ` set (cd_rows d)" using arg_cong [OF ids(1), of set] by simp
  have "list_all (\<lambda>c. 0 < ck_id c) (cd_rows ?d)"
    using assms by (auto simp: chunk_typed_def rows_wf_def list_all_iff retire_row_rows)
  then have "rows_wf ck_id (cd_rows ?d)" unfolding rows_wf_def ids using assms by (simp add: chunk_typed_def rows_wf_def)
  moreover have "ck_id c \<le> cd_seq d \<and> ck_buffer c \<in> B" if "c \<in> set (cd_rows ?d)" for c
    using that assms by (auto simp: in_retired_rows chunk_typed_def)
  ultimately show ?thesis using assms img by (auto simp: chunk_typed_def) (simp_all add: retire_row_def image_iff, fastforce+)
qed

lemma insert_step_typed:
  assumes "chunk_typed B d" and "b \<in> B"
  shows "chunk_typed B (fst (insert_chunk_step extract now b active u m x (d, res))) \<and>
    ck_id ` set (cd_rows d) \<subseteq> ck_id ` set (cd_rows (fst (insert_chunk_step extract now b active u m x (d, res))))"
proof -
  obtain f c where x: "x = (f, c)" by (cases x)
  have ins: "chunk_typed B (fst (insert_active_chunk extract now b f c h v u m d)) \<and>
      ck_id ` set (cd_rows d) \<subseteq> ck_id ` set (cd_rows (fst (insert_active_chunk extract now b f c h v u m d)))" for h v
    using insert_chunk_typed [OF assms, of "extract" now f c h v u m] by (metis prod.collapse)
  have both: "chunk_typed B (retire_row now i s (fst (insert_active_chunk extract now b f c h v u m d))) \<and>
      ck_id ` set (cd_rows d) \<subseteq> ck_id ` set (cd_rows (retire_row now i s (fst (insert_active_chunk extract now b f c h v u m d))))" for h v i s
    using ins [of h v] retire_typed [of B "fst (insert_active_chunk extract now b f c h v u m d)" now i s] by auto
  show ?thesis
    unfolding x insert_chunk_step_def case_prod_conv Let_def
    using assms(1) ins both by (auto split: option.splits prod.splits if_splits) (metis fst_conv subsetD image_eqI)+
qed

lemma insert_batch_typed:
  assumes "chunk_typed B d" and "b \<in> B"
  shows "chunk_typed B (fst (insert_chunks_batched extract now b items n active u m d)) \<and>
    ck_id ` set (cd_rows d) \<subseteq> ck_id ` set (cd_rows (fst (insert_chunks_batched extract now b items n active u m d)))"
proof -
  have "chunk_typed B (fst (fold (insert_chunk_step extract now b active u m) items (d, res))) \<and>
      ck_id ` set (cd_rows d) \<subseteq> ck_id ` set (cd_rows (fst (fold (insert_chunk_step extract now b active u m) items (d, res))))" for res
    using assms(1)
  proof (induction items arbitrary: d res)
    case (Cons x items)
    obtain d1 r1 where s: "insert_chunk_step extract now b active u m x (d, res) = (d1, r1)" by (metis prod.exhaust)
    from insert_step_typed [OF Cons.prems assms(2), of "extract" now active u m x res]
    have "chunk_typed B d1" "ck_id ` set (cd_rows d) \<subseteq> ck_id ` set (cd_rows d1)" by (simp_all add: s)
    then show ?case using Cons.IH [of d1 r1] by (simp add: s) blast
  qed simp
  then show ?thesis unfolding insert_chunks_batched_fold .
qed

text \<open>The deletions of a pass.\<close>

lemma typed_delete:
  assumes "memory_typed db"
  shows "memory_typed (delete_with_dependents ids db)"
proof -
  have "work_typed (buffer_ids db) (chunk_ids db - ids) (my_tasks (delete_with_dependents ids db))
      (my_findings (delete_with_dependents ids db)) (my_patterns db)"
  proof -
    have ok: "table_ok tsk_id (my_tasks (delete_with_dependents ids db))" "table_ok fnd_id (my_findings (delete_with_dependents ids db))"
      using assms by (simp_all add: delete_with_dependents_def Let_def memory_typed_def work_typed_def)
    have opt: "set_option i \<subseteq> C - ids" if "set_option i \<subseteq> C" "\<not> points_into ids i" for i C
      using that by (auto simp: points_into_def split: option.splits)
    have task: "fnd_task f \<in> tsk_id ` {t \<in> set (st_rows (my_tasks db)). \<not> points_into ids (tsk_chunk t)}"
      if "fnd_task f \<in> tsk_id ` set (st_rows (my_tasks db))" "fnd_task f \<notin> doomed_tasks ids (st_rows (my_tasks db))" for f
    proof -
      obtain t where "t \<in> set (st_rows (my_tasks db))" "fnd_task f = tsk_id t" using \<open>fnd_task f \<in> tsk_id ` set (st_rows (my_tasks db))\<close> by blast
      moreover from this have "\<not> points_into ids (tsk_chunk t)" using \<open>fnd_task f \<notin> doomed_tasks ids (st_rows (my_tasks db))\<close> by (auto simp: doomed_tasks_def)
      ultimately show ?thesis by blast
    qed
    have w: "work_typed (buffer_ids db) (chunk_ids db) (my_tasks db) (my_findings db) (my_patterns db)"
      using assms by (simp add: memory_typed_def)
    show ?thesis
      unfolding work_typed_def
    proof (intro conjI ballI)
      fix f assume "f \<in> set (st_rows (my_findings (delete_with_dependents ids db)))"
      then have f: "f \<in> set (st_rows (my_findings db))" "\<not> points_into ids (fnd_chunk f)" "fnd_task f \<notin> doomed_tasks ids (st_rows (my_tasks db))"
        by simp_all
      then show "set_option (fnd_chunk f) \<subseteq> chunk_ids db - ids" using w by (intro opt) (simp_all add: work_typed_def)
      show "fnd_task f \<in> tsk_id ` set (st_rows (my_tasks (delete_with_dependents ids db)))"
        using task [of f] f w by (simp add: work_typed_def)
    next
      fix t assume "t \<in> set (st_rows (my_tasks (delete_with_dependents ids db)))"
      then show "set_option (tsk_chunk t) \<subseteq> chunk_ids db - ids" using w by (intro opt) (simp_all add: work_typed_def)
    qed (use w ok in \<open>simp_all add: work_typed_def\<close>)
  qed
  moreover have "chunk_ids (delete_with_dependents ids db) = chunk_ids db - ids" by (auto simp: chunk_ids_def)
  moreover have "chunk_typed (buffer_ids db) (my_chunks (delete_with_dependents ids db))"
    using assms by (auto simp: memory_typed_def chunk_typed_def rows_wf_filter)
  ultimately show ?thesis using assms by (simp add: memory_typed_def buffer_ids_def)
qed

lemma typed_vectors [simp]: "memory_typed (drop_orphan_vectors ids db) = memory_typed db"
  by (simp add: memory_typed_def buffer_ids_def chunk_ids_def)

lemma typed_strip: "memory_typed db \<Longrightarrow> memory_typed (strip_chunk i db)"
  by (auto simp: memory_typed_def chunk_typed_def chunk_ids_def buffer_ids_def strip_chunk_def)

lemma typed_delete_row:
  assumes "memory_typed (strip_chunk i db)" and "\<not> chunk_referenced i (strip_chunk i db)"
  shows "memory_typed (delete_chunk_row i (strip_chunk i db))"
proof -
  let ?db = "strip_chunk i db"
  have "work_typed (buffer_ids ?db) (chunk_ids ?db - {i}) (my_tasks ?db) (my_findings ?db) (my_patterns ?db)"
    using assms by (auto simp: memory_typed_def work_typed_def chunk_referenced_def list_ex_iff)
  moreover have "chunk_ids (delete_chunk_row i ?db) = chunk_ids ?db - {i}" by (auto simp: chunk_ids_def delete_chunk_row_def)
  moreover have "chunk_typed (buffer_ids ?db) (my_chunks (delete_chunk_row i ?db))"
    using assms(1) by (auto simp: memory_typed_def chunk_typed_def rows_wf_filter delete_chunk_row_def strip_chunk_def)
  ultimately show ?thesis using assms(1) by (simp add: memory_typed_def buffer_ids_def delete_chunk_row_def)
qed

lemma typed_decay_rows: "memory_typed db \<Longrightarrow> memory_typed (fst (decay_rows cfg fl now dry xs db acc))"
proof (induction cfg fl now dry xs db acc rule: decay_rows.induct)
  case (2 cfg fl now dry i t rest db d k rm)
  then show ?case using typed_strip [OF 2(4), of i] typed_delete_row [of i db] by (auto simp: Let_def)
qed simp

lemma typed_consolidate_buffer: "memory_typed db \<Longrightarrow> memory_typed (fst (consolidate_buffer b options db))"
proof -
  have pats: "memory_typed (fst (remove_low_confidence_patterns b x dry db))" if "memory_typed db" for b x dry db
    using that by (auto simp: remove_low_confidence_patterns_def memory_typed_def work_typed_def chunk_ids_def buffer_ids_def
        delete_rows_def table_ok_def rows_wf_filter)
  have "memory_typed (fst (fold (purge_duplicates b) hs x))" if "memory_typed (fst x)" for hs x
    using that
  proof (induction hs arbitrary: x)
    case (Cons h hs)
    have "memory_typed (fst (purge_duplicates b h x))"
      using typed_delete [OF Cons.prems] by (cases x) (simp add: purge_duplicates_def Let_def)
    from Cons.IH [OF this] show ?case by simp
  qed simp
  then have "memory_typed (fst (fold (purge_duplicates b) hs (db, 0, [])))" if "memory_typed db" for hs db using that by (metis fst_conv)
  then have dups: "memory_typed (fst (remove_duplicate_chunks b dry db))" if "memory_typed db" for dry db
    using that by (auto simp: remove_duplicate_chunks_def Let_def split: prod.splits) (metis fst_conv)
  assume "memory_typed db"
  then show "memory_typed (fst (consolidate_buffer b options db))"
    using pats dups by (auto simp: consolidate_buffer_def Let_def split: prod.splits) (metis fst_conv)+
qed

lemma typed_maintenance: "memory_typed db \<Longrightarrow> memory_typed (fst (run_maintenance project fl now dry db))"
proof -
  have con: "memory_typed (fst (fold (consolidate_step dry) bs x))" if "memory_typed (fst x)" for bs x
    using that
  proof (induction bs arbitrary: x)
    case (Cons b bs)
    have "memory_typed (fst (consolidate_step dry b x))"
      using typed_consolidate_buffer [OF Cons.prems] by (cases x) (auto simp: consolidate_step_def split: prod.splits, metis fst_conv)
    from Cons.IH [OF this] show ?case by simp
  qed simp
  have buf: "memory_typed (fst (run_decay_for_buffer b default_decay fl now dry db))" if "memory_typed db" for b db
    using typed_decay_rows [OF that] by (auto simp: run_decay_for_buffer_def split: prod.splits option.splits) (metis fst_conv)+
  have dec: "memory_typed (fst (decay_buffers fl now dry bs db report))" if "memory_typed db" for bs db report
    using that
  proof (induction bs arbitrary: db report)
    case (Cons b bs)
    then show ?case using buf [OF Cons.prems, of b] by (auto split: prod.splits option.splits) (metis fst_conv)?
  qed simp
  assume "memory_typed db"
  then have "memory_typed (fst (consolidate project dry db))" using con by (simp add: consolidate_fold)
  then show "memory_typed (fst (run_maintenance project fl now dry db))"
    using dec by (auto simp: run_maintenance_def decay_memory_def split: prod.splits option.splits) (metis fst_conv)+
qed

text \<open>What the callers of these tables do, from an empty store.\<close>

inductive memory_reachable :: "memory_db \<Rightarrow> bool" where
  Empty_Store:
    "memory_reachable \<lparr>my_buffers = \<lparr>bd_rows = [], bd_seq = 0\<rparr>, my_chunks = empty_chunks, my_tasks = empty_table,
       my_findings = empty_table, my_patterns = empty_table, my_vectors = vs\<rparr>"
| Ensure_Project:
    "memory_reachable db \<Longrightarrow> memory_reachable (db\<lparr>my_buffers := fst (ensure_project now uuid name path (my_buffers db))\<rparr>)"
| Store_Chunks:
    "memory_reachable db \<Longrightarrow> known_buffer (Some b) (bd_rows (my_buffers db)) \<Longrightarrow>
     memory_reachable (db\<lparr>my_chunks := fst (insert_chunks_batched ext now b items n active u m (my_chunks db))\<rparr>)"
| Add_Task:
    "memory_reachable db \<Longrightarrow>
     memory_reachable (db\<lparr>my_tasks := fst (insert_task now b i payload (cd_rows (my_chunks db)) (my_tasks db))\<rparr>)"
| Set_Task:
    "memory_reachable db \<Longrightarrow> memory_reachable (db\<lparr>my_tasks := update_task_status now i status who (my_tasks db)\<rparr>)"
| Finish_Task:
    "memory_reachable db \<Longrightarrow> memory_reachable (db\<lparr>my_tasks := complete_task now i res (my_tasks db)\<rparr>)"
| Add_Finding:
    "memory_reachable db \<Longrightarrow>
     memory_reachable (db\<lparr>my_findings := fst (insert_finding now i c ft content confidence (cd_rows (my_chunks db)) (st_rows (my_tasks db)) (my_findings db))\<rparr>)"
| Add_Pattern:
    "memory_reachable db \<Longrightarrow>
     memory_reachable (db\<lparr>my_patterns := fst (insert_pattern now ob pt name desc ex confidence (bd_rows (my_buffers db)) (my_patterns db))\<rparr>)"
| Maintain:
    "memory_reachable db \<Longrightarrow> memory_reachable (fst (run_maintenance project fl now dry_run db))"

lemma typed_task_columns:
  assumes "work_typed B C tasks findings patterns" and "\<And>t. tsk_id (f t) = tsk_id t" and "\<And>t. tsk_chunk (f t) = tsk_chunk t"
  shows "work_typed B C (update_rows p f tasks) findings patterns"
proof -
  have "tsk_id ` set (st_rows (update_rows p f tasks)) = tsk_id ` set (st_rows tasks)"
    using arg_cong [OF map_update_where [of tsk_id f p "st_rows tasks", OF assms(2)], of set] by (simp add: update_rows_def)
  moreover have "set_option (tsk_chunk t) \<subseteq> C" if "t \<in> set (st_rows (update_rows p f tasks))" for t
  proof -
    obtain s where s: "s \<in> set (st_rows tasks)" "t = (if p s then f s else s)" 
      using \<open>t \<in> set (st_rows (update_rows p f tasks))\<close> by (auto simp: update_rows_def update_where_def)
    then have "set_option (tsk_chunk s) \<subseteq> C" using assms(1) by (simp add: work_typed_def)
    then show ?thesis using s(2) assms(3) by simp
  qed
  ultimately show ?thesis using assms(1) by (simp add: work_typed_def table_ok_update [where rid = tsk_id] assms(2))
qed

lemma typed_inserts:
  assumes "work_typed (bf_id ` set bufs) (ck_id ` set chunks) tasks findings patterns"
  shows "work_typed (bf_id ` set bufs) (ck_id ` set chunks) (fst (insert_task now b i payload chunks tasks)) findings patterns"
    "work_typed (bf_id ` set bufs) (ck_id ` set chunks) tasks
       (fst (insert_finding now j i ft content confidence chunks (st_rows tasks) findings)) patterns"
    "work_typed (bf_id ` set bufs) (ck_id ` set chunks) tasks findings
       (fst (insert_pattern now ob pt name desc ex confidence bufs patterns))"
proof -
  have new: "set (st_rows (append_row mk t)) = insert (mk (st_seq t + 1)) (set (st_rows t))" for mk :: "row_id \<Rightarrow> 'z" and t
    by (simp add: append_row_def)
  show "work_typed (bf_id ` set bufs) (ck_id ` set chunks) (fst (insert_task now b i payload chunks tasks)) findings patterns"
  proof (cases "known_chunk i chunks")
    case True
    then show ?thesis using assms inserts_ok(1) [of tasks now b i payload chunks]
      by (simp add: work_typed_def insert_task_def execute_insert_def known_iff new)
  qed (use assms in \<open>simp add: insert_task_def\<close>)
  show "work_typed (bf_id ` set bufs) (ck_id ` set chunks) tasks
      (fst (insert_finding now j i ft content confidence chunks (st_rows tasks) findings)) patterns"
  proof (cases "known_chunk i chunks \<and> list_ex (\<lambda>r. tsk_id r = j) (st_rows tasks)")
    case True
    then have "j \<in> tsk_id ` set (st_rows tasks)" by (auto simp: list_ex_iff)
    then show ?thesis using True assms inserts_ok(2) [of findings now j i ft content confidence chunks "st_rows tasks"]
      by (simp add: work_typed_def insert_finding_def execute_insert_def known_iff new)
  qed (use assms in \<open>auto simp: insert_finding_def\<close>)
  show "work_typed (bf_id ` set bufs) (ck_id ` set chunks) tasks findings
      (fst (insert_pattern now ob pt name desc ex confidence bufs patterns))"
  proof (cases "known_buffer ob bufs")
    case True
    then show ?thesis using assms inserts_ok(3) [of patterns now ob pt name desc ex confidence bufs]
      by (simp add: work_typed_def insert_pattern_def execute_insert_def known_iff new)
  qed (use assms in \<open>simp add: insert_pattern_def\<close>)
qed

lemma ensure_project_keeps: "set (bd_rows db) \<subseteq> set (bd_rows (fst (ensure_project now uuid name path db)))"
  by (auto simp: ensure_project_def insert_buffer_def Let_def)

text \<open>
  C30: The tables stay well typed: whatever projects, chunks, tasks, findings and patterns are
  written and whatever maintenance runs, a failing pass included, every reference that is stored
  has its target.
\<close>

theorem memory_well_typed:
  assumes "memory_reachable db"
  shows "memory_typed db"
  using assms
proof (induction rule: memory_reachable.induct)
  case (Empty_Store vs)
  show ?case by (simp add: memory_typed_def chunk_typed_def work_typed_def buffers_inv_def empty_chunks_def) (simp add: empty_table_def)
next
  case (Ensure_Project db now uuid name path)
  have "buffer_ids db \<subseteq> bf_id ` set (bd_rows (fst (ensure_project now uuid name path (my_buffers db))))"
    unfolding buffer_ids_def by (rule image_mono [OF ensure_project_keeps])
  note grow = this
  have old: "buffers_inv (my_buffers db)" "chunk_typed (buffer_ids db) (my_chunks db)"
    "work_typed (buffer_ids db) (chunk_ids db) (my_tasks db) (my_findings db) (my_patterns db)"
    using Ensure_Project.IH by (simp_all add: memory_typed_def)
  show ?case
    using ensure_project_inv [OF old(1), of now uuid name path] chunk_typed_mono [OF old(2) grow] work_typed_mono [OF old(3) grow order_refl]
    by (simp add: memory_typed_def buffer_ids_def chunk_ids_def)
next
  case (Store_Chunks db b ext now items n active u m)
  have "b \<in> buffer_ids db" using Store_Chunks.hyps(2) by (simp add: known_iff buffer_ids_def)
  moreover have "chunk_typed (buffer_ids db) (my_chunks db)" using Store_Chunks.IH by (simp add: memory_typed_def)
  ultimately have new: "chunk_typed (buffer_ids db) (fst (insert_chunks_batched ext now b items n active u m (my_chunks db)))"
    "chunk_ids db \<subseteq> ck_id ` set (cd_rows (fst (insert_chunks_batched ext now b items n active u m (my_chunks db))))"
    unfolding chunk_ids_def by (simp_all add: insert_batch_typed)
  have "work_typed (buffer_ids db) (chunk_ids db) (my_tasks db) (my_findings db) (my_patterns db)"
    using Store_Chunks.IH by (simp add: memory_typed_def)
  from work_typed_mono [OF this order_refl new(2)] show ?case
    using Store_Chunks.IH new(1) by (simp add: memory_typed_def buffer_ids_def chunk_ids_def)
next
  case (Add_Task db now b i payload)
  then show ?case by (simp add: memory_typed_def buffer_ids_def chunk_ids_def typed_inserts(1))
next
  case (Set_Task db now i status who)
  then show ?case
    using typed_task_columns by (simp add: memory_typed_def buffer_ids_def chunk_ids_def update_task_status_def)
next
  case (Finish_Task db now i res)
  then show ?case
    using typed_task_columns by (simp add: memory_typed_def buffer_ids_def chunk_ids_def complete_task_def)
next
  case (Add_Finding db now i c ft content confidence)
  then show ?case by (simp add: memory_typed_def buffer_ids_def chunk_ids_def typed_inserts(2))
next
  case (Add_Pattern db now ob pt name desc ex confidence)
  then show ?case by (simp add: memory_typed_def buffer_ids_def chunk_ids_def typed_inserts(3))
next
  case (Maintain db project fl now dry_run)
  show ?case by (rule typed_maintenance [OF Maintain.IH])
qed

section \<open>Witnesses\<close>

text \<open>A project with one text in two files, indexed twice without a change.\<close>

definition demo_index_files :: "seconds \<Rightarrow> chunk_db \<Rightarrow> chunk_db" where
  "demo_index_files now d =
     fst (insert_chunks_batched (\<lambda>_ _. []) now 1 [(''a.rs'', demo_chunk ''same'' ''aa''), (''b.rs'', demo_chunk ''same'' ''aa'')] 10
       (fst ` set (snapshot_active_chunks 1 (cd_rows d))) None None d)"

definition demo_memory :: memory_db where
  "demo_memory =
     \<lparr>my_buffers = fst (ensure_project 0 ''u'' ''p'' ''/p'' \<lparr>bd_rows = [], bd_seq = 0\<rparr>),
      my_chunks = demo_index_files 864001 (demo_index_files 0 empty_chunks), my_tasks = empty_table, my_findings = empty_table,
      my_patterns = empty_table, my_vectors = None\<rparr>"

definition no_work :: "memory_db \<Rightarrow> bool" where
  "no_work db \<longleftrightarrow> st_rows (my_tasks db) = [] \<and> st_rows (my_findings db) = []"

lemma no_work_keeps:
  "no_work db \<Longrightarrow> no_work (delete_with_dependents ids db)" "no_work (drop_orphan_vectors js db) = no_work db"
  "no_work (strip_chunk i db) = no_work db" "no_work (delete_chunk_row i db) = no_work db" "no_work db \<Longrightarrow> \<not> chunk_referenced i db"
  by (simp_all add: no_work_def strip_chunk_def delete_chunk_row_def chunk_referenced_def)

lemma no_work_decay_rows:
  "no_work db \<Longrightarrow> \<exists>db' acc'. decay_rows cfg fl now dry xs db acc = (db', Some acc') \<and> no_work db'"
  by (induction cfg fl now dry xs db acc rule: decay_rows.induct) (auto simp: Let_def no_work_keeps)

lemma no_work_decay: "no_work db \<Longrightarrow> \<exists>db' rep. decay_buffers fl now dry bs db report = (db', Some rep)"
proof (induction bs arbitrary: db report)
  case (Cons b bs)
  let ?xs = "map (\<lambda>c. (ck_id c, ck_accessed c)) (filter (\<lambda>c. ck_buffer c = b) (cd_rows (my_chunks db)))"
  obtain db1 acc where "decay_rows default_decay fl now dry ?xs db (0, 0, []) = (db1, Some acc)" "no_work db1"
    using no_work_decay_rows [OF Cons.prems] by blast
  then obtain d k rm where r: "decay_rows default_decay fl now dry ?xs db (0, 0, []) = (db1, Some (d, k, rm))" "no_work db1"
    by (cases acc) simp
  then have "run_decay_for_buffer b default_decay fl now dry db = (drop_orphan_vectors rm db1, Some (d, k))"
    by (simp add: run_decay_for_buffer_def)
  then show ?case using Cons.IH [of "drop_orphan_vectors rm db1"] r(2) by (simp add: no_work_keeps)
qed simp

lemma no_work_fold_purge: "no_work (fst x) \<Longrightarrow> no_work (fst (fold (purge_duplicates b) hs x))"
  by (induction hs arbitrary: x) (auto simp: purge_duplicates_def Let_def no_work_keeps)

lemma no_work_consolidate: "no_work db \<Longrightarrow> no_work (fst (consolidate project dry db))"
proof -
  have step: "no_work (fst (consolidate_step dry b x))" if "no_work (fst x)" for b x
  proof -
    obtain db report where x: "x = (db, report)" by (cases x)
    obtain db1 n where d: "remove_duplicate_chunks b dry db = (db1, n)" by (metis prod.exhaust)
    have "no_work db1"
      using d that no_work_fold_purge [of "(db, 0, [])" b "duplicate_hashes b (cd_rows (my_chunks db))"]
      by (auto simp: x remove_duplicate_chunks_def Let_def no_work_keeps split: if_splits prod.splits)
    then show ?thesis
      by (simp add: x consolidate_step_def consolidate_buffer_def default_consolidate_def d remove_low_confidence_patterns_def
          no_work_def delete_rows_def)
  qed
  have "no_work (fst (fold (consolidate_step dry) bs x))" if "no_work (fst x)" for bs x
    using that by (induction bs arbitrary: x) (simp_all add: step)
  then show "no_work db \<Longrightarrow> no_work (fst (consolidate project dry db))" by (simp add: consolidate_fold)
qed

lemma no_work_runs:
  assumes "no_work db"
  shows "\<exists>db' rep. run_maintenance project fl now dry db = (db', Some rep)"
proof -
  obtain db1 r where c: "consolidate project dry db = (db1, r)" by (metis prod.exhaust)
  then have "no_work db1" using no_work_consolidate [OF assms, of project dry] by simp
  from no_work_decay [OF this, of fl now dry "resolve_buffer_ids project (bd_rows (my_buffers db1))" empty_report] show ?thesis
    by (auto simp: run_maintenance_def c decay_memory_def)
qed

lemma demo_memory_rows:
  "map (\<lambda>c. (ck_id c, ck_buffer c, ck_file c)) (cd_rows (my_chunks demo_memory)) = [(1, 1, ''a.rs''), (2, 1, ''b.rs'')]"
  "map (\<lambda>c. (ck_active c, ck_hash c = hd (map ck_hash (cd_rows (my_chunks demo_memory))), ck_accessed c)) (cd_rows (my_chunks demo_memory)) =
     [(True, True, 0), (True, True, 0)]"
  "bd_rows (my_buffers demo_memory) = [new_buffer 0 ''u'' ''p'' ''/p'' 1]" "resolve_buffer_ids [] (bd_rows (my_buffers demo_memory)) = [1]"
  by code_simp+

lemma demo_memory_chunks:
  obtains a c where "cd_rows (my_chunks demo_memory) = [a, c]" "ck_id a = 1" "ck_id c = 2" "ck_buffer a = 1" "ck_buffer c = 1"
    "ck_hash a = ck_hash c" "ck_accessed a = 0" "ck_accessed c = 0" "ck_active a" "ck_active c"
proof -
  obtain a c where rows: "cd_rows (my_chunks demo_memory) = [a, c]" "ck_id a = 1" "ck_id c = 2" "ck_buffer a = 1" "ck_buffer c = 1"
    using demo_memory_rows(1) by (auto simp: map_eq_Cons_conv)
  moreover have "ck_hash a = ck_hash c" "ck_accessed a = 0" "ck_accessed c = 0" "ck_active a" "ck_active c"
    using demo_memory_rows(2) by (auto simp: rows(1))
  ultimately show ?thesis by (rule that)
qed

lemma demo_memory_facts: "buffers_inv (my_buffers demo_memory)" "distinct (map ck_id (cd_rows (my_chunks demo_memory)))" "no_work demo_memory"
proof -
  show "buffers_inv (my_buffers demo_memory)"
    unfolding demo_memory_def memory_db.simps by (rule ensure_project_inv) (simp add: buffers_inv_def)
  show "distinct (map ck_id (cd_rows (my_chunks demo_memory)))"
    by (rule demo_memory_chunks) simp
  show "no_work demo_memory" by (simp add: no_work_def demo_memory_def empty_table_def)
qed

lemma maintenance_exact_witness:
  "\<exists>db' report. run_maintenance [] (1/10) 0 False demo_memory = (db', Some report) \<and> map ck_id (cd_rows (my_chunks db')) = [2] \<and>
     mr_duplicates report + mr_decayed report = 1"
proof -
  obtain db' report where r: "run_maintenance [] (1/10) 0 False demo_memory = (db', Some report)"
    using no_work_runs [OF demo_memory_facts(3)] by blast
  obtain a c where rows: "cd_rows (my_chunks demo_memory) = [a, c]" "ck_id a = 1" "ck_id c = 2" "ck_buffer a = 1" "ck_buffer c = 1"
    "ck_hash a = ck_hash c" "ck_accessed a = 0" "ck_accessed c = 0" by (rule demo_memory_chunks)
  have new: "\<not> newest_copy [a, c] a" "newest_copy [a, c] c" using rows by (simp_all add: newest_copy_def)
  have live: "\<not> expired (1/10) 0 a" "\<not> expired (1/10) 0 c" using rows by (simp_all add: expired_def age_hours_def decay_score_def)
  from maintenance_exact [OF demo_memory_facts(1,2) r refl, unfolded demo_memory_rows(4) rows(1)]
  show ?thesis using r rows new live by auto
qed

lemma maintenance_dry_run_witness:
  "\<exists>dry. run_maintenance [] (1/10) 0 True demo_memory = (demo_memory, Some dry)"
proof -
  obtain db' report where r: "run_maintenance [] (1/10) 0 False demo_memory = (db', Some report)"
    using no_work_runs [OF demo_memory_facts(3)] by blast
  from maintenance_dry_run [OF demo_memory_facts(1,2) r] show ?thesis by blast
qed

text \<open>Ten days and a second after it was written nothing is left, although it was indexed again just before.\<close>

lemma maintenance_expiry_witness:
  "cd_rows (my_chunks (fst (run_maintenance [] default_decay_floor 864001 False demo_memory))) = []"
proof -
  obtain db' report where r: "run_maintenance [] default_decay_floor 864001 False demo_memory = (db', Some report)"
    using no_work_runs [OF demo_memory_facts(3)] by blast
  obtain a c where rows: "cd_rows (my_chunks demo_memory) = [a, c]" "ck_id a = 1" "ck_id c = 2" "ck_buffer a = 1" "ck_buffer c = 1"
    "ck_hash a = ck_hash c" "ck_accessed a = 0" "ck_accessed c = 0" by (rule demo_memory_chunks)
  have "0 < default_decay_floor" "default_decay_floor \<le> 1" by (simp_all add: default_decay_floor_def)
  from maintenance_expiry [OF demo_memory_facts(1,2) r refl this, unfolded demo_memory_rows(4)]
  have "\<forall>x\<in>set (cd_rows (my_chunks db')). ck_buffer x = 1 \<longrightarrow> 1 \<le> ck_accessed x" by simp
  moreover have "set (cd_rows (my_chunks db')) \<subseteq> {a, c}"
  proof -
    obtain db1 where con: "consolidate [] False demo_memory = (db1, count_up [1] demo_memory empty_report)"
      "cd_rows (my_chunks db1) = consolidated [1] (cd_rows (my_chunks demo_memory))" "my_buffers db1 = my_buffers demo_memory"
      by (rule consolidate_result [OF demo_memory_facts(1,2) demo_memory_rows(4) [symmetric]])
    obtain rep where "decay_buffers default_decay_floor 864001 False [1] db1 empty_report = (db', Some rep)"
      using r by (auto simp: run_maintenance_def con decay_memory_def demo_memory_rows(4) split: prod.splits option.splits)
    from decay_buffers_result [OF this _ consolidated_ids [OF demo_memory_facts(2), of "[1]", folded con(2)]]
    have "cd_rows (my_chunks db') = unexpired default_decay_floor 864001 [1] (cd_rows (my_chunks db1))" by simp
    then have "set (cd_rows (my_chunks db')) \<subseteq> set (cd_rows (my_chunks demo_memory))" by (auto simp: unexpired_def con(2) consolidated_def)
    then show ?thesis by (simp add: rows(1))
  qed
  ultimately have "x \<notin> set (cd_rows (my_chunks db'))" for x using rows(4,5,7,8) by fastforce
  then have "cd_rows (my_chunks db') = []" by (metis list.set_intros(1) neq_Nil_conv)
  then show ?thesis by (simp add: r)
qed

lemma consolidation_loses_live_witness:
  "filter (\<lambda>x. ck_file x = ''a.rs'' \<and> ck_active x) (cd_rows (my_chunks (fst (consolidate [] False demo_memory)))) = []"
proof -
  obtain a c where rows: "cd_rows (my_chunks demo_memory) = [a, c]" "ck_id a = 1" "ck_id c = 2" "ck_buffer a = 1" "ck_buffer c = 1"
    "ck_hash a = ck_hash c" "ck_accessed a = 0" "ck_accessed c = 0" "ck_active a" "ck_active c" by (rule demo_memory_chunks)
  have f: "ck_file a = ''a.rs''" "ck_file c = ''b.rs''" using demo_memory_rows(1) by (simp_all add: rows(1))
  have step: "chunk_inv (demo_index_files t d)" if "chunk_inv d" for t d
    unfolding demo_index_files_def
    by (rule insert_chunks_batched_correct [THEN conjunct1, OF that])
      (simp_all add: item_key_def demo_chunk_def snapshot_keys, blast?)
  have inv: "chunk_inv (my_chunks demo_memory)"
    unfolding demo_memory_def memory_db.simps by (intro step) simp
  obtain db' report where r: "consolidate [] False demo_memory = (db', report)" by (metis prod.exhaust)
  have a: "a \<in> set (cd_rows (my_chunks demo_memory))" "ck_buffer a \<in> set (resolve_buffer_ids [] (bd_rows (my_buffers demo_memory)))"
    "c \<in> set (cd_rows (my_chunks demo_memory))" "ck_buffer c = ck_buffer a" "ck_hash c = ck_hash a" "ck_id a < ck_id c"
    using rows by (simp_all add: demo_memory_rows(4))
  note lost = consolidation_loses_live [OF demo_memory_facts(1) inv r a(1) rows(9) a(2-6)]
  obtain db1 where con: "consolidate [] False demo_memory = (db1, count_up [1] demo_memory empty_report)"
      "cd_rows (my_chunks db1) = consolidated [1] (cd_rows (my_chunks demo_memory))"
    by (rule consolidate_result [OF demo_memory_facts(1,2) demo_memory_rows(4) [symmetric]])
  have "set (cd_rows (my_chunks db')) \<subseteq> {a, c}" using con r by (auto simp: consolidated_def rows(1))
  then show ?thesis using lost f r by (auto simp: filter_empty_conv)
qed

lemma memory_well_typed_witness: "memory_typed demo_memory"
proof -
  have "memory_reachable demo_memory"
  proof -
    let ?e = "\<lparr>my_buffers = \<lparr>bd_rows = [], bd_seq = 0\<rparr>, my_chunks = empty_chunks, my_tasks = empty_table,
       my_findings = empty_table, my_patterns = empty_table, my_vectors = None\<rparr>"
    let ?p = "?e\<lparr>my_buffers := fst (ensure_project 0 ''u'' ''p'' ''/p'' (my_buffers ?e))\<rparr>"
    have p: "memory_reachable ?p" by (rule Ensure_Project [OF Empty_Store])
    have known: "known_buffer (Some 1) (bd_rows (fst (ensure_project 0 ''u'' ''p'' ''/p'' \<lparr>bd_rows = [], bd_seq = 0\<rparr>)))" by code_simp
    have i: "memory_reachable (db\<lparr>my_chunks := demo_index_files t (my_chunks db)\<rparr>)"
      if "memory_reachable db" "known_buffer (Some 1) (bd_rows (my_buffers db))" for db t
      unfolding demo_index_files_def by (rule Store_Chunks [OF that])
    have one: "memory_reachable (?p\<lparr>my_chunks := demo_index_files 0 (my_chunks ?p)\<rparr>)"
      by (rule i [OF p]) (simp add: known)
    from i [OF one, of 864001] show ?thesis by (simp add: demo_memory_def known)
  qed
  then show ?thesis by (rule memory_well_typed)
qed

end
