(* ===== verification/Search_Service.thy ===== *)
theory Search_Service
  imports Exploration_Service Qa_Service Rlm_Review Work_Tables
begin

text \<open>
  The \<open>Search\<close> and \<open>BuildContext\<close> calls (\<^verbatim>\<open>crates/arags-server/src/grpc/search/\<close>): the search
  of the approved summaries, the choice of a tier, the query that joins chunks, summaries and
  maps, and the context of a task. The search libraries and the embedder are arguments, the
  clocks too (one instant per call). A lookup in time that walks a cycle of revisions does not
  end: these calls return \<^const>\<open>None\<close> then. The duration in a reply is left out. Lemmas: where every
  part of an answer comes from, its size, and what time travel does to it.
\<close>

section \<open>State and arguments\<close>

record search_config =
  sf_tier :: string
  sf_top_k :: nat
  sf_max_tokens :: u32
  sf_decay_lambda :: real
  sf_summary_ratio :: real
  sf_summary_min :: real
  sf_maps_enabled :: bool
  sf_maps_limit :: nat

definition default_search_config :: search_config where
  "default_search_config =
     \<lparr>sf_tier = ''hybrid'', sf_top_k = 10, sf_max_tokens = 8000, sf_decay_lambda = 0, sf_summary_ratio = 6/10,
      sf_summary_min = 35/100, sf_maps_enabled = True, sf_maps_limit = 2\<rparr>"

record search_server =
  sg_maps :: map_server
  sg_chunks :: chunk_db
  sg_nodes :: "rlm_node list"
  sg_summaries :: "space_store option"
  sg_history :: "history_row seq_table"

record search_env =
  se_config :: search_config
  se_map :: map_env
  se_hybrid :: hybrid
  se_shuffle :: hash_order
  se_rlm_fts :: "string \<Rightarrow> row_id list option"
  se_show_score :: "real \<Rightarrow> string"

text \<open>The chunk table is kept once: the calls of the maps read it from here.\<close>

definition map_view :: "search_server \<Rightarrow> map_server" where
  "map_view st = (sg_maps st)\<lparr>xs_chunks := cd_rows (sg_chunks st)\<rparr>"

definition search_chunks :: "search_env \<Rightarrow> row_id \<Rightarrow> string \<Rightarrow> search_tier \<Rightarrow> nat \<Rightarrow> search_server \<Rightarrow> search_result list" where
  "search_chunks env buffer_id fts_query tier top_k st =
     hybrid_search (se_shuffle env)
       ((se_hybrid env)\<lparr>hy_ann := map_option (\<lambda>vs. (xe_chunk_ann (se_map env), vs)) (xs_chunk_space (sg_maps st))\<rparr>)
       (xe_embed (se_map env)) (sf_decay_lambda (se_config env)) (int (xe_secs (se_map env)))
       buffer_id fts_query tier top_k (sg_chunks st)"

section \<open>Searching summaries\<close>

record summary_candidate =
  su_node :: string
  su_rowid :: row_id
  su_level :: int
  su_subject :: string
  su_text :: string
  su_score :: real
  su_epoch :: int
  su_created_by :: "string option"
  su_model :: "string option"
  su_version :: int

definition summary_of :: "rlm_node \<Rightarrow> real \<Rightarrow> summary_candidate" where
  "summary_of n score =
     \<lparr>su_node = nd_node_id n, su_rowid = nd_id n, su_level = nd_level n, su_subject = nd_subject n, su_text = nd_summary n,
      su_score = score, su_epoch = nd_epoch n, su_created_by = nd_created_by n, su_model = nd_model n, su_version = nd_version n\<rparr>"

definition lexical_summaries :: "search_env \<Rightarrow> row_id \<Rightarrow> string \<Rightarrow> nat \<Rightarrow> rlm_node list \<Rightarrow> rlm_node list option" where
  "lexical_summaries env buffer_id query top_k rows =
     (let run = (\<lambda>q. map_option (\<lambda>ids. search_rlm_fts (\<lambda>_. ids) buffer_id q top_k rows) (se_rlm_fts env q))
      in case run query of
           None \<Rightarrow> None
         | Some nodes \<Rightarrow> if nodes = [] \<and> 1 < length (split_whitespace query) then run (or_query query) else Some nodes)"

text \<open>Neighbours of the query whose node is approved and of the buffer, nearest first.\<close>

definition semantic_summaries ::
  "search_env \<Rightarrow> row_id \<Rightarrow> string \<Rightarrow> nat \<Rightarrow> space_store option \<Rightarrow> rlm_node list \<Rightarrow> rlm_node list option" where
  "semantic_summaries env buffer_id query top_k space rows =
     (case (space, xe_embed (se_map env) query) of
        (Some vectors, Some v) \<Rightarrow>
          (case search_space (xe_ann (se_map env)) v top_k vectors of
             None \<Rightarrow> None
           | Some found \<Rightarrow>
               let neighbors = sort_key (\<lambda>(_, s). - s) found
               in case get_approved_rlm_nodes (map (nat \<circ> fst) neighbors) buffer_id rows of
                    Inl _ \<Rightarrow> None
                  | Inr approved \<Rightarrow> Some (List.map_filter (\<lambda>(i, _). List.find (\<lambda>n. nd_id n = i) approved) neighbors))
      | _ \<Rightarrow> Some [])"

text \<open>Min-max normalisation; fewer than two candidates score 1.\<close>

definition normalize_summaries :: "summary_candidate list \<Rightarrow> summary_candidate list" where
  "normalize_summaries ss =
     (let mn = Min (set (map su_score ss)); mx = Max (set (map su_score ss))
      in if length ss < 2 \<or> \<bar>mx - mn\<bar> < 1 / 2 ^ 23 then map (\<lambda>s. s\<lparr>su_score := 1\<rparr>) ss
         else map (\<lambda>s. s\<lparr>su_score := (su_score s - mn) / (mx - mn)\<rparr>) ss)"

definition summary_as_of :: "string \<Rightarrow> int \<Rightarrow> rlm_node list \<Rightarrow> summary_candidate \<Rightarrow> summary_candidate" where
  "summary_as_of project as_of rows s =
     (case get_rlm_node_as_of project (su_level s) (su_subject s) as_of rows of
        None \<Rightarrow> s
      | Some n \<Rightarrow> s\<lparr>su_text := nd_summary n, su_subject := nd_subject n, su_epoch := nd_epoch n,
                   su_created_by := nd_created_by n, su_model := nd_model n, su_version := nd_version n\<rparr>)"

text \<open>\<open>node_by_id\<close> collects the lexical nodes and then the semantic ones: a later one wins.\<close>

definition fuse_summaries :: "hash_order \<Rightarrow> rlm_node list \<Rightarrow> rlm_node list \<Rightarrow> summary_candidate list" where
  "fuse_summaries shuffle lexical semantic =
     (let scores = add_ranking 60 (map nd_id semantic) (add_ranking 60 (map nd_id lexical) []);
          node_by_id = map_of (rev (map (\<lambda>n. (nd_id n, n)) (lexical @ semantic)))
      in List.map_filter (\<lambda>(i, s). map_option (\<lambda>n. summary_of n s) (node_by_id i)) (shuffle scores))"

definition summary_search ::
  "search_env \<Rightarrow> row_id \<Rightarrow> string \<Rightarrow> string \<Rightarrow> nat \<Rightarrow> int \<Rightarrow> space_store option \<Rightarrow> rlm_node list \<Rightarrow> summary_candidate list option" where
  "summary_search env buffer_id project query top_k as_of space rows =
     (case lexical_summaries env buffer_id query top_k rows of
        None \<Rightarrow> None
      | Some lexical \<Rightarrow>
          (case semantic_summaries env buffer_id query top_k space rows of
             None \<Rightarrow> None
           | Some semantic \<Rightarrow>
               let fused = fuse_summaries (se_shuffle env) lexical semantic;
                   fused = (if 0 < as_of then map (summary_as_of project as_of rows) fused else fused)
               in Some (take top_k (normalize_summaries (sort_key (\<lambda>s. (- su_score s, su_rowid s)) fused)))))"

section \<open>Answers on the wire\<close>

definition summary_to_result :: "summary_candidate \<Rightarrow> proto_result" where
  "summary_to_result s =
     \<lparr>pr_chunk = su_rowid s, pr_text = su_text s, pr_score = su_score s,
      pr_file = ''[summary:'' @ show_int (su_level s) @ ''] '' @ su_subject s, pr_start = 0, pr_end = 0, pr_epoch = su_epoch s,
      pr_created_by = unwrap_or_default (su_created_by s), pr_model = unwrap_or_default (su_model s), pr_version = su_version s\<rparr>"

record summary_hit =
  sh_node :: string
  sh_rowid :: row_id
  sh_level :: int
  sh_subject :: string
  sh_text :: string
  sh_score :: real
  sh_epoch :: int
  sh_created_by :: string
  sh_model :: string
  sh_version :: int

definition summary_hit_from :: "summary_candidate \<Rightarrow> summary_hit" where
  "summary_hit_from s =
     \<lparr>sh_node = su_node s, sh_rowid = su_rowid s,
      sh_level = (if - (2 ^ 31) \<le> su_level s \<and> su_level s < 2 ^ 31 then su_level s else 0),
      sh_subject = su_subject s, sh_text = su_text s, sh_score = su_score s, sh_epoch = su_epoch s,
      sh_created_by = unwrap_or_default (su_created_by s), sh_model = unwrap_or_default (su_model s), sh_version = su_version s\<rparr>"

record map_ref =
  mf_uuid :: string
  mf_goal :: string
  mf_summary :: string
  mf_confidence :: real

definition map_ref_of :: "exploration_hit \<Rightarrow> map_ref" where
  "map_ref_of h = \<lparr>mf_uuid = xh_uuid h, mf_goal = xh_goal h, mf_summary = xh_summary h, mf_confidence = xh_confidence h\<rparr>"

text \<open>The maps of an answer: the live ones, whatever time was asked for.\<close>

definition attach_maps :: "search_env \<Rightarrow> string \<Rightarrow> string \<Rightarrow> search_server \<Rightarrow> search_server \<times> map_ref list" where
  "attach_maps env project raw_query st =
     (let cfg = se_config env
      in if sf_maps_enabled cfg \<and> 0 < sf_maps_limit cfg then
           (case search_explorations_core (se_map env) project raw_query (sf_maps_limit cfg) False 0 (map_view st) of
              (m, Inr hits) \<Rightarrow> (st\<lparr>sg_maps := (sg_maps st)\<lparr>xs_maps := xs_maps m\<rparr>\<rparr>, map map_ref_of hits)
            | (m, Inl _) \<Rightarrow> (st\<lparr>sg_maps := (sg_maps st)\<lparr>xs_maps := xs_maps m\<rparr>\<rparr>, []))
         else (st, []))"

definition unify_query ::
  "search_env \<Rightarrow> string \<Rightarrow> row_id \<Rightarrow> string \<Rightarrow> string \<Rightarrow> proto_result list \<Rightarrow> nat \<Rightarrow> search_server \<Rightarrow>
   search_server \<times> proto_result list \<times> summary_hit list \<times> map_ref list" where
  "unify_query env project buffer_id raw_query fts_query candidates max_results st =
     (let cfg = se_config env;
          summaries = map_option (map (\<lambda>s. (s, su_score s)))
            (summary_search env buffer_id project fts_query max_results 0 (sg_summaries st) (sg_nodes st));
          (candidates, hits) = unify_results (sf_summary_ratio cfg) (sf_summary_min cfg) max_results summaries candidates;
          (st, refs) = attach_maps env project raw_query st
      in (st, candidates, map summary_hit_from hits, refs))"

section \<open>The search call\<close>

record search_request =
  sq_project :: string
  sq_query :: string
  sq_max :: int
  sq_tier :: int
  sq_as_of :: int

record search_reply =
  sy_results :: "proto_result list"
  sy_total :: int
  sy_summaries :: "summary_hit list"
  sy_maps :: "map_ref list"

definition tier_summary :: int where "tier_summary = 5"

text \<open>\<open>TIER_BM25\<close> is 1, \<open>TIER_SEMANTIC\<close> 2, \<open>TIER_HYBRID\<close> 3, \<open>TIER_ENTITY\<close> 4; others take the configured one.\<close>

definition resolve_tier :: "string \<Rightarrow> int \<Rightarrow> search_tier" where
  "resolve_tier configured tier =
     (if tier = 1 then Tier_Fts else if tier = 4 then Tier_Entity else if tier = 2 \<or> tier = 3 then Tier_Vector
      else let t = ascii_lower configured
           in if t = ''fts'' \<or> t = ''bm25'' then Tier_Fts else if t = ''entity'' then Tier_Entity else Tier_Vector)"

definition result_limit :: "search_config \<Rightarrow> int \<Rightarrow> nat" where
  "result_limit cfg requested = (if 0 < requested then nat requested else sf_top_k cfg)"

definition handle_search ::
  "search_env \<Rightarrow> header_value \<Rightarrow> search_request \<Rightarrow> search_server \<Rightarrow> (search_server \<times> (rpc_status + search_reply)) option" where
  "handle_search env header req st =
     (case authenticate (xe_millis (se_map env)) header (xs_auth (sg_maps st)) of
        Inl e \<Rightarrow> Some (st, Inl e)
      | Inr ctx \<Rightarrow>
          let bufs = bd_rows (xs_buffers (sg_maps st));
              st = st\<lparr>sg_history := record_query_history (int (xe_secs (se_map env))) ctx (sq_project req) ''search'' (sq_query req)
                        bufs (sg_history st)\<rparr>
          in if trim (sq_query req) = [] then Some (st, Inl (Invalid_Argument ''search query is required''))
             else case buffer_id_for_project (sq_project req) bufs of
               None \<Rightarrow> Some (st, Inl (Not_Found ''project not found''))
             | Some buffer_id \<Rightarrow>
                 let k = result_limit (se_config env) (sq_max req); fts_query = sanitize_fts (sq_query req)
                 in if sq_tier req = tier_summary then
                      (case summary_search env buffer_id (sq_project req) fts_query k (sq_as_of req) (sg_summaries st) (sg_nodes st) of
                         None \<Rightarrow> Some (st, Inl (Internal ''summary search failed''))
                       | Some ss \<Rightarrow> Some (st, Inr \<lparr>sy_results = map summary_to_result ss, sy_total = line_i32 (int (length ss)),
                                                 sy_summaries = map summary_hit_from ss, sy_maps = []\<rparr>))
                    else
                      let candidates = search_chunks env buffer_id fts_query (resolve_tier (sf_tier (se_config env)) (sq_tier req)) k st
                      in case apply_chunk_as_of (sq_as_of req) candidates (sg_chunks st) of
                           None \<Rightarrow> None
                         | Some candidates \<Rightarrow>
                             (case unify_query env (sq_project req) buffer_id (sq_query req) fts_query (to_proto_results candidates) k st of
                                (st', results, summaries, refs) \<Rightarrow>
                                  Some (st', Inr \<lparr>sy_results = results, sy_total = line_i32 (int (length results)),
                                                  sy_summaries = summaries, sy_maps = refs\<rparr>)))"

section \<open>The context of a task\<close>

record context_request =
  cq_project :: string
  cq_task :: string
  cq_max_tokens :: int

record context_reply =
  cy_context :: string
  cy_sources :: "proto_result list"
  cy_total :: int
  cy_raw_chunks :: int

text \<open>\<open>as u32\<close> and \<open>as i32\<close> wrap.\<close>

definition context_tokens :: "search_config \<Rightarrow> int \<Rightarrow> u32" where
  "context_tokens cfg requested = (if requested = 0 then sf_max_tokens cfg else word_of_int requested)"

definition handle_build_context ::
  "search_env \<Rightarrow> header_value \<Rightarrow> context_request \<Rightarrow> search_server \<Rightarrow> rpc_status + context_reply" where
  "handle_build_context env header req st =
     (case authenticate (xe_millis (se_map env)) header (xs_auth (sg_maps st)) of
        Inl e \<Rightarrow> Inl e
      | Inr _ \<Rightarrow>
          if trim (cq_task req) = [] then Inl (Invalid_Argument ''task is required'')
          else case buffer_id_for_project (cq_project req) (bd_rows (xs_buffers (sg_maps st))) of
            None \<Rightarrow> Inl (Not_Found ''project not found'')
          | Some buffer_id \<Rightarrow>
              let candidates = search_chunks env buffer_id (sanitize_fts (cq_task req)) Tier_Vector 50 st;
                  (body, tokens) = render_context (se_show_score env) candidates (context_tokens (se_config env) (cq_max_tokens req))
              in Inr \<lparr>cy_context = body, cy_sources = to_proto_results candidates, cy_total = sint tokens,
                      cy_raw_chunks = wrap_i32 (int (length candidates))\<rparr>)"

section \<open>The ranking of summaries\<close>

lemma sort_key_map_comm: "sort_key f (map g xs) = map g (sort_key (f \<circ> g) xs)"
proof (induction xs)
  case (Cons x xs)
  have "insort_key f (g x) (map g ys) = map g (insort_key (f \<circ> g) x ys)" for ys by (induction ys) auto
  then show ?case using Cons by (simp add: comp_def)
qed simp

lemma sort_key_agree: "(\<And>x. x \<in> set xs \<Longrightarrow> f x = g x) \<Longrightarrow> sort_key f xs = sort_key g xs"
proof (induction xs)
  case (Cons x xs)
  have "insort_key f x ys = insort_key g x ys" if "\<And>y. y \<in> set (x # ys) \<Longrightarrow> f y = g y" for ys
    using that by (induction ys) auto
  from this [of "sort_key g xs"] show ?case using Cons by simp
qed simp

lemma normalize_summaries_map:
  obtains f where "normalize_summaries ss = map (\<lambda>s. s\<lparr>su_score := f (su_score s)\<rparr>) ss"
    and "\<And>s. s \<in> set ss \<Longrightarrow> 0 \<le> f (su_score s) \<and> f (su_score s) \<le> (1 :: real)" and "\<And>a b. a \<le> b \<Longrightarrow> f a \<le> f b"
proof -
  let ?mn = "Min (set (map su_score ss))" and ?mx = "Max (set (map su_score ss))"
  show ?thesis
  proof (cases "length ss < 2 \<or> \<bar>?mx - ?mn\<bar> < 1 / 2 ^ 23")
    case True
    then show ?thesis by (intro that [of "\<lambda>_. 1"]) (simp_all add: normalize_summaries_def Let_def)
  next
    case False
    have mem: "?mn \<le> su_score s \<and> su_score s \<le> ?mx" if "s \<in> set ss" for s using that by simp
    have pos: "0 < ?mx - ?mn"
    proof -
      obtain s where "s \<in> set ss" using False by (cases ss) auto
      then have "?mn \<le> ?mx" using mem [of s] by linarith
      moreover have "\<not> \<bar>?mx - ?mn\<bar> < 1 / 2 ^ 23" using False by blast
      ultimately show ?thesis by (smt (verit) divide_pos_pos zero_less_power)
    qed
    show ?thesis
    proof (rule that [of "\<lambda>x. (x - ?mn) / (?mx - ?mn)"])
      show "normalize_summaries ss = map (\<lambda>s. s\<lparr>su_score := (su_score s - ?mn) / (?mx - ?mn)\<rparr>) ss"
        unfolding normalize_summaries_def Let_def using False by (rule if_not_P)
      show "0 \<le> (su_score s - ?mn) / (?mx - ?mn) \<and> (su_score s - ?mn) / (?mx - ?mn) \<le> 1" if "s \<in> set ss" for s
        using mem [OF that] pos by (simp add: divide_le_eq_1_pos)
      show "(a - ?mn) / (?mx - ?mn) \<le> (b - ?mn) / (?mx - ?mn)" if "a \<le> b" for a b
        using that pos by (simp add: divide_right_mono)
    qed
  qed
qed

definition summary_rankings :: "rlm_node list \<Rightarrow> rlm_node list \<Rightarrow> ranked list list" where
  "summary_rankings lexical semantic = [map (\<lambda>n. (nd_id n, 0)) lexical, map (\<lambda>n. (nd_id n, 0)) semantic]"

lemma fused_summary_scores:
  "add_ranking 60 (map nd_id semantic) (add_ranking 60 (map nd_id lexical) []) = fused_scores 60 (summary_rankings lexical semantic)"
  by (simp add: fused_scores_def summary_rankings_def comp_def)

text \<open>The node of an id among those found.\<close>

definition found_node :: "rlm_node list \<Rightarrow> row_id \<Rightarrow> rlm_node" where
  "found_node ns i = the (map_of (rev (map (\<lambda>n. (nd_id n, n)) ns)) i)"

lemma found_node:
  assumes "i \<in> nd_id ` set ns"
  shows "map_of (rev (map (\<lambda>n. (nd_id n, n)) ns)) i = Some (found_node ns i)" "found_node ns i \<in> set ns" "nd_id (found_node ns i) = i"
proof -
  let ?m = "rev (map (\<lambda>n. (nd_id n, n)) ns)"
  obtain n where n: "map_of ?m i = Some n"
    using assms by (cases "map_of ?m i") (auto simp: map_of_eq_None_iff rev_map [symmetric] image_iff)
  then show "map_of ?m i = Some (found_node ns i)" by (simp add: found_node_def)
  show "found_node ns i \<in> set ns" "nd_id (found_node ns i) = i"
    using map_of_SomeD [OF n] n by (auto simp: found_node_def)
qed

lemma fuse_summaries_map:
  assumes "hash_order_ok shuffle"
  shows "fuse_summaries shuffle lexical semantic =
    map (\<lambda>(i, s). summary_of (found_node (lexical @ semantic) i) s) (shuffle (fused_scores 60 (summary_rankings lexical semantic)))"
proof -
  let ?ns = "lexical @ semantic" and ?scores = "shuffle (fused_scores 60 (summary_rankings lexical semantic))"
  have "fst ` set ?scores = nd_id ` set ?ns"
    unfolding hash_orderD(2) [OF assms] fused_scores_simps(1) by (auto simp: summary_rankings_def image_iff)
  then have "map_of (rev (map (\<lambda>n. (nd_id n, n)) ?ns)) (fst x) = Some (found_node ?ns (fst x))" if "x \<in> set ?scores" for x
    using found_node(1) [of "fst x" ?ns] that by blast
  then have "List.map_filter (\<lambda>x. map_option (\<lambda>n. summary_of n (snd x)) (map_of (rev (map (\<lambda>n. (nd_id n, n)) ?ns)) (fst x))) ?scores =
      map (\<lambda>x. summary_of (found_node ?ns (fst x)) (snd x)) ?scores"
    by (simp add: List.map_filter_def filter_id_conv cong: filter_cong map_cong)
  then show ?thesis by (simp add: fuse_summaries_def fused_summary_scores case_prod_unfold)
qed

lemma fused_summaries_sorted:
  assumes "hash_order_ok shuffle"
  shows "sort_key (\<lambda>s. (- su_score s, su_rowid s)) (fuse_summaries shuffle lexical semantic) =
    map (\<lambda>i. summary_of (found_node (lexical @ semantic) i) (rrf_total 60 [map nd_id lexical, map nd_id semantic] i))
      (ranking_spec 60 [map nd_id lexical, map nd_id semantic])"
proof -
  let ?ns = "lexical @ semantic" and ?g = "\<lambda>x. summary_of (found_node (lexical @ semantic) (fst x)) (snd x)"
  let ?scores = "shuffle (fused_scores 60 (summary_rankings lexical semantic))"
  have ids: "fst ` set ?scores = nd_id ` set ?ns"
    unfolding hash_orderD(2) [OF assms] fused_scores_simps(1) by (auto simp: summary_rankings_def image_iff)
  have key: "((\<lambda>s. (- su_score s, su_rowid s)) \<circ> ?g) x = (case x of (i, s) \<Rightarrow> (- s, i))" if "x \<in> set ?scores" for x
  proof -
    have "fst x \<in> nd_id ` set ?ns" using that ids by blast
    from found_node(3) [OF this] show ?thesis by (simp add: summary_of_def split: prod.split)
  qed
  have "sort_key (\<lambda>s. (- su_score s, su_rowid s)) (fuse_summaries shuffle lexical semantic) =
      map ?g (sort_key ((\<lambda>s. (- su_score s, su_rowid s)) \<circ> ?g) ?scores)"
    unfolding fuse_summaries_map [OF assms] case_prod_unfold sort_key_map_comm ..
  also have "sort_key ((\<lambda>s. (- su_score s, su_rowid s)) \<circ> ?g) ?scores = sort_key (\<lambda>(i, s). (- s, i)) ?scores"
    by (rule sort_key_agree [OF key])
  finally show ?thesis
    unfolding fuse_sorts [OF assms] by (simp add: summary_rankings_def comp_def)
qed

lemma lexical_summaries_sound:
  "lexical_summaries env b q k rows = Some ns \<Longrightarrow> n \<in> set ns \<Longrightarrow> n \<in> set rows \<and> searchable b n"
  by (auto simp: lexical_summaries_def search_rlm_fts_def Let_def split: option.splits if_splits)

lemma found_among: "n \<in> set (List.map_filter (\<lambda>(i, _). List.find (p i) xs) ys) \<Longrightarrow> n \<in> set xs"
  by (induction ys) (auto simp: List.map_filter_simps split: option.splits dest!: find_SomeD)

lemma semantic_summaries_sound:
  "semantic_summaries env b q k space rows = Some ns \<Longrightarrow> n \<in> set ns \<Longrightarrow> n \<in> set rows \<and> searchable b n"
  by (auto simp: semantic_summaries_def get_approved_rlm_nodes_def Let_def
      split: option.splits sum.splits dest!: found_among)

lemma summary_search_ranked:
  assumes ok: "hash_order_ok (se_shuffle env)" and now: "as_of \<le> 0"
    and run: "summary_search env b project query top_k as_of space rows = Some ss"
  shows "\<exists>lexical semantic. lexical_summaries env b query top_k rows = Some lexical \<and>
    semantic_summaries env b query top_k space rows = Some semantic \<and>
    map su_rowid ss = take top_k (ranking_spec 60 [map nd_id lexical, map nd_id semantic]) \<and>
    (\<forall>s\<in>set ss. 0 \<le> su_score s \<and> su_score s \<le> 1 \<and> (\<exists>n\<in>set rows. searchable b n \<and> s = summary_of n (su_score s))) \<and>
    sorted_wrt (\<lambda>s t. su_score t \<le> su_score s) ss"
proof -
  obtain lexical semantic where L: "lexical_summaries env b query top_k rows = Some lexical"
    "semantic_summaries env b query top_k space rows = Some semantic"
    using run by (auto simp: summary_search_def split: option.splits)
  define spec where "spec = ranking_spec 60 [map nd_id lexical, map nd_id semantic]"
  define tot where "tot = rrf_total 60 [map nd_id lexical, map nd_id semantic]"
  define ranked where "ranked = map (\<lambda>i. summary_of (found_node (lexical @ semantic) i) (tot i)) spec"
  have ss: "ss = take top_k (normalize_summaries ranked)"
    using run now unfolding ranked_def spec_def tot_def fused_summaries_sorted [OF ok, symmetric]
    by (simp add: summary_search_def L Let_def)
  obtain f where f: "normalize_summaries ranked = map (\<lambda>s. s\<lparr>su_score := f (su_score s)\<rparr>) ranked"
    "\<And>s. s \<in> set ranked \<Longrightarrow> 0 \<le> f (su_score s) \<and> f (su_score s) \<le> 1" "\<And>a c. a \<le> c \<Longrightarrow> f a \<le> f c"
    by (rule normalize_summaries_map) blast
  have ids: "set spec = nd_id ` set (lexical @ semantic)" unfolding spec_def ranking_spec_def by auto
  have node: "found_node (lexical @ semantic) i \<in> set (lexical @ semantic)" "nd_id (found_node (lexical @ semantic) i) = i"
    if "i \<in> set spec" for i using found_node(2,3) that unfolding ids by blast+
  have "map su_rowid ranked = spec"
    unfolding ranked_def by (simp add: comp_def summary_of_def node(2) map_idI)
  then have "map su_rowid ss = take top_k spec" by (simp add: ss f(1) take_map [symmetric] comp_def)
  moreover have "0 \<le> su_score s \<and> su_score s \<le> 1 \<and> (\<exists>n\<in>set rows. searchable b n \<and> s = summary_of n (su_score s))" if "s \<in> set ss" for s
  proof -
    obtain r where r: "r \<in> set ranked" "s = r\<lparr>su_score := f (su_score r)\<rparr>"
      using in_set_takeD [OF \<open>s \<in> set ss\<close> [unfolded ss]] unfolding f(1) set_map by (elim imageE)
    then obtain i where i: "i \<in> set spec" "r = summary_of (found_node (lexical @ semantic) i) (tot i)" by (auto simp: ranked_def)
    have "found_node (lexical @ semantic) i \<in> set rows \<and> searchable b (found_node (lexical @ semantic) i)"
      using node(1) [OF i(1)] lexical_summaries_sound [OF L(1)] semantic_summaries_sound [OF L(2)] by auto
    then show ?thesis using f(2) [OF r(1)] r(2) i(2) by (auto simp: summary_of_def intro!: bexI [of _ "found_node (lexical @ semantic) i"])
  qed
  moreover have "sorted_wrt (\<lambda>s t. su_score t \<le> su_score s) ss"
  proof -
    have "sorted (map (\<lambda>i. (- tot i, i)) spec)" unfolding spec_def ranking_spec_def tot_def by (rule sorted_sort_key)
    then have "sorted_wrt (\<lambda>i j. tot j \<le> tot i) spec" unfolding sorted_map by (rule sorted_wrt_mono_rel [rotated]) auto
    then have "sorted_wrt (\<lambda>s t. su_score t \<le> su_score s) ranked"
      by (simp add: ranked_def sorted_wrt_map summary_of_def)
    then show ?thesis
      unfolding ss f(1) by (intro sorted_wrt_take) (simp add: sorted_wrt_map, erule sorted_wrt_mono_rel [rotated], simp add: f(3))
  qed
  ultimately show ?thesis using L unfolding spec_def by blast
qed

text \<open>
  C33: A search of the summaries of now: ranked by reciprocal rank fusion of the lexical and the
  semantic ranking, whatever order the hash table gives; every hit is an approved, live and
  fresh summary of the buffer as it is stored, scored between 0 and 1 and never rising.
\<close>

theorem summary_search_correct:
  assumes ok: "hash_order_ok (se_shuffle env)" and now: "as_of \<le> 0"
    and run: "summary_search env b project query top_k as_of space rows = Some ss"
  shows "\<exists>lexical semantic. lexical_summaries env b query top_k rows = Some lexical \<and>
    semantic_summaries env b query top_k space rows = Some semantic \<and>
    map su_rowid ss = take top_k (ranking_spec 60 [map nd_id lexical, map nd_id semantic]) \<and>
    (\<forall>s\<in>set ss. 0 \<le> su_score s \<and> su_score s \<le> 1 \<and> (\<exists>n\<in>set rows. searchable b n \<and> s = summary_of n (su_score s))) \<and>
    sorted_wrt (\<lambda>s t. su_score t \<le> su_score s) ss"
  using summary_search_ranked [OF assms] .

text \<open>
  In a store that only the operations have written, time travel does not change a search of the
  summaries: the revision of any time is the live one.
\<close>

theorem summary_search_ignores_time:
  assumes "hash_order_ok (se_shuffle env)" and project: "\<forall>n\<in>set (node_run ops []). nd_buffer n = Some b \<longrightarrow> nd_project n = project"
  shows "summary_search env b project query top_k as_of space (node_run ops []) =
    summary_search env b project query top_k 0 space (node_run ops [])"
proof -
  let ?rows = "node_run ops []"
  have inv: "node_history_inv ?rows" by (rule node_run_inv) simp
  have same: "summary_as_of project as_of ?rows (summary_of n s) = summary_of n s"
    if "0 < as_of" "n \<in> set ?rows" "searchable b n" for n s
  proof -
    have n: "nd_active n" "node_key n = (project, nd_level n, nd_subject n)"
      using that project by (auto simp: searchable_def node_key_def)
    have "get_rlm_node_as_of project (nd_level n) (nd_subject n) as_of ?rows = Some n"
      using rlm_as_of_is_newest [of as_of] live_lookup [OF inv that(2) n] that(1) by simp
    then show ?thesis by (simp add: summary_as_of_def summary_of_def)
  qed
  have "map (summary_as_of project as_of ?rows) (fuse_summaries (se_shuffle env) lexical semantic) =
      fuse_summaries (se_shuffle env) lexical semantic"
    if "0 < as_of" "lexical_summaries env b query top_k ?rows = Some lexical"
      "semantic_summaries env b query top_k space ?rows = Some semantic" for lexical semantic
  proof -
    have "summary_as_of project as_of ?rows s = s" if s: "s \<in> set (fuse_summaries (se_shuffle env) lexical semantic)" for s
    proof -
      obtain i sc where i: "(i, sc) \<in> set (fused_scores 60 (summary_rankings lexical semantic))"
        "s = summary_of (found_node (lexical @ semantic) i) sc"
        using s unfolding fuse_summaries_map [OF assms(1)] by (auto simp: hash_orderD(2) [OF assms(1)])
      have "i \<in> nd_id ` set (lexical @ semantic)"
        using imageI [OF i(1), of fst] unfolding fused_scores_simps(1) by (auto simp: summary_rankings_def)
      from found_node(2) [OF this] show ?thesis
        using same [OF \<open>0 < as_of\<close>] lexical_summaries_sound [OF \<open>lexical_summaries env b query top_k ?rows = Some lexical\<close>]
          semantic_summaries_sound [OF \<open>semantic_summaries env b query top_k space ?rows = Some semantic\<close>] i(2) by auto
    qed
    then show ?thesis by (rule map_idI)
  qed
  then show ?thesis by (simp add: summary_search_def Let_def split: option.split)
qed

section \<open>The answer of a search\<close>

lemma unify_query_parts:
  assumes "unify_query env project b raw q cands k st = (st', results, summaries, refs)"
  obtains hits where "unify_results (sf_summary_ratio (se_config env)) (sf_summary_min (se_config env)) k
      (map_option (map (\<lambda>s. (s, su_score s))) (summary_search env b project q k 0 (sg_summaries st) (sg_nodes st))) cands = (results, hits)"
    and "summaries = map summary_hit_from hits" and "attach_maps env project raw st = (st', refs)"
  using assms unfolding unify_query_def Let_def by (auto split: prod.splits)

lemma length_search_explorations:
  "search_explorations_core e p q n stale t m = (m', Inr hits) \<Longrightarrow> length hits \<le> n"
  by (auto simp: search_explorations_core_def Let_def split: if_splits option.splits)

lemma attach_maps_bound:
  assumes "attach_maps env project raw st = (st', refs)"
  shows "length refs \<le> sf_maps_limit (se_config env) \<and>
    st' = st\<lparr>sg_maps := (sg_maps st)\<lparr>xs_maps := xs_maps (sg_maps st')\<rparr>\<rparr>"
  using assms length_search_explorations
  by (auto simp: attach_maps_def Let_def split: if_splits prod.splits sum.splits)

lemma unify_results_hits:
  assumes "unify_results ratio min_score k (Some all) cands = (cs, ss)"
  shows "set ss \<subseteq> fst ` {x \<in> set all. min_score \<le> snd x} \<and> set cs \<subseteq> set cands \<and>
    (if ss = [] then cs = cands else length cs + length ss \<le> k \<and> real (length ss) \<le> real k * clamp 0 1 ratio)"
proof -
  let ?q = "filter (\<lambda>(_, score). min_score \<le> score) all"
  obtain t c where tc: "split_summary_budget k (clamp 0 1 ratio) (length ?q) = (t, c)" by fastforce
  note spec = split_summary_budget_spec [OF tc]
  show ?thesis
  proof (cases "0 < clamp 0 1 ratio \<and> 1 < k \<and> 0 < t")
    case True
    then have "cs = take c cands" "ss = map fst (take t ?q)"
      using assms tc by (auto simp: unify_results_def Let_def)
    moreover have "length (take t ?q) = t" using spec by simp
    ultimately show ?thesis using spec True by (auto dest!: in_set_takeD)
  next
    case False
    then have "ss = [] \<and> cs = cands"
      using assms tc by (auto simp: unify_results_def Let_def split: if_splits)
    then show ?thesis by simp
  qed
qed

lemma unify_results_none: "unify_results ratio min_score k None cands = (cands, [])"
  by (simp add: unify_results_def Let_def)

lemma summary_hit_score [simp]: "sh_score (summary_hit_from s) = su_score s"
  by (simp add: summary_hit_from_def)

lemma handle_search_parts:
  assumes run: "handle_search env header req st = Some (st', Inr reply)" and tier: "sq_tier req \<noteq> tier_summary"
  obtains ctx b candidates st0 where "authenticate (xe_millis (se_map env)) header (xs_auth (sg_maps st)) = Inr ctx"
    and "buffer_id_for_project (sq_project req) (bd_rows (xs_buffers (sg_maps st))) = Some b"
    and "st0 = st\<lparr>sg_history := record_query_history (int (xe_secs (se_map env))) ctx (sq_project req) ''search'' (sq_query req)
           (bd_rows (xs_buffers (sg_maps st))) (sg_history st)\<rparr>"
    and "apply_chunk_as_of (sq_as_of req)
           (search_chunks env b (sanitize_fts (sq_query req)) (resolve_tier (sf_tier (se_config env)) (sq_tier req))
             (result_limit (se_config env) (sq_max req)) st) (sg_chunks st) = Some candidates"
    and "unify_query env (sq_project req) b (sq_query req) (sanitize_fts (sq_query req)) (to_proto_results candidates)
           (result_limit (se_config env) (sq_max req)) st0 = (st', sy_results reply, sy_summaries reply, sy_maps reply)"
proof -
  obtain ctx where ctx: "authenticate (xe_millis (se_map env)) header (xs_auth (sg_maps st)) = Inr ctx"
    using run by (auto simp: handle_search_def split: sum.splits)
  obtain b where b: "buffer_id_for_project (sq_project req) (bd_rows (xs_buffers (sg_maps st))) = Some b"
    using run by (auto simp: handle_search_def ctx Let_def split: if_splits option.splits)
  define st0 where "st0 = st\<lparr>sg_history := record_query_history (int (xe_secs (se_map env))) ctx (sq_project req) ''search'' (sq_query req)
           (bd_rows (xs_buffers (sg_maps st))) (sg_history st)\<rparr>"
  let ?k = "result_limit (se_config env) (sq_max req)" and ?q = "sanitize_fts (sq_query req)"
  let ?found = "search_chunks env b ?q (resolve_tier (sf_tier (se_config env)) (sq_tier req)) ?k"
  have same: "?found st0 = ?found st" "sg_chunks st0 = sg_chunks st" by (simp_all add: st0_def search_chunks_def)
  obtain candidates where c: "apply_chunk_as_of (sq_as_of req) (?found st) (sg_chunks st) = Some candidates"
    using run tier by (auto simp: handle_search_def ctx b Let_def st0_def [symmetric] same split: if_splits option.splits)
  obtain st1 results summaries refs where u:
    "unify_query env (sq_project req) b (sq_query req) ?q (to_proto_results candidates) ?k st0 = (st1, results, summaries, refs)"
    by (metis prod.exhaust)
  have "st1 = st' \<and> reply = \<lparr>sy_results = results, sy_total = line_i32 (int (length results)), sy_summaries = summaries, sy_maps = refs\<rparr>"
    using run tier by (auto simp: handle_search_def ctx b Let_def st0_def [symmetric] same c u split: if_splits)
  then have "unify_query env (sq_project req) b (sq_query req) ?q (to_proto_results candidates) ?k st0 =
      (st', sy_results reply, sy_summaries reply, sy_maps reply)" using u by simp
  from that [OF ctx b st0_def c this] show ?thesis .
qed

lemma summary_search_found:
  assumes "hash_order_ok (se_shuffle env)" and "as_of \<le> 0"
    and run: "summary_search env b project query top_k as_of space rows = Some ss" and s: "s \<in> set ss"
  shows "su_score s \<le> 1 \<and> (\<exists>n\<in>set rows. searchable b n \<and> s = summary_of n (su_score s))"
  using summary_search_ranked [OF assms(1-3)] s by blast

lemma hybrid_search_length:
  assumes "hash_order_ok shuffle"
  shows "length (hybrid_search shuffle h e lambda now b q tier k db) \<le> 3 * k"
proof -
  obtain fused p where rs: "hybrid_search shuffle h e lambda now b q tier k db = normalize_scores (hydrate fused (load_chunks fused db))"
    and f: "ranked_list p (k * 3) fused"
    by (rule hybrid_search_fused [OF assms])
  have "length (hybrid_search shuffle h e lambda now b q tier k db) = length (hydrate fused (load_chunks fused db))"
    unfolding rs by (metis length_map normalize_ids)
  then show ?thesis using hydrated_ranked [OF f refl, of db] by simp
qed

lemma search_chunks_length: "hash_order_ok (se_shuffle env) \<Longrightarrow> length (search_chunks env b q tier k st) \<le> 3 * k"
  unfolding search_chunks_def by (rule hybrid_search_length)

lemma apply_chunk_as_of_length: "apply_chunk_as_of t cands db = Some cs \<Longrightarrow> length cs \<le> length cands"
proof -
  have "length (List.map_filter g xs) \<le> length xs" for g :: "search_result \<Rightarrow> search_result option" and xs
    by (simp add: List.map_filter_def)
  then show "apply_chunk_as_of t cands db = Some cs \<Longrightarrow> length cs \<le> length cands"
    by (auto simp: apply_chunk_as_of_def split: if_splits)
qed

text \<open>The chunk vectors of a server belong to the chunks it stores.\<close>

definition chunk_space_ok :: "search_env \<Rightarrow> search_server \<Rightarrow> bool" where
  "chunk_space_ok env st \<longleftrightarrow>
     vectors_match ((se_hybrid env)\<lparr>hy_ann := map_option (\<lambda>vs. (xe_chunk_ann (se_map env), vs)) (xs_chunk_space (sg_maps st))\<rparr>)
       (sg_chunks st)"

lemma unify_results_option:
  assumes "unify_results ratio m k found cands = (cs, ss)"
  shows "(\<forall>s\<in>set ss. \<exists>all. found = Some all \<and> (\<exists>x. (s, x) \<in> set all \<and> m \<le> x)) \<and> set cs \<subseteq> set cands \<and>
    (if ss = [] then cs = cands else length cs + length ss \<le> k)"
  using unify_results_hits [of ratio m k _ cands cs ss] assms
  by (cases found) (fastforce simp: unify_results_none)+

text \<open>A summary as it was at a time; the time 0 or before stands for now.\<close>

definition summary_at :: "string \<Rightarrow> int \<Rightarrow> rlm_node list \<Rightarrow> summary_candidate \<Rightarrow> summary_candidate" where
  "summary_at project t rows s = (if 0 < t then summary_as_of project t rows s else s)"

lemma summary_at_score [simp]:
  "su_score (summary_at p t rows s) = su_score s"
  "(summary_at p t rows s)\<lparr>su_score := x\<rparr> = summary_at p t rows (s\<lparr>su_score := x\<rparr>)"
  by (auto simp: summary_at_def summary_as_of_def split: option.split)

lemma named_results:
  "s \<in> set (List.map_filter (\<lambda>(i, x). map_option (\<lambda>n. f n x) (m i)) xs) \<Longrightarrow> \<exists>i n x. m i = Some n \<and> s = f n x"
  by (induction xs) (auto simp: List.map_filter_simps split: option.splits)

lemma fuse_summaries_member:
  assumes "s \<in> set (fuse_summaries shuffle lexical semantic)"
  shows "\<exists>n\<in>set (lexical @ semantic). \<exists>x. s = summary_of n x"
proof -
  obtain i n x where "map_of (rev (map (\<lambda>n. (nd_id n, n)) (lexical @ semantic))) i = Some n" "s = summary_of n x"
    using named_results [OF assms [unfolded fuse_summaries_def Let_def]] by blast
  then show ?thesis using map_of_SomeD by fastforce
qed

lemma summary_search_member:
  assumes "summary_search env b project query k t space rows = Some ss" and "s \<in> set ss"
  shows "0 \<le> su_score s \<and> su_score s \<le> 1 \<and>
    (\<exists>n\<in>set rows. searchable b n \<and> s = summary_at project t rows (summary_of n (su_score s)))"
proof -
  obtain lexical semantic where L: "lexical_summaries env b query k rows = Some lexical"
    "semantic_summaries env b query k space rows = Some semantic"
    using assms(1) by (auto simp: summary_search_def split: option.splits)
  let ?fused = "map (summary_at project t rows) (fuse_summaries (se_shuffle env) lexical semantic)"
  let ?ranked = "sort_key (\<lambda>s. (- su_score s, su_rowid s)) ?fused"
  have "summary_at project t rows = (if 0 < t then summary_as_of project t rows else id)"
    by (simp add: summary_at_def fun_eq_iff)
  then have ss: "ss = take k (normalize_summaries ?ranked)"
    using assms(1) by (auto simp: summary_search_def L Let_def)
  obtain f where f: "normalize_summaries ?ranked = map (\<lambda>s. s\<lparr>su_score := f (su_score s)\<rparr>) ?ranked"
    "\<And>s. s \<in> set ?ranked \<Longrightarrow> 0 \<le> f (su_score s) \<and> f (su_score s) \<le> 1" "\<And>a c. a \<le> c \<Longrightarrow> f a \<le> f c"
    by (rule normalize_summaries_map) blast
  obtain r where r: "r \<in> set ?ranked" "s = r\<lparr>su_score := f (su_score r)\<rparr>"
    using in_set_takeD [OF assms(2) [unfolded ss]] unfolding f(1) set_map by (elim imageE)
  then obtain r0 where "r = summary_at project t rows r0" "r0 \<in> set (fuse_summaries (se_shuffle env) lexical semantic)"
    by auto
  with fuse_summaries_member obtain n x where n: "n \<in> set (lexical @ semantic)" "r = summary_at project t rows (summary_of n x)"
    by blast
  have "n \<in> set rows \<and> searchable b n"
    using n(1) lexical_summaries_sound [OF L(1)] semantic_summaries_sound [OF L(2)] by auto
  moreover have "s = summary_at project t rows (summary_of n (su_score s))"
    using r(2) n(2) by (simp add: summary_of_def)
  moreover have "su_score s = f (su_score r)" using r(2) by simp
  then have "0 \<le> su_score s \<and> su_score s \<le> 1" using f(2) [OF r(1)] by simp
  ultimately show ?thesis by blast
qed

lemma summary_search_length: "summary_search env b project query k t space rows = Some ss \<Longrightarrow> length ss \<le> k"
  by (auto simp: summary_search_def Let_def split: option.splits)

text \<open>Which chunk a candidate becomes at a time.\<close>

lemma apply_chunk_as_of_member:
  assumes "apply_chunk_as_of t cands db = Some cs" and "c \<in> set cs"
  shows "\<exists>r\<in>set cands. if t \<le> 0 then sr_chunk c = sr_chunk r
    else \<exists>row. get_chunk_as_of (sr_chunk r) t (cd_rows db) = Some (Some row) \<and> sr_chunk c = ck_id row"
proof (cases "t \<le> 0")
  case False
  let ?g = "\<lambda>r. case get_chunk_as_of (sr_chunk r) t (cd_rows db) of
      Some (Some c) \<Rightarrow>
        Some (result_of (ck_id c, case map_of (rev (map (\<lambda>x. (sr_chunk x, sr_score x)) cands)) (sr_chunk r) of
                 Some s \<Rightarrow> s | None \<Rightarrow> 0)
          \<lparr>cw_chunk = c, cw_content = (case get_chunk_content (ck_id c) (cd_texts db) of None \<Rightarrow> [] | Some t \<Rightarrow> t)\<rparr>)
    | _ \<Rightarrow> None"
  have "cs = List.map_filter ?g cands"
    using assms(1) False by (simp only: apply_chunk_as_of_def if_False split: if_splits, simp_all)
  then obtain r where r: "r \<in> set cands" "?g r = Some c" using assms(2) by (auto simp: List.map_filter_def simp del: option.case)
  then obtain row where "get_chunk_as_of (sr_chunk r) t (cd_rows db) = Some (Some row)" "sr_chunk c = ck_id row"
    by (auto simp: result_of_def split: option.splits)
  then show ?thesis using r(1) False by auto
qed (use assms in \<open>auto simp: apply_chunk_as_of_def\<close>)

lemma summary_tier_reply:
  assumes run: "handle_search env header req st = Some (st', Inr reply)" and tier: "sq_tier req = tier_summary"
  obtains b ss where "buffer_id_for_project (sq_project req) (bd_rows (xs_buffers (sg_maps st))) = Some b"
    and "summary_search env b (sq_project req) (sanitize_fts (sq_query req)) (result_limit (se_config env) (sq_max req))
           (sq_as_of req) (sg_summaries st) (sg_nodes st) = Some ss"
    and "sy_results reply = map summary_to_result ss" "sy_summaries reply = map summary_hit_from ss" "sy_maps reply = []"
  using run tier by (auto simp: handle_search_def Let_def split: sum.splits if_splits option.splits)

text \<open>
  C32: What a search answers. The summary tier gives summaries only, at most the number asked for, each an
  approved, live and fresh summary of the project with a score between 0 and 1 (no minimum
  applies), shown as of the time asked for. Every other tier gives such summaries of now, none below the configured
  minimum, and chunks: without summaries up to three times the number asked for, with them both
  together keep to it. Each chunk is one of the project, or, in time travel, the revision of the
  time asked for of a chunk of the project, when every chunk vector belongs to a stored chunk.
\<close>

theorem search_answer_sound:
  assumes ok: "hash_order_ok (se_shuffle env)" and vec: "chunk_space_ok env st"
    and run: "handle_search env header req st = Some (st', Inr reply)"
    and k: "k = result_limit (se_config env) (sq_max req)"
  shows "\<exists>b. buffer_id_for_project (sq_project req) (bd_rows (xs_buffers (sg_maps st))) = Some b \<and>
    (if sq_tier req = tier_summary
     then sy_maps reply = [] \<and>
       (\<exists>ss. sy_summaries reply = map summary_hit_from ss \<and> sy_results reply = map summary_to_result ss \<and> length ss \<le> k \<and>
          (\<forall>s\<in>set ss. 0 \<le> su_score s \<and> su_score s \<le> 1 \<and> (\<exists>n\<in>set (sg_nodes st). searchable b n \<and>
             s = summary_at (sq_project req) (sq_as_of req) (sg_nodes st) (summary_of n (su_score s)))))
     else
       (\<forall>h\<in>set (sy_summaries reply). sf_summary_min (se_config env) \<le> sh_score h \<and> sh_score h \<le> 1 \<and>
          (\<exists>n\<in>set (sg_nodes st). searchable b n \<and> h = summary_hit_from (summary_of n (sh_score h)))) \<and>
       (if sy_summaries reply = [] then length (sy_results reply) \<le> 3 * k
        else length (sy_results reply) + length (sy_summaries reply) \<le> k) \<and>
       length (sy_maps reply) \<le> sf_maps_limit (se_config env) \<and>
       (\<forall>r\<in>set (sy_results reply). \<exists>i. in_buffer b (cd_rows (sg_chunks st)) i \<and>
          (if sq_as_of req \<le> 0 then pr_chunk r = i
           else \<exists>c. get_chunk_as_of i (sq_as_of req) (cd_rows (sg_chunks st)) = Some (Some c) \<and> pr_chunk r = ck_id c)))"
proof (cases "sq_tier req = tier_summary")
  case True
  obtain b ss where p: "buffer_id_for_project (sq_project req) (bd_rows (xs_buffers (sg_maps st))) = Some b"
    "summary_search env b (sq_project req) (sanitize_fts (sq_query req)) k (sq_as_of req) (sg_summaries st) (sg_nodes st) = Some ss"
    "sy_results reply = map summary_to_result ss" "sy_summaries reply = map summary_hit_from ss" "sy_maps reply = []"
    by (rule summary_tier_reply [OF run True, folded k])
  then show ?thesis using True summary_search_member [OF p(2)] summary_search_length [OF p(2)] by auto
next
  case tier: False
  obtain ctx b candidates st0 where p:
    "buffer_id_for_project (sq_project req) (bd_rows (xs_buffers (sg_maps st))) = Some b"
    "st0 = st\<lparr>sg_history := record_query_history (int (xe_secs (se_map env))) ctx (sq_project req) ''search'' (sq_query req)
           (bd_rows (xs_buffers (sg_maps st))) (sg_history st)\<rparr>"
    "apply_chunk_as_of (sq_as_of req) (search_chunks env b (sanitize_fts (sq_query req)) (resolve_tier (sf_tier (se_config env)) (sq_tier req)) k st)
       (sg_chunks st) = Some candidates"
    "unify_query env (sq_project req) b (sq_query req) (sanitize_fts (sq_query req)) (to_proto_results candidates) k st0 =
       (st', sy_results reply, sy_summaries reply, sy_maps reply)"
    by (rule handle_search_parts [OF run tier, folded k])
  obtain hits where u: "unify_results (sf_summary_ratio (se_config env)) (sf_summary_min (se_config env)) k
      (map_option (map (\<lambda>s. (s, su_score s)))
        (summary_search env b (sq_project req) (sanitize_fts (sq_query req)) k 0 (sg_summaries st) (sg_nodes st)))
      (to_proto_results candidates) = (sy_results reply, hits)"
    "sy_summaries reply = map summary_hit_from hits" "attach_maps env (sq_project req) (sq_query req) st0 = (st', sy_maps reply)"
    by (rule unify_query_parts [OF p(4)]) (simp add: p(2))
  note uni = unify_results_option [OF u(1)]
  have "sf_summary_min (se_config env) \<le> su_score s \<and> su_score s \<le> 1 \<and> (\<exists>n\<in>set (sg_nodes st). searchable b n \<and> s = summary_of n (su_score s))"
    if "s \<in> set hits" for s
  proof -
    obtain all x where all: "map_option (map (\<lambda>s. (s, su_score s)))
        (summary_search env b (sq_project req) (sanitize_fts (sq_query req)) k 0 (sg_summaries st) (sg_nodes st)) = Some all"
      "(s, x) \<in> set all" "sf_summary_min (se_config env) \<le> x"
      using conjunct1 [OF uni] \<open>s \<in> set hits\<close> by blast
    then obtain ss where ss: "summary_search env b (sq_project req) (sanitize_fts (sq_query req)) k 0 (sg_summaries st) (sg_nodes st) = Some ss"
      "s \<in> set ss" "sf_summary_min (se_config env) \<le> su_score s"
      by auto
    from summary_search_found [OF ok _ ss(1,2)] ss(3) show ?thesis by simp
  qed
  then have summaries: "\<forall>h\<in>set (sy_summaries reply). sf_summary_min (se_config env) \<le> sh_score h \<and> sh_score h \<le> 1 \<and>
       (\<exists>n\<in>set (sg_nodes st). searchable b n \<and> h = summary_hit_from (summary_of n (sh_score h)))"
    unfolding u(2) by (simp add: image_iff) metis
  have "length candidates \<le> 3 * k"
    using apply_chunk_as_of_length [OF p(3)] search_chunks_length [OF ok] by (rule order_trans)
  then have len: "if sy_summaries reply = [] then length (sy_results reply) \<le> 3 * k
     else length (sy_results reply) + length (sy_summaries reply) \<le> k"
    using uni u(2) by (auto simp: to_proto_results_def split: if_splits)
  have "\<exists>i. in_buffer b (cd_rows (sg_chunks st)) i \<and> (if sq_as_of req \<le> 0 then pr_chunk r = i
      else \<exists>c. get_chunk_as_of i (sq_as_of req) (cd_rows (sg_chunks st)) = Some (Some c) \<and> pr_chunk r = ck_id c)"
    if "r \<in> set (sy_results reply)" for r
  proof -
    obtain c where c: "c \<in> set candidates" "pr_chunk r = sr_chunk c"
      using \<open>r \<in> set (sy_results reply)\<close> conjunct2 [OF uni] by (auto simp: to_proto_results_def)
    obtain r0 where r0: "r0 \<in> set (search_chunks env b (sanitize_fts (sq_query req)) (resolve_tier (sf_tier (se_config env)) (sq_tier req)) k st)"
      "if sq_as_of req \<le> 0 then sr_chunk c = sr_chunk r0
       else \<exists>row. get_chunk_as_of (sr_chunk r0) (sq_as_of req) (cd_rows (sg_chunks st)) = Some (Some row) \<and> sr_chunk c = ck_id row"
      using apply_chunk_as_of_member [OF p(3) c(1)] by blast
    have "in_buffer b (cd_rows (sg_chunks st)) (sr_chunk r0)"
      using hybrid_search_in_buffer [OF ok vec [unfolded chunk_space_ok_def]] r0(1) unfolding search_chunks_def by metis
    then show ?thesis using r0(2) c(2) by (intro exI [of _ "sr_chunk r0"]) auto
  qed
  then show ?thesis using p(1) summaries len attach_maps_bound [OF u(3)] tier by auto
qed

text \<open>
  Time travel moves the chunks only: the summaries and the maps of an answer are those of now,
  whatever time was asked for.
\<close>

lemma unify_results_same_hits:
  "snd (unify_results ratio m k found cands) = snd (unify_results ratio m k found cands')"
  by (simp add: unify_results_def Let_def split: option.split prod.split)

theorem search_time_travel_chunks_only:
  assumes then_run: "handle_search env header (req\<lparr>sq_as_of := t\<rparr>) st = Some (st1, Inr then_reply)"
    and now_run: "handle_search env header (req\<lparr>sq_as_of := 0\<rparr>) st = Some (st2, Inr now_reply)"
    and tier: "sq_tier req \<noteq> tier_summary"
  shows "sy_summaries then_reply = sy_summaries now_reply \<and> sy_maps then_reply = sy_maps now_reply \<and> st1 = st2"
proof -
  let ?k = "result_limit (se_config env) (sq_max req)" and ?q = "sanitize_fts (sq_query req)"
  have tiers: "sq_tier (req\<lparr>sq_as_of := t\<rparr>) \<noteq> tier_summary" "sq_tier (req\<lparr>sq_as_of := 0\<rparr>) \<noteq> tier_summary" using tier by simp_all
  obtain ctx b c1 st0 where p1: "authenticate (xe_millis (se_map env)) header (xs_auth (sg_maps st)) = Inr ctx"
    "buffer_id_for_project (sq_project req) (bd_rows (xs_buffers (sg_maps st))) = Some b"
    "st0 = st\<lparr>sg_history := record_query_history (int (xe_secs (se_map env))) ctx (sq_project req) ''search'' (sq_query req)
       (bd_rows (xs_buffers (sg_maps st))) (sg_history st)\<rparr>"
    "unify_query env (sq_project req) b (sq_query req) ?q (to_proto_results c1) ?k st0 =
       (st1, sy_results then_reply, sy_summaries then_reply, sy_maps then_reply)"
    by (rule handle_search_parts [OF then_run tiers(1)]) simp
  obtain ctx' b' c2 st0' where p2: "authenticate (xe_millis (se_map env)) header (xs_auth (sg_maps st)) = Inr ctx'"
    "buffer_id_for_project (sq_project req) (bd_rows (xs_buffers (sg_maps st))) = Some b'"
    "st0' = st\<lparr>sg_history := record_query_history (int (xe_secs (se_map env))) ctx' (sq_project req) ''search'' (sq_query req)
       (bd_rows (xs_buffers (sg_maps st))) (sg_history st)\<rparr>"
    "unify_query env (sq_project req) b' (sq_query req) ?q (to_proto_results c2) ?k st0' =
       (st2, sy_results now_reply, sy_summaries now_reply, sy_maps now_reply)"
    by (rule handle_search_parts [OF now_run tiers(2)]) simp
  have eq: "b' = b" "st0' = st0" using p1(1-3) p2(1-3) by simp_all
  obtain h1 where u1: "unify_results (sf_summary_ratio (se_config env)) (sf_summary_min (se_config env)) ?k
      (map_option (map (\<lambda>s. (s, su_score s))) (summary_search env b (sq_project req) ?q ?k 0 (sg_summaries st0) (sg_nodes st0)))
      (to_proto_results c1) = (sy_results then_reply, h1)"
    "sy_summaries then_reply = map summary_hit_from h1" "attach_maps env (sq_project req) (sq_query req) st0 = (st1, sy_maps then_reply)"
    by (rule unify_query_parts [OF p1(4)])
  obtain h2 where u2: "unify_results (sf_summary_ratio (se_config env)) (sf_summary_min (se_config env)) ?k
      (map_option (map (\<lambda>s. (s, su_score s))) (summary_search env b (sq_project req) ?q ?k 0 (sg_summaries st0) (sg_nodes st0)))
      (to_proto_results c2) = (sy_results now_reply, h2)"
    "sy_summaries now_reply = map summary_hit_from h2" "attach_maps env (sq_project req) (sq_query req) st0 = (st2, sy_maps now_reply)"
    by (rule unify_query_parts [OF p2(4) [unfolded eq]])
  have "h1 = h2" using unify_results_same_hits u1(1) u2(1) by (metis snd_conv)
  then show ?thesis using u1(2,3) u2(2,3) by simp
qed

text \<open>
  The context of a task: the header and the sections of some of the chunks that were found, in
  order; the reported total is their token count, within the budget asked for. The number of
  chunks it reports is that of all that were found.
\<close>

theorem build_context_exact:
  assumes run: "handle_build_context env header req st = Inr reply" and m: "0 < cq_max_tokens req" "cq_max_tokens req < 2 ^ 31"
  shows "\<exists>b found incl. buffer_id_for_project (cq_project req) (bd_rows (xs_buffers (sg_maps st))) = Some b \<and>
    found = search_chunks env b (sanitize_fts (cq_task req)) Tier_Vector 50 st \<and> subseq incl found \<and>
    cy_context reply = context_header @ concat (map (context_section (se_show_score env)) incl) \<and>
    cy_total reply = int (sum_list (map (\<lambda>r. unat (text_tokens (sr_content r))) incl)) \<and> cy_total reply \<le> cq_max_tokens req \<and>
    cy_sources reply = to_proto_results found \<and> cy_raw_chunks reply = wrap_i32 (int (length found))"
proof -
  obtain b where b: "buffer_id_for_project (cq_project req) (bd_rows (xs_buffers (sg_maps st))) = Some b"
    using run by (auto simp: handle_build_context_def split: sum.splits if_splits option.splits)
  let ?found = "search_chunks env b (sanitize_fts (cq_task req)) Tier_Vector 50 st"
  let ?m = "context_tokens (se_config env) (cq_max_tokens req)"
  have um: "int (unat ?m) = cq_max_tokens req"
    using m by (simp add: context_tokens_def uint_word_of_int_eq take_bit_int_eq_self)
  obtain body tokens where r: "render_context (se_show_score env) ?found ?m = (body, tokens)" by fastforce
  have reply: "reply = \<lparr>cy_context = body, cy_sources = to_proto_results ?found, cy_total = sint tokens,
      cy_raw_chunks = wrap_i32 (int (length ?found))\<rparr>"
    using run by (auto simp: handle_build_context_def Let_def b r split: sum.splits if_splits)
  have "int (unat ?m) < int 2147483648" using m(2) unfolding um by simp
  then have small: "unat ?m < 2147483648" by (simp only: of_nat_less_iff)
  then have bound: "unat ?m \<le> 2 ^ 32 - 2 ^ 30" by simp
  from render_sections_spec [OF bound, of 0 ?found "se_show_score env" context_header]
  obtain incl where incl: "subseq incl ?found" "body = context_header @ concat (map (context_section (se_show_score env)) incl)"
    "unat tokens = sum_list (map (\<lambda>r. unat (text_tokens (sr_content r))) incl)" "unat tokens \<le> unat ?m"
    using r by (auto simp: render_context_def)
  have "int (unat tokens) < 2147483648" using incl(4) small by linarith
  moreover have "- 2147483648 \<le> uint tokens" by (rule order_trans [OF _ uint_ge_0]) simp
  ultimately have "sint tokens = int (unat tokens)" by (simp add: sint_uint signed_take_bit_int_eq_self)
  moreover have "int (unat tokens) \<le> cq_max_tokens req" using of_nat_mono [OF incl(4), where 'a = int] by (simp only: um)
  ultimately have "cy_total reply = int (sum_list (map (\<lambda>r. unat (text_tokens (sr_content r))) incl)) \<and> cy_total reply \<le> cq_max_tokens req"
    using incl(3) by (simp add: reply)
  then show ?thesis using b incl(1,2) by (intro exI [of _ b] exI [of _ ?found] exI [of _ incl]) (simp add: reply)
qed

section \<open>Witnesses\<close>

text \<open>A project with two chunks and one approved summary.\<close>

definition demo_summary_rows :: "rlm_node list" where
  "demo_summary_rows = node_run [Store ''n1'' 10 ((demo_node ''first'')\<lparr>nn_project := ''p''\<rparr>), Review 20 ''n1'' True ''boss''] []"

definition demo_search_server :: search_server where
  "demo_search_server =
     \<lparr>sg_maps = demo_map_server Admin, sg_chunks = demo_index, sg_nodes = demo_summary_rows,
      sg_summaries = Some (open_space 2 True None), sg_history = empty_table\<rparr>"

definition demo_search_env :: search_env where
  "demo_search_env =
     \<lparr>se_config = default_search_config, se_map = demo_map_env ''m1'', se_hybrid = demo_hybrid, se_shuffle = rev,
      se_rlm_fts = (\<lambda>_. Some [1]), se_show_score = (\<lambda>_. [])\<rparr>"

definition demo_search_request :: search_request where
  "demo_search_request = \<lparr>sq_project = ''p'', sq_query = ''q'', sq_max = 2, sq_tier = 1, sq_as_of = 0\<rparr>"

lemma demo_search_rows:
  "map (\<lambda>n. (nd_id n, nd_level n)) demo_summary_rows = [(1, 1)]" "map (searchable 1) demo_summary_rows = [True]"
  "map nd_project demo_summary_rows = [''p'']"
  by code_simp+

lemma demo_search_access:
  "\<exists>ctx. authenticate 2000 demo_map_header (xs_auth (demo_map_server Admin)) = Inr ctx"
  "buffer_id_for_project ''p'' (bd_rows (xs_buffers (demo_map_server Admin))) = Some 1"
proof -
  have "(case authenticate 2000 demo_map_header (xs_auth (demo_map_server Admin)) of Inl _ \<Rightarrow> False | Inr _ \<Rightarrow> True)" by code_simp
  then show "\<exists>ctx. authenticate 2000 demo_map_header (xs_auth (demo_map_server Admin)) = Inr ctx" by (auto split: sum.splits)
  show "buffer_id_for_project ''p'' (bd_rows (xs_buffers (demo_map_server Admin))) = Some 1" by code_simp
qed

lemma demo_summary_node: obtains n where "demo_summary_rows = [n]" "nd_id n = 1" "nd_level n = 1" "searchable 1 n" "nd_project n = ''p''"
proof -
  obtain n where n: "demo_summary_rows = [n]" using demo_search_rows(1) by (auto simp: map_eq_Cons_conv)
  have "nd_id n = 1" "nd_level n = 1" "searchable 1 n" "nd_project n = ''p''" using demo_search_rows unfolding n by simp_all
  with n show ?thesis by (rule that)
qed

lemma demo_semantic: "semantic_summaries demo_search_env 1 q k (Some (open_space 2 True None)) rows = Some []"
  by (simp add: semantic_summaries_def demo_search_env_def demo_map_env_def search_space_def space_len_def open_space_def
      get_approved_rlm_nodes_def List.map_filter_simps)

lemma demo_summaries:
  assumes "demo_summary_rows = [n]" "nd_id n = 1" "searchable 1 n" and "0 < k"
  shows "summary_search demo_search_env 1 ''p'' q k 0 (Some (open_space 2 True None)) demo_summary_rows = Some [summary_of n 1]"
proof -
  have "lexical_summaries demo_search_env 1 q k demo_summary_rows = Some [n]"
    using assms(4) unfolding assms(1) by (cases k) (simp_all add: lexical_summaries_def demo_search_env_def search_rlm_fts_def assms(2,3))
  moreover have "fuse_summaries rev [n] [] = [summary_of n (1/61)]"
    by (simp add: fuse_summaries_def add_ranking_def bump_def rrf_score_def List.map_filter_simps assms)
  moreover have "se_shuffle demo_search_env = rev" by (simp add: demo_search_env_def)
  ultimately show ?thesis
    using assms(4) by (cases k) (simp_all add: summary_search_def demo_semantic normalize_summaries_def summary_of_def)
qed

lemma demo_search_runs:
  "\<exists>st reply. handle_search demo_search_env demo_map_header (demo_search_request\<lparr>sq_as_of := 0\<rparr>) demo_search_server = Some (st, Inr reply)"
proof -
  obtain ctx where "authenticate 2000 demo_map_header (xs_auth (demo_map_server Admin)) = Inr ctx" using demo_search_access(1) by blast
  moreover have "trim ''q'' \<noteq> []" by code_simp
  ultimately show ?thesis
    using demo_search_access(2)
    by (auto simp: handle_search_def demo_search_env_def demo_search_request_def demo_search_server_def demo_map_env_def
        tier_summary_def apply_chunk_as_of_def Let_def split: prod.splits)
qed

lemma search_answer_sound_witness:
  "\<exists>st reply n. handle_search demo_search_env demo_map_header demo_search_request demo_search_server = Some (st, Inr reply) \<and>
     sy_summaries reply = [summary_hit_from (summary_of n 1)] \<and> length (sy_results reply) \<le> 1"
proof -
  obtain st reply where r: "handle_search demo_search_env demo_map_header demo_search_request demo_search_server = Some (st, Inr reply)"
    using demo_search_runs by (auto simp: demo_search_request_def)
  obtain n where n: "demo_summary_rows = [n]" "nd_id n = 1" "searchable 1 n" by (rule demo_summary_node)
  have "hash_order_ok (se_shuffle demo_search_env)" by (simp add: demo_search_env_def hash_order_ok_def)
  moreover have "chunk_space_ok demo_search_env demo_search_server"
    by (simp add: chunk_space_ok_def vectors_match_def demo_search_server_def demo_map_server_def)
  moreover have tier: "sq_tier demo_search_request \<noteq> tier_summary" by (simp add: demo_search_request_def tier_summary_def)
  moreover have k: "2 = result_limit (se_config demo_search_env) (sq_max demo_search_request)"
    by (simp add: demo_search_request_def result_limit_def)
  ultimately have sound: "if sy_summaries reply = [] then length (sy_results reply) \<le> 3 * 2
     else length (sy_results reply) + length (sy_summaries reply) \<le> 2"
    using search_answer_sound [OF _ _ r] tier by auto
  obtain ctx b candidates st0 where p: "buffer_id_for_project (sq_project demo_search_request) (bd_rows (xs_buffers (sg_maps demo_search_server))) = Some b"
    "st0 = demo_search_server\<lparr>sg_history := record_query_history (int (xe_secs (se_map demo_search_env))) ctx (sq_project demo_search_request) ''search''
       (sq_query demo_search_request) (bd_rows (xs_buffers (sg_maps demo_search_server))) (sg_history demo_search_server)\<rparr>"
    "unify_query demo_search_env (sq_project demo_search_request) b (sq_query demo_search_request) (sanitize_fts (sq_query demo_search_request))
       (to_proto_results candidates) 2 st0 = (st, sy_results reply, sy_summaries reply, sy_maps reply)"
    by (rule handle_search_parts [OF r tier, folded k])
  have b: "b = 1" using p(1) demo_search_access(2) by (simp add: demo_search_request_def demo_search_server_def)
  obtain hits where u: "unify_results (6/10) (35/100) 2 (Some [(summary_of n 1, 1)]) (to_proto_results candidates) = (sy_results reply, hits)"
    "sy_summaries reply = map summary_hit_from hits"
    by (rule unify_query_parts [OF p(3)])
      (use demo_summaries [OF n, of 2] in \<open>simp add: p(2) b demo_search_env_def default_search_config_def demo_search_server_def demo_search_request_def summary_of_def\<close>)
  have "hits = [summary_of n 1]"
    using u(1) by (simp add: unify_results_def split_summary_budget_def clamp_def Let_def)
  then show ?thesis using r u(2) sound by auto
qed

lemma summary_search_correct_witness:
  "\<exists>s. summary_search demo_search_env 1 ''p'' ''q'' 3 0 (Some (open_space 2 True None)) demo_summary_rows = Some [s] \<and>
     su_rowid s = 1 \<and> 0 \<le> su_score s \<and> su_score s \<le> 1"
proof -
  obtain n where n: "demo_summary_rows = [n]" "nd_id n = 1" "searchable 1 n" by (rule demo_summary_node)
  have run: "summary_search demo_search_env 1 ''p'' ''q'' 3 0 (Some (open_space 2 True None)) demo_summary_rows = Some [summary_of n 1]"
    by (rule demo_summaries [OF n]) simp
  have "hash_order_ok (se_shuffle demo_search_env)" by (simp add: demo_search_env_def hash_order_ok_def)
  from summary_search_correct [OF this _ run] run n(2) show ?thesis by (auto simp: summary_of_def)
qed

lemma summary_search_ignores_time_witness:
  "summary_search demo_search_env 1 ''p'' ''q'' 3 7 None demo_summary_rows = summary_search demo_search_env 1 ''p'' ''q'' 3 0 None demo_summary_rows"
proof -
  have "hash_order_ok (se_shuffle demo_search_env)" by (simp add: demo_search_env_def hash_order_ok_def)
  moreover have "\<forall>n\<in>set (node_run [Store ''n1'' 10 ((demo_node ''first'')\<lparr>nn_project := ''p''\<rparr>), Review 20 ''n1'' True ''boss''] []).
      nd_buffer n = Some 1 \<longrightarrow> nd_project n = ''p''"
  proof -
    obtain n where n: "demo_summary_rows = [n]" "nd_project n = ''p''" by (rule demo_summary_node)
    show ?thesis unfolding demo_summary_rows_def [symmetric] n(1) using n(2) by simp
  qed
  ultimately show ?thesis unfolding demo_summary_rows_def by (rule summary_search_ignores_time)
qed

end
