(* ===== verification/File_Filters.thy ===== *)
theory File_Filters
  imports Chunk_Index
begin

text \<open>
  Which files are read at all: the discovery of the client with its hidden, default, user and
  \<^verbatim>\<open>.gitignore\<close> rules (\<^verbatim>\<open>crates/arags-cli/src/dispatch/discover.rs\<close>, \<^verbatim>\<open>gitignore.rs\<close>) and the one of
  the ingestion library (\<^verbatim>\<open>crates/arags-embedding/src/pipeline/files.rs\<close>). A directory is a tree
  whose entries come in the order \<open>read_dir\<close> gives them; links and unreadable entries are
  not modelled, and paths are ASCII where a pattern counts characters. Lemmas: the matchers
  against the languages of their patterns, exactly which files are found, and what can never be.
\<close>

section \<open>Directory trees and paths\<close>

datatype fs_entry = Fs_File | Fs_Dir "(string \<times> fs_entry) list"

type_synonym fs_entries = "(string \<times> fs_entry) list"

definition join_path :: "string \<Rightarrow> string \<Rightarrow> string" where
  "join_path dir name = (if dir = [] then name else dir @ ''/'' @ name)"

definition path_segments :: "string \<Rightarrow> string list" where
  "path_segments p = split_slash [] p"

definition path_components :: "string \<Rightarrow> string list" where
  "path_components p = filter (\<lambda>s. s \<noteq> []) (split_slash [] p)"

definition ends_with :: "string \<Rightarrow> string \<Rightarrow> bool" where
  "ends_with suffix s \<longleftrightarrow> length suffix \<le> length s \<and> drop (length s - length suffix) s = suffix"

definition starts_with :: "string \<Rightarrow> string \<Rightarrow> bool" where
  "starts_with prefix s \<longleftrightarrow> take (length prefix) s = prefix"

definition contains_text :: "string \<Rightarrow> string \<Rightarrow> bool" where
  "contains_text pat s \<longleftrightarrow> find_sub pat s \<noteq> None"

definition star :: char where "star = CHR ''*''"
definition slash :: char where "slash = CHR ''/''"

section \<open>Wildcards of the ingestion library\<close>

text \<open>
  The table of \<open>wildcard_component\<close>, one row per pattern character: entry \<open>j\<close> of row \<open>i\<close> says
  whether the first \<open>i\<close> characters of the pattern match the first \<open>j\<close> of the text.
\<close>

fun star_row :: "bool \<Rightarrow> bool list \<Rightarrow> bool list" where
  "star_row left [] = []"
| "star_row left (up # row) = (up \<or> left) # star_row (up \<or> left) row"

definition char_row :: "char \<Rightarrow> string \<Rightarrow> bool list \<Rightarrow> bool list" where
  "char_row c text row = False # map2 (\<lambda>x diag. c = x \<and> diag) text row"

definition wildcard_row :: "string \<Rightarrow> char \<Rightarrow> bool list \<Rightarrow> bool list" where
  "wildcard_row text c row = (if c = star then star_row False row else char_row c text row)"

definition wildcard_component :: "string \<Rightarrow> string \<Rightarrow> bool" where
  "wildcard_component pat name =
     (if pat = name then True
      else if star \<notin> set pat then False
      else last (fold (wildcard_row name) pat (True # replicate (length name) False)))"

definition path_is_ignored :: "string list \<Rightarrow> string \<Rightarrow> bool" where
  "path_is_ignored patterns rel =
     (let rcomp = path_components rel
      in list_ex (\<lambda>p. let pcomp = path_components p
           in if pcomp = [] then False
              else if length pcomp = 1 then list_ex (wildcard_component (hd pcomp)) rcomp
              else length pcomp \<le> length rcomp \<and> list_all2 wildcard_component pcomp (take (length pcomp) rcomp)) patterns)"

fun component_match :: "string list \<Rightarrow> string list \<Rightarrow> bool" where
  "component_match [] [] = True"
| "component_match [] (r # rel) = False"
| "component_match (p # pat) rel =
     (if p = ''**'' then pat = [] \<or> list_ex (\<lambda>start. component_match pat (drop start rel)) [0..<length rel + 1]
      else case rel of [] \<Rightarrow> False | r # rest \<Rightarrow> wildcard_component p r \<and> component_match pat rest)"

definition path_matches :: "string \<Rightarrow> string \<Rightarrow> bool" where
  "path_matches pattern rel =
     (let pcomp = path_components pattern; rcomp = path_components rel
      in if pcomp = [] then False
         else component_match pcomp rcomp \<or> list_ex (\<lambda>i. component_match pcomp (take i rcomp)) [1..<length rcomp])"

definition path_force_matches :: "string list \<Rightarrow> string \<Rightarrow> bool" where
  "path_force_matches patterns rel = list_ex (\<lambda>p. path_matches p rel) patterns"

definition glob_match_simple :: "string \<Rightarrow> string \<Rightarrow> bool" where
  "glob_match_simple pattern name =
     (if starts_with ''*.'' pattern then
        let suffix = drop 2 pattern in ends_with suffix name \<and> length suffix + 1 < length name
      else if ends_with ''.*'' pattern then
        let prefix = take (length pattern - 2) pattern in starts_with prefix name \<and> length prefix + 1 < length name
      else name = pattern)"

definition text_extensions :: "string list" where
  "text_extensions =
     [''rs'', ''py'', ''js'', ''jsx'', ''ts'', ''tsx'', ''go'', ''java'', ''cpp'', ''cc'', ''cxx'', ''c'', ''h'', ''rb'',
      ''php'', ''md'', ''markdown'', ''txt'', ''log'', ''json'', ''yaml'', ''yml'', ''toml'', ''xml'', ''html'', ''css'',
      ''scss'', ''sql'', ''sh'', ''bash'', ''zsh'', ''fish'', ''vim'', ''el'', ''lisp'', ''r'', ''R'', ''jl'', ''swift'',
      ''kt'', ''scala'', ''ex'', ''exs'', ''erl'', ''hs'', ''ml'', ''clj'', ''lua'', ''pl'', ''pm'', ''env'', ''ini'',
      ''cfg'', ''conf'', ''envrc'']"

definition is_text_file :: "string \<Rightarrow> bool" where
  "is_text_file path = (case path_extension path of None \<Rightarrow> False | Some e \<Rightarrow> e \<in> set text_extensions)"

definition default_index_ignores :: "string list" where
  "default_index_ignores =
     [''.env'', ''.env.*'', ''*.pem'', ''*.key'', ''*.p12'', ''*.pfx'', ''*.jks'', ''*.keystore'', ''.vscode'', ''.github'',
      ''.gitlab'', ''.zed'', ''.idea'', ''vendor'', ''node_modules'', ''target'', ''__pycache__'', ''.git'', ''.venv'', ''venv'',
      ''dist'', ''build'', ''.next'', ''.turbo'', ''bower_components'', ''Seeds'', ''.seeds'', ''storage/logs'', ''REFERENCE'',
      ''_Exemplos'']"

function (sequential) discover_files_recursive ::
  "string list \<Rightarrow> string list \<Rightarrow> string list \<Rightarrow> string \<Rightarrow> fs_entries \<Rightarrow> string list" where
  "discover_files_recursive defaults extra force dir [] = []"
| "discover_files_recursive defaults extra force dir ((name, e) # entries) =
     (let rel = join_path dir name; forced = force \<noteq> [] \<and> path_force_matches force rel;
          ignored = path_is_ignored defaults rel \<or> path_is_ignored extra rel
      in (case e of
            Fs_Dir es \<Rightarrow> if forced \<or> \<not> ignored then discover_files_recursive defaults extra force rel es else []
          | Fs_File \<Rightarrow> if forced \<or> \<not> ignored \<and> is_text_file rel then [rel] else [])
         @ discover_files_recursive defaults extra force dir entries)"
  by pat_completeness auto
termination
  by (relation "measure (\<lambda>(_, _, _, _, es). size_list (size_prod (\<lambda>_. 0) size) es)") auto

definition discover_files :: "string list \<Rightarrow> string list \<Rightarrow> string list \<Rightarrow> fs_entries \<Rightarrow> string list" where
  "discover_files defaults extra force entries = discover_files_recursive defaults extra force [] entries"

section \<open>The table computes the language of its pattern\<close>

fun glob_lang :: "string \<Rightarrow> string set" where
  "glob_lang [] = {[]}"
| "glob_lang (c # p) = (if c = star then {u @ v |u v. v \<in> glob_lang p} else (#) c ` glob_lang p)"

lemma glob_lang_snoc:
  "glob_lang (p @ [c]) = (if c = star then {u @ v |u v. u \<in> glob_lang p} else (\<lambda>u. u @ [c]) ` glob_lang p)"
proof (induction p)
  case Nil
  then show ?case by auto
next
  case (Cons d p)
  show ?case
  proof (cases "d = star")
    case True
    have "{u @ v |u v. v \<in> glob_lang (p @ [c])} =
        (if c = star then {u @ v |u v. u \<in> {x @ y |x y. y \<in> glob_lang p}} else (\<lambda>u. u @ [c]) ` {x @ y |x y. y \<in> glob_lang p})"
      unfolding Cons.IH by (auto simp: image_iff) (metis append_assoc)+
    then show ?thesis using True by simp
  next
    case False
    then show ?thesis unfolding append_Cons glob_lang.simps Cons.IH by (auto simp: image_iff) (metis append_Cons)+
  qed
qed

definition match_row :: "string \<Rightarrow> string \<Rightarrow> bool list" where
  "match_row p text = map (\<lambda>j. take j text \<in> glob_lang p) [0..<Suc (length text)]"

lemma length_match_row [simp]: "length (match_row p text) = Suc (length text)"
  by (simp add: match_row_def)

lemma nth_match_row [simp]: "j \<le> length text \<Longrightarrow> match_row p text ! j = (take j text \<in> glob_lang p)"
  by (simp add: match_row_def nth_append del: upt_Suc)

lemma length_star_row [simp]: "length (star_row l row) = length row"
  by (induction row arbitrary: l) (auto simp: Let_def)

lemma nth_star_row: "j < length row \<Longrightarrow> star_row l row ! j = (l \<or> (\<exists>k\<le>j. row ! k))"
proof (induction row arbitrary: l j)
  case (Cons a row)
  show ?case
  proof (cases j)
    case (Suc i)
    have "(\<exists>k\<le>Suc i. (a # row) ! k) \<longleftrightarrow> a \<or> (\<exists>k\<le>i. row ! k)"
      by (auto simp: nth_Cons' less_Suc_eq_le split: if_splits intro: exI [of _ 0])
    then show ?thesis using Cons Suc by auto
  qed auto
qed simp

lemma wildcard_row_step: "wildcard_row text c (match_row p text) = match_row (p @ [c]) text"
proof (rule nth_equalityI)
  show len: "length (wildcard_row text c (match_row p text)) = length (match_row (p @ [c]) text)"
    by (simp add: wildcard_row_def char_row_def)
  fix j assume "j < length (wildcard_row text c (match_row p text))"
  then have j: "j \<le> length text" unfolding len by simp
  show "wildcard_row text c (match_row p text) ! j = match_row (p @ [c]) text ! j"
  proof (cases "c = star")
    case True
    have "(\<exists>k\<le>j. take k text \<in> glob_lang p) \<longleftrightarrow> (\<exists>u v. take j text = u @ v \<and> u \<in> glob_lang p)"
    proof
      assume "\<exists>k\<le>j. take k text \<in> glob_lang p"
      then obtain k where "k \<le> j" "take k text \<in> glob_lang p" by blast
      moreover from this have "take j text = take k text @ drop k (take j text)" by (metis append_take_drop_id min.absorb1 take_take)
      ultimately show "\<exists>u v. take j text = u @ v \<and> u \<in> glob_lang p" by blast
    next
      assume "\<exists>u v. take j text = u @ v \<and> u \<in> glob_lang p"
      then obtain u v where u: "take j text = u @ v" "u \<in> glob_lang p" by blast
      then have "length u \<le> j" by (metis length_append length_take le_add1 min.bounded_iff)
      moreover have "take (length u) text = u"
        using u(1) calculation by (metis append_eq_conv_conj min.absorb1 take_take)
      ultimately show "\<exists>k\<le>j. take k text \<in> glob_lang p" using u(2) by metis
    qed
    then show ?thesis using j True by (auto simp: wildcard_row_def nth_star_row glob_lang_snoc)
  next
    case False
    show ?thesis
    proof (cases j)
      case 0
      then show ?thesis using False by (auto simp: wildcard_row_def char_row_def glob_lang_snoc)
    next
      case (Suc i)
      then have i: "i < length text" using j by simp
      then have "take (Suc i) text = take i text @ [text ! i]" by (simp add: take_Suc_conv_app_nth)
      then show ?thesis using False Suc i by (auto simp: wildcard_row_def char_row_def glob_lang_snoc)
    qed
  qed
qed

lemma fold_wildcard_row: "fold (wildcard_row text) q (match_row p text) = match_row (p @ q) text"
  by (induction q arbitrary: p) (simp_all add: wildcard_row_step)

lemma first_match_row: "True # replicate (length text) False = match_row [] text"
  by (rule nth_equalityI) (auto simp: nth_Cons')

lemma no_star_lang: "star \<notin> set p \<Longrightarrow> glob_lang p = {p}"
  by (induction p) auto

lemma self_lang: "p \<in> glob_lang p"
proof (induction p)
  case (Cons c p)
  then show ?case by (cases "c = star") (auto intro: exI [of _ "[c]"])
qed simp

lemma wildcard_component_iff: "wildcard_component pat name \<longleftrightarrow> name \<in> glob_lang pat"
proof -
  have "last (fold (wildcard_row name) pat (True # replicate (length name) False)) = (name \<in> glob_lang pat)"
    unfolding first_match_row fold_wildcard_row by (simp add: last_conv_nth match_row_def nth_append del: upt_Suc)
  then show ?thesis using no_star_lang self_lang by (auto simp: wildcard_component_def)
qed

text \<open>
  C35: The table of \<open>wildcard_component\<close> decides the language of its pattern, in which a star stands
  for any text and every other character for itself.
\<close>

theorem wildcard_component_correct: "wildcard_component pat name \<longleftrightarrow> name \<in> glob_lang pat"
  by (rule wildcard_component_iff)

section \<open>Rules of a \<^verbatim>\<open>.gitignore\<close> file\<close>

record ignore_rule =
  ir_pattern :: string
  ir_base :: string
  ir_dir_only :: bool
  ir_anchored :: bool
  ir_negated :: bool

definition trim_end_slashes :: "string \<Rightarrow> string" where
  "trim_end_slashes s = rev (dropWhile (\<lambda>c. c = slash) (rev s))"

definition parse_line :: "string \<Rightarrow> string \<Rightarrow> ignore_rule option" where
  "parse_line line base =
     (let trimmed = trim line
      in if trimmed = [] \<or> starts_with ''#'' trimmed then None
         else let negated = starts_with ''!'' trimmed;
                  rest = (if negated then drop 1 trimmed else trimmed);
                  dir_only = ends_with ''/'' rest;
                  rest = (if dir_only then trim_end_slashes rest else rest)
              in if rest = [] then None
                 else let rest = (if starts_with [CHR 0x5C] rest \<and> 1 < length rest then drop 1 rest else rest)
                      in Some \<lparr>ir_pattern = dropWhile (\<lambda>c. c = slash) rest, ir_base = base, ir_dir_only = dir_only,
                               ir_anchored = slash \<in> set rest, ir_negated = negated\<rparr>)"

text \<open>\<open>None\<close> when the path is not below the directory of the rule.\<close>

definition relative_to :: "string \<Rightarrow> string \<Rightarrow> string option" where
  "relative_to base rel =
     (if base = ''.'' \<or> base = [] then Some rel
      else if starts_with (base @ ''/'') rel then Some (drop (length base + 1) rel) else None)"

function all_suffix_segments :: "string \<Rightarrow> string list" where
  "all_suffix_segments rel =
     (case find_sub ''/'' rel of None \<Rightarrow> [rel] | Some i \<Rightarrow> rel # all_suffix_segments (drop (i + 1) rel))"
  by pat_completeness auto
termination
proof (relation "measure length", goal_cases)
  case (2 rel i)
  then show ?case by (cases rel) auto
qed simp

text \<open>The path and its prefixes that end before a slash.\<close>

fun prefix_segments :: "string \<Rightarrow> string \<Rightarrow> string list" where
  "prefix_segments done [] = []"
| "prefix_segments done (c # cs) = (if c = slash then [done] else []) @ prefix_segments (done @ [c]) cs"

function glob_impl :: "string \<Rightarrow> string \<Rightarrow> bool" where
  "glob_impl [] text = (text = [])"
| "glob_impl (c # pat) text =
     (if c = star then
        (case pat of
           d # rest0 \<Rightarrow>
             if d = star then
               let rest = (case rest0 of e # rest1 \<Rightarrow> if e = slash then rest1 else rest0 | [] \<Rightarrow> rest0)
               in glob_impl rest [] \<or>
                  list_ex (\<lambda>start. (text ! start = slash \<or> start = 0) \<and>
                             glob_impl rest (if text ! start = slash then drop (start + 1) text else drop start text)) [0..<length text]
             else list_ex (\<lambda>skip. slash \<notin> set (take skip text) \<and> glob_impl pat (drop skip text)) [0..<length text + 1]
         | [] \<Rightarrow> list_ex (\<lambda>skip. slash \<notin> set (take skip text) \<and> glob_impl pat (drop skip text)) [0..<length text + 1])
      else case text of [] \<Rightarrow> False
           | x # xs \<Rightarrow> (if c = CHR ''?'' then x \<noteq> slash else x = c) \<and> glob_impl pat xs)"
  by pat_completeness auto
termination
  by (relation "measure (\<lambda>(pat, _). length pat)") (auto split: if_splits list.splits)

definition glob_match :: "string \<Rightarrow> string \<Rightarrow> bool" where
  "glob_match pattern candidate = glob_impl pattern candidate"

definition rule_matches :: "ignore_rule \<Rightarrow> string \<Rightarrow> bool \<Rightarrow> bool" where
  "rule_matches r rel is_dir =
     (if ir_dir_only r \<and> \<not> is_dir then False
      else case relative_to (ir_base r) rel of
        None \<Rightarrow> False
      | Some rel' \<Rightarrow>
          list_ex (glob_match (ir_pattern r))
            (if ir_anchored r then rel' # prefix_segments [] rel' else all_suffix_segments rel'))"

text \<open>The last rule that matches decides.\<close>

definition gitignore_decides :: "ignore_rule list \<Rightarrow> string \<Rightarrow> bool \<Rightarrow> bool" where
  "gitignore_decides rules rel is_dir =
     fold (\<lambda>r decision. if rule_matches r rel is_dir then \<not> ir_negated r else decision) rules False"

text \<open>
  Loading the rules: the files of a tree outside the skipped directories, down to 32 levels,
  parsed line by line and ordered by depth, deeper ones later. \<open>read\<close> gives the text of a file.
\<close>

definition skipped_for_rules :: "string list" where
  "skipped_for_rules = [''.git'', ''target'', ''node_modules'', ''.venv'']"

function (sequential) collect_gitignore_files :: "string \<Rightarrow> nat \<Rightarrow> fs_entries \<Rightarrow> string list" where
  "collect_gitignore_files dir depth [] = []"
| "collect_gitignore_files dir depth ((name, e) # entries) =
     (if 32 < depth then []
      else (case e of
              Fs_Dir es \<Rightarrow> if name \<in> set skipped_for_rules then [] else collect_gitignore_files (join_path dir name) (depth + 1) es
            | Fs_File \<Rightarrow> if name = ''.gitignore'' then [dir] else [])
           @ collect_gitignore_files dir depth entries)"
  by pat_completeness auto
termination
  by (relation "measure (\<lambda>(_, _, es). size_list (size_prod (\<lambda>_. 0) size) es)") auto

definition load_gitignores :: "(string \<Rightarrow> string) \<Rightarrow> fs_entries \<Rightarrow> ignore_rule list" where
  "load_gitignores read entries =
     map snd (sort_key fst
       (concat (map (\<lambda>dir. map (\<lambda>r. (length (path_components dir), r))
                             (List.map_filter (\<lambda>line. parse_line line dir) (lines (read (join_path dir ''.gitignore'')))))
                 (collect_gitignore_files [] 0 entries))))"

section \<open>Discovery of the client\<close>

definition has_component :: "string \<Rightarrow> string \<Rightarrow> bool" where
  "has_component rel name \<longleftrightarrow> name \<in> set (path_segments rel)"

definition default_ignored_dirs :: "string list" where
  "default_ignored_dirs =
     [''.git'', ''.arags'', ''target'', ''node_modules'', ''vendor'', ''.venv'', ''venv'', ''__pycache__'', ''.idea'', ''.vscode'',
      ''dist'', ''build'', ''.next'', ''.terraform'', ''Seeds'', ''.seeds'', ''REFERENCE'', ''_Exemplos'']"

definition default_ignored_prefixes :: "string list" where
  "default_ignored_prefixes = [''storage/logs'']"

definition default_ignored_exts :: "string list" where
  "default_ignored_exts =
     [''lock'', ''png'', ''jpg'', ''jpeg'', ''gif'', ''ico'', ''pdf'', ''zip'', ''gz'', ''tar'', ''bin'', ''exe'', ''dll'',
      ''so'', ''dylib'', ''woff'', ''woff2'', ''ttf'', ''eot'', ''mp4'', ''mp3'', ''wav'']"

definition is_default_ignored :: "string \<Rightarrow> bool \<Rightarrow> bool" where
  "is_default_ignored rel is_dir =
     (if is_dir then list_ex (has_component rel) default_ignored_dirs \<or>
                     list_ex (\<lambda>p. rel = p \<or> starts_with (p @ ''/'') rel) default_ignored_prefixes
      else list_ex (\<lambda>ext. ends_with ext (ascii_lower rel)) default_ignored_exts)"

definition matches_pattern :: "string \<Rightarrow> string \<Rightarrow> bool" where
  "matches_pattern rel pat =
     (if ends_with ''/'' pat then has_component rel (take (length pat - 1) pat)
      else if starts_with ''*.'' pat then ends_with (drop 2 pat) (ascii_lower rel)
      else if star \<in> set pat then
        let simple = filter (\<lambda>c. c \<noteq> star) pat in simple \<noteq> [] \<and> contains_text simple (ascii_lower rel)
      else if slash \<in> set pat then rel = pat \<or> ends_with pat rel \<or> contains_text pat rel
      else has_component rel pat)"

definition matches_any :: "string \<Rightarrow> string list \<Rightarrow> bool" where
  "matches_any rel patterns = list_ex (matches_pattern rel) patterns"

definition hidden_path :: "string \<Rightarrow> bool" where
  "hidden_path rel = list_ex (starts_with ''.'') (path_segments rel)"

text \<open>What happens to one entry: whether a directory is entered or a file sent.\<close>

definition keep_entry :: "string list \<Rightarrow> string list \<Rightarrow> ignore_rule list \<Rightarrow> string \<Rightarrow> bool \<Rightarrow> bool" where
  "keep_entry ignore force rules rel is_dir =
     (let forced = matches_any rel force
      in if hidden_path rel \<and> \<not> forced then False
         else forced \<or> \<not> (is_default_ignored rel is_dir \<or> matches_any rel ignore \<or> gitignore_decides rules rel is_dir))"

definition entered_dirs :: "(string \<Rightarrow> bool \<Rightarrow> bool) \<Rightarrow> string \<Rightarrow> fs_entries \<Rightarrow> (string \<times> fs_entries) list" where
  "entered_dirs keep dir entries =
     List.map_filter (\<lambda>(name, e). case e of
         Fs_Dir es \<Rightarrow> if keep (join_path dir name) True then Some (join_path dir name, es) else None
       | Fs_File \<Rightarrow> None) entries"

definition sent_files :: "(string \<Rightarrow> bool \<Rightarrow> bool) \<Rightarrow> string \<Rightarrow> fs_entries \<Rightarrow> string list" where
  "sent_files keep dir entries =
     List.map_filter (\<lambda>(name, e). case e of
         Fs_File \<Rightarrow> if keep (join_path dir name) False then Some (join_path dir name) else None
       | Fs_Dir _ \<Rightarrow> None) entries"

lemma entered_dirs_size:
  "sum_list (map (\<lambda>x. Suc (size_list (size_prod (\<lambda>_. 0) size) (snd x))) (entered_dirs keep dir entries)) \<le>
     size_list (size_prod (\<lambda>_. 0) size) entries"
  by (induction entries) (auto simp: entered_dirs_def List.map_filter_simps split: option.splits fs_entry.splits if_splits)

text \<open>The stack of directories still to read; the top of the stack is the head of the list.\<close>

function (sequential) discover_loop ::
  "(string \<Rightarrow> bool \<Rightarrow> bool) \<Rightarrow> (string \<times> fs_entries) list \<Rightarrow> string list \<Rightarrow> string list" where
  "discover_loop keep [] out = out"
| "discover_loop keep ((dir, entries) # stack) out =
     discover_loop keep (rev (entered_dirs keep dir entries) @ stack) (out @ sent_files keep dir entries)"
  by pat_completeness auto
termination
proof (relation "measure (\<lambda>(_, stack, _). sum_list (map (\<lambda>x. Suc (size_list (size_prod (\<lambda>_. 0) size) (snd x))) stack))", goal_cases)
  case (2 keep dir entries stack out)
  show ?case using entered_dirs_size [of keep dir entries] by (simp add: rev_map [symmetric] sum_list_rev)
qed simp

definition discover_client :: "(string \<Rightarrow> string) \<Rightarrow> string list \<Rightarrow> string list \<Rightarrow> fs_entries \<Rightarrow> string list" where
  "discover_client read ignore force entries =
     discover_loop (keep_entry ignore force (load_gitignores read entries)) [([], entries)] []"

section \<open>What is found\<close>

text \<open>A file whose directories are all entered and that is sent itself.\<close>

inductive kept_file :: "(string \<Rightarrow> bool \<Rightarrow> bool) \<Rightarrow> string \<Rightarrow> fs_entries \<Rightarrow> string \<Rightarrow> bool" where
  Kept_Here: "(name, Fs_File) \<in> set entries \<Longrightarrow> keep (join_path dir name) False \<Longrightarrow> kept_file keep dir entries (join_path dir name)"
| Kept_Below: "(name, Fs_Dir es) \<in> set entries \<Longrightarrow> keep (join_path dir name) True \<Longrightarrow> kept_file keep (join_path dir name) es rel \<Longrightarrow>
    kept_file keep dir entries rel"

lemma kept_file_sent: "kept_file keep dir entries rel \<Longrightarrow> keep rel False"
  by (induction rule: kept_file.induct)

lemma in_sent_files:
  "rel \<in> set (sent_files keep dir entries) \<longleftrightarrow> (\<exists>name. (name, Fs_File) \<in> set entries \<and> keep rel False \<and> rel = join_path dir name)"
  by (induction entries) (auto simp: sent_files_def List.map_filter_simps split: option.splits fs_entry.splits if_splits)

lemma in_entered_dirs:
  "(d, es) \<in> set (entered_dirs keep dir entries) \<longleftrightarrow> (\<exists>name. (name, Fs_Dir es) \<in> set entries \<and> keep d True \<and> d = join_path dir name)"
  by (induction entries) (auto simp: entered_dirs_def List.map_filter_simps split: option.splits fs_entry.splits if_splits)

lemma kept_file_iff:
  "kept_file keep dir entries rel \<longleftrightarrow> rel \<in> set (sent_files keep dir entries) \<or>
     (\<exists>(d, es)\<in>set (entered_dirs keep dir entries). kept_file keep d es rel)"
proof
  assume "kept_file keep dir entries rel"
  then show "rel \<in> set (sent_files keep dir entries) \<or> (\<exists>(d, es)\<in>set (entered_dirs keep dir entries). kept_file keep d es rel)"
  proof cases
    case (Kept_Here name)
    then show ?thesis by (intro disjI1) (auto simp: in_sent_files)
  next
    case (Kept_Below name es)
    then have "(join_path dir name, es) \<in> set (entered_dirs keep dir entries)" by (auto simp: in_entered_dirs)
    then show ?thesis using Kept_Below(3) by blast
  qed
qed (auto simp: in_sent_files in_entered_dirs intro: kept_file.intros)

lemma discover_loop_found:
  "set (discover_loop keep stack out) = set out \<union> {rel. \<exists>(d, es)\<in>set stack. kept_file keep d es rel}"
proof (induction keep stack out rule: discover_loop.induct)
  case (2 keep dir entries stack out)
  have "{rel. kept_file keep dir entries rel} = set (sent_files keep dir entries) \<union>
      {rel. \<exists>(d, es)\<in>set (entered_dirs keep dir entries). kept_file keep d es rel}"
    by (subst kept_file_iff) blast
  then show ?case unfolding discover_loop.simps "2.IH" by auto
qed simp

text \<open>
  C34: The client finds exactly the files that are kept and whose directories are all kept; a file
  in a hidden place is found only if a pattern of \<open>force_include\<close> names it.
\<close>

theorem client_discovery_exact:
  "(rel \<in> set (discover_client read ignore force entries) \<longleftrightarrow>
      kept_file (keep_entry ignore force (load_gitignores read entries)) [] entries rel) \<and>
   (rel \<in> set (discover_client read ignore force entries) \<longrightarrow>
      matches_any rel force \<or> \<not> hidden_path rel \<and> \<not> is_default_ignored rel False \<and> \<not> matches_any rel ignore \<and>
        \<not> gitignore_decides (load_gitignores read entries) rel False)"
proof -
  let ?keep = "keep_entry ignore force (load_gitignores read entries)"
  have "rel \<in> set (discover_client read ignore force entries) \<longleftrightarrow> kept_file ?keep [] entries rel"
    unfolding discover_client_def discover_loop_found by simp
  moreover have "matches_any rel force \<or> \<not> hidden_path rel \<and> \<not> is_default_ignored rel False \<and> \<not> matches_any rel ignore \<and>
      \<not> gitignore_decides (load_gitignores read entries) rel False" if "kept_file ?keep [] entries rel"
    using kept_file_sent [OF that] by (auto simp: keep_entry_def Let_def split: if_splits)
  ultimately show ?thesis by blast
qed

text \<open>
  \<open>force_include\<close> does not win over everything: a file that is named there but lies in a directory
  that is ignored is never reached.
\<close>

theorem forced_file_not_reached:
  "matches_any ''vendor/keep.rs'' [''vendor/keep.rs''] \<and>
   discover_client (\<lambda>_. []) [] [''vendor/keep.rs''] [(''vendor'', Fs_Dir [(''keep.rs'', Fs_File)])] = []"
  by code_simp

text \<open>A pattern for an extension with a capital letter matches nothing, and one without matches any such ending.\<close>

lemma ends_with_set: "ends_with suffix s \<Longrightarrow> set suffix \<subseteq> set s"
  by (metis ends_with_def set_drop_subset)

lemma ends_with_one: "ends_with [c] s \<longleftrightarrow> s \<noteq> [] \<and> last s = c"
  by (cases s rule: rev_cases) (auto simp: ends_with_def)

lemma ascii_lower_no_capital: "c \<in> set (ascii_lower s) \<Longrightarrow> \<not> (65 \<le> byte c \<and> byte c < 91)"
proof -
  assume "c \<in> set (ascii_lower s)"
  then obtain x where x: "c = (if 65 \<le> byte x \<and> byte x < 91 then char_of (byte x + 32) else x)" unfolding ascii_lower_def set_map by (elim imageE)
  then show ?thesis by (cases "65 \<le> byte x \<and> byte x < 91") (auto simp: byte_def)
qed

theorem extension_pattern:
  assumes "slash \<noteq> last (''*.'' @ ext)" and "c \<in> set ext" and "65 \<le> byte c" and "byte c < 91"
  shows "\<not> matches_pattern rel (''*.'' @ ext)"
proof -
  have "\<not> ends_with ''/'' (''*.'' @ ext)" using assms(1) unfolding ends_with_one by (auto simp: slash_def)
  then have "matches_pattern rel (''*.'' @ ext) \<longleftrightarrow> ends_with ext (ascii_lower rel)"
    by (simp add: matches_pattern_def starts_with_def)
  moreover have "\<not> ends_with ext (ascii_lower rel)"
    using ends_with_set [of ext "ascii_lower rel"] ascii_lower_no_capital [of c rel] assms(2-4) by blast
  ultimately show ?thesis by simp
qed

lemma extension_pattern_witness:
  "\<not> matches_pattern ''key.pem'' ''*.PEM'' \<and> \<not> matches_pattern ''KEY.PEM'' ''*.PEM'' \<and> matches_pattern ''main.rs'' ''*.s''"
proof -
  have "\<not> matches_pattern rel (''*.'' @ ''PEM'')" for rel
    by (rule extension_pattern [where c = "CHR ''P''"]) (simp_all add: slash_def byte_def)
  moreover have "matches_pattern ''main.rs'' ''*.s''" by code_simp
  ultimately show ?thesis by simp
qed

text \<open>The last rule that matches a path decides about it.\<close>

theorem gitignore_last_rule:
  "gitignore_decides rules rel is_dir \<longleftrightarrow>
     (\<exists>before r after. rules = before @ r # after \<and> rule_matches r rel is_dir \<and> \<not> ir_negated r \<and>
        (\<forall>r'\<in>set after. \<not> rule_matches r' rel is_dir))"
proof -
  let ?f = "\<lambda>r decision. if rule_matches r rel is_dir then \<not> ir_negated r else decision"
  show ?thesis
  proof (induction rules rule: rev_induct)
    case (snoc x xs)
    have step: "gitignore_decides (xs @ [x]) rel is_dir = ?f x (gitignore_decides xs rel is_dir)"
      by (simp add: gitignore_decides_def)
    show ?case
    proof (cases "rule_matches x rel is_dir")
      case True
      have "(\<exists>before r after. xs @ [x] = before @ r # after \<and> rule_matches r rel is_dir \<and> \<not> ir_negated r \<and>
          (\<forall>r'\<in>set after. \<not> rule_matches r' rel is_dir)) \<longleftrightarrow> \<not> ir_negated x"
      proof
        assume "\<exists>before r after. xs @ [x] = before @ r # after \<and> rule_matches r rel is_dir \<and> \<not> ir_negated r \<and>
          (\<forall>r'\<in>set after. \<not> rule_matches r' rel is_dir)"
        then obtain before r after where w: "xs @ [x] = before @ r # after" "\<not> ir_negated r" "\<forall>r'\<in>set after. \<not> rule_matches r' rel is_dir"
          by blast
        show "\<not> ir_negated x"
        proof (cases after rule: rev_cases)
          case Nil
          then show ?thesis using w by simp
        next
          case (snoc ys y)
          then have "y = x" using w(1) by (metis append_Cons append_assoc last_snoc)
          then show ?thesis using w(3) snoc True by simp
        qed
      next
        assume "\<not> ir_negated x"
        then show "\<exists>before r after. xs @ [x] = before @ r # after \<and> rule_matches r rel is_dir \<and> \<not> ir_negated r \<and>
          (\<forall>r'\<in>set after. \<not> rule_matches r' rel is_dir)" using True by (intro exI [of _ xs] exI [of _ x] exI [of _ "[]"]) simp
      qed
      then show ?thesis unfolding step using True by simp
    next
      case False
      have "(\<exists>before r after. xs @ [x] = before @ r # after \<and> rule_matches r rel is_dir \<and> \<not> ir_negated r \<and>
          (\<forall>r'\<in>set after. \<not> rule_matches r' rel is_dir)) \<longleftrightarrow>
        (\<exists>before r after. xs = before @ r # after \<and> rule_matches r rel is_dir \<and> \<not> ir_negated r \<and>
          (\<forall>r'\<in>set after. \<not> rule_matches r' rel is_dir))" (is "?l \<longleftrightarrow> ?r")
      proof
        assume ?l
        then obtain before r after where w: "xs @ [x] = before @ r # after" "rule_matches r rel is_dir" "\<not> ir_negated r"
          "\<forall>r'\<in>set after. \<not> rule_matches r' rel is_dir" by blast
        then have "after \<noteq> []" using False by auto
        then obtain after' where "after = after' @ [x]" using w(1) by (metis append_butlast_last_id last_ConsR last_appendR last_snoc list.distinct(1))
        then show ?r using w by auto
      next
        assume ?r
        then obtain before r after where w: "xs = before @ r # after" "rule_matches r rel is_dir" "\<not> ir_negated r"
          "\<forall>r'\<in>set after. \<not> rule_matches r' rel is_dir" by blast
        then show ?l using False by (intro exI [of _ before] exI [of _ r] exI [of _ "after @ [x]"]) simp
      qed
      then show ?thesis unfolding step using False snoc.IH by simp
    qed
  qed (simp add: gitignore_decides_def)
qed

section \<open>The language of a rule without a double star\<close>

text \<open>A star stands for text without a slash, a question mark for one character that is none.\<close>

fun rule_lang :: "string \<Rightarrow> string set" where
  "rule_lang [] = {[]}"
| "rule_lang (c # p) =
     (if c = star then {u @ v |u v. slash \<notin> set u \<and> v \<in> rule_lang p}
      else if c = CHR ''?'' then {x # v |x v. x \<noteq> slash \<and> v \<in> rule_lang p}
      else (#) c ` rule_lang p)"

fun double_star :: "string \<Rightarrow> bool" where
  "double_star (c # d # p) \<longleftrightarrow> c = star \<and> d = star \<or> double_star (d # p)"
| "double_star _ \<longleftrightarrow> False"

lemma double_star_tl: "\<not> double_star (c # p) \<Longrightarrow> \<not> double_star p"
  by (cases p) auto

lemma split_at_star:
  "list_ex (\<lambda>skip. slash \<notin> set (take skip text) \<and> P (drop skip text)) [0..<length text + 1] \<longleftrightarrow>
     (\<exists>u v. text = u @ v \<and> slash \<notin> set u \<and> P v)"
proof
  assume "list_ex (\<lambda>skip. slash \<notin> set (take skip text) \<and> P (drop skip text)) [0..<length text + 1]"
  then obtain k where "slash \<notin> set (take k text)" "P (drop k text)" unfolding list_ex_iff by blast
  then show "\<exists>u v. text = u @ v \<and> slash \<notin> set u \<and> P v" by (metis append_take_drop_id)
next
  assume "\<exists>u v. text = u @ v \<and> slash \<notin> set u \<and> P v"
  then obtain u v where "text = u @ v" "slash \<notin> set u" "P v" by blast
  then show "list_ex (\<lambda>skip. slash \<notin> set (take skip text) \<and> P (drop skip text)) [0..<length text + 1]"
    by (auto simp: list_ex_iff intro!: bexI [of _ "length u"])
qed

theorem glob_match_correct:
  assumes "\<not> double_star pattern"
  shows "glob_match pattern candidate \<longleftrightarrow> candidate \<in> rule_lang pattern"
  unfolding glob_match_def using assms
proof (induction pattern arbitrary: candidate)
  case (Cons c p)
  have IH: "glob_impl p t \<longleftrightarrow> t \<in> rule_lang p" for t by (rule Cons.IH [OF double_star_tl [OF Cons.prems]])
  show ?case
  proof (cases "c = star")
    case True
    have "glob_impl (c # p) candidate \<longleftrightarrow>
        list_ex (\<lambda>skip. slash \<notin> set (take skip candidate) \<and> glob_impl p (drop skip candidate)) [0..<length candidate + 1]"
      using Cons.prems True by (cases p) auto
    also have "\<dots> \<longleftrightarrow> (\<exists>u v. candidate = u @ v \<and> slash \<notin> set u \<and> v \<in> rule_lang p)"
      unfolding IH by (rule split_at_star [of candidate "\<lambda>t. t \<in> rule_lang p"])
    finally show ?thesis using True by auto
  next
    case False
    then show ?thesis by (cases candidate) (auto simp: IH)
  qed
qed simp

lemma glob_match_correct_witness:
  "glob_match ''*.l?g'' ''a.log'' \<and> \<not> glob_match ''*.l?g'' ''d/a.log''"
proof -
  have one: "glob_match ''*.l?g'' t \<longleftrightarrow> t \<in> rule_lang ''*.l?g''" for t by (rule glob_match_correct) (simp add: star_def)
  have "\<exists>u v. ''a.log'' = u @ v \<and> slash \<notin> set u \<and> v \<in> rule_lang ''.l?g''"
    by (rule exI [of _ "''a''"], rule exI [of _ "''.log''"]) (simp add: star_def slash_def image_iff)
  then have "''a.log'' \<in> rule_lang ''*.l?g''" unfolding rule_lang.simps(2) [of "CHR ''*''"] by (simp add: star_def)
  moreover have "''d/a.log'' \<notin> rule_lang ''*.l?g''" by (auto simp: star_def slash_def Cons_eq_append_conv)
  ultimately show ?thesis unfolding one by blast
qed

section \<open>What the ingestion library skips\<close>

text \<open>
  A file the library finds is named by a \<open>force_include\<close> pattern, or it is a text file that no
  ignore pattern matches. So without such a pattern no component of a path it finds matches a
  wildcard of the defaults: keys and certificates are never read.
\<close>

lemma discovered_file:
  "rel \<in> set (discover_files_recursive defaults extra force dir entries) \<Longrightarrow>
     path_force_matches force rel \<or> \<not> path_is_ignored defaults rel \<and> \<not> path_is_ignored extra rel \<and> is_text_file rel"
proof (induction defaults extra force dir entries rule: discover_files_recursive.induct)
  case (2 defaults extra force dir name e entries)
  let ?rel = "join_path dir name"
  let ?forced = "force \<noteq> [] \<and> path_force_matches force ?rel" and ?ignored = "path_is_ignored defaults ?rel \<or> path_is_ignored extra ?rel"
  show ?case
  proof (cases "rel \<in> set (discover_files_recursive defaults extra force dir entries)")
    case True
    from "2.IH"(2) [OF refl refl refl this] show ?thesis .
  next
    case False
    show ?thesis
    proof (cases e)
      case Fs_File
      then have "rel = ?rel \<and> (?forced \<or> \<not> ?ignored \<and> is_text_file ?rel)"
        using "2.prems" False by (auto simp: Let_def split: if_splits)
      then show ?thesis by auto
    next
      case (Fs_Dir es)
      then have "?forced \<or> \<not> ?ignored" "rel \<in> set (discover_files_recursive defaults extra force ?rel es)"
        using "2.prems" False by (auto simp: Let_def split: if_splits)
      from "2.IH"(1) [OF refl refl refl Fs_Dir this] show ?thesis .
    qed
  qed
qed simp

theorem default_secrets_skipped:
  assumes "rel \<in> set (discover_files default_index_ignores extra force entries)" and "\<not> path_force_matches force rel"
    and "p \<in> set default_index_ignores" and "path_components p = [p]" and "seg \<in> set (path_components rel)"
  shows "seg \<notin> glob_lang p \<and> is_text_file rel"
proof -
  have i: "\<not> path_is_ignored default_index_ignores rel" "is_text_file rel"
    using discovered_file assms(1,2) unfolding discover_files_def by blast+
  from i(1) have "\<not> list_ex (wildcard_component p) (path_components rel)"
    using assms(3,4) by (auto simp: path_is_ignored_def Let_def list_ex_iff)
  then have "\<not> wildcard_component p seg" using assms(5) by (auto simp: list_ex_iff)
  then show ?thesis using wildcard_component_iff i(2) by blast
qed

section \<open>Witnesses\<close>

definition demo_tree :: fs_entries where
  "demo_tree =
     [(''.env'', Fs_File), (''a.rs'', Fs_File), (''.gitignore'', Fs_File), (''a.log'', Fs_File), (''key.pem'', Fs_File),
      (''src'', Fs_Dir [(''b.rs'', Fs_File)]), (''target'', Fs_Dir [(''c.rs'', Fs_File)])]"

lemma demo_tree_found:
  "discover_client (\<lambda>_. ''*.log'') [] [] demo_tree = [''a.rs'', ''key.pem'', ''src/b.rs'']"
  "discover_files default_index_ignores [] [] demo_tree = [''a.rs'', ''a.log'', ''src/b.rs'']"
  by code_simp+

text \<open>The client sends keys and certificates, which the library skips by default.\<close>

lemma client_sends_keys:
  "''key.pem'' \<in> set (discover_client (\<lambda>_. ''*.log'') [] [] demo_tree) \<and>
   ''key.pem'' \<notin> set (discover_files default_index_ignores [] [] demo_tree)"
  by (simp add: demo_tree_found)

lemma client_discovery_exact_witness:
  "kept_file (keep_entry [] [] (load_gitignores (\<lambda>_. ''*.log'') demo_tree)) [] demo_tree ''src/b.rs'' \<and>
   \<not> gitignore_decides (load_gitignores (\<lambda>_. ''*.log'') demo_tree) ''src/b.rs'' False"
  using client_discovery_exact [of "''src/b.rs''" "\<lambda>_. ''*.log''" "[]" "[]" demo_tree] demo_tree_found(1) by (simp add: matches_any_def)

lemma default_secrets_skipped_witness: "''b.rs'' \<notin> glob_lang ''*.pem'' \<and> is_text_file ''src/b.rs''"
proof (rule default_secrets_skipped [of _ "[]" "[]" demo_tree])
  show "''src/b.rs'' \<in> set (discover_files default_index_ignores [] [] demo_tree)" by (simp add: demo_tree_found(2))
  show "\<not> path_force_matches [] ''src/b.rs''" by (simp add: path_force_matches_def)
  show "''*.pem'' \<in> set default_index_ignores" by (simp add: default_index_ignores_def)
  show "path_components ''*.pem'' = [''*.pem'']" "''b.rs'' \<in> set (path_components ''src/b.rs'')" by code_simp+
qed

end
