(* ===== verification/Embed_Cache.thy ===== *)
theory Embed_Cache
  imports Similarity Chunk_Store
begin

text \<open>
  Embedders and their cache
  (\<^verbatim>\<open>crates/arags-embedding/src/embedder/{mod,cache,batch,fallback,lightweight}.rs\<close> and
  \<open>embed_batch_cached\<close> of \<^verbatim>\<open>crates/arags-embedding/src/pipeline.rs\<close>). The cache table is the list of its rows
  (hash, blob); an \<open>f32\<close> in it is its 32-bit pattern, which is all the cache reads of it. The
  two hash-based embedders compute over the reals. SHA-256 is an argument. Lemmas: the blob of
  a vector decodes to it; an embedder behind the cache answers as the embedder alone, whatever
  the batch size; a text once cached is answered without the model, also by a model that was
  installed later; the vectors of the hash-based embedders have unit length.
\<close>

type_synonym f32 = "32 word"
type_synonym cache_table = "(string \<times> string) list"

text \<open>\<open>EmbeddingError\<close>; the last two constructors are panics of the code.\<close>

datatype embed_error =
    Dimension_Mismatch nat nat
  | Model_Failed string
  | Slot_Not_Filled
  | Index_Out_Of_Bounds
  | Zero_Chunk_Size

section \<open>Vectors as bytes\<close>

definition f32_to_le_bytes :: "f32 \<Rightarrow> string" where
  "f32_to_le_bytes v = map (\<lambda>i. char_of (unat v div 256 ^ i mod 256)) [0..<4]"

definition f32_from_le_bytes :: "char \<Rightarrow> char \<Rightarrow> char \<Rightarrow> char \<Rightarrow> f32" where
  "f32_from_le_bytes a b c d = of_nat (of_char a + 256 * (of_char b + 256 * (of_char c + 256 * of_char d)))"

definition embedding_to_bytes :: "f32 list \<Rightarrow> string" where
  "embedding_to_bytes e = concat (map f32_to_le_bytes e)"

text \<open>\<open>chunks_exact(4)\<close> ignores a remainder of fewer than four bytes.\<close>

fun read_f32s :: "string \<Rightarrow> f32 list" where
  "read_f32s (a # b # c # d # bs) = f32_from_le_bytes a b c d # read_f32s bs"
| "read_f32s bs = []"

definition bytes_to_embedding :: "string \<Rightarrow> nat \<Rightarrow> embed_error + f32 list" where
  "bytes_to_embedding bs dims =
     (if length bs \<noteq> dims * 4 then Inl (Dimension_Mismatch dims (length bs div 4))
      else Inr (read_f32s bs))"

section \<open>The cache table\<close>

definition content_hash :: "(string \<Rightarrow> string) \<Rightarrow> string \<Rightarrow> string" where
  "content_hash sha text = hex_encode (sha text)"

definition cache_get :: "(string \<Rightarrow> string) \<Rightarrow> nat \<Rightarrow> cache_table \<Rightarrow> string \<Rightarrow> embed_error + f32 list option" where
  "cache_get sha dims rows text =
     (case map_of rows (content_hash sha text) of
        None \<Rightarrow> Inr None
      | Some blob \<Rightarrow> (case bytes_to_embedding blob dims of Inl e \<Rightarrow> Inl e | Inr v \<Rightarrow> Inr (Some v)))"

definition cache_put :: "(string \<Rightarrow> string) \<Rightarrow> nat \<Rightarrow> cache_table \<Rightarrow> string \<Rightarrow> f32 list \<Rightarrow> embed_error + cache_table" where
  "cache_put sha dims rows text e =
     (if length e \<noteq> dims then Inl (Dimension_Mismatch dims (length e))
      else let h = content_hash sha text
           in Inr (filter (\<lambda>r. fst r \<noteq> h) rows @ [(h, embedding_to_bytes e)]))"

definition cache_contains :: "(string \<Rightarrow> string) \<Rightarrow> cache_table \<Rightarrow> string \<Rightarrow> bool" where
  "cache_contains sha rows text \<longleftrightarrow> 0 < length (filter (\<lambda>r. fst r = content_hash sha text) rows)"

definition cache_len :: "cache_table \<Rightarrow> nat" where
  "cache_len rows = length rows"

definition cache_clear :: "cache_table \<Rightarrow> cache_table" where
  "cache_clear rows = []"

section \<open>Embedders\<close>

text \<open>The trait \<open>Embedder\<close>, as far as the callers use it.\<close>

record 'v embedder =
  em_embed :: "string \<Rightarrow> embed_error + 'v list"
  em_batch :: "string list \<Rightarrow> embed_error + 'v list list"
  em_dims :: nat

definition matryoshka_truncate :: "real list \<Rightarrow> nat \<Rightarrow> real list" where
  "matryoshka_truncate e dims = (if dims \<le> length e then take dims e else e @ replicate (dims - length e) 0)"

text \<open>The cached embedder: a cache failure of any kind is a miss, a failed store is ignored.\<close>

definition cached_embed ::
  "(string \<Rightarrow> string) \<Rightarrow> nat \<Rightarrow> f32 embedder \<Rightarrow> cache_table \<Rightarrow> string \<Rightarrow> (embed_error + f32 list) \<times> cache_table" where
  "cached_embed sha dims inner rows text =
     (case cache_get sha dims rows text of
        Inr (Some e) \<Rightarrow> (Inr e, rows)
      | _ \<Rightarrow>
        (case em_embed inner text of
           Inl err \<Rightarrow> (Inl err, rows)
         | Inr e \<Rightarrow> (Inr e, (case cache_put sha dims rows text e of Inl _ \<Rightarrow> rows | Inr rows' \<Rightarrow> rows'))))"

definition cache_hit :: "(string \<Rightarrow> string) \<Rightarrow> nat \<Rightarrow> cache_table \<Rightarrow> string \<Rightarrow> f32 list option" where
  "cache_hit sha dims rows text = (case cache_get sha dims rows text of Inr (Some e) \<Rightarrow> Some e | _ \<Rightarrow> None)"

fun fill_misses ::
  "(string \<Rightarrow> string) \<Rightarrow> nat \<Rightarrow> string list \<Rightarrow> nat list \<Rightarrow> f32 list list \<Rightarrow> f32 list list \<Rightarrow> cache_table
     \<Rightarrow> (embed_error + f32 list list) \<times> cache_table" where
  "fill_misses sha dims texts misses [] out rows = (Inr out, rows)"
| "fill_misses sha dims texts [] (e # es) out rows = (Inl Index_Out_Of_Bounds, rows)"
| "fill_misses sha dims texts (i # misses) (e # es) out rows =
     fill_misses sha dims texts misses es (out[i := e])
       (case cache_put sha dims rows (texts ! i) e of Inl _ \<Rightarrow> rows | Inr rows' \<Rightarrow> rows')"

definition miss_indices :: "f32 list option list \<Rightarrow> nat list" where
  "miss_indices hits = filter (\<lambda>i. hits ! i = None) [0..<length hits]"

definition cached_batch ::
  "(string \<Rightarrow> string) \<Rightarrow> nat \<Rightarrow> f32 embedder \<Rightarrow> cache_table \<Rightarrow> string list
     \<Rightarrow> (embed_error + f32 list list) \<times> cache_table" where
  "cached_batch sha dims inner rows texts =
     (let hits = map (cache_hit sha dims rows) texts;
          out = map (\<lambda>h. case h of Some e \<Rightarrow> e | None \<Rightarrow> []) hits;
          misses = miss_indices hits
      in if misses = [] then (Inr out, rows)
         else case em_batch inner (map ((!) texts) misses) of
                Inl err \<Rightarrow> (Inl err, rows)
              | Inr computed \<Rightarrow> fill_misses sha dims texts misses computed out rows)"

section \<open>Batches\<close>

text \<open>Inference over slices of the batch size, stopped by the first error.\<close>

fun embed_slices :: "'v embedder \<Rightarrow> string list list \<Rightarrow> embed_error + 'v list list" where
  "embed_slices inner [] = Inr []"
| "embed_slices inner (ts # tss) =
     (case em_batch inner ts of
        Inl err \<Rightarrow> Inl err
      | Inr es \<Rightarrow> (case embed_slices inner tss of Inl err \<Rightarrow> Inl err | Inr rest \<Rightarrow> Inr (es @ rest)))"

definition embed_in_batches :: "'v embedder \<Rightarrow> nat \<Rightarrow> string list \<Rightarrow> embed_error + 'v list list" where
  "embed_in_batches inner bsize texts =
     (if bsize = 0 then Inl Zero_Chunk_Size else embed_slices inner (rust_chunks bsize texts))"

text \<open>The look-ups of the batch embedder, where a cache error ends the call.\<close>

fun look_up_all :: "(string \<Rightarrow> embed_error + f32 list option) \<Rightarrow> string list \<Rightarrow> embed_error + f32 list option list" where
  "look_up_all get [] = Inr []"
| "look_up_all get (t # ts) =
     (case get t of Inl err \<Rightarrow> Inl err
      | Inr h \<Rightarrow> (case look_up_all get ts of Inl err \<Rightarrow> Inl err | Inr hs \<Rightarrow> Inr (h # hs)))"

fun fill_and_store ::
  "(string \<Rightarrow> string) \<Rightarrow> nat \<Rightarrow> string list \<Rightarrow> nat list \<Rightarrow> f32 list list \<Rightarrow> f32 list option list \<Rightarrow> cache_table option
     \<Rightarrow> (embed_error + f32 list option list) \<times> cache_table option" where
  "fill_and_store sha dims texts [] es res cache = (Inr res, cache)"
| "fill_and_store sha dims texts (i # is) [] res cache = (Inl Index_Out_Of_Bounds, cache)"
| "fill_and_store sha dims texts (i # is) (e # es) res cache =
     (case cache of
        None \<Rightarrow> fill_and_store sha dims texts is es (res[i := Some e]) None
      | Some rows \<Rightarrow>
          (case cache_put sha dims rows (texts ! i) e of
             Inl err \<Rightarrow> (Inl err, cache)
           | Inr rows' \<Rightarrow> fill_and_store sha dims texts is es (res[i := Some e]) (Some rows')))"

fun all_filled :: "'e option list \<Rightarrow> embed_error + 'e list" where
  "all_filled [] = Inr []"
| "all_filled (None # os) = Inl Slot_Not_Filled"
| "all_filled (Some e # os) = (case all_filled os of Inl err \<Rightarrow> Inl err | Inr es \<Rightarrow> Inr (e # es))"

definition embed_with_cache ::
  "(string \<Rightarrow> string) \<Rightarrow> nat \<Rightarrow> f32 embedder \<Rightarrow> nat \<Rightarrow> cache_table option \<Rightarrow> string list
     \<Rightarrow> (embed_error + f32 list list) \<times> cache_table option" where
  "embed_with_cache sha dims inner bsize cache texts =
     (case look_up_all (\<lambda>t. case cache of None \<Rightarrow> Inr None | Some rows \<Rightarrow> cache_get sha dims rows t) texts of
        Inl err \<Rightarrow> (Inl err, cache)
      | Inr hits \<Rightarrow>
        (let misses = miss_indices hits
         in if misses = [] then (all_filled hits, cache)
            else case embed_in_batches inner bsize (map ((!) texts) misses) of
                   Inl err \<Rightarrow> (Inl err, cache)
                 | Inr computed \<Rightarrow>
                     (case fill_and_store sha dims texts misses computed hits cache of
                        (Inl err, cache') \<Rightarrow> (Inl err, cache')
                      | (Inr res, cache') \<Rightarrow> (all_filled res, cache'))))"

text \<open>The pipeline repeats this with a cache; without one it returns what the slices return.\<close>

definition embed_batch_cached ::
  "(string \<Rightarrow> string) \<Rightarrow> nat \<Rightarrow> f32 embedder \<Rightarrow> nat \<Rightarrow> cache_table option \<Rightarrow> string list
     \<Rightarrow> (embed_error + f32 list list) \<times> cache_table option" where
  "embed_batch_cached sha dims inner bsize cache texts =
     (case cache of
        Some rows \<Rightarrow> embed_with_cache sha dims inner bsize (Some rows) texts
      | None \<Rightarrow> (embed_in_batches inner bsize texts, None))"

section \<open>The hash-based embedders\<close>

definition normalize_vec :: "real list \<Rightarrow> real list" where
  "normalize_vec v = (let n = norm_of v in if 0 < n then map (\<lambda>x. x / n) v else v)"

text \<open>Each byte of the digest is added to the component at its position modulo the dimensions.\<close>

fun add_bytes :: "nat \<Rightarrow> nat \<Rightarrow> string \<Rightarrow> real list \<Rightarrow> real list" where
  "add_bytes dims i [] v = v"
| "add_bytes dims i (b # bs) v =
     add_bytes dims (Suc i) bs (v[i mod dims := v ! (i mod dims) + real (of_char b :: nat)])"

definition fallback_vector :: "(string \<Rightarrow> string) \<Rightarrow> nat \<Rightarrow> string \<Rightarrow> embed_error + real list" where
  "fallback_vector sha dims text =
     (if dims = 0 \<and> sha text \<noteq> [] then Inl Index_Out_Of_Bounds
      else Inr (normalize_vec (add_bytes dims 0 (sha text) (replicate dims 0))))"

definition u64_of_bytes :: "string \<Rightarrow> 64 word" where
  "u64_of_bytes bs = of_nat (foldr (\<lambda>b n. of_char b + 256 * n) (take 8 bs) 0)"

definition start_state :: "string \<Rightarrow> 32 word" where
  "start_state digest =
     (let s0 = u64_of_bytes digest;
          seed = (if s0 = 0 then 0x9E3779B97F4A7C15 else s0);
          st = (ucast (xor seed (drop_bit 32 seed)) :: 32 word)
      in if st = 0 then 0x7F4A7C15 else st)"

definition xorshift32 :: "32 word \<Rightarrow> 32 word" where
  "xorshift32 s0 =
     (let s1 = xor s0 (push_bit 13 s0); s2 = xor s1 (drop_bit 17 s1) in xor s2 (push_bit 5 s2))"

text \<open>The float with exponent zero and the low 23 bits as mantissa, moved to \<open>[-1, 1)\<close>.\<close>

definition unit_component :: "32 word \<Rightarrow> real" where
  "unit_component s = (1 + real (unat (and s 0x7FFFFF)) / 2 ^ 23 - 1) * 2 - 1"

fun expand_state :: "nat \<Rightarrow> 32 word \<Rightarrow> real list" where
  "expand_state 0 s = []"
| "expand_state (Suc n) s = (let s' = xorshift32 s in unit_component s' # expand_state n s')"

definition lightweight_vector :: "(string \<Rightarrow> string) \<Rightarrow> nat \<Rightarrow> string \<Rightarrow> real list" where
  "lightweight_vector sha dims text = normalize_vec (expand_state dims (start_state (sha text)))"

fun all_ok :: "('a \<Rightarrow> embed_error + 'b) \<Rightarrow> 'a list \<Rightarrow> embed_error + 'b list" where
  "all_ok f [] = Inr []"
| "all_ok f (x # xs) =
     (case f x of Inl err \<Rightarrow> Inl err
      | Inr y \<Rightarrow> (case all_ok f xs of Inl err \<Rightarrow> Inl err | Inr ys \<Rightarrow> Inr (y # ys)))"

definition fallback_embedder :: "(string \<Rightarrow> string) \<Rightarrow> nat \<Rightarrow> real embedder" where
  "fallback_embedder sha dims =
     \<lparr>em_embed = fallback_vector sha dims, em_batch = all_ok (fallback_vector sha dims), em_dims = dims\<rparr>"

definition lightweight_embedder :: "(string \<Rightarrow> string) \<Rightarrow> nat \<Rightarrow> real embedder" where
  "lightweight_embedder sha n =
     (let dims = max n 1
      in \<lparr>em_embed = (\<lambda>t. Inr (lightweight_vector sha dims t)),
          em_batch = (\<lambda>ts. Inr (map (lightweight_vector sha dims) ts)), em_dims = dims\<rparr>)"

section \<open>The bytes of a vector\<close>

lemma base_256_digits:
  fixes n :: nat
  assumes "n < 2 ^ 32"
  shows "n mod 256 + 256 * (n div 256 mod 256 + 256 * (n div 256 ^ 2 mod 256 + 256 * (n div 256 ^ 3 mod 256))) = n"
proof -
  have d: "n div 256 ^ 2 = n div 256 div 256" "n div 256 ^ 3 = n div 256 div 256 div 256"
    by (simp_all add: div_mult2_eq)
  have top: "n div 256 div 256 div 256 mod 256 = n div 256 div 256 div 256"
    using assms by (simp add: div_mult2_eq [symmetric] less_mult_imp_div_less)
  have r: "m mod 256 + 256 * (m div 256) = m" for m :: nat by simp
  show ?thesis unfolding d top r ..
qed

lemma f32_bytes: "f32_to_le_bytes v =
    [char_of (unat v mod 256), char_of (unat v div 256 mod 256), char_of (unat v div 256 ^ 2 mod 256),
     char_of (unat v div 256 ^ 3 mod 256)]"
proof -
  have "[0..<4] = [0, 1, 2, 3 :: nat]" by (simp add: upt_rec)
  then show ?thesis by (simp add: f32_to_le_bytes_def)
qed

lemma f32_bytes_read: "read_f32s (f32_to_le_bytes v @ bs) = v # read_f32s bs"
proof -
  have "unat v < 2 ^ 32" using unsigned_less [of v] by simp
  from base_256_digits [OF this]
  have "f32_from_le_bytes (char_of (unat v mod 256)) (char_of (unat v div 256 mod 256)) (char_of (unat v div 256 ^ 2 mod 256))
      (char_of (unat v div 256 ^ 3 mod 256)) = of_nat (unat v)"
    unfolding f32_from_le_bytes_def by (simp only: of_char_of mod_mod_trivial of_nat_id)
  then show ?thesis by (simp add: f32_bytes)
qed

lemma four_digits_bound: "\<lbrakk>a < 256; b < 256; c < 256; d < (256 :: nat)\<rbrakk> \<Longrightarrow> a + 256 * (b + 256 * (c + 256 * d)) < 2 ^ 32"
  by simp

lemma f32_bytes_of_read: "f32_to_le_bytes (f32_from_le_bytes a b c d) = [a, b, c, d]"
proof -
  define k where "k = (of_char a + 256 * (of_char b + 256 * (of_char c + 256 * of_char d)) :: nat)"
  have lt: "(of_char x :: nat) < 256" for x by (metis of_char_mod_256 mod_less_divisor zero_less_numeral)
  have "k < 2 ^ 32" using four_digits_bound [OF lt lt lt lt, of a b c d] unfolding k_def .
  then have u: "unat (f32_from_le_bytes a b c d) = k"
    unfolding f32_from_le_bytes_def k_def [symmetric] by (simp add: unat_of_nat take_bit_nat_eq_self)
  have digit: "x < 256 \<Longrightarrow> (x + 256 * m) mod 256 = x" "x < 256 \<Longrightarrow> (x + 256 * m) div 256 = m" for x m :: nat
    by simp_all
  have "k mod 256 = of_char a" "k div 256 mod 256 = of_char b" "k div 256 div 256 mod 256 = of_char c"
    "k div 256 div 256 div 256 mod 256 = of_char d"
    unfolding k_def using digit [OF lt] lt [of d] by (simp_all only: mod_less)
  moreover have "k div 256 ^ 2 = k div 256 div 256" "k div 256 ^ 3 = k div 256 div 256 div 256"
    by (simp_all add: div_mult2_eq)
  ultimately show ?thesis by (simp add: f32_bytes u)
qed

lemma length_f32_bytes [simp]: "length (f32_to_le_bytes v) = 4"
  by (simp add: f32_to_le_bytes_def)

lemma length_embedding_to_bytes [simp]: "length (embedding_to_bytes e) = 4 * length e"
  by (induction e) (simp_all add: embedding_to_bytes_def)

lemma read_embedding_bytes [simp]: "read_f32s (embedding_to_bytes e) = e"
  by (induction e) (simp_all add: embedding_to_bytes_def f32_bytes_read)

lemma embedding_bytes_of_read: "length bs = 4 * d \<Longrightarrow> embedding_to_bytes (read_f32s bs) = bs"
proof (induction bs arbitrary: d rule: read_f32s.induct)
  case (1 a b c e bs)
  then have "length bs = 4 * (d - 1)" by simp
  from "1.IH" [OF this] show ?case by (simp add: embedding_to_bytes_def f32_bytes_of_read)
qed (simp_all add: embedding_to_bytes_def, presburger+)

lemma length_read_f32s: "length (read_f32s bs) = length bs div 4"
  by (induction bs rule: read_f32s.induct) simp_all

lemma decode_embedding [simp]: "length e = d \<Longrightarrow> bytes_to_embedding (embedding_to_bytes e) d = Inr e"
  by (auto simp: bytes_to_embedding_def)

text \<open>
  The blobs of \<open>4 * dims\<close> bytes and the vectors of \<open>dims\<close> floats correspond one to one; every
  other blob is refused.
\<close>

theorem embedding_blob_roundtrip:
  "bytes_to_embedding bs dims = Inr e \<longleftrightarrow> length e = dims \<and> embedding_to_bytes e = bs"
proof
  assume "bytes_to_embedding bs dims = Inr e"
  then have "length bs = 4 * dims" "e = read_f32s bs" by (auto simp: bytes_to_embedding_def split: if_splits)
  then show "length e = dims \<and> embedding_to_bytes e = bs"
    using embedding_bytes_of_read [of bs dims] by (simp add: length_read_f32s)
qed auto

section \<open>Contract of an embedder\<close>

text \<open>An embedder computes one vector per text, of its dimension, alone or in a batch.\<close>

locale deterministic_embedder =
  fixes em :: "'v embedder" and f :: "string \<Rightarrow> 'v list"
  assumes one_law: "em_embed em t = Inr (f t)"
    and batch_law: "em_batch em ts = Inr (map f ts)"
    and dims_law: "length (f t) = em_dims em"
begin

lemma slices: "embed_slices em tss = Inr (map f (concat tss))"
  by (induction tss) (simp_all add: batch_law)

lemma in_batches: "0 < bsize \<Longrightarrow> embed_in_batches em bsize texts = Inr (map f texts)"
  by (simp add: embed_in_batches_def slices concat_rust_chunks)

end

lemma length_normalize_vec [simp]: "length (normalize_vec v) = length v"
  by (simp add: normalize_vec_def Let_def)

lemma length_expand_state [simp]: "length (expand_state n s) = n"
  by (induction n arbitrary: s) (simp_all add: Let_def)

lemma length_add_bytes [simp]: "length (add_bytes dims i bs v) = length v"
  by (induction bs arbitrary: i v) simp_all

lemma all_ok_Inr: "(\<And>x. f x = Inr (g x)) \<Longrightarrow> all_ok f xs = Inr (map g xs)"
  by (induction xs) simp_all

interpretation lightweight: deterministic_embedder "lightweight_embedder sha n" "lightweight_vector sha (max n 1)"
  for sha n
  by unfold_locales (simp_all add: lightweight_embedder_def lightweight_vector_def Let_def)

interpretation fallback: deterministic_embedder "fallback_embedder sha (Suc d)"
    "\<lambda>t. normalize_vec (add_bytes (Suc d) 0 (sha t) (replicate (Suc d) 0))"
  for sha d
  by unfold_locales (simp_all add: fallback_embedder_def fallback_vector_def all_ok_Inr [of "fallback_vector sha (Suc d)" "\<lambda>t. normalize_vec (add_bytes (Suc d) 0 (sha t) (replicate (Suc d) 0))"])

section \<open>Behind the cache\<close>

text \<open>Every cached blob of a text of the collection is the vector of that text.\<close>

definition cache_sound :: "(string \<Rightarrow> string) \<Rightarrow> (string \<Rightarrow> f32 list) \<Rightarrow> string set \<Rightarrow> cache_table \<Rightarrow> bool" where
  "cache_sound sha f K rows \<longleftrightarrow>
     (\<forall>t\<in>K. map_of rows (content_hash sha t) \<in> {None, Some (embedding_to_bytes (f t))})"

definition cached_in :: "(string \<Rightarrow> string) \<Rightarrow> cache_table \<Rightarrow> string \<Rightarrow> bool" where
  "cached_in sha rows t \<longleftrightarrow> map_of rows (content_hash sha t) \<noteq> None"

lemma map_of_put: "map_of (filter (\<lambda>r. fst r \<noteq> h) rows @ [(h, b)]) = (map_of rows)(h \<mapsto> b)"
proof
  fix k
  show "map_of (filter (\<lambda>r. fst r \<noteq> h) rows @ [(h, b)]) k = ((map_of rows)(h \<mapsto> b)) k"
    by (induction rows) (auto simp: map_add_def split: option.splits)
qed

lemma cache_put_map: "cache_put sha d rows t e = Inr rows' \<Longrightarrow>
    map_of rows' = (map_of rows)(content_hash sha t \<mapsto> embedding_to_bytes e)"
  using map_of_put [of "content_hash sha t" rows "embedding_to_bytes e"]
  by (auto simp: cache_put_def Let_def simp del: map_of_append split: if_splits)

lemma cache_sound_put:
  assumes "cache_sound sha f K rows" "inj_on (content_hash sha) K" "t \<in> K" "cache_put sha d rows t (f t) = Inr rows'"
  shows "cache_sound sha f K rows'"
  using assms by (auto simp: cache_sound_def cache_put_map dest: inj_onD)

lemma cache_get_sound:
  assumes "cache_sound sha f K rows" "t \<in> K" "length (f t) = d"
  shows "cache_get sha d rows t = Inr (if cached_in sha rows t then Some (f t) else None)"
  using assms by (fastforce simp: cache_sound_def cache_get_def cached_in_def)

lemma cache_hit_sound:
  assumes "cache_sound sha f K rows" "t \<in> K" "length (f t) = d"
  shows "cache_hit sha d rows t = (if cached_in sha rows t then Some (f t) else None)"
  using cache_get_sound [OF assms] by (simp add: cache_hit_def)

lemma set_miss_indices: "set (miss_indices hits) = {i. i < length hits \<and> hits ! i = None}"
  by (auto simp: miss_indices_def)

lemma miss_indices_none: "(miss_indices hits = []) \<longleftrightarrow> None \<notin> set hits"
proof -
  have "miss_indices hits = [] \<longleftrightarrow> set (miss_indices hits) = {}" by simp
  also have "\<dots> \<longleftrightarrow> None \<notin> set hits" by (auto simp: set_miss_indices in_set_conv_nth)
  finally show ?thesis .
qed

lemma fill_misses_sound:
  assumes "cache_sound sha f K rows" "inj_on (content_hash sha) K" "\<And>t. length (f t) = d"
    and "\<And>i. i \<in> set misses \<Longrightarrow> texts ! i \<in> K"
  shows "\<exists>out' rows'. fill_misses sha d texts misses (map (\<lambda>i. f (texts ! i)) misses) out rows = (Inr out', rows')
      \<and> out' = fold (\<lambda>i o'. o'[i := f (texts ! i)]) misses out
      \<and> cache_sound sha f K rows'
      \<and> (\<forall>t. cached_in sha rows' t \<longleftrightarrow> cached_in sha rows t \<or> content_hash sha t \<in> content_hash sha ` (!) texts ` set misses)"
  using assms(1,4)
proof (induction misses arbitrary: out rows)
  case (Cons i misses)
  obtain rows1 where put: "cache_put sha d rows (texts ! i) (f (texts ! i)) = Inr rows1"
    using assms(3) by (simp add: cache_put_def Let_def)
  have sound: "cache_sound sha f K rows1"
    using cache_sound_put [OF Cons.prems(1) assms(2) _ put] Cons.prems(2) by simp
  have keep: "cached_in sha rows1 t \<longleftrightarrow> cached_in sha rows t \<or> content_hash sha t = content_hash sha (texts ! i)" for t
    by (auto simp: cached_in_def cache_put_map [OF put])
  from Cons.IH [OF sound, of "out[i := f (texts ! i)]"] Cons.prems(2)
  show ?case by (auto simp: put keep)
qed simp

lemma nth_fold_update:
  "j < length out \<Longrightarrow> fold (\<lambda>i o'. o'[i := g i]) js out ! j = (if j \<in> set js then g j else out ! j)"
  by (induction js arbitrary: out) (auto simp: nth_list_update)

lemma length_fold_update [simp]: "length (fold (\<lambda>i o'. o'[i := g i]) js out) = length out"
  by (induction js arbitrary: out) simp_all

lemma cached_batch_all_hits:
  assumes "cache_sound sha f K rows" "set texts \<subseteq> K" "\<And>t. length (f t) = d"
    and "\<And>t. t \<in> set texts \<Longrightarrow> cached_in sha rows t"
  shows "cached_batch sha d inner rows texts = (Inr (map f texts), rows)"
proof -
  have hits: "map (cache_hit sha d rows) texts = map (\<lambda>t. Some (f t)) texts"
    using assms by (auto simp: cache_hit_sound subset_iff)
  have "None \<notin> set (map (cache_hit sha d rows) texts)" unfolding hits by auto
  then have "cached_batch sha d inner rows texts
      = (Inr (map (\<lambda>h. case h of Some e \<Rightarrow> e | None \<Rightarrow> []) (map (cache_hit sha d rows) texts)), rows)"
    unfolding cached_batch_def Let_def miss_indices_none by simp
  then show ?thesis unfolding hits by (simp add: comp_def)
qed

lemma cached_batch_sound:
  assumes em: "deterministic_embedder em f" and sound: "cache_sound sha f K rows"
    and inj: "inj_on (content_hash sha) K" and K: "set texts \<subseteq> K"
  shows "\<exists>rows'. cached_batch sha (em_dims em) em rows texts = (Inr (map f texts), rows')
      \<and> cache_sound sha f K rows' \<and> (\<forall>t\<in>set texts. cached_in sha rows' t)
      \<and> (\<forall>t. cached_in sha rows t \<longrightarrow> cached_in sha rows' t)"
proof -
  define hits where "hits = map (cache_hit sha (em_dims em) rows) texts"
  define misses where "misses = miss_indices hits"
  define out where "out = map (\<lambda>h. case h of Some e \<Rightarrow> e | None \<Rightarrow> []) hits"
  note dims = deterministic_embedder.dims_law [OF em]
  have nth: "hits ! i = (if cached_in sha rows (texts ! i) then Some (f (texts ! i)) else None)"
    if "i < length texts" for i
    using cache_hit_sound [OF sound subsetD [OF K nth_mem [OF that]] dims] that by (simp add: hits_def)
  have mem: "i \<in> set misses \<longleftrightarrow> i < length texts \<and> \<not> cached_in sha rows (texts ! i)" for i
    using nth [of i] by (auto simp: misses_def set_miss_indices hits_def split: if_splits)
  have inK: "texts ! i \<in> K" if "i \<in> set misses" for i using that mem K nth_mem by blast
  obtain out' rows' where fill: "fill_misses sha (em_dims em) texts misses (map (\<lambda>i. f (texts ! i)) misses) out rows = (Inr out', rows')"
      "out' = fold (\<lambda>i o'. o'[i := f (texts ! i)]) misses out" "cache_sound sha f K rows'"
      "\<And>t. cached_in sha rows' t \<longleftrightarrow> cached_in sha rows t \<or> content_hash sha t \<in> content_hash sha ` (!) texts ` set misses"
    using fill_misses_sound [OF sound inj dims inK, where out = out] by blast
  have "out' = map f texts"
  proof (rule nth_equalityI)
    show "length out' = length (map f texts)" by (simp add: fill(2) out_def hits_def)
    fix i assume "i < length out'"
    then have i: "i < length texts" by (simp add: fill(2) out_def hits_def)
    then have "out ! i = (case hits ! i of Some e \<Rightarrow> e | None \<Rightarrow> [])" by (simp add: out_def hits_def)
    then show "out' ! i = map f texts ! i"
      using nth [OF i] mem [of i] i nth_fold_update [where out = out and g = "\<lambda>i. f (texts ! i)" and js = misses and j = i]
      by (auto simp: fill(2) out_def hits_def)
  qed
  moreover have "cached_in sha rows' t" if "t \<in> set texts" for t
  proof -
    obtain i where "i < length texts" "texts ! i = t" using \<open>t \<in> set texts\<close> by (auto simp: in_set_conv_nth)
    then show ?thesis using mem [of i] fill(4) [of t] by auto
  qed
  moreover have "cached_batch sha (em_dims em) em rows texts = (Inr out', rows')"
  proof (cases "misses = []")
    case True
    then show ?thesis using fill(1)
      unfolding cached_batch_def Let_def hits_def [symmetric] misses_def [symmetric] out_def [symmetric] by simp
  next
    case False
    then show ?thesis
      using fill(1) unfolding cached_batch_def Let_def hits_def [symmetric] misses_def [symmetric] out_def [symmetric]
      by (simp add: deterministic_embedder.batch_law [OF em] comp_def)
  qed
  ultimately show ?thesis using fill(3,4) by auto
qed

section \<open>Properties\<close>

text \<open>
  C36: For an embedder that computes one vector per text, and texts whose digests do not collide,
  a batch through the cache returns the vectors the embedder would return, in the order of the
  texts, and leaves only true vectors in the cache.
\<close>

theorem cached_batch_transparent:
  assumes "deterministic_embedder em f" "cache_sound sha f K rows" "inj_on (content_hash sha) K" "set texts \<subseteq> K"
  shows "fst (cached_batch sha (em_dims em) em rows texts) = em_batch em texts
    \<and> cache_sound sha f K (snd (cached_batch sha (em_dims em) em rows texts))"
  using cached_batch_sound [OF assms] by (auto simp: deterministic_embedder.batch_law [OF assms(1)])

text \<open>
  The key of a cached vector is the text alone: after one embedder has answered a batch, any
  other embedder of the same dimension is not asked for these texts, and the vectors of the
  first are returned as its own.
\<close>

theorem cache_outlives_model:
  assumes "deterministic_embedder em f" "inj_on (content_hash sha) (set texts)" "em_dims other = em_dims em"
    and "cached_batch sha (em_dims em) em [] texts = (Inr vs, rows)"
  shows "cached_batch sha (em_dims other) other rows texts = (em_batch em texts, rows)"
proof -
  have "cache_sound sha f (set texts) []" by (simp add: cache_sound_def)
  from cached_batch_sound [OF assms(1) this assms(2) subset_refl]
  have "cache_sound sha f (set texts) rows" "\<And>t. t \<in> set texts \<Longrightarrow> cached_in sha rows t"
    using assms(4) by auto
  from cached_batch_all_hits [OF this(1) subset_refl deterministic_embedder.dims_law [OF assms(1)] this(2)]
  show ?thesis by (simp add: assms(3) deterministic_embedder.batch_law [OF assms(1)])
qed

section \<open>The batch embedder\<close>

lemma look_up_all_ok: "(\<And>t. t \<in> set ts \<Longrightarrow> get t = Inr (g t)) \<Longrightarrow> look_up_all get ts = Inr (map g ts)"
  by (induction ts) simp_all

lemma all_filled_Some [simp]: "all_filled (map (\<lambda>t. Some (f t)) ts) = Inr (map f ts)"
  by (induction ts) simp_all

lemma fill_and_store_none:
  "fill_and_store sha d texts js (map (\<lambda>i. f (texts ! i)) js) res None
     = (Inr (fold (\<lambda>i r. r[i := Some (f (texts ! i))]) js res), None)"
  by (induction js arbitrary: res) simp_all

lemma fill_and_store_sound:
  assumes "cache_sound sha f K rows" "inj_on (content_hash sha) K" "\<And>t. length (f t) = d"
    and "\<And>i. i \<in> set js \<Longrightarrow> texts ! i \<in> K"
  shows "\<exists>rows'. fill_and_store sha d texts js (map (\<lambda>i. f (texts ! i)) js) res (Some rows)
      = (Inr (fold (\<lambda>i r. r[i := Some (f (texts ! i))]) js res), Some rows') \<and> cache_sound sha f K rows'"
  using assms(1,4)
proof (induction js arbitrary: res rows)
  case (Cons i js)
  obtain rows1 where put: "cache_put sha d rows (texts ! i) (f (texts ! i)) = Inr rows1"
    using assms(3) by (simp add: cache_put_def Let_def)
  have "cache_sound sha f K rows1"
    using cache_sound_put [OF Cons.prems(1) assms(2) _ put] Cons.prems(2) by simp
  from Cons.IH [OF this, of "res[i := Some (f (texts ! i))]"] Cons.prems(2)
  show ?case by (simp add: put)
qed simp

lemma fill_all:
  assumes "\<And>i. i < length texts \<Longrightarrow> hits ! i \<in> {None, Some (f (texts ! i))}" "length hits = length texts"
  shows "fold (\<lambda>i r. r[i := Some (f (texts ! i))]) (miss_indices hits) hits = map (\<lambda>t. Some (f t)) texts"
proof (rule nth_equalityI)
  fix i assume "i < length (fold (\<lambda>i r. r[i := Some (f (texts ! i))]) (miss_indices hits) hits)"
  then have i: "i < length texts" using assms(2) by simp
  then show "fold (\<lambda>i r. r[i := Some (f (texts ! i))]) (miss_indices hits) hits ! i = map (\<lambda>t. Some (f t)) texts ! i"
    using assms(1) [OF i] assms(2) nth_fold_update [where out = hits and g = "\<lambda>i. Some (f (texts ! i))" and js = "miss_indices hits" and j = i]
    by (auto simp: set_miss_indices)
qed (simp add: assms(2))

lemma embed_with_cache_sound:
  assumes em: "deterministic_embedder em f" and inj: "inj_on (content_hash sha) K" and K: "set texts \<subseteq> K"
    and bsize: "0 < bsize" and cache: "\<And>rows. cache = Some rows \<Longrightarrow> cache_sound sha f K rows"
  shows "\<exists>cache'. embed_with_cache sha (em_dims em) em bsize cache texts = (Inr (map f texts), cache')"
proof -
  note dims = deterministic_embedder.dims_law [OF em]
  define g where "g t = (case cache of None \<Rightarrow> None | Some rows \<Rightarrow> if cached_in sha rows t then Some (f t) else None)" for t
  have look: "look_up_all (\<lambda>t. case cache of None \<Rightarrow> Inr None | Some rows \<Rightarrow> cache_get sha (em_dims em) rows t) texts = Inr (map g texts)"
    using cache_get_sound [OF cache _ dims] K by (intro look_up_all_ok) (auto simp: g_def split: option.splits)
  have vals: "map g texts ! i \<in> {None, Some (f (texts ! i))}" if "i < length texts" for i
    using that by (auto simp: g_def split: option.splits)
  note full = fill_all [OF vals length_map]
  have inK: "texts ! i \<in> K" if "i \<in> set (miss_indices (map g texts))" for i
    using that K by (auto simp: set_miss_indices)
  obtain cache' where fill: "fill_and_store sha (em_dims em) texts (miss_indices (map g texts))
      (map (\<lambda>i. f (texts ! i)) (miss_indices (map g texts))) (map g texts) cache = (Inr (map (\<lambda>t. Some (f t)) texts), cache')"
  proof (cases cache)
    case None
    then show ?thesis
      using fill_and_store_none [of sha "em_dims em" texts "miss_indices (map g texts)" f "map g texts"] full that by simp
  next
    case (Some rows)
    then show ?thesis
      using fill_and_store_sound [OF cache [OF Some] inj dims, where js = "miss_indices (map g texts)" and texts = texts and res = "map g texts"]
        inK full that by auto
  qed
  show ?thesis
  proof (cases "miss_indices (map g texts) = []")
    case True
    then show ?thesis using fill full
      unfolding embed_with_cache_def look sum.case Let_def by (simp only: if_True fold.simps id_apply all_filled_Some) simp
  next
    case False
    then show ?thesis
      using fill deterministic_embedder.in_batches [OF em bsize, of "map ((!) texts) (miss_indices (map g texts))"]
      unfolding embed_with_cache_def look sum.case Let_def by (simp add: comp_def)
  qed
qed

text \<open>
  The batch embedder, with or without a cache and for every positive batch size, returns what
  the embedder returns for all texts at once.
\<close>

theorem batch_embedder_transparent:
  assumes "deterministic_embedder em f" "inj_on (content_hash sha) K" "set texts \<subseteq> K" "0 < bsize"
    and "\<And>rows. cache = Some rows \<Longrightarrow> cache_sound sha f K rows"
  shows "fst (embed_batch_cached sha (em_dims em) em bsize cache texts) = em_batch em texts
    \<and> fst (embed_with_cache sha (em_dims em) em bsize cache texts) = em_batch em texts"
proof -
  note em = deterministic_embedder.batch_law [OF assms(1)] deterministic_embedder.in_batches [OF assms(1,4)]
  obtain c where "embed_with_cache sha (em_dims em) em bsize cache texts = (Inr (map f texts), c)"
    using embed_with_cache_sound [of em f sha K texts bsize cache] assms by blast
  then show ?thesis by (cases cache) (simp_all add: embed_batch_cached_def em)
qed

text \<open>
  With a cache opened for another number of dimensions, as the memory engine opens its own,
  embedding anything not yet cached fails, although the vectors were computed.
\<close>

theorem foreign_dims_fail:
  assumes "deterministic_embedder em f" "0 < bsize" "dims \<noteq> em_dims em"
  shows "embed_batch_cached sha dims em bsize (Some []) (t # ts)
    = (Inl (Dimension_Mismatch dims (em_dims em)), Some [])"
proof -
  have "look_up_all (cache_get sha dims []) us = Inr (map (\<lambda>_. None) us)" for us
    by (intro look_up_all_ok) (simp add: cache_get_def)
  from this [of "t # ts"]
  have look: "look_up_all (cache_get sha dims []) (t # ts) = Inr (None # map (\<lambda>_. None) ts)" by (simp only: list.map)
  have misses: "miss_indices (None # map (\<lambda>_. None) ts :: f32 list option list) = 0 # [1..<Suc (length ts)]"
  proof -
    have "filter (\<lambda>i. (None # map (\<lambda>_. None) ts :: f32 list option list) ! i = None) [0..<Suc (length ts)] = [0..<Suc (length ts)]"
      by (rule filter_True) (auto simp: nth_Cons split: nat.splits)
    then have "miss_indices (None # map (\<lambda>_. None) ts :: f32 list option list) = [0..<Suc (length ts)]"
      unfolding miss_indices_def by (simp del: upt_Suc)
    then show ?thesis by (simp add: upt_conv_Cons del: upt_Suc)
  qed
  show ?thesis
    unfolding embed_batch_cached_def embed_with_cache_def option.case look
    using deterministic_embedder.in_batches [OF assms(1,2), of "map ((!) (t # ts)) (0 # [1..<Suc (length ts)])"] assms(3)
    by (simp add: misses cache_put_def deterministic_embedder.dims_law [OF assms(1)] del: upt_Suc)
qed

section \<open>The hash-based vectors\<close>

lemma normalize_vec_norm: "norm_of (normalize_vec v) = (if norm_of v = 0 then 0 else 1)"
proof (cases "0 < norm_of v")
  case True
  have "sum_list (map (\<lambda>x. x / n * (x / n)) w) = sum_list (map (\<lambda>x. x * x) w) / n ^ 2" for w and n :: real
    by (induction w) (simp_all add: add_divide_distrib power2_eq_square)
  then have "norm_of (map (\<lambda>x. x / norm_of v) v) = sqrt (sum_list (map (\<lambda>x. x * x) v) / (norm_of v) ^ 2)"
    by (simp add: norm_of_def [of "map f v" for f] comp_def)
  also have "\<dots> = norm_of v / norm_of v"
    using norm_of_nonneg [of v] by (simp only: real_sqrt_divide real_sqrt_abs norm_of_def [symmetric] abs_of_nonneg)
  finally show ?thesis using True by (simp add: normalize_vec_def)
next
  case False
  then have "norm_of v = 0" using norm_of_nonneg [of v] by simp
  then show ?thesis by (simp add: normalize_vec_def)
qed

lemma word_xor_eq_0: "xor a b = (0 :: 32 word) \<Longrightarrow> a = b"
  by (metis bit_xor_iff bit_eq_iff bit_0_eq bot_apply bot_bool_def)

lemma xor_push_nonzero:
  fixes s :: "32 word"
  assumes "0 < k" "s \<noteq> 0"
  shows "xor s (push_bit k s) \<noteq> 0"
proof
  assume "xor s (push_bit k s) = 0"
  then have "s = push_bit k s" by (rule word_xor_eq_0)
  then have step: "push_bit (k * n) s = s" for n
    by (induction n) (simp_all, metis push_bit_push_bit)
  have "push_bit (k * 32) s = 0" using assms(1) by (intro bit_word_eqI) (simp add: bit_simps)
  then show False using step assms(2) by simp
qed

lemma xor_drop_nonzero:
  fixes s :: "32 word"
  assumes "0 < k" "s \<noteq> 0"
  shows "xor s (drop_bit k s) \<noteq> 0"
proof
  assume "xor s (drop_bit k s) = 0"
  then have "s = drop_bit k s" by (rule word_xor_eq_0)
  then have step: "drop_bit (k * n) s = s" for n
    by (induction n) (simp_all, metis drop_bit_drop_bit)
  have "drop_bit (k * 32) s = 0" using assms(1) by (intro bit_word_eqI) (auto simp: bit_simps dest: bit_imp_le_length)
  then show False using step assms(2) by simp
qed

lemma xorshift32_nonzero: "s \<noteq> 0 \<Longrightarrow> xorshift32 s \<noteq> 0"
  unfolding xorshift32_def Let_def by (intro xor_push_nonzero xor_drop_nonzero) simp_all

lemma start_state_nonzero: "start_state digest \<noteq> 0"
  by (simp add: start_state_def Let_def)

text \<open>
  Whatever the digest of the text, the generator never reaches the state zero, from which it
  could not leave.
\<close>

theorem xorshift_never_stuck: "(xorshift32 ^^ n) (start_state digest) \<noteq> 0"
  by (induction n) (simp_all add: start_state_nonzero xorshift32_nonzero)

lemma sum_list_update_add: "i < length v \<Longrightarrow> sum_list (v[i := v ! i + x]) = sum_list v + (x :: real)"
proof (induction v arbitrary: i)
  case (Cons y v)
  then show ?case by (cases i) simp_all
qed simp

lemma add_bytes_facts:
  assumes "0 < dims" "length v = dims" "list_all (\<lambda>x. 0 \<le> x) v"
  shows "sum_list (add_bytes dims i bs v) = sum_list v + real (sum_list (map of_char bs))
    \<and> list_all (\<lambda>x. 0 \<le> x) (add_bytes dims i bs v)"
  using assms(2,3)
proof (induction bs arbitrary: i v)
  case (Cons b bs)
  let ?j = "i mod dims" let ?v = "v[i mod dims := v ! (i mod dims) + real (of_char b :: nat)]"
  have j: "?j < length v" using assms(1) Cons.prems(1) by simp
  then have "0 \<le> v ! ?j" using Cons.prems(2) by (simp add: list_all_length)
  then have "list_all (\<lambda>x. 0 \<le> x) ?v" using Cons.prems(2) set_update_subset_insert [of v ?j "v ! ?j + real (of_char b :: nat)"]
    by (auto simp: list_all_iff)
  from Cons.IH [of ?v "Suc i", OF _ this] show ?case
    using Cons.prems(1) sum_list_update_add [OF j, of "real (of_char b :: nat)"] by simp
qed simp

lemma norm_of_zero: "norm_of v = 0 \<longleftrightarrow> list_all (\<lambda>x. x = 0) v"
proof -
  have "0 \<le> sum_list (map (\<lambda>x. x * x) v) \<and> (sum_list (map (\<lambda>x. x * x) v) = 0 \<longleftrightarrow> list_all (\<lambda>x. x = 0) v)"
    by (induction v) (auto simp: add_nonneg_eq_0_iff)
  then show ?thesis by (simp add: norm_of_def)
qed

lemma list_all_zero_sum: "list_all (\<lambda>x. 0 \<le> x) v \<Longrightarrow> sum_list v = 0 \<longleftrightarrow> list_all (\<lambda>x. x = (0 :: real)) v"
proof (induction v)
  case (Cons x v)
  have "0 \<le> sum_list v" using Cons.prems by (intro sum_list_nonneg) (simp add: list_all_iff)
  then show ?case using Cons by (auto simp: add_nonneg_eq_0_iff)
qed simp

text \<open>
  The fallback vector has no negative component and unit length, unless every byte of the
  digest is zero; with no dimensions the call panics.
\<close>

theorem fallback_vector_exact:
  "(case fallback_vector sha dims text of
      Inl err \<Rightarrow> dims = 0 \<and> sha text \<noteq> []
    | Inr v \<Rightarrow> length v = dims \<and> list_all (\<lambda>x. 0 \<le> x) v
        \<and> norm_of v = (if list_all (\<lambda>b. of_char b = (0 :: nat)) (sha text) then 0 else 1))"
proof (cases "dims = 0")
  case True
  then show ?thesis
    by (auto simp: fallback_vector_def normalize_vec_norm norm_of_zero) (simp add: normalize_vec_def Let_def)
next
  case False
  let ?raw = "add_bytes dims 0 (sha text) (replicate dims 0)"
  have facts: "sum_list ?raw = real (sum_list (map of_char (sha text)))" "list_all (\<lambda>x. 0 \<le> x) ?raw"
    using add_bytes_facts [of dims "replicate dims 0" 0 "sha text"] False
    by (simp_all add: sum_list_replicate list_all_length)
  have "norm_of ?raw = 0 \<longleftrightarrow> list_all (\<lambda>b. of_char b = (0 :: nat)) (sha text)"
    using list_all_zero_sum [OF facts(2)] by (simp add: norm_of_zero facts(1) sum_list_eq_0_iff list_all_iff)
  moreover have "list_all (\<lambda>x. 0 \<le> x) (normalize_vec ?raw)"
    using facts(2) by (auto simp: normalize_vec_def Let_def list_all_iff)
  ultimately show ?thesis using False by (simp add: fallback_vector_def normalize_vec_norm)
qed

section \<open>Examples\<close>

definition bits_embedder :: "nat \<Rightarrow> f32 \<Rightarrow> f32 embedder" where
  "bits_embedder d b = \<lparr>em_embed = (\<lambda>t. Inr (replicate d b)), em_batch = (\<lambda>ts. Inr (map (\<lambda>t. replicate d b) ts)), em_dims = d\<rparr>"

lemma bits_embedder_law: "deterministic_embedder (bits_embedder d b) (\<lambda>t. replicate d b)"
  by unfold_locales (simp_all add: bits_embedder_def)

lemma demo_hash_inj: "inj_on (content_hash id) {''a'', ''b''}"
  by (simp add: inj_on_def content_hash_def hex_encode_def byte_def hex_digit_def)

lemma cached_batch_transparent_witness:
  "fst (cached_batch id 2 (bits_embedder 2 7) [] [''a'', ''b'']) = Inr [[7, 7], [7, 7]]"
proof -
  have "cache_sound id (\<lambda>t. replicate 2 7) {''a'', ''b''} []" by (simp add: cache_sound_def)
  from cached_batch_transparent [OF bits_embedder_law this demo_hash_inj, of "[''a'', ''b'']"]
  show ?thesis by (simp add: bits_embedder_def numeral_2_eq_2)
qed

lemma cache_outlives_model_witness:
  "\<exists>rows. cached_batch id 1 (bits_embedder 1 9) rows [''a'', ''b''] = (Inr [[7], [7]], rows)"
proof -
  have "cache_sound id (\<lambda>t. replicate 1 7) {''a'', ''b''} []" by (simp add: cache_sound_def)
  from cached_batch_sound [OF bits_embedder_law this demo_hash_inj, of "[''a'', ''b'']"]
  obtain vs rows where run: "cached_batch id (em_dims (bits_embedder 1 7)) (bits_embedder 1 7) [] [''a'', ''b''] = (Inr vs, rows)"
    by auto
  from cache_outlives_model [OF bits_embedder_law _ _ run, of "bits_embedder 1 9"] demo_hash_inj
  show ?thesis by (auto simp: bits_embedder_def)
qed

lemma batch_embedder_transparent_witness:
  "fst (embed_with_cache id 1 (bits_embedder 1 7) 1 None [''a'', ''b'']) = Inr [[7], [7]]"
  using batch_embedder_transparent [OF bits_embedder_law demo_hash_inj, of "[''a'', ''b'']" 1 None 1 7]
  by (simp add: bits_embedder_def)

lemma foreign_dims_fail_witness:
  "embed_batch_cached id 1024 (bits_embedder 384 7) 64 (Some []) [''a''] = (Inl (Dimension_Mismatch 1024 384), Some [])"
  using foreign_dims_fail [OF bits_embedder_law, of 64 1024 384 7 id "''a''" "[]"] by (simp add: bits_embedder_def)

end
