(* ===== verification/Chunkers.thy ===== *)
theory Chunkers
  imports Chunk_Index File_Filters
begin

text \<open>
  The chunking strategies of the ingestion pipeline
  (\<^verbatim>\<open>crates/arags-embedding/src/chunker/\<close>): code by structures or lines, Markdown by
  headings, text by size and by paragraphs. The token counter of \<open>tiktoken\<close> is the argument
  \<open>tok\<close>. A slice of a string is written out where it may panic, as \<open>None\<close>. Lemmas: which
  bytes of the file reach a chunk; that the content of a chunk is the slice of its offsets; when
  the recursive splitter returns and how large its chunks are; when the paragraph splitter
  panics. The cut of a remainder knows the white space of Unicode; the words of the paragraph
  splitter are those of ASCII, as in the code.
\<close>

record raw_chunk =
  rc_start :: nat
  rc_end :: nat
  rc_line_start :: nat
  rc_line_end :: nat
  rc_content :: string
  rc_language :: "string option"
  rc_type :: "string option"

section \<open>Shared helpers\<close>

definition nl :: char where "nl = CHR 0x0A"

definition detect_language :: "string \<Rightarrow> string option" where
  "detect_language path =
     (case path_extension path of
        None \<Rightarrow> None
      | Some ext \<Rightarrow>
          if ext = ''rs'' then Some ''rust''
          else if ext = ''py'' then Some ''python''
          else if ext \<in> {''js'', ''jsx''} then Some ''javascript''
          else if ext \<in> {''ts'', ''tsx''} then Some ''typescript''
          else if ext = ''go'' then Some ''go''
          else if ext = ''java'' then Some ''java''
          else if ext \<in> {''cpp'', ''cc'', ''cxx''} then Some ''cpp''
          else if ext \<in> {''c'', ''h''} then Some ''c''
          else if ext = ''rb'' then Some ''ruby''
          else if ext = ''php'' then Some ''php''
          else if ext \<in> {''md'', ''markdown''} then Some ''markdown''
          else if ext \<in> {''txt'', ''log''} then Some ''text''
          else None)"

text \<open>\<open>str::is_char_boundary\<close>: false beyond the end.\<close>

definition is_char_boundary :: "string \<Rightarrow> nat \<Rightarrow> bool" where
  "is_char_boundary s i \<longleftrightarrow> i = 0 \<or> i = length s \<or> (i < length s \<and> \<not> is_cont (s ! i))"

fun prev_char_boundary :: "string \<Rightarrow> nat \<Rightarrow> nat" where
  "prev_char_boundary s i = (if 0 < i \<and> \<not> is_char_boundary s i then prev_char_boundary s (i - 1) else i)"

declare prev_char_boundary.simps [simp del]

text \<open>\<open>&s[a..b]\<close>.\<close>

definition str_slice :: "string \<Rightarrow> nat \<Rightarrow> nat \<Rightarrow> string option" where
  "str_slice s a b =
     (if a \<le> b \<and> b \<le> length s \<and> is_char_boundary s a \<and> is_char_boundary s b then Some (drop a (take b s)) else None)"

definition bytes_between :: "string \<Rightarrow> nat \<Rightarrow> nat \<Rightarrow> string" where
  "bytes_between s a b = drop a (take b s)"

text \<open>\<open>split_inclusive('\n')\<close> and \<open>split('\n')\<close>.\<close>

fun split_incl_acc :: "string \<Rightarrow> string \<Rightarrow> string list" where
  "split_incl_acc cur [] = (if cur = [] then [] else [rev cur])"
| "split_incl_acc cur (c # cs) =
     (if c = nl then rev (c # cur) # split_incl_acc [] cs else split_incl_acc (c # cur) cs)"

definition split_inclusive :: "string \<Rightarrow> string list" where
  "split_inclusive s = split_incl_acc [] s"

fun split_nl_acc :: "string \<Rightarrow> string \<Rightarrow> string list" where
  "split_nl_acc cur [] = [rev cur]"
| "split_nl_acc cur (c # cs) = (if c = nl then rev cur # split_nl_acc [] cs else split_nl_acc (c # cur) cs)"

definition split_nl :: "string \<Rightarrow> string list" where
  "split_nl s = split_nl_acc [] s"

definition nth_line_byte_offset :: "string \<Rightarrow> nat \<Rightarrow> nat" where
  "nth_line_byte_offset s n = min (sum_list (map (\<lambda>l. length l + 1) (take n (split_nl s)))) (length s)"

definition byte_start_line :: "string \<Rightarrow> nat \<Rightarrow> nat" where
  "byte_start_line content off = length (filter (\<lambda>c. c = nl) (take off content)) + 1"

section \<open>Code\<close>

definition structure_prefixes :: "string \<Rightarrow> string list" where
  "structure_prefixes lang =
     (if lang = ''rust'' then
        [''fn '', ''pub fn '', ''pub(crate) fn '', ''async fn '', ''pub async fn '', ''struct '', ''pub struct '',
         ''enum '', ''pub enum '', ''impl '', ''trait '', ''pub trait '', ''mod '', ''pub mod '', ''type '']
      else if lang = ''python'' then [''def '', ''class '', ''async def '']
      else if lang \<in> {''javascript'', ''typescript''} then
        [''function '', ''export function '', ''export default function '', ''class '', ''export class '',
         ''async function '', ''export async function '', ''const '', ''let '']
      else if lang = ''go'' then [''func '', ''type '', ''package '']
      else if lang = ''java'' then
        [''public class '', ''class '', ''public interface '', ''interface '', ''public enum '', ''enum '']
      else if lang \<in> {''cpp'', ''c''} then
        [''void '', ''int '', ''static '', ''extern '', ''class '', ''struct '', ''namespace '', ''template'']
      else [])"

definition is_structure_start :: "string \<Rightarrow> string option \<Rightarrow> bool" where
  "is_structure_start line language =
     (case language of
        None \<Rightarrow> False
      | Some lang \<Rightarrow>
          list_ex (\<lambda>p. starts_with p line) (structure_prefixes lang)
          \<or> (lang = ''java'' \<and> contains_text ''public static void main'' line \<and> CHR ''('' \<in> set line))"

fun merge_pending :: "(string \<Rightarrow> nat) \<Rightarrow> nat \<Rightarrow> raw_chunk \<Rightarrow> raw_chunk list \<Rightarrow> raw_chunk list" where
  "merge_pending tok max_tokens prev [] = [prev]"
| "merge_pending tok max_tokens prev (c # cs) =
     (if tok (rc_content prev) + tok (rc_content c) \<le> max_tokens
         \<and> rc_type prev = rc_type c \<and> rc_language prev = rc_language c
      then merge_pending tok max_tokens
             \<lparr>rc_start = rc_start prev, rc_end = rc_end c, rc_line_start = rc_line_start prev,
              rc_line_end = rc_line_end c, rc_content = rc_content prev @ rc_content c,
              rc_language = rc_language c, rc_type = rc_type c\<rparr> cs
      else prev # merge_pending tok max_tokens c cs)"

definition merge_small_chunks :: "(string \<Rightarrow> nat) \<Rightarrow> nat \<Rightarrow> raw_chunk list \<Rightarrow> raw_chunk list" where
  "merge_small_chunks tok max_tokens cs = (case cs of [] \<Rightarrow> [] | c # cs' \<Rightarrow> merge_pending tok max_tokens c cs')"

definition structure_chunk :: "(string \<Rightarrow> nat) \<Rightarrow> string \<Rightarrow> string option \<Rightarrow> nat \<Rightarrow> nat \<Rightarrow> nat \<Rightarrow> raw_chunk list" where
  "structure_chunk tok content language block_start block_end line_end =
     (let e = prev_char_boundary content block_end; piece = bytes_between content block_start e
      in if 0 < tok piece
         then [\<lparr>rc_start = block_start, rc_end = e, rc_line_start = byte_start_line content block_start,
                rc_line_end = line_end, rc_content = piece, rc_language = language, rc_type = Some ''structure''\<rparr>]
         else [])"

text \<open>The walk over the lines: \<open>i\<close> is the line number, then \<open>block_start\<close>, \<open>block_end\<close>, \<open>in_block\<close>.\<close>

fun structure_scan ::
  "(string \<Rightarrow> nat) \<Rightarrow> string \<Rightarrow> string option \<Rightarrow> string list \<Rightarrow> nat \<Rightarrow> nat \<Rightarrow> nat \<Rightarrow> bool \<Rightarrow> raw_chunk list" where
  "structure_scan tok content language [] i block_start block_end in_block =
     (if in_block \<and> block_start < block_end
      then structure_chunk tok content language block_start block_end (length (split_nl content)) else [])"
| "structure_scan tok content language (line # ls) i block_start block_end in_block =
     (let trimmed = trim line;
          starts = is_structure_start trimmed language;
          flush = starts \<and> in_block \<and> block_start < block_end;
          out = (if flush then structure_chunk tok content language block_start block_end i else []);
          bs = (if flush then nth_line_byte_offset content i else block_start);
          be = (if flush then bs else block_end);
          inb = (in_block \<or> starts);
          be' = (if starts \<or> in_block then be + length line
                 else if trimmed = [] \<and> in_block then be + length line else be)
      in out @ structure_scan tok content language ls (Suc i) bs be' inb)"

definition line_chunk :: "string \<Rightarrow> string option \<Rightarrow> nat \<Rightarrow> nat \<Rightarrow> nat \<Rightarrow> nat \<Rightarrow> raw_chunk" where
  "line_chunk content language s e first_line last_line =
     \<lparr>rc_start = s, rc_end = e, rc_line_start = first_line, rc_line_end = last_line,
      rc_content = bytes_between content s e, rc_language = language, rc_type = Some ''lines''\<rparr>"

fun line_scan ::
  "(string \<Rightarrow> nat) \<Rightarrow> nat \<Rightarrow> nat \<Rightarrow> string \<Rightarrow> string option \<Rightarrow> string list \<Rightarrow> nat \<Rightarrow> nat \<Rightarrow> nat \<Rightarrow> nat \<Rightarrow> raw_chunk list" where
  "line_scan tok max_tokens overlap content language [] i line_start byte_start current =
     (if byte_start < length content \<and> 0 < tok (drop byte_start content)
      then [line_chunk content language byte_start (length content) (line_start + 1) (length (split_nl content))]
      else [])"
| "line_scan tok max_tokens overlap content language (line # ls) i line_start byte_start current =
     (let cur = current + 1
      in if max_tokens < cur + tok line \<and> 1 < cur
         then let e = prev_char_boundary content (byte_start + length line);
                  ov = min overlap (cur - 1);
                  line_start' = i + 1 - ov
              in line_chunk content language byte_start e (line_start + 1) (i + 1)
                 # line_scan tok max_tokens overlap content language ls (Suc i) line_start'
                     (nth_line_byte_offset content line_start') ov
         else line_scan tok max_tokens overlap content language ls (Suc i) line_start byte_start cur)"

definition chunk_by_lines :: "(string \<Rightarrow> nat) \<Rightarrow> nat \<Rightarrow> nat \<Rightarrow> string \<Rightarrow> string option \<Rightarrow> raw_chunk list" where
  "chunk_by_lines tok max_tokens overlap content language =
     line_scan tok max_tokens overlap content language (split_inclusive content) 0 0 0 0"

definition chunk_by_structures :: "(string \<Rightarrow> nat) \<Rightarrow> nat \<Rightarrow> nat \<Rightarrow> string \<Rightarrow> string option \<Rightarrow> raw_chunk list" where
  "chunk_by_structures tok max_tokens overlap content language =
     (let chunks = structure_scan tok content language (split_inclusive content) 0 0 0 False
      in if chunks = [] then chunk_by_lines tok max_tokens overlap content language
         else merge_small_chunks tok max_tokens chunks)"

definition structured_languages :: "string list" where
  "structured_languages =
     [''rust'', ''python'', ''javascript'', ''typescript'', ''go'', ''java'', ''cpp'', ''c'', ''ruby'', ''php'']"

definition chunk_code :: "(string \<Rightarrow> nat) \<Rightarrow> nat \<Rightarrow> nat \<Rightarrow> string \<Rightarrow> string \<Rightarrow> raw_chunk list" where
  "chunk_code tok max_tokens overlap content path =
     (let language = detect_language path
      in if \<exists>l\<in>set structured_languages. language = Some l
         then chunk_by_structures tok max_tokens overlap content language
         else chunk_by_lines tok max_tokens overlap content language)"

section \<open>Markdown\<close>

definition plain_chunk :: "string \<Rightarrow> nat \<Rightarrow> string \<Rightarrow> raw_chunk" where
  "plain_chunk kind s piece =
     \<lparr>rc_start = s, rc_end = s + length piece, rc_line_start = 0, rc_line_end = 0,
      rc_content = piece, rc_language = None, rc_type = Some kind\<rparr>"

fun heading_scan :: "string \<Rightarrow> string list \<Rightarrow> nat \<Rightarrow> nat \<Rightarrow> raw_chunk list" where
  "heading_scan content [] section_start off =
     (if section_start < off \<and> trim (drop section_start content) \<noteq> []
      then [plain_chunk ''heading'' section_start (drop section_start content)] else [])"
| "heading_scan content (line # ls) section_start off =
     (if starts_with ''#'' (trim_start line) \<and> section_start < off
      then plain_chunk ''heading'' section_start (bytes_between content section_start off)
           # heading_scan content ls off (off + length line)
      else heading_scan content ls section_start (off + length line))"

definition chunk_markdown :: "string \<Rightarrow> raw_chunk list" where
  "chunk_markdown content = heading_scan content (split_inclusive content) 0 0"

section \<open>Recursive splitting\<close>

text \<open>\<open>str::split\<close> for a separator that is not empty.\<close>

function split_str :: "string \<Rightarrow> string \<Rightarrow> string list" where
  "split_str sep s =
     (if sep = [] then [s] else
      case find_sub sep s of
        None \<Rightarrow> [s]
      | Some i \<Rightarrow> take i s # split_str sep (drop (i + length sep) s))"
  by pat_completeness auto
termination
proof (relation "measure (length \<circ> snd)")
  fix sep s i
  assume a: "sep \<noteq> []" "find_sub sep s = Some i"
  then obtain b where "s = take i s @ sep @ b" using find_sub_Some by blast
  then have "length s = length (take i s @ sep @ b)" by simp
  then have "0 < length s" using a(1) by (cases sep) auto
  then show "((sep, drop (i + length sep) s), sep, s) \<in> measure (length \<circ> snd)"
    using a(1) by (cases sep) auto
qed simp

declare split_str.simps [simp del]

text \<open>The pieces with the separator added back, except to the last one.\<close>

definition pieces_with_sep :: "string \<Rightarrow> string \<Rightarrow> string list" where
  "pieces_with_sep sep s = (let ps = split_str sep s in map (\<lambda>p. p @ sep) (butlast ps) @ [last ps])"

text \<open>
  The hard split, with one unit of fuel for each turn of its loop; \<open>None\<close> when the fuel is
  used up.
\<close>

fun hard_split :: "nat \<Rightarrow> (string \<Rightarrow> nat) \<Rightarrow> nat \<Rightarrow> string \<Rightarrow> nat \<Rightarrow> nat \<Rightarrow> raw_chunk list option" where
  "hard_split 0 tok max_tokens content chunk_start s = (if s < length content then None else Some [])"
| "hard_split (Suc fuel) tok max_tokens content chunk_start s =
     (if s < length content
      then let e = prev_char_boundary content (min (s + max_tokens * 4) (length content));
               piece = bytes_between content s e
           in map_option (\<lambda>cs. (if 0 < tok piece then [plain_chunk ''recursive'' (chunk_start + s) piece] else []) @ cs)
                (hard_split fuel tok max_tokens content chunk_start e)
      else Some [])"

fun concat_options :: "'a list option list \<Rightarrow> 'a list option" where
  "concat_options [] = Some []"
| "concat_options (None # os) = None"
| "concat_options (Some xs # os) = map_option ((@) xs) (concat_options os)"

definition piece_offsets :: "nat \<Rightarrow> string list \<Rightarrow> (nat \<times> string) list" where
  "piece_offsets start ps = map (\<lambda>i. (start + length (concat (take i ps)), ps ! i)) [0..<length ps]"

primrec chunk_recursive :: "string list \<Rightarrow> (string \<Rightarrow> nat) \<Rightarrow> nat \<Rightarrow> string \<Rightarrow> nat \<Rightarrow> raw_chunk list option" where
  "chunk_recursive [] tok max_tokens content chunk_start =
     (if tok content \<le> max_tokens
      then Some (if tok content = 0 then [] else [plain_chunk ''recursive'' chunk_start content])
      else hard_split (length content) tok max_tokens content chunk_start 0)"
| "chunk_recursive (sep # seps) tok max_tokens content chunk_start =
     (if tok content \<le> max_tokens
      then Some (if tok content = 0 then [] else [plain_chunk ''recursive'' chunk_start content])
      else concat_options
             (map (\<lambda>(off, piece). chunk_recursive seps tok max_tokens piece off)
                (piece_offsets chunk_start (pieces_with_sep sep content))))"

definition default_separators :: "string list" where
  "default_separators = [[nl, nl], [nl], ''. '', '' '']"

definition chunk_sized :: "(string \<Rightarrow> nat) \<Rightarrow> nat \<Rightarrow> string \<Rightarrow> raw_chunk list option" where
  "chunk_sized tok max_tokens content = chunk_recursive default_separators tok max_tokens content 0"

section \<open>Lines and boundaries\<close>

text \<open>The token counter: only the empty text has no token.\<close>

definition counts_tokens :: "(string \<Rightarrow> nat) \<Rightarrow> bool" where
  "counts_tokens tok \<longleftrightarrow> (\<forall>s. tok s = 0 \<longleftrightarrow> s = [])"

definition contents :: "raw_chunk list \<Rightarrow> string" where
  "contents cs = concat (map rc_content cs)"

lemma contents_simps [simp]: "contents [] = []" "contents (c # cs) = rc_content c @ contents cs"
  "contents (xs @ ys) = contents xs @ contents ys"
  by (simp_all add: contents_def)

lemma concat_split_incl_acc: "concat (split_incl_acc cur s) = rev cur @ s"
  by (induction cur s rule: split_incl_acc.induct) simp_all

lemma concat_split_inclusive [simp]: "concat (split_inclusive s) = s"
  by (simp add: split_inclusive_def concat_split_incl_acc)

lemma split_incl_acc_nonempty: "l \<in> set (split_incl_acc cur s) \<Longrightarrow> l \<noteq> []"
  by (induction cur s rule: split_incl_acc.induct) (auto split: if_splits)

lemma split_inclusive_nonempty: "l \<in> set (split_inclusive s) \<Longrightarrow> l \<noteq> []"
  unfolding split_inclusive_def by (rule split_incl_acc_nonempty)

lemma split_incl_acc_newline: "ls @ l # ms = split_incl_acc cur s \<Longrightarrow> ms \<noteq> [] \<Longrightarrow> last l = nl"
proof (induction cur s arbitrary: ls rule: split_incl_acc.induct)
  case (2 cur c cs)
  show ?case
  proof (cases "c = nl")
    case True
    then show ?thesis using "2.prems" "2.IH"(1) by (cases ls) auto
  next
    case False
    then show ?thesis using "2.prems" "2.IH"(2) by auto
  qed
qed (auto split: if_splits simp: append_eq_Cons_conv)

lemma line_offset_acc:
  "min (sum_list (map (\<lambda>l. length l + 1) (take n (split_nl_acc cur s)))) (length cur + length s)
     = length (concat (take n (split_incl_acc cur s)))"
proof (induction cur s arbitrary: n rule: split_incl_acc.induct)
  case (1 cur)
  then show ?case by (cases n) simp_all
next
  case (2 cur c cs)
  show ?case
  proof (cases "c = nl")
    case True
    then show ?thesis using "2.IH"(1) by (cases n) (simp_all, metis add.assoc min_add_distrib_right nat_add_left_cancel_le add_Suc min_Suc_Suc)
  next
    case False
    then show ?thesis using "2.IH"(2) [of n] by simp
  qed
qed

lemma nth_line_offset: "nth_line_byte_offset s n = length (concat (take n (split_inclusive s)))"
  using line_offset_acc [of n "[]" s] by (simp add: nth_line_byte_offset_def split_nl_def split_inclusive_def)

lemma prev_char_boundary_le: "prev_char_boundary s i \<le> i"
proof (induction i)
  case (Suc i)
  then show ?case by (subst prev_char_boundary.simps) simp
qed (simp add: prev_char_boundary.simps)

lemma prev_char_boundary_fix: "is_char_boundary s i \<Longrightarrow> prev_char_boundary s i = i"
  by (simp add: prev_char_boundary.simps)

lemma prev_char_boundary_ge: "is_char_boundary s j \<Longrightarrow> j \<le> i \<Longrightarrow> j \<le> prev_char_boundary s i"
proof (induction i)
  case (Suc i)
  then show ?case by (subst prev_char_boundary.simps) (auto simp: le_Suc_eq)
qed (simp add: prev_char_boundary.simps)

lemma prev_char_boundary_is: "is_char_boundary s (prev_char_boundary s i)"
proof (induction i)
  case (Suc i)
  then show ?case by (subst prev_char_boundary.simps) simp
qed (simp add: prev_char_boundary.simps is_char_boundary_def)

lemma prev_char_boundary_length: "prev_char_boundary s i \<le> length s"
  using prev_char_boundary_is [of s i] by (auto simp: is_char_boundary_def)

lemma utf8_step_valid: "utf8_step a rest = (k, True) \<Longrightarrow> k \<le> length rest \<and> k \<le> 3 \<and> \<not> is_cont a
    \<and> list_all (\<lambda>c. 128 \<le> byte c) (take k rest) \<and> (byte a < 128 \<longrightarrow> k = 0)"
  by (auto simp: utf8_step_def Let_def is_cont_def second_of_three_def second_of_four_def split: if_splits list.splits)

lemma valid_utf8_head: "valid_utf8 (c # s) \<Longrightarrow> \<not> is_cont c"
  using utf8_step_valid [of c s] by (auto simp: Let_def split: prod.splits)

lemma valid_utf8_after: "valid_utf8 (u @ c # v) \<Longrightarrow> byte c < 128 \<Longrightarrow> valid_utf8 v"
proof (induction u rule: length_induct)
  case (1 u)
  show ?case
  proof (cases u)
    case Nil
    then show ?thesis using "1.prems" utf8_step_ascii by simp
  next
    case (Cons a w)
    obtain k ok where s: "utf8_step a (w @ c # v) = (k, ok)" by (cases "utf8_step a (w @ c # v)")
    with "1.prems" Cons have ok: "ok" "valid_utf8 (drop k (w @ c # v))" by simp_all
    have k: "list_all (\<lambda>x. 128 \<le> byte x) (take k (w @ c # v))" using utf8_step_valid [of a "w @ c # v" k] s ok(1) by simp
    have "k \<le> length w"
    proof (rule ccontr)
      assume "\<not> k \<le> length w"
      then have "c \<in> set (take k (w @ c # v))" by (cases "k - length w") simp_all
      then show False using k "1.prems"(2) unfolding list_all_iff by (meson leD)
    qed
    then have "valid_utf8 (drop k w @ c # v)" using ok(2) by simp
    moreover have "length (drop k w) < length u" using Cons by simp
    ultimately show ?thesis using "1.IH" "1.prems"(2) by blast
  qed
qed

lemma boundary_append: "v = [] \<or> \<not> is_cont (hd v) \<Longrightarrow> is_char_boundary (p @ v) (length p)"
  by (cases v) (simp_all add: is_char_boundary_def nth_append)

lemma valid_utf8_boundary: "valid_utf8 v \<Longrightarrow> is_char_boundary (p @ v) (length p)"
  by (rule boundary_append) (cases v; use valid_utf8_head in auto)

lemma boundary_after_lines:
  assumes "valid_utf8 s"
  shows "is_char_boundary s (length (concat (take i (split_inclusive s))))"
proof (cases "i = 0 \<or> length (split_inclusive s) \<le> i")
  case True
  then show ?thesis by (auto simp: is_char_boundary_def)
next
  case False
  define L where "L = split_inclusive s"
  obtain j where j: "i = Suc j" "Suc j < length L" using False by (cases i) (auto simp: L_def)
  have parts: "L = take j L @ L ! j # drop (Suc j) L" using j by (simp add: id_take_nth_drop [symmetric])
  then have "last (L ! j) = nl"
    using split_incl_acc_newline [of "take j L" "L ! j" "drop (Suc j) L" "[]" s] j by (simp add: L_def split_inclusive_def)
  moreover have "L ! j \<noteq> []" using split_inclusive_nonempty [of "L ! j" s] j by (simp add: L_def)
  ultimately have l: "L ! j = butlast (L ! j) @ [nl]" by (metis append_butlast_last_id)
  have take: "concat (take i L) = (concat (take j L) @ butlast (L ! j)) @ [nl]"
  proof -
    have "take i L = take j L @ [L ! j]" using j by (simp add: take_Suc_conv_app_nth)
    then have "concat (take i L) = concat (take j L) @ L ! j" by simp
    also have "\<dots> = concat (take j L) @ (butlast (L ! j) @ [nl])" by (rule arg_cong [OF l])
    finally show ?thesis by simp
  qed
  have s: "s = concat (take i L) @ concat (drop i L)"
    unfolding concat_append [symmetric] append_take_drop_id L_def by simp
  then have "valid_utf8 ((concat (take j L) @ butlast (L ! j)) @ nl # concat (drop i L))"
    using assms unfolding take by simp
  then have "valid_utf8 (concat (drop i L))" by (rule valid_utf8_after) (simp add: byte_def nl_def)
  from valid_utf8_boundary [OF this, of "concat (take i L)"] show ?thesis
    unfolding s [symmetric] by (simp only: L_def)
qed

section \<open>Code chunks\<close>

lemma contents_merge_pending: "contents (merge_pending tok m c cs) = rc_content c @ contents cs"
  by (induction cs arbitrary: c) simp_all

lemma contents_merge [simp]: "contents (merge_small_chunks tok m cs) = contents cs"
  by (cases cs) (simp_all add: merge_small_chunks_def contents_merge_pending)

lemma contents_structure_chunk:
  "counts_tokens tok \<Longrightarrow> contents (structure_chunk tok content lang s e i) = bytes_between content s (prev_char_boundary content e)"
  by (simp add: structure_chunk_def Let_def counts_tokens_def)

lemma bytes_between_drop: "s \<le> e \<Longrightarrow> bytes_between content s e @ drop e content = drop s content"
  unfolding bytes_between_def by (metis append_take_drop_id drop_drop le_add_diff_inverse2 take_drop)

definition starts_block :: "string option \<Rightarrow> string \<Rightarrow> bool" where
  "starts_block language line = is_structure_start (trim line) language"

lemma scan_aligned:
  assumes "valid_utf8 content" "counts_tokens tok" "split_inclusive content = before @ cur @ ls"
  shows "contents (structure_scan tok content lang ls (length before + length cur) (length (concat before))
      (length (concat before) + length (concat cur)) True) = drop (length (concat before)) content"
  using assms(3)
proof (induction ls arbitrary: before cur)
  case Nil
  then have len: "length (concat before) + length (concat cur) = length content"
    using concat_split_inclusive [of content] by (metis append.right_neutral concat_append length_append)
  then have b: "prev_char_boundary content (length content) = length content"
    by (intro prev_char_boundary_fix) (simp add: is_char_boundary_def)
  then show ?case using len
    by (auto simp: contents_structure_chunk [OF assms(2)] bytes_between_def)
next
  case (Cons line ls)
  let ?b = "length (concat before)" let ?e = "length (concat before) + length (concat cur)"
  have take: "take (length before + length cur) (split_inclusive content) = before @ cur" using Cons.prems by simp
  have e: "?e = length (concat (take (length before + length cur) (split_inclusive content)))" by (simp add: take)
  have off: "nth_line_byte_offset content (length before + length cur) = ?e" unfolding nth_line_offset e ..
  have fixed: "prev_char_boundary content ?e = ?e"
    unfolding e by (rule prev_char_boundary_fix) (rule boundary_after_lines [OF assms(1)])
  show ?case
  proof (cases "starts_block lang line \<and> ?b < ?e")
    case True
    have IH: "contents (structure_scan tok content lang ls (Suc (length before + length cur)) ?e (?e + length line) True)
        = drop ?e content"
      using Cons.IH [of "before @ cur" "[line]"] Cons.prems by (simp add: add.assoc)
    show ?thesis
      using True IH bytes_between_drop [of ?b ?e content]
      by (simp add: Let_def starts_block_def off contents_structure_chunk [OF assms(2)] fixed)
  next
    case False
    have "contents (structure_scan tok content lang ls (Suc (length before + length cur)) ?b (?e + length line) True)
        = drop ?b content"
      using Cons.IH [of before "cur @ [line]"] Cons.prems by (simp add: add.assoc)
    then show ?thesis using False by (auto simp: Let_def starts_block_def)
  qed
qed

lemma scan_first_block:
  fixes lang :: "string option"
  assumes "valid_utf8 content" "counts_tokens tok" "split_inclusive content = pre @ cur @ ls" "cur \<noteq> []"
  defines "suff \<equiv> takeWhile (\<lambda>l. \<not> starts_block lang l) ls"
  shows "contents (structure_scan tok content lang ls (length pre + length cur) 0 (length (concat cur)) True)
    = take (prev_char_boundary content (length (concat (cur @ suff)))) content
      @ drop (length (concat (pre @ cur @ suff))) content"
  using assms(3,4) unfolding suff_def
proof (induction ls arbitrary: cur)
  case Nil
  have "hd cur \<noteq> []" using Nil split_inclusive_nonempty [of "hd cur" content] by (cases cur) auto
  then have "0 < length (concat cur)" using Nil(2) by (cases cur) auto
  moreover have "length content = length (concat (pre @ cur))"
    using Nil(1) concat_split_inclusive [of content] by simp
  ultimately show ?case by (simp add: contents_structure_chunk [OF assms(2)] bytes_between_def)
next
  case (Cons line ls)
  have "hd cur \<noteq> []" using Cons.prems split_inclusive_nonempty [of "hd cur" content] by (cases cur) auto
  then have pos: "0 < length (concat cur)" using Cons.prems(2) by (cases cur) auto
  show ?case
  proof (cases "starts_block lang line")
    case True
    have "take (length pre + length cur) (split_inclusive content) = pre @ cur" using Cons.prems(1) by simp
    then have off: "nth_line_byte_offset content (length pre + length cur) = length (concat (pre @ cur))"
      by (simp add: nth_line_offset)
    have "contents (structure_scan tok content lang ls (Suc (length pre + length cur)) (length (concat (pre @ cur)))
        (length (concat (pre @ cur)) + length line) True) = drop (length (concat (pre @ cur))) content"
      using scan_aligned [OF assms(1,2), of "pre @ cur" "[line]" ls lang] Cons.prems(1) by (simp add: add.assoc)
    then show ?thesis
      using True pos off by (simp add: Let_def starts_block_def contents_structure_chunk [OF assms(2)] bytes_between_def)
  next
    case False
    have "contents (structure_scan tok content lang ls (Suc (length pre + length cur)) 0 (length (concat cur) + length line) True)
      = take (prev_char_boundary content (length (concat ((cur @ [line]) @ takeWhile (\<lambda>l. \<not> starts_block lang l) ls)))) content
        @ drop (length (concat (pre @ (cur @ [line]) @ takeWhile (\<lambda>l. \<not> starts_block lang l) ls))) content"
      using Cons.IH [of "cur @ [line]"] Cons.prems(1) by (simp add: add.assoc)
    then show ?thesis using False by (simp add: Let_def starts_block_def)
  qed
qed

lemma scan_preamble:
  "list_all (\<lambda>l. \<not> starts_block lang l) pre \<Longrightarrow>
   structure_scan tok content lang (pre @ ls) i 0 0 False = structure_scan tok content lang ls (i + length pre) 0 0 False"
  by (induction pre arbitrary: i) (simp_all add: Let_def starts_block_def)

text \<open>
  C37: What the structure chunker keeps of a file: with \<open>pre\<close> the lines before the first structure
  and \<open>block\<close> the first structure with the lines up to the next, its chunks hold the text after
  the first block, and before it the first bytes of the file, as many as the block has. Text
  before the first structure therefore pushes as much of the first block out of the index.
\<close>

theorem structures_exact:
  assumes "valid_utf8 content" "counts_tokens tok" "split_inclusive content = pre @ l # ls"
    and "list_all (\<lambda>l. \<not> starts_block lang l) pre" "starts_block lang l"
  defines "block \<equiv> l # takeWhile (\<lambda>l. \<not> starts_block lang l) ls"
  assumes "0 < prev_char_boundary content (length (concat block))"
  shows "contents (chunk_by_structures tok max_tokens overlap content lang)
        = take (prev_char_boundary content (length (concat block))) content @ drop (length (concat pre) + length (concat block)) content"
proof -
  have "contents (structure_scan tok content lang (split_inclusive content) 0 0 0 False)
      = contents (structure_scan tok content lang ls (length pre + length [l]) 0 (length (concat [l])) True)"
    using assms(5) by (simp add: assms(3) scan_preamble [OF assms(4)] Let_def starts_block_def)
  also have "\<dots> = take (prev_char_boundary content (length (concat block))) content
      @ drop (length (concat (pre @ block))) content"
    using scan_first_block [OF assms(1,2), of pre "[l]" ls lang] assms(3) by (simp add: block_def)
  finally have scan: "contents (structure_scan tok content lang (split_inclusive content) 0 0 0 False)
      = take (prev_char_boundary content (length (concat block))) content @ drop (length (concat (pre @ block))) content" .
  have "content \<noteq> []" using assms(3) by (auto simp: split_inclusive_def)
  then have "structure_scan tok content lang (split_inclusive content) 0 0 0 False \<noteq> []"
    using scan assms(7) by (metis append_is_Nil_conv contents_simps(1) not_less_zero take_eq_Nil zero_less_iff_neq_zero)
  then show ?thesis using scan by (simp add: chunk_by_structures_def Let_def)
qed

text \<open>
  A file that begins with a structure is kept whole: its chunks, merged or not, are the file
  cut into pieces.
\<close>

theorem structures_partition:
  assumes "valid_utf8 content" "counts_tokens tok" "split_inclusive content = l # ls" "starts_block lang l"
  shows "contents (chunk_by_structures tok max_tokens overlap content lang) = content"
proof -
  define suff where "suff = takeWhile (\<lambda>l. \<not> starts_block lang l) ls"
  have scan: "contents (structure_scan tok content lang (split_inclusive content) 0 0 0 False)
      = contents (structure_scan tok content lang ls (length [] + length [l]) 0 (length (concat [l])) True)"
    using assms(4) by (simp add: assms(3) Let_def starts_block_def)
  have "take (Suc (length suff)) (split_inclusive content) = l # suff"
    using assms(3) by (simp add: suff_def) (metis takeWhile_dropWhile_id append_eq_conv_conj)
  then have "prev_char_boundary content (length (concat (l # suff))) = length (concat (l # suff))"
    using prev_char_boundary_fix [OF boundary_after_lines [OF assms(1), of "Suc (length suff)"]] by simp
  then have all: "contents (structure_scan tok content lang (split_inclusive content) 0 0 0 False) = content"
    using scan scan_first_block [OF assms(1,2), of "[]" "[l]" ls lang] assms(3) by (simp add: suff_def del: structure_scan.simps)
  have "content \<noteq> []" using assms(3) by (auto simp: split_inclusive_def)
  then show ?thesis using all by (auto simp: chunk_by_structures_def Let_def)
qed

section \<open>Chunks by lines and by headings\<close>

text \<open>The content of a chunk is the slice of the file that its offsets name.\<close>

definition is_slice_of :: "string \<Rightarrow> raw_chunk \<Rightarrow> bool" where
  "is_slice_of content c \<longleftrightarrow>
     rc_start c \<le> rc_end c \<and> rc_end c \<le> length content \<and> rc_content c = bytes_between content (rc_start c) (rc_end c)"

lemma line_scan_chunks:
  assumes "valid_utf8 content" "is_char_boundary content byte_start"
  shows "list_all (is_slice_of content) (line_scan tok m ov content lang ls i line_start byte_start cur)
    \<and> list_all (\<lambda>c. \<exists>l\<in>set ls. length (rc_content c) \<le> length l)
        (filter (\<lambda>c. rc_end c < length content) (line_scan tok m ov content lang ls i line_start byte_start cur))"
  using assms(2)
proof (induction ls arbitrary: i line_start byte_start cur)
  case Nil
  then show ?case by (auto simp: is_slice_of_def line_chunk_def bytes_between_def)
next
  case (Cons line ls)
  let ?cur = "cur + 1" let ?e = "prev_char_boundary content (byte_start + length line)" let ?ov = "min ov (?cur - 1)"
  show ?case
  proof (cases "m < ?cur + tok line \<and> 1 < ?cur")
    case True
    have b: "is_char_boundary content (nth_line_byte_offset content (i + 1 - ?ov))"
      unfolding nth_line_offset by (rule boundary_after_lines [OF assms(1)])
    have e: "byte_start \<le> ?e" "?e \<le> length content" "?e \<le> byte_start + length line"
      using prev_char_boundary_ge [OF Cons.prems, of "byte_start + length line"]
      by (simp_all add: prev_char_boundary_length prev_char_boundary_le)
    then have "is_slice_of content (line_chunk content lang byte_start ?e (line_start + 1) (i + 1))"
      and "length (bytes_between content byte_start ?e) \<le> length line"
      by (auto simp: is_slice_of_def line_chunk_def bytes_between_def)
    with Cons.IH [OF b, of "Suc i" "i + 1 - ?ov" ?ov] True show ?thesis
      by (auto simp: Let_def line_chunk_def list_all_iff)
  next
    case False
    with Cons.IH [OF Cons.prems, of "Suc i" line_start ?cur] show ?thesis
      by (auto simp: Let_def list_all_iff)
  qed
qed

text \<open>
  The line chunker cuts true slices, but a chunk that ends before the file ends is no longer
  than a single line, whatever range of lines its fields name.
\<close>

theorem line_chunks_one_line:
  assumes "valid_utf8 content" "c \<in> set (chunk_by_lines tok max_tokens overlap content lang)" "rc_end c < length content"
  shows "is_slice_of content c \<and> (\<exists>l\<in>set (split_inclusive content). length (rc_content c) \<le> length l)"
  using line_scan_chunks [OF assms(1), of 0 tok max_tokens overlap lang "split_inclusive content" 0 0 0] assms(2,3)
  by (simp add: chunk_by_lines_def list_all_iff is_char_boundary_def)

definition heading_line :: "string \<Rightarrow> bool" where
  "heading_line l = starts_with ''#'' (trim_start l)"

lemma heading_scan_contents:
  assumes "content = before @ concat cur @ concat ls"
  shows "\<exists>rest. contents (heading_scan content ls (length before) (length before + length (concat cur))) @ rest
      = concat cur @ concat ls \<and> trim rest = []"
  using assms
proof (induction ls arbitrary: before cur)
  case Nil
  have t: "trim [] = []" by (simp add: trim_def)
  show ?case
  proof (cases "trim (concat cur) = []")
    case False
    then have "concat cur \<noteq> []" using t by metis
    then show ?thesis using Nil False t by (simp add: plain_chunk_def del: concat_eq_Nil_conv length_concat)
  qed (use Nil in simp)
next
  case (Cons line ls)
  show ?case
  proof (cases "heading_line line \<and> concat cur \<noteq> []")
    case True
    from Cons.IH [of "before @ concat cur" "[line]"] Cons.prems
    obtain rest where "contents (heading_scan content ls (length before + length (concat cur))
        (length before + length (concat cur) + length line)) @ rest = line @ concat ls" "trim rest = []"
      by (auto simp: add.assoc)
    moreover have "bytes_between content (length before) (length before + length (concat cur)) = concat cur"
      using Cons.prems by (simp add: bytes_between_def)
    ultimately show ?thesis using True
      by (intro exI [of _ rest]) (simp add: heading_line_def plain_chunk_def del: length_concat)
  next
    case False
    from Cons.IH [of before "cur @ [line]"] Cons.prems
    obtain rest where "contents (heading_scan content ls (length before)
        (length before + length (concat cur) + length line)) @ rest = concat cur @ line @ concat ls" "trim rest = []"
      by (auto simp: add.assoc)
    then show ?thesis using False
      by (intro exI [of _ rest]) (auto simp: heading_line_def simp del: length_concat)
  qed
qed

text \<open>
  The Markdown chunks are the file cut into pieces; only a last section of white space is left
  out.
\<close>

theorem markdown_partition:
  "\<exists>rest. contents (chunk_markdown content) @ rest = content \<and> trim rest = []"
  using heading_scan_contents [of content "[]" "[]" "split_inclusive content"]
  by (simp add: chunk_markdown_def)

section \<open>Recursive splitting\<close>

text \<open>No four continuation bytes follow each other.\<close>

definition short_chars :: "string \<Rightarrow> bool" where
  "short_chars s \<longleftrightarrow> (\<forall>i. i + 4 \<le> length s \<longrightarrow> (\<exists>j. i \<le> j \<and> j < i + 4 \<and> \<not> is_cont (s ! j)))"

lemma short_chars_append: "short_chars (u @ v) \<Longrightarrow> short_chars u \<and> short_chars v"
proof (intro conjI)
  assume s: "short_chars (u @ v)"
  show "short_chars u" unfolding short_chars_def
  proof (intro allI impI)
    fix i assume i: "i + 4 \<le> length u"
    then have "i + 4 \<le> length (u @ v)" by simp
    then obtain j where "i \<le> j" "j < i + 4" "\<not> is_cont ((u @ v) ! j)" using s unfolding short_chars_def by blast
    then show "\<exists>j. i \<le> j \<and> j < i + 4 \<and> \<not> is_cont (u ! j)" using i by (intro exI [of _ j]) (simp add: nth_append)
  qed
  show "short_chars v" unfolding short_chars_def
  proof (intro allI impI)
    fix i assume i: "i + 4 \<le> length v"
    then have "length u + i + 4 \<le> length (u @ v)" by simp
    then obtain j where "length u + i \<le> j" "j < length u + i + 4" "\<not> is_cont ((u @ v) ! j)"
      using s unfolding short_chars_def by blast
    then show "\<exists>j. i \<le> j \<and> j < i + 4 \<and> \<not> is_cont (v ! j)"
      by (intro exI [of _ "j - length u"]) (auto simp: nth_append)
  qed
qed

lemma valid_utf8_short: "valid_utf8 s \<Longrightarrow> short_chars s"
proof (induction s rule: valid_utf8.induct)
  case (2 a rest)
  obtain k ok where st: "utf8_step a rest = (k, ok)" by (cases "utf8_step a rest")
  with "2.prems" have ok: "ok" and v: "valid_utf8 (drop k rest)" by simp_all
  have k: "k \<le> length rest" "k \<le> 3" "\<not> is_cont a" using utf8_step_valid [of a rest k] st ok by simp_all
  have IH: "short_chars (drop k rest)" using "2.IH" [OF st [symmetric] refl v] .
  show ?case unfolding short_chars_def
  proof (intro allI impI)
    fix i assume i: "i + 4 \<le> length (a # rest)"
    consider "i = 0" | "1 \<le> i" "i \<le> k" | "k < i" by linarith
    then show "\<exists>j. i \<le> j \<and> j < i + 4 \<and> \<not> is_cont ((a # rest) ! j)"
    proof cases
      case 1
      then show ?thesis using k(3) by (intro exI [of _ 0]) simp
    next
      case 2
      then have "k < length rest" using i k(2) by simp
      then obtain c w where c: "drop k rest = c # w" "rest ! k = c" by (metis Cons_nth_drop_Suc)
      then have "\<not> is_cont c" using v valid_utf8_head by metis
      then show ?thesis using 2 k(2) c by (intro exI [of _ "Suc k"]) simp
    next
      case 3
      then have "i - Suc k + 4 \<le> length (drop k rest)" using i by simp
      then obtain j where "i - Suc k \<le> j" "j < i - Suc k + 4" "\<not> is_cont (drop k rest ! j)"
        using IH unfolding short_chars_def by blast
      moreover have "(a # rest) ! (j + Suc k) = drop k rest ! j" using k(1) by (simp add: add.commute)
      ultimately show ?thesis using 3 by (intro exI [of _ "j + Suc k"] conjI) (simp_all, linarith?)
    qed
  qed
qed (simp add: short_chars_def)

lemma hard_split_progress:
  assumes "short_chars content" "0 < m" "s < length content" "is_char_boundary content s"
  defines "e \<equiv> prev_char_boundary content (min (s + m * 4) (length content))"
  shows "s < e \<and> e \<le> length content \<and> e \<le> s + m * 4 \<and> is_char_boundary content e"
proof -
  have "s < e"
  proof (cases "s + m * 4 < length content")
    case False
    then have "e = length content" unfolding e_def
      by (simp add: min_def prev_char_boundary_fix is_char_boundary_def)
    then show ?thesis using assms(3) by simp
  next
    case True
    then have "s + 1 + 4 \<le> length content" using assms(2) by linarith
    then obtain j where j: "s + 1 \<le> j" "j < s + 1 + 4" "\<not> is_cont (content ! j)"
      using assms(1) unfolding short_chars_def by blast
    then have "j \<le> s + m * 4" using assms(2) by linarith
    then have "j \<le> e" unfolding e_def using True j(3)
      by (intro prev_char_boundary_ge) (auto simp: is_char_boundary_def)
    then show ?thesis using j(1) by simp
  qed
  moreover have "e \<le> min (s + m * 4) (length content)" unfolding e_def by (rule prev_char_boundary_le)
  ultimately show ?thesis using prev_char_boundary_is by (simp add: e_def)
qed

definition tiles :: "nat \<Rightarrow> string \<Rightarrow> raw_chunk list \<Rightarrow> bool" where
  "tiles start content cs \<longleftrightarrow> contents cs = content
     \<and> (\<forall>c\<in>set cs. start \<le> rc_start c \<and> rc_start c \<le> rc_end c \<and> rc_end c \<le> start + length content
          \<and> rc_content c = bytes_between content (rc_start c - start) (rc_end c - start))"

text \<open>A separator inside a text, before its end.\<close>

definition inner_sep :: "string \<Rightarrow> string \<Rightarrow> bool" where
  "inner_sep sep s \<longleftrightarrow> (\<exists>i. i + length sep < length s \<and> take (length sep) (drop i s) = sep)"

text \<open>
  What the chunker promises of a chunk: it is in the budget, or it comes from a text the separators could
  not cut any further and is at most four bytes per token long.
\<close>

definition small_piece :: "(string \<Rightarrow> nat) \<Rightarrow> nat \<Rightarrow> string list \<Rightarrow> raw_chunk \<Rightarrow> bool" where
  "small_piece tok m seps c \<longleftrightarrow>
     tok (rc_content c) \<le> m
     \<or> length (rc_content c) \<le> m * 4 \<and> list_all (\<lambda>sep. \<not> inner_sep sep (rc_content c)) seps"

lemma inner_sep_slice: "inner_sep sep (bytes_between s a b) \<Longrightarrow> inner_sep sep s"
proof -
  assume "inner_sep sep (bytes_between s a b)"
  then obtain i where i: "i + length sep < length (bytes_between s a b)" "take (length sep) (drop i (bytes_between s a b)) = sep"
    by (auto simp: inner_sep_def)
  have "a + i + length sep < length s" using i(1) by (auto simp: bytes_between_def)
  moreover have "take (length sep) (drop (a + i) s) = sep"
    using i by (simp add: bytes_between_def drop_take take_take min_def add.commute split: if_splits)
  ultimately show ?thesis unfolding inner_sep_def by blast
qed

lemma inner_sep_middle: "inner_sep sep q \<Longrightarrow> inner_sep sep (u @ q @ v)"
  using inner_sep_slice [of sep "u @ q @ v" "length u" "length u + length q"] by (simp add: bytes_between_def)

lemma find_sub_upto:
  "sep \<noteq> [] \<Longrightarrow> take (length sep) (drop j s) = sep \<Longrightarrow> \<exists>i. find_sub sep s = Some i \<and> i \<le> j"
proof (induction sep s arbitrary: j rule: find_sub.induct)
  case (2 sep x xs)
  show ?case
  proof (cases "take (length sep) (x # xs) = sep")
    case False
    then obtain j' where j: "j = Suc j'" using "2.prems"(2) by (cases j) auto
    then have "take (length sep) (drop j' xs) = sep" using "2.prems"(2) by simp
    then obtain i where "find_sub sep xs = Some i" "i \<le> j'" using "2.IH" [OF False "2.prems"(1)] by blast
    then show ?thesis using False j by simp
  qed simp
qed simp

lemma pieces_no_inner:
  assumes "sep \<noteq> []" and "q \<in> set (pieces_with_sep sep s)"
  shows "\<not> inner_sep sep q"
proof -
  have "\<forall>q \<in> set (map (\<lambda>p. p @ sep) (butlast (split_str sep s)) @ [last (split_str sep s)]). \<not> inner_sep sep q"
    using assms(1)
  proof (induction sep s rule: split_str.induct)
    case (1 sep s)
    show ?case
    proof (cases "find_sub sep s")
      case None
      then have "\<not> inner_sep sep s" using find_sub_upto [OF "1.prems"] by (fastforce simp: inner_sep_def)
      moreover have "split_str sep s = [s]" using None by (subst split_str.simps) simp
      ultimately show ?thesis by simp
    next
      case (Some i)
      obtain b where b: "s = take i s @ sep @ b" "i \<le> length s" using find_sub_Some [OF Some] by blast
      have eq: "split_str sep s = take i s # split_str sep (drop (i + length sep) s)"
        using Some "1.prems" by (subst split_str.simps) simp
      have ne: "split_str sep t \<noteq> []" for t by (subst split_str.simps) (simp split: option.split)
      have "\<not> inner_sep sep (take i s @ sep)"
      proof
        assume "inner_sep sep (take i s @ sep)"
        then obtain j where j: "j < i" "take (length sep) (drop j (take i s @ sep)) = sep"
          using b(2) by (auto simp: inner_sep_def)
        have "take (length sep) (drop j s) = take (length sep) (drop j (take i s @ sep) @ b)"
          using j(1) b(2) by (subst b(1)) simp
        also have "\<dots> = sep" using j b(2) by simp
        finally show False using find_sub_upto [OF "1.prems"] Some j(1) by fastforce
      qed
      then show ?thesis using "1.IH" [OF "1.prems" Some "1.prems"] ne unfolding eq by simp
    qed
  qed
  then show ?thesis using assms(2) unfolding pieces_with_sep_def Let_def by (rule bspec)
qed

lemma hard_split_tiles:
  assumes "counts_tokens tok" "short_chars content" "0 < m" "is_char_boundary content s" "s \<le> length content"
    "length content - s \<le> fuel"
  shows "\<exists>cs. hard_split fuel tok m content start s = Some cs \<and> contents cs = drop s content
    \<and> (\<forall>c\<in>set cs. length (rc_content c) \<le> m * 4)
    \<and> (\<forall>c\<in>set cs. start \<le> rc_start c \<and> rc_start c \<le> rc_end c \<and> rc_end c \<le> start + length content
          \<and> rc_content c = bytes_between content (rc_start c - start) (rc_end c - start))"
  using assms(4-6)
proof (induction fuel arbitrary: s)
  case (Suc fuel)
  show ?case
  proof (cases "s < length content")
    case True
    define e where "e = prev_char_boundary content (min (s + m * 4) (length content))"
    have e: "s < e" "e \<le> length content" "e \<le> s + m * 4" "is_char_boundary content e"
      using hard_split_progress [OF assms(2,3) True Suc.prems(1)] by (simp_all add: e_def)
    have "length content - e \<le> fuel" using e(1) Suc.prems(3) True by linarith
    from Suc.IH [OF e(4,2) this] obtain cs where cs: "hard_split fuel tok m content start e = Some cs" "contents cs = drop e content"
        "\<forall>c\<in>set cs. length (rc_content c) \<le> m * 4"
        "\<forall>c\<in>set cs. start \<le> rc_start c \<and> rc_start c \<le> rc_end c \<and> rc_end c \<le> start + length content
          \<and> rc_content c = bytes_between content (rc_start c - start) (rc_end c - start)"
      by blast
    have four: "e - s \<le> m * 4" using e(3) by linarith
    have len: "length (bytes_between content s e) = e - s" using e(2) by (simp add: bytes_between_def)
    then have "0 < tok (bytes_between content s e)" using assms(1) e(1) unfolding counts_tokens_def
      by (metis diff_is_0_eq leD list.size(3) not_gr_zero)
    then show ?thesis using True cs len e four bytes_between_drop [of s e content]
      by (simp add: Let_def e_def [symmetric] plain_chunk_def)
  qed (simp add: Suc.prems)
qed simp

lemma concat_pieces: "concat (pieces_with_sep sep s) = s"
proof -
  have ne: "split_str sep s \<noteq> []" for sep s by (subst split_str.simps) (simp split: option.splits)
  have "concat (map (\<lambda>p. p @ sep) (butlast (split_str sep s))) @ last (split_str sep s) = s"
  proof (induction sep s rule: split_str.induct)
    case (1 sep s)
    show ?case
    proof (cases "sep = [] \<or> find_sub sep s = None")
      case True
      then show ?thesis by (subst (1 2) split_str.simps) auto
    next
      case False
      then obtain i where i: "sep \<noteq> []" "find_sub sep s = Some i" by auto
      obtain b where b: "s = take i s @ sep @ b" "i \<le> length s" using find_sub_Some [OF i(2)] by blast
      then have tl: "drop (i + length sep) s = b" by (metis append_eq_conv_conj drop_drop length_take min.absorb2 add.commute)
      have "split_str sep s = take i s # split_str sep b" using i tl by (subst split_str.simps) simp
      then have "concat (map (\<lambda>p. p @ sep) (butlast (split_str sep s))) @ last (split_str sep s)
          = take i s @ sep @ concat (map (\<lambda>p. p @ sep) (butlast (split_str sep b))) @ last (split_str sep b)"
        using ne [of sep b] \<open>split_str sep s = take i s # split_str sep b\<close> by (cases "split_str sep b") simp_all
      also have "\<dots> = s" using "1.IH" [OF i] b(1) unfolding tl by simp
      finally show ?thesis .
    qed
  qed
  then show ?thesis by (simp add: pieces_with_sep_def Let_def)
qed

lemma concat_options_Some:
  assumes "\<And>x. x \<in> set xs \<Longrightarrow> f x \<noteq> None"
  shows "concat_options (map f xs) = Some (concat (map (the \<circ> f) xs))"
  using assms by (induction xs) fastforce+

lemma tiles_concat:
  assumes "\<And>i. i < length ps \<Longrightarrow> tiles (start + length (concat (take i ps))) (ps ! i) (g i)"
  shows "tiles start (concat ps) (concat (map g [0..<length ps]))"
  using assms
proof (induction ps arbitrary: g rule: rev_induct)
  case Nil
  then show ?case by (simp add: tiles_def)
next
  case (snoc p ps)
  have "tiles (start + length (concat (take i ps))) (ps ! i) (g i)" if "i < length ps" for i
    using snoc.prems [of i] that by (simp add: nth_append)
  from snoc.IH [OF this] have IH: "tiles start (concat ps) (concat (map g [0..<length ps]))" by simp
  have last: "tiles (start + length (concat ps)) p (g (length ps))" using snoc.prems [of "length ps"] by simp
  have left: "bytes_between (concat ps @ p) a b = bytes_between (concat ps) a b" if "b \<le> length (concat ps)" for a b
    using that by (simp add: bytes_between_def del: length_concat)
  have right: "bytes_between (concat ps @ p) (length (concat ps) + a) (length (concat ps) + b) = bytes_between p a b" for a b
    by (simp add: bytes_between_def del: length_concat)
  have c1: "contents (concat (map g [0..<length ps])) = concat ps" using IH by (simp add: tiles_def)
  have c2: "contents (g (length ps)) = p" using last by (simp add: tiles_def)
  have "contents (concat (map g [0..<length (ps @ [p])])) = concat (ps @ [p])" using c1 c2 by simp
  moreover have "start \<le> rc_start c \<and> rc_start c \<le> rc_end c \<and> rc_end c \<le> start + length (concat (ps @ [p]))
      \<and> rc_content c = bytes_between (concat (ps @ [p])) (rc_start c - start) (rc_end c - start)"
    if "c \<in> set (concat (map g [0..<length (ps @ [p])]))" for c
  proof -
    have "c \<in> set (concat (map g [0..<length ps])) \<or> c \<in> set (g (length ps))" using that by auto
    then show ?thesis
    proof
      assume c: "c \<in> set (concat (map g [0..<length ps]))"
      have f: "start \<le> rc_start c" "rc_start c \<le> rc_end c" "rc_end c \<le> start + length (concat ps)"
          "rc_content c = bytes_between (concat ps) (rc_start c - start) (rc_end c - start)"
        using IH c unfolding tiles_def by blast+
      have "rc_end c - start \<le> length (concat ps)" using f(3) by linarith
      from left [OF this] show ?thesis using f by (simp del: length_concat)
    next
      assume c: "c \<in> set (g (length ps))"
      let ?n = "length (concat ps)"
      have f: "start + ?n \<le> rc_start c" "rc_start c \<le> rc_end c" "rc_end c \<le> start + ?n + length p"
          "rc_content c = bytes_between p (rc_start c - (start + ?n)) (rc_end c - (start + ?n))"
        using last c unfolding tiles_def by blast+
      have eq: "rc_start c - start = ?n + (rc_start c - (start + ?n))" "rc_end c - start = ?n + (rc_end c - (start + ?n))"
        using f(1,2) by linarith+
      have "rc_content c = bytes_between (concat (ps @ [p])) (rc_start c - start) (rc_end c - start)"
        unfolding f(4) eq using right by simp
      then show ?thesis using f(1-3) by simp
    qed
  qed
  ultimately show ?case unfolding tiles_def by blast
qed

lemma chunk_recursive_tiles:
  assumes "counts_tokens tok" "0 < m" "short_chars content"
    and "list_all (\<lambda>sep. sep \<noteq> []) seps" "list_all (\<lambda>sep. \<not> inner_sep sep content) before"
  shows "\<exists>cs. chunk_recursive seps tok m content start = Some cs \<and> tiles start content cs
    \<and> (\<forall>c\<in>set cs. small_piece tok m (before @ seps) c)"
  using assms(3-5)
proof (induction seps arbitrary: content start before)
  case Nil
  show ?case
  proof (cases "tok content \<le> m")
    case True
    then show ?thesis using assms(1)
      by (auto simp: counts_tokens_def tiles_def plain_chunk_def bytes_between_def small_piece_def)
  next
    case False
    from hard_split_tiles [OF assms(1) Nil(1) assms(2), of 0 "length content" start] obtain cs where
      cs: "hard_split (length content) tok m content start 0 = Some cs" "tiles start content cs"
        "\<forall>c\<in>set cs. length (rc_content c) \<le> m * 4"
      by (auto simp: is_char_boundary_def tiles_def)
    have "small_piece tok m before c" if "c \<in> set cs" for c
    proof -
      have "rc_content c = bytes_between content (rc_start c - start) (rc_end c - start)"
        using cs(2) that by (simp add: tiles_def)
      then have "list_all (\<lambda>sep. \<not> inner_sep sep (rc_content c)) before"
        using Nil(3) inner_sep_slice unfolding list_all_iff by metis
      then show ?thesis using cs(3) that by (simp add: small_piece_def)
    qed
    then show ?thesis using cs(1,2) False by simp
  qed
next
  case (Cons sep seps)
  show ?case
  proof (cases "tok content \<le> m")
    case True
    then show ?thesis using assms(1)
      by (auto simp: counts_tokens_def tiles_def plain_chunk_def bytes_between_def small_piece_def)
  next
    case False
    define ps where "ps = pieces_with_sep sep content"
    define f where "f i = chunk_recursive seps tok m (ps ! i) (start + length (concat (take i ps)))" for i
    have concat: "concat ps = content" by (simp add: ps_def concat_pieces)
    have cut: "content = concat (take i ps) @ ps ! i @ concat (drop (Suc i) ps)" if "i < length ps" for i
    proof -
      have "ps = take i ps @ ps ! i # drop (Suc i) ps" using that by (simp add: id_take_nth_drop [symmetric])
      then show ?thesis by (metis concat concat.simps(2) concat_append)
    qed
    have piece: "short_chars (ps ! i)" if "i < length ps" for i
      using cut [OF that] Cons.prems(1) short_chars_append by metis
    have inner: "list_all (\<lambda>sep. \<not> inner_sep sep (ps ! i)) (before @ [sep])" if "i < length ps" for i
    proof -
      have "\<not> inner_sep sep' (ps ! i)" if "sep' \<in> set before" for sep'
        using Cons.prems(3) that inner_sep_middle cut [OF \<open>i < length ps\<close>] unfolding list_all_iff by metis
      moreover have "\<not> inner_sep sep (ps ! i)"
        using pieces_no_inner [of sep "ps ! i" content] Cons.prems(2) that by (simp add: ps_def)
      ultimately show ?thesis by (simp add: list_all_iff)
    qed
    have each: "\<exists>cs. f i = Some cs \<and> tiles (start + length (concat (take i ps))) (ps ! i) cs
        \<and> (\<forall>c\<in>set cs. small_piece tok m (before @ sep # seps) c)" if "i < length ps" for i
      using Cons.IH [OF piece [OF that] _ inner [OF that]] Cons.prems(2) unfolding f_def by simp
    have f: "f = (\<lambda>i. chunk_recursive seps tok m (ps ! i) (start + length (concat (take i ps))))"
      by (simp add: f_def fun_eq_iff)
    have "chunk_recursive (sep # seps) tok m content start = concat_options (map f [0..<length ps])"
      using False unfolding f by (simp add: piece_offsets_def ps_def [symmetric] comp_def)
    also have "\<dots> = Some (concat (map (the \<circ> f) [0..<length ps]))"
      using each by (intro concat_options_Some) fastforce
    finally have run: "chunk_recursive (sep # seps) tok m content start = Some (concat (map (the \<circ> f) [0..<length ps]))" .
    have "tiles start (concat ps) (concat (map (the \<circ> f) [0..<length ps]))"
      using each by (intro tiles_concat) fastforce
    moreover have "\<forall>c\<in>set (concat (map (the \<circ> f) [0..<length ps])). small_piece tok m (before @ sep # seps) c"
      using each by fastforce
    ultimately show ?thesis using run concat by auto
  qed
qed

text \<open>
  C38: The recursive splitter returns for every valid text when the budget is positive and the token counter
  is 0 on the empty text only. Its chunks are
  the text cut into pieces, each the slice its offsets name. A chunk over the token budget is one no
  separator could cut: it holds no blank line, newline, full stop with a space or space before
  its end, and has at most four bytes per token of the budget.
\<close>

theorem recursive_partition:
  assumes "counts_tokens tok" "0 < max_tokens" "valid_utf8 content"
  shows "\<exists>cs. chunk_sized tok max_tokens content = Some cs \<and> contents cs = content
    \<and> list_all (is_slice_of content) cs
    \<and> list_all (\<lambda>c. max_tokens < tok (rc_content c) \<longrightarrow> length (rc_content c) \<le> max_tokens * 4
         \<and> list_all (\<lambda>sep. \<not> inner_sep sep (rc_content c)) default_separators) cs"
proof -
  have seps: "list_all (\<lambda>sep. sep \<noteq> []) default_separators" by (simp add: default_separators_def)
  obtain cs where cs: "chunk_sized tok max_tokens content = Some cs" "tiles 0 content cs"
      "\<forall>c\<in>set cs. small_piece tok max_tokens default_separators c"
    using chunk_recursive_tiles [OF assms(1,2) valid_utf8_short [OF assms(3)] seps, of "[]" 0]
    by (auto simp: chunk_sized_def)
  have "is_slice_of content c" if "c \<in> set cs" for c
    using cs(2) that unfolding tiles_def is_slice_of_def by simp
  then show ?thesis using cs by (auto simp: tiles_def list_all_iff small_piece_def)
qed

text \<open>Without a budget the hard split makes no progress: no number of turns ends it.\<close>

theorem hard_split_diverges:
  assumes "s < length content" "is_char_boundary content s"
  shows "hard_split fuel tok 0 content start s = None"
proof (induction fuel)
  case (Suc fuel)
  have "prev_char_boundary content (min (s + 0 * 4) (length content)) = s"
    using assms prev_char_boundary_fix by simp
  then show ?case using assms(1) Suc by (simp add: Let_def)
qed (simp add: assms)

section \<open>Paragraphs\<close>

text \<open>White space of \<open>u8::is_ascii_whitespace\<close>, and the spans of the words of a text.\<close>

definition is_ascii_ws :: "char \<Rightarrow> bool" where
  "is_ascii_ws c \<longleftrightarrow> (let n = byte c in n = 32 \<or> n = 9 \<or> n = 10 \<or> n = 12 \<or> n = 13)"

function word_spans :: "string \<Rightarrow> nat \<Rightarrow> (nat \<times> nat) list" where
  "word_spans s pos =
     (let p = pos + length (takeWhile is_ascii_ws (drop pos s))
      in if length s \<le> p then []
         else let q = p + length (takeWhile (\<lambda>c. \<not> is_ascii_ws c) (drop p s)) in (p, q) # word_spans s q)"
  by pat_completeness auto
termination
proof (relation "measure (\<lambda>(s, pos). length s - pos)")
  fix s :: string and pos p q
  assume a: "p = pos + length (takeWhile is_ascii_ws (drop pos s))" "\<not> length s \<le> p"
    "q = p + length (takeWhile (\<lambda>c. \<not> is_ascii_ws c) (drop p s))"
  have "drop p s \<noteq> []" using a(2) by simp
  moreover have "drop p s = dropWhile is_ascii_ws (drop pos s)"
    unfolding a(1) by (metis add.commute drop_drop dropWhile_eq_drop)
  ultimately have "\<not> is_ascii_ws (hd (drop p s))" by (metis hd_dropWhile)
  then have "p < q" using \<open>drop p s \<noteq> []\<close> a(3) by (cases "drop p s") simp_all
  then show "((s, q), s, pos) \<in> measure (\<lambda>(s, pos). length s - pos)" using a(1,2) by simp
qed simp

declare word_spans.simps [simp del]

definition paragraph_chunk :: "string \<Rightarrow> nat \<Rightarrow> nat \<Rightarrow> raw_chunk option" where
  "paragraph_chunk content s e =
     map_option (\<lambda>piece. \<lparr>rc_start = s, rc_end = e, rc_line_start = 0, rc_line_end = 0, rc_content = piece,
                          rc_language = None, rc_type = Some ''paragraph''\<rparr>) (str_slice content s e)"

text \<open>The groups of words: the group's start and end, and the chunks so far.\<close>

fun group_words ::
  "(string \<Rightarrow> nat) \<Rightarrow> string \<Rightarrow> nat \<Rightarrow> nat \<Rightarrow> (nat \<times> nat) list \<Rightarrow> nat \<Rightarrow> nat \<Rightarrow> (nat \<times> raw_chunk list) option" where
  "group_words tok content start m [] gs ge = Some (gs, [])"
| "group_words tok content start m ((a, b) # spans) gs ge =
     (let cand_end = start + b
      in case str_slice content gs cand_end of
           None \<Rightarrow> None
         | Some cand \<Rightarrow>
             (if m < tok cand \<and> gs + 1 < cand_end
              then let cut = prev_char_boundary content ge
                   in if gs < cut
                      then case paragraph_chunk content gs cut of
                             None \<Rightarrow> None
                           | Some c \<Rightarrow> map_option (\<lambda>(g, cs). (g, c # cs)) (group_words tok content start m spans ge cand_end)
                      else group_words tok content start m spans ge cand_end
              else group_words tok content start m spans gs cand_end))"

text \<open>
  The bytes of the white space character (\<open>char::is_whitespace\<close>) a text starts with, 0 when it starts
  with another character: U+0009 to U+000D and the space, U+0085 and U+00A0, U+1680, U+2000 to
  U+200A, U+2028, U+2029, U+202F, U+205F and U+3000.
\<close>

definition ws_width :: "string \<Rightarrow> nat" where
  "ws_width s =
     (if s \<noteq> [] \<and> is_ws (hd s) then 1
      else if map byte (take 2 s) \<in> {[0xC2, 0x85], [0xC2, 0xA0]} then 2
      else (case map byte (take 3 s) of
              [a, b, c] \<Rightarrow>
                if a = 0xE1 \<and> b = 0x9A \<and> c = 0x80
                  \<or> a = 0xE2 \<and> b = 0x80 \<and> (0x80 \<le> c \<and> c \<le> 0x8A \<or> c = 0xA8 \<or> c = 0xA9 \<or> c = 0xAF)
                  \<or> a = 0xE2 \<and> b = 0x81 \<and> c = 0x9F \<or> a = 0xE3 \<and> b = 0x80 \<and> c = 0x80
                then 3 else 0
            | _ \<Rightarrow> 0))"

text \<open>
  \<open>trim_end().rfind(char::is_whitespace)\<close>: the start of the last white space that another character
  follows. \<open>w\<close> is the last white space seen, \<open>r\<close> the last one before a character seen.
\<close>

lemma ws_width_length: "ws_width s \<le> length s"
proof -
  have "map byte (take 3 s) = [a, b, c] \<Longrightarrow> 3 \<le> length s" for a b c
    by (drule arg_cong [of _ _ length]) simp
  moreover have "map byte (take 2 s) = [a, b] \<Longrightarrow> 2 \<le> length s" for a b
    by (drule arg_cong [of _ _ length]) simp
  ultimately show ?thesis by (auto simp: ws_width_def Suc_le_eq split: list.split)
qed

function last_ws_scan :: "string \<Rightarrow> nat \<Rightarrow> nat option \<Rightarrow> nat option \<Rightarrow> nat option" where
  "last_ws_scan s pos w r =
     (if s = [] then r
      else if ws_width s = 0 then last_ws_scan (tl s) (pos + 1) w w
      else last_ws_scan (drop (ws_width s) s) (pos + ws_width s) (Some pos) r)"
  by pat_completeness auto
termination by (relation "measure (\<lambda>(s, _). length s)") auto

declare last_ws_scan.simps [simp del]

text \<open>The code adds one byte to the position, whatever the width of the white space.\<close>

definition last_ws_end :: "string \<Rightarrow> nat" where
  "last_ws_end seg = (case last_ws_scan seg 0 None None of Some i \<Rightarrow> i + 1 | None \<Rightarrow> 0)"

text \<open>Shrinking the remainder: cut after the last white space until the rest fits.\<close>

fun shrink_tail :: "nat \<Rightarrow> (string \<Rightarrow> nat) \<Rightarrow> nat \<Rightarrow> string \<Rightarrow> nat \<Rightarrow> nat \<Rightarrow> nat option" where
  "shrink_tail 0 tok m content gs fit = Some fit"
| "shrink_tail (Suc fuel) tok m content gs fit =
     (if gs < fit
      then (case str_slice content gs fit of
              None \<Rightarrow> None
            | Some seg \<Rightarrow>
                if m < tok seg
                then let trimmed = last_ws_end seg
                     in if trimmed = 0 then Some fit else shrink_tail fuel tok m content gs (gs + trimmed)
                else Some fit)
      else Some fit)"

definition push_word_groups :: "(string \<Rightarrow> nat) \<Rightarrow> string \<Rightarrow> nat \<Rightarrow> nat \<Rightarrow> nat \<Rightarrow> raw_chunk list option" where
  "push_word_groups tok content start stop m =
     (case str_slice content start stop of
        None \<Rightarrow> None
      | Some segment \<Rightarrow>
          (case group_words tok content start m (word_spans segment 0) start start of
             None \<Rightarrow> None
           | Some (gs, cs) \<Rightarrow>
               let tail_end = prev_char_boundary content stop
               in if gs < tail_end \<and> 0 < tok (bytes_between content gs tail_end)
                  then (case shrink_tail (length content) tok m content gs tail_end of
                          None \<Rightarrow> None
                        | Some fit \<Rightarrow>
                            let rest = (if fit < tail_end \<and> 0 < tok (bytes_between content fit tail_end)
                                        then map_option (\<lambda>c. [c]) (paragraph_chunk content fit tail_end) else Some [])
                            in (case (paragraph_chunk content gs fit, rest) of
                                  (Some c, Some r) \<Rightarrow> Some (cs @ c # r)
                                | _ \<Rightarrow> None))
                  else Some cs))"

text \<open>Emitting a slice without one paragraph separator at its end.\<close>

definition push_slice :: "(string \<Rightarrow> nat) \<Rightarrow> nat \<Rightarrow> nat \<Rightarrow> nat \<Rightarrow> string \<Rightarrow> raw_chunk list option" where
  "push_slice tok m s e src =
     (let e0 = min e (length src);
          e1 = (if 2 \<le> e0 then map_option (\<lambda>t. if t = [nl, nl] then e0 - 2 else e0) (str_slice src (e0 - 2) e0) else Some e0)
      in case e1 of
           None \<Rightarrow> None
         | Some stop \<Rightarrow>
             (let cut = prev_char_boundary src stop
              in if cut \<le> s then Some []
                 else case str_slice src s cut of
                        None \<Rightarrow> None
                      | Some piece \<Rightarrow>
                          if m < tok piece then push_word_groups tok src s cut m
                          else if tok piece = 0 then Some []
                          else map_option (\<lambda>c. [c]) (paragraph_chunk src s cut)))"

fun word_bytes :: "string \<Rightarrow> string list \<Rightarrow> nat \<Rightarrow> nat \<Rightarrow> nat" where
  "word_bytes prefix [] n off = off"
| "word_bytes prefix (w # ws) n off =
     (if n = 0 then off
      else word_bytes prefix ws (n - 1) ((case find_sub w (drop off prefix) of Some p \<Rightarrow> off + p | None \<Rightarrow> off) + length w))"

definition estimate_overlap_bytes :: "string \<Rightarrow> nat \<Rightarrow> nat \<Rightarrow> nat option" where
  "estimate_overlap_bytes content chunk_start overlap =
     (if overlap = 0 then Some 0
      else map_option (\<lambda>prefix. let ws = split_whitespace prefix in word_bytes prefix ws (length ws - overlap) 0)
             (str_slice content 0 chunk_start))"

text \<open>
  One paragraph. The state holds \<open>chunk_start\<close>, \<open>chunk_end\<close>, the tokens charged and the cursor;
  the step returns the chunks it emits and the next state.
\<close>

type_synonym para_state = "nat \<times> nat \<times> nat \<times> nat"

definition paragraph_step ::
  "(string \<Rightarrow> nat) \<Rightarrow> nat \<Rightarrow> nat \<Rightarrow> string \<Rightarrow> string \<Rightarrow> para_state \<Rightarrow> (raw_chunk list \<times> para_state) option" where
  "paragraph_step tok m ov content para st =
     (let cs = fst st; ce = fst (snd st); n = fst (snd (snd st)); cursor = snd (snd (snd st));
          p0 = min cursor (length content);
          p1 = min (p0 + length para) (length content);
          cursor' = min (p1 + 2) (length content);
          t = tok para; para_len = length para + 2
      in if m < t
         then (case (if cs < ce \<and> 0 < n then push_slice tok m cs ce content else Some []) of
                 None \<Rightarrow> None
               | Some out \<Rightarrow>
                   map_option (\<lambda>out'. (out @ out', (cursor', cursor', 0, cursor'))) (push_word_groups tok content p0 p1 m))
         else if m < n + t \<and> cs < ce
         then (case push_slice tok m cs ce content of
                 None \<Rightarrow> None
               | Some out \<Rightarrow>
                   map_option
                     (\<lambda>bk. (out, (ce - bk, ce - bk + para_len, ov + min 1 (m + 1) + (t + 1), cursor')))
                     (estimate_overlap_bytes content ce ov))
         else Some ([], (cs, ce + para_len, n + (t + 1), cursor')))"

primrec paragraph_scan ::
  "(string \<Rightarrow> nat) \<Rightarrow> nat \<Rightarrow> nat \<Rightarrow> string \<Rightarrow> string list \<Rightarrow> para_state \<Rightarrow> raw_chunk list option" where
  "paragraph_scan tok m ov content [] st =
     (if fst st < fst (snd st) then push_slice tok m (fst st) (length content) content else Some [])"
| "paragraph_scan tok m ov content (para # paras) st =
     (case paragraph_step tok m ov content para st of
        None \<Rightarrow> None
      | Some (out, st') \<Rightarrow> map_option ((@) out) (paragraph_scan tok m ov content paras st'))"

definition chunk_text :: "(string \<Rightarrow> nat) \<Rightarrow> nat \<Rightarrow> nat \<Rightarrow> string \<Rightarrow> raw_chunk list option" where
  "chunk_text tok max_tokens overlap content =
     paragraph_scan tok max_tokens overlap content (split_str [nl, nl] content) (0, 0, 0, 0)"

text \<open>
  C39: A text of one paragraph (no empty line) and more than two bytes that is within the token budget and whose last but one byte is
  inside a character, such as one that ends in an accented letter and a newline, makes the
  chunker panic.
\<close>

theorem paragraph_chunker_panics:
  assumes "2 < length content" "find_sub [nl, nl] content = None" "tok content \<le> max_tokens"
    and "is_cont (content ! (length content - 2))"
  shows "chunk_text tok max_tokens overlap content = None"
proof -
  have "split_str [nl, nl] content = [content]" using assms(2) by (subst split_str.simps) simp
  moreover have "\<not> is_char_boundary content (length content - 2)"
    using assms(1,4) by (auto simp: is_char_boundary_def)
  ultimately show ?thesis using assms(1,3)
    by (simp add: chunk_text_def paragraph_step_def Let_def push_slice_def str_slice_def)
qed

text \<open>
  The other cut inside a character: the remainder of a paragraph over the budget is cut one byte after
  the start of the last white space, which for a no-break space (0xC2 0xA0) is inside it.
\<close>

definition nbsp_text :: string where
  "nbsp_text = [CHR ''a'', CHR 0xC2, CHR 0xA0, CHR ''b'']"

theorem wide_space_panics:
  assumes "max_tokens < tok nbsp_text"
  shows "chunk_text tok max_tokens overlap nbsp_text = None"
proof -
  have split: "split_str [nl, nl] nbsp_text = [nbsp_text]" by code_simp
  have spans: "word_spans nbsp_text 0 = [(0, 4)]" by code_simp
  have cut: "prev_char_boundary nbsp_text 4 = 4" "prev_char_boundary nbsp_text 0 = 0" "length nbsp_text = 4" by code_simp+
  have slices: "str_slice nbsp_text 0 4 = Some nbsp_text" "bytes_between nbsp_text 0 4 = nbsp_text" "str_slice nbsp_text 0 2 = None"
    by code_simp+
  have ws: "last_ws_end nbsp_text = 2" by code_simp
  have "shrink_tail (Suc 2) tok max_tokens nbsp_text 0 2 = None" by (subst shrink_tail.simps(2)) (simp add: slices)
  then have "shrink_tail (Suc 3) tok max_tokens nbsp_text 0 4 = None"
    using assms by (subst shrink_tail.simps(2)) (simp add: slices ws flip: numeral_2_eq_2)
  then have four: "shrink_tail 4 tok max_tokens nbsp_text 0 4 = None" by simp
  show ?thesis
    using assms by (simp add: chunk_text_def split paragraph_step_def Let_def cut push_word_groups_def slices spans four)
qed

lemma wide_space_panics_witness: "chunk_text length 2 0 nbsp_text = None"
  by (rule wide_space_panics) (simp add: nbsp_text_def)

section \<open>Paragraph chunks\<close>

lemma last_ws_scan_before:
  "last_ws_scan s pos w r = Some i \<Longrightarrow> (\<forall>j. w = Some j \<longrightarrow> j < pos) \<Longrightarrow> r = Some i \<or> i + 1 < pos + length s"
proof (induction s pos w r rule: last_ws_scan.induct)
  case (1 s pos w r)
  show ?case
  proof (cases "s = [] \<or> ws_width s = 0")
    case True
    show ?thesis
    proof (cases "s = []")
      case False
      then have "last_ws_scan (tl s) (pos + 1) w w = Some i" using True "1.prems"(1) by (subst (asm) last_ws_scan.simps) simp
      moreover have "\<forall>j. w = Some j \<longrightarrow> j < pos + 1" using "1.prems"(2) by auto
      ultimately have "w = Some i \<or> i + 1 < pos + 1 + length (tl s)" using "1.IH"(1) [OF False _ _ _] False True by simp
      then show ?thesis using "1.prems"(2) False by (cases s) auto
    qed (use "1.prems"(1) in \<open>simp add: last_ws_scan.simps [of "[]"]\<close>)
  next
    case False
    then have "last_ws_scan (drop (ws_width s) s) (pos + ws_width s) (Some pos) r = Some i"
      using "1.prems"(1) by (subst (asm) last_ws_scan.simps) simp
    then have "r = Some i \<or> i + 1 < pos + ws_width s + length (drop (ws_width s) s)" using "1.IH"(2) False by simp
    then show ?thesis using ws_width_length [of s] by simp
  qed
qed

lemma last_ws_end_less: "seg \<noteq> [] \<Longrightarrow> last_ws_end seg < length seg"
  using last_ws_scan_before [of seg 0 None None] by (auto simp: last_ws_end_def split: option.split)

lemma shrink_turn:
  assumes "str_slice content gs fit = Some seg" "gs < fit"
  shows "gs + last_ws_end seg < fit"
proof -
  have "length seg = fit - gs" using assms(1) by (auto simp: str_slice_def is_char_boundary_def split: if_splits)
  moreover from this have "seg \<noteq> []" using assms(2) by auto
  ultimately show ?thesis using last_ws_end_less [of seg] assms(2) by linarith
qed

text \<open>One turn of the shrinking loop per byte is enough fuel.\<close>

lemma shrink_tail_enough: "fit \<le> fuel \<Longrightarrow> shrink_tail (Suc fuel) tok m content gs fit = shrink_tail fuel tok m content gs fit"
proof (induction fuel arbitrary: fit)
  case (Suc fuel)
  show ?case
  proof (cases "gs < fit \<and> str_slice content gs fit \<noteq> None")
    case True
    then obtain seg where seg: "str_slice content gs fit = Some seg" by auto
    have "gs + last_ws_end seg \<le> fuel" using shrink_turn [OF seg] True Suc.prems by linarith
    note IH = Suc.IH [OF this]
    show ?thesis using True seg by (subst (1 2) shrink_tail.simps(2)) (simp add: Let_def IH del: shrink_tail.simps(2))
  next
    case False
    then show ?thesis by auto
  qed
qed auto

lemma shrink_tail_bounds:
  "shrink_tail fuel tok m content gs fit = Some e \<Longrightarrow> gs \<le> fit \<Longrightarrow> gs \<le> e \<and> e \<le> fit"
proof (induction fuel arbitrary: fit)
  case (Suc fuel)
  show ?case
  proof (cases "e = fit")
    case False
    then obtain seg where seg: "gs < fit" "str_slice content gs fit = Some seg"
        "shrink_tail fuel tok m content gs (gs + last_ws_end seg) = Some e"
      using Suc.prems(1) by (auto simp: Let_def split: if_splits option.splits)
    then show ?thesis using Suc.IH [OF seg(3)] shrink_turn [OF seg(2,1)] by simp
  qed (use Suc.prems in simp)
qed simp

lemma paragraph_chunk_slice: "paragraph_chunk content s e = Some c \<Longrightarrow> is_slice_of content c"
  by (auto simp: paragraph_chunk_def str_slice_def is_slice_of_def bytes_between_def split: if_splits)

lemma group_words_slices:
  "group_words tok content start m spans gs ge = Some (g, cs) \<Longrightarrow> list_all (is_slice_of content) cs"
proof (induction spans arbitrary: gs ge cs)
  case (Cons sp spans)
  obtain a b where sp: "sp = (a, b)" by (cases sp)
  show ?case using Cons
    by (auto simp: sp Let_def paragraph_chunk_slice split: option.splits if_splits)
qed simp

lemma push_word_groups_slices: "push_word_groups tok content start stop m = Some cs \<Longrightarrow> list_all (is_slice_of content) cs"
  using group_words_slices
  by (fastforce simp: push_word_groups_def Let_def paragraph_chunk_slice split: option.splits if_splits prod.splits)

lemma push_slice_slices: "push_slice tok m s e content = Some cs \<Longrightarrow> list_all (is_slice_of content) cs"
  using push_word_groups_slices
  by (fastforce simp: push_slice_def Let_def paragraph_chunk_slice split: option.splits if_splits)

lemma paragraph_step_slices:
  "paragraph_step tok m ov content para st = Some (out, st') \<Longrightarrow> list_all (is_slice_of content) out"
  using push_word_groups_slices push_slice_slices
  by (fastforce simp: paragraph_step_def Let_def split: option.splits if_splits)

text \<open>Whatever the paragraph chunker returns are slices of the text.\<close>

theorem paragraph_slices:
  assumes "chunk_text tok max_tokens overlap content = Some cs"
  shows "list_all (is_slice_of content) cs"
proof -
  have "paragraph_scan tok max_tokens overlap content paras st = Some cs \<Longrightarrow> list_all (is_slice_of content) cs" for paras st cs
  proof (induction paras arbitrary: st cs)
    case (Cons para paras)
    from Cons.prems obtain out st' cs' where s: "paragraph_step tok max_tokens overlap content para st = Some (out, st')"
        "paragraph_scan tok max_tokens overlap content paras st' = Some cs'" "cs = out @ cs'"
      by (auto split: option.splits prod.splits)
    then show ?case using paragraph_step_slices [OF s(1)] Cons.IH [OF s(2)] by simp
  qed (auto simp: push_slice_slices split: if_splits)
  then show ?thesis using assms by (auto simp: chunk_text_def)
qed

lemma ascii_boundary: "is_ascii s \<Longrightarrow> i \<le> length s \<Longrightarrow> is_char_boundary s i"
proof -
  assume a: "is_ascii s" "i \<le> length s"
  have "\<not> is_cont (s ! i)" if "i < length s"
    using a(1) that unfolding is_ascii_def list_all_length is_cont_def by (meson leD)
  then show ?thesis using a(2) by (auto simp: is_char_boundary_def)
qed

lemma ascii_prev: "is_ascii s \<Longrightarrow> prev_char_boundary s i = min i (length s)"
proof (cases "i \<le> length s")
  case False
  assume a: "is_ascii s"
  then have "length s \<le> prev_char_boundary s i" using False by (intro prev_char_boundary_ge ascii_boundary) simp_all
  then show ?thesis using prev_char_boundary_length [of s i] False by simp
qed (simp add: prev_char_boundary_fix ascii_boundary)

lemma ascii_slice: "is_ascii s \<Longrightarrow> a \<le> b \<Longrightarrow> b \<le> length s \<Longrightarrow> str_slice s a b = Some (bytes_between s a b)"
  by (simp add: str_slice_def ascii_boundary bytes_between_def)

lemma ascii_chunk: "is_ascii s \<Longrightarrow> a \<le> b \<Longrightarrow> b \<le> length s \<Longrightarrow> \<exists>c. paragraph_chunk s a b = Some c"
  by (simp add: paragraph_chunk_def ascii_slice)

lemma word_spans_ordered:
  "pos \<le> length s \<Longrightarrow> sorted (pos # map snd (word_spans s pos)) \<and> (\<forall>(a, b)\<in>set (word_spans s pos). b \<le> length s)"
proof (induction s pos rule: word_spans.induct)
  case (1 s pos)
  let ?p = "pos + length (takeWhile is_ascii_ws (drop pos s))"
  let ?q = "?p + length (takeWhile (\<lambda>c. \<not> is_ascii_ws c) (drop ?p s))"
  show ?case
  proof (cases "length s \<le> ?p")
    case True
    then show ?thesis by (subst (1 2) word_spans.simps) (simp add: Let_def)
  next
    case False
    have "length (takeWhile (\<lambda>c. \<not> is_ascii_ws c) (drop ?p s)) \<le> length (drop ?p s)" by (rule length_takeWhile_le)
    then have q: "?q \<le> length s" using False by simp
    have "word_spans s pos = (?p, ?q) # word_spans s ?q" using False by (subst word_spans.simps) (simp add: Let_def)
    then show ?thesis using "1.IH" [OF refl _ refl] False q by (auto simp: Let_def)
  qed
qed

lemma ascii_group_words:
  assumes "is_ascii content" "start + len \<le> length content"
    and "sorted ((ge - start) # map snd spans)" "\<forall>(a, b)\<in>set spans. b \<le> len" "start \<le> ge" "gs \<le> ge" "ge \<le> start + len"
  shows "\<exists>g cs. group_words tok content start m spans gs ge = Some (g, cs) \<and> g \<le> start + len"
  using assms(3-7)
proof (induction spans arbitrary: gs ge)
  case (Cons sp spans)
  obtain a b where sp: "sp = (a, b)" by (cases sp)
  have b: "ge \<le> start + b" "b \<le> len" using Cons.prems by (auto simp: sp)
  have srt: "sorted ((start + b - start) # map snd spans)" using Cons.prems(1) by (simp add: sp)
  have ge: "ge \<le> length content" using Cons.prems(5) assms(2) by simp
  have IH: "\<exists>g cs. group_words tok content start m spans x (start + b) = Some (g, cs) \<and> g \<le> start + len" if "x \<le> start + b" for x
    using Cons.IH [OF srt _ _ that] Cons.prems(2) b(2) by (simp add: sp)
  have sl: "str_slice content gs (start + b) = Some (bytes_between content gs (start + b))"
    using ascii_slice [OF assms(1)] Cons.prems(4) b assms(2) by simp
  obtain c where c: "paragraph_chunk content gs ge = Some c" using ascii_chunk [OF assms(1) Cons.prems(4) ge] by blast
  show ?case using IH [OF b(1)] IH [of gs] Cons.prems(4) b(1) c ge
    by (auto simp: sp Let_def sl ascii_prev [OF assms(1)] min_def)
qed simp

lemma ascii_shrink_tail:
  assumes "is_ascii content" "fit \<le> length content"
  shows "\<exists>e. shrink_tail fuel tok m content gs fit = Some e"
  using assms(2)
proof (induction fuel arbitrary: fit)
  case (Suc fuel)
  show ?case
  proof (cases "gs < fit")
    case True
    then have seg: "str_slice content gs fit = Some (bytes_between content gs fit)" using ascii_slice [OF assms(1)] Suc.prems by simp
    have "gs + last_ws_end (bytes_between content gs fit) \<le> length content"
      using shrink_turn [OF seg True] Suc.prems by linarith
    from Suc.IH [OF this] show ?thesis using True seg by (simp add: Let_def)
  qed simp
qed simp

lemma ascii_push_word_groups:
  assumes "is_ascii content" "start \<le> stop" "stop \<le> length content"
  shows "push_word_groups tok content start stop m \<noteq> None"
proof -
  let ?seg = "bytes_between content start stop"
  have len: "length ?seg = stop - start" using assms(3) by (simp add: bytes_between_def)
  obtain g cs where g: "group_words tok content start m (word_spans ?seg 0) start start = Some (g, cs)" "g \<le> stop"
    using ascii_group_words [OF assms(1), of start "stop - start" start "word_spans ?seg 0" start tok m]
      word_spans_ordered [of 0 ?seg] assms(2,3) len by auto
  obtain fit where shrink: "shrink_tail (length content) tok m content g stop = Some fit"
    using ascii_shrink_tail [OF assms(1,3)] by blast
  have fit: "g \<le> fit" "fit \<le> stop" using shrink_tail_bounds [OF shrink g(2)] by blast+
  obtain c where c: "paragraph_chunk content g fit = Some c"
    using ascii_chunk [OF assms(1) fit(1)] fit(2) assms(3) by auto
  obtain c' where c': "paragraph_chunk content fit stop = Some c'"
    using ascii_chunk [OF assms(1) fit(2) assms(3)] by blast
  show ?thesis
    using g(1) c c' shrink assms(3) by (simp add: push_word_groups_def ascii_slice [OF assms] Let_def ascii_prev [OF assms(1)] min_def)
qed

lemma ascii_push_slice: "is_ascii content \<Longrightarrow> push_slice tok m s e content \<noteq> None"
proof -
  assume a: "is_ascii content"
  define e0 where "e0 = min e (length content)"
  have e0: "e0 \<le> length content" by (simp add: e0_def)
  define stop where "stop = (if 2 \<le> e0 \<and> bytes_between content (e0 - 2) e0 = [nl, nl] then e0 - 2 else e0)"
  have stop: "(if 2 \<le> e0 then map_option (\<lambda>t. if t = [nl, nl] then e0 - 2 else e0) (str_slice content (e0 - 2) e0) else Some e0)
      = Some stop" "stop \<le> length content"
    using ascii_slice [OF a, of "e0 - 2" e0] e0 by (auto simp: stop_def)
  have cut: "prev_char_boundary content stop = stop" using stop(2) by (simp add: ascii_prev [OF a] min_def)
  show ?thesis
  proof (cases "stop \<le> s")
    case True
    then show ?thesis using stop(1) cut by (simp add: push_slice_def Let_def flip: e0_def)
  next
    case False
    then have le: "s \<le> stop" by simp
    have "push_word_groups tok content s stop m \<noteq> None" by (rule ascii_push_word_groups [OF a le stop(2)])
    moreover obtain c where "paragraph_chunk content s stop = Some c" using ascii_chunk [OF a le stop(2)] by blast
    ultimately show ?thesis
      using stop(1) cut False ascii_slice [OF a le stop(2)] by (simp add: push_slice_def Let_def flip: e0_def)
  qed
qed

text \<open>On ASCII text no slice of the paragraph chunker is out of range: it returns.\<close>

theorem paragraph_ascii_returns:
  assumes "is_ascii content"
  shows "chunk_text tok max_tokens overlap content \<noteq> None"
proof -
  have step: "\<exists>out st'. paragraph_step tok m ov content para (cs, ce, n, cursor) = Some (out, st')
      \<and> snd (snd (snd st')) = min (min (min cursor (length content) + length para) (length content) + 2) (length content)
      \<and> (fst (snd st') \<le> ce + length para + 2 \<or> fst (snd st') = snd (snd (snd st')))"
    if "ce \<le> length content" for m ov para cs ce n cursor
  proof -
    define p0 where "p0 = min cursor (length content)"
    define p1 where "p1 = min (p0 + length para) (length content)"
    define cur where "cur = min (p1 + 2) (length content)"
    define paralen where "paralen = length para + 2"
    have "p0 \<le> p1" "p1 \<le> length content" by (simp_all add: p0_def p1_def)
    then obtain o2 where o2: "push_word_groups tok content p0 p1 m = Some o2"
      using ascii_push_word_groups [OF assms] by blast
    obtain o1 where o1: "push_slice tok m cs ce content = Some o1" using ascii_push_slice [OF assms] by blast
    obtain rw where rw: "estimate_overlap_bytes content ce ov = Some rw"
      using \<open>ce \<le> length content\<close> by (cases "ov = 0") (auto simp: estimate_overlap_bytes_def ascii_slice [OF assms])
    have "\<exists>out st'. paragraph_step tok m ov content para (cs, ce, n, cursor) = Some (out, st')
        \<and> snd (snd (snd st')) = cur \<and> (fst (snd st') \<le> ce + paralen \<or> fst (snd st') = cur)"
      unfolding paragraph_step_def Let_def fst_conv snd_conv p0_def [symmetric] p1_def [symmetric] cur_def [symmetric]
        paralen_def [symmetric]
      by (cases "m < tok para"; cases "m < n + tok para \<and> cs < ce") (simp_all add: o1 o2 rw)
    then show ?thesis by (simp add: cur_def p1_def p0_def paralen_def add.assoc)
  qed
  have scan: "paragraph_scan tok max_tokens overlap content paras (cs, ce, n, cursor) \<noteq> None"
    if "cursor + length (concat (map (\<lambda>p. p @ [nl, nl]) (butlast paras)) @ last paras) = length content \<or> paras = []"
      "paras \<noteq> [] \<longrightarrow> ce \<le> cursor" for paras cs ce n cursor
    using that
  proof (induction paras arbitrary: cs ce n cursor)
    case Nil
    then show ?case using ascii_push_slice [OF assms] by simp
  next
    case (Cons para paras)
    have len: "cursor + length (concat (map (\<lambda>p. p @ [nl, nl]) (butlast (para # paras))) @ last (para # paras)) = length content"
      using Cons.prems(1) by simp
    have ce: "ce \<le> cursor" "cursor \<le> length content" using Cons.prems(2) len by simp_all
    have "ce \<le> length content" using ce by simp
    from step [OF this, of max_tokens overlap para cs n cursor] obtain out st' where
        st': "paragraph_step tok max_tokens overlap content para (cs, ce, n, cursor) = Some (out, st')"
        "snd (snd (snd st')) = min (min (min cursor (length content) + length para) (length content) + 2) (length content)"
        "fst (snd st') \<le> ce + length para + 2 \<or> fst (snd st') = snd (snd (snd st'))"
      by blast
    obtain cs' ce' n' cursor' where eq: "st' = (cs', ce', n', cursor')" by (cases st')
    note st = st' [unfolded eq fst_conv snd_conv]
    have "paragraph_scan tok max_tokens overlap content paras (cs', ce', n', cursor') \<noteq> None"
    proof (cases "paras = []")
      case True
      then show ?thesis using Cons.IH [of cursor' ce'] by simp
    next
      case False
      then have "cursor + length para + 2 + length (concat (map (\<lambda>p. p @ [nl, nl]) (butlast paras)) @ last paras) = length content"
        using len by simp
      moreover from this have "cursor' = cursor + length para + 2" using st(2) by linarith
      moreover have "ce' \<le> cursor'" using st(3) ce(1) calculation(2) by linarith
      ultimately show ?thesis by (intro Cons.IH) simp_all
    qed
    then show ?case using st(1) by simp
  qed
  have "length (concat (map (\<lambda>p. p @ [nl, nl]) (butlast (split_str [nl, nl] content))) @ last (split_str [nl, nl] content)) = length content"
    using concat_pieces [of "[nl, nl]" content] by (simp add: pieces_with_sep_def Let_def)
  then show ?thesis unfolding chunk_text_def by (intro scan) auto
qed

section \<open>Examples\<close>

definition demo_source :: string where
  "demo_source = ''use x;'' @ [nl] @ ''fn a'' @ [nl] @ ''b'' @ [nl]"

lemma demo_source_facts:
  "valid_utf8 demo_source" "split_inclusive demo_source = [''use x;'' @ [nl], ''fn a'' @ [nl], ''b'' @ [nl]]"
  "\<not> starts_block (Some ''rust'') (''use x;'' @ [nl])" "starts_block (Some ''rust'') (''fn a'' @ [nl])"
  "\<not> starts_block (Some ''rust'') (''b'' @ [nl])" "prev_char_boundary demo_source 7 = 7"
  by code_simp+

lemma length_counts: "counts_tokens length"
  by (simp add: counts_tokens_def)

text \<open>Of an import and a function the chunks hold the import only.\<close>

lemma structures_exact_witness:
  "contents (chunk_by_structures length 512 64 demo_source (Some ''rust'')) = ''use x;'' @ [nl]"
proof -
  have "contents (chunk_by_structures length 512 64 demo_source (Some ''rust'')) = take 7 demo_source @ drop 14 demo_source"
    using structures_exact [OF demo_source_facts(1) length_counts, of "[''use x;'' @ [nl]]" "''fn a'' @ [nl]" "[''b'' @ [nl]]"
        "Some ''rust''" 512 64] demo_source_facts
    by (simp add: numeral_eq_Suc)
  then show ?thesis by (simp add: demo_source_def)
qed

lemma structures_partition_witness:
  "contents (chunk_by_structures length 512 64 (''fn a'' @ [nl]) (Some ''rust'')) = ''fn a'' @ [nl]"
proof -
  have "valid_utf8 (''fn a'' @ [nl])" "split_inclusive (''fn a'' @ [nl]) = [''fn a'' @ [nl]]" by code_simp+
  from structures_partition [OF this(1) length_counts this(2) demo_source_facts(4)] show ?thesis .
qed

definition demo_lines :: string where
  "demo_lines = ''a'' @ [nl] @ ''b'' @ [nl] @ ''c'' @ [nl] @ ''d'' @ [nl]"

lemma demo_lines_chunks:
  "chunk_by_lines (\<lambda>s. 1) 3 0 demo_lines None
     = [line_chunk demo_lines None 0 2 1 3, line_chunk demo_lines None 6 8 4 5]"
  by code_simp

lemma line_chunks_one_line_witness:
  "is_slice_of demo_lines (line_chunk demo_lines None 0 2 1 3)
    \<and> list_ex (\<lambda>l. length (rc_content (line_chunk demo_lines None 0 2 1 3)) \<le> length l) (split_inclusive demo_lines)"
proof -
  have "valid_utf8 demo_lines" "rc_end (line_chunk demo_lines None 0 2 1 3) < length demo_lines" by code_simp+
  moreover have "line_chunk demo_lines None 0 2 1 3 \<in> set (chunk_by_lines (\<lambda>s. 1) 3 0 demo_lines None)"
    unfolding demo_lines_chunks by simp
  ultimately show ?thesis using line_chunks_one_line unfolding list_ex_iff by blast
qed

lemma recursive_partition_witness:
  "\<exists>cs. chunk_sized length 2 (''ab cd'' @ [nl]) = Some cs \<and> contents cs = ''ab cd'' @ [nl]"
proof -
  have "valid_utf8 (''ab cd'' @ [nl])" by code_simp
  from recursive_partition [OF length_counts _ this, of 2] show ?thesis by auto
qed

lemma hard_split_diverges_witness: "hard_split 1000 length 0 ''ab'' 0 0 = None"
  by (rule hard_split_diverges) (simp_all add: is_char_boundary_def)

text \<open>A Portuguese word that ends in an accented letter, with its newline.\<close>

definition demo_accent :: string where
  "demo_accent = ''caf'' @ [char_of (0xC3 :: nat), char_of (0xA9 :: nat), nl]"

lemma paragraph_chunker_panics_witness:
  "valid_utf8 demo_accent \<and> chunk_text length 512 64 demo_accent = None"
proof -
  have "2 < length demo_accent" "find_sub [nl, nl] demo_accent = None" "length demo_accent \<le> 512"
    "is_cont (demo_accent ! (length demo_accent - 2))" "valid_utf8 demo_accent"
    by (simp_all add: demo_accent_def) code_simp+
  then show ?thesis using paragraph_chunker_panics [of demo_accent length 512 64] by blast
qed

lemma paragraph_ascii_returns_witness: "chunk_text length 512 64 ''plain text'' \<noteq> None"
  by (rule paragraph_ascii_returns) (simp add: is_ascii_def byte_def)

lemma paragraph_slices_witness:
  "\<exists>cs. chunk_text length 2 1 ''aa bb'' = Some cs \<and> list_all (is_slice_of ''aa bb'') cs"
proof -
  have "is_ascii ''aa bb''" by (simp add: is_ascii_def byte_def)
  then obtain cs where "chunk_text length 2 1 ''aa bb'' = Some cs" using paragraph_ascii_returns by blast
  from this paragraph_slices [OF this] show ?thesis by blast
qed

end
