(* ===== verification/Wiki.thy ===== *)
theory Wiki
  imports File_Filters
begin

text \<open>
  The wiki pages of a project
  (\<^verbatim>\<open>crates/arags-memory/src/persist/{types,format,engine,ops}.rs\<close>): Markdown files with a YAML
  head. The file system is a set of directories and a list of files, by their components from
  the root; there are no links. The YAML codec and the text of the clock are arguments. Lemmas:
  a page that was written is read back; numbered pages never overwrite one another; searches
  and sessions do; where a raw page may end up.
\<close>

section \<open>Pages\<close>

record frontmatter =
  fm_title :: string
  fm_created :: string
  fm_updated :: string
  fm_query :: "string option"
  fm_tier :: "string option"
  fm_project :: "string option"
  fm_entities :: "string list"
  fm_tags :: "string list"
  fm_pinned :: bool
  fm_expires_at :: "string option"
  fm_salience :: real
  fm_access_count :: nat
  fm_supersedes :: "string option"

definition default_salience :: real where
  "default_salience = 1"

datatype wiki_scope = Searches | Analyses | Decisions | Sessions | Trajectories | Global

fun dir_name :: "wiki_scope \<Rightarrow> string" where
  "dir_name Searches = ''searches''"
| "dir_name Analyses = ''analyses''"
| "dir_name Decisions = ''decisions''"
| "dir_name Sessions = ''sessions''"
| "dir_name Trajectories = ''trajectories''"
| "dir_name Global = ''_global''"

record search_page =
  sp_query :: string
  sp_tier :: string
  sp_project :: string
  sp_entities_of :: "string list"
  sp_tags :: "string list"
  sp_body :: string

record note_page =
  np_title :: string
  np_project :: "string option"
  np_tags :: "string list"
  np_body :: string
  np_supersedes :: "string option"

record log_page =
  lp_id :: string
  lp_project :: string
  lp_body :: string

datatype wiki_error = Write_Failed | Read_Failed | No_Opening | No_Closing | Bad_Yaml

definition nl1 :: string where "nl1 = [CHR 0x0A]"
definition crlf :: string where "crlf = [CHR 0x0D, CHR 0x0A]"

section \<open>Rendering and parsing\<close>

definition render_markdown :: "(frontmatter \<Rightarrow> string option) \<Rightarrow> frontmatter \<Rightarrow> string \<Rightarrow> string" where
  "render_markdown yaml fm body =
     ''---'' @ nl1 @ (case yaml fm of Some y \<Rightarrow> y | None \<Rightarrow> []) @ ''---'' @ nl1 @ nl1 @ body"

definition without_prefix :: "string \<Rightarrow> string \<Rightarrow> string option" where
  "without_prefix p s = (if starts_with p s then Some (drop (length p) s) else None)"

definition bom :: string where
  "bom = [char_of (0xEF :: nat), char_of (0xBB :: nat), char_of (0xBF :: nat)]"

text \<open>\<open>str::rsplit_once\<close>: the last occurrence of the separator.\<close>

fun rfind_sub :: "string \<Rightarrow> string \<Rightarrow> nat option" where
  "rfind_sub pat [] = (if pat = [] then Some 0 else None)"
| "rfind_sub pat (x # xs) =
     (case rfind_sub pat xs of
        Some i \<Rightarrow> Some (Suc i)
      | None \<Rightarrow> if take (length pat) (x # xs) = pat then Some 0 else None)"

definition rsplit_once :: "string \<Rightarrow> string \<Rightarrow> (string \<times> string) option" where
  "rsplit_once pat s = map_option (\<lambda>i. (take i s, drop (i + length pat) s)) (rfind_sub pat s)"

definition or_else :: "'a option \<Rightarrow> 'a option \<Rightarrow> 'a option" where
  "or_else a b = (case a of Some x \<Rightarrow> Some x | None \<Rightarrow> b)"

definition parse_markdown ::
  "(string \<Rightarrow> frontmatter option) \<Rightarrow> string \<Rightarrow> wiki_error + frontmatter \<times> string" where
  "parse_markdown unyaml text_of_page =
     (let content = (case without_prefix bom text_of_page of Some c \<Rightarrow> c | None \<Rightarrow> text_of_page)
      in case or_else (without_prefix (''---'' @ nl1) content) (without_prefix (''---'' @ crlf) content) of
           None \<Rightarrow> Inl No_Opening
         | Some rest \<Rightarrow>
             (case or_else (split_once (nl1 @ ''---'' @ nl1) rest)
                     (or_else (split_once (nl1 @ ''---'' @ crlf) rest)
                        (case rsplit_once (nl1 @ ''---'') rest of
                           Some (before, after) \<Rightarrow> if trim after = [] then Some (before, []) else None
                         | None \<Rightarrow> None)) of
                None \<Rightarrow> Inl No_Closing
              | Some (head, body) \<Rightarrow>
                  (case unyaml head of
                     None \<Rightarrow> Inl Bad_Yaml
                   | Some fm \<Rightarrow> Inr (fm, case without_prefix nl1 body of Some b \<Rightarrow> b | None \<Rightarrow> body))))"

section \<open>Names of files\<close>

definition is_alnum :: "char \<Rightarrow> bool" where
  "is_alnum c \<longleftrightarrow> (let n = byte c in (48 \<le> n \<and> n \<le> 57) \<or> (65 \<le> n \<and> n \<le> 90) \<or> (97 \<le> n \<and> n \<le> 122))"

text \<open>The loop of \<open>sanitize_slug\<close>; the slug so far is kept reversed.\<close>

fun slug_loop :: "string \<Rightarrow> string \<Rightarrow> bool \<Rightarrow> string" where
  "slug_loop [] slug prev_hyphen = rev slug"
| "slug_loop (c # cs) slug prev_hyphen =
     (if is_alnum c then slug_loop cs (ascii_lower [c] @ slug) False
      else if (c \<in> {CHR ''_'', CHR ''-'', CHR ''/'', CHR 0x5C} \<or> is_ws c) \<and> \<not> prev_hyphen \<and> slug \<noteq> []
      then slug_loop cs (CHR ''-'' # slug) True
      else slug_loop cs slug prev_hyphen)"

definition trim_hyphens :: "string \<Rightarrow> string" where
  "trim_hyphens s =
     rev (dropWhile (\<lambda>c. c = CHR ''-'') (rev (dropWhile (\<lambda>c. c = CHR ''-'') s)))"

definition sanitize_slug :: "string \<Rightarrow> string" where
  "sanitize_slug input = trim_hyphens (slug_loop input [] False)"

definition sanitize_identifier :: "string \<Rightarrow> string" where
  "sanitize_identifier input = filter (\<lambda>c. is_alnum c \<or> c \<in> {CHR ''_'', CHR ''-'', CHR ''.''}) input"

text \<open>\<open>{seq:03}\<close> and \<open>parse::<u32>\<close>.\<close>

definition pad3 :: "nat \<Rightarrow> string" where
  "pad3 n = (let s = show_nat n in replicate (3 - length s) (CHR ''0'') @ s)"

definition parse_u32 :: "string \<Rightarrow> nat option" where
  "parse_u32 s =
     (let ds = (case s of c # cs \<Rightarrow> if c = CHR ''+'' then cs else s | [] \<Rightarrow> [])
      in if ds = [] \<or> \<not> list_all is_digit ds \<or> 2 ^ 32 \<le> read_nat ds then None else Some (read_nat ds))"

section \<open>Files\<close>

record file_tree =
  ft_dirs :: "string list list"
  ft_files :: "(string list \<times> string) list"

definition is_file :: "file_tree \<Rightarrow> string list \<Rightarrow> bool" where
  "is_file t p \<longleftrightarrow> map_of (ft_files t) p \<noteq> None"

definition path_prefixes :: "string list \<Rightarrow> string list list" where
  "path_prefixes p = map (\<lambda>i. take i p) [0..<Suc (length p)]"

definition create_dir_all :: "string list \<Rightarrow> file_tree \<Rightarrow> file_tree option" where
  "create_dir_all p t =
     (if list_ex (is_file t) (path_prefixes p) then None
      else Some (t\<lparr>ft_dirs := ft_dirs t @ filter (\<lambda>q. q \<notin> set (ft_dirs t)) (path_prefixes p)\<rparr>))"

definition write_file :: "string list \<Rightarrow> string \<Rightarrow> file_tree \<Rightarrow> file_tree option" where
  "write_file p content t =
     (if p = [] \<or> p \<in> set (ft_dirs t) \<or> butlast p \<notin> set (ft_dirs t) then None
      else Some (t\<lparr>ft_files := filter (\<lambda>f. fst f \<noteq> p) (ft_files t) @ [(p, content)]\<rparr>))"

text \<open>The names in a directory, of files and of directories.\<close>

definition entry_names :: "string list \<Rightarrow> file_tree \<Rightarrow> string list" where
  "entry_names dir t = map last (filter (\<lambda>p. p \<noteq> [] \<and> butlast p = dir) (map fst (ft_files t) @ ft_dirs t))"

definition ensure_dirs :: "string list \<Rightarrow> file_tree \<Rightarrow> file_tree option" where
  "ensure_dirs wroot t =
     fold (\<lambda>scope o'. Option.bind o' (create_dir_all (wroot @ [dir_name scope])))
       [Searches, Analyses, Decisions, Sessions, Trajectories, Global] (Some t)"

definition wiki_dir :: "string list" where
  "wiki_dir = [''.arags'', ''wiki'']"

definition open_wiki :: "string list \<Rightarrow> file_tree \<Rightarrow> (string list \<times> file_tree) option" where
  "open_wiki project_path t =
     map_option (Pair (project_path @ wiki_dir)) (ensure_dirs (project_path @ wiki_dir) t)"

text \<open>Joining a path to the root: an absolute path replaces it, \<open>..\<close> leaves a directory.\<close>

fun resolve :: "string list \<Rightarrow> string list \<Rightarrow> string list" where
  "resolve here [] = here"
| "resolve here (s # ss) =
     (if s = [] \<or> s = ''.'' then resolve here ss
      else if s = ''..'' then resolve (butlast here) ss
      else resolve (here @ [s]) ss)"

definition join_root :: "string list \<Rightarrow> string \<Rightarrow> string list" where
  "join_root wroot path = resolve (if starts_with ''/'' path then [] else wroot) (path_segments path)"

definition persist_raw ::
  "string list \<Rightarrow> string \<Rightarrow> string \<Rightarrow> file_tree \<Rightarrow> (wiki_error + string) \<times> file_tree" where
  "persist_raw wroot path body t =
     (let p = join_root wroot path
      in case create_dir_all (butlast p) t of
           None \<Rightarrow> (Inl Write_Failed, t)
         | Some t1 \<Rightarrow>
             (if last (path_segments path) \<in> {[], ''.'', ''..''} then (Inl Write_Failed, t1)
              else case write_file p body t1 of
                     None \<Rightarrow> (Inl Write_Failed, t1)
                   | Some t2 \<Rightarrow> (Inr path, t2)))"

definition read_page ::
  "(string \<Rightarrow> frontmatter option) \<Rightarrow> string list \<Rightarrow> string \<Rightarrow> file_tree \<Rightarrow> wiki_error + frontmatter \<times> string" where
  "read_page unyaml wroot path t =
     (case map_of (ft_files t) (join_root wroot path) of
        None \<Rightarrow> Inl Read_Failed
      | Some content \<Rightarrow> parse_markdown unyaml content)"

definition list_pages :: "string list \<Rightarrow> wiki_scope \<Rightarrow> file_tree \<Rightarrow> string list" where
  "list_pages wroot scope t =
     (let dir = wroot @ [dir_name scope]
      in sort_text (map (\<lambda>p. dir_name scope @ ''/'' @ last p)
           (filter (\<lambda>p. p \<noteq> [] \<and> butlast p = dir) (map fst (ft_files t)))))"

text \<open>The next number of a scope: one more than the greatest in the names of its directory.\<close>

definition name_sequence :: "string \<Rightarrow> nat option" where
  "name_sequence name = parse_u32 (takeWhile (\<lambda>c. c \<noteq> CHR ''-'') name)"

definition next_sequence :: "string list \<Rightarrow> wiki_scope \<Rightarrow> file_tree \<Rightarrow> nat" where
  "next_sequence wroot scope t =
     (fold max (List.map_filter name_sequence (entry_names (wroot @ [dir_name scope]) t)) 0 + 1) mod 2 ^ 32"

section \<open>Writing the pages\<close>

text \<open>The common tail of the five operations: the directory, the file and the relative path.\<close>

definition write_page ::
  "string list \<Rightarrow> wiki_scope \<Rightarrow> string \<Rightarrow> string \<Rightarrow> file_tree \<Rightarrow> (wiki_error + string) \<times> file_tree" where
  "write_page wroot scope filename content t =
     (let dir = wroot @ [dir_name scope]
      in case create_dir_all dir t of
           None \<Rightarrow> (Inl Write_Failed, t)
         | Some t1 \<Rightarrow>
             (case write_file (dir @ [filename]) content t1 of
                None \<Rightarrow> (Inl Write_Failed, t1)
              | Some t2 \<Rightarrow> (Inr (dir_name scope @ ''/'' @ filename), t2)))"

definition new_frontmatter :: "string \<Rightarrow> string \<Rightarrow> frontmatter" where
  "new_frontmatter title stamp =
     \<lparr>fm_title = title, fm_created = stamp, fm_updated = stamp, fm_query = None, fm_tier = None,
      fm_project = None, fm_entities = [], fm_tags = [], fm_pinned = False, fm_expires_at = None,
      fm_salience = default_salience, fm_access_count = 0, fm_supersedes = None\<rparr>"

definition search_frontmatter :: "string \<Rightarrow> search_page \<Rightarrow> frontmatter" where
  "search_frontmatter stamp opt =
     (new_frontmatter (sp_query opt @ '' - search'') stamp)
       \<lparr>fm_query := Some (sp_query opt), fm_tier := Some (sp_tier opt), fm_project := Some (sp_project opt),
        fm_entities := sp_entities_of opt, fm_tags := sp_tags opt\<rparr>"

definition search_name :: "string \<Rightarrow> string \<Rightarrow> string" where
  "search_name date query = date @ ''_'' @ sanitize_slug query @ ''.md''"

definition persist_search ::
  "(frontmatter \<Rightarrow> string option) \<Rightarrow> string \<Rightarrow> string \<Rightarrow> string list \<Rightarrow> search_page \<Rightarrow> file_tree
     \<Rightarrow> (wiki_error + string) \<times> file_tree" where
  "persist_search yaml date stamp wroot opt t =
     write_page wroot Searches (search_name date (sp_query opt))
       (render_markdown yaml (search_frontmatter stamp opt) (sp_body opt)) t"

definition note_frontmatter :: "string \<Rightarrow> note_page \<Rightarrow> frontmatter" where
  "note_frontmatter stamp opt =
     (new_frontmatter (np_title opt) stamp)
       \<lparr>fm_project := np_project opt, fm_tags := np_tags opt, fm_supersedes := np_supersedes opt\<rparr>"

definition note_name :: "nat \<Rightarrow> string \<Rightarrow> string" where
  "note_name seq title = pad3 seq @ ''-'' @ sanitize_slug title @ ''.md''"

text \<open>Analyses have a project and no predecessor, decisions a predecessor and no project.\<close>

definition persist_analysis ::
  "(frontmatter \<Rightarrow> string option) \<Rightarrow> string \<Rightarrow> string list \<Rightarrow> note_page \<Rightarrow> file_tree
     \<Rightarrow> (wiki_error + string) \<times> file_tree" where
  "persist_analysis yaml stamp wroot opt t =
     write_page wroot Analyses (note_name (next_sequence wroot Analyses t) (np_title opt))
       (render_markdown yaml (note_frontmatter stamp (opt\<lparr>np_supersedes := None\<rparr>)) (np_body opt)) t"

definition persist_decision ::
  "(frontmatter \<Rightarrow> string option) \<Rightarrow> string \<Rightarrow> string list \<Rightarrow> note_page \<Rightarrow> file_tree
     \<Rightarrow> (wiki_error + string) \<times> file_tree" where
  "persist_decision yaml stamp wroot opt t =
     write_page wroot Decisions (note_name (next_sequence wroot Decisions t) (np_title opt))
       (render_markdown yaml (note_frontmatter stamp (opt\<lparr>np_project := None\<rparr>)) (np_body opt)) t"

definition log_frontmatter :: "string \<Rightarrow> string \<Rightarrow> log_page \<Rightarrow> frontmatter" where
  "log_frontmatter kind stamp opt = (new_frontmatter (kind @ lp_id opt) stamp)\<lparr>fm_project := Some (lp_project opt)\<rparr>"

definition persist_session ::
  "(frontmatter \<Rightarrow> string option) \<Rightarrow> string \<Rightarrow> string list \<Rightarrow> log_page \<Rightarrow> file_tree
     \<Rightarrow> (wiki_error + string) \<times> file_tree" where
  "persist_session yaml stamp wroot opt t =
     write_page wroot Sessions (sanitize_identifier (lp_id opt) @ ''.md'')
       (render_markdown yaml (log_frontmatter ''session '' stamp opt) (lp_body opt)) t"

definition persist_trajectory ::
  "(frontmatter \<Rightarrow> string option) \<Rightarrow> string \<Rightarrow> string list \<Rightarrow> log_page \<Rightarrow> file_tree
     \<Rightarrow> (wiki_error + string) \<times> file_tree" where
  "persist_trajectory yaml stamp wroot opt t =
     write_page wroot Trajectories (sanitize_identifier (lp_id opt) @ ''.md'')
       (render_markdown yaml (log_frontmatter ''run '' stamp opt) (lp_body opt)) t"

section \<open>Slugs\<close>

definition slug_char :: "char \<Rightarrow> bool" where
  "slug_char c \<longleftrightarrow> (is_alnum c \<and> ascii_lower [c] = [c]) \<or> c = CHR ''-''"

definition hyphens_apart :: "string \<Rightarrow> bool" where
  "hyphens_apart s \<longleftrightarrow> successively (\<lambda>a b. \<not> (a = CHR ''-'' \<and> b = CHR ''-'')) s"

definition slug_ok :: "string \<Rightarrow> bool" where
  "slug_ok s \<longleftrightarrow> list_all slug_char s \<and> hyphens_apart s
     \<and> (s \<noteq> [] \<longrightarrow> hd s \<noteq> CHR ''-'' \<and> last s \<noteq> CHR ''-'')"

lemma hyphen_not_alnum [simp]: "\<not> is_alnum CHR ''-''"
  by (simp add: is_alnum_def byte_def)

lemma byte_of_small: "n < 256 \<Longrightarrow> byte (char_of n) = n"
  by (simp add: byte_def)

lemma lower_alnum: "is_alnum c \<Longrightarrow> \<exists>d. ascii_lower [c] = [d] \<and> slug_char d \<and> d \<noteq> CHR ''-''"
proof (cases "65 \<le> byte c \<and> byte c < 91")
  case True
  let ?d = "char_of (byte c + 32) :: char"
  have b: "byte ?d = byte c + 32" using True by (intro byte_of_small) simp
  then have "is_alnum ?d" "ascii_lower [?d] = [?d]" using True by (simp_all add: is_alnum_def ascii_lower_def)
  moreover have "?d \<noteq> CHR ''-''" using calculation(1) by auto
  ultimately show ?thesis using True by (intro exI [of _ ?d]) (simp add: ascii_lower_def slug_char_def)
next
  case False
  assume a: "is_alnum c"
  then have "c \<noteq> CHR ''-''" by auto
  then show ?thesis using a False by (intro exI [of _ c]) (auto simp: ascii_lower_def slug_char_def)
qed

lemma hyphens_apart_rev [simp]: "hyphens_apart (rev s) = hyphens_apart s"
proof -
  have "(\<lambda>x y. \<not> (y = CHR ''-'' \<and> x = CHR ''-'')) = (\<lambda>a b. \<not> (a = CHR ''-'' \<and> b = CHR ''-''))" by auto
  then show ?thesis unfolding hyphens_apart_def successively_rev by (rule arg_cong [where f = "\<lambda>P. successively P s"])
qed

lemma hyphens_apart_Cons:
  "hyphens_apart (c # s) \<longleftrightarrow> hyphens_apart s \<and> (s = [] \<or> \<not> (c = CHR ''-'' \<and> hd s = CHR ''-''))"
  by (cases s) (auto simp: hyphens_apart_def)

lemma slug_loop_shape:
  assumes "list_all slug_char slug" "hyphens_apart slug" "slug \<noteq> [] \<longrightarrow> last slug \<noteq> CHR ''-''"
    "ph \<longleftrightarrow> slug \<noteq> [] \<and> hd slug = CHR ''-''"
  shows "list_all slug_char (slug_loop s slug ph) \<and> hyphens_apart (slug_loop s slug ph)
    \<and> (slug_loop s slug ph \<noteq> [] \<longrightarrow> hd (slug_loop s slug ph) \<noteq> CHR ''-'')"
  using assms
proof (induction s slug ph rule: slug_loop.induct)
  case (1 slug ph)
  then show ?case by (simp add: hd_rev)
next
  case (2 c cs slug ph)
  show ?case
  proof (cases "is_alnum c")
    case True
    obtain d where d: "ascii_lower [c] = [d]" "slug_char d" "d \<noteq> CHR ''-''" using lower_alnum [OF True] by blast
    have "list_all slug_char (d # slug)" "hyphens_apart (d # slug)" "last (d # slug) \<noteq> CHR ''-''"
      using "2.prems" d by (simp_all add: hyphens_apart_Cons)
    then show ?thesis using "2.IH"(1) [OF True] True d by simp
  next
    case False
    show ?thesis
    proof (cases "(c \<in> {CHR ''_'', CHR ''-'', CHR ''/'', CHR 0x5C} \<or> is_ws c) \<and> \<not> ph \<and> slug \<noteq> []")
      case True
      have "list_all slug_char (CHR ''-'' # slug)" "hyphens_apart (CHR ''-'' # slug)" "last (CHR ''-'' # slug) \<noteq> CHR ''-''"
        using "2.prems" True by (simp_all add: hyphens_apart_Cons) (simp add: slug_char_def)
      then show ?thesis using "2.IH"(2) [OF False True] False True by simp
    next
      case other: False
      have eq: "slug_loop (c # cs) slug ph = slug_loop cs slug ph" using False other by auto
      show ?thesis unfolding eq using "2.IH"(3) [OF False other] "2.prems" by blast
    qed
  qed
qed

lemma trim_hyphens_shape:
  assumes "list_all slug_char s" "hyphens_apart s" "s \<noteq> [] \<longrightarrow> hd s \<noteq> CHR ''-''"
  shows "slug_ok (trim_hyphens s)"
proof -
  have left: "dropWhile (\<lambda>c. c = CHR ''-'') s = s" using assms(3) by (cases s) auto
  let ?r = "rev (dropWhile (\<lambda>c. c = CHR ''-'') (rev s))"
  obtain w where w: "s = ?r @ w" by (metis rev_append rev_rev_ident takeWhile_dropWhile_id)
  have "list_all slug_char ?r" using assms(1) by (subst (asm) w) simp
  moreover have "hyphens_apart ?r" using assms(2) unfolding hyphens_apart_def
    by (subst (asm) w) (simp only: successively_append_iff)
  moreover have "hd ?r \<noteq> CHR ''-''" if "?r \<noteq> []"
    using assms(3) that w by (metis append_is_Nil_conv hd_append2)
  moreover have "last ?r \<noteq> CHR ''-''" if "?r \<noteq> []"
    using that hd_dropWhile [of "\<lambda>c. c = CHR ''-''" "rev s"] by (simp add: last_rev)
  ultimately show ?thesis by (simp add: slug_ok_def trim_hyphens_def left)
qed

lemma slug_char_cases: "slug_char c \<Longrightarrow> c \<noteq> CHR ''-'' \<Longrightarrow> is_alnum c \<and> ascii_lower [c] = [c]"
  by (simp add: slug_char_def)

lemma slug_loop_id:
  assumes "list_all slug_char s" "hyphens_apart s" "s \<noteq> [] \<longrightarrow> slug = [] \<or> ph \<longrightarrow> hd s \<noteq> CHR ''-''"
  shows "slug_loop s slug ph = rev slug @ s"
  using assms
proof (induction s arbitrary: slug ph)
  case (Cons c s)
  have s: "list_all slug_char s" "hyphens_apart s" using Cons.prems by (simp_all add: hyphens_apart_Cons)
  show ?case
  proof (cases "c = CHR ''-''")
    case True
    then have "\<not> ph" "slug \<noteq> []" using Cons.prems(3) by auto
    moreover have "s \<noteq> [] \<longrightarrow> hd s \<noteq> CHR ''-''" using Cons.prems(2) True by (auto simp: hyphens_apart_Cons)
    ultimately show ?thesis using Cons.IH [OF s, of "c # slug" True] True by simp
  next
    case False
    then have "is_alnum c" "ascii_lower [c] = [c]" using slug_char_cases Cons.prems(1) by simp_all
    then show ?thesis using Cons.IH [OF s, of "c # slug" False] by simp
  qed
qed simp

lemma slug_normal_form_ok: "slug_ok (sanitize_slug s)"
  unfolding sanitize_slug_def using slug_loop_shape [of "[]" False s]
  by (intro trim_hyphens_shape) (simp_all add: hyphens_apart_def)

text \<open>
  A slug has lower-case letters, digits and single hyphens between them only, and these are
  exactly the texts that are their own slug.
\<close>

theorem slug_normal_form: "slug_ok (sanitize_slug s) \<and> (slug_ok t \<longleftrightarrow> sanitize_slug t = t)"
proof -
  note ok = slug_normal_form_ok
  have "sanitize_slug t = t" if t: "slug_ok t"
  proof -
    have "slug_loop t [] False = t" using t slug_loop_id [of t "[]" False] by (auto simp: slug_ok_def)
    moreover have "trim_hyphens t = t"
    proof -
      have "dropWhile (\<lambda>c. c = CHR ''-'') t = t" using t by (cases t) (auto simp: slug_ok_def)
      moreover have "dropWhile (\<lambda>c. c = CHR ''-'') (rev t) = rev t"
        using t by (cases "rev t") (auto simp: slug_ok_def simp flip: hd_rev)
      ultimately show ?thesis by (simp add: trim_hyphens_def)
    qed
    ultimately show ?thesis by (simp add: sanitize_slug_def)
  qed
  then show ?thesis using ok by metis
qed

section \<open>Reading back\<close>

lemma find_sub_first:
  "find_sub pat s = None \<Longrightarrow> \<not> (\<exists>i. take (length pat) (drop i s) = pat \<and> i + length pat \<le> length s)"
proof (induction pat s rule: find_sub.induct)
  case (2 pat x xs)
  have n: "take (length pat) (x # xs) \<noteq> pat" "find_sub pat xs = None" using 2(2) by (auto split: if_splits)
  show ?case
  proof (intro notI, elim exE conjE)
    fix i assume i: "take (length pat) (drop i (x # xs)) = pat" "i + length pat \<le> length (x # xs)"
    show False
    proof (cases i)
      case 0
      then show False using i n by simp
    next
      case (Suc j)
      then show False using i 2(1) [OF n] by auto
    qed
  qed
qed (auto split: if_splits)

text \<open>The first occurrence of the closing line is where the head ends.\<close>

lemma find_sub_at:
  assumes "find_sub pat (y @ butlast pat) = None" "pat \<noteq> []"
  shows "find_sub pat (y @ pat @ rest) = Some (length y)"
  using assms(1)
proof (induction y)
  case Nil
  then show ?case using assms(2) by (cases pat) simp_all
next
  case (Cons c y)
  have n: "take (length pat) (c # y @ butlast pat) \<noteq> pat" "find_sub pat (y @ butlast pat) = None"
    using Cons.prems by (auto split: if_splits)
  have "take (length pat) (c # y @ pat @ rest) \<noteq> pat"
  proof
    assume t: "take (length pat) (c # y @ pat @ rest) = pat"
    obtain p z where pat: "pat = p @ [z]" using assms(2) by (metis append_butlast_last_id)
    have "take (length pat) (c # y @ pat @ rest) = take (length pat) (c # y @ butlast pat)"
      by (simp add: pat)
    then show False using t n(1) by simp
  qed
  then show ?case using Cons.IH [OF n(2)] by simp
qed

lemma parse_rendered:
  assumes "yaml fm = Some (y @ nl1)" "unyaml y = Some fm" "find_sub (nl1 @ ''---'' @ nl1) (y @ nl1 @ ''---'') = None"
  shows "parse_markdown unyaml (render_markdown yaml fm body) = Inr (fm, body)"
proof -
  have page: "render_markdown yaml fm body = (''---'' @ nl1) @ (y @ (nl1 @ ''---'' @ nl1) @ nl1 @ body)"
    by (simp add: render_markdown_def assms(1))
  have b: "butlast (nl1 @ ''---'' @ nl1) = nl1 @ ''---''" by (simp add: nl1_def)
  have "find_sub (nl1 @ ''---'' @ nl1) (y @ (nl1 @ ''---'' @ nl1) @ nl1 @ body) = Some (length y)"
    by (rule find_sub_at) (simp_all only: b assms(3) append_is_Nil_conv, simp add: nl1_def)
  then have split: "split_once (nl1 @ ''---'' @ nl1) (y @ (nl1 @ ''---'' @ nl1) @ nl1 @ body) = Some (y, nl1 @ body)"
    by (simp add: split_once_def nl1_def)
  have "without_prefix bom (render_markdown yaml fm body) = None"
    by (simp add: without_prefix_def starts_with_def bom_def page)
  moreover have "without_prefix (''---'' @ nl1) (render_markdown yaml fm body) = Some (y @ (nl1 @ ''---'' @ nl1) @ nl1 @ body)"
    unfolding page by (simp add: without_prefix_def starts_with_def)
  moreover have "without_prefix nl1 (nl1 @ body) = Some body" by (simp add: without_prefix_def starts_with_def)
  ultimately show ?thesis
    unfolding parse_markdown_def Let_def by (simp only: option.case or_else_def split prod.case assms(2))
qed

lemma write_page_facts:
  assumes "write_page wroot scope name content t = (Inr rel, t')"
  shows "rel = dir_name scope @ ''/'' @ name
    \<and> ft_files t' = filter (\<lambda>f. fst f \<noteq> wroot @ [dir_name scope, name]) (ft_files t) @ [(wroot @ [dir_name scope, name], content)]"
  using assms by (auto simp: write_page_def create_dir_all_def write_file_def Let_def split: if_splits)

lemma split_slash_plain: "CHR ''/'' \<notin> set s \<Longrightarrow> split_slash cur s = [rev cur @ s]"
  by (induction s arbitrary: cur) auto

lemma split_slash_at: "CHR ''/'' \<notin> set a \<Longrightarrow> split_slash cur (a @ CHR ''/'' # b) = (rev cur @ a) # split_slash [] b"
  by (induction a arbitrary: cur) auto

lemma join_root_page:
  assumes "CHR ''/'' \<notin> set name" "name \<notin> {[], ''.'', ''..''}"
  shows "join_root wroot (dir_name scope @ ''/'' @ name) = wroot @ [dir_name scope, name]"
proof -
  have d: "CHR ''/'' \<notin> set (dir_name scope)" "dir_name scope \<notin> {[], ''.'', ''..''}" by (cases scope; simp)+
  have "path_segments (dir_name scope @ ''/'' @ name) = [dir_name scope, name]"
    using split_slash_at [OF d(1), of "[]" name] split_slash_plain [OF assms(1), of "[]"]
    by (simp add: path_segments_def)
  moreover have "\<not> starts_with ''/'' (dir_name scope @ ''/'' @ name)"
    by (cases scope) (simp_all add: starts_with_def)
  ultimately show ?thesis using d(2) assms(2) by (simp add: join_root_def)
qed

lemma map_of_last_write: "map_of (filter (\<lambda>f. fst f \<noteq> p) fs @ [(p, c)]) p = Some c"
  by (induction fs) auto

lemma write_page_read:
  assumes "write_page wroot scope name (render_markdown yaml fm body) t = (Inr rel, t')"
    and "CHR ''/'' \<notin> set name" "name \<notin> {[], ''.'', ''..''}"
    and "yaml fm = Some (y @ nl1)" "unyaml y = Some fm" "find_sub (nl1 @ ''---'' @ nl1) (y @ nl1 @ ''---'') = None"
  shows "read_page unyaml wroot rel t' = Inr (fm, body)"
proof -
  have rel: "rel = dir_name scope @ ''/'' @ name"
    and files: "ft_files t' = filter (\<lambda>f. fst f \<noteq> wroot @ [dir_name scope, name]) (ft_files t)
      @ [(wroot @ [dir_name scope, name], render_markdown yaml fm body)]"
    using write_page_facts [OF assms(1)] by blast+
  show ?thesis
    unfolding read_page_def rel join_root_page [OF assms(2,3)] files map_of_last_write option.case
    by (rule parse_rendered [of yaml fm y unyaml, OF assms(4-6)])
qed

section \<open>Numbered pages\<close>

lemma read_nat_zeros: "read_nat (replicate k CHR ''0'' @ s) = read_nat s"
proof -
  have "foldl (\<lambda>n c. 10 * n + digit_value c) 0 (replicate k CHR ''0'') = 0"
    by (induction k) (simp_all add: digit_value_def)
  then show ?thesis by (simp add: read_nat_def)
qed

lemma pad3_digits: "list_all is_digit (pad3 n)" "pad3 n \<noteq> []"
  using show_nat_digits [of _ n] by (auto simp: pad3_def Let_def list_all_iff is_digit_def)

lemma digit_plain: "is_digit c \<Longrightarrow> c \<noteq> CHR ''-'' \<and> c \<noteq> CHR ''+'' \<and> c \<noteq> CHR ''/''"
  by (auto simp: is_digit_def)

lemma parse_pad3: "n < 2 ^ 32 \<Longrightarrow> parse_u32 (pad3 n) = Some n"
proof -
  assume n: "n < 2 ^ 32"
  obtain c cs where p: "pad3 n = c # cs" using pad3_digits(2) [of n] by (cases "pad3 n") auto
  then have "c \<noteq> CHR ''+''" using pad3_digits(1) [of n] digit_plain by simp
  then have "(case pad3 n of c # cs \<Rightarrow> if c = CHR ''+'' then cs else pad3 n | [] \<Rightarrow> []) = pad3 n" by (simp add: p)
  moreover have "read_nat (pad3 n) = n" by (simp add: pad3_def Let_def read_nat_zeros)
  ultimately show ?thesis using n pad3_digits [of n] by (simp add: parse_u32_def Let_def)
qed

lemma note_name_sequence: "n < 2 ^ 32 \<Longrightarrow> name_sequence (note_name n title) = Some n"
proof -
  assume n: "n < 2 ^ 32"
  have "takeWhile (\<lambda>c. c \<noteq> CHR ''-'') (pad3 n @ CHR ''-'' # w) = pad3 n" for w
    using pad3_digits(1) [of n] digit_plain by (subst takeWhile_append2) (auto simp: list_all_iff)
  then show ?thesis using parse_pad3 [OF n] by (simp add: name_sequence_def note_name_def)
qed

lemma slug_no_slash: "CHR ''/'' \<notin> set (sanitize_slug s)"
proof
  assume m: "CHR ''/'' \<in> set (sanitize_slug s)"
  have "list_all slug_char (sanitize_slug s)" using slug_normal_form_ok [of s] by (simp add: slug_ok_def)
  then have "slug_char CHR ''/''" using m by (auto simp: list_all_iff)
  then show False by (simp add: slug_char_def is_alnum_def byte_def)
qed

lemma note_name_plain: "CHR ''/'' \<notin> set (note_name n title)" "note_name n title \<notin> {[], ''.'', ''..''}"
proof -
  show "CHR ''/'' \<notin> set (note_name n title)"
    using pad3_digits(1) [of n] slug_no_slash [of title] digit_plain by (auto simp: note_name_def list_all_iff)
  have "0 < length (pad3 n)" using pad3_digits(2) by simp
  then have "4 < length (note_name n title)" unfolding note_name_def length_append by simp
  then show "note_name n title \<notin> {[], ''.'', ''..''}" by auto
qed

lemma fold_max_ge: "(x :: nat) \<in> set xs \<Longrightarrow> x \<le> fold max xs a"
proof -
  have init: "a \<le> fold max ys a" for ys and a :: nat by (induction ys arbitrary: a) (simp_all, metis max.coboundedI2 order_trans max.cobounded2)
  show "x \<in> set xs \<Longrightarrow> x \<le> fold max xs a"
  proof (induction xs arbitrary: a)
    case (Cons y ys)
    then show ?case using init [of "max y a" ys] by auto
  qed simp
qed

lemma fold_max_below: "\<lbrakk>\<And>x. x \<in> set xs \<Longrightarrow> x < n; a < n\<rbrakk> \<Longrightarrow> fold max xs a < (n :: nat)"
  by (induction xs arbitrary: a) auto

lemma parse_u32_below: "parse_u32 s = Some n \<Longrightarrow> n < 2 ^ 32"
  by (auto simp: parse_u32_def Let_def split: if_splits)

lemma next_sequence_fresh:
  assumes "next_sequence wroot scope t \<noteq> 0" "name \<in> set (entry_names (wroot @ [dir_name scope]) t)"
  shows "name_sequence name \<noteq> Some (next_sequence wroot scope t)"
proof
  let ?seqs = "List.map_filter name_sequence (entry_names (wroot @ [dir_name scope]) t)"
  assume n: "name_sequence name = Some (next_sequence wroot scope t)"
  have mem: "s \<in> set ?seqs \<longleftrightarrow> (\<exists>w\<in>set (entry_names (wroot @ [dir_name scope]) t). name_sequence w = Some s)" for s
    by (force simp: map_filter_def)
  then have "next_sequence wroot scope t \<in> set ?seqs" using n assms(2) by blast
  then have le: "next_sequence wroot scope t \<le> fold max ?seqs 0" by (rule fold_max_ge)
  have "s < 2 ^ 32" if "s \<in> set ?seqs" for s
    using that mem parse_u32_below by (auto simp: name_sequence_def)
  then have lt: "fold max ?seqs 0 < 2 ^ 32" by (intro fold_max_below) simp_all
  have "fold max ?seqs 0 + 1 < 2 ^ 32"
  proof (rule ccontr)
    assume "\<not> fold max ?seqs 0 + 1 < 2 ^ 32"
    then have "fold max ?seqs 0 + 1 = 2 ^ 32" using lt by simp
    then have "next_sequence wroot scope t = 0" unfolding next_sequence_def by simp
    then show False using assms(1) by simp
  qed
  then have "next_sequence wroot scope t = fold max ?seqs 0 + 1" unfolding next_sequence_def by (rule mod_less)
  then show False using le by simp
qed

lemma note_path_fresh:
  assumes "next_sequence wroot scope t \<noteq> 0"
  shows "(wroot @ [dir_name scope, note_name (next_sequence wroot scope t) title]) \<notin> set (map fst (ft_files t))"
proof
  let ?n = "next_sequence wroot scope t"
  assume "wroot @ [dir_name scope, note_name ?n title] \<in> set (map fst (ft_files t))"
  then have "note_name ?n title \<in> set (entry_names (wroot @ [dir_name scope]) t)"
    unfolding entry_names_def by (force simp: image_iff butlast_append)
  then have "name_sequence (note_name ?n title) \<noteq> Some ?n" using next_sequence_fresh assms by blast
  moreover have "?n < 2 ^ 32" by (simp add: next_sequence_def)
  ultimately show False using note_name_sequence by blast
qed

lemma filter_absent: "p \<notin> set (map fst fs) \<Longrightarrow> filter (\<lambda>f. fst f \<noteq> p) fs = fs"
  by (induction fs) auto

text \<open>
  C40: An analysis never overwrites a page: unless the number of the scope has wrapped to zero, the
  files are those before with the new page added, and reading the returned path gives the page.
\<close>

theorem analysis_added:
  assumes "persist_analysis yaml stamp wroot opt t = (Inr rel, t')" "next_sequence wroot Analyses t \<noteq> 0"
    and "yaml (note_frontmatter stamp (opt\<lparr>np_supersedes := None\<rparr>)) = Some (y @ nl1)"
    and "unyaml y = Some (note_frontmatter stamp (opt\<lparr>np_supersedes := None\<rparr>))"
    and "find_sub (nl1 @ ''---'' @ nl1) (y @ nl1 @ ''---'') = None"
  shows "(\<exists>p c. ft_files t' = ft_files t @ [(p, c)])
    \<and> read_page unyaml wroot rel t' = Inr (note_frontmatter stamp (opt\<lparr>np_supersedes := None\<rparr>), np_body opt)"
proof -
  note w = assms(1) [unfolded persist_analysis_def]
  have "ft_files t' = ft_files t @ [(wroot @ [dir_name Analyses, note_name (next_sequence wroot Analyses t) (np_title opt)],
      render_markdown yaml (note_frontmatter stamp (opt\<lparr>np_supersedes := None\<rparr>)) (np_body opt))]"
    using write_page_facts [OF w] filter_absent [OF note_path_fresh [OF assms(2)]] by simp
  then show ?thesis using write_page_read [where yaml = yaml and unyaml = unyaml and y = y, OF w note_name_plain assms(3-5)] by blast
qed

section \<open>Pages that are overwritten\<close>

lemma write_twice:
  assumes "write_page wroot scope name c1 t = (Inr r1, t1)" "write_page wroot scope name c2 t1 = (Inr r2, t2)"
  shows "r1 = r2 \<and> length (ft_files t2) = length (ft_files t1)
    \<and> map_of (ft_files t2) (wroot @ [dir_name scope, name]) = Some c2"
proof -
  let ?p = "wroot @ [dir_name scope, name]"
  let ?old = "filter (\<lambda>f. fst f \<noteq> ?p) (ft_files t)"
  have t1: "ft_files t1 = ?old @ [(?p, c1)]" using write_page_facts [OF assms(1)] by blast
  have "filter (\<lambda>f. fst f \<noteq> ?p) (ft_files t1) = ?old" unfolding t1 by simp
  then have t2: "ft_files t2 = ?old @ [(?p, c2)]" using write_page_facts [OF assms(2)] by simp
  have "map_of (ft_files t2) ?p = Some c2" unfolding t2 by (rule map_of_last_write)
  then show ?thesis using write_page_facts [OF assms(1)] write_page_facts [OF assms(2)] by (simp add: t1 t2)
qed

text \<open>
  Two searches of one day whose questions have the same slug are one page: the second is
  written in place of the first, and no file is added.
\<close>

theorem search_page_replaced:
  assumes "sanitize_slug (sp_query a) = sanitize_slug (sp_query b)"
    and "persist_search yaml date s1 wroot a t = (Inr r1, t1)" "persist_search yaml date s2 wroot b t1 = (Inr r2, t2)"
  shows "r1 = r2 \<and> length (ft_files t2) = length (ft_files t1)
    \<and> map_of (ft_files t2) (wroot @ [dir_name Searches, search_name date (sp_query a)])
        = Some (render_markdown yaml (search_frontmatter s2 b) (sp_body b))"
proof -
  have n: "search_name date (sp_query b) = search_name date (sp_query a)" by (simp add: search_name_def assms(1))
  show ?thesis
    using write_twice [OF assms(2) [unfolded persist_search_def] assms(3) [unfolded persist_search_def n]] .
qed

text \<open>
  The pages of two sessions whose ids differ only in characters that are dropped are one page.
\<close>

theorem session_page_replaced:
  assumes "sanitize_identifier (lp_id a) = sanitize_identifier (lp_id b)"
    and "persist_session yaml s1 wroot a t = (Inr r1, t1)" "persist_session yaml s2 wroot b t1 = (Inr r2, t2)"
  shows "r1 = r2 \<and> length (ft_files t2) = length (ft_files t1)"
  using write_twice [OF assms(2) [unfolded persist_session_def]] assms(3) by (simp add: persist_session_def assms(1))

section \<open>Raw pages\<close>

lemma resolve_keeps: "''..'' \<notin> set ss \<Longrightarrow> \<exists>q. resolve here ss = here @ q"
proof (induction ss arbitrary: here)
  case (Cons s ss)
  from Cons.IH [of here] Cons.IH [of "here @ [s]"] Cons.prems show ?case by auto
qed simp

lemma ft_files_mkdir: "create_dir_all p t = Some t' \<Longrightarrow> ft_files t' = ft_files t"
  by (auto simp: create_dir_all_def split: if_splits)

text \<open>
  A raw page whose path is relative and has no \<open>..\<close> changes no file outside of the wiki.
\<close>

theorem raw_page_contained:
  assumes "\<not> starts_with ''/'' path" "''..'' \<notin> set (path_segments path)" "take (length wroot) p \<noteq> wroot"
  shows "map_of (ft_files (snd (persist_raw wroot path body t))) p = map_of (ft_files t) p"
proof -
  obtain q where "resolve wroot (path_segments path) = wroot @ q" using resolve_keeps [OF assms(2)] by blast
  then have j: "join_root wroot path = wroot @ q" by (simp add: join_root_def assms(1))
  then have ne: "join_root wroot path \<noteq> p" using assms(3) by auto
  have other: "map_of (filter (\<lambda>f. fst f \<noteq> w) fs @ [(w, c)]) p = map_of fs p" if "w \<noteq> p" for w c and fs :: "(string list \<times> string) list"
    using that by (induction fs) (auto simp: map_add_def split: option.splits)
  show ?thesis
    using other [OF ne] by (auto simp: persist_raw_def write_file_def Let_def ft_files_mkdir split: option.splits)
qed

section \<open>Examples\<close>

definition demo_root :: "string list" where "demo_root = [''p'', ''.arags'', ''wiki'']"

definition demo_yaml :: "frontmatter \<Rightarrow> string option" where
  "demo_yaml fm = Some (''title: '' @ fm_title fm @ nl1)"

definition demo_note :: note_page where
  "demo_note = \<lparr>np_title = ''Cache keys'', np_project = Some ''p'', np_tags = [], np_body = ''See --- below'', np_supersedes = None\<rparr>"

definition demo_tree0 :: file_tree where "demo_tree0 = \<lparr>ft_dirs = [], ft_files = []\<rparr>"

lemma analysis_added_witness:
  "\<exists>rel t'. persist_analysis demo_yaml ''now'' demo_root demo_note demo_tree0 = (Inr rel, t')
    \<and> read_page (\<lambda>y. Some (note_frontmatter ''now'' demo_note)) demo_root rel t' = Inr (note_frontmatter ''now'' demo_note, ''See --- below'')"
proof -
  define t' where "t' = snd (persist_analysis demo_yaml ''now'' demo_root demo_note demo_tree0)"
  have seq: "next_sequence demo_root Analyses demo_tree0 = 1"
    by (simp add: next_sequence_def entry_names_def demo_tree0_def map_filter_def)
  have name: "note_name 1 (np_title demo_note) = ''001-cache-keys.md''" by code_simp
  have "fst (persist_analysis demo_yaml ''now'' demo_root demo_note demo_tree0) = Inr ''analyses/001-cache-keys.md''"
    unfolding persist_analysis_def seq name
    by (simp add: write_page_def create_dir_all_def path_prefixes_def is_file_def demo_tree0_def write_file_def demo_root_def)
  moreover have "next_sequence demo_root Analyses demo_tree0 \<noteq> 0" by (simp add: seq)
  moreover have "find_sub (nl1 @ ''---'' @ nl1) (''title: Cache keys'' @ nl1 @ ''---'') = None" by code_simp
  moreover have "demo_note\<lparr>np_supersedes := None\<rparr> = demo_note" by (simp add: demo_note_def)
  ultimately have run: "fst (persist_analysis demo_yaml ''now'' demo_root demo_note demo_tree0) = Inr ''analyses/001-cache-keys.md''"
    "next_sequence demo_root Analyses demo_tree0 \<noteq> 0"
    "find_sub (nl1 @ ''---'' @ nl1) (''title: Cache keys'' @ nl1 @ ''---'') = None"
    "demo_note\<lparr>np_supersedes := None\<rparr> = demo_note"
    by blast+
  then have "persist_analysis demo_yaml ''now'' demo_root demo_note demo_tree0 = (Inr ''analyses/001-cache-keys.md'', t')"
    by (simp add: t'_def prod_eq_iff)
  from analysis_added [OF this run(2), of "''title: Cache keys''" "\<lambda>y. Some (note_frontmatter ''now'' demo_note)"] run(3) this
  show ?thesis
    by (simp add: run(4) demo_yaml_def note_frontmatter_def new_frontmatter_def demo_note_def)
qed

definition demo_search :: "string \<Rightarrow> search_page" where
  "demo_search q = \<lparr>sp_query = q, sp_tier = ''fts'', sp_project = ''p'', sp_entities_of = [], sp_tags = [], sp_body = ''b''\<rparr>"

lemma search_page_replaced_witness:
  "length (ft_files (snd (persist_search demo_yaml ''2026-01-02'' ''now'' demo_root (demo_search ''Cache Keys!'')
     (snd (persist_search demo_yaml ''2026-01-02'' ''now'' demo_root (demo_search ''cache-keys'') demo_tree0))))) = 1"
proof -
  define a where "a = demo_search ''cache-keys''"
  define b where "b = demo_search ''Cache Keys!''"
  define t1 where "t1 = snd (persist_search demo_yaml ''2026-01-02'' ''now'' demo_root a demo_tree0)"
  define t2 where "t2 = snd (persist_search demo_yaml ''2026-01-02'' ''now'' demo_root b t1)"
  have run: "sanitize_slug (sp_query a) = sanitize_slug (sp_query b)"
    "fst (persist_search demo_yaml ''2026-01-02'' ''now'' demo_root a demo_tree0) = Inr ''searches/2026-01-02_cache-keys.md''"
    "fst (persist_search demo_yaml ''2026-01-02'' ''now'' demo_root b t1) = Inr ''searches/2026-01-02_cache-keys.md''"
    "length (ft_files t1) = 1"
    unfolding a_def b_def t1_def by code_simp+
  have "persist_search demo_yaml ''2026-01-02'' ''now'' demo_root a demo_tree0 = (Inr ''searches/2026-01-02_cache-keys.md'', t1)"
    "persist_search demo_yaml ''2026-01-02'' ''now'' demo_root b t1 = (Inr ''searches/2026-01-02_cache-keys.md'', t2)"
    using run by (simp_all add: t1_def t2_def prod_eq_iff)
  from search_page_replaced [OF run(1) this] have "length (ft_files t2) = 1" using run(4) by simp
  then show ?thesis by (simp add: t2_def t1_def a_def b_def)
qed

definition demo_session :: "string \<Rightarrow> log_page" where
  "demo_session i = \<lparr>lp_id = i, lp_project = ''p'', lp_body = ''b''\<rparr>"

lemma session_page_replaced_witness:
  "fst (persist_session demo_yaml ''t1'' demo_root (demo_session ''a/b'') demo_tree0) = Inr ''sessions/ab.md''
   \<and> (let t1 = snd (persist_session demo_yaml ''t1'' demo_root (demo_session ''a/b'') demo_tree0)
      in length (ft_files (snd (persist_session demo_yaml ''t2'' demo_root (demo_session ''ab'') t1))) = length (ft_files t1))"
proof -
  define t1 where "t1 = snd (persist_session demo_yaml ''t1'' demo_root (demo_session ''a/b'') demo_tree0)"
  define t2 where "t2 = snd (persist_session demo_yaml ''t2'' demo_root (demo_session ''ab'') t1)"
  have run: "sanitize_identifier (lp_id (demo_session ''a/b'')) = sanitize_identifier (lp_id (demo_session ''ab''))"
    "fst (persist_session demo_yaml ''t1'' demo_root (demo_session ''a/b'') demo_tree0) = Inr ''sessions/ab.md''"
    "fst (persist_session demo_yaml ''t2'' demo_root (demo_session ''ab'') t1) = Inr ''sessions/ab.md''"
    unfolding t1_def by code_simp+
  have "persist_session demo_yaml ''t1'' demo_root (demo_session ''a/b'') demo_tree0 = (Inr ''sessions/ab.md'', t1)"
    "persist_session demo_yaml ''t2'' demo_root (demo_session ''ab'') t1 = (Inr ''sessions/ab.md'', t2)"
    using run by (simp_all add: t1_def t2_def prod_eq_iff)
  from session_page_replaced [OF run(1) this] run(2) show ?thesis by (simp add: Let_def t2_def flip: t1_def)
qed

lemma raw_page_contained_witness:
  "map_of (ft_files (snd (persist_raw demo_root ''rules/no-unwrap.md'' ''x'' demo_tree0))) [''etc'', ''hosts''] = None"
proof -
  have "\<not> starts_with ''/'' ''rules/no-unwrap.md''" "''..'' \<notin> set (path_segments ''rules/no-unwrap.md'')"
    "take (length demo_root) [''etc'', ''hosts''] \<noteq> demo_root"
    by code_simp+
  from raw_page_contained [OF this, of "''x''" demo_tree0] show ?thesis by (simp add: demo_tree0_def)
qed

text \<open>Nothing asks that of the path: a raw page can leave the wiki, and the project.\<close>

theorem raw_page_escapes:
  "map_of (ft_files (snd (persist_raw demo_root ''../../../etc/hosts'' ''x'' demo_tree0))) [''etc'', ''hosts''] = Some ''x''
   \<and> map_of (ft_files (snd (persist_raw demo_root ''/etc/hosts'' ''x'' demo_tree0))) [''etc'', ''hosts''] = Some ''x''"
  by code_simp

end
