(* ===== verification/Llm_Client.thy ===== *)
theory Llm_Client
  imports Chunk_Index File_Filters
begin

text \<open>
  The client of language models
  (\<^verbatim>\<open>crates/arags-llm/src/{types,retry,transport,fallback,token_counter,pricing}.rs\<close>). What an
  attempt returns is a function of its number: the network is an argument, as are the parsers
  of the providers. Lemmas: the retry loop returns the first outcome that ends it, after at
  most the configured number of waits; which statuses are tried again; when the fallback
  answers; the longest known name decides the context window, in any order of the hash map;
  the token counter and its wrap-around.
\<close>

datatype llm_error =
    Http nat string
  | Api string
  | Rate_Limited nat
  | Auth_Failed string
  | Model_Not_Found string
  | Timed_Out nat
  | Connection_Failed string
  | Serialization_Failed string
  | Backend_Failed string

section \<open>Retrying\<close>

record retry_config =
  rt_max_retries :: nat
  rt_base_delay_ms :: nat
  rt_max_delay_ms :: nat

definition default_retry :: retry_config where
  "default_retry = \<lparr>rt_max_retries = 3, rt_base_delay_ms = 1000, rt_max_delay_ms = 30000\<rparr>"

definition backoff_factor :: real where "backoff_factor = 2"

text \<open>The cast to \<open>u64\<close> drops the fraction.\<close>

definition delay_for_attempt :: "retry_config \<Rightarrow> nat \<Rightarrow> nat" where
  "delay_for_attempt cfg attempt =
     nat \<lfloor>min (real (rt_base_delay_ms cfg) * backoff_factor powi (as_i32 attempt)) (real (rt_max_delay_ms cfg))\<rfloor>"

fun is_retryable :: "llm_error \<Rightarrow> bool" where
  "is_retryable (Rate_Limited _) = True"
| "is_retryable (Connection_Failed _) = True"
| "is_retryable (Timed_Out _) = True"
| "is_retryable (Http status _) = (status = 429 \<or> (500 \<le> status \<and> status < 600))"
| "is_retryable _ = False"

definition retry_delay :: "retry_config \<Rightarrow> nat \<Rightarrow> llm_error \<Rightarrow> nat" where
  "retry_delay cfg attempt e = (case e of Rate_Limited ms \<Rightarrow> ms | _ \<Rightarrow> delay_for_attempt cfg attempt)"

text \<open>
  The loop from an attempt on: its result and the waits. The code behind the loop is never
  reached, since the last attempt returns.
\<close>

function retry_from ::
  "retry_config \<Rightarrow> (nat \<Rightarrow> llm_error + 'a) \<Rightarrow> nat \<Rightarrow> (llm_error + 'a) \<times> nat list" where
  "retry_from cfg f attempt =
     (case f attempt of
        Inr r \<Rightarrow> (Inr r, [])
      | Inl e \<Rightarrow>
          if \<not> is_retryable e \<or> rt_max_retries cfg \<le> attempt then (Inl e, [])
          else let (r, waits) = retry_from cfg f (Suc attempt) in (r, retry_delay cfg attempt e # waits))"
  by pat_completeness auto
termination by (relation "measure (\<lambda>(cfg, _, attempt). rt_max_retries cfg - attempt)") auto

declare retry_from.simps [simp del]

definition retry_with_backoff :: "retry_config \<Rightarrow> (nat \<Rightarrow> llm_error + 'a) \<Rightarrow> (llm_error + 'a) \<times> nat list" where
  "retry_with_backoff cfg f = retry_from cfg f 0"

section \<open>Prices\<close>

record usage_summary =
  us_prompt :: nat
  us_completion :: nat
  us_total :: nat
  us_cost :: real

record completion_response =
  cr_content :: string
  cr_model :: string
  cr_usage :: usage_summary

type_synonym pricing_table = "(string \<times> real \<times> real) list"

definition cost_usd :: "real \<times> real \<Rightarrow> usage_summary \<Rightarrow> real" where
  "cost_usd p u = real (us_prompt u) / 1000000 * fst p + real (us_completion u) / 1000000 * snd p"

definition default_prices :: pricing_table where
  "default_prices =
     [(''gpt-4o'', 2.5, 10), (''gpt-4o-mini'', 0.15, 0.6), (''gpt-4-turbo'', 10, 30), (''gpt-4'', 30, 60),
      (''gpt-3.5-turbo'', 0.5, 1.5),
      (''claude-sonnet-4-20250514'', 3, 15), (''claude-3-5-sonnet-20241022'', 3, 15),
      (''claude-3-5-haiku-20241022'', 0.8, 4), (''claude-3-opus-20240229'', 15, 75),
      (''gemini-1.5-pro'', 1.25, 5), (''gemini-1.5-flash'', 0.075, 0.3),
      (''deepseek-v3'', 0.27, 1.1), (''deepseek-r1'', 0.55, 2.19),
      (''mimo'', 0, 0), (''llama3'', 0, 0), (''codellama'', 0, 0), (''mistral'', 0, 0)]"

definition register_price :: "string \<Rightarrow> real \<times> real \<Rightarrow> pricing_table \<Rightarrow> pricing_table" where
  "register_price model p tbl = (model, p) # filter (\<lambda>r. fst r \<noteq> model) tbl"

definition estimate_cost :: "pricing_table \<Rightarrow> string \<Rightarrow> usage_summary \<Rightarrow> real" where
  "estimate_cost tbl model u = (case map_of tbl model of Some p \<Rightarrow> cost_usd p u | None \<Rightarrow> 0)"

definition estimate_default :: "string \<Rightarrow> usage_summary \<Rightarrow> real" where
  "estimate_default model u = estimate_cost default_prices model u"

section \<open>One request\<close>

text \<open>What the network gives an attempt: an error of the connection, or a status with a body.\<close>

type_synonym http_outcome = "string + nat \<times> string"

definition http_attempt ::
  "(nat \<Rightarrow> string \<Rightarrow> string) \<Rightarrow> (string \<Rightarrow> llm_error + completion_response) \<Rightarrow> http_outcome
     \<Rightarrow> llm_error + completion_response" where
  "http_attempt extract_error map_success out =
     (case out of
        Inl msg \<Rightarrow> Inl (Connection_Failed msg)
      | Inr (status, body) \<Rightarrow>
          if status = 429 then Inl (Rate_Limited 1000)
          else if \<not> (200 \<le> status \<and> status < 300) then Inl (Http status (extract_error status body))
          else (case map_success body of
                  Inl e \<Rightarrow> Inl e
                | Inr r \<Rightarrow> Inr (r\<lparr>cr_usage := (cr_usage r)\<lparr>us_cost := estimate_default (cr_model r) (cr_usage r)\<rparr>\<rparr>)))"

definition request_completion ::
  "retry_config \<Rightarrow> (nat \<Rightarrow> string \<Rightarrow> string) \<Rightarrow> (string \<Rightarrow> llm_error + completion_response) \<Rightarrow> (nat \<Rightarrow> http_outcome)
     \<Rightarrow> (llm_error + completion_response) \<times> nat list" where
  "request_completion cfg extract_error map_success net =
     retry_with_backoff cfg (\<lambda>i. http_attempt extract_error map_success (net i))"

section \<open>The fallback\<close>

text \<open>A backend: its health check and its completion.\<close>

record llm_backend =
  lb_health :: "llm_error + unit"
  lb_complete :: "string \<Rightarrow> llm_error + completion_response"

definition fallback_complete :: "llm_backend \<Rightarrow> llm_backend option \<Rightarrow> bool \<Rightarrow> string \<Rightarrow> llm_error + completion_response" where
  "fallback_complete primary fb check_health request =
     (case (if check_health then lb_health primary else Inr ()) of
        Inl e \<Rightarrow> (case fb of Some b \<Rightarrow> lb_complete b request | None \<Rightarrow> Inl e)
      | Inr _ \<Rightarrow>
          (case lb_complete primary request of
             Inr r \<Rightarrow> Inr r
           | Inl e \<Rightarrow> (case fb of Some b \<Rightarrow> lb_complete b request | None \<Rightarrow> Inl e)))"

section \<open>Context windows and tokens\<close>

definition context_limits :: "(string \<times> nat) list" where
  "context_limits =
     [(''gpt-4o'', 128000), (''gpt-4o-mini'', 128000), (''gpt-4-turbo'', 128000), (''gpt-4'', 8192),
      (''gpt-3.5-turbo'', 16385), (''o1'', 200000), (''o3'', 200000),
      (''claude-4'', 1000000), (''claude-3.5-sonnet'', 200000), (''claude-3-opus'', 200000),
      (''claude-3-sonnet'', 200000), (''claude-3-haiku'', 200000), (''claude'', 200000),
      (''gemini-2.5'', 1000000), (''gemini-2.0'', 1000000), (''gemini-1.5-pro'', 2000000),
      (''gemini-1.5-flash'', 1000000), (''gemini'', 1000000),
      (''deepseek-v4'', 1000000), (''deepseek-v3'', 131072), (''deepseek-r1'', 131072), (''deepseek'', 131072),
      (''mimo'', 131072), (''qwen3-max'', 256000), (''qwen3'', 131072),
      (''llama-4'', 1000000), (''llama-3.3'', 131072), (''llama-3.1'', 131072), (''llama-3'', 8192)]"

text \<open>The hash map is walked in the order \<open>entries\<close>; a key wins when it is longer than the best so far.\<close>

definition context_step :: "string \<Rightarrow> string \<times> nat \<Rightarrow> nat \<times> nat \<Rightarrow> nat \<times> nat" where
  "context_step lower entry best =
     (if contains_text (fst entry) lower \<and> fst best < length (fst entry) then (length (fst entry), snd entry) else best)"

definition get_context_limit :: "(string \<times> nat) list \<Rightarrow> string \<Rightarrow> nat" where
  "get_context_limit entries model = snd (fold (context_step (ascii_lower model)) entries (0, 128000))"

record token_counter =
  tc_prompt :: "32 word"
  tc_completion :: "32 word"
  tc_budget :: "32 word"

definition new_counter :: "32 word \<Rightarrow> token_counter" where
  "new_counter budget = \<lparr>tc_prompt = 0, tc_completion = 0, tc_budget = budget\<rparr>"

definition is_punct :: "char \<Rightarrow> bool" where
  "is_punct c \<longleftrightarrow> (let n = byte c in (33 \<le> n \<and> n \<le> 47) \<or> (58 \<le> n \<and> n \<le> 64) \<or> (91 \<le> n \<and> n \<le> 96) \<or> (123 \<le> n \<and> n \<le> 126))"

text \<open>The quarters are exact in \<open>f64\<close>; the cast saturates.\<close>

definition count_tokens :: "string \<Rightarrow> nat" where
  "count_tokens s =
     (if s = [] then 0
      else let chars = length (filter (\<lambda>c. \<not> is_cont c) s); punct = length (filter is_punct s)
           in max 1 (min (nat \<lceil>real chars / 4 + real punct / 4\<rceil>) (2 ^ 32 - 1)))"

definition record_tokens :: "32 word \<Rightarrow> 32 word \<Rightarrow> token_counter \<Rightarrow> token_counter" where
  "record_tokens p c t = t\<lparr>tc_prompt := tc_prompt t + p, tc_completion := tc_completion t + c\<rparr>"

definition total_used :: "token_counter \<Rightarrow> 32 word" where
  "total_used t = tc_prompt t + tc_completion t"

definition remaining_tokens :: "token_counter \<Rightarrow> 32 word" where
  "remaining_tokens t = (if total_used t \<le> tc_budget t then tc_budget t - total_used t else 0)"

definition is_within_budget :: "token_counter \<Rightarrow> bool" where
  "is_within_budget t \<longleftrightarrow> 0 < remaining_tokens t"

definition check_budget :: "token_counter \<Rightarrow> string + unit" where
  "check_budget t = (if \<not> is_within_budget t then Inl ''token budget exhausted'' else Inr ())"

definition reset_tokens :: "token_counter \<Rightarrow> token_counter" where
  "reset_tokens t = t\<lparr>tc_prompt := 0, tc_completion := 0\<rparr>"

section \<open>The retry loop\<close>

text \<open>An outcome that ends the loop: a success, or an error that is not tried again.\<close>

definition ends_loop :: "llm_error + 'a \<Rightarrow> bool" where
  "ends_loop out = (case out of Inr _ \<Rightarrow> True | Inl e \<Rightarrow> \<not> is_retryable e)"

lemma retry_from_exact:
  assumes "attempt \<le> rt_max_retries cfg"
  shows "\<exists>n. attempt \<le> n \<and> n \<le> rt_max_retries cfg \<and> (\<forall>i. attempt \<le> i \<and> i < n \<longrightarrow> \<not> ends_loop (f i))
    \<and> (ends_loop (f n) \<or> n = rt_max_retries cfg)
    \<and> retry_from cfg f attempt = (f n, map (\<lambda>i. retry_delay cfg i (projl (f i))) [attempt..<n])"
  using assms
proof (induction cfg f attempt rule: retry_from.induct)
  case (1 cfg f attempt)
  show ?case
  proof (cases "ends_loop (f attempt) \<or> attempt = rt_max_retries cfg")
    case True
    then have "retry_from cfg f attempt = (f attempt, [])"
      by (subst retry_from.simps) (auto simp: ends_loop_def split: sum.splits)
    then show ?thesis using True "1.prems" by (intro exI [of _ attempt]) auto
  next
    case False
    then obtain e where e: "f attempt = Inl e" "is_retryable e" by (auto simp: ends_loop_def split: sum.splits)
    have lt: "\<not> (\<not> is_retryable e \<or> rt_max_retries cfg \<le> attempt)" using False e "1.prems" by simp
    then have "Suc attempt \<le> rt_max_retries cfg" by simp
    from "1.IH" [OF e(1) lt this] obtain n where n: "Suc attempt \<le> n" "n \<le> rt_max_retries cfg"
        "\<forall>i. Suc attempt \<le> i \<and> i < n \<longrightarrow> \<not> ends_loop (f i)" "ends_loop (f n) \<or> n = rt_max_retries cfg"
        "retry_from cfg f (Suc attempt) = (f n, map (\<lambda>i. retry_delay cfg i (projl (f i))) [Suc attempt..<n])"
      by blast
    have "retry_from cfg f attempt = (f n, map (\<lambda>i. retry_delay cfg i (projl (f i))) [attempt..<n])"
      using n(1,5) e lt by (subst retry_from.simps) (simp add: upt_conv_Cons)
    moreover have "\<not> ends_loop (f i)" if "attempt \<le> i" "i < n" for i
      using that n(3) False by (cases "i = attempt") auto
    ultimately show ?thesis using n by (intro exI [of _ n]) auto
  qed
qed

text \<open>
  The loop returns the first outcome that ends it among the first attempts, or the last of
  them; it waits once before each further attempt, at most as often as configured, and no wait
  that the server did not ask for is longer than the configured maximum.
\<close>

theorem retry_exact:
  "\<exists>n \<le> rt_max_retries cfg. (\<forall>i < n. \<not> ends_loop (f i)) \<and> (ends_loop (f n) \<or> n = rt_max_retries cfg)
    \<and> retry_with_backoff cfg f = (f n, map (\<lambda>i. retry_delay cfg i (projl (f i))) [0..<n])
    \<and> (\<forall>i. delay_for_attempt cfg i \<le> rt_max_delay_ms cfg)"
proof -
  have d: "delay_for_attempt cfg i \<le> rt_max_delay_ms cfg" for i
  proof -
    have "\<lfloor>min (real (rt_base_delay_ms cfg) * backoff_factor powi as_i32 i) (real (rt_max_delay_ms cfg))\<rfloor> \<le> int (rt_max_delay_ms cfg)"
      by (metis floor_mono floor_of_nat min.cobounded2)
    then show ?thesis by (simp add: delay_for_attempt_def nat_le_iff)
  qed
  obtain n where "n \<le> rt_max_retries cfg" "\<forall>i. 0 \<le> i \<and> i < n \<longrightarrow> \<not> ends_loop (f i)" "ends_loop (f n) \<or> n = rt_max_retries cfg"
      "retry_from cfg f 0 = (f n, map (\<lambda>i. retry_delay cfg i (projl (f i))) [0..<n])"
    using retry_from_exact [of 0 cfg f] by auto
  then show ?thesis using d unfolding retry_with_backoff_def by (intro exI [of _ n]) simp
qed

lemma request_outcome:
  "\<exists>n \<le> rt_max_retries cfg. request_completion cfg ex ok net
      = (http_attempt ex ok (net n), map (\<lambda>i. retry_delay cfg i (projl (http_attempt ex ok (net i)))) [0..<n])
    \<and> (ends_loop (http_attempt ex ok (net n)) \<or> n = rt_max_retries cfg) \<and> (\<forall>i < n. \<not> ends_loop (http_attempt ex ok (net i)))"
  using retry_from_exact [of 0 cfg "\<lambda>i. http_attempt ex ok (net i)"]
  by (auto simp: request_completion_def retry_with_backoff_def)

text \<open>
  A request that the server refuses with a client error other than 429 is not sent again, and
  the error carries the status and the provider's message.
\<close>

theorem client_error_final:
  assumes "net 0 = Inr (status, body)" "400 \<le> status" "status < 500" "status \<noteq> 429"
  shows "request_completion cfg ex ok net = (Inl (Http status (ex status body)), [])"
proof -
  have a: "http_attempt ex ok (net 0) = Inl (Http status (ex status body))" using assms by (simp add: http_attempt_def)
  have e: "ends_loop (http_attempt ex ok (net 0))" unfolding a using assms by (simp add: ends_loop_def)
  obtain n where n: "request_completion cfg ex ok net
      = (http_attempt ex ok (net n), map (\<lambda>i. retry_delay cfg i (projl (http_attempt ex ok (net i)))) [0..<n])"
      "\<forall>i < n. \<not> ends_loop (http_attempt ex ok (net i))"
    using request_outcome by blast
  then have "n = 0" using e by (cases n) auto
  then show ?thesis using n(1) a by simp
qed

text \<open>
  Completion with a fallback succeeds exactly when the primary is asked and answers, or the
  fallback exists, is asked and answers; an error is that of the backend asked last.
\<close>

theorem fallback_exact:
  "fallback_complete primary fb check_health request =
     (let asked = (\<not> check_health \<or> isl (lb_health primary) = False)
      in if asked \<and> \<not> isl (lb_complete primary request) then lb_complete primary request
         else case fb of
                Some b \<Rightarrow> lb_complete b request
              | None \<Rightarrow> if asked then lb_complete primary request else Inl (projl (lb_health primary)))"
  by (auto simp: fallback_complete_def Let_def split: sum.splits option.splits)

section \<open>Context windows\<close>

definition longest_match :: "string \<Rightarrow> (string \<times> nat) set \<Rightarrow> string \<times> nat \<Rightarrow> bool" where
  "longest_match lower es e \<longleftrightarrow> e \<in> es \<and> contains_text (fst e) lower
     \<and> (\<forall>e'\<in>es. contains_text (fst e') lower \<longrightarrow> length (fst e') \<le> length (fst e))"

lemma context_fold:
  "(fold (context_step lower) es best = best \<and> (\<forall>e\<in>set es. contains_text (fst e) lower \<longrightarrow> length (fst e) \<le> fst best))
    \<or> (\<exists>e. longest_match lower (set es) e \<and> fold (context_step lower) es best = (length (fst e), snd e) \<and> fst best < length (fst e))"
proof (induction es arbitrary: best)
  case (Cons e es)
  let ?b = "context_step lower e best"
  have step: "fold (context_step lower) (e # es) best = fold (context_step lower) es ?b" by simp
  show ?case
  proof (cases "contains_text (fst e) lower \<and> fst best < length (fst e)")
    case True
    then have b: "?b = (length (fst e), snd e)" by (simp add: context_step_def)
    from Cons.IH [of ?b] show ?thesis
    proof (elim disjE exE conjE)
      assume r: "fold (context_step lower) es ?b = ?b" "\<forall>e'\<in>set es. contains_text (fst e') lower \<longrightarrow> length (fst e') \<le> fst ?b"
      have "longest_match lower (set (e # es)) e" using r(2) True by (simp add: longest_match_def b)
      then show ?thesis using r(1) True unfolding step b by blast
    next
      fix e2 assume r: "longest_match lower (set es) e2" "fold (context_step lower) es ?b = (length (fst e2), snd e2)"
        "fst ?b < length (fst e2)"
      have "longest_match lower (set (e # es)) e2" using r(1,3) by (simp add: longest_match_def b)
      moreover have "fst best < length (fst e2)" using r(3) True by (simp add: b)
      ultimately show ?thesis using r(2) unfolding step by blast
    qed
  next
    case False
    then have b: "?b = best" by (auto simp: context_step_def)
    from Cons.IH [of best] show ?thesis
    proof (elim disjE exE conjE)
      assume "fold (context_step lower) es best = best" "\<forall>e'\<in>set es. contains_text (fst e') lower \<longrightarrow> length (fst e') \<le> fst best"
      then show ?thesis using False unfolding step b by auto
    next
      fix e2 assume r: "longest_match lower (set es) e2" "fold (context_step lower) es best = (length (fst e2), snd e2)"
        "fst best < length (fst e2)"
      have "longest_match lower (set (e # es)) e2" using r(1,3) False by (auto simp: longest_match_def)
      then show ?thesis using r(2,3) unfolding step b by blast
    qed
  qed
qed simp

text \<open>
  Whatever the order of the hash map, the window is that of a longest known name contained in
  the model's name, and 128000 when none is.
\<close>

theorem context_limit_longest:
  assumes "set entries = set context_limits"
  shows "(\<exists>e. longest_match (ascii_lower model) (set context_limits) e \<and> get_context_limit entries model = snd e)
    \<or> (get_context_limit entries model = 128000 \<and> (\<forall>e\<in>set context_limits. \<not> contains_text (fst e) (ascii_lower model)))"
proof -
  have "list_all (\<lambda>e. 0 < length (fst e)) context_limits" by (simp add: context_limits_def)
  then have pos: "0 < length (fst e)" if "e \<in> set context_limits" for e using that unfolding list_all_iff by blast
  from context_fold [of "ascii_lower model" entries "(0, 128000)"] show ?thesis
  proof (elim disjE exE conjE)
    assume r: "fold (context_step (ascii_lower model)) entries (0, 128000) = (0, 128000)"
      "\<forall>e\<in>set entries. contains_text (fst e) (ascii_lower model) \<longrightarrow> length (fst e) \<le> fst (0 :: nat, 128000 :: nat)"
    have "\<forall>e\<in>set context_limits. \<not> contains_text (fst e) (ascii_lower model)"
      using r(2) pos unfolding assms fst_conv by (metis not_le)
    then show ?thesis unfolding get_context_limit_def r(1) by simp
  next
    fix e assume "longest_match (ascii_lower model) (set entries) e"
      "fold (context_step (ascii_lower model)) entries (0, 128000) = (length (fst e), snd e)"
    then have "longest_match (ascii_lower model) (set context_limits) e \<and> get_context_limit entries model = snd e"
      unfolding get_context_limit_def assms by simp
    then show ?thesis by blast
  qed
qed

section \<open>The token counter\<close>

text \<open>While no sum reaches \<open>2 ^ 32\<close> the budget is checked against the tokens recorded.\<close>

theorem budget_exact:
  assumes "unat (tc_prompt t) + unat (tc_completion t) < 2 ^ 32"
  shows "is_within_budget t \<longleftrightarrow> unat (tc_prompt t) + unat (tc_completion t) < unat (tc_budget t)"
proof -
  have u: "unat (total_used t) = unat (tc_prompt t) + unat (tc_completion t)"
    using assms by (simp add: total_used_def unat_add_lem [THEN iffD1])
  have "0 < remaining_tokens t \<longleftrightarrow> total_used t < tc_budget t"
    by (auto simp: remaining_tokens_def word_less_nat_alt word_le_nat_alt unat_sub word_neq_0_conv [symmetric] simp flip: unat_gt_0)
  then show ?thesis by (simp add: is_within_budget_def word_less_nat_alt u)
qed

text \<open>After \<open>2 ^ 32\<close> tokens the counters start again: an exhausted budget is whole once more.\<close>

theorem budget_wraps:
  "check_budget (record_tokens 0xFFFFFFFF 0 (new_counter 1000)) = Inl ''token budget exhausted''
   \<and> remaining_tokens (record_tokens 1 0 (record_tokens 0xFFFFFFFF 0 (new_counter 1000))) = 1000"
  by (simp add: check_budget_def is_within_budget_def remaining_tokens_def total_used_def record_tokens_def new_counter_def)

section \<open>Examples\<close>

lemma client_error_final_witness:
  "request_completion default_retry (\<lambda>_ b. b) (\<lambda>_. Inl (Serialization_Failed [])) (\<lambda>_. Inr (404, ''no'')) = (Inl (Http 404 ''no''), [])"
  by (rule client_error_final) simp_all

lemma context_limit_longest_witness: "get_context_limit context_limits ''Claude-3-opus'' = 200000"
proof -
  have low: "ascii_lower ''Claude-3-opus'' = ''claude-3-opus''" by code_simp
  have "list_all (\<lambda>e. contains_text (fst e) ''claude-3-opus'' \<longrightarrow> snd e = 200000) context_limits"
    "list_ex (\<lambda>e. contains_text (fst e) ''claude-3-opus'') context_limits"
    by (simp_all add: context_limits_def contains_text_def)
  then show ?thesis using context_limit_longest [OF refl, of "''Claude-3-opus''"]
    unfolding list_all_iff list_ex_iff longest_match_def low by metis
qed

lemma budget_exact_witness: "is_within_budget (record_tokens 400 500 (new_counter 1000))"
  using budget_exact [of "record_tokens 400 500 (new_counter 1000)"] by (simp add: record_tokens_def new_counter_def)

end
