(* ===== verification/Salience.thy ===== *)
theory Salience
  imports Similarity
begin

text \<open>
  How much a memory entry is worth keeping (\<^verbatim>\<open>crates/arags-memory/src/decay.rs\<close>), over the reals.
  Lemmas: the score is a weighted mean of three components in \<open>[0, 1]\<close>, so its clamp never acts;
  it falls with the time since the last access and rises with the number of accesses; and it
  never falls below a floor, because ages saturate at 32 bits of milliseconds.
\<close>

record salience_config =
  sc_half_life_ms :: real
  sc_recency_weight :: real
  sc_frequency_weight :: real
  sc_age_weight :: real

definition default_salience_config :: salience_config where
  "default_salience_config =
     \<lparr>sc_half_life_ms = 30 * 24 * 3600 * 1000, sc_recency_weight = 6 / 10, sc_frequency_weight = 3 / 10,
      sc_age_weight = 1 / 10\<rparr>"

text \<open>Times and counts are \<open>u64\<close>.\<close>

record salience_input =
  si_created_at_ms :: nat
  si_last_accessed_at_ms :: nat
  si_access_count :: nat
  si_now_ms :: nat

definition to_u32 :: "nat \<Rightarrow> nat" where
  "to_u32 n = min n 4294967295"

definition recency_score :: "nat \<Rightarrow> real \<Rightarrow> real" where
  "recency_score age_ms half_life_ms =
     (if half_life_ms \<le> 0 then 0 else (1 / 2) powr (real (to_u32 age_ms) / half_life_ms))"

definition frequency_score :: "nat \<Rightarrow> real" where
  "frequency_score access_count = 1 - 1 / (1 + real (to_u32 access_count))"

definition age_penalty :: "nat \<Rightarrow> real \<Rightarrow> real" where
  "age_penalty age_ms half_life_ms =
     (if half_life_ms \<le> 0 then 1 else 1 - (1 / 2) powr (real (to_u32 age_ms) / half_life_ms))"

definition compute_salience :: "salience_input \<Rightarrow> salience_config \<Rightarrow> real" where
  "compute_salience inp cfg =
     (let total = sc_recency_weight cfg + sc_frequency_weight cfg + sc_age_weight cfg
      in if total \<le> 0 then 0
         else let recency_age = si_now_ms inp - si_last_accessed_at_ms inp;
                  creation_age = si_now_ms inp - si_created_at_ms inp;
                  recency = recency_score recency_age (sc_half_life_ms cfg);
                  frequency = frequency_score (si_access_count inp);
                  age = age_penalty creation_age (sc_half_life_ms cfg);
                  raw = sc_recency_weight cfg * recency + sc_frequency_weight cfg * frequency
                        + sc_age_weight cfg * (1 - age)
              in clamp 0 1 (raw / total))"

definition should_evict :: "real \<Rightarrow> real \<Rightarrow> bool" where
  "should_evict salience min_salience \<longleftrightarrow> salience < min_salience"

section \<open>The components\<close>

lemma recency_range: "0 \<le> recency_score a h \<and> recency_score a h \<le> 1"
proof (cases "h \<le> 0")
  case False
  then have "(1 / 2) powr (real (to_u32 a) / h) \<le> ((1 / 2) powr 0 :: real)" by (intro powr_mono') simp_all
  then show ?thesis using False by (simp add: recency_score_def)
qed (simp add: recency_score_def)

lemma age_penalty_recency: "1 - age_penalty a h = recency_score a h"
  by (simp add: age_penalty_def recency_score_def)

lemma frequency_range: "0 \<le> frequency_score n \<and> frequency_score n \<le> 1"
  by (simp add: frequency_score_def)

lemma recency_anti: "a \<le> b \<Longrightarrow> recency_score b h \<le> recency_score a h"
proof (cases "h \<le> 0")
  case False
  assume "a \<le> b"
  then have "real (to_u32 a) / h \<le> real (to_u32 b) / h" using False by (simp add: to_u32_def divide_right_mono)
  then have "(1 / 2) powr (real (to_u32 b) / h) \<le> ((1 / 2) powr (real (to_u32 a) / h) :: real)" by (intro powr_mono') simp_all
  then show ?thesis using False by (simp add: recency_score_def)
qed (simp add: recency_score_def)

lemma frequency_mono: "m \<le> n \<Longrightarrow> frequency_score m \<le> frequency_score n"
proof -
  assume "m \<le> n"
  then have "real (to_u32 m) \<le> real (to_u32 n)" by (simp add: to_u32_def)
  then have "1 / (1 + real (to_u32 n)) \<le> 1 / (1 + real (to_u32 m))" by (intro divide_left_mono) simp_all
  then show ?thesis by (simp add: frequency_score_def)
qed

definition weights_ok :: "salience_config \<Rightarrow> bool" where
  "weights_ok cfg \<longleftrightarrow> 0 \<le> sc_recency_weight cfg \<and> 0 \<le> sc_frequency_weight cfg \<and> 0 \<le> sc_age_weight cfg
     \<and> 0 < sc_recency_weight cfg + sc_frequency_weight cfg + sc_age_weight cfg"

definition weighted_mean :: "salience_input \<Rightarrow> salience_config \<Rightarrow> real" where
  "weighted_mean inp cfg =
     (sc_recency_weight cfg * recency_score (si_now_ms inp - si_last_accessed_at_ms inp) (sc_half_life_ms cfg)
      + sc_frequency_weight cfg * frequency_score (si_access_count inp)
      + sc_age_weight cfg * recency_score (si_now_ms inp - si_created_at_ms inp) (sc_half_life_ms cfg))
     / (sc_recency_weight cfg + sc_frequency_weight cfg + sc_age_weight cfg)"

lemma weighted_mean_range:
  assumes "weights_ok cfg"
  shows "0 \<le> weighted_mean inp cfg \<and> weighted_mean inp cfg \<le> 1"
proof -
  let ?r = "recency_score (si_now_ms inp - si_last_accessed_at_ms inp) (sc_half_life_ms cfg)"
  let ?f = "frequency_score (si_access_count inp)"
  let ?a = "recency_score (si_now_ms inp - si_created_at_ms inp) (sc_half_life_ms cfg)"
  have w: "0 \<le> sc_recency_weight cfg" "0 \<le> sc_frequency_weight cfg" "0 \<le> sc_age_weight cfg"
    "0 < sc_recency_weight cfg + sc_frequency_weight cfg + sc_age_weight cfg"
    using assms by (simp_all add: weights_ok_def)
  have le: "sc_recency_weight cfg * ?r \<le> sc_recency_weight cfg" "sc_frequency_weight cfg * ?f \<le> sc_frequency_weight cfg"
      "sc_age_weight cfg * ?a \<le> sc_age_weight cfg"
    using w recency_range frequency_range by (simp_all add: mult_left_le)
  have ge: "0 \<le> sc_recency_weight cfg * ?r" "0 \<le> sc_frequency_weight cfg * ?f" "0 \<le> sc_age_weight cfg * ?a"
    using w recency_range frequency_range by simp_all
  show ?thesis unfolding weighted_mean_def using le ge w(4) by (simp add: divide_le_eq)
qed

lemma salience_mean: "weights_ok cfg \<Longrightarrow> compute_salience inp cfg = weighted_mean inp cfg"
proof -
  assume ok: "weights_ok cfg"
  have "clamp 0 1 (weighted_mean inp cfg) = weighted_mean inp cfg"
    using weighted_mean_range [OF ok, of inp] by (simp add: clamp_def)
  then show ?thesis using ok
    by (simp add: compute_salience_def Let_def age_penalty_recency weights_ok_def flip: weighted_mean_def)
qed

section \<open>Properties\<close>

text \<open>
  With weights that are not negative and not all zero the score is the weighted mean of its
  three components and lies in \<open>[0, 1]\<close>: the clamp changes nothing.
\<close>

theorem salience_exact:
  assumes "weights_ok cfg"
  shows "compute_salience inp cfg = weighted_mean inp cfg \<and> 0 \<le> compute_salience inp cfg \<and> compute_salience inp cfg \<le> 1"
  using salience_mean [OF assms] weighted_mean_range [OF assms] by simp

text \<open>A later access and a greater count never lower the score.\<close>

theorem salience_monotone:
  assumes "weights_ok cfg" "si_now_ms b = si_now_ms a" "si_created_at_ms b = si_created_at_ms a"
    "si_last_accessed_at_ms a \<le> si_last_accessed_at_ms b" "si_access_count a \<le> si_access_count b"
  shows "compute_salience a cfg \<le> compute_salience b cfg"
proof -
  have "recency_score (si_now_ms a - si_last_accessed_at_ms a) h \<le> recency_score (si_now_ms a - si_last_accessed_at_ms b) h" for h
    using assms(4) by (intro recency_anti) simp
  moreover have "frequency_score (si_access_count a) \<le> frequency_score (si_access_count b)" by (rule frequency_mono [OF assms(5)])
  ultimately show ?thesis
    using assms(1) unfolding salience_mean [OF assms(1)] weighted_mean_def assms(2,3) weights_ok_def
    by (intro divide_right_mono add_mono mult_left_mono) simp_all
qed

lemma recency_floor: "3 / 10 \<le> recency_score a 2592000000"
proof -
  let ?x = "(1 / 2) powr (5 / 3) :: real"
  have "real (to_u32 a) / 2592000000 \<le> 5 / 3" by (simp add: to_u32_def)
  then have ge: "?x \<le> (1 / 2) powr (real (to_u32 a) / 2592000000)" by (intro powr_mono') simp_all
  have pos: "0 < ?x" by simp
  have "?x ^ 3 = ((1 / 2) powr (5 / 3)) powr (real 3)" by (simp only: powr_realpow [OF pos])
  also have "\<dots> = (1 / 2) powr (real 5)" by (simp add: powr_powr)
  also have "\<dots> = (1 / 2) ^ 5" by (rule powr_realpow) simp
  finally have cube: "?x ^ 3 = 1 / 32" by (simp add: power_divide)
  have "3 / 10 \<le> ?x"
  proof (rule ccontr)
    assume "\<not> 3 / 10 \<le> ?x"
    then have "?x ^ 3 < (3 / 10) ^ 3" using pos by (intro power_strict_mono) simp_all
    then show False unfolding cube by (simp add: power3_eq_cube)
  qed
  then show ?thesis using ge by (simp add: recency_score_def)
qed

text \<open>
  With the default settings no entry, however old and however rarely used, scores less than
  one fifth, so a threshold up to that evicts nothing.
\<close>

theorem salience_floor: "1 / 5 \<le> compute_salience inp default_salience_config \<and> \<not> should_evict (compute_salience inp default_salience_config) (1 / 5)"
proof -
  have ok: "weights_ok default_salience_config" by (simp add: weights_ok_def default_salience_config_def)
  have "weighted_mean inp default_salience_config
      = 6 / 10 * recency_score (si_now_ms inp - si_last_accessed_at_ms inp) 2592000000 + 3 / 10 * frequency_score (si_access_count inp)
        + 1 / 10 * recency_score (si_now_ms inp - si_created_at_ms inp) 2592000000"
    by (simp add: weighted_mean_def default_salience_config_def)
  moreover have "1 / 5 \<le> 6 / 10 * recency_score x 2592000000 + 3 / 10 * frequency_score n + 1 / 10 * recency_score y 2592000000" for x n y
    using recency_floor [of x] recency_floor [of y] frequency_range [of n] by linarith
  ultimately show ?thesis unfolding salience_mean [OF ok] should_evict_def by (metis not_le)
qed

lemma salience_exact_witness:
  "compute_salience \<lparr>si_created_at_ms = 0, si_last_accessed_at_ms = 0, si_access_count = 1, si_now_ms = 0\<rparr> default_salience_config \<le> 1"
  using salience_exact [of default_salience_config "\<lparr>si_created_at_ms = 0, si_last_accessed_at_ms = 0, si_access_count = 1, si_now_ms = 0\<rparr>"]
  by (simp add: weights_ok_def default_salience_config_def)

lemma salience_monotone_witness:
  "compute_salience \<lparr>si_created_at_ms = 0, si_last_accessed_at_ms = 0, si_access_count = 1, si_now_ms = 9\<rparr> default_salience_config
    \<le> compute_salience \<lparr>si_created_at_ms = 0, si_last_accessed_at_ms = 5, si_access_count = 2, si_now_ms = 9\<rparr> default_salience_config"
  by (rule salience_monotone) (simp_all add: weights_ok_def default_salience_config_def)

end
