(* ===== verification/Knowledge.thy ===== *)
theory Knowledge
  imports Projects File_Filters Work_Tables
begin

text \<open>
  The local engine of project memory
  (\<^verbatim>\<open>crates/arags-memory/src/{knowledge/mod,knowledge/helpers,project,transfer}.rs\<close> and
  \<open>insert_chunk\<close>, \<open>delete_chunks_for_file\<close> of
  \<^verbatim>\<open>crates/arags-storage/src/sqlite/chunks/basic.rs\<close>): indexing files by size, the projects,
  and copying chunks between projects. Files are given by a reader; SHA-256 and the entity
  extractor are arguments. Lemmas: a file is cut into contiguous pieces within the size, when
  the size is at least the look-back of 100 bytes, and the loop does not end for a smaller size;
  a file that is indexed again fails; what a transfer copies.
\<close>

section \<open>Helpers\<close>

definition newline :: char where "newline = CHR 0x0A"

text \<open>The position after the last newline of the 100 bytes before \<open>near\<close>.\<close>

definition find_line_boundary :: "string \<Rightarrow> nat \<Rightarrow> nat" where
  "find_line_boundary bytes near =
     (case List.find (\<lambda>i. bytes ! i = newline) (rev [near - 100..<near]) of Some i \<Rightarrow> i + 1 | None \<Rightarrow> near)"

definition knowledge_language :: "string \<Rightarrow> string option" where
  "knowledge_language path =
     (case path_extension path of
        None \<Rightarrow> None
      | Some e \<Rightarrow>
          map_of
            [(''rs'', ''rust''), (''py'', ''python''), (''js'', ''javascript''), (''ts'', ''typescript''),
             (''tsx'', ''typescriptreact''), (''jsx'', ''javascriptreact''), (''go'', ''go''), (''java'', ''java''),
             (''c'', ''c''), (''h'', ''c''), (''hpp'', ''c''), (''cpp'', ''cpp''), (''cc'', ''cpp''), (''cxx'', ''cpp''),
             (''rb'', ''ruby''), (''sh'', ''shell''), (''bash'', ''shell''), (''sql'', ''sql''), (''md'', ''markdown''),
             (''json'', ''json''), (''yaml'', ''yaml''), (''yml'', ''yaml''), (''toml'', ''toml''), (''html'', ''html''),
             (''css'', ''css'')] e)"

definition quarter_tokens :: "string \<Rightarrow> int" where
  "quarter_tokens s = max 1 \<lceil>real (length s) / 4\<rceil>"

text \<open>
  The number that is reported for a file; an unreadable file counts as none, and the division
  by a size of zero panics.
\<close>

definition count_file_chunks :: "nat \<Rightarrow> string option \<Rightarrow> nat option" where
  "count_file_chunks max_bytes raw =
     (case raw of
        None \<Rightarrow> Some 0
      | Some bs \<Rightarrow> if length bs = 0 then Some 1
                   else if max_bytes = 0 then None
                   else Some ((length bs - 1) div max_bytes + 1))"

section \<open>Rows of chunks\<close>

record new_chunk =
  nc_buffer :: row_id
  nc_file :: string
  nc_start :: int
  nc_end :: int
  nc_line_start :: int
  nc_line_end :: int
  nc_hash :: string
  nc_language :: "string option"
  nc_type :: "string option"
  nc_tokens :: "int option"

definition row_of_new :: "seconds \<Rightarrow> row_id \<Rightarrow> new_chunk \<Rightarrow> chunk" where
  "row_of_new now i c =
     \<lparr>ck_id = i, ck_buffer = nc_buffer c, ck_file = nc_file c, ck_offset_start = nc_start c,
      ck_offset_end = nc_end c, ck_line_start = nc_line_start c, ck_line_end = nc_line_end c,
      ck_hash = nc_hash c, ck_language = nc_language c, ck_type = nc_type c, ck_tokens = nc_tokens c,
      ck_status = ''active'', ck_created = now, ck_accessed = now, ck_epoch = 0, ck_created_by = None,
      ck_model = None, ck_version = 1, ck_active = True, ck_superseded = None, ck_retired = None\<rparr>"

definition insert_chunk :: "seconds \<Rightarrow> new_chunk \<Rightarrow> chunk_db \<Rightarrow> chunk_db \<times> row_id" where
  "insert_chunk now c db =
     (let i = cd_seq db + 1 in (db\<lparr>cd_rows := cd_rows db @ [row_of_new now i c], cd_seq := i\<rparr>, i))"

definition insert_chunk_content :: "row_id \<Rightarrow> string \<Rightarrow> chunk_db \<Rightarrow> chunk_db" where
  "insert_chunk_content i content db = db\<lparr>cd_texts := cd_texts db @ [(i, content)]\<rparr>"

definition insert_chunk_entities :: "row_id \<Rightarrow> string list \<Rightarrow> chunk_db \<Rightarrow> chunk_db" where
  "insert_chunk_entities i es db = fold (add_entity i) es db"

text \<open>
  The rows of a path in every buffer. The text of a chunk refers to it without a cascade, and
  so do the tasks and findings of sub-agents (\<open>pinned\<close>), so the statement fails while a row
  of theirs is left; the entity rows cascade.
\<close>

definition delete_chunks_for_file :: "row_id list \<Rightarrow> string \<Rightarrow> chunk_db \<Rightarrow> (chunk_db \<times> nat) option" where
  "delete_chunks_for_file pinned path db =
     (let ids = map ck_id (filter (\<lambda>c. ck_file c = path) (cd_rows db))
      in if list_ex (\<lambda>i. i \<in> set ids) (pinned @ map fst (cd_texts db)) then None
         else Some (db\<lparr>cd_rows := filter (\<lambda>c. ck_file c \<noteq> path) (cd_rows db),
                       cd_entities := filter (\<lambda>t. fst t \<notin> set ids) (cd_entities db)\<rparr>, length ids))"

section \<open>Indexing a file\<close>

text \<open>
  The pieces of a file: offsets and lines. \<open>None\<close> stands for a loop that has not ended after
  the given number of turns, and for the panic of a slice that ends before it starts.
\<close>

definition piece_end :: "nat \<Rightarrow> string \<Rightarrow> nat \<Rightarrow> nat" where
  "piece_end max_bytes bytes off =
     (let stop = min (off + max_bytes) (length bytes)
      in if stop < length bytes then find_line_boundary bytes stop else length bytes)"

definition newlines :: "string \<Rightarrow> int" where
  "newlines s = int (length (filter (\<lambda>b. b = newline) s))"

primrec file_pieces :: "nat \<Rightarrow> nat \<Rightarrow> string \<Rightarrow> nat \<Rightarrow> int \<Rightarrow> (nat \<times> nat \<times> int \<times> int) list option" where
  "file_pieces 0 max_bytes bytes off line_start = (if off < length bytes then None else Some [])"
| "file_pieces (Suc fuel) max_bytes bytes off line_start =
     (if off < length bytes
      then let chunk_end = piece_end max_bytes bytes off
           in if chunk_end < off then None
              else let line_end = line_start + newlines (from_utf8_lossy (drop off (take chunk_end bytes)))
                   in map_option ((#) (off, chunk_end, line_start, line_end))
                        (file_pieces fuel max_bytes bytes chunk_end (line_end + 1))
      else Some [])"

definition insert_piece ::
  "(string \<Rightarrow> string) \<Rightarrow> (string \<Rightarrow> string \<Rightarrow> string list) \<Rightarrow> seconds \<Rightarrow> row_id \<Rightarrow> string \<Rightarrow> string
     \<Rightarrow> nat \<times> nat \<times> int \<times> int \<Rightarrow> chunk_db \<times> row_id list \<Rightarrow> chunk_db \<times> row_id list" where
  "insert_piece sha extract now buffer_id path bytes = (\<lambda>(s, e, line_start, line_end) (db, ids).
     (let raw = drop s (take e bytes); content = from_utf8_lossy raw;
          (db1, i) = insert_chunk now
            \<lparr>nc_buffer = buffer_id, nc_file = path, nc_start = int s, nc_end = int e, nc_line_start = line_start,
             nc_line_end = line_end, nc_hash = sha raw, nc_language = knowledge_language path, nc_type = None,
             nc_tokens = Some (quarter_tokens content)\<rparr> db;
          db2 = insert_chunk_content i content db1
      in (insert_chunk_entities i (extract content path) db2, ids @ [i])))"

datatype knowledge_error = Unreadable_File | Delete_Refused | Project_Missing | Project_Exists | Insert_Refused

text \<open>Indexing one file; \<open>raw\<close> is what reading it gives. \<open>None\<close> means that it does not return.\<close>

definition index_raw ::
  "(string \<Rightarrow> string) \<Rightarrow> (string \<Rightarrow> string \<Rightarrow> string list) \<Rightarrow> seconds \<Rightarrow> nat \<Rightarrow> row_id list \<Rightarrow> row_id \<Rightarrow> string
     \<Rightarrow> string option \<Rightarrow> chunk_db \<Rightarrow> ((knowledge_error + row_id list) \<times> chunk_db) option" where
  "index_raw sha extract now max_bytes pinned buffer_id path raw db =
     (case raw of
        None \<Rightarrow> Some (Inl Unreadable_File, db)
      | Some r \<Rightarrow>
          (let bytes = from_utf8_lossy r; file_hash = sha bytes;
               file_chunks = filter (\<lambda>c. ck_file c = path) (list_chunks buffer_id (cd_rows db));
               write = (\<lambda>db0. map_option
                  (\<lambda>ps. let (db', ids) = fold (insert_piece sha extract now buffer_id path bytes) ps (db0, []) in (Inr ids, db'))
                  (file_pieces (Suc (length bytes)) max_bytes bytes 0 1))
           in case file_chunks of
                [] \<Rightarrow> write db
              | c # _ \<Rightarrow>
                  if ck_hash c = file_hash then Some (Inr (map ck_id file_chunks), db)
                  else (case delete_chunks_for_file pinned path db of
                          None \<Rightarrow> Some (Inl Delete_Refused, db)
                        | Some (db0, _) \<Rightarrow> write db0)))"

text \<open>
  The files of a directory, one after the other, up to the first error; each adds its reported
  number of chunks.
\<close>

fun index_all ::
  "(string \<Rightarrow> chunk_db \<Rightarrow> ((knowledge_error + row_id list) \<times> chunk_db) option) \<Rightarrow> (string \<Rightarrow> nat option)
     \<Rightarrow> string list \<Rightarrow> nat \<Rightarrow> chunk_db \<Rightarrow> ((knowledge_error + nat) \<times> chunk_db) option" where
  "index_all step count [] n db = Some (Inr n, db)"
| "index_all step count (p # ps) n db =
     (case step p db of
        None \<Rightarrow> None
      | Some (Inl e, db') \<Rightarrow> Some (Inl e, db')
      | Some (Inr _, db') \<Rightarrow>
          (case count p of None \<Rightarrow> None | Some k \<Rightarrow> index_all step count ps (n + k) db'))"

definition index_directory ::
  "(string \<Rightarrow> string) \<Rightarrow> (string \<Rightarrow> string \<Rightarrow> string list) \<Rightarrow> seconds \<Rightarrow> nat \<Rightarrow> row_id list \<Rightarrow> string list \<Rightarrow> string list \<Rightarrow> string
     \<Rightarrow> fs_entries \<Rightarrow> (string \<Rightarrow> string option) \<Rightarrow> string \<Rightarrow> buffer_db \<times> chunk_db
     \<Rightarrow> ((knowledge_error + nat \<times> nat) \<times> buffer_db \<times> chunk_db) option" where
  "index_directory sha extract now max_bytes pinned ignore force dir entries read project = (\<lambda>(bufs, db).
     (case get_buffer_by_name project (bd_rows bufs) of
        None \<Rightarrow> Some (Inl Project_Missing, bufs, db)
      | Some b \<Rightarrow>
          (let paths = map (join_path dir) (discover_files default_index_ignores ignore force entries)
           in case index_all (\<lambda>p. index_raw sha extract now max_bytes pinned (bf_id b) p (read p))
                     (\<lambda>p. count_file_chunks max_bytes (read p)) paths 0 db of
                None \<Rightarrow> None
              | Some (Inl e, db') \<Rightarrow> Some (Inl e, bufs, db')
              | Some (Inr created, db') \<Rightarrow>
                  Some (Inr (length paths, created),
                        update_buffer_counts now (bf_id b) (int created) (int (length paths)) None bufs, db'))))"

section \<open>Projects\<close>

definition create_project :: "seconds \<Rightarrow> string \<Rightarrow> string \<Rightarrow> string \<Rightarrow> buffer_db \<Rightarrow> (knowledge_error + buffer) \<times> buffer_db" where
  "create_project now uuid name path db =
     (case get_buffer_by_name name (bd_rows db) of
        Some _ \<Rightarrow> (Inl Project_Exists, db)
      | None \<Rightarrow>
          (case insert_buffer now uuid name path db of
             (db', None) \<Rightarrow> (Inl Insert_Refused, db')
           | (db', Some i) \<Rightarrow>
               (case get_buffer i (bd_rows db') of None \<Rightarrow> (Inl Project_Missing, db') | Some b \<Rightarrow> (Inr b, db'))))"

definition forget_project :: "string \<Rightarrow> buffer_db \<times> chunk_db \<Rightarrow> (knowledge_error + unit) \<times> buffer_db \<times> chunk_db" where
  "forget_project name st =
     (case get_buffer_by_name name (bd_rows (fst st)) of
        None \<Rightarrow> (Inl Project_Missing, st)
      | Some b \<Rightarrow> (Inr (), delete_buffer (bf_id b) st))"

text \<open>Indexing a project of the engine: it is created when there is none of the name.\<close>

definition index_project ::
  "(string \<Rightarrow> string) \<Rightarrow> (string \<Rightarrow> string \<Rightarrow> string list) \<Rightarrow> seconds \<Rightarrow> string \<Rightarrow> nat \<Rightarrow> row_id list \<Rightarrow> string list \<Rightarrow> string list
     \<Rightarrow> string \<Rightarrow> fs_entries \<Rightarrow> (string \<Rightarrow> string option) \<Rightarrow> string \<Rightarrow> buffer_db \<times> chunk_db
     \<Rightarrow> ((knowledge_error + nat \<times> nat) \<times> buffer_db \<times> chunk_db) option" where
  "index_project sha extract now uuid max_bytes pinned ignore force dir entries read project = (\<lambda>(bufs, db).
     (let run = index_directory sha extract now max_bytes pinned ignore force dir entries read project
      in if get_buffer_by_name project (bd_rows bufs) = None
         then (case create_project now uuid project dir bufs of
                 (Inl e, bufs') \<Rightarrow> Some (Inl e, bufs', db)
               | (Inr _, bufs') \<Rightarrow> run (bufs', db))
         else run (bufs, db)))"

section \<open>Transfer between projects\<close>

definition copy_chunk :: "seconds \<Rightarrow> row_id \<Rightarrow> chunk \<Rightarrow> chunk_db \<Rightarrow> chunk_db" where
  "copy_chunk now to_buffer c db =
     (let (db1, i) = insert_chunk now
            \<lparr>nc_buffer = to_buffer, nc_file = ck_file c, nc_start = ck_offset_start c, nc_end = ck_offset_end c,
             nc_line_start = ck_line_start c, nc_line_end = ck_line_end c, nc_hash = ck_hash c,
             nc_language = ck_language c, nc_type = ck_type c, nc_tokens = ck_tokens c\<rparr> db
      in case get_chunk_content (ck_id c) (cd_texts db1) of
           Some content \<Rightarrow> insert_chunk_content i content db1
         | None \<Rightarrow> db1)"

definition transfer_selection :: "string list \<Rightarrow> nat \<Rightarrow> chunk list \<Rightarrow> chunk list" where
  "transfer_selection languages max_chunks chunks =
     take max_chunks
       (if languages = [] then chunks
        else filter (\<lambda>c. case ck_language c of Some l \<Rightarrow> l \<in> set languages | None \<Rightarrow> False) chunks)"

definition transfer ::
  "seconds \<Rightarrow> row_id \<Rightarrow> row_id \<Rightarrow> string list \<Rightarrow> nat \<Rightarrow> buffer_db \<times> chunk_db
     \<Rightarrow> (knowledge_error + nat) \<times> buffer_db \<times> chunk_db" where
  "transfer now from_buffer to_buffer languages max_chunks = (\<lambda>(bufs, db).
     (if get_buffer from_buffer (bd_rows bufs) = None \<or> get_buffer to_buffer (bd_rows bufs) = None
      then (Inl Project_Missing, bufs, db)
      else let chosen = transfer_selection languages max_chunks (list_chunks from_buffer (cd_rows db));
               db' = fold (copy_chunk now to_buffer) chosen db
           in (Inr (length chosen),
               update_buffer_counts now to_buffer (int (count_chunks to_buffer (cd_rows db'))) 0 None bufs, db')))"

definition common_patterns :: "row_id \<Rightarrow> row_id \<Rightarrow> pattern_row list \<Rightarrow> string list" where
  "common_patterns from_buffer to_buffer rows =
     (let names = map pat_name (get_patterns (Some to_buffer) rows)
      in map pat_name (filter (\<lambda>p. pat_name p \<in> set names) (get_patterns (Some from_buffer) rows)))"

section \<open>A file is cut into contiguous pieces\<close>

lemma find_line_boundary_bounds:
  assumes "0 < near"
  shows "near - 100 < find_line_boundary bs near" and "find_line_boundary bs near \<le> near"
proof -
  have "near - 100 < find_line_boundary bs near \<and> find_line_boundary bs near \<le> near"
  proof (cases "List.find (\<lambda>i. bs ! i = newline) (rev [near - 100..<near])")
    case None
    then show ?thesis using assms by (simp add: find_line_boundary_def)
  next
    case (Some i)
    then have "i \<in> set (rev [near - 100..<near])"
      by (metis (no_types, lifting) find_Some_iff nth_mem)
    then show ?thesis using Some by (auto simp: find_line_boundary_def)
  qed
  then show "near - 100 < find_line_boundary bs near" and "find_line_boundary bs near \<le> near" by simp_all
qed

text \<open>Pieces that follow each other from a place to the end, none empty and none above the size.\<close>

fun pieces_from :: "nat \<Rightarrow> nat \<Rightarrow> nat \<Rightarrow> (nat \<times> nat \<times> int \<times> int) list \<Rightarrow> bool" where
  "pieces_from m off n [] \<longleftrightarrow> off = n"
| "pieces_from m off n ((s, e, _, _) # ps) \<longleftrightarrow> s = off \<and> s < e \<and> e \<le> s + m \<and> pieces_from m e n ps"

text \<open>Each piece is said to begin one line after the one on which the previous piece ended.\<close>

fun lines_from :: "string \<Rightarrow> int \<Rightarrow> (nat \<times> nat \<times> int \<times> int) list \<Rightarrow> bool" where
  "lines_from bs l [] \<longleftrightarrow> True"
| "lines_from bs l ((s, e, a, b) # ps) \<longleftrightarrow>
     a = l \<and> b = l + newlines (from_utf8_lossy (drop s (take e bs))) \<and> lines_from bs (b + 1) ps"

lemma file_pieces_total:
  assumes "100 \<le> m"
  shows "off \<le> length bs \<Longrightarrow> length bs - off < fuel \<Longrightarrow>
    \<exists>ps. file_pieces fuel m bs off l = Some ps \<and> pieces_from m off (length bs) ps \<and> lines_from bs l ps"
proof (induction fuel arbitrary: off l)
  case 0
  then show ?case by simp
next
  case (Suc fuel)
  show ?case
  proof (cases "off < length bs")
    case False
    then show ?thesis using Suc.prems by simp
  next
    case True
    define e where "e = piece_end m bs off"
    have e: "off < e" "e \<le> off + m" "e \<le> length bs"
      using find_line_boundary_bounds[of "off + m" bs] True assms by (auto simp: e_def piece_end_def min_def Let_def)
    define b where "b = l + newlines (from_utf8_lossy (drop off (take e bs)))"
    obtain ps where "file_pieces fuel m bs e (b + 1) = Some ps" "pieces_from m e (length bs) ps" "lines_from bs (b + 1) ps"
      using Suc.IH[of e "b + 1"] Suc.prems e by force
    then show ?thesis
      using True e by (auto simp: e_def[symmetric] b_def[symmetric] Let_def)
  qed
qed

lemma pieces_from_concat:
  "pieces_from m off (length bs) ps \<Longrightarrow> off \<le> length bs \<Longrightarrow>
   concat (map (\<lambda>(s, e, _). drop s (take e bs)) ps) = drop off bs"
proof (induction m off "length bs" ps rule: pieces_from.induct)
  case (2 m off s e a b ps)
  have "off < e" "pieces_from m e (length bs) ps" using 2 by simp_all
  moreover have "e \<le> length bs"
  proof -
    have "pieces_from m x n qs \<Longrightarrow> x \<le> n" for x n qs
      by (induction m x n qs rule: pieces_from.induct) auto
    then show ?thesis using \<open>pieces_from m e (length bs) ps\<close> .
  qed
  ultimately have "concat (map (\<lambda>(s, e, _). drop s (take e bs)) ps) = drop e bs" using 2 by simp
  moreover have "drop off bs = drop off (take e bs) @ drop e bs"
    using \<open>off < e\<close> \<open>e \<le> length bs\<close>
    by (metis append_take_drop_id drop_append drop_take length_take less_imp_le min.absorb2 diff_is_0_eq drop0)
  ultimately show ?case using 2 by simp
qed simp

text \<open>
  With a size of at least the look-back of 100 bytes the loop ends: the pieces follow each
  other without a gap, none is empty or above the size, and together they are the file. The
  line numbers advance by one line too many at each piece.
\<close>

theorem file_pieces_partition:
  assumes "100 \<le> m"
  shows "\<exists>ps. file_pieces (Suc (length bs)) m bs 0 1 = Some ps \<and> pieces_from m 0 (length bs) ps
           \<and> lines_from bs 1 ps \<and> concat (map (\<lambda>(s, e, _). drop s (take e bs)) ps) = bs"
proof -
  obtain ps where ps: "file_pieces (Suc (length bs)) m bs 0 1 = Some ps" "pieces_from m 0 (length bs) ps" "lines_from bs 1 ps"
    using file_pieces_total[OF assms, of 0 bs "Suc (length bs)" 1] by auto
  then show ?thesis using pieces_from_concat[OF ps(2)] by simp
qed

lemma find_boundary_of_first_line:
  assumes "0 < near" "near \<le> 100" "near \<le> Suc (length xs)" "newline \<notin> set xs"
  shows "find_line_boundary (newline # xs) near = 1"
proof -
  have "rev [0..<near] = rev [1..<near] @ [0]" using assms(1) by (simp add: upt_rec)
  moreover have "List.find (\<lambda>i. (newline # xs) ! i = newline) (rev [1..<near]) = None"
  proof -
    have "(newline # xs) ! i \<noteq> newline" if "i \<in> set [1..<near]" for i
    proof -
      have "i - 1 < length xs" "i \<noteq> 0" using that assms(3) by auto
      then show ?thesis using assms(4) nth_mem[of "i - 1" xs] by (metis nth_Cons_pos gr0I)
    qed
    then show ?thesis by (auto simp: find_None_iff)
  qed
  moreover have "List.find Q (as @ bs) = (case List.find Q as of None \<Rightarrow> List.find Q bs | Some x \<Rightarrow> Some x)" for Q :: "nat \<Rightarrow> bool" and as bs
    by (induction as) auto
  ultimately show ?thesis using assms(2) by (simp add: find_line_boundary_def)
qed

text \<open>The bound is sharp: for every smaller size there is a file on which the loop runs for ever.\<close>

theorem small_size_diverges:
  assumes "0 < m" "m < 100"
  shows "file_pieces fuel m (newline # replicate (m + 1) CHR ''x'') 0 1 = None"
proof -
  define bs where "bs = newline # replicate (m + 1) CHR ''x''"
  have clean: "newline \<notin> set (replicate (m + 1) CHR ''x'')" by (simp add: newline_def)
  have first: "find_line_boundary bs m = 1" "find_line_boundary bs (Suc m) = 1"
    unfolding bs_def by (rule find_boundary_of_first_line; use assms clean in simp)+
  have ends: "piece_end m bs 0 = Suc 0" "piece_end m bs (Suc 0) = Suc 0" "Suc 0 < length bs"
    using first assms by (simp_all add: piece_end_def bs_def)
  have stuck: "file_pieces f m bs (Suc 0) l = None" for f l
    by (induction f arbitrary: l) (simp_all add: ends Let_def)
  show ?thesis
    unfolding bs_def[symmetric] using stuck ends by (cases fuel) (auto simp: Let_def)
qed

section \<open>A file that changed cannot be indexed again\<close>

theorem reindex_refused:
  assumes "filter (\<lambda>c. ck_file c = path) (list_chunks buffer_id (cd_rows db)) = c # cs"
    and "ck_hash c \<noteq> sha (from_utf8_lossy r)"
    and "c' \<in> set (c # cs)" and "ck_id c' \<in> fst ` set (cd_texts db)"
  shows "index_raw sha extract now m pinned buffer_id path (Some r) db = Some (Inl Delete_Refused, db)"
proof -
  have "c' \<in> set (filter (\<lambda>c. ck_file c = path) (cd_rows db))"
  proof -
    have "c' \<in> set (filter (\<lambda>c. ck_file c = path) (list_chunks buffer_id (cd_rows db)))" using assms(1,3) by simp
    then show ?thesis by (simp add: list_chunks_def)
  qed
  then have "delete_chunks_for_file pinned path db = None"
    using assms(4) by (auto simp: delete_chunks_for_file_def Let_def list_ex_iff)
  then show ?thesis using assms(1,2) by (simp add: index_raw_def Let_def)
qed

lemma index_all_prefix:
  "index_all step count (ps @ qs) n db =
     (case index_all step count ps n db of
        None \<Rightarrow> None | Some (Inl e, db') \<Rightarrow> Some (Inl e, db') | Some (Inr k, db') \<Rightarrow> index_all step count qs k db')"
  by (induction ps arbitrary: n db) (auto split: option.splits prod.splits sum.splits)

section \<open>What a transfer copies\<close>

definition copied_row :: "seconds \<Rightarrow> row_id \<Rightarrow> row_id \<Rightarrow> chunk \<Rightarrow> chunk" where
  "copied_row now to_buffer i c =
     c\<lparr>ck_id := i, ck_buffer := to_buffer, ck_status := ''active'', ck_created := now, ck_accessed := now, ck_epoch := 0,
       ck_created_by := None, ck_model := None, ck_version := 1, ck_active := True, ck_superseded := None, ck_retired := None\<rparr>"

lemma copy_chunk_rows:
  "cd_rows (copy_chunk now to_buffer c db) = cd_rows db @ [copied_row now to_buffer (cd_seq db + 1) c]"
  "cd_seq (copy_chunk now to_buffer c db) = cd_seq db + 1"
  by (simp_all add: copy_chunk_def insert_chunk_def insert_chunk_content_def row_of_new_def copied_row_def Let_def
        split: option.splits)

fun copied_rows :: "seconds \<Rightarrow> row_id \<Rightarrow> row_id \<Rightarrow> chunk list \<Rightarrow> chunk list" where
  "copied_rows now to_buffer i [] = []"
| "copied_rows now to_buffer i (c # cs) = copied_row now to_buffer (i + 1) c # copied_rows now to_buffer (i + 1) cs"

fun copied_texts :: "(row_id \<times> string) list \<Rightarrow> row_id \<Rightarrow> chunk list \<Rightarrow> (row_id \<times> string) list" where
  "copied_texts texts i [] = []"
| "copied_texts texts i (c # cs) =
     (case get_chunk_content (ck_id c) texts of Some t \<Rightarrow> [(i + 1, t)] | None \<Rightarrow> []) @ copied_texts texts (i + 1) cs"

lemma copied_texts_cong:
  "(\<And>c. c \<in> set cs \<Longrightarrow> get_chunk_content (ck_id c) texts = get_chunk_content (ck_id c) texts') \<Longrightarrow>
   copied_texts texts i cs = copied_texts texts' i cs"
  by (induction cs arbitrary: i) simp_all

lemma copy_chunk_texts:
  "cd_texts (copy_chunk now to_buffer c db) =
     cd_texts db @ (case get_chunk_content (ck_id c) (cd_texts db) of Some t \<Rightarrow> [(cd_seq db + 1, t)] | None \<Rightarrow> [])"
  by (simp add: copy_chunk_def insert_chunk_def insert_chunk_content_def Let_def split: option.splits)

lemma copy_chunks_rows:
  "cd_rows (fold (copy_chunk now to_buffer) cs db) = cd_rows db @ copied_rows now to_buffer (cd_seq db) cs"
  by (induction cs arbitrary: db) (simp_all add: copy_chunk_rows)

lemma copy_chunks_texts:
  "\<forall>c\<in>set cs. ck_id c \<le> cd_seq db \<Longrightarrow>
   cd_texts (fold (copy_chunk now to_buffer) cs db) = cd_texts db @ copied_texts (cd_texts db) (cd_seq db) cs"
proof (induction cs arbitrary: db)
  case (Cons c cs)
  let ?d = "copy_chunk now to_buffer c db"
  have "cd_texts (fold (copy_chunk now to_buffer) cs ?d) = cd_texts ?d @ copied_texts (cd_texts ?d) (cd_seq ?d) cs"
    using Cons.prems by (intro Cons.IH) (auto simp: copy_chunk_rows)
  moreover have "copied_texts (cd_texts ?d) (cd_seq ?d) cs = copied_texts (cd_texts db) (cd_seq db + 1) cs"
    unfolding copy_chunk_rows
  proof (rule copied_texts_cong)
    fix x assume "x \<in> set cs"
    then have "ck_id x \<noteq> cd_seq db + 1" using Cons.prems by auto
    then show "get_chunk_content (ck_id x) (cd_texts ?d) = get_chunk_content (ck_id x) (cd_texts db)"
      by (simp add: copy_chunk_texts get_chunk_content_def map_add_def split: option.splits)
  qed
  ultimately show ?case by (simp add: copy_chunk_texts)
qed simp

text \<open>
  A transfer leaves every row of the source as it is and appends its copies: fresh ids in the
  order of the source, the texts with them, every copy live whatever its source was, no
  keyword or entity rows. The target counts all its rows and says that it has no file.
\<close>

theorem transfer_exact:
  assumes "\<forall>c\<in>set (cd_rows db). ck_id c \<le> cd_seq db"
    and "get_buffer from_buffer (bd_rows bufs) = Some f" and "get_buffer to_buffer (bd_rows bufs) = Some g"
    and "transfer now from_buffer to_buffer languages max_chunks (bufs, db) = (r, bufs', db')"
    and "chosen = transfer_selection languages max_chunks (list_chunks from_buffer (cd_rows db))"
  shows "r = Inr (length chosen)
    \<and> cd_rows db' = cd_rows db @ copied_rows now to_buffer (cd_seq db) chosen
    \<and> cd_texts db' = cd_texts db @ copied_texts (cd_texts db) (cd_seq db) chosen
    \<and> cd_fts db' = cd_fts db \<and> cd_entities db' = cd_entities db
    \<and> bufs' = update_buffer_counts now to_buffer (int (count_chunks to_buffer (cd_rows db'))) 0 None bufs"
proof -
  have sub: "set chosen \<subseteq> set (cd_rows db)"
    using assms(5) by (auto simp: transfer_selection_def list_chunks_def dest!: in_set_takeD split: if_splits)
  have fts: "cd_fts (copy_chunk now to_buffer c d) = cd_fts d \<and> cd_entities (copy_chunk now to_buffer c d) = cd_entities d" for c d
    by (simp add: copy_chunk_def insert_chunk_def insert_chunk_content_def Let_def split: option.splits)
  have keep: "cd_fts (fold (copy_chunk now to_buffer) cs d) = cd_fts d
      \<and> cd_entities (fold (copy_chunk now to_buffer) cs d) = cd_entities d" for cs d
    by (induction cs arbitrary: d) (simp_all add: fts)
  have "r = Inr (length chosen)" "db' = fold (copy_chunk now to_buffer) chosen db"
    "bufs' = update_buffer_counts now to_buffer (int (count_chunks to_buffer (cd_rows db'))) 0 None bufs"
    using assms(2-5) by (auto simp: transfer_def Let_def)
  then show ?thesis using sub assms(1) copy_chunks_texts[of chosen db now to_buffer] keep[of chosen db]
    by (auto simp: copy_chunks_rows)
qed

lemma transfer_revives_retired:
  "c \<in> set chosen \<Longrightarrow> \<exists>c'\<in>set (copied_rows now to_buffer i chosen). ck_active c' \<and> ck_file c' = ck_file c \<and> ck_hash c' = ck_hash c"
  by (induction chosen arbitrary: i) (auto simp: copied_row_def)

section \<open>Examples\<close>

lemma file_pieces_partition_witness:
  "\<exists>ps. file_pieces (Suc (length ''ab'')) 100 ''ab'' 0 1 = Some ps \<and> pieces_from 100 0 (length ''ab'') ps
      \<and> lines_from ''ab'' 1 ps \<and> concat (map (\<lambda>(s, e, _). drop s (take e ''ab'')) ps) = ''ab''"
  by (rule file_pieces_partition) simp

lemma small_size_diverges_witness:
  "file_pieces 1000 64 (newline # replicate (64 + 1) CHR ''x'') 0 1 = None"
  by (rule small_size_diverges) simp_all

definition demo_chunk :: chunk where
  "demo_chunk = row_of_new 0 1
     \<lparr>nc_buffer = 1, nc_file = ''a'', nc_start = 0, nc_end = 1, nc_line_start = 1, nc_line_end = 1, nc_hash = ''old'',
      nc_language = None, nc_type = None, nc_tokens = None\<rparr>"

definition demo_db :: chunk_db where
  "demo_db = \<lparr>cd_rows = [demo_chunk], cd_seq = 1, cd_texts = [(1, ''x'')], cd_fts = [], cd_entities = [], cd_entity_fts = []\<rparr>"

lemma demo_listed: "list_chunks 1 (cd_rows demo_db) = [demo_chunk]"
  by (simp add: list_chunks_def demo_db_def demo_chunk_def row_of_new_def)

lemma reindex_refused_witness:
  "index_raw (\<lambda>s. s) (\<lambda>_ _. []) 5 1500 [] 1 ''a'' (Some ''y'') demo_db = Some (Inl Delete_Refused, demo_db)"
proof (rule reindex_refused[of "''a''" 1 demo_db demo_chunk "[]" _ _ demo_chunk])
  show "filter (\<lambda>c. ck_file c = ''a'') (list_chunks 1 (cd_rows demo_db)) = [demo_chunk]"
    unfolding demo_listed by (simp add: demo_chunk_def row_of_new_def)
  show "ck_hash demo_chunk \<noteq> from_utf8_lossy ''y''"
    by code_simp
qed (simp_all add: demo_chunk_def demo_db_def row_of_new_def)

definition demo_buffers :: buffer_db where
  "demo_buffers = \<lparr>bd_rows = [new_buffer 0 ''u'' ''p'' ''/p'' 1, new_buffer 0 ''v'' ''q'' ''/q'' 2], bd_seq = 2\<rparr>"

lemma transfer_exact_witness:
  "\<exists>bufs' db'. transfer 7 1 2 [] 1000 (demo_buffers, demo_db) = (Inr 1, bufs', db')
     \<and> cd_rows db' = [demo_chunk] @ copied_rows 7 2 1 [demo_chunk] \<and> cd_texts db' = [(1, ''x''), (2, ''x'')]"
proof -
  obtain r bufs' db' where run: "transfer 7 1 2 [] 1000 (demo_buffers, demo_db) = (r, bufs', db')"
    by (cases "transfer 7 1 2 [] 1000 (demo_buffers, demo_db)") auto
  have sel: "[demo_chunk] = transfer_selection [] 1000 (list_chunks 1 (cd_rows demo_db))"
    unfolding demo_listed by (simp add: transfer_selection_def)
  have ids: "\<forall>c\<in>set (cd_rows demo_db). ck_id c \<le> cd_seq demo_db" by (simp add: demo_db_def demo_chunk_def row_of_new_def)
  have bufs: "get_buffer 1 (bd_rows demo_buffers) = Some (new_buffer 0 ''u'' ''p'' ''/p'' 1)"
    "get_buffer 2 (bd_rows demo_buffers) = Some (new_buffer 0 ''v'' ''q'' ''/q'' 2)"
    by (simp_all add: demo_buffers_def get_buffer_def new_buffer_def)
  show ?thesis using transfer_exact[OF ids bufs run sel] run
    by (simp add: demo_db_def demo_chunk_def row_of_new_def get_chunk_content_def)
qed

end
