(* ===== verification/Providers.thy ===== *)
theory Providers
  imports Llm_Client
begin

text \<open>
  The providers of language models
  (\<^verbatim>\<open>crates/arags-llm/src/{config,config/presets,factory,backend,backend/family}.rs\<close>,
  \<^verbatim>\<open>crates/arags-llm/src/backend/family/*.rs\<close> and \<^verbatim>\<open>crates/arags-cli/src/backend.rs\<close>): the
  configuration of a backend with its presets, the URL and the headers of a request, the JSON
  each family sends and reads, and the choice of a backend by name. The JSON parser is an
  argument; the network gives an outcome for each attempt. Lemmas: where the key goes, what of
  a conversation reaches the provider, what an answer may look like, which backend is chosen.
\<close>

section \<open>JSON values\<close>

datatype json =
    JNull
  | JBool bool
  | JInt int
  | JReal real
  | JStr string
  | JArr "json list"
  | JObj "(string \<times> json) list"

text \<open>Reading a field of something else gives \<open>null\<close>; \<open>json_find\<close> is \<open>Value::get\<close>.\<close>

definition json_find :: "string \<Rightarrow> json \<Rightarrow> json option" where
  "json_find k v = (case v of JObj kvs \<Rightarrow> map_of kvs k | _ \<Rightarrow> None)"

definition json_get :: "string \<Rightarrow> json \<Rightarrow> json" where
  "json_get k v = (case json_find k v of Some x \<Rightarrow> x | None \<Rightarrow> JNull)"

definition json_find_at :: "nat \<Rightarrow> json \<Rightarrow> json option" where
  "json_find_at i v = (case v of JArr xs \<Rightarrow> if i < length xs then Some (xs ! i) else None | _ \<Rightarrow> None)"

definition json_at :: "nat \<Rightarrow> json \<Rightarrow> json" where
  "json_at i v = (case json_find_at i v of Some x \<Rightarrow> x | None \<Rightarrow> JNull)"

definition json_text :: "json \<Rightarrow> string option" where
  "json_text v = (case v of JStr s \<Rightarrow> Some s | _ \<Rightarrow> None)"

definition json_items :: "json \<Rightarrow> json list option" where
  "json_items v = (case v of JArr xs \<Rightarrow> Some xs | _ \<Rightarrow> None)"

definition json_u64 :: "json \<Rightarrow> nat option" where
  "json_u64 v = (case v of JInt n \<Rightarrow> if 0 \<le> n \<and> n < 2 ^ 64 then Some (nat n) else None | _ \<Rightarrow> None)"

definition json_put :: "string \<Rightarrow> json \<Rightarrow> json \<Rightarrow> json" where
  "json_put k x v = (case v of JObj kvs \<Rightarrow> JObj (AList.update k x kvs) | _ \<Rightarrow> v)"

definition json_put_opt :: "string \<Rightarrow> json option \<Rightarrow> json \<Rightarrow> json" where
  "json_put_opt k x v = (case x of None \<Rightarrow> v | Some y \<Rightarrow> json_put k y v)"

section \<open>Requests\<close>

datatype msg_role = Role_System | Role_User | Role_Assistant

record message =
  ms_role :: msg_role
  ms_content :: string

record tool_definition =
  td_name :: string
  td_description :: string
  td_parameters :: json

record completion_request =
  rq_model :: string
  rq_messages :: "message list"
  rq_temperature :: "real option"
  rq_max_tokens :: "nat option"
  rq_stop :: "string list option"
  rq_seed :: "nat option"
  rq_tools :: "tool_definition list option"

fun role_name :: "msg_role \<Rightarrow> string" where
  "role_name Role_System = ''system''"
| "role_name Role_User = ''user''"
| "role_name Role_Assistant = ''assistant''"

section \<open>Backends\<close>

datatype backend_family = Open_Ai | Anthropic | Gemini | Ollama

datatype auth_scheme = Auth_Bearer | Auth_Header | Auth_Query | Auth_None

datatype health_method = Health_Get | Health_Post

fun family_name :: "backend_family \<Rightarrow> string" where
  "family_name Open_Ai = ''openai''"
| "family_name Anthropic = ''anthropic''"
| "family_name Gemini = ''gemini''"
| "family_name Ollama = ''ollama''"

fun scheme_name :: "auth_scheme \<Rightarrow> string" where
  "scheme_name Auth_Bearer = ''Bearer''"
| "scheme_name Auth_Header = ''Header''"
| "scheme_name Auth_Query = ''Query''"
| "scheme_name Auth_None = ''None''"

record backend_config =
  bk_family :: backend_family
  bk_base :: string
  bk_model :: "string option"
  bk_key :: "string option"
  bk_completions :: string
  bk_auth :: auth_scheme
  bk_header :: string
  bk_prefix :: string
  bk_param :: string
  bk_extra :: "(string \<times> string) list"
  bk_health :: string
  bk_health_method :: health_method
  bk_name :: "string option"

subsection \<open>Presets\<close>

definition openai_preset :: "string option \<Rightarrow> backend_config" where
  "openai_preset key =
     \<lparr>bk_family = Open_Ai, bk_base = ''https://api.openai.com/v1'', bk_model = None, bk_key = key,
      bk_completions = ''chat/completions'', bk_auth = Auth_Bearer, bk_header = ''Authorization'', bk_prefix = ''Bearer'',
      bk_param = ''key'', bk_extra = [], bk_health = ''models'', bk_health_method = Health_Get, bk_name = Some ''openai''\<rparr>"

definition anthropic_preset :: "string option \<Rightarrow> backend_config" where
  "anthropic_preset key =
     \<lparr>bk_family = Anthropic, bk_base = ''https://api.anthropic.com/v1'', bk_model = None, bk_key = key,
      bk_completions = ''messages'', bk_auth = Auth_Header, bk_header = ''x-api-key'', bk_prefix = ''Bearer'',
      bk_param = ''key'', bk_extra = [(''anthropic-version'', ''2023-06-01'')], bk_health = ''messages'',
      bk_health_method = Health_Post, bk_name = Some ''anthropic''\<rparr>"

definition gemini_preset :: "string option \<Rightarrow> backend_config" where
  "gemini_preset key =
     \<lparr>bk_family = Gemini, bk_base = ''https://generativelanguage.googleapis.com/v1beta'', bk_model = None, bk_key = key,
      bk_completions = ''models/{model}:generateContent'', bk_auth = Auth_Query, bk_header = ''Authorization'',
      bk_prefix = ''Bearer'', bk_param = ''key'', bk_extra = [], bk_health = ''models'', bk_health_method = Health_Get,
      bk_name = Some ''gemini''\<rparr>"

definition ollama_preset :: backend_config where
  "ollama_preset =
     \<lparr>bk_family = Ollama, bk_base = ''http://localhost:11434'', bk_model = None, bk_key = None,
      bk_completions = ''api/chat'', bk_auth = Auth_None, bk_header = ''Authorization'', bk_prefix = ''Bearer'',
      bk_param = ''key'', bk_extra = [], bk_health = ''api/tags'', bk_health_method = Health_Get, bk_name = Some ''ollama''\<rparr>"

definition deepseek_preset :: "string option \<Rightarrow> backend_config" where
  "deepseek_preset key =
     \<lparr>bk_family = Open_Ai, bk_base = ''https://api.deepseek.com/v1'', bk_model = None, bk_key = key,
      bk_completions = ''chat/completions'', bk_auth = Auth_Bearer, bk_header = ''Authorization'', bk_prefix = ''Bearer'',
      bk_param = ''key'', bk_extra = [], bk_health = ''models'', bk_health_method = Health_Get, bk_name = Some ''deepseek''\<rparr>"

definition mimo_preset :: "string option \<Rightarrow> backend_config" where
  "mimo_preset key =
     \<lparr>bk_family = Open_Ai, bk_base = ''https://api.openai.com/v1'', bk_model = None, bk_key = key,
      bk_completions = ''chat/completions'', bk_auth = Auth_Bearer, bk_header = ''Authorization'', bk_prefix = ''Bearer'',
      bk_param = ''key'', bk_extra = [], bk_health = ''models'', bk_health_method = Health_Get, bk_name = Some ''mimo''\<rparr>"

datatype backend_kind = Kind_OpenAI | Kind_Anthropic | Kind_Ollama | Kind_Gemini | Kind_DeepSeek | Kind_MiMo

fun kind_name :: "backend_kind \<Rightarrow> string" where
  "kind_name Kind_OpenAI = ''openai''"
| "kind_name Kind_Anthropic = ''anthropic''"
| "kind_name Kind_Ollama = ''ollama''"
| "kind_name Kind_Gemini = ''gemini''"
| "kind_name Kind_DeepSeek = ''deepseek''"
| "kind_name Kind_MiMo = ''mimo''"

definition kind_from_str :: "string \<Rightarrow> llm_error + backend_kind" where
  "kind_from_str s =
     (case map_of
        [(''openai'', Kind_OpenAI), (''gpt'', Kind_OpenAI), (''anthropic'', Kind_Anthropic), (''claude'', Kind_Anthropic),
         (''ollama'', Kind_Ollama), (''local'', Kind_Ollama), (''gemini'', Kind_Gemini), (''google'', Kind_Gemini),
         (''deepseek'', Kind_DeepSeek), (''ds'', Kind_DeepSeek), (''mimo'', Kind_MiMo)] (ascii_lower s) of
        Some k \<Rightarrow> Inr k
      | None \<Rightarrow> Inl (Backend_Failed (''unknown backend: '' @ s
          @ ''. Supported: openai, anthropic, ollama, gemini, deepseek, mimo'')))"

fun kind_preset :: "backend_kind \<Rightarrow> string option \<Rightarrow> backend_config" where
  "kind_preset Kind_OpenAI key = openai_preset key"
| "kind_preset Kind_Anthropic key = anthropic_preset key"
| "kind_preset Kind_Ollama key = ollama_preset"
| "kind_preset Kind_Gemini key = gemini_preset key"
| "kind_preset Kind_DeepSeek key = deepseek_preset key"
| "kind_preset Kind_MiMo key = mimo_preset key"

definition config_from_kind :: "backend_kind \<Rightarrow> string option \<Rightarrow> string option \<Rightarrow> backend_config" where
  "config_from_kind kind key base_url =
     (let cfg = kind_preset kind key in case base_url of Some u \<Rightarrow> cfg\<lparr>bk_base := u\<rparr> | None \<Rightarrow> cfg)"

subsection \<open>A backend from its configuration\<close>

record generic_backend =
  gb_config :: backend_config
  gb_name :: string
  gb_retry :: retry_config

definition backend_from_config :: "backend_config \<Rightarrow> llm_error + generic_backend" where
  "backend_from_config cfg =
     (if bk_auth cfg \<noteq> Auth_None \<and> bk_key cfg = None
      then Inl (Auth_Failed (''API key required for '' @ family_name (bk_family cfg) @ '' backend (auth = ''
                 @ scheme_name (bk_auth cfg) @ '')''))
      else Inr \<lparr>gb_config = cfg, gb_name = (case bk_name cfg of Some n \<Rightarrow> n | None \<Rightarrow> family_name (bk_family cfg)),
                gb_retry = default_retry\<rparr>)"

definition get_backend :: "backend_kind \<Rightarrow> string option \<Rightarrow> string option \<Rightarrow> llm_error + generic_backend" where
  "get_backend kind key base_url = backend_from_config (config_from_kind kind key base_url)"

text \<open>Every occurrence of a pattern, from the left, without overlaps.\<close>

function replace_all :: "string \<Rightarrow> string \<Rightarrow> string \<Rightarrow> string" where
  "replace_all pat rep [] = []"
| "replace_all pat rep (c # cs) =
     (if pat \<noteq> [] \<and> starts_with pat (c # cs) then rep @ replace_all pat rep (drop (length pat) (c # cs))
      else c # replace_all pat rep cs)"
  by pat_completeness auto
termination by (relation "measure (\<lambda>(_, _, s). length s)") auto

definition slash :: char where "slash = CHR ''/''"

definition join_url :: "string \<Rightarrow> string \<Rightarrow> string" where
  "join_url base path = rev (dropWhile (\<lambda>c. c = slash) (rev base)) @ ''/'' @ dropWhile (\<lambda>c. c = slash) path"

definition add_query_key :: "backend_config \<Rightarrow> string \<Rightarrow> string" where
  "add_query_key cfg url =
     (if bk_auth cfg = Auth_Query
      then url @ (if CHR ''?'' \<in> set url then ''&'' else ''?'') @ bk_param cfg @ ''=''
             @ (case bk_key cfg of Some k \<Rightarrow> k | None \<Rightarrow> [])
      else url)"

definition completions_url :: "backend_config \<Rightarrow> string \<Rightarrow> string" where
  "completions_url cfg model =
     add_query_key cfg (join_url (bk_base cfg) (replace_all ''{model}'' model (bk_completions cfg)))"

definition health_url :: "backend_config \<Rightarrow> string" where
  "health_url cfg = join_url (bk_base cfg) (bk_health cfg)"

definition auth_headers :: "backend_config \<Rightarrow> (string \<times> string) list" where
  "auth_headers cfg =
     [(''Content-Type'', ''application/json'')] @
     (case (bk_auth cfg, bk_key cfg) of
        (Auth_Bearer, Some k) \<Rightarrow> [(bk_header cfg, bk_prefix cfg @ '' '' @ k)]
      | (Auth_Header, Some k) \<Rightarrow> [(bk_header cfg, k)]
      | _ \<Rightarrow> []) @
     bk_extra cfg"

section \<open>What each family sends\<close>

definition messages_simple :: "message list \<Rightarrow> json list" where
  "messages_simple ms =
     map (\<lambda>m. JObj [(''role'', JStr (role_name (ms_role m))), (''content'', JStr (ms_content m))]) ms"

definition anthropic_messages :: "message list \<Rightarrow> json list" where
  "anthropic_messages ms =
     map (\<lambda>m. JObj [(''role'', JStr (role_name (ms_role m))),
            (''content'', JArr [JObj [(''type'', JStr ''text''), (''text'', JStr (ms_content m))]])]) ms"

definition gemini_contents :: "message list \<Rightarrow> json list" where
  "gemini_contents ms =
     map (\<lambda>m. JObj [(''role'', JStr (if ms_role m = Role_Assistant then ''model'' else ''user'')),
            (''parts'', JArr [JObj [(''text'', JStr (ms_content m))]])]) ms"

fun split_from :: "string option \<Rightarrow> message list \<Rightarrow> message list \<Rightarrow> string option \<times> message list" where
  "split_from system rest [] = (system, rest)"
| "split_from system rest (m # ms) =
     (if ms_role m = Role_System then split_from (Some (ms_content m)) rest ms else split_from system (rest @ [m]) ms)"

definition split_system :: "message list \<Rightarrow> string option \<times> message list" where
  "split_system ms = split_from None [] ms"

definition openai_tool :: "tool_definition \<Rightarrow> json" where
  "openai_tool t = JObj [(''type'', JStr ''function''),
     (''function'', JObj [(''name'', JStr (td_name t)), (''description'', JStr (td_description t)), (''parameters'', td_parameters t)])]"

definition openai_build :: "completion_request \<Rightarrow> json" where
  "openai_build req =
     json_put_opt ''tools'' (map_option (\<lambda>ts. JArr (map openai_tool ts)) (rq_tools req))
      (json_put_opt ''seed'' (map_option (\<lambda>n. JInt (int n)) (rq_seed req))
       (json_put_opt ''stop'' (map_option (\<lambda>ss. JArr (map JStr ss)) (rq_stop req))
        (json_put_opt ''max_tokens'' (map_option (\<lambda>n. JInt (int n)) (rq_max_tokens req))
         (json_put_opt ''temperature'' (map_option JReal (rq_temperature req))
          (JObj [(''model'', JStr (rq_model req)), (''messages'', JArr (messages_simple (rq_messages req)))])))))"

definition anthropic_tool :: "tool_definition \<Rightarrow> json" where
  "anthropic_tool t = JObj [(''name'', JStr (td_name t)), (''description'', JStr (td_description t)), (''input_schema'', td_parameters t)]"

definition anthropic_build :: "completion_request \<Rightarrow> json" where
  "anthropic_build req =
     (let (system, rest) = split_system (rq_messages req)
      in json_put_opt ''tools'' (map_option (\<lambda>ts. JArr (map anthropic_tool ts)) (rq_tools req))
          (json_put_opt ''stop_sequences'' (map_option (\<lambda>ss. JArr (map JStr ss)) (rq_stop req))
           (json_put_opt ''temperature'' (map_option JReal (rq_temperature req))
            (json_put_opt ''max_tokens'' (map_option (\<lambda>n. JInt (int n)) (rq_max_tokens req))
             (json_put_opt ''system'' (map_option JStr system)
              (JObj [(''model'', JStr (rq_model req)), (''messages'', JArr (anthropic_messages rest))]))))))"

definition gemini_tool :: "tool_definition \<Rightarrow> json" where
  "gemini_tool t = JObj [(''name'', JStr (td_name t)), (''description'', JStr (td_description t)), (''parameters'', td_parameters t)]"

definition gemini_config :: "completion_request \<Rightarrow> json" where
  "gemini_config req =
     json_put_opt ''stopSequences'' (map_option (\<lambda>ss. JArr (map JStr ss)) (rq_stop req))
      (json_put_opt ''maxOutputTokens'' (map_option (\<lambda>n. JInt (int n)) (rq_max_tokens req))
       (json_put_opt ''temperature'' (map_option JReal (rq_temperature req)) (JObj [])))"

definition gemini_build :: "completion_request \<Rightarrow> json" where
  "gemini_build req =
     (let (system, rest) = split_system (rq_messages req); config = gemini_config req
      in json_put_opt ''tools''
           (map_option (\<lambda>ts. JObj [(''functionDeclarations'', JArr (map gemini_tool ts))]) (rq_tools req))
          (json_put_opt ''generationConfig'' (if config = JObj [] then None else Some config)
           (json_put_opt ''systemInstruction'' (map_option (\<lambda>s. JObj [(''parts'', JArr [JObj [(''text'', JStr s)]])]) system)
            (JObj [(''contents'', JArr (gemini_contents rest))]))))"

definition ollama_options :: "completion_request \<Rightarrow> json" where
  "ollama_options req =
     json_put_opt ''num_predict'' (map_option (\<lambda>n. JInt (int n)) (rq_max_tokens req))
      (json_put_opt ''temperature'' (map_option JReal (rq_temperature req)) (JObj []))"

definition ollama_build :: "completion_request \<Rightarrow> json" where
  "ollama_build req =
     (let opts = ollama_options req
      in json_put_opt ''options'' (if opts = JObj [] then None else Some opts)
           (JObj [(''model'', JStr (rq_model req)), (''messages'', JArr (messages_simple (rq_messages req))), (''stream'', JBool False)]))"

fun build_request :: "backend_family \<Rightarrow> completion_request \<Rightarrow> json" where
  "build_request Open_Ai req = openai_build req"
| "build_request Anthropic req = anthropic_build req"
| "build_request Gemini req = gemini_build req"
| "build_request Ollama req = ollama_build req"

section \<open>What each family reads\<close>

definition clamp_u32 :: "nat \<Rightarrow> nat" where
  "clamp_u32 n = min n (2 ^ 32 - 1)"

definition add_u64 :: "nat \<Rightarrow> nat \<Rightarrow> nat" where
  "add_u64 a b = (a + b) mod 2 ^ 64"

definition count_at :: "string \<Rightarrow> json \<Rightarrow> nat" where
  "count_at k v = (case json_u64 (json_get k v) of Some n \<Rightarrow> n | None \<Rightarrow> 0)"

definition usage_of :: "nat \<Rightarrow> nat \<Rightarrow> nat \<Rightarrow> usage_summary" where
  "usage_of p c t = \<lparr>us_prompt = clamp_u32 p, us_completion = clamp_u32 c, us_total = clamp_u32 t, us_cost = 0\<rparr>"

definition usage_from :: "json \<Rightarrow> usage_summary" where
  "usage_from v =
     (let p = count_at ''prompt_tokens'' v; c = count_at ''completion_tokens'' v
      in usage_of p c (case json_u64 (json_get ''total_tokens'' v) of Some t \<Rightarrow> t | None \<Rightarrow> add_u64 p c))"

definition text_or_empty :: "json \<Rightarrow> string" where
  "text_or_empty v = (case json_text v of Some s \<Rightarrow> s | None \<Rightarrow> [])"

definition openai_read :: "string \<Rightarrow> json \<Rightarrow> completion_response" where
  "openai_read model v =
     \<lparr>cr_content = text_or_empty (json_get ''content'' (json_get ''message'' (json_at 0 (json_get ''choices'' v)))),
      cr_model = model, cr_usage = usage_from (json_get ''usage'' v)\<rparr>"

definition items_at :: "string \<Rightarrow> json \<Rightarrow> json list" where
  "items_at k v = (case json_items (json_get k v) of Some xs \<Rightarrow> xs | None \<Rightarrow> [])"

definition anthropic_read :: "string \<Rightarrow> json \<Rightarrow> completion_response" where
  "anthropic_read model v =
     (let p = count_at ''input_tokens'' (json_get ''usage'' v); c = count_at ''output_tokens'' (json_get ''usage'' v)
      in \<lparr>cr_content = concat (map (\<lambda>b. if json_get ''type'' b = JStr ''text'' then text_or_empty (json_get ''text'' b) else [])
                         (items_at ''content'' v)),
          cr_model = model, cr_usage = usage_of p c (add_u64 p c)\<rparr>)"

definition gemini_read :: "string \<Rightarrow> json \<Rightarrow> completion_response" where
  "gemini_read model v =
     (let u = json_get ''usageMetadata'' v; p = count_at ''promptTokenCount'' u; c = count_at ''candidatesTokenCount'' u
      in \<lparr>cr_content = concat (map (\<lambda>cand. concat (map (\<lambda>part. text_or_empty (json_get ''text'' part))
                         (items_at ''parts'' (json_get ''content'' cand)))) (items_at ''candidates'' v)),
          cr_model = model,
          cr_usage = usage_of p c (case json_u64 (json_get ''totalTokenCount'' u) of Some t \<Rightarrow> t | None \<Rightarrow> add_u64 p c)\<rparr>)"

definition ollama_read :: "string \<Rightarrow> json \<Rightarrow> completion_response" where
  "ollama_read model v =
     (let compatible = json_text (json_get ''content'' (json_get ''message'' (json_at 0 (json_get ''choices'' v))));
          native = json_text (json_get ''content'' (json_get ''message'' v));
          (p, c) = (case json_find ''usage'' v of
                      Some (JObj kvs) \<Rightarrow> (count_at ''prompt_tokens'' (JObj kvs), count_at ''completion_tokens'' (JObj kvs))
                    | _ \<Rightarrow> (count_at ''prompt_eval_count'' v, count_at ''eval_count'' v))
      in \<lparr>cr_content = (case compatible of Some s \<Rightarrow> s | None \<Rightarrow> (case native of Some s \<Rightarrow> s | None \<Rightarrow> [])),
          cr_model = (if model = [] then ''ollama'' else model), cr_usage = usage_of p c (add_u64 p c)\<rparr>)"

fun read_response :: "backend_family \<Rightarrow> string \<Rightarrow> json \<Rightarrow> completion_response" where
  "read_response Open_Ai model v = openai_read model v"
| "read_response Anthropic model v = anthropic_read model v"
| "read_response Gemini model v = gemini_read model v"
| "read_response Ollama model v = ollama_read model v"

definition parse_response ::
  "(string \<Rightarrow> string + json) \<Rightarrow> backend_family \<Rightarrow> string \<Rightarrow> string \<Rightarrow> llm_error + completion_response" where
  "parse_response parse family model body =
     (case parse body of Inl e \<Rightarrow> Inl (Serialization_Failed e) | Inr v \<Rightarrow> Inr (read_response family model v))"

text \<open>\<open>de\<close> reads the message of an error body, where it has the usual shape.\<close>

definition extract_json_error_message :: "(string \<Rightarrow> string option) \<Rightarrow> string \<Rightarrow> string" where
  "extract_json_error_message de body = (case de body of Some m \<Rightarrow> m | None \<Rightarrow> body)"

definition error_message :: "(string \<Rightarrow> string option) \<Rightarrow> backend_family \<Rightarrow> string \<Rightarrow> string" where
  "error_message de family body = (if family = Ollama then body else extract_json_error_message de body)"

section \<open>A completion\<close>

definition resolve_model :: "backend_config \<Rightarrow> completion_request \<Rightarrow> string" where
  "resolve_model cfg req =
     (if trim (rq_model req) = [] then (case bk_model cfg of Some m \<Rightarrow> m | None \<Rightarrow> []) else rq_model req)"

text \<open>\<open>net\<close> is what the network gives for the URL, the headers and the payload, attempt by attempt.\<close>

definition complete ::
  "(string \<Rightarrow> string + json) \<Rightarrow> (string \<Rightarrow> string option)
     \<Rightarrow> (string \<Rightarrow> (string \<times> string) list \<Rightarrow> json \<Rightarrow> nat \<Rightarrow> http_outcome) \<Rightarrow> generic_backend \<Rightarrow> completion_request
     \<Rightarrow> (llm_error + completion_response) \<times> nat list" where
  "complete parse de net b request =
     (let cfg = gb_config b; model = resolve_model cfg request; req = request\<lparr>rq_model := model\<rparr>
      in request_completion (gb_retry b) (\<lambda>_ body. error_message de (bk_family cfg) body)
           (parse_response parse (bk_family cfg) model)
           (net (completions_url cfg model) (auth_headers cfg) (build_request (bk_family cfg) req)))"

definition health_check ::
  "(health_method \<Rightarrow> string \<Rightarrow> (string \<times> string) list \<Rightarrow> http_outcome) \<Rightarrow> (nat \<Rightarrow> string) \<Rightarrow> generic_backend \<Rightarrow> llm_error + unit" where
  "health_check net show_status b =
     (let cfg = gb_config b
      in case net (bk_health_method cfg) (add_query_key cfg (health_url cfg)) (auth_headers cfg) of
           Inl msg \<Rightarrow> Inl (Connection_Failed msg)
         | Inr (status, _) \<Rightarrow>
             if 200 \<le> status \<and> status < 300 then Inr ()
             else Inl (Backend_Failed (''health check failed: status '' @ show_status status)))"

section \<open>Choosing a backend\<close>

definition backend_matches :: "string \<Rightarrow> backend_config \<Rightarrow> bool" where
  "backend_matches n b \<longleftrightarrow> bk_name b = Some n \<or> bk_model b = Some n \<or> n = family_name (bk_family b)"

definition choose_backend :: "backend_config list \<Rightarrow> string option \<Rightarrow> backend_config option" where
  "choose_backend backends name =
     (case name of
        Some n \<Rightarrow> List.find (backend_matches n) backends
      | None \<Rightarrow> (case backends of [] \<Rightarrow> None | b # _ \<Rightarrow> Some b))"

fun key_variable :: "backend_kind \<Rightarrow> string" where
  "key_variable Kind_OpenAI = ''OPENAI_API_KEY''"
| "key_variable Kind_Anthropic = ''ANTHROPIC_API_KEY''"
| "key_variable Kind_Gemini = ''GEMINI_API_KEY''"
| "key_variable Kind_Ollama = ''''"
| "key_variable Kind_DeepSeek = ''DEEPSEEK_API_KEY''"
| "key_variable Kind_MiMo = ''MIMO_API_KEY''"

definition resolve_backend ::
  "(string \<Rightarrow> string option) \<Rightarrow> backend_config list option \<Rightarrow> string option \<Rightarrow> string option \<Rightarrow> llm_error + generic_backend" where
  "resolve_backend env config name model_override =
     (case (case config of Some bs \<Rightarrow> choose_backend bs name | None \<Rightarrow> None) of
        Some cfg \<Rightarrow> backend_from_config (case model_override of Some m \<Rightarrow> cfg\<lparr>bk_model := Some m\<rparr> | None \<Rightarrow> cfg)
      | None \<Rightarrow>
          (case kind_from_str (case name of Some n \<Rightarrow> n | None \<Rightarrow> ''ollama'') of
             Inl e \<Rightarrow> Inl e
           | Inr kind \<Rightarrow> get_backend kind (env (key_variable kind)) None))"

section \<open>Reading what was put\<close>

definition is_obj :: "json \<Rightarrow> bool" where
  "is_obj v = (case v of JObj _ \<Rightarrow> True | _ \<Rightarrow> False)"

lemma is_obj_put [simp]: "is_obj (json_put k x v) = is_obj v" "is_obj (json_put_opt k o' v) = is_obj v" "is_obj (JObj kvs)"
  by (auto simp: is_obj_def json_put_def json_put_opt_def split: json.splits option.splits)

lemma json_find_put [simp]:
  "is_obj v \<Longrightarrow> json_find k (json_put k' x v) = (if k = k' then Some x else json_find k v)"
  by (auto simp: is_obj_def json_find_def json_put_def AList.update_conv' split: json.splits)

lemma json_find_put_opt [simp]:
  "is_obj v \<Longrightarrow> json_find k (json_put_opt k' x v) = (if k = k' \<and> x \<noteq> None then x else json_find k v)"
  by (cases x) (simp_all add: json_put_opt_def)

lemma json_find_obj [simp]: "json_find k (JObj kvs) = map_of kvs k"
  by (simp add: json_find_def)

section \<open>The key\<close>

text \<open>
  The key of a backend reaches the network by the way its scheme names and by no other: an
  exchange without authentication does not depend on it at all, one with a header only for a
  network that looks at headers, one with a query parameter only for a network that looks at
  the URL. The payload and the reading of the answer never depend on it.
\<close>

theorem key_noninterference:
  assumes "bk_auth (gb_config b) = Auth_None
    \<or> bk_auth (gb_config b) = Auth_Query \<and> (\<forall>u u' h p. net u h p = net u' h p)
    \<or> bk_auth (gb_config b) \<in> {Auth_Bearer, Auth_Header} \<and> (\<forall>u h h' p. net u h p = net u h' p)"
  shows "complete parse de net (b\<lparr>gb_config := (gb_config b)\<lparr>bk_key := k\<rparr>\<rparr>) request = complete parse de net b request"
proof -
  let ?c = "gb_config b" and ?c' = "(gb_config b)\<lparr>bk_key := k\<rparr>"
  have model: "resolve_model ?c' request = resolve_model ?c request" by (simp add: resolve_model_def)
  have url: "bk_auth ?c \<noteq> Auth_Query \<Longrightarrow> completions_url ?c' m = completions_url ?c m" for m
    by (simp add: completions_url_def add_query_key_def)
  have headers: "bk_auth ?c \<notin> {Auth_Bearer, Auth_Header} \<Longrightarrow> auth_headers ?c' = auth_headers ?c"
    by (cases "bk_auth ?c") (simp_all add: auth_headers_def)
  have "net (completions_url ?c' m) (auth_headers ?c') p = net (completions_url ?c m) (auth_headers ?c) p" for m p
    using assms url[of m] headers by (metis auth_scheme.distinct insertCI singletonD insertE)
  then show ?thesis by (simp add: complete_def Let_def model)
qed

section \<open>The conversation\<close>

lemma split_from_exact:
  "split_from s rest ms =
     (if filter (\<lambda>m. ms_role m = Role_System) ms = [] then s
      else Some (ms_content (last (filter (\<lambda>m. ms_role m = Role_System) ms))),
      rest @ filter (\<lambda>m. ms_role m \<noteq> Role_System) ms)"
  by (induction s rest ms rule: split_from.induct) auto

lemma split_system_exact:
  "split_system ms =
     (if filter (\<lambda>m. ms_role m = Role_System) ms = [] then None
      else Some (ms_content (last (filter (\<lambda>m. ms_role m = Role_System) ms))),
      filter (\<lambda>m. ms_role m \<noteq> Role_System) ms)"
  by (simp add: split_system_def split_from_exact)

text \<open>What a provider finds in a payload: roles and texts, the system prompt first where it has a field of its own.\<close>

definition read_simple :: "json \<Rightarrow> string \<times> string" where
  "read_simple v = (text_or_empty (json_get ''role'' v), text_or_empty (json_get ''content'' v))"

definition read_anthropic :: "json \<Rightarrow> string \<times> string" where
  "read_anthropic v = (text_or_empty (json_get ''role'' v), text_or_empty (json_get ''text'' (json_at 0 (json_get ''content'' v))))"

definition read_gemini :: "json \<Rightarrow> string \<times> string" where
  "read_gemini v =
     ((if json_get ''role'' v = JStr ''model'' then ''assistant'' else ''user''),
      text_or_empty (json_get ''text'' (json_at 0 (json_get ''parts'' v))))"

definition system_part :: "string option \<Rightarrow> (string \<times> string) list" where
  "system_part s = (case s of None \<Rightarrow> [] | Some t \<Rightarrow> [(''system'', t)])"

fun sent_conversation :: "backend_family \<Rightarrow> json \<Rightarrow> (string \<times> string) list" where
  "sent_conversation Open_Ai v = map read_simple (items_at ''messages'' v)"
| "sent_conversation Ollama v = map read_simple (items_at ''messages'' v)"
| "sent_conversation Anthropic v =
     system_part (map_option text_or_empty (json_find ''system'' v)) @ map read_anthropic (items_at ''messages'' v)"
| "sent_conversation Gemini v =
     system_part (map_option (\<lambda>i. text_or_empty (json_get ''text'' (json_at 0 (json_get ''parts'' i)))) (json_find ''systemInstruction'' v))
     @ map read_gemini (items_at ''contents'' v)"

definition has_system_field :: "backend_family \<Rightarrow> bool" where
  "has_system_field family \<longleftrightarrow> family \<in> {Anthropic, Gemini}"

definition as_pair :: "message \<Rightarrow> string \<times> string" where
  "as_pair m = (role_name (ms_role m), ms_content m)"

lemma read_messages:
  "map read_simple (messages_simple ms) = map as_pair ms"
  "map read_anthropic (anthropic_messages ms) = map as_pair ms"
  by (simp_all add: read_simple_def read_anthropic_def messages_simple_def anthropic_messages_def as_pair_def
        json_get_def json_at_def json_find_at_def text_or_empty_def json_text_def)

lemma read_gemini_contents:
  "\<forall>m\<in>set ms. ms_role m \<noteq> Role_System \<Longrightarrow> map read_gemini (gemini_contents ms) = map as_pair ms"
proof (induction ms)
  case (Cons m ms)
  then show ?case
    by (cases "ms_role m") (simp_all add: read_gemini_def gemini_contents_def as_pair_def json_get_def json_at_def
          json_find_at_def text_or_empty_def json_text_def)
qed (simp add: gemini_contents_def)

lemma sent_build:
  "sent_conversation family (build_request family req) =
     (if has_system_field family
      then system_part (fst (split_system (rq_messages req)))
           @ map as_pair (filter (\<lambda>m. ms_role m \<noteq> Role_System) (rq_messages req))
      else map as_pair (rq_messages req))"
proof -
  have rest: "snd (split_system ms) = filter (\<lambda>m. ms_role m \<noteq> Role_System) ms" for ms
    by (simp add: split_system_exact)
  note lookups = items_at_def json_items_def json_get_def has_system_field_def
  show ?thesis
  proof (cases family)
    case Open_Ai
    then show ?thesis using read_messages(1) by (simp add: openai_build_def lookups)
  next
    case Anthropic
    then show ?thesis using read_messages(2)
      by (simp add: anthropic_build_def lookups rest[symmetric] case_prod_beta text_or_empty_def json_text_def option.map_comp comp_def
            option.map_ident split: option.split)
  next
    case Gemini
    have "map read_gemini (gemini_contents (snd (split_system (rq_messages req)))) = map as_pair (snd (split_system (rq_messages req)))"
      by (rule read_gemini_contents) (simp add: rest)
    then show ?thesis using Gemini
      by (simp add: gemini_build_def lookups rest[symmetric] Let_def case_prod_beta text_or_empty_def json_text_def
            option.map_comp comp_def option.map_ident json_at_def json_find_at_def split: option.split)
  next
    case Ollama
    then show ?thesis using read_messages(1) by (simp add: ollama_build_def lookups Let_def)
  qed
qed

text \<open>
  Every family sends the messages of the conversation in order with their roles; the families
  with a field for the system prompt send the last system message there and none of the others.
\<close>

theorem conversation_sent:
  "sent_conversation family (build_request family req) =
     (if has_system_field family
      then system_part (fst (split_system (rq_messages req)))
           @ map as_pair (filter (\<lambda>m. ms_role m \<noteq> Role_System) (rq_messages req))
      else map as_pair (rq_messages req))"
  by (rule sent_build)

text \<open>Of several system messages all but the last are lost, although they steer the model.\<close>

theorem system_prompts_lost:
  assumes "has_system_field family"
  shows "build_request family (req\<lparr>rq_messages := a @ [\<lparr>ms_role = Role_System, ms_content = s\<rparr>] @ b @ [\<lparr>ms_role = Role_System, ms_content = t\<rparr>] @ c\<rparr>)
    = build_request family (req\<lparr>rq_messages := a @ b @ [\<lparr>ms_role = Role_System, ms_content = t\<rparr>] @ c\<rparr>)"
proof -
  have "split_system (a @ [\<lparr>ms_role = Role_System, ms_content = s\<rparr>] @ b @ [\<lparr>ms_role = Role_System, ms_content = t\<rparr>] @ c)
      = split_system (a @ b @ [\<lparr>ms_role = Role_System, ms_content = t\<rparr>] @ c)"
    by (simp add: split_system_exact)
  then show ?thesis using assms
    by (auto simp: has_system_field_def anthropic_build_def gemini_build_def gemini_config_def Let_def)
qed

section \<open>Answers\<close>

text \<open>The answer of each provider as its interface documents it.\<close>

fun provider_reply :: "backend_family \<Rightarrow> string \<Rightarrow> nat \<Rightarrow> nat \<Rightarrow> json" where
  "provider_reply Open_Ai t p c =
     JObj [(''choices'', JArr [JObj [(''message'', JObj [(''role'', JStr ''assistant''), (''content'', JStr t)])]]),
       (''usage'', JObj [(''prompt_tokens'', JInt (int p)), (''completion_tokens'', JInt (int c)), (''total_tokens'', JInt (int (p + c)))])]"
| "provider_reply Anthropic t p c =
     JObj [(''content'', JArr [JObj [(''type'', JStr ''text''), (''text'', JStr t)]]),
       (''usage'', JObj [(''input_tokens'', JInt (int p)), (''output_tokens'', JInt (int c))])]"
| "provider_reply Gemini t p c =
     JObj [(''candidates'', JArr [JObj [(''content'', JObj [(''parts'', JArr [JObj [(''text'', JStr t)]])])]]),
       (''usageMetadata'', JObj [(''promptTokenCount'', JInt (int p)), (''candidatesTokenCount'', JInt (int c))])]"
| "provider_reply Ollama t p c =
     JObj [(''message'', JObj [(''content'', JStr t)]), (''prompt_eval_count'', JInt (int p)), (''eval_count'', JInt (int c))]"

text \<open>A documented answer is read exactly, while its counters fit 32 bits.\<close>

theorem reply_read:
  assumes "p + c < 2 ^ 32" and "model \<noteq> []"
  shows "read_response family model (provider_reply family t p c) =
    \<lparr>cr_content = t, cr_model = model, cr_usage = \<lparr>us_prompt = p, us_completion = c, us_total = p + c, us_cost = 0\<rparr>\<rparr>"
proof -
  have small: "int p < 2 ^ 64" "int c < 2 ^ 64" "int p + int c < 2 ^ 64" "p + c < 2 ^ 64" using assms(1) by simp_all
  have clamp: "clamp_u32 p = p" "clamp_u32 c = c" "clamp_u32 (p + c) = p + c" using assms(1) by (simp_all add: clamp_u32_def)
  have add: "add_u64 p c = p + c" "nat (int p + int c) = p + c" using small by (simp_all add: add_u64_def nat_add_distrib)
  note lookups = json_get_def json_at_def json_find_at_def text_or_empty_def json_text_def items_at_def json_items_def
    count_at_def json_u64_def json_find_def
  show ?thesis
    using small clamp add assms(2)
    by (cases family) (simp_all add: openai_read_def anthropic_read_def gemini_read_def ollama_read_def usage_from_def usage_of_def
      lookups Let_def)
qed

text \<open>
  Reading fails for a body that is not JSON and for no other: whatever JSON a provider answers
  with is a completion, if need be an empty one that used no tokens.
\<close>

theorem any_json_is_an_answer:
  "(\<exists>e. parse_response parse family model body = Inl e) \<longleftrightarrow> (\<exists>e. parse body = Inl e)"
  by (auto simp: parse_response_def split: sum.splits)

theorem error_body_accepted:
  assumes "parse body = Inr (JObj [(''error'', e)])" and "\<And>u h p. net u h p 0 = Inr (200, body)"
  shows "\<exists>r. complete parse de net b request = (Inr r, []) \<and> cr_content r = []
           \<and> us_prompt (cr_usage r) = 0 \<and> us_completion (cr_usage r) = 0 \<and> us_total (cr_usage r) = 0"
proof -
  let ?f = "bk_family (gb_config b)" and ?m = "resolve_model (gb_config b) request"
  define r where "r = read_response ?f ?m (JObj [(''error'', e)])"
  have r: "cr_content r = [] \<and> us_prompt (cr_usage r) = 0 \<and> us_completion (cr_usage r) = 0 \<and> us_total (cr_usage r) = 0"
    unfolding r_def
    by (cases ?f) (simp_all add: openai_read_def anthropic_read_def gemini_read_def ollama_read_def usage_from_def usage_of_def
      json_get_def json_at_def json_find_at_def text_or_empty_def json_text_def items_at_def json_items_def json_find_def
      count_at_def json_u64_def add_u64_def clamp_u32_def Let_def)
  have "complete parse de net b request =
      (Inr (r\<lparr>cr_usage := (cr_usage r)\<lparr>us_cost := estimate_default (cr_model r) (cr_usage r)\<rparr>\<rparr>), [])"
    using assms by (simp add: complete_def Let_def request_completion_def retry_with_backoff_def retry_from.simps[of _ _ 0]
      http_attempt_def parse_response_def r_def)
  then show ?thesis using r by simp
qed

section \<open>URLs\<close>

lemma dropWhile_slashes: "dropWhile (\<lambda>c. c = slash) (replicate n slash @ s) = dropWhile (\<lambda>c. c = slash) s"
  by (induction n) simp_all

lemma join_url_slashes: "join_url (base @ replicate m slash) (replicate n slash @ path) = join_url base path"
  by (simp add: join_url_def dropWhile_slashes flip: replicate_append_same)

lemma replace_all_slashes:
  "pat \<noteq> [] \<Longrightarrow> hd pat \<noteq> slash \<Longrightarrow> replace_all pat rep (replicate n slash @ s) = replicate n slash @ replace_all pat rep s"
proof (induction n)
  case (Suc n)
  then have "\<not> starts_with pat (slash # replicate n slash @ s)"
    by (cases pat) (auto simp: starts_with_def)
  then show ?case using Suc by simp
qed simp

text \<open>Slashes at the end of the base address and at the start of a path make no difference.\<close>

theorem url_normal_form:
  "completions_url (cfg\<lparr>bk_base := bk_base cfg @ replicate m slash, bk_completions := replicate n slash @ bk_completions cfg\<rparr>) model
     = completions_url cfg model"
proof -
  have "replace_all ''{model}'' model (replicate n slash @ bk_completions cfg) = replicate n slash @ replace_all ''{model}'' model (bk_completions cfg)"
    by (rule replace_all_slashes) (simp_all add: slash_def)
  then show ?thesis by (simp add: completions_url_def join_url_slashes add_query_key_def)
qed

section \<open>Choice of a backend\<close>

text \<open>A preset can be used exactly when it has its key; only the local server needs none.\<close>

theorem get_backend_exact:
  "get_backend kind key base_url =
     (if kind \<noteq> Kind_Ollama \<and> key = None
      then Inl (Auth_Failed (''API key required for '' @ family_name (bk_family (kind_preset kind key)) @ '' backend (auth = ''
             @ scheme_name (bk_auth (kind_preset kind key)) @ '')''))
      else Inr \<lparr>gb_config = config_from_kind kind key base_url, gb_name = kind_name kind, gb_retry = default_retry\<rparr>)"
  by (cases kind; cases base_url; cases key)
     (simp_all add: get_backend_def backend_from_config_def config_from_kind_def Let_def openai_preset_def anthropic_preset_def
       gemini_preset_def ollama_preset_def deepseek_preset_def mimo_preset_def)

lemma backend_from_config_keyed:
  "backend_from_config cfg = Inr b \<Longrightarrow> gb_config b = cfg \<and> (bk_auth cfg = Auth_None \<or> bk_key cfg \<noteq> None)"
  by (auto simp: backend_from_config_def split: if_splits)

lemma choose_backend_matches:
  "choose_backend bs name = Some cfg \<Longrightarrow> cfg \<in> set bs \<and> (case name of Some n \<Rightarrow> backend_matches n cfg | None \<Rightarrow> cfg = hd bs)"
  by (auto simp: choose_backend_def find_Some_iff in_set_conv_nth split: option.splits list.splits)

text \<open>
  A backend that was resolved can authenticate. It is a configured one that answers to the
  name (the first one without a name), or a preset.
\<close>

theorem resolved_backend_sound:
  assumes "resolve_backend env config name override = Inr b"
  shows "(bk_auth (gb_config b) = Auth_None \<or> bk_key (gb_config b) \<noteq> None)
    \<and> ((\<exists>bs cfg. config = Some bs \<and> cfg \<in> set bs \<and> (\<forall>n. name = Some n \<longrightarrow> backend_matches n cfg)
            \<and> gb_config b = (case override of Some m \<Rightarrow> cfg\<lparr>bk_model := Some m\<rparr> | None \<Rightarrow> cfg))
       \<or> (\<exists>kind. gb_config b = config_from_kind kind (env (key_variable kind)) None))"
proof (cases "case config of Some bs \<Rightarrow> choose_backend bs name | None \<Rightarrow> None")
  case None
  then show ?thesis using assms backend_from_config_keyed
    by (auto simp: resolve_backend_def get_backend_def split: sum.splits)
next
  case (Some cfg)
  then obtain bs where bs: "config = Some bs" "choose_backend bs name = Some cfg" by (auto split: option.splits)
  then have "cfg \<in> set bs" "\<forall>n. name = Some n \<longrightarrow> backend_matches n cfg"
    using choose_backend_matches[OF bs(2)] by (auto split: option.splits)
  moreover have "backend_from_config (case override of Some m \<Rightarrow> cfg\<lparr>bk_model := Some m\<rparr> | None \<Rightarrow> cfg) = Inr b"
    using assms Some by (simp add: resolve_backend_def)
  ultimately have found: "\<exists>bs cfg. config = Some bs \<and> cfg \<in> set bs \<and> (\<forall>n. name = Some n \<longrightarrow> backend_matches n cfg)
      \<and> gb_config b = (case override of Some m \<Rightarrow> cfg\<lparr>bk_model := Some m\<rparr> | None \<Rightarrow> cfg)"
    and keyed: "bk_auth (gb_config b) = Auth_None \<or> bk_key (gb_config b) \<noteq> None"
    using bs(1) backend_from_config_keyed by (blast, metis)
  show ?thesis using found keyed by simp
qed

text \<open>Without a configured backend the model that was asked for is dropped.\<close>

theorem override_ignored:
  "resolve_backend env None name (Some m) = resolve_backend env None name None"
  by (simp add: resolve_backend_def)

section \<open>Examples\<close>

definition demo_request :: completion_request where
  "demo_request = \<lparr>rq_model = [], rq_messages = [\<lparr>ms_role = Role_User, ms_content = ''hi''\<rparr>], rq_temperature = None,
     rq_max_tokens = Some 5, rq_stop = None, rq_seed = None, rq_tools = None\<rparr>"

definition demo_gemini :: generic_backend where
  "demo_gemini = \<lparr>gb_config = gemini_preset (Some ''k''), gb_name = ''gemini'', gb_retry = default_retry\<rparr>"

lemma key_noninterference_witness:
  "complete (\<lambda>s. Inl s) (\<lambda>_. None) (\<lambda>_ _ _ _. Inr (200, ''x''))
       (demo_gemini\<lparr>gb_config := (gb_config demo_gemini)\<lparr>bk_key := Some ''other''\<rparr>\<rparr>) demo_request
     = complete (\<lambda>s. Inl s) (\<lambda>_. None) (\<lambda>_ _ _ _. Inr (200, ''x'')) demo_gemini demo_request"
  by (rule key_noninterference) (simp add: demo_gemini_def gemini_preset_def)

lemma system_prompts_lost_witness:
  "build_request Anthropic (demo_request\<lparr>rq_messages := [] @ [\<lparr>ms_role = Role_System, ms_content = ''a''\<rparr>] @ [] @ [\<lparr>ms_role = Role_System, ms_content = ''b''\<rparr>] @ []\<rparr>)
     = build_request Anthropic (demo_request\<lparr>rq_messages := [] @ [] @ [\<lparr>ms_role = Role_System, ms_content = ''b''\<rparr>] @ []\<rparr>)"
  by (rule system_prompts_lost) (simp add: has_system_field_def)

lemma reply_read_witness:
  "read_response Gemini ''m'' (provider_reply Gemini ''t'' 3 4) =
     \<lparr>cr_content = ''t'', cr_model = ''m'', cr_usage = \<lparr>us_prompt = 3, us_completion = 4, us_total = 3 + 4, us_cost = 0\<rparr>\<rparr>"
  by (rule reply_read) simp_all

lemma error_body_accepted_witness:
  "\<exists>r. complete (\<lambda>_. Inr (JObj [(''error'', JNull)])) (\<lambda>_. None) (\<lambda>_ _ _ _. Inr (200, ''x'')) demo_gemini demo_request = (Inr r, [])
     \<and> cr_content r = [] \<and> us_prompt (cr_usage r) = 0 \<and> us_completion (cr_usage r) = 0 \<and> us_total (cr_usage r) = 0"
  by (rule error_body_accepted[where body = "''x''" and e = JNull]) simp_all

lemma resolved_backend_sound_witness:
  "\<exists>b. resolve_backend (\<lambda>_. None) (Some [ollama_preset]) None (Some ''m'') = Inr b
     \<and> (bk_auth (gb_config b) = Auth_None \<or> bk_key (gb_config b) \<noteq> None)"
proof -
  have "resolve_backend (\<lambda>_. None) (Some [ollama_preset]) None (Some ''m'')
      = Inr \<lparr>gb_config = ollama_preset\<lparr>bk_model := Some ''m''\<rparr>, gb_name = ''ollama'', gb_retry = default_retry\<rparr>"
    by (simp add: resolve_backend_def choose_backend_def backend_from_config_def ollama_preset_def)
  from resolved_backend_sound[OF this] this show ?thesis by blast
qed

end
