(* ===== verification/Client_Config.thy ===== *)
theory Client_Config
  imports Providers
begin

text \<open>
  The configuration of the client (\<^verbatim>\<open>crates/arags-cli/src/user_config/{mod,ops}.rs\<close>): a global and
  a local scope and their merge, the address of the server, the ignore patterns, the name of a
  project, and the registration of a watcher in the local file. The TOML codec is left out: a
  scope is what it parsed to. Text is ASCII. Lemmas: which scope wins; for backends with names
  the merge is the override of one finite map by another, and what is lost without names.
\<close>

section \<open>Scopes\<close>

record auth_config =
  cred_username :: "string option"
  cred_token :: "string option"

record server_section =
  sv_addr :: "string option"
  sv_ca :: "string option"
  sv_cert :: "string option"
  sv_key :: "string option"

record project_section =
  ps_name :: "string option"
  ps_ignore :: "string list option"

record watch_section =
  ws_enabled :: bool
  ws_project :: "string option"

record volunteer_config =
  vc_enabled :: bool
  vc_backend :: "string option"
  vc_model :: "string option"
  vc_max_tokens :: nat
  vc_lease_secs :: nat
  vc_max_level :: nat
  vc_poll_secs :: nat

definition default_volunteer :: volunteer_config where
  "default_volunteer =
     \<lparr>vc_enabled = False, vc_backend = None, vc_model = None, vc_max_tokens = 2048, vc_lease_secs = 500, vc_max_level = 3,
      vc_poll_secs = 30\<rparr>"

record global_config =
  gc_auth :: "auth_config option"
  gc_llm :: "backend_config list option"
  gc_server :: "server_section option"
  gc_project :: "project_section option"
  gc_volunteer :: "volunteer_config option"

record local_config =
  lc_llm :: "backend_config list option"
  lc_server :: "server_section option"
  lc_project :: "project_section option"
  lc_watch :: "watch_section option"

record user_config =
  uc_auth :: "auth_config option"
  uc_llm :: "backend_config list option"
  uc_server :: server_section
  uc_project :: project_section
  uc_watch :: "watch_section option"
  uc_volunteer :: "volunteer_config option"

section \<open>Merging\<close>

definition same_backend :: "backend_config \<Rightarrow> backend_config \<Rightarrow> bool" where
  "same_backend a b \<longleftrightarrow>
     (case (bk_name a, bk_name b) of
        (Some an, Some bn) \<Rightarrow> an = bn
      | _ \<Rightarrow> (case (bk_model a, bk_model b) of
                (Some am, Some bm) \<Rightarrow> am = bm
              | _ \<Rightarrow> bk_family a = bk_family b))"

definition override_backend :: "backend_config list \<Rightarrow> backend_config \<Rightarrow> backend_config" where
  "override_backend locals g = (case List.find (\<lambda>l. same_backend l g) locals of Some l \<Rightarrow> l | None \<Rightarrow> g)"

definition append_backend :: "backend_config \<Rightarrow> backend_config list \<Rightarrow> backend_config list" where
  "append_backend l out = (if list_ex (\<lambda>b. same_backend b l) out then out else out @ [l])"

definition merge_backends :: "backend_config list \<Rightarrow> backend_config list \<Rightarrow> backend_config list" where
  "merge_backends globals locals = fold append_backend locals (map (override_backend locals) globals)"

text \<open>A field of a section that may be missing, the local one first.\<close>

definition pick_field :: "('s \<Rightarrow> 'a option) \<Rightarrow> 's option \<Rightarrow> 's option \<Rightarrow> 'a option" where
  "pick_field f l g =
     (case Option.bind l f of Some x \<Rightarrow> Some x | None \<Rightarrow> Option.bind g f)"

definition merge_config :: "global_config \<Rightarrow> local_config \<Rightarrow> user_config" where
  "merge_config g l =
     \<lparr>uc_auth = gc_auth g,
      uc_llm = (case (gc_llm g, lc_llm l) of
                  (Some gb, Some lb) \<Rightarrow> Some (merge_backends gb lb)
                | (Some gb, None) \<Rightarrow> Some gb
                | (None, Some lb) \<Rightarrow> Some lb
                | (None, None) \<Rightarrow> None),
      uc_server =
        \<lparr>sv_addr = pick_field sv_addr (lc_server l) (gc_server g), sv_ca = pick_field sv_ca (lc_server l) (gc_server g),
         sv_cert = pick_field sv_cert (lc_server l) (gc_server g), sv_key = pick_field sv_key (lc_server l) (gc_server g)\<rparr>,
      uc_project =
        \<lparr>ps_name = pick_field ps_name (lc_project l) (gc_project g), ps_ignore = pick_field ps_ignore (lc_project l) (gc_project g)\<rparr>,
      uc_watch = lc_watch l,
      uc_volunteer = gc_volunteer g\<rparr>"

section \<open>Values read from the merge and the environment\<close>

definition resolve_addr :: "string option \<Rightarrow> string option \<Rightarrow> string" where
  "resolve_addr configured env =
     (case configured of Some a \<Rightarrow> a | None \<Rightarrow> (case env of Some a \<Rightarrow> a | None \<Rightarrow> ''127.0.0.1:50051''))"

definition server_addr :: "(string \<Rightarrow> string option) \<Rightarrow> user_config \<Rightarrow> string" where
  "server_addr env cfg = resolve_addr (sv_addr (uc_server cfg)) (env ''ARAGS_SERVER_ADDR'')"

definition ignore_patterns :: "user_config \<Rightarrow> string list" where
  "ignore_patterns cfg = (case ps_ignore (uc_project cfg) of Some ps \<Rightarrow> ps | None \<Rightarrow> [])"

fun split_on :: "char \<Rightarrow> string \<Rightarrow> string \<Rightarrow> string list" where
  "split_on d acc [] = [acc]"
| "split_on d acc (c # cs) = (if c = d then acc # split_on d [] cs else split_on d (acc @ [c]) cs)"

definition add_pattern :: "string \<Rightarrow> string list \<Rightarrow> string list" where
  "add_pattern raw out = (let p = trim raw in if p \<noteq> [] \<and> p \<notin> set out then out @ [p] else out)"

definition index_ignore_patterns :: "(string \<Rightarrow> string option) \<Rightarrow> user_config \<Rightarrow> string list" where
  "index_ignore_patterns env cfg =
     (case env ''ARAGS_INDEX_IGNORE'' of
        Some s \<Rightarrow> fold add_pattern (split_on CHR '','' [] s) (ignore_patterns cfg)
      | None \<Rightarrow> ignore_patterns cfg)"

text \<open>On the platforms of the server a path is absolute when it starts with a slash.\<close>

definition is_valid_canonical_name :: "string \<Rightarrow> bool" where
  "is_valid_canonical_name name \<longleftrightarrow>
     trim name \<noteq> [] \<and> name \<noteq> ''.'' \<and> name \<noteq> ''..'' \<and> \<not> starts_with ''/'' name"

datatype name_error = Invalid_Name string | No_Name

definition resolve_canonical_name :: "user_config \<Rightarrow> name_error + string" where
  "resolve_canonical_name cfg =
     (case ps_name (uc_project cfg) of
        Some name \<Rightarrow> if is_valid_canonical_name name then Inr name else Inl (Invalid_Name name)
      | None \<Rightarrow> Inl No_Name)"

section \<open>Registering a watcher\<close>

datatype toml = T_Bool bool | T_Text string | T_Table "(string \<times> toml) list" | T_Other string

text \<open>The table of the local file, empty where there is none; tables are keyed by distinct names.\<close>

definition set_watch_enabled :: "bool \<Rightarrow> string \<Rightarrow> (string \<times> toml) list option \<Rightarrow> (string \<times> toml) list" where
  "set_watch_enabled enabled project doc =
     (let watch = (''enabled'', T_Bool enabled) # (if enabled then [(''project'', T_Text project)] else [])
      in AList.update ''watch'' (T_Table watch) (case doc of Some d \<Rightarrow> d | None \<Rightarrow> []))"

section \<open>Which scope wins\<close>

definition named :: "backend_config list \<Rightarrow> bool" where
  "named bs \<longleftrightarrow> (\<forall>b\<in>set bs. bk_name b \<noteq> None)"

definition by_name :: "backend_config list \<Rightarrow> string \<rightharpoonup> backend_config" where
  "by_name bs = map_of (map (\<lambda>b. (the (bk_name b), b)) bs)"

lemma same_named: "bk_name a \<noteq> None \<Longrightarrow> bk_name b \<noteq> None \<Longrightarrow> same_backend a b \<longleftrightarrow> the (bk_name a) = the (bk_name b)"
  by (auto simp: same_backend_def)

lemma find_by_name:
  "named bs \<Longrightarrow> bk_name g \<noteq> None \<Longrightarrow> List.find (\<lambda>l. same_backend l g) bs = by_name bs (the (bk_name g))"
  by (induction bs) (auto simp: named_def by_name_def same_named)

lemma by_name_None: "by_name bs n = None \<longleftrightarrow> n \<notin> the ` bk_name ` set bs"
  by (auto simp: by_name_def map_of_eq_None_iff image_iff)

lemma by_name_append: "by_name (as @ bs) n = (case by_name as n of Some b \<Rightarrow> Some b | None \<Rightarrow> by_name bs n)"
  by (simp add: by_name_def map_add_def split: option.splits)

lemma by_name_single: "by_name [l] n = (if n = the (bk_name l) then Some l else None)"
  by (simp add: by_name_def)

lemma by_name_named: "named bs \<Longrightarrow> by_name bs n = Some b \<Longrightarrow> b \<in> set bs \<and> the (bk_name b) = n"
  unfolding by_name_def by (auto dest: map_of_SomeD)

lemma override_named:
  assumes "named locals" "named globals"
  shows "named (map (override_backend locals) globals)
    \<and> by_name (map (override_backend locals) globals) n
      = (if n \<in> the ` bk_name ` set globals then (case by_name locals n of Some l \<Rightarrow> Some l | None \<Rightarrow> by_name globals n) else None)"
  using assms(2)
proof (induction globals)
  case (Cons g gs)
  then have g: "bk_name g \<noteq> None" "named gs" by (simp_all add: named_def)
  define h where "h = override_backend locals g"
  have h: "bk_name h \<noteq> None \<and> the (bk_name h) = the (bk_name g)
      \<and> Some h = (case by_name locals (the (bk_name g)) of Some l \<Rightarrow> Some l | None \<Rightarrow> Some g)"
    using find_by_name[OF assms(1) g(1)] g(1) by_name_named[OF assms(1), of "the (bk_name g)"] assms(1)
    by (auto simp: h_def override_backend_def named_def split: option.splits)
  then show ?case using Cons.IH[OF g(2)]
    by (auto simp: h_def[symmetric] named_def by_name_def split: option.splits)
qed (simp add: named_def by_name_def)

lemma append_named:
  assumes "named locals" "named out"
  shows "named (fold append_backend locals out)
    \<and> by_name (fold append_backend locals out) n = (case by_name out n of Some b \<Rightarrow> Some b | None \<Rightarrow> by_name locals n)"
  using assms
proof (induction locals arbitrary: out)
  case (Cons l ls)
  have l: "bk_name l \<noteq> None" "named ls" using Cons.prems(1) by (simp_all add: named_def)
  have ex: "list_ex (\<lambda>b. same_backend b l) out \<longleftrightarrow> by_name out (the (bk_name l)) \<noteq> None"
    using Cons.prems(2) l(1) by (auto simp: by_name_None list_ex_iff named_def same_named image_iff)
  have out: "named (append_backend l out)" using Cons.prems l(1) by (auto simp: append_backend_def named_def)
  have head: "by_name (l # ls) n = (if n = the (bk_name l) then Some l else by_name ls n)" by (simp add: by_name_def)
  have "by_name (append_backend l out) n = (case by_name out n of Some b \<Rightarrow> Some b | None \<Rightarrow> by_name [l] n)"
    using ex by (auto simp: append_backend_def by_name_append by_name_single split: option.splits)
  then show ?case using Cons.IH[OF l(2) out]
    by (auto simp: head by_name_single split: option.splits)
qed (simp add: by_name_def split: option.splits)

text \<open>
  When every backend has a name, merging the lists is overriding the global map from names to
  backends by the local one, as documented.
\<close>

theorem named_backends_override:
  assumes "named globals" and "named locals"
  shows "by_name (merge_backends globals locals) = by_name globals ++ by_name locals"
proof
  fix n
  have "by_name (merge_backends globals locals) n =
      (case by_name (map (override_backend locals) globals) n of Some b \<Rightarrow> Some b | None \<Rightarrow> by_name locals n)"
    using append_named[OF assms(2)] override_named[OF assms(2,1)] by (simp add: merge_backends_def)
  then show "by_name (merge_backends globals locals) n = (by_name globals ++ by_name locals) n"
    using override_named[OF assms(2,1), of n] by_name_None[of globals n]
    by (auto simp: map_add_def split: option.splits if_splits)
qed

lemma append_keeps: "set out \<subseteq> set (fold append_backend ls out) \<and> set (fold append_backend ls out) \<subseteq> set out \<union> set ls"
proof (induction ls arbitrary: out)
  case (Cons l ls)
  show ?case using Cons[of "append_backend l out"] by (auto simp: append_backend_def split: if_splits)
qed simp

text \<open>
  In general every global backend is kept or replaced by a local one that counts as the same,
  and nothing comes from elsewhere.
\<close>

theorem merge_backends_sound:
  "(\<forall>g\<in>set globals. g \<in> set (merge_backends globals locals) \<or> (\<exists>l\<in>set locals. same_backend l g \<and> l \<in> set (merge_backends globals locals)))
   \<and> set (merge_backends globals locals) \<subseteq> set globals \<union> set locals"
proof
  let ?out = "map (override_backend locals) globals"
  have keep: "set ?out \<subseteq> set (merge_backends globals locals)" "set (merge_backends globals locals) \<subseteq> set ?out \<union> set locals"
    using append_keeps[of ?out locals] by (simp_all add: merge_backends_def)
  have over: "override_backend locals g = g \<or> (override_backend locals g \<in> set locals \<and> same_backend (override_backend locals g) g)" for g
    by (auto simp: override_backend_def find_Some_iff split: option.splits)
  show "\<forall>g\<in>set globals. g \<in> set (merge_backends globals locals) \<or> (\<exists>l\<in>set locals. same_backend l g \<and> l \<in> set (merge_backends globals locals))"
    using over keep(1) by (metis image_eqI list.set_map subsetD)
  show "set (merge_backends globals locals) \<subseteq> set globals \<union> set locals"
  proof
    fix b assume "b \<in> set (merge_backends globals locals)"
    then have "b \<in> set ?out \<union> set locals" using keep(2) by blast
    then show "b \<in> set globals \<union> set locals" using over by (auto simp: image_iff) metis
  qed
qed

text \<open>
  Without names the comparison is not transitive: one local entry without name and model
  replaces all entries of its family, and a purely local backend may be lost.
\<close>

definition nameless :: "string option \<Rightarrow> backend_config" where
  "nameless model = ollama_preset\<lparr>bk_name := None, bk_model := model\<rparr>"

theorem nameless_backends_lost:
  "merge_backends [nameless (Some ''a''), nameless (Some ''b'')] [nameless None] = [nameless None, nameless None]
   \<and> merge_backends [nameless (Some ''a'')] [nameless None, nameless (Some ''b'')] = [nameless None]"
  by (simp add: merge_backends_def override_backend_def append_backend_def nameless_def ollama_preset_def same_backend_def)

text \<open>
  The credentials and the volunteer come from the global scope alone and the watcher from the
  local one; in the sections a local field wins.
\<close>

theorem merge_scopes:
  "uc_auth (merge_config g l) = gc_auth g \<and> uc_volunteer (merge_config g l) = gc_volunteer g \<and> uc_watch (merge_config g l) = lc_watch l
   \<and> (\<forall>s a. lc_server l = Some s \<and> sv_addr s = Some a \<longrightarrow> server_addr env (merge_config g l) = a)
   \<and> (\<forall>s a. (\<forall>s'. lc_server l = Some s' \<longrightarrow> sv_addr s' = None) \<and> gc_server g = Some s \<and> sv_addr s = Some a
        \<longrightarrow> server_addr env (merge_config g l) = a)"
  by (cases "lc_server l") (auto simp: merge_config_def server_addr_def resolve_addr_def pick_field_def split: option.splits)

section \<open>Patterns and names\<close>

lemma fold_add_pattern:
  "(distinct out \<longrightarrow> distinct (fold add_pattern ps out)) \<and> set (fold add_pattern ps out) = set out \<union> {p \<in> trim ` set ps. p \<noteq> []}
   \<and> (\<exists>more'. fold add_pattern ps out = out @ more')"
proof (induction ps arbitrary: out)
  case (Cons p ps)
  obtain tail' where "fold add_pattern ps (add_pattern p out) = add_pattern p out @ tail'" using Cons[of "add_pattern p out"] by blast
  moreover have "\<exists>e. add_pattern p out = out @ e" by (simp add: add_pattern_def Let_def)
  ultimately have "\<exists>more'. fold add_pattern (p # ps) out = out @ more'" by auto
  then show ?case using Cons[of "add_pattern p out"] by (auto simp: add_pattern_def Let_def split: if_splits)
qed simp

text \<open>The patterns are those of the configuration, in order, and the trimmed ones of the environment; none is added twice.\<close>

theorem ignore_patterns_exact:
  assumes "env ''ARAGS_INDEX_IGNORE'' = Some s"
  shows "set (index_ignore_patterns env cfg) = set (ignore_patterns cfg) \<union> {p \<in> trim ` set (split_on CHR '','' [] s). p \<noteq> []}
    \<and> (\<exists>added. index_ignore_patterns env cfg = ignore_patterns cfg @ added)
    \<and> (distinct (ignore_patterns cfg) \<longrightarrow> distinct (index_ignore_patterns env cfg))"
  using fold_add_pattern[of "ignore_patterns cfg" "split_on CHR '','' [] s"] assms by (simp add: index_ignore_patterns_def)

text \<open>The registration changes the entry of the watcher and no other.\<close>

theorem registration_keeps_rest:
  "k \<noteq> ''watch'' \<Longrightarrow> map_of (set_watch_enabled enabled project (Some doc)) k = map_of doc k"
  by (simp add: set_watch_enabled_def Let_def AList.update_conv')

section \<open>Examples\<close>

definition demo_backend :: "string \<Rightarrow> string \<Rightarrow> backend_config" where
  "demo_backend n m = ollama_preset\<lparr>bk_name := Some n, bk_model := Some m\<rparr>"

lemma named_backends_override_witness:
  "by_name (merge_backends [demo_backend ''a'' ''x'', demo_backend ''b'' ''y''] [demo_backend ''b'' ''z''])
     = by_name [demo_backend ''a'' ''x'', demo_backend ''b'' ''y''] ++ by_name [demo_backend ''b'' ''z'']"
  by (rule named_backends_override) (simp_all add: named_def demo_backend_def)

end
