(* ===== verification/Watch.thy ===== *)
theory Watch
  imports Index_Stream
begin

text \<open>
  The background watcher of the client (\<^verbatim>\<open>crates/arags-cli/src/watcher.rs\<close>,
  \<^verbatim>\<open>crates/arags-cli/src/dispatch/watch_daemon.rs\<close>): changes open a quiet window of one minute,
  and when it closes the changed files are streamed to the server. The notifier, the directory
  and the clocks are what a turn of the loop finds. The set of changed paths is a list without
  repetition; a flush depends on its elements only. Lemmas: a flush waits until the window is
  quiet, no change is lost while the loop runs, and what a flush leaves in the index.
\<close>

section \<open>The buffer of changes\<close>

definition flush_delay :: nat where "flush_delay = 60000"

record change_buffer =
  cb_pending :: "string list"
  cb_deadline :: "nat option"

definition empty_buffer :: change_buffer where
  "empty_buffer = \<lparr>cb_pending = [], cb_deadline = None\<rparr>"

definition extend_buffer :: "nat \<Rightarrow> string list \<Rightarrow> change_buffer \<Rightarrow> change_buffer" where
  "extend_buffer now paths b =
     \<lparr>cb_pending = fold (\<lambda>p ps. if p \<in> set ps then ps else ps @ [p]) paths (cb_pending b), cb_deadline = Some (now + flush_delay)\<rparr>"

definition buffer_due :: "nat \<Rightarrow> change_buffer \<Rightarrow> bool" where
  "buffer_due now b = (case cb_deadline b of Some d \<Rightarrow> d \<le> now | None \<Rightarrow> False)"

definition take_buffer :: "change_buffer \<Rightarrow> string list \<times> change_buffer" where
  "take_buffer b = (cb_pending b, empty_buffer)"

section \<open>The loop\<close>

text \<open>What the channel of the notifier gives within half a second.\<close>

datatype watch_event = Changes "string list" | Quiet | Disconnected

text \<open>
  One turn of the loop: whether the marker file asks to stop, the event, the two readings of the
  clock, and what a flush of this turn finds: the files, their fingerprints before and after the
  upload, the client's reader and the server's environment.
\<close>

type_synonym file_state = "nat \<times> nat"

record 'f tick =
  tk_stop :: bool
  tk_event :: watch_event
  tk_extend :: nat
  tk_due :: nat
  tk_current :: "'f list option"
  tk_stat :: "'f \<Rightarrow> file_state"
  tk_stat_after :: "'f \<Rightarrow> file_state"
  tk_client :: "'f client_env"
  tk_env :: index_env

datatype loop_end = Stopped | Channel_Closed | Flush_Failed

text \<open>\<open>strip\<close> removes the root from a path; a path elsewhere is dropped.\<close>

definition recorded :: "(string \<Rightarrow> string option) \<Rightarrow> 'f tick \<Rightarrow> string list" where
  "recorded strip t = (case tk_event t of Changes ps \<Rightarrow> List.map_filter strip ps | _ \<Rightarrow> [])"

definition after_event :: "(string \<Rightarrow> string option) \<Rightarrow> 'f tick \<Rightarrow> change_buffer \<Rightarrow> change_buffer" where
  "after_event strip t b = (if recorded strip t = [] then b else extend_buffer (tk_extend t) (recorded strip t) b)"

definition watch_turn ::
  "(string \<Rightarrow> string option) \<Rightarrow> ('f tick \<Rightarrow> string list \<Rightarrow> 's \<Rightarrow> bool \<times> 's) \<Rightarrow> 'f tick \<Rightarrow> change_buffer \<times> 's
     \<Rightarrow> loop_end option \<times> change_buffer \<times> 's" where
  "watch_turn strip flush t = (\<lambda>(b, s).
     (if tk_stop t then (Some Stopped, b, s)
      else if tk_event t = Disconnected then (Some Channel_Closed, b, s)
      else let b' = after_event strip t b
           in if buffer_due (tk_due t) b'
              then let (changed, b'') = take_buffer b'; (ok, s') = flush t changed s
                   in (if ok then None else Some Flush_Failed, b'', s')
              else (None, b', s)))"

primrec watch_loop ::
  "(string \<Rightarrow> string option) \<Rightarrow> ('f tick \<Rightarrow> string list \<Rightarrow> 's \<Rightarrow> bool \<times> 's) \<Rightarrow> 'f tick list \<Rightarrow> change_buffer \<times> 's
     \<Rightarrow> loop_end option \<times> change_buffer \<times> 's" where
  "watch_loop strip flush [] st = (None, st)"
| "watch_loop strip flush (t # ts) st =
     (case watch_turn strip flush t st of
        (Some e, st') \<Rightarrow> (Some e, st')
      | (None, st') \<Rightarrow> watch_loop strip flush ts st')"

text \<open>The marker files of the daemon.\<close>

definition is_running :: "bool \<Rightarrow> bool \<Rightarrow> bool" where
  "is_running pid_exists stop_exists \<longleftrightarrow> pid_exists \<and> \<not> stop_exists"

section \<open>Flushing changes to the server\<close>

definition snapshot_state :: "('f \<Rightarrow> string) \<Rightarrow> ('f \<Rightarrow> file_state) \<Rightarrow> 'f list option \<Rightarrow> (string \<times> file_state) list" where
  "snapshot_state rel stat files =
     fold (\<lambda>f m. AList.update (rel f) (stat f) m) (case files of Some fs \<Rightarrow> fs | None \<Rightarrow> []) []"

definition files_to_send ::
  "('f \<Rightarrow> string) \<Rightarrow> ('f \<Rightarrow> file_state) \<Rightarrow> (string \<times> file_state) list \<Rightarrow> string list \<Rightarrow> 'f list \<Rightarrow> 'f list" where
  "files_to_send rel stat known changed current =
     filter (\<lambda>f. rel f \<in> set changed \<and> map_of known (rel f) \<noteq> Some (stat f)) current"

primrec send_groups ::
  "index_env \<Rightarrow> 'f client_env \<Rightarrow> string \<Rightarrow> string \<Rightarrow> string option \<Rightarrow> 'f list list \<Rightarrow> index_state \<Rightarrow> bool \<times> index_state" where
  "send_groups env ce project root_path created_by [] st = (True, st)"
| "send_groups env ce project root_path created_by (g # gs) st =
     (case stream_index_group env ce project root_path created_by g st of
        (st', Inl _) \<Rightarrow> (False, st')
      | (st', Inr _) \<Rightarrow> send_groups env ce project root_path created_by gs st')"

definition watch_parallelism :: nat where "watch_parallelism = 2"

definition flush_changed ::
  "string \<Rightarrow> string \<Rightarrow> string option \<Rightarrow> 'f tick \<Rightarrow> string list \<Rightarrow> (string \<times> file_state) list \<times> index_state
     \<Rightarrow> bool \<times> (string \<times> file_state) list \<times> index_state" where
  "flush_changed project root_path created_by t changed = (\<lambda>(known, st).
     (if changed = [] then (True, known, st)
      else case tk_current t of
             None \<Rightarrow> (False, known, st)
           | Some current \<Rightarrow>
               (let rel = ce_rel (tk_client t); to_send = files_to_send rel (tk_stat t) known changed current
                in if to_send = [] then (True, known, st)
                   else case send_groups (tk_env t) (tk_client t) project root_path created_by
                               (partition_files to_send watch_parallelism) st of
                          (False, st') \<Rightarrow> (False, known, st')
                        | (True, st') \<Rightarrow>
                            (True, fold (\<lambda>f m. AList.update (rel f) (tk_stat_after t f) m) to_send known, st'))))"

definition run_watch_daemon ::
  "(string \<Rightarrow> string option) \<Rightarrow> string \<Rightarrow> string \<Rightarrow> string option \<Rightarrow> ('f \<Rightarrow> string) \<Rightarrow> ('f \<Rightarrow> file_state) \<Rightarrow> 'f list option
     \<Rightarrow> 'f tick list \<Rightarrow> index_state \<Rightarrow> loop_end option \<times> change_buffer \<times> (string \<times> file_state) list \<times> index_state" where
  "run_watch_daemon strip project root_path created_by rel stat files ts st =
     watch_loop strip (flush_changed project root_path created_by) ts (empty_buffer, snapshot_state rel stat files, st)"

section \<open>The quiet window\<close>

lemma watch_loop_snoc:
  "watch_loop strip flush (ts @ [t]) st =
     (case watch_loop strip flush ts st of (None, st') \<Rightarrow> watch_turn strip flush t st' | (Some e, st') \<Rightarrow> (Some e, st'))"
  by (induction ts arbitrary: st) (auto split: prod.splits option.splits)

text \<open>The clock does not go back: the readings of the turns are ordered.\<close>

fun ticks_ordered :: "'f tick list \<Rightarrow> bool" where
  "ticks_ordered [] = True"
| "ticks_ordered (t # ts) \<longleftrightarrow> tk_extend t \<le> tk_due t \<and> (\<forall>t'\<in>set ts. tk_due t \<le> tk_extend t') \<and> ticks_ordered ts"

lemma ticks_ordered_snoc:
  "ticks_ordered (ts @ [t]) \<longleftrightarrow> ticks_ordered ts \<and> tk_extend t \<le> tk_due t \<and> (\<forall>t'\<in>set ts. tk_due t' \<le> tk_extend t)"
  by (induction ts) auto

lemma ticks_ordered_before: "ticks_ordered ts \<Longrightarrow> t' \<in> set ts \<Longrightarrow> tk_extend t' \<le> tk_due t'"
  by (induction ts) auto

definition quiet_inv :: "(string \<Rightarrow> string option) \<Rightarrow> 'f tick list \<Rightarrow> change_buffer \<Rightarrow> bool" where
  "quiet_inv strip ts b \<longleftrightarrow>
     (case cb_deadline b of
        Some d \<Rightarrow> \<forall>t\<in>set ts. recorded strip t \<noteq> [] \<longrightarrow> tk_extend t + flush_delay \<le> d
      | None \<Rightarrow> cb_pending b = [])"

lemma quiet_after_event:
  assumes "quiet_inv strip ts b" and "ticks_ordered (ts @ [t])"
  shows "quiet_inv strip (ts @ [t]) (after_event strip t b)"
proof (cases "recorded strip t = []")
  case True
  then show ?thesis using assms(1) by (auto simp: after_event_def quiet_inv_def split: option.splits)
next
  case False
  have "tk_extend t' \<le> tk_extend t" if "t' \<in> set ts" for t'
    using that assms(2) ticks_ordered_before by (fastforce simp: ticks_ordered_snoc)
  then show ?thesis using False by (auto simp: after_event_def quiet_inv_def extend_buffer_def)
qed

lemma quiet_loop:
  assumes "ticks_ordered ts" and "watch_loop strip flush ts (empty_buffer, s) = (None, b, s')"
  shows "quiet_inv strip ts b"
  using assms
proof (induction ts arbitrary: b s' rule: rev_induct)
  case Nil
  then show ?case by (auto simp: quiet_inv_def empty_buffer_def)
next
  case (snoc t ts)
  obtain b0 s0 where mid: "watch_loop strip flush ts (empty_buffer, s) = (None, b0, s0)"
    and turn: "watch_turn strip flush t (b0, s0) = (None, b, s')"
    using snoc.prems(2) by (auto simp: watch_loop_snoc split: prod.splits option.splits)
  have "quiet_inv strip ts b0" using snoc.IH[OF _ mid] snoc.prems(1) by (simp add: ticks_ordered_snoc)
  then have "quiet_inv strip (ts @ [t]) (after_event strip t b0)" using quiet_after_event snoc.prems(1) by blast
  moreover have "b = after_event strip t b0 \<or> b = empty_buffer"
    using turn by (auto simp: watch_turn_def take_buffer_def Let_def split: if_splits prod.splits)
  moreover have "quiet_inv strip (ts @ [t]) empty_buffer" by (simp add: quiet_inv_def empty_buffer_def)
  ultimately show ?case by blast
qed

text \<open>
  When a turn flushes, no change was recorded in the minute before: not in this turn and not in
  any turn before it.
\<close>

theorem quiet_window:
  assumes "ticks_ordered (ts @ [t])" and "watch_loop strip flush ts (empty_buffer, s) = (None, b, s')"
    and "buffer_due (tk_due t) (after_event strip t b)"
    and "t' \<in> set (ts @ [t])" and "recorded strip t' \<noteq> []"
  shows "tk_extend t' + flush_delay \<le> tk_due t"
proof -
  have "quiet_inv strip (ts @ [t]) (after_event strip t b)"
    using quiet_after_event quiet_loop[OF _ assms(2)] assms(1) by (simp add: ticks_ordered_snoc)
  then show ?thesis using assms(3,4,5) unfolding quiet_inv_def buffer_due_def by (auto split: option.splits)
qed

lemma fold_insert_set: "set (fold (\<lambda>p ps. if p \<in> set ps then ps else ps @ [p]) xs ys) = set xs \<union> set ys"
proof (induction xs arbitrary: ys)
  case (Cons x xs)
  then show ?case using Cons[of "if x \<in> set ys then ys else ys @ [x]"] by auto
qed simp

lemma pending_after_event: "set (cb_pending (after_event strip t b)) = set (recorded strip t) \<union> set (cb_pending b)"
  by (simp add: after_event_def extend_buffer_def fold_insert_set)

text \<open>While the loop runs no change is lost: what was recorded was handed to a flush or is still waiting.\<close>

theorem no_change_lost:
  assumes "watch_loop strip (\<lambda>_ changed hist. (True, hist @ changed)) ts (empty_buffer, []) = (None, b, hist)"
  shows "set hist \<union> set (cb_pending b) = (\<Union>t\<in>set ts. set (recorded strip t))"
  using assms
proof (induction ts arbitrary: b hist rule: rev_induct)
  case Nil
  then show ?case by (auto simp: empty_buffer_def)
next
  case (snoc t ts)
  let ?flush = "\<lambda>_ changed hist. (True, hist @ changed)"
  obtain b0 hist0 where mid: "watch_loop strip ?flush ts (empty_buffer, []) = (None, b0, hist0)"
    and turn: "watch_turn strip ?flush t (b0, hist0) = (None, b, hist)"
    using snoc.prems by (auto simp: watch_loop_snoc split: prod.splits option.splits)
  have "set hist \<union> set (cb_pending b) = set hist0 \<union> set (cb_pending (after_event strip t b0))"
    using turn by (auto simp: watch_turn_def take_buffer_def empty_buffer_def Let_def split: if_splits)
  then show ?case using snoc.IH[OF mid] by (auto simp: pending_after_event)
qed

section \<open>What a flush leaves\<close>

lemma flush_changed_set:
  assumes "set changed = set changed'"
  shows "flush_changed project root_path cb t changed st = flush_changed project root_path cb t changed' st"
proof -
  have "(changed = []) = (changed' = [])" using assms by (metis set_empty)
  moreover have "files_to_send (ce_rel (tk_client t)) (tk_stat t) k changed c = files_to_send (ce_rel (tk_client t)) (tk_stat t) k changed' c" for k c
    using assms by (simp add: files_to_send_def)
  ultimately show ?thesis by (cases st; cases "tk_current t") (simp_all add: flush_changed_def Let_def split: prod.split bool.split)
qed

lemma send_groups_last:
  assumes "chunk_inv (is_chunks st)" and "project_row project b (is_buffers st)" and "\<forall>g\<in>set gs. group_ready env ce g" and "gs \<noteq> []"
  shows "\<exists>st'. send_groups env ce project root_path cb gs st = (True, st') \<and> chunk_inv (is_chunks st')
    \<and> live_view b (cd_rows (is_chunks st')) = (\<Union>f\<in>set (last gs). file_view env (the (upload_file ce f)))"
  using assms
proof (induction gs arbitrary: st)
  case (Cons g gs)
  obtain st' r where st': "stream_index_group env ce project root_path cb g st = (st', Inr r)" "chunk_inv (is_chunks st')"
    "project_row project b (is_buffers st')" "live_view b (cd_rows (is_chunks st')) = (\<Union>f\<in>set g. file_view env (the (upload_file ce f)))"
    using group_step[OF Cons.prems(1,2), of env ce g root_path cb] Cons.prems(3) by auto
  show ?case
  proof (cases "gs = []")
    case True
    then show ?thesis using st' by simp
  next
    case False
    then show ?thesis using Cons.IH[OF st'(2,3)] Cons.prems(3) st'(1) by simp
  qed
qed simp

text \<open>
  C23: A flush that sends files leaves, live in the project, the chunks of its last group and nothing
  else: the stream retires what it did not see, so the files that did not change disappear from
  the index although they are still in the project.
\<close>

theorem watch_flush_drops_rest:
  assumes "chunk_inv (is_chunks st)" and "project_row project b (is_buffers st)"
    and "tk_current t = Some current" and "to_send = files_to_send (ce_rel (tk_client t)) (tk_stat t) known changed current"
    and "to_send \<noteq> []" and "distinct (map (ce_rel (tk_client t)) to_send)"
    and "list_all (\<lambda>f. case upload_file (tk_client t) f of Some m \<Rightarrow> sendable (tk_env t) m | None \<Rightarrow> False) to_send"
  shows "\<exists>known' st'. flush_changed project root_path cb t changed (known, st) = (True, known', st')
    \<and> live_view b (cd_rows (is_chunks st')) =
        (\<Union>f\<in>set (last (partition_files to_send 2)). file_view (tk_env t) (the (upload_file (tk_client t) f)))"
proof -
  note part = partition_ready[OF assms(5,6,7), of 2]
  obtain st' where st': "send_groups (tk_env t) (tk_client t) project root_path cb (partition_files to_send 2) st = (True, st')"
    "live_view b (cd_rows (is_chunks st')) =
        (\<Union>f\<in>set (last (partition_files to_send 2)). file_view (tk_env t) (the (upload_file (tk_client t) f)))"
    using send_groups_last[OF assms(1,2) part] by blast
  have "changed \<noteq> []" using assms(4,5) by (auto simp: files_to_send_def)
  then show ?thesis using st' assms(3,4,5) by (simp add: flush_changed_def Let_def watch_parallelism_def)
qed

text \<open>A removed file is never sent, and a flush with removals only changes nothing: its chunks stay.\<close>

theorem removals_ignored:
  assumes "tk_current t = Some current" and "\<forall>f\<in>set current. ce_rel (tk_client t) f \<notin> set changed"
  shows "flush_changed project root_path cb t changed (known, st) = (True, known, st)"
  using assms by (auto simp: flush_changed_def files_to_send_def Let_def)

section \<open>Examples\<close>

definition demo_tick :: "nat \<Rightarrow> watch_event \<Rightarrow> string tick" where
  "demo_tick n e = \<lparr>tk_stop = False, tk_event = e, tk_extend = n, tk_due = n, tk_current = Some [''a'', ''b''],
     tk_stat = (\<lambda>_. (n, 1)), tk_stat_after = (\<lambda>_. (n, 1)), tk_client = demo_client, tk_env = demo_env\<rparr>"

lemma quiet_window_witness:
  "0 + flush_delay \<le> tk_due (demo_tick 70000 Quiet)"
proof -
  have "tk_extend (demo_tick 0 (Changes [''a''])) + flush_delay \<le> tk_due (demo_tick 70000 Quiet)"
    by (rule quiet_window[of "[demo_tick 0 (Changes [''a''])]" "demo_tick 70000 Quiet" Some "\<lambda>_ _ s. (True, s)" "()"
          "\<lparr>cb_pending = [''a''], cb_deadline = Some 60000\<rparr>" "()"])
       (simp_all add: demo_tick_def watch_turn_def after_event_def recorded_def extend_buffer_def empty_buffer_def
          buffer_due_def flush_delay_def List.map_filter_simps)
  then show ?thesis by (simp add: demo_tick_def)
qed

lemma no_change_lost_witness:
  "set [''a''] \<union> set (cb_pending empty_buffer)
     = (\<Union>t\<in>set [demo_tick 0 (Changes [''a'']), demo_tick 70000 Quiet]. set (recorded Some t))"
  by (rule no_change_lost)
     (simp add: demo_tick_def watch_turn_def after_event_def recorded_def extend_buffer_def empty_buffer_def take_buffer_def
        buffer_due_def flush_delay_def List.map_filter_simps)

lemma watch_flush_drops_rest_witness:
  "\<exists>known' st'. flush_changed ''p'' ''/r'' None (demo_tick 7 Quiet) [''b''] ([], demo_indexed) = (True, known', st')
     \<and> live_view 1 (cd_rows (is_chunks st')) = {((''b'', 1, 1), ''z'')}"
proof -
  let ?t = "demo_tick 7 Quiet"
  have send: "[''b''] = files_to_send (ce_rel (tk_client ?t)) (tk_stat ?t) [] [''b''] [''a'', ''b'']"
    by (simp add: demo_tick_def demo_client_def files_to_send_def)
  have ready: "list_all (\<lambda>f. case upload_file (tk_client ?t) f of Some m \<Rightarrow> sendable (tk_env ?t) m | None \<Rightarrow> False) [''b'']"
    by (simp add: demo_tick_def upload_file_def demo_client_def sendable_def demo_files_view)
  have part: "partition_files [''b''] 2 = [[''b'']]" by code_simp
  have view: "file_view (tk_env ?t) (the (upload_file (tk_client ?t) ''b'')) = {((''b'', 1, 1), ''z'')}"
    by (simp add: demo_tick_def upload_file_def demo_client_def file_view_def demo_files_view demo_env_lines)
  have st: "chunk_inv (is_chunks demo_indexed)" "project_row ''p'' 1 (is_buffers demo_indexed)"
    by (simp_all add: demo_indexed_def demo_chunks_inv demo_project_row)
  have "tk_current ?t = Some [''a'', ''b'']" by (simp add: demo_tick_def)
  from watch_flush_drops_rest[OF st this send _ _ ready, of "''/r''" None] show ?thesis
    by (simp add: part view)
qed

lemma removals_ignored_witness:
  "flush_changed ''p'' ''/r'' None (demo_tick 7 Quiet) [''gone''] ([], demo_indexed) = (True, [], demo_indexed)"
  by (rule removals_ignored[of _ "[''a'', ''b'']"]) (simp_all add: demo_tick_def demo_client_def)

end
