(* ===== verification/Volunteer.thy ===== *)
theory Volunteer
  imports Client_Config Rlm_Service
begin

text \<open>
  The volunteer of the client (\<^verbatim>\<open>crates/arags-cli/src/volunteer.rs\<close>) and the attestation it
  shares with the server (\<^verbatim>\<open>crates/arags-core/src/rlm_attestation.rs\<close>): claiming a job, the prompt,
  the check of the summary, the submission, and the loop. The language model, the server's answer
  to a submission, the payload decoder, SHA-256 and HMAC are arguments. Lemmas: what a volunteer submits
  and what its prompt holds, what the attestation binds, and how client and server fit: which
  claims the server refuses, and when it accepts a signature.
\<close>

section \<open>Attestation\<close>

definition candidate_hash :: "(string \<Rightarrow> string) \<Rightarrow> string \<Rightarrow> string" where
  "candidate_hash sha t = take 16 (hex_encode (sha t))"

definition attestation_message :: "(string \<Rightarrow> string) \<Rightarrow> row_id \<Rightarrow> int \<Rightarrow> string \<Rightarrow> string" where
  "attestation_message sha job_id generation t =
     show_int job_id @ ''.'' @ show_int generation @ ''.'' @ candidate_hash sha t"

definition sign_rlm_submission ::
  "(string \<Rightarrow> string) \<Rightarrow> (string \<Rightarrow> string \<Rightarrow> string) \<Rightarrow> string \<Rightarrow> row_id \<Rightarrow> int \<Rightarrow> string \<Rightarrow> string" where
  "sign_rlm_submission sha hmac token job_id generation t =
     hex_encode (hmac (sha token) (attestation_message sha job_id generation t))"

section \<open>Claiming\<close>

definition claim_lease_ms :: "volunteer_config \<Rightarrow> int" where
  "claim_lease_ms vol =
     (let ms = min (vc_lease_secs vol * 1000) (2 ^ 64 - 1) in if ms < 2 ^ 63 then int ms else default_rlm_lease_ms)"

definition claim_max_level :: "volunteer_config \<Rightarrow> int" where
  "claim_max_level vol = (if vc_max_level vol < 2 ^ 31 then int (vc_max_level vol) else 3)"

section \<open>The request to the model\<close>

definition system_l1 :: string where
  "system_l1 = ''You summarize source-code files for a retrieval index. Output 5-10 dense bullet lines covering: purpose of the file, key types/functions with one-line roles, notable patterns/idioms, and dependencies. No preamble, no markdown headers.''"

definition system_l2 :: string where
  "system_l2 = ''You synthesize module summaries from per-file summaries. Output 5-8 dense bullet lines covering: what this module/theme provides, its main abstractions, internal organization, and how files relate. No preamble, no headers.''"

definition system_l3 :: string where
  "system_l3 = ''You write a project overview from module summaries. Output: one paragraph stating what the project is and its architecture style, then 5-8 bullet lines listing the modules/themes and their responsibilities, then any cross-cutting patterns. No headers.''"

definition system_prompt_for :: "int \<Rightarrow> string" where
  "system_prompt_for level = (if level = 1 then system_l1 else if level = 2 then system_l2 else system_l3)"

definition nl :: string where "nl = [CHR 0x0A]"

definition input_block :: "nat \<Rightarrow> string \<Rightarrow> string" where
  "input_block i t = nl @ ''--- input '' @ show_nat (i + 1) @ '' ---'' @ nl @ t @ nl @ nl"

definition prompt_body :: "string \<Rightarrow> rlm_payload \<Rightarrow> string" where
  "prompt_body subject p =
     ''Subject: '' @ subject @ nl @ ''Kind: '' @ pl_kind p @ nl @ nl @ ''Inputs:'' @ nl
     @ concat (map (\<lambda>(i, t). input_block i t) (enumerate 0 (pl_texts p)))"

definition volunteer_request :: "int \<Rightarrow> string \<Rightarrow> rlm_payload \<Rightarrow> nat \<Rightarrow> completion_request" where
  "volunteer_request level subject p max_tokens =
     \<lparr>rq_model = [],
      rq_messages = [\<lparr>ms_role = Role_System, ms_content = system_prompt_for level\<rparr>,
                     \<lparr>ms_role = Role_User, ms_content = prompt_body subject p\<rparr>],
      rq_temperature = Some (2 / 10), rq_max_tokens = Some max_tokens, rq_stop = None, rq_seed = None, rq_tools = None\<rparr>"

section \<open>One job\<close>

datatype volunteer_error = Invalid_Payload | No_Inputs | Synthesis_Failed llm_error | Too_Short | Submit_Failed rpc_status
  | Claim_Failed

definition parse_inputs :: "(string \<Rightarrow> rlm_payload option) \<Rightarrow> string \<Rightarrow> volunteer_error + rlm_payload" where
  "parse_inputs de raw =
     (case de raw of
        None \<Rightarrow> Inl Invalid_Payload
      | Some p \<Rightarrow> if pl_hashes p = [] \<and> pl_texts p = [] then Inl No_Inputs else Inr p)"

definition min_summary_chars :: nat where "min_summary_chars = 20"

definition summary_acceptable :: "string \<Rightarrow> bool" where
  "summary_acceptable summary \<longleftrightarrow> trim summary \<noteq> [] \<and> min_summary_chars \<le> length (trim summary)"

definition submission_of ::
  "(string \<Rightarrow> row_id \<Rightarrow> int \<Rightarrow> string \<Rightarrow> string) \<Rightarrow> string \<Rightarrow> claimed_rlm_job \<Rightarrow> rlm_payload \<Rightarrow> completion_response \<Rightarrow> complete_request" where
  "submission_of sign token job p r =
     (let summary = trim (cr_content r)
      in \<lparr>cq_job = cj_id job, cq_generation = cj_generation job, cq_summary = summary, cq_model = cr_model r,
          cq_template = (if pl_template p = [] then ''unknown'' else pl_template p), cq_tokens = int (us_total (cr_usage r)),
          cq_hmac = sign token (cj_id job) (cj_generation job) summary\<rparr>)"

text \<open>\<open>submit\<close> is the call to the server on its state; \<open>token\<close> is the session token at the signing.\<close>

definition process_job ::
  "(string \<Rightarrow> rlm_payload option) \<Rightarrow> (completion_request \<Rightarrow> llm_error + completion_response)
     \<Rightarrow> (string \<Rightarrow> row_id \<Rightarrow> int \<Rightarrow> string \<Rightarrow> string) \<Rightarrow> (complete_request \<Rightarrow> 's \<Rightarrow> 's \<times> (rpc_status + complete_reply))
     \<Rightarrow> string \<Rightarrow> volunteer_config \<Rightarrow> string \<Rightarrow> claimed_rlm_job \<Rightarrow> 's \<Rightarrow> 's \<times> (volunteer_error + bool)" where
  "process_job de llm sign submit model_name vol token job s =
     (case parse_inputs de (cj_payload job) of
        Inl e \<Rightarrow> (s, Inl e)
      | Inr p \<Rightarrow>
          (case llm ((volunteer_request (cj_level job) (cj_subject job) p (vc_max_tokens vol))\<lparr>rq_model := model_name\<rparr>) of
             Inl e \<Rightarrow> (s, Inl (Synthesis_Failed e))
           | Inr r \<Rightarrow>
               if \<not> summary_acceptable (trim (cr_content r)) then (s, Inl Too_Short)
               else (case submit (submission_of sign token job p r) s of
                       (s', Inl e) \<Rightarrow> (s', Inl (Submit_Failed e))
                     | (s', Inr reply) \<Rightarrow> (s', Inr (cr_accepted reply)))))"

section \<open>The loop\<close>

definition volunteer_model :: "volunteer_config \<Rightarrow> backend_config list option \<Rightarrow> string" where
  "volunteer_model vol llm =
     (case vc_model vol of
        Some m \<Rightarrow> m
      | None \<Rightarrow> (case llm of
                   Some (b # _) \<Rightarrow> (case bk_model b of Some m \<Rightarrow> m | None \<Rightarrow> ''llama3.2'')
                 | _ \<Rightarrow> ''llama3.2''))"

text \<open>
  The turns of the loop, given what each claim returned. The result is the end of the loop
  (\<open>None\<close> while it runs on) and the number of seconds slept.
\<close>

primrec volunteer_loop ::
  "bool \<Rightarrow> nat \<Rightarrow> (claimed_rlm_job \<Rightarrow> 's \<Rightarrow> 's \<times> (volunteer_error + bool)) \<Rightarrow> (unit + claimed_rlm_job option) list \<Rightarrow> 's
     \<Rightarrow> 's \<times> (volunteer_error + unit) option \<times> nat" where
  "volunteer_loop once poll process [] s = (s, None, 0)"
| "volunteer_loop once poll process (c # cs) s =
     (let pause = max poll 1;
          continue = (\<lambda>s d. let (s', e, n) = volunteer_loop once poll process cs s in (s', e, d + n))
      in case c of
           Inl _ \<Rightarrow> if once then (s, Some (Inl Claim_Failed), 0) else continue s pause
         | Inr None \<Rightarrow> if once then (s, Some (Inr ()), 0) else continue s pause
         | Inr (Some job) \<Rightarrow>
             (case process job s of
                (s', Inl e) \<Rightarrow> if once then (s', Some (Inl e), 0) else continue s' pause
              | (s', Inr _) \<Rightarrow> if once then (s', Some (Inr ()), 0) else continue s' 0))"

section \<open>What a volunteer submits\<close>

lemma trim_start_trim: "trim_start s = [] \<longleftrightarrow> list_all is_ws s"
  by (simp add: trim_start_def dropWhile_eq_Nil_conv list_all_iff)

text \<open>
  A volunteer submits nothing, or one summary of at least 20 bytes for the job it claimed,
  in its generation, signed with its session.
\<close>

theorem submission_sound:
  assumes "process_job de llm sign (\<lambda>req hist. (hist @ [req], reply)) model_name vol token job [] = (hist, res)"
  shows "hist = [] \<or> (\<exists>req. hist = [req] \<and> cq_job req = cj_id job \<and> cq_generation req = cj_generation job
     \<and> 20 \<le> length (cq_summary req) \<and> (\<exists>t. cq_summary req = trim t)
     \<and> cq_hmac req = sign token (cj_id job) (cj_generation job) (cq_summary req))"
proof -
  have trim_le: "length (trim u) \<le> length u" for u
    using length_dropWhile_le[of is_ws u] length_dropWhile_le[of is_ws "rev (dropWhile is_ws u)"]
    by (simp add: trim_def trim_start_def)
  have "hist = [] \<or> (\<exists>p r. hist = [submission_of sign token job p r] \<and> summary_acceptable (trim (cr_content r)))"
    using assms by (auto simp: process_job_def split: sum.splits prod.splits if_splits)
  then show ?thesis
    using trim_le by (fastforce simp: submission_of_def summary_acceptable_def min_summary_chars_def Let_def intro: order_trans)
qed

text \<open>A job without inputs, and one whose model fails or answers too briefly, leaves the server as it is.\<close>

lemma process_fails_silently:
  "process_job de llm sign submit model_name vol token job s = (s', Inl e) \<Longrightarrow> (\<forall>st. e \<noteq> Submit_Failed st) \<Longrightarrow> s' = s"
  by (auto simp: process_job_def split: sum.splits prod.splits if_splits)

text \<open>Whatever the provider, the model sees the instructions of the level and one message with all inputs.\<close>

theorem volunteer_prompt_sent:
  "sent_conversation family (build_request family (volunteer_request level subject p n))
     = [(''system'', system_prompt_for level), (''user'', prompt_body subject p)]"
  unfolding sent_build
  by (simp add: volunteer_request_def split_system_def system_part_def as_pair_def)

text \<open>The loop ends by itself only when it was asked for one job, and then it processes at most one.\<close>

theorem loop_runs_on:
  "(\<not> once \<longrightarrow> fst (snd (volunteer_loop once poll process cs s)) = None)
   \<and> (once \<longrightarrow> cs \<noteq> [] \<longrightarrow> fst (snd (volunteer_loop once poll process cs s)) \<noteq> None
        \<and> fst (volunteer_loop once poll process cs s) =
            (case hd cs of Inr (Some job) \<Rightarrow> fst (process job s) | _ \<Rightarrow> s))"
proof (induction cs arbitrary: s)
  case (Cons c cs)
  have "fst (snd (volunteer_loop False poll process cs s')) = None" if "\<not> once" for s' using Cons that by simp
  then show ?case
    by (cases once) (auto simp: Let_def case_prod_beta split: sum.splits option.splits)
qed simp

section \<open>What the attestation binds\<close>

lemma show_int_no_dot: "CHR ''.'' \<notin> set (show_int i)"
  by (auto simp: show_int_def dest: show_nat_digits)

lemma dot_split:
  "a @ CHR ''.'' # r = b @ CHR ''.'' # r' \<Longrightarrow> CHR ''.'' \<notin> set a \<Longrightarrow> CHR ''.'' \<notin> set b \<Longrightarrow> a = b \<and> r = r'"
  by (auto simp: append_eq_append_conv2 append_eq_Cons_conv Cons_eq_append_conv)

text \<open>One message is the message of one job, one generation and one candidate hash only.\<close>

theorem attestation_binds:
  assumes "attestation_message sha j g t = attestation_message sha j' g' t'"
  shows "j = j' \<and> g = g' \<and> candidate_hash sha t = candidate_hash sha t'"
proof -
  have "show_int j = show_int j' \<and> show_int g @ CHR ''.'' # candidate_hash sha t = show_int g' @ CHR ''.'' # candidate_hash sha t'"
    using dot_split[of "show_int j" _ "show_int j'"] assms show_int_no_dot by (simp add: attestation_message_def)
  moreover from this have "show_int g = show_int g' \<and> candidate_hash sha t = candidate_hash sha t'"
    using dot_split[of "show_int g" _ "show_int g'"] show_int_no_dot by blast
  ultimately show ?thesis using show_int_inj by blast
qed

section \<open>Client and server together\<close>

text \<open>
  Of the leases a volunteer may configure the server grants those up to an hour: every claim of a longer
  one is refused, so such a volunteer polls for ever.
\<close>

theorem long_lease_refused:
  assumes "authenticate (re_now env) header (rv_auth st) = Inr ctx" and "3600 < vc_lease_secs vol" and "vc_lease_secs vol < 2 ^ 50"
  shows "handle_claim_rlm_job env header (claim_lease_ms vol) (claim_max_level vol) st
     = (st, Inl (Invalid_Argument ''lease_ms must be between 1000 and 3600000''))"
proof -
  have "claim_lease_ms vol = int (vc_lease_secs vol * 1000)" using assms(3) by (simp add: claim_lease_ms_def Let_def)
  then show ?thesis using assms(1,2) by (simp add: handle_claim_rlm_job_def Let_def)
qed

text \<open>A volunteer that signs with the token it sends is never refused for its signature.\<close>

definition attestation_failed :: rpc_status where
  "attestation_failed = Unauthenticated ''submission attestation failed: invalid or missing HMAC''"

lemma authenticate_not_attestation:
  "bearer header = Inr token \<Longrightarrow> authenticate now header db \<noteq> Inl attestation_failed"
  by (simp add: authenticate_def attestation_failed_def split: option.splits)

lemma direct_not_attestation:
  "snd (complete_directly env ctx req job st) \<noteq> Inl attestation_failed"
  by (simp add: complete_directly_def attestation_failed_def Let_def case_prod_beta split: option.split)

lemma signed_not_attestation:
  "provided = qe_sign env token job_id generation t \<Longrightarrow>
   snd (decide_quorum_submission cfg env job u token generation t job_id provided q) \<noteq> Submit_Unauthenticated"
  by (simp add: decide_quorum_submission_def Let_def case_prod_beta split: quorum_decision.split)

theorem honest_signature_accepted:
  assumes "bearer header = Inr token" and "trim (cq_summary req) = cq_summary req"
    and "cq_hmac req = qe_sign (re_quorum env) token (cq_job req) (cq_generation req) (cq_summary req)"
  shows "snd (handle_complete_rlm_job env header req st) \<noteq> Inl attestation_failed"
proof (cases "authenticate (re_now env) header (rv_auth st)")
  case (Inl e)
  then show ?thesis using authenticate_not_attestation[OF assms(1)] by (auto simp: handle_complete_rlm_job_def)
next
  case auth: (Inr ctx)
  obtain buckets allowed where rate: "rate_check (re_rate env) (ac_username ctx) (re_secs env) (rv_buckets st) = (buckets, allowed)"
    by fastforce
  show ?thesis
  proof (cases "get_rlm_job (cq_job req) (qs_db (rv_quorum st))")
    case None
    then show ?thesis by (simp add: handle_complete_rlm_job_def auth rate assms(1) attestation_failed_def Let_def)
  next
    case (Some job)
    let ?d = "decide_quorum_submission (re_config env) (re_quorum env) job (ac_username ctx) token (cq_generation req)
                (cq_summary req) (cq_job req) (cq_hmac req) (rv_quorum st)"
    obtain q r where d: "?d = (q, r)" by fastforce
    have "r \<noteq> Submit_Unauthenticated" using signed_not_attestation[OF assms(3)] d by (metis snd_conv)
    then show ?thesis
      using direct_not_attestation[of env ctx req job "st\<lparr>rv_buckets := buckets\<rparr>"]
      by (cases r) (simp_all add: handle_complete_rlm_job_def auth rate assms(1,2) Some d attestation_failed_def Let_def)
  qed
qed

text \<open>
  The token is renewed in the background. A summary signed with the old token and sent with the
  new one is refused, and nothing of it is staged.
\<close>

theorem renewal_between_signing_and_sending:
  assumes "bearer header = Inr new" and "authenticate (re_now env) header (rv_auth st) = Inr ctx" and "\<not> is_admin ctx"
    and "1 < quorum_size (re_config env)"
    and "rate_check (re_rate env) (ac_username ctx) (re_secs env) (rv_buckets st) = (buckets, True)"
    and "trim (cq_summary req) = cq_summary req" and "cq_summary req \<noteq> []"
    and "get_rlm_job (cq_job req) (qs_db (rv_quorum st)) = Some job"
    and "cq_hmac req = qe_sign (re_quorum env) old (cq_job req) (cq_generation req) (cq_summary req)"
    and "qe_sign (re_quorum env) old (cq_job req) (cq_generation req) (cq_summary req)
       \<noteq> qe_sign (re_quorum env) new (cq_job req) (cq_generation req) (cq_summary req)"
  shows "handle_complete_rlm_job env header req st = (st\<lparr>rv_buckets := buckets\<rparr>, Inl attestation_failed)"
  using assms by (simp add: handle_complete_rlm_job_def Let_def decide_quorum_submission_def attestation_failed_def)

section \<open>Examples\<close>

definition demo_job :: claimed_rlm_job where
  "demo_job = \<lparr>cj_id = 1, cj_key = ''k'', cj_project = ''p'', cj_level = 1, cj_subject = ''a.rs'', cj_payload = ''x'', cj_generation = 0,
     cj_lease_ms = 500000\<rparr>"

definition demo_payload :: rlm_payload where
  "demo_payload = \<lparr>pl_chunk_ids = [], pl_node_ids = [], pl_hashes = [''h''], pl_texts = [''fn main''], pl_template = ''arlm-v1'', pl_kind = ''file''\<rparr>"

definition demo_answer :: completion_response where
  "demo_answer = \<lparr>cr_content = '' A summary of some length. '', cr_model = ''m'',
     cr_usage = \<lparr>us_prompt = 1, us_completion = 1, us_total = 2, us_cost = 0\<rparr>\<rparr>"

definition demo_submission :: complete_request where
  "demo_submission = submission_of (\<lambda>token job gen text. token @ text) ''s1'' demo_job demo_payload demo_answer"

lemma submission_sound_witness:
  "\<exists>req. process_job (\<lambda>_. Some demo_payload) (\<lambda>_. Inr demo_answer) (\<lambda>token job gen text. token @ text)
       (\<lambda>req hist. (hist @ [req], Inl Resource_Exhausted)) ''m'' default_volunteer ''s1'' demo_job [] = ([req], Inl (Submit_Failed Resource_Exhausted))
     \<and> cq_job req = 1 \<and> 20 \<le> length (cq_summary req)"
proof -
  have ok: "summary_acceptable (trim (cr_content demo_answer))" by code_simp
  have inputs: "pl_hashes demo_payload \<noteq> []" by (simp add: demo_payload_def)
  have run: "process_job (\<lambda>_. Some demo_payload) (\<lambda>_. Inr demo_answer) (\<lambda>token job gen text. token @ text)
       (\<lambda>req hist. (hist @ [req], Inl Resource_Exhausted)) ''m'' default_volunteer ''s1'' demo_job []
       = ([demo_submission], Inl (Submit_Failed Resource_Exhausted))"
    by (simp add: process_job_def parse_inputs_def inputs ok demo_submission_def)
  from submission_sound[OF run] have "20 \<le> length (cq_summary demo_submission)" "cq_job demo_submission = cj_id demo_job" by auto
  then show ?thesis using run by (auto simp: demo_job_def)
qed

lemma attestation_binds_witness:
  "(1::int) = 1 \<and> (2::int) = 2 \<and> candidate_hash rev ''t'' = candidate_hash rev ''t''"
  by (rule attestation_binds[of rev 1 2 "''t''" 1 2 "''t''"]) simp

lemma long_lease_refused_witness:
  "handle_claim_rlm_job demo_rlm_env demo_rlm_header (claim_lease_ms (default_volunteer\<lparr>vc_lease_secs := 7200\<rparr>))
       (claim_max_level (default_volunteer\<lparr>vc_lease_secs := 7200\<rparr>)) (demo_rlm_server Non_Admin [])
     = (demo_rlm_server Non_Admin [], Inl (Invalid_Argument ''lease_ms must be between 1000 and 3600000''))"
  by (rule long_lease_refused[OF demo_rlm_auth(1)]) simp_all

definition demo_quorum_env :: rlm_server_env where
  "demo_quorum_env = demo_rlm_env\<lparr>re_config := demo_cfg\<rparr>"

lemma demo_quorum_auth:
  "authenticate (re_now demo_quorum_env) demo_rlm_header (rv_auth (demo_rlm_server Non_Admin [])) = Inr \<lparr>ac_username = ''ann'', ac_role = Non_Admin\<rparr>"
  using demo_rlm_auth(1) by (simp add: demo_quorum_env_def re_now_def)

definition demo_signed :: "string \<Rightarrow> complete_request" where
  "demo_signed token = demo_complete\<lparr>cq_hmac := token @ ''about a''\<rparr>"

lemma demo_trim: "trim ''about a'' = ''about a''" by code_simp

lemma honest_signature_accepted_witness:
  "snd (handle_complete_rlm_job demo_quorum_env demo_rlm_header (demo_signed ''s1'') (demo_rlm_server Non_Admin [])) \<noteq> Inl attestation_failed"
  by (rule honest_signature_accepted[OF demo_bearer(1)])
     (simp_all add: demo_signed_def demo_complete_def demo_trim demo_quorum_env_def demo_rlm_env_def)

lemma renewal_between_signing_and_sending_witness:
  "snd (handle_complete_rlm_job demo_quorum_env demo_rlm_header (demo_signed ''s0'') (demo_rlm_server Non_Admin [])) = Inl attestation_failed"
proof -
  have size: "1 < quorum_size (re_config demo_quorum_env)" by (simp add: quorum_size_def demo_quorum_env_def demo_cfg_def)
  have rate: "rate_check (re_rate demo_quorum_env) (ac_username \<lparr>ac_username = ''ann'', ac_role = Non_Admin\<rparr>) (re_secs demo_quorum_env)
      (rv_buckets (demo_rlm_server Non_Admin [])) = ((\<lambda>_. None)(''ann'' \<mapsto> \<lparr>bk_count = 1, bk_start = 2\<rparr>), True)"
    using demo_rate by (simp add: demo_quorum_env_def)
  have "get_rlm_job 1 (qs_db (rv_quorum (demo_rlm_server Non_Admin []))) \<noteq> None" by code_simp
  then obtain job where job: "get_rlm_job (cq_job (demo_signed ''s0'')) (qs_db (rv_quorum (demo_rlm_server Non_Admin []))) = Some job"
    by (auto simp: demo_signed_def demo_complete_def)
  show ?thesis
    by (subst renewal_between_signing_and_sending[OF demo_bearer(1) demo_quorum_auth _ size rate _ _ job, where old = "''s0''"])
       (simp_all add: is_admin_def demo_signed_def demo_complete_def demo_trim demo_quorum_env_def demo_rlm_env_def)
qed

end
