(* ===== verification/Ab_Metrics.thy ===== *)
theory Ab_Metrics
  imports Similarity Embed_Cache "HOL-Library.Multiset"
begin

text \<open>
  The comparison of two embedders by relevance
  (\<^verbatim>\<open>crates/arags-embedding/src/embedder/ab_metrics.rs\<close>), over the reals: cosine ranking, recall,
  discounted cumulative gain, reciprocal rank, and the harness that averages them. An embedder
  is a pair of functions that may fail. Lemmas: when the metrics stay between 0 and 1, the best
  ranking by the rearrangement inequality, and the symmetry of the comparison.
\<close>

section \<open>Metrics\<close>

definition ab_cosine :: "real list \<Rightarrow> real list \<Rightarrow> real" where
  "ab_cosine a b =
     (if length a \<noteq> length b \<or> a = [] then 0
      else let dot = sum_list (map2 (*) a b); norm_a = sqrt (sum_list (map (\<lambda>x. x * x) a)); norm_b = sqrt (sum_list (map (\<lambda>x. x * x) b))
           in if norm_a = 0 \<or> norm_b = 0 then 0 else dot / (norm_a * norm_b))"

definition recall_at_k :: "nat list \<Rightarrow> nat list \<Rightarrow> nat \<Rightarrow> real" where
  "recall_at_k ranked relevant k =
     (if relevant = [] then 0
      else real (length (filter (\<lambda>i. i \<in> set relevant) (take k ranked))) / real (length relevant))"

definition gain :: "real \<Rightarrow> real" where "gain g = 2 powr g - 1"

definition discount :: "nat \<Rightarrow> real" where "discount i = log 2 (real (i + 1) + 1)"

definition dcg_from_grades :: "real list \<Rightarrow> nat \<Rightarrow> real" where
  "dcg_from_grades grades k =
     sum_list (map (\<lambda>(i, g). if 0 < discount i then gain g / discount i else 0) (enumerate 0 (take k grades)))"

text \<open>In a map built from a list the last entry of a key counts.\<close>

definition grade_of :: "(nat \<times> real) list \<Rightarrow> nat \<Rightarrow> real" where
  "grade_of grades i = (case map_of (rev grades) i of Some g \<Rightarrow> g | None \<Rightarrow> 0)"

definition ndcg_at_k :: "nat list \<Rightarrow> (nat \<times> real) list \<Rightarrow> nat \<Rightarrow> real" where
  "ndcg_at_k ranked grades k =
     (if grades = [] then 0
      else let dcg = dcg_from_grades (map (grade_of grades) ranked) k;
               idcg = dcg_from_grades (rev (sort (map snd grades))) k
           in if idcg \<le> 0 then 0 else dcg / idcg)"

definition reciprocal_rank :: "nat list \<Rightarrow> nat list \<Rightarrow> real" where
  "reciprocal_rank ranked relevant =
     (case List.find (\<lambda>(_, i). i \<in> set relevant) (enumerate 0 ranked) of
        Some (r, _) \<Rightarrow> 1 / real (r + 1) | None \<Rightarrow> 0)"

definition mrr :: "nat list list \<Rightarrow> nat list list \<Rightarrow> real" where
  "mrr ranked_list relevant_list =
     (if ranked_list = [] \<or> length ranked_list \<noteq> length relevant_list then 0
      else sum_list (map2 reciprocal_rank ranked_list relevant_list) / real (length ranked_list))"

section \<open>The comparison\<close>

text \<open>A stable sort by falling similarity.\<close>

definition rank_by_similarity :: "real list \<Rightarrow> (nat \<times> real list) list \<Rightarrow> nat list" where
  "rank_by_similarity query corpus =
     map fst (sort_key (\<lambda>(_, s). - s) (map (\<lambda>(i, e). (i, ab_cosine query e)) corpus))"

record ab_result =
  ab_recall_a :: real
  ab_recall_b :: real
  ab_ndcg_a :: real
  ab_ndcg_b :: real
  ab_mrr_a :: real
  ab_mrr_b :: real

text \<open>The rankings of all queries by both embedders; the first failure ends the run.\<close>

fun ab_rankings ::
  "real embedder \<Rightarrow> real embedder \<Rightarrow> (nat \<times> real list) list \<Rightarrow> (nat \<times> real list) list \<Rightarrow> (string \<times> nat list) list
     \<Rightarrow> embed_error + (nat list \<times> nat list \<times> nat list) list" where
  "ab_rankings ea eb corpus_a corpus_b [] = Inr []"
| "ab_rankings ea eb corpus_a corpus_b ((q, relevant) # qs) =
     (case em_embed ea q of
        Inl e \<Rightarrow> Inl e
      | Inr va \<Rightarrow>
          (case em_embed eb q of
             Inl e \<Rightarrow> Inl e
           | Inr vb \<Rightarrow>
               map_sum id ((#) (rank_by_similarity va corpus_a, rank_by_similarity vb corpus_b, relevant))
                 (ab_rankings ea eb corpus_a corpus_b qs)))"

definition binary_grades :: "nat list \<Rightarrow> (nat \<times> real) list" where
  "binary_grades relevant = map (\<lambda>i. (i, 1)) relevant"

definition mean_of :: "('q \<Rightarrow> real) \<Rightarrow> 'q list \<Rightarrow> real" where
  "mean_of f qs = sum_list (map f qs) / real (length qs)"

definition ab_summary :: "nat \<Rightarrow> (nat list \<times> nat list \<times> nat list) list \<Rightarrow> ab_result" where
  "ab_summary k rs =
     (if rs = [] then \<lparr>ab_recall_a = 0, ab_recall_b = 0, ab_ndcg_a = 0, ab_ndcg_b = 0, ab_mrr_a = 0, ab_mrr_b = 0\<rparr>
      else \<lparr>ab_recall_a = mean_of (\<lambda>(a, b, rel). recall_at_k a rel k) rs, ab_recall_b = mean_of (\<lambda>(a, b, rel). recall_at_k b rel k) rs,
            ab_ndcg_a = mean_of (\<lambda>(a, b, rel). ndcg_at_k a (binary_grades rel) k) rs,
            ab_ndcg_b = mean_of (\<lambda>(a, b, rel). ndcg_at_k b (binary_grades rel) k) rs,
            ab_mrr_a = mrr (map fst rs) (map (snd \<circ> snd) rs), ab_mrr_b = mrr (map (fst \<circ> snd) rs) (map (snd \<circ> snd) rs)\<rparr>)"

definition run_ab ::
  "(nat \<times> string) list \<Rightarrow> (string \<times> nat list) list \<Rightarrow> real embedder \<Rightarrow> real embedder \<Rightarrow> nat \<Rightarrow> embed_error + ab_result" where
  "run_ab corpus queries ea eb k =
     (case em_batch ea (map snd corpus) of
        Inl e \<Rightarrow> Inl e
      | Inr va \<Rightarrow>
          (case em_batch eb (map snd corpus) of
             Inl e \<Rightarrow> Inl e
           | Inr vb \<Rightarrow> map_sum id (ab_summary k) (ab_rankings ea eb (zip (map fst corpus) va) (zip (map fst corpus) vb) queries)))"

section \<open>Recall\<close>

lemma relevant_hits:
  "distinct ranked \<Longrightarrow> length (filter (\<lambda>i. i \<in> set relevant) (take k ranked)) \<le> length relevant"
proof -
  assume "distinct ranked"
  then have "length (filter (\<lambda>i. i \<in> set relevant) (take k ranked)) = card (set (filter (\<lambda>i. i \<in> set relevant) (take k ranked)))"
    by (simp add: distinct_card del: set_filter)
  also have "\<dots> \<le> card (set relevant)" by (rule card_mono) auto
  also have "\<dots> \<le> length relevant" by (rule card_length)
  finally show ?thesis .
qed

lemma recall_bounds: "distinct ranked \<Longrightarrow> 0 \<le> recall_at_k ranked relevant k \<and> recall_at_k ranked relevant k \<le> 1"
  using relevant_hits[of ranked relevant k] by (simp add: recall_at_k_def)

section \<open>The best ranking\<close>

lemma discount_pos: "0 < discount i"
  by (simp add: discount_def)

lemma discount_mono: "i \<le> j \<Longrightarrow> discount i \<le> discount j"
  by (simp add: discount_def)

text \<open>The gain at a position, none past the end.\<close>

definition gain_at :: "real list \<Rightarrow> nat \<Rightarrow> real" where
  "gain_at gs i = (if i < length gs then gain (gs ! i) else 0)"

lemma dcg_sum: "dcg_from_grades gs k = (\<Sum>i<k. gain_at gs i / discount i)"
proof -
  have pos: "0 < discount i" for i by (rule discount_pos)
  have "map (\<lambda>(i, g). if 0 < discount i then gain g / discount i else 0) (enumerate 0 (take k gs))
      = map (\<lambda>i. gain (gs ! i) / discount i) [0..<min (length gs) k]"
    by (rule nth_equalityI) (simp_all add: nth_enumerate_eq pos)
  then have "dcg_from_grades gs k = sum_list (map (\<lambda>i. gain (gs ! i) / discount i) [0..<min (length gs) k])"
    by (simp add: dcg_from_grades_def)
  also have "\<dots> = (\<Sum>i<min (length gs) k. gain (gs ! i) / discount i)"
    by (simp add: interv_sum_list_conv_sum_set_nat atLeast0LessThan min.commute)
  also have "\<dots> = (\<Sum>i<k. gain_at gs i / discount i)"
    by (rule sum.mono_neutral_cong_left) (auto simp: gain_at_def)
  finally show ?thesis .
qed

text \<open>Dominated prefix sums stay dominated under falling weights.\<close>

lemma weighted_domination:
  fixes x y w :: "nat \<Rightarrow> real"
  assumes "\<And>m. (\<Sum>i<m. x i) \<le> (\<Sum>i<m. y i)" and "\<And>i. w (Suc i) \<le> w i" and "\<And>i. 0 \<le> w i"
  shows "(\<Sum>i<n. x i * w i) \<le> (\<Sum>i<n. y i * w i)"
proof -
  define D where "D m = (\<Sum>i<m. y i - x i)" for m
  have D: "0 \<le> D m" for m using assms(1)[of m] by (simp add: D_def sum_subtractf)
  have "D n * w n \<le> (\<Sum>i<n. (y i - x i) * w i)"
  proof (induction n)
    case (Suc n)
    have "D (Suc n) * w (Suc n) \<le> D (Suc n) * w n" by (rule mult_left_mono[OF assms(2) D])
    also have "\<dots> = D n * w n + (y n - x n) * w n" by (simp add: D_def algebra_simps)
    finally show ?case using Suc by simp
  qed (simp add: D_def)
  moreover have "0 \<le> D n * w n" using D assms(3) by simp
  ultimately show ?thesis by (simp add: left_diff_distrib sum_subtractf)
qed

text \<open>No choice of at most \<open>m\<close> elements of a falling list has a greater sum than its first \<open>m\<close>.\<close>

lemma top_sum:
  fixes ys :: "real list"
  shows "mset as \<subseteq># mset ys \<Longrightarrow> length as \<le> m \<Longrightarrow> sorted_wrt (\<ge>) ys \<Longrightarrow> \<forall>y\<in>set ys. 0 \<le> y \<Longrightarrow> sum_list as \<le> sum_list (take m ys)"
proof (induction ys arbitrary: as m)
  case (Cons y ys)
  show ?case
  proof (cases m)
    case 0
    then show ?thesis using Cons.prems(2) by simp
  next
    case (Suc m')
    show ?thesis
    proof (cases "y \<in> set as")
      case True
      have "mset (remove1 y as) \<subseteq># mset ys" using Cons.prems(1) by (simp add: subset_eq_diff_conv)
      moreover have "length (remove1 y as) \<le> m'" using Cons.prems(2) Suc True by (simp add: length_remove1)
      ultimately have "sum_list (remove1 y as) \<le> sum_list (take m' ys)" using Cons.IH Cons.prems(3,4) by simp
      moreover have "sum_list as = y + sum_list (remove1 y as)" using True by (simp add: sum_list_map_remove1[of y as "\<lambda>x. x", simplified])
      ultimately show ?thesis using Suc by simp
    next
      case False
      then have sub: "mset as \<subseteq># mset ys" using Cons.prems(1)
        by (metis diff_single_trivial mset.simps(2) set_mset_mset subset_eq_diff_conv add_mset_add_single)
      show ?thesis
      proof (cases as)
        case Nil
        have "0 \<le> sum_list (take m (y # ys))"
          by (rule sum_list_nonneg) (use Cons.prems(4) in_set_takeD in fastforce)
        then show ?thesis using Nil by simp
      next
        case (Cons a as')
        have "a \<in> set ys" using sub Cons by (metis list.set_intros(1) mset_subset_eqD set_mset_mset)
        then have "a \<le> y" using Cons.prems(3) by simp
        moreover have "mset as' \<subseteq># mset ys" using sub Cons by (metis mset.simps(2) mset_subset_eq_insertD subset_mset.less_imp_le)
        then have "sum_list as' \<le> sum_list (take m' ys)"
          using Cons.IH Cons.prems(2,3,4) Suc \<open>as = a # as'\<close> by simp
        ultimately show ?thesis using Suc \<open>as = a # as'\<close> by simp
      qed
    qed
  qed
qed simp

lemma gain_prefix: "(\<Sum>i<m. gain_at gs i) = sum_list (map gain (take m gs))"
proof -
  have "sum_list (map gain (take m gs)) = (\<Sum>i<min (length gs) m. gain (gs ! i))"
    by (simp add: sum_list_sum_nth atLeast0LessThan)
  also have "\<dots> = (\<Sum>i<m. gain_at gs i)" by (rule sum.mono_neutral_cong_left) (auto simp: gain_at_def)
  finally show ?thesis by simp
qed

lemma gain_mono: "a \<le> b \<Longrightarrow> gain a \<le> gain b" and gain_zero [simp]: "gain 0 = 0"
  by (simp_all add: gain_def)

lemma gain_nonneg: "0 \<le> g \<Longrightarrow> 0 \<le> gain g"
  using gain_mono[of 0 g] by simp

lemma grade_of_key: "distinct (map fst grades) \<Longrightarrow> (i, g) \<in> set grades \<Longrightarrow> grade_of grades i = g"
  using map_of_eq_Some_iff[of "rev grades" i g] by (simp add: grade_of_def flip: rev_map)

lemma grade_of_none: "i \<notin> fst ` set grades \<Longrightarrow> grade_of grades i = 0"
  by (simp add: grade_of_def map_of_eq_None_iff split: option.split) (metis map_of_eq_None_iff option.distinct(1) set_rev)

lemma grade_of_nonneg: "\<forall>(i, g)\<in>set grades. 0 \<le> g \<Longrightarrow> 0 \<le> grade_of grades i"
  by (auto simp: grade_of_def split: option.split dest!: map_of_SomeD)

text \<open>The grades in falling order are the best ranking at every depth.\<close>

lemma dcg_ideal:
  assumes "distinct ranked" and "distinct (map fst grades)" and "\<forall>(i, g)\<in>set grades. 0 \<le> g"
  shows "dcg_from_grades (map (grade_of grades) ranked) k \<le> dcg_from_grades (rev (sort (map snd grades))) k"
proof -
  let ?ideal = "rev (sort (map snd grades))"
  have ideal: "sorted_wrt (\<ge>) (map gain ?ideal)"
  proof -
    have "sorted_wrt (\<ge>) ?ideal" by (simp add: sorted_wrt_rev)
    then show ?thesis by (simp add: sorted_wrt_map) (rule sorted_wrt_mono_rel[rotated], assumption, simp add: gain_mono)
  qed
  have nonneg: "\<forall>y\<in>set (map gain ?ideal). 0 \<le> y" using assms(3) gain_nonneg by fastforce
  have all: "mset (map gain ?ideal) = image_mset (\<lambda>i. gain (grade_of grades i)) (mset (map fst grades))"
  proof -
    have "map (\<lambda>i. gain (grade_of grades i)) (map fst grades) = map gain (map snd grades)"
      using grade_of_key[OF assms(2)] by auto
    then have "image_mset (\<lambda>i. gain (grade_of grades i)) (mset (map fst grades)) = mset (map gain (map snd grades))"
      by (metis mset_map)
    moreover have "mset (map gain ?ideal) = mset (map gain (map snd grades))" by (simp only: mset_map mset_rev mset_sort)
    ultimately show ?thesis by simp
  qed
  have "(\<Sum>i<m. gain_at (map (grade_of grades) ranked) i) \<le> (\<Sum>i<m. gain_at ?ideal i)" for m
  proof -
    define known where "known = filter (\<lambda>i. i \<in> set (map fst grades)) (take m ranked)"
    have "sum_list (map (\<lambda>i. gain (grade_of grades i)) xs) = sum_list (map (\<lambda>i. gain (grade_of grades i)) (filter (\<lambda>i. i \<in> set (map fst grades)) xs))" for xs
      by (induction xs) (auto simp: grade_of_none)
    then have "(\<Sum>i<m. gain_at (map (grade_of grades) ranked) i) = sum_list (map (\<lambda>i. gain (grade_of grades i)) known)"
      by (simp add: gain_prefix known_def take_map comp_def)
    also have "\<dots> \<le> sum_list (take m (map gain ?ideal))"
    proof (rule top_sum[OF _ _ ideal nonneg])
      have "distinct known" "set known \<subseteq> set (map fst grades)" using assms(1) by (auto simp: known_def)
      then have "mset known \<subseteq># mset (map fst grades)"
        using subset_imp_msubset_mset_set[of "set known" "set (map fst grades)"] assms(2) by (simp add: mset_set_set del: set_map)
      from image_mset_subseteq_mono[OF this, of "\<lambda>i. gain (grade_of grades i)"]
      show "mset (map (\<lambda>i. gain (grade_of grades i)) known) \<subseteq># mset (map gain ?ideal)"
        unfolding all mset_map[of "\<lambda>i. gain (grade_of grades i)"] .
      show "length (map (\<lambda>i. gain (grade_of grades i)) known) \<le> m"
        unfolding known_def length_map by (rule order_trans[OF length_filter_le]) simp
    qed
    also have "\<dots> = (\<Sum>i<m. gain_at ?ideal i)" by (simp add: gain_prefix take_map)
    finally show ?thesis .
  qed
  then have "(\<Sum>i<k. gain_at (map (grade_of grades) ranked) i * (1 / discount i)) \<le> (\<Sum>i<k. gain_at ?ideal i * (1 / discount i))"
  proof (rule weighted_domination)
    show "1 / discount (Suc i) \<le> 1 / discount i" for i using discount_pos discount_mono[of i "Suc i"] by (simp add: frac_le)
    show "0 \<le> 1 / discount i" for i using discount_pos[of i] by simp
  qed
  then show ?thesis by (simp add: dcg_sum)
qed

lemma dcg_nonneg: "\<forall>g\<in>set gs. 0 \<le> g \<Longrightarrow> 0 \<le> dcg_from_grades gs k"
  unfolding dcg_sum by (intro sum_nonneg) (simp add: gain_at_def gain_nonneg discount_pos less_imp_le)

text \<open>
  For a ranking without repetition and grades that are not negative, one per chunk, the
  normalised gain lies between 0 and 1, and no ranking is better than the one by falling grades.
\<close>

lemma ndcg_range:
  assumes "distinct ranked" and "distinct (map fst grades)" and "\<forall>(i, g)\<in>set grades. 0 \<le> g"
  shows "0 \<le> ndcg_at_k ranked grades k \<and> ndcg_at_k ranked grades k \<le> 1"
proof -
  have "0 \<le> dcg_from_grades (map (grade_of grades) ranked) k"
    using grade_of_nonneg[OF assms(3)] by (intro dcg_nonneg) auto
  then show ?thesis using dcg_ideal[OF assms, of k] by (auto simp: ndcg_at_k_def Let_def)
qed

theorem ndcg_bounds:
  assumes "distinct ranked" and "distinct (map fst grades)" and "\<forall>(i, g)\<in>set grades. 0 \<le> g"
  shows "0 \<le> ndcg_at_k ranked grades k \<and> ndcg_at_k ranked grades k \<le> 1"
  by (rule ndcg_range[OF assms])

section \<open>Reciprocal ranks\<close>

lemma reciprocal_range: "0 \<le> reciprocal_rank ranked relevant \<and> reciprocal_rank ranked relevant \<le> 1"
  by (auto simp: reciprocal_rank_def split: option.split)

lemma sum_list_range: "\<forall>x\<in>set xs. 0 \<le> x \<and> x \<le> (1::real) \<Longrightarrow> 0 \<le> sum_list xs \<and> sum_list xs \<le> real (length xs)"
  by (induction xs) auto

lemma mean_range: "\<forall>q\<in>set qs. 0 \<le> f q \<and> f q \<le> 1 \<Longrightarrow> 0 \<le> mean_of f qs \<and> mean_of f qs \<le> 1"
  using sum_list_range[of "map f qs"] by (cases "qs = []") (auto simp: mean_of_def divide_le_eq)

lemma mrr_range: "0 \<le> mrr rs qs \<and> mrr rs qs \<le> 1"
proof -
  have "\<forall>x\<in>set (map2 reciprocal_rank rs qs). 0 \<le> x \<and> x \<le> 1" using reciprocal_range by auto
  from sum_list_range[OF this] show ?thesis by (auto simp: mrr_def divide_le_eq)
qed

section \<open>The harness\<close>

lemma ranking_ids: "mset (rank_by_similarity q corpus) = mset (map fst corpus)"
proof -
  have "mset (rank_by_similarity q corpus) = image_mset fst (mset (map (\<lambda>(i, e). (i, ab_cosine q e)) corpus))"
    unfolding rank_by_similarity_def mset_map[symmetric] by (simp only: mset_map mset_sort)
  also have "\<dots> = mset (map (fst \<circ> (\<lambda>(i, e). (i, ab_cosine q e))) corpus)" by (simp only: mset_map image_mset.compositionality)
  also have "fst \<circ> (\<lambda>(i, e). (i, ab_cosine q e)) = fst" by auto
  finally show ?thesis .
qed

lemma ranking_distinct: "distinct (map fst corpus) \<Longrightarrow> distinct (rank_by_similarity q corpus)"
  using ranking_ids[of q corpus] mset_eq_imp_distinct_iff by blast

lemma ab_rankings_distinct:
  assumes "distinct (map fst ca)" "distinct (map fst cb)"
  shows "ab_rankings ea eb ca cb qs = Inr rs \<Longrightarrow> \<forall>(a, b, rel)\<in>set rs. distinct a \<and> distinct b \<and> (\<exists>q. (q, rel) \<in> set qs)"
proof (induction qs arbitrary: rs)
  case (Cons q qs)
  then show ?case using ranking_distinct assms
    by (cases q) (fastforce split: sum.splits simp: map_sum_def)
qed simp

text \<open>
  Over a corpus with distinct ids and queries whose relevant chunks are named once, every
  figure of the comparison lies between 0 and 1.
\<close>

theorem ab_figures_bounded:
  assumes "run_ab corpus queries ea eb k = Inr r" and "distinct (map fst corpus)" and "\<forall>(q, rel)\<in>set queries. distinct rel"
  shows "\<forall>x\<in>{ab_recall_a r, ab_recall_b r, ab_ndcg_a r, ab_ndcg_b r, ab_mrr_a r, ab_mrr_b r}. 0 \<le> x \<and> x \<le> 1"
proof -
  obtain va vb rs where rs: "ab_rankings ea eb (zip (map fst corpus) va) (zip (map fst corpus) vb) queries = Inr rs" "r = ab_summary k rs"
    using assms(1) by (auto simp: run_ab_def map_sum_def split: sum.splits)
  have "distinct (map fst (zip (map fst corpus) vs))" for vs :: "real list list"
    using assms(2) by (simp add: map_fst_zip_take)
  then have all: "\<forall>(a, b, rel)\<in>set rs. distinct a \<and> distinct b \<and> distinct rel"
    using ab_rankings_distinct[OF _ _ rs(1)] assms(3) by fastforce
  have grades: "distinct (map fst (binary_grades rel)) \<longleftrightarrow> distinct rel" "\<forall>(i, g)\<in>set (binary_grades rel). 0 \<le> g" for rel
    by (auto simp: binary_grades_def comp_def)
  have "0 \<le> mean_of (\<lambda>(a, b, rel). recall_at_k a rel k) rs \<and> mean_of (\<lambda>(a, b, rel). recall_at_k a rel k) rs \<le> 1"
    "0 \<le> mean_of (\<lambda>(a, b, rel). recall_at_k b rel k) rs \<and> mean_of (\<lambda>(a, b, rel). recall_at_k b rel k) rs \<le> 1"
    "0 \<le> mean_of (\<lambda>(a, b, rel). ndcg_at_k a (binary_grades rel) k) rs \<and> mean_of (\<lambda>(a, b, rel). ndcg_at_k a (binary_grades rel) k) rs \<le> 1"
    "0 \<le> mean_of (\<lambda>(a, b, rel). ndcg_at_k b (binary_grades rel) k) rs \<and> mean_of (\<lambda>(a, b, rel). ndcg_at_k b (binary_grades rel) k) rs \<le> 1"
    using all recall_bounds ndcg_range grades by (intro mean_range; fastforce)+
  then show ?thesis using mrr_range by (simp add: rs(2) ab_summary_def)
qed

text \<open>The comparison does not prefer a side: swapping the embedders swaps the figures, when neither fails.\<close>

definition swap_result :: "ab_result \<Rightarrow> ab_result" where
  "swap_result r = \<lparr>ab_recall_a = ab_recall_b r, ab_recall_b = ab_recall_a r, ab_ndcg_a = ab_ndcg_b r, ab_ndcg_b = ab_ndcg_a r,
     ab_mrr_a = ab_mrr_b r, ab_mrr_b = ab_mrr_a r\<rparr>"

lemma ab_rankings_swap:
  "ab_rankings ea eb ca cb qs = Inr rs \<Longrightarrow> ab_rankings eb ea cb ca qs = Inr (map (\<lambda>(a, b, rel). (b, a, rel)) rs)"
proof (induction qs arbitrary: rs)
  case (Cons q qs)
  then show ?case by (cases q) (auto split: sum.splits simp: map_sum_def)
qed simp

theorem ab_symmetric:
  assumes "run_ab corpus queries ea eb k = Inr r"
  shows "run_ab corpus queries eb ea k = Inr (swap_result r)"
proof -
  obtain va vb rs where v: "em_batch ea (map snd corpus) = Inr va" "em_batch eb (map snd corpus) = Inr vb"
    and rs: "ab_rankings ea eb (zip (map fst corpus) va) (zip (map fst corpus) vb) queries = Inr rs" "r = ab_summary k rs"
    using assms by (auto simp: run_ab_def map_sum_def split: sum.splits)
  have "ab_summary k (map (\<lambda>(a, b, rel). (b, a, rel)) rs) = swap_result (ab_summary k rs)"
    by (simp add: ab_summary_def swap_result_def mean_of_def comp_def case_prod_beta')
  then show ?thesis using ab_rankings_swap[OF rs(1)] by (simp add: run_ab_def v rs(2))
qed

text \<open>A chunk that is listed twice counts twice: a ranking with repetitions can have a gain above that of the ideal one.\<close>

lemma repeated_chunk_exceeds: "1 < recall_at_k [7, 7] [7] 2"
  by (simp add: recall_at_k_def)

section \<open>Examples\<close>

definition demo_ab :: "real embedder" where
  "demo_ab = \<lparr>em_embed = (\<lambda>t. Inr [real (length t), 1]), em_batch = (\<lambda>ts. Inr (map (\<lambda>t. [real (length t), 1]) ts)), em_dims = 2\<rparr>"

lemma ndcg_bounds_witness:
  "0 \<le> ndcg_at_k [3, 1, 2] [(1, 2), (2, 1)] 2 \<and> ndcg_at_k [3, 1, 2] [(1, 2), (2, 1)] 2 \<le> 1"
  by (rule ndcg_bounds) simp_all

lemma demo_ab_runs:
  "\<exists>r. run_ab [(1, ''a''), (2, ''bb'')] [(''q'', [1])] demo_ab demo_ab 1 = Inr r"
  by (simp add: run_ab_def demo_ab_def map_sum_def)

lemma ab_figures_bounded_witness:
  "\<exists>r. run_ab [(1, ''a''), (2, ''bb'')] [(''q'', [1])] demo_ab demo_ab 1 = Inr r \<and> 0 \<le> ab_mrr_a r \<and> ab_ndcg_b r \<le> 1"
proof -
  obtain r where "run_ab [(1, ''a''), (2, ''bb'')] [(''q'', [1])] demo_ab demo_ab 1 = Inr r" using demo_ab_runs by blast
  with ab_figures_bounded[OF this] show ?thesis by simp
qed

lemma ab_symmetric_witness:
  "\<exists>r. run_ab [(1, ''a''), (2, ''bb'')] [(''q'', [1])] demo_ab demo_ab 1 = Inr r \<and> r = swap_result r"
proof -
  obtain r where "run_ab [(1, ''a''), (2, ''bb'')] [(''q'', [1])] demo_ab demo_ab 1 = Inr r" using demo_ab_runs by blast
  with ab_symmetric[OF this] show ?thesis by simp
qed

end
