(* ===== verification/Spec2Isabelle.thy ===== *)
theory Spec2Isabelle
  imports Rlm_Queue Rlm_Review Quorum Access Chunk_Store Pending_Qa Qa_Cache Qa_Plan Context_Budget Vector_Space
    Confidence Explorations Chunk_Index Projects Index_Stream Qa_Service Reconcile Exploration_Service Rlm_Service
    Work_Tables Maintenance Search_Service File_Filters Embed_Cache Chunkers Wiki Llm_Client Salience
    Knowledge Providers Client_Config Watch Volunteer Ab_Metrics
begin

text \<open>
  A verification development of the server, the storage layer and the client libraries of
  \<^verbatim>\<open>arags\<close>, a retrieval service that keeps chunks of source code, summaries written by
  volunteers, cached answers and exploration maps in SQLite tables with vector indexes beside
  them. Paths below are relative to \<^verbatim>\<open>src/crates/\<close>. This theory imports the others, holds no
  definitions of its own and describes the whole.

  \<^bold>\<open>The program and its parts.\<close>
  A client (\<^verbatim>\<open>arags-cli\<close>) walks a project, drops ignored files and streams the rest to the
  server (\<^verbatim>\<open>arags-server\<close>), which cuts them into chunks, writes them as revisions of the
  chunk tables (\<^verbatim>\<open>arags-storage\<close>), embeds them (\<^verbatim>\<open>arags-embedding\<close>) and, at the end of a
  stream, retires what is no longer in the project, marks the answers and maps that rest on
  changed chunks as stale and enqueues summary jobs for changed files. Volunteers claim these
  jobs, submit summaries, and an administrator or a quorum of submissions decides about them.
  A search fuses three tiers of chunks with summaries and maps; an answer cache decides how much
  of a question must be digested again. Background passes rebuild vectors, consolidate and
  expire memory. All calls work on the same tables, one call at a time: the tables sit behind one
  lock, so a call is a function from a state to a result and a new state, and an interleaving
  of calls is a sequence of them.

  \<^bold>\<open>Theories and the code they model.\<close>
  \<^item> \<open>Prelude\<close>, \<open>Rust_Text\<close>, \<open>Rust_Bytes\<close>: SQL tables as row lists, machine integer readings,
    and the parts of Rust's standard library on strings that the components use.
  \<^item> \<open>Supersede\<close>: the contract of a table with revision history, as the locales
    \<open>revision_store\<close> and \<open>supersede_store\<close>; interpreted on the summary nodes, the cached answers
    and the exploration maps.
  \<^item> \<open>Chunk_Store\<close>, \<open>Chunk_Index\<close>, \<open>Projects\<close>, \<open>Index_Stream\<close>: the chunk tables
    (\<^verbatim>\<open>arags-storage/src/sqlite/chunks*\<close>, \<^verbatim>\<open>arags-server/src/store/chunks.rs\<close>), the cutting of
    files (\<^verbatim>\<open>arags-server/src/indexing.rs\<close>), buffers and projects, and the state machine of one
    index stream (\<^verbatim>\<open>arags-server/src/grpc/index.rs\<close>).
  \<^item> \<open>Rlm_Jobs\<close>, \<open>Rlm_Queue\<close>, \<open>Rlm_Nodes\<close>, \<open>Rlm_Review\<close>, \<open>Rlm_Motor\<close>, \<open>Rlm_Service\<close>: the summary
    pipeline, its job queue as a transition system, its nodes and provenance graph
    (\<^verbatim>\<open>arags-storage/src/sqlite/rlm/\<close>), what enqueues work (\<^verbatim>\<open>arags-server/src/store/rlm.rs\<close>) and the
    calls (\<^verbatim>\<open>arags-server/src/grpc/rlm/\<close>).
  \<^item> \<open>Submissions\<close>, \<open>Similarity\<close>, \<open>Clique\<close>, \<open>Quorum\<close>: candidate submissions and trust
    (\<^verbatim>\<open>arags-storage/src/sqlite/submissions.rs\<close>), and the quorum decision with its clique search
    over 32-bit masks (\<^verbatim>\<open>arags-server/src/quorum.rs\<close>).
  \<^item> \<open>Access\<close>: tokens, sessions, roles and the rate limiter.
  \<^item> \<open>Qa_Cache\<close>, \<open>Pending_Qa\<close>, \<open>Qa_Plan\<close>, \<open>Qa_Service\<close>: the answer cache
    (\<^verbatim>\<open>arags-storage/src/sqlite/qa_cache/\<close>, \<^verbatim>\<open>pending_qa.rs\<close>), the planner
    (\<^verbatim>\<open>arags-core/src/qa_cache/\<close>) and the calls (\<^verbatim>\<open>arags-server/src/grpc/query_cache/\<close>).
  \<^item> \<open>Confidence\<close>, \<open>Explorations\<close>, \<open>Exploration_Service\<close>: exploration maps with their anchors,
    feedback, review and calls.
  \<^item> \<open>Search_Tiers\<close>, \<open>Rank_Fusion\<close>, \<open>Context_Budget\<close>, \<open>Search_Service\<close>: the three tiers, their
    fusion (\<^verbatim>\<open>arags-search/src/\<close>), the budgets of an answer and the search calls
    (\<^verbatim>\<open>arags-server/src/grpc/search/\<close>).
  \<^item> \<open>Vector_Space\<close>, \<open>Reconcile\<close>: vector spaces with their files, the rebuild at start-up
    (\<^verbatim>\<open>arags-server/src/bootstrap.rs\<close>) and the pass over pending vectors
    (\<^verbatim>\<open>arags-server/src/reconcile.rs\<close>), whose four loops are one definition; the locales
    \<open>keyed_store\<close> and \<open>pending_table\<close> are interpreted on two kinds of space and four tables.
  \<^item> \<open>Work_Tables\<close>, \<open>Maintenance\<close>, \<open>Salience\<close>, \<open>Wiki\<close>, \<open>Knowledge\<close>: tasks, findings, patterns,
    history, audit log and result cache; consolidation and expiry
    (\<^verbatim>\<open>arags-server/src/maintenance.rs\<close>, \<^verbatim>\<open>arags-memory/src/consolidation.rs\<close>); salience; wiki
    pages; the local indexer, projects and transfers of \<^verbatim>\<open>arags-memory\<close>.
  \<^item> \<open>File_Filters\<close>, \<open>Chunkers\<close>, \<open>Embed_Cache\<close>: which files are read, the chunking strategies of
    the ingestion library and the embedders behind their cache (locale
    \<open>deterministic_embedder\<close>, interpreted on the two hash-based embedders).
  \<^item> \<open>Llm_Client\<close>, \<open>Providers\<close>: retries, fallback, context windows and token budget of
    \<^verbatim>\<open>arags-llm\<close>, and its backends (\<^verbatim>\<open>arags-llm/src/config.rs\<close>, \<^verbatim>\<open>config/presets.rs\<close>, \<^verbatim>\<open>factory.rs\<close>,
    \<^verbatim>\<open>backend.rs\<close>, \<^verbatim>\<open>backend/family/\<close>): which backend a configuration gives, the request each family
    builds and how it reads the reply, over JSON values.
  \<^item> \<open>Client_Config\<close>, \<open>Watch\<close>, \<open>Volunteer\<close>: the client's scopes of settings
    (\<^verbatim>\<open>arags-cli/src/user_config/\<close>, \<^verbatim>\<open>backend.rs\<close>), the daemon that watches a directory
    (\<^verbatim>\<open>watcher.rs\<close>, \<^verbatim>\<open>dispatch/watch_daemon.rs\<close>) on the index stream of \<open>Index_Stream\<close>, and the
    volunteer's loop (\<^verbatim>\<open>volunteer.rs\<close>) on the calls of \<open>Rlm_Service\<close>, with the signatures of
    \<^verbatim>\<open>arags-core/src/rlm_attestation.rs\<close>.
  \<^item> \<open>Ab_Metrics\<close>: the comparison of two embedders
    (\<^verbatim>\<open>arags-embedding/src/embedder/ab_metrics.rs\<close>).

  \<^bold>\<open>What the lemmas show.\<close>
  \<^item> The queue of summary jobs: the invariant of every reachable state, exclusive leases,
    completion at most once, one slot per volunteer in a group, progress of a claim.
  \<^item> The quorum: the clique search returns a largest agreeing set of greatest least similarity
    for up to 31 candidates; a decision accepts only a set above the threshold; how many candidates
    two sets large enough to be accepted share, and how many faulty volunteers leave an honest one
    among them; strikes; a subject is fanned out again at most as often as the strikes limit says,
    in any run; repeating a decision.
  \<^item> Publication: only an administrator or a quorum makes a summary or a map findable; a
    revoked token opens nothing; the bounds of the rate limiter.
  \<^item> Revision history: one live revision per key, gapless versions, a walk that ends at the
    live revision; what deletions do to the walk.
  \<^item> Indexing: what is live after a stream equals what the client sent; a stream never touches
    an anchor; chunks cover a file within the budget and with the overlap.
  \<^item> The answer cache: a stored answer is found by its question, an answer served is live,
    fresh and of the project; the planner's bounds and its monotonicity.
  \<^item> Search: rank fusion against a reference definition for every order of the hash map, the
    source of each part of an answer, its size, and what time travel does to it.
  \<^item> Vectors: a space reopened is the space saved; what a pass of the repair counts, stores and
    leaves pending; with a working embedder one pass leaves nothing but rows without a text.
  \<^item> Files, chunkers, caches, wiki and local indexing: matchers against the languages of their patterns,
    which bytes reach a chunk, when a splitter returns, panics or runs for ever, transparency of the
    embedding cache, round trips of pages, what a transfer copies.
  \<^item> Maintenance: what survives a pass, typing of the tables under every operation.
  \<^item> Clients: the key of a backend leaves only where its scheme says, every message of a conversation is sent,
    merging scopes is map override for named backends, a watched change is flushed or still
    waiting, what a flush leaves in the index, a summary is submitted only for the job it was
    made for, an honest signature is accepted; the normalised gain of a ranking lies between 0 and 1.

  \<^bold>\<open>Modelling decisions.\<close>
  \<^item> A table is the list of its rows in rowid order. Tables with \<open>AUTOINCREMENT\<close> carry their sequence.
    \<open>i64\<close> columns are integers; \<open>u32\<close> arithmetic wraps (release profile) and is written out.
    A violated constraint is an outcome of the statement; a failure of the database itself is not
    modelled. Foreign keys are enforced (the default of the bundled SQLite).
  \<^item> \<open>f32\<close> and \<open>f64\<close> are reals; the vectors in the embedding cache are 32-bit patterns.
  \<^item> A string is the list of its bytes; where a pattern counts characters, text is ASCII. A slice
    that may panic gives an option.
  \<^item> Arguments stand for what the sources only call: UUIDs, FTS5, usearch, embedding models, the token
    counter, zstd, SHA-256 and HMAC, JSON and YAML codecs, the regular expressions of the entity extractor,
    lower-casing and number formatting beyond ASCII, the network, and clock readings (one
    instant per call). The order of a \<open>HashMap\<close> is an argument too, and results that do not
    depend on it are proved so.
  \<^item> Embedding tasks of a stream are committed where they are drained; groups that a client sends
    in parallel are modelled one after the other.
  \<^item> A directory is a tree in the order of \<open>read_dir\<close>, without links. The file system of the
    wiki is a set of directories and a list of files.

  \<^bold>\<open>Bounds and fuel.\<close>
  The clique search is exact for up to 31 candidates, the width of its masks. History walks and
  the chunk family are \<open>partial_function (option)\<close>, with separate proofs that they end on
  reachable tables. \<open>hard_split\<close> and \<open>shrink_tail\<close> run with the length of the content as fuel;
  a lemma shows that this is enough for \<open>shrink_tail\<close>, and theorems show when the splitter
  returns and when no fuel is enough. \<open>file_pieces\<close> runs with one more than the length of the
  file, enough whenever the piece size is at least 100 bytes, and no fuel is enough for a
  smaller size on some files.

  \<^bold>\<open>Not modelled.\<close>
  \<^item> The rest of the command line of \<^verbatim>\<open>arags-cli\<close>: argument parsing, dialogues, output formats and
    the calls to the server that only carry their arguments.
  \<^item> Start-up, shutdown, the configuration structures and the wiring of the calls in
    \<^verbatim>\<open>arags-server\<close> (\<^verbatim>\<open>main\<close>, \<^verbatim>\<open>state\<close>, \<^verbatim>\<open>lifecycle\<close>, \<^verbatim>\<open>admin\<close>, \<^verbatim>\<open>grpc/mod.rs\<close>, \<^verbatim>\<open>config/*\<close>): their checks
    appear where a modelled call uses them.
  \<^item> Neural embedders (\<^verbatim>\<open>minilm\<close>, \<^verbatim>\<open>ollama\<close>, \<^verbatim>\<open>llama_cpp\<close>) and the timing of their benchmark:
    numerical libraries and HTTP. The network below a request to a language model is an argument.
  \<^item> Connections, migrations and the schema of SQLite; the generated protocol code; logging, timers
    and metrics.
  \<^item> Concurrency inside a call: locks are held for a whole statement or transaction, and the model
    runs calls one after another. Floating point rounding and values that are not finite.
\<close>

end
